(* ===== verification/Prelude.thy ===== *)
theory Prelude
  imports Main "HOL-Library.Word"
begin

text \<open>
  Shared vocabulary of the development: names for Rust's machine types, checked and
  saturating arithmetic, bounds-checked slices (\<open>slice::get\<close>, \<open>first_chunk\<close>,
  \<open>copy_from_slice\<close>), little-endian conversion, and the lemmas on them that the
  component theories use.  \<open>usize\<close> is \<^typ>\<open>nat\<close>: the code only computes offsets from
  32-bit values and lengths, which do not overflow 64 bits.
\<close>

unbundle bit_operations_syntax

named_theorems len_simps \<open>operations that keep the length of a byte region\<close>

type_synonym u8 = "8 word"
type_synonym u16 = "16 word"
type_synonym u32 = "32 word"
type_synonym u64 = "64 word"
type_synonym bytes = "8 word list"

section \<open>Checked and saturating arithmetic\<close>

definition checked_add :: "'a::len word \<Rightarrow> 'a word \<Rightarrow> 'a word option" where
  "checked_add a b = (if unat a + unat b < 2 ^ LENGTH('a) then Some (a + b) else None)"

definition checked_sub :: "'a::len word \<Rightarrow> 'a word \<Rightarrow> 'a word option" where
  "checked_sub a b = (if b \<le> a then Some (a - b) else None)"

definition checked_mul :: "'a::len word \<Rightarrow> 'a word \<Rightarrow> 'a word option" where
  "checked_mul a b = (if unat a * unat b < 2 ^ LENGTH('a) then Some (a * b) else None)"

definition sat_add :: "'a::len word \<Rightarrow> 'a word \<Rightarrow> 'a word" where
  "sat_add a b = (if unat a + unat b < 2 ^ LENGTH('a) then a + b else - 1)"

definition sat_sub :: "'a::len word \<Rightarrow> 'a word \<Rightarrow> 'a word" where
  "sat_sub a b = (if b \<le> a then a - b else 0)"

text \<open>Shifts of Rust's \<open>wrapping_shl\<close> and \<open>wrapping_shr\<close> mask the count.\<close>

definition wrapping_shl :: "'a::len word \<Rightarrow> u32 \<Rightarrow> 'a word" where
  "wrapping_shl a n = push_bit (unat n mod LENGTH('a)) a"

definition wrapping_shr :: "'a::len word \<Rightarrow> u32 \<Rightarrow> 'a word" where
  "wrapping_shr a n = drop_bit (unat n mod LENGTH('a)) a"

definition wrapping_sar :: "'a::len word \<Rightarrow> u32 \<Rightarrow> 'a word" where
  "wrapping_sar a n = signed_drop_bit (unat n mod LENGTH('a)) a"

lemma checked_add_Some:
  "checked_add a b = Some c \<Longrightarrow> unat c = unat a + unat b"
  by (auto simp: checked_add_def unat_word_ariths split: if_splits)

lemma checked_sub_Some:
  "checked_sub a b = Some c \<Longrightarrow> b \<le> a \<and> unat c = unat a - unat b"
  by (auto simp: checked_sub_def unat_sub split: if_splits)

lemma checked_sub_None: "checked_sub a b = None \<longleftrightarrow> a < b"
  by (auto simp: checked_sub_def)

lemma checked_mul_Some:
  "checked_mul a b = Some c \<Longrightarrow> unat c = unat a * unat b"
  by (auto simp: checked_mul_def unat_word_ariths split: if_splits)

lemma unat_sat_sub: "unat (sat_sub a b) = unat a - unat b"
  by (auto simp: sat_sub_def unat_sub not_le word_less_nat_alt)

lemma unat_sat_add:
  "unat (sat_add (a :: 'a::len word) b) = min (unat a + unat b) (2 ^ LENGTH('a) - 1)"
proof (cases "unat a + unat b < 2 ^ LENGTH('a)")
  case True
  then show ?thesis by (simp add: sat_add_def unat_word_ariths)
next
  case False
  have "unat (- 1 :: 'a word) = 2 ^ LENGTH('a) - 1" by (simp add: unsigned_minus_1_eq_mask mask_eq_exp_minus_1)
  with False show ?thesis by (simp add: sat_add_def)
qed

lemma unat_of_nat_small:
  "x < 2 ^ LENGTH('a) \<Longrightarrow> unat (of_nat x :: 'a::len word) = x"
  by (simp add: unsigned_of_nat take_bit_nat_eq_self)

lemma unat_u32_bound: "unat (w :: u32) < 2 ^ 32"
  using unsigned_less [of w] by simp

lemma of_nat_eq_u32: "x < 2 ^ 32 \<Longrightarrow> of_nat x = (w :: u32) \<longleftrightarrow> x = unat w"
  using unat_of_nat_small [of x, where 'a = 32] by auto

section \<open>Bounds-checked slices\<close>

text \<open>\<open>data.get(a..b)\<close>, \<open>data.get(a..)\<close> and \<open>data.get(i)\<close>.\<close>

definition slice :: "'a list \<Rightarrow> nat \<Rightarrow> nat \<Rightarrow> 'a list option" where
  "slice xs a b = (if a \<le> b \<and> b \<le> length xs then Some (take (b - a) (drop a xs)) else None)"

definition slice_from :: "'a list \<Rightarrow> nat \<Rightarrow> 'a list option" where
  "slice_from xs a = (if a \<le> length xs then Some (drop a xs) else None)"

definition nth_opt :: "'a list \<Rightarrow> nat \<Rightarrow> 'a option" where
  "nth_opt xs i = (if i < length xs then Some (xs ! i) else None)"

text \<open>\<open>first_chunk::<N>\<close>.\<close>

definition first_chunk :: "nat \<Rightarrow> 'a list \<Rightarrow> 'a list option" where
  "first_chunk n xs = (if n \<le> length xs then Some (take n xs) else None)"

text \<open>\<open>copy_from_slice\<close> into \<open>get_mut(a..a + ys.len())\<close>, in range.\<close>

definition splice :: "'a list \<Rightarrow> nat \<Rightarrow> 'a list \<Rightarrow> 'a list" where
  "splice xs a ys = take a xs @ ys @ drop (a + length ys) xs"

lemma length_splice [simp, len_simps]:
  "a + length ys \<le> length xs \<Longrightarrow> length (splice xs a ys) = length xs"
  by (simp add: splice_def)

lemma splice_nth:
  assumes "a + length ys \<le> length xs" "i < length xs"
  shows "splice xs a ys ! i = (if a \<le> i \<and> i < a + length ys then ys ! (i - a) else xs ! i)"
  using assms by (auto simp: splice_def nth_append min_def)

lemma splice_get_same:
  assumes "a + length ys \<le> length xs"
  shows "take (length ys) (drop a (splice xs a ys)) = ys"
  using assms by (simp add: splice_def)

lemma splice_get_other:
  assumes "a + length ys \<le> length xs" "b + n \<le> length xs" "b + n \<le> a \<or> a + length ys \<le> b"
  shows "take n (drop b (splice xs a ys)) = take n (drop b xs)"
proof (rule nth_equalityI)
  show "length (take n (drop b (splice xs a ys))) = length (take n (drop b xs))"
    using assms by simp
  fix i assume "i < length (take n (drop b (splice xs a ys)))"
  then show "take n (drop b (splice xs a ys)) ! i = take n (drop b xs) ! i"
    using assms by (auto simp: splice_nth)
qed

lemma slice_Some:
  "slice xs a b = Some ys \<Longrightarrow> a \<le> b \<and> b \<le> length xs \<and> length ys = b - a"
  by (auto simp: slice_def split: if_splits)

lemma first_chunk_Some: "first_chunk n xs = Some ys \<Longrightarrow> length ys = n \<and> n \<le> length xs"
  by (auto simp: first_chunk_def split: if_splits)

lemma nth_opt_Some: "nth_opt xs i = Some x \<longleftrightarrow> i < length xs \<and> xs ! i = x"
  by (auto simp: nth_opt_def)

lemma nth_opt_None: "nth_opt xs i = None \<longleftrightarrow> length xs \<le> i"
  by (auto simp: nth_opt_def)

lemma nth_opt_update:
  "nth_opt (xs[i := x]) j = (if j = i \<and> i < length xs then Some x else nth_opt xs j)"
  by (auto simp: nth_opt_def)

section \<open>Little-endian conversion\<close>

text \<open>\<open>to_le_bytes\<close> and \<open>from_le_bytes\<close> at any width.\<close>

definition le_bytes :: "nat \<Rightarrow> 'a::len word \<Rightarrow> bytes" where
  "le_bytes n w = map (\<lambda>i. ucast (drop_bit (8 * i) w)) [0..<n]"

primrec le_word :: "bytes \<Rightarrow> 'a::len word" where
  "le_word [] = 0"
| "le_word (b # bs) = ucast b OR push_bit 8 (le_word bs)"

lemma length_le_bytes [simp]: "length (le_bytes n w) = n"
  by (simp add: le_bytes_def)

lemma bit_le_word:
  "bit (le_word bs :: 'a::len word) k \<longleftrightarrow>
     k < LENGTH('a) \<and> k < 8 * length bs \<and> bit (bs ! (k div 8)) (k mod 8)"
proof (induction bs arbitrary: k)
  case Nil
  then show ?case by simp
next
  case (Cons b bs)
  show ?case
  proof (cases "k < 8")
    case True
    then show ?thesis
      by (auto simp: bit_or_iff bit_push_bit_iff bit_ucast_iff)
  next
    case False
    then obtain j where k: "k = j + 8" by (metis add.commute le_add_diff_inverse not_less)
    have "\<not> bit b (j + 8)" by (auto dest: bit_imp_le_length)
    moreover have "(j + 8) div 8 = Suc (j div 8)" by simp
    ultimately show ?thesis
      using Cons.IH [of j]
      by (auto simp: k bit_or_iff bit_push_bit_iff bit_ucast_iff)
  qed
qed

lemma le_word_le_bytes [simp]:
  assumes "LENGTH('a) = 8 * n"
  shows "(le_word (le_bytes n w) :: 'a::len word) = w"
proof (rule bit_word_eqI)
  fix k assume k: "k < LENGTH('a)"
  then have "k div 8 < n" using assms by auto
  then have "le_bytes n w ! (k div 8) = ucast (drop_bit (8 * (k div 8)) w)"
    by (simp add: le_bytes_def)
  moreover have "8 * (k div 8) + k mod 8 = k" by simp
  ultimately show "bit (le_word (le_bytes n w) :: 'a word) k = bit w k"
    using k assms by (simp add: bit_le_word bit_ucast_iff bit_drop_bit_eq)
qed

lemma le_bytes_le_word [simp]:
  assumes "length bs = n" "LENGTH('a) = 8 * n"
  shows "le_bytes n (le_word bs :: 'a::len word) = bs"
proof (rule nth_equalityI)
  show "length (le_bytes n (le_word bs :: 'a word)) = length bs" using assms by simp
  fix i assume "i < length (le_bytes n (le_word bs :: 'a word))"
  then have i: "i < n" by simp
  show "le_bytes n (le_word bs :: 'a word) ! i = bs ! i"
  proof (rule bit_word_eqI)
    fix k assume "k < LENGTH(8)"
    then have k: "k < 8" by simp
    have "8 * i + k < 8 * n" using i k by linarith
    moreover have "(8 * i + k) div 8 = i" "(8 * i + k) mod 8 = k" using k by auto
    ultimately show "bit (le_bytes n (le_word bs :: 'a word) ! i) k = bit (bs ! i) k"
      using i k assms by (simp add: le_bytes_def bit_ucast_iff bit_drop_bit_eq bit_le_word)
  qed
qed

section \<open>Results\<close>

text \<open>A \<open>Result\<close> is a sum with the error on the left; \<open>?\<close> is its bind.\<close>

definition bind_res :: "'e + 'a \<Rightarrow> ('a \<Rightarrow> 'e + 'b) \<Rightarrow> 'e + 'b" where
  "bind_res r f = (case r of Inl e \<Rightarrow> Inl e | Inr x \<Rightarrow> f x)"

definition ok_or :: "'a option \<Rightarrow> 'e \<Rightarrow> 'e + 'a" where
  "ok_or x e = (case x of None \<Rightarrow> Inl e | Some v \<Rightarrow> Inr v)"

lemma bind_res_Inr: "bind_res r f = Inr y \<longleftrightarrow> (\<exists>x. r = Inr x \<and> f x = Inr y)"
  by (auto simp: bind_res_def split: sum.splits)

lemma ok_or_Inr [simp]: "ok_or x e = Inr v \<longleftrightarrow> x = Some v"
  by (auto simp: ok_or_def split: option.splits)

lemma ok_or_Inl [simp]: "ok_or x e = Inl e' \<longleftrightarrow> x = None \<and> e' = e"
  by (auto simp: ok_or_def split: option.splits)

end
