(* ===== verification/Bytes.thy ===== *)
theory Bytes
  imports Prelude
begin

text \<open>
  \<open>src/bytes.rs\<close>: panic-free little-endian access to byte slices, with the round-trip and
  frame laws the memory model rests on.
\<close>

definition u16_at :: "bytes \<Rightarrow> nat \<Rightarrow> u16 option" where
  "u16_at data off =
     map_option le_word (Option.bind (slice_from data off) (first_chunk 2))"

definition u32_at :: "bytes \<Rightarrow> nat \<Rightarrow> u32 option" where
  "u32_at data off =
     map_option le_word (Option.bind (slice data off (off + 4)) (first_chunk 4))"

text \<open>The \<open>bool\<close> result of \<open>put_u32\<close> is the first component.\<close>

definition put_u32 :: "bytes \<Rightarrow> nat \<Rightarrow> u32 \<Rightarrow> bool \<times> bytes" where
  "put_u32 data off v =
     (if off + 4 \<le> length data then (True, splice data off (le_bytes 4 v)) else (False, data))"

definition position0 :: "bytes \<Rightarrow> nat option" where
  "position0 bs = (let n = length (takeWhile (\<lambda>b. b \<noteq> 0) bs)
                   in if n < length bs then Some n else None)"

definition until_nul :: "bytes \<Rightarrow> bytes" where
  "until_nul data = take (case position0 data of Some n \<Rightarrow> n | None \<Rightarrow> length data) data"

definition cstr_at :: "bytes \<Rightarrow> nat \<Rightarrow> bytes" where
  "cstr_at data off =
     (let tail = (case slice_from data off of Some t \<Rightarrow> t | None \<Rightarrow> []);
          e = (case position0 tail of Some n \<Rightarrow> n | None \<Rightarrow> length tail)
      in take e tail)"

abbreviation usize_from :: "u32 \<Rightarrow> nat" where
  "usize_from v \<equiv> unat v"

section \<open>Laws\<close>

lemma u32_at_eq:
  "u32_at d o' = (if o' + 4 \<le> length d then Some (le_word (take 4 (drop o' d))) else None)"
  by (auto simp: u32_at_def slice_def first_chunk_def)

lemma u32_at_None: "u32_at d o' = None \<longleftrightarrow> length d < o' + 4"
  by (auto simp: u32_at_eq)

lemma put_u32_ok [simp]: "fst (put_u32 d o' v) \<longleftrightarrow> o' + 4 \<le> length d"
  by (simp add: put_u32_def)

lemma length_put_u32 [simp, len_simps]: "length (snd (put_u32 d o' v)) = length d"
  by (simp add: put_u32_def)

lemma u32_at_put_same: "o' + 4 \<le> length d \<Longrightarrow> u32_at (snd (put_u32 d o' v)) o' = Some v"
  using splice_get_same [of o' "le_bytes 4 v" d] by (simp add: put_u32_def u32_at_eq)

lemma u32_at_put_other:
  "o' + 4 \<le> p \<or> p + 4 \<le> o' \<Longrightarrow> u32_at (snd (put_u32 d o' v)) p = u32_at d p"
  by (auto simp: put_u32_def u32_at_eq splice_get_other)

lemma put_u32_same_word: "u32_at d o' = Some v \<Longrightarrow> snd (put_u32 d o' v) = d"
proof -
  assume a: "u32_at d o' = Some v"
  then have len: "o' + 4 \<le> length d" and v: "v = le_word (take 4 (drop o' d))"
    by (auto simp: u32_at_eq split: if_splits)
  have "le_bytes 4 v = take 4 (drop o' d)" using len by (simp add: v)
  then show ?thesis
    using len by (simp add: put_u32_def splice_def)
      (metis add.commute append_take_drop_id drop_drop)
qed

lemma position0_take:
  "take (case position0 d of Some n \<Rightarrow> n | None \<Rightarrow> length d) d = takeWhile (\<lambda>b. b \<noteq> 0) d"
proof -
  have t: "take (length (takeWhile (\<lambda>b. b \<noteq> 0) d)) d = takeWhile (\<lambda>b. b \<noteq> 0) d"
    by (rule takeWhile_eq_take [symmetric])
  have "length d \<le> length (takeWhile (\<lambda>b. b \<noteq> 0) d) \<Longrightarrow> takeWhile (\<lambda>b. b \<noteq> 0) d = d"
    using t by simp
  with t show ?thesis by (auto simp: position0_def Let_def not_less)
qed

lemma until_nul_eq: "until_nul d = takeWhile (\<lambda>b. b \<noteq> 0) d"
  by (simp add: until_nul_def position0_take)

lemma cstr_at_eq: "cstr_at d o' = takeWhile (\<lambda>b. b \<noteq> 0) (drop o' d)"
  by (simp add: cstr_at_def Let_def position0_take slice_from_def)

lemma until_nul_nonzero: "0 \<notin> set (until_nul d)"
  by (auto simp: until_nul_eq dest: set_takeWhileD)

lemma until_nul_append: "0 \<notin> set t \<Longrightarrow> until_nul (t @ 0 # r) = t"
proof (induction t)
  case (Cons b t)
  then have "b \<noteq> 0" by auto
  with Cons show ?case by (simp add: until_nul_eq)
qed (simp add: until_nul_eq)

end
