(* ===== verification/Ieee.thy ===== *)
theory Ieee
  imports Prelude
begin

text \<open>
  Rust's \<open>f32\<close> and \<open>f64\<close> as the code uses them.  A float is its bit pattern, a
  \<^typ>\<open>u32\<close> or \<^typ>\<open>u64\<close>, so \<open>from_bits\<close> and \<open>to_bits\<close> are the identity.  An operation
  decodes its operands to exact values, computes exactly, and rounds to nearest, ties to
  even.  Rust leaves the bits of a NaN result open within documented limits; the model takes
  the preferred NaN (quiet bit set, payload zero, positive), one of the allowed results, and
  no property of the development depends on the choice.
\<close>

section \<open>Formats and exact values\<close>

record float_fmt =
  prec :: nat
  emin :: int
  infb :: nat

definition f32_fmt :: float_fmt where
  "f32_fmt = \<lparr>prec = 24, emin = - 149, infb = 2139095040\<rparr>"

definition f64_fmt :: float_fmt where
  "f64_fmt = \<lparr>prec = 53, emin = - 1074, infb = 9218868437227405312\<rparr>"

text \<open>\<open>FFin s m e\<close> is \<open>\<plusminus> m \<cdot> 2\<^sup>e\<close>, negative if \<open>s\<close>; zero keeps its sign.\<close>

datatype fval = FNaN | FInf bool | FFin bool nat int

definition decode_mag :: "float_fmt \<Rightarrow> bool \<Rightarrow> nat \<Rightarrow> fval" where
  "decode_mag fm s b =
     (if infb fm < b then FNaN
      else if b = infb fm then FInf s
      else let f = b mod 2 ^ (prec fm - 1); e = b div 2 ^ (prec fm - 1)
           in if e = 0 then FFin s f (emin fm)
              else FFin s (f + 2 ^ (prec fm - 1)) (emin fm + int e - 1))"

fun bit_len :: "nat \<Rightarrow> nat" where
  "bit_len n = (if n = 0 then 0 else Suc (bit_len (n div 2)))"

declare bit_len.simps [simp del]

text \<open>\<open>m / 2\<^sup>k\<close> to the nearest integer, ties to even.\<close>

definition rne_shift :: "nat \<Rightarrow> nat \<Rightarrow> nat" where
  "rne_shift m k =
     (if k = 0 then m
      else let q = m div 2 ^ k; r = m mod 2 ^ k
           in if 2 ^ (k - 1) < r \<or> (r = 2 ^ (k - 1) \<and> odd q) then q + 1 else q)"

text \<open>
  The magnitude bits of the float nearest to \<open>m \<cdot> 2\<^sup>e\<close>.  With quantum \<open>2\<^sup>q\<close> the bits are
  \<open>(q - emin) \<cdot> 2\<^bsup>prec-1\<^esup> + m'\<close>: a carry out of the significand lands in the exponent
  field.
\<close>

definition round_mag :: "float_fmt \<Rightarrow> nat \<Rightarrow> int \<Rightarrow> nat" where
  "round_mag fm m e =
     (if m = 0 then 0
      else let q = max (e + int (bit_len m) - int (prec fm)) (emin fm);
               m' = (if q \<le> e then m * 2 ^ nat (e - q) else rne_shift m (nat (q - e)))
           in min (nat (q - emin fm) * 2 ^ (prec fm - 1) + m') (infb fm))"

definition f32_val :: "u32 \<Rightarrow> fval" where
  "f32_val w = decode_mag f32_fmt (2 ^ 31 \<le> unat w) (unat w mod 2 ^ 31)"

definition f64_val :: "u64 \<Rightarrow> fval" where
  "f64_val w = decode_mag f64_fmt (2 ^ 63 \<le> unat w) (unat w mod 2 ^ 63)"

definition f32_of :: "fval \<Rightarrow> u32" where
  "f32_of v = (case v of
       FNaN \<Rightarrow> 0x7FC00000
     | FInf s \<Rightarrow> of_nat (infb f32_fmt + (if s then 2 ^ 31 else 0))
     | FFin s m e \<Rightarrow> of_nat (round_mag f32_fmt m e + (if s then 2 ^ 31 else 0)))"

definition f64_of :: "fval \<Rightarrow> u64" where
  "f64_of v = (case v of
       FNaN \<Rightarrow> 0x7FF8000000000000
     | FInf s \<Rightarrow> of_nat (infb f64_fmt + (if s then 2 ^ 63 else 0))
     | FFin s m e \<Rightarrow> of_nat (round_mag f64_fmt m e + (if s then 2 ^ 63 else 0)))"

section \<open>Exact operations\<close>

definition fscale :: "bool \<Rightarrow> nat \<Rightarrow> int \<Rightarrow> int \<Rightarrow> int" where
  "fscale s m e b = (if s then - 1 else 1) * int m * 2 ^ nat (e - b)"

fun fneg :: "fval \<Rightarrow> fval" where
  "fneg FNaN = FNaN"
| "fneg (FInf s) = FInf (\<not> s)"
| "fneg (FFin s m e) = FFin (\<not> s) m e"

fun fadd :: "fval \<Rightarrow> fval \<Rightarrow> fval" where
  "fadd FNaN _ = FNaN"
| "fadd _ FNaN = FNaN"
| "fadd (FInf s) (FInf t) = (if s = t then FInf s else FNaN)"
| "fadd (FInf s) _ = FInf s"
| "fadd _ (FInf t) = FInf t"
| "fadd (FFin s m e) (FFin t n f) =
     (let b = min e f; i = fscale s m e b + fscale t n f b
      in if i = 0 then FFin (s \<and> t) 0 b else FFin (i < 0) (nat \<bar>i\<bar>) b)"

definition fsub :: "fval \<Rightarrow> fval \<Rightarrow> fval" where
  "fsub x y = fadd x (fneg y)"

fun fmul :: "fval \<Rightarrow> fval \<Rightarrow> fval" where
  "fmul FNaN _ = FNaN"
| "fmul _ FNaN = FNaN"
| "fmul (FInf s) (FInf t) = FInf (s \<noteq> t)"
| "fmul (FInf s) (FFin t n f) = (if n = 0 then FNaN else FInf (s \<noteq> t))"
| "fmul (FFin s m e) (FInf t) = (if m = 0 then FNaN else FInf (s \<noteq> t))"
| "fmul (FFin s m e) (FFin t n f) = FFin (s \<noteq> t) (m * n) (e + f)"

text \<open>
  A quotient is not a dyadic number: it is computed to more than \<open>p + 1\<close> bits, and a last
  (sticky) bit records whether the division left a remainder, so rounding it to \<open>p\<close> bits is
  rounding the exact quotient.
\<close>

fun fdiv :: "nat \<Rightarrow> fval \<Rightarrow> fval \<Rightarrow> fval" where
  "fdiv p FNaN _ = FNaN"
| "fdiv p _ FNaN = FNaN"
| "fdiv p (FInf s) (FInf t) = FNaN"
| "fdiv p (FInf s) (FFin t n f) = FInf (s \<noteq> t)"
| "fdiv p (FFin s m e) (FInf t) = FFin (s \<noteq> t) 0 0"
| "fdiv p (FFin s m e) (FFin t n f) =
     (if n = 0 then (if m = 0 then FNaN else FInf (s \<noteq> t))
      else if m = 0 then FFin (s \<noteq> t) 0 0
      else let k = p + 2 + bit_len n - bit_len m;
               q = m * 2 ^ k div n; r = m * 2 ^ k mod n
           in FFin (s \<noteq> t) (2 * q + (if r = 0 then 0 else 1)) (e - f - int k - 1))"

fun flt :: "fval \<Rightarrow> fval \<Rightarrow> bool" where
  "flt FNaN _ = False"
| "flt _ FNaN = False"
| "flt (FInf s) (FInf t) = (s \<and> \<not> t)"
| "flt (FInf s) _ = s"
| "flt _ (FInf t) = (\<not> t)"
| "flt (FFin s m e) (FFin t n f) = (fscale s m e (min e f) < fscale t n f (min e f))"

fun feq :: "fval \<Rightarrow> fval \<Rightarrow> bool" where
  "feq FNaN _ = False"
| "feq _ FNaN = False"
| "feq (FInf s) (FInf t) = (s = t)"
| "feq (FInf s) _ = False"
| "feq _ (FInf t) = False"
| "feq (FFin s m e) (FFin t n f) = (fscale s m e (min e f) = fscale t n f (min e f))"

text \<open>The integer part (towards zero) of a finite value.\<close>

fun ftrunc :: "fval \<Rightarrow> int" where
  "ftrunc (FFin s m e) =
     (if s then - 1 else 1) * int (if 0 \<le> e then m * 2 ^ nat e else m div 2 ^ nat (- e))"
| "ftrunc _ = 0"

section \<open>The operators of the source\<close>

definition f32_add where "f32_add (a :: u32) (b :: u32) = f32_of (fadd (f32_val a) (f32_val b))"
definition f32_sub where "f32_sub (a :: u32) (b :: u32) = f32_of (fsub (f32_val a) (f32_val b))"
definition f32_mul where "f32_mul (a :: u32) (b :: u32) = f32_of (fmul (f32_val a) (f32_val b))"
definition f32_div where "f32_div (a :: u32) (b :: u32) = f32_of (fdiv 24 (f32_val a) (f32_val b))"
definition f32_lt where "f32_lt (a :: u32) (b :: u32) = flt (f32_val a) (f32_val b)"
definition f32_eq where "f32_eq (a :: u32) (b :: u32) = feq (f32_val a) (f32_val b)"
definition f32_le where "f32_le (a :: u32) (b :: u32) = (f32_lt a b \<or> f32_eq a b)"
definition f32_is_nan where "f32_is_nan (a :: u32) = (f32_val a = FNaN)"

definition f64_add where "f64_add (a :: u64) (b :: u64) = f64_of (fadd (f64_val a) (f64_val b))"
definition f64_sub where "f64_sub (a :: u64) (b :: u64) = f64_of (fsub (f64_val a) (f64_val b))"
definition f64_mul where "f64_mul (a :: u64) (b :: u64) = f64_of (fmul (f64_val a) (f64_val b))"
definition f64_div where "f64_div (a :: u64) (b :: u64) = f64_of (fdiv 53 (f64_val a) (f64_val b))"
definition f64_lt where "f64_lt (a :: u64) (b :: u64) = flt (f64_val a) (f64_val b)"
definition f64_eq where "f64_eq (a :: u64) (b :: u64) = feq (f64_val a) (f64_val b)"
definition f64_le where "f64_le (a :: u64) (b :: u64) = (f64_lt a b \<or> f64_eq a b)"
definition f64_is_nan where "f64_is_nan (a :: u64) = (f64_val a = FNaN)"

text \<open>Casts between integers and floats (\<open>as\<close> and \<open>From\<close>).\<close>

definition fval_of_int :: "int \<Rightarrow> fval" where
  "fval_of_int i = FFin (i < 0) (nat \<bar>i\<bar>) 0"

definition f32_of_int :: "int \<Rightarrow> u32" where "f32_of_int i = f32_of (fval_of_int i)"
definition f64_of_int :: "int \<Rightarrow> u64" where "f64_of_int i = f64_of (fval_of_int i)"
definition f64_of_f32 :: "u32 \<Rightarrow> u64" where "f64_of_f32 w = f64_of (f32_val w)"
definition f32_of_f64 :: "u64 \<Rightarrow> u32" where "f32_of_f64 w = f32_of (f64_val w)"

text \<open>\<open>f as iN\<close> saturates; NaN gives 0.\<close>

definition sat_cast :: "int \<Rightarrow> int \<Rightarrow> fval \<Rightarrow> int" where
  "sat_cast lo hi v = (case v of
       FNaN \<Rightarrow> 0
     | FInf s \<Rightarrow> (if s then lo else hi)
     | FFin s m e \<Rightarrow> max lo (min hi (ftrunc v)))"

definition f32_as_i32 :: "u32 \<Rightarrow> u32" where
  "f32_as_i32 w = word_of_int (sat_cast (- 2147483648) 2147483647 (f32_val w))"

definition f64_as_i64 :: "u64 \<Rightarrow> u64" where
  "f64_as_i64 w =
     word_of_int (sat_cast (- 9223372036854775808) 9223372036854775807 (f64_val w))"

section \<open>Decoding and rounding\<close>

lemma bit_len_0 [simp]: "bit_len 0 = 0"
  by (simp add: bit_len.simps)

lemma bit_len_bounds: "m \<noteq> 0 \<Longrightarrow> 2 ^ (bit_len m - 1) \<le> m \<and> m < 2 ^ bit_len m \<and> 0 < bit_len m"
proof (induction m rule: bit_len.induct)
  case (1 m)
  show ?case
  proof (cases "m div 2 = 0")
    case True
    then have "m = 1" using 1 by auto
    then show ?thesis by (simp add: bit_len.simps)
  next
    case False
    with 1 have ih: "2 ^ (bit_len (m div 2) - 1) \<le> m div 2" "m div 2 < 2 ^ bit_len (m div 2)"
      "0 < bit_len (m div 2)" by auto
    have b: "bit_len m = Suc (bit_len (m div 2))" using 1 by (simp add: bit_len.simps [of m])
    obtain k where k: "bit_len (m div 2) = Suc k" using ih(3) by (cases "bit_len (m div 2)") auto
    show ?thesis using ih b k by auto
  qed
qed

lemma bit_len_le: "m < 2 ^ p \<Longrightarrow> bit_len m \<le> p"
proof (cases "m = 0")
  case False
  assume "m < 2 ^ p"
  with bit_len_bounds [OF False] have "(2::nat) ^ (bit_len m - 1) < 2 ^ p" by linarith
  then have "bit_len m - 1 < p" by (rule power_less_imp_less_exp [rotated]) simp
  then show ?thesis by linarith
qed simp

lemma bit_len_eq: "2 ^ p \<le> m \<Longrightarrow> m < 2 ^ Suc p \<Longrightarrow> bit_len m = Suc p"
proof -
  assume a: "2 ^ p \<le> m" "m < 2 ^ Suc p"
  then have m: "m \<noteq> 0" by auto
  from a bit_len_bounds [OF m] have "(2::nat) ^ p < 2 ^ bit_len m" by linarith
  then have "p < bit_len m" by (rule power_less_imp_less_exp [rotated]) simp
  with bit_len_le [OF a(2)] show ?thesis by linarith
qed

text \<open>Encoding a decoded magnitude gives it back: every finite float is exact.\<close>

lemma round_decode_mag:
  assumes "decode_mag fm s b = FFin t m e" "1 < prec fm"
  shows "round_mag fm m e = b \<and> t = s"
proof -
  obtain p where p: "prec fm = Suc p" "0 < p" using assms(2) by (cases "prec fm") auto
  have lt: "b < infb fm"
    using assms(1) by (auto simp: decode_mag_def split: if_splits)
  define f where "f = b mod 2 ^ p"
  define x where "x = b div 2 ^ p"
  have f: "f < 2 ^ p" by (simp add: f_def)
  have b: "b = x * 2 ^ p + f" by (simp only: f_def x_def div_mult_mod_eq)
  show ?thesis
  proof (cases "x = 0")
    case True
    then have v: "m = f" "e = emin fm" "t = s"
      using assms(1) lt by (auto simp: decode_mag_def p f_def [symmetric] x_def [symmetric])
    show ?thesis
    proof (cases "f = 0")
      case True
      then show ?thesis using v b \<open>x = 0\<close> by (simp add: round_mag_def)
    next
      case False
      have "int (bit_len f) \<le> int p" using bit_len_le [OF f] by simp
      then have "max (emin fm + int (bit_len f) - int (Suc p)) (emin fm) = emin fm" by simp
      then show ?thesis using False v b \<open>x = 0\<close> lt
        by (simp add: round_mag_def p Let_def)
    qed
  next
    case False
    then have v: "m = f + 2 ^ p" "e = emin fm + int x - 1" "t = s"
      using assms(1) lt by (auto simp: decode_mag_def p f_def [symmetric] x_def [symmetric])
    have len: "bit_len m = Suc p" using f by (intro bit_len_eq) (auto simp: v)
    have q: "max (e + int (bit_len m) - int (prec fm)) (emin fm) = e"
      using False by (simp add: len p v(2))
    have "nat (e - emin fm) = x - 1" using False by (simp add: v nat_diff_distrib')
    moreover have "(x - 1) * 2 ^ p + m = b"
      using False b by (cases x) (auto simp: v)
    moreover have "m \<noteq> 0" by (simp add: v(1))
    ultimately have "round_mag fm m e = b"
      using lt q unfolding round_mag_def Let_def by (simp add: p)
    with v(3) show ?thesis by simp
  qed
qed

lemma f32_of_val:
  assumes "f32_val w \<noteq> FNaN"
  shows "f32_of (f32_val w) = w"
proof -
  define s where "s = (2 ^ 31 \<le> unat w)"
  define b where "b = unat w mod 2 ^ 31"
  have v: "f32_val w = decode_mag f32_fmt s b" by (simp add: f32_val_def s_def b_def)
  have "unat w < 2 ^ 32" using unsigned_less [of w] by simp
  then have w: "b + (if s then 2 ^ 31 else 0) = unat w"
    by (auto simp: b_def s_def mod_if)
  show ?thesis
  proof (cases "f32_val w")
    case (FInf t)
    then have "b = infb f32_fmt" "t = s" using v by (auto simp: decode_mag_def Let_def split: if_splits)
    then show ?thesis using FInf w by (simp add: f32_of_def del: of_nat_add)
  next
    case (FFin t m e)
    then have "round_mag f32_fmt m e = b" "t = s"
      using round_decode_mag [of f32_fmt s b t m e] v by (auto simp: f32_fmt_def)
    then show ?thesis using FFin w by (simp add: f32_of_def del: of_nat_add)
  qed (use assms in simp)
qed

end
