(* ===== verification/Numeric.thy ===== *)
theory Numeric
  imports Ieee
begin

text \<open>
  \<open>src/vm/num.rs\<close>: the conversions between floats and integers, with the results an x86
  gives on every platform, the two truth conversions, and splitting 64-bit values in words.
\<close>

definition i32_min :: u32 where "i32_min = 0x80000000"
definition i32_max :: u32 where "i32_max = 0x7FFFFFFF"
definition i64_min :: u64 where "i64_min = 0x8000000000000000"

definition f2i :: "u32 \<Rightarrow> u32" where
  "f2i f = (if f32_is_nan f \<or> \<not> (f32_le 0xCF000000 f \<and> f32_lt f 0x4F000000)
            then i32_min else f32_as_i32 f)"

definition d2i64 :: "u64 \<Rightarrow> u64" where
  "d2i64 d = (if f64_is_nan d \<or> \<not> (f64_le 0xC3E0000000000000 d \<and> f64_lt d 0x43E0000000000000)
              then i64_min else f64_as_i64 d)"

definition f2u :: "u32 \<Rightarrow> u32" where
  "f2u f = ucast (d2i64 (f64_of_f32 f))"

definition d2u64 :: "u64 \<Rightarrow> u64" where
  "d2u64 d =
     (if f64_is_nan d then push_bit 63 1
      else if f64_lt d 0x43E0000000000000 then d2i64 d
      else d2i64 (f64_sub d 0x43E0000000000000) XOR push_bit 63 1)"

definition float_true :: "u32 \<Rightarrow> bool" where
  "float_true bits = (bits AND 0x7FFFFFFF \<noteq> 0)"

definition fbool :: "bool \<Rightarrow> u32" where
  "fbool b = (if b then 0x3F800000 else 0)"

definition ibool :: "bool \<Rightarrow> u32" where
  "ibool b = (if b then 1 else 0)"

definition join64 :: "u32 \<Rightarrow> u32 \<Rightarrow> u64" where
  "join64 lo hi = ucast lo OR push_bit 32 (ucast hi)"

definition split64 :: "u64 \<Rightarrow> u32 \<times> u32" where
  "split64 v = (ucast v, ucast (drop_bit 32 v))"

section \<open>Words and truth values\<close>

lemma split64_join64 [simp]: "split64 (join64 lo hi) = (lo, hi)"
  by (auto simp: split64_def join64_def intro!: bit_word_eqI)
    (auto simp: bit_ucast_iff bit_or_iff bit_push_bit_iff bit_drop_bit_eq dest: bit_imp_le_length)

lemma join64_split64 [simp]: "split64 v = (lo, hi) \<Longrightarrow> join64 lo hi = v"
  by (auto simp: split64_def join64_def intro!: bit_word_eqI)
    (auto simp: bit_ucast_iff bit_or_iff bit_push_bit_iff bit_drop_bit_eq)

lemma fbool_true [simp]: "float_true (fbool b) \<longleftrightarrow> b"
  by (simp add: float_true_def fbool_def)

lemma ibool_nonzero [simp]: "ibool b \<noteq> 0 \<longleftrightarrow> b" "ibool b = 0 \<longleftrightarrow> \<not> b"
  by (auto simp: ibool_def)

section \<open>Comparison with integer bounds\<close>

lemma flt_int_bound:
  assumes "0 \<le> f"
  shows "flt (FFin s m e) (FFin False n f) \<longleftrightarrow> ftrunc (FFin s m e) < int n * 2 ^ nat f \<or>
     (s \<and> 0 < m \<and> n = 0)"
proof (cases "0 \<le> e")
  case True
  define b where "b = min e f"
  have b: "0 \<le> b" using True assms by (simp add: b_def)
  have e: "(2::int) ^ nat e = 2 ^ nat (e - b) * 2 ^ nat b"
    using b by (simp add: b_def flip: power_add nat_add_distrib)
  have f: "(2::int) ^ nat f = 2 ^ nat (f - b) * 2 ^ nat b"
    using b by (simp add: b_def flip: power_add nat_add_distrib)
  have "flt (FFin s m e) (FFin False n f) \<longleftrightarrow>
      fscale s m e b * 2 ^ nat b < fscale False n f b * 2 ^ nat b"
    by (simp add: b_def)
  also have "\<dots> \<longleftrightarrow> ftrunc (FFin s m e) < int n * 2 ^ nat f"
    using True by (simp add: fscale_def e f mult.assoc)
  finally show ?thesis using True by auto
next
  case False
  define k where "k = nat (- e)"
  have mn: "min e f = e" using False assms by simp
  have "nat (f - e) = nat f + k" using False assms by (simp add: k_def nat_add_distrib [symmetric])
  then have rhs: "fscale False n f e = int (n * 2 ^ nat f * 2 ^ k)"
    by (simp add: fscale_def power_add mult.assoc)
  have lhs: "fscale s m e e = (if s then - int m else int m)"
    by (simp add: fscale_def)
  have tr: "ftrunc (FFin s m e) = (if s then - int (m div 2 ^ k) else int (m div 2 ^ k))"
    using False by (simp add: k_def)
  have pos: "m < n * 2 ^ nat f * 2 ^ k \<longleftrightarrow> m div 2 ^ k < n * 2 ^ nat f"
    by (simp add: div_less_iff_less_mult)
  show ?thesis
  proof (cases s)
    case False
    have "flt (FFin s m e) (FFin False n f) \<longleftrightarrow> int m < int (n * 2 ^ nat f * 2 ^ k)"
      using False rhs by (simp add: mn) (simp add: fscale_def)
    also have "\<dots> \<longleftrightarrow> m div 2 ^ k < n * 2 ^ nat f" by (simp only: of_nat_less_iff pos)
    also have "\<dots> \<longleftrightarrow> int (m div 2 ^ k) < int (n * 2 ^ nat f)" by (simp only: of_nat_less_iff)
    also have "\<dots> \<longleftrightarrow> ftrunc (FFin s m e) < int n * 2 ^ nat f"
      using False tr by (simp del: ftrunc.simps)
    finally show ?thesis using False by blast
  next
    case True
    have "- int m < int (n * 2 ^ nat f * 2 ^ k) \<longleftrightarrow> 0 < m \<or> 0 < n"
      by (cases "n = 0") (auto simp: zero_less_mult_iff intro: le_less_trans [of _ 0])
    moreover have "- int (m div 2 ^ k) < int n * 2 ^ nat f \<longleftrightarrow> 0 < n \<or> 0 < m div 2 ^ k"
      by (cases "n = 0") (auto simp: zero_less_mult_iff intro: le_less_trans [of _ 0])
    moreover have "0 < m div 2 ^ k \<Longrightarrow> 0 < m" by (cases m) auto
    moreover have "flt (FFin s m e) (FFin False n f) \<longleftrightarrow> - int m < int (n * 2 ^ nat f * 2 ^ k)"
      using True rhs lhs by (simp add: mn)
    moreover have "ftrunc (FFin s m e) = - int (m div 2 ^ k)" using True tr by simp
    ultimately show ?thesis using True by (metis gr0I)
  qed
qed

lemma fle_neg_int_bound:
  assumes "0 \<le> f"
  shows "flt (FFin True n f) (FFin s m e) \<or> feq (FFin True n f) (FFin s m e)
           \<Longrightarrow> - (int n * 2 ^ nat f) \<le> ftrunc (FFin s m e)" (is "?le \<Longrightarrow> ?low")
    and "\<not> (flt (FFin True n f) (FFin s m e) \<or> feq (FFin True n f) (FFin s m e))
           \<Longrightarrow> ftrunc (FFin s m e) \<le> - (int n * 2 ^ nat f)"
proof -
  have le: "?le \<longleftrightarrow> fscale True n f (min f e) \<le> fscale s m e (min f e)"
    by simp (simp add: order_le_less)
  have both: "(?le \<longrightarrow> ?low) \<and> (\<not> ?le \<longrightarrow> ftrunc (FFin s m e) \<le> - (int n * 2 ^ nat f))"
  proof (cases "0 \<le> e")
    case True
    define b where "b = min f e"
    have b: "0 \<le> b" using True assms by (simp add: b_def)
    have e: "(2::int) ^ nat e = 2 ^ nat (e - b) * 2 ^ nat b"
      using b by (simp add: b_def flip: power_add nat_add_distrib)
    have f: "(2::int) ^ nat f = 2 ^ nat (f - b) * 2 ^ nat b"
      using b by (simp add: b_def flip: power_add nat_add_distrib)
    have "?le \<longleftrightarrow> fscale True n f b * 2 ^ nat b \<le> fscale s m e b * 2 ^ nat b"
      unfolding le b_def by simp
    also have "\<dots> \<longleftrightarrow> - (int n * 2 ^ nat f) \<le> ftrunc (FFin s m e)"
      using True by (simp add: fscale_def e f mult.assoc)
    finally show ?thesis by linarith
  next
    case False
    define k where "k = nat (- e)"
    have mn: "min f e = e" using False assms by simp
    have "nat (f - e) = nat f + k" using False assms by (simp add: k_def nat_add_distrib [symmetric])
    then have lhs: "fscale True n f e = - int (n * 2 ^ nat f * 2 ^ k)"
      by (simp add: fscale_def power_add mult.assoc)
    have rhs: "fscale s m e e = (if s then - int m else int m)"
      by (simp add: fscale_def)
    have tr: "ftrunc (FFin s m e) = (if s then - int (m div 2 ^ k) else int (m div 2 ^ k))"
      using False by (simp add: k_def)
    have N: "int n * 2 ^ nat f = int (n * 2 ^ nat f)" by simp
    have up: "m \<le> n * 2 ^ nat f * 2 ^ k \<Longrightarrow> m div 2 ^ k \<le> n * 2 ^ nat f"
      by (metis div_le_mono nonzero_mult_div_cancel_right power_not_zero zero_neq_numeral)
    have dn: "\<not> m \<le> n * 2 ^ nat f * 2 ^ k \<Longrightarrow> n * 2 ^ nat f \<le> m div 2 ^ k"
      by (simp add: less_eq_div_iff_mult_less_eq)
    show ?thesis
    proof (cases s)
      case True
      then have "?le \<longleftrightarrow> m \<le> n * 2 ^ nat f * 2 ^ k"
        unfolding le mn lhs rhs by (simp del: of_nat_mult of_nat_power)
      then show ?thesis
        using up dn True unfolding tr N by (auto simp del: flt.simps feq.simps of_nat_mult of_nat_power)
    next
      case False
      have "- int (n * 2 ^ nat f * 2 ^ k) \<le> int m" by linarith
      then have "?le" using False unfolding le mn lhs rhs by simp
      moreover have "- int (n * 2 ^ nat f) \<le> int (m div 2 ^ k)" by linarith
      ultimately show ?thesis using False unfolding tr N by simp
    qed
  qed
  show "?le \<Longrightarrow> ?low" using both by blast
  show "\<not> ?le \<Longrightarrow> ftrunc (FFin s m e) \<le> - (int n * 2 ^ nat f)" using both by blast
qed

section \<open>Float to integer\<close>

text \<open>The result of a conversion to \<open>n\<close>-bit integers: the truncated value, or the minimum.\<close>

definition trunc_or_min :: "nat \<Rightarrow> fval \<Rightarrow> int" where
  "trunc_or_min n v =
     (case v of FFin s m e \<Rightarrow>
        (if - (2 ^ (n - 1)) \<le> ftrunc v \<and> ftrunc v < 2 ^ (n - 1) then ftrunc v else - (2 ^ (n - 1)))
      | _ \<Rightarrow> - (2 ^ (n - 1)))"

lemma f32_bounds [simp]:
  "f32_val 0x4F000000 = FFin False (2 ^ 23) 8" "f32_val 0xCF000000 = FFin True (2 ^ 23) 8"
  by (simp_all add: f32_val_def decode_mag_def f32_fmt_def)

lemma f64_bounds [simp]:
  "f64_val 0x43E0000000000000 = FFin False (2 ^ 52) 11"
  "f64_val 0xC3E0000000000000 = FFin True (2 ^ 52) 11"
  by (simp_all add: f64_val_def decode_mag_def f64_fmt_def)

lemma f2i_eq: "f2i w = word_of_int (trunc_or_min 32 (f32_val w))"
proof (cases "f32_val w")
  case (FFin s m e)
  let ?v = "FFin s m e"
  have hi: "f32_lt w 0x4F000000 \<longleftrightarrow> ftrunc ?v < 2147483648"
    using flt_int_bound [of 8 s m e "2 ^ 23"] by (simp add: f32_lt_def FFin del: ftrunc.simps flt.simps)
  have lo: "f32_le 0xCF000000 w \<Longrightarrow> - 2147483648 \<le> ftrunc ?v"
    "\<not> f32_le 0xCF000000 w \<Longrightarrow> ftrunc ?v \<le> - 2147483648"
    using fle_neg_int_bound [of 8 "2 ^ 23" s m e]
    by (simp_all add: f32_le_def f32_lt_def f32_eq_def FFin del: ftrunc.simps flt.simps feq.simps)
  show ?thesis
  proof (cases "f32_le 0xCF000000 w \<and> f32_lt w 0x4F000000")
    case True
    then have "- 2147483648 \<le> ftrunc ?v" "ftrunc ?v < 2147483648" using hi lo(1) by blast+
    with True show ?thesis
      by (simp add: f2i_def f32_is_nan_def FFin f32_as_i32_def sat_cast_def trunc_or_min_def
          min_absorb2 max_absorb2 del: ftrunc.simps)
  next
    case False
    then have "ftrunc ?v \<le> - 2147483648 \<or> 2147483648 \<le> ftrunc ?v" using hi lo(2) by force
    with False show ?thesis
      by (auto simp: f2i_def FFin trunc_or_min_def i32_min_def simp del: ftrunc.simps)
  qed
qed (auto simp: f2i_def f32_is_nan_def f32_le_def f32_lt_def f32_eq_def trunc_or_min_def i32_min_def)

lemma d2i64_eq: "d2i64 w = word_of_int (trunc_or_min 64 (f64_val w))"
proof (cases "f64_val w")
  case (FFin s m e)
  let ?v = "FFin s m e"
  have hi: "f64_lt w 0x43E0000000000000 \<longleftrightarrow> ftrunc ?v < 9223372036854775808"
    using flt_int_bound [of 11 s m e "2 ^ 52"] by (simp add: f64_lt_def FFin del: ftrunc.simps flt.simps)
  have lo: "f64_le 0xC3E0000000000000 w \<Longrightarrow> - 9223372036854775808 \<le> ftrunc ?v"
    "\<not> f64_le 0xC3E0000000000000 w \<Longrightarrow> ftrunc ?v \<le> - 9223372036854775808"
    using fle_neg_int_bound [of 11 "2 ^ 52" s m e]
    by (simp_all add: f64_le_def f64_lt_def f64_eq_def FFin del: ftrunc.simps flt.simps feq.simps)
  show ?thesis
  proof (cases "f64_le 0xC3E0000000000000 w \<and> f64_lt w 0x43E0000000000000")
    case True
    then have "- 9223372036854775808 \<le> ftrunc ?v" "ftrunc ?v < 9223372036854775808"
      using hi lo(1) by blast+
    with True show ?thesis
      by (simp add: d2i64_def f64_is_nan_def FFin f64_as_i64_def sat_cast_def trunc_or_min_def
          min_absorb2 max_absorb2 del: ftrunc.simps)
  next
    case False
    then have "ftrunc ?v \<le> - 9223372036854775808 \<or> 9223372036854775808 \<le> ftrunc ?v"
      using hi lo(2) by force
    with False show ?thesis
      by (auto simp: d2i64_def FFin trunc_or_min_def i64_min_def simp del: ftrunc.simps)
  qed
qed (auto simp: d2i64_def f64_is_nan_def f64_le_def f64_lt_def f64_eq_def trunc_or_min_def i64_min_def)

text \<open>The conversions to integers truncate toward zero, and give the minimum integer for NaN,
  infinities and values out of range, for every bit pattern of a float or a double.\<close>

theorem float_to_int_truncates:
  "f2i w = word_of_int (trunc_or_min 32 (f32_val w)) \<and>
   d2i64 d = word_of_int (trunc_or_min 64 (f64_val d))"
  by (simp add: f2i_eq d2i64_eq)

text \<open>A 64-bit value survives being stored as two words, low word first.\<close>

theorem join_split_roundtrip:
  "split64 (join64 lo hi) = (lo, hi) \<and> join64 (fst (split64 v)) (snd (split64 v)) = v"
  using split64_join64 [of lo hi] join64_split64 [of v] by simp

end
