(* ===== verification/Values.thy ===== *)
theory Values
  imports Numeric
begin

text \<open>
  The value types a host sees (\<open>src/value.rs\<close>), the definition types (\<open>Type\<close> of
  \<open>src/progs/mod.rs\<close>) and the error and warning values of \<open>src/error.rs\<close>.  A float is its
  bit pattern, so \<open>from_bits\<close> and \<open>to_bits\<close> are the identity.  The \<open>QcValue\<close> trait is the locale
  \<open>qc_value\<close>, interpreted on the three shapes of value the trait is implemented for.
\<close>

section \<open>Definition types\<close>

datatype (plugins only: code size) qc_type =
  TVoid | TString | TFloat | TVector | TEntity | TField | TFunction | TPointer | TInteger | TUInt
| TInt64 | TUInt64 | TDouble | TOther u32

definition type_from_code :: "u32 \<Rightarrow> qc_type" where
  "type_from_code c =
     (if c = 0 then TVoid else if c = 1 then TString else if c = 2 then TFloat
      else if c = 3 then TVector else if c = 4 then TEntity else if c = 5 then TField
      else if c = 6 then TFunction else if c = 7 then TPointer else if c = 8 then TInteger
      else if c = 9 then TUInt else if c = 10 then TInt64 else if c = 11 then TUInt64
      else if c = 12 then TDouble else TOther c)"

primrec type_code :: "qc_type \<Rightarrow> u32" where
  "type_code TVoid = 0"
| "type_code TString = 1"
| "type_code TFloat = 2"
| "type_code TVector = 3"
| "type_code TEntity = 4"
| "type_code TField = 5"
| "type_code TFunction = 6"
| "type_code TPointer = 7"
| "type_code TInteger = 8"
| "type_code TUInt = 9"
| "type_code TInt64 = 10"
| "type_code TUInt64 = 11"
| "type_code TDouble = 12"
| "type_code (TOther c) = c"

fun type_words :: "qc_type \<Rightarrow> u32 option" where
  "type_words TVoid = Some 0"
| "type_words TVector = Some 3"
| "type_words TInt64 = Some 2"
| "type_words TUInt64 = Some 2"
| "type_words TDouble = Some 2"
| "type_words (TOther c) = None"
| "type_words _ = Some 1"

lemma type_code_from_code: "type_code (type_from_code c) = c"
  by (simp add: type_from_code_def)

lemma type_from_code_code:
  "(\<forall>c. t \<noteq> TOther c) \<Longrightarrow> type_from_code (type_code t) = t"
  by (cases t) (simp_all add: type_from_code_def)

section \<open>Function references\<close>

text \<open>\<open>FuncRef\<close>, \<open>StrRef\<close>, \<open>EntRef\<close>, \<open>Ptr\<close> and \<open>FieldOfs\<close> are their words.\<close>

definition func_ref :: "u8 \<Rightarrow> u32 \<Rightarrow> u32" where
  "func_ref progs index = push_bit 24 (ucast progs) OR (index AND 0x00FFFFFF)"

definition func_progs :: "u32 \<Rightarrow> u8" where
  "func_progs r = ucast (drop_bit 24 r)"

definition func_index :: "u32 \<Rightarrow> u32" where
  "func_index r = r AND 0x00FFFFFF"

lemma low24_mask: "(0x00FFFFFF :: u32) = mask 24"
  by (simp add: mask_eq_exp_minus_1)

lemma bit_u8_bound: "bit (p :: u8) k \<Longrightarrow> k < 8"
  using bit_imp_le_length [of p k] by simp

lemma func_progs_ref: "func_progs (func_ref p i) = p"
  unfolding func_progs_def func_ref_def low24_mask
  by (rule bit_word_eqI)
    (auto simp: bit_ucast_iff bit_drop_bit_eq bit_or_iff bit_and_iff bit_push_bit_iff bit_mask_iff)

lemma func_index_ref: "func_index (func_ref p i) = i AND 0x00FFFFFF"
  unfolding func_index_def func_ref_def low24_mask
  by (rule bit_word_eqI)
    (auto simp: bit_ucast_iff bit_or_iff bit_and_iff bit_push_bit_iff bit_mask_iff
      dest: bit_u8_bound)

lemma func_ref_parts: "func_ref (func_progs r) (func_index r) = r"
proof (rule bit_word_eqI)
  fix k assume "k < LENGTH(32)"
  then have "k < 32" by simp
  then show "bit (func_ref (func_progs r) (func_index r)) k = bit r k"
    unfolding func_index_def func_progs_def func_ref_def low24_mask
    by (auto simp: bit_ucast_iff bit_or_iff bit_and_iff bit_push_bit_iff bit_drop_bit_eq
      bit_mask_iff)
qed

section \<open>Typed values\<close>

text \<open>The types \<open>QcValue\<close> is implemented for.\<close>

datatype (plugins only: code size) value_kind =
  KF32 | KI32 | KU32 | KEnt | KStr | KFunc | KPtr | KField | KVec3 | KI64 | KU64 | KF64

primrec value_words :: "value_kind \<Rightarrow> nat" where
  "value_words KF32 = 1" | "value_words KI32 = 1" | "value_words KU32 = 1"
| "value_words KEnt = 1" | "value_words KStr = 1" | "value_words KFunc = 1"
| "value_words KPtr = 1" | "value_words KField = 1" | "value_words KVec3 = 3"
| "value_words KI64 = 2" | "value_words KU64 = 2" | "value_words KF64 = 2"

primrec value_type :: "value_kind \<Rightarrow> qc_type" where
  "value_type KF32 = TFloat" | "value_type KI32 = TInteger" | "value_type KU32 = TUInt"
| "value_type KEnt = TEntity" | "value_type KStr = TString" | "value_type KFunc = TFunction"
| "value_type KPtr = TPointer" | "value_type KField = TField" | "value_type KVec3 = TVector"
| "value_type KI64 = TInt64" | "value_type KU64 = TUInt64" | "value_type KF64 = TDouble"

primrec value_accepts :: "value_kind \<Rightarrow> qc_type \<Rightarrow> bool" where
  "value_accepts KF32 t = (t = TFloat)"
| "value_accepts KI32 t = (t \<in> {TInteger, TFloat, TEntity, TField, TFunction, TPointer, TString})"
| "value_accepts KU32 t =
     (t \<in> {TUInt, TInteger, TFloat, TEntity, TField, TFunction, TPointer, TString})"
| "value_accepts KEnt t = (t = TEntity)"
| "value_accepts KStr t = (t = TString)"
| "value_accepts KFunc t = (t = TFunction)"
| "value_accepts KPtr t = (t = TPointer)"
| "value_accepts KField t = (t = TField)"
| "value_accepts KVec3 t = (t = TVector)"
| "value_accepts KI64 t = (t \<in> {TInt64, TUInt64})"
| "value_accepts KU64 t = (t \<in> {TUInt64, TInt64})"
| "value_accepts KF64 t = (t = TDouble)"

lemma accepts_type_words:
  "value_accepts k t \<Longrightarrow> type_words t = Some (of_nat (value_words k))"
  by (cases k) auto

lemma accepts_own_type: "value_accepts k (value_type k)"
  by (cases k) simp_all

definition word_of :: "u32 list \<Rightarrow> nat \<Rightarrow> u32" where
  "word_of ws i = (case nth_opt ws i of Some w \<Rightarrow> w | None \<Rightarrow> 0)"

definition scalar_from :: "u32 list \<Rightarrow> u32" where
  "scalar_from ws = word_of ws 0"

definition scalar_to :: "u32 \<Rightarrow> u32 list" where
  "scalar_to v = [v, 0, 0]"

definition vec3_from :: "u32 list \<Rightarrow> u32 \<times> u32 \<times> u32" where
  "vec3_from ws = (word_of ws 0, word_of ws 1, word_of ws 2)"

definition vec3_to :: "u32 \<times> u32 \<times> u32 \<Rightarrow> u32 list" where
  "vec3_to v = (case v of (x, y, z) \<Rightarrow> [x, y, z])"

definition wide_from :: "u32 list \<Rightarrow> u64" where
  "wide_from ws = ucast (word_of ws 0) OR push_bit 32 (ucast (word_of ws 1))"

definition wide_to :: "u64 \<Rightarrow> u32 list" where
  "wide_to v = [ucast v, ucast (drop_bit 32 v), 0]"

text \<open>
  What the host API relies on: a value survives the trip through its words, even when only the
  first \<open>WORDS\<close> of them are stored.
\<close>

locale qc_value =
  fixes nwords :: nat
    and from_words :: "u32 list \<Rightarrow> 'v"
    and to_words :: "'v \<Rightarrow> u32 list"
  assumes words_bound: "nwords \<le> 3"
    and to_words_length: "length (to_words v) = 3"
    and from_to_words: "from_words (take nwords (to_words v)) = v"
begin

lemma to_words_take: "length (take nwords (to_words v)) = nwords"
  using words_bound by (simp add: to_words_length)

lemma to_words_inj: "take nwords (to_words v) = take nwords (to_words v') \<Longrightarrow> v = v'"
  by (metis from_to_words)

end

interpretation scalar: qc_value 1 scalar_from scalar_to
  by unfold_locales (simp_all add: scalar_from_def scalar_to_def word_of_def nth_opt_def)

interpretation vec3: qc_value 3 vec3_from vec3_to
  by unfold_locales
    (simp_all add: vec3_from_def vec3_to_def word_of_def nth_opt_def split: prod.splits)

lemma wide_round_trip: "ucast (ucast v :: u32) OR push_bit 32 (ucast (ucast (drop_bit 32 v) :: u32)) = (v :: u64)"
  (is "?l = v")
proof (rule bit_word_eqI)
  fix k assume "k < LENGTH(64)"
  then have "k < 64" by simp
  then show "bit ?l k = bit v k"
    by (auto simp: bit_or_iff bit_push_bit_iff bit_ucast_iff bit_drop_bit_eq)
qed

interpretation wide: qc_value 2 wide_from wide_to
  by unfold_locales
    (simp_all add: wide_from_def wide_to_def word_of_def nth_opt_def numeral_2_eq_2 wide_round_trip)

text \<open>\<open>Arg\<close>: what a host passes to a call.\<close>

datatype (plugins only: code size) arg =
  ArgFloat u32
| ArgVector "u32 \<times> u32 \<times> u32"
| ArgInt u32
| ArgEnt u32
| ArgStr u32
| ArgBytes bytes
| ArgFunc u32
| ArgRaw "u32 \<times> u32 \<times> u32"

section \<open>Errors and warnings\<close>

datatype (plugins only: code size) resource =
  Entities | TempStrings | HeapRes | FieldsRes | ProgsArea | ProgsRes | ThreadsRes
| StringBuffers | HashTables

datatype (plugins only: code size) error_kind =
  BadOpcode u16
| JumpOutOfRange
| NullFunction
| InvalidFunctionRef u32
| BuiltinNotImplemented u32 bytes
| CallDepth
| LocalStack
| Reentrancy
| TooManyArguments nat
| Runaway
| Deadline
| BadPointerRead u32
| BadPointerWrite u32
| NullPointerWrite
| ArrayIndex int
| BoundCheckFailed u32 u32 u32
| PushedTooMuch
| GAddressUsed
| StringCaseRange
| NoFreeEdicts
| OutOfMemory resource
| QcError bytes
| BuiltinError string
| HostError string
| Poisoned

datatype (plugins only: code size) warning_kind =
  BadEntity u32
| BadField u32
| ReadOnlyEntity u32
| BadString u32
| BuiltinWarning string
| Suppressed u32

record bt_frame =
  bt_function :: u32
  bt_name :: bytes
  bt_file :: bytes
  bt_statement :: u32
  bt_line :: "u32 option"

record warning =
  w_kind :: warning_kind
  w_backtrace :: "bt_frame list"

text \<open>\<open>VmError\<close>: the kind, the backtrace, and the return value of an \<open>abort\<close> in flight.\<close>

record vm_error =
  e_kind :: error_kind
  e_backtrace :: "bt_frame list"
  e_control :: "(u32 \<times> u32 \<times> u32) option"

definition vm_error_new :: "error_kind \<Rightarrow> vm_error" where
  "vm_error_new k = \<lparr>e_kind = k, e_backtrace = [], e_control = None\<rparr>"

definition vm_error_abort :: "u32 \<times> u32 \<times> u32 \<Rightarrow> vm_error" where
  "vm_error_abort ret = (vm_error_new (BuiltinError ''abort''))\<lparr>e_control := Some ret\<rparr>"

definition with_backtrace :: "vm_error \<Rightarrow> bt_frame list \<Rightarrow> vm_error" where
  "with_backtrace e bt = (if e_backtrace e = [] then e\<lparr>e_backtrace := bt\<rparr> else e)"

text \<open>The innermost backtrace wins: attaching a second one changes nothing.\<close>

lemma with_backtrace_keeps:
  "e_backtrace e \<noteq> [] \<Longrightarrow> with_backtrace e bt = e"
  "e_kind (with_backtrace e bt) = e_kind e"
  "e_control (with_backtrace e bt) = e_control e"
  by (simp_all add: with_backtrace_def)

end
