(* ===== verification/Btree.thy ===== *)
theory Btree
  imports Prelude
begin

text \<open>
  The standard library's ordered map (\<open>BTreeMap\<close>) as a strictly sorted association list: insertion,
  removal, lookup (\<open>map_of\<close>), in-order iteration (the list itself) and the last entry
  below a key (\<open>range(..k).next_back()\<close>).  Also the partition of an address range
  into blocks, which the heap's bookkeeping is proved to be.
\<close>

section \<open>Ordered maps\<close>

fun bt_insert :: "'k::linorder \<Rightarrow> 'v \<Rightarrow> ('k \<times> 'v) list \<Rightarrow> ('k \<times> 'v) list" where
  "bt_insert k v [] = [(k, v)]"
| "bt_insert k v ((k', v') # xs) =
     (if k < k' then (k, v) # (k', v') # xs
      else if k = k' then (k, v) # xs
      else (k', v') # bt_insert k v xs)"

definition bt_remove :: "'k::linorder \<Rightarrow> ('k \<times> 'v) list \<Rightarrow> ('k \<times> 'v) list" where
  "bt_remove k xs = filter (\<lambda>e. fst e \<noteq> k) xs"

definition bt_last_below :: "'k::linorder \<Rightarrow> ('k \<times> 'v) list \<Rightarrow> ('k \<times> 'v) option" where
  "bt_last_below k xs =
     (case rev (filter (\<lambda>e. fst e < k) xs) of [] \<Rightarrow> None | e # _ \<Rightarrow> Some e)"

definition bt_sorted :: "('k::linorder \<times> 'v) list \<Rightarrow> bool" where
  "bt_sorted xs = sorted_wrt (<) (map fst xs)"

lemma bt_sorted_Nil [simp]: "bt_sorted []"
  by (simp add: bt_sorted_def)

lemma bt_sorted_Cons [simp]:
  "bt_sorted (e # xs) \<longleftrightarrow> (\<forall>k \<in> fst ` set xs. fst e < k) \<and> bt_sorted xs"
  by (auto simp: bt_sorted_def)

lemma map_of_bt_insert: "map_of (bt_insert k v xs) = (map_of xs)(k \<mapsto> v)"
  by (induction k v xs rule: bt_insert.induct) (auto simp: fun_eq_iff)

lemma keys_bt_insert: "fst ` set (bt_insert k v xs) = insert k (fst ` set xs)"
  by (induction k v xs rule: bt_insert.induct) auto

lemma bt_sorted_insert: "bt_sorted xs \<Longrightarrow> bt_sorted (bt_insert k v xs)"
  by (induction k v xs rule: bt_insert.induct) (auto simp: keys_bt_insert)

lemma map_of_bt_remove: "map_of (bt_remove k xs) = (map_of xs)(k := None)"
  unfolding bt_remove_def by (induction xs) (auto simp: fun_eq_iff)

lemma bt_sorted_remove: "bt_sorted xs \<Longrightarrow> bt_sorted (bt_remove k xs)"
  unfolding bt_remove_def by (induction xs) auto

lemma map_of_bt_sorted:
  "bt_sorted xs \<Longrightarrow> (k, v) \<in> set xs \<longleftrightarrow> map_of xs k = Some v"
proof (induction xs)
  case (Cons e xs)
  have "(k, v) \<notin> set xs" if "fst e = k" using Cons.prems that by fastforce
  moreover have "map_of xs k = Some v \<Longrightarrow> (k, v) \<in> set xs" by (rule map_of_SomeD)
  ultimately show ?case using Cons by (cases e) auto
qed simp

lemma bt_find_Some:
  "bt_sorted xs \<Longrightarrow> find P xs = Some (k, v) \<Longrightarrow> map_of xs k = Some v \<and> P (k, v)"
  by (auto simp: find_Some_iff map_of_bt_sorted [symmetric])

lemma bt_last_below_Some:
  assumes "bt_sorted xs" "bt_last_below k xs = Some (k', v')"
  shows "map_of xs k' = Some v' \<and> k' < k \<and> (\<forall>j v. map_of xs j = Some v \<and> j < k \<longrightarrow> j \<le> k')"
proof -
  let ?f = "filter (\<lambda>e. fst e < k) xs"
  from assms(2) obtain ys where "rev ?f = (k', v') # ys"
    by (auto simp: bt_last_below_def split: list.splits)
  then have f: "?f = rev ys @ [(k', v')]" by (metis rev.simps(2) rev_rev_ident)
  have "bt_sorted ?f" using assms(1)
    unfolding bt_sorted_def by (induction xs) auto
  then have *: "\<forall>e \<in> set (rev ys). fst e < k'"
    unfolding f by (auto simp: bt_sorted_def sorted_wrt_append)
  have "(k', v') \<in> set ?f" by (simp add: f)
  moreover have "j \<le> k'" if "map_of xs j = Some v" "j < k" for j v
  proof -
    from that have "(j, v) \<in> set ?f" by (auto dest: map_of_SomeD)
    with * show ?thesis unfolding f by auto
  qed
  ultimately show ?thesis using assms(1) by (auto simp: map_of_bt_sorted)
qed

lemma bt_last_below_None:
  assumes "bt_last_below k xs = None" "map_of xs j = Some v"
  shows "k \<le> j"
proof (rule ccontr)
  assume "\<not> k \<le> j"
  then have "(j, v) \<in> set (filter (\<lambda>e. fst e < k) xs)"
    using assms(2) by (auto dest: map_of_SomeD)
  moreover have "filter (\<lambda>e. fst e < k) xs = []"
    using assms(1) by (simp add: bt_last_below_def split: list.splits)
  ultimately show False by simp
qed

section \<open>Partitions of an address range into blocks\<close>

definition tiling :: "(nat \<rightharpoonup> nat) \<Rightarrow> nat \<Rightarrow> bool" where
  "tiling B n \<longleftrightarrow>
     (\<forall>a s. B a = Some s \<longrightarrow> 0 < s \<and> a + s \<le> n) \<and>
     (\<forall>a s b t. B a = Some s \<longrightarrow> B b = Some t \<longrightarrow> a < b \<longrightarrow> a + s \<le> b) \<and>
     (\<forall>x < n. \<exists>a s. B a = Some s \<and> a \<le> x \<and> x < a + s)"

lemma tilingD:
  assumes "tiling B n" "B a = Some s"
  shows "0 < s" "a + s \<le> n" "B b = Some t \<Longrightarrow> a < b \<Longrightarrow> a + s \<le> b"
  using assms by (auto simp: tiling_def)

lemma tiling_inside:
  assumes "tiling B n" "B a = Some s" "a < b" "b < a + s"
  shows "B b = None"
  using assms by (cases "B b") (auto dest: tilingD(3))

lemma tiling_end: "tiling B n \<Longrightarrow> B n = None"
  using tilingD(1,2) [of B n n] by (cases "B n") fastforce+

lemma tiling_empty: "tiling (\<lambda>_. None) 0"
  by (simp add: tiling_def)

lemma tiling_extend:
  assumes "tiling B n" "0 < s"
  shows "tiling (B(n \<mapsto> s)) (n + s)"
proof -
  note t = tilingD [OF assms(1)]
  have "\<exists>a u. (B(n \<mapsto> s)) a = Some u \<and> a \<le> x \<and> x < a + u" if "x < n + s" for x
  proof (cases "x < n")
    case True
    then obtain a u where "B a = Some u" "a \<le> x" "x < a + u"
      using assms(1) unfolding tiling_def by blast
    then show ?thesis using t(2) [of a u] True by (intro exI [of _ a] exI [of _ u]) auto
  next
    case False
    then show ?thesis using that by (intro exI [of _ n] exI [of _ s]) auto
  qed
  moreover have "(B(n \<mapsto> s)) a = Some u \<Longrightarrow> 0 < u \<and> a + u \<le> n + s" for a u
    using assms(2) t(1,2) [of a u] by (auto split: if_splits)
  moreover have "(B(n \<mapsto> s)) a = Some u \<Longrightarrow> (B(n \<mapsto> s)) b = Some v \<Longrightarrow> a < b \<Longrightarrow> a + u \<le> b"
    for a u b v
    using t(2,3) [of a u] t(2) [of b v] by (fastforce split: if_splits)
  ultimately show ?thesis unfolding tiling_def by blast
qed

lemma tiling_split:
  assumes "tiling B n" "B a = Some l" "0 < s" "s < l"
  shows "tiling (B(a \<mapsto> s, a + s \<mapsto> l - s)) n"
proof -
  let ?B = "B(a \<mapsto> s, a + s \<mapsto> l - s)"
  note t = tilingD [OF assms(1)]
  have "\<exists>b u. ?B b = Some u \<and> b \<le> x \<and> x < b + u" if "x < n" for x
  proof -
    from that obtain b u where b: "B b = Some u" "b \<le> x" "x < b + u"
      using assms(1) unfolding tiling_def by blast
    show ?thesis
    proof (cases "b = a")
      case True
      then show ?thesis using b assms
        by (cases "x < a + s") (auto intro: exI [of _ a] exI [of _ "a + s"])
    next
      case False
      have "b \<noteq> a + s" using tiling_inside [OF assms(1,2), of "a + s"] assms b by auto
      then show ?thesis using b False by (intro exI [of _ b] exI [of _ u]) auto
    qed
  qed
  moreover have "?B b = Some u \<Longrightarrow> 0 < u \<and> b + u \<le> n" for b u
    using assms t(1,2) [of b u] t(2) [of a l] by (auto split: if_splits)
  moreover have "?B b = Some u \<Longrightarrow> ?B c = Some v \<Longrightarrow> b < c \<Longrightarrow> b + u \<le> c" for b u c v
    using assms t(3) [of b u c v] t(3) [OF assms(2), of c v] t(3) [of b u a l]
    by (cases "b < a") (auto simp: tiling_inside [OF assms(1,2)] split: if_splits)
  ultimately show ?thesis unfolding tiling_def by blast
qed

lemma tiling_merge:
  assumes "tiling B n" "B a = Some s" "B (a + s) = Some u"
  shows "tiling (B(a + s := None, a \<mapsto> s + u)) n"
proof -
  let ?B = "B(a + s := None, a \<mapsto> s + u)"
  note t = tilingD [OF assms(1)]
  have pos: "0 < s" "0 < u" using t(1) assms by auto
  have "\<exists>b v. ?B b = Some v \<and> b \<le> x \<and> x < b + v" if "x < n" for x
  proof -
    from that obtain b v where b: "B b = Some v" "b \<le> x" "x < b + v"
      using assms(1) unfolding tiling_def by blast
    show ?thesis
    proof (cases "b = a \<or> b = a + s")
      case True
      then show ?thesis using b assms by (intro exI [of _ a] exI [of _ "s + u"]) auto
    next
      case False
      then show ?thesis using b by (intro exI [of _ b] exI [of _ v]) auto
    qed
  qed
  moreover have "?B b = Some v \<Longrightarrow> 0 < v \<and> b + v \<le> n" for b v
    using assms t(1,2) [of b v] t(2) [OF assms(3)] pos by (auto split: if_splits)
  moreover have "b + v \<le> c" if "?B b = Some v" "?B c = Some w" "b < c" for b v c w
  proof (cases "b = a")
    case True
    then have "v = s + u" "B c = Some w" "c \<noteq> a + s" using that by (auto split: if_splits)
    moreover from this have "a + s \<le> c" using t(3) [OF assms(2), of c w] that True by auto
    ultimately show ?thesis using t(3) [OF assms(3), of c w] True by auto
  next
    case False
    then have "B b = Some v" using that by (auto split: if_splits)
    then show ?thesis using t(3) [of b v c w] t(3) [of b v a s] assms that False
      by (auto split: if_splits)
  qed
  ultimately show ?thesis unfolding tiling_def by blast
qed

text \<open>The same map keyed by machine words.\<close>

definition nat_map :: "(u32 \<rightharpoonup> u32) \<Rightarrow> nat \<rightharpoonup> nat" where
  "nat_map f x = (if x < 2 ^ 32 then map_option unat (f (of_nat x)) else None)"

lemma nat_map_unat [simp]: "nat_map f (unat w) = map_option unat (f w)"
  using unat_u32_bound [of w] by (simp add: nat_map_def)

lemma nat_map_upd: "nat_map (f(k \<mapsto> v)) = (nat_map f)(unat k \<mapsto> unat v)"
  using unat_u32_bound [of k] by (intro ext) (auto simp: nat_map_def of_nat_eq_u32)

lemma nat_map_del: "nat_map (f(k := None)) = (nat_map f)(unat k := None)"
  using unat_u32_bound [of k] by (intro ext) (auto simp: nat_map_def of_nat_eq_u32)

lemma nat_map_Some: "nat_map f x = Some s \<longleftrightarrow> (\<exists>k v. x = unat k \<and> s = unat v \<and> f k = Some v)"
proof
  assume "nat_map f x = Some s"
  then obtain v where "x < 2 ^ 32" "f (of_nat x) = Some v" "s = unat v"
    by (auto simp: nat_map_def split: if_splits)
  moreover from this have "x = unat (of_nat x :: u32)" by (simp add: unat_of_nat_small)
  ultimately show "\<exists>k v. x = unat k \<and> s = unat v \<and> f k = Some v" by blast
qed auto

end
