(* ===== verification/QcHeap.thy ===== *)
theory QcHeap
  imports Btree
begin

text \<open>
  The QuakeC heap (\<open>src/vm/heap.rs\<close>): a first-fit allocator whose bookkeeping (two ordered maps)
  lives outside the byte region it manages.  The invariant \<open>heap_wf\<close> says that the used and the
  free blocks together partition the region; every operation keeps it.  The laws a client of the
  allocator uses are the locale \<open>allocator\<close>, interpreted on the model.
\<close>

section \<open>State and operations\<close>

definition round_up :: "u32 \<Rightarrow> u32 option" where
  "round_up n = map_option (\<lambda>v. v AND NOT 15) (checked_add (max n 1) 15)"

record heap =
  h_data :: bytes
  h_max :: u32
  h_used :: "(u32 \<times> u32 \<times> u32) list"
  h_free :: "(u32 \<times> u32) list"

definition heap_new :: "u32 \<Rightarrow> heap" where
  "heap_new m = \<lparr>h_data = [], h_max = m AND NOT 15, h_used = [], h_free = []\<rparr>"

definition zero_fill :: "bytes \<Rightarrow> nat \<Rightarrow> nat \<Rightarrow> bytes" where
  "zero_fill xs a b = (if a \<le> b \<and> b \<le> length xs then splice xs a (replicate (b - a) 0) else xs)"

definition take_free :: "heap \<Rightarrow> u32 \<Rightarrow> u32 \<Rightarrow> u32 \<Rightarrow> heap \<times> u32 option" where
  "take_free h off len sz =
     (let h1 = h\<lparr>h_free := bt_remove off (h_free h)\<rparr> in
      if sz < len then
        (case checked_add off sz of
           None \<Rightarrow> (h1, None)
         | Some rest \<Rightarrow> (h1\<lparr>h_free := bt_insert rest (len - sz) (h_free h1)\<rparr>, Some off))
      else (h1, Some off))"

definition grow_heap :: "heap \<Rightarrow> u32 \<Rightarrow> heap \<times> u32 option" where
  "grow_heap h sz =
     (if 2 ^ 32 \<le> length (h_data h) then (h, None)
      else let off = of_nat (length (h_data h)) :: u32 in
        (case checked_add off sz of
           None \<Rightarrow> (h, None)
         | Some e \<Rightarrow>
             if h_max h < e then (h, None)
             else (h\<lparr>h_data := h_data h @ replicate (unat e - length (h_data h)) 0\<rparr>, Some off)))"

definition heap_alloc :: "heap \<Rightarrow> u32 \<Rightarrow> heap \<times> u32 option" where
  "heap_alloc h n =
     (case round_up n of
        None \<Rightarrow> (h, None)
      | Some sz \<Rightarrow>
          (case (case find (\<lambda>e. sz \<le> snd e) (h_free h) of
                   Some (off, len) \<Rightarrow> take_free h off len sz
                 | None \<Rightarrow> grow_heap h sz) of
             (h1, None) \<Rightarrow> (h1, None)
           | (h1, Some off) \<Rightarrow>
               (h1\<lparr>h_data := zero_fill (h_data h1) (unat off) (unat off + unat sz),
                   h_used := bt_insert off (sz, n) (h_used h1)\<rparr>, Some off)))"

definition merge_next :: "heap \<Rightarrow> u32 \<Rightarrow> u32 \<Rightarrow> heap \<times> u32" where
  "merge_next h start len =
     (case checked_add start len of
        None \<Rightarrow> (h, len)
      | Some e \<Rightarrow>
          (case map_of (h_free h) e of
             None \<Rightarrow> (h, len)
           | Some nxt \<Rightarrow> (h\<lparr>h_free := bt_remove e (h_free h)\<rparr>, sat_add len nxt)))"

definition merge_prev :: "heap \<Rightarrow> u32 \<Rightarrow> u32 \<Rightarrow> heap \<times> u32 \<times> u32" where
  "merge_prev h start len =
     (case bt_last_below start (h_free h) of
        None \<Rightarrow> (h, start, len)
      | Some (prev, prev_len) \<Rightarrow>
          if checked_add prev prev_len = Some start
          then (h\<lparr>h_free := bt_remove prev (h_free h)\<rparr>, prev, sat_add len prev_len)
          else (h, start, len))"

definition heap_free :: "heap \<Rightarrow> u32 \<Rightarrow> heap \<times> bool" where
  "heap_free h off =
     (case map_of (h_used h) off of
        None \<Rightarrow> (h, False)
      | Some (sz, _) \<Rightarrow>
          (let h1 = h\<lparr>h_used := bt_remove off (h_used h)\<rparr> in
           case merge_next h1 off sz of (h2, len) \<Rightarrow>
           case merge_prev h2 off len of (h3, start, len) \<Rightarrow>
             (h3\<lparr>h_free := bt_insert start len (h_free h3)\<rparr>, True)))"

definition block_size :: "heap \<Rightarrow> u32 \<Rightarrow> u32 option" where
  "block_size h off = map_option snd (map_of (h_used h) off)"

text \<open>\<open>copy_within(src..end, dst)\<close>.\<close>

definition copy_within :: "bytes \<Rightarrow> nat \<Rightarrow> nat \<Rightarrow> nat \<Rightarrow> bytes" where
  "copy_within xs src n dst = splice xs dst (take n (drop src xs))"

definition heap_realloc :: "heap \<Rightarrow> u32 option \<Rightarrow> u32 \<Rightarrow> heap \<times> u32 option" where
  "heap_realloc h off n =
     (case off of
        None \<Rightarrow> heap_alloc h n
      | Some old \<Rightarrow>
          (case block_size h old of
             None \<Rightarrow> (h, None)
           | Some old_size \<Rightarrow>
               (case heap_alloc h n of
                  (h1, None) \<Rightarrow> (h1, None)
                | (h1, Some new) \<Rightarrow>
                    (let keep = unat (min old_size n);
                         h2 = (if unat old + keep \<le> length (h_data h1)
                                \<and> unat new + keep \<le> length (h_data h1)
                               then h1\<lparr>h_data := copy_within (h_data h1) (unat old) keep (unat new)\<rparr>
                               else h1)
                     in (fst (heap_free h2 old), Some new)))))"

section \<open>The invariant\<close>

definition heap_blocks :: "heap \<Rightarrow> u32 \<rightharpoonup> u32" where
  "heap_blocks h a =
     (case map_of (h_used h) a of Some (s, _) \<Rightarrow> Some s | None \<Rightarrow> map_of (h_free h) a)"

definition aligned16 :: "u32 \<Rightarrow> bool" where
  "aligned16 w \<longleftrightarrow> 16 dvd unat w"

text \<open>No two free blocks touch.\<close>

definition coalesced :: "(u32 \<rightharpoonup> u32) \<Rightarrow> bool" where
  "coalesced F \<longleftrightarrow>
     (\<forall>a s b. F a = Some s \<longrightarrow> F b \<noteq> None \<longrightarrow> unat b \<noteq> unat a + unat s)"

definition heap_wf :: "heap \<Rightarrow> bool" where
  "heap_wf h \<longleftrightarrow>
     bt_sorted (h_used h) \<and> bt_sorted (h_free h) \<and>
     dom (map_of (h_used h)) \<inter> dom (map_of (h_free h)) = {} \<and>
     length (h_data h) \<le> unat (h_max h) \<and> 16 dvd unat (h_max h) \<and>
     tiling (nat_map (heap_blocks h)) (length (h_data h)) \<and>
     (\<forall>a s. heap_blocks h a = Some s \<longrightarrow> 16 dvd unat s) \<and>
     (\<forall>a s n. map_of (h_used h) a = Some (s, n) \<longrightarrow> round_up n = Some s) \<and>
     coalesced (map_of (h_free h))"

lemma and_not_15: "unat (w AND NOT 15 :: u32) = 16 * (unat w div 16)"
proof -
  have m: "(15 :: u32) = mask 4" by (simp add: mask_eq_exp_minus_1)
  have "w AND NOT 15 = push_bit 4 (drop_bit 4 w)"
    unfolding m
    by (rule bit_word_eqI)
      (auto simp: bit_and_iff bit_not_iff bit_push_bit_iff bit_drop_bit_eq bit_mask_iff)
  moreover have "push_bit 4 (drop_bit 4 (unat w)) < 2 ^ 32"
    using unat_u32_bound [of w] by (simp add: push_bit_eq_mult drop_bit_eq_div)
  then have "unat (push_bit 4 (drop_bit 4 w)) = push_bit 4 (drop_bit 4 (unat w))"
    by (simp only: unsigned_push_bit_eq unsigned_drop_bit_eq take_bit_nat_eq_self
      unat_u32_bound len_num1 len_bit0)
      (simp add: take_bit_nat_eq_self unat_u32_bound [simplified])
  then have "unat (push_bit 4 (drop_bit 4 w)) = 16 * (unat w div 16)"
    by (simp add: push_bit_eq_mult drop_bit_eq_div)
  ultimately show ?thesis by simp
qed

lemma round_up_Some:
  assumes "round_up n = Some s"
  shows "unat s = 16 * ((max (unat n) 1 + 15) div 16)" "0 < unat s" "unat n \<le> unat s"
    "16 dvd unat s"
proof -
  from assms obtain v where v: "checked_add (max n 1) 15 = Some v" "s = v AND NOT 15"
    by (auto simp: round_up_def)
  have "unat (max n 1) = max (unat n) 1"
    by (simp add: max_def word_le_nat_alt)
  with checked_add_Some [OF v(1)] have "unat v = max (unat n) 1 + 15" by simp
  then show "unat s = 16 * ((max (unat n) 1 + 15) div 16)" by (simp only: v(2) and_not_15)
  then show "0 < unat s" "unat n \<le> unat s" "16 dvd unat s" by simp_all
qed

lemma heap_wf_bound: "heap_wf h \<Longrightarrow> length (h_data h) < 2 ^ 32"
  using unat_u32_bound [of "h_max h"] by (simp add: heap_wf_def)

lemma heap_wf_tiling: "heap_wf h \<Longrightarrow> tiling (nat_map (heap_blocks h)) (length (h_data h))"
  by (simp add: heap_wf_def)

lemma nat_map_intro:
  "heap_blocks h a = Some s \<Longrightarrow> nat_map (heap_blocks h) (unat a) = Some (unat s)"
  by simp

lemma heap_wf_block:
  assumes "heap_wf h" "heap_blocks h a = Some s"
  shows "0 < unat s" "unat a + unat s \<le> length (h_data h)" "unat a + unat s < 2 ^ 32"
  using tilingD(1,2) [OF heap_wf_tiling [OF assms(1)] nat_map_intro [OF assms(2)]]
    heap_wf_bound [OF assms(1)]
  by simp_all

lemma heap_wf_disjoint:
  assumes "heap_wf h" "heap_blocks h a = Some s" "heap_blocks h b = Some t" "unat a < unat b"
  shows "unat a + unat s \<le> unat b"
  by (rule tilingD(3) [OF heap_wf_tiling [OF assms(1)] nat_map_intro [OF assms(2)]
        nat_map_intro [OF assms(3)] assms(4)])

lemma heap_blocks_used:
  "heap_wf h \<Longrightarrow> map_of (h_used h) a = Some (s, n) \<Longrightarrow> heap_blocks h a = Some s"
  by (simp add: heap_blocks_def)

lemma heap_blocks_free:
  "heap_wf h \<Longrightarrow> map_of (h_free h) a = Some s \<Longrightarrow> map_of (h_used h) a = None \<and> heap_blocks h a = Some s"
  by (cases "map_of (h_used h) a") (auto simp: heap_blocks_def heap_wf_def dom_def)

lemma word_add_neq: "unat a + unat s < 2 ^ 32 \<Longrightarrow> unat (a + s :: u32) = unat a + unat s"
  by (simp add: unat_word_ariths)

text \<open>Where \<open>alloc\<close> puts a block: a free block that fits, or the end of the region.\<close>

definition slot_ok :: "heap \<Rightarrow> heap \<Rightarrow> u32 \<Rightarrow> u32 \<Rightarrow> bool" where
  "slot_ok h h1 off sz \<longleftrightarrow>
     h_used h1 = h_used h \<and> h_max h1 = h_max h \<and> map_of (h_used h) off = None \<and>
     unat off + unat sz \<le> length (h_data h1) \<and>
     (\<exists>ys. h_data h1 = h_data h @ ys) \<and>
     (\<forall>a s. heap_blocks h a = Some s \<longrightarrow> map_of (h_used h) a \<noteq> None \<longrightarrow>
        unat a + unat s \<le> unat off \<or> unat off + unat sz \<le> unat a) \<and>
     (\<forall>n. round_up n = Some sz \<longrightarrow> heap_wf (h1\<lparr>h_used := bt_insert off (sz, n) (h_used h1)\<rparr>))"

lemma grow_heap_slot:
  assumes wf: "heap_wf h" and sz: "0 < unat sz" "16 dvd unat sz"
    and r: "grow_heap h sz = (h1, Some off)"
  shows "slot_ok h h1 off sz"
proof -
  let ?n = "length (h_data h)"
  have off: "off = of_nat ?n" "unat off = ?n"
    using r heap_wf_bound [OF wf]
    by (auto simp: grow_heap_def Let_def unat_of_nat_small split: if_splits option.splits)
  obtain e where e: "checked_add off sz = Some e" "e \<le> h_max h"
    "h1 = h\<lparr>h_data := h_data h @ replicate (unat e - ?n) 0\<rparr>"
    using r off by (auto simp: grow_heap_def Let_def split: if_splits option.splits)
  have ue: "unat e = ?n + unat sz" using checked_add_Some [OF e(1)] off by simp
  let ?T = "nat_map (heap_blocks h)"
  have T: "tiling ?T ?n" by (rule heap_wf_tiling [OF wf])
  have fresh: "heap_blocks h off = None"
    using tiling_end [OF T] by (simp add: off(2) [symmetric])
  then have none: "map_of (h_used h) off = None" "map_of (h_free h) off = None"
    by (auto simp: heap_blocks_def split: option.splits)
  have blocks: "heap_blocks (h1\<lparr>h_used := bt_insert off (sz, n) (h_used h1)\<rparr>)
      = (heap_blocks h)(off \<mapsto> sz)" for n
    by (rule ext) (simp add: heap_blocks_def e(3) map_of_bt_insert split: option.split)
  have len: "length (h_data h1) = ?n + unat sz" by (simp add: e(3) ue)
  have "heap_wf (h1\<lparr>h_used := bt_insert off (sz, n) (h_used h1)\<rparr>)" if n: "round_up n = Some sz" for n
    unfolding heap_wf_def blocks
    using wf none sz n e(2) len tiling_extend [OF T sz(1)]
    by (auto simp: heap_wf_def e(3) ue map_of_bt_insert bt_sorted_insert nat_map_upd off(2)
        word_le_nat_alt dom_def split: if_splits)
  moreover have "unat a + unat s \<le> unat off" if "heap_blocks h a = Some s" for a s
    using heap_wf_block(2) [OF wf that] off by simp
  ultimately show ?thesis
    unfolding slot_ok_def using none len off e(3) by auto
qed

lemma coalescedD:
  "coalesced F \<Longrightarrow> F a = Some s \<Longrightarrow> F b = Some t \<Longrightarrow> unat b \<noteq> unat a + unat s"
  unfolding coalesced_def by auto

lemma coalesced_split:
  assumes wf: "heap_wf h" and off: "map_of (h_free h) off = Some len"
    and sz: "0 < unat sz" "unat sz < unat len"
  shows "coalesced ((map_of (h_free h))(off := None, off + sz \<mapsto> len - sz))" (is "coalesced ?F")
  unfolding coalesced_def
proof (intro allI impI notI)
  fix a s c
  assume as: "?F a = Some s" and c: "?F c \<noteq> None" and eq: "unat c = unat a + unat s"
  let ?G = "map_of (h_free h)"
  have b: "heap_blocks h off = Some len" using heap_blocks_free [OF wf off] by simp
  note blk = heap_wf_block [OF wf b]
  have rest: "unat (off + sz) = unat off + unat sz" using blk sz by (intro word_add_neq) simp
  have sub: "unat (len - sz) = unat len - unat sz" using sz by (simp add: unat_sub_if_size)
  have co: "coalesced ?G" using wf by (simp add: heap_wf_def)
  show False
  proof (cases "a = off + sz")
    case True
    then have "unat c = unat off + unat len" using as eq rest sub sz by auto
    moreover from this have "c \<noteq> off + sz" using rest sz by auto
    ultimately show False using c coalescedD [OF co off, of c] by (auto split: if_splits)
  next
    case False
    then have a: "?G a = Some s" "a \<noteq> off" using as by (auto split: if_splits)
    have ab: "heap_blocks h a = Some s" using heap_blocks_free [OF wf a(1)] by simp
    have "c = off + sz" using c coalescedD [OF co a(1), of c] eq by (auto split: if_splits)
    then have "unat off < unat a + unat s" "unat a + unat s < unat off + unat len"
      using eq rest sz by auto
    moreover have "unat a \<noteq> unat off" using a(2) by (simp add: word_unat_eq_iff)
    ultimately show False
      using heap_wf_disjoint [OF wf ab b] heap_wf_disjoint [OF wf b ab] heap_wf_block(1) [OF wf ab]
      by (cases "unat a < unat off") auto
  qed
qed

lemma take_free_split_wf:
  assumes wf: "heap_wf h" and sz: "0 < unat sz" "16 dvd unat sz" "sz < len"
    and free: "map_of (h_free h) off = Some len" and n: "round_up n = Some sz"
  shows "heap_wf (h\<lparr>h_free := bt_insert (off + sz) (len - sz) (bt_remove off (h_free h)),
                   h_used := bt_insert off (sz, n) (h_used h)\<rparr>)" (is "heap_wf ?h2")
proof -
  let ?n = "length (h_data h)" and ?T = "nat_map (heap_blocks h)"
  have T: "tiling ?T ?n" by (rule heap_wf_tiling [OF wf])
  have b: "map_of (h_used h) off = None" "heap_blocks h off = Some len"
    using heap_blocks_free [OF wf free] by auto
  have lt: "unat sz < unat len" using sz by (simp add: word_less_nat_alt)
  have rest: "unat (off + sz) = unat off + unat sz"
    using heap_wf_block [OF wf b(2)] lt by (intro word_add_neq) simp
  have sub: "unat (len - sz) = unat len - unat sz" using lt by (simp add: unat_sub_if_size)
  have "?T (unat (off + sz)) = None"
    by (rule tiling_inside [OF T nat_map_intro [OF b(2)]]) (use rest lt sz in auto)
  then have "heap_blocks h (off + sz) = None" by simp
  then have none: "map_of (h_used h) (off + sz) = None" "map_of (h_free h) (off + sz) = None"
    by (auto simp: heap_blocks_def split: option.splits)
  have ne: "off + sz \<noteq> off" using rest sz by (metis add_cancel_right_right less_irrefl)
  have blocks: "heap_blocks ?h2 = (heap_blocks h)(off \<mapsto> sz, off + sz \<mapsto> len - sz)"
    using none b ne by (intro ext)
      (auto simp: heap_blocks_def map_of_bt_insert map_of_bt_remove split: option.split)
  have tl: "tiling (nat_map (heap_blocks ?h2)) ?n"
    unfolding blocks nat_map_upd rest sub
    by (rule tiling_split [OF T nat_map_intro [OF b(2)] sz(1) lt])
  have dv: "16 dvd unat (len - sz)" using wf b(2) sz by (auto simp: sub heap_wf_def)
  have "dom (map_of (h_used ?h2)) \<inter> dom (map_of (h_free ?h2)) = {}"
    using wf none ne by (auto simp: heap_wf_def map_of_bt_insert map_of_bt_remove dom_def)
  moreover have "coalesced (map_of (h_free ?h2))"
    using coalesced_split [OF wf free sz(1) lt] by (simp add: map_of_bt_insert map_of_bt_remove)
  ultimately show ?thesis
    using wf tl dv n sz unfolding heap_wf_def
    by (auto simp: map_of_bt_insert bt_sorted_insert bt_sorted_remove blocks split: if_splits)
qed

lemma take_free_whole_wf:
  assumes wf: "heap_wf h" and free: "map_of (h_free h) off = Some sz" and n: "round_up n = Some sz"
  shows "heap_wf (h\<lparr>h_free := bt_remove off (h_free h),
                   h_used := bt_insert off (sz, n) (h_used h)\<rparr>)" (is "heap_wf ?h2")
proof -
  have b: "map_of (h_used h) off = None" "heap_blocks h off = Some sz"
    using heap_blocks_free [OF wf free] by auto
  have blocks: "heap_blocks ?h2 = heap_blocks h"
    using b by (intro ext)
      (auto simp: heap_blocks_def map_of_bt_insert map_of_bt_remove split: option.split)
  show ?thesis
    using wf n unfolding heap_wf_def blocks
    by (auto simp: map_of_bt_insert map_of_bt_remove bt_sorted_insert bt_sorted_remove dom_def
        coalesced_def split: if_splits)
qed

lemma take_free_slot:
  assumes wf: "heap_wf h" and sz: "0 < unat sz" "16 dvd unat sz"
    and free: "map_of (h_free h) off = Some len" "sz \<le> len"
    and r: "take_free h off len sz = (h1, r1)"
  shows "r1 = Some off \<and> slot_ok h h1 off sz"
proof -
  have b: "map_of (h_used h) off = None" "heap_blocks h off = Some len"
    using heap_blocks_free [OF wf free(1)] by auto
  note blk = heap_wf_block [OF wf b(2)]
  have le: "unat sz \<le> unat len" using free(2) by (simp add: word_le_nat_alt)
  have ca: "checked_add off sz = Some (off + sz)" using blk le by (simp add: checked_add_def)
  have common: "h_used h1 = h_used h" "h_max h1 = h_max h" "h_data h1 = h_data h" "r1 = Some off"
    using r ca by (auto simp: take_free_def Let_def split: if_splits)
  have wf': "heap_wf (h1\<lparr>h_used := bt_insert off (sz, n) (h_used h1)\<rparr>)"
    if n: "round_up n = Some sz" for n
    using r ca free take_free_split_wf [OF wf sz _ free(1) n] take_free_whole_wf [OF wf _ n, of off]
    by (auto simp: take_free_def Let_def split: if_splits)
  have "unat a + unat s \<le> unat off \<or> unat off + unat sz \<le> unat a"
    if "heap_blocks h a = Some s" "map_of (h_used h) a \<noteq> None" for a s
  proof -
    have "unat a \<noteq> unat off" using that b by (auto simp: word_unat_eq_iff [symmetric])
    then show ?thesis
      using heap_wf_disjoint [OF wf that(1) b(2)] heap_wf_disjoint [OF wf b(2) that(1)] le
      by (cases "unat a < unat off") auto
  qed
  then show ?thesis
    unfolding slot_ok_def using wf' common b blk le by auto
qed

section \<open>Allocation\<close>

definition block_bytes :: "bytes \<Rightarrow> u32 \<Rightarrow> u32 \<Rightarrow> bytes" where
  "block_bytes d a s = take (unat s) (drop (unat a) d)"

lemma length_zero_fill [simp]: "length (zero_fill xs a b) = length xs"
  by (simp add: zero_fill_def)

lemma zero_fill_same:
  "a + n \<le> length xs \<Longrightarrow> take n (drop a (zero_fill xs a (a + n))) = replicate n 0"
  using splice_get_same [of a "replicate n 0" xs] by (simp add: zero_fill_def)

lemma zero_fill_other:
  "c \<le> a \<or> b \<le> c' \<Longrightarrow> c' + n \<le> length xs \<Longrightarrow> c = c' + n \<Longrightarrow>
   take n (drop c' (zero_fill xs a b)) = take n (drop c' xs)"
  using splice_get_other [of a "replicate (b - a) 0" xs c' n]
  by (auto simp: zero_fill_def)

lemma block_bytes_append:
  "unat a + unat s \<le> length d \<Longrightarrow> block_bytes (d @ ys) a s = block_bytes d a s"
  by (simp add: block_bytes_def)

lemma heap_wf_data:
  assumes "heap_wf h" "h_used h' = h_used h" "h_free h' = h_free h" "h_max h' = h_max h"
    "length (h_data h') = length (h_data h)"
  shows "heap_wf h'"
proof -
  have "heap_blocks h' = heap_blocks h"
    using assms by (intro ext) (simp add: heap_blocks_def split: option.split)
  then show ?thesis using assms by (simp add: heap_wf_def)
qed

lemma found_free:
  assumes "heap_wf h" "find (\<lambda>e. sz \<le> snd e) (h_free h) = Some (off, len)"
  shows "map_of (h_free h) off = Some len" "sz \<le> len"
proof -
  have "bt_sorted (h_free h)" using assms(1) by (simp add: heap_wf_def)
  from bt_find_Some [OF this assms(2)] show "map_of (h_free h) off = Some len" "sz \<le> len"
    by simp_all
qed

lemma slot_ok_wf:
  "slot_ok h h1 off sz \<Longrightarrow> round_up n = Some sz \<Longrightarrow>
     heap_wf (h1\<lparr>h_used := bt_insert off (sz, n) (h_used h1)\<rparr>)"
  unfolding slot_ok_def by blast

lemma alloc_slot:
  assumes "heap_wf h" "heap_alloc h n = (h', Some off)"
  shows "\<exists>sz h1. round_up n = Some sz \<and> slot_ok h h1 off sz \<and>
     h' = h1\<lparr>h_data := zero_fill (h_data h1) (unat off) (unat off + unat sz),
             h_used := bt_insert off (sz, n) (h_used h1)\<rparr>"
proof -
  obtain sz where sz: "round_up n = Some sz"
    using assms(2) by (auto simp: heap_alloc_def split: option.splits)
  note r = round_up_Some [OF sz]
  show ?thesis
  proof (cases "find (\<lambda>e. sz \<le> snd e) (h_free h)")
    case None
    then obtain h1 where "grow_heap h sz = (h1, Some off)"
      "h' = h1\<lparr>h_data := zero_fill (h_data h1) (unat off) (unat off + unat sz),
             h_used := bt_insert off (sz, n) (h_used h1)\<rparr>"
      using assms(2) sz by (auto simp: heap_alloc_def split: option.splits prod.splits)
    then show ?thesis using grow_heap_slot [OF assms(1) r(2,4)] sz by blast
  next
    case (Some e)
    obtain o1 len where e: "e = (o1, len)" by (cases e)
    note f = found_free [OF assms(1) Some [unfolded e]]
    obtain h1 r1 where t: "take_free h o1 len sz = (h1, r1)" by fastforce
    note s = take_free_slot [OF assms(1) r(2,4) f t]
    then have "off = o1"
      "h' = h1\<lparr>h_data := zero_fill (h_data h1) (unat off) (unat off + unat sz),
             h_used := bt_insert off (sz, n) (h_used h1)\<rparr>"
      using assms(2) sz Some e t by (auto simp: heap_alloc_def)
    then show ?thesis using s sz by blast
  qed
qed

lemma heap_alloc_wf: "heap_wf h \<Longrightarrow> heap_alloc h n = (h', Some off) \<Longrightarrow> heap_wf h'"
proof -
  assume a: "heap_wf h" "heap_alloc h n = (h', Some off)"
  obtain sz h1 where *: "round_up n = Some sz" "slot_ok h h1 off sz"
    "h' = h1\<lparr>h_data := zero_fill (h_data h1) (unat off) (unat off + unat sz),
             h_used := bt_insert off (sz, n) (h_used h1)\<rparr>"
    using alloc_slot [OF a] by blast
  show ?thesis by (rule heap_wf_data [OF slot_ok_wf [OF *(2,1)]]) (simp_all add: *(3))
qed

lemma heap_alloc_block:
  assumes "heap_wf h" "heap_alloc h n = (h', Some off)"
  shows "map_of (h_used h) off = None"
    and "\<exists>sz. round_up n = Some sz \<and> map_of (h_used h') = (map_of (h_used h))(off \<mapsto> (sz, n)) \<and>
           block_bytes (h_data h') off sz = replicate (unat sz) 0"
  using alloc_slot [OF assms]
  by (auto simp: slot_ok_def map_of_bt_insert block_bytes_def zero_fill_same)

lemma heap_alloc_keeps:
  assumes "heap_wf h" "heap_alloc h n = (h', Some off)" "map_of (h_used h) a = Some (s, m)"
  shows "map_of (h_used h') a = Some (s, m)" "block_bytes (h_data h') a s = block_bytes (h_data h) a s"
proof -
  obtain sz h1 where *: "slot_ok h h1 off sz"
    "h' = h1\<lparr>h_data := zero_fill (h_data h1) (unat off) (unat off + unat sz),
             h_used := bt_insert off (sz, n) (h_used h1)\<rparr>"
    using alloc_slot [OF assms(1,2)] by blast
  have b: "heap_blocks h a = Some s" using heap_blocks_used [OF assms(1,3)] .
  note blk = heap_wf_block [OF assms(1) b]
  from * show "map_of (h_used h') a = Some (s, m)"
    using assms(3) by (auto simp: slot_ok_def map_of_bt_insert)
  obtain ys where ys: "h_data h1 = h_data h @ ys" using *(1) by (auto simp: slot_ok_def)
  have "unat a + unat s \<le> unat off \<or> unat off + unat sz \<le> unat a"
    using *(1) b assms(3) by (auto simp: slot_ok_def)
  then have "block_bytes (h_data h') a s = block_bytes (h_data h1) a s"
    using blk(2) unfolding block_bytes_def
    by (simp add: *(2)) (rule zero_fill_other, auto simp: ys)
  then show "block_bytes (h_data h') a s = block_bytes (h_data h) a s"
    using blk(2) by (simp add: ys block_bytes_append)
qed

text \<open>\<open>alloc\<close> fails only when no free block fits and the region may not grow, and then changes nothing.\<close>

lemma heap_alloc_None:
  assumes wf: "heap_wf h" and n: "heap_alloc h n = (h', None)" and sz: "round_up n = Some sz"
  shows "h' = h" "\<forall>a s. map_of (h_free h) a = Some s \<longrightarrow> s < sz"
    "unat (h_max h) < length (h_data h) + unat sz"
proof -
  note r = round_up_Some [OF sz]
  have f: "find (\<lambda>e. sz \<le> snd e) (h_free h) = None"
  proof (cases "find (\<lambda>e. sz \<le> snd e) (h_free h)")
    case (Some e)
    obtain o1 len where e: "e = (o1, len)" by (cases e)
    note fr = found_free [OF wf Some [unfolded e]]
    obtain h1 r1 where t: "take_free h o1 len sz = (h1, r1)" by fastforce
    show ?thesis using take_free_slot [OF wf r(2,4) fr t] n sz Some e t by (auto simp: heap_alloc_def)
  qed
  then show "\<forall>a s. map_of (h_free h) a = Some s \<longrightarrow> s < sz"
    by (fastforce simp: find_None_iff dest: map_of_SomeD)
  obtain h1 where g: "grow_heap h sz = (h1, None)" "h' = h1"
    using n sz f by (auto simp: heap_alloc_def split: prod.splits option.splits)
  then show "h' = h"
    by (auto simp: grow_heap_def Let_def split: if_splits option.splits)
  have off: "unat (of_nat (length (h_data h)) :: u32) = length (h_data h)"
    using heap_wf_bound [OF wf] by (simp add: unat_of_nat_small)
  show "unat (h_max h) < length (h_data h) + unat sz"
  proof (cases "checked_add (of_nat (length (h_data h)) :: u32) sz")
    case None
    then show ?thesis using off unat_u32_bound [of "h_max h"]
      by (auto simp: checked_add_def split: if_splits)
  next
    case (Some e)
    then have "h_max h < e"
      using g(1) heap_wf_bound [OF wf]
      by (auto simp: grow_heap_def Let_def split: if_splits)
    then show ?thesis using checked_add_Some [OF Some] off by (simp add: word_less_nat_alt)
  qed
qed

section \<open>Freeing\<close>

lemma merge_step:
  assumes "tiling (nat_map B) n" "B a = Some s" "B b = Some t" "unat b = unat a + unat s"
    "n < 2 ^ 32"
  shows "tiling (nat_map (B(b := None, a \<mapsto> s + t))) n" "unat (s + t) = unat s + unat t"
    "sat_add s t = s + t" "sat_add t s = s + t"
proof -
  have "nat_map B (unat a) = Some (unat s)" "nat_map B (unat a + unat s) = Some (unat t)"
    using assms(2,3) by (simp_all add: assms(4) [symmetric])
  note m = tiling_merge [OF assms(1) this] and bd = tilingD(2) [OF assms(1) this(2)]
  from bd assms(5) show st: "unat (s + t) = unat s + unat t" by (intro word_add_neq) simp
  have "unat s + unat t < 2 ^ 32" using bd assms(5) by simp
  then show "sat_add s t = s + t" "sat_add t s = s + t"
    by (simp_all add: sat_add_def add.commute [of "unat t"] add.commute [of t])
  show "tiling (nat_map (B(b := None, a \<mapsto> s + t))) n"
    using m by (simp add: nat_map_upd nat_map_del assms(4) st)
qed

text \<open>
  The state between the two merges of \<open>free\<close>: the block \<open>(start, len)\<close> is in neither map, and the
  rest together with it partitions the region.
\<close>

definition pending_wf :: "heap \<Rightarrow> u32 \<Rightarrow> u32 \<Rightarrow> bool" where
  "pending_wf h start len \<longleftrightarrow>
     bt_sorted (h_used h) \<and> bt_sorted (h_free h) \<and>
     dom (map_of (h_used h)) \<inter> dom (map_of (h_free h)) = {} \<and>
     length (h_data h) \<le> unat (h_max h) \<and> 16 dvd unat (h_max h) \<and>
     heap_blocks h start = None \<and> 16 dvd unat len \<and>
     tiling (nat_map ((heap_blocks h)(start \<mapsto> len))) (length (h_data h)) \<and>
     (\<forall>a s. heap_blocks h a = Some s \<longrightarrow> 16 dvd unat s) \<and>
     (\<forall>a s n. map_of (h_used h) a = Some (s, n) \<longrightarrow> round_up n = Some s) \<and>
     coalesced (map_of (h_free h))"

lemma pending_start:
  assumes "heap_wf h" "map_of (h_used h) off = Some (sz, m)"
  shows "pending_wf (h\<lparr>h_used := bt_remove off (h_used h)\<rparr>) off sz" (is "pending_wf ?h1 off sz")
proof -
  have b: "heap_blocks h off = Some sz" using heap_blocks_used [OF assms] .
  have nf: "map_of (h_free h) off = None"
    using assms by (cases "map_of (h_free h) off") (auto simp: heap_wf_def)
  have bl: "heap_blocks ?h1 = (heap_blocks h)(off := None)"
    using nf by (intro ext) (auto simp: heap_blocks_def map_of_bt_remove split: option.split)
  have eq: "(heap_blocks ?h1)(off \<mapsto> sz) = heap_blocks h" using b by (auto simp: bl)
  have "dom (map_of (h_used ?h1)) \<inter> dom (map_of (h_free ?h1)) = {}"
    using assms(1) by (auto simp: heap_wf_def map_of_bt_remove)
  moreover have "16 dvd unat sz" using assms(1) b by (auto simp: heap_wf_def)
  ultimately show ?thesis
    unfolding pending_wf_def eq using assms(1)
    by (simp add: bl heap_wf_def map_of_bt_remove bt_sorted_remove)
qed

lemma pending_free_blocks:
  assumes "pending_wf h start len" "map_of (h_free h) a = Some s"
  shows "heap_blocks h a = Some s" "map_of (h_used h) a = None" "a \<noteq> start"
  using assms by (cases "map_of (h_used h) a"; auto simp: heap_blocks_def pending_wf_def)+

lemma blocks_remove_free:
  assumes "pending_wf h start len" "map_of (h_free h) a = Some s"
  shows "heap_blocks (h\<lparr>h_free := bt_remove a (h_free h)\<rparr>) = (heap_blocks h)(a := None)"
  using pending_free_blocks [OF assms]
  by (intro ext) (auto simp: heap_blocks_def map_of_bt_remove split: option.split)

lemma pending_merge_next:
  assumes p: "pending_wf h start len" and b: "map_of (h_free h) e = Some nxt"
    and e: "unat e = unat start + unat len"
  shows "pending_wf (h\<lparr>h_free := bt_remove e (h_free h)\<rparr>) start (sat_add len nxt)"
    (is "pending_wf ?h1 _ _")
proof -
  note f = pending_free_blocks [OF p b] and r = blocks_remove_free [OF p b]
  let ?B = "(heap_blocks h)(start \<mapsto> len)"
  have n: "length (h_data h) < 2 ^ 32"
    using p unat_u32_bound [of "h_max h"] by (simp add: pending_wf_def)
  have T: "tiling (nat_map ?B) (length (h_data h))" using p by (simp add: pending_wf_def)
  note m = merge_step [OF T _ _ e n, where t = nxt]
  have "(heap_blocks ?h1)(start \<mapsto> len + nxt) = ?B(e := None, start \<mapsto> len + nxt)"
    using f by (auto simp: r)
  then have "tiling (nat_map ((heap_blocks ?h1)(start \<mapsto> len + nxt))) (length (h_data h))"
    using m(1) f by simp
  moreover have "16 dvd unat (len + nxt)"
    using m(2) f p unfolding pending_wf_def by (metis dvd_add fun_upd_apply)
  ultimately show ?thesis
    using p m(3) f unfolding pending_wf_def r
    by (simp add: bt_sorted_remove map_of_bt_remove) (auto simp: coalesced_def)
qed

lemma pending_merge_prev:
  assumes p: "pending_wf h start len" and b: "map_of (h_free h) prev = Some pl"
    and e: "unat start = unat prev + unat pl"
  shows "pending_wf (h\<lparr>h_free := bt_remove prev (h_free h)\<rparr>) prev (sat_add len pl)"
    (is "pending_wf ?h1 _ _")
proof -
  note f = pending_free_blocks [OF p b] and r = blocks_remove_free [OF p b]
  let ?B = "(heap_blocks h)(start \<mapsto> len)"
  have n: "length (h_data h) < 2 ^ 32"
    using p unat_u32_bound [of "h_max h"] by (simp add: pending_wf_def)
  have T: "tiling (nat_map ?B) (length (h_data h))" using p by (simp add: pending_wf_def)
  note m = merge_step [OF T _ _ e n, where t = len]
  have "(heap_blocks ?h1)(prev \<mapsto> pl + len) = ?B(start := None, prev \<mapsto> pl + len)"
    using f p by (auto simp: r pending_wf_def)
  then have "tiling (nat_map ((heap_blocks ?h1)(prev \<mapsto> pl + len))) (length (h_data h))"
    using m(1) f by simp
  moreover have "16 dvd unat (pl + len)"
    using m(2) f p unfolding pending_wf_def by (metis dvd_add fun_upd_apply)
  ultimately show ?thesis
    using p m(4) f unfolding pending_wf_def r
    by (simp add: bt_sorted_remove map_of_bt_remove) (auto simp: coalesced_def)
qed

text \<open>A pending block with no free neighbour may enter the free map.\<close>

lemma pending_finish:
  assumes p: "pending_wf h start len"
    and next_: "\<And>b t. map_of (h_free h) b = Some t \<Longrightarrow> unat b \<noteq> unat start + unat len"
    and prev: "\<And>a s. map_of (h_free h) a = Some s \<Longrightarrow> unat start \<noteq> unat a + unat s"
  shows "heap_wf (h\<lparr>h_free := bt_insert start len (h_free h)\<rparr>)" (is "heap_wf ?h1")
proof -
  have none: "map_of (h_used h) start = None"
    using p by (auto simp: pending_wf_def heap_blocks_def split: option.splits)
  have bl: "heap_blocks ?h1 = (heap_blocks h)(start \<mapsto> len)"
    using none by (intro ext) (auto simp: heap_blocks_def map_of_bt_insert split: option.split)
  have "0 < unat len"
    using p tilingD(1) [of "nat_map ((heap_blocks h)(start \<mapsto> len))" _ "unat start"]
    by (auto simp: pending_wf_def)
  then have "coalesced (map_of (h_free ?h1))"
    using p next_ prev
    by (auto simp: coalesced_def pending_wf_def map_of_bt_insert)
  moreover have "dom (map_of (h_used ?h1)) \<inter> dom (map_of (h_free ?h1)) = {}"
    using p none by (auto simp: pending_wf_def map_of_bt_insert dom_def)
  ultimately show ?thesis
    using p unfolding heap_wf_def pending_wf_def bl
    by (simp add: bt_sorted_insert)
qed

lemma merge_next_wf:
  assumes p: "pending_wf h start len" and r: "merge_next h start len = (h1, len1)"
  shows "pending_wf h1 start len1" "map_of (h_free h1) b = Some t \<Longrightarrow> unat b \<noteq> unat start + unat len1"
    "h_used h1 = h_used h" "h_data h1 = h_data h" "h_max h1 = h_max h"
proof -
  have n: "length (h_data h) < 2 ^ 32"
    using p unat_u32_bound [of "h_max h"] by (simp add: pending_wf_def)
  have T: "tiling (nat_map ((heap_blocks h)(start \<mapsto> len))) (length (h_data h))"
    using p by (simp add: pending_wf_def)
  have "nat_map ((heap_blocks h)(start \<mapsto> len)) (unat start) = Some (unat len)" by simp
  from tilingD(2) [OF T this] n have lt: "unat start + unat len < 2 ^ 32" by simp
  then have ca: "checked_add start len = Some (start + len)" by (simp add: checked_add_def)
  have ue: "unat (start + len) = unat start + unat len" by (rule word_add_neq [OF lt])
  have here: "b = start + len" if "unat b = unat start + unat len" for b
    using that ue by (simp add: word_unat_eq_iff)
  show "pending_wf h1 start len1"
    using r p ca pending_merge_next [OF p _ ue] by (auto simp: merge_next_def split: option.splits)
  show "h_used h1 = h_used h" "h_data h1 = h_data h" "h_max h1 = h_max h"
    using r ca by (auto simp: merge_next_def split: option.splits)
  show "unat b \<noteq> unat start + unat len1" if b: "map_of (h_free h1) b = Some t"
  proof (cases "map_of (h_free h) (start + len)")
    case None
    then show ?thesis using r ca b here by (auto simp: merge_next_def)
  next
    case (Some nx)
    note m = merge_step [OF T _ _ ue n, where t = nx]
    note f = pending_free_blocks [OF p Some]
    have "len1 = len + nx" "map_of (h_free h) b = Some t"
      using r ca b Some m(3) f by (auto simp: merge_next_def map_of_bt_remove split: if_splits)
    moreover have "coalesced (map_of (h_free h))" using p by (simp add: pending_wf_def)
    ultimately show ?thesis
      using coalescedD [of "map_of (h_free h)", OF _ Some, of b t] m(2) f ue by simp
  qed
qed

lemma no_free_before:
  assumes p: "pending_wf h start len" and a: "map_of (h_free h) a = Some s"
    and e: "unat start = unat a + unat s"
  shows "bt_last_below start (h_free h) = Some (a, s) \<and> checked_add a s = Some start"
proof -
  have srt: "bt_sorted (h_free h)" using p by (simp add: pending_wf_def)
  have T: "tiling (nat_map ((heap_blocks h)(start \<mapsto> len))) (length (h_data h))"
    using p by (simp add: pending_wf_def)
  have blk: "nat_map ((heap_blocks h)(start \<mapsto> len)) (unat j) = Some (unat t)"
    if "map_of (h_free h) j = Some t" for j t
    using pending_free_blocks [OF p that] by simp
  have s: "0 < unat s" using tilingD(1) [OF T blk [OF a]] .
  then have lt: "a < start" using e by (simp add: word_less_nat_alt)
  then obtain k t where k: "bt_last_below start (h_free h) = Some (k, t)"
    using bt_last_below_None [OF _ a, of start] by (cases "bt_last_below start (h_free h)") auto
  note kk = bt_last_below_Some [OF srt k]
  have "\<not> a < k"
  proof
    assume "a < k"
    then have "unat a + unat s \<le> unat k"
      using tilingD(3) [OF T blk [OF a], of "unat k" "unat t"] kk blk [of k t]
      by (simp add: word_less_nat_alt)
    then show False using e kk by (simp add: word_less_nat_alt)
  qed
  then have "k = a" using kk a lt by (auto simp: antisym not_less)
  moreover have "a + s = start" using e unat_u32_bound [of start]
    by (simp add: word_unat_eq_iff word_add_neq)
  ultimately show ?thesis
    using k kk a e unat_u32_bound [of start] by (auto simp: checked_add_def)
qed

lemma merge_prev_wf:
  assumes p: "pending_wf h start len" and r: "merge_prev h start len = (h1, start1, len1)"
    and nx: "\<And>b t. map_of (h_free h) b = Some t \<Longrightarrow> unat b \<noteq> unat start + unat len"
  shows "heap_wf (h1\<lparr>h_free := bt_insert start1 len1 (h_free h1)\<rparr>)"
    "h_used h1 = h_used h" "h_data h1 = h_data h" "h_max h1 = h_max h"
proof -
  show "h_used h1 = h_used h" "h_data h1 = h_data h" "h_max h1 = h_max h"
    using r by (auto simp: merge_prev_def split: option.splits if_splits prod.splits)
  have srt: "bt_sorted (h_free h)" and co: "coalesced (map_of (h_free h))"
    using p by (auto simp: pending_wf_def)
  show "heap_wf (h1\<lparr>h_free := bt_insert start1 len1 (h_free h1)\<rparr>)"
  proof (cases "\<exists>pr pl. bt_last_below start (h_free h) = Some (pr, pl) \<and>
      checked_add pr pl = Some start")
    case True
    then obtain pr pl where t: "bt_last_below start (h_free h) = Some (pr, pl)"
      "checked_add pr pl = Some start" by blast
    have m: "map_of (h_free h) pr = Some pl" using bt_last_below_Some [OF srt t(1)] by simp
    have e: "unat start = unat pr + unat pl" using checked_add_Some [OF t(2)] .
    have h1: "h1 = h\<lparr>h_free := bt_remove pr (h_free h)\<rparr>" "start1 = pr" "len1 = sat_add len pl"
      using r t by (auto simp: merge_prev_def)
    have T: "tiling (nat_map ((heap_blocks h)(start \<mapsto> len))) (length (h_data h))"
      "length (h_data h) < 2 ^ 32"
      using p unat_u32_bound [of "h_max h"] by (simp_all add: pending_wf_def)
    note f = pending_free_blocks [OF p m]
    note st = merge_step [OF T(1) _ _ e T(2), where t = len]
    have len1: "unat len1 = unat pl + unat len" using st(2,4) f by (simp add: h1)
    show ?thesis
    proof (rule pending_finish)
      show "pending_wf h1 start1 len1" unfolding h1 by (rule pending_merge_prev [OF p m e])
      show "unat b \<noteq> unat start1 + unat len1" if "map_of (h_free h1) b = Some t" for b t
        using that nx [of b t] e len1 by (auto simp: h1 map_of_bt_remove split: if_splits)
      show "unat start1 \<noteq> unat a + unat s" if "map_of (h_free h1) a = Some s" for a s
        using that coalescedD [OF co _ m, of a s] by (auto simp: h1 map_of_bt_remove split: if_splits)
    qed
  next
    case False
    then have h1: "h1 = h" "start1 = start" "len1 = len"
      using r by (auto simp: merge_prev_def split: option.splits prod.splits if_splits)
    show ?thesis unfolding h1
    proof (rule pending_finish [OF p nx])
      fix a s assume a: "map_of (h_free h) a = Some s"
      show "unat start \<noteq> unat a + unat s"
        using no_free_before [OF p a] False by blast
    qed
  qed
qed

lemma heap_free_steps:
  assumes "heap_wf h" "map_of (h_used h) off = Some (sz, m)" "heap_free h off = (h', ok)"
  shows "heap_wf h'" "ok" "h_used h' = bt_remove off (h_used h)" "h_data h' = h_data h"
    "h_max h' = h_max h"
proof -
  let ?h1 = "h\<lparr>h_used := bt_remove off (h_used h)\<rparr>"
  obtain h2 len where n: "merge_next ?h1 off sz = (h2, len)" by fastforce
  obtain h3 start len' where q: "merge_prev h2 off len = (h3, start, len')"
    by (cases "merge_prev h2 off len") auto
  have h': "h' = h3\<lparr>h_free := bt_insert start len' (h_free h3)\<rparr>" "ok"
    using assms(2,3) n q by (auto simp: heap_free_def Let_def)
  note s1 = merge_next_wf [OF pending_start [OF assms(1,2)] n]
  note s2 = merge_prev_wf [OF s1(1) q s1(2)]
  show "heap_wf h'" "ok" "h_used h' = bt_remove off (h_used h)" "h_data h' = h_data h"
    "h_max h' = h_max h"
    using h' s1 s2 by simp_all
qed

lemma heap_free_missing: "map_of (h_used h) off = None \<Longrightarrow> heap_free h off = (h, False)"
  by (simp add: heap_free_def)

lemma heap_free_wf: "heap_wf h \<Longrightarrow> heap_wf (fst (heap_free h off))"
  using heap_free_steps(1) [of h off] heap_free_missing [of h off]
  by (cases "map_of (h_used h) off"; cases "heap_free h off") auto

lemma heap_alloc_wf_any: "heap_wf h \<Longrightarrow> heap_wf (fst (heap_alloc h n))"
proof -
  assume wf: "heap_wf h"
  obtain h' r where a: "heap_alloc h n = (h', r)" by fastforce
  show ?thesis
  proof (cases r)
    case None
    then show ?thesis using a wf heap_alloc_None(1) [OF wf, of n h']
      by (cases "round_up n") (auto simp: heap_alloc_def)
  next
    case (Some off)
    then show ?thesis using heap_alloc_wf [OF wf, of n h' off] a by simp
  qed
qed

lemma heap_new_wf: "heap_wf (heap_new m)"
proof -
  have "heap_blocks (heap_new m) = (\<lambda>_. None)" by (rule ext) (simp add: heap_blocks_def heap_new_def)
  moreover have "nat_map (\<lambda>_. None) = (\<lambda>_. None)" by (rule ext) (simp add: nat_map_def)
  moreover have "16 dvd unat (m AND NOT 15)" by (simp only: and_not_15) simp
  ultimately show ?thesis
    by (simp add: heap_wf_def heap_new_def tiling_empty coalesced_def del: word_and_not)
qed

section \<open>The allocator interface\<close>

text \<open>
  What the memory builtins rely on: a block that is live and not freed keeps its contents and is not
  handed out again.
\<close>

datatype (plugins only: code size) heap_op = HAlloc u32 | HFree u32

locale allocator =
  fixes ok :: "'h \<Rightarrow> bool"
    and live :: "'h \<Rightarrow> u32 \<rightharpoonup> u32"
    and contents :: "'h \<Rightarrow> u32 \<Rightarrow> bytes"
    and alloc :: "'h \<Rightarrow> u32 \<Rightarrow> 'h \<times> u32 option"
    and free :: "'h \<Rightarrow> u32 \<Rightarrow> 'h \<times> bool"
  assumes alloc_ok: "ok h \<Longrightarrow> ok (fst (alloc h n))"
    and free_ok: "ok h \<Longrightarrow> ok (fst (free h a))"
    and alloc_fresh: "ok h \<Longrightarrow> alloc h n = (h', Some a) \<Longrightarrow> live h a = None \<and> live h' a = Some n"
    and alloc_keeps: "ok h \<Longrightarrow> alloc h n = (h', r) \<Longrightarrow> live h a = Some m \<Longrightarrow>
      live h' a = Some m \<and> contents h' a = contents h a"
    and free_keeps: "ok h \<Longrightarrow> free h b = (h', fr) \<Longrightarrow> a \<noteq> b \<Longrightarrow> live h a = Some m \<Longrightarrow>
      live h' a = Some m \<and> contents h' a = contents h a"
    and free_live: "ok h \<Longrightarrow> free h a = (h', fr) \<Longrightarrow> live h' a = None \<and> (fr \<longleftrightarrow> live h a \<noteq> None)"
begin

fun run_ops :: "'h \<Rightarrow> heap_op list \<Rightarrow> 'h" where
  "run_ops h [] = h"
| "run_ops h (HAlloc n # ops) = run_ops (fst (alloc h n)) ops"
| "run_ops h (HFree a # ops) = run_ops (fst (free h a)) ops"

lemma run_ops_ok: "ok h \<Longrightarrow> ok (run_ops h ops)"
  by (induction h ops rule: run_ops.induct) (auto simp: alloc_ok free_ok)

lemma run_ops_keeps:
  "ok h \<Longrightarrow> live h a = Some m \<Longrightarrow> HFree a \<notin> set ops \<Longrightarrow>
     live (run_ops h ops) a = Some m \<and> contents (run_ops h ops) a = contents h a"
proof (induction h ops rule: run_ops.induct)
  case (2 h n ops)
  obtain h' r where "alloc h n = (h', r)" by fastforce
  then show ?case using 2 alloc_ok [of h n] alloc_keeps [of h n h' r a m] by simp
next
  case (3 h b ops)
  obtain h' r where "free h b = (h', r)" by fastforce
  then show ?case using 3 free_ok [of h b] free_keeps [of h b h' r a m] by simp
qed simp

lemma double_free: "ok h \<Longrightarrow> free h a = (h', r) \<Longrightarrow> \<not> snd (free h' a)"
  using free_ok [of h a] free_live [of h a h' r] free_live [of h' a] by (cases "free h' a") auto

end

definition block_contents :: "heap \<Rightarrow> u32 \<Rightarrow> bytes" where
  "block_contents h a =
     (case map_of (h_used h) a of Some (s, _) \<Rightarrow> block_bytes (h_data h) a s | None \<Rightarrow> [])"

interpretation qc_heap: allocator heap_wf block_size block_contents heap_alloc heap_free
proof
  fix h n h' a r m b fr
  show "heap_wf h \<Longrightarrow> heap_wf (fst (heap_alloc h n))" by (rule heap_alloc_wf_any)
  show "heap_wf h \<Longrightarrow> heap_wf (fst (heap_free h a))" by (rule heap_free_wf)
  show "block_size h a = None \<and> block_size h' a = Some n"
    if "heap_wf h" "heap_alloc h n = (h', Some a)"
    using heap_alloc_block [OF that] by (auto simp: block_size_def)
  show "block_size h' a = Some m \<and> block_contents h' a = block_contents h a"
    if w: "heap_wf h" and al: "heap_alloc h n = (h', r)" and l: "block_size h a = Some m"
  proof (cases r)
    case None
    then have "h' = h" using al heap_alloc_None(1) [OF w, of n h']
      by (cases "round_up n") (auto simp: heap_alloc_def)
    then show ?thesis using l by simp
  next
    case (Some off)
    obtain s where s: "map_of (h_used h) a = Some (s, m)" using l by (auto simp: block_size_def)
    from heap_alloc_keeps [OF w al [unfolded Some] s] s show ?thesis
      by (simp add: block_size_def block_contents_def)
  qed
  show "block_size h' a = Some m \<and> block_contents h' a = block_contents h a"
    if "heap_wf h" "heap_free h b = (h', fr)" "a \<noteq> b" "block_size h a = Some m"
    using that heap_free_steps(3,4) [of h b _ _ h' fr] heap_free_missing [of h b]
    by (cases "map_of (h_used h) b") (auto simp: block_size_def block_contents_def map_of_bt_remove)
  show "block_size h' a = None \<and> (fr \<longleftrightarrow> block_size h a \<noteq> None)"
    if "heap_wf h" "heap_free h a = (h', fr)"
  proof (cases "map_of (h_used h) a")
    case None
    then show ?thesis using that by (simp add: heap_free_missing block_size_def)
  next
    case (Some e)
    obtain s m where e: "e = (s, m)" by (cases e)
    from heap_free_steps(2,3) [OF that(1) Some [unfolded e] that(2)] Some e show ?thesis
      by (simp add: block_size_def map_of_bt_remove)
  qed
qed

section \<open>Properties\<close>

lemma block_sizeE:
  assumes "block_size h a = Some m"
  obtains s where "map_of (h_used h) a = Some (s, m)"
  using assms by (auto simp: block_size_def)

lemma block_contents_used:
  "map_of (h_used h) a = Some (s, m) \<Longrightarrow> block_contents h a = block_bytes (h_data h) a s"
  by (simp add: block_contents_def)

text \<open>C4: \<open>alloc\<close> returns a block that was not in use, zeroed and of the requested size rounded up to
  16 bytes; every other block keeps its size and bytes; used and free blocks still partition the
  region.\<close>

theorem alloc_fresh_zeroed:
  assumes "heap_wf h" "heap_alloc h n = (h', Some a)"
  shows "heap_wf h' \<and> block_size h a = None \<and> block_size h' a = Some n \<and>
    block_contents h' a = replicate (16 * ((max (unat n) 1 + 15) div 16)) 0 \<and>
    (\<forall>b m. block_size h b = Some m \<longrightarrow>
       block_size h' b = Some m \<and> block_contents h' b = block_contents h b)"
proof (intro conjI allI impI)
  obtain s where s: "round_up n = Some s" "map_of (h_used h') = (map_of (h_used h))(a \<mapsto> (s, n))"
    "block_bytes (h_data h') a s = replicate (unat s) 0"
    using heap_alloc_block(2) [OF assms] by blast
  show "heap_wf h'" by (rule heap_alloc_wf [OF assms])
  show "block_size h a = None" "block_size h' a = Some n"
    using qc_heap.alloc_fresh [OF assms] by auto
  show "block_contents h' a = replicate (16 * ((max (unat n) 1 + 15) div 16)) 0"
    using s round_up_Some(1) [OF s(1)] by (simp add: block_contents_used [of h' a s n])
  fix b m assume "block_size h b = Some m"
  then show "block_size h' b = Some m" "block_contents h' b = block_contents h b"
    using qc_heap.alloc_keeps [OF assms] by auto
qed

lemma zero_fill_zero: "zero_fill (replicate n 0) a b = replicate n 0"
  by (auto simp: zero_fill_def splice_def replicate_add [symmetric])

lemma heap_eval:
  "round_up 10 = Some 16" "heap_alloc (heap_new 64) 10 =
     (\<lparr>h_data = replicate 16 0, h_max = 64, h_used = [(0, 16, 10)], h_free = []\<rparr>, Some 0)"
proof -
  show r: "round_up 10 = Some 16" by (simp add: round_up_def checked_add_def max_def)
  have "grow_heap (heap_new 64) 16 =
      (\<lparr>h_data = replicate 16 0, h_max = 64, h_used = [], h_free = []\<rparr>, Some 0)"
    by (simp add: grow_heap_def heap_new_def checked_add_def)
  with r show "heap_alloc (heap_new 64) 10 =
     (\<lparr>h_data = replicate 16 0, h_max = 64, h_used = [(0, 16, 10)], h_free = []\<rparr>, Some 0)"
    by (simp add: heap_alloc_def heap_new_def zero_fill_zero)
qed

theorem alloc_fresh_zeroed_witness:
  "block_contents (fst (heap_alloc (heap_new 64) 10)) 0 = replicate 16 0"
  using alloc_fresh_zeroed [OF heap_new_wf heap_eval(2)] by (simp add: heap_eval(2))

text \<open>\<open>alloc\<close> refuses only when the rounded size does not fit in 32 bits, or no free block is large
  enough and growing would pass the configured maximum; a refusal changes nothing.\<close>

theorem alloc_refused_only_when_full:
  assumes "heap_wf h" "heap_alloc h n = (h', None)"
  shows "h' = h \<and>
    (round_up n = None \<or>
     (\<exists>s. round_up n = Some s \<and> (\<forall>a f. map_of (h_free h) a = Some f \<longrightarrow> f < s) \<and>
          unat (h_max h) < length (h_data h) + unat s))"
proof (cases "round_up n")
  case None
  then show ?thesis using assms(2) by (simp add: heap_alloc_def)
next
  case (Some s)
  from heap_alloc_None [OF assms Some] Some show ?thesis by simp
qed

lemma heap_eval_full: "heap_alloc (heap_new 64) 65 = (heap_new 64, None)"
proof -
  have r: "round_up 65 = Some 80"
    by (simp add: round_up_def checked_add_def max_def word_le_nat_alt)
  have "grow_heap (heap_new 64) 80 = (heap_new 64, None)"
    by (simp add: grow_heap_def heap_new_def checked_add_def)
  then show ?thesis using r by (simp add: heap_alloc_def) (simp add: heap_new_def)
qed

theorem alloc_refused_only_when_full_witness:
  "\<exists>s. round_up 65 = Some s \<and> 64 < unat s"
  using alloc_refused_only_when_full [OF heap_new_wf heap_eval_full]
  by (auto simp: heap_new_def round_up_def checked_add_def max_def word_le_nat_alt)

lemma length_copy_within [simp]:
  "src + n \<le> length d \<Longrightarrow> dst + n \<le> length d \<Longrightarrow> length (copy_within d src n dst) = length d"
  by (simp add: copy_within_def)

lemma copy_within_same:
  "src + n \<le> length d \<Longrightarrow> dst + n \<le> length d \<Longrightarrow>
     take n (drop dst (copy_within d src n dst)) = take n (drop src d)"
  using splice_get_same [of dst "take n (drop src d)" d] by (simp add: copy_within_def)

lemma copy_within_other:
  "src + n \<le> length d \<Longrightarrow> dst + n \<le> length d \<Longrightarrow> a + k \<le> length d \<Longrightarrow>
     a + k \<le> dst \<or> dst + n \<le> a \<Longrightarrow> take k (drop a (copy_within d src n dst)) = take k (drop a d)"
  using splice_get_other [of dst "take n (drop src d)" d a k] by (simp add: copy_within_def)

lemma realloc_steps:
  assumes wf: "heap_wf h" and old: "map_of (h_used h) old = Some (so, m)"
    and r: "heap_realloc h (Some old) n = (h', Some new)"
  obtains h1 sn where "heap_alloc h n = (h1, Some new)" "heap_wf h1" "new \<noteq> old"
    "map_of (h_used h1) new = Some (sn, n)" "map_of (h_used h1) old = Some (so, m)"
    "unat (min m n) \<le> unat so" "unat (min m n) \<le> unat sn"
    "h' = fst (heap_free (h1\<lparr>h_data := copy_within (h_data h1) (unat old) (unat (min m n)) (unat new)\<rparr>) old)"
proof -
  have bs: "block_size h old = Some m" using old by (simp add: block_size_def)
  obtain h1 where a: "heap_alloc h n = (h1, Some new)"
    using r bs by (auto simp: heap_realloc_def Let_def split: prod.splits option.splits)
  note wf1 = heap_alloc_wf [OF wf a]
  note keeps = heap_alloc_keeps [OF wf a old]
  obtain sn where sn: "round_up n = Some sn" "map_of (h_used h1) new = Some (sn, n)"
    using heap_alloc_block(2) [OF wf a] by auto
  have "round_up m = Some so" using wf old by (auto simp: heap_wf_def)
  then have le: "unat (min m n) \<le> unat so" "unat (min m n) \<le> unat sn"
    using round_up_Some(3) [of m so] round_up_Some(3) [OF sn(1)] by (auto simp: min_def word_le_nat_alt)
  have "unat old + unat so \<le> length (h_data h1)" "unat new + unat sn \<le> length (h_data h1)"
    using heap_wf_block(2) [OF wf1 heap_blocks_used [OF wf1 keeps(1)]]
      heap_wf_block(2) [OF wf1 heap_blocks_used [OF wf1 sn(2)]] by auto
  then have "h' = fst (heap_free (h1\<lparr>h_data := copy_within (h_data h1) (unat old) (unat (min m n)) (unat new)\<rparr>) old)"
    using r bs a le by (simp add: heap_realloc_def Let_def)
  moreover have "new \<noteq> old" using heap_alloc_block(1) [OF wf a] old by auto
  ultimately show ?thesis using that a wf1 sn(2) keeps(1) le by blast
qed

text \<open>The operations keep the limit, and a reallocation keeps the heap well formed.\<close>

lemma heap_max [simp]: "h_max (fst (heap_alloc h n)) = h_max h" "h_max (fst (heap_free h off)) = h_max h"
proof -
  show "h_max (fst (heap_alloc h n)) = h_max h"
    by (simp add: heap_alloc_def take_free_def grow_heap_def Let_def split: option.split prod.split)
  show "h_max (fst (heap_free h off)) = h_max h"
    by (simp add: heap_free_def merge_next_def merge_prev_def Let_def split: option.split prod.split)
qed

lemma heap_data_wf:
  "heap_wf h \<Longrightarrow> length d = length (h_data h) \<Longrightarrow> heap_wf (h\<lparr>h_data := d\<rparr>)"
  by (rule heap_wf_data) simp_all

lemma heap_realloc_wf: "heap_wf h \<Longrightarrow> heap_wf (fst (heap_realloc h off n))"
proof -
  assume wf: "heap_wf h"
  note a = heap_alloc_wf_any [OF wf, of n]
  show ?thesis
  proof (cases "heap_alloc h n")
    case (Pair h1 r)
    then have "heap_wf h1" using a by simp
    then show ?thesis
      using wf Pair
      by (auto simp: heap_realloc_def Let_def heap_free_wf heap_data_wf split: option.split)
  qed
qed

lemma heap_realloc_max: "h_max (fst (heap_realloc h off n)) = h_max h"
  using heap_max(1) [of h n]
  by (cases "heap_alloc h n") (simp add: heap_realloc_def Let_def split: option.split)

text \<open>\<open>realloc\<close> moves a block: the new block holds the common prefix of the old one, the old one is
  no longer in use, and all other blocks keep their size and bytes.\<close>

theorem realloc_keeps_prefix:
  assumes wf: "heap_wf h" and old: "block_size h old = Some m"
    and r: "heap_realloc h (Some old) n = (h', Some new)"
  shows "heap_wf h' \<and> block_size h' old = None \<and> block_size h' new = Some n \<and>
    take (unat (min m n)) (block_contents h' new) = take (unat (min m n)) (block_contents h old) \<and>
    (\<forall>b k. b \<noteq> old \<longrightarrow> block_size h b = Some k \<longrightarrow>
       block_size h' b = Some k \<and> block_contents h' b = block_contents h b)"
proof -
  from old obtain so where uo: "map_of (h_used h) old = Some (so, m)" by (rule block_sizeE)
  let ?keep = "unat (min m n)"
  obtain h1 sn where s: "heap_alloc h n = (h1, Some new)" "heap_wf h1" "new \<noteq> old"
    "map_of (h_used h1) new = Some (sn, n)" "map_of (h_used h1) old = Some (so, m)"
    "?keep \<le> unat so" "?keep \<le> unat sn"
    "h' = fst (heap_free (h1\<lparr>h_data := copy_within (h_data h1) (unat old) ?keep (unat new)\<rparr>) old)"
    by (rule realloc_steps [OF wf uo r])
  let ?h2 = "h1\<lparr>h_data := copy_within (h_data h1) (unat old) ?keep (unat new)\<rparr>"
  note bl = heap_blocks_used [OF s(2)]
  have bo: "unat old + unat so \<le> length (h_data h1)" and bn: "unat new + unat sn \<le> length (h_data h1)"
    using heap_wf_block(2) [OF s(2) bl [OF s(5)]] heap_wf_block(2) [OF s(2) bl [OF s(4)]] by auto
  have wf2: "heap_wf ?h2" by (rule heap_wf_data [OF s(2)]) (use bo bn s in simp_all)
  obtain ok where f: "heap_free ?h2 old = (h', ok)" using s(8) by (cases "heap_free ?h2 old") auto
  have "map_of (h_used ?h2) old = Some (so, m)" using s(5) by simp
  note fs = heap_free_steps [OF wf2 this f]
  have used: "map_of (h_used h') = (map_of (h_used h1))(old := None)"
    by (simp add: fs(3) map_of_bt_remove)
  have "take ?keep (block_contents h' new) = take ?keep (drop (unat old) (h_data h1))"
    using copy_within_same [of "unat old" ?keep "h_data h1" "unat new"] bo bn s(3,4,6,7)
    by (simp add: block_contents_def block_bytes_def used fs(4) min_absorb1)
  also have "\<dots> = take ?keep (block_bytes (h_data h1) old so)"
    using s(6) by (simp add: block_bytes_def min_absorb1)
  also have "\<dots> = take ?keep (block_contents h old)"
    by (simp add: heap_alloc_keeps(2) [OF wf s(1) uo] block_contents_used [OF uo])
  finally have pre: "take ?keep (block_contents h' new) = take ?keep (block_contents h old)" .
  have oth: "block_size h' b = Some k \<and> block_contents h' b = block_contents h b"
    if "b \<noteq> old" and k: "block_size h b = Some k" for b k
  proof -
    obtain sb where ub: "map_of (h_used h) b = Some (sb, k)" using k by (rule block_sizeE)
    note kp = heap_alloc_keeps [OF wf s(1) ub]
    have ne: "b \<noteq> new" using heap_alloc_block(1) [OF wf s(1)] ub by auto
    then have "unat b \<noteq> unat new" by (simp add: word_unat_eq_iff)
    then have "unat b + unat sb \<le> unat new \<or> unat new + ?keep \<le> unat b"
      using heap_wf_disjoint [OF s(2) bl [OF kp(1)] bl [OF s(4)]]
        heap_wf_disjoint [OF s(2) bl [OF s(4)] bl [OF kp(1)]] s(7) by linarith
    moreover have "unat b + unat sb \<le> length (h_data h1)"
      by (rule heap_wf_block(2) [OF s(2) bl [OF kp(1)]])
    ultimately have "block_bytes (h_data h') b sb = block_bytes (h_data h1) b sb"
      using copy_within_other [of "unat old" ?keep "h_data h1" "unat new" "unat b" "unat sb"]
        bo bn s(6,7) by (simp add: block_bytes_def fs(4))
    moreover have "map_of (h_used h') b = Some (sb, k)" using kp(1) that(1) by (simp add: used)
    ultimately show ?thesis using kp(2) ub by (simp add: block_size_def block_contents_def)
  qed
  have "block_size h' old = None" "block_size h' new = Some n"
    using s(3,4) by (simp_all add: block_size_def used)
  with fs(1) pre oth show ?thesis by blast
qed

definition sample_heap :: heap where
  "sample_heap = \<lparr>h_data = replicate 16 0, h_max = 64, h_used = [(0, 16, 10)], h_free = []\<rparr>"

lemma sample_heap_wf: "heap_wf sample_heap"
  using heap_alloc_wf [OF heap_new_wf heap_eval(2)] by (simp add: sample_heap_def)

lemma copy_within_zero:
  "src + k \<le> n \<Longrightarrow> dst + k \<le> n \<Longrightarrow> copy_within (replicate n 0) src k dst = replicate n 0"
  by (simp add: copy_within_def splice_def replicate_add [symmetric] min_absorb1)

lemma heap_eval_realloc:
  "heap_realloc sample_heap (Some 0) 20 =
     (\<lparr>h_data = replicate 48 0, h_max = 64, h_used = [(16, 32, 20)], h_free = [(0, 16)]\<rparr>, Some 16)"
proof -
  have "round_up 20 = Some 32"
    by (simp add: round_up_def checked_add_def max_def word_le_nat_alt)
  moreover have "grow_heap sample_heap 32 =
      (\<lparr>h_data = replicate 48 0, h_max = 64, h_used = [(0, 16, 10)], h_free = []\<rparr>, Some 16)"
    by (simp add: grow_heap_def sample_heap_def checked_add_def replicate_add [symmetric])
  ultimately have a: "heap_alloc sample_heap 20 =
      (\<lparr>h_data = replicate 48 0, h_max = 64, h_used = [(0, 16, 10), (16, 32, 20)], h_free = []\<rparr>, Some 16)"
    by (simp add: heap_alloc_def) (simp add: sample_heap_def zero_fill_zero)
  have "block_size sample_heap 0 = Some 10" by (simp add: block_size_def sample_heap_def)
  with a show ?thesis
    by (simp add: heap_realloc_def copy_within_zero heap_free_def merge_next_def merge_prev_def
        checked_add_def bt_remove_def bt_last_below_def min_def word_le_nat_alt)
qed

theorem realloc_keeps_prefix_witness:
  "take 10 (block_contents (fst (heap_realloc sample_heap (Some 0) 20)) 16) = replicate 10 0"
proof -
  have s: "block_size sample_heap 0 = Some 10" "block_contents sample_heap 0 = replicate 16 0"
    by (simp_all add: block_size_def block_contents_def block_bytes_def sample_heap_def)
  show ?thesis
    using realloc_keeps_prefix [OF sample_heap_wf s(1) heap_eval_realloc] s(2)
    by (simp add: heap_eval_realloc min_def word_le_nat_alt)
qed

text \<open>C5: over any history of allocations and frees that does not free it, a live block keeps its size
  and its bytes and is never handed out again, and a block freed twice is refused the second time.\<close>

theorem heap_history_keeps_block:
  assumes "heap_wf h" "block_size h a = Some m" "HFree a \<notin> set ops"
  shows "heap_wf (qc_heap.run_ops h ops) \<and>
    block_size (qc_heap.run_ops h ops) a = Some m \<and>
    block_contents (qc_heap.run_ops h ops) a = block_contents h a \<and>
    (\<forall>n. snd (heap_alloc (qc_heap.run_ops h ops) n) \<noteq> Some a) \<and>
    (\<forall>b. \<not> snd (heap_free (fst (heap_free (qc_heap.run_ops h ops) b)) b))"
proof -
  let ?g = "qc_heap.run_ops h ops"
  have wf: "heap_wf ?g" by (rule qc_heap.run_ops_ok [OF assms(1)])
  note k = qc_heap.run_ops_keeps [OF assms]
  have "snd (heap_alloc ?g n) \<noteq> Some a" for n
    using qc_heap.alloc_fresh [OF wf, of n _ a] k by (cases "heap_alloc ?g n") auto
  moreover have "\<not> snd (heap_free (fst (heap_free ?g b)) b)" for b
    using qc_heap.double_free [OF wf, of b] by (cases "heap_free ?g b") auto
  ultimately show ?thesis using wf k by blast
qed

theorem heap_history_keeps_block_witness:
  "block_size (qc_heap.run_ops sample_heap [HAlloc 20, HFree 16, HAlloc 5]) 0 = Some 10"
  using heap_history_keeps_block [OF sample_heap_wf, of 0 10 "[HAlloc 20, HFree 16, HAlloc 5]"]
  by (simp add: block_size_def sample_heap_def)

end
