(* ===== verification/Memory.thy ===== *)
theory Memory
  imports Bytes Values QcHeap
begin

text \<open>
  VM memory (\<open>src/vm/memory.rs\<close>): one byte-addressed space in three regions (program data and the
  local stack; the entities; the QuakeC heap) and the entity slots.  The invariant \<open>mem_wf\<close> says
  that the regions do not overlap in the 32-bit address space and that region E holds one block per
  slot.  Lemmas: where an address lands, reads after writes, which bytes a write leaves alone, what is
  never written (null, protected entities), and what spawning and removing do to the slots.
  The pointer interface the interpreter uses is the locale \<open>addressed_store\<close>.
\<close>

section \<open>State\<close>

datatype (plugins only: code size) loc = LocS nat | LocE nat u32 | LocH nat

record ent_slot =
  in_use :: bool
  protected :: bool
  freetime :: u64
  serial :: u32

record memory =
  ms :: bytes
  me :: bytes
  e_base :: u32
  stride_shift :: u32
  field_bytes :: u32
  max_edicts :: u32
  slots :: "ent_slot list"
  mheap :: heap
  h_base :: u32
  ls_base :: u32
  ls_words :: u32

datatype (plugins only: code size) write_error = WNull | WInvalid u32 | WProtected u32

text \<open>\<open>usize::checked_shl\<close> on a 64-bit target.\<close>

definition usize_shl :: "nat \<Rightarrow> u32 \<Rightarrow> nat option" where
  "usize_shl n k = (if k < 64 then Some ((n * 2 ^ unat k) mod 2 ^ 64) else None)"

section \<open>Addressing\<close>

definition num_edicts :: "memory \<Rightarrow> u32" where
  "num_edicts m = (if length (slots m) < 2 ^ 32 then of_nat (length (slots m)) else - 1)"

definition field_offset :: "memory \<Rightarrow> u32 \<Rightarrow> u32 \<Rightarrow> u32 \<Rightarrow> nat option" where
  "field_offset m e wd ws =
     (if num_edicts m \<le> e then None
      else let fin = (unat wd + unat ws) * 4 in
        if unat (field_bytes m) < fin then None
        else (case usize_shl (unat e) (stride_shift m) of
                None \<Rightarrow> None
              | Some base \<Rightarrow> Some (base + unat wd * 4)))"

definition field_address :: "memory \<Rightarrow> u32 \<Rightarrow> u32 \<Rightarrow> u32" where
  "field_address m e wd = e_base m + wrapping_shl e (stride_shift m) + wd * 4"

definition locate :: "memory \<Rightarrow> u32 \<Rightarrow> nat \<Rightarrow> loc option" where
  "locate m p n =
     (if unat p + n \<le> length (ms m) then Some (LocS (unat p))
      else
        let ent = (case checked_sub p (e_base m) of
                     None \<Rightarrow> None
                   | Some off \<Rightarrow>
                       (let e = wrapping_shr off (stride_shift m);
                            within = off AND (wrapping_shl 1 (stride_shift m) - 1)
                        in if e < num_edicts m \<and> unat within + n \<le> unat (field_bytes m)
                           then Some (LocE (unat off) e) else None))
        in (case ent of
              Some l \<Rightarrow> Some l
            | None \<Rightarrow>
                (case checked_sub p (h_base m) of
                   None \<Rightarrow> None
                 | Some off \<Rightarrow>
                     if unat off + n \<le> length (h_data (mheap m)) then Some (LocH (unat off)) else None)))"

definition region :: "memory \<Rightarrow> loc \<Rightarrow> bytes \<times> nat" where
  "region m l = (case l of
      LocS a \<Rightarrow> (ms m, a)
    | LocE a _ \<Rightarrow> (me m, a)
    | LocH a \<Rightarrow> (h_data (mheap m), a))"

definition set_region :: "memory \<Rightarrow> loc \<Rightarrow> bytes \<Rightarrow> memory" where
  "set_region m l d = (case l of
      LocS _ \<Rightarrow> m\<lparr>ms := d\<rparr>
    | LocE _ _ \<Rightarrow> m\<lparr>me := d\<rparr>
    | LocH _ \<Rightarrow> m\<lparr>mheap := (mheap m)\<lparr>h_data := d\<rparr>\<rparr>)"

section \<open>Reading and writing through addresses\<close>

text \<open>\<open>read::<N>\<close>; the interpreter instantiates it at 1, 2, 4, 8 and 12 bytes.\<close>

definition mem_read :: "memory \<Rightarrow> nat \<Rightarrow> u32 \<Rightarrow> bytes option" where
  "mem_read m n p =
     (case locate m p n of
        None \<Rightarrow> None
      | Some l \<Rightarrow>
          (case region m l of (d, a) \<Rightarrow>
             Option.bind (slice_from d a) (first_chunk n)))"

definition mem_read_u32 :: "memory \<Rightarrow> u32 \<Rightarrow> u32 option" where
  "mem_read_u32 m p = map_option le_word (mem_read m 4 p)"

definition check_write :: "memory \<Rightarrow> u32 \<Rightarrow> nat \<Rightarrow> write_error + loc" where
  "check_write m p n =
     (if p = 0 then Inl WNull
      else (case locate m p n of
              None \<Rightarrow> Inl (WInvalid p)
            | Some l \<Rightarrow>
                (case l of
                   LocE _ e \<Rightarrow>
                     (if (case nth_opt (slots m) (unat e) of Some s \<Rightarrow> protected s | None \<Rightarrow> False)
                      then Inl (WProtected e) else Inr l)
                 | _ \<Rightarrow> Inr l)))"

definition mem_write :: "memory \<Rightarrow> u32 \<Rightarrow> bytes \<Rightarrow> write_error + memory" where
  "mem_write m p bs =
     (if 2 ^ 32 \<le> length bs then Inl (WInvalid p)
      else (case check_write m p (length bs) of
              Inl e \<Rightarrow> Inl e
            | Inr l \<Rightarrow>
                (case region m l of (d, a) \<Rightarrow>
                   if a + length bs \<le> length d then Inr (set_region m l (splice d a bs))
                   else Inl (WInvalid p))))"

definition mem_write_u32 :: "memory \<Rightarrow> u32 \<Rightarrow> u32 \<Rightarrow> write_error + memory" where
  "mem_write_u32 m p v = mem_write m p (le_bytes 4 v)"

definition mem_cstr :: "memory \<Rightarrow> u32 \<Rightarrow> bytes option" where
  "mem_cstr m p =
     (case locate m p 1 of
        None \<Rightarrow> None
      | Some (LocS a) \<Rightarrow> map_option until_nul (slice_from (ms m) a)
      | Some (LocE a e) \<Rightarrow>
          (case usize_shl (unat e) (stride_shift m) of
             None \<Rightarrow> None
           | Some start \<Rightarrow> map_option until_nul (slice (me m) a (start + unat (field_bytes m))))
      | Some (LocH a) \<Rightarrow> map_option until_nul (slice_from (h_data (mheap m)) a))"

section \<open>Globals and entity words\<close>

definition mem_g :: "memory \<Rightarrow> nat \<Rightarrow> u32" where
  "mem_g m off = (case u32_at (ms m) off of Some v \<Rightarrow> v | None \<Rightarrow> 0)"

definition mem_set_g :: "memory \<Rightarrow> nat \<Rightarrow> u32 \<Rightarrow> memory" where
  "mem_set_g m off v = m\<lparr>ms := snd (put_u32 (ms m) off v)\<rparr>"

definition mem_set_gv :: "memory \<Rightarrow> nat \<Rightarrow> u32 \<times> u32 \<times> u32 \<Rightarrow> memory" where
  "mem_set_gv m off v = (case v of (x, y, z) \<Rightarrow>
     mem_set_g (mem_set_g (mem_set_g m off x) (off + 4) y) (off + 8) z)"

text \<open>Copies words in increasing order.\<close>

definition mem_copy_g :: "memory \<Rightarrow> nat \<Rightarrow> nat \<Rightarrow> nat \<Rightarrow> memory" where
  "mem_copy_g m src dst ws =
     foldl (\<lambda>m i. mem_set_g m (dst + i * 4) (mem_g m (src + i * 4))) m [0..<ws]"

definition mem_move_s :: "memory \<Rightarrow> nat \<Rightarrow> nat \<Rightarrow> nat \<Rightarrow> memory \<times> bool" where
  "mem_move_s m src dst len =
     (if length (ms m) < src + len \<or> length (ms m) < dst + len then (m, False)
      else (m\<lparr>ms := copy_within (ms m) src len dst\<rparr>, True))"

definition ent_word :: "memory \<Rightarrow> nat \<Rightarrow> u32" where
  "ent_word m off = (case u32_at (me m) off of Some v \<Rightarrow> v | None \<Rightarrow> 0)"

definition set_ent_word :: "memory \<Rightarrow> nat \<Rightarrow> u32 \<Rightarrow> memory" where
  "set_ent_word m off v = m\<lparr>me := snd (put_u32 (me m) off v)\<rparr>"

section \<open>Entities\<close>

definition ent_in_use :: "memory \<Rightarrow> u32 \<Rightarrow> bool" where
  "ent_in_use m e = (case nth_opt (slots m) (unat e) of Some s \<Rightarrow> in_use s | None \<Rightarrow> False)"

definition ent_protected :: "memory \<Rightarrow> u32 \<Rightarrow> bool" where
  "ent_protected m e = (case nth_opt (slots m) (unat e) of Some s \<Rightarrow> protected s | None \<Rightarrow> False)"

definition grow_to :: "memory \<Rightarrow> u32 \<Rightarrow> error_kind + memory" where
  "grow_to m e =
     (let n = unat e + 1 in
      case usize_shl n (stride_shift m) of
        None \<Rightarrow> Inl NoFreeEdicts
      | Some b \<Rightarrow> Inr (m\<lparr>me := me m @ replicate (b - length (me m)) 0,
                        slots := slots m @ replicate (n - length (slots m))
                          \<lparr>in_use = False, protected = False, freetime = 0, serial = 0\<rparr>\<rparr>))"

definition clear_entity :: "memory \<Rightarrow> u32 \<Rightarrow> memory" where
  "clear_entity m e =
     (case usize_shl (unat e) (stride_shift m) of
        None \<Rightarrow> m
      | Some start \<Rightarrow>
          m\<lparr>me := zero_fill (me m) start (start + 2 ^ (unat (stride_shift m) mod 64))\<rparr>)"

definition update_slot :: "memory \<Rightarrow> u32 \<Rightarrow> (ent_slot \<Rightarrow> ent_slot) \<Rightarrow> memory" where
  "update_slot m e f =
     (case nth_opt (slots m) (unat e) of
        None \<Rightarrow> m
      | Some s \<Rightarrow> m\<lparr>slots := (slots m)[unat e := f s]\<rparr>)"

definition init_world :: "memory \<Rightarrow> error_kind + memory" where
  "init_world m =
     bind_res (grow_to m 0) (\<lambda>m.
       Inr (update_slot (clear_entity m 0) 0
         (\<lambda>_. \<lparr>in_use = True, protected = False, freetime = 0, serial = 1\<rparr>)))"

text \<open>Reusable: freed in the first two seconds, or more than half a second ago.\<close>

definition reusable :: "u64 \<Rightarrow> ent_slot \<Rightarrow> bool" where
  "reusable now s \<longleftrightarrow> \<not> in_use s \<and>
     (f64_lt (freetime s) 0x4000000000000000 \<or> f64_lt 0x3FE0000000000000 (f64_sub now (freetime s)))"

definition find_slot :: "ent_slot list \<Rightarrow> nat \<Rightarrow> (ent_slot \<Rightarrow> bool) \<Rightarrow> nat option" where
  "find_slot xs start P = find (\<lambda>i. P (xs ! i)) [start..<length xs]"

definition pick_slot :: "memory \<Rightarrow> u64 \<Rightarrow> u32 \<Rightarrow> error_kind + memory \<times> u32" where
  "pick_slot m now first =
     (let start = min (unat first) (length (slots m));
          grow = max (num_edicts m) first
      in case find_slot (slots m) start (reusable now) of
           Some i \<Rightarrow> (if i < 2 ^ 32 then Inr (m, of_nat i) else Inl NoFreeEdicts)
         | None \<Rightarrow>
             if grow < max_edicts m then
               bind_res (grow_to m grow) (\<lambda>m. Inr (m, grow))
             else
               (case find_slot (slots m) start (\<lambda>s. \<not> in_use s) of
                  Some i \<Rightarrow> (if i < 2 ^ 32 then Inr (m, of_nat i) else Inl NoFreeEdicts)
                | None \<Rightarrow> Inl NoFreeEdicts))"

definition spawn :: "memory \<Rightarrow> u64 \<Rightarrow> u32 \<Rightarrow> error_kind + memory \<times> u32" where
  "spawn m now first =
     bind_res (pick_slot m now first) (\<lambda>(m, e).
       Inr (update_slot (clear_entity m e) e
              (\<lambda>s. s\<lparr>in_use := True, protected := False, serial := serial s + 1\<rparr>), e))"

definition claim :: "memory \<Rightarrow> u32 \<Rightarrow> error_kind + memory" where
  "claim m e =
     (if e = 0 \<or> max_edicts m \<le> e then Inl NoFreeEdicts
      else bind_res (if length (slots m) \<le> unat e then grow_to m e else Inr m) (\<lambda>m.
        Inr (update_slot (clear_entity m e) e
          (\<lambda>s. s\<lparr>in_use := True, protected := False, freetime := 0, serial := serial s + 1\<rparr>))))"

definition clear_fields :: "memory \<Rightarrow> u32 \<Rightarrow> u32 list \<Rightarrow> memory" where
  "clear_fields m e ws =
     foldl (\<lambda>m wd. case field_offset m e wd 1 of Some off \<Rightarrow> set_ent_word m off 0 | None \<Rightarrow> m) m ws"

text \<open>The number in the message of a double removal is printed in decimal.\<close>

definition digit_char :: "nat \<Rightarrow> char" where
  "digit_char d = char_of (48 + d)"

function dec_string :: "nat \<Rightarrow> string" where
  "dec_string n = (if n < 10 then [digit_char n] else dec_string (n div 10) @ [digit_char (n mod 10)])"
  by pat_completeness auto
termination by (relation "measure id") auto

declare dec_string.simps [simp del]

definition mem_remove :: "memory \<Rightarrow> u32 \<Rightarrow> u64 \<Rightarrow> bool \<Rightarrow> u32 list \<Rightarrow> warning_kind + memory" where
  "mem_remove m e now instant clear =
     (if e = 0 then Inl (BuiltinWarning ''Unable to remove the world'')
      else (case nth_opt (slots m) (unat e) of
              None \<Rightarrow> Inl (BadEntity e)
            | Some s \<Rightarrow>
                if \<not> in_use s then
                  Inl (BuiltinWarning (''entity '' @ dec_string (unat e) @ '' is already free''))
                else if protected s then Inl (ReadOnlyEntity e)
                else Inr (update_slot (clear_fields m e clear) e
                  (\<lambda>s. s\<lparr>in_use := False, freetime := (if instant then 0 else now)\<rparr>))))"

section \<open>The layout invariant\<close>

definition block_len :: "memory \<Rightarrow> nat" where
  "block_len m = 2 ^ unat (stride_shift m)"

definition mem_wf :: "memory \<Rightarrow> bool" where
  "mem_wf m \<longleftrightarrow>
     stride_shift m < 32 \<and>
     length (me m) = length (slots m) * block_len m \<and>
     unat (field_bytes m) \<le> block_len m \<and>
     length (slots m) \<le> unat (max_edicts m) \<and>
     length (ms m) \<le> unat (e_base m) \<and>
     unat (e_base m) + unat (max_edicts m) * block_len m \<le> unat (h_base m) \<and>
     unat (h_base m) + unat (h_max (mheap m)) \<le> 2 ^ 32 \<and>
     unat (ls_base m) + unat (ls_words m) * 4 \<le> length (ms m) \<and>
     heap_wf (mheap m)"

lemma unat_shift: "k < 32 \<Longrightarrow> unat (k :: u32) < 32 \<and> unat k mod 32 = unat k"
  by (simp add: word_less_nat_alt)

lemma unat_drop_bit: "unat (drop_bit k (w :: u32)) = unat w div 2 ^ k"
proof -
  have "take_bit LENGTH(32) (unat w) = unat w"
    using unat_u32_bound [of w] by (simp add: take_bit_nat_eq_self)
  then have "unat (drop_bit k w) = drop_bit k (unat w)" by (simp only: unsigned_drop_bit_eq)
  then show ?thesis by (simp only: drop_bit_eq_div)
qed

lemma block_mask:
  fixes off :: u32
  assumes "stride_shift m < 32"
  shows "unat (wrapping_shr off (stride_shift m)) = unat off div block_len m"
    and "unat (off AND (wrapping_shl 1 (stride_shift m) - 1)) = unat off mod block_len m"
proof -
  let ?k = "unat (stride_shift m)"
  have k: "?k mod 32 = ?k" using unat_shift [OF assms] by simp
  show "unat (wrapping_shr off (stride_shift m)) = unat off div block_len m"
    by (simp add: wrapping_shr_def k block_len_def unat_drop_bit)
  have "wrapping_shl 1 (stride_shift m) - 1 = (mask ?k :: u32)"
    by (simp add: wrapping_shl_def k mask_eq_exp_minus_1)
  then have "off AND (wrapping_shl 1 (stride_shift m) - 1) = take_bit ?k off"
    by (simp add: take_bit_eq_mask)
  moreover have "unat (take_bit ?k off) = take_bit ?k (unat off)" by (simp only: unsigned_take_bit_eq)
  ultimately show "unat (off AND (wrapping_shl 1 (stride_shift m) - 1)) = unat off mod block_len m"
    by (simp only: take_bit_eq_mod block_len_def)
qed

lemma num_edicts_less: "mem_wf m \<Longrightarrow> unat (num_edicts m) = length (slots m)"
  using unat_u32_bound [of "max_edicts m"]
  by (simp add: num_edicts_def mem_wf_def unat_of_nat_small)

lemma slots_area:
  assumes "mem_wf m"
  shows "unat (e_base m) + length (slots m) * block_len m \<le> unat (h_base m)"
proof -
  have "length (slots m) * block_len m \<le> unat (max_edicts m) * block_len m"
    using assms by (intro mult_le_mono1) (simp add: mem_wf_def)
  then show ?thesis using assms unfolding mem_wf_def by linarith
qed

lemma usize_shl_block:
  assumes "mem_wf m" "unat e < length (slots m)"
  shows "usize_shl (unat e) (stride_shift m) = Some (unat e * block_len m)"
    "unat e * block_len m + block_len m \<le> length (me m)"
proof -
  have sh: "stride_shift m < 32" using assms(1) by (simp add: mem_wf_def)
  have "(unat e + 1) * block_len m \<le> length (slots m) * block_len m"
    using assms(2) by (intro mult_le_mono1) simp
  then show le: "unat e * block_len m + block_len m \<le> length (me m)"
    using assms(1) by (simp add: mem_wf_def)
  have "length (me m) < 2 ^ 32"
    using assms(1) slots_area [OF assms(1)] unat_u32_bound [of "h_base m"]
    by (simp add: mem_wf_def)
  then have "unat e * block_len m < 2 ^ 64" using le by simp
  moreover have "stride_shift m < 64" using sh by (simp add: word_less_nat_alt)
  ultimately show "usize_shl (unat e) (stride_shift m) = Some (unat e * block_len m)"
    by (simp add: usize_shl_def block_len_def)
qed

text \<open>Where an access lands: entirely inside one region, and inside one entity's fields.\<close>

inductive lands :: "memory \<Rightarrow> u32 \<Rightarrow> nat \<Rightarrow> loc \<Rightarrow> bool" for m p n where
  lands_S: "unat p + n \<le> length (ms m) \<Longrightarrow> lands m p n (LocS (unat p))"
| lands_E: "unat p = unat (e_base m) + unat e * block_len m + w \<Longrightarrow> w + n \<le> unat (field_bytes m) \<Longrightarrow>
     unat e < length (slots m) \<Longrightarrow> w < block_len m \<Longrightarrow>
     lands m p n (LocE (unat e * block_len m + w) e)"
| lands_H: "unat p = unat (h_base m) + a \<Longrightarrow> a + n \<le> length (h_data (mheap m)) \<Longrightarrow>
     lands m p n (LocH a)"

inductive_cases lands_LocE: "lands m p n (LocE a e)"

lemma locate_lands:
  assumes wf: "mem_wf m" and l: "locate m p n = Some l"
  shows "lands m p n l"
proof (cases "unat p + n \<le> length (ms m)")
  case True
  then show ?thesis using l by (auto simp: locate_def intro: lands_S)
next
  case False
  have sh: "stride_shift m < 32" using wf by (simp add: mem_wf_def)
  show ?thesis
  proof (cases l)
    case (LocS a)
    then show ?thesis using l False
      by (auto simp: locate_def Let_def split: option.splits if_splits)
  next
    case (LocE a e)
    then obtain off where off: "checked_sub p (e_base m) = Some off"
      "e = wrapping_shr off (stride_shift m)" "a = unat off" "e < num_edicts m"
      "unat (off AND (wrapping_shl 1 (stride_shift m) - 1)) + n \<le> unat (field_bytes m)"
      using l False by (auto simp: locate_def Let_def split: option.splits if_splits)
    note cs = checked_sub_Some [OF off(1)]
    have e: "unat e = unat off div block_len m" using block_mask(1) [OF sh] off(2) by simp
    have "unat off = unat e * block_len m + unat off mod block_len m" by (simp add: e)
    then have "lands m p n (LocE (unat e * block_len m + unat off mod block_len m) e)"
      using off(4,5) cs num_edicts_less [OF wf] block_mask(2) [OF sh, of off]
      by (intro lands_E) (auto simp: word_le_nat_alt word_less_nat_alt block_len_def)
    then show ?thesis using LocE off(3) by (simp add: e)
  next
    case (LocH a)
    then obtain off where "checked_sub p (h_base m) = Some off" "a = unat off"
      "unat off + n \<le> length (h_data (mheap m))"
      using l False by (auto simp: locate_def Let_def split: option.splits if_splits)
    then show ?thesis using LocH checked_sub_Some [of p "h_base m" off]
      by (auto simp: word_le_nat_alt intro: lands_H)
  qed
qed

text \<open>Conversely, for accesses of at least one byte the landing place is the only one.\<close>

lemma lands_locate:
  assumes wf: "mem_wf m" and l: "lands m p n l" and n: "0 < n"
  shows "locate m p n = Some l"
  using l
proof cases
  case lands_S
  then show ?thesis by (simp add: locate_def)
next
  case (lands_E e w)
  have sh: "stride_shift m < 32" using wf by (simp add: mem_wf_def)
  define off where "off = p - e_base m"
  have le: "e_base m \<le> p" using lands_E by (simp add: word_le_nat_alt)
  then have uo: "unat off = unat e * block_len m + w"
    using lands_E by (simp add: off_def unat_sub_if_size word_le_nat_alt)
  have "unat off div block_len m = unat e" "unat off mod block_len m = w"
    using lands_E(5) by (simp_all add: uo)
  then have "wrapping_shr off (stride_shift m) = e"
    "unat (off AND (wrapping_shl 1 (stride_shift m) - 1)) = w"
    using block_mask [OF sh, of off] by (simp_all add: word_unat_eq_iff)
  moreover have "length (ms m) \<le> unat p" using wf lands_E(2) by (simp add: mem_wf_def)
  moreover have "e < num_edicts m" using lands_E(4) num_edicts_less [OF wf] by (simp add: word_less_nat_alt)
  ultimately show ?thesis
    using lands_E le n by (simp add: locate_def Let_def checked_sub_def off_def [symmetric] uo)
next
  case (lands_H a)
  have sh: "stride_shift m < 32" using wf by (simp add: mem_wf_def)
  have ge: "unat (e_base m) + length (slots m) * block_len m \<le> unat p" "length (ms m) \<le> unat p"
    using wf lands_H(2) slots_area [OF wf] by (simp_all add: mem_wf_def)
  define off where "off = p - e_base m"
  have le: "e_base m \<le> p" "h_base m \<le> p" using ge lands_H by (simp_all add: word_le_nat_alt)
  have "length (slots m) * block_len m \<le> unat off"
    using ge le by (simp add: off_def unat_sub_if_size word_le_nat_alt)
  then have "length (slots m) \<le> unat (wrapping_shr off (stride_shift m))"
    by (simp add: block_mask(1) [OF sh] block_len_def less_eq_div_iff_mult_less_eq)
  then have "\<not> wrapping_shr off (stride_shift m) < num_edicts m"
    using num_edicts_less [OF wf] by (simp add: word_less_nat_alt)
  moreover have "unat (p - h_base m) = a" using lands_H le by (simp add: unat_sub_if_size word_le_nat_alt)
  ultimately show ?thesis
    using lands_H ge le n by (simp add: locate_def Let_def checked_sub_def off_def [symmetric])
qed

section \<open>Reads and writes\<close>

lemma lands_range:
  assumes "mem_wf m" "lands m p n l" "region m l = (d, a)"
  shows "a + n \<le> length d"
  using assms(2)
proof cases
  case (lands_E e w)
  have "unat e * block_len m + block_len m \<le> length (me m)"
    by (rule usize_shl_block(2) [OF assms(1) lands_E(4)])
  moreover have "w + n \<le> block_len m" using lands_E(3) assms(1) by (simp add: mem_wf_def)
  ultimately show ?thesis using assms(3) lands_E(1) by (simp add: region_def)
qed (use assms(3) in \<open>auto simp: region_def\<close>)

lemma mem_read_Some:
  assumes "mem_wf m"
  shows "mem_read m n p = Some bs \<longleftrightarrow>
    (\<exists>l. locate m p n = Some l \<and> bs = take n (drop (snd (region m l)) (fst (region m l))))"
  using lands_range [OF assms locate_lands [OF assms]]
  by (fastforce simp: mem_read_def slice_from_def first_chunk_def Option.bind_eq_Some_conv
      split: option.splits prod.splits if_splits)

lemma mem_read_length: "mem_read m n p = Some bs \<Longrightarrow> length bs = n"
  by (auto simp: mem_read_def slice_from_def first_chunk_def Option.bind_eq_Some_conv
      split: option.splits prod.splits if_splits)

lemma set_region_same:
  "length d = length (fst (region m l)) \<Longrightarrow> region (set_region m l d) l = (d, snd (region m l))"
  by (auto simp: set_region_def region_def split: loc.splits)

lemma set_region_fields [simp]:
  "slots (set_region m l d) = slots m" "e_base (set_region m l d) = e_base m"
  "h_base (set_region m l d) = h_base m" "stride_shift (set_region m l d) = stride_shift m"
  "field_bytes (set_region m l d) = field_bytes m" "max_edicts (set_region m l d) = max_edicts m"
  "ls_base (set_region m l d) = ls_base m" "ls_words (set_region m l d) = ls_words m"
  by (auto simp: set_region_def split: loc.splits)

lemma set_region_lengths:
  assumes "length d = length (fst (region m l))"
  shows "length (ms (set_region m l d)) = length (ms m)"
    "length (me (set_region m l d)) = length (me m)"
    "length (h_data (mheap (set_region m l d))) = length (h_data (mheap m))"
    "h_max (mheap (set_region m l d)) = h_max (mheap m)"
  using assms by (auto simp: set_region_def region_def split: loc.splits)

lemma set_region_locate:
  assumes "length d = length (fst (region m l))"
  shows "locate (set_region m l d) q k = locate m q k"
  unfolding locate_def num_edicts_def set_region_lengths [OF assms] set_region_fields ..

lemma set_region_wf:
  assumes "mem_wf m" "length d = length (fst (region m l))"
  shows "mem_wf (set_region m l d)"
proof -
  have "heap_wf (mheap (set_region m l d))"
  proof (rule heap_wf_data [of "mheap m"])
    show "heap_wf (mheap m)" using assms(1) by (simp add: mem_wf_def)
  qed (use assms(2) in \<open>auto simp: set_region_def region_def split: loc.splits\<close>)
  then show ?thesis
    using assms(1) by (simp add: mem_wf_def block_len_def set_region_lengths [OF assms(2)])
qed

text \<open>Two disjoint accesses land in different regions or in disjoint parts of the same one.\<close>

lemma lands_disjoint:
  assumes wf: "mem_wf m" and l: "lands m p n l" "lands m q k l'"
    and d: "unat p + n \<le> unat q \<or> unat q + k \<le> unat p" and len: "length x = length (fst (region m l))"
  shows "fst (region (set_region m l x) l') = fst (region m l') \<or>
    (fst (region (set_region m l x) l') = x \<and> fst (region m l') = fst (region m l) \<and>
     (snd (region m l) + n \<le> snd (region m l') \<or> snd (region m l') + k \<le> snd (region m l)))"
  using l(1)
proof cases
  case lands_S
  note a = this
  from l(2) show ?thesis by cases (use a d in \<open>auto simp: region_def set_region_def\<close>)
next
  case (lands_E e w)
  note a = this
  from l(2) show ?thesis by cases (use a d in \<open>auto simp: region_def set_region_def\<close>)
next
  case (lands_H b)
  note a = this
  from l(2) show ?thesis by cases (use a d in \<open>auto simp: region_def set_region_def\<close>)
qed

lemma mem_write_Inr:
  assumes "mem_wf m" "mem_write m p bs = Inr m'"
  obtains l where "p \<noteq> 0" "locate m p (length bs) = Some l"
    "m' = set_region m l (splice (fst (region m l)) (snd (region m l)) bs)"
    "snd (region m l) + length bs \<le> length (fst (region m l))"
    "\<forall>a e. l = LocE a e \<longrightarrow> \<not> ent_protected m e"
  using assms(2)
  by (auto simp: mem_write_def check_write_def ent_protected_def
      split: if_splits option.splits loc.splits sum.splits prod.splits)

lemma mem_write_wf:
  assumes "mem_wf m" "mem_write m p bs = Inr m'"
  shows "mem_wf m'"
proof -
  from assms obtain l where "m' = set_region m l (splice (fst (region m l)) (snd (region m l)) bs)"
    "snd (region m l) + length bs \<le> length (fst (region m l))" by (rule mem_write_Inr)
  then show ?thesis using set_region_wf [OF assms(1)] by simp
qed

lemma mem_write_read:
  assumes wf: "mem_wf m" and w: "mem_write m p bs = Inr m'"
  shows "mem_read m' (length bs) p = Some bs"
proof -
  from wf w obtain l where l: "locate m p (length bs) = Some l"
    "m' = set_region m l (splice (fst (region m l)) (snd (region m l)) bs)"
    "snd (region m l) + length bs \<le> length (fst (region m l))" by (rule mem_write_Inr)
  have len: "length (splice (fst (region m l)) (snd (region m l)) bs) = length (fst (region m l))"
    using l(3) by simp
  show ?thesis
    using l(1,3) mem_read_Some [OF mem_write_wf [OF wf w], of "length bs" p bs]
    by (simp add: l(2) set_region_locate [OF len] set_region_same [OF len] splice_get_same)
qed

lemma mem_write_frame:
  assumes wf: "mem_wf m" and w: "mem_write m p bs = Inr m'"
    and d: "unat p + length bs \<le> unat q \<or> unat q + k \<le> unat p"
  shows "mem_read m' k q = mem_read m k q"
proof -
  from wf w obtain l where l: "locate m p (length bs) = Some l"
    "m' = set_region m l (splice (fst (region m l)) (snd (region m l)) bs)"
    "snd (region m l) + length bs \<le> length (fst (region m l))" by (rule mem_write_Inr)
  let ?x = "splice (fst (region m l)) (snd (region m l)) bs"
  have len: "length ?x = length (fst (region m l))" using l(3) by simp
  have loc: "locate m' q k = locate m q k" by (simp add: l(2) set_region_locate [OF len])
  show ?thesis
  proof (cases "locate m q k")
    case None
    then show ?thesis by (simp add: mem_read_def loc)
  next
    case (Some l')
    note la = locate_lands [OF wf l(1)] and lb = locate_lands [OF wf Some]
    obtain d' a' where r: "region m l' = (d', a')" by fastforce
    have snd: "snd (region m' l') = a'" using r by (auto simp: l(2) region_def set_region_def split: loc.splits)
    have "take k (drop a' (fst (region m' l'))) = take k (drop a' d')"
      using lands_disjoint [OF wf la lb d len] lands_range [OF wf lb r] l(3) r
      by (auto simp: l(2) intro!: splice_get_other)
    moreover have "mem_read m k q = Some (take k (drop a' d'))"
      using mem_read_Some [OF wf] by (simp add: Some r)
    moreover have "mem_read m' k q = Some (take k (drop a' (fst (region m' l'))))"
      using mem_read_Some [OF mem_write_wf [OF wf w]] by (simp add: Some loc snd)
    ultimately show ?thesis by simp
  qed
qed

lemma take_drop_part:
  "k + j \<le> n \<Longrightarrow> take j (drop k (take n (drop a d))) = take j (drop (a + k) d)"
  by (simp add: drop_take min_absorb1 add.commute)

lemma mem_read_part:
  assumes wf: "mem_wf m" and r: "mem_read m n p = Some bs" and "k + j \<le> n" "0 < j"
    and nw: "unat p + n < 2 ^ 32"
  shows "mem_read m j (p + of_nat k) = Some (take j (drop k bs))"
proof -
  obtain l where l: "locate m p n = Some l" "bs = take n (drop (snd (region m l)) (fst (region m l)))"
    using r mem_read_Some [OF wf] by auto
  have q: "unat (p + of_nat k) = unat p + k"
    using assms(3) nw by (simp add: unat_word_ariths unat_of_nat_small)
  from locate_lands [OF wf l(1)] obtain l' where
    "lands m (p + of_nat k) j l'" "region m l' = (fst (region m l), snd (region m l) + k)"
  proof cases
    case lands_S
    then show ?thesis using that [OF lands.lands_S] q assms(3) by (simp add: region_def)
  next
    case (lands_E e w)
    have "w + k < block_len m" using lands_E(3) assms(3,4) wf by (simp add: mem_wf_def)
    then show ?thesis
      using that [OF lands.lands_E [of "p + of_nat k" m e "w + k" j]] q assms(3) lands_E
      by (simp add: region_def)
  next
    case (lands_H a)
    then show ?thesis
      using that [OF lands.lands_H [of "p + of_nat k" m "a + k" j]] q assms(3) by (simp add: region_def)
  qed
  then have "locate m (p + of_nat k) j = Some l'" by (intro lands_locate [OF wf _ assms(4)])
  then show ?thesis
    using mem_read_Some [OF wf, of j "p + of_nat k"] \<open>region m l' = _\<close>
      take_drop_part [OF assms(3)] l(2) by simp
qed

text \<open>
  The pointer interface of the interpreter and of the memory builtins: typed loads and stores through
  addresses.  What a client gets from the laws: a store of several words is the same as storing them
  one after the other.
\<close>

locale addressed_store =
  fixes ok :: "'m \<Rightarrow> bool"
    and load :: "'m \<Rightarrow> nat \<Rightarrow> u32 \<Rightarrow> bytes option"
    and store :: "'m \<Rightarrow> u32 \<Rightarrow> bytes \<Rightarrow> 'e + 'm"
  assumes store_ok: "ok m \<Longrightarrow> store m p bs = Inr m' \<Longrightarrow> ok m'"
    and load_length: "load m n p = Some bs \<Longrightarrow> length bs = n"
    and load_stored: "ok m \<Longrightarrow> store m p bs = Inr m' \<Longrightarrow> load m' (length bs) p = Some bs"
    and load_other: "ok m \<Longrightarrow> store m p bs = Inr m' \<Longrightarrow>
      unat p + length bs \<le> unat q \<or> unat q + k \<le> unat p \<Longrightarrow> load m' k q = load m k q"
    and load_part: "ok m \<Longrightarrow> load m n p = Some bs \<Longrightarrow> k + j \<le> n \<Longrightarrow> 0 < j \<Longrightarrow>
      unat p + n < 2 ^ 32 \<Longrightarrow> load m j (p + of_nat k) = Some (take j (drop k bs))"
begin

lemma load_stored_part:
  assumes "ok m" "store m p bs = Inr m'" "k + j \<le> length bs" "0 < j" "unat p + length bs < 2 ^ 32"
  shows "load m' j (p + of_nat k) = Some (take j (drop k bs))"
  using load_part [OF store_ok [OF assms(1,2)] load_stored [OF assms(1,2)] assms(3-5)] .

lemma two_stores:
  assumes "ok m" "store m p xs = Inr m1" "store m1 q ys = Inr m2"
    and "unat p + length xs \<le> unat q"
  shows "load m2 (length xs) p = Some xs \<and> load m2 (length ys) q = Some ys"
  using load_stored [OF assms(1,2)] load_stored [OF store_ok [OF assms(1,2)] assms(3)]
    load_other [OF store_ok [OF assms(1,2)] assms(3), of p "length xs"] assms(4)
  by simp

end

interpretation vm_memory: addressed_store mem_wf mem_read mem_write
proof
  show "mem_read m n p = Some bs \<Longrightarrow> length bs = n" for m n p bs by (rule mem_read_length)
qed (fact mem_write_wf mem_write_read mem_write_frame mem_read_part)+

section \<open>Entity slots\<close>

lemma update_slot_fields [simp]:
  "ms (update_slot m e f) = ms m" "me (update_slot m e f) = me m" "mheap (update_slot m e f) = mheap m"
  "length (slots (update_slot m e f)) = length (slots m)" "e_base (update_slot m e f) = e_base m"
  "h_base (update_slot m e f) = h_base m" "stride_shift (update_slot m e f) = stride_shift m"
  "field_bytes (update_slot m e f) = field_bytes m" "max_edicts (update_slot m e f) = max_edicts m"
  "ls_base (update_slot m e f) = ls_base m" "ls_words (update_slot m e f) = ls_words m"
  by (simp_all add: update_slot_def split: option.splits)

lemma update_slot_nth:
  assumes "unat e < length (slots m)" "i < length (slots m)"
  shows "slots (update_slot m e f) ! i = (if i = unat e then f (slots m ! i) else slots m ! i)"
  using assms by (auto simp: update_slot_def nth_opt_def)

lemma clear_entity_fields [simp]:
  "ms (clear_entity m e) = ms m" "length (me (clear_entity m e)) = length (me m)"
  "mheap (clear_entity m e) = mheap m" "slots (clear_entity m e) = slots m"
  "e_base (clear_entity m e) = e_base m" "h_base (clear_entity m e) = h_base m"
  "stride_shift (clear_entity m e) = stride_shift m" "field_bytes (clear_entity m e) = field_bytes m"
  "max_edicts (clear_entity m e) = max_edicts m" "ls_base (clear_entity m e) = ls_base m"
  "ls_words (clear_entity m e) = ls_words m"
  by (simp_all add: clear_entity_def split: option.splits)

text \<open>Only the sizes of the regions matter to the layout.\<close>

lemma mem_wf_shape:
  assumes "mem_wf m" "length (ms m') = length (ms m)" "length (me m') = length (me m)"
    "length (slots m') = length (slots m)" "mheap m' = mheap m" "e_base m' = e_base m"
    "h_base m' = h_base m" "stride_shift m' = stride_shift m" "field_bytes m' = field_bytes m"
    "max_edicts m' = max_edicts m" "ls_base m' = ls_base m" "ls_words m' = ls_words m"
  shows "mem_wf m'"
  using assms by (simp add: mem_wf_def block_len_def)

lemma update_slot_wf: "mem_wf m \<Longrightarrow> mem_wf (update_slot m e f)"
  by (erule mem_wf_shape) simp_all

lemma clear_entity_wf: "mem_wf m \<Longrightarrow> mem_wf (clear_entity m e)"
  by (erule mem_wf_shape) simp_all

lemma mem_set_g_wf: "mem_wf m \<Longrightarrow> mem_wf (mem_set_g m off v)"
  by (erule mem_wf_shape) (simp_all add: mem_set_g_def length_put_u32)

lemma set_ent_word_wf: "mem_wf m \<Longrightarrow> mem_wf (set_ent_word m off v)"
  by (erule mem_wf_shape) (simp_all add: set_ent_word_def length_put_u32)

text \<open>\<open>clear_entity\<close> zeroes the block of one slot and touches no other.\<close>

definition ent_block :: "memory \<Rightarrow> nat \<Rightarrow> bytes" where
  "ent_block m i = take (block_len m) (drop (i * block_len m) (me m))"

lemma clear_entity_block:
  assumes wf: "mem_wf m" and e: "unat e < length (slots m)" and i: "i < length (slots m)"
  shows "ent_block (clear_entity m e) i =
    (if i = unat e then replicate (block_len m) 0 else ent_block m i)"
proof -
  let ?k = "block_len m"
  have sh: "unat (stride_shift m) mod 64 = unat (stride_shift m)"
    using wf unat_shift [of "stride_shift m"] by (auto simp: mem_wf_def)
  note b = usize_shl_block [OF wf e]
  have me: "me (clear_entity m e) = zero_fill (me m) (unat e * ?k) (unat e * ?k + ?k)"
    by (simp add: clear_entity_def b(1) sh block_len_def)
  have bl: "block_len (clear_entity m e) = ?k" by (simp add: block_len_def)
  show ?thesis
  proof (cases "i = unat e")
    case True
    then show ?thesis using b(2) by (simp add: ent_block_def bl me zero_fill_same)
  next
    case False
    have "(i + 1) * ?k \<le> length (slots m) * ?k" using i by (intro mult_le_mono1) simp
    then have "i * ?k + ?k \<le> length (me m)" using wf by (simp add: mem_wf_def)
    moreover have "i * ?k + ?k \<le> unat e * ?k \<or> unat e * ?k + ?k \<le> i * ?k"
    proof (cases "i < unat e")
      case True
      then have "(i + 1) * ?k \<le> unat e * ?k" by (intro mult_le_mono1) simp
      then show ?thesis by simp
    next
      case f: False
      then have "(unat e + 1) * ?k \<le> i * ?k" using False by (intro mult_le_mono1) simp
      then show ?thesis by simp
    qed
    ultimately show ?thesis using False by (simp add: ent_block_def bl me zero_fill_other)
  qed
qed

lemma find_slot_Some:
  assumes "find_slot xs start P = Some i"
  shows "start \<le> i" "i < length xs" "P (xs ! i)"
  using assms by (auto simp: find_slot_def find_Some_iff)

definition fresh_slot :: ent_slot where
  "fresh_slot = \<lparr>in_use = False, protected = False, freetime = 0, serial = 0\<rparr>"

lemma grow_to_wf:
  assumes wf: "mem_wf m" and e: "length (slots m) \<le> unat e" "e < max_edicts m"
    and r: "grow_to m e = Inr m'"
  shows "mem_wf m'" "length (slots m') = unat e + 1" "max_edicts m' = max_edicts m"
    "i < length (slots m) \<Longrightarrow> slots m' ! i = slots m ! i \<and> ent_block m' i = ent_block m i"
    "length (slots m) \<le> i \<Longrightarrow> i \<le> unat e \<Longrightarrow> slots m' ! i = fresh_slot"
proof -
  let ?n = "unat e + 1" and ?k = "block_len m"
  have le: "?n \<le> unat (max_edicts m)" using e(2) by (simp add: word_less_nat_alt)
  then have "?n * ?k \<le> unat (max_edicts m) * ?k" by (rule mult_le_mono1)
  then have "unat (e_base m) + ?n * ?k \<le> unat (h_base m)" using wf unfolding mem_wf_def by linarith
  then have small: "?n * ?k < 2 ^ 32" using unat_u32_bound [of "h_base m"] by linarith
  have "stride_shift m < 64" using wf by (auto simp: mem_wf_def word_less_nat_alt)
  then have shl: "usize_shl ?n (stride_shift m) = Some (?n * ?k)"
    using small by (simp add: usize_shl_def block_len_def)
  have "length (slots m) * ?k \<le> ?n * ?k" using e(1) by (intro mult_le_mono1) simp
  then have me: "length (me m) \<le> ?n * ?k" using wf by (simp add: mem_wf_def)
  have m': "m' = m\<lparr>me := me m @ replicate (?n * ?k - length (me m)) 0,
                   slots := slots m @ replicate (?n - length (slots m)) fresh_slot\<rparr>"
    using r shl by (simp add: grow_to_def fresh_slot_def Let_def)
  show "mem_wf m'" using wf e(1) le me by (simp add: mem_wf_def m' block_len_def)
  show "length (slots m') = unat e + 1" using e(1) by (simp add: m')
  show "max_edicts m' = max_edicts m" by (simp add: m')
  show "slots m' ! i = slots m ! i \<and> ent_block m' i = ent_block m i" if "i < length (slots m)"
  proof -
    have "(i + 1) * ?k \<le> length (slots m) * ?k" using that by (intro mult_le_mono1) simp
    then have "i * ?k + ?k \<le> length (me m)" using wf by (simp add: mem_wf_def)
    then show ?thesis using that by (simp add: m' nth_append ent_block_def block_len_def)
  qed
  show "slots m' ! i = fresh_slot" if "length (slots m) \<le> i" "i \<le> unat e"
    using that by (simp add: m' nth_append)
qed

text \<open>A spawn takes a free slot at or above the first spawnable one, or grows the table.\<close>

lemma pick_slot_cases:
  assumes "pick_slot m now first = Inr (m', e)"
  obtains (free) i P where "find_slot (slots m) (min (unat first) (length (slots m))) P = Some i"
      "\<not> in_use (slots m ! i)" "i < 2 ^ 32" "m' = m" "e = of_nat i"
  | (grow) "max (num_edicts m) first < max_edicts m" "grow_to m (max (num_edicts m) first) = Inr m'"
      "e = max (num_edicts m) first"
proof -
  let ?start = "min (unat first) (length (slots m))"
  note r = assms [unfolded pick_slot_def Let_def]
  show ?thesis
  proof (cases "find_slot (slots m) ?start (reusable now)")
    case (Some i)
    then have "i < 2 ^ 32" "m' = m" "e = of_nat i" using r by (simp_all split: if_splits)
    moreover have "\<not> in_use (slots m ! i)" using find_slot_Some(3) [OF Some] by (simp add: reusable_def)
    ultimately show ?thesis by (intro free [OF Some])
  next
    case None
    show ?thesis
    proof (cases "max (num_edicts m) first < max_edicts m")
      case True
      then have "grow_to m (max (num_edicts m) first) = Inr m'" "e = max (num_edicts m) first"
        using r None by (auto simp: bind_res_Inr)
      then show ?thesis by (rule grow [OF True])
    next
      case False
      then obtain i where i: "find_slot (slots m) ?start (\<lambda>s. \<not> in_use s) = Some i"
        "i < 2 ^ 32" "m' = m" "e = of_nat i"
        using r None by (auto split: option.splits if_splits)
      show ?thesis by (rule free [OF i(1) _ i(2-4)]) (use find_slot_Some(3) [OF i(1)] in simp)
    qed
  qed
qed

lemma pick_slot_ok:
  assumes wf: "mem_wf m" and r: "pick_slot m now first = Inr (m', e)"
  shows "mem_wf m'" "unat e < length (slots m')" "first \<le> e" "\<not> in_use (slots m' ! unat e)"
    "length (slots m) \<le> length (slots m')" "max_edicts m' = max_edicts m"
    "i < length (slots m) \<Longrightarrow> slots m' ! i = slots m ! i \<and> ent_block m' i = ent_block m i"
    "length (slots m) \<le> i \<Longrightarrow> i < length (slots m') \<Longrightarrow> slots m' ! i = fresh_slot"
proof -
  let ?grow = "max (num_edicts m) first"
  have main: "mem_wf m' \<and> unat e < length (slots m') \<and> first \<le> e \<and> \<not> in_use (slots m' ! unat e) \<and>
     length (slots m) \<le> length (slots m') \<and> max_edicts m' = max_edicts m \<and>
     (\<forall>i < length (slots m). slots m' ! i = slots m ! i \<and> ent_block m' i = ent_block m i) \<and>
     (\<forall>i. length (slots m) \<le> i \<longrightarrow> i < length (slots m') \<longrightarrow> slots m' ! i = fresh_slot)"
    using r
  proof (cases rule: pick_slot_cases)
    case (free i P)
    note f = find_slot_Some(1,2) [OF free(1)]
    have ue: "unat e = i" using free(3,5) by (simp add: unat_of_nat_small)
    have "unat first \<le> i" using f by (cases "unat first \<le> length (slots m)") auto
    then show ?thesis using wf free f ue by (simp add: word_le_nat_alt)
  next
    case grow
    have ge: "length (slots m) \<le> unat ?grow"
      using num_edicts_less [OF wf] by (auto simp: max_def word_le_nat_alt)
    note w = grow_to_wf [OF wf ge grow(1,2)]
    have "slots m' ! unat e = fresh_slot" using w(5) [of "unat e"] ge grow(3) by simp
    then show ?thesis using w grow(3) ge by (auto simp: fresh_slot_def)
  qed
  from main show "mem_wf m'" "unat e < length (slots m')" "first \<le> e" "\<not> in_use (slots m' ! unat e)"
    "length (slots m) \<le> length (slots m')" "max_edicts m' = max_edicts m"
    "i < length (slots m) \<Longrightarrow> slots m' ! i = slots m ! i \<and> ent_block m' i = ent_block m i"
    "length (slots m) \<le> i \<Longrightarrow> i < length (slots m') \<Longrightarrow> slots m' ! i = fresh_slot"
    by blast+
qed

lemma update_slot_block [simp]: "ent_block (update_slot m e f) i = ent_block m i"
  by (simp add: ent_block_def block_len_def)

lemma spawn_parts:
  assumes "spawn m now first = Inr (m', e)"
  obtains m1 where "pick_slot m now first = Inr (m1, e)"
    "m' = update_slot (clear_entity m1 e) e
       (\<lambda>s. s\<lparr>in_use := True, protected := False, serial := serial s + 1\<rparr>)"
  using assms by (auto simp: spawn_def bind_res_Inr)

lemma spawn_wf: "mem_wf m \<Longrightarrow> spawn m now first = Inr (m', e) \<Longrightarrow> mem_wf m'"
  by (erule spawn_parts) (simp add: pick_slot_ok(1) update_slot_wf clear_entity_wf)

definition sample_memory :: memory where
  "sample_memory = \<lparr>ms = replicate 48 0, me = replicate 32 0, e_base = 64, stride_shift = 4,
     field_bytes = 12, max_edicts = 4,
     slots = [\<lparr>in_use = True, protected = False, freetime = 0, serial = 1\<rparr>,
              \<lparr>in_use = True, protected = True, freetime = 0, serial = 1\<rparr>],
     mheap = sample_heap, h_base = 128, ls_base = 16, ls_words = 4\<rparr>"

lemma sample_memory_wf: "mem_wf sample_memory"
  using sample_heap_wf
  by (simp add: mem_wf_def sample_memory_def block_len_def) (simp add: sample_heap_def)

section \<open>The life of the entities\<close>

lemma set_ent_word_slots [simp]: "slots (set_ent_word m off v) = slots m"
  by (simp add: set_ent_word_def)

lemma clear_fields_slots:
  "slots (clear_fields m e ws) = slots m \<and> (mem_wf m \<longrightarrow> mem_wf (clear_fields m e ws))"
  unfolding clear_fields_def
  by (induction ws arbitrary: m) (auto simp: set_ent_word_wf split: option.splits)

lemma claim_ok:
  assumes wf: "mem_wf m" and r: "claim m e = Inr m'"
  shows "mem_wf m' \<and> e \<noteq> 0 \<and> unat e < length (slots m') \<and> length (slots m) \<le> length (slots m') \<and>
    (\<forall>i < length (slots m). i \<noteq> unat e \<longrightarrow> slots m' ! i = slots m ! i)"
proof -
  have e: "e \<noteq> 0" "e < max_edicts m" using r by (auto simp: claim_def split: if_splits)
  obtain m1 where m1: "(if length (slots m) \<le> unat e then grow_to m e else Inr m) = Inr m1"
    "m' = update_slot (clear_entity m1 e) e
       (\<lambda>s. s\<lparr>in_use := True, protected := False, freetime := 0, serial := serial s + 1\<rparr>)"
  proof -
    have "bind_res (if length (slots m) \<le> unat e then grow_to m e else Inr m) (\<lambda>m.
        Inr (update_slot (clear_entity m e) e
          (\<lambda>s. s\<lparr>in_use := True, protected := False, freetime := 0, serial := serial s + 1\<rparr>))) = Inr m'"
      using r e by (simp add: claim_def split: if_splits)
    then show thesis using that unfolding bind_res_Inr by blast
  qed
  have "mem_wf m1 \<and> unat e < length (slots m1) \<and> length (slots m) \<le> length (slots m1) \<and>
    (\<forall>i < length (slots m). slots m1 ! i = slots m ! i)"
  proof (cases "length (slots m) \<le> unat e")
    case True
    then show ?thesis using grow_to_wf [OF wf True e(2), of m1] m1(1) by simp
  qed (use m1(1) wf in simp)
  then show ?thesis
    using e(1) by (auto simp: m1(2) update_slot_wf clear_entity_wf update_slot_nth)
qed

lemma mem_remove_ok:
  assumes "mem_wf m" "mem_remove m e now instant ws = Inr m'"
  shows "mem_wf m' \<and> e \<noteq> 0 \<and> ent_in_use m e \<and> \<not> ent_protected m e \<and> \<not> ent_in_use m' e \<and>
    length (slots m') = length (slots m) \<and> (\<forall>i < length (slots m). i \<noteq> unat e \<longrightarrow> slots m' ! i = slots m ! i)"
proof -
  obtain s where s: "nth_opt (slots m) (unat e) = Some s" "in_use s" "\<not> protected s" "e \<noteq> 0"
    "m' = update_slot (clear_fields m e ws) e
       (\<lambda>s. s\<lparr>in_use := False, freetime := (if instant then 0 else now)\<rparr>)"
    using assms(2) by (auto simp: mem_remove_def split: if_splits option.splits)
  then show ?thesis
    using assms(1) clear_fields_slots [of m e ws]
    by (auto simp: ent_in_use_def ent_protected_def update_slot_wf update_slot_nth nth_opt_def)
qed

text \<open>Everything that changes the memory, as one step: entities taken, freed, cleared and protected, stores through
  pointers, to globals, to fields and on the local stack, the heap with what is written there, and room for new fields.\<close>

inductive ent_step :: "memory \<Rightarrow> memory \<Rightarrow> bool" where
  step_spawn: "spawn m now first = Inr (m', e) \<Longrightarrow> ent_step m m'"
| step_claim: "claim m e = Inr m' \<Longrightarrow> ent_step m m'"
| step_remove: "mem_remove m e now instant ws = Inr m' \<Longrightarrow> ent_step m m'"
| step_clear: "ent_step m (clear_entity m e)"
| step_protect: "ent_step m (update_slot m e (\<lambda>s. s\<lparr>protected := on\<rparr>))"
| step_write: "mem_write m p bs = Inr m' \<Longrightarrow> ent_step m m'"
| step_global: "ent_step m (mem_set_g m off v)"
| step_vector: "ent_step m (mem_set_gv m off w)"
| step_copy: "ent_step m (mem_copy_g m src dst n)"
| step_move: "ent_step m (fst (mem_move_s m src dst n))"
| step_field: "ent_step m (set_ent_word m off v)"
| step_alloc: "ent_step m (m\<lparr>mheap := fst (heap_alloc (mheap m) n)\<rparr>)"
| step_free: "ent_step m (m\<lparr>mheap := fst (heap_free (mheap m) a)\<rparr>)"
| step_realloc: "ent_step m (m\<lparr>mheap := fst (heap_realloc (mheap m) old n)\<rparr>)"
| step_heap_data: "length d = length (h_data (mheap m)) \<Longrightarrow> ent_step m (m\<lparr>mheap := (mheap m)\<lparr>h_data := d\<rparr>\<rparr>)"
| step_new_fields: "unat b \<le> block_len m \<Longrightarrow> ent_step m (m\<lparr>field_bytes := b\<rparr>)"

text \<open>The memories a machine can come to have: \<open>init_world\<close> takes the world into use, and then anything happens.\<close>

inductive ent_reach :: "memory \<Rightarrow> memory \<Rightarrow> bool" for m0 where
  reach_start: "init_world m0 = Inr m \<Longrightarrow> ent_reach m0 m"
| reach_step: "ent_reach m0 m \<Longrightarrow> ent_step m m' \<Longrightarrow> ent_reach m0 m'"

inductive_cases ent_stepE: "ent_step m m'"

definition has_world :: "memory \<Rightarrow> bool" where
  "has_world m \<longleftrightarrow> 0 < length (slots m) \<and> in_use (slots m ! 0)"

lemma spawn_slots:
  assumes "mem_wf m" "spawn m now first = Inr (m', e)"
  shows "length (slots m) \<le> length (slots m')" "unat e < length (slots m')"
    "i < length (slots m) \<Longrightarrow> in_use (slots m ! i) \<Longrightarrow> slots m' ! i = slots m ! i"
proof -
  from assms(2) obtain m1 where p: "pick_slot m now first = Inr (m1, e)"
    "m' = update_slot (clear_entity m1 e) e
       (\<lambda>s. s\<lparr>in_use := True, protected := False, serial := serial s + 1\<rparr>)"
    by (rule spawn_parts)
  note k = pick_slot_ok [OF assms(1) p(1)]
  show "length (slots m) \<le> length (slots m')" "unat e < length (slots m')"
    using k(2,5) by (simp_all add: p(2))
  show "slots m' ! i = slots m ! i" if "i < length (slots m)" "in_use (slots m ! i)"
    using k(2,4,5) k(7) [OF that(1)] that by (auto simp: p(2) update_slot_nth)
qed

lemma slot_ops_sel:
  "ms (clear_entity m e) = ms m" "ls_words (clear_entity m e) = ls_words m" "e_base (clear_entity m e) = e_base m"
  "ms (update_slot m e f) = ms m" "ls_words (update_slot m e f) = ls_words m" "e_base (update_slot m e f) = e_base m"
  by (simp_all add: clear_entity_def update_slot_def Let_def split: option.split)

lemma init_world_wf:
  assumes "mem_wf m" "slots m = []" "0 < max_edicts m" "init_world m = Inr m'"
  shows "mem_wf m'" "length (ms m') = length (ms m)" "ls_words m' = ls_words m" "e_base m' = e_base m"
proof -
  from assms(4) obtain g where g: "grow_to m 0 = Inr g"
    "m' = update_slot (clear_entity g 0) 0 (\<lambda>_. \<lparr>in_use = True, protected = False, freetime = 0, serial = 1\<rparr>)"
    by (auto simp: init_world_def bind_res_Inr)
  show "mem_wf m'"
    using grow_to_wf(1) [OF assms(1) _ assms(3) g(1)] assms(2) g(2) by (simp add: update_slot_wf clear_entity_wf)
  have "length (ms g) = length (ms m)" "ls_words g = ls_words m" "e_base g = e_base m"
    using g(1) by (auto simp: grow_to_def Let_def split: option.splits)
  then show "length (ms m') = length (ms m)" "ls_words m' = ls_words m" "e_base m' = e_base m"
    by (simp_all add: g(2) slot_ops_sel)
qed

lemma init_world_has_world:
  assumes "mem_wf m" "slots m = []" "0 < max_edicts m" "init_world m = Inr m'"
  shows "has_world m'"
proof -
  obtain g where g: "grow_to m 0 = Inr g"
    "m' = update_slot (clear_entity g 0) 0 (\<lambda>_. \<lparr>in_use = True, protected = False, freetime = 0, serial = 1\<rparr>)"
    using assms(4) by (auto simp: init_world_def bind_res_Inr)
  have "length (slots g) = 1" using grow_to_wf(2) [OF assms(1) _ assms(3) g(1)] assms(2) by simp
  then show ?thesis by (simp add: has_world_def g(2) update_slot_nth)
qed

text \<open>Writing region S or the heap's blocks changes no slot; neither does anything else that keeps their number and the
  world.\<close>

lemma mem_set_g_slots [simp]: "slots (mem_set_g m off v) = slots m"
  by (simp add: mem_set_g_def)

lemma mem_set_gv_wf: "mem_wf m \<Longrightarrow> mem_wf (mem_set_gv m off v) \<and> slots (mem_set_gv m off v) = slots m"
  by (simp add: mem_set_gv_def mem_set_g_wf split: prod.split)

lemma mem_copy_g_wf: "mem_wf m \<Longrightarrow> mem_wf (mem_copy_g m src dst n) \<and> slots (mem_copy_g m src dst n) = slots m"
  unfolding mem_copy_g_def by (induction n) (simp_all add: mem_set_g_wf)

lemma mem_move_s_wf: "mem_wf m \<Longrightarrow> mem_wf (fst (mem_move_s m src dst n)) \<and> slots (fst (mem_move_s m src dst n)) = slots m"
  by (auto simp: mem_move_s_def intro!: mem_wf_shape [of m])

lemma mem_heap_wf: "mem_wf m \<Longrightarrow> heap_wf h \<Longrightarrow> h_max h = h_max (mheap m) \<Longrightarrow> mem_wf (m\<lparr>mheap := h\<rparr>)"
  by (simp add: mem_wf_def block_len_def)

lemma mem_wf_heap: "mem_wf m \<Longrightarrow> heap_wf (mheap m)"
  by (simp add: mem_wf_def)

lemma ent_step_inv:
  assumes "ent_step m m'" "mem_wf m" "has_world m"
  shows "mem_wf m' \<and> has_world m' \<and> length (slots m) \<le> length (slots m')"
proof -
  have w: "0 < length (slots m)" "in_use (slots m ! 0)" using assms(3) by (simp_all add: has_world_def)
  show ?thesis
    using assms(1)
  proof cases
    case (step_spawn now first e)
    note c = spawn_slots [OF assms(2) step_spawn]
    show ?thesis using spawn_wf [OF assms(2) step_spawn] c(1,2) w c(3) [OF w]
      by (auto simp: has_world_def)
  next
    case (step_claim e)
    note c = claim_ok [OF assms(2) this]
    then have "slots m' ! 0 = slots m ! 0" using w by (simp add: unat_eq_0)
    then show ?thesis using c w by (auto simp: has_world_def)
  next
    case (step_remove e now instant ws)
    note c = mem_remove_ok [OF assms(2) this]
    then have "slots m' ! 0 = slots m ! 0" using w by (simp add: unat_eq_0)
    then show ?thesis using c w by (simp add: has_world_def)
  next
    case (step_write p bs)
    from assms(2) this obtain l where
      "m' = set_region m l (splice (fst (region m l)) (snd (region m l)) bs)" by (rule mem_write_Inr)
    then show ?thesis using mem_write_wf [OF assms(2) step_write] assms(3) by (simp add: has_world_def)
  next
    case (step_global off v)
    then show ?thesis using mem_set_g_wf [OF assms(2)] assms(3)
      by (simp add: has_world_def mem_set_g_def)
  next
    case (step_clear e)
    then show ?thesis using clear_entity_wf [OF assms(2)] assms(3) by (simp add: has_world_def)
  next
    case (step_protect e on)
    moreover have "in_use (slots m' ! 0)"
      using w step_protect by (auto simp: update_slot_def nth_opt_def nth_list_update split: option.split)
    ultimately show ?thesis using update_slot_wf [OF assms(2)] w by (simp add: has_world_def)
  next
    case (step_vector off v)
    then show ?thesis using mem_set_gv_wf [OF assms(2)] assms(3) by (simp add: has_world_def)
  next
    case (step_copy src dst n)
    then show ?thesis using mem_copy_g_wf [OF assms(2)] assms(3) by (simp add: has_world_def)
  next
    case (step_move src dst n)
    then show ?thesis using mem_move_s_wf [OF assms(2)] assms(3) by (simp add: has_world_def)
  next
    case (step_field off v)
    then show ?thesis using set_ent_word_wf [OF assms(2)] assms(3) by (simp add: has_world_def)
  next
    case (step_new_fields b)
    then show ?thesis using assms by (simp add: has_world_def mem_wf_def block_len_def)
  qed (use assms(3) mem_heap_wf [OF assms(2)] mem_wf_heap [OF assms(2)] in
    \<open>auto simp: has_world_def heap_alloc_wf_any heap_free_wf heap_realloc_wf heap_realloc_max heap_data_wf\<close>)
qed

section \<open>Properties\<close>

text \<open>C6: a store that succeeds is read back exactly, changes no byte outside its address range (in any of
  the three regions), keeps the layout invariant, and never goes through the null address.\<close>

theorem mem_write_effect:
  assumes "mem_wf m" "mem_write m p bs = Inr m'"
  shows "mem_wf m' \<and> p \<noteq> 0 \<and> mem_read m' (length bs) p = Some bs \<and>
    (\<forall>q k. unat p + length bs \<le> unat q \<or> unat q + k \<le> unat p \<longrightarrow>
       mem_read m' k q = mem_read m k q) \<and> slots m' = slots m"
proof -
  from assms obtain l where "p \<noteq> 0" "m' = set_region m l (splice (fst (region m l)) (snd (region m l)) bs)"
    by (rule mem_write_Inr)
  then show ?thesis
    using vm_memory.store_ok [OF assms] vm_memory.load_stored [OF assms]
      vm_memory.load_other [OF assms] by simp
qed

lemma sample_write:
  "mem_write sample_memory 4 [1, 2, 3, 4] =
     Inr (sample_memory\<lparr>ms := splice (replicate 48 0) 4 [1, 2, 3, 4]\<rparr>)"
  by (simp add: mem_write_def check_write_def locate_def region_def set_region_def sample_memory_def)

theorem mem_write_effect_witness:
  "mem_read (sample_memory\<lparr>ms := splice (replicate 48 0) 4 [1, 2, 3, 4]\<rparr>) 4 4 = Some [1, 2, 3, 4]"
proof -
  have "length [1, 2, 3, 4 :: u8] = 4" by simp
  with mem_write_effect [OF sample_memory_wf sample_write] show ?thesis by metis
qed

text \<open>A store that succeeds leaves a protected entity alone.\<close>

lemma protected_kept:
  assumes wf: "mem_wf m" and e: "ent_protected m e" and w: "mem_write m p bs = Inr m'"
  shows "ent_block m' (unat e) = ent_block m (unat e)"
proof -
  from wf w obtain l where l: "locate m p (length bs) = Some l"
    "m' = set_region m l (splice (fst (region m l)) (snd (region m l)) bs)"
    "\<forall>a e. l = LocE a e \<longrightarrow> \<not> ent_protected m e" by (rule mem_write_Inr)
  have k: "block_len m' = block_len m" by (simp add: l(2) block_len_def)
  from locate_lands [OF wf l(1)] show ?thesis
  proof cases
    case (lands_E f w)
    then have "f \<noteq> e" using l(3) e by auto
    then have ne: "unat f \<noteq> unat e" by (simp add: word_unat_eq_iff)
    have len: "unat e < length (slots m)"
      using e by (auto simp: ent_protected_def nth_opt_def split: if_splits)
    have in_block: "w + length bs \<le> block_len m" using lands_E(3) wf by (simp add: mem_wf_def)
    have "unat e * block_len m + block_len m \<le> unat f * block_len m + w \<or>
        unat f * block_len m + w + length bs \<le> unat e * block_len m"
    proof (cases "unat e < unat f")
      case True
      then have "(unat e + 1) * block_len m \<le> unat f * block_len m" by (intro mult_le_mono1) simp
      then show ?thesis by simp
    next
      case False
      then have "(unat f + 1) * block_len m \<le> unat e * block_len m" using ne by (intro mult_le_mono1) simp
      then show ?thesis using in_block by simp
    qed
    moreover have "unat f * block_len m + w + length bs \<le> length (me m)"
      using usize_shl_block(2) [OF wf lands_E(4)] in_block by linarith
    ultimately show ?thesis
      unfolding ent_block_def k using usize_shl_block(2) [OF wf len] lands_E(1)
      by (simp add: l(2) set_region_def region_def splice_get_other)
  qed (simp_all add: ent_block_def l(2) set_region_def block_len_def)
qed

text \<open>C7: a store through a pointer that succeeds is not through the null pointer and changes no byte of any protected
  entity; and one that reaches into the fields of a protected entity, or through null, is refused with that reason.\<close>

theorem protected_never_written:
  assumes "mem_wf m" "length bs < 2 ^ 32"
  shows "(\<forall>m'. mem_write m p bs = Inr m' \<longrightarrow>
      p \<noteq> 0 \<and> (\<forall>e. ent_protected m e \<longrightarrow> ent_block m' (unat e) = ent_block m (unat e))) \<and>
    mem_write m 0 bs = Inl WNull \<and>
    (\<forall>off e. p \<noteq> 0 \<and> locate m p (length bs) = Some (LocE off e) \<and> ent_protected m e \<longrightarrow>
      mem_write m p bs = Inl (WProtected e))"
proof (intro conjI allI impI)
  fix m' assume w: "mem_write m p bs = Inr m'"
  from assms(1) w show "p \<noteq> 0" by (rule mem_write_Inr)
  show "ent_block m' (unat e) = ent_block m (unat e)" if "ent_protected m e" for e
    by (rule protected_kept [OF assms(1) that w])
next
  show "mem_write m 0 bs = Inl WNull" using assms(2) by (simp add: mem_write_def check_write_def)
next
  fix off e assume "p \<noteq> 0 \<and> locate m p (length bs) = Some (LocE off e) \<and> ent_protected m e"
  then show "mem_write m p bs = Inl (WProtected e)"
    using assms(2) by (auto simp: mem_write_def check_write_def ent_protected_def split: option.splits)
qed

theorem protected_never_written_witness:
  "ent_block (sample_memory\<lparr>ms := splice (replicate 48 0) 4 [1, 2, 3, 4]\<rparr>) 1 = ent_block sample_memory 1 \<and>
   mem_write sample_memory 0 [1, 2, 3, 4] = Inl WNull"
proof -
  have "ent_protected sample_memory 1" by (simp add: ent_protected_def nth_opt_def sample_memory_def)
  moreover have "unat (1 :: u32) = 1" by simp
  moreover note protected_never_written [OF sample_memory_wf, of "[1, 2, 3, 4]" 4] sample_write
  moreover have "length [1, 2, 3, 4 :: u8] < 2 ^ 32" by simp
  ultimately show ?thesis by metis
qed

text \<open>The three regions share no address: an access of at least one byte lands in exactly one place,
  wholly inside one region and, in region E, inside the fields of one allocated entity; and an
  address is accessible only if it lands somewhere.\<close>

theorem locate_unique:
  assumes "mem_wf m" "0 < n"
  shows "(locate m p n = Some l \<longleftrightarrow> lands m p n l) \<and>
    (lands m p n l \<and> lands m p n l' \<longrightarrow> l = l') \<and>
    (lands m p n l \<longrightarrow> snd (region m l) + n \<le> length (fst (region m l)))"
proof -
  have iff: "locate m p n = Some l \<longleftrightarrow> lands m p n l" for l
    using locate_lands [OF assms(1)] lands_locate [OF assms(1) _ assms(2)] by blast
  have "l = l'" if "lands m p n l" "lands m p n l'"
  proof -
    from that have "locate m p n = Some l" "locate m p n = Some l'" by (simp_all only: iff)
    then show ?thesis by simp
  qed
  then show ?thesis
    using iff lands_range [OF assms(1), of p n l] by (cases "region m l") auto
qed

theorem locate_unique_witness:
  "lands sample_memory 84 8 (LocE 20 1)"
  using locate_unique [OF sample_memory_wf, of 8 84 "LocE 20 1" "LocE 20 1"]
  by (simp add: locate_def sample_memory_def checked_sub_def num_edicts_def wrapping_shr_def
      wrapping_shl_def)

text \<open>C8: spawning returns a slot at or above the first spawnable one that was not in use, in use and
  unprotected afterwards, with all its fields zero and a new serial; no other entity changes.\<close>

theorem spawn_fresh_entity:
  assumes wf: "mem_wf m" and r: "spawn m now first = Inr (m', e)"
  shows "mem_wf m' \<and> first \<le> e \<and> \<not> ent_in_use m e \<and> ent_in_use m' e \<and> \<not> ent_protected m' e \<and>
    ent_block m' (unat e) = replicate (block_len m') 0 \<and>
    (\<forall>i < length (slots m). i \<noteq> unat e \<longrightarrow> slots m' ! i = slots m ! i \<and> ent_block m' i = ent_block m i) \<and>
    (unat e < length (slots m) \<longrightarrow> serial (slots m' ! unat e) = serial (slots m ! unat e) + 1)"
proof -
  from r obtain m1 where p: "pick_slot m now first = Inr (m1, e)"
    "m' = update_slot (clear_entity m1 e) e
       (\<lambda>s. s\<lparr>in_use := True, protected := False, serial := serial s + 1\<rparr>)"
    by (rule spawn_parts)
  note k = pick_slot_ok [OF wf p(1)]
  have len: "length (slots m') = length (slots m1)" by (simp add: p(2))
  have nth: "slots m' ! i = (if i = unat e then (slots m1 ! i)
      \<lparr>in_use := True, protected := False, serial := serial (slots m1 ! i) + 1\<rparr> else slots m1 ! i)"
    if "i < length (slots m1)" for i
    using that k(2) by (simp add: p(2) update_slot_nth)
  have blk: "ent_block m' i = (if i = unat e then replicate (block_len m1) 0 else ent_block m1 i)"
    if "i < length (slots m1)" for i
    using clear_entity_block [OF k(1,2) that] by (simp add: p(2))
  have bl: "block_len m' = block_len m1" by (simp add: p(2) block_len_def)
  have "\<not> ent_in_use m e"
    using k(4) k(7) [of "unat e"] by (auto simp: ent_in_use_def nth_opt_def split: if_splits)
  then show ?thesis
    using spawn_wf [OF wf r] k(2,3,5,7) nth blk bl len
    by (auto simp: ent_in_use_def ent_protected_def nth_opt_def)
qed

lemma sample_spawn:
  "\<exists>m'. spawn sample_memory 0 1 = Inr (m', 2)"
  by (simp add: spawn_def pick_slot_def find_slot_def sample_memory_def reusable_def num_edicts_def
      grow_to_def usize_shl_def bind_res_def upt_rec max_def word_le_nat_alt)

theorem spawn_fresh_entity_witness:
  "\<exists>m'. spawn sample_memory 0 1 = Inr (m', 2) \<and> ent_in_use m' 2 \<and> \<not> ent_in_use sample_memory 2"
  using sample_spawn spawn_fresh_entity [OF sample_memory_wf] by blast

text \<open>C9: from the moment \<open>init_world\<close> has taken the world into use, however the memory is used (entities spawned,
  claimed, removed, cleared and protected, stores through pointers, to globals, to fields and on the local stack, blocks
  allocated, freed, reallocated and written on the heap, fields added), its layout stays well formed, the world stays in
  use, and slots are never given back.\<close>

theorem reachable_memory_wf:
  assumes "ent_reach m0 m" "mem_wf m0" "slots m0 = []" "0 < max_edicts m0"
  shows "mem_wf m \<and> has_world m \<and> (\<forall>m'. ent_step m m' \<longrightarrow> length (slots m) \<le> length (slots m'))"
proof -
  have "mem_wf m \<and> has_world m"
    using assms(1)
  proof induction
    case (reach_start m)
    then show ?case using init_world_wf(1) [OF assms(2-4)] init_world_has_world [OF assms(2-4)] by blast
  next
    case (reach_step m m')
    then show ?case using ent_step_inv [OF reach_step.hyps(2)] by auto
  qed
  then show ?thesis using ent_step_inv by blast
qed

definition sample_void :: memory where
  "sample_void = sample_memory\<lparr>slots := [], me := []\<rparr>"

theorem reachable_memory_wf_witness:
  "\<exists>m. ent_reach sample_void m \<and> mem_wf m \<and> has_world m \<and> \<not> ent_protected m 0"
proof -
  obtain m where m: "init_world sample_void = Inr m"
    by (auto simp: init_world_def bind_res_def grow_to_def usize_shl_def sample_void_def sample_memory_def)
  let ?m = "update_slot (mem_set_g m 4 7) 0 (\<lambda>s. s\<lparr>protected := False\<rparr>)"
  have r: "ent_reach sample_void ?m"
    by (rule reach_step [OF reach_step [OF reach_start [OF m] step_global] step_protect])
  have "mem_wf sample_void" using sample_memory_wf by (simp add: mem_wf_def sample_void_def block_len_def)
  then have "mem_wf ?m" "has_world ?m"
    using reachable_memory_wf [OF r] by (simp_all add: sample_void_def) (simp_all add: sample_memory_def)
  moreover have "\<not> ent_protected ?m 0"
    by (auto simp: ent_protected_def update_slot_def nth_opt_def split: option.split)
  ultimately show ?thesis using r by blast
qed

end
