(* ===== verification/Strings.thy ===== *)
theory Strings
  imports Bytes Values
begin

text \<open>
  Dynamic strings (\<open>src/vm/strings.rs\<close>): garbage-collected temp strings in a slot table and
  host-interned strings.  The invariant \<open>str_wf\<close> ties the counters (live slots, bytes) to the
  table; lemmas say when an allocation succeeds, that a string resolves to its text, and that a
  collection frees exactly the slots that are neither referenced nor pinned.  What the builtins
  rely on is the locale \<open>string_store\<close>.
\<close>

section \<open>References\<close>

definition TEMP_TAG :: u32 where "TEMP_TAG = 0x80000000"
definition STATIC_TAG :: u32 where "STATIC_TAG = 0xC0000000"
definition INDEX_MASK :: u32 where "INDEX_MASK = 0x3FFFFFFF"
definition TAG_MASK :: u32 where "TAG_MASK = 0xC0000000"
definition MAX_TEMP_GROWTH :: nat where "MAX_TEMP_GROWTH = 2 ^ 20"
definition INITIAL_SLOTS :: nat where "INITIAL_SLOTS = 1024"

datatype (plugins only: code size) str_kind = Linear u32 | Temp u32 | Static u32

definition classify :: "u32 \<Rightarrow> str_kind" where
  "classify r =
     (if r AND TAG_MASK = TEMP_TAG then Temp (r AND INDEX_MASK)
      else if r AND TAG_MASK = STATIC_TAG then Static (r AND INDEX_MASK)
      else Linear r)"

record gc_stats =
  gc_live :: nat
  gc_freed :: nat

record strings =
  s_slots :: "bytes option list"
  s_capacity :: nat
  s_cursor :: nat
  s_live :: nat
  s_bytes :: nat
  s_max_slots :: nat
  s_max_bytes :: nat
  s_statics :: "bytes list"
  s_static_index :: "bytes \<rightharpoonup> u32"
  s_pins :: "u32 \<rightharpoonup> u32"

text \<open>Saturation of \<open>usize\<close> arithmetic.\<close>

definition usize_sat :: "nat \<Rightarrow> nat" where
  "usize_sat n = min n (2 ^ 64 - 1)"

definition strings_new :: "nat \<Rightarrow> nat \<Rightarrow> strings" where
  "strings_new max_slots max_bytes =
     \<lparr>s_slots = [], s_capacity = min INITIAL_SLOTS (max max_slots 1), s_cursor = 0, s_live = 0,
      s_bytes = 0, s_max_slots = min max_slots (unat INDEX_MASK), s_max_bytes = max_bytes,
      s_statics = [], s_static_index = (\<lambda>_. None), s_pins = (\<lambda>_. None)\<rparr>"

section \<open>Temp strings\<close>

definition s_room :: "strings \<Rightarrow> nat" where
  "s_room s = s_max_bytes s - s_bytes s"

text \<open>\<open>n & !3\<close> on \<open>usize\<close>.\<close>

definition down4 :: "nat \<Rightarrow> nat" where
  "down4 n = n div 4 * 4"

definition s_fits :: "strings \<Rightarrow> nat \<Rightarrow> bool" where
  "s_fits s len \<longleftrightarrow> len + 4 < 2 ^ 64 \<and> down4 (len + 4) \<le> s_room s"

definition free_slot :: "strings \<Rightarrow> strings \<times> (resource + nat)" where
  "free_slot s =
     (let grown = min (usize_sat (usize_sat (s_capacity s * 2) + INITIAL_SLOTS)) (s_max_slots s) in
      if s_capacity s \<le> s_live s \<and> grown \<le> s_capacity s then (s, Inl TempStrings)
      else
        let cap = (if s_capacity s \<le> s_live s then grown else s_capacity s);
            sl = s_slots s @ replicate (cap - length (s_slots s)) None;
            s1 = s\<lparr>s_capacity := cap, s_slots := sl\<rparr>;
            start = (if cap = 0 then 0 else s_cursor s mod cap)
        in (case find (\<lambda>i. nth_opt sl i = Some None) ([start..<cap] @ [0..<start]) of
              None \<Rightarrow> (s1, Inl TempStrings)
            | Some i \<Rightarrow> (s1, Inr i)))"

definition alloc_raw :: "strings \<Rightarrow> bytes \<Rightarrow> strings \<times> (resource + u32)" where
  "alloc_raw s data =
     (if s_max_bytes s < s_bytes s + length data then (s, Inl TempStrings)
      else (case free_slot s of
              (s1, Inl e) \<Rightarrow> (s1, Inl e)
            | (s1, Inr slot) \<Rightarrow>
                (let s2 = s1\<lparr>s_slots := (s_slots s1)[slot := Some data],
                             s_live := s_live s1 + 1,
                             s_bytes := s_bytes s + length data,
                             s_cursor := slot + 1\<rparr> in
                 if slot < 2 ^ 32 then (s2, Inr (of_nat slot OR TEMP_TAG))
                 else (s2, Inl TempStrings))))"

definition str_alloc :: "strings \<Rightarrow> bytes \<Rightarrow> strings \<times> (resource + u32)" where
  "str_alloc s text =
     (if \<not> s_fits s (length text) then (s, Inl TempStrings)
      else alloc_raw s (text @ replicate (down4 (length text + 4) - length text) 0))"

definition temp_raw :: "strings \<Rightarrow> u32 \<Rightarrow> bytes option" where
  "temp_raw s slot = (case nth_opt (s_slots s) (unat slot) of Some d \<Rightarrow> d | None \<Rightarrow> None)"

text \<open>
  The slot's bytes for writing, grown with zeros to at least \<open>len\<close>; the caller stores what it
  wrote with \<open>set_temp\<close>.
\<close>

definition set_temp :: "strings \<Rightarrow> u32 \<Rightarrow> bytes \<Rightarrow> strings" where
  "set_temp s slot d = s\<lparr>s_slots := (s_slots s)[unat slot := Some d]\<rparr>"

definition temp_raw_mut :: "strings \<Rightarrow> u32 \<Rightarrow> nat \<Rightarrow> (strings \<times> bytes) option" where
  "temp_raw_mut s slot len =
     (case temp_raw s slot of
        None \<Rightarrow> None
      | Some data \<Rightarrow>
          if length data < len then
            (if MAX_TEMP_GROWTH < len then None
             else let grow = down4 (len + 3); extra = grow - length data in
               if s_max_bytes s < s_bytes s + extra then None
               else let data' = data @ replicate extra 0 in
                 Some ((set_temp s slot data')\<lparr>s_bytes := s_bytes s + extra\<rparr>, data'))
          else Some (s, data))"

section \<open>Interned strings, pins and collection\<close>

definition str_intern :: "strings \<Rightarrow> bytes \<Rightarrow> strings \<times> u32" where
  "str_intern s text =
     (case s_static_index s text of
        Some index \<Rightarrow> (s, index OR STATIC_TAG)
      | None \<Rightarrow>
          (let index = (if length (s_statics s) < 2 ^ 32 then of_nat (length (s_statics s))
                        else INDEX_MASK) AND INDEX_MASK in
           (s\<lparr>s_statics := s_statics s @ [text],
              s_static_index := (s_static_index s)(text \<mapsto> index)\<rparr>, index OR STATIC_TAG)))"

definition static_str :: "strings \<Rightarrow> u32 \<Rightarrow> bytes option" where
  "static_str s index = nth_opt (s_statics s) (unat index)"

definition str_pin :: "strings \<Rightarrow> u32 \<Rightarrow> strings" where
  "str_pin s r =
     (case classify r of
        Temp slot \<Rightarrow>
          s\<lparr>s_pins := (s_pins s)(slot \<mapsto> sat_add (case s_pins s slot of Some n \<Rightarrow> n | None \<Rightarrow> 0) 1)\<rparr>
      | _ \<Rightarrow> s)"

definition str_unpin :: "strings \<Rightarrow> u32 \<Rightarrow> strings" where
  "str_unpin s r =
     (case classify r of
        Temp slot \<Rightarrow>
          (case s_pins s slot of
             None \<Rightarrow> s
           | Some n \<Rightarrow>
               (let c = sat_sub n 1 in
                if c = 0 then s\<lparr>s_pins := (s_pins s)(slot := None)\<rparr>
                else s\<lparr>s_pins := (s_pins s)(slot \<mapsto> c)\<rparr>))
      | _ \<Rightarrow> s)"

definition wants_collection :: "strings \<Rightarrow> bool" where
  "wants_collection s \<longleftrightarrow> s_capacity s div 2 \<le> s_live s \<and> s_capacity s div 2 \<le> s_cursor s"

text \<open>\<open>chunks_exact(4)\<close>, each read as a little-endian word.\<close>

fun word_chunks :: "bytes \<Rightarrow> u32 list" where
  "word_chunks (a # b # c # d # r) = le_word [a, b, c, d] # word_chunks r"
| "word_chunks _ = []"

definition root_refs :: "bytes list \<Rightarrow> nat \<Rightarrow> bool" where
  "root_refs roots i =
     list_ex (\<lambda>reg. list_ex (\<lambda>w. w AND TAG_MASK = TEMP_TAG \<and> unat (w AND INDEX_MASK) = i)
       (word_chunks reg)) roots"

definition pinned :: "strings \<Rightarrow> nat \<Rightarrow> bool" where
  "pinned s i \<longleftrightarrow> i < 2 ^ 32 \<and> s_pins s (of_nat i) \<noteq> None"

definition sweep :: "(nat \<Rightarrow> bool) \<Rightarrow> bytes option list \<Rightarrow> bytes option list" where
  "sweep mark sl = map (\<lambda>i. if mark i then sl ! i else None) [0..<length sl]"

definition live_count :: "bytes option list \<Rightarrow> nat" where
  "live_count sl = length (filter (\<lambda>d. d \<noteq> None) sl)"

definition slot_bytes :: "bytes option list \<Rightarrow> nat" where
  "slot_bytes sl = sum_list (map (\<lambda>d. case d of Some b \<Rightarrow> length b | None \<Rightarrow> 0) sl)"

definition unmarked :: "(nat \<Rightarrow> bool) \<Rightarrow> bytes option list \<Rightarrow> bytes list" where
  "unmarked mark sl = List.map_filter (\<lambda>i. if mark i then None else sl ! i) [0..<length sl]"

definition str_collect :: "strings \<Rightarrow> bytes list \<Rightarrow> strings \<times> gc_stats" where
  "str_collect s roots =
     (let mark = (\<lambda>i. root_refs roots i \<or> pinned s i);
          gone = unmarked mark (s_slots s);
          freed = length gone;
          live = s_live s - freed;
          s1 = s\<lparr>s_slots := sweep mark (s_slots s),
                 s_bytes := foldl (\<lambda>n d. n - length d) (s_bytes s) gone,
                 s_live := live, s_cursor := 0\<rparr>
      in (if s_capacity s div 2 \<le> live
          then s1\<lparr>s_capacity := min (usize_sat (s_capacity s * 2)) (max (s_max_slots s) 1)\<rparr> else s1,
          \<lparr>gc_live = live, gc_freed = freed\<rparr>))"

section \<open>The invariant\<close>

definition str_wf :: "strings \<Rightarrow> bool" where
  "str_wf s \<longleftrightarrow>
     s_live s = live_count (s_slots s) \<and> s_bytes s = slot_bytes (s_slots s) \<and>
     s_bytes s \<le> s_max_bytes s \<and> length (s_slots s) \<le> s_capacity s \<and>
     s_capacity s \<le> max (s_max_slots s) 1 \<and> s_max_slots s \<le> unat INDEX_MASK \<and> 0 < s_capacity s \<and>
     length (s_statics s) \<le> unat INDEX_MASK + 1 \<and>
     (\<forall>t i. s_static_index s t = Some i \<longrightarrow> nth_opt (s_statics s) (unat i) = Some t)"

lemma live_count_update:
  "i < length sl \<Longrightarrow> sl ! i = None \<Longrightarrow> live_count (sl[i := Some d]) = live_count sl + 1"
  unfolding live_count_def by (induction sl arbitrary: i) (auto split: nat.splits simp: nth_Cons')

lemma slot_bytes_update:
  "i < length sl \<Longrightarrow> slot_bytes (sl[i := Some d]) + (case sl ! i of Some b \<Rightarrow> length b | None \<Rightarrow> 0)
     = slot_bytes sl + length d"
  unfolding slot_bytes_def
proof (induction sl arbitrary: i)
  case (Cons x xs)
  then show ?case by (cases i) (auto simp: algebra_simps)
qed simp

lemma live_count_replace:
  "i < length sl \<Longrightarrow> sl ! i \<noteq> None \<Longrightarrow> live_count (sl[i := Some d]) = live_count sl"
  unfolding live_count_def by (induction sl arbitrary: i) (auto split: nat.splits simp: nth_Cons')

lemma slot_bytes_replace:
  "i < length sl \<Longrightarrow> sl ! i = Some d0 \<Longrightarrow>
     slot_bytes (sl[i := Some d]) + length d0 = slot_bytes sl + length d"
  unfolding slot_bytes_def
proof (induction sl arbitrary: i)
  case (Cons x sl)
  then show ?case by (cases i) auto
qed simp

lemma live_count_le: "live_count sl \<le> length sl"
  by (simp add: live_count_def)

lemma live_count_lt: "live_count sl < length sl \<Longrightarrow> \<exists>i < length sl. sl ! i = None"
proof (rule ccontr)
  assume l: "live_count sl < length sl" and n: "\<not> (\<exists>i < length sl. sl ! i = None)"
  then have "\<forall>d \<in> set sl. d \<noteq> None" by (metis in_set_conv_nth)
  then have "filter (\<lambda>d. d \<noteq> None) sl = sl" by (simp add: filter_id_conv)
  with l show False by (simp add: live_count_def)
qed

lemma live_count_app_None [simp]: "live_count (sl @ replicate n None) = live_count sl"
  by (simp add: live_count_def)

lemma slot_bytes_app_None [simp]: "slot_bytes (sl @ replicate n None) = slot_bytes sl"
  by (simp add: slot_bytes_def sum_list_replicate)

lemma str_wf_new: "str_wf (strings_new a b)"
  by (auto simp: str_wf_def strings_new_def live_count_def slot_bytes_def INITIAL_SLOTS_def
      INDEX_MASK_def)

lemma index_mask_val: "unat INDEX_MASK = 2 ^ 30 - 1"
  by (simp add: INDEX_MASK_def)

text \<open>The slot search succeeds exactly when the table has room or may grow.\<close>

lemma free_slot_ok:
  assumes wf: "str_wf s" and room: "s_live s < max (s_max_slots s) 1"
  obtains s1 i where "free_slot s = (s1, Inr i)" "i < length (s_slots s1)" "s_slots s1 ! i = None"
    "s1 = s\<lparr>s_capacity := s_capacity s1, s_slots := s_slots s @ replicate (s_capacity s1 - length (s_slots s)) None\<rparr>"
    "s_capacity s \<le> s_capacity s1" "s_capacity s1 \<le> max (s_max_slots s) 1"
    "length (s_slots s1) = s_capacity s1"
proof -
  let ?grown = "min (usize_sat (usize_sat (s_capacity s * 2) + INITIAL_SLOTS)) (s_max_slots s)"
  define cap where "cap = (if s_capacity s \<le> s_live s then ?grown else s_capacity s)"
  have mx: "s_max_slots s < 2 ^ 30" using wf by (simp add: str_wf_def index_mask_val)
  have "s_capacity s \<le> max (s_max_slots s) 1" using wf by (simp add: str_wf_def)
  then have cl: "s_capacity s < 2 ^ 31" using mx by (simp add: max_def split: if_splits)
  have sat: "usize_sat (usize_sat (s_capacity s * 2) + INITIAL_SLOTS) = s_capacity s * 2 + INITIAL_SLOTS"
    using cl by (simp add: usize_sat_def INITIAL_SLOTS_def)
  have big: "s_live s < ?grown" if "s_capacity s \<le> s_live s"
  proof -
    have "s_live s = s_capacity s"
      using that wf live_count_le [of "s_slots s"] by (simp add: str_wf_def)
    moreover have "s_capacity s < s_max_slots s" using calculation room wf by (auto simp: str_wf_def)
    ultimately show ?thesis unfolding sat by (simp add: INITIAL_SLOTS_def)
  qed
  have cap: "s_live s < cap" "s_capacity s \<le> cap" "cap \<le> max (s_max_slots s) 1" "0 < cap"
    using big wf by (auto simp: cap_def str_wf_def)
  let ?sl = "s_slots s @ replicate (cap - length (s_slots s)) None"
  have len: "length ?sl = cap" using cap(2) wf by (simp add: str_wf_def)
  have "live_count ?sl < length ?sl" using cap(1) wf by (simp add: len str_wf_def)
  then obtain j where j: "j < cap" "?sl ! j = None" using live_count_lt len by metis
  let ?start = "s_cursor s mod cap"
  have "j \<in> set ([?start..<cap] @ [0..<?start])" using j(1) by auto
  then obtain i where i: "find (\<lambda>i. nth_opt ?sl i = Some None) ([?start..<cap] @ [0..<?start]) = Some i"
    using j len by (cases "find (\<lambda>i. nth_opt ?sl i = Some None) ([?start..<cap] @ [0..<?start])")
      (auto simp: find_None_iff nth_opt_def)
  then have i': "i < cap" "?sl ! i = None"
    using len by (auto simp: find_Some_iff nth_opt_def split: if_splits)
  have "\<not> (s_capacity s \<le> s_live s \<and> ?grown \<le> s_capacity s)" using big by linarith
  then have "free_slot s = (s\<lparr>s_capacity := cap, s_slots := ?sl\<rparr>, Inr i)"
    using i cap(4) by (simp add: free_slot_def Let_def cap_def [symmetric])
  then show ?thesis using that [of _ i] i' len cap by simp
qed

lemma free_slot_full:
  assumes wf: "str_wf s" and "\<not> s_live s < max (s_max_slots s) 1"
  shows "free_slot s = (s, Inl TempStrings)"
proof -
  have "s_capacity s \<le> s_live s" "s_max_slots s \<le> s_capacity s"
    using assms live_count_le [of "s_slots s"] by (auto simp: str_wf_def)
  then show ?thesis by (simp add: free_slot_def Let_def)
qed

lemma tag_masks:
  "INDEX_MASK = mask 30" "TAG_MASK = NOT (mask 30)" "STATIC_TAG = NOT (mask 30)"
  by (simp_all add: INDEX_MASK_def TAG_MASK_def STATIC_TAG_def mask_eq_exp_minus_1)

lemma bit_TEMP_TAG: "bit TEMP_TAG k \<longleftrightarrow> k = 31"
proof -
  have t: "TEMP_TAG = push_bit 31 1" by (simp add: TEMP_TAG_def)
  show ?thesis unfolding t bit_push_bit_iff bit_1_iff by auto
qed

lemma index_bits: "unat (w :: u32) < 2 ^ 30 \<Longrightarrow> bit w k \<Longrightarrow> k < 30"
proof -
  assume "unat w < 2 ^ 30" and b: "bit w k"
  then have "take_bit 30 (unat w) = unat w" by (simp add: take_bit_nat_eq_self)
  then have "bit (unat w) k \<longleftrightarrow> k < 30 \<and> bit (unat w) k" by (metis bit_take_bit_iff)
  then show "k < 30" using b by (simp add: bit_unsigned_iff bit_imp_le_length)
qed

lemma classify_temp:
  assumes "unat w < 2 ^ 30"
  shows "classify (w OR TEMP_TAG) = Temp w" "(w OR TEMP_TAG) AND INDEX_MASK = w"
    "(w OR TEMP_TAG) AND TAG_MASK = TEMP_TAG"
proof -
  show 1: "(w OR TEMP_TAG) AND INDEX_MASK = w" unfolding tag_masks
    by (rule bit_word_eqI) (auto simp: bit_simps bit_TEMP_TAG dest: index_bits [OF assms])
  show 2: "(w OR TEMP_TAG) AND TAG_MASK = TEMP_TAG" unfolding tag_masks
    by (rule bit_word_eqI) (auto simp: bit_simps bit_TEMP_TAG dest: index_bits [OF assms])
  show "classify (w OR TEMP_TAG) = Temp w" by (simp add: classify_def 1 2)
qed

lemma classify_static:
  assumes "unat w < 2 ^ 30"
  shows "classify (w OR STATIC_TAG) = Static w"
proof -
  have 1: "(w OR STATIC_TAG) AND INDEX_MASK = w" unfolding tag_masks
    by (rule bit_word_eqI) (auto simp: bit_simps dest: index_bits [OF assms])
  have 2: "(w OR STATIC_TAG) AND TAG_MASK = STATIC_TAG" unfolding tag_masks
    by (rule bit_word_eqI) (auto simp: bit_simps dest: index_bits [OF assms])
  have 3: "STATIC_TAG \<noteq> TEMP_TAG" by (simp add: STATIC_TAG_def TEMP_TAG_def)
  show ?thesis by (simp add: classify_def 1 2 3)
qed

section \<open>Allocation, interning and growth\<close>

lemma down4_bounds: "down4 n \<le> n" "n < down4 n + 4" "4 dvd down4 n"
  by (simp_all add: down4_def)

lemma slot_value: "i < 2 ^ 30 \<Longrightarrow> unat (of_nat i :: u32) = i"
  by (simp add: unat_of_nat_small)

definition temp_slots :: "strings \<Rightarrow> nat \<Rightarrow> bytes option" where
  "temp_slots s i = (case nth_opt (s_slots s) i of Some d \<Rightarrow> d | None \<Rightarrow> None)"

lemma temp_raw_slots: "temp_raw s slot = temp_slots s (unat slot)"
  by (simp add: temp_raw_def temp_slots_def)

text \<open>Writing into a temp string, growing it, keeps the accounting.\<close>

lemma temp_write_wf:
  assumes wf: "str_wf s" and t: "temp_raw_mut s slot len = Some (s', d)" and l: "length d' = length d"
  shows "str_wf (set_temp s' slot d')"
proof -
  let ?i = "unat slot" and ?sl = "s_slots s"
  from t obtain d0 where d0: "temp_raw s slot = Some d0" by (auto simp: temp_raw_mut_def split: option.splits)
  then have i: "?i < length ?sl" "?sl ! ?i = Some d0"
    by (auto simp: temp_raw_def nth_opt_def split: if_splits)
  have eq: "s' = s \<and> d = d0 \<or> (\<exists>k. s' = (set_temp s slot (d0 @ replicate k 0))\<lparr>s_bytes := s_bytes s + k\<rparr> \<and>
      d = d0 @ replicate k 0 \<and> s_bytes s + k \<le> s_max_bytes s)"
    using t by (auto simp: temp_raw_mut_def d0 Let_def not_less split: if_splits)
  have sl': "s_slots (set_temp s' slot d') = ?sl[?i := Some d']"
    using eq by (auto simp: set_temp_def)
  have b: "slot_bytes (?sl[?i := Some d']) + length d0 = slot_bytes ?sl + length d'"
    by (rule slot_bytes_replace [OF i])
  have "live_count (?sl[?i := Some d']) = live_count ?sl" using i by (intro live_count_replace) simp_all
  then show ?thesis
    using wf eq b l sl' by (auto simp: str_wf_def set_temp_def)
qed

lemma alloc_raw_ok:
  assumes wf: "str_wf s" and room: "s_live s < max (s_max_slots s) 1"
    and b: "s_bytes s + length d \<le> s_max_bytes s"
  obtains s' i where "alloc_raw s d = (s', Inr (of_nat i OR TEMP_TAG))" "i < 2 ^ 30" "str_wf s'"
    "temp_slots s i = None" "temp_slots s' = (temp_slots s)(i \<mapsto> d)"
    "s_bytes s' = s_bytes s + length d" "s_live s' = s_live s + 1"
    "s_pins s' = s_pins s" "s_statics s' = s_statics s" "s_static_index s' = s_static_index s"
    "s_max_bytes s' = s_max_bytes s" "s_max_slots s' = s_max_slots s"
proof -
  obtain s1 i where f: "free_slot s = (s1, Inr i)" "i < length (s_slots s1)" "s_slots s1 ! i = None"
    "s1 = s\<lparr>s_capacity := s_capacity s1, s_slots := s_slots s @ replicate (s_capacity s1 - length (s_slots s)) None\<rparr>"
    "s_capacity s \<le> s_capacity s1" "s_capacity s1 \<le> max (s_max_slots s) 1"
    "length (s_slots s1) = s_capacity s1"
    by (rule free_slot_ok [OF wf room])
  let ?sl = "s_slots s @ replicate (s_capacity s1 - length (s_slots s)) None"
  have sl: "s_slots s1 = ?sl" by (subst f(4)) simp
  have same: "s_live s1 = s_live s" "s_max_bytes s1 = s_max_bytes s" "s_max_slots s1 = s_max_slots s"
    "s_pins s1 = s_pins s" "s_statics s1 = s_statics s" "s_static_index s1 = s_static_index s"
    by (subst f(4), simp)+
  have "max (s_max_slots s) 1 < 2 ^ 30" using wf by (simp add: str_wf_def index_mask_val)
  then have i: "i < 2 ^ 30" using f(2,6,7) by linarith
  define s' where "s' = s1\<lparr>s_slots := (s_slots s1)[i := Some d], s_live := s_live s1 + 1,
      s_bytes := s_bytes s + length d, s_cursor := i + 1\<rparr>"
  have a: "alloc_raw s d = (s', Inr (of_nat i OR TEMP_TAG))"
    using b f(1) i by (simp add: alloc_raw_def s'_def Let_def)
  have "live_count (s_slots s') = live_count (s_slots s1) + 1"
    using live_count_update [OF f(2,3)] by (simp add: s'_def)
  moreover have "slot_bytes (s_slots s') = slot_bytes (s_slots s1) + length d"
    using slot_bytes_update [OF f(2), of d] f(3) by (simp add: s'_def)
  ultimately have "str_wf s'"
    using wf b f(5-7) by (simp add: str_wf_def s'_def same sl)
  moreover have "temp_slots s i = None" "temp_slots s' = (temp_slots s)(i \<mapsto> d)"
  proof -
    show "temp_slots s i = None"
      using f(2,3) by (auto simp: temp_slots_def nth_opt_def sl nth_append split: if_splits)
    show "temp_slots s' = (temp_slots s)(i \<mapsto> d)"
    proof
      fix j
      show "temp_slots s' j = ((temp_slots s)(i \<mapsto> d)) j"
        using f(2) by (auto simp: temp_slots_def nth_opt_def s'_def sl nth_append nth_list_update)
    qed
  qed
  ultimately show ?thesis using that [OF a i] by (simp add: s'_def same)
qed

lemma alloc_raw_refused:
  assumes wf: "str_wf s"
    and "\<not> (s_live s < max (s_max_slots s) 1 \<and> s_bytes s + length d \<le> s_max_bytes s)"
  shows "alloc_raw s d = (s, Inl TempStrings)"
  using assms free_slot_full [OF wf] by (auto simp: alloc_raw_def)

definition padded :: "bytes \<Rightarrow> bytes" where
  "padded t = t @ replicate (down4 (length t + 4) - length t) 0"

lemma length_padded: "length (padded t) = down4 (length t + 4)"
  using down4_bounds(2) [of "length t + 4"] by (simp add: padded_def)

lemma until_nul_padded: "until_nul (padded t) = until_nul t"
proof -
  have "0 < down4 (length t + 4) - length t" using down4_bounds(2) [of "length t + 4"] by simp
  then obtain k where "down4 (length t + 4) - length t = Suc k" using gr0_implies_Suc by blast
  moreover have "until_nul (t @ 0 # r) = until_nul t" for r
    by (induction t) (simp_all add: until_nul_eq)
  ultimately show ?thesis by (simp add: padded_def)
qed

lemma str_alloc_raw:
  "str_wf s \<Longrightarrow> length t + 4 < 2 ^ 64 \<Longrightarrow> str_alloc s t = alloc_raw s (padded t)"
proof -
  assume wf: "str_wf s" and len: "length t + 4 < 2 ^ 64"
  have p: "t @ replicate (down4 (length t + 4) - length t) 0 = padded t" by (simp add: padded_def)
  have fit: "s_fits s (length t) \<longleftrightarrow> s_bytes s + length (padded t) \<le> s_max_bytes s"
    using wf len by (auto simp: s_fits_def s_room_def length_padded str_wf_def)
  show ?thesis
    using alloc_raw_refused [OF wf, of "padded t"] fit unfolding str_alloc_def p by auto
qed

text \<open>What a temp or interned reference resolves to.\<close>

definition dyn_text :: "strings \<Rightarrow> u32 \<Rightarrow> bytes option" where
  "dyn_text s r =
     (case classify r of
        Linear _ \<Rightarrow> None
      | Temp slot \<Rightarrow> map_option until_nul (temp_raw s slot)
      | Static index \<Rightarrow> static_str s index)"

lemma classify_temp_of_nat:
  "i < 2 ^ 30 \<Longrightarrow> classify (of_nat i OR TEMP_TAG) = Temp (of_nat i)"
  by (rule classify_temp) (simp add: unat_of_nat_small)

lemma classify_index_bound:
  "classify r = Temp w \<or> classify r = Static w \<Longrightarrow> unat w < 2 ^ 30"
proof -
  assume "classify r = Temp w \<or> classify r = Static w"
  then have "w = r AND INDEX_MASK" by (auto simp: classify_def split: if_splits)
  then have "w = take_bit 30 r" by (simp add: tag_masks take_bit_eq_mask)
  then have "unat w = take_bit 30 (unat r)" by (simp only: unsigned_take_bit_eq)
  then show ?thesis by (simp add: take_bit_nat_def)
qed

lemma dyn_text_temp:
  "i < 2 ^ 30 \<Longrightarrow> dyn_text s (of_nat i OR TEMP_TAG) = map_option until_nul (temp_slots s i)"
  by (simp add: dyn_text_def classify_temp_of_nat temp_raw_slots slot_value)

lemma str_alloc_cases:
  assumes wf: "str_wf s" and len: "length t + 4 < 2 ^ 64"
  obtains (ok) s' i where "str_alloc s t = (s', Inr (of_nat i OR TEMP_TAG))" "i < 2 ^ 30" "str_wf s'"
      "temp_slots s i = None" "temp_slots s' = (temp_slots s)(i \<mapsto> padded t)"
      "s_bytes s' = s_bytes s + length (padded t)" "s_live s' = s_live s + 1"
      "s_pins s' = s_pins s" "s_statics s' = s_statics s" "s_static_index s' = s_static_index s"
      "s_max_bytes s' = s_max_bytes s" "s_max_slots s' = s_max_slots s"
  | (full) "str_alloc s t = (s, Inl TempStrings)"
      "\<not> (s_live s < max (s_max_slots s) 1 \<and> s_bytes s + length (padded t) \<le> s_max_bytes s)"
proof (cases "s_live s < max (s_max_slots s) 1 \<and> s_bytes s + length (padded t) \<le> s_max_bytes s")
  case True
  then have room: "s_live s < max (s_max_slots s) 1" "s_bytes s + length (padded t) \<le> s_max_bytes s"
    by simp_all
  show ?thesis
    by (rule alloc_raw_ok [OF wf room]) (rule ok [unfolded str_alloc_raw [OF wf len]]; assumption)
next
  case False
  then show ?thesis
    using full alloc_raw_refused [OF wf False] by (simp add: str_alloc_raw [OF wf len])
qed

lemma str_intern_cases:
  assumes wf: "str_wf s" and room: "length (s_statics s) < 2 ^ 30"
  obtains (known) i where "str_intern s t = (s, i OR STATIC_TAG)" "s_static_index s t = Some i"
      "nth_opt (s_statics s) (unat i) = Some t" "unat i < 2 ^ 30"
  | (fresh) "str_intern s t = (s\<lparr>s_statics := s_statics s @ [t],
        s_static_index := (s_static_index s)(t \<mapsto> of_nat (length (s_statics s)))\<rparr>,
        of_nat (length (s_statics s)) OR STATIC_TAG)" "s_static_index s t = None"
proof (cases "s_static_index s t")
  case None
  have "(of_nat (length (s_statics s)) :: u32) AND INDEX_MASK = of_nat (length (s_statics s))"
    unfolding tag_masks using room
    by (intro bit_word_eqI) (auto simp: bit_and_iff bit_mask_iff dest: index_bits [rotated] simp: unat_of_nat_small)
  then show ?thesis using fresh None room by (simp add: str_intern_def Let_def)
next
  case (Some i)
  then have "nth_opt (s_statics s) (unat i) = Some t" using wf by (simp add: str_wf_def)
  then show ?thesis using known Some room by (simp add: str_intern_def nth_opt_Some)
qed

lemma str_intern_wf:
  assumes wf: "str_wf s" and room: "length (s_statics s) < 2 ^ 30"
  shows "str_wf (fst (str_intern s t))"
  using assms
proof (cases rule: str_intern_cases [where t = t])
  case fresh
  have "unat (of_nat (length (s_statics s)) :: u32) = length (s_statics s)"
    using room by (simp add: slot_value)
  moreover have "nth_opt (s_statics s @ [t]) (unat j) = Some u"
    if "s_static_index s u = Some j" for u j
  proof -
    have "nth_opt (s_statics s) (unat j) = Some u" using wf that by (simp add: str_wf_def)
    then show ?thesis by (auto simp: nth_opt_Some nth_append)
  qed
  ultimately show ?thesis
    using wf room fresh(1) by (auto simp: str_wf_def index_mask_val nth_opt_Some)
qed (use wf in simp)

lemma str_intern_resolves:
  assumes wf: "str_wf s" and room: "length (s_statics s) < 2 ^ 30"
    and r: "str_intern s t = (s', r)"
  shows "dyn_text s' r = Some t" "dyn_text s q = Some x \<Longrightarrow> dyn_text s' q = Some x"
    "str_intern s' t = (s', r)"
proof -
  from wf room have "dyn_text s' r = Some t \<and> (dyn_text s q = Some x \<longrightarrow> dyn_text s' q = Some x) \<and>
      str_intern s' t = (s', r)"
  proof (cases rule: str_intern_cases [where t = t])
    case (known i)
    then show ?thesis using r by (auto simp: dyn_text_def classify_static static_str_def)
  next
    case fresh
    let ?n = "length (s_statics s)"
    have n: "unat (of_nat ?n :: u32) = ?n" using room by (simp add: slot_value)
    have s': "s' = s\<lparr>s_statics := s_statics s @ [t], s_static_index := (s_static_index s)(t \<mapsto> of_nat ?n)\<rparr>"
      "r = of_nat ?n OR STATIC_TAG" using r fresh(1) by simp_all
    have "dyn_text s' r = Some t"
      using n room by (simp add: dyn_text_def s' classify_static static_str_def nth_opt_def)
    moreover have "dyn_text s' q = Some x" if "dyn_text s q = Some x"
      using that by (auto simp: dyn_text_def s' static_str_def temp_raw_def nth_opt_def nth_append
          split: str_kind.splits if_splits)
    moreover have "str_intern s' t = (s', r)" by (simp add: str_intern_def s')
    ultimately show ?thesis by blast
  qed
  then show "dyn_text s' r = Some t" "dyn_text s q = Some x \<Longrightarrow> dyn_text s' q = Some x"
    "str_intern s' t = (s', r)" by blast+
qed

section \<open>The string interface\<close>

locale string_store =
  fixes ok :: "'s \<Rightarrow> bool"
    and resolve :: "'s \<Rightarrow> u32 \<Rightarrow> bytes option"
    and alloc :: "'s \<Rightarrow> bytes \<Rightarrow> 's \<times> (resource + u32)"
  assumes alloc_ok: "ok s \<Longrightarrow> length t + 4 < 2 ^ 64 \<Longrightarrow> ok (fst (alloc s t))"
    and alloc_resolve: "ok s \<Longrightarrow> length t + 4 < 2 ^ 64 \<Longrightarrow> alloc s t = (s', Inr r) \<Longrightarrow>
      resolve s r = None \<and> resolve s' r = Some (until_nul t)"
    and alloc_keeps: "ok s \<Longrightarrow> length t + 4 < 2 ^ 64 \<Longrightarrow> alloc s t = (s', x) \<Longrightarrow>
      resolve s q = Some y \<Longrightarrow> resolve s' q = Some y"
begin

text \<open>Storing several texts, as the builtins that return lists of strings do.\<close>

fun alloc_all :: "'s \<Rightarrow> bytes list \<Rightarrow> 's \<times> (resource + u32 list)" where
  "alloc_all s [] = (s, Inr [])"
| "alloc_all s (t # ts) =
     (case alloc s t of
        (s1, Inl e) \<Rightarrow> (s1, Inl e)
      | (s1, Inr r) \<Rightarrow>
          (case alloc_all s1 ts of
             (s2, Inl e) \<Rightarrow> (s2, Inl e)
           | (s2, Inr rs) \<Rightarrow> (s2, Inr (r # rs))))"

lemma alloc_all_keeps:
  "ok s \<Longrightarrow> \<forall>t \<in> set ts. length t + 4 < 2 ^ 64 \<Longrightarrow> alloc_all s ts = (s', x) \<Longrightarrow>
     resolve s q = Some y \<Longrightarrow> ok s' \<and> resolve s' q = Some y"
proof (induction s ts arbitrary: s' x rule: alloc_all.induct)
  case (2 s t ts)
  obtain s1 a where a: "alloc s t = (s1, a)" by fastforce
  have "ok s1" "resolve s1 q = Some y"
    using 2 a alloc_ok [of s t] alloc_keeps [of s t s1 a q y] by auto
  then show ?case using 2 a by (auto split: sum.splits prod.splits)
qed simp

lemma alloc_all_resolves:
  "ok s \<Longrightarrow> \<forall>t \<in> set ts. length t + 4 < 2 ^ 64 \<Longrightarrow> alloc_all s ts = (s', Inr rs) \<Longrightarrow>
     map (resolve s') rs = map (Some \<circ> until_nul) ts \<and> distinct rs \<and> (\<forall>r \<in> set rs. resolve s r = None)"
proof (induction ts arbitrary: s rs)
  case (Cons t ts)
  then obtain s1 r rs' where a: "alloc s t = (s1, Inr r)" "alloc_all s1 ts = (s', Inr rs')" "rs = r # rs'"
    by (auto split: sum.splits prod.splits)
  have ok1: "ok s1" using Cons.prems(1,2) a(1) alloc_ok [of s t] by simp
  have r: "resolve s r = None" "resolve s1 r = Some (until_nul t)"
    using alloc_resolve [OF Cons.prems(1) _ a(1)] Cons.prems(2) by auto
  have ih: "map (resolve s') rs' = map (Some \<circ> until_nul) ts" "distinct rs'" "\<forall>q \<in> set rs'. resolve s1 q = None"
    using Cons.IH [OF ok1 _ a(2)] Cons.prems(2) by auto
  have "resolve s q = None" if "q \<in> set rs'" for q
    using ih(3) that alloc_keeps [OF Cons.prems(1) _ a(1), of q] Cons.prems(2)
    by (cases "resolve s q") auto
  moreover have "resolve s' r = Some (until_nul t)"
    using alloc_all_keeps [OF ok1 _ a(2) r(2)] Cons.prems(2) by auto
  ultimately show ?case using a(3) ih r by auto
qed simp

end

interpretation vm_strings: string_store str_wf dyn_text str_alloc
proof
  fix s s' :: strings and t y :: bytes and r q :: u32 and x :: "resource + u32"
  assume wf: "str_wf s" and len: "length t + 4 < 2 ^ 64"
  show "str_wf (fst (str_alloc s t))"
    using wf len by (cases rule: str_alloc_cases) (use wf in simp_all)
  show "dyn_text s r = None \<and> dyn_text s' r = Some (until_nul t)"
    if "str_alloc s t = (s', Inr r)"
    using wf len by (cases rule: str_alloc_cases)
      (use that in \<open>auto simp: dyn_text_temp until_nul_padded\<close>)
  show "dyn_text s' q = Some y" if "str_alloc s t = (s', x)" "dyn_text s q = Some y"
    using wf len
  proof (cases rule: str_alloc_cases)
    case (ok s1 i)
    then show ?thesis using that
      by (auto simp: dyn_text_def static_str_def temp_raw_slots split: str_kind.splits)
  qed (use that in simp)
qed

section \<open>Collection\<close>

lemma sweep_slots:
  "temp_slots (s\<lparr>s_slots := sweep mark (s_slots s)\<rparr>) i = (if mark i then temp_slots s i else None)"
  by (simp add: temp_slots_def nth_opt_def sweep_def)

lemma length_sweep [simp]: "length (sweep mark sl) = length sl"
  by (simp add: sweep_def)

lemma upt_Suc_map: "[0..<Suc n] = 0 # map Suc [0..<n]"
  by (subst upt_conv_Cons) (simp_all add: map_Suc_upt del: upt_Suc)

lemma sweep_Cons:
  "sweep mark (d # sl) = (if mark 0 then d else None) # sweep (\<lambda>i. mark (Suc i)) sl"
proof -
  show ?thesis by (simp add: sweep_def comp_def upt_Suc_map del: upt_Suc)
qed

lemma unmarked_Cons:
  "unmarked mark (d # sl) =
     (case (if mark 0 then None else d) of Some b \<Rightarrow> [b] | None \<Rightarrow> []) @ unmarked (\<lambda>i. mark (Suc i)) sl"
proof -
  have m: "List.map_filter f (map Suc xs) = List.map_filter (f \<circ> Suc) xs" for f :: "nat \<Rightarrow> bytes option" and xs
    by (induction xs) (auto simp: List.map_filter_simps split: option.split)
  show ?thesis
    unfolding unmarked_def
    by (simp add: upt_Suc_map List.map_filter_simps m comp_def del: upt_Suc
        cong: if_cong split: option.split)
qed

text \<open>Sweeping accounts for every slot: it is either kept or counted as freed.\<close>

lemma sweep_counts:
  "live_count (sweep mark sl) + length (unmarked mark sl) = live_count sl"
  "slot_bytes (sweep mark sl) + sum_list (map length (unmarked mark sl)) = slot_bytes sl"
proof (induction sl arbitrary: mark)
  case Nil
  {
    case 1
    show ?case by (simp add: sweep_def unmarked_def live_count_def List.map_filter_simps)
  next
    case 2
    show ?case by (simp add: sweep_def unmarked_def slot_bytes_def List.map_filter_simps)
  }
next
  case (Cons d sl)
  {
    case 1
    show ?case using Cons.IH(1) [of "\<lambda>i. mark (Suc i)"]
      by (cases d) (auto simp: sweep_Cons unmarked_Cons live_count_def)
  next
    case 2
    show ?case using Cons.IH(2) [of "\<lambda>i. mark (Suc i)"]
      by (cases d) (auto simp: sweep_Cons unmarked_Cons slot_bytes_def)
  }
qed

lemma foldl_minus: "foldl (\<lambda>n d. n - length d) (n :: nat) ds = n - sum_list (map length ds)"
  by (induction ds arbitrary: n) auto

lemma str_collect_parts:
  assumes wf: "str_wf s" and c: "str_collect s roots = (s', st)"
  defines "mark \<equiv> \<lambda>i. root_refs roots i \<or> pinned s i"
  shows "s_slots s' = sweep mark (s_slots s)" "s_live s' = live_count (s_slots s')"
    "s_bytes s' = slot_bytes (s_slots s')" "s_pins s' = s_pins s" "s_statics s' = s_statics s"
    "s_static_index s' = s_static_index s" "s_max_bytes s' = s_max_bytes s" "s_max_slots s' = s_max_slots s"
    "s_capacity s \<le> s_capacity s'" "s_capacity s' \<le> max (s_max_slots s) 1"
    "gc_live st = s_live s'" "gc_live st + gc_freed st = s_live s"
proof -
  note cnt = sweep_counts [of mark "s_slots s"]
  let ?live = "s_live s - length (unmarked mark (s_slots s))"
  have live: "?live = live_count (sweep mark (s_slots s))" using cnt(1) wf by (simp add: str_wf_def)
  have bts: "foldl (\<lambda>n d. n - length d) (s_bytes s) (unmarked mark (s_slots s)) = slot_bytes (sweep mark (s_slots s))"
    using cnt(2) wf by (simp add: str_wf_def foldl_minus)
  have s': "s' = (if s_capacity s div 2 \<le> ?live
      then (s\<lparr>s_slots := sweep mark (s_slots s), s_bytes := slot_bytes (sweep mark (s_slots s)),
              s_live := ?live, s_cursor := 0\<rparr>)
            \<lparr>s_capacity := min (usize_sat (s_capacity s * 2)) (max (s_max_slots s) 1)\<rparr>
      else s\<lparr>s_slots := sweep mark (s_slots s), s_bytes := slot_bytes (sweep mark (s_slots s)),
              s_live := ?live, s_cursor := 0\<rparr>)"
    and st: "st = \<lparr>gc_live = ?live, gc_freed = length (unmarked mark (s_slots s))\<rparr>"
    using c bts by (auto simp: str_collect_def Let_def mark_def)
  have cap: "s_capacity s \<le> max (s_max_slots s) 1" "s_capacity s < 2 ^ 63"
    using wf by (auto simp: str_wf_def index_mask_val max_def split: if_splits)
  show "s_slots s' = sweep mark (s_slots s)" "s_live s' = live_count (s_slots s')"
    "s_bytes s' = slot_bytes (s_slots s')" "s_pins s' = s_pins s" "s_statics s' = s_statics s"
    "s_static_index s' = s_static_index s" "s_max_bytes s' = s_max_bytes s" "s_max_slots s' = s_max_slots s"
    by (simp_all add: s' live)
  show "s_capacity s \<le> s_capacity s'" "s_capacity s' \<le> max (s_max_slots s) 1"
    using cap by (auto simp: s' usize_sat_def max_def split: if_splits)
  show "gc_live st = s_live s'" by (simp add: s' st)
  show "gc_live st + gc_freed st = s_live s" using cnt(1) wf live by (simp add: st str_wf_def)
qed

lemma str_collect_wf: "str_wf s \<Longrightarrow> str_wf (fst (str_collect s roots))"
proof -
  assume wf: "str_wf s"
  obtain s' st where c: "str_collect s roots = (s', st)" by fastforce
  note p = str_collect_parts [OF wf c]
  have "slot_bytes (sweep mark (s_slots s)) \<le> slot_bytes (s_slots s)" for mark
    using sweep_counts(2) [of mark "s_slots s"] by linarith
  then have "slot_bytes (s_slots s') \<le> slot_bytes (s_slots s)" unfolding p(1) .
  moreover have "slot_bytes (s_slots s) \<le> s_max_bytes s" using wf by (simp add: str_wf_def)
  ultimately have "slot_bytes (s_slots s') \<le> s_max_bytes s" by simp
  then show ?thesis using wf p(1-10) by (auto simp: c str_wf_def)
qed

section \<open>Properties\<close>

text \<open>C10: storing a temp string either succeeds, giving a reference that resolved to nothing before and
  now resolves to the text (up to its first NUL) while every other reference resolves as before; or is
  refused, changing nothing, because the slot limit or the byte limit is reached.\<close>

theorem str_alloc_resolves:
  assumes "str_wf s" "length t + 4 < 2 ^ 64"
  shows "(\<exists>s' r. str_alloc s t = (s', Inr r) \<and> str_wf s' \<and> dyn_text s r = None \<and>
           dyn_text s' r = Some (until_nul t) \<and>
           (\<forall>q x. dyn_text s q = Some x \<longrightarrow> dyn_text s' q = Some x) \<and>
           s_bytes s' = s_bytes s + down4 (length t + 4) \<and> s_live s' = s_live s + 1) \<or>
         (str_alloc s t = (s, Inl TempStrings) \<and>
           (max (s_max_slots s) 1 \<le> s_live s \<or> s_max_bytes s < s_bytes s + down4 (length t + 4)))"
  using assms
proof (cases rule: str_alloc_cases)
  case (ok s' i)
  then show ?thesis
    using vm_strings.alloc_resolve [OF assms ok(1)] vm_strings.alloc_keeps [OF assms ok(1)]
    by (simp add: length_padded)
qed (auto simp: length_padded)

theorem str_alloc_resolves_witness:
  "\<exists>s' r. str_alloc (strings_new 2 64) [104, 105] = (s', Inr r) \<and> dyn_text s' r = Some [104, 105]"
  using str_alloc_resolves [OF str_wf_new [of 2 64], of "[104, 105]"]
  by (auto simp: strings_new_def down4_def until_nul_eq INDEX_MASK_def INITIAL_SLOTS_def)

text \<open>C11: a collection keeps exactly the temp strings that a root refers to or that are pinned: those
  resolve as before, every other temp slot is empty afterwards, interned strings are untouched, and the
  statistics account for every slot.\<close>

theorem str_collect_exact:
  assumes wf: "str_wf s" and c: "str_collect s roots = (s', st)"
  shows "str_wf s' \<and>
    (\<forall>i. temp_slots s' i = (if root_refs roots i \<or> pinned s i then temp_slots s i else None)) \<and>
    s_statics s' = s_statics s \<and> s_pins s' = s_pins s \<and>
    gc_live st = s_live s' \<and> gc_live st + gc_freed st = s_live s"
proof -
  note p = str_collect_parts [OF wf c]
  have "temp_slots s' i = (if root_refs roots i \<or> pinned s i then temp_slots s i else None)" for i
    using sweep_slots [of "\<lambda>i. root_refs roots i \<or> pinned s i" s i] p(1) by (simp add: temp_slots_def)
  then show ?thesis using str_collect_wf [OF wf, of roots] p c by simp
qed

definition sample_strings :: strings where
  "sample_strings = (strings_new 4 64)\<lparr>s_slots := [Some [120, 0, 0, 0], Some [121, 0, 0, 0]],
     s_live := 2, s_bytes := 8\<rparr>"

lemma sample_strings_wf: "str_wf sample_strings"
  by (simp add: str_wf_def sample_strings_def strings_new_def live_count_def slot_bytes_def
      INDEX_MASK_def INITIAL_SLOTS_def)

theorem str_collect_exact_witness:
  "temp_slots (fst (str_collect sample_strings [[1, 0, 0, 0x80]])) 0 = None \<and>
   temp_slots (fst (str_collect sample_strings [[1, 0, 0, 0x80]])) 1 = Some [121, 0, 0, 0]"
proof -
  obtain s' st where c: "str_collect sample_strings [[1, 0, 0, 0x80]] = (s', st)" by fastforce
  have "\<not> root_refs [[1, 0, 0, 0x80]] 0" "root_refs [[1, 0, 0, 0x80]] 1"
    by (simp_all add: root_refs_def TAG_MASK_def TEMP_TAG_def INDEX_MASK_def)
  moreover have "\<not> pinned sample_strings 0" "temp_slots sample_strings 1 = Some [121, 0, 0, 0]"
    by (simp_all add: pinned_def sample_strings_def strings_new_def temp_slots_def nth_opt_def)
  ultimately show ?thesis using str_collect_exact [OF sample_strings_wf c] by (simp add: c)
qed

lemma pin_classify:
  "classify r = Temp slot \<Longrightarrow> s_pins (str_pin s r) slot \<noteq> None"
  "s_slots (str_pin s r) = s_slots s"
  by (simp_all add: str_pin_def split: str_kind.split)

text \<open>A pinned temp string survives any collection, whatever the roots, until it is unpinned as often
  as it was pinned.\<close>

theorem pinned_string_survives:
  assumes wf: "str_wf s" and x: "dyn_text s r = Some x" and t: "classify r = Temp slot"
  shows "dyn_text (fst (str_collect (str_pin s r) roots)) r = Some x \<and>
    (\<forall>n. s_pins s slot = Some n \<longrightarrow> 0 < n \<longrightarrow> n < - 1 \<longrightarrow> str_unpin (str_pin s r) r = s) \<and>
    (s_pins s slot = None \<longrightarrow> str_unpin (str_pin s r) r = s)"
proof -
  have b: "unat slot < 2 ^ 30" using classify_index_bound t by blast
  have wf': "str_wf (str_pin s r)" using wf by (simp add: str_wf_def str_pin_def split: str_kind.split)
  obtain s' st where c: "str_collect (str_pin s r) roots = (s', st)" by fastforce
  have "pinned (str_pin s r) (unat slot)" using pin_classify(1) [OF t] b by (simp add: pinned_def)
  then have "temp_slots s' (unat slot) = temp_slots s (unat slot)"
    using sweep_slots [of "\<lambda>i. root_refs roots i \<or> pinned (str_pin s r) i" "str_pin s r" "unat slot"]
      str_collect_parts(1) [OF wf' c] by (simp add: temp_slots_def pin_classify(2))
  then have "dyn_text s' r = Some x"
    using x t by (simp add: dyn_text_def temp_raw_slots)
  moreover have "str_unpin (str_pin s r) r = s" if "s_pins s slot = None"
    using that t by (simp add: str_pin_def str_unpin_def sat_add_def sat_sub_def Let_def fun_upd_idem)
  moreover have "str_unpin (str_pin s r) r = s" if "s_pins s slot = Some n" "0 < n" "n < - 1" for n
  proof -
    have "sat_sub (sat_add n 1) 1 = n"
      using that(2,3) by (simp add: word_unat_eq_iff unat_sat_sub unat_sat_add word_less_nat_alt
          unsigned_minus_1_eq_mask mask_eq_exp_minus_1 min_def)
    then show ?thesis using that t
      by (simp add: str_pin_def str_unpin_def Let_def fun_upd_idem)
  qed
  ultimately show ?thesis by (simp add: c)
qed

theorem pinned_string_survives_witness:
  "dyn_text (fst (str_collect (str_pin sample_strings 0x80000000) [])) 0x80000000 = Some [120]"
  using pinned_string_survives [OF sample_strings_wf, where r = "0x80000000" and x = "[120]" and slot = 0 and roots = "[]"]
  by (simp add: dyn_text_def classify_def TAG_MASK_def TEMP_TAG_def INDEX_MASK_def temp_raw_def
      sample_strings_def nth_opt_def until_nul_eq)

text \<open>Interning is idempotent, interned references resolve to their whole text, and neither later
  interning nor later allocations change what they resolve to.\<close>

theorem intern_stable:
  assumes wf: "str_wf s" and room: "length (s_statics s) < 2 ^ 30"
    and i: "str_intern s t = (s1, r)" and a: "str_alloc s1 u = (s2, x)" and len: "length u + 4 < 2 ^ 64"
  shows "str_wf s1 \<and> dyn_text s1 r = Some t \<and> dyn_text s2 r = Some t \<and> str_intern s1 t = (s1, r)"
proof -
  have w: "str_wf s1" using str_intern_wf [OF wf room, of t] by (simp add: i)
  note p = str_intern_resolves [OF wf room i]
  show ?thesis using w p vm_strings.alloc_keeps [OF w len a p(1)] by simp
qed

theorem intern_stable_witness:
  "\<exists>s1 r s2 x. str_intern sample_strings [109] = (s1, r) \<and> str_alloc s1 [110] = (s2, x) \<and>
     dyn_text s2 r = Some [109]"
proof -
  obtain s1 r where i: "str_intern sample_strings [109] = (s1, r)" by fastforce
  obtain s2 x where a: "str_alloc s1 [110] = (s2, x)" by fastforce
  have "length (s_statics sample_strings) < 2 ^ 30" by (simp add: sample_strings_def strings_new_def)
  from intern_stable [OF sample_strings_wf this i a] i a show ?thesis by auto
qed

end
