(* ===== verification/Opcode.thy ===== *)
theory Opcode
  imports Prelude
begin

text \<open>
  \<open>src/opcode.rs\<close>: the instruction set.  The enum \<open>Op\<close> has 284 variants; here they are
  grouped in one small datatype per section of the interpreter's \<open>match\<close>
  (\<open>src/vm/interp.rs\<close>), with the variant names of the source, and \<open>op\<close> is their sum.
  \<open>op_num\<close> is the discriminant (\<open>repr(u16)\<close>); the rows of the \<open>opcodes!\<close> macro are the
  lists \<open>op_table_v6\<close>, \<open>op_table_fte\<close> and \<open>op_table_wide\<close>, in numeric order.
  \<open>Op::Unused\<close> and \<open>Op::JumpOutOfRange\<close> are \<open>UnusedOp\<close> and \<open>JumpOutOfRangeOp\<close>.
\<close>

section \<open>Operands\<close>

datatype operand = Global | GlobalIndex | Jump | Immediate | Unused

definition is_checked :: "operand \<Rightarrow> bool" where
  "is_checked k = (k = Global \<or> k = GlobalIndex \<or> k = Unused)"

definition is_relocated :: "operand \<Rightarrow> bool" where
  "is_relocated k = (k = Global \<or> k = Unused)"

section \<open>Opcodes\<close>

datatype (plugins only: code size) arith_op =
    MulF | DivF | AddF | SubF | MulV | MulFV | MulVF | DivVF | AddV | SubV

datatype (plugins only: code size) cmp_op =
    EqF | NeF | LeF | GeF | LtF | GtF | EqV | NeV | EqE | EqFnc | NeE | NeFnc

datatype (plugins only: code size) strcmp_op =
    EqS | NeS | NotS

datatype (plugins only: code size) logic_op =
    NotF | NotV | NotEnt | NotFnc | NotI | AndF | OrF | BitAndF | BitOrF

datatype (plugins only: code size) branch_op =
    IfI | IfNotI | IfF | IfNotF | IfS | IfNotS | Goto

datatype (plugins only: code size) loadf_op =
    LoadF | LoadS | LoadEnt | LoadFld | LoadFnc | LoadI | LoadP | LoadV | LoadI64

datatype (plugins only: code size) storef_op =
    Address | StoreFieldF | StoreFieldS | StoreFieldI | StoreFieldV | StoreFieldI64

datatype (plugins only: code size) gstore_op =
    StoreF | StoreS | StoreEnt | StoreFld | StoreFnc | StoreI | StoreP | StoreV |
    StoreI64 | StoreIF | StoreFI

datatype (plugins only: code size) storep_op =
    StorePF | StorePS | StorePEnt | StorePFld | StorePFnc | StorePI | StorePV | StorePI64 |
    StorePIF | StorePFI | StorePC | StorePI8 | StorePI16

datatype (plugins only: code size) loadp_op =
    LoadPF | LoadPS | LoadPEnt | LoadPFld | LoadPFnc | LoadPI | LoadPV | LoadPI64 |
    LoadPC | LoadPU8 | LoadPI8 | LoadPU16 | LoadPI16 | LoadPItoF | LoadPFtoI

datatype (plugins only: code size) compound_op =
    MulStoreF | DivStoreF | AddStoreF | SubStoreF | MulStoreVF | AddStoreV | SubStoreV |
    BitSetStoreF | BitClrStoreF

datatype (plugins only: code size) compoundp_op =
    MulStorePF | DivStorePF | AddStorePF | SubStorePF | MulStorePVF | AddStorePV |
    SubStorePV | BitSetStorePF | BitClrStorePF

datatype (plugins only: code size) fetch_op =
    FetchGblF | FetchGblS | FetchGblE | FetchGblFnc | FetchGblV

datatype (plugins only: code size) anim_op =
    State | CState | CWState | ThinkTime

datatype (plugins only: code size) rand_op =
    Rand0 | Rand1 | Rand2 | RandV0 | RandV1 | RandV2

datatype (plugins only: code size) switch_op =
    SwitchF | SwitchV | SwitchS | SwitchE | SwitchFnc | SwitchI

datatype (plugins only: code size) case_op =
    Case | CaseRange

datatype (plugins only: code size) call_op =
    Call0 | Call1 | Call2 | Call3 | Call4 | Call5 | Call6 | Call7 | Call8 | Call1H |
    Call2H | Call3H | Call4H | Call5H | Call6H | Call7H | Call8H

datatype (plugins only: code size) return_op =
    Return | Done

datatype (plugins only: code size) int_op =
    AddI | SubI | MulI | DivI | BitAndI | BitOrI | BitXorI | RShiftI | LShiftI | EqI |
    NeI | LeI | GeI | LtI | GtI | AndI | OrI | ConvItoF | ConvFtoI

datatype (plugins only: code size) mixed_op =
    AddFI | AddIF | SubFI | SubIF | MulIF | MulFI | DivIF | DivFI | MulVI | MulIV | LeIF |
    GeIF | LtIF | GtIF | EqIF | NeIF | LeFI | GeFI | LtFI | GtFI | EqFI | NeFI | BitAndIF |
    BitOrIF | BitAndFI | BitOrFI | AndIF | OrIF | AndFI | OrFI

datatype (plugins only: code size) ptrarith_op =
    GlobalAddress | AddPIW | AddSF | SubS

datatype (plugins only: code size) loada_op =
    LoadAF | LoadAS | LoadAEnt | LoadAFld | LoadAFnc | LoadAI | LoadAV | LoadAI64

datatype (plugins only: code size) gload_op =
    GLoadI | GLoadF | GLoadFld | GLoadEnt | GLoadS | GLoadFnc | GLoadV

datatype (plugins only: code size) gstorep_op =
    GStorePI | GStorePF | GStorePEnt | GStorePFld | GStorePS | GStorePFnc | GStorePV

datatype (plugins only: code size) bounds_op =
    BoundCheck | Push

datatype (plugins only: code size) bad_op =
    GAddress | UnusedOp | Pop | Bad | JumpOutOfRangeOp

datatype (plugins only: code size) uint_op =
    LeU | LtU | DivU | RShiftU | ConvUF | ConvFU

datatype (plugins only: code size) int64_op =
    AddI64 | SubI64 | MulI64 | DivI64 | BitAndI64 | BitOrI64 | BitXorI64 | LShiftI64I |
    RShiftI64I | RShiftU64I | LeI64 | LtI64 | EqI64 | NeI64 | LeU64 | LtU64 | DivU64 |
    ConvUI64 | ConvII64 | ConvI64I | ConvI64F | ConvU64F | ConvFI64 | ConvFU64

datatype (plugins only: code size) double_op =
    AddD | SubD | MulD | DivD | LeD | LtD | EqD | NeD | ConvFD | ConvDF | ConvI64D |
    ConvU64D | ConvDI64 | ConvDU64

datatype (plugins only: code size) bitfield_op =
    BitExtendI | BitExtendU | BitCopyI

datatype (plugins only: code size) op =
    Arith arith_op | Cmp cmp_op | StrCmp strcmp_op | Logic logic_op | Branch branch_op |
    FieldLoad loadf_op | FieldStore storef_op | GStore gstore_op | StorePtr storep_op |
    LoadPtr loadp_op | Compound compound_op | CompoundPtr compoundp_op | Fetch fetch_op |
    Anim anim_op | Rand rand_op | Switch switch_op | CaseOp case_op | Call call_op |
    Ret return_op | IntOp int_op | Mixed mixed_op | PtrArith ptrarith_op |
    LoadArr loada_op | GLoad gload_op | GStorePtr gstorep_op | Bounds bounds_op |
    BadOp bad_op | UIntOp uint_op | Int64 int64_op | DoubleOp double_op |
    BitField bitfield_op

section \<open>Discriminants\<close>

primrec arith_num :: "arith_op \<Rightarrow> nat" where
  "arith_num MulF = 1" | "arith_num DivF = 5" | "arith_num AddF = 6" |
  "arith_num SubF = 8" | "arith_num MulV = 2" | "arith_num MulFV = 3" |
  "arith_num MulVF = 4" | "arith_num DivVF = 139" | "arith_num AddV = 7" |
  "arith_num SubV = 9"

primrec cmp_num :: "cmp_op \<Rightarrow> nat" where
  "cmp_num EqF = 10" | "cmp_num NeF = 15" | "cmp_num LeF = 20" | "cmp_num GeF = 21" |
  "cmp_num LtF = 22" | "cmp_num GtF = 23" | "cmp_num EqV = 11" | "cmp_num NeV = 16" |
  "cmp_num EqE = 13" | "cmp_num EqFnc = 14" | "cmp_num NeE = 18" | "cmp_num NeFnc = 19"

primrec strcmp_num :: "strcmp_op \<Rightarrow> nat" where
  "strcmp_num EqS = 12" | "strcmp_num NeS = 17" | "strcmp_num NotS = 46"

primrec logic_num :: "logic_op \<Rightarrow> nat" where
  "logic_num NotF = 44" | "logic_num NotV = 45" | "logic_num NotEnt = 47" |
  "logic_num NotFnc = 48" | "logic_num NotI = 138" | "logic_num AndF = 62" |
  "logic_num OrF = 63" | "logic_num BitAndF = 64" | "logic_num BitOrF = 65"

primrec branch_num :: "branch_op \<Rightarrow> nat" where
  "branch_num IfI = 49" | "branch_num IfNotI = 50" | "branch_num IfF = 217" |
  "branch_num IfNotF = 218" | "branch_num IfS = 137" | "branch_num IfNotS = 136" |
  "branch_num Goto = 61"

primrec loadf_num :: "loadf_op \<Rightarrow> nat" where
  "loadf_num LoadF = 24" | "loadf_num LoadS = 26" | "loadf_num LoadEnt = 27" |
  "loadf_num LoadFld = 28" | "loadf_num LoadFnc = 29" | "loadf_num LoadI = 126" |
  "loadf_num LoadP = 153" | "loadf_num LoadV = 25" | "loadf_num LoadI64 = 249"

primrec storef_num :: "storef_op \<Rightarrow> nat" where
  "storef_num Address = 30" | "storef_num StoreFieldF = 220" |
  "storef_num StoreFieldS = 221" | "storef_num StoreFieldI = 222" |
  "storef_num StoreFieldV = 219" | "storef_num StoreFieldI64 = 248"

primrec gstore_num :: "gstore_op \<Rightarrow> nat" where
  "gstore_num StoreF = 31" | "gstore_num StoreS = 33" | "gstore_num StoreEnt = 34" |
  "gstore_num StoreFld = 35" | "gstore_num StoreFnc = 36" | "gstore_num StoreI = 113" |
  "gstore_num StoreP = 152" | "gstore_num StoreV = 32" | "gstore_num StoreI64 = 246" |
  "gstore_num StoreIF = 114" | "gstore_num StoreFI = 115"

primrec storep_num :: "storep_op \<Rightarrow> nat" where
  "storep_num StorePF = 37" | "storep_num StorePS = 39" | "storep_num StorePEnt = 40" |
  "storep_num StorePFld = 41" | "storep_num StorePFnc = 42" | "storep_num StorePI = 127" |
  "storep_num StorePV = 38" | "storep_num StorePI64 = 247" | "storep_num StorePIF = 128" |
  "storep_num StorePFI = 129" | "storep_num StorePC = 177" | "storep_num StorePI8 = 223" |
  "storep_num StorePI16 = 269"

primrec loadp_num :: "loadp_op \<Rightarrow> nat" where
  "loadp_num LoadPF = 154" | "loadp_num LoadPS = 156" | "loadp_num LoadPEnt = 157" |
  "loadp_num LoadPFld = 158" | "loadp_num LoadPFnc = 159" | "loadp_num LoadPI = 160" |
  "loadp_num LoadPV = 155" | "loadp_num LoadPI64 = 251" | "loadp_num LoadPC = 178" |
  "loadp_num LoadPU8 = 224" | "loadp_num LoadPI8 = 272" | "loadp_num LoadPU16 = 271" |
  "loadp_num LoadPI16 = 270" | "loadp_num LoadPItoF = 124" | "loadp_num LoadPFtoI = 125"

primrec compound_num :: "compound_op \<Rightarrow> nat" where
  "compound_num MulStoreF = 66" | "compound_num DivStoreF = 70" |
  "compound_num AddStoreF = 72" | "compound_num SubStoreF = 76" |
  "compound_num MulStoreVF = 67" | "compound_num AddStoreV = 73" |
  "compound_num SubStoreV = 77" | "compound_num BitSetStoreF = 88" |
  "compound_num BitClrStoreF = 90"

primrec compoundp_num :: "compoundp_op \<Rightarrow> nat" where
  "compoundp_num MulStorePF = 68" | "compoundp_num DivStorePF = 71" |
  "compoundp_num AddStorePF = 74" | "compoundp_num SubStorePF = 78" |
  "compoundp_num MulStorePVF = 69" | "compoundp_num AddStorePV = 75" |
  "compoundp_num SubStorePV = 79" | "compoundp_num BitSetStorePF = 89" |
  "compoundp_num BitClrStorePF = 91"

primrec fetch_num :: "fetch_op \<Rightarrow> nat" where
  "fetch_num FetchGblF = 80" | "fetch_num FetchGblS = 82" | "fetch_num FetchGblE = 83" |
  "fetch_num FetchGblFnc = 84" | "fetch_num FetchGblV = 81"

primrec anim_num :: "anim_op \<Rightarrow> nat" where
  "anim_num State = 60" | "anim_num CState = 85" | "anim_num CWState = 86" |
  "anim_num ThinkTime = 87"

primrec rand_num :: "rand_op \<Rightarrow> nat" where
  "rand_num Rand0 = 92" | "rand_num Rand1 = 93" | "rand_num Rand2 = 94" |
  "rand_num RandV0 = 95" | "rand_num RandV1 = 96" | "rand_num RandV2 = 97"

primrec switch_num :: "switch_op \<Rightarrow> nat" where
  "switch_num SwitchF = 98" | "switch_num SwitchV = 99" | "switch_num SwitchS = 100" |
  "switch_num SwitchE = 101" | "switch_num SwitchFnc = 102" | "switch_num SwitchI = 215"

primrec case_num :: "case_op \<Rightarrow> nat" where
  "case_num Case = 103" | "case_num CaseRange = 104"

primrec call_num :: "call_op \<Rightarrow> nat" where
  "call_num Call0 = 51" | "call_num Call1 = 52" | "call_num Call2 = 53" |
  "call_num Call3 = 54" | "call_num Call4 = 55" | "call_num Call5 = 56" |
  "call_num Call6 = 57" | "call_num Call7 = 58" | "call_num Call8 = 59" |
  "call_num Call1H = 105" | "call_num Call2H = 106" | "call_num Call3H = 107" |
  "call_num Call4H = 108" | "call_num Call5H = 109" | "call_num Call6H = 110" |
  "call_num Call7H = 111" | "call_num Call8H = 112"

primrec return_num :: "return_op \<Rightarrow> nat" where
  "return_num Return = 43" | "return_num Done = 0"

primrec int_num :: "int_op \<Rightarrow> nat" where
  "int_num AddI = 116" | "int_num SubI = 119" | "int_num MulI = 132" |
  "int_num DivI = 133" | "int_num BitAndI = 130" | "int_num BitOrI = 131" |
  "int_num BitXorI = 140" | "int_num RShiftI = 141" | "int_num LShiftI = 142" |
  "int_num EqI = 134" | "int_num NeI = 135" | "int_num LeI = 161" | "int_num GeI = 162" |
  "int_num LtI = 163" | "int_num GtI = 164" | "int_num AndI = 189" | "int_num OrI = 190" |
  "int_num ConvItoF = 122" | "int_num ConvFtoI = 123"

primrec mixed_num :: "mixed_op \<Rightarrow> nat" where
  "mixed_num AddFI = 117" | "mixed_num AddIF = 118" | "mixed_num SubFI = 120" |
  "mixed_num SubIF = 121" | "mixed_num MulIF = 179" | "mixed_num MulFI = 180" |
  "mixed_num DivIF = 183" | "mixed_num DivFI = 184" | "mixed_num MulVI = 181" |
  "mixed_num MulIV = 182" | "mixed_num LeIF = 165" | "mixed_num GeIF = 166" |
  "mixed_num LtIF = 167" | "mixed_num GtIF = 168" | "mixed_num EqIF = 173" |
  "mixed_num NeIF = 195" | "mixed_num LeFI = 169" | "mixed_num GeFI = 170" |
  "mixed_num LtFI = 171" | "mixed_num GtFI = 172" | "mixed_num EqFI = 174" |
  "mixed_num NeFI = 196" | "mixed_num BitAndIF = 185" | "mixed_num BitOrIF = 186" |
  "mixed_num BitAndFI = 187" | "mixed_num BitOrFI = 188" | "mixed_num AndIF = 191" |
  "mixed_num OrIF = 192" | "mixed_num AndFI = 193" | "mixed_num OrFI = 194"

primrec ptrarith_num :: "ptrarith_op \<Rightarrow> nat" where
  "ptrarith_num GlobalAddress = 143" | "ptrarith_num AddPIW = 144" |
  "ptrarith_num AddSF = 175" | "ptrarith_num SubS = 176"

primrec loada_num :: "loada_op \<Rightarrow> nat" where
  "loada_num LoadAF = 145" | "loada_num LoadAS = 147" | "loada_num LoadAEnt = 148" |
  "loada_num LoadAFld = 149" | "loada_num LoadAFnc = 150" | "loada_num LoadAI = 151" |
  "loada_num LoadAV = 146" | "loada_num LoadAI64 = 250"

primrec gload_num :: "gload_op \<Rightarrow> nat" where
  "gload_num GLoadI = 205" | "gload_num GLoadF = 206" | "gload_num GLoadFld = 207" |
  "gload_num GLoadEnt = 208" | "gload_num GLoadS = 209" | "gload_num GLoadFnc = 210" |
  "gload_num GLoadV = 216"

primrec gstorep_num :: "gstorep_op \<Rightarrow> nat" where
  "gstorep_num GStorePI = 197" | "gstorep_num GStorePF = 198" |
  "gstorep_num GStorePEnt = 199" | "gstorep_num GStorePFld = 200" |
  "gstorep_num GStorePS = 201" | "gstorep_num GStorePFnc = 202" |
  "gstorep_num GStorePV = 203"

primrec bounds_num :: "bounds_op \<Rightarrow> nat" where
  "bounds_num BoundCheck = 211" | "bounds_num Push = 213"

primrec bad_num :: "bad_op \<Rightarrow> nat" where
  "bad_num GAddress = 204" | "bad_num UnusedOp = 212" | "bad_num Pop = 214" |
  "bad_num Bad = 282" | "bad_num JumpOutOfRangeOp = 283"

primrec uint_num :: "uint_op \<Rightarrow> nat" where
  "uint_num LeU = 225" | "uint_num LtU = 226" | "uint_num DivU = 227" |
  "uint_num RShiftU = 228" | "uint_num ConvUF = 276" | "uint_num ConvFU = 277"

primrec int64_num :: "int64_op \<Rightarrow> nat" where
  "int64_num AddI64 = 229" | "int64_num SubI64 = 230" | "int64_num MulI64 = 231" |
  "int64_num DivI64 = 232" | "int64_num BitAndI64 = 233" | "int64_num BitOrI64 = 234" |
  "int64_num BitXorI64 = 235" | "int64_num LShiftI64I = 236" |
  "int64_num RShiftI64I = 237" | "int64_num RShiftU64I = 245" | "int64_num LeI64 = 238" |
  "int64_num LtI64 = 239" | "int64_num EqI64 = 240" | "int64_num NeI64 = 241" |
  "int64_num LeU64 = 242" | "int64_num LtU64 = 243" | "int64_num DivU64 = 244" |
  "int64_num ConvUI64 = 252" | "int64_num ConvII64 = 253" | "int64_num ConvI64I = 254" |
  "int64_num ConvI64F = 257" | "int64_num ConvU64F = 280" | "int64_num ConvFI64 = 258" |
  "int64_num ConvFU64 = 281"

primrec double_num :: "double_op \<Rightarrow> nat" where
  "double_num AddD = 261" | "double_num SubD = 262" | "double_num MulD = 263" |
  "double_num DivD = 264" | "double_num LeD = 265" | "double_num LtD = 266" |
  "double_num EqD = 267" | "double_num NeD = 268" | "double_num ConvFD = 255" |
  "double_num ConvDF = 256" | "double_num ConvI64D = 259" | "double_num ConvU64D = 278" |
  "double_num ConvDI64 = 260" | "double_num ConvDU64 = 279"

primrec bitfield_num :: "bitfield_op \<Rightarrow> nat" where
  "bitfield_num BitExtendI = 273" | "bitfield_num BitExtendU = 274" |
  "bitfield_num BitCopyI = 275"

text \<open>The discriminant, \<open>op as u16\<close>.\<close>

primrec op_num :: "op \<Rightarrow> nat" where
  "op_num (Arith x) = arith_num x"
| "op_num (Cmp x) = cmp_num x"
| "op_num (StrCmp x) = strcmp_num x"
| "op_num (Logic x) = logic_num x"
| "op_num (Branch x) = branch_num x"
| "op_num (FieldLoad x) = loadf_num x"
| "op_num (FieldStore x) = storef_num x"
| "op_num (GStore x) = gstore_num x"
| "op_num (StorePtr x) = storep_num x"
| "op_num (LoadPtr x) = loadp_num x"
| "op_num (Compound x) = compound_num x"
| "op_num (CompoundPtr x) = compoundp_num x"
| "op_num (Fetch x) = fetch_num x"
| "op_num (Anim x) = anim_num x"
| "op_num (Rand x) = rand_num x"
| "op_num (Switch x) = switch_num x"
| "op_num (CaseOp x) = case_num x"
| "op_num (Call x) = call_num x"
| "op_num (Ret x) = return_num x"
| "op_num (IntOp x) = int_num x"
| "op_num (Mixed x) = mixed_num x"
| "op_num (PtrArith x) = ptrarith_num x"
| "op_num (LoadArr x) = loada_num x"
| "op_num (GLoad x) = gload_num x"
| "op_num (GStorePtr x) = gstorep_num x"
| "op_num (Bounds x) = bounds_num x"
| "op_num (BadOp x) = bad_num x"
| "op_num (UIntOp x) = uint_num x"
| "op_num (Int64 x) = int64_num x"
| "op_num (DoubleOp x) = double_num x"
| "op_num (BitField x) = bitfield_num x"

section \<open>The table\<close>

abbreviation (input) G where "G \<equiv> Global"
abbreviation (input) A where "A \<equiv> GlobalIndex"
abbreviation (input) J where "J \<equiv> Jump"
abbreviation (input) I where "I \<equiv> Immediate"
abbreviation (input) U where "U \<equiv> Unused"

type_synonym op_row = "op \<times> string \<times> operand \<times> operand \<times> operand"

definition op_table_v6 :: "op_row list" where
  "op_table_v6 =
    [(Ret Done, ''DONE'', G, U, U),
     (Arith MulF, ''MUL_F'', G, G, G),
     (Arith MulV, ''MUL_V'', G, G, G),
     (Arith MulFV, ''MUL_FV'', G, G, G),
     (Arith MulVF, ''MUL_VF'', G, G, G),
     (Arith DivF, ''DIV_F'', G, G, G),
     (Arith AddF, ''ADD_F'', G, G, G),
     (Arith AddV, ''ADD_V'', G, G, G),
     (Arith SubF, ''SUB_F'', G, G, G),
     (Arith SubV, ''SUB_V'', G, G, G),
     (Cmp EqF, ''EQ_F'', G, G, G),
     (Cmp EqV, ''EQ_V'', G, G, G),
     (StrCmp EqS, ''EQ_S'', G, G, G),
     (Cmp EqE, ''EQ_E'', G, G, G),
     (Cmp EqFnc, ''EQ_FNC'', G, G, G),
     (Cmp NeF, ''NE_F'', G, G, G),
     (Cmp NeV, ''NE_V'', G, G, G),
     (StrCmp NeS, ''NE_S'', G, G, G),
     (Cmp NeE, ''NE_E'', G, G, G),
     (Cmp NeFnc, ''NE_FNC'', G, G, G),
     (Cmp LeF, ''LE_F'', G, G, G),
     (Cmp GeF, ''GE_F'', G, G, G),
     (Cmp LtF, ''LT_F'', G, G, G),
     (Cmp GtF, ''GT_F'', G, G, G),
     (FieldLoad LoadF, ''LOAD_F'', G, G, G),
     (FieldLoad LoadV, ''LOAD_V'', G, G, G),
     (FieldLoad LoadS, ''LOAD_S'', G, G, G),
     (FieldLoad LoadEnt, ''LOAD_ENT'', G, G, G),
     (FieldLoad LoadFld, ''LOAD_FLD'', G, G, G),
     (FieldLoad LoadFnc, ''LOAD_FNC'', G, G, G),
     (FieldStore Address, ''ADDRESS'', G, G, G),
     (GStore StoreF, ''STORE_F'', G, G, U),
     (GStore StoreV, ''STORE_V'', G, G, U),
     (GStore StoreS, ''STORE_S'', G, G, U),
     (GStore StoreEnt, ''STORE_ENT'', G, G, U),
     (GStore StoreFld, ''STORE_FLD'', G, G, U),
     (GStore StoreFnc, ''STORE_FNC'', G, G, U),
     (StorePtr StorePF, ''STOREP_F'', G, G, G),
     (StorePtr StorePV, ''STOREP_V'', G, G, G),
     (StorePtr StorePS, ''STOREP_S'', G, G, G),
     (StorePtr StorePEnt, ''STOREP_ENT'', G, G, G),
     (StorePtr StorePFld, ''STOREP_FLD'', G, G, G),
     (StorePtr StorePFnc, ''STOREP_FNC'', G, G, G),
     (Ret Return, ''RETURN'', G, U, U),
     (Logic NotF, ''NOT_F'', G, U, G),
     (Logic NotV, ''NOT_V'', G, U, G),
     (StrCmp NotS, ''NOT_S'', G, U, G),
     (Logic NotEnt, ''NOT_ENT'', G, U, G),
     (Logic NotFnc, ''NOT_FNC'', G, U, G),
     (Branch IfI, ''IF_I'', G, J, U),
     (Branch IfNotI, ''IFNOT_I'', G, J, U),
     (Call Call0, ''CALL0'', G, U, U),
     (Call Call1, ''CALL1'', G, U, U),
     (Call Call2, ''CALL2'', G, U, U),
     (Call Call3, ''CALL3'', G, U, U),
     (Call Call4, ''CALL4'', G, U, U),
     (Call Call5, ''CALL5'', G, U, U),
     (Call Call6, ''CALL6'', G, U, U),
     (Call Call7, ''CALL7'', G, U, U),
     (Call Call8, ''CALL8'', G, U, U),
     (Anim State, ''STATE'', G, G, U),
     (Branch Goto, ''GOTO'', J, U, U),
     (Logic AndF, ''AND_F'', G, G, G),
     (Logic OrF, ''OR_F'', G, G, G),
     (Logic BitAndF, ''BITAND_F'', G, G, G),
     (Logic BitOrF, ''BITOR_F'', G, G, G),
     (Compound MulStoreF, ''MULSTORE_F'', G, G, G),
     (Compound MulStoreVF, ''MULSTORE_VF'', G, G, G),
     (CompoundPtr MulStorePF, ''MULSTOREP_F'', G, G, G),
     (CompoundPtr MulStorePVF, ''MULSTOREP_VF'', G, G, G),
     (Compound DivStoreF, ''DIVSTORE_F'', G, G, G),
     (CompoundPtr DivStorePF, ''DIVSTOREP_F'', G, G, G),
     (Compound AddStoreF, ''ADDSTORE_F'', G, G, G),
     (Compound AddStoreV, ''ADDSTORE_V'', G, G, G),
     (CompoundPtr AddStorePF, ''ADDSTOREP_F'', G, G, G),
     (CompoundPtr AddStorePV, ''ADDSTOREP_V'', G, G, G),
     (Compound SubStoreF, ''SUBSTORE_F'', G, G, G),
     (Compound SubStoreV, ''SUBSTORE_V'', G, G, G),
     (CompoundPtr SubStorePF, ''SUBSTOREP_F'', G, G, G),
     (CompoundPtr SubStorePV, ''SUBSTOREP_V'', G, G, G),
     (Fetch FetchGblF, ''FETCH_GBL_F'', A, G, G),
     (Fetch FetchGblV, ''FETCH_GBL_V'', A, G, G),
     (Fetch FetchGblS, ''FETCH_GBL_S'', A, G, G),
     (Fetch FetchGblE, ''FETCH_GBL_E'', A, G, G),
     (Fetch FetchGblFnc, ''FETCH_GBL_FNC'', A, G, G),
     (Anim CState, ''CSTATE'', G, G, U),
     (Anim CWState, ''CWSTATE'', G, G, U),
     (Anim ThinkTime, ''THINKTIME'', G, G, U),
     (Compound BitSetStoreF, ''BITSETSTORE_F'', G, G, G),
     (CompoundPtr BitSetStorePF, ''BITSETSTOREP_F'', G, G, G),
     (Compound BitClrStoreF, ''BITCLRSTORE_F'', G, G, G),
     (CompoundPtr BitClrStorePF, ''BITCLRSTOREP_F'', G, G, G),
     (Rand Rand0, ''RAND0'', U, U, G),
     (Rand Rand1, ''RAND1'', G, U, G),
     (Rand Rand2, ''RAND2'', G, G, G),
     (Rand RandV0, ''RANDV0'', U, U, G),
     (Rand RandV1, ''RANDV1'', G, U, G),
     (Rand RandV2, ''RANDV2'', G, G, G),
     (Switch SwitchF, ''SWITCH_F'', G, J, U),
     (Switch SwitchV, ''SWITCH_V'', G, J, U),
     (Switch SwitchS, ''SWITCH_S'', G, J, U),
     (Switch SwitchE, ''SWITCH_E'', G, J, U),
     (Switch SwitchFnc, ''SWITCH_FNC'', G, J, U),
     (CaseOp Case, ''CASE'', G, J, U),
     (CaseOp CaseRange, ''CASERANGE'', G, G, J),
     (Call Call1H, ''CALL1H'', G, G, G),
     (Call Call2H, ''CALL2H'', G, G, G),
     (Call Call3H, ''CALL3H'', G, G, G),
     (Call Call4H, ''CALL4H'', G, G, G),
     (Call Call5H, ''CALL5H'', G, G, G),
     (Call Call6H, ''CALL6H'', G, G, G),
     (Call Call7H, ''CALL7H'', G, G, G),
     (Call Call8H, ''CALL8H'', G, G, G)]"

definition op_table_fte :: "op_row list" where
  "op_table_fte =
    [(GStore StoreI, ''STORE_I'', G, G, U),
     (GStore StoreIF, ''STORE_IF'', G, G, U),
     (GStore StoreFI, ''STORE_FI'', G, G, U),
     (IntOp AddI, ''ADD_I'', G, G, G),
     (Mixed AddFI, ''ADD_FI'', G, G, G),
     (Mixed AddIF, ''ADD_IF'', G, G, G),
     (IntOp SubI, ''SUB_I'', G, G, G),
     (Mixed SubFI, ''SUB_FI'', G, G, G),
     (Mixed SubIF, ''SUB_IF'', G, G, G),
     (IntOp ConvItoF, ''CONV_ITOF'', G, U, G),
     (IntOp ConvFtoI, ''CONV_FTOI'', G, U, G),
     (LoadPtr LoadPItoF, ''LOADP_ITOF'', G, U, G),
     (LoadPtr LoadPFtoI, ''LOADP_FTOI'', G, U, G),
     (FieldLoad LoadI, ''LOAD_I'', G, G, G),
     (StorePtr StorePI, ''STOREP_I'', G, G, G),
     (StorePtr StorePIF, ''STOREP_IF'', G, G, G),
     (StorePtr StorePFI, ''STOREP_FI'', G, G, G),
     (IntOp BitAndI, ''BITAND_I'', G, G, G),
     (IntOp BitOrI, ''BITOR_I'', G, G, G),
     (IntOp MulI, ''MUL_I'', G, G, G),
     (IntOp DivI, ''DIV_I'', G, G, G),
     (IntOp EqI, ''EQ_I'', G, G, G),
     (IntOp NeI, ''NE_I'', G, G, G),
     (Branch IfNotS, ''IFNOT_S'', G, J, U),
     (Branch IfS, ''IF_S'', G, J, U),
     (Logic NotI, ''NOT_I'', G, U, G),
     (Arith DivVF, ''DIV_VF'', G, G, G),
     (IntOp BitXorI, ''BITXOR_I'', G, G, G),
     (IntOp RShiftI, ''RSHIFT_I'', G, G, G),
     (IntOp LShiftI, ''LSHIFT_I'', G, G, G),
     (PtrArith GlobalAddress, ''GLOBALADDRESS'', A, G, G),
     (PtrArith AddPIW, ''ADD_PIW'', G, G, G),
     (LoadArr LoadAF, ''LOADA_F'', A, G, G),
     (LoadArr LoadAV, ''LOADA_V'', A, G, G),
     (LoadArr LoadAS, ''LOADA_S'', A, G, G),
     (LoadArr LoadAEnt, ''LOADA_ENT'', A, G, G),
     (LoadArr LoadAFld, ''LOADA_FLD'', A, G, G),
     (LoadArr LoadAFnc, ''LOADA_FNC'', A, G, G),
     (LoadArr LoadAI, ''LOADA_I'', A, G, G),
     (GStore StoreP, ''STORE_P'', G, G, U),
     (FieldLoad LoadP, ''LOAD_P'', G, G, G),
     (LoadPtr LoadPF, ''LOADP_F'', G, G, G),
     (LoadPtr LoadPV, ''LOADP_V'', G, G, G),
     (LoadPtr LoadPS, ''LOADP_S'', G, G, G),
     (LoadPtr LoadPEnt, ''LOADP_ENT'', G, G, G),
     (LoadPtr LoadPFld, ''LOADP_FLD'', G, G, G),
     (LoadPtr LoadPFnc, ''LOADP_FNC'', G, G, G),
     (LoadPtr LoadPI, ''LOADP_I'', G, G, G),
     (IntOp LeI, ''LE_I'', G, G, G),
     (IntOp GeI, ''GE_I'', G, G, G),
     (IntOp LtI, ''LT_I'', G, G, G),
     (IntOp GtI, ''GT_I'', G, G, G),
     (Mixed LeIF, ''LE_IF'', G, G, G),
     (Mixed GeIF, ''GE_IF'', G, G, G),
     (Mixed LtIF, ''LT_IF'', G, G, G),
     (Mixed GtIF, ''GT_IF'', G, G, G),
     (Mixed LeFI, ''LE_FI'', G, G, G),
     (Mixed GeFI, ''GE_FI'', G, G, G),
     (Mixed LtFI, ''LT_FI'', G, G, G),
     (Mixed GtFI, ''GT_FI'', G, G, G),
     (Mixed EqIF, ''EQ_IF'', G, G, G),
     (Mixed EqFI, ''EQ_FI'', G, G, G),
     (PtrArith AddSF, ''ADD_SF'', G, G, G),
     (PtrArith SubS, ''SUB_S'', G, G, G),
     (StorePtr StorePC, ''STOREP_C'', G, G, G),
     (LoadPtr LoadPC, ''LOADP_C'', G, G, G),
     (Mixed MulIF, ''MUL_IF'', G, G, G),
     (Mixed MulFI, ''MUL_FI'', G, G, G),
     (Mixed MulVI, ''MUL_VI'', G, G, G),
     (Mixed MulIV, ''MUL_IV'', G, G, G),
     (Mixed DivIF, ''DIV_IF'', G, G, G),
     (Mixed DivFI, ''DIV_FI'', G, G, G),
     (Mixed BitAndIF, ''BITAND_IF'', G, G, G),
     (Mixed BitOrIF, ''BITOR_IF'', G, G, G),
     (Mixed BitAndFI, ''BITAND_FI'', G, G, G),
     (Mixed BitOrFI, ''BITOR_FI'', G, G, G),
     (IntOp AndI, ''AND_I'', G, G, G),
     (IntOp OrI, ''OR_I'', G, G, G),
     (Mixed AndIF, ''AND_IF'', G, G, G),
     (Mixed OrIF, ''OR_IF'', G, G, G),
     (Mixed AndFI, ''AND_FI'', G, G, G),
     (Mixed OrFI, ''OR_FI'', G, G, G),
     (Mixed NeIF, ''NE_IF'', G, G, G),
     (Mixed NeFI, ''NE_FI'', G, G, G),
     (GStorePtr GStorePI, ''GSTOREP_I'', G, G, U),
     (GStorePtr GStorePF, ''GSTOREP_F'', G, G, U),
     (GStorePtr GStorePEnt, ''GSTOREP_ENT'', G, G, U),
     (GStorePtr GStorePFld, ''GSTOREP_FLD'', G, G, U),
     (GStorePtr GStorePS, ''GSTOREP_S'', G, G, U),
     (GStorePtr GStorePFnc, ''GSTOREP_FNC'', G, G, U),
     (GStorePtr GStorePV, ''GSTOREP_V'', G, G, U),
     (BadOp GAddress, ''GADDRESS'', G, G, G),
     (GLoad GLoadI, ''GLOAD_I'', G, U, G),
     (GLoad GLoadF, ''GLOAD_F'', G, U, G),
     (GLoad GLoadFld, ''GLOAD_FLD'', G, U, G),
     (GLoad GLoadEnt, ''GLOAD_ENT'', G, U, G),
     (GLoad GLoadS, ''GLOAD_S'', G, U, G),
     (GLoad GLoadFnc, ''GLOAD_FNC'', G, U, G),
     (Bounds BoundCheck, ''BOUNDCHECK'', G, I, I)]"

definition op_table_wide :: "op_row list" where
  "op_table_wide =
    [(BadOp UnusedOp, ''UNUSED'', U, U, U),
     (Bounds Push, ''PUSH'', G, U, G),
     (BadOp Pop, ''POP'', U, U, U),
     (Switch SwitchI, ''SWITCH_I'', G, J, U),
     (GLoad GLoadV, ''GLOAD_V'', G, U, G),
     (Branch IfF, ''IF_F'', G, J, U),
     (Branch IfNotF, ''IFNOT_F'', G, J, U),
     (FieldStore StoreFieldV, ''STOREF_V'', G, G, G),
     (FieldStore StoreFieldF, ''STOREF_F'', G, G, G),
     (FieldStore StoreFieldS, ''STOREF_S'', G, G, G),
     (FieldStore StoreFieldI, ''STOREF_I'', G, G, G),
     (StorePtr StorePI8, ''STOREP_I8'', G, G, G),
     (LoadPtr LoadPU8, ''LOADP_U8'', G, G, G),
     (UIntOp LeU, ''LE_U'', G, G, G),
     (UIntOp LtU, ''LT_U'', G, G, G),
     (UIntOp DivU, ''DIV_U'', G, G, G),
     (UIntOp RShiftU, ''RSHIFT_U'', G, G, G),
     (Int64 AddI64, ''ADD_I64'', G, G, G),
     (Int64 SubI64, ''SUB_I64'', G, G, G),
     (Int64 MulI64, ''MUL_I64'', G, G, G),
     (Int64 DivI64, ''DIV_I64'', G, G, G),
     (Int64 BitAndI64, ''BITAND_I64'', G, G, G),
     (Int64 BitOrI64, ''BITOR_I64'', G, G, G),
     (Int64 BitXorI64, ''BITXOR_I64'', G, G, G),
     (Int64 LShiftI64I, ''LSHIFT_I64I'', G, G, G),
     (Int64 RShiftI64I, ''RSHIFT_I64I'', G, G, G),
     (Int64 LeI64, ''LE_I64'', G, G, G),
     (Int64 LtI64, ''LT_I64'', G, G, G),
     (Int64 EqI64, ''EQ_I64'', G, G, G),
     (Int64 NeI64, ''NE_I64'', G, G, G),
     (Int64 LeU64, ''LE_U64'', G, G, G),
     (Int64 LtU64, ''LT_U64'', G, G, G),
     (Int64 DivU64, ''DIV_U64'', G, G, G),
     (Int64 RShiftU64I, ''RSHIFT_U64I'', G, G, G),
     (GStore StoreI64, ''STORE_I64'', G, G, U),
     (StorePtr StorePI64, ''STOREP_I64'', G, G, G),
     (FieldStore StoreFieldI64, ''STOREF_I64'', G, G, G),
     (FieldLoad LoadI64, ''LOAD_I64'', G, G, G),
     (LoadArr LoadAI64, ''LOADA_I64'', A, G, G),
     (LoadPtr LoadPI64, ''LOADP_I64'', G, G, G),
     (Int64 ConvUI64, ''CONV_UI64'', G, U, G),
     (Int64 ConvII64, ''CONV_II64'', G, U, G),
     (Int64 ConvI64I, ''CONV_I64I'', G, U, G),
     (DoubleOp ConvFD, ''CONV_FD'', G, U, G),
     (DoubleOp ConvDF, ''CONV_DF'', G, U, G),
     (Int64 ConvI64F, ''CONV_I64F'', G, U, G),
     (Int64 ConvFI64, ''CONV_FI64'', G, U, G),
     (DoubleOp ConvI64D, ''CONV_I64D'', G, U, G),
     (DoubleOp ConvDI64, ''CONV_DI64'', G, U, G),
     (DoubleOp AddD, ''ADD_D'', G, G, G),
     (DoubleOp SubD, ''SUB_D'', G, G, G),
     (DoubleOp MulD, ''MUL_D'', G, G, G),
     (DoubleOp DivD, ''DIV_D'', G, G, G),
     (DoubleOp LeD, ''LE_D'', G, G, G),
     (DoubleOp LtD, ''LT_D'', G, G, G),
     (DoubleOp EqD, ''EQ_D'', G, G, G),
     (DoubleOp NeD, ''NE_D'', G, G, G),
     (StorePtr StorePI16, ''STOREP_I16'', G, G, G),
     (LoadPtr LoadPI16, ''LOADP_I16'', G, G, G),
     (LoadPtr LoadPU16, ''LOADP_U16'', G, G, G),
     (LoadPtr LoadPI8, ''LOADP_I8'', G, G, G),
     (BitField BitExtendI, ''BITEXTEND_I'', G, G, G),
     (BitField BitExtendU, ''BITEXTEND_U'', G, G, G),
     (BitField BitCopyI, ''BITCOPY_I'', G, G, G),
     (UIntOp ConvUF, ''CONV_UF'', G, U, G),
     (UIntOp ConvFU, ''CONV_FU'', G, U, G),
     (DoubleOp ConvU64D, ''CONV_U64D'', G, U, G),
     (DoubleOp ConvDU64, ''CONV_DU64'', G, U, G),
     (Int64 ConvU64F, ''CONV_U64F'', G, U, G),
     (Int64 ConvFU64, ''CONV_FU64'', G, U, G)]"

definition op_table :: "op_row list" where
  "op_table = op_table_v6 @ op_table_fte @ op_table_wide"

definition NUM_REAL :: nat where "NUM_REAL = 282"

definition ALL_ops :: "op list" where
  "ALL_ops = map fst op_table"

definition op_from_u32 :: "u32 \<Rightarrow> op" where
  "op_from_u32 n = (if unat n < NUM_REAL then ALL_ops ! unat n else BadOp Bad)"

definition op_name :: "op \<Rightarrow> string" where
  "op_name p = (if p = BadOp Bad then ''BAD''
                else if p = BadOp JumpOutOfRangeOp then ''JUMP_OUT_OF_RANGE''
                else fst (snd (op_table ! op_num p)))"

definition operands :: "op \<Rightarrow> operand \<times> operand \<times> operand" where
  "operands p = (if p = BadOp Bad \<or> p = BadOp JumpOutOfRangeOp then (U, U, U)
                 else snd (snd (op_table ! op_num p)))"

definition call_argc :: "op \<Rightarrow> u8 option" where
  "call_argc p = (let n = op_num p in
     if 51 \<le> n \<and> n \<le> 59 then Some (of_nat (n - 51))
     else if 105 \<le> n \<and> n \<le> 112 then Some (of_nat (n - 104))
     else None)"

definition is_hexen2_call :: "op \<Rightarrow> bool" where
  "is_hexen2_call p = (105 \<le> op_num p \<and> op_num p \<le> 112)"

section \<open>The table is dense and numbered\<close>

lemma op_table_nums: "map op_num ALL_ops = [0..<NUM_REAL]"
  by (simp add: ALL_ops_def op_table_def op_table_v6_def op_table_fte_def op_table_wide_def
      NUM_REAL_def upt_rec)

lemma length_ALL_ops [simp]: "length ALL_ops = NUM_REAL" "length op_table = NUM_REAL"
  using arg_cong [OF op_table_nums, of length] by (simp_all add: ALL_ops_def)

lemma op_num_ALL: "i < NUM_REAL \<Longrightarrow> op_num (ALL_ops ! i) = i"
  using arg_cong [OF op_table_nums, of "\<lambda>xs. xs ! i"] by simp

lemma op_num_from_u32: "unat n < NUM_REAL \<Longrightarrow> op_num (op_from_u32 n) = unat n"
  by (simp add: op_from_u32_def op_num_ALL)

lemma ALL_ops_num: "op_num p < NUM_REAL \<Longrightarrow> ALL_ops ! op_num p = p"
proof (cases p)
  case (BadOp x)
  then show "op_num p < NUM_REAL \<Longrightarrow> ALL_ops ! op_num p = p"
    by (cases x) (simp_all add: ALL_ops_def op_table_def op_table_v6_def op_table_fte_def
        op_table_wide_def NUM_REAL_def)
qed (rename_tac x, case_tac x, simp_all add: ALL_ops_def op_table_def op_table_v6_def
      op_table_fte_def op_table_wide_def)+

text \<open>Decoding is the inverse of the numbering: every opcode of the table is decoded from its own
  number, the numbers are dense below 282, and every other number decodes to \<open>Bad\<close>.\<close>

theorem op_decode_numbering:
  "op_from_u32 w = (if unat w < 282 then ALL_ops ! unat w else BadOp Bad) \<and>
   op_num (op_from_u32 w) = min (unat w) 282 \<and>
   (op_num p < 282 \<longrightarrow> op_from_u32 (of_nat (op_num p)) = p)"
proof -
  have "op_from_u32 (of_nat (op_num p)) = p" if "op_num p < 282"
    using that ALL_ops_num [of p] unat_of_nat_small [of "op_num p", where 'a = 32]
    by (simp add: op_from_u32_def NUM_REAL_def)
  then show ?thesis
    using op_num_from_u32 [of w] by (auto simp: op_from_u32_def NUM_REAL_def min_def)
qed

theorem op_decode_numbering_witness:
  "op_from_u32 (of_nat (op_num (Arith MulV))) = Arith MulV"
  using op_decode_numbering [of 0 "Arith MulV"] by simp

end
