(* ===== verification/Progs.thy ===== *)
theory Progs
  imports Bytes Values Opcode
begin

text \<open>
  A loaded program in canonical form (\<open>src/progs/mod.rs\<close>): statements, function records, global and
  field definitions, and the lookups by name and by index.  Hash maps are finite maps.
\<close>

section \<open>Program data\<close>

datatype (plugins only: code size) progs_format = QTest | V6 | Fte16 | Fte32 | Kk7 | UHexen2

definition has_16bit_statements :: "progs_format \<Rightarrow> bool" where
  "has_16bit_statements f \<longleftrightarrow> f = QTest \<or> f = V6 \<or> f = Fte16"

record qdef =
  d_ty :: qc_type
  d_ofs :: u32
  d_name :: u32
  d_save :: bool
  d_shared :: bool

record def_info =
  di_name :: bytes
  di_ty :: qc_type
  di_offset :: u32
  di_save :: bool
  di_shared :: bool

datatype (plugins only: code size) invalid_function = EntryOutOfRange | LocalsOutOfRange

datatype (plugins only: code size) function_kind =
  FNull | FQuakeC u32 | FBuiltin u32 | FNamedBuiltin | FInvalid invalid_function

record param_copy =
  pc_src :: u32
  pc_dst :: u32

record qfunction =
  f_kind :: function_kind
  f_parm_start :: u32
  f_locals :: u32
  f_num_parms :: u32
  f_parm_sizes :: "u8 list"
  f_copies_start :: u32
  f_copies_end :: u32
  f_name :: u32
  f_file :: u32

record function_info =
  fi_index :: u32
  fi_name :: bytes
  fi_file :: bytes
  fi_kind :: function_kind
  fi_parm_start :: u32
  fi_locals :: u32
  fi_num_parms :: u32
  fi_parm_sizes :: "u8 list"

definition STMT_BREAKPOINT :: u16 where "STMT_BREAKPOINT = 1"

record stmt =
  st_op :: op
  st_flags :: u16
  st_a :: u32
  st_b :: u32
  st_c :: u32

datatype (plugins only: code size) load_note =
  AssumedKk7 u32 | Hexen2Calls | PoisonedStatement u32 u32 | JumpOutOfRangeNote u32
| InvalidFunctionNote u32 invalid_function | TypesIgnored | LineNumbersIgnored | BodylessIgnored

datatype (plugins only: code size) load_error =
  Truncated | UnsupportedVersion u32 | Compressed u32 | SectionOutOfBounds string
| LineNumbers string | NamesTooLarge

record special_globals =
  sg_thisprogs :: "u32 option"
  sg_fasttrackarrays :: "u32 option"

record program =
  p_format :: progs_format
  p_version :: u32
  p_crc :: u32
  p_strings :: bytes
  p_globals :: "u32 list"
  p_statements :: "stmt list"
  p_file_statements :: u32
  p_functions :: "qfunction list"
  p_param_copies :: "param_copy list"
  p_global_defs :: "qdef list"
  p_field_defs :: "qdef list"
  p_entity_fields :: u32
  p_functions_by_name :: "bytes \<rightharpoonup> u32"
  p_globals_by_name :: "bytes \<rightharpoonup> u32"
  p_fields_by_name :: "bytes \<rightharpoonup> u32"
  p_global_name_by_ofs :: "u32 \<rightharpoonup> u32"
  p_bodyless :: "bytes list"
  p_pointer_relocs :: "u32 list"
  p_special :: special_globals
  p_line_numbers :: "u32 list option"
  p_notes :: "load_note list"

section \<open>Lookups\<close>

text \<open>\<open>u32::try_from(len).unwrap_or(u32::MAX)\<close>.\<close>

definition len32 :: "'a list \<Rightarrow> u32" where
  "len32 xs = (if length xs < 2 ^ 32 then of_nat (length xs) else - 1)"

definition num_globals :: "program \<Rightarrow> u32" where
  "num_globals p = len32 (p_globals p)"

definition num_functions :: "program \<Rightarrow> u32" where
  "num_functions p = len32 (p_functions p)"

definition string_at :: "program \<Rightarrow> u32 \<Rightarrow> bytes" where
  "string_at p off = cstr_at (p_strings p) (unat off)"

definition initial_global :: "program \<Rightarrow> u32 \<Rightarrow> u32 option" where
  "initial_global p i = nth_opt (p_globals p) (unat i)"

definition global_def_raw :: "program \<Rightarrow> bytes \<Rightarrow> qdef option" where
  "global_def_raw p name =
     Option.bind (p_globals_by_name p name) (\<lambda>i. nth_opt (p_global_defs p) (unat i))"

definition field_def_raw :: "program \<Rightarrow> bytes \<Rightarrow> qdef option" where
  "field_def_raw p name =
     Option.bind (p_fields_by_name p name) (\<lambda>i. nth_opt (p_field_defs p) (unat i))"

definition make_def_info :: "program \<Rightarrow> qdef \<Rightarrow> def_info" where
  "make_def_info p d =
     \<lparr>di_name = string_at p (d_name d), di_ty = d_ty d, di_offset = d_ofs d, di_save = d_save d,
      di_shared = d_shared d\<rparr>"

definition global_def :: "program \<Rightarrow> bytes \<Rightarrow> def_info option" where
  "global_def p name = map_option (make_def_info p) (global_def_raw p name)"

definition field_def :: "program \<Rightarrow> bytes \<Rightarrow> def_info option" where
  "field_def p name = map_option (make_def_info p) (field_def_raw p name)"

definition global_defs :: "program \<Rightarrow> def_info list" where
  "global_defs p = map (make_def_info p) (p_global_defs p)"

definition field_defs :: "program \<Rightarrow> def_info list" where
  "field_defs p = map (make_def_info p) (p_field_defs p)"

text \<open>A function-typed global of that name takes precedence over the function table.\<close>

definition function_index :: "program \<Rightarrow> bytes \<Rightarrow> u32 option" where
  "function_index p name =
     (case (case global_def_raw p name of
              None \<Rightarrow> None
            | Some d \<Rightarrow>
                if d_ty d = TFunction then
                  (case initial_global p (d_ofs d) of
                     None \<Rightarrow> None
                   | Some v \<Rightarrow>
                       if v \<noteq> 0 \<and> nth_opt (p_functions p) (unat v) \<noteq> None then Some v else None)
                else None) of
        Some v \<Rightarrow> Some v
      | None \<Rightarrow> p_functions_by_name p name)"

definition program_function :: "program \<Rightarrow> u32 \<Rightarrow> function_info option" where
  "program_function p i =
     map_option (\<lambda>f. \<lparr>fi_index = i, fi_name = string_at p (f_name f), fi_file = string_at p (f_file f),
         fi_kind = f_kind f, fi_parm_start = f_parm_start f, fi_locals = f_locals f,
         fi_num_parms = f_num_parms f, fi_parm_sizes = f_parm_sizes f\<rparr>)
       (nth_opt (p_functions p) (unat i))"

definition program_functions :: "program \<Rightarrow> function_info list" where
  "program_functions p =
     List.map_filter (\<lambda>i. program_function p (of_nat i)) [0..<unat (num_functions p)]"

definition global_name_at :: "program \<Rightarrow> u32 \<Rightarrow> bytes option" where
  "global_name_at p off =
     (if off = 0 then None
      else Option.bind (p_global_name_by_ofs p off) (\<lambda>i.
        map_option (\<lambda>d. string_at p (d_name d)) (nth_opt (p_global_defs p) (unat i))))"

record auto_cvar =
  ac_name :: bytes
  ac_global :: def_info
  ac_default :: "u32 list"

text \<open>The prefix \<open>b"autocvar_"\<close>.\<close>

definition autocvar_prefix :: bytes where
  "autocvar_prefix = [97, 117, 116, 111, 99, 118, 97, 114, 95]"

definition strip_prefix :: "'a list \<Rightarrow> 'a list \<Rightarrow> 'a list option" where
  "strip_prefix pre xs =
     (if take (length pre) xs = pre then Some (drop (length pre) xs) else None)"

definition autocvars :: "program \<Rightarrow> auto_cvar list" where
  "autocvars p = List.map_filter (\<lambda>d.
     Option.bind (strip_prefix autocvar_prefix (di_name d)) (\<lambda>cvar.
       let ws = (case type_words (di_ty d) of Some n \<Rightarrow> n | None \<Rightarrow> 1);
           start = unat (di_offset d)
       in map_option (\<lambda>def. \<lparr>ac_name = cvar, ac_global = d, ac_default = def\<rparr>)
            (slice (p_globals p) start (start + unat ws)))) (global_defs p)"

definition is_builtin_kind :: "function_kind \<Rightarrow> bool" where
  "is_builtin_kind k = (case k of FBuiltin _ \<Rightarrow> True | FNamedBuiltin \<Rightarrow> True | _ \<Rightarrow> False)"

definition called_builtins :: "program \<Rightarrow> u32 list" where
  "called_builtins p =
     remdups_adj (sort (filter
       (\<lambda>i. case nth_opt (p_functions p) (unat i) of
              Some f \<Rightarrow> is_builtin_kind (f_kind f) | None \<Rightarrow> False)
       (map (\<lambda>v. v AND 0x00FFFFFF)
         (List.map_filter (\<lambda>st. initial_global p (st_a st div 4))
           (filter (\<lambda>st. call_argc (st_op st) \<noteq> None) (p_statements p))))))"

definition source_line :: "program \<Rightarrow> u32 \<Rightarrow> u32 option" where
  "source_line p i = Option.bind (p_line_numbers p) (\<lambda>ls. nth_opt ls (unat i))"

definition func :: "program \<Rightarrow> u32 \<Rightarrow> qfunction option" where
  "func p i = nth_opt (p_functions p) (unat i)"

definition copies :: "program \<Rightarrow> qfunction \<Rightarrow> param_copy list" where
  "copies p f =
     (case slice (p_param_copies p) (unat (f_copies_start f)) (unat (f_copies_end f)) of
        Some cs \<Rightarrow> cs | None \<Rightarrow> [])"

section \<open>Checked programs\<close>

text \<open>
  What the loader guarantees of a program and the VM relies on: operands name one of \<open>limit\<close> words (the
  globals and the three words after them), jumps go to one of the \<open>count\<close> statements of the file or to
  the sentinel after them, and functions start in the file's statements and keep their locals and
  parameters in the globals.
\<close>

definition sentinel :: stmt where
  "sentinel = \<lparr>st_op = BadOp JumpOutOfRangeOp, st_flags = 0, st_a = 0, st_b = 0, st_c = 0\<rparr>"

definition word_checked :: "nat \<Rightarrow> nat \<Rightarrow> operand \<Rightarrow> u32 \<Rightarrow> bool" where
  "word_checked limit count k w \<longleftrightarrow>
     (case k of
        Global \<Rightarrow> unat w < limit * 4 \<and> unat w mod 4 = 0
      | Unused \<Rightarrow> unat w < limit * 4 \<and> unat w mod 4 = 0
      | GlobalIndex \<Rightarrow> unat w < limit
      | Jump \<Rightarrow> unat w \<le> count
      | Immediate \<Rightarrow> True)"

definition stmt_checked :: "nat \<Rightarrow> nat \<Rightarrow> stmt \<Rightarrow> bool" where
  "stmt_checked limit count st \<longleftrightarrow>
     (case operands (st_op st) of (ka, kb, kc) \<Rightarrow>
        word_checked limit count ka (st_a st) \<and> word_checked limit count kb (st_b st) \<and>
        word_checked limit count kc (st_c st))"

definition copy_checked :: "nat \<Rightarrow> param_copy \<Rightarrow> bool" where
  "copy_checked limit cp \<longleftrightarrow> unat (pc_src cp) < limit * 4 \<and> unat (pc_dst cp) < limit * 4"

definition function_checked :: "nat \<Rightarrow> nat \<Rightarrow> qfunction \<Rightarrow> bool" where
  "function_checked limit count f \<longleftrightarrow>
     (case f_kind f of
        FQuakeC entry \<Rightarrow> 0 < unat entry \<and> unat entry < count \<and>
          unat (f_parm_start f) + unat (f_locals f) \<le> limit
      | _ \<Rightarrow> True)"

definition program_checked :: "program \<Rightarrow> bool" where
  "program_checked p \<longleftrightarrow>
     (let limit = length (p_globals p) + 3; count = unat (p_file_statements p)
      in length (p_globals p) < 2 ^ 32 \<and>
         length (p_statements p) = count + 1 \<and> last (p_statements p) = sentinel \<and>
         list_all (stmt_checked limit count) (p_statements p) \<and>
         list_all (function_checked limit count) (p_functions p) \<and>
         list_all (copy_checked limit) (p_param_copies p))"

section \<open>Facts about lookups\<close>

lemma len32_unat: "length xs < 2 ^ 32 \<Longrightarrow> unat (len32 xs) = length xs"
  by (simp add: len32_def unat_of_nat_small)

lemma length_program_functions:
  assumes "length (p_functions p) < 2 ^ 32"
  shows "length (program_functions p) = length (p_functions p)"
proof -
  have n: "unat (num_functions p) = length (p_functions p)"
    using assms by (simp add: num_functions_def len32_unat)
  have "program_function p (of_nat i) \<noteq> None" if "i < length (p_functions p)" for i
    using that assms by (simp add: program_function_def nth_opt_def unat_of_nat_small)
  then have "length (List.map_filter (\<lambda>i. program_function p (of_nat i)) [0..<k]) = k"
    if "k \<le> length (p_functions p)" for k
    using that by (simp add: List.map_filter_def filter_id_conv)
  then show ?thesis by (simp add: program_functions_def n)
qed

lemma set_filter_map: "set (List.map_filter f xs) = {y. \<exists>x \<in> set xs. f x = Some y}"
  by (induction xs) (auto simp: List.map_filter_simps split: option.splits)

lemma distinct_dedup: "sorted xs \<Longrightarrow> distinct (remdups_adj (xs :: 'a::linorder list))"
proof (induction xs rule: remdups_adj.induct)
  case (3 x y xs)
  then show ?case by (cases "x = y") (auto simp: order.order_iff_strict)
qed simp_all

text \<open>The builtins a program reports as called are real builtin records of its function table,
  listed once each in increasing order, and every call whose operand initially holds one is listed.\<close>

theorem called_builtins_sound:
  "sorted (called_builtins p) \<and> distinct (called_builtins p) \<and>
   (\<forall>i. i \<in> set (called_builtins p) \<longleftrightarrow>
      (\<exists>st v f. st \<in> set (p_statements p) \<and> call_argc (st_op st) \<noteq> None \<and>
         initial_global p (st_a st div 4) = Some v \<and> i = v AND 0x00FFFFFF \<and>
         nth_opt (p_functions p) (unat i) = Some f \<and> is_builtin_kind (f_kind f)))"
proof -
  have "sorted (called_builtins p)" "distinct (called_builtins p)"
    by (simp_all add: called_builtins_def sorted_remdups_adj distinct_dedup)
  moreover have "i \<in> set (called_builtins p) \<longleftrightarrow>
      (\<exists>st v f. st \<in> set (p_statements p) \<and> call_argc (st_op st) \<noteq> None \<and>
         initial_global p (st_a st div 4) = Some v \<and> i = v AND 0x00FFFFFF \<and>
         nth_opt (p_functions p) (unat i) = Some f \<and> is_builtin_kind (f_kind f))" (is "_ \<longleftrightarrow> ?R") for i
  proof -
    have "i \<in> set (called_builtins p) \<longleftrightarrow>
        (\<exists>v. (\<exists>st. st \<in> set (p_statements p) \<and> call_argc (st_op st) \<noteq> None \<and>
           initial_global p (st_a st div 4) = Some v) \<and> i = v AND 0x00FFFFFF) \<and>
        (\<exists>f. nth_opt (p_functions p) (unat i) = Some f \<and> is_builtin_kind (f_kind f))"
      by (cases "nth_opt (p_functions p) (unat i)")
        (auto simp: called_builtins_def set_filter_map image_iff)
    also have "\<dots> \<longleftrightarrow> ?R" by blast
    finally show ?thesis .
  qed
  ultimately show ?thesis by blast
qed

end
