(* ===== verification/Config.thy ===== *)
theory Config
  imports Bytes
begin

text \<open>
  VM configuration and resource limits (\<open>src/vm/config.rs\<close>).  Strings are their ASCII bytes, a
  float is its bit pattern, a deadline its nanoseconds.
\<close>

definition ascii :: "string \<Rightarrow> bytes" where
  "ascii s = map of_char s"

record limits =
  l_max_edicts :: u32
  l_local_stack_words :: u32
  l_call_depth :: u32
  l_runaway :: u32
  l_deadline :: "nat option"
  l_reentry :: u32
  l_heap_bytes :: u32
  l_temp_strings :: nat
  l_temp_string_bytes :: nat
  l_progs_area_bytes :: u32
  l_progs :: u32
  l_threads :: u32
  l_thread_bytes :: nat
  l_string_buffers :: u32
  l_string_buffer_entries :: u32
  l_hash_tables :: u32
  l_container_bytes :: nat
  l_warnings_per_call :: u32

definition default_limits :: limits where
  "default_limits =
     \<lparr>l_max_edicts = 65536, l_local_stack_words = 2 ^ 20, l_call_depth = 1024,
      l_runaway = 100000000, l_deadline = None, l_reentry = 64, l_heap_bytes = 64 * 2 ^ 20,
      l_temp_strings = 2 ^ 20, l_temp_string_bytes = 256 * 2 ^ 20,
      l_progs_area_bytes = 16 * 2 ^ 20, l_progs = 16, l_threads = 1024,
      l_thread_bytes = 16 * 2 ^ 20, l_string_buffers = 1024, l_string_buffer_entries = 2 ^ 20,
      l_hash_tables = 1024, l_container_bytes = 64 * 2 ^ 20, l_warnings_per_call = 64\<rparr>"

datatype (plugins only: code size) char_scheme = QuakeChars | Utf8Chars | Iso8859_1Chars

record charset =
  cs_utf8 :: bool
  cs_scheme :: char_scheme

record fte_compat =
  fc_ne_s_raw_strcmp :: bool
  fc_load_i64_zero3 :: bool
  fc_switch_reset_on_call :: bool

datatype (plugins only: code size) vm_kind = Csqc | Ssqc | Menu

record spawn_default =
  sd_field :: bytes
  sd_global :: "bytes option"
  sd_value :: u32

record vm_config =
  g_kind :: vm_kind
  g_limits :: limits
  g_charset :: charset
  g_developer :: bool
  g_seed :: u64
  g_state_step :: u32
  g_remove_clears :: "bytes list"
  g_spawn_defaults :: "spawn_default list"
  g_first_spawnable :: u32
  g_field_reserve_bytes :: u32
  g_shared_globals :: "bytes list"
  g_compat :: fte_compat

definition config_base :: "vm_kind \<Rightarrow> string list \<Rightarrow> vm_config" where
  "config_base kind clears =
     \<lparr>g_kind = kind, g_limits = default_limits,
      g_charset = \<lparr>cs_utf8 = False, cs_scheme = QuakeChars\<rparr>, g_developer = False,
      g_seed = 0x5EED0FC5C0DE, g_state_step = 0x3DCCCCCD, g_remove_clears = map ascii clears,
      g_spawn_defaults = [], g_first_spawnable = 0, g_field_reserve_bytes = 256,
      g_shared_globals = map ascii [''self'', ''other'', ''time'', ''frametime''],
      g_compat = \<lparr>fc_ne_s_raw_strcmp = False, fc_load_i64_zero3 = False,
        fc_switch_reset_on_call = False\<rparr>\<rparr>"

definition config_csqc :: vm_config where
  "config_csqc =
     (config_base Csqc [''solid'', ''movetype'', ''modelindex'', ''think'', ''nextthink'',
        ''predraw'', ''drawmask'', ''renderflags''])
     \<lparr>g_spawn_defaults :=
        map (\<lambda>field. \<lparr>sd_field = ascii field, sd_global = Some (ascii ''dimension_default''),
               sd_value = 0x437F0000\<rparr>) [''dimension_solid'', ''dimension_hit'']\<rparr>"

definition config_ssqc :: vm_config where
  "config_ssqc = config_base Ssqc [''model'', ''modelindex'', ''solid'', ''classname'']"

definition config_menu :: vm_config where
  "config_menu = config_base Menu []"

end
