(* ===== verification/VmCore.thy ===== *)
theory VmCore
  imports Config Progs Memory Strings
begin

text \<open>
  The state of a virtual machine (\<open>src/vm/core.rs\<close>): registers, saved frames, loaded progs with
  their relocated code, the field layout, the random number generator and the record \<open>core\<close> of
  everything the interpreter touches.  The state of the standard builtins is the type parameter
  \<open>'s\<close>: no operation of this library looks inside it.  Host references (\<open>Arc\<close>, \<open>Box\<close>) are values.
\<close>

section \<open>Registers and frames\<close>

definition NO_FUNCTION :: u32 where "NO_FUNCTION = - 1"
definition OFS_RETURN :: nat where "OFS_RETURN = 4"
definition OFS_PARM0 :: nat where "OFS_PARM0 = 16"
definition OFS_PARM1 :: nat where "OFS_PARM1 = 28"

text \<open>The size statements are padded to (\<open>interp::CODE_WINDOW\<close>).\<close>

definition CODE_WINDOW :: nat where "CODE_WINDOW = 2 ^ 16"

datatype (plugins only: code size) switch_kind = SwFloat | SwVector | SwString | SwInt

record exec =
  x_pc :: u32
  x_func :: u32
  x_prnum :: u8
  x_pushed :: u32
  x_ls_top :: u32
  x_switch_ref :: u32
  x_switch_kind :: switch_kind
  x_locals_addr :: u32
  x_locals_words :: u32

definition exec_default :: exec where
  "exec_default =
     \<lparr>x_pc = 0, x_func = NO_FUNCTION, x_prnum = 0, x_pushed = 0, x_ls_top = 0, x_switch_ref = 0,
      x_switch_kind = SwFloat, x_locals_addr = 0, x_locals_words = 0\<rparr>"

record frame =
  fr_resume_pc :: u32
  fr_func :: u32
  fr_prnum :: u8
  fr_pushed :: u32
  fr_switch_ref :: u32
  fr_switch_kind :: switch_kind
  fr_locals_at :: u32
  fr_locals_addr :: u32
  fr_locals_words :: u32

section \<open>Loaded progs\<close>

record qc_func =
  q_entry :: u32
  q_locals_addr :: u32
  q_locals_words :: u32
  q_copies_start :: u32
  q_copies_end :: u32

datatype (plugins only: code size) callee =
  CNull | CQc | CBuiltin u32 | CMissing | CInvalid

record state_handles =
  h_self_g :: "u32 option"
  h_time_g :: "u32 option"
  h_cycle_wrapped_g :: "u32 option"
  h_frame_f :: "u32 option"
  h_think_f :: "u32 option"
  h_nextthink_f :: "u32 option"
  h_weaponframe_f :: "u32 option"

text \<open>A global kept in sync between progs (\<open>src/vm/multiprogs.rs\<close>).\<close>

record shared_global =
  sh_offset :: u32
  sh_words :: u32

record shared_table =
  sh_names :: "bytes list"
  sh_by_name :: "bytes \<rightharpoonup> nat"

record progs_state =
  ps_program :: program
  ps_gbase :: u32
  ps_code :: "stmt list"
  ps_callees :: "callee list"
  ps_funcs :: "qc_func option list"
  ps_copies :: "param_copy list"
  ps_state :: state_handles
  ps_shared :: "shared_global option list"

definition pad_code :: "stmt list \<Rightarrow> stmt list" where
  "pad_code code =
     (if CODE_WINDOW \<le> length code then code
      else code @ replicate (CODE_WINDOW - length code) sentinel)"

definition relocate_stmt :: "u32 \<Rightarrow> stmt \<Rightarrow> stmt" where
  "relocate_stmt gbase st =
     (case operands (st_op st) of (ka, kb, kc) \<Rightarrow>
        let at = (\<lambda>kind v. if is_relocated kind then v + gbase else v)
        in st\<lparr>st_a := at ka (st_a st), st_b := at kb (st_b st), st_c := at kc (st_c st)\<rparr>)"

definition relocate :: "program \<Rightarrow> u32 \<Rightarrow> stmt list" where
  "relocate p gbase = map (relocate_stmt gbase) (p_statements p)"

text \<open>
  The call information of one function and the parameter copies so far; \<open>u32::try_from(copies.len())\<close>
  fails past \<open>2 ^ 32\<close> copies.
\<close>

definition len_u32 :: "'a list \<Rightarrow> u32 option" where
  "len_u32 xs = (if length xs < 2 ^ 32 then Some (of_nat (length xs)) else None)"

definition load_func ::
  "program \<Rightarrow> u32 \<Rightarrow> qfunction \<Rightarrow> param_copy list \<Rightarrow> param_copy list \<times> qc_func option" where
  "load_func p gbase f cs =
     (case f_kind f of
        FQuakeC entry \<Rightarrow>
          (case len_u32 cs of
             None \<Rightarrow> (cs, None)
           | Some start \<Rightarrow>
               (let cs' = cs @ map (\<lambda>c. \<lparr>pc_src = pc_src c + gbase, pc_dst = pc_dst c + gbase\<rparr>)
                                 (copies p f)
                in (cs',
                    map_option (\<lambda>fin.
                      \<lparr>q_entry = entry, q_locals_addr = gbase + f_parm_start f * 4,
                       q_locals_words = f_locals f, q_copies_start = start, q_copies_end = fin\<rparr>)
                      (len_u32 cs'))))
      | _ \<Rightarrow> (cs, None))"

primrec load_funcs ::
  "program \<Rightarrow> u32 \<Rightarrow> qfunction list \<Rightarrow> param_copy list \<Rightarrow> param_copy list \<times> qc_func option list" where
  "load_funcs p gbase [] cs = (cs, [])"
| "load_funcs p gbase (f # fs) cs =
     (case load_func p gbase f cs of (cs', q) \<Rightarrow>
        case load_funcs p gbase fs cs' of (cs'', qs) \<Rightarrow> (cs'', q # qs))"

definition progs_state_new :: "program \<Rightarrow> u32 \<Rightarrow> callee list \<Rightarrow> state_handles \<Rightarrow> progs_state" where
  "progs_state_new p gbase callees st =
     (case load_funcs p gbase (p_functions p) [] of (cs, qs) \<Rightarrow>
        \<lparr>ps_program = p, ps_gbase = gbase, ps_code = pad_code (relocate p gbase),
         ps_callees = callees, ps_funcs = qs, ps_copies = cs, ps_state = st, ps_shared = []\<rparr>)"

definition ps_num_globals :: "progs_state \<Rightarrow> u32" where
  "ps_num_globals ps = num_globals (ps_program ps)"

section \<open>The field layout\<close>

record field_entry =
  fe_name :: bytes
  fe_ty :: qc_type
  fe_ofs :: u32

record field_table =
  ft_entries :: "field_entry list"
  ft_by_name :: "bytes \<rightharpoonup> nat"
  ft_words :: u32

definition field_get :: "field_table \<Rightarrow> bytes \<Rightarrow> field_entry option" where
  "field_get t name = Option.bind (ft_by_name t name) (nth_opt (ft_entries t))"

definition field_push :: "field_table \<Rightarrow> bytes \<Rightarrow> qc_type \<Rightarrow> u32 \<Rightarrow> field_table" where
  "field_push t name ty ofs =
     (let index = length (ft_entries t);
          t' = t\<lparr>ft_entries := ft_entries t @ [\<lparr>fe_name = name, fe_ty = ty, fe_ofs = ofs\<rparr>]\<rparr>
      in if name = [] then t'
         else (case ft_by_name t name of
                 Some _ \<Rightarrow> t'
               | None \<Rightarrow> t'\<lparr>ft_by_name := (ft_by_name t)(name \<mapsto> index)\<rparr>))"

section \<open>Random numbers\<close>

text \<open>SplitMix64: the state is the counter.\<close>

definition rng_mix :: "u64 \<Rightarrow> u64" where
  "rng_mix z =
     (let z = (z XOR drop_bit 30 z) * 0xBF58476D1CE4E5B9;
          z = (z XOR drop_bit 27 z) * 0x94D049BB133111EB
      in z XOR drop_bit 31 z)"

definition next_u64 :: "u64 \<Rightarrow> u64 \<times> u64" where
  "next_u64 s = (let s' = s + 0x9E3779B97F4A7C15 in (s', rng_mix s'))"

definition rand15 :: "u64 \<Rightarrow> u64 \<times> u32" where
  "rand15 s = (case next_u64 s of (s', z) \<Rightarrow> (s', ucast (drop_bit 33 z AND 0x7FFF)))"

section \<open>Threads and the core\<close>

text \<open>The data of a suspended thread (\<open>src/vm/threads.rs\<close>).\<close>

record activation =
  a_prnum :: u8
  a_func :: u32
  a_pc :: u32
  a_pushed :: u32
  a_switch_ref :: u32
  a_switch_kind :: switch_kind

record thread =
  t_wake :: u32
  t_chain :: "activation list"
  t_data :: bytes
  t_stack_len :: nat
  t_locals :: "(nat \<times> nat) list"
  t_resume :: "u32 \<times> u32 \<times> u32"
  t_selves :: "(nat \<times> u32 \<times> u32) option list"

record spawn_fill =
  sf_field :: u32
  sf_global :: "nat option"
  sf_value :: u32

record 's core =
  c_mem :: memory
  c_strings :: strings
  c_progs :: "progs_state list"
  c_fields :: field_table
  c_frames :: "frame list"
  c_x :: exec
  c_argc :: u32
  c_builtin :: u32
  c_nesting :: u32
  c_rng :: u64
  c_config :: vm_config
  c_warnings :: "warning list"
  c_warnings_this_call :: u32
  c_suppressed :: u32
  c_trace :: bool
  c_traced :: bool
  c_poisoned :: bool
  c_remove_clears :: "u32 list"
  c_spawn_defaults :: "spawn_fill list"
  c_std :: 's
  c_abort_ret :: "(u32 \<times> u32 \<times> u32) option"
  c_shared :: shared_table
  c_entry_depth :: nat
  c_threads :: "thread list"

text \<open>The frame stack is a list whose last element is the top, as the \<open>Vec\<close>.\<close>

definition core_progs_at :: "'s core \<Rightarrow> u8 \<Rightarrow> progs_state option" where
  "core_progs_at c pr = nth_opt (c_progs c) (unat pr)"

definition global_offset :: "'s core \<Rightarrow> u8 \<Rightarrow> u32 \<Rightarrow> nat option" where
  "global_offset c pr wd =
     map_option (\<lambda>ps. unat (ps_gbase ps) + unat wd * 4) (core_progs_at c pr)"

definition core_gbase :: "'s core \<Rightarrow> nat" where
  "core_gbase c =
     (case core_progs_at c (x_prnum (c_x c)) of Some ps \<Rightarrow> unat (ps_gbase ps) | None \<Rightarrow> 0)"

definition apply_spawn_defaults :: "'s core \<Rightarrow> u32 \<Rightarrow> 's core" where
  "apply_spawn_defaults c e =
     c\<lparr>c_mem := foldl (\<lambda>m d.
         let v = (case sf_global d of Some at \<Rightarrow> mem_g m at | None \<Rightarrow> sf_value d)
         in (case field_offset m e (sf_field d) 1 of
               Some at \<Rightarrow> set_ent_word m at v
             | None \<Rightarrow> m)) (c_mem c) (c_spawn_defaults c)\<rparr>"

section \<open>Facts\<close>

lemma unat_len_u32: "len_u32 xs = Some n \<Longrightarrow> unat n = length xs"
  by (auto simp: len_u32_def unat_of_nat_small split: if_splits)

lemma length_pad_code [simp]: "length (pad_code code) = max CODE_WINDOW (length code)"
  by (auto simp: pad_code_def)

lemma relocate_op [simp]: "st_op (relocate_stmt gb st) = st_op st"
  by (simp add: relocate_stmt_def split: prod.splits)

definition reloc_copy :: "u32 \<Rightarrow> param_copy \<Rightarrow> param_copy" where
  "reloc_copy gb c = \<lparr>pc_src = pc_src c + gb, pc_dst = pc_dst c + gb\<rparr>"

lemma load_func_prefix: "\<exists>t. fst (load_func p gb f cs) = cs @ t"
  by (auto simp: load_func_def Let_def split: function_kind.splits option.splits)

lemma load_funcs_prefix: "\<exists>t. fst (load_funcs p gb fs cs) = cs @ t"
proof (induction fs arbitrary: cs)
  case (Cons f fs)
  obtain cs' q where l: "load_func p gb f cs = (cs', q)" by (cases "load_func p gb f cs")
  obtain t where "cs' = cs @ t" using load_func_prefix [of p gb f cs] l by auto
  moreover obtain t' where "fst (load_funcs p gb fs cs') = cs' @ t'" using Cons.IH by blast
  ultimately show ?case by (auto simp: l split: prod.splits)
qed simp

lemma load_funcs_length [simp]: "length (snd (load_funcs p gb fs cs)) = length fs"
proof (induction fs arbitrary: cs)
  case (Cons f fs)
  obtain cs' q where l: "load_func p gb f cs = (cs', q)" by (cases "load_func p gb f cs")
  show ?case using Cons.IH [of cs'] by (auto simp: l split: prod.splits)
qed simp

lemma load_func_some:
  assumes "load_func p gb f cs = (cs', Some q)"
  shows "f_kind f = FQuakeC (q_entry q) \<and> q_locals_addr q = gb + f_parm_start f * 4 \<and>
    q_locals_words q = f_locals f \<and>
    slice (cs' @ t) (unat (q_copies_start q)) (unat (q_copies_end q)) =
      Some (map (reloc_copy gb) (copies p f))"
proof -
  from assms obtain entry st fin where k: "f_kind f = FQuakeC entry"
    and a: "len_u32 cs = Some st" and cs': "cs' = cs @ map (reloc_copy gb) (copies p f)"
    and b: "len_u32 cs' = Some fin"
    and q: "q = \<lparr>q_entry = entry, q_locals_addr = gb + f_parm_start f * 4,
        q_locals_words = f_locals f, q_copies_start = st, q_copies_end = fin\<rparr>"
    by (auto simp: load_func_def Let_def reloc_copy_def [abs_def]
        split: function_kind.splits option.splits)
  have "slice (cs' @ t) (length cs) (length cs') = Some (map (reloc_copy gb) (copies p f))"
    by (simp add: slice_def cs')
  then show ?thesis by (simp add: k q unat_len_u32 [OF a] unat_len_u32 [OF b])
qed

lemma load_funcs_nth:
  assumes "i < length fs" "snd (load_funcs p gb fs cs) ! i = Some q"
  shows "f_kind (fs ! i) = FQuakeC (q_entry q) \<and>
    q_locals_addr q = gb + f_parm_start (fs ! i) * 4 \<and> q_locals_words q = f_locals (fs ! i) \<and>
    slice (fst (load_funcs p gb fs cs)) (unat (q_copies_start q)) (unat (q_copies_end q)) =
      Some (map (reloc_copy gb) (copies p (fs ! i)))"
  using assms
proof (induction fs arbitrary: i cs)
  case (Cons f fs)
  obtain cs' r where l: "load_func p gb f cs = (cs', r)" by (cases "load_func p gb f cs")
  obtain cs'' qs where ls: "load_funcs p gb fs cs' = (cs'', qs)" by (cases "load_funcs p gb fs cs'")
  show ?case
  proof (cases i)
    case 0
    obtain t where "cs'' = cs' @ t" using load_funcs_prefix [of p gb fs cs'] ls by auto
    then show ?thesis using load_func_some [of p gb f cs cs' q t] Cons.prems 0 by (simp add: l ls)
  next
    case (Suc j)
    then show ?thesis using Cons.IH [of j cs'] Cons.prems by (simp add: l ls)
  qed
qed simp

text \<open>Loading a progs resolves every QuakeC function once and for all: its entry, the absolute
  address and size of its locals, and its slice of the copy list, which is the program's own copy
  list with both ends moved to absolute addresses.\<close>

theorem loaded_functions:
  assumes "i < length (p_functions p)"
    and "ps_funcs (progs_state_new p gb callees h) ! i = Some q"
  shows "f_kind (p_functions p ! i) = FQuakeC (q_entry q) \<and>
    q_locals_addr q = gb + f_parm_start (p_functions p ! i) * 4 \<and>
    q_locals_words q = f_locals (p_functions p ! i) \<and>
    slice (ps_copies (progs_state_new p gb callees h)) (unat (q_copies_start q))
      (unat (q_copies_end q)) =
      Some (map (\<lambda>c. \<lparr>pc_src = pc_src c + gb, pc_dst = pc_dst c + gb\<rparr>)
        (copies p (p_functions p ! i)))"
proof -
  obtain cs qs where l: "load_funcs p gb (p_functions p) [] = (cs, qs)"
    by (cases "load_funcs p gb (p_functions p) []")
  show ?thesis
    using load_funcs_nth [of i "p_functions p" p gb "[]" q] assms
    by (simp add: progs_state_new_def l reloc_copy_def [abs_def])
qed

text \<open>A program with one QuakeC function of one parameter and two locals.\<close>

definition sample_program :: program where
  "sample_program =
     \<lparr>p_format = V6, p_version = 6, p_crc = 0, p_strings = [0], p_globals = replicate 30 0,
      p_statements =
        [\<lparr>st_op = Ret Done, st_flags = 0, st_a = 0, st_b = 0, st_c = 0\<rparr>,
         \<lparr>st_op = Arith AddF, st_flags = 0, st_a = 112, st_b = 112, st_c = 116\<rparr>,
         \<lparr>st_op = Ret Done, st_flags = 0, st_a = 116, st_b = 0, st_c = 0\<rparr>, sentinel],
      p_file_statements = 3,
      p_functions =
        [\<lparr>f_kind = FNull, f_parm_start = 0, f_locals = 0, f_num_parms = 0, f_parm_sizes = [],
          f_copies_start = 0, f_copies_end = 0, f_name = 0, f_file = 0\<rparr>,
         \<lparr>f_kind = FQuakeC 1, f_parm_start = 28, f_locals = 2, f_num_parms = 1,
          f_parm_sizes = [1], f_copies_start = 0, f_copies_end = 1, f_name = 0, f_file = 0\<rparr>],
      p_param_copies = [\<lparr>pc_src = 16, pc_dst = 112\<rparr>], p_global_defs = [], p_field_defs = [],
      p_entity_fields = 1, p_functions_by_name = (\<lambda>_. None), p_globals_by_name = (\<lambda>_. None),
      p_fields_by_name = (\<lambda>_. None), p_global_name_by_ofs = (\<lambda>_. None), p_bodyless = [],
      p_pointer_relocs = [], p_special = \<lparr>sg_thisprogs = None, sg_fasttrackarrays = None\<rparr>,
      p_line_numbers = None, p_notes = []\<rparr>"

definition no_handles :: state_handles where
  "no_handles =
     \<lparr>h_self_g = None, h_time_g = None, h_cycle_wrapped_g = None, h_frame_f = None,
      h_think_f = None, h_nextthink_f = None, h_weaponframe_f = None\<rparr>"

text \<open>A small machine with that program loaded twice.\<close>

definition sample_mem :: memory where
  "sample_mem =
     \<lparr>ms = replicate 404 0, me = replicate 16 0, e_base = 512, stride_shift = 4, field_bytes = 4,
      max_edicts = 4,
      slots = [\<lparr>in_use = True, protected = False, freetime = 0, serial = 1\<rparr>],
      mheap = heap_new 64, h_base = 1024, ls_base = 320, ls_words = 20\<rparr>"

definition sample_progs :: "u32 \<Rightarrow> progs_state" where
  "sample_progs gb = progs_state_new sample_program gb [CNull, CQc] no_handles"

definition sample_core :: "unit core" where
  "sample_core =
     \<lparr>c_mem = sample_mem, c_strings = strings_new 4 64,
      c_progs = [sample_progs 64, sample_progs 192],
      c_fields = \<lparr>ft_entries = [], ft_by_name = (\<lambda>_. None), ft_words = 1\<rparr>, c_frames = [],
      c_x = exec_default, c_argc = 0, c_builtin = 0, c_nesting = 0, c_rng = 0,
      c_config = config_menu, c_warnings = [], c_warnings_this_call = 0, c_suppressed = 0,
      c_trace = False, c_traced = False, c_poisoned = False, c_remove_clears = [],
      c_spawn_defaults = [], c_std = (), c_abort_ret = None,
      c_shared = \<lparr>sh_names = [], sh_by_name = (\<lambda>_. None)\<rparr>, c_entry_depth = 0, c_threads = []\<rparr>"

lemma sample_mem_wf: "mem_wf sample_mem"
proof -
  have "unat (h_max (heap_new 64)) = 64" by (simp add: heap_new_def)
  then show ?thesis by (simp add: mem_wf_def sample_mem_def block_len_def heap_new_wf)
qed

lemma sample_progs_simps [simp]:
  "ps_program (sample_progs gb) = sample_program" "ps_gbase (sample_progs gb) = gb"
  "ps_callees (sample_progs gb) = [CNull, CQc]" "ps_shared (sample_progs gb) = []"
  "ps_state (sample_progs gb) = no_handles"
  "ps_funcs (sample_progs gb) = [None, Some \<lparr>q_entry = 1, q_locals_addr = gb + 112,
     q_locals_words = 2, q_copies_start = 0, q_copies_end = 1\<rparr>]"
  "ps_copies (sample_progs gb) = [\<lparr>pc_src = 16 + gb, pc_dst = 112 + gb\<rparr>]"
  by (simp_all add: sample_progs_def progs_state_new_def sample_program_def load_func_def
      len_u32_def copies_def slice_def)

theorem loaded_functions_witness:
  "slice (ps_copies (progs_state_new sample_program 64 [CNull, CQc] no_handles)) 0 1 =
     Some [\<lparr>pc_src = 80, pc_dst = 176\<rparr>]"
  using loaded_functions [of 1 sample_program 64 "[CNull, CQc]" no_handles
      "\<lparr>q_entry = 1, q_locals_addr = 176, q_locals_words = 2, q_copies_start = 0, q_copies_end = 1\<rparr>"]
  by (simp add: progs_state_new_def sample_program_def load_func_def len_u32_def copies_def
      slice_def)

lemma xorshift_inj:
  fixes x y :: u64
  assumes "0 < k" and e: "x XOR drop_bit k x = y XOR drop_bit k y"
  shows "x = y"
proof (rule bit_word_eqI)
  have bits: "(bit x i \<noteq> bit x (k + i)) = (bit y i \<noteq> bit y (k + i))" if "i < 64" for i
    using arg_cong [OF e, of "\<lambda>w. bit w i"] that by (simp add: bit_xor_iff bit_drop_bit_eq)
  have out: "\<not> bit x i" "\<not> bit y i" if "64 \<le> i" for i
    using that bit_imp_le_length [of x i] bit_imp_le_length [of y i] by auto
  fix i assume "i < LENGTH(64)"
  show "bit x i = bit y i"
  proof (induction "64 - i" arbitrary: i rule: less_induct)
    case less
    show ?case
    proof (cases "i < 64")
      case True
      then have "bit x (k + i) = bit y (k + i)" using less [of "k + i"] \<open>0 < k\<close> by simp
      then show ?thesis using bits [OF True] by blast
    qed (simp add: out)
  qed
qed

lemma odd_mult_inj:
  fixes x y c d :: u64
  assumes "c * d = 1" "x * c = y * c"
  shows "x = y"
proof -
  have "x * (c * d) = y * (c * d)" using assms(2) by (simp add: mult.assoc [symmetric])
  then show ?thesis by (simp add: assms(1))
qed

lemma rng_mix_inj: "rng_mix x = rng_mix y \<Longrightarrow> x = y"
proof -
  let ?a = "0xBF58476D1CE4E5B9 :: u64" and ?b = "0x94D049BB133111EB :: u64"
  assume "rng_mix x = rng_mix y"
  then have "(let u = (x XOR drop_bit 30 x) * ?a in (u XOR drop_bit 27 u) * ?b) =
      (let u = (y XOR drop_bit 30 y) * ?a in (u XOR drop_bit 27 u) * ?b)"
    unfolding rng_mix_def Let_def by (rule xorshift_inj [rotated]) simp
  then have "(x XOR drop_bit 30 x) * ?a XOR drop_bit 27 ((x XOR drop_bit 30 x) * ?a) =
      (y XOR drop_bit 30 y) * ?a XOR drop_bit 27 ((y XOR drop_bit 30 y) * ?a)"
    unfolding Let_def by (rule odd_mult_inj [rotated, where d = "0x319642b2d24d8ec3"]) simp
  then have "(x XOR drop_bit 30 x) * ?a = (y XOR drop_bit 30 y) * ?a"
    by (rule xorshift_inj [rotated]) simp
  then have "x XOR drop_bit 30 x = y XOR drop_bit 30 y"
    by (rule odd_mult_inj [rotated, where d = "0x96de1b173f119089"]) simp
  then show "x = y" by (rule xorshift_inj [rotated]) simp
qed

primrec draws :: "nat \<Rightarrow> u64 \<Rightarrow> u64" where
  "draws 0 s = s"
| "draws (Suc n) s = fst (next_u64 (draws n s))"

lemma draws_eq: "draws n s = s + of_nat n * 0x9E3779B97F4A7C15"
  by (induction n) (simp_all add: next_u64_def Let_def algebra_simps)

text \<open>The generator has full period: among \<open>2 ^ 64\<close> consecutive draws from any seed no value of
  \<open>next_u64\<close> occurs twice, and every 15-bit draw is below 32768.\<close>

theorem rng_full_period:
  "(i < 2 ^ 64 \<and> j < 2 ^ 64 \<and> snd (next_u64 (draws i s)) = snd (next_u64 (draws j s)) \<longrightarrow> i = j)
   \<and> unat (snd (rand15 s)) < 32768"
proof -
  have "i = j" if b: "i < 2 ^ 64" "j < 2 ^ 64"
    and e: "snd (next_u64 (draws i s)) = snd (next_u64 (draws j s))"
  proof -
    have "draws i s = draws j s" using e rng_mix_inj by (fastforce simp: next_u64_def Let_def)
    then have "(of_nat i :: u64) * 0x9E3779B97F4A7C15 = of_nat j * 0x9E3779B97F4A7C15"
      by (simp add: draws_eq)
    then have "(of_nat i :: u64) = of_nat j"
      by (rule odd_mult_inj [rotated, where d = "0xf1de83e19937733d"]) simp
    moreover have "unat (of_nat i :: u64) = i" "unat (of_nat j :: u64) = j"
      using b by (simp_all add: unat_of_nat_small)
    ultimately show "i = j" by metis
  qed
  moreover have "unat (snd (rand15 s)) < 32768"
  proof -
    let ?w = "drop_bit 33 (rng_mix (s + 0x9E3779B97F4A7C15))"
    have m: "(0x7FFF :: u64) = mask 15" by (simp add: mask_eq_exp_minus_1)
    have "unat (take_bit 15 ?w) = take_bit 15 (unat ?w)" by (simp only: unsigned_take_bit_eq)
    then have "unat (take_bit 15 ?w) < 2 ^ 15" by (metis take_bit_nat_less_exp)
    then have l: "unat (?w AND 0x7FFF) < 2 ^ 15" by (simp only: m take_bit_eq_mask)
    then have "unat (ucast (?w AND 0x7FFF) :: u32) = unat (?w AND 0x7FFF)"
      by (simp add: unsigned_ucast_eq take_bit_nat_eq_self)
    then show ?thesis using l by (simp add: rand15_def next_u64_def Let_def)
  qed
  ultimately show ?thesis by blast
qed

theorem rng_full_period_witness:
  "snd (next_u64 (draws 1 0)) \<noteq> snd (next_u64 (draws 2 0))"
  using rng_full_period [of 1 2 0] by simp

end
