(* ===== verification/Multiprogs.thy ===== *)
theory Multiprogs
  imports VmCore "HOL-Library.Product_Lexorder"
begin

text \<open>
  Several progs in one VM (\<open>src/vm/multiprogs.rs\<close>): the shared-global table, what is copied when
  execution switches between progs, live function lookup, the unification of entity fields and the
  linking of extern functions.  Loading a progs into a running VM (\<open>add_progs\<close>) is not modelled.
\<close>

definition PARM_WORDS :: nat where "PARM_WORDS = 24"
definition GLOBALS_TAIL_BYTES :: nat where "GLOBALS_TAIL_BYTES = 20"

section \<open>Shared globals\<close>

definition shared_slot :: "shared_table \<Rightarrow> bytes \<Rightarrow> shared_table \<times> nat" where
  "shared_slot t name =
     (case sh_by_name t name of
        Some slot \<Rightarrow> (t, slot)
      | None \<Rightarrow>
          (let slot = length (sh_names t)
           in (t\<lparr>sh_names := sh_names t @ [name], sh_by_name := (sh_by_name t)(name \<mapsto> slot)\<rparr>,
               slot)))"

definition global_at :: "program \<Rightarrow> u32 \<Rightarrow> bytes \<Rightarrow> u32 option" where
  "global_at p gbase name =
     Option.bind (global_def p name) (\<lambda>d.
       Option.bind (checked_mul (di_offset d) 4) (\<lambda>o'. checked_add o' gbase))"

definition state_handles_for :: "program \<Rightarrow> u32 \<Rightarrow> field_table \<Rightarrow> state_handles" where
  "state_handles_for p gbase ft =
     (let field_ofs = (\<lambda>name. map_option fe_ofs (field_get ft (ascii name)))
      in \<lparr>h_self_g = global_at p gbase (ascii ''self''),
          h_time_g = global_at p gbase (ascii ''time''),
          h_cycle_wrapped_g = global_at p gbase (ascii ''cycle_wrapped''),
          h_frame_f = field_ofs ''frame'', h_think_f = field_ofs ''think'',
          h_nextthink_f = field_ofs ''nextthink'', h_weaponframe_f = field_ofs ''weaponframe''\<rparr>)"

definition shared_view :: "shared_table \<Rightarrow> progs_state \<Rightarrow> shared_global option list" where
  "shared_view t ps =
     map (\<lambda>name. Option.bind (global_def (ps_program ps) name) (\<lambda>d.
       let ws = max (case type_words (di_ty d) of Some n \<Rightarrow> n | None \<Rightarrow> 1) 1
       in Option.bind (checked_mul (di_offset d) 4) (\<lambda>o'.
            map_option (\<lambda>a. \<lparr>sh_offset = a, sh_words = ws\<rparr>) (checked_add o' (ps_gbase ps)))))
       (sh_names t)"

definition is_shared_def :: "bytes list \<Rightarrow> def_info \<Rightarrow> bool" where
  "is_shared_def configured d \<longleftrightarrow>
     di_name d \<noteq> [] \<and> (di_shared d \<or> di_name d \<in> set configured)"

definition register_shared :: "'s core \<Rightarrow> nat \<Rightarrow> 's core" where
  "register_shared c pr =
     (case nth_opt (c_progs c) pr of
        None \<Rightarrow> c
      | Some ps \<Rightarrow>
          (let t = foldl (\<lambda>t d. fst (shared_slot t (di_name d))) (c_shared c)
                     (filter (is_shared_def (g_shared_globals (c_config c)))
                       (global_defs (ps_program ps)))
           in c\<lparr>c_shared := t,
                c_progs := map (\<lambda>ps. ps\<lparr>ps_shared := shared_view t ps\<rparr>) (c_progs c)\<rparr>))"

section \<open>Switching between progs\<close>

text \<open>Source offset, destination offset and words of every slot both progs have.\<close>

definition shared_pairs :: "progs_state \<Rightarrow> progs_state \<Rightarrow> (nat \<times> nat \<times> nat) list" where
  "shared_pairs a b =
     List.map_filter (\<lambda>(x, y).
       case (x, y) of
         (Some x, Some y) \<Rightarrow>
           Some (unat (sh_offset x), unat (sh_offset y), unat (min (sh_words x) (sh_words y)))
       | _ \<Rightarrow> None) (zip (ps_shared a) (ps_shared b))"

definition copy_all :: "memory \<Rightarrow> (nat \<times> nat \<times> nat) list \<Rightarrow> memory" where
  "copy_all m cs = foldl (\<lambda>m (s, d, n). mem_copy_g m s d n) m cs"

definition switch_in :: "'s core \<Rightarrow> u8 \<Rightarrow> u8 \<Rightarrow> 's core" where
  "switch_in c from_pr to_pr =
     (case (core_progs_at c from_pr, core_progs_at c to_pr) of
        (Some a, Some b) \<Rightarrow>
          c\<lparr>c_mem := copy_all (mem_copy_g (c_mem c) (unat (ps_gbase a) + OFS_PARM0)
                       (unat (ps_gbase b) + OFS_PARM0) PARM_WORDS) (shared_pairs a b)\<rparr>
      | _ \<Rightarrow> c)"

definition switch_out :: "'s core \<Rightarrow> u8 \<Rightarrow> u8 \<Rightarrow> 's core" where
  "switch_out c from_pr to_pr =
     (case (core_progs_at c from_pr, core_progs_at c to_pr) of
        (Some a, Some b) \<Rightarrow>
          c\<lparr>c_mem := copy_all (mem_copy_g (c_mem c) (unat (ps_gbase a) + OFS_RETURN)
                       (unat (ps_gbase b) + OFS_RETURN) 3) (shared_pairs a b)\<rparr>
      | _ \<Rightarrow> c)"

section \<open>Live functions\<close>

definition find_live_function :: "'s core \<Rightarrow> u8 \<Rightarrow> bytes \<Rightarrow> u32 option" where
  "find_live_function c pr name =
     Option.bind (core_progs_at c pr) (\<lambda>ps.
       let p = ps_program ps;
           glob = (case global_def_raw p name of
                     None \<Rightarrow> None
                   | Some d \<Rightarrow>
                       if d_ty d = TFunction then Some (d_ofs d)
                       else map_option di_offset
                              (find (\<lambda>d. di_name d = name \<and> di_ty d = TFunction) (global_defs p)))
       in case glob of
            Some wd \<Rightarrow>
              Option.bind (global_offset c pr wd) (\<lambda>at.
                let v = mem_g (c_mem c) at
                in if v AND 0x00FFFFFF \<noteq> 0 then Some v else None)
          | None \<Rightarrow> map_option (func_ref pr) (p_functions_by_name p name))"

section \<open>Field unification\<close>

text \<open>
  The layout changes as words are added; a refusal returns the layout reached so far (\<open>Inl\<close>), which
  the caller discards.
\<close>

definition def_words :: "def_info \<Rightarrow> u32" where
  "def_words d = (case type_words (di_ty d) of Some n \<Rightarrow> n | None \<Rightarrow> 1)"

definition take_words :: "u32 \<Rightarrow> field_table \<Rightarrow> u32 \<Rightarrow> field_table + field_table \<times> u32" where
  "take_words cap t ws =
     (case checked_add (ft_words t) ws of
        Some n \<Rightarrow> if n \<le> cap then Inr (t\<lparr>ft_words := n\<rparr>, ft_words t) else Inl t
      | None \<Rightarrow> Inl t)"

definition unify_def ::
  "u32 \<Rightarrow> field_table \<Rightarrow> (u32 \<rightharpoonup> u32) \<Rightarrow> def_info \<Rightarrow> field_table + field_table \<times> u32" where
  "unify_def cap t m d =
     (let fresh =
        (case m (di_offset d) of
           Some u \<Rightarrow> Inr (field_push t (di_name d) (di_ty d) u, u)
         | None \<Rightarrow> bind_res (take_words cap t (max (def_words d) 1)) (\<lambda>(t, u).
             Inr (field_push t (di_name d) (di_ty d) u, u)))
      in case field_get t (di_name d) of
           Some ex \<Rightarrow> if type_words (fe_ty ex) = type_words (di_ty d) then Inr (t, fe_ofs ex) else fresh
         | None \<Rightarrow> fresh)"

primrec map_words ::
  "field_table \<Rightarrow> u32 \<Rightarrow> u32 \<Rightarrow> nat list \<Rightarrow> (u32 \<rightharpoonup> u32) \<Rightarrow> field_table + field_table \<times> (u32 \<rightharpoonup> u32)"
where
  "map_words t ofs u [] m = Inr (t, m)"
| "map_words t ofs u (i # is) m =
     (case (checked_add ofs (of_nat i), checked_add u (of_nat i)) of
        (Some k, Some v) \<Rightarrow> map_words t ofs u is (if m k = None then m(k \<mapsto> v) else m)
      | _ \<Rightarrow> Inl t)"

primrec unify_defs ::
  "u32 \<Rightarrow> field_table \<Rightarrow> (u32 \<rightharpoonup> u32) \<Rightarrow> def_info list \<Rightarrow> field_table + field_table \<times> (u32 \<rightharpoonup> u32)"
where
  "unify_defs cap t m [] = Inr (t, m)"
| "unify_defs cap t m (d # ds) =
     bind_res (unify_def cap t m d) (\<lambda>(t, u).
       bind_res (map_words t (di_offset d) u [0..<unat (max (def_words d) 1)] m) (\<lambda>(t, m).
         unify_defs cap t m ds))"

primrec cover_words ::
  "u32 \<Rightarrow> field_table \<Rightarrow> (u32 \<rightharpoonup> u32) \<Rightarrow> nat list \<Rightarrow> field_table + field_table \<times> (u32 \<rightharpoonup> u32)"
where
  "cover_words cap t m [] = Inr (t, m)"
| "cover_words cap t m (i # is) =
     (if m (of_nat i) = None then
        bind_res (take_words cap t 1) (\<lambda>(t, u). cover_words cap t (m(of_nat i \<mapsto> u)) is)
      else cover_words cap t m is)"

text \<open>Bigger definitions first at equal offsets.\<close>

definition defs_in_order :: "program \<Rightarrow> def_info list" where
  "defs_in_order p =
     sort_key (\<lambda>d. (unat (di_offset d), - int (unat (def_words d)))) (field_defs p)"

definition map_fields :: "'s core \<Rightarrow> program \<Rightarrow> 's core + 's core \<times> (u32 \<rightharpoonup> u32)" where
  "map_fields c p =
     (if 32 \<le> stride_shift (c_mem c) then Inl c
      else
        let cap = (push_bit (unat (stride_shift (c_mem c))) 1 :: u32) div 4
        in case bind_res (unify_defs cap (c_fields c) (\<lambda>_. None) (defs_in_order p)) (\<lambda>(t, m).
                  cover_words cap t m [0..<unat (p_entity_fields p)]) of
             Inl t \<Rightarrow> Inl (c\<lparr>c_fields := t\<rparr>)
           | Inr (t, m) \<Rightarrow>
               (case checked_mul (ft_words t) 4 of
                  None \<Rightarrow> Inl (c\<lparr>c_fields := t\<rparr>)
                | Some fb \<Rightarrow> Inr (c\<lparr>c_fields := t, c_mem := (c_mem c)\<lparr>field_bytes := fb\<rparr>\<rparr>, m)))"

section \<open>Extern functions\<close>

definition extern_target :: "progs_state list \<Rightarrow> nat \<Rightarrow> bytes \<Rightarrow> u32 option" where
  "extern_target pss pr name =
     (case List.map_filter (\<lambda>(p, ps).
        if p = pr then None
        else Option.bind (p_functions_by_name (ps_program ps) name) (\<lambda>i.
          Option.bind (program_function (ps_program ps) i) (\<lambda>f.
            if p < 256 \<and> (case fi_kind f of FNull \<Rightarrow> False | FInvalid _ \<Rightarrow> False | _ \<Rightarrow> True)
            then Some (func_ref (of_nat p) i) else None))) (enumerate 0 pss) of
        [] \<Rightarrow> None
      | r # _ \<Rightarrow> Some r)"

definition extern_writes :: "'s core \<Rightarrow> (u32 \<times> u32) list" where
  "extern_writes c =
     concat (map (\<lambda>(pr, ps).
       List.map_filter (\<lambda>name.
         Option.bind (global_def (ps_program ps) name) (\<lambda>d.
           if di_ty d \<noteq> TFunction then None
           else Option.bind (checked_mul (di_offset d) 4) (\<lambda>o'.
             Option.bind (checked_add o' (ps_gbase ps)) (\<lambda>at.
               if mem_g (c_mem c) (unat at) AND 0x00FFFFFF \<noteq> 0 then None
               else map_option (\<lambda>f. (at, f)) (extern_target (c_progs c) pr name)))))
         (p_bodyless (ps_program ps))) (enumerate 0 (c_progs c)))"

definition link_externs :: "'s core \<Rightarrow> 's core" where
  "link_externs c =
     c\<lparr>c_mem := foldl (\<lambda>m (at, v). mem_set_g m (unat at) v) (c_mem c) (extern_writes c)\<rparr>"

section \<open>Writes to region S\<close>

text \<open>What operand writes, copies and moves do to memory: only bytes of region S change.\<close>

definition s_only :: "memory \<Rightarrow> memory \<Rightarrow> bool" where
  "s_only m m' \<longleftrightarrow> length (ms m') = length (ms m) \<and> m' = m\<lparr>ms := ms m'\<rparr>"

named_theorems s_only_intros \<open>operations that only write region S\<close>

lemma s_only_refl [s_only_intros]: "s_only m m"
  by (simp add: s_only_def)

lemma s_only_trans: "s_only m m' \<Longrightarrow> s_only m' m'' \<Longrightarrow> s_only m m''"
  unfolding s_only_def by (metis memory.fold_congs(1) memory.update_convs(1) memory.surjective)

lemma s_only_wf: "mem_wf m \<Longrightarrow> s_only m m' \<Longrightarrow> mem_wf m'"
proof -
  assume wf: "mem_wf m" and s: "s_only m m'"
  then obtain d where d: "m' = m\<lparr>ms := d\<rparr>" "length d = length (ms m)"
    unfolding s_only_def by blast
  show "mem_wf m'" by (rule mem_wf_shape [OF wf]) (simp_all add: d)
qed

lemma s_only_fields:
  assumes "s_only m m'"
  shows "me m' = me m" "e_base m' = e_base m" "stride_shift m' = stride_shift m"
    "field_bytes m' = field_bytes m" "slots m' = slots m" "mheap m' = mheap m"
    "h_base m' = h_base m" "ls_base m' = ls_base m" "ls_words m' = ls_words m"
    "max_edicts m' = max_edicts m" "length (ms m') = length (ms m)"
proof -
  obtain d where d: "m' = m\<lparr>ms := d\<rparr>" "length d = length (ms m)"
    using assms unfolding s_only_def by blast
  show "me m' = me m" "e_base m' = e_base m" "stride_shift m' = stride_shift m"
    "field_bytes m' = field_bytes m" "slots m' = slots m" "mheap m' = mheap m"
    "h_base m' = h_base m" "ls_base m' = ls_base m" "ls_words m' = ls_words m"
    "max_edicts m' = max_edicts m" "length (ms m') = length (ms m)" by (simp_all add: d)
qed

lemma s_only_foldl:
  "(\<And>m x. s_only m (f m x)) \<Longrightarrow> s_only m (foldl f m xs)"
  by (induction xs arbitrary: m) (auto intro: s_only_refl s_only_trans)

lemma s_only_set_g [s_only_intros]: "s_only m (mem_set_g m off v)"
  by (simp add: s_only_def mem_set_g_def)

lemma s_only_copy_g [s_only_intros]: "s_only m (mem_copy_g m s d n)"
  unfolding mem_copy_g_def by (rule s_only_foldl) (rule s_only_set_g)

lemma s_only_copy_all [s_only_intros]: "s_only m (copy_all m cs)"
  unfolding copy_all_def by (rule s_only_foldl) (auto intro: s_only_intros)

lemma s_only_move_s [s_only_intros]: "s_only m (fst (mem_move_s m s d n))"
  by (auto simp: mem_move_s_def s_only_def)

lemma s_only_switch:
  "s_only (c_mem c) (c_mem (switch_in c a b))" "s_only (c_mem c) (c_mem (switch_out c a b))"
  by (auto simp: switch_in_def switch_out_def split: option.splits
      intro: s_only_intros s_only_trans)

lemma switch_fields [simp]:
  "c_x (switch_in c a b) = c_x c" "c_frames (switch_in c a b) = c_frames c"
  "c_progs (switch_in c a b) = c_progs c" "c_config (switch_in c a b) = c_config c"
  "c_x (switch_out c a b) = c_x c" "c_frames (switch_out c a b) = c_frames c"
  "c_progs (switch_out c a b) = c_progs c" "c_config (switch_out c a b) = c_config c"
  by (simp_all add: switch_in_def switch_out_def split: option.splits)

text \<open>Bytes of S outside the written word.\<close>

definition s_bytes_at :: "memory \<Rightarrow> nat \<Rightarrow> nat \<Rightarrow> bytes" where
  "s_bytes_at m at n = take n (drop at (ms m))"

lemma s_bytes_set_g:
  assumes "at + n \<le> length (ms m)" "at + n \<le> off \<or> off + 4 \<le> at"
  shows "s_bytes_at (mem_set_g m off v) at n = s_bytes_at m at n"
proof (cases "off + 4 \<le> length (ms m)")
  case True
  then show ?thesis
    using assms splice_get_other [of off "le_bytes 4 v" "ms m" at n]
    by (auto simp: s_bytes_at_def mem_set_g_def put_u32_def)
qed (simp add: s_bytes_at_def mem_set_g_def put_u32_def)

lemma mem_g_set_same: "off + 4 \<le> length (ms m) \<Longrightarrow> mem_g (mem_set_g m off v) off = v"
  by (simp add: mem_g_def mem_set_g_def u32_at_put_same)

lemma mem_g_set_other:
  "off + 4 \<le> at \<or> at + 4 \<le> off \<Longrightarrow> mem_g (mem_set_g m off v) at = mem_g m at"
  by (simp add: mem_g_def mem_set_g_def u32_at_put_other)

lemma length_ms_simps [simp]:
  "length (ms (mem_set_g m off v)) = length (ms m)"
  "length (ms (mem_copy_g m s d n)) = length (ms m)"
  "length (ms (copy_all m cs)) = length (ms m)"
  using s_only_fields(11) [OF s_only_set_g] s_only_fields(11) [OF s_only_copy_g]
    s_only_fields(11) [OF s_only_copy_all] by blast+

lemma mem_copy_g_Suc:
  "mem_copy_g m s d (Suc n) =
     mem_set_g (mem_copy_g m s d n) (d + n * 4) (mem_g (mem_copy_g m s d n) (s + n * 4))"
  by (simp add: mem_copy_g_def)

lemma mem_copy_g_frame:
  "p + 4 \<le> d \<or> d + n * 4 \<le> p \<Longrightarrow> mem_g (mem_copy_g m s d n) p = mem_g m p"
proof (induction n)
  case (Suc n)
  then show ?case by (auto simp: mem_copy_g_Suc mem_g_set_other)
qed (simp add: mem_copy_g_def)

lemma mem_copy_g_copies:
  assumes "d + n * 4 \<le> length (ms m)" "s + n * 4 \<le> d \<or> d + n * 4 \<le> s" "i < n"
  shows "mem_g (mem_copy_g m s d n) (d + i * 4) = mem_g m (s + i * 4)"
  using assms
proof (induction n)
  case (Suc n)
  show ?case
  proof (cases "i = n")
    case True
    have "mem_g (mem_copy_g m s d n) (s + n * 4) = mem_g m (s + n * 4)"
      using Suc.prems by (intro mem_copy_g_frame) auto
    then show ?thesis using Suc.prems True by (simp add: mem_copy_g_Suc mem_g_set_same)
  next
    case False
    then have "mem_g (mem_copy_g m s d n) (d + i * 4) = mem_g m (s + i * 4)"
      using Suc by auto
    then show ?thesis using False Suc.prems by (auto simp: mem_copy_g_Suc mem_g_set_other)
  qed
qed simp

lemma copy_all_frame:
  "\<forall>(s, d, n) \<in> set cs. p + 4 \<le> d \<or> d + n * 4 \<le> p \<Longrightarrow> mem_g (copy_all m cs) p = mem_g m p"
  by (induction cs arbitrary: m) (auto simp: copy_all_def mem_copy_g_frame)

text \<open>C12: a call into another progs passes the caller's parameters: when the parameter blocks of the
  two progs do not overlap and no shared global is kept there, the callee's PARM0 to PARM7 hold the
  caller's 24 words, and nothing but region S changes.\<close>

theorem switch_in_passes_parameters:
  assumes "core_progs_at c f = Some a" "core_progs_at c t = Some b"
    and "unat (ps_gbase b) + 112 \<le> length (ms (c_mem c))"
    and "unat (ps_gbase a) + 112 \<le> unat (ps_gbase b) \<or> unat (ps_gbase b) + 112 \<le> unat (ps_gbase a)"
    and "\<forall>(s, d, n) \<in> set (shared_pairs a b).
      unat (ps_gbase b) + 112 \<le> d \<or> d + n * 4 \<le> unat (ps_gbase b) + 16"
    and "i < 24"
  shows "mem_g (c_mem (switch_in c f t)) (unat (ps_gbase b) + 16 + i * 4) =
           mem_g (c_mem c) (unat (ps_gbase a) + 16 + i * 4) \<and>
         s_only (c_mem c) (c_mem (switch_in c f t))"
proof -
  let ?a = "unat (ps_gbase a)" and ?b = "unat (ps_gbase b)"
  have "mem_g (c_mem (switch_in c f t)) (?b + 16 + i * 4) =
      mem_g (mem_copy_g (c_mem c) (?a + 16) (?b + 16) 24) (?b + 16 + i * 4)"
    unfolding switch_in_def assms(1,2) using assms(5,6)
    by (auto simp: OFS_PARM0_def PARM_WORDS_def intro!: copy_all_frame)
  also have "\<dots> = mem_g (c_mem c) (?a + 16 + i * 4)"
    using assms by (intro mem_copy_g_copies) auto
  finally show ?thesis using s_only_switch(1) by blast
qed

theorem switch_in_passes_parameters_witness:
  "mem_g (c_mem (switch_in sample_core 0 1)) 220 = mem_g (c_mem sample_core) 92"
  using switch_in_passes_parameters
    [of sample_core 0 "sample_progs 64" 1 "sample_progs 192" 3]
  by (simp add: sample_core_def core_progs_at_def nth_opt_def sample_mem_def shared_pairs_def
      List.map_filter_simps)

section \<open>Field unification keeps the layout\<close>

lemma field_push_keeps:
  "field_get t n = Some e \<Longrightarrow> field_get (field_push t name ty ofs) n = Some e"
  by (auto simp: field_get_def field_push_def Let_def nth_opt_Some nth_append
      split: option.splits Option.bind_splits)

lemma field_push_words [simp]: "ft_words (field_push t name ty ofs) = ft_words t"
  by (simp add: field_push_def Let_def split: option.splits)

text \<open>The layout only grows: names keep their entries, words in use do not decrease.\<close>

definition extends_layout :: "u32 \<Rightarrow> field_table \<Rightarrow> field_table \<Rightarrow> bool" where
  "extends_layout cap t t' \<longleftrightarrow>
     (\<forall>n e. field_get t n = Some e \<longrightarrow> field_get t' n = Some e) \<and>
     ft_words t \<le> ft_words t' \<and> (ft_words t \<le> cap \<longrightarrow> ft_words t' \<le> cap)"

lemma extends_refl: "extends_layout cap t t"
  by (simp add: extends_layout_def)

lemma extends_trans:
  "extends_layout cap t t' \<Longrightarrow> extends_layout cap t' t'' \<Longrightarrow> extends_layout cap t t''"
  by (auto simp: extends_layout_def)

lemma extends_push: "extends_layout cap t (field_push t name ty ofs)"
  by (simp add: extends_layout_def field_push_keeps)

lemma take_words_extends:
  assumes "take_words cap t ws = Inr (t', u)"
  shows "extends_layout cap t t' \<and> u = ft_words t"
proof -
  from assms obtain n where n: "checked_add (ft_words t) ws = Some n" "n \<le> cap"
    "t' = t\<lparr>ft_words := n\<rparr>" "u = ft_words t"
    by (auto simp: take_words_def split: option.splits if_splits)
  then have "ft_words t \<le> n" using checked_add_Some [of "ft_words t" ws n] by (simp add: word_le_nat_alt)
  then show ?thesis using n by (simp add: extends_layout_def field_get_def)
qed

lemma unify_def_extends:
  "unify_def cap t m d = Inr (t', u) \<Longrightarrow> extends_layout cap t t'"
  by (auto simp: unify_def_def Let_def bind_res_Inr split: option.splits if_splits
      dest!: take_words_extends intro: extends_refl extends_push extends_trans)

lemma map_words_same: "map_words t ofs u is m = Inr (t', m') \<Longrightarrow> t' = t"
  by (induction "is" arbitrary: m) (auto split: option.splits)

lemma unify_defs_extends:
  "unify_defs cap t m ds = Inr (t', m') \<Longrightarrow> extends_layout cap t t'"
proof (induction ds arbitrary: t m)
  case (Cons d ds)
  then obtain t1 u t2 m2 where s: "unify_def cap t m d = Inr (t1, u)"
      "map_words t1 (di_offset d) u [0..<unat (max (def_words d) 1)] m = Inr (t2, m2)"
      "unify_defs cap t2 m2 ds = Inr (t', m')"
    by (auto simp: bind_res_Inr)
  then have "t2 = t1" by (auto dest: map_words_same)
  then show ?case using unify_def_extends [OF s(1)] Cons.IH [OF s(3)] extends_trans by blast
qed (auto intro: extends_refl)

lemma cover_words_extends:
  "cover_words cap t m is = Inr (t', m') \<Longrightarrow>
     extends_layout cap t t' \<and> (\<forall>k. m k \<noteq> None \<longrightarrow> m' k \<noteq> None) \<and> (\<forall>i\<in>set is. m' (of_nat i) \<noteq> None)"
proof (induction "is" arbitrary: t m)
  case (Cons i "is")
  show ?case
  proof (cases "m (of_nat i) = None")
    case True
    then obtain t1 u where s: "take_words cap t 1 = Inr (t1, u)"
        "cover_words cap t1 (m(of_nat i \<mapsto> u)) is = Inr (t', m')"
      using Cons.prems by (auto simp: bind_res_Inr)
    note IH = Cons.IH [OF s(2)]
    then have "m' (of_nat i) \<noteq> None" by auto
    moreover have "m k \<noteq> None \<longrightarrow> m' k \<noteq> None" for k using IH by (cases "k = of_nat i") auto
    ultimately show ?thesis
      using IH take_words_extends [OF s(1)] extends_trans by (auto simp del: not_None_eq)
  qed (use Cons in auto)
qed (auto intro: extends_refl)

text \<open>Loading a later progs never moves entity data: on success every word of its entity layout
  has a home in the VM-wide layout, every field name already known keeps its offset, no entity byte
  changes, the stride is unchanged and still holds the layout, and memory stays well formed.\<close>

theorem map_fields_keeps_layout:
  assumes "map_fields c p = Inr (c', m)" "mem_wf (c_mem c)"
    and "unat (ft_words (c_fields c)) * 4 = unat (field_bytes (c_mem c))"
  shows "(\<forall>w < unat (p_entity_fields p). m (of_nat w) \<noteq> None) \<and>
    (\<forall>n e. field_get (c_fields c) n = Some e \<longrightarrow> field_get (c_fields c') n = Some e) \<and>
    me (c_mem c') = me (c_mem c) \<and> slots (c_mem c') = slots (c_mem c) \<and>
    stride_shift (c_mem c') = stride_shift (c_mem c) \<and>
    unat (field_bytes (c_mem c)) \<le> unat (field_bytes (c_mem c')) \<and>
    unat (field_bytes (c_mem c')) = unat (ft_words (c_fields c')) * 4 \<and> mem_wf (c_mem c')"
proof -
  let ?k = "stride_shift (c_mem c)" and ?b = "block_len (c_mem c)"
  let ?cap = "(push_bit (unat ?k) 1 :: u32) div 4"
  have k: "?k < 32" using assms(2) by (simp add: mem_wf_def)
  then obtain t1 m1 t fb where s: "unify_defs ?cap (c_fields c) (\<lambda>_. None) (defs_in_order p) = Inr (t1, m1)"
    "cover_words ?cap t1 m1 [0..<unat (p_entity_fields p)] = Inr (t, m)"
    "checked_mul (ft_words t) 4 = Some fb"
    "c' = c\<lparr>c_fields := t, c_mem := (c_mem c)\<lparr>field_bytes := fb\<rparr>\<rparr>"
    using assms(1) by (auto simp: map_fields_def Let_def bind_res_Inr not_le [symmetric]
        split: sum.splits option.splits if_splits)
  have ext: "extends_layout ?cap (c_fields c) t"
    using unify_defs_extends [OF s(1)] cover_words_extends [OF s(2)] extends_trans by blast
  have cov: "\<forall>w < unat (p_entity_fields p). m (of_nat w) \<noteq> None"
    using cover_words_extends [OF s(2)] by auto
  have fb: "unat fb = unat (ft_words t) * 4" using s(3) by (simp add: checked_mul_Some)
  have b: "unat (push_bit (unat ?k) 1 :: u32) = ?b"
  proof -
    have "(2 :: nat) ^ unat ?k < 2 ^ 32"
      using unat_shift [OF k] by (intro power_strict_increasing) auto
    then have "unat (of_nat (2 ^ unat ?k) :: u32) = 2 ^ unat ?k" by (intro unat_of_nat_small) simp
    then show ?thesis by (simp add: block_len_def push_bit_eq_mult)
  qed
  have cap: "unat ?cap = ?b div 4" unfolding unat_div b by simp
  have "unat (ft_words (c_fields c)) * 4 \<le> ?b" using assms(2,3) by (simp add: mem_wf_def)
  then have "ft_words (c_fields c) \<le> ?cap"
    unfolding word_le_nat_alt cap by simp
  then have "ft_words t \<le> ?cap" using ext unfolding extends_layout_def by blast
  then have "unat (ft_words t) \<le> ?b div 4" unfolding word_le_nat_alt cap .
  then have "unat fb \<le> ?b" by (simp add: fb)
  then have "mem_wf ((c_mem c)\<lparr>field_bytes := fb\<rparr>)"
    using assms(2) by (simp add: mem_wf_def block_len_def)
  then show ?thesis
    using cov ext fb assms(3) s(4) by (auto simp: extends_layout_def word_le_nat_alt)
qed

lemma sample_map_fields:
  "map_fields sample_core sample_program =
     Inr (sample_core\<lparr>c_fields := \<lparr>ft_entries = [], ft_by_name = (\<lambda>_. None), ft_words = 2\<rparr>,
            c_mem := sample_mem\<lparr>field_bytes := 8\<rparr>\<rparr>, (\<lambda>_. None)(0 \<mapsto> 1))"
  by (simp add: map_fields_def Let_def defs_in_order_def field_defs_def sample_program_def
      sample_core_def sample_mem_def bind_res_def take_words_def checked_add_def checked_mul_def
      word_le_nat_alt unat_div)

theorem map_fields_keeps_layout_witness:
  "[0 \<mapsto> 1] (of_nat 0 :: u32) \<noteq> (None :: u32 option) \<and>
   mem_wf (sample_mem\<lparr>field_bytes := 8\<rparr>)"
proof -
  have c: "c_mem sample_core = sample_mem" "ft_words (c_fields sample_core) = 1"
    "field_bytes sample_mem = 4"
    by (simp_all add: sample_core_def sample_mem_def)
  show ?thesis
    using map_fields_keeps_layout [OF sample_map_fields] by (simp add: c sample_mem_wf)
qed

end
