(* ===== verification/Calls.thy ===== *)
theory Calls
  imports Multiprogs
begin

text \<open>
  The call machinery (\<open>src/vm/core.rs\<close>, with the string lookups of \<open>src/vm/interp.rs\<close>): warnings
  and backtraces, entering and leaving QuakeC functions, unwinding.  The lemmas describe what a call
  saves and what its return restores, and the invariant \<open>stack_wf\<close> of the frame stack.
\<close>

section \<open>Strings and warnings\<close>

definition str_bytes :: "'s core \<Rightarrow> u32 \<Rightarrow> bytes option" where
  "str_bytes c r =
     (case classify r of
        Linear p \<Rightarrow> mem_cstr (c_mem c) p
      | Temp slot \<Rightarrow> map_option until_nul (temp_raw (c_strings c) slot)
      | Static i \<Rightarrow> static_str (c_strings c) i)"

definition bt_entry :: "'s core \<Rightarrow> u8 \<Rightarrow> u32 \<Rightarrow> u32 \<Rightarrow> bt_frame list" where
  "bt_entry c pr f stm =
     (if f = NO_FUNCTION then []
      else (case core_progs_at c pr of
              None \<Rightarrow> []
            | Some ps \<Rightarrow>
                (let info = program_function (ps_program ps) f
                 in [\<lparr>bt_function = func_ref pr f,
                      bt_name = (case info of Some i \<Rightarrow> fi_name i | None \<Rightarrow> []),
                      bt_file = (case info of Some i \<Rightarrow> fi_file i | None \<Rightarrow> []),
                      bt_statement = stm, bt_line = source_line (ps_program ps) stm\<rparr>])))"

definition backtrace :: "'s core \<Rightarrow> bt_frame list" where
  "backtrace c =
     bt_entry c (x_prnum (c_x c)) (x_func (c_x c)) (x_pc (c_x c)) @
     concat (map (\<lambda>f. bt_entry c (fr_prnum f) (fr_func f) (sat_sub (fr_resume_pc f) 1))
       (rev (c_frames c)))"

definition core_warn :: "'s core \<Rightarrow> warning_kind \<Rightarrow> 's core" where
  "core_warn c k =
     (let n = sat_add (c_warnings_this_call c) 1;
          c = c\<lparr>c_warnings_this_call := n\<rparr>
      in if l_warnings_per_call (g_limits (c_config c)) < n
         then c\<lparr>c_suppressed := sat_add (c_suppressed c) 1\<rparr>
         else c\<lparr>c_warnings := c_warnings c @ [\<lparr>w_kind = k, w_backtrace = backtrace c\<rparr>]\<rparr>)"

section \<open>Entering a function\<close>

definition param_copies_into :: "memory \<Rightarrow> param_copy list \<Rightarrow> memory" where
  "param_copies_into m cs =
     foldl (\<lambda>m c. mem_set_g m (unat (pc_dst c)) (mem_g m (unat (pc_src c)))) m cs"

definition func_copies :: "progs_state \<Rightarrow> qc_func \<Rightarrow> param_copy list" where
  "func_copies ps q =
     (case slice (ps_copies ps) (unat (q_copies_start q)) (unat (q_copies_end q)) of
        Some cs \<Rightarrow> cs | None \<Rightarrow> [])"

definition ls_address :: "memory \<Rightarrow> u32 \<Rightarrow> nat" where
  "ls_address m wd = unat (ls_base m) + unat wd * 4"

text \<open>A failed call keeps what it did before failing: the core is returned in both cases.\<close>

definition enter :: "'s core \<Rightarrow> u8 \<Rightarrow> u32 \<Rightarrow> u32 \<Rightarrow> 's core \<times> error_kind option" where
  "enter c pr index resume_pc =
     (if unat (l_call_depth (g_limits (c_config c))) \<le> length (c_frames c)
      then (c, Some CallDepth)
      else
        let x = c_x c;
            c = (if pr \<noteq> x_prnum x \<and> 1 < length (c_progs c) then switch_in c (x_prnum x) pr else c);
            invalid = (c, Some (InvalidFunctionRef (func_ref pr index)))
        in case core_progs_at c pr of
             None \<Rightarrow> invalid
           | Some ps \<Rightarrow>
             (case nth_opt (ps_funcs ps) (unat index) of
                Some (Some f) \<Rightarrow>
                  (case checked_add (x_ls_top x) (x_pushed x) of
                     None \<Rightarrow> (c, Some LocalStack)
                   | Some ls_top \<Rightarrow>
                     (case checked_add ls_top (q_locals_words f) of
                        None \<Rightarrow> (c, Some LocalStack)
                      | Some new_top \<Rightarrow>
                        if ls_words (c_mem c) < new_top then (c, Some LocalStack)
                        else
                          (case mem_move_s (c_mem c) (unat (q_locals_addr f))
                                  (ls_address (c_mem c) ls_top) (unat (q_locals_words f) * 4) of
                             (m, False) \<Rightarrow> (c, Some LocalStack)
                           | (m, True) \<Rightarrow>
                             (c\<lparr>c_mem := param_copies_into m (func_copies ps f),
                                c_frames := c_frames c @
                                  [\<lparr>fr_resume_pc = resume_pc, fr_func = x_func x,
                                    fr_prnum = x_prnum x, fr_pushed = x_pushed x,
                                    fr_switch_ref = x_switch_ref x,
                                    fr_switch_kind = x_switch_kind x, fr_locals_at = ls_top,
                                    fr_locals_addr = x_locals_addr x,
                                    fr_locals_words = x_locals_words x\<rparr>],
                                c_x := \<lparr>x_pc = q_entry f, x_func = index, x_prnum = pr,
                                    x_pushed = 0, x_ls_top = new_top, x_switch_ref = 0,
                                    x_switch_kind = SwFloat, x_locals_addr = q_locals_addr f,
                                    x_locals_words = q_locals_words f\<rparr>\<rparr>, None))))
              | _ \<Rightarrow> invalid))"

section \<open>Leaving a function\<close>

definition restore_locals :: "'s core \<Rightarrow> 's core" where
  "restore_locals c =
     (let x = c_x c; top = sat_sub (x_ls_top x) (x_locals_words x)
      in c\<lparr>c_mem := fst (mem_move_s (c_mem c) (ls_address (c_mem c) top) (unat (x_locals_addr x))
                          (unat (x_locals_words x) * 4)),
           c_x := x\<lparr>x_ls_top := top\<rparr>\<rparr>)"

definition pop_frame :: "'s core \<Rightarrow> frame \<Rightarrow> 's core" where
  "pop_frame c f =
     (let x = c_x c; reset = fc_switch_reset_on_call (g_compat (c_config c))
      in c\<lparr>c_frames := butlast (c_frames c),
           c_x := x\<lparr>x_pc := fr_resume_pc f, x_func := fr_func f, x_prnum := fr_prnum f,
                    x_pushed := fr_pushed f, x_ls_top := sat_sub (x_ls_top x) (fr_pushed f),
                    x_switch_ref := (if reset then 0 else fr_switch_ref f),
                    x_switch_kind := (if reset then SwFloat else fr_switch_kind f),
                    x_locals_addr := fr_locals_addr f, x_locals_words := fr_locals_words f\<rparr>\<rparr>)"

definition leave :: "'s core \<Rightarrow> 's core" where
  "leave c =
     (let callee = x_prnum (c_x c); c = restore_locals c
      in if c_frames c = [] then c
         else let f = last (c_frames c); c = pop_frame c f
              in if fr_prnum f \<noteq> callee then switch_out c callee (fr_prnum f) else c)"

lemma switch_out_frames [simp]: "c_frames (switch_out c a b) = c_frames c"
  by (simp add: switch_out_def split: option.splits)

lemma leave_frames [simp]: "c_frames (leave c) = butlast (c_frames c)"
  by (simp add: leave_def restore_locals_def pop_frame_def Let_def)

text \<open>Pops frames down to a depth; each step pops one.\<close>

function unwind :: "'s core \<Rightarrow> nat \<Rightarrow> 's core" where
  "unwind c depth = (if depth < length (c_frames c) then unwind (leave c) depth else c)"
  by pat_completeness auto
termination by (relation "measure (\<lambda>(c, d). length (c_frames c))") auto

declare unwind.simps [simp del]

section \<open>What a call saves and a return restores\<close>

lemma s_only_param_copies [s_only_intros]: "s_only m (param_copies_into m cs)"
  unfolding param_copies_into_def by (rule s_only_foldl) (rule s_only_set_g)

lemma param_copies_frame:
  assumes "at + n \<le> length (ms m)"
    and "\<forall>c \<in> set cs. at + n \<le> unat (pc_dst c) \<or> unat (pc_dst c) + 4 \<le> at"
  shows "s_bytes_at (param_copies_into m cs) at n = s_bytes_at m at n"
  using assms
proof (induction cs arbitrary: m)
  case (Cons c cs)
  let ?m = "mem_set_g m (unat (pc_dst c)) (mem_g m (unat (pc_src c)))"
  have "param_copies_into m (c # cs) = param_copies_into ?m cs" by (simp add: param_copies_into_def)
  moreover have "s_bytes_at (param_copies_into ?m cs) at n = s_bytes_at ?m at n"
    using Cons.prems by (intro Cons.IH) auto
  moreover have "s_bytes_at ?m at n = s_bytes_at m at n"
    using Cons.prems by (intro s_bytes_set_g) auto
  ultimately show ?case by simp
qed (simp add: param_copies_into_def)

lemma move_s_True:
  assumes "mem_move_s m src dst n = (m', True)"
  shows "src + n \<le> length (ms m)" "dst + n \<le> length (ms m)" "m' = m\<lparr>ms := ms m'\<rparr>"
    "length (ms m') = length (ms m)" "s_bytes_at m' dst n = s_bytes_at m src n"
    "at + k \<le> length (ms m) \<Longrightarrow> at + k \<le> dst \<or> dst + n \<le> at \<Longrightarrow>
       s_bytes_at m' at k = s_bytes_at m at k"
  using assms copy_within_same [of src n "ms m" dst] copy_within_other [of src n "ms m" dst at k]
  by (auto simp: mem_move_s_def s_bytes_at_def split: if_splits)

lemma move_s_in_range:
  "src + n \<le> length (ms m) \<Longrightarrow> dst + n \<le> length (ms m) \<Longrightarrow> snd (mem_move_s m src dst n)"
  by (simp add: mem_move_s_def)

text \<open>Everything a successful \<open>enter\<close> decided.\<close>

lemma enter_ok:
  assumes e: "enter c pr i rpc = (c', None)"
  obtains ps f c0 ls_top m where
    "length (c_frames c) < unat (l_call_depth (g_limits (c_config c)))"
    "c0 = (if pr \<noteq> x_prnum (c_x c) \<and> 1 < length (c_progs c)
           then switch_in c (x_prnum (c_x c)) pr else c)"
    "core_progs_at c pr = Some ps" "nth_opt (ps_funcs ps) (unat i) = Some (Some f)"
    "unat ls_top = unat (x_ls_top (c_x c)) + unat (x_pushed (c_x c))"
    "unat (x_ls_top (c_x c')) = unat ls_top + unat (q_locals_words f)"
    "x_ls_top (c_x c') \<le> ls_words (c_mem c0)"
    "mem_move_s (c_mem c0) (unat (q_locals_addr f)) (ls_address (c_mem c0) ls_top)
       (unat (q_locals_words f) * 4) = (m, True)"
    "c' = c0\<lparr>c_mem := param_copies_into m (func_copies ps f),
       c_frames := c_frames c @ [\<lparr>fr_resume_pc = rpc, fr_func = x_func (c_x c),
         fr_prnum = x_prnum (c_x c), fr_pushed = x_pushed (c_x c),
         fr_switch_ref = x_switch_ref (c_x c), fr_switch_kind = x_switch_kind (c_x c),
         fr_locals_at = ls_top, fr_locals_addr = x_locals_addr (c_x c),
         fr_locals_words = x_locals_words (c_x c)\<rparr>],
       c_x := \<lparr>x_pc = q_entry f, x_func = i, x_prnum = pr, x_pushed = 0,
         x_ls_top = ls_top + q_locals_words f, x_switch_ref = 0, x_switch_kind = SwFloat,
         x_locals_addr = q_locals_addr f, x_locals_words = q_locals_words f\<rparr>\<rparr>"
proof -
  let ?x = "c_x c"
  define c0 where "c0 = (if pr \<noteq> x_prnum ?x \<and> 1 < length (c_progs c)
             then switch_in c (x_prnum ?x) pr else c)"
  have c0: "c_progs c0 = c_progs c" "c_frames c0 = c_frames c" by (simp_all add: c0_def)
  have p: "core_progs_at c0 pr = core_progs_at c pr" by (simp add: core_progs_at_def c0)
  have d: "\<not> unat (l_call_depth (g_limits (c_config c))) \<le> length (c_frames c)"
    using e by (rule_tac notI) (simp add: enter_def)
  note e = e [unfolded enter_def Let_def c0_def [symmetric] p if_not_P [OF d]]
  obtain ps where ps: "core_progs_at c pr = Some ps"
    using e by (cases "core_progs_at c pr") simp_all
  obtain f where f: "nth_opt (ps_funcs ps) (unat i) = Some (Some f)"
  proof (cases "nth_opt (ps_funcs ps) (unat i)")
    case (Some q)
    then show ?thesis using e ps that by (cases q) simp_all
  qed (use e ps in simp)
  obtain ls_top where top: "checked_add (x_ls_top ?x) (x_pushed ?x) = Some ls_top"
    using e ps f by (cases "checked_add (x_ls_top ?x) (x_pushed ?x)") simp_all
  obtain new_top where new: "checked_add ls_top (q_locals_words f) = Some new_top"
    using e ps f top by (cases "checked_add ls_top (q_locals_words f)") simp_all
  have le: "\<not> ls_words (c_mem c0) < new_top"
    using e ps f top new by (rule_tac notI) simp
  obtain m b where mv: "mem_move_s (c_mem c0) (unat (q_locals_addr f))
      (ls_address (c_mem c0) ls_top) (unat (q_locals_words f) * 4) = (m, b)"
    by (metis surj_pair)
  have b: "b = True" using e ps f top new le mv by (cases b) simp_all
  have sums: "unat ls_top = unat (x_ls_top ?x) + unat (x_pushed ?x)"
    "unat new_top = unat ls_top + unat (q_locals_words f)" "new_top = ls_top + q_locals_words f"
    using top new by (simp_all add: checked_add_Some) (simp add: checked_add_def split: if_splits)
  have c': "c' = c0\<lparr>c_mem := param_copies_into m (func_copies ps f),
       c_frames := c_frames c @ [\<lparr>fr_resume_pc = rpc, fr_func = x_func ?x,
         fr_prnum = x_prnum ?x, fr_pushed = x_pushed ?x,
         fr_switch_ref = x_switch_ref ?x, fr_switch_kind = x_switch_kind ?x,
         fr_locals_at = ls_top, fr_locals_addr = x_locals_addr ?x,
         fr_locals_words = x_locals_words ?x\<rparr>],
       c_x := \<lparr>x_pc = q_entry f, x_func = i, x_prnum = pr, x_pushed = 0,
         x_ls_top = ls_top + q_locals_words f, x_switch_ref = 0, x_switch_kind = SwFloat,
         x_locals_addr = q_locals_addr f, x_locals_words = q_locals_words f\<rparr>\<rparr>"
    using e ps f top new le mv b by (simp add: c0 sums(3))
  then have x: "x_ls_top (c_x c') = new_top" by (simp add: sums(3))
  show ?thesis
    by (rule that [OF _ c0_def ps f sums(1) _ _ mv [unfolded b] c'])
      (use d le sums(2) in \<open>simp_all only: x not_le not_less\<close>)
qed

lemma leave_same_progs:
  assumes "c_frames c \<noteq> []" "fr_prnum (last (c_frames c)) = x_prnum (c_x c)"
  shows "leave c = pop_frame (restore_locals c) (last (c_frames c))"
  using assms by (simp add: leave_def restore_locals_def Let_def)

text \<open>C13: the caller of a function, of the same progs or another, finds its own state again: whatever the callee did
  to its locals, as long as it left the saved words on the local stack alone (and its parameters are not kept
  there), returning restores the frames, the registers (resuming at the given statement, in the caller's progs) and the
  previous contents of the callee's locals, so a recursive call does not disturb the activation below it; no other byte of
  region S changes, but that a return into another progs then hands over the result and the shared globals with
  \<open>switch_out\<close>.  For a call from another progs the previous contents are those after \<open>switch_in\<close> (\<open>c0\<close>).\<close>

theorem return_restores_caller:
  fixes c c' d :: "'s core" and pr :: u8
  defines "base \<equiv> ls_address (c_mem c) (x_ls_top (c_x c) + x_pushed (c_x c))"
    and "loc \<equiv> unat (x_locals_addr (c_x c'))" and "n \<equiv> unat (x_locals_words (c_x c')) * 4"
    and "c0 \<equiv> (if pr \<noteq> x_prnum (c_x c) \<and> 1 < length (c_progs c) then switch_in c (x_prnum (c_x c)) pr else c)"
  assumes e: "enter c pr i rpc = (c', None)"
    and below: "\<And>ps q cp. core_progs_at c pr = Some ps \<Longrightarrow>
      nth_opt (ps_funcs ps) (unat i) = Some (Some q) \<Longrightarrow> cp \<in> set (func_copies ps q) \<Longrightarrow>
      unat (pc_dst cp) + 4 \<le> base \<or> base + n \<le> unat (pc_dst cp)"
    and d: "c_frames d = c_frames c'" "x_ls_top (c_x d) = x_ls_top (c_x c')"
      "x_locals_addr (c_x d) = x_locals_addr (c_x c')"
      "x_locals_words (c_x d) = x_locals_words (c_x c')" "x_prnum (c_x d) = x_prnum (c_x c')"
      "length (ms (c_mem d)) = length (ms (c_mem c'))" "ls_base (c_mem d) = ls_base (c_mem c')"
    and saved: "s_bytes_at (c_mem d) base n = s_bytes_at (c_mem c') base n"
  shows "c_frames (leave d) = c_frames c \<and>
    c_x (leave d) = (c_x c)\<lparr>x_pc := rpc,
      x_switch_ref := (if fc_switch_reset_on_call (g_compat (c_config d)) then 0
                       else x_switch_ref (c_x c)),
      x_switch_kind := (if fc_switch_reset_on_call (g_compat (c_config d)) then SwFloat
                        else x_switch_kind (c_x c))\<rparr> \<and>
    (\<exists>m. s_bytes_at m loc n = s_bytes_at (c_mem c0) loc n \<and>
      (\<forall>at k. at + k \<le> length (ms (c_mem d)) \<and> (at + k \<le> loc \<or> loc + n \<le> at) \<longrightarrow>
         s_bytes_at m at k = s_bytes_at (c_mem d) at k) \<and> s_only (c_mem d) m \<and>
      c_mem (leave d) = (if x_prnum (c_x c) = pr then m
                         else c_mem (switch_out (d\<lparr>c_mem := m\<rparr>) pr (x_prnum (c_x c)))))"
proof -
  let ?new = "\<lambda>ls_top. \<lparr>fr_resume_pc = rpc, fr_func = x_func (c_x c),
    fr_prnum = x_prnum (c_x c), fr_pushed = x_pushed (c_x c),
    fr_switch_ref = x_switch_ref (c_x c), fr_switch_kind = x_switch_kind (c_x c),
    fr_locals_at = ls_top, fr_locals_addr = x_locals_addr (c_x c),
    fr_locals_words = x_locals_words (c_x c)\<rparr>"
  obtain ps f c1 ls_top m where c1: "c1 = c0"
    and p: "core_progs_at c pr = Some ps" "nth_opt (ps_funcs ps) (unat i) = Some (Some f)"
    and top: "unat ls_top = unat (x_ls_top (c_x c)) + unat (x_pushed (c_x c))"
      "unat (x_ls_top (c_x c')) = unat ls_top + unat (q_locals_words f)"
    and mv0: "mem_move_s (c_mem c0) (unat (q_locals_addr f)) (ls_address (c_mem c0) ls_top)
       (unat (q_locals_words f) * 4) = (m, True)"
    and c'0: "c' = c0\<lparr>c_mem := param_copies_into m (func_copies ps f),
       c_frames := c_frames c @ [?new ls_top],
       c_x := \<lparr>x_pc = q_entry f, x_func = i, x_prnum = pr, x_pushed = 0,
         x_ls_top = ls_top + q_locals_words f, x_switch_ref = 0, x_switch_kind = SwFloat,
         x_locals_addr = q_locals_addr f, x_locals_words = q_locals_words f\<rparr>\<rparr>"
    by (rule enter_ok [OF e], fold c0_def) metis
  have sh0: "length (ms (c_mem c0)) = length (ms (c_mem c))" "ls_base (c_mem c0) = ls_base (c_mem c)"
    using s_only_fields(8,11) [OF s_only_switch(1) [of c "x_prnum (c_x c)" pr]] by (simp_all add: c0_def)
  have c': "c_mem c' = param_copies_into m (func_copies ps f)"
      "c_frames c' = c_frames c @ [?new ls_top]"
      "x_prnum (c_x c') = pr" "x_locals_addr (c_x c') = q_locals_addr f"
      "x_locals_words (c_x c') = q_locals_words f"
    by (simp_all add: c'0)
  have w: "x_ls_top (c_x c) + x_pushed (c_x c) = ls_top"
    using top(1) unat_u32_bound [of ls_top] by (simp add: word_unat_eq_iff unat_word_ariths)
  have eqs: "base = ls_address (c_mem c0) ls_top" "loc = unat (q_locals_addr f)"
    "n = unat (q_locals_words f) * 4"
    by (simp_all add: base_def loc_def n_def w c' ls_address_def sh0)
  note mv = mv0 [folded eqs]
  note mvT = move_s_True [OF mv]
  have sh: "length (ms (c_mem c')) = length (ms (c_mem c))" "ls_base (c_mem c') = ls_base (c_mem c)"
    using s_only_fields(8,11) [OF s_only_param_copies [of m "func_copies ps f"]]
      s_only_fields(8,11) [OF s_only_move_s [of "c_mem c0" loc base n]] sh0 by (simp_all add: c' mv)
  have "s_bytes_at (c_mem c') base n = s_bytes_at m base n"
    unfolding c'(1) using mvT(2,4) below [OF p]
    by (intro param_copies_frame) (auto dest: below [OF p])
  then have saved': "s_bytes_at (c_mem d) base n = s_bytes_at (c_mem c0) loc n"
    using saved mvT(5) by simp
  have top': "sat_sub (x_ls_top (c_x d)) (q_locals_words f) = ls_top"
    using top(2) by (simp add: d c' word_unat_eq_iff unat_sat_sub)
  have ls: "ls_address (c_mem d) ls_top = base" using sh sh0 d(7) by (simp add: eqs ls_address_def)
  have "base + n \<le> length (ms (c_mem d))" "loc + n \<le> length (ms (c_mem d))"
    using mvT(1,2) d(6) sh(1) sh0(1) by simp_all
  then obtain m2 where mv2: "mem_move_s (c_mem d) base loc n = (m2, True)"
    using move_s_in_range [of base n "c_mem d" loc] by (cases "mem_move_s (c_mem d) base loc n") simp
  note mvT2 = move_s_True [OF mv2]
  have r: "restore_locals d = d\<lparr>c_mem := m2, c_x := (c_x d)\<lparr>x_ls_top := ls_top\<rparr>\<rparr>"
    using mv2 by (simp add: restore_locals_def Let_def top' ls d(3,4) eqs(2,3) c')
  have l: "last (c_frames d) = ?new ls_top" "c_frames d \<noteq> []" by (simp_all add: d c')
  let ?p = "pop_frame (d\<lparr>c_mem := m2, c_x := (c_x d)\<lparr>x_ls_top := ls_top\<rparr>\<rparr>) (?new ls_top)"
  have lv: "leave d = (if x_prnum (c_x c) \<noteq> pr then switch_out ?p pr (x_prnum (c_x c)) else ?p)"
    using l by (simp add: leave_def Let_def r d c')
  have out: "c_mem (switch_out ?p a b) = c_mem (switch_out (d\<lparr>c_mem := m2\<rparr>) a b)"
      "c_x (switch_out ?p a b) = c_x ?p" for a b
    by (simp_all add: switch_out_def pop_frame_def Let_def core_progs_at_def split: option.split)
  have "sat_sub ls_top (x_pushed (c_x c)) = x_ls_top (c_x c)"
    using top(1) by (simp add: word_unat_eq_iff unat_sat_sub)
  then have x: "c_x ?p = (c_x c)\<lparr>x_pc := rpc,
      x_switch_ref := (if fc_switch_reset_on_call (g_compat (c_config d)) then 0 else x_switch_ref (c_x c)),
      x_switch_kind := (if fc_switch_reset_on_call (g_compat (c_config d)) then SwFloat else x_switch_kind (c_x c))\<rparr>"
    by (simp add: pop_frame_def Let_def)
  have "c_frames (leave d) = c_frames c" by (simp add: d c')
  moreover have "c_x (leave d) = c_x ?p" by (simp add: lv out(2))
  moreover have "c_mem (leave d) = (if x_prnum (c_x c) = pr then m2
      else c_mem (switch_out (d\<lparr>c_mem := m2\<rparr>) pr (x_prnum (c_x c))))"
    by (simp add: lv out(1)) (simp add: pop_frame_def Let_def)
  moreover have "s_only (c_mem d) m2" using s_only_move_s [of "c_mem d" base loc n] mv2 by simp
  ultimately show ?thesis
    using saved' mvT2(5,6) x by (intro conjI exI [of _ m2]) simp_all
qed

section \<open>The frame stack\<close>

text \<open>
  The local stack below a call is exactly what the frames account for: \<open>frames_ok\<close> takes the frames
  innermost first, the top of the local stack and the size of the innermost locals.
\<close>

fun frames_ok :: "frame list \<Rightarrow> nat \<Rightarrow> nat \<Rightarrow> bool" where
  "frames_ok [] t n \<longleftrightarrow> t = 0 \<and> n = 0"
| "frames_ok (f # fs) t n \<longleftrightarrow>
     t = unat (fr_locals_at f) + n \<and> unat (fr_pushed f) \<le> unat (fr_locals_at f) \<and>
     frames_ok fs (unat (fr_locals_at f) - unat (fr_pushed f)) (unat (fr_locals_words f))"

definition stack_wf :: "'s core \<Rightarrow> bool" where
  "stack_wf c \<longleftrightarrow>
     frames_ok (rev (c_frames c)) (unat (x_ls_top (c_x c))) (unat (x_locals_words (c_x c))) \<and>
     unat (x_ls_top (c_x c)) + unat (x_pushed (c_x c)) \<le> unat (ls_words (c_mem c)) \<and>
     length (c_frames c) \<le> unat (l_call_depth (g_limits (c_config c)))"

lemma stack_wf_cong:
  assumes "stack_wf c" "c_frames d = c_frames c" "x_ls_top (c_x d) = x_ls_top (c_x c)"
    "x_pushed (c_x d) = x_pushed (c_x c)" "x_locals_words (c_x d) = x_locals_words (c_x c)"
    "ls_words (c_mem d) = ls_words (c_mem c)" "c_config d = c_config c"
  shows "stack_wf d"
  using assms by (simp add: stack_wf_def)

lemma switch_in_stack_wf: "stack_wf c \<Longrightarrow> stack_wf (switch_in c a b)"
  by (erule stack_wf_cong) (simp_all add: s_only_fields(9) [OF s_only_switch(1)])

lemma switch_out_stack_wf: "stack_wf c \<Longrightarrow> stack_wf (switch_out c a b)"
  by (erule stack_wf_cong) (simp_all add: s_only_fields(9) [OF s_only_switch(2)])

text \<open>A failed call changes memory at most.\<close>

lemma enter_failed:
  assumes "enter c pr i rpc = (c', Some k)"
  shows "c' = c \<or> c' = switch_in c (x_prnum (c_x c)) pr"
  using assms unfolding enter_def Let_def
  by (simp split: if_splits option.splits prod.splits bool.splits)

lemma enter_stack_wf:
  assumes wf: "stack_wf c" and e: "enter c pr i rpc = (c', r)"
  shows "stack_wf c'"
proof (cases r)
  case (Some k)
  then show ?thesis using enter_failed e wf switch_in_stack_wf by blast
next
  case None
  then have "enter c pr i rpc = (c', None)" using e by simp
  then show ?thesis
  proof (rule enter_ok)
    fix ps f c0 ls_top m
    assume depth: "length (c_frames c) < unat (l_call_depth (g_limits (c_config c)))"
      and c0: "c0 = (if pr \<noteq> x_prnum (c_x c) \<and> 1 < length (c_progs c)
           then switch_in c (x_prnum (c_x c)) pr else c)"
      and top: "unat ls_top = unat (x_ls_top (c_x c)) + unat (x_pushed (c_x c))"
        "unat (x_ls_top (c_x c')) = unat ls_top + unat (q_locals_words f)"
      and le: "x_ls_top (c_x c') \<le> ls_words (c_mem c0)"
      and mv: "mem_move_s (c_mem c0) (unat (q_locals_addr f)) (ls_address (c_mem c0) ls_top)
        (unat (q_locals_words f) * 4) = (m, True)"
      and c': "c' = c0\<lparr>c_mem := param_copies_into m (func_copies ps f),
       c_frames := c_frames c @ [\<lparr>fr_resume_pc = rpc, fr_func = x_func (c_x c),
         fr_prnum = x_prnum (c_x c), fr_pushed = x_pushed (c_x c),
         fr_switch_ref = x_switch_ref (c_x c), fr_switch_kind = x_switch_kind (c_x c),
         fr_locals_at = ls_top, fr_locals_addr = x_locals_addr (c_x c),
         fr_locals_words = x_locals_words (c_x c)\<rparr>],
       c_x := \<lparr>x_pc = q_entry f, x_func = i, x_prnum = pr, x_pushed = 0,
         x_ls_top = ls_top + q_locals_words f, x_switch_ref = 0, x_switch_kind = SwFloat,
         x_locals_addr = q_locals_addr f, x_locals_words = q_locals_words f\<rparr>\<rparr>"
    have m: "ls_words m = ls_words (c_mem c0)"
      using s_only_fields(9) [OF s_only_move_s] mv by (metis fst_conv)
    have lw: "ls_words (c_mem c') = ls_words (c_mem c0)"
      using s_only_fields(9) [OF s_only_param_copies [of m "func_copies ps f"]] m by (simp add: c')
    have cfg: "c_config c' = c_config c" by (simp add: c' c0)
    have fr: "frames_ok (rev (c_frames c')) (unat (x_ls_top (c_x c'))) (unat (x_locals_words (c_x c')))"
      using wf unfolding stack_wf_def top(2) by (simp add: c' top(1))
    show "stack_wf c'"
      unfolding stack_wf_def cfg using fr le lw depth by (simp add: c' word_le_nat_alt)
  qed
qed

lemma restore_locals_stack [simp]:
  "c_frames (restore_locals c) = c_frames c" "c_config (restore_locals c) = c_config c"
  "ls_words (c_mem (restore_locals c)) = ls_words (c_mem c)"
  "x_ls_top (c_x (restore_locals c)) = sat_sub (x_ls_top (c_x c)) (x_locals_words (c_x c))"
  using s_only_fields(9) [OF s_only_move_s] by (simp_all add: restore_locals_def Let_def)

lemma pop_frame_stack [simp]:
  "c_frames (pop_frame c f) = butlast (c_frames c)" "c_config (pop_frame c f) = c_config c"
  "c_mem (pop_frame c f) = c_mem c" "x_pushed (c_x (pop_frame c f)) = fr_pushed f"
  "x_ls_top (c_x (pop_frame c f)) = sat_sub (x_ls_top (c_x c)) (fr_pushed f)"
  "x_locals_words (c_x (pop_frame c f)) = fr_locals_words f"
  by (simp_all add: pop_frame_def Let_def)

lemma leave_stack_wf:
  assumes wf: "stack_wf c"
  shows "stack_wf (leave c)"
proof (cases "c_frames c = []")
  case True
  then have z: "x_ls_top (c_x c) = 0" "x_locals_words (c_x c) = 0"
    using wf by (simp_all add: stack_wf_def unat_eq_0)
  have l: "leave c = restore_locals c" using True by (simp add: leave_def Let_def)
  have "x_locals_words (c_x (restore_locals c)) = 0" "x_pushed (c_x (restore_locals c)) = x_pushed (c_x c)"
    using z by (simp_all add: restore_locals_def Let_def)
  then show ?thesis unfolding l using wf True by (simp add: stack_wf_def z sat_sub_def)
next
  case False
  let ?f = "last (c_frames c)" and ?c = "pop_frame (restore_locals c) (last (c_frames c))"
  have r: "rev (c_frames c) = ?f # rev (butlast (c_frames c))"
    using append_butlast_last_id [OF False] by (metis rev.simps(2) rev_append rev_rev_ident append_Cons append_Nil rev_singleton_conv)
  have a: "unat (x_ls_top (c_x c)) = unat (fr_locals_at ?f) + unat (x_locals_words (c_x c))"
      "unat (fr_pushed ?f) \<le> unat (fr_locals_at ?f)"
      "frames_ok (rev (butlast (c_frames c))) (unat (fr_locals_at ?f) - unat (fr_pushed ?f))
         (unat (fr_locals_words ?f))"
    using wf by (simp_all add: stack_wf_def r)
  have "unat (x_ls_top (c_x ?c)) = unat (fr_locals_at ?f) - unat (fr_pushed ?f)"
    using a(1) by (simp add: unat_sat_sub)
  moreover have "length (butlast (c_frames c)) \<le> unat (l_call_depth (g_limits (c_config c)))"
    using wf unfolding stack_wf_def length_butlast by linarith
  ultimately have "stack_wf ?c" using wf a by (simp add: stack_wf_def)
  then show ?thesis using False switch_out_stack_wf by (auto simp: leave_def Let_def)
qed

lemma unwind_stack:
  "stack_wf c \<Longrightarrow> stack_wf (unwind c d) \<and> length (c_frames (unwind c d)) = min (length (c_frames c)) d"
proof (induction c d rule: unwind.induct)
  case (1 c d)
  show ?case
  proof (cases "d < length (c_frames c)")
    case True
    then have "stack_wf (unwind (leave c) d) \<and>
        length (c_frames (unwind (leave c) d)) = min (length (c_frames (leave c))) d"
      using 1 leave_stack_wf by blast
    with True show ?thesis by (simp add: unwind.simps [of c d])
  next
    case False
    with 1 show ?thesis by (simp add: unwind.simps [of c d])
  qed
qed

text \<open>What can happen to the stack: calls, returns, \<open>PUSH\<close>, and anything that keeps it.\<close>

inductive stack_step :: "'s core \<Rightarrow> 's core \<Rightarrow> bool" where
  step_call: "enter c pr i rpc = (c', r) \<Longrightarrow> stack_step c c'"
| step_return: "stack_step c (leave c)"
| step_unwind: "stack_step c (unwind c depth)"
| step_push: "sat_add (x_ls_top (c_x c)) n < ls_words (c_mem c) \<Longrightarrow>
    stack_step c (c\<lparr>c_x := (c_x c)\<lparr>x_pushed := n\<rparr>\<rparr>)"
| step_body: "c_frames d = c_frames c \<Longrightarrow> x_ls_top (c_x d) = x_ls_top (c_x c) \<Longrightarrow>
    x_pushed (c_x d) = x_pushed (c_x c) \<Longrightarrow> x_locals_words (c_x d) = x_locals_words (c_x c) \<Longrightarrow>
    ls_words (c_mem d) = ls_words (c_mem c) \<Longrightarrow> c_config d = c_config c \<Longrightarrow> stack_step c d"

inductive stack_reach :: "'s core \<Rightarrow> 's core \<Rightarrow> bool" for c where
  reach_refl: "stack_reach c c"
| reach_step: "stack_reach c d \<Longrightarrow> stack_step d e \<Longrightarrow> stack_reach c e"

lemma stack_step_wf: "stack_step c d \<Longrightarrow> stack_wf c \<Longrightarrow> stack_wf d"
proof (induction rule: stack_step.induct)
  case (step_push c n)
  have "unat (x_ls_top (c_x c)) + unat n \<le> unat (ls_words (c_mem c))"
    using step_push.hyps unat_u32_bound [of "ls_words (c_mem c)"]
    by (simp add: word_less_nat_alt unat_sat_add min_def split: if_splits)
  then show ?case using step_push.prems by (simp add: stack_wf_def)
next
  case (step_body d c)
  then show ?case by (auto intro: stack_wf_cong)
qed (auto intro: enter_stack_wf leave_stack_wf simp: unwind_stack)

text \<open>C14: over any history of calls, returns, unwinds and pushes the frame stack never exceeds the
  configured call depth, the local stack never exceeds its size, and the local stack always is what
  the frames account for.\<close>

theorem call_stack_bounded:
  assumes "stack_reach c d" "stack_wf c"
  shows "stack_wf d \<and> length (c_frames d) \<le> unat (l_call_depth (g_limits (c_config d))) \<and>
    unat (x_ls_top (c_x d)) + unat (x_pushed (c_x d)) \<le> unat (ls_words (c_mem d))"
proof -
  have "stack_wf d" using assms by (induction rule: stack_reach.induct) (auto intro: stack_step_wf)
  then show ?thesis by (simp add: stack_wf_def)
qed

text \<open>Unwinding to a depth pops exactly the frames above it and keeps the stack consistent.\<close>

theorem unwind_reaches_depth:
  assumes "stack_wf c"
  shows "length (c_frames (unwind c d)) = min (length (c_frames c)) d \<and> stack_wf (unwind c d)"
  using unwind_stack [OF assms] by blast

text \<open>C15: unwinding out of a call into another progs copies the callee's RETURN slot (and the shared
  globals) to the caller's progs, so an aborted or failed call does touch the return slot.\<close>

theorem unwind_copies_return_slot:
  assumes "c_frames c = fs @ [f]" "fr_prnum f \<noteq> x_prnum (c_x c)"
    and "core_progs_at c (x_prnum (c_x c)) = Some a" "core_progs_at c (fr_prnum f) = Some b"
    and "unat (ps_gbase b) + 16 \<le> length (ms (c_mem c))"
    and "unat (ps_gbase a) + 16 \<le> unat (ps_gbase b) \<or> unat (ps_gbase b) + 16 \<le> unat (ps_gbase a)"
    and "\<forall>(s, d, n) \<in> set (shared_pairs a b).
      unat (ps_gbase b) + 16 \<le> d \<or> d + n * 4 \<le> unat (ps_gbase b) + 4"
    and "i < 3"
  shows "mem_g (c_mem (unwind c (length fs))) (unat (ps_gbase b) + 4 + i * 4) =
         mem_g (c_mem (restore_locals c)) (unat (ps_gbase a) + 4 + i * 4)"
proof -
  let ?a = "unat (ps_gbase a)" and ?b = "unat (ps_gbase b)" and ?m = "c_mem (restore_locals c)"
  have p: "core_progs_at (pop_frame (restore_locals c) f) k = core_progs_at c k" for k
    by (simp add: core_progs_at_def pop_frame_def restore_locals_def Let_def)
  have x: "x_prnum (c_x (restore_locals c)) = x_prnum (c_x c)"
    by (simp add: restore_locals_def Let_def)
  have l: "leave c = switch_out (pop_frame (restore_locals c) f) (x_prnum (c_x c)) (fr_prnum f)"
    using assms(1,2) by (simp add: leave_def Let_def x)
  have len: "length (ms ?m) = length (ms (c_mem c))"
    using s_only_fields(11) [OF s_only_move_s] by (simp add: restore_locals_def Let_def)
  have "unwind c (length fs) = leave c"
    using assms(1) by (simp add: unwind.simps [of c] unwind.simps [of "leave c"])
  then have "mem_g (c_mem (unwind c (length fs))) (?b + 4 + i * 4) =
      mem_g (mem_copy_g ?m (?a + 4) (?b + 4) 3) (?b + 4 + i * 4)"
    unfolding l switch_out_def p assms(3,4) using assms(7,8)
    by (auto simp: OFS_RETURN_def intro!: copy_all_frame)
  also have "\<dots> = mem_g ?m (?a + 4 + i * 4)"
    using assms len by (intro mem_copy_g_copies) auto
  finally show ?thesis .
qed

section \<open>Witnesses\<close>

definition sample_called :: "u8 \<Rightarrow> unit core" where
  "sample_called pr = fst (enter sample_core pr 1 5)"

lemma sample_core_simps [simp]:
  "c_frames sample_core = []" "c_mem sample_core = sample_mem" "c_x sample_core = exec_default"
  "c_progs sample_core = [sample_progs 64, sample_progs 192]"
  "g_limits (c_config sample_core) = default_limits"
  by (simp_all add: sample_core_def config_menu_def config_base_def)

lemma sample_mem_simps [simp]:
  "length (ms sample_mem) = 404" "ls_base sample_mem = 320" "ls_words sample_mem = 20"
  by (simp_all add: sample_mem_def)

lemma sample_stack_wf: "stack_wf sample_core"
  by (simp add: stack_wf_def exec_default_def)

lemma sample_enter: "enter sample_core 0 1 5 = (sample_called 0, None)"
  unfolding sample_called_def
  by (rule prod_eqI) (simp_all add: enter_def exec_default_def default_limits_def
      core_progs_at_def nth_opt_def checked_add_def mem_move_s_def ls_address_def word_less_nat_alt)

lemma sample_cross: "enter sample_core 1 1 5 = (sample_called 1, None)"
proof -
  let ?d = "switch_in sample_core 0 1"
  have d: "length (ms (c_mem ?d)) = 404" "ls_base (c_mem ?d) = 320" "ls_words (c_mem ?d) = 20"
    using s_only_fields(8,9,11) [OF s_only_switch(1) [of sample_core 0 1]] by simp_all
  have p: "core_progs_at ?d 1 = Some (sample_progs 192)" by (simp add: switch_in_def core_progs_at_def nth_opt_def split: option.split)
  show ?thesis
    unfolding sample_called_def
    by (rule prod_eqI) (simp_all add: enter_def exec_default_def default_limits_def p d nth_opt_def checked_add_def Let_def
        mem_move_s_def ls_address_def word_less_nat_alt)
qed

theorem return_restores_caller_witness:
  "c_frames (leave (sample_called 1)) = [] \<and> c_x (leave (sample_called 1)) = exec_default\<lparr>x_pc := 5\<rparr>"
proof -
  have b: "unat (pc_dst cp) + 4 \<le> ls_address (c_mem sample_core) (x_ls_top (c_x sample_core) + x_pushed (c_x sample_core)) \<or> P"
    if "core_progs_at sample_core 1 = Some ps" "nth_opt (ps_funcs ps) (unat (1 :: u32)) = Some (Some q)"
      "cp \<in> set (func_copies ps q)" for ps q cp P
  proof -
    have "ps = sample_progs 192" using that(1) by (simp add: core_progs_at_def nth_opt_def)
    then have "q = \<lparr>q_entry = 1, q_locals_addr = 304, q_locals_words = 2, q_copies_start = 0,
        q_copies_end = 1\<rparr>" using that(2) by (simp add: nth_opt_def)
    then have "cp = \<lparr>pc_src = 208, pc_dst = 304\<rparr>"
      using that(3) \<open>ps = sample_progs 192\<close> by (simp add: func_copies_def slice_def)
    then show ?thesis by (simp add: ls_address_def exec_default_def)
  qed
  show ?thesis
    using return_restores_caller [OF sample_cross b refl refl refl refl refl refl refl refl]
    by (simp add: exec_default_def)
qed

theorem call_stack_bounded_witness: "length (c_frames (sample_called 0)) \<le> 1024"
proof -
  have "stack_reach sample_core (sample_called 0)"
    using sample_enter by (blast intro: reach_refl reach_step step_call)
  then have "length (c_frames (sample_called 0)) \<le>
      unat (l_call_depth (g_limits (c_config (sample_called 0))))"
    using call_stack_bounded sample_stack_wf by blast
  moreover have "c_config (sample_called 0) = c_config sample_core"
    by (rule enter_ok [OF sample_enter]) (simp add: exec_default_def)
  ultimately show ?thesis by (simp add: default_limits_def)
qed

theorem unwind_reaches_depth_witness: "length (c_frames (unwind (sample_called 0) 0)) = 0"
  using unwind_reaches_depth [OF enter_stack_wf [OF sample_stack_wf sample_enter], of 0] by simp

text \<open>A call from progs 0 into progs 1, unwound.\<close>

definition sample_crossed :: "unit core" where
  "sample_crossed = sample_core\<lparr>
     c_frames := [\<lparr>fr_resume_pc = 5, fr_func = NO_FUNCTION, fr_prnum = 0, fr_pushed = 0,
       fr_switch_ref = 0, fr_switch_kind = SwFloat, fr_locals_at = 0, fr_locals_addr = 0,
       fr_locals_words = 0\<rparr>],
     c_x := exec_default\<lparr>x_prnum := 1\<rparr>, c_mem := mem_set_g sample_mem 196 7\<rparr>"

theorem unwind_copies_return_slot_witness:
  "mem_g (c_mem (unwind sample_crossed 0)) 68 = 7 \<and> mem_g (c_mem sample_crossed) 68 = 0"
proof -
  have m: "c_mem (restore_locals sample_crossed) = mem_set_g sample_mem 196 7"
    by (simp add: restore_locals_def Let_def sample_crossed_def exec_default_def mem_move_s_def
        copy_within_def splice_def sat_sub_def ls_address_def)
  have "mem_g (c_mem (unwind sample_crossed (length ([] :: frame list)))) (unat (ps_gbase (sample_progs 64)) + 4 + 0 * 4) =
      mem_g (c_mem (restore_locals sample_crossed)) (unat (ps_gbase (sample_progs 192)) + 4 + 0 * 4)"
    by (rule unwind_copies_return_slot [where f = "last (c_frames sample_crossed)"])
      (simp_all add: sample_crossed_def exec_default_def core_progs_at_def nth_opt_def
        shared_pairs_def List.map_filter_simps)
  then have "mem_g (c_mem (unwind sample_crossed 0)) 68 = 7"
    by (simp add: m mem_g_set_same)
  moreover have "mem_g (c_mem sample_crossed) 68 = 0"
    by (simp add: sample_crossed_def mem_g_set_other)
      (simp add: mem_g_def sample_mem_def u32_at_eq eval_nat_numeral)
  ultimately show ?thesis by blast
qed

end
