(* ===== verification/Operands.thy ===== *)
theory Operands
  imports Calls
begin

text \<open>
  How the interpreter reaches its operands (\<open>src/vm/interp.rs\<close>): the two views of region S
  (bounds-checked, and the unchecked window), the fast paths for entity fields and pointers, and the
  general out-of-line helpers they fall back to.  The lemmas show that a fast path that succeeds does
  exactly what the general path does.
\<close>

section \<open>Views\<close>

datatype (plugins only: code size) view = Whole | Window

definition WINDOW :: nat where "WINDOW = 2 ^ 22 + 16"
definition WINDOW_MASK :: nat where "WINDOW_MASK = 2 ^ 22 - 1"

text \<open>Whether the view of region S exists, how many bytes a pointer reaches in it, and where an
  operand offset lies in it (the window masks it).\<close>

definition view_ok :: "view \<Rightarrow> bytes \<Rightarrow> bool" where
  "view_ok v s = (case v of Whole \<Rightarrow> True | Window \<Rightarrow> WINDOW \<le> length s)"

definition view_len :: "view \<Rightarrow> bytes \<Rightarrow> nat" where
  "view_len v s = (case v of Whole \<Rightarrow> length s | Window \<Rightarrow> WINDOW)"

definition view_ofs :: "view \<Rightarrow> nat \<Rightarrow> nat" where
  "view_ofs v o' = (case v of Whole \<Rightarrow> o' | Window \<Rightarrow> o' AND WINDOW_MASK)"

definition view_code :: "view \<Rightarrow> stmt list \<Rightarrow> stmt list option" where
  "view_code v code =
     (case v of Whole \<Rightarrow> Some code | Window \<Rightarrow> first_chunk CODE_WINDOW code)"

definition code_at :: "view \<Rightarrow> stmt list \<Rightarrow> u32 \<Rightarrow> stmt option" where
  "code_at v code pc =
     (case v of Whole \<Rightarrow> nth_opt code (unat pc)
      | Window \<Rightarrow> nth_opt code (unat pc AND (CODE_WINDOW - 1)))"

text \<open>\<open>g\<close> and \<open>set\<close>: a word of the view; a masked offset always lies in the window.\<close>

definition rd :: "view \<Rightarrow> memory \<Rightarrow> nat \<Rightarrow> u32" where
  "rd v m o' = mem_g m (view_ofs v o')"

definition wr :: "view \<Rightarrow> memory \<Rightarrow> nat \<Rightarrow> u32 \<Rightarrow> memory" where
  "wr v m o' x = mem_set_g m (view_ofs v o') x"

definition rd3 :: "view \<Rightarrow> memory \<Rightarrow> nat \<Rightarrow> u32 \<times> u32 \<times> u32" where
  "rd3 v m o' = (rd v m o', rd v m (o' + 4), rd v m (o' + 8))"

text \<open>\<open>copy\<close>: words in increasing order.\<close>

definition wcopy :: "view \<Rightarrow> memory \<Rightarrow> nat \<Rightarrow> nat \<Rightarrow> nat \<Rightarrow> memory" where
  "wcopy v m src dst n = foldl (\<lambda>m i. wr v m (dst + i * 4) (rd v m (src + i * 4))) m [0..<n]"

definition window_fits :: "'s core \<Rightarrow> bool" where
  "window_fits c \<longleftrightarrow>
     WINDOW \<le> length (ms (c_mem c)) \<and>
     (\<forall>ps \<in> set (c_progs c).
        unat (ps_gbase ps) + (unat (ps_num_globals ps) + 5) * 4 \<le> WINDOW_MASK \<and>
        length (ps_code ps) = CODE_WINDOW)"

section \<open>Fast paths\<close>

text \<open>The \<open>n\<close> bytes of field \<open>f\<close> of entity \<open>e\<close>, with the offset computed in 64 bits.\<close>

definition ent_ofs :: "memory \<Rightarrow> u32 \<Rightarrow> u32 \<Rightarrow> nat" where
  "ent_ofs m e f = unat (wrapping_shl (ucast e :: u64) (stride_shift m) + ucast f * 4)"

definition ent_field :: "memory \<Rightarrow> nat \<Rightarrow> u32 \<Rightarrow> u32 \<Rightarrow> bytes option" where
  "ent_field m n e f =
     (if unat (field_bytes m) < unat f * 4 + n then None
      else Option.bind (slice_from (me m) (ent_ofs m e f)) (first_chunk n))"

definition word_bytes :: "view \<Rightarrow> memory \<Rightarrow> nat \<Rightarrow> nat \<Rightarrow> bytes" where
  "word_bytes v m o' n = concat (map (\<lambda>k. le_bytes 4 (rd v m (o' + k * 4))) [0..<n])"

text \<open>\<open>store_field_view\<close> of \<open>n\<close> words; \<open>None\<close> when it does nothing and returns false.\<close>

definition store_field_view :: "view \<Rightarrow> memory \<Rightarrow> nat \<Rightarrow> nat \<Rightarrow> nat \<Rightarrow> nat \<Rightarrow> memory option" where
  "store_field_view v m n oa ob oc =
     (let e = rd v m oa; f = rd v m ob
      in if unat (field_bytes m) < unat f * 4 + n * 4 then None
         else (case nth_opt (slots m) (unat e) of
                 None \<Rightarrow> None
               | Some s \<Rightarrow>
                   if protected s then None
                   else let off = ent_ofs m e f
                     in if off + n * 4 \<le> length (me m)
                        then Some (m\<lparr>me := splice (me m) off (word_bytes v m oc n)\<rparr>) else None))"

definition ent_target :: "memory \<Rightarrow> u32 \<Rightarrow> nat \<Rightarrow> (nat \<times> bool) option" where
  "ent_target m p n =
     Option.bind (checked_sub p (e_base m)) (\<lambda>off.
       let e = wrapping_shr off (stride_shift m);
           within = off AND (wrapping_shl 1 (stride_shift m) - 1)
       in Option.bind (nth_opt (slots m) (unat e)) (\<lambda>s.
            if unat within + n \<le> unat (field_bytes m) then Some (unat off, protected s) else None))"

definition ptr_write_view :: "view \<Rightarrow> memory \<Rightarrow> u32 \<Rightarrow> bytes \<Rightarrow> memory option" where
  "ptr_write_view v m p bs =
     (let n = length bs
      in if unat p + n \<le> view_len v (ms m) then
           (if p = 0 then None else Some (m\<lparr>ms := splice (ms m) (unat p) bs\<rparr>))
         else (case ent_target m p n of
                 Some (off, False) \<Rightarrow>
                   if off + n \<le> length (me m) then Some (m\<lparr>me := splice (me m) off bs\<rparr>) else None
               | _ \<Rightarrow> None))"

definition ptr_read_view :: "view \<Rightarrow> memory \<Rightarrow> nat \<Rightarrow> u32 \<Rightarrow> bytes option" where
  "ptr_read_view v m n p =
     (if unat p + n \<le> view_len v (ms m) then Some (take n (drop (unat p) (ms m)))
      else Option.bind (ent_target m p n) (\<lambda>(off, _).
        Option.bind (slice_from (me m) off) (first_chunk n)))"

text \<open>What a Hexen 2 read-modify-write opcode computes from the old value and the operand.\<close>

definition compound_apply :: "compoundp_op \<Rightarrow> u32 \<Rightarrow> u32 \<Rightarrow> u32" where
  "compound_apply p b a =
     (case p of MulStorePF \<Rightarrow> f32_mul b a | DivStorePF \<Rightarrow> f32_div b a
      | AddStorePF \<Rightarrow> f32_add b a | _ \<Rightarrow> f32_sub b a)"

definition compound_store_view ::
  "view \<Rightarrow> memory \<Rightarrow> compoundp_op \<Rightarrow> nat \<Rightarrow> nat \<Rightarrow> nat \<Rightarrow> memory option" where
  "compound_store_view v m p oa ob oc =
     (let ptr = rd v m ob; a = rd v m oa
      in if unat ptr + 4 \<le> view_len v (ms m) then
           (if ptr = 0 then None
            else let x = compound_apply p (mem_g m (unat ptr)) a
                 in Some (wr v (mem_set_g m (unat ptr) x) oc x))
         else (case ent_target m ptr 4 of
                 Some (off, False) \<Rightarrow>
                   (if off + 4 \<le> length (me m) then
                      let x = compound_apply p (ent_word m off) a
                      in Some (wr v (set_ent_word m off x) oc x)
                    else None)
               | _ \<Rightarrow> None))"

section \<open>General paths\<close>

definition bad_field_access :: "'s core \<Rightarrow> u32 \<Rightarrow> u32 \<Rightarrow> 's core" where
  "bad_field_access c e f =
     core_warn c (if num_edicts (c_mem c) \<le> e then BadEntity e else BadField f)"

definition store_field :: "'s core \<Rightarrow> nat \<Rightarrow> nat \<Rightarrow> nat \<Rightarrow> nat \<Rightarrow> 's core" where
  "store_field c oa ob oc n =
     (let e = mem_g (c_mem c) oa; f = mem_g (c_mem c) ob
      in if num_edicts (c_mem c) \<le> e then core_warn c (BadEntity e)
         else (case field_offset (c_mem c) e f (of_nat n) of
                 None \<Rightarrow> core_warn c (BadField f)
               | Some off \<Rightarrow>
                   if ent_protected (c_mem c) e then core_warn c (ReadOnlyEntity e)
                   else c\<lparr>c_mem := foldl (\<lambda>m k. set_ent_word m (off + k * 4) (mem_g m (oc + k * 4)))
                            (c_mem c) [0..<n]\<rparr>))"

definition str_or_warn :: "'s core \<Rightarrow> u32 \<Rightarrow> 's core \<times> bytes" where
  "str_or_warn c r =
     (case str_bytes c r of
        None \<Rightarrow> (core_warn c (BadString r), [])
      | Some t \<Rightarrow> (c, t))"

definition text_of :: "'s core \<Rightarrow> u32 \<Rightarrow> bytes" where
  "text_of c r = (case str_bytes c r of Some t \<Rightarrow> t | None \<Rightarrow> [])"

definition strings_equal :: "'s core \<Rightarrow> u32 \<Rightarrow> u32 \<Rightarrow> 's core \<times> bool" where
  "strings_equal c a b =
     (if a = b then (c, True)
      else if a = 0 \<or> b = 0 then
        (case str_or_warn c (if a = 0 then b else a) of (c, t) \<Rightarrow> (c, t = []))
      else
        let c = fst (str_or_warn (fst (str_or_warn c a)) b)
        in (c, text_of c a = text_of c b))"

text \<open>The raw \<open>strcmp\<close> result: the first difference of the texts with their terminators.\<close>

definition raw_strcmp :: "bytes \<Rightarrow> bytes \<Rightarrow> int" where
  "raw_strcmp a b =
     (case filter (\<lambda>d. d \<noteq> 0) (map (\<lambda>(x, y). uint x - uint y) (zip (a @ [0]) (b @ [0]))) of
        [] \<Rightarrow> 0 | d # _ \<Rightarrow> d)"

definition string_compare :: "'s core \<Rightarrow> strcmp_op \<Rightarrow> u32 \<Rightarrow> u32 \<Rightarrow> 's core \<times> u32" where
  "string_compare c p a b =
     (case strings_equal c a b of
        (c, eq) \<Rightarrow>
          if p = EqS then (c, fbool eq)
          else if eq \<or> \<not> fc_ne_s_raw_strcmp (g_compat (c_config c)) then (c, fbool (\<not> eq))
          else (c, f32_of_int (raw_strcmp (text_of c a) (text_of c b))))"

definition ptr_read_slow :: "'s core \<Rightarrow> nat \<Rightarrow> u32 \<Rightarrow> u32 \<Rightarrow> u32 \<Rightarrow> error_kind + bytes" where
  "ptr_read_slow c n base offset addr =
     (if addr = - 1 then Inr (replicate n 0)
      else
        case (case classify base of
                Temp slot \<Rightarrow> temp_raw (c_strings c) slot
              | Static i \<Rightarrow> static_str (c_strings c) i
              | Linear _ \<Rightarrow> None) of
          None \<Rightarrow> Inl (BadPointerRead addr)
        | Some d \<Rightarrow>
            Inr (map (\<lambda>i. case nth_opt d (unat offset + i) of Some b \<Rightarrow> b | None \<Rightarrow> 0) [0..<n]))"

definition ptr_read :: "'s core \<Rightarrow> nat \<Rightarrow> u32 \<Rightarrow> u32 \<Rightarrow> error_kind + bytes" where
  "ptr_read c n base offset =
     (case mem_read (c_mem c) n (base + offset) of
        Some bs \<Rightarrow> Inr bs
      | None \<Rightarrow> ptr_read_slow c n base offset (base + offset))"

text \<open>Temp strings grow when written past their end; a write at the sentinel address is skipped.\<close>

definition ptr_write_slow ::
  "'s core \<Rightarrow> u32 \<Rightarrow> u32 \<Rightarrow> u32 \<Rightarrow> bytes \<Rightarrow> write_error \<Rightarrow> 's core \<times> error_kind option" where
  "ptr_write_slow c base offset addr bs err =
     (if addr = - 1 then (c, None)
      else if base AND TAG_MASK = TEMP_TAG then
        let start = unat offset; fin = start + length bs; slot = base AND INDEX_MASK
        in (case temp_raw_mut (c_strings c) slot fin of
              None \<Rightarrow> (c, Some (BadPointerWrite addr))
            | Some (s, d) \<Rightarrow>
                if fin \<le> length d
                then (c\<lparr>c_strings := set_temp s slot (splice d start bs)\<rparr>, None)
                else (c\<lparr>c_strings := s\<rparr>, Some (BadPointerWrite addr)))
      else (c, Some (case err of WNull \<Rightarrow> NullPointerWrite | _ \<Rightarrow> BadPointerWrite addr)))"

definition ptr_write :: "'s core \<Rightarrow> u32 \<Rightarrow> u32 \<Rightarrow> bytes \<Rightarrow> 's core \<times> error_kind option" where
  "ptr_write c base offset bs =
     (case mem_write (c_mem c) (base + offset) bs of
        Inr m \<Rightarrow> (c\<lparr>c_mem := m\<rparr>, None)
      | Inl (WProtected e) \<Rightarrow> (core_warn c (ReadOnlyEntity e), None)
      | Inl err \<Rightarrow> ptr_write_slow c base offset (base + offset) bs err)"

definition store_or_keep :: "memory \<Rightarrow> u32 \<Rightarrow> u32 \<Rightarrow> memory" where
  "store_or_keep m at x = (case mem_write_u32 m at x of Inr m \<Rightarrow> m | Inl _ \<Rightarrow> m)"

definition read_or_zero :: "memory \<Rightarrow> u32 \<Rightarrow> u32" where
  "read_or_zero m at = (case mem_read_u32 m at of Some x \<Rightarrow> x | None \<Rightarrow> 0)"

definition compound_rmw :: "memory \<Rightarrow> compoundp_op \<Rightarrow> u32 \<Rightarrow> nat \<Rightarrow> nat \<Rightarrow> memory" where
  "compound_rmw m p ptr oa oc =
     (case p of
        MulStorePVF \<Rightarrow>
          (let f = mem_g m oa
           in foldl (\<lambda>m k. let at = ptr + of_nat k * 4; x = f32_mul (read_or_zero m at) f
                in mem_set_g (store_or_keep m at x) (oc + k * 4) x) m [0..<3])
      | AddStorePV \<Rightarrow>
          foldl (\<lambda>m k. let at = ptr + of_nat k * 4;
                           x = f32_add (read_or_zero m at) (mem_g m (oa + k * 4))
                in mem_set_g (store_or_keep m at x) (oc + k * 4) x) m [0..<3]
      | SubStorePV \<Rightarrow>
          foldl (\<lambda>m k. let at = ptr + of_nat k * 4;
                           x = f32_sub (read_or_zero m at) (mem_g m (oa + k * 4))
                in mem_set_g (store_or_keep m at x) (oc + k * 4) x) m [0..<3]
      | BitSetStorePF \<Rightarrow>
          store_or_keep m ptr
            (f32_of_int (sint (f2i (read_or_zero m ptr) OR f2i (mem_g m oa))))
      | BitClrStorePF \<Rightarrow>
          store_or_keep m ptr
            (f32_of_int (sint (f2i (read_or_zero m ptr) AND NOT (f2i (mem_g m oa)))))
      | _ \<Rightarrow>
          (let x = compound_apply p (read_or_zero m ptr) (mem_g m oa)
           in mem_set_g (store_or_keep m ptr x) oc x))"

definition compound_pointer_store ::
  "'s core \<Rightarrow> compoundp_op \<Rightarrow> nat \<Rightarrow> nat \<Rightarrow> nat \<Rightarrow> 's core \<times> error_kind option" where
  "compound_pointer_store c p oa ob oc =
     (let ptr = mem_g (c_mem c) ob;
          n = (if p \<in> {MulStorePVF, AddStorePV, SubStorePV} then 12 else 4)
      in case check_write (c_mem c) ptr n of
           Inr _ \<Rightarrow> (c\<lparr>c_mem := compound_rmw (c_mem c) p ptr oa oc\<rparr>, None)
         | Inl (WProtected e) \<Rightarrow> (core_warn c (ReadOnlyEntity e), None)
         | Inl WNull \<Rightarrow> (c, Some NullPointerWrite)
         | Inl (WInvalid _) \<Rightarrow> (c, Some (BadPointerWrite ptr)))"

definition missing_builtin :: "'s core \<Rightarrow> u32 \<Rightarrow> error_kind" where
  "missing_builtin c target =
     (case Option.bind (core_progs_at c (func_progs target))
             (\<lambda>ps. program_function (ps_program ps) (func_index target)) of
        Some i \<Rightarrow>
          BuiltinNotImplemented (case fi_kind i of FBuiltin n \<Rightarrow> n | _ \<Rightarrow> 0) (fi_name i)
      | None \<Rightarrow> BuiltinNotImplemented 0 [])"

section \<open>Operand access\<close>

text \<open>
  What every instruction relies on: a store to an operand changes that word and no other, and only
  region S.  Both views provide it; in the window an offset counts modulo its size.
\<close>

locale operand_access =
  fixes read :: "memory \<Rightarrow> nat \<Rightarrow> u32"
    and store :: "memory \<Rightarrow> nat \<Rightarrow> u32 \<Rightarrow> memory"
    and at :: "nat \<Rightarrow> nat"
    and room :: "memory \<Rightarrow> nat \<Rightarrow> bool"
  assumes read_store: "room m o' \<Longrightarrow> read (store m o' x) o' = x"
    and read_other: "at o' + 4 \<le> at q \<or> at q + 4 \<le> at o' \<Longrightarrow> read (store m o' x) q = read m q"
    and store_s_only: "s_only m (store m o' x)"
    and room_store: "room (store m q x) o' \<longleftrightarrow> room m o'"
begin

lemma store_wf: "mem_wf m \<Longrightarrow> mem_wf (store m o' x)"
  using s_only_wf store_s_only by blast

lemma store_store:
  assumes "room m o'" "at o' + 4 \<le> at q \<or> at q + 4 \<le> at o'"
  shows "read (store (store m o' x) q y) o' = x"
  using assms by (metis read_other read_store)

lemma stores_s_only: "s_only m (foldl (\<lambda>m k. store m (d k) (f m k)) m ks)"
  by (rule s_only_foldl) (rule store_s_only)

lemma stores_read:
  assumes "\<And>j k. j < n \<Longrightarrow> k < n \<Longrightarrow> j \<noteq> k \<Longrightarrow> at (d j) + 4 \<le> at (d k) \<or> at (d k) + 4 \<le> at (d j)"
    and "\<And>k. k < n \<Longrightarrow> room m (d k)" "k < n"
  shows "read (foldl (\<lambda>m k. store m (d k) (f k)) m [0..<n]) (d k) = f k"
  using assms
proof (induction n)
  case (Suc n)
  let ?m = "foldl (\<lambda>m k. store m (d k) (f k)) m [0..<n]"
  have room: "room (foldl (\<lambda>m k. store m (d k) (f k)) m ks) (d n)" for ks
    using Suc.prems(2) [of n] by (induction ks arbitrary: m) (simp_all add: room_store)
  show ?case
  proof (cases "k = n")
    case True
    then show ?thesis using room [of "[0..<n]"] by (simp add: read_store)
  next
    case False
    then have "read ?m (d k) = f k" using Suc by simp
    moreover have "at (d n) + 4 \<le> at (d k) \<or> at (d k) + 4 \<le> at (d n)"
      using Suc.prems(1) [of n k] False Suc.prems(3) by simp
    ultimately show ?thesis by (simp add: read_other)
  qed
qed simp

end

definition operand_room :: "view \<Rightarrow> memory \<Rightarrow> nat \<Rightarrow> bool" where
  "operand_room v m o' \<longleftrightarrow> view_ofs v o' + 4 \<le> length (ms m)"

interpretation operands_in: operand_access "rd v" "wr v" "view_ofs v" "operand_room v" for v
proof
  show "operand_room v m o' \<Longrightarrow> rd v (wr v m o' x) o' = x" for m o' x
    by (simp add: rd_def wr_def operand_room_def mem_g_set_same)
  show "view_ofs v o' + 4 \<le> view_ofs v q \<or> view_ofs v q + 4 \<le> view_ofs v o' \<Longrightarrow>
      rd v (wr v m o' x) q = rd v m q" for m o' x q
    by (simp add: rd_def wr_def mem_g_set_other)
  show "s_only m (wr v m o' x)" for m o' x by (simp add: wr_def s_only_set_g)
  show "operand_room v (wr v m q x) o' \<longleftrightarrow> operand_room v m o'" for m q x o'
    by (simp add: operand_room_def wr_def)
qed

lemma view_ofs_window: "o' \<le> WINDOW_MASK \<Longrightarrow> view_ofs v o' = o'"
proof (cases v)
  case Window
  assume "o' \<le> WINDOW_MASK"
  then have "o' < 2 ^ 22" by (simp add: WINDOW_MASK_def)
  moreover have "o' AND WINDOW_MASK = take_bit 22 o'"
    by (simp add: take_bit_eq_mask WINDOW_MASK_def mask_eq_exp_minus_1)
  ultimately show ?thesis by (simp add: view_ofs_def Window take_bit_nat_eq_self)
qed (simp add: view_ofs_def)

lemma window_room: "WINDOW \<le> length (ms m) \<Longrightarrow> operand_room Window m o'"
proof -
  have "o' AND WINDOW_MASK = take_bit 22 o'"
    by (simp add: take_bit_eq_mask WINDOW_MASK_def mask_eq_exp_minus_1)
  then have "o' AND WINDOW_MASK < 2 ^ 22" by (metis take_bit_nat_less_exp)
  then show "WINDOW \<le> length (ms m) \<Longrightarrow> ?thesis"
    by (simp add: operand_room_def view_ofs_def WINDOW_def)
qed

lemma wr_s_only [s_only_intros]: "s_only m (wr v m o' x)"
  by (rule operands_in.store_s_only)

lemma wcopy_s_only [s_only_intros]: "s_only m (wcopy v m src dst n)"
  unfolding wcopy_def by (rule operands_in.stores_s_only)

section \<open>The fast paths are exact\<close>

lemma ent_target_locates:
  assumes wf: "mem_wf m" and t: "ent_target m p n = Some (off, pr)" and n: "0 < n"
  obtains e where "locate m p n = Some (LocE off e)" "ent_protected m e = pr"
    "off + n \<le> length (me m)"
proof -
  from t obtain d sl where d: "checked_sub p (e_base m) = Some d"
    and sl: "nth_opt (slots m) (unat (wrapping_shr d (stride_shift m))) = Some sl"
    and w: "unat (d AND (wrapping_shl 1 (stride_shift m) - 1)) + n \<le> unat (field_bytes m)"
    and o': "off = unat d" "pr = protected sl"
    by (auto simp: ent_target_def Let_def Option.bind_eq_Some_conv split: if_splits)
  have sh: "stride_shift m < 32" using wf by (simp add: mem_wf_def)
  let ?e = "wrapping_shr d (stride_shift m)"
  note bm = block_mask [OF sh, of d]
  have p: "unat p = unat (e_base m) + unat d" using checked_sub_Some [OF d] by (simp add: word_le_nat_alt)
  have div: "unat ?e * block_len m + unat d mod block_len m = unat d" by (simp add: bm)
  have e: "unat ?e < length (slots m)" using sl by (simp add: nth_opt_Some)
  have l: "lands m p n (LocE (unat ?e * block_len m + unat d mod block_len m) ?e)"
    using p div e w bm by (intro lands_E) (simp_all add: block_len_def)
  then have loc: "locate m p n = Some (LocE off ?e)"
    using lands_locate [OF wf l n] by (simp only: div o')
  have "off + n \<le> length (me m)"
    using lands_range [OF wf l] by (simp add: region_def div o')
  moreover have "ent_protected m ?e = pr" using sl by (simp add: ent_protected_def o')
  ultimately show ?thesis using that loc by blast
qed

lemma view_len_le: "view_ok v (ms m) \<Longrightarrow> view_len v (ms m) \<le> length (ms m)"
  by (cases v) (simp_all add: view_ok_def view_len_def)

lemma ptr_read_view_exact:
  assumes wf: "mem_wf m" and v: "view_ok v (ms m)" and n: "0 < n"
    and r: "ptr_read_view v m n p = Some bs"
  shows "mem_read m n p = Some bs"
proof (cases "unat p + n \<le> view_len v (ms m)")
  case True
  then have "locate m p n = Some (LocS (unat p))"
    using view_len_le [OF v] by (simp add: locate_def)
  then show ?thesis using r True mem_read_Some [OF wf] by (simp add: ptr_read_view_def region_def)
next
  case False
  then obtain off pr where t: "ent_target m p n = Some (off, pr)"
    and b: "Option.bind (slice_from (me m) off) (first_chunk n) = Some bs"
    using r by (auto simp: ptr_read_view_def Option.bind_eq_Some_conv)
  obtain e where "locate m p n = Some (LocE off e)" by (rule ent_target_locates [OF wf t n])
  then show ?thesis using b by (simp add: mem_read_def region_def)
qed

lemma ptr_write_view_exact:
  assumes wf: "mem_wf m" and s: "ms m \<noteq> []" and v: "view_ok v (ms m)"
    and n: "0 < length bs" "length bs < 2 ^ 32"
    and r: "ptr_write_view v m p bs = Some m'"
  shows "mem_write m p bs = Inr m'"
proof (cases "unat p + length bs \<le> view_len v (ms m)")
  case True
  then have "locate m p (length bs) = Some (LocS (unat p))"
    "unat p + length bs \<le> length (ms m)"
    using view_len_le [OF v] by (simp_all add: locate_def)
  then show ?thesis using r True n(2)
    by (auto simp: ptr_write_view_def mem_write_def check_write_def region_def set_region_def
        split: if_splits)
next
  case False
  then obtain off where t: "ent_target m p (length bs) = Some (off, False)"
    and b: "off + length bs \<le> length (me m)" "m' = m\<lparr>me := splice (me m) off bs\<rparr>"
    using r by (auto simp: ptr_write_view_def Let_def split: option.splits prod.splits bool.splits if_splits)
  obtain e where l: "locate m p (length bs) = Some (LocE off e)" "ent_protected m e = False"
    by (rule ent_target_locates [OF wf t n(1)])
  have "p \<noteq> 0"
  proof
    assume "p = 0"
    then have "unat (e_base m) = 0"
      using t by (auto simp: ent_target_def checked_sub_def Option.bind_eq_Some_conv word_le_nat_alt
          split: if_splits)
    then show False using wf s by (simp add: mem_wf_def)
  qed
  then show ?thesis using l b n(2)
    by (simp add: mem_write_def check_write_def region_def set_region_def ent_protected_def
        split: option.splits)
qed


lemma ent_ofs_block:
  assumes wf: "mem_wf m" and e: "unat e < length (slots m)" and f: "unat f * 4 + n \<le> unat (field_bytes m)"
  shows "ent_ofs m e f = unat e * block_len m + unat f * 4"
proof -
  have sh: "unat (stride_shift m) < 32" using wf by (simp add: mem_wf_def word_less_nat_alt)
  note ub = usize_shl_block(2) [OF wf e]
  have "length (me m) < 2 ^ 32"
    using wf slots_area [OF wf] unat_u32_bound [of "h_base m"] by (simp add: mem_wf_def)
  moreover have "unat f * 4 \<le> block_len m" using wf f by (simp add: mem_wf_def)
  ultimately have lt: "unat e * block_len m + unat f * 4 < 2 ^ 64" "unat e * block_len m < 2 ^ 64"
    using ub by simp_all
  have u: "unat (ucast w :: u64) = unat w" for w :: u32
    using unat_u32_bound [of w] by (simp add: unsigned_ucast_eq take_bit_nat_eq_self)
  have "(2 :: nat) ^ unat (stride_shift m) < 2 ^ 64"
    using sh by (intro power_strict_increasing) auto
  then have "unat (of_nat (2 ^ unat (stride_shift m)) :: u64) = block_len m"
    unfolding block_len_def by (intro unat_of_nat_small) simp
  then have "unat (wrapping_shl (ucast e :: u64) (stride_shift m)) = unat e * block_len m"
    using sh lt(2) u [of e] by (simp add: wrapping_shl_def push_bit_eq_mult unat_word_ariths)
  then show ?thesis
    using lt unat_u32_bound [of f] u [of f] by (simp add: ent_ofs_def unat_word_ariths)
qed

lemma splice_append:
  assumes "off + length a + length b \<le> length xs"
  shows "splice (splice xs off a) (off + length a) b = splice xs off (a @ b)"
proof -
  have "length a = 0" if "length xs \<le> off" using assms that by linarith
  then show ?thesis using assms by (auto simp: splice_def min_def add.commute add.left_commute)
qed

lemma length_word_list [simp]: "length (concat (map (\<lambda>k. le_bytes 4 (f k :: u32)) ks)) = length ks * 4"
  by (induction ks) simp_all

lemma set_ent_words:
  "off + n * 4 \<le> length (me m) \<Longrightarrow>
   foldl (\<lambda>m k. set_ent_word m (off + k * 4) (f k)) m [0..<n] =
     m\<lparr>me := splice (me m) off (concat (map (\<lambda>k. le_bytes 4 (f k)) [0..<n]))\<rparr>"
proof (induction n)
  case 0
  then show ?case by (simp add: splice_def)
next
  case (Suc n)
  let ?ws = "concat (map (\<lambda>k. le_bytes 4 (f k)) [0..<n])"
  have "splice (splice (me m) off ?ws) (off + n * 4) (le_bytes 4 (f n)) =
      splice (me m) off (?ws @ le_bytes 4 (f n))"
    using Suc.prems splice_append [of off ?ws "le_bytes 4 (f n)" "me m"] by simp
  then show ?case using Suc by (simp add: set_ent_word_def put_u32_def)
qed

lemma mem_g_set_ent_word [simp]: "mem_g (set_ent_word m off x) o' = mem_g m o'"
  by (simp add: mem_g_def set_ent_word_def)

lemma foldl_ent_words_const:
  "foldl (\<lambda>m k. set_ent_word m (d k) (mem_g m (s k))) m ks =
   foldl (\<lambda>m' k. set_ent_word m' (d k) (mem_g m (s k))) m ks"
proof -
  have "mem_g m' = mem_g m \<Longrightarrow>
    foldl (\<lambda>m k. set_ent_word m (d k) (mem_g m (s k))) m' ks =
    foldl (\<lambda>m' k. set_ent_word m' (d k) (mem_g m (s k))) m' ks" for m'
  proof (induction ks arbitrary: m')
    case (Cons k ks)
    have "mem_g (set_ent_word m' (d k) (mem_g m (s k))) = mem_g m" using Cons.prems by (simp add: fun_eq_iff)
    from Cons.IH [OF this] show ?case using Cons.prems by simp
  qed simp
  then show ?thesis by blast
qed

lemma field_offset_block:
  assumes "mem_wf m" "unat e < length (slots m)" "unat f * 4 + n * 4 \<le> unat (field_bytes m)"
    and "n < 2 ^ 32"
  shows "field_offset m e f (of_nat n) = Some (unat e * block_len m + unat f * 4)"
  using assms usize_shl_block(1) [OF assms(1,2)] num_edicts_less [OF assms(1)]
  by (simp add: field_offset_def Let_def word_le_nat_alt unat_of_nat_small add_mult_distrib)

lemma field_in_block:
  assumes wf: "mem_wf m" and "unat e < length (slots m)" "unat f * 4 + n \<le> unat (field_bytes m)"
  shows "unat e * block_len m + unat f * 4 + n \<le> length (me m)"
proof -
  have "unat f * 4 + n \<le> block_len m" using assms by (simp add: mem_wf_def)
  then show ?thesis using usize_shl_block(2) [OF assms(1,2)] by linarith
qed

text \<open>\<open>STOREF_*\<close>: the inner loop's fast path does exactly what the general one does. It succeeds
  precisely when the entity exists, is writable and holds the field, and then the general path writes
  the same words and records no warning.\<close>

theorem store_field_fast_path:
  assumes wf: "mem_wf (c_mem c)" and n: "n < 2 ^ 30"
    and "view_ofs v oa = oa" "view_ofs v ob = ob" "\<And>k. k < n \<Longrightarrow> view_ofs v (oc + k * 4) = oc + k * 4"
  shows "(case store_field_view v (c_mem c) n oa ob oc of
      Some m' \<Rightarrow> store_field c oa ob oc n = c\<lparr>c_mem := m'\<rparr>
    | None \<Rightarrow> \<exists>w. store_field c oa ob oc n = core_warn c w)"
proof -
  let ?m = "c_mem c"
  let ?e = "mem_g ?m oa" and ?f = "mem_g ?m ob"
  have rd: "rd v ?m oa = ?e" "rd v ?m ob = ?f" using assms(3,4) by (simp_all add: rd_def)
  have ne: "unat (num_edicts ?m) = length (slots ?m)" by (rule num_edicts_less [OF wf])
  consider (bad) "length (slots ?m) \<le> unat ?e"
    | (field) "unat ?e < length (slots ?m)" "unat (field_bytes ?m) < unat ?f * 4 + n * 4"
    | (ok) "unat ?e < length (slots ?m)" "unat ?f * 4 + n * 4 \<le> unat (field_bytes ?m)"
    by linarith
  then show ?thesis
  proof cases
    case bad
    then show ?thesis
      using ne by (simp add: store_field_view_def rd nth_opt_def store_field_def word_le_nat_alt Let_def)
        blast
  next
    case field
    then have "field_offset ?m ?e ?f (of_nat n) = None"
      using ne n by (simp add: field_offset_def Let_def word_le_nat_alt unat_of_nat_small add_mult_distrib)
    with field show ?thesis
      using ne by (simp add: store_field_view_def rd store_field_def word_le_nat_alt Let_def) blast
  next
    case ok
    let ?off = "unat ?e * block_len ?m + unat ?f * 4"
    have off: "ent_ofs ?m ?e ?f = ?off" "field_offset ?m ?e ?f (of_nat n) = Some ?off"
      "?off + n * 4 \<le> length (me ?m)"
      using ent_ofs_block [OF wf ok] field_offset_block [OF wf ok] field_in_block [OF wf ok] n by simp_all
    have sl: "nth_opt (slots ?m) (unat ?e) = Some (slots ?m ! unat ?e)" using ok by (simp add: nth_opt_def)
    have ws: "word_bytes v ?m oc n = concat (map (\<lambda>k. le_bytes 4 (mem_g ?m (oc + k * 4))) [0..<n])"
      using assms(5) by (auto simp: word_bytes_def rd_def intro!: arg_cong [where f = concat])
    have "foldl (\<lambda>m k. set_ent_word m (?off + k * 4) (mem_g m (oc + k * 4))) ?m [0..<n] =
        ?m\<lparr>me := splice (me ?m) ?off (word_bytes v ?m oc n)\<rparr>"
      unfolding foldl_ent_words_const ws by (rule set_ent_words [OF off(3)])
    then show ?thesis
      using ok ne off sl
      by (auto simp: store_field_view_def rd store_field_def word_le_nat_alt Let_def ent_protected_def
          not_le [symmetric])
  qed
qed

text \<open>C16: loads and stores through pointers: when the inner loop's fast path applies, it reads or
  writes exactly the bytes the memory model's general access does, with the same null and
  protection checks.\<close>

theorem pointer_fast_path:
  assumes wf: "mem_wf m" and s: "ms m \<noteq> []" and v: "view_ok v (ms m)"
    and n: "0 < length bs" "length bs < 2 ^ 32"
  shows "(ptr_read_view v m (length bs) p = Some bs \<longrightarrow> mem_read m (length bs) p = Some bs) \<and>
    (ptr_write_view v m p bs = Some m' \<longrightarrow> mem_write m p bs = Inr m')"
  using ptr_read_view_exact [OF wf v n(1)] ptr_write_view_exact [OF wf s v n] by blast

lemma read_or_zero_S:
  "mem_wf m \<Longrightarrow> locate m p 4 = Some (LocS (unat p)) \<Longrightarrow> unat p + 4 \<le> length (ms m) \<Longrightarrow>
   read_or_zero m p = mem_g m (unat p)"
proof -
  assume a: "mem_wf m" "locate m p 4 = Some (LocS (unat p))" "unat p + 4 \<le> length (ms m)"
  then have "mem_read m 4 p = Some (take 4 (drop (unat p) (ms m)))"
    by (simp add: mem_read_Some region_def)
  then show ?thesis using a by (simp add: read_or_zero_def mem_read_u32_def mem_g_def u32_at_eq)
qed

lemma read_or_zero_E:
  "mem_wf m \<Longrightarrow> locate m p 4 = Some (LocE off e) \<Longrightarrow> off + 4 \<le> length (me m) \<Longrightarrow>
   read_or_zero m p = ent_word m off"
proof -
  assume a: "mem_wf m" "locate m p 4 = Some (LocE off e)" "off + 4 \<le> length (me m)"
  then have "mem_read m 4 p = Some (take 4 (drop off (me m)))"
    by (simp add: mem_read_Some region_def)
  then show ?thesis using a by (simp add: read_or_zero_def mem_read_u32_def ent_word_def u32_at_eq)
qed

lemma store_or_keep_S:
  "locate m p 4 = Some (LocS (unat p)) \<Longrightarrow> p \<noteq> 0 \<Longrightarrow> store_or_keep m p x = mem_set_g m (unat p) x"
  by (auto simp: store_or_keep_def mem_write_u32_def mem_write_def check_write_def region_def
      set_region_def mem_set_g_def put_u32_def)

lemma store_or_keep_E:
  "locate m p 4 = Some (LocE off e) \<Longrightarrow> \<not> ent_protected m e \<Longrightarrow> p \<noteq> 0 \<Longrightarrow>
   store_or_keep m p x = set_ent_word m off x"
  by (auto simp: store_or_keep_def mem_write_u32_def mem_write_def check_write_def region_def
      set_region_def set_ent_word_def put_u32_def ent_protected_def split: option.splits)

lemma null_in_S: "mem_wf m \<Longrightarrow> ms m \<noteq> [] \<Longrightarrow> ent_target m p n = Some t \<Longrightarrow> p \<noteq> 0"
proof
  assume a: "mem_wf m" "ms m \<noteq> []" "ent_target m p n = Some t" "p = 0"
  then have "unat (e_base m) = 0"
    by (auto simp: ent_target_def checked_sub_def Option.bind_eq_Some_conv word_le_nat_alt
        split: if_splits)
  then show False using a by (simp add: mem_wf_def)
qed

lemma compound_view_exact:
  assumes wf: "mem_wf (c_mem c)" and s: "ms (c_mem c) \<noteq> []" and v: "view_ok v (ms (c_mem c))"
    and ofs: "view_ofs v oa = oa" "view_ofs v ob = ob" "view_ofs v oc = oc"
    and p: "p \<in> {MulStorePF, DivStorePF, AddStorePF, SubStorePF}"
    and r: "compound_store_view v (c_mem c) p oa ob oc = Some m'"
  shows "compound_pointer_store c p oa ob oc = (c\<lparr>c_mem := m'\<rparr>, None)"
proof -
  let ?m = "c_mem c"
  define ptr where "ptr = mem_g ?m ob"
  define a where "a = mem_g ?m oa"
  have rd: "rd v ?m ob = ptr" "rd v ?m oa = a" using ofs by (simp_all add: rd_def ptr_def a_def)
  have wr: "wr v m oc x = mem_set_g m oc x" for m x using ofs by (simp add: wr_def)
  have rmw: "compound_rmw ?m p ptr oa oc =
      (let x = compound_apply p (read_or_zero ?m ptr) a in mem_set_g (store_or_keep ?m ptr x) oc x)"
    using p by (auto simp: compound_rmw_def a_def)
  have n4: "\<not> p \<in> {MulStorePVF, AddStorePV, SubStorePV}" using p by auto
  show ?thesis
  proof (cases "unat ptr + 4 \<le> view_len v (ms ?m)")
    case True
    have len: "unat ptr + 4 \<le> length (ms ?m)" using True view_len_le [OF v] by linarith
    then have l: "locate ?m ptr 4 = Some (LocS (unat ptr))" by (simp add: locate_def)
    have nz: "ptr \<noteq> 0" and m': "m' = (let x = compound_apply p (mem_g ?m (unat ptr)) a
        in mem_set_g (mem_set_g ?m (unat ptr) x) oc x)"
      using r True by (auto simp: compound_store_view_def rd wr Let_def split: if_splits)
    have "check_write ?m ptr 4 = Inr (LocS (unat ptr))" using l nz by (simp add: check_write_def)
    then show ?thesis
      using n4 by (simp add: compound_pointer_store_def ptr_def [symmetric] rmw m' Let_def
          read_or_zero_S [OF wf l len] store_or_keep_S [OF l nz])
  next
    case False
    then obtain off where t: "ent_target ?m ptr 4 = Some (off, False)" and off: "off + 4 \<le> length (me ?m)"
      and m': "m' = (let x = compound_apply p (ent_word ?m off) a
        in mem_set_g (set_ent_word ?m off x) oc x)"
      using r by (auto simp: compound_store_view_def rd wr Let_def
          split: if_splits option.splits prod.splits bool.splits)
    obtain e where l: "locate ?m ptr 4 = Some (LocE off e)" "ent_protected ?m e = False"
      by (rule ent_target_locates [OF wf t]) simp_all
    have nz: "ptr \<noteq> 0" by (rule null_in_S [OF wf s t])
    have "check_write ?m ptr 4 = Inr (LocE off e)"
      using l nz by (simp add: check_write_def ent_protected_def)
    then show ?thesis
      using n4 l by (simp add: compound_pointer_store_def ptr_def [symmetric] rmw m' Let_def
          read_or_zero_E [OF wf l(1) off] store_or_keep_E [OF l(1) _ nz])
  qed
qed

text \<open>The Hexen 2 read-modify-write opcodes: when the inner loop's fast path applies, the general
  path computes the same value, stores it at the same place and in the result operand, and reports
  no error.\<close>

theorem compound_fast_path:
  assumes wf: "mem_wf (c_mem c)" and s: "ms (c_mem c) \<noteq> []" and v: "view_ok v (ms (c_mem c))"
    and ofs: "view_ofs v oa = oa" "view_ofs v ob = ob" "view_ofs v oc = oc"
    and p: "p \<in> {MulStorePF, DivStorePF, AddStorePF, SubStorePF}"
    and r: "compound_store_view v (c_mem c) p oa ob oc = Some m'"
  shows "compound_pointer_store c p oa ob oc = (c\<lparr>c_mem := m'\<rparr>, None)"
  by (rule compound_view_exact [OF assms])

section \<open>Witnesses\<close>

lemma sample_words [simp]: "o' + 4 \<le> 404 \<Longrightarrow> mem_g sample_mem o' = 0"
proof -
  assume "o' + 4 \<le> 404"
  then have "take 4 (drop o' (ms sample_mem)) = [0, 0, 0, 0]"
    by (simp add: sample_mem_def min_def) (simp add: eval_nat_numeral)
  then show ?thesis using \<open>o' + 4 \<le> 404\<close> by (simp add: mem_g_def u32_at_eq)
qed

lemma sample_store: "store_field_view Whole sample_mem 1 100 104 108 =
    Some (sample_mem\<lparr>me := splice (replicate 16 0) 0 [0, 0, 0, 0]\<rparr>)"
  by (simp add: store_field_view_def rd_def view_ofs_def nth_opt_def ent_ofs_def word_bytes_def
      wrapping_shl_def le_bytes_def upt_rec)
    (simp add: sample_mem_def)

theorem store_field_fast_path_witness:
  "store_field sample_core 100 104 108 1 =
     sample_core\<lparr>c_mem := sample_mem\<lparr>me := splice (replicate 16 0) 0 [0, 0, 0, 0]\<rparr>\<rparr>"
  using store_field_fast_path [of sample_core 1 Whole 100 104 108] sample_mem_wf
  by (simp add: sample_store view_ofs_def del: One_nat_def)

theorem pointer_fast_path_witness:
  "mem_read sample_mem 4 8 = Some [0, 0, 0, 0]"
  using pointer_fast_path [of sample_mem Whole "[0, 0, 0, 0]" 8 sample_mem] sample_mem_wf
  by (simp add: ptr_read_view_def view_len_def view_ok_def)
    (simp add: sample_mem_def, simp add: eval_nat_numeral)

theorem compound_fast_path_witness:
  "\<exists>m'. compound_pointer_store (sample_core\<lparr>c_mem := mem_set_g sample_mem 104 8\<rparr>) AddStorePF 100 104 108 =
     (sample_core\<lparr>c_mem := m'\<rparr>, None)"
proof -
  let ?c = "sample_core\<lparr>c_mem := mem_set_g sample_mem 104 8\<rparr>"
  have wf: "mem_wf (c_mem ?c)" using mem_set_g_wf [OF sample_mem_wf] by simp
  have "length (ms (c_mem ?c)) = 404" by simp
  then have ne: "ms (c_mem ?c) \<noteq> []" by (metis list.size(3) zero_neq_numeral)
  obtain m' where m': "compound_store_view Whole (c_mem ?c) AddStorePF 100 104 108 = Some m'"
    by (simp add: compound_store_view_def rd_def view_ofs_def view_len_def mem_g_set_same Let_def)
  show ?thesis
    using compound_fast_path [OF wf ne _ _ _ _ _ m'] by (auto simp: view_ok_def view_ofs_def)
qed

end
