(* ===== verification/DataOps.thy ===== *)
theory DataOps
  imports Operands
begin

text \<open>
  The instructions that only compute (\<open>src/vm/interp.rs\<close>): each reads operand words of region S,
  computes and writes result words back through the view.  One definition per section of the
  interpreter's \<open>match\<close>, as a function from memory to memory; nothing else can change
  (\<open>data_ops_s_only\<close>).
\<close>

section \<open>Shapes of instructions\<close>

definition each3 :: "(memory \<Rightarrow> nat \<Rightarrow> memory) \<Rightarrow> memory \<Rightarrow> memory" where
  "each3 f m = foldl f m [0, 4, 8]"

definition op2 :: "view \<Rightarrow> (u32 \<Rightarrow> u32 \<Rightarrow> u32) \<Rightarrow> nat \<Rightarrow> nat \<Rightarrow> nat \<Rightarrow> memory \<Rightarrow> memory" where
  "op2 v f oa ob oc m = wr v m oc (f (rd v m oa) (rd v m ob))"

definition op1 :: "view \<Rightarrow> (u32 \<Rightarrow> u32) \<Rightarrow> nat \<Rightarrow> nat \<Rightarrow> memory \<Rightarrow> memory" where
  "op1 v f oa oc m = wr v m oc (f (rd v m oa))"

definition vec2 :: "view \<Rightarrow> (u32 \<Rightarrow> u32 \<Rightarrow> u32) \<Rightarrow> nat \<Rightarrow> nat \<Rightarrow> nat \<Rightarrow> memory \<Rightarrow> memory" where
  "vec2 v f oa ob oc m =
     each3 (\<lambda>m k. wr v m (oc + k) (f (rd v m (oa + k)) (rd v m (ob + k)))) m"

text \<open>A scalar, read first, against each component of a vector.\<close>

definition vec1 :: "view \<Rightarrow> (u32 \<Rightarrow> u32) \<Rightarrow> nat \<Rightarrow> nat \<Rightarrow> memory \<Rightarrow> memory" where
  "vec1 v f src oc m = each3 (\<lambda>m k. wr v m (oc + k) (f (rd v m (src + k)))) m"

definition dot :: "u32 \<times> u32 \<times> u32 \<Rightarrow> u32 \<times> u32 \<times> u32 \<Rightarrow> u32" where
  "dot a b = (case (a, b) of ((a0, a1, a2), (b0, b1, b2)) \<Rightarrow>
     f32_add (f32_add (f32_mul a0 b0) (f32_mul a1 b1)) (f32_mul a2 b2))"

section \<open>Floats and vectors\<close>

primrec arith_step :: "view \<Rightarrow> arith_op \<Rightarrow> nat \<Rightarrow> nat \<Rightarrow> nat \<Rightarrow> memory \<Rightarrow> memory" where
  "arith_step v MulF oa ob oc m = op2 v f32_mul oa ob oc m"
| "arith_step v DivF oa ob oc m = op2 v f32_div oa ob oc m"
| "arith_step v AddF oa ob oc m = op2 v f32_add oa ob oc m"
| "arith_step v SubF oa ob oc m = op2 v f32_sub oa ob oc m"
| "arith_step v MulV oa ob oc m = wr v m oc (dot (rd3 v m oa) (rd3 v m ob))"
| "arith_step v MulFV oa ob oc m = (let f = rd v m oa in vec1 v (\<lambda>x. f32_mul f x) ob oc m)"
| "arith_step v MulVF oa ob oc m = (let f = rd v m ob in vec1 v (\<lambda>x. f32_mul x f) oa oc m)"
| "arith_step v DivVF oa ob oc m = (let f = rd v m ob in vec1 v (\<lambda>x. f32_div x f) oa oc m)"
| "arith_step v AddV oa ob oc m = vec2 v f32_add oa ob oc m"
| "arith_step v SubV oa ob oc m = vec2 v f32_sub oa ob oc m"

definition f32_ne :: "u32 \<Rightarrow> u32 \<Rightarrow> bool" where
  "f32_ne a b \<longleftrightarrow> \<not> f32_eq a b"

definition vec_eq :: "u32 \<times> u32 \<times> u32 \<Rightarrow> u32 \<times> u32 \<times> u32 \<Rightarrow> bool" where
  "vec_eq a b = (case (a, b) of ((a0, a1, a2), (b0, b1, b2)) \<Rightarrow>
     f32_eq a0 b0 \<and> f32_eq a1 b1 \<and> f32_eq a2 b2)"

definition vec_ne :: "u32 \<times> u32 \<times> u32 \<Rightarrow> u32 \<times> u32 \<times> u32 \<Rightarrow> bool" where
  "vec_ne a b = (case (a, b) of ((a0, a1, a2), (b0, b1, b2)) \<Rightarrow>
     f32_ne a0 b0 \<or> f32_ne a1 b1 \<or> f32_ne a2 b2)"

primrec cmp_step :: "view \<Rightarrow> cmp_op \<Rightarrow> nat \<Rightarrow> nat \<Rightarrow> nat \<Rightarrow> memory \<Rightarrow> memory" where
  "cmp_step v EqF oa ob oc m = op2 v (\<lambda>a b. fbool (f32_eq a b)) oa ob oc m"
| "cmp_step v NeF oa ob oc m = op2 v (\<lambda>a b. fbool (f32_ne a b)) oa ob oc m"
| "cmp_step v LeF oa ob oc m = op2 v (\<lambda>a b. fbool (f32_le a b)) oa ob oc m"
| "cmp_step v GeF oa ob oc m = op2 v (\<lambda>a b. fbool (f32_le b a)) oa ob oc m"
| "cmp_step v LtF oa ob oc m = op2 v (\<lambda>a b. fbool (f32_lt a b)) oa ob oc m"
| "cmp_step v GtF oa ob oc m = op2 v (\<lambda>a b. fbool (f32_lt b a)) oa ob oc m"
| "cmp_step v EqV oa ob oc m = wr v m oc (fbool (vec_eq (rd3 v m oa) (rd3 v m ob)))"
| "cmp_step v NeV oa ob oc m = wr v m oc (fbool (vec_ne (rd3 v m oa) (rd3 v m ob)))"
| "cmp_step v EqE oa ob oc m = op2 v (\<lambda>a b. fbool (a = b)) oa ob oc m"
| "cmp_step v EqFnc oa ob oc m = op2 v (\<lambda>a b. fbool (a = b)) oa ob oc m"
| "cmp_step v NeE oa ob oc m = op2 v (\<lambda>a b. fbool (a \<noteq> b)) oa ob oc m"
| "cmp_step v NeFnc oa ob oc m = op2 v (\<lambda>a b. fbool (a \<noteq> b)) oa ob oc m"

text \<open>\<open>(f2i(a) & f2i(b)) as f32\<close>.\<close>

definition bit_f :: "(u32 \<Rightarrow> u32 \<Rightarrow> u32) \<Rightarrow> u32 \<Rightarrow> u32 \<Rightarrow> u32" where
  "bit_f f a b = f32_of_int (sint (f (f2i a) (f2i b)))"

primrec logic_step :: "view \<Rightarrow> logic_op \<Rightarrow> nat \<Rightarrow> nat \<Rightarrow> nat \<Rightarrow> memory \<Rightarrow> memory" where
  "logic_step v NotF oa ob oc m = op1 v (\<lambda>a. fbool (\<not> float_true a)) oa oc m"
| "logic_step v NotV oa ob oc m = wr v m oc (fbool (vec_eq (rd3 v m oa) (0, 0, 0)))"
| "logic_step v NotEnt oa ob oc m = op1 v (\<lambda>a. fbool (a = 0)) oa oc m"
| "logic_step v NotFnc oa ob oc m = op1 v (\<lambda>a. fbool (a AND 0x00FFFFFF = 0)) oa oc m"
| "logic_step v NotI oa ob oc m = op1 v (\<lambda>a. ibool (a = 0)) oa oc m"
| "logic_step v AndF oa ob oc m = op2 v (\<lambda>a b. fbool (float_true a \<and> float_true b)) oa ob oc m"
| "logic_step v OrF oa ob oc m = op2 v (\<lambda>a b. fbool (float_true a \<or> float_true b)) oa ob oc m"
| "logic_step v BitAndF oa ob oc m = op2 v (bit_f (AND)) oa ob oc m"
| "logic_step v BitOrF oa ob oc m = op2 v (bit_f (OR)) oa ob oc m"

section \<open>Global stores and compound stores\<close>

primrec gstore_step :: "view \<Rightarrow> gstore_op \<Rightarrow> nat \<Rightarrow> nat \<Rightarrow> nat \<Rightarrow> memory \<Rightarrow> memory" where
  "gstore_step v StoreF oa ob oc m = op1 v (\<lambda>a. a) oa ob m"
| "gstore_step v StoreS oa ob oc m = op1 v (\<lambda>a. a) oa ob m"
| "gstore_step v StoreEnt oa ob oc m = op1 v (\<lambda>a. a) oa ob m"
| "gstore_step v StoreFld oa ob oc m = op1 v (\<lambda>a. a) oa ob m"
| "gstore_step v StoreFnc oa ob oc m = op1 v (\<lambda>a. a) oa ob m"
| "gstore_step v StoreI oa ob oc m = op1 v (\<lambda>a. a) oa ob m"
| "gstore_step v StoreP oa ob oc m = op1 v (\<lambda>a. a) oa ob m"
| "gstore_step v StoreV oa ob oc m = wcopy v m oa ob 3"
| "gstore_step v StoreI64 oa ob oc m = wcopy v m oa ob 2"
| "gstore_step v StoreIF oa ob oc m = op1 v (\<lambda>a. f32_of_int (sint a)) oa ob m"
| "gstore_step v StoreFI oa ob oc m = op1 v f2i oa ob m"

text \<open>Hexen 2 compound stores: \<open>B\<close> is operand and result.\<close>

primrec compound_step :: "view \<Rightarrow> compound_op \<Rightarrow> nat \<Rightarrow> nat \<Rightarrow> nat \<Rightarrow> memory \<Rightarrow> memory" where
  "compound_step v MulStoreF oa ob oc m = op2 v f32_mul ob oa ob m"
| "compound_step v DivStoreF oa ob oc m = op2 v f32_div ob oa ob m"
| "compound_step v AddStoreF oa ob oc m = op2 v f32_add ob oa ob m"
| "compound_step v SubStoreF oa ob oc m = op2 v f32_sub ob oa ob m"
| "compound_step v MulStoreVF oa ob oc m = (let f = rd v m oa in vec1 v (\<lambda>x. f32_mul x f) ob ob m)"
| "compound_step v AddStoreV oa ob oc m = vec2 v f32_add ob oa ob m"
| "compound_step v SubStoreV oa ob oc m = vec2 v f32_sub ob oa ob m"
| "compound_step v BitSetStoreF oa ob oc m = op2 v (bit_f (OR)) ob oa ob m"
| "compound_step v BitClrStoreF oa ob oc m = op2 v (bit_f (\<lambda>b a. b AND NOT a)) ob oa ob m"

section \<open>Integers\<close>

text \<open>Rust's \<open>/\<close> on signed integers truncates towards zero.\<close>

definition tdiv :: "int \<Rightarrow> int \<Rightarrow> int" where
  "tdiv a b = sgn a * sgn b * (\<bar>a\<bar> div \<bar>b\<bar>)"

text \<open>Signed division truncates; division by zero gives 0 and \<open>MIN / -1\<close> the given value.\<close>

definition div_signed :: "'a::len word \<Rightarrow> 'a word \<Rightarrow> 'a word \<Rightarrow> 'a word" where
  "div_signed overflow a b =
     (if b = 0 then 0
      else let q = tdiv (sint a) (sint b)
        in if q < 2 ^ (LENGTH('a) - 1) then word_of_int q else overflow)"

definition div_unsigned :: "'a::len word \<Rightarrow> 'a word \<Rightarrow> 'a word" where
  "div_unsigned a b = (if b = 0 then 0 else a div b)"

primrec int_step :: "view \<Rightarrow> int_op \<Rightarrow> nat \<Rightarrow> nat \<Rightarrow> nat \<Rightarrow> memory \<Rightarrow> memory" where
  "int_step v AddI oa ob oc m = op2 v (+) oa ob oc m"
| "int_step v SubI oa ob oc m = op2 v (-) oa ob oc m"
| "int_step v MulI oa ob oc m = op2 v (*) oa ob oc m"
| "int_step v DivI oa ob oc m = op2 v (div_signed i32_max) oa ob oc m"
| "int_step v BitAndI oa ob oc m = op2 v (AND) oa ob oc m"
| "int_step v BitOrI oa ob oc m = op2 v (OR) oa ob oc m"
| "int_step v BitXorI oa ob oc m = op2 v (XOR) oa ob oc m"
| "int_step v RShiftI oa ob oc m = op2 v wrapping_sar oa ob oc m"
| "int_step v LShiftI oa ob oc m = op2 v wrapping_shl oa ob oc m"
| "int_step v EqI oa ob oc m = op2 v (\<lambda>a b. ibool (sint a = sint b)) oa ob oc m"
| "int_step v NeI oa ob oc m = op2 v (\<lambda>a b. ibool (sint a \<noteq> sint b)) oa ob oc m"
| "int_step v LeI oa ob oc m = op2 v (\<lambda>a b. ibool (sint a \<le> sint b)) oa ob oc m"
| "int_step v GeI oa ob oc m = op2 v (\<lambda>a b. ibool (sint b \<le> sint a)) oa ob oc m"
| "int_step v LtI oa ob oc m = op2 v (\<lambda>a b. ibool (sint a < sint b)) oa ob oc m"
| "int_step v GtI oa ob oc m = op2 v (\<lambda>a b. ibool (sint b < sint a)) oa ob oc m"
| "int_step v AndI oa ob oc m = op2 v (\<lambda>a b. ibool (a \<noteq> 0 \<and> b \<noteq> 0)) oa ob oc m"
| "int_step v OrI oa ob oc m = op2 v (\<lambda>a b. ibool (a \<noteq> 0 \<or> b \<noteq> 0)) oa ob oc m"
| "int_step v ConvItoF oa ob oc m = op1 v (\<lambda>a. f32_of_int (sint a)) oa oc m"
| "int_step v ConvFtoI oa ob oc m = op1 v f2i oa oc m"

section \<open>Mixed integers and floats\<close>

definition i2f :: "u32 \<Rightarrow> u32" where "i2f a = f32_of_int (sint a)"

primrec mixed_step :: "view \<Rightarrow> mixed_op \<Rightarrow> nat \<Rightarrow> nat \<Rightarrow> nat \<Rightarrow> memory \<Rightarrow> memory" where
  "mixed_step v AddFI oa ob oc m = op2 v (\<lambda>a b. f32_add a (i2f b)) oa ob oc m"
| "mixed_step v AddIF oa ob oc m = op2 v (\<lambda>a b. f32_add (i2f a) b) oa ob oc m"
| "mixed_step v SubFI oa ob oc m = op2 v (\<lambda>a b. f32_sub a (i2f b)) oa ob oc m"
| "mixed_step v SubIF oa ob oc m = op2 v (\<lambda>a b. f32_sub (i2f a) b) oa ob oc m"
| "mixed_step v MulIF oa ob oc m = op2 v (\<lambda>a b. f32_mul (i2f a) b) oa ob oc m"
| "mixed_step v MulFI oa ob oc m = op2 v (\<lambda>a b. f32_mul a (i2f b)) oa ob oc m"
| "mixed_step v DivIF oa ob oc m = op2 v (\<lambda>a b. f32_div (i2f a) b) oa ob oc m"
| "mixed_step v DivFI oa ob oc m = op2 v (\<lambda>a b. f32_div a (i2f b)) oa ob oc m"
| "mixed_step v MulVI oa ob oc m = (let i = i2f (rd v m ob) in vec1 v (\<lambda>x. f32_mul x i) oa oc m)"
| "mixed_step v MulIV oa ob oc m = (let i = i2f (rd v m oa) in vec1 v (\<lambda>x. f32_mul i x) ob oc m)"
| "mixed_step v LeIF oa ob oc m = op2 v (\<lambda>a b. ibool (f32_le (i2f a) b)) oa ob oc m"
| "mixed_step v GeIF oa ob oc m = op2 v (\<lambda>a b. ibool (f32_le b (i2f a))) oa ob oc m"
| "mixed_step v LtIF oa ob oc m = op2 v (\<lambda>a b. ibool (f32_lt (i2f a) b)) oa ob oc m"
| "mixed_step v GtIF oa ob oc m = op2 v (\<lambda>a b. ibool (f32_lt b (i2f a))) oa ob oc m"
| "mixed_step v EqIF oa ob oc m = op2 v (\<lambda>a b. ibool (f32_eq (i2f a) b)) oa ob oc m"
| "mixed_step v NeIF oa ob oc m = op2 v (\<lambda>a b. ibool (f32_ne (i2f a) b)) oa ob oc m"
| "mixed_step v LeFI oa ob oc m = op2 v (\<lambda>a b. ibool (f32_le a (i2f b))) oa ob oc m"
| "mixed_step v GeFI oa ob oc m = op2 v (\<lambda>a b. ibool (f32_le (i2f b) a)) oa ob oc m"
| "mixed_step v LtFI oa ob oc m = op2 v (\<lambda>a b. ibool (f32_lt a (i2f b))) oa ob oc m"
| "mixed_step v GtFI oa ob oc m = op2 v (\<lambda>a b. ibool (f32_lt (i2f b) a)) oa ob oc m"
| "mixed_step v EqFI oa ob oc m = op2 v (\<lambda>a b. ibool (f32_eq a (i2f b))) oa ob oc m"
| "mixed_step v NeFI oa ob oc m = op2 v (\<lambda>a b. ibool (f32_ne a (i2f b))) oa ob oc m"
| "mixed_step v BitAndIF oa ob oc m = op2 v (\<lambda>a b. a AND f2i b) oa ob oc m"
| "mixed_step v BitOrIF oa ob oc m = op2 v (\<lambda>a b. a OR f2i b) oa ob oc m"
| "mixed_step v BitAndFI oa ob oc m = op2 v (\<lambda>a b. f2i a AND b) oa ob oc m"
| "mixed_step v BitOrFI oa ob oc m = op2 v (\<lambda>a b. f2i a OR b) oa ob oc m"
| "mixed_step v AndIF oa ob oc m = op2 v (\<lambda>a b. ibool (a \<noteq> 0 \<and> f32_ne b 0)) oa ob oc m"
| "mixed_step v OrIF oa ob oc m = op2 v (\<lambda>a b. ibool (a \<noteq> 0 \<or> f32_ne b 0)) oa ob oc m"
| "mixed_step v AndFI oa ob oc m = op2 v (\<lambda>a b. ibool (f32_ne a 0 \<and> b \<noteq> 0)) oa ob oc m"
| "mixed_step v OrFI oa ob oc m = op2 v (\<lambda>a b. ibool (f32_ne a 0 \<or> b \<noteq> 0)) oa ob oc m"

section \<open>Pointer arithmetic and unsigned integers\<close>

text \<open>\<open>GLOBALADDRESS\<close> takes the word index of its operand \<open>A\<close> and the address of the globals.\<close>

primrec ptrarith_step ::
  "view \<Rightarrow> u32 \<Rightarrow> u32 \<Rightarrow> ptrarith_op \<Rightarrow> nat \<Rightarrow> nat \<Rightarrow> nat \<Rightarrow> memory \<Rightarrow> memory"
where
  "ptrarith_step v gbase a GlobalAddress oa ob oc m =
     op1 v (\<lambda>b. gbase + (a + b) * 4) ob oc m"
| "ptrarith_step v gbase a AddPIW oa ob oc m = op2 v (\<lambda>x y. x + y * 4) oa ob oc m"
| "ptrarith_step v gbase a AddSF oa ob oc m = op2 v (\<lambda>x y. x + f2i y) oa ob oc m"
| "ptrarith_step v gbase a SubS oa ob oc m = op2 v (-) oa ob oc m"

primrec uint_step :: "view \<Rightarrow> uint_op \<Rightarrow> nat \<Rightarrow> nat \<Rightarrow> nat \<Rightarrow> memory \<Rightarrow> memory" where
  "uint_step v LeU oa ob oc m = op2 v (\<lambda>a b. ibool (a \<le> b)) oa ob oc m"
| "uint_step v LtU oa ob oc m = op2 v (\<lambda>a b. ibool (a < b)) oa ob oc m"
| "uint_step v DivU oa ob oc m = op2 v div_unsigned oa ob oc m"
| "uint_step v RShiftU oa ob oc m = op2 v wrapping_shr oa ob oc m"
| "uint_step v ConvUF oa ob oc m = op1 v (\<lambda>a. f32_of_int (uint a)) oa oc m"
| "uint_step v ConvFU oa ob oc m = op1 v f2u oa oc m"

section \<open>64-bit integers and doubles\<close>

definition rd64 :: "view \<Rightarrow> memory \<Rightarrow> nat \<Rightarrow> u64" where
  "rd64 v m o' = join64 (rd v m o') (rd v m (o' + 4))"

definition wr64 :: "view \<Rightarrow> memory \<Rightarrow> nat \<Rightarrow> u64 \<Rightarrow> memory" where
  "wr64 v m o' x = (case split64 x of (lo, hi) \<Rightarrow> wr v (wr v m o' lo) (o' + 4) hi)"

definition wide2 :: "view \<Rightarrow> (u64 \<Rightarrow> u64 \<Rightarrow> u64) \<Rightarrow> nat \<Rightarrow> nat \<Rightarrow> nat \<Rightarrow> memory \<Rightarrow> memory" where
  "wide2 v f oa ob oc m = wr64 v m oc (f (rd64 v m oa) (rd64 v m ob))"

definition wide_cmp :: "view \<Rightarrow> (u64 \<Rightarrow> u64 \<Rightarrow> bool) \<Rightarrow> nat \<Rightarrow> nat \<Rightarrow> nat \<Rightarrow> memory \<Rightarrow> memory" where
  "wide_cmp v f oa ob oc m = wr v m oc (ibool (f (rd64 v m oa) (rd64 v m ob)))"

definition wide_shift :: "view \<Rightarrow> (u64 \<Rightarrow> u32 \<Rightarrow> u64) \<Rightarrow> nat \<Rightarrow> nat \<Rightarrow> nat \<Rightarrow> memory \<Rightarrow> memory" where
  "wide_shift v f oa ob oc m = wr64 v m oc (f (rd64 v m oa) (rd v m ob))"

primrec int64_step :: "view \<Rightarrow> int64_op \<Rightarrow> nat \<Rightarrow> nat \<Rightarrow> nat \<Rightarrow> memory \<Rightarrow> memory" where
  "int64_step v AddI64 oa ob oc m = wide2 v (+) oa ob oc m"
| "int64_step v SubI64 oa ob oc m = wide2 v (-) oa ob oc m"
| "int64_step v MulI64 oa ob oc m = wide2 v (*) oa ob oc m"
| "int64_step v DivI64 oa ob oc m = wide2 v (div_signed i64_min) oa ob oc m"
| "int64_step v BitAndI64 oa ob oc m = wide2 v (AND) oa ob oc m"
| "int64_step v BitOrI64 oa ob oc m = wide2 v (OR) oa ob oc m"
| "int64_step v BitXorI64 oa ob oc m = wide2 v (XOR) oa ob oc m"
| "int64_step v LShiftI64I oa ob oc m = wide_shift v wrapping_shl oa ob oc m"
| "int64_step v RShiftI64I oa ob oc m = wide_shift v wrapping_sar oa ob oc m"
| "int64_step v RShiftU64I oa ob oc m = wide_shift v wrapping_shr oa ob oc m"
| "int64_step v LeI64 oa ob oc m = wide_cmp v (\<lambda>a b. sint a \<le> sint b) oa ob oc m"
| "int64_step v LtI64 oa ob oc m = wide_cmp v (\<lambda>a b. sint a < sint b) oa ob oc m"
| "int64_step v EqI64 oa ob oc m = wide_cmp v (=) oa ob oc m"
| "int64_step v NeI64 oa ob oc m = wide_cmp v (\<noteq>) oa ob oc m"
| "int64_step v LeU64 oa ob oc m = wide_cmp v (\<le>) oa ob oc m"
| "int64_step v LtU64 oa ob oc m = wide_cmp v (<) oa ob oc m"
| "int64_step v DivU64 oa ob oc m = wide2 v div_unsigned oa ob oc m"
| "int64_step v ConvUI64 oa ob oc m = wr64 v m oc (ucast (rd v m oa))"
| "int64_step v ConvII64 oa ob oc m = wr64 v m oc (scast (rd v m oa))"
| "int64_step v ConvI64I oa ob oc m = op1 v (\<lambda>a. a) oa oc m"
| "int64_step v ConvI64F oa ob oc m = wr v m oc (f32_of_int (sint (rd64 v m oa)))"
| "int64_step v ConvU64F oa ob oc m = wr v m oc (f32_of_int (uint (rd64 v m oa)))"
| "int64_step v ConvFI64 oa ob oc m = wr64 v m oc (d2i64 (f64_of_f32 (rd v m oa)))"
| "int64_step v ConvFU64 oa ob oc m = wr64 v m oc (d2u64 (f64_of_f32 (rd v m oa)))"

primrec double_step :: "view \<Rightarrow> double_op \<Rightarrow> nat \<Rightarrow> nat \<Rightarrow> nat \<Rightarrow> memory \<Rightarrow> memory" where
  "double_step v AddD oa ob oc m = wide2 v f64_add oa ob oc m"
| "double_step v SubD oa ob oc m = wide2 v f64_sub oa ob oc m"
| "double_step v MulD oa ob oc m = wide2 v f64_mul oa ob oc m"
| "double_step v DivD oa ob oc m = wide2 v f64_div oa ob oc m"
| "double_step v LeD oa ob oc m = wide_cmp v f64_le oa ob oc m"
| "double_step v LtD oa ob oc m = wide_cmp v f64_lt oa ob oc m"
| "double_step v EqD oa ob oc m = wide_cmp v f64_eq oa ob oc m"
| "double_step v NeD oa ob oc m = wide_cmp v (\<lambda>a b. \<not> f64_eq a b) oa ob oc m"
| "double_step v ConvFD oa ob oc m = wr64 v m oc (f64_of_f32 (rd v m oa))"
| "double_step v ConvDF oa ob oc m = wr v m oc (f32_of_f64 (rd64 v m oa))"
| "double_step v ConvI64D oa ob oc m = wr64 v m oc (f64_of_int (sint (rd64 v m oa)))"
| "double_step v ConvU64D oa ob oc m = wr64 v m oc (f64_of_int (uint (rd64 v m oa)))"
| "double_step v ConvDI64 oa ob oc m = wr64 v m oc (d2i64 (rd64 v m oa))"
| "double_step v ConvDU64 oa ob oc m = wr64 v m oc (d2u64 (rd64 v m oa))"

section \<open>Bitfields\<close>

text \<open>The descriptor holds the width in its low byte and the position above.\<close>

definition bit_extend :: "bool \<Rightarrow> u32 \<Rightarrow> u32 \<Rightarrow> u32" where
  "bit_extend sx a d =
     (let width = d AND 0xFF; p = drop_bit 8 d
      in if width = 0 then 0
         else let up = wrapping_shl a (32 - width - p); down = 32 - width
           in if sx then wrapping_sar up down else wrapping_shr up down)"

definition bit_copy :: "u32 \<Rightarrow> u32 \<Rightarrow> u32 \<Rightarrow> u32" where
  "bit_copy a d c =
     (let width = d AND 0xFF; p = drop_bit 8 d;
          msk = (if 32 \<le> width then - 1 else push_bit (unat width) 1 - 1)
      in (c AND NOT (wrapping_shl msk p)) OR wrapping_shl (a AND msk) p)"

primrec bitfield_step :: "view \<Rightarrow> bitfield_op \<Rightarrow> nat \<Rightarrow> nat \<Rightarrow> nat \<Rightarrow> memory \<Rightarrow> memory" where
  "bitfield_step v BitExtendI oa ob oc m = op2 v (bit_extend True) oa ob oc m"
| "bitfield_step v BitExtendU oa ob oc m = op2 v (bit_extend False) oa ob oc m"
| "bitfield_step v BitCopyI oa ob oc m =
     wr v m oc (bit_copy (rd v m oa) (rd v m ob) (rd v m oc))"

section \<open>Data instructions only write region S\<close>

lemma each3_s_only: "(\<And>m k. s_only m (f m k)) \<Longrightarrow> s_only m (each3 f m)"
  unfolding each3_def by (rule s_only_foldl)

lemma shapes_s_only [s_only_intros]:
  "s_only m (op2 v f oa ob oc m)" "s_only m (op1 v g oa oc m)" "s_only m (vec2 v f oa ob oc m)"
  "s_only m (vec1 v g oa oc m)"
  by (auto simp: op2_def op1_def vec2_def vec1_def intro: each3_s_only wr_s_only)

lemma wide_s_only [s_only_intros]:
  "s_only m (wr64 v m oc x)" "s_only m (wide2 v f oa ob oc m)" "s_only m (wide_cmp v g oa ob oc m)"
  "s_only m (wide_shift v h oa ob oc m)"
proof -
  show w: "s_only m (wr64 v m oc x)" for m x
    by (auto simp: wr64_def split: prod.splits intro: s_only_trans wr_s_only)
  show "s_only m (wide2 v f oa ob oc m)" "s_only m (wide_cmp v g oa ob oc m)"
    "s_only m (wide_shift v h oa ob oc m)"
    by (simp_all add: wide2_def wide_cmp_def wide_shift_def w wr_s_only)
qed

lemma data_ops_s_only:
  "s_only m (arith_step v p1 oa ob oc m)" "s_only m (cmp_step v p2 oa ob oc m)"
  "s_only m (logic_step v p3 oa ob oc m)" "s_only m (gstore_step v p4 oa ob oc m)"
  "s_only m (compound_step v p5 oa ob oc m)" "s_only m (int_step v p6 oa ob oc m)"
  "s_only m (mixed_step v p7 oa ob oc m)" "s_only m (ptrarith_step v gb a p8 oa ob oc m)"
  "s_only m (uint_step v p9 oa ob oc m)" "s_only m (int64_step v p10 oa ob oc m)"
  "s_only m (double_step v p11 oa ob oc m)" "s_only m (bitfield_step v p12 oa ob oc m)"
proof -
  show "s_only m (arith_step v p1 oa ob oc m)" by (cases p1) (simp_all add: s_only_intros Let_def)
  show "s_only m (cmp_step v p2 oa ob oc m)" by (cases p2) (simp_all add: s_only_intros)
  show "s_only m (logic_step v p3 oa ob oc m)" by (cases p3) (simp_all add: s_only_intros)
  show "s_only m (gstore_step v p4 oa ob oc m)" by (cases p4) (simp_all add: s_only_intros)
  show "s_only m (compound_step v p5 oa ob oc m)" by (cases p5) (simp_all add: s_only_intros Let_def)
  show "s_only m (int_step v p6 oa ob oc m)" by (cases p6) (simp_all add: s_only_intros)
  show "s_only m (mixed_step v p7 oa ob oc m)" by (cases p7) (simp_all add: s_only_intros Let_def)
  show "s_only m (ptrarith_step v gb a p8 oa ob oc m)" by (cases p8) (simp_all add: s_only_intros)
  show "s_only m (uint_step v p9 oa ob oc m)" by (cases p9) (simp_all add: s_only_intros)
  show "s_only m (int64_step v p10 oa ob oc m)" by (cases p10) (simp_all add: s_only_intros)
  show "s_only m (double_step v p11 oa ob oc m)" by (cases p11) (simp_all add: s_only_intros)
  show "s_only m (bitfield_step v p12 oa ob oc m)" by (cases p12) (simp_all add: s_only_intros)
qed

section \<open>Division and bitfields\<close>

lemma abs_div_le:
  assumes "b \<noteq> 0"
  shows "\<bar>a\<bar> div \<bar>b\<bar> \<le> \<bar>a :: int\<bar>" "1 < \<bar>b\<bar> \<Longrightarrow> a \<noteq> 0 \<Longrightarrow> \<bar>a\<bar> div \<bar>b\<bar> < \<bar>a\<bar>"
proof -
  show "1 < \<bar>b\<bar> \<Longrightarrow> a \<noteq> 0 \<Longrightarrow> \<bar>a\<bar> div \<bar>b\<bar> < \<bar>a\<bar>" by (rule int_div_less_self) auto
  then show "\<bar>a\<bar> div \<bar>b\<bar> \<le> \<bar>a\<bar>" using assms by (cases "\<bar>b\<bar> = 1"; cases "a = 0") force+
qed

lemma tdiv_bounds:
  assumes "b \<noteq> 0" "- n \<le> a" "a < n" "\<not> (a = - n \<and> b = - 1)"
  shows "- n \<le> tdiv a b \<and> tdiv a b < n"
proof -
  have q: "0 \<le> \<bar>a\<bar> div \<bar>b\<bar>" "\<bar>a\<bar> div \<bar>b\<bar> \<le> \<bar>a\<bar>"
    using assms(1) abs_div_le(1) by (auto intro: pos_imp_zdiv_nonneg_iff [THEN iffD2])
  show ?thesis
  proof (cases "1 < \<bar>b\<bar> \<and> a \<noteq> 0")
    case True
    then have "\<bar>a\<bar> div \<bar>b\<bar> < \<bar>a\<bar>" using abs_div_le(2) assms(1) by blast
    then have "\<bar>tdiv a b\<bar> < \<bar>a\<bar>" using True q by (auto simp: tdiv_def abs_mult sgn_if)
    then show ?thesis using assms by linarith
  next
    case False
    then have "b = 1 \<or> b = - 1 \<or> a = 0" using assms(1) by linarith
    then show ?thesis using assms by (auto simp: tdiv_def sgn_if)
  qed
qed

lemma div_signed_eq:
  fixes a b :: "'a::len word"
  assumes "b \<noteq> 0"
  shows "(if sint a = - (2 ^ (LENGTH('a) - 1)) \<and> sint b = - 1 then div_signed ov a b = ov
          else sint (div_signed ov a b) = tdiv (sint a) (sint b))"
proof -
  let ?n = "2 ^ (LENGTH('a) - 1) :: int"
  have b0: "sint b \<noteq> 0" using assms by (metis sint_0 signed_word_eqI)
  have a: "- ?n \<le> sint a" "sint a < ?n" using sint_range_size [of a] by (simp_all add: word_size)
  show ?thesis
  proof (cases "sint a = - ?n \<and> sint b = - 1")
    case True
    then have "tdiv (sint a) (sint b) = ?n" by (simp add: tdiv_def)
    then show ?thesis using True assms by (simp add: div_signed_def Let_def)
  next
    case False
    note q = tdiv_bounds [OF b0 a False]
    then have "sint (word_of_int (tdiv (sint a) (sint b)) :: 'a word) = tdiv (sint a) (sint b)"
      by (simp add: sint_sbintrunc' signed_take_bit_int_eq_self)
    then show ?thesis using False assms q by (auto simp: div_signed_def Let_def)
  qed
qed

text \<open>Integer division never traps: division by zero gives 0, the one overflowing quotient gives
  the largest 32-bit (or the smallest 64-bit) integer, and every other quotient is exact, truncated
  towards zero.\<close>

theorem integer_division_total:
  "div_signed i32_max a 0 = 0 \<and> div_signed i64_min a' 0 = 0 \<and>
   (b \<noteq> 0 \<longrightarrow> (if sint a = - (2 ^ 31) \<and> sint b = - 1 then div_signed i32_max a b = 0x7FFFFFFF
              else sint (div_signed i32_max a b) = tdiv (sint a) (sint b))) \<and>
   (b' \<noteq> 0 \<longrightarrow> (if sint a' = - (2 ^ 63) \<and> sint b' = - 1
               then div_signed i64_min a' b' = 0x8000000000000000
               else sint (div_signed i64_min a' b') = tdiv (sint a') (sint b')))"
proof -
  have z: "div_signed i32_max a 0 = 0" "div_signed i64_min a' 0 = 0" by (simp_all add: div_signed_def)
  have i: "i32_max = 0x7FFFFFFF" "i64_min = 0x8000000000000000"
    by (simp_all add: i32_max_def i64_min_def)
  show ?thesis
    using z div_signed_eq [of b a i32_max] div_signed_eq [of b' a' i64_min]
    unfolding i by simp
qed

theorem integer_division_total_witness:
  "sint (div_signed i32_max (- 7) 2) = - 3"
  using integer_division_total [of "- 7" 0 2 0] by (simp add: tdiv_def)

lemma unat_sub_le: "unat (b :: u32) \<le> unat a \<Longrightarrow> unat (a - b) = unat a - unat b"
  by (simp add: unat_sub word_le_nat_alt)

lemma field_descriptor:
  fixes d :: u32
  assumes "0 < unat (d AND 0xFF)" "unat (d AND 0xFF) + unat (drop_bit 8 d) \<le> 32"
  shows "unat (32 - (d AND 0xFF) - drop_bit 8 d) = 32 - unat (d AND 0xFF) - unat (drop_bit 8 d)"
    "unat (32 - (d AND 0xFF)) = 32 - unat (d AND 0xFF)" "unat (32 - (d AND 0xFF)) < 32"
    "unat (drop_bit 8 d) < 32"
proof -
  show a: "unat (32 - (d AND 0xFF)) = 32 - unat (d AND 0xFF)"
    using assms unat_sub_le [of "d AND 0xFF" 32] by simp
  show "unat (32 - (d AND 0xFF) - drop_bit 8 d) = 32 - unat (d AND 0xFF) - unat (drop_bit 8 d)"
    using assms a unat_sub_le [of "drop_bit 8 d" "32 - (d AND 0xFF)"] by simp
  show "unat (32 - (d AND 0xFF)) < 32" "unat (drop_bit 8 d) < 32" using assms a by simp_all
qed

lemma bit_field_mask:
  fixes w :: u32
  assumes "unat w \<le> 32"
  shows "bit (if 32 \<le> w then - 1 else push_bit (unat w) 1 - 1 :: u32) k \<longleftrightarrow> k < 32 \<and> k < unat w"
proof (cases "32 \<le> w")
  case True
  then have "unat w = 32" using assms by (simp add: word_le_nat_alt)
  then show ?thesis using True by simp
next
  case False
  have "push_bit (unat w) 1 - 1 = (mask (unat w) :: u32)" by (simp add: mask_eq_exp_minus_1 push_bit_eq_mult)
  then show ?thesis using False by (simp add: bit_mask_iff)
qed

lemma bit_copy_bit:
  assumes "0 < unat (d AND 0xFF)" "unat (d AND 0xFF) + unat (drop_bit 8 d) \<le> 32" "k < 32"
  shows "bit (bit_copy a d c) k \<longleftrightarrow>
    (if unat (drop_bit 8 d) \<le> k \<and> k < unat (drop_bit 8 d) + unat (d AND 0xFF)
     then bit a (k - unat (drop_bit 8 d)) else bit c k)"
proof -
  note fd = field_descriptor [OF assms(1,2)]
  have w: "unat (d AND 0xFF) \<le> 32" using assms(2) by simp
  show ?thesis
    using assms(3) fd(4) w unfolding bit_copy_def Let_def wrapping_shl_def
    by (auto simp: bit_or_iff bit_and_iff bit_not_iff bit_push_bit_iff bit_field_mask [OF w]
        simp del: mask_eq_exp_minus_1)
qed

text \<open>Bitfields round trip: inserting a value into a field and extracting it gives the value's low
  bits, zero-extended or sign-extended, and the bits outside the field are untouched.\<close>

theorem bitfield_roundtrip:
  assumes "0 < unat (d AND 0xFF)" "unat (d AND 0xFF) + unat (drop_bit 8 d) \<le> 32"
  shows "bit_extend False (bit_copy a d c) d = take_bit (unat (d AND 0xFF)) a \<and>
    bit_extend True (bit_copy a d c) d = signed_take_bit (unat (d AND 0xFF) - 1) a \<and>
    (\<forall>k < 32. k < unat (drop_bit 8 d) \<or> unat (drop_bit 8 d) + unat (d AND 0xFF) \<le> k \<longrightarrow>
       bit (bit_copy a d c) k = bit c k)"
proof -
  let ?w = "unat (d AND 0xFF)" and ?p = "unat (drop_bit 8 d)"
  note fd = field_descriptor [OF assms]
  note cb = bit_copy_bit [OF assms, of _ a c]
  have w0: "d AND 0xFF \<noteq> 0" using assms(1) by auto
  have up: "bit (wrapping_shl (bit_copy a d c) (32 - (d AND 0xFF) - drop_bit 8 d)) k \<longleftrightarrow>
      32 - ?w \<le> k \<and> bit a (k - (32 - ?w))" if "k < 32" "32 - ?w \<le> k" for k
  proof -
    have "32 - ?w - ?p < 32" using assms by simp
    moreover have "k - (32 - ?w - ?p) = (k - (32 - ?w)) + ?p" using that assms by simp
    ultimately show ?thesis
      using that assms cb [of "k - (32 - ?w) + ?p"]
      by (auto simp: wrapping_shl_def fd bit_push_bit_iff)
  qed
  have "bit_extend False (bit_copy a d c) d = take_bit ?w a"
  proof (rule bit_word_eqI)
    fix k assume "k < LENGTH(32)"
    then have k: "k < 32" by simp
    show "bit (bit_extend False (bit_copy a d c) d) k = bit (take_bit ?w a) k"
    proof (cases "k < ?w")
      case True
      then show ?thesis
        using w0 fd(3) assms up [of "k + (32 - ?w)"]
        by (simp add: bit_extend_def Let_def wrapping_shr_def fd bit_drop_bit_eq bit_take_bit_iff)
          (simp add: add.commute)
    next
      case False
      then have "\<not> bit (x :: u32) (32 - ?w + k)" for x
        using bit_imp_le_length [of x "32 - ?w + k"] assms by auto
      then show ?thesis
        using False w0 fd(3)
        by (simp add: bit_extend_def Let_def wrapping_shr_def fd bit_drop_bit_eq bit_take_bit_iff)
    qed
  qed
  moreover have "bit_extend True (bit_copy a d c) d = signed_take_bit (?w - 1) a"
  proof (rule bit_word_eqI)
    fix k assume "k < LENGTH(32)"
    then have k: "k < 32" by simp
    show "bit (bit_extend True (bit_copy a d c) d) k = bit (signed_take_bit (?w - 1) a) k"
    proof (cases "k < ?w")
      case True
      then show ?thesis
        using w0 fd(3) assms up [of "k + (32 - ?w)"] k
        by (simp add: bit_extend_def Let_def wrapping_sar_def fd bit_signed_drop_bit_iff
            bit_signed_take_bit_iff min_def) (cases "k = ?w - 1"; auto simp: add.commute)
    next
      case False
      then show ?thesis
        using w0 fd(3) assms up [of 31] k
        by (simp add: bit_extend_def Let_def wrapping_sar_def fd bit_signed_drop_bit_iff
            bit_signed_take_bit_iff min_def) (auto simp: not_less)
    qed
  qed
  moreover have "\<forall>k < 32. k < ?p \<or> ?p + ?w \<le> k \<longrightarrow> bit (bit_copy a d c) k = bit c k"
    using cb by auto
  ultimately show ?thesis by blast
qed

theorem bitfield_roundtrip_witness:
  "bit_extend True (bit_copy 0xF 0x404 0) 0x404 = - 1"
  using bitfield_roundtrip [where d = "0x404" and a = "0xF" and c = "0"] by simp

end
