(* ===== verification/Interp.thy ===== *)
theory Interp
  imports DataOps
begin

text \<open>
  The interpreter loop (\<open>src/vm/interp.rs\<close>).  One definition per section of its \<open>match\<close>, each
  applied to the view, the operand offsets and the core; \<open>step\<close> dispatches on the opcode,
  \<open>iterate\<close> is one turn of the loop (with tracing, code fetch and the reload of the current progs)
  and \<open>run\<close> the loop.  The budget counts down at jumps, calls and returns.
\<close>

section \<open>Outcomes\<close>

datatype (plugins only: code size) state_op =
  SoState u32 u32 | SoCState u32 u32 u32 | SoCWState u32 u32 u32 | SoThinkTime u32 u32

datatype (plugins only: code size) exit =
  Returned | ExitBuiltin u32 u32 | ExitState state_op | ExitTrace | ExitBudget | Fault error_kind

text \<open>What a statement does: go on at a statement, reload the current progs after a call or return, or
  leave the loop; with the budget left.\<close>

datatype (plugins only: code size) 's outcome =
  Next "'s core" u32 u32 | Reload "'s core" u32 | Exit "'s core" u32 exit

text \<open>What the loop knows of the current progs, and its parameters.\<close>

record env =
  n_view :: view
  n_trace :: bool
  n_depth :: nat
  n_prnum :: u8
  n_gbase :: u32
  n_globals :: u32

definition at_pc :: "'s core \<Rightarrow> u32 \<Rightarrow> 's core" where
  "at_pc c pc = c\<lparr>c_x := (c_x c)\<lparr>x_pc := pc\<rparr>\<rparr>"

definition fault :: "'s core \<Rightarrow> u32 \<Rightarrow> u32 \<Rightarrow> error_kind \<Rightarrow> 's outcome" where
  "fault c pc bud k = Exit (at_pc c pc) bud (Fault k)"

definition tick :: "env \<Rightarrow> 's core \<Rightarrow> u32 \<Rightarrow> u32 \<Rightarrow> (u32 \<Rightarrow> 's outcome) \<Rightarrow> 's outcome" where
  "tick n c pc bud k =
     (let b = sat_sub bud 1
      in if b = 0 then Exit ((at_pc c pc)\<lparr>c_traced := n_trace n\<rparr>) b ExitBudget else k b)"

definition jump :: "env \<Rightarrow> 's core \<Rightarrow> u32 \<Rightarrow> u32 \<Rightarrow> u32 \<Rightarrow> 's outcome" where
  "jump n c pc bud target = tick n c pc bud (\<lambda>b. Next c target b)"

text \<open>The end of an arm that needed all of the core: the view is taken again.\<close>

definition rewound :: "env \<Rightarrow> 's core \<Rightarrow> u32 \<Rightarrow> u32 \<Rightarrow> 's outcome" where
  "rewound n c pc bud =
     (if view_ok (n_view n) (ms (c_mem c)) then Next c (pc + 1) bud
      else fault c pc bud (BadPointerRead 0))"

definition on_mem :: "(memory \<Rightarrow> memory) \<Rightarrow> 's core \<Rightarrow> 's core" where
  "on_mem f c = c\<lparr>c_mem := f (c_mem c)\<rparr>"

definition the_default :: "'a \<Rightarrow> 'a option \<Rightarrow> 'a" where
  "the_default d x = (case x of Some v \<Rightarrow> v | None \<Rightarrow> d)"

section \<open>String comparisons\<close>

definition strcmp_step ::
  "env \<Rightarrow> strcmp_op \<Rightarrow> nat \<Rightarrow> nat \<Rightarrow> nat \<Rightarrow> 's core \<Rightarrow> u32 \<Rightarrow> u32 \<Rightarrow> 's outcome" where
  "strcmp_step n p oa ob oc c pc bud =
     (let a = rd (n_view n) (c_mem c) oa; b = rd (n_view n) (c_mem c) ob; c = at_pc c pc
      in if p = NotS then
           (case (if a = 0 then (c, True) else case str_or_warn c a of (c, t) \<Rightarrow> (c, t = [])) of
              (c, emp) \<Rightarrow> rewound n (on_mem (\<lambda>m. mem_set_g m oc (fbool emp)) c) pc bud)
         else
           (case string_compare c p a b of
              (c, x) \<Rightarrow> rewound n (on_mem (\<lambda>m. mem_set_g m oc x) c) pc bud))"

section \<open>Branches\<close>

primrec branch_taken :: "branch_op \<Rightarrow> u32 \<Rightarrow> bool" where
  "branch_taken IfI a = (a \<noteq> 0)"
| "branch_taken IfNotI a = (a = 0)"
| "branch_taken IfF a = float_true a"
| "branch_taken IfNotF a = (\<not> float_true a)"
| "branch_taken IfS a = (a \<noteq> 0)"
| "branch_taken IfNotS a = (a = 0)"
| "branch_taken Goto a = True"

definition branch_step :: "env \<Rightarrow> branch_op \<Rightarrow> stmt \<Rightarrow> 's core \<Rightarrow> u32 \<Rightarrow> u32 \<Rightarrow> 's outcome" where
  "branch_step n p st c pc bud =
     (if p = Goto then jump n c pc bud (st_a st)
      else if branch_taken p (rd (n_view n) (c_mem c) (unat (st_a st)))
      then jump n c pc bud (st_b st)
      else tick n c pc bud (\<lambda>b. Next c (pc + 1) b))"

section \<open>Entity fields\<close>

definition wr_bytes :: "view \<Rightarrow> memory \<Rightarrow> nat \<Rightarrow> nat \<Rightarrow> bytes \<Rightarrow> memory" where
  "wr_bytes v m oc n bs =
     foldl (\<lambda>m k. wr v m (oc + k * 4) (le_word (take 4 (drop (k * 4) bs)))) m [0..<n]"

definition zero_words :: "nat \<Rightarrow> nat \<Rightarrow> memory \<Rightarrow> memory" where
  "zero_words oc n m = foldl (\<lambda>m k. mem_set_g m (oc + k * 4) 0) m [0..<n]"

definition loadf_words :: "loadf_op \<Rightarrow> nat" where
  "loadf_words p = (if p = LoadV then 3 else if p = LoadI64 then 2 else 1)"

text \<open>How many words a failed load zeroes.\<close>

definition loadf_zeroed :: "'s core \<Rightarrow> loadf_op \<Rightarrow> u32 \<Rightarrow> nat" where
  "loadf_zeroed c p e =
     (if p = LoadV then (if e < num_edicts (c_mem c) then 1 else 3)
      else if p = LoadI64 then
        (if e < num_edicts (c_mem c) then 1
         else if fc_load_i64_zero3 (g_compat (c_config c)) then 3 else 2)
      else 1)"

definition loadf_step ::
  "env \<Rightarrow> loadf_op \<Rightarrow> nat \<Rightarrow> nat \<Rightarrow> nat \<Rightarrow> 's core \<Rightarrow> u32 \<Rightarrow> u32 \<Rightarrow> 's outcome" where
  "loadf_step n p oa ob oc c pc bud =
     (let v = n_view n; e = rd v (c_mem c) oa; f = rd v (c_mem c) ob; w = loadf_words p
      in case ent_field (c_mem c) (w * 4) e f of
           Some bs \<Rightarrow> rewound n (on_mem (\<lambda>m. wr_bytes v m oc w bs) c) pc bud
         | None \<Rightarrow>
             rewound n (on_mem (zero_words oc (loadf_zeroed c p e))
               (bad_field_access (at_pc c pc) e f)) pc bud)"

definition address_step ::
  "env \<Rightarrow> nat \<Rightarrow> nat \<Rightarrow> nat \<Rightarrow> 's core \<Rightarrow> u32 \<Rightarrow> u32 \<Rightarrow> 's outcome" where
  "address_step n oa ob oc c pc bud =
     (let v = n_view n; m = c_mem c; e = rd v m oa; f = rd v m ob
      in if (case nth_opt (slots m) (unat e) of Some s \<Rightarrow> \<not> protected s | None \<Rightarrow> False) then
           rewound n (on_mem (\<lambda>m. wr v m oc (e_base m + wrapping_shl e (stride_shift m) + f * 4)) c)
             pc bud
         else if num_edicts m \<le> e then rewound n (core_warn (at_pc c pc) (BadEntity e)) pc bud
         else if ent_protected m e then
           rewound n (core_warn (at_pc (on_mem (\<lambda>m. mem_set_g m oc (- 1)) c) pc) (ReadOnlyEntity e))
             pc bud
         else rewound n (on_mem (\<lambda>m. mem_set_g m oc (field_address m e f)) c) pc bud)"

definition storef_words :: "storef_op \<Rightarrow> nat" where
  "storef_words p = (if p = StoreFieldV then 3 else if p = StoreFieldI64 then 2 else 1)"

definition storef_step ::
  "env \<Rightarrow> storef_op \<Rightarrow> nat \<Rightarrow> nat \<Rightarrow> nat \<Rightarrow> 's core \<Rightarrow> u32 \<Rightarrow> u32 \<Rightarrow> 's outcome" where
  "storef_step n p oa ob oc c pc bud =
     (if p = Address then address_step n oa ob oc c pc bud
      else
        case store_field_view (n_view n) (c_mem c) (storef_words p) oa ob oc of
          Some m \<Rightarrow> Next (c\<lparr>c_mem := m\<rparr>) (pc + 1) bud
        | None \<Rightarrow> rewound n (store_field (at_pc c pc) oa ob oc (storef_words p)) pc bud)"

section \<open>Stores and loads through pointers\<close>

definition store_slow ::
  "env \<Rightarrow> 's core \<Rightarrow> u32 \<Rightarrow> u32 \<Rightarrow> u32 \<Rightarrow> u32 \<Rightarrow> bytes \<Rightarrow> 's outcome" where
  "store_slow n c pc bud base off bs =
     (case ptr_write (at_pc c pc) base off bs of
        (c, Some k) \<Rightarrow> fault c pc bud k
      | (c, None) \<Rightarrow> rewound n c pc bud)"

definition store_fast ::
  "env \<Rightarrow> 's core \<Rightarrow> u32 \<Rightarrow> u32 \<Rightarrow> u32 \<Rightarrow> u32 \<Rightarrow> bytes \<Rightarrow> 's outcome" where
  "store_fast n c pc bud base off bs =
     (case ptr_write_view (n_view n) (c_mem c) (base + off) bs of
        Some m \<Rightarrow> Next (c\<lparr>c_mem := m\<rparr>) (pc + 1) bud
      | None \<Rightarrow> store_slow n c pc bud base off bs)"

text \<open>Only the word and vector stores try the fast path.\<close>

definition storep_step ::
  "env \<Rightarrow> storep_op \<Rightarrow> nat \<Rightarrow> nat \<Rightarrow> nat \<Rightarrow> 's core \<Rightarrow> u32 \<Rightarrow> u32 \<Rightarrow> 's outcome" where
  "storep_step n p oa ob oc c pc bud =
     (let v = n_view n; m = c_mem c; a = rd v m oa; base = rd v m ob; idx = rd v m oc
      in case p of
           StorePV \<Rightarrow> store_fast n c pc bud base (idx * 4) (word_bytes v m oa 3)
         | StorePI64 \<Rightarrow> store_slow n c pc bud base (idx * 4) (le_bytes 8 (rd64 v m oa))
         | StorePIF \<Rightarrow> store_slow n c pc bud base (idx * 4) (le_bytes 4 (f32_of_int (sint a)))
         | StorePFI \<Rightarrow> store_slow n c pc bud base (idx * 4) (le_bytes 4 (f2i a))
         | StorePC \<Rightarrow> store_slow n c pc bud base idx [ucast (f2i a)]
         | StorePI8 \<Rightarrow> store_slow n c pc bud base idx [ucast a]
         | StorePI16 \<Rightarrow> store_slow n c pc bud base (idx * 2) (le_bytes 2 (ucast a :: u16))
         | _ \<Rightarrow> store_fast n c pc bud base (idx * 4) (le_bytes 4 a))"

definition load_slow ::
  "env \<Rightarrow> 's core \<Rightarrow> u32 \<Rightarrow> u32 \<Rightarrow> nat \<Rightarrow> u32 \<Rightarrow> u32 \<Rightarrow> (bytes \<Rightarrow> memory \<Rightarrow> memory) \<Rightarrow> 's outcome"
where
  "load_slow n c pc bud k base off put =
     (let c = at_pc c pc
      in case ptr_read c k base off of
           Inl e \<Rightarrow> fault c pc bud e
         | Inr bs \<Rightarrow> rewound n (on_mem (put bs) c) pc bud)"

definition load_fast ::
  "env \<Rightarrow> 's core \<Rightarrow> u32 \<Rightarrow> u32 \<Rightarrow> nat \<Rightarrow> u32 \<Rightarrow> u32 \<Rightarrow> nat \<Rightarrow> 's outcome" where
  "load_fast n c pc bud w base off oc =
     (case ptr_read_view (n_view n) (c_mem c) (w * 4) (base + off) of
        Some bs \<Rightarrow> Next (on_mem (\<lambda>m. wr_bytes (n_view n) m oc w bs) c) (pc + 1) bud
      | None \<Rightarrow> load_slow n c pc bud (w * 4) base off (\<lambda>bs m. wr_bytes Whole m oc w bs))"

text \<open>\<open>LOADP_ITOF\<close> and \<open>LOADP_FTOI\<close> read at \<open>A\<close> alone, with no fallback.\<close>

definition load_convert ::
  "env \<Rightarrow> (u32 \<Rightarrow> u32) \<Rightarrow> nat \<Rightarrow> nat \<Rightarrow> 's core \<Rightarrow> u32 \<Rightarrow> u32 \<Rightarrow> 's outcome" where
  "load_convert n f oa oc c pc bud =
     (let p = rd (n_view n) (c_mem c) oa
      in case mem_read_u32 (c_mem c) p of
           Some x \<Rightarrow> rewound n (on_mem (\<lambda>m. mem_set_g m oc (f x)) c) pc bud
         | None \<Rightarrow> fault c pc bud (BadPointerRead p))"

definition loadp_step ::
  "env \<Rightarrow> loadp_op \<Rightarrow> nat \<Rightarrow> nat \<Rightarrow> nat \<Rightarrow> 's core \<Rightarrow> u32 \<Rightarrow> u32 \<Rightarrow> 's outcome" where
  "loadp_step n p oa ob oc c pc bud =
     (let v = n_view n; m = c_mem c; base = rd v m oa; idx = rd v m ob;
          put = (\<lambda>f bs m. mem_set_g m oc (f bs))
      in case p of
           LoadPV \<Rightarrow> load_fast n c pc bud 3 base (idx * 4) oc
         | LoadPI64 \<Rightarrow> load_slow n c pc bud 8 base (idx * 4) (\<lambda>bs m. wr64 Whole m oc (le_word bs))
         | LoadPC \<Rightarrow> load_slow n c pc bud 1 base (f2i idx)
             (put (\<lambda>bs. f32_of_int (uint (le_word bs :: u8))))
         | LoadPU8 \<Rightarrow> load_slow n c pc bud 1 base idx (put (\<lambda>bs. ucast (le_word bs :: u8)))
         | LoadPI8 \<Rightarrow> load_slow n c pc bud 1 base idx (put (\<lambda>bs. scast (le_word bs :: u8)))
         | LoadPU16 \<Rightarrow> load_slow n c pc bud 2 base (idx * 2) (put (\<lambda>bs. ucast (le_word bs :: u16)))
         | LoadPI16 \<Rightarrow> load_slow n c pc bud 2 base (idx * 2) (put (\<lambda>bs. scast (le_word bs :: u16)))
         | LoadPItoF \<Rightarrow> load_convert n (\<lambda>x. f32_of_int (sint x)) oa oc c pc bud
         | LoadPFtoI \<Rightarrow> load_convert n f2i oa oc c pc bud
         | _ \<Rightarrow> load_fast n c pc bud 1 base (idx * 4) oc)"

definition compoundp_slow ::
  "env \<Rightarrow> compoundp_op \<Rightarrow> nat \<Rightarrow> nat \<Rightarrow> nat \<Rightarrow> 's core \<Rightarrow> u32 \<Rightarrow> u32 \<Rightarrow> 's outcome" where
  "compoundp_slow n p oa ob oc c pc bud =
     (case compound_pointer_store (at_pc c pc) p oa ob oc of
        (c, Some k) \<Rightarrow> fault c pc bud k
      | (c, None) \<Rightarrow> rewound n c pc bud)"

definition compoundp_step ::
  "env \<Rightarrow> compoundp_op \<Rightarrow> nat \<Rightarrow> nat \<Rightarrow> nat \<Rightarrow> 's core \<Rightarrow> u32 \<Rightarrow> u32 \<Rightarrow> 's outcome" where
  "compoundp_step n p oa ob oc c pc bud =
     (if p \<in> {MulStorePF, DivStorePF, AddStorePF, SubStorePF} then
        (case compound_store_view (n_view n) (c_mem c) p oa ob oc of
           Some m \<Rightarrow> Next (c\<lparr>c_mem := m\<rparr>) (pc + 1) bud
         | None \<Rightarrow> compoundp_slow n p oa ob oc c pc bud)
      else compoundp_slow n p oa ob oc c pc bud)"

section \<open>Arrays of globals\<close>

text \<open>Hexen 2 global arrays: the word before the array is its last valid index; the index comes from
  memory, so all of region S is read.\<close>

definition fetch_step ::
  "env \<Rightarrow> fetch_op \<Rightarrow> stmt \<Rightarrow> 's core \<Rightarrow> u32 \<Rightarrow> u32 \<Rightarrow> 's outcome" where
  "fetch_step n p st c pc bud =
     (let m = c_mem c; base = st_a st; i = f2i (mem_g m (unat (st_b st))); gb = unat (n_gbase n)
      in case checked_sub base 1 of
           None \<Rightarrow> fault c pc bud (ArrayIndex (sint i))
         | Some prefix_word \<Rightarrow>
             if mem_g m (gb + unat prefix_word * 4) < i then fault c pc bud (ArrayIndex (sint i))
             else
               let stride = (if p = FetchGblV then 3 else 1);
                   wd = base + i * of_nat stride;
                   src = gb + unat wd * 4
               in rewound n (on_mem (\<lambda>m. wcopy Whole m src (unat (st_c st)) stride) c) pc bud)"

definition in_globals :: "env \<Rightarrow> int \<Rightarrow> nat \<Rightarrow> bool" where
  "in_globals n i w \<longleftrightarrow> 0 \<le> i \<and> i + int w \<le> uint (n_globals n)"

definition loada_words :: "loada_op \<Rightarrow> nat" where
  "loada_words p = (if p = LoadAV then 3 else if p = LoadAI64 then 2 else 1)"

definition loada_step :: "env \<Rightarrow> loada_op \<Rightarrow> stmt \<Rightarrow> 's core \<Rightarrow> u32 \<Rightarrow> u32 \<Rightarrow> 's outcome" where
  "loada_step n p st c pc bud =
     (let w = loada_words p;
          i = uint (st_a st) + sint (rd (n_view n) (c_mem c) (unat (st_b st)))
      in if \<not> in_globals n i w then fault c pc bud (ArrayIndex i)
         else Next (on_mem (\<lambda>m. wcopy (n_view n) m (unat (n_gbase n) + nat i * 4)
                     (unat (st_c st)) w) c) (pc + 1) bud)"

definition gload_step :: "env \<Rightarrow> gload_op \<Rightarrow> stmt \<Rightarrow> 's core \<Rightarrow> u32 \<Rightarrow> u32 \<Rightarrow> 's outcome" where
  "gload_step n p st c pc bud =
     (let w = (if p = GLoadV then 3 else 1);
          i = sint (rd (n_view n) (c_mem c) (unat (st_a st)))
      in if \<not> in_globals n i w then fault c pc bud (ArrayIndex i)
         else Next (on_mem (\<lambda>m. wcopy (n_view n) m (unat (n_gbase n) + nat i * 4)
                     (unat (st_c st)) w) c) (pc + 1) bud)"

definition gstorep_step :: "env \<Rightarrow> gstorep_op \<Rightarrow> stmt \<Rightarrow> 's core \<Rightarrow> u32 \<Rightarrow> u32 \<Rightarrow> 's outcome" where
  "gstorep_step n p st c pc bud =
     (let w = (if p = GStorePV then 3 else 1);
          i = sint (rd (n_view n) (c_mem c) (unat (st_b st)))
      in if \<not> in_globals n i w then fault c pc bud (ArrayIndex i)
         else Next (on_mem (\<lambda>m. wcopy (n_view n) m (unat (st_a st))
                     (unat (n_gbase n) + nat i * 4) w) c) (pc + 1) bud)"

section \<open>Bounds checks, pushes, opcodes that always fault\<close>

definition push_step :: "env \<Rightarrow> stmt \<Rightarrow> 's core \<Rightarrow> u32 \<Rightarrow> u32 \<Rightarrow> 's outcome" where
  "push_step n st c pc bud =
     (let x = c_x c; ws = rd (n_view n) (c_mem c) (unat (st_a st));
          addr = ls_base (c_mem c) + (x_ls_top x + x_pushed x) * 4;
          pushed = sat_add (x_pushed x) ws
      in if ls_words (c_mem c) \<le> sat_add (x_ls_top x) pushed then fault c pc bud PushedTooMuch
         else rewound n (on_mem (\<lambda>m. mem_set_g m (unat (st_c st)) addr)
                (c\<lparr>c_x := x\<lparr>x_pushed := pushed\<rparr>\<rparr>)) pc bud)"

definition bounds_step :: "env \<Rightarrow> bounds_op \<Rightarrow> stmt \<Rightarrow> 's core \<Rightarrow> u32 \<Rightarrow> u32 \<Rightarrow> 's outcome" where
  "bounds_step n p st c pc bud =
     (if p = Push then push_step n st c pc bud
      else
        let x = rd (n_view n) (c_mem c) (unat (st_a st))
        in if x < st_c st \<or> st_b st \<le> x then fault c pc bud (BoundCheckFailed x (st_c st) (st_b st))
           else Next c (pc + 1) bud)"

definition bad_step :: "bad_op \<Rightarrow> 's core \<Rightarrow> u32 \<Rightarrow> u32 \<Rightarrow> 's outcome" where
  "bad_step p c pc bud =
     fault c pc bud
       (if p = GAddress then GAddressUsed
        else if p = JumpOutOfRangeOp then JumpOutOfRange
        else BadOpcode (of_nat (op_num (BadOp p))))"

section \<open>Animation and random numbers\<close>

definition anim_step ::
  "env \<Rightarrow> anim_op \<Rightarrow> nat \<Rightarrow> nat \<Rightarrow> 's core \<Rightarrow> u32 \<Rightarrow> u32 \<Rightarrow> 's outcome" where
  "anim_step n p oa ob c pc bud =
     (let a = rd (n_view n) (c_mem c) oa; b = rd (n_view n) (c_mem c) ob;
          f = func_ref (n_prnum n) (x_func (c_x c));
          so = (case p of State \<Rightarrow> SoState a b | CState \<Rightarrow> SoCState a b f
                | CWState \<Rightarrow> SoCWState a b f | ThinkTime \<Rightarrow> SoThinkTime a b)
      in Exit (at_pc c (pc + 1)) bud (ExitState so))"

text \<open>\<open>r\<close>, \<open>r * A\<close> and \<open>A + r * (B - A)\<close>; the divisors are 32768 and 32767.\<close>

definition rand_value :: "rand_op \<Rightarrow> u32 \<Rightarrow> u32 \<Rightarrow> u32 \<Rightarrow> u32" where
  "rand_value p r a b =
     (if p = Rand0 \<or> p = RandV0 then r
      else if p = Rand1 \<or> p = RandV1 then f32_mul r a
      else f32_add a (f32_mul r (f32_sub b a)))"

definition rand_word :: "rand_op \<Rightarrow> u32 \<Rightarrow> nat \<Rightarrow> nat \<Rightarrow> nat \<Rightarrow> 's core \<Rightarrow> 's core" where
  "rand_word p divisor oa ob oc c =
     (case rand15 (c_rng c) of
        (s, x) \<Rightarrow>
          let r = f32_div (f32_of_int (uint x)) divisor; m = c_mem c
          in c\<lparr>c_rng := s,
               c_mem := mem_set_g m oc (rand_value p r (mem_g m oa) (mem_g m ob))\<rparr>)"

definition rand_step ::
  "env \<Rightarrow> rand_op \<Rightarrow> nat \<Rightarrow> nat \<Rightarrow> nat \<Rightarrow> 's core \<Rightarrow> u32 \<Rightarrow> u32 \<Rightarrow> 's outcome" where
  "rand_step n p oa ob oc c pc bud =
     (if p \<in> {Rand0, Rand1, Rand2} then rewound n (rand_word p 0x47000000 oa ob oc c) pc bud
      else rewound n (foldl (\<lambda>c k. rand_word p 0x46FFFE00 (oa + k) (ob + k) (oc + k) c) c [0, 4, 8])
             pc bud)"

section \<open>Switches\<close>

definition kind_of_switch :: "switch_op \<Rightarrow> switch_kind" where
  "kind_of_switch p =
     (case p of SwitchF \<Rightarrow> SwFloat | SwitchV \<Rightarrow> SwVector | SwitchS \<Rightarrow> SwString | _ \<Rightarrow> SwInt)"

definition switch_step :: "env \<Rightarrow> switch_op \<Rightarrow> stmt \<Rightarrow> 's core \<Rightarrow> u32 \<Rightarrow> u32 \<Rightarrow> 's outcome" where
  "switch_step n p st c pc bud =
     jump n (c\<lparr>c_x := (c_x c)\<lparr>x_switch_ref := st_a st, x_switch_kind := kind_of_switch p\<rparr>\<rparr>)
       pc bud (st_b st)"

definition in_range3 :: "u32 \<times> u32 \<times> u32 \<Rightarrow> u32 \<times> u32 \<times> u32 \<Rightarrow> u32 \<times> u32 \<times> u32 \<Rightarrow> bool" where
  "in_range3 lo x hi = (case (lo, x, hi) of ((l0, l1, l2), (x0, x1, x2), (h0, h1, h2)) \<Rightarrow>
     (f32_le l0 x0 \<and> f32_le x0 h0) \<and> (f32_le l1 x1 \<and> f32_le x1 h1) \<and>
     (f32_le l2 x2 \<and> f32_le x2 h2))"

definition case_step :: "env \<Rightarrow> stmt \<Rightarrow> 's core \<Rightarrow> u32 \<Rightarrow> u32 \<Rightarrow> 's outcome" where
  "case_step n st c pc bud =
     (let v = n_view n; m = c_mem c; r = unat (x_switch_ref (c_x c)); oa = unat (st_a st);
          hit = (\<lambda>c b. if b then jump n c pc bud (st_b st) else Next c (pc + 1) bud)
      in case x_switch_kind (c_x c) of
           SwFloat \<Rightarrow> hit c (f32_eq (rd v m r) (rd v m oa))
         | SwVector \<Rightarrow> hit c (vec_eq (rd3 v m r) (rd3 v m oa))
         | SwInt \<Rightarrow> hit c (rd v m r = rd v m oa)
         | SwString \<Rightarrow>
             (case strings_equal (at_pc c pc) (rd v m r) (rd v m oa) of
                (c, eq) \<Rightarrow>
                  if view_ok v (ms (c_mem c)) then hit c eq
                  else fault c pc bud (BadPointerRead 0)))"

definition case_range_step :: "env \<Rightarrow> stmt \<Rightarrow> 's core \<Rightarrow> u32 \<Rightarrow> u32 \<Rightarrow> 's outcome" where
  "case_range_step n st c pc bud =
     (let v = n_view n; m = c_mem c; r = unat (x_switch_ref (c_x c));
          oa = unat (st_a st); ob = unat (st_b st);
          hit = (\<lambda>b. if b then jump n c pc bud (st_c st) else Next c (pc + 1) bud)
      in case x_switch_kind (c_x c) of
           SwFloat \<Rightarrow> hit (f32_le (rd v m oa) (rd v m r) \<and> f32_le (rd v m r) (rd v m ob))
         | SwVector \<Rightarrow> hit (in_range3 (rd3 v m oa) (rd3 v m r) (rd3 v m ob))
         | SwInt \<Rightarrow> hit (sint (rd v m oa) \<le> sint (rd v m r) \<and> sint (rd v m r) \<le> sint (rd v m ob))
         | SwString \<Rightarrow> fault c pc bud StringCaseRange)"

section \<open>Calls and returns\<close>

text \<open>Hexen 2 calls pass their first two arguments in \<open>B\<close> and \<open>C\<close>.\<close>

definition hexen2_args :: "env \<Rightarrow> op \<Rightarrow> stmt \<Rightarrow> memory \<Rightarrow> memory" where
  "hexen2_args n p st m =
     (if is_hexen2_call p then
        let v = n_view n; gb = unat (n_gbase n);
            m = (if 2 \<le> the_default 0 (call_argc p)
                 then wcopy v m (unat (st_c st)) (gb + OFS_PARM1) 3 else m)
        in wcopy v m (unat (st_b st)) (gb + OFS_PARM0) 3
      else m)"

definition callee_of :: "'s core \<Rightarrow> u32 \<Rightarrow> callee option" where
  "callee_of c target =
     Option.bind (core_progs_at c (func_progs target))
       (\<lambda>ps. nth_opt (ps_callees ps) (unat (func_index target)))"

definition dispatch :: "env \<Rightarrow> u32 \<Rightarrow> 's core \<Rightarrow> u32 \<Rightarrow> u32 \<Rightarrow> 's outcome" where
  "dispatch n target c pc bud =
     (case callee_of c target of
        Some CQc \<Rightarrow>
          (case enter (at_pc c pc) (func_progs target) (func_index target) (pc + 1) of
             (c, Some k) \<Rightarrow> fault c pc bud k
           | (c, None) \<Rightarrow> Reload c bud)
      | Some (CBuiltin slot) \<Rightarrow> Exit (at_pc c (pc + 1)) bud (ExitBuiltin slot target)
      | Some CNull \<Rightarrow> fault c pc bud NullFunction
      | Some CMissing \<Rightarrow> Exit (at_pc c pc) bud (Fault (missing_builtin (at_pc c pc) target))
      | _ \<Rightarrow> fault c pc bud (InvalidFunctionRef target))"

definition call_step :: "env \<Rightarrow> call_op \<Rightarrow> stmt \<Rightarrow> 's core \<Rightarrow> u32 \<Rightarrow> u32 \<Rightarrow> 's outcome" where
  "call_step n p st c pc bud =
     tick n c pc bud (\<lambda>b.
       let argc = the_default 0 (call_argc (Call p));
           c = on_mem (hexen2_args n (Call p) st) c;
           fv = rd (n_view n) (c_mem c) (unat (st_a st))
       in dispatch n fv (c\<lparr>c_argc := ucast argc\<rparr>) pc b)"

definition return_step :: "env \<Rightarrow> stmt \<Rightarrow> 's core \<Rightarrow> u32 \<Rightarrow> u32 \<Rightarrow> 's outcome" where
  "return_step n st c pc bud =
     tick n c pc bud (\<lambda>b.
       let c = leave (at_pc (on_mem (\<lambda>m. wcopy (n_view n) m (unat (st_a st))
                 (unat (n_gbase n) + OFS_RETURN) 3) c) pc)
       in if length (c_frames c) \<le> n_depth n then Exit c b Returned else Reload c b)"

section \<open>The loop\<close>

definition data_step :: "env \<Rightarrow> (memory \<Rightarrow> memory) \<Rightarrow> 's core \<Rightarrow> u32 \<Rightarrow> u32 \<Rightarrow> 's outcome" where
  "data_step n f c pc bud = Next (on_mem f c) (pc + 1) bud"

definition step :: "env \<Rightarrow> stmt \<Rightarrow> 's core \<Rightarrow> u32 \<Rightarrow> u32 \<Rightarrow> 's outcome" where
  "step n st c pc bud =
     (let v = n_view n; oa = unat (st_a st); ob = unat (st_b st); oc = unat (st_c st)
      in case st_op st of
           Arith p \<Rightarrow> data_step n (arith_step v p oa ob oc) c pc bud
         | Cmp p \<Rightarrow> data_step n (cmp_step v p oa ob oc) c pc bud
         | StrCmp p \<Rightarrow> strcmp_step n p oa ob oc c pc bud
         | Logic p \<Rightarrow> data_step n (logic_step v p oa ob oc) c pc bud
         | Branch p \<Rightarrow> branch_step n p st c pc bud
         | FieldLoad p \<Rightarrow> loadf_step n p oa ob oc c pc bud
         | FieldStore p \<Rightarrow> storef_step n p oa ob oc c pc bud
         | GStore p \<Rightarrow> data_step n (gstore_step v p oa ob oc) c pc bud
         | StorePtr p \<Rightarrow> storep_step n p oa ob oc c pc bud
         | LoadPtr p \<Rightarrow> loadp_step n p oa ob oc c pc bud
         | Compound p \<Rightarrow> data_step n (compound_step v p oa ob oc) c pc bud
         | CompoundPtr p \<Rightarrow> compoundp_step n p oa ob oc c pc bud
         | Fetch p \<Rightarrow> fetch_step n p st c pc bud
         | Anim p \<Rightarrow> anim_step n p oa ob c pc bud
         | Rand p \<Rightarrow> rand_step n p oa ob oc c pc bud
         | Switch p \<Rightarrow> switch_step n p st c pc bud
         | CaseOp Case \<Rightarrow> case_step n st c pc bud
         | CaseOp CaseRange \<Rightarrow> case_range_step n st c pc bud
         | Call p \<Rightarrow> call_step n p st c pc bud
         | Ret p \<Rightarrow> return_step n st c pc bud
         | IntOp p \<Rightarrow> data_step n (int_step v p oa ob oc) c pc bud
         | Mixed p \<Rightarrow> data_step n (mixed_step v p oa ob oc) c pc bud
         | PtrArith p \<Rightarrow> data_step n (ptrarith_step v (n_gbase n) (st_a st) p oa ob oc) c pc bud
         | LoadArr p \<Rightarrow> loada_step n p st c pc bud
         | GLoad p \<Rightarrow> gload_step n p st c pc bud
         | GStorePtr p \<Rightarrow> gstorep_step n p st c pc bud
         | Bounds p \<Rightarrow> bounds_step n p st c pc bud
         | BadOp p \<Rightarrow> bad_step p c pc bud
         | UIntOp p \<Rightarrow> data_step n (uint_step v p oa ob oc) c pc bud
         | Int64 p \<Rightarrow> data_step n (int64_step v p oa ob oc) c pc bud
         | DoubleOp p \<Rightarrow> data_step n (double_step v p oa ob oc) c pc bud
         | BitField p \<Rightarrow> data_step n (bitfield_step v p oa ob oc) c pc bud)"

text \<open>
  The state of the loop: the core, the statement, the budget, and the cached code of the progs
  \<open>cached_pr\<close>.  \<open>inner\<close> is one turn of the inner loop; \<open>reload\<close> starts it again for the progs that
  runs now, refreshing the cache only when its number changed.
\<close>

record 's lstate =
  ls_core :: "'s core"
  ls_env :: env
  ls_code :: "stmt list"
  ls_pr :: u8
  ls_cache :: "stmt list"
  ls_pc :: u32
  ls_budget :: u32

type_synonym 's result = "'s core \<times> u32 \<times> exit"

definition reload ::
  "view \<Rightarrow> bool \<Rightarrow> nat \<Rightarrow> u8 \<Rightarrow> stmt list \<Rightarrow> 's core \<Rightarrow> u32 \<Rightarrow> 's result + 's lstate" where
  "reload v trace depth cached_pr cached c bud =
     (let pr = x_prnum (c_x c)
      in case core_progs_at c pr of
           None \<Rightarrow> Inl (c, bud, Fault (InvalidFunctionRef (func_ref pr (x_func (c_x c)))))
         | Some ps \<Rightarrow>
             (let cache = (if cached_pr \<noteq> pr then ps_code ps else cached)
              in case view_code v cache of
                   None \<Rightarrow> Inl (c, bud, Fault JumpOutOfRange)
                 | Some code \<Rightarrow>
                     if view_ok v (ms (c_mem c)) then
                       Inr \<lparr>ls_core = c,
                            ls_env = \<lparr>n_view = v, n_trace = trace, n_depth = depth, n_prnum = pr,
                              n_gbase = ps_gbase ps, n_globals = ps_num_globals ps\<rparr>,
                            ls_code = code, ls_pr = pr, ls_cache = cache, ls_pc = x_pc (c_x c),
                            ls_budget = bud\<rparr>
                     else Inl (c, bud, Fault (BadPointerRead 0))))"

definition inner :: "'s lstate \<Rightarrow> 's result + 's lstate" where
  "inner s =
     (let n = ls_env s; c = ls_core s; pc = ls_pc s; bud = ls_budget s
      in if n_trace n \<and> \<not> c_traced c then Inl ((at_pc c pc)\<lparr>c_traced := True\<rparr>, bud, ExitTrace)
         else
           let c = (if n_trace n then c\<lparr>c_traced := False\<rparr> else c)
           in case code_at (n_view n) (ls_code s) pc of
                None \<Rightarrow> Inl (at_pc c pc, bud, Fault JumpOutOfRange)
              | Some st \<Rightarrow>
                  (case step n st c pc bud of
                     Next c' pc' b \<Rightarrow> Inr (s\<lparr>ls_core := c', ls_pc := pc', ls_budget := b\<rparr>)
                   | Reload c' b \<Rightarrow>
                       reload (n_view n) (n_trace n) (n_depth n) (ls_pr s) (ls_cache s) c' b
                   | Exit c' b e \<Rightarrow> Inl (c', b, e)))"

partial_function (option) loop :: "'s lstate \<Rightarrow> 's result option" where
  "loop s = (case inner s of Inl r \<Rightarrow> Some r | Inr s' \<Rightarrow> loop s')"

definition run :: "view \<Rightarrow> bool \<Rightarrow> 's core \<Rightarrow> nat \<Rightarrow> u32 \<Rightarrow> 's result option" where
  "run v trace c depth bud =
     (case c_progs c of
        [] \<Rightarrow> Some (c, bud, Fault (InvalidFunctionRef 0))
      | p # _ \<Rightarrow>
          (case reload v trace depth 255 (ps_code p) c bud of
             Inl r \<Rightarrow> Some r
           | Inr s \<Rightarrow> loop s))"

definition run_fast :: "'s core \<Rightarrow> nat \<Rightarrow> u32 \<Rightarrow> 's result option" where
  "run_fast c depth bud = run Whole False c depth bud"

definition run_window :: "'s core \<Rightarrow> nat \<Rightarrow> u32 \<Rightarrow> 's result option" where
  "run_window c depth bud = run Window False c depth bud"

definition run_traced :: "'s core \<Rightarrow> nat \<Rightarrow> u32 \<Rightarrow> 's result option" where
  "run_traced c depth bud = run Whole True c depth bud"

end
