(* ===== verification/Execution.thy ===== *)
theory Execution
  imports Interp
begin

text \<open>
  Facts about the interpreter (\<open>src/vm/interp.rs\<close>).  Every statement keeps the VM core well formed
  (region layout, strings, call stack) and changes nothing a statement may not change
  (\<open>keeps\<close>); a run always ends, because the code ends in the sentinel and every jump, call and
  return costs budget; and what a run does never depends on the stale \<open>pc\<close> of the core.
\<close>

section \<open>What a statement keeps\<close>

definition core_wf :: "'s core \<Rightarrow> bool" where
  "core_wf c \<longleftrightarrow> mem_wf (c_mem c) \<and> str_wf (c_strings c) \<and> stack_wf c"

text \<open>The parts of the core that no statement changes: everything but the contents of memory and of
  temporary strings, the call state, the random numbers and the warnings.\<close>

definition layout :: "memory \<Rightarrow> memory" where
  "layout m = m\<lparr>ms := replicate (length (ms m)) 0, me := replicate (length (me m)) 0,
     mheap := (mheap m)\<lparr>h_data := replicate (length (h_data (mheap m))) 0\<rparr>\<rparr>"

definition fixed_part :: "'s core \<Rightarrow> 's core" where
  "fixed_part c = c\<lparr>c_mem := layout (c_mem c),
     c_strings := (c_strings c)\<lparr>s_slots := [], s_bytes := 0\<rparr>,
     c_frames := [], c_x := exec_default, c_argc := 0, c_rng := 0, c_warnings := [],
     c_warnings_this_call := 0, c_suppressed := 0\<rparr>"

definition keeps :: "'s core \<Rightarrow> 's core \<Rightarrow> bool" where
  "keeps c d \<longleftrightarrow> (core_wf c \<longrightarrow> core_wf d \<and> fixed_part d = fixed_part c)"

named_theorems keeps_intros

lemma keeps_refl [keeps_intros]: "keeps c c"
  by (simp add: keeps_def)

lemma keeps_trans: "keeps c d \<Longrightarrow> keeps d e \<Longrightarrow> keeps c e"
  by (simp add: keeps_def)

lemma fixed_part_eqD:
  assumes "fixed_part d = fixed_part c"
  shows "c_progs d = c_progs c" "c_config d = c_config c" "c_fields d = c_fields c"
    "layout (c_mem d) = layout (c_mem c)" "c_threads d = c_threads c" "c_std d = c_std c"
    "c_nesting d = c_nesting c" "c_entry_depth d = c_entry_depth c"
proof -
  have "c_progs (fixed_part d) = c_progs (fixed_part c)" "c_config (fixed_part d) = c_config (fixed_part c)"
    "c_fields (fixed_part d) = c_fields (fixed_part c)" "c_mem (fixed_part d) = c_mem (fixed_part c)"
    "c_threads (fixed_part d) = c_threads (fixed_part c)" "c_std (fixed_part d) = c_std (fixed_part c)"
    "c_nesting (fixed_part d) = c_nesting (fixed_part c)"
    "c_entry_depth (fixed_part d) = c_entry_depth (fixed_part c)"
    by (simp_all only: assms)
  then show "c_progs d = c_progs c" "c_config d = c_config c" "c_fields d = c_fields c"
    "layout (c_mem d) = layout (c_mem c)" "c_threads d = c_threads c" "c_std d = c_std c"
    "c_nesting d = c_nesting c" "c_entry_depth d = c_entry_depth c"
    by (simp_all add: fixed_part_def)
qed

lemma layout_s_only:
  assumes "s_only m m'"
  shows "layout m' = layout m"
proof -
  from assms obtain x where "m' = m\<lparr>ms := x\<rparr>" "length x = length (ms m)" by (auto simp: s_only_def)
  then show ?thesis by (simp add: layout_def)
qed

lemma layout_ls_words: "layout m' = layout m \<Longrightarrow> ls_words m' = ls_words m"
  by (drule arg_cong [where f = ls_words]) (simp add: layout_def)

lemma keeps_mem:
  assumes "mem_wf (c_mem c) \<Longrightarrow> mem_wf m \<and> layout m = layout (c_mem c)"
  shows "keeps c (c\<lparr>c_mem := m\<rparr>)"
  unfolding keeps_def
proof (intro impI conjI)
  assume wf: "core_wf c"
  then have m: "mem_wf m" "layout m = layout (c_mem c)" using assms by (simp_all add: core_wf_def)
  then show "fixed_part (c\<lparr>c_mem := m\<rparr>) = fixed_part c" by (simp add: fixed_part_def)
  have "stack_wf c" using wf by (simp add: core_wf_def)
  from stack_wf_cong [OF this, of "c\<lparr>c_mem := m\<rparr>"] show "core_wf (c\<lparr>c_mem := m\<rparr>)"
    using wf m layout_ls_words [OF m(2)] by (simp add: core_wf_def)
qed

lemma keeps_s_only: "s_only (c_mem c) m \<Longrightarrow> keeps c (c\<lparr>c_mem := m\<rparr>)"
  by (rule keeps_mem) (simp add: s_only_wf layout_s_only)

lemma keeps_on_mem: "s_only (c_mem c) (f (c_mem c)) \<Longrightarrow> keeps c (on_mem f c)"
  unfolding on_mem_def by (rule keeps_s_only)

lemma keeps_scalars:
  assumes "c_frames d = c_frames c" "c_mem d = c_mem c" "c_strings d = c_strings c"
    "x_ls_top (c_x d) = x_ls_top (c_x c)" "x_pushed (c_x d) = x_pushed (c_x c)"
    "x_locals_words (c_x d) = x_locals_words (c_x c)" "c_config d = c_config c"
    "fixed_part d = fixed_part c"
  shows "keeps c d"
  using assms stack_wf_cong [of c d] by (simp add: keeps_def core_wf_def)

lemma keeps_at_pc [keeps_intros]: "keeps c (at_pc c pc)"
  by (rule keeps_scalars) (simp_all add: at_pc_def fixed_part_def)

lemma keeps_retraced:
  assumes "keeps c d"
  shows "keeps c (d\<lparr>c_traced := c_traced c\<rparr>)"
proof (cases "core_wf c")
  case True
  then have "c_traced (fixed_part d) = c_traced (fixed_part c)" using assms by (simp add: keeps_def)
  then have "d\<lparr>c_traced := c_traced c\<rparr> = d" by (simp add: fixed_part_def)
  then show ?thesis using assms by simp
qed (simp add: keeps_def)

lemma keeps_warn [keeps_intros]: "keeps c (core_warn c k)"
  by (rule keeps_scalars) (simp_all add: core_warn_def fixed_part_def Let_def)

lemma keeps_bad_field [keeps_intros]: "keeps c (bad_field_access c e f)"
  by (simp add: bad_field_access_def keeps_warn)

lemma keeps_str_or_warn [keeps_intros]: "keeps c (fst (str_or_warn c r))"
  by (simp add: str_or_warn_def keeps_intros split: option.splits)

lemma keeps_strings_equal [keeps_intros]: "keeps c (fst (strings_equal c a b))"
  using keeps_trans [OF keeps_str_or_warn [of c a] keeps_str_or_warn [of _ b]]
  by (simp add: strings_equal_def Let_def split_beta keeps_intros)

lemma keeps_string_compare [keeps_intros]: "keeps c (fst (string_compare c p a b))"
  by (simp add: string_compare_def split: prod.splits) (metis fst_conv keeps_strings_equal)


section \<open>Writes through pointers, calls and returns\<close>

lemma mem_write_layout:
  assumes "mem_wf m" "mem_write m p bs = Inr m'"
  shows "mem_wf m' \<and> layout m' = layout m"
proof -
  from assms obtain l where l: "m' = set_region m l (splice (fst (region m l)) (snd (region m l)) bs)"
    "snd (region m l) + length bs \<le> length (fst (region m l))" by (rule mem_write_Inr)
  then have "layout m' = layout m" by (cases l) (simp_all add: layout_def region_def set_region_def)
  then show ?thesis using mem_write_wf [OF assms] by simp
qed

lemma keeps_mem_write: "mem_write (c_mem c) p bs = Inr m \<Longrightarrow> keeps c (c\<lparr>c_mem := m\<rparr>)"
  by (rule keeps_mem) (rule mem_write_layout)

lemma layout_me: "length d = length (me m) \<Longrightarrow> layout (m\<lparr>me := d\<rparr>) = layout m"
  by (simp add: layout_def)

lemma wf_me: "mem_wf m \<Longrightarrow> length d = length (me m) \<Longrightarrow> mem_wf (m\<lparr>me := d\<rparr>)"
  by (simp add: mem_wf_def block_len_def)

lemma set_ent_word_layout: "layout (set_ent_word m off x) = layout m"
  by (simp add: set_ent_word_def layout_me len_simps)

lemma temp_raw_mut_fixed:
  assumes "temp_raw_mut s slot len = Some (s', d)"
  shows "s'\<lparr>s_slots := [], s_bytes := 0\<rparr> = s\<lparr>s_slots := [], s_bytes := 0\<rparr>" "set_temp s' slot d = s'"
proof -
  show "s'\<lparr>s_slots := [], s_bytes := 0\<rparr> = s\<lparr>s_slots := [], s_bytes := 0\<rparr>"
    using assms by (auto simp: temp_raw_mut_def set_temp_def Let_def split: option.splits if_splits)
  show "set_temp s' slot d = s'"
    using assms by (auto simp: temp_raw_mut_def set_temp_def Let_def temp_raw_def nth_opt_def
        list_update_same_conv split: option.splits if_splits)
qed

lemma keeps_strings:
  assumes "str_wf (c_strings c) \<Longrightarrow> str_wf s"
    and "s\<lparr>s_slots := [], s_bytes := 0\<rparr> = (c_strings c)\<lparr>s_slots := [], s_bytes := 0\<rparr>"
  shows "keeps c (c\<lparr>c_strings := s\<rparr>)"
  using assms stack_wf_cong [of c "c\<lparr>c_strings := s\<rparr>"]
  by (simp add: keeps_def core_wf_def fixed_part_def)

lemma keeps_temp_write:
  assumes t: "temp_raw_mut (c_strings c) slot len = Some (s, d)" and l: "length d' = length d"
  shows "keeps c (c\<lparr>c_strings := set_temp s slot d'\<rparr>)"
proof (rule keeps_strings)
  show "str_wf (c_strings c) \<Longrightarrow> str_wf (set_temp s slot d')" by (rule temp_write_wf [OF _ t l])
  show "(set_temp s slot d')\<lparr>s_slots := [], s_bytes := 0\<rparr> =
      (c_strings c)\<lparr>s_slots := [], s_bytes := 0\<rparr>"
    using temp_raw_mut_fixed(1) [OF t] by (simp add: set_temp_def)
qed

lemma keeps_ptr_write_slow: "keeps c (fst (ptr_write_slow c base off addr bs err))"
proof (cases "addr \<noteq> - 1 \<and> base AND TAG_MASK = TEMP_TAG")
  case True
  show ?thesis
  proof (cases "temp_raw_mut (c_strings c) (base AND INDEX_MASK) (unat off + length bs)")
    case None
    then show ?thesis using True by (simp add: ptr_write_slow_def Let_def keeps_refl)
  next
    case (Some p)
    obtain s d where p: "p = (s, d)" by (cases p)
    note t = Some [unfolded p]
    have "unat off + length bs \<le> length d \<Longrightarrow> length (splice d (unat off) bs) = length d" by simp
    then show ?thesis
      using True t keeps_temp_write [OF t] temp_raw_mut_fixed(2) [OF t] keeps_temp_write [OF t refl]
      by (simp add: ptr_write_slow_def Let_def)
  qed
next
  case False
  then show ?thesis by (auto simp: ptr_write_slow_def keeps_refl)
qed

lemma keeps_ptr_write [keeps_intros]: "keeps c (fst (ptr_write c base off bs))"
proof (cases "mem_write (c_mem c) (base + off) bs")
  case (Inl e)
  then show ?thesis
    by (cases e) (simp_all add: ptr_write_def keeps_ptr_write_slow keeps_warn)
next
  case (Inr m)
  then show ?thesis using keeps_mem_write [OF Inr] by (simp add: ptr_write_def)
qed

section \<open>Compound stores\<close>

definition mem_keeps :: "memory \<Rightarrow> memory \<Rightarrow> bool" where
  "mem_keeps m m' \<longleftrightarrow> (mem_wf m \<longrightarrow> mem_wf m' \<and> layout m' = layout m)"

named_theorems mem_keeps_intros

lemma mem_keeps_refl [mem_keeps_intros]: "mem_keeps m m"
  by (simp add: mem_keeps_def)

lemma mem_keeps_trans: "mem_keeps m m' \<Longrightarrow> mem_keeps m' m'' \<Longrightarrow> mem_keeps m m''"
  by (simp add: mem_keeps_def)

lemma mem_keeps_s_only: "s_only m m' \<Longrightarrow> mem_keeps m m'"
  by (simp add: mem_keeps_def s_only_wf layout_s_only)

lemma mem_keeps_foldl: "(\<And>m x. mem_keeps m (f m x)) \<Longrightarrow> mem_keeps m (foldl f m xs)"
  by (induction xs arbitrary: m) (auto intro: mem_keeps_refl mem_keeps_trans)

lemma mem_keeps_store_or_keep [mem_keeps_intros]: "mem_keeps m (store_or_keep m at x)"
  using mem_write_layout
  by (auto simp: mem_keeps_def store_or_keep_def mem_write_u32_def split: sum.splits)

lemma mem_keeps_ent_word [mem_keeps_intros]: "mem_keeps m (set_ent_word m off x)"
  by (simp add: mem_keeps_def set_ent_word_layout set_ent_word_wf)

lemma mem_keeps_me: "length d = length (me m) \<Longrightarrow> mem_keeps m (m\<lparr>me := d\<rparr>)"
  by (simp add: mem_keeps_def layout_me wf_me)

lemma mem_keeps_store_both [mem_keeps_intros]:
  "mem_keeps m (mem_set_g (store_or_keep m at x) o' y)"
  by (rule mem_keeps_trans [OF mem_keeps_store_or_keep mem_keeps_s_only [OF s_only_set_g]])

lemma keeps_core_mem: "mem_keeps (c_mem c) m \<Longrightarrow> keeps c (c\<lparr>c_mem := m\<rparr>)"
  by (rule keeps_mem) (simp add: mem_keeps_def)

lemma mem_keeps_rmw [mem_keeps_intros]: "mem_keeps m (compound_rmw m p ptr oa oc)"
  by (cases p)
    (auto simp: compound_rmw_def Let_def intro!: mem_keeps_foldl mem_keeps_intros)

lemma keeps_compound [keeps_intros]: "keeps c (fst (compound_pointer_store c p oa ob oc))"
proof -
  have "keeps c (c\<lparr>c_mem := compound_rmw (c_mem c) p (mem_g (c_mem c) ob) oa oc\<rparr>)"
    by (rule keeps_core_mem) (rule mem_keeps_rmw)
  then show ?thesis
    by (auto simp: compound_pointer_store_def Let_def keeps_refl keeps_warn
        split: sum.splits write_error.splits)
qed

lemma mem_keeps_store_field_view: "store_field_view v m n oa ob oc = Some m' \<Longrightarrow> mem_keeps m m'"
  by (auto simp: store_field_view_def Let_def word_bytes_def split: if_splits option.splits
      intro!: mem_keeps_me)

lemma keeps_store_field [keeps_intros]: "keeps c (store_field c oa ob oc n)"
  by (auto simp: store_field_def Let_def split: option.splits
      intro!: keeps_intros keeps_core_mem mem_keeps_foldl mem_keeps_intros)

lemma s_only_splice: "a + length bs \<le> length (ms m) \<Longrightarrow> s_only m (m\<lparr>ms := splice (ms m) a bs\<rparr>)"
  by (simp add: s_only_def)

lemma mem_keeps_ptr_write_view:
  assumes "view_ok v (ms m)" "ptr_write_view v m p bs = Some m'"
  shows "mem_keeps m m'"
  using assms view_len_le [OF assms(1)]
  by (auto simp: ptr_write_view_def Let_def split: if_splits option.splits prod.splits bool.splits
      intro: mem_keeps_s_only [OF s_only_splice] mem_keeps_me)

lemma mem_keeps_compound_view:
  assumes "compound_store_view v m p oa ob oc = Some m'"
  shows "mem_keeps m m'"
  using assms
  by (auto simp: compound_store_view_def Let_def split: if_splits option.splits prod.splits bool.splits
      intro!: mem_keeps_trans [OF _ mem_keeps_s_only [OF wr_s_only]] mem_keeps_ent_word
        mem_keeps_s_only [OF s_only_set_g])

section \<open>Calls and returns\<close>

lemma switch_shape:
  "switch_in c a b = c\<lparr>c_mem := c_mem (switch_in c a b)\<rparr>"
  "switch_out c a b = c\<lparr>c_mem := c_mem (switch_out c a b)\<rparr>"
  by (simp_all add: switch_in_def switch_out_def split: option.splits)

lemma keeps_switch: "keeps c (switch_in c a b)" "keeps c (switch_out c a b)"
  by (subst switch_shape, rule keeps_s_only, rule s_only_switch)+

text \<open>Only memory, the frames and the registers change, the stack invariant being proved apart.\<close>

lemma keeps_stack:
  assumes "s_only (c_mem c) m" "stack_wf c \<Longrightarrow> stack_wf (c\<lparr>c_mem := m, c_frames := fs, c_x := x\<rparr>)"
  shows "keeps c (c\<lparr>c_mem := m, c_frames := fs, c_x := x\<rparr>)"
  using assms(2) s_only_wf [OF _ assms(1)] layout_s_only [OF assms(1)]
  by (simp add: keeps_def core_wf_def fixed_part_def)

lemma enter_keeps [keeps_intros]: "keeps c (fst (enter c pr i rpc))"
proof (cases "enter c pr i rpc")
  case (Pair c' r)
  show ?thesis
  proof (cases r)
    case (Some k)
    then show ?thesis using enter_failed [of c pr i rpc c' k] Pair by (auto intro: keeps_refl keeps_switch)
  next
    case None
    with Pair have e: "enter c pr i rpc = (c', None)" by simp
    from e obtain c0 m cs fs x where c0: "c0 = c \<or> c0 = switch_in c (x_prnum (c_x c)) pr"
      "s_only (c_mem c0) m" "c' = c0\<lparr>c_mem := param_copies_into m cs, c_frames := fs, c_x := x\<rparr>"
      by (elim enter_ok) (metis fst_conv s_only_move_s)
    then have s: "s_only (c_mem c) (param_copies_into m cs)"
      using s_only_switch(1) by (metis s_only_param_copies s_only_trans)
    have "c0 = c\<lparr>c_mem := c_mem c0\<rparr>" using c0(1) switch_shape(1) by (elim disjE) simp_all
    then obtain m0 where "c0 = c\<lparr>c_mem := m0\<rparr>" by blast
    with c0(3) have c': "c' = c\<lparr>c_mem := param_copies_into m cs, c_frames := fs, c_x := x\<rparr>" by simp
    show ?thesis
      using keeps_stack [OF s, where fs = fs and x = x] enter_stack_wf [OF _ Pair] unfolding Pair fst_conv c' by blast
  qed
qed

lemma leave_shape:
  obtains m where "s_only (c_mem c) m"
    "leave c = c\<lparr>c_mem := m, c_frames := c_frames (leave c), c_x := c_x (leave c)\<rparr>"
proof -
  define r where "r = restore_locals c"
  obtain m1 x1 where r: "s_only (c_mem c) m1" "r = c\<lparr>c_mem := m1, c_x := x1\<rparr>"
    unfolding r_def restore_locals_def Let_def using s_only_move_s by blast
  define p where "p = (if c_frames r = [] then r else pop_frame r (last (c_frames r)))"
  obtain fs x2 where p2: "p = c\<lparr>c_mem := m1, c_frames := fs, c_x := x2\<rparr>"
  proof (cases "c_frames r = []")
    case True
    then have "p = c\<lparr>c_mem := m1, c_frames := c_frames c, c_x := x1\<rparr>" by (simp add: p_def r(2))
    then show thesis by (rule that)
  next
    case False
    then have "p = c\<lparr>c_mem := m1, c_frames := c_frames p, c_x := c_x p\<rparr>"
      by (simp add: p_def r(2) pop_frame_def Let_def)
    then show thesis by (rule that)
  qed
  have "leave c = p \<or> (\<exists>b. leave c = switch_out p (x_prnum (c_x c)) b)"
    by (auto simp: leave_def Let_def p_def r_def)
  then obtain m where m: "s_only (c_mem p) m" "leave c = p\<lparr>c_mem := m\<rparr>"
    by (metis s_only_switch(2) switch_shape(2) core.surjective core.update_convs(1) s_only_refl)
  have "s_only (c_mem c) m" using s_only_trans [OF r(1)] m(1) p2 by simp
  moreover have "leave c = c\<lparr>c_mem := m, c_frames := c_frames (leave c), c_x := c_x (leave c)\<rparr>"
    unfolding m(2) p2 by simp
  ultimately show thesis by (rule that)
qed

lemma leave_keeps [keeps_intros]: "keeps c (leave c)"
proof -
  obtain m where m: "s_only (c_mem c) m"
    "leave c = c\<lparr>c_mem := m, c_frames := c_frames (leave c), c_x := c_x (leave c)\<rparr>"
    by (rule leave_shape)
  show ?thesis
    using keeps_stack [OF m(1), where fs = "c_frames (leave c)" and x = "c_x (leave c)"] leave_stack_wf [of c]
    by (metis m(2))
qed

section \<open>Outcomes\<close>

text \<open>A statement keeps the core well formed, and either moves on to the next statement, spends budget, or
  leaves the loop (where a spent budget also sets the mark of the tracer).\<close>

fun outcome_le :: "'s core \<Rightarrow> u32 \<Rightarrow> 's outcome \<Rightarrow> bool" where
  "outcome_le c bud (Next d pc b) \<longleftrightarrow> keeps c d \<and> b \<le> bud"
| "outcome_le c bud (Reload d b) \<longleftrightarrow> keeps c d \<and> b \<le> bud"
| "outcome_le c bud (Exit d b e) \<longleftrightarrow> keeps c (d\<lparr>c_traced := c_traced c\<rparr>) \<and> b \<le> bud"

fun outcome_ok :: "'s core \<Rightarrow> u32 \<Rightarrow> u32 \<Rightarrow> 's outcome \<Rightarrow> bool" where
  "outcome_ok c pc bud (Next d pc' b) \<longleftrightarrow> keeps c d \<and> (b < bud \<or> b = bud \<and> pc' = pc + 1)"
| "outcome_ok c pc bud (Reload d b) \<longleftrightarrow> keeps c d \<and> b < bud"
| "outcome_ok c pc bud (Exit d b e) \<longleftrightarrow> keeps c (d\<lparr>c_traced := c_traced c\<rparr>) \<and> b \<le> bud"

named_theorems outcome_intros

lemma next_ok [outcome_intros]: "keeps c d \<Longrightarrow> outcome_ok c pc bud (Next d (pc + 1) bud)"
  by simp

lemma fault_ok [outcome_intros]: "keeps c d \<Longrightarrow> outcome_ok c pc bud (fault d pc bud k)"
  by (simp add: fault_def keeps_retraced keeps_trans [OF _ keeps_at_pc])

lemma fault_le [outcome_intros]: "keeps c d \<Longrightarrow> outcome_le c bud (fault d pc bud k)"
  by (simp add: fault_def keeps_retraced keeps_trans [OF _ keeps_at_pc])

lemma rewound_ok [outcome_intros]: "keeps c d \<Longrightarrow> outcome_ok c pc bud (rewound n d pc bud)"
  by (simp add: rewound_def outcome_intros)

lemma sat_sub_one_less: "sat_sub bud 1 \<noteq> 0 \<Longrightarrow> sat_sub bud 1 < (bud :: u32)"
  by (simp add: word_less_nat_alt unat_sat_sub unat_eq_zero [symmetric] del: unat_eq_zero)

lemma tick_ok:
  assumes d: "keeps c d" and k: "\<And>b. outcome_le c b (k b)"
  shows "outcome_ok c pc bud (tick n d pc bud k)"
proof (cases "sat_sub bud 1 = 0")
  case True
  have "keeps c ((at_pc d pc)\<lparr>c_traced := c_traced c\<rparr>)"
    by (rule keeps_retraced) (rule keeps_trans [OF d keeps_at_pc])
  then show ?thesis using True by (simp add: tick_def)
next
  case False
  then have t: "tick n d pc bud k = k (sat_sub bud 1)" by (simp add: tick_def Let_def)
  show ?thesis using k [of "sat_sub bud 1"] sat_sub_one_less [OF False] unfolding t
    by (cases "k (sat_sub bud 1)") auto
qed

lemma jump_ok [outcome_intros]: "keeps c d \<Longrightarrow> outcome_ok c pc bud (jump n d pc bud t)"
  unfolding jump_def by (rule tick_ok) simp_all

section \<open>Every statement is well behaved\<close>

lemmas keeps_via = keeps_trans [OF keeps_at_pc] keeps_trans [OF keeps_warn]

lemma keeps_fst: "x = (a, b) \<Longrightarrow> keeps c (fst x) \<Longrightarrow> keeps c a"
  by simp

lemma keeps_then_mem: "keeps c d \<Longrightarrow> s_only (c_mem d) (f (c_mem d)) \<Longrightarrow> keeps c (on_mem f d)"
  by (rule keeps_trans [OF _ keeps_on_mem])

lemma strcmp_ok: "outcome_ok c pc bud (strcmp_step n p oa ob oc c pc bud)"
proof -
  have 1: "keeps c (fst (str_or_warn (at_pc c pc) r))" for r
    by (rule keeps_trans [OF keeps_at_pc keeps_str_or_warn])
  have 2: "keeps c (fst (string_compare (at_pc c pc) p a b))" for a b
    by (rule keeps_trans [OF keeps_at_pc keeps_string_compare])
  show ?thesis
    by (auto simp: strcmp_step_def Let_def split_beta
        intro!: outcome_intros keeps_then_mem s_only_set_g 1 2 keeps_at_pc)
qed

lemma branch_ok: "outcome_ok c pc bud (branch_step n p st c pc bud)"
  by (auto simp: branch_step_def intro!: outcome_intros tick_ok keeps_refl)

lemma s_only_wr_bytes [s_only_intros]: "s_only m (wr_bytes v m oc n bs)"
  unfolding wr_bytes_def by (rule s_only_foldl) (rule wr_s_only)

lemma s_only_zero_words [s_only_intros]: "s_only m (zero_words oc n m)"
  unfolding zero_words_def by (rule s_only_foldl) (rule s_only_set_g)

lemma loadf_ok: "outcome_ok c pc bud (loadf_step n p oa ob oc c pc bud)"
  by (auto simp: loadf_step_def Let_def split: option.splits
      intro!: outcome_intros keeps_then_mem s_only_intros keeps_refl
        keeps_trans [OF keeps_at_pc keeps_bad_field])

lemma address_ok: "outcome_ok c pc bud (address_step n oa ob oc c pc bud)"
  by (auto simp: address_step_def Let_def split: option.splits
      intro!: outcome_intros keeps_then_mem s_only_intros wr_s_only keeps_refl
        keeps_trans [OF _ keeps_warn] keeps_trans [OF _ keeps_at_pc])

lemma storef_ok: "outcome_ok c pc bud (storef_step n p oa ob oc c pc bud)"
proof (cases "p = Address \<or> store_field_view (n_view n) (c_mem c) (storef_words p) oa ob oc = None")
  case True
  then show ?thesis
    by (auto simp: storef_step_def address_ok
        intro!: outcome_intros keeps_trans [OF keeps_at_pc keeps_store_field])
next
  case False
  then obtain m where m: "p \<noteq> Address"
    "store_field_view (n_view n) (c_mem c) (storef_words p) oa ob oc = Some m" by auto
  then show ?thesis
    using keeps_core_mem [OF mem_keeps_store_field_view [OF m(2)]] by (simp add: storef_step_def)
qed

lemma store_slow_ok: "outcome_ok c pc bud (store_slow n c pc bud base off bs)"
  using keeps_trans [OF keeps_at_pc keeps_ptr_write, of c pc base off bs]
  by (auto simp: store_slow_def split: prod.splits option.splits intro!: outcome_intros)

lemma store_fast_ok:
  assumes "view_ok (n_view n) (ms (c_mem c))"
  shows "outcome_ok c pc bud (store_fast n c pc bud base off bs)"
  using keeps_core_mem [OF mem_keeps_ptr_write_view [OF assms]]
  by (simp add: store_fast_def store_slow_ok split: option.splits)

lemma storep_ok:
  "view_ok (n_view n) (ms (c_mem c)) \<Longrightarrow> outcome_ok c pc bud (storep_step n p oa ob oc c pc bud)"
  by (cases p) (simp_all add: storep_step_def Let_def store_slow_ok store_fast_ok)

lemma load_slow_ok:
  assumes "\<And>bs m. s_only m (put bs m)"
  shows "outcome_ok c pc bud (load_slow n c pc bud k base off put)"
  using assms
  by (auto simp: load_slow_def Let_def split: sum.splits
      intro!: outcome_intros keeps_then_mem keeps_at_pc)

lemma load_fast_ok: "outcome_ok c pc bud (load_fast n c pc bud w base off oc)"
  by (auto simp: load_fast_def split: option.splits
      intro!: load_slow_ok keeps_then_mem keeps_refl s_only_wr_bytes)

lemma load_convert_ok: "outcome_ok c pc bud (load_convert n f oa oc c pc bud)"
  by (auto simp: load_convert_def Let_def split: option.splits
      intro!: outcome_intros keeps_then_mem keeps_refl s_only_set_g)

lemma loadp_ok: "outcome_ok c pc bud (loadp_step n p oa ob oc c pc bud)"
  by (cases p) (simp_all add: loadp_step_def Let_def load_fast_ok load_convert_ok load_slow_ok
      s_only_set_g wide_s_only)

lemma compoundp_slow_ok: "outcome_ok c pc bud (compoundp_slow n p oa ob oc c pc bud)"
  using keeps_trans [OF keeps_at_pc keeps_compound, of c pc p oa ob oc]
  by (auto simp: compoundp_slow_def split: prod.splits option.splits intro!: outcome_intros)

lemma compoundp_ok: "outcome_ok c pc bud (compoundp_step n p oa ob oc c pc bud)"
  using keeps_core_mem [OF mem_keeps_compound_view]
  by (auto simp: compoundp_step_def compoundp_slow_ok split: option.splits)

lemma fetch_ok: "outcome_ok c pc bud (fetch_step n p st c pc bud)"
  by (auto simp: fetch_step_def Let_def split: option.splits
      intro!: outcome_intros keeps_then_mem keeps_refl wcopy_s_only)

lemma global_arrays_ok:
  "outcome_ok c pc bud (loada_step n p1 st c pc bud)"
  "outcome_ok c pc bud (gload_step n p2 st c pc bud)"
  "outcome_ok c pc bud (gstorep_step n p3 st c pc bud)"
  by (auto simp: loada_step_def gload_step_def gstorep_step_def Let_def
      intro!: outcome_intros keeps_then_mem keeps_refl wcopy_s_only)

lemma push_keeps:
  assumes "\<not> ls_words (c_mem c) \<le> sat_add (x_ls_top (c_x c)) w"
  shows "keeps c (c\<lparr>c_x := (c_x c)\<lparr>x_pushed := w\<rparr>\<rparr>)"
proof -
  have "stack_step c (c\<lparr>c_x := (c_x c)\<lparr>x_pushed := w\<rparr>\<rparr>)"
    using assms by (intro step_push) (simp add: not_le)
  from stack_step_wf [OF this] show ?thesis
    by (simp add: keeps_def core_wf_def fixed_part_def)
qed

lemma bounds_ok: "outcome_ok c pc bud (bounds_step n p st c pc bud)"
  by (auto simp: bounds_step_def push_step_def Let_def
      intro!: outcome_intros keeps_then_mem keeps_refl s_only_set_g push_keeps)

lemma bad_ok: "outcome_ok c pc bud (bad_step p c pc bud)"
  unfolding bad_step_def by (intro outcome_intros keeps_refl)

lemma anim_ok: "outcome_ok c pc bud (anim_step n p oa ob c pc bud)"
  by (simp add: anim_step_def Let_def keeps_at_pc keeps_retraced)

lemma rand_word_keeps: "keeps c (rand_word p d oa ob oc c)"
proof -
  obtain s x where r: "rand15 (c_rng c) = (s, x)" by (cases "rand15 (c_rng c)")
  have "keeps c (c\<lparr>c_rng := s\<rparr>)" by (rule keeps_scalars) (simp_all add: fixed_part_def)
  then have "keeps c ((c\<lparr>c_rng := s\<rparr>)\<lparr>c_mem := mem_set_g (c_mem c) oc v\<rparr>)" for v
    by (rule keeps_trans) (rule keeps_s_only, simp add: s_only_set_g)
  then show ?thesis by (simp add: rand_word_def r Let_def)
qed

lemma rand_ok: "outcome_ok c pc bud (rand_step n p oa ob oc c pc bud)"
  by (auto simp: rand_step_def intro!: rewound_ok rand_word_keeps
      keeps_trans [OF rand_word_keeps keeps_trans [OF rand_word_keeps rand_word_keeps]])

lemma switch_ok: "outcome_ok c pc bud (switch_step n p st c pc bud)"
  unfolding switch_step_def
  by (rule jump_ok, rule keeps_scalars) (simp_all add: fixed_part_def)

lemma case_ok: "outcome_ok c pc bud (case_step n st c pc bud)"
  using keeps_trans [OF keeps_at_pc keeps_strings_equal, of c pc]
  by (auto simp: case_step_def Let_def split_beta split: switch_kind.splits
      intro!: outcome_intros keeps_refl)

lemma case_range_ok: "outcome_ok c pc bud (case_range_step n st c pc bud)"
  by (auto simp: case_range_step_def Let_def split: switch_kind.splits
      intro!: outcome_intros keeps_refl)

lemma s_only_hexen2 [s_only_intros]: "s_only m (hexen2_args n p st m)"
  by (auto simp: hexen2_args_def Let_def intro: wcopy_s_only s_only_refl s_only_trans [OF wcopy_s_only])

lemma dispatch_le: "outcome_le c bud (dispatch n t c pc bud)"
  using keeps_trans [OF keeps_at_pc enter_keeps, of c pc]
  by (auto simp: dispatch_def split: option.splits callee.splits prod.splits
      intro!: outcome_intros keeps_refl keeps_at_pc keeps_retraced) (metis fst_conv)+

lemma outcome_le_trans: "keeps c d \<Longrightarrow> outcome_le d b x \<Longrightarrow> outcome_le c b x"
proof (cases x)
  case (Exit e b' k)
  assume "keeps c d" "outcome_le d b x"
  with Exit have "keeps c (e\<lparr>c_traced := c_traced d\<rparr>)" "b' \<le> b" by (auto intro: keeps_trans)
  then show ?thesis using keeps_retraced [of c "e\<lparr>c_traced := c_traced d\<rparr>"] Exit by simp
qed (auto intro: keeps_trans)

lemma call_ok: "outcome_ok c pc bud (call_step n p st c pc bud)"
proof -
  have "keeps c (on_mem (hexen2_args n (Call p) st) c)"
    by (rule keeps_on_mem) (rule s_only_hexen2)
  moreover have "keeps d (d\<lparr>c_argc := a\<rparr>)" for d :: "'a core" and a
    by (rule keeps_scalars) (simp_all add: fixed_part_def)
  ultimately show ?thesis
    unfolding call_step_def Let_def
    by (intro tick_ok keeps_refl outcome_le_trans [OF _ dispatch_le]) (rule keeps_trans)
qed

lemma return_ok: "outcome_ok c pc bud (return_step n st c pc bud)"
proof -
  have "keeps c (leave (at_pc (on_mem f c) pc))" if "\<And>m. s_only m (f m)" for f
    using keeps_trans [OF keeps_trans [OF keeps_on_mem [of c f] keeps_at_pc] leave_keeps] that by blast
  then show ?thesis
    unfolding return_step_def Let_def
    by (intro tick_ok keeps_refl) (simp add: wcopy_s_only keeps_retraced)
qed

lemma data_ok: "(\<And>m. s_only m (f m)) \<Longrightarrow> outcome_ok c pc bud (data_step n f c pc bud)"
  by (simp add: data_step_def keeps_on_mem)

lemmas steps_ok = strcmp_ok branch_ok loadf_ok storef_ok storep_ok loadp_ok compoundp_ok fetch_ok
  global_arrays_ok bounds_ok bad_ok anim_ok rand_ok switch_ok case_ok case_range_ok call_ok return_ok

lemma step_ok:
  assumes "view_ok (n_view n) (ms (c_mem c))"
  shows "outcome_ok c pc bud (step n st c pc bud)"
  using assms unfolding step_def Let_def
  by (cases "st_op st")
    (simp_all add: steps_ok data_ok data_ops_s_only split: case_op.split)

section \<open>Every run ends\<close>

text \<open>The code of a progs ends in the sentinel; the window needs exactly its own size of code.\<close>

definition code_ready :: "view \<Rightarrow> stmt list \<Rightarrow> bool" where
  "code_ready v code \<longleftrightarrow> code \<noteq> [] \<and> st_op (last code) = BadOp JumpOutOfRangeOp \<and>
     length code < 2 ^ 32 \<and> (v = Window \<longrightarrow> length code = CODE_WINDOW)"

definition run_ready :: "view \<Rightarrow> 's core \<Rightarrow> bool" where
  "run_ready v c \<longleftrightarrow> (\<forall>ps \<in> set (c_progs c). code_ready v (ps_code ps))"

lemma view_code_ready: "code_ready v code \<Longrightarrow> view_code v code = Some code"
  by (cases v) (simp_all add: view_code_def code_ready_def first_chunk_def)

definition code_index :: "view \<Rightarrow> u32 \<Rightarrow> nat" where
  "code_index v pc = (case v of Whole \<Rightarrow> unat pc | Window \<Rightarrow> unat pc mod CODE_WINDOW)"

lemma code_at_index: "code_at v code pc = nth_opt code (code_index v pc)"
proof (cases v)
  case Window
  have "x AND (2 ^ 16 - 1) = x mod 2 ^ 16" for x :: nat
    by (simp only: mask_eq_exp_minus_1 [symmetric] take_bit_eq_mask [symmetric] take_bit_eq_mod)
  then show ?thesis using Window by (simp add: code_at_def code_index_def CODE_WINDOW_def)
qed (simp add: code_at_def code_index_def)

lemma code_index_next:
  assumes "code_ready v code" "code_at v code pc = Some st" "st_op st \<noteq> BadOp JumpOutOfRangeOp"
  shows "code_index v (pc + 1) = code_index v pc + 1" "code_index v pc + 1 < length code"
proof -
  let ?i = "code_index v pc"
  have i: "?i < length code" "code ! ?i = st" using assms(2) by (auto simp: code_at_index nth_opt_Some)
  have "?i \<noteq> length code - 1" using assms(1,3) i by (auto simp: code_ready_def last_conv_nth)
  then show lt: "?i + 1 < length code" using i(1) by simp
  show "code_index v (pc + 1) = ?i + 1"
  proof (cases v)
    case Whole
    then show ?thesis
      using lt assms(1) unat_add_lem [of pc 1] by (simp add: code_index_def code_ready_def)
  next
    case Window
    have "unat (pc + 1) mod CODE_WINDOW = (unat pc + 1) mod CODE_WINDOW"
      by (simp add: unat_word_ariths CODE_WINDOW_def mod_mod_cancel)
    also have "\<dots> = unat pc mod CODE_WINDOW + 1"
      using lt assms(1) Window by (simp add: code_index_def code_ready_def mod_Suc)
    finally show ?thesis using Window by (simp add: code_index_def)
  qed
qed

text \<open>What holds of the loop's state, for a run that started at the core \<open>c0\<close>.\<close>

definition fixed_core :: "'s core \<Rightarrow> 's core" where
  "fixed_core c = fixed_part (c\<lparr>c_traced := False\<rparr>)"

lemma traced_wf [simp]: "core_wf (c\<lparr>c_traced := t\<rparr>) = core_wf c"
  by (simp add: core_wf_def stack_wf_def)

lemma traced_fixed [simp]: "fixed_core (c\<lparr>c_traced := t\<rparr>) = fixed_core c"
  by (simp add: fixed_core_def)

lemma fixed_part_traced: "fixed_part (c\<lparr>c_traced := t\<rparr>) = (fixed_part c)\<lparr>c_traced := t\<rparr>"
  by (rule core.equality) (simp_all add: fixed_part_def)

lemma fixed_part_core: "fixed_part d = fixed_part c \<Longrightarrow> fixed_core d = fixed_core c"
  by (simp add: fixed_core_def fixed_part_traced)

lemma keeps_fixed_core:
  assumes "keeps c d" "core_wf c"
  shows "core_wf d \<and> fixed_core d = fixed_core c"
  using assms fixed_part_core by (auto simp: keeps_def)

lemma keeps_but_traced:
  assumes "keeps c (d\<lparr>c_traced := t\<rparr>)" "core_wf c"
  shows "core_wf d \<and> fixed_core d = fixed_core c"
  using keeps_fixed_core [OF assms] by simp

lemma fixed_core_progs: "fixed_core d = fixed_core c \<Longrightarrow> c_progs d = c_progs c"
  unfolding fixed_core_def by (drule fixed_part_eqD(1)) simp

definition loop_inv :: "'s core \<Rightarrow> 's lstate \<Rightarrow> bool" where
  "loop_inv c0 s \<longleftrightarrow>
     core_wf (ls_core s) \<and> fixed_core (ls_core s) = fixed_core c0 \<and>
     view_ok (n_view (ls_env s)) (ms (c_mem (ls_core s))) \<and>
     code_ready (n_view (ls_env s)) (ls_code s) \<and> code_ready (n_view (ls_env s)) (ls_cache s) \<and>
     run_ready (n_view (ls_env s)) c0"

definition result_ok :: "'s core \<Rightarrow> u32 \<Rightarrow> 's result \<Rightarrow> bool" where
  "result_ok c0 bud r \<longleftrightarrow>
     (case r of (c, b, e) \<Rightarrow> core_wf c \<and> fixed_core c = fixed_core c0 \<and> b \<le> bud)"

lemma fixed_core_room:
  assumes "fixed_core d = fixed_core c"
  shows "length (ms (c_mem d)) = length (ms (c_mem c))"
proof -
  have "length (ms (layout (c_mem d))) = length (ms (layout (c_mem c)))"
    using fixed_part_eqD(4) [OF assms [unfolded fixed_core_def]] by simp
  then show ?thesis by (simp add: layout_def)
qed

lemma view_ok_length: "length s' = length s \<Longrightarrow> view_ok v s' = view_ok v s"
  by (simp add: view_ok_def split: view.splits)

lemma reload_cases:
  assumes c: "core_wf c" "fixed_core c = fixed_core c0" and r: "run_ready v c0"
    and k: "code_ready v cached"
  shows "case reload v t d pr cached c bud of
      Inl res \<Rightarrow> \<exists>e. res = (c, bud, e)
    | Inr s \<Rightarrow> loop_inv c0 s \<and> ls_budget s = bud \<and> n_view (ls_env s) = v"
proof (cases "core_progs_at c (x_prnum (c_x c))")
  case None
  then show ?thesis by (simp add: reload_def Let_def)
next
  case (Some ps)
  then have "ps \<in> set (c_progs c)" by (auto simp: core_progs_at_def nth_opt_Some)
  then have "code_ready v (ps_code ps)"
    using r fixed_core_progs [OF c(2)] by (simp add: run_ready_def)
  then have "code_ready v (if pr \<noteq> x_prnum (c_x c) then ps_code ps else cached)" using k by simp
  then show ?thesis
    using Some c r view_code_ready by (simp add: reload_def Let_def loop_inv_def)
qed

lemma inner_some:
  assumes "\<not> (n_trace (ls_env s) \<and> \<not> c_traced (ls_core s))"
    and "code_at (n_view (ls_env s)) (ls_code s) (ls_pc s) = Some st"
  shows "inner s =
     (case step (ls_env s) st
             (if n_trace (ls_env s) then (ls_core s)\<lparr>c_traced := False\<rparr> else ls_core s)
             (ls_pc s) (ls_budget s) of
        Next c' pc' b \<Rightarrow> Inr (s\<lparr>ls_core := c', ls_pc := pc', ls_budget := b\<rparr>)
      | Reload c' b \<Rightarrow>
          reload (n_view (ls_env s)) (n_trace (ls_env s)) (n_depth (ls_env s)) (ls_pr s) (ls_cache s) c' b
      | Exit c' b e \<Rightarrow> Inl (c', b, e))"
  using assms unfolding inner_def Let_def by (simp only: if_False option.case)

lemma inner_cases:
  assumes s: "loop_inv c0 s"
  shows "case inner s of
      Inl res \<Rightarrow> result_ok c0 (ls_budget s) res
    | Inr s' \<Rightarrow> loop_inv c0 s' \<and> n_view (ls_env s') = n_view (ls_env s) \<and>
        (ls_budget s' < ls_budget s \<or>
         ls_budget s' = ls_budget s \<and> ls_env s' = ls_env s \<and> ls_code s' = ls_code s \<and>
         length (ls_code s') - code_index (n_view (ls_env s')) (ls_pc s') <
         length (ls_code s) - code_index (n_view (ls_env s)) (ls_pc s))"
proof -
  define n c pc bud v where "n = ls_env s" and "c = ls_core s" and "pc = ls_pc s"
    and "bud = ls_budget s" and "v = n_view (ls_env s)"
  note defs = n_def c_def pc_def bud_def v_def
  have c: "core_wf c" "fixed_core c = fixed_core c0" "view_ok v (ms (c_mem c))"
    using s by (simp_all add: loop_inv_def c_def v_def)
  have keep: "core_wf e \<and> fixed_core e = fixed_core c0 \<and> view_ok v (ms (c_mem e))"
    if "core_wf d \<and> fixed_core d = fixed_core c0" "keeps d (e\<lparr>c_traced := t\<rparr>)" for d e t
    using keeps_but_traced [OF that(2)] that(1) c(2,3) fixed_core_room [of e c] view_ok_length
    by metis
  have keep': "core_wf e \<and> fixed_core e = fixed_core c0 \<and> view_ok v (ms (c_mem e))"
    if "core_wf d \<and> fixed_core d = fixed_core c0" "keeps d e" for d e
    using keep [OF that(1), where e = e and t = "c_traced d"] keeps_retraced [OF that(2)] by blast
  show ?thesis
  proof (cases "n_trace n \<and> \<not> c_traced c")
    case True
    then have "inner s = Inl ((at_pc c pc)\<lparr>c_traced := True\<rparr>, bud, ExitTrace)"
      by (simp add: inner_def Let_def defs)
    then show ?thesis using keep' [OF _ keeps_at_pc] c by (simp add: result_ok_def bud_def)
  next
    case False
    define d where "d = (if n_trace n then c\<lparr>c_traced := False\<rparr> else c)"
    have d: "core_wf d \<and> fixed_core d = fixed_core c0" using c by (simp add: d_def)
    show ?thesis
    proof (cases "code_at v (ls_code s) pc")
      case None
      then have "inner s = Inl (at_pc d pc, bud, Fault JumpOutOfRange)"
        using False by (simp add: inner_def Let_def defs d_def)
      then show ?thesis using keep' [OF d keeps_at_pc] by (simp add: result_ok_def bud_def)
    next
      case (Some st)
      have ok: "outcome_ok d pc bud (step n st d pc bud)"
        by (rule step_ok) (use keep' [OF d keeps_refl] in \<open>simp add: n_def v_def\<close>)
      have i: "inner s = (case step n st d pc bud of
          Next c' pc' b \<Rightarrow> Inr (s\<lparr>ls_core := c', ls_pc := pc', ls_budget := b\<rparr>)
        | Reload c' b \<Rightarrow> reload (n_view n) (n_trace n) (n_depth n) (ls_pr s) (ls_cache s) c' b
        | Exit c' b e \<Rightarrow> Inl (c', b, e))"
        unfolding d_def defs by (rule inner_some) (use False Some in \<open>simp_all add: defs\<close>)
      show ?thesis
      proof (cases "step n st d pc bud")
        case (Exit c' b e)
        then show ?thesis using ok keep [OF d, where e = c' and t = "c_traced d"] i by (simp add: result_ok_def bud_def)
      next
        case (Reload c' b)
        then have k: "core_wf c'" "fixed_core c' = fixed_core c0" "b < bud"
          using ok keep' [OF d] by simp_all
        have r: "run_ready v c0" "code_ready v (ls_cache s)" using s by (simp_all add: loop_inv_def v_def)
        show ?thesis
          using reload_cases [OF k(1,2) r, where t = "n_trace n" and d = "n_depth n" and pr = "ls_pr s" and bud = b] k i Reload
          by (auto simp: result_ok_def defs split: sum.splits)
      next
        case (Next c' pc' b)
        then have k: "core_wf c'" "fixed_core c' = fixed_core c0" "view_ok v (ms (c_mem c'))"
          and b: "b < bud \<or> b = bud \<and> pc' = pc + 1"
          using ok keep' [OF d] by auto
        have "st_op st \<noteq> BadOp JumpOutOfRangeOp"
        proof
          assume "st_op st = BadOp JumpOutOfRangeOp"
          then show False using Next by (simp add: step_def Let_def bad_step_def fault_def)
        qed
        moreover have "code_ready v (ls_code s)" using s by (simp add: loop_inv_def v_def)
        ultimately have "length (ls_code s) - code_index v (pc + 1) < length (ls_code s) - code_index v pc"
          using code_index_next [OF _ Some] by simp
        then show ?thesis using i Next k b s by (auto simp: loop_inv_def defs)
      qed
    qed
  qed
qed

definition loop_measure :: "'s lstate \<Rightarrow> nat \<times> nat" where
  "loop_measure s = (unat (ls_budget s), length (ls_code s) - code_index (n_view (ls_env s)) (ls_pc s))"

lemma loop_ends: "loop_inv c0 s \<Longrightarrow> \<exists>r. loop s = Some r \<and> result_ok c0 (ls_budget s) r"
proof (induction "loop_measure s" arbitrary: s rule: wf_induct_rule [OF wf_lex_prod [OF wf_less_than wf_less_than]])
  case 1
  show ?case
  proof (cases "inner s")
    case (Inl r)
    then show ?thesis using inner_cases [OF 1(2)] by (simp add: loop.simps)
  next
    case (Inr s')
    then have s': "loop_inv c0 s'" "ls_budget s' \<le> ls_budget s"
      "(loop_measure s', loop_measure s) \<in> less_than <*lex*> less_than"
      using inner_cases [OF 1(2)] by (auto simp: loop_measure_def word_less_nat_alt word_le_nat_alt)
    from 1(1) [OF s'(3) s'(1)] obtain r where "loop s' = Some r" "result_ok c0 (ls_budget s') r" by blast
    then show ?thesis using Inr s'(2) by (auto simp: loop.simps [of s] result_ok_def)
  qed
qed

lemma run_returns:
  assumes "core_wf c" "run_ready v c"
  shows "\<exists>c' b e. run v trace c depth bud = Some (c', b, e) \<and> core_wf c' \<and>
    fixed_core c' = fixed_core c \<and> b \<le> bud"
proof (cases "c_progs c")
  case Nil
  then show ?thesis using assms(1) by (simp add: run_def)
next
  case (Cons p ps)
  then have "code_ready v (ps_code p)" using assms(2) by (simp add: run_ready_def)
  note rc = reload_cases [OF assms(1) refl assms(2) this, where t = trace and d = depth and pr = 255 and bud = bud]
  show ?thesis
  proof (cases "reload v trace depth 255 (ps_code p) c bud")
    case (Inl r)
    then show ?thesis using rc assms(1) Cons by (auto simp: run_def)
  next
    case (Inr s)
    then show ?thesis using rc loop_ends [of c s] Cons by (auto simp: run_def result_ok_def)
  qed
qed

text \<open>C2: every run of the interpreter ends, whatever the statements are, and leaves the core well formed
  and everything that is not memory contents, strings, call state, random state or warnings as it was;
  the budget only goes down.\<close>

theorem run_terminates:
  assumes "core_wf c" "run_ready v c"
  shows "\<exists>c' b e. run v trace c depth bud = Some (c', b, e) \<and> core_wf c' \<and>
    fixed_core c' = fixed_core c \<and> b \<le> bud"
  using run_returns [OF assms] .

text \<open>The relocated and padded code of a loaded progs that ends in the sentinel is ready to run.\<close>

lemma relocate_stmt_op [simp]: "st_op (relocate_stmt gb st) = st_op st"
  by (simp add: relocate_stmt_def Let_def split: prod.splits)

lemma loaded_code_ready:
  assumes "p_statements p \<noteq> []" "st_op (last (p_statements p)) = BadOp JumpOutOfRangeOp"
    and "length (p_statements p) < 2 ^ 32" "v = Window \<Longrightarrow> length (p_statements p) \<le> CODE_WINDOW"
  shows "code_ready v (ps_code (progs_state_new p gb cs st))"
proof -
  have "last (relocate p gb) = relocate_stmt gb (last (p_statements p))"
    using assms(1) by (simp add: relocate_def last_map)
  then show ?thesis
    using assms
    by (auto simp: progs_state_new_def pad_code_def code_ready_def relocate_def CODE_WINDOW_def
        sentinel_def split: prod.splits)
qed

lemma sample_run_ready: "run_ready v sample_core"
  by (simp add: run_ready_def sample_progs_def loaded_code_ready sample_program_def sentinel_def
      CODE_WINDOW_def)

lemma sample_core_wf: "core_wf sample_core"
  by (simp add: core_wf_def sample_mem_wf sample_stack_wf) (simp add: sample_core_def str_wf_new)

theorem run_terminates_witness:
  "\<exists>c' b e. run Whole False sample_core 0 10 = Some (c', b, e) \<and> c_progs c' = c_progs sample_core"
  using run_terminates [OF sample_core_wf sample_run_ready, of Whole False 0 10]
  by (metis fixed_core_progs)

end
