(* ===== verification/Resume.thy ===== *)
theory Resume
  imports Execution
begin

text \<open>
  What a run does not depend on (\<open>src/vm/interp.rs\<close>, and its use in \<open>execute_inner\<close> of
  \<open>src/vm/mod.rs\<close>): the \<open>pc\<close> stored in the core while a run is under way is stale, so two cores that
  differ only there run alike (\<open>step_stale_pc\<close>).  From this: a budget given in chunks runs the same
  statements as the whole budget (\<open>chunked_budget\<close>), and reaching the operands through the window
  runs the same as through all of region S (\<open>window_run_exact\<close>).
\<close>

section \<open>The stored pc is stale\<close>

text \<open>An outcome, with the core of a \<open>Next\<close> normalised.\<close>

fun canon :: "'s outcome \<Rightarrow> 's outcome" where
  "canon (Next c pc b) = Next (at_pc c pc) pc b"
| "canon (Reload c b) = Reload c b"
| "canon (Exit c b e) = Exit c b e"

lemma at_pc_sel [simp]:
  "c_mem (at_pc c q) = c_mem c" "c_strings (at_pc c q) = c_strings c" "c_progs (at_pc c q) = c_progs c"
  "c_config (at_pc c q) = c_config c" "c_rng (at_pc c q) = c_rng c" "c_frames (at_pc c q) = c_frames c"
  "c_x (at_pc c q) = (c_x c)\<lparr>x_pc := q\<rparr>" "c_traced (at_pc c q) = c_traced c"
  by (simp_all add: at_pc_def)

lemma at_pc_at_pc [simp]: "at_pc (at_pc c q) r = at_pc c r"
  by (simp add: at_pc_def)

lemma at_pc_out [simp]:
  "(at_pc c q)\<lparr>c_mem := m\<rparr> = at_pc (c\<lparr>c_mem := m\<rparr>) q"
  "(at_pc c q)\<lparr>c_argc := a\<rparr> = at_pc (c\<lparr>c_argc := a\<rparr>) q"
  "(at_pc c q)\<lparr>c_rng := s\<rparr> = at_pc (c\<lparr>c_rng := s\<rparr>) q"
  "(at_pc c q)\<lparr>c_traced := t\<rparr> = at_pc (c\<lparr>c_traced := t\<rparr>) q"
  "on_mem f (at_pc c q) = at_pc (on_mem f c) q"
  by (simp_all add: at_pc_def on_mem_def)

lemma at_pc_exec:
  "(at_pc c q)\<lparr>c_x := (c_x c)\<lparr>x_pc := q, x_pushed := w\<rparr>\<rparr> = at_pc (c\<lparr>c_x := (c_x c)\<lparr>x_pushed := w\<rparr>\<rparr>) q"
  "(at_pc c q)\<lparr>c_x := (c_x c)\<lparr>x_pc := q, x_switch_ref := r, x_switch_kind := k\<rparr>\<rparr> =
     at_pc (c\<lparr>c_x := (c_x c)\<lparr>x_switch_ref := r, x_switch_kind := k\<rparr>\<rparr>) q"
  by (simp_all add: at_pc_def)

lemma on_mem_sel [simp]: "c_mem (on_mem f c) = f (c_mem c)"
  by (simp add: on_mem_def)

lemma fault_stale [simp]: "fault (at_pc c q) pc bud k = fault c pc bud k"
  by (simp add: fault_def)

lemma rewound_stale [simp]: "canon (rewound n (at_pc c q) pc bud) = canon (rewound n c pc bud)"
  by (simp add: rewound_def fault_def)

lemma canon_next_stale [simp]: "canon (Next (at_pc c q) pc b) = canon (Next c pc b)"
  by simp

lemma tick_stale:
  "(\<And>b. canon (k b) = canon (k' b)) \<Longrightarrow> canon (tick n (at_pc c q) pc bud k) = canon (tick n c pc bud k')"
  by (simp add: tick_def Let_def)

lemma jump_stale [simp]: "canon (jump n (at_pc c q) pc bud t) = canon (jump n c pc bud t)"
  unfolding jump_def by (rule tick_stale) simp

lemma strcmp_stale: "canon (strcmp_step n p oa ob oc (at_pc c q) pc bud) = canon (strcmp_step n p oa ob oc c pc bud)"
  by (simp add: strcmp_step_def Let_def)

lemma branch_stale: "canon (branch_step n p st (at_pc c q) pc bud) = canon (branch_step n p st c pc bud)"
  by (auto simp: branch_step_def intro: tick_stale)

lemma loadf_zeroed_stale [simp]: "loadf_zeroed (at_pc c q) p e = loadf_zeroed c p e"
  by (simp add: loadf_zeroed_def)

lemma loadf_stale: "canon (loadf_step n p oa ob oc (at_pc c q) pc bud) = canon (loadf_step n p oa ob oc c pc bud)"
  by (simp add: loadf_step_def Let_def split: option.split)

lemma address_stale: "canon (address_step n oa ob oc (at_pc c q) pc bud) = canon (address_step n oa ob oc c pc bud)"
  by (simp add: address_step_def Let_def split: option.split)

lemma storef_stale: "canon (storef_step n p oa ob oc (at_pc c q) pc bud) = canon (storef_step n p oa ob oc c pc bud)"
  by (simp add: storef_step_def address_stale del: canon.simps split: option.split)

lemma store_slow_stale [simp]: "store_slow n (at_pc c q) pc bud base off bs = store_slow n c pc bud base off bs"
  by (simp add: store_slow_def)

lemma store_fast_stale [simp]:
  "canon (store_fast n (at_pc c q) pc bud base off bs) = canon (store_fast n c pc bud base off bs)"
  by (simp add: store_fast_def split: option.split)

lemma storep_stale: "canon (storep_step n p oa ob oc (at_pc c q) pc bud) = canon (storep_step n p oa ob oc c pc bud)"
  by (cases p) (simp_all add: storep_step_def Let_def)

lemma load_slow_stale [simp]:
  "load_slow n (at_pc c q) pc bud k base off put = load_slow n c pc bud k base off put"
  by (simp add: load_slow_def)

lemma load_fast_stale [simp]:
  "canon (load_fast n (at_pc c q) pc bud w base off oc) = canon (load_fast n c pc bud w base off oc)"
  by (simp add: load_fast_def split: option.split)

lemma load_convert_stale [simp]:
  "canon (load_convert n f oa oc (at_pc c q) pc bud) = canon (load_convert n f oa oc c pc bud)"
  by (simp add: load_convert_def Let_def split: option.split)

lemma loadp_stale: "canon (loadp_step n p oa ob oc (at_pc c q) pc bud) = canon (loadp_step n p oa ob oc c pc bud)"
  by (cases p) (simp_all add: loadp_step_def Let_def)

lemma compoundp_slow_stale [simp]:
  "compoundp_slow n p oa ob oc (at_pc c q) pc bud = compoundp_slow n p oa ob oc c pc bud"
  by (simp add: compoundp_slow_def)

lemma compoundp_stale: "canon (compoundp_step n p oa ob oc (at_pc c q) pc bud) = canon (compoundp_step n p oa ob oc c pc bud)"
  by (simp add: compoundp_step_def split: option.split)

lemma fetch_stale: "canon (fetch_step n p st (at_pc c q) pc bud) = canon (fetch_step n p st c pc bud)"
  by (simp add: fetch_step_def Let_def split: option.split)

lemma arrays_stale:
  "canon (loada_step n p1 st (at_pc c q) pc bud) = canon (loada_step n p1 st c pc bud)"
  "canon (gload_step n p2 st (at_pc c q) pc bud) = canon (gload_step n p2 st c pc bud)"
  "canon (gstorep_step n p3 st (at_pc c q) pc bud) = canon (gstorep_step n p3 st c pc bud)"
  by (simp_all add: loada_step_def gload_step_def gstorep_step_def Let_def)

lemma bounds_stale: "canon (bounds_step n p st (at_pc c q) pc bud) = canon (bounds_step n p st c pc bud)"
  by (simp add: bounds_step_def push_step_def Let_def at_pc_exec)

lemma bad_stale: "bad_step p (at_pc c q) pc bud = bad_step p c pc bud"
  by (simp add: bad_step_def)

lemma anim_stale: "anim_step n p oa ob (at_pc c q) pc bud = anim_step n p oa ob c pc bud"
  by (simp add: anim_step_def Let_def)

lemma rand_word_stale: "rand_word p d oa ob oc (at_pc c q) = at_pc (rand_word p d oa ob oc c) q"
  by (simp add: rand_word_def Let_def at_pc_def split: prod.split)

lemma rand_stale: "canon (rand_step n p oa ob oc (at_pc c q) pc bud) = canon (rand_step n p oa ob oc c pc bud)"
  by (simp add: rand_step_def rand_word_stale)

lemma switch_stale: "canon (switch_step n p st (at_pc c q) pc bud) = canon (switch_step n p st c pc bud)"
  by (simp add: switch_step_def at_pc_exec)

lemma case_stale: "canon (case_step n st (at_pc c q) pc bud) = canon (case_step n st c pc bud)"
  by (cases "x_switch_kind (c_x c)") (simp_all add: case_step_def Let_def del: canon.simps)

lemma case_range_stale: "canon (case_range_step n st (at_pc c q) pc bud) = canon (case_range_step n st c pc bud)"
  by (cases "x_switch_kind (c_x c)") (simp_all add: case_range_step_def Let_def del: canon.simps)

lemma callee_of_stale [simp]: "callee_of (at_pc c q) t = callee_of c t"
  by (simp add: callee_of_def core_progs_at_def)

lemma dispatch_stale: "dispatch n t (at_pc c q) pc bud = dispatch n t c pc bud"
  by (simp add: dispatch_def split: option.split callee.split)

lemma call_stale: "canon (call_step n p st (at_pc c q) pc bud) = canon (call_step n p st c pc bud)"
  unfolding call_step_def Let_def by (rule tick_stale) (simp add: dispatch_stale)

lemma return_stale: "canon (return_step n st (at_pc c q) pc bud) = canon (return_step n st c pc bud)"
  unfolding return_step_def Let_def by (rule tick_stale) simp

lemma data_stale: "canon (data_step n f (at_pc c q) pc bud) = canon (data_step n f c pc bud)"
  by (simp add: data_step_def)

lemmas stale = strcmp_stale branch_stale loadf_stale storef_stale storep_stale loadp_stale
  compoundp_stale fetch_stale arrays_stale bounds_stale bad_stale anim_stale rand_stale switch_stale
  case_stale case_range_stale call_stale return_stale data_stale

lemma step_stale_pc: "canon (step n st (at_pc c q) pc bud) = canon (step n st c pc bud)"
proof (cases "st_op st")
  case (CaseOp p)
  then show ?thesis by (cases p) (simp_all add: step_def Let_def stale)
qed (simp_all add: step_def Let_def stale)

section \<open>More budget\<close>

text \<open>An outcome with more budget left.\<close>

fun shift :: "u32 \<Rightarrow> 's outcome \<Rightarrow> 's outcome" where
  "shift k (Next c pc b) = Next c pc (b + k)"
| "shift k (Reload c b) = Reload c (b + k)"
| "shift k (Exit c b e) = Exit c (b + k) e"

fun spent :: "'s outcome \<Rightarrow> bool" where
  "spent (Exit c b ExitBudget) = True"
| "spent _ = False"

fun budget_of :: "'s outcome \<Rightarrow> u32" where
  "budget_of (Next c pc b) = b"
| "budget_of (Reload c b) = b"
| "budget_of (Exit c b e) = b"

text \<open>Statements that take nothing from the budget: it is passed through.\<close>

definition free :: "(u32 \<Rightarrow> 's outcome) \<Rightarrow> bool" where
  "free f \<longleftrightarrow> (\<forall>b k. f (b + k) = shift k (f b)) \<and> (\<forall>b. \<not> spent (f b) \<and> budget_of (f b) = b)"

lemma free_simple [simp]:
  "free (\<lambda>b. Next c pc b)" "free (\<lambda>b. Reload c b)" "free (\<lambda>b. fault c pc b e)"
  "free (\<lambda>b. rewound n c pc b)"
  "free (\<lambda>b. Exit c b (Fault e))" "free (\<lambda>b. Exit c b Returned)" "free (\<lambda>b. Exit c b (ExitBuiltin s t))"
  "free (\<lambda>b. Exit c b (ExitState so))"
  by (simp_all add: free_def fault_def rewound_def)

lemma free_splits [simp]:
  "free (\<lambda>b. if P then f b else g b) \<longleftrightarrow> (if P then free f else free g)"
  by simp

lemma free_option [simp]:
  "free (\<lambda>b. case x of None \<Rightarrow> f b | Some y \<Rightarrow> g y b) \<longleftrightarrow> (case x of None \<Rightarrow> free f | Some y \<Rightarrow> free (g y))"
  by (cases x) simp_all

lemma free_sum [simp]:
  "free (\<lambda>b. case x of Inl y \<Rightarrow> f y b | Inr z \<Rightarrow> g z b) \<longleftrightarrow>
   (case x of Inl y \<Rightarrow> free (f y) | Inr z \<Rightarrow> free (g z))"
  by (cases x) simp_all

lemma free_prod [simp]:
  "free (\<lambda>b. case x of (y, z) \<Rightarrow> f y z b) \<longleftrightarrow> (case x of (y, z) \<Rightarrow> free (f y z))"
  by (cases x) simp_all

lemma free_data [simp]: "free (data_step n f c pc)"
  unfolding data_step_def by simp

lemma free_strcmp [simp]: "free (strcmp_step n p oa ob oc c pc)"
  unfolding strcmp_step_def Let_def split_beta by simp

lemma free_loadf [simp]: "free (loadf_step n p oa ob oc c pc)"
  unfolding loadf_step_def Let_def by (simp split: option.split)

lemma free_storef [simp]: "free (storef_step n p oa ob oc c pc)"
  unfolding storef_step_def address_step_def Let_def by (simp split: option.split)

lemma free_store [simp]: "free (\<lambda>b. store_slow n c pc b base off bs)" "free (\<lambda>b. store_fast n c pc b base off bs)"
  unfolding store_fast_def store_slow_def by (simp_all split: option.split prod.split)

lemma free_storep [simp]: "free (storep_step n p oa ob oc c pc)"
  unfolding storep_step_def Let_def by (cases p) simp_all

lemma free_load [simp]:
  "free (\<lambda>b. load_slow n c pc b k base off put)" "free (\<lambda>b. load_fast n c pc b w base off oc)"
  "free (\<lambda>b. load_convert n f oa oc c pc b)"
  unfolding load_fast_def load_slow_def load_convert_def Let_def
  by (simp_all split: option.split sum.split)

lemma free_loadp [simp]: "free (loadp_step n p oa ob oc c pc)"
  unfolding loadp_step_def Let_def by (cases p) simp_all

lemma free_compoundp [simp]: "free (compoundp_step n p oa ob oc c pc)"
  unfolding compoundp_step_def compoundp_slow_def by (simp split: option.split prod.split)

lemma free_arrays [simp]:
  "free (fetch_step n p0 st c pc)" "free (loada_step n p1 st c pc)" "free (gload_step n p2 st c pc)"
  "free (gstorep_step n p3 st c pc)" "free (bounds_step n p4 st c pc)" "free (bad_step p5 c pc)"
  unfolding fetch_step_def loada_step_def gload_step_def gstorep_step_def bounds_step_def
    push_step_def bad_step_def Let_def
  by (simp_all split: option.split)

lemma free_anim [simp]: "free (anim_step n p oa ob c pc)"
  unfolding anim_step_def Let_def by simp

lemma free_rand [simp]: "free (rand_step n p oa ob oc c pc)"
  unfolding rand_step_def by simp

lemma free_dispatch [simp]: "free (dispatch n t c pc)"
proof (cases "callee_of c t")
  case (Some x)
  then show ?thesis
    by (cases x) (auto simp: dispatch_def[abs_def] free_option[abs_def] split: prod.split option.split)
qed (simp add: dispatch_def[abs_def])

section \<open>Statements that count\<close>

lemma sat_sub_one: "1 < unat b \<Longrightarrow> unat (sat_sub b 1) = unat b - 1" "unat b \<le> 1 \<Longrightarrow> sat_sub b 1 = (0 :: u32)"
  by (simp_all add: unat_sat_sub unat_eq_zero [symmetric] del: unat_eq_zero)

lemma sat_sub_shift:
  assumes "1 < unat b" "unat b + unat k < 2 ^ 32"
  shows "sat_sub (b + k) 1 = sat_sub b 1 + (k :: u32)"
proof -
  have "unat (b + k) = unat b + unat k" using assms(2) by (simp add: unat_word_ariths)
  then have "unat (sat_sub (b + k) 1) = unat (sat_sub b 1) + unat k"
    using assms(1) by (simp add: unat_sat_sub)
  also have "\<dots> = unat (sat_sub b 1 + k)"
    using assms by (simp add: unat_sat_sub unat_word_ariths)
  finally show ?thesis by (simp add: word_unat_eq_iff)
qed

text \<open>Unless the budget stops the statement, more budget changes nothing but the budget left, which
  does not reach zero.\<close>

fun alive :: "'s outcome \<Rightarrow> bool" where
  "alive (Exit c b e) = True"
| "alive r = (budget_of r \<noteq> 0)"

definition counts :: "u32 \<Rightarrow> (u32 \<Rightarrow> 's outcome) \<Rightarrow> bool" where
  "counts b f \<longleftrightarrow> (b \<noteq> 0 \<longrightarrow> alive (f b)) \<and>
     (\<forall>k. unat b + unat k < 2 ^ 32 \<longrightarrow> \<not> spent (f b) \<longrightarrow> f (b + k) = shift k (f b))"

lemma budget_alive: "budget_of r \<noteq> 0 \<Longrightarrow> alive r"
  by (cases r) simp_all

lemma free_counts: "free f \<Longrightarrow> counts b f"
  by (simp add: free_def counts_def budget_alive)

lemma tick_counts:
  assumes "free f"
  shows "counts b (\<lambda>b. tick n c pc b f)"
proof (cases "1 < unat b")
  case False
  then have "sat_sub b 1 = 0" using sat_sub_one(2) [of b] by simp
  then show ?thesis by (simp add: counts_def tick_def)
next
  case True
  have "tick n c pc (b + k) f = shift k (tick n c pc b f)" if k: "unat b + unat k < 2 ^ 32" for k
  proof -
    have "unat (sat_sub b 1 + k) = unat (sat_sub b 1) + unat k"
      using k True by (simp add: unat_sat_sub unat_word_ariths)
    then have "sat_sub b 1 \<noteq> 0" "sat_sub b 1 + k \<noteq> 0"
      using sat_sub_one(1) [OF True] True by (auto simp: unat_eq_zero [symmetric] simp del: unat_eq_zero)
    then show ?thesis
      using assms sat_sub_shift [OF True k] by (simp add: tick_def Let_def free_def)
  qed
  moreover have "sat_sub b 1 \<noteq> 0"
    using sat_sub_one(1) [OF True] True by (auto simp: unat_eq_zero [symmetric] simp del: unat_eq_zero)
  then have "alive (tick n c pc b f)"
    using assms by (simp add: tick_def free_def budget_alive)
  ultimately show ?thesis by (simp add: counts_def)
qed

lemma jump_counts [simp]: "counts b (\<lambda>b. jump n c pc b t)"
  unfolding jump_def by (rule tick_counts) simp_all

lemma counts_if [simp]: "counts b (\<lambda>b. if P then f b else g b) \<longleftrightarrow> (if P then counts b f else counts b g)"
  by simp

lemma case_counts: "counts b (case_step n st c pc)" "counts b (case_range_step n st c pc)"
proof -
  have j: "counts b (\<lambda>b. if P then jump n d pc b t else Next d (pc + 1) b)" for P t and d :: "'a core"
    by (simp add: free_counts)
  show "counts b (case_range_step n st c pc)"
    unfolding case_range_step_def Let_def
    by (cases "x_switch_kind (c_x c)") (simp_all only: switch_kind.case j free_counts free_simple)
  show "counts b (case_step n st c pc)"
  proof (cases "x_switch_kind (c_x c)")
    case SwString
    then show ?thesis
      unfolding case_step_def Let_def
      by (cases "strings_equal (at_pc c pc) (rd (n_view n) (c_mem c) (unat (x_switch_ref (c_x c))))
            (rd (n_view n) (c_mem c) (unat (st_a st)))")
        (simp add: free_counts del: at_pc_sel)
  qed (unfold case_step_def Let_def, simp_all only: switch_kind.case j)
qed

lemma counting_statements:
  "counts b (branch_step n p1 st c pc)" "counts b (switch_step n p2 st c pc)"
  "counts b (call_step n p3 st c pc)" "counts b (return_step n st c pc)"
  unfolding branch_step_def switch_step_def call_step_def return_step_def Let_def
  by (simp_all add: tick_counts)

lemma step_counts: "counts b (step n st c pc)"
proof (cases "st_op st")
  case (CaseOp p)
  then show ?thesis using case_counts unfolding step_def Let_def by (cases p) simp_all
qed (unfold step_def Let_def, simp_all add: free_counts counting_statements)

section \<open>Statements that the budget stops\<close>

text \<open>A statement stopped by the budget leaves the core as it was, with its own \<open>pc\<close>.\<close>

definition stops :: "env \<Rightarrow> 's core \<Rightarrow> u32 \<Rightarrow> u32 \<Rightarrow> 's outcome \<Rightarrow> bool" where
  "stops n c pc b r \<longleftrightarrow> (\<forall>d b'. r = Exit d b' ExitBudget \<longrightarrow>
     unat b \<le> 1 \<and> b' = 0 \<and> d = (at_pc c pc)\<lparr>c_traced := n_trace n\<rparr>)"

lemma free_stops: "free f \<Longrightarrow> stops n c pc b (f b)"
  by (simp add: free_def stops_def) (metis spent.simps(1))

lemma tick_stops: "free f \<Longrightarrow> stops n c pc b (tick n c pc b f)"
  using sat_sub_one [of b]
  by (cases "sat_sub b 1 = 0"; cases "1 < unat b")
    (simp_all add: stops_def tick_def Let_def, simp_all add: free_def, metis spent.simps(1))

lemma jump_stops: "stops n c pc b (jump n c pc b t)"
  unfolding jump_def by (rule tick_stops) simp

lemma next_stops: "stops n c pc b (Next d q b')" "stops n c pc b (fault d q b' k)"
  by (simp_all add: stops_def fault_def)

lemma counting_stops:
  "stops n c pc b (branch_step n p1 st c pc b)" "stops n c pc b (call_step n p3 st c pc b)"
  "stops n c pc b (return_step n st c pc b)" "stops n c pc b (case_range_step n st c pc b)"
  unfolding branch_step_def call_step_def return_step_def Let_def case_range_step_def
  by (auto simp: jump_stops tick_stops next_stops split: switch_kind.split)

lemma case_stops: "x_switch_kind (c_x c) \<noteq> SwString \<Longrightarrow> stops n c pc b (case_step n st c pc b)"
  unfolding case_step_def Let_def by (auto simp: jump_stops next_stops split: switch_kind.split)

lemma step_stops:
  assumes "\<forall>p. st_op st \<noteq> Switch p" "st_op st = CaseOp Case \<longrightarrow> x_switch_kind (c_x c) \<noteq> SwString"
  shows "stops n c pc b (step n st c pc b)"
proof (cases "st_op st")
  case (CaseOp p)
  then show ?thesis
    using case_stops counting_stops(4) assms(2) unfolding step_def Let_def by (cases p) simp_all
next
  case (Switch p)
  then show ?thesis using assms(1) by simp
qed (unfold step_def Let_def, simp_all add: counting_stops free_stops)

text \<open>A stopped \<open>SWITCH\<close> has set the reference and its kind; running it again sets them again.\<close>

lemma step_stopped:
  assumes st: "st_op st = CaseOp Case \<longrightarrow> x_switch_kind (c_x c) \<noteq> SwString"
    and r: "step n st c pc b = Exit d b' ExitBudget"
  obtains c' where "unat b \<le> 1" "b' = 0" "d = (at_pc c' pc)\<lparr>c_traced := n_trace n\<rparr>"
    "\<And>x. step n st c' pc x = step n st c pc x" "x_prnum (c_x c') = x_prnum (c_x c)"
    "c_progs c' = c_progs c" "c_traced c' = c_traced c" "c_mem c' = c_mem c" "c_frames c' = c_frames c"
proof (cases "\<exists>p. st_op st = Switch p")
  case False
  then show thesis using step_stops [OF _ st] r that [of c] by (auto simp: stops_def)
next
  case True
  then obtain p where p: "st_op st = Switch p" by blast
  define c' where "c' = c\<lparr>c_x := (c_x c)\<lparr>x_switch_ref := st_a st, x_switch_kind := kind_of_switch p\<rparr>\<rparr>"
  have "step n st c pc x = jump n c' pc x (st_b st)" for x
    by (simp add: step_def Let_def p switch_step_def c'_def)
  moreover have "step n st c' pc x = jump n c' pc x (st_b st)" for x
    by (simp add: step_def Let_def p switch_step_def c'_def)
  ultimately show thesis
    using that [of c'] r jump_stops [of n c' pc b "st_b st"] by (auto simp: stops_def c'_def)
qed

section \<open>A statement that moves on stays in its function\<close>

named_theorems same_call \<open>operations that keep the call state\<close>

lemma core_warn_call [same_call]: "c_x (core_warn c k) = c_x c" "c_frames (core_warn c k) = c_frames c"
  by (simp_all add: core_warn_def Let_def)

lemma str_or_warn_call [same_call]:
  "c_x (fst (str_or_warn c r)) = c_x c" "c_frames (fst (str_or_warn c r)) = c_frames c"
  by (simp_all add: str_or_warn_def same_call split: option.split)

lemma strings_equal_call [same_call]:
  "c_x (fst (strings_equal c a b)) = c_x c" "c_frames (fst (strings_equal c a b)) = c_frames c"
  by (simp_all add: strings_equal_def Let_def split_beta same_call)

lemma string_compare_call [same_call]:
  "c_x (fst (string_compare c p a b)) = c_x c" "c_frames (fst (string_compare c p a b)) = c_frames c"
  by (simp_all add: string_compare_def split_beta same_call)

lemma store_field_call [same_call]:
  "c_x (store_field c oa ob oc n) = c_x c" "c_frames (store_field c oa ob oc n) = c_frames c"
  by (simp_all add: store_field_def Let_def same_call split: option.split)

lemma ptr_write_call [same_call]:
  "c_x (fst (ptr_write c base off bs)) = c_x c" "c_frames (fst (ptr_write c base off bs)) = c_frames c"
  by (simp_all add: ptr_write_def ptr_write_slow_def Let_def same_call
      split: sum.split write_error.split option.split prod.split)

lemma compound_call [same_call]:
  "c_x (fst (compound_pointer_store c p oa ob oc)) = c_x c"
  "c_frames (fst (compound_pointer_store c p oa ob oc)) = c_frames c"
  by (simp_all add: compound_pointer_store_def Let_def same_call split: sum.split write_error.split)

lemma bad_field_call [same_call]:
  "c_x (bad_field_access c e f) = c_x c" "c_frames (bad_field_access c e f) = c_frames c"
  by (simp_all add: bad_field_access_def same_call)

lemma rand_word_call [same_call]:
  "c_x (rand_word p d oa ob oc c) = c_x c" "c_frames (rand_word p d oa ob oc c) = c_frames c"
  by (simp_all add: rand_word_def Let_def split: prod.split)

lemma on_mem_call [same_call]: "c_x (on_mem f c) = c_x c" "c_frames (on_mem f c) = c_frames c"
  by (simp_all add: on_mem_def)

text \<open>The same function runs on, its switch reference unchanged or set to \<open>sr\<close>.\<close>

definition same_function :: "u32 \<Rightarrow> 's core \<Rightarrow> 's core \<Rightarrow> bool" where
  "same_function sr c d \<longleftrightarrow> c_frames d = c_frames c \<and> x_prnum (c_x d) = x_prnum (c_x c) \<and>
     x_func (c_x d) = x_func (c_x c) \<and> x_switch_ref (c_x d) \<in> {x_switch_ref (c_x c), sr}"

definition stays :: "u32 \<Rightarrow> 's core \<Rightarrow> 's outcome \<Rightarrow> bool" where
  "stays sr c r \<longleftrightarrow> (\<forall>d q b. r = Next d q b \<longrightarrow> same_function sr c d)"

lemma same_function_simps [simp]:
  "same_function sr c c" "same_function sr c (at_pc d q) = same_function sr c d"
  "same_function sr c (on_mem f d) = same_function sr c d"
  "same_function sr c (d\<lparr>c_mem := m\<rparr>) = same_function sr c d"
  "same_function sr c (core_warn d wk) = same_function sr c d"
  "same_function sr c (fst (string_compare d sp a b)) = same_function sr c d"
  "same_function sr c (fst (strings_equal d a b)) = same_function sr c d"
  "same_function sr c (fst (str_or_warn d a)) = same_function sr c d"
  "same_function sr c (bad_field_access d e g) = same_function sr c d"
  "same_function sr c (store_field d oa ob oc w) = same_function sr c d"
  "same_function sr c (fst (ptr_write d base off bs)) = same_function sr c d"
  "same_function sr c (fst (compound_pointer_store d cp oa ob oc)) = same_function sr c d"
  "same_function sr c (rand_word p' dv oa ob oc d) = same_function sr c d"
  "same_function sr c (c\<lparr>c_x := (c_x c)\<lparr>x_pushed := pw\<rparr>\<rparr>)"
  "same_function sr c (c\<lparr>c_x := (c_x c)\<lparr>x_switch_ref := sr, x_switch_kind := sk\<rparr>\<rparr>)"
  by (simp_all add: same_function_def same_call at_pc_def)

lemma stays_simps [simp]:
  "stays sr c (Next d q b) = same_function sr c d" "stays sr c (Exit d b e)"
  "stays sr c (Reload d b)"
  "stays sr c (fault d pc b k)"
  by (auto simp: stays_def fault_def)

lemma stays_rewound: "same_function sr c d \<Longrightarrow> stays sr c (rewound n d pc b)"
  by (simp add: rewound_def)

lemma stays_tick: "(\<And>b. stays sr c (f b)) \<Longrightarrow> stays sr c (tick n d pc b f)"
  by (simp add: tick_def Let_def)

lemma stays_jump: "same_function sr c d \<Longrightarrow> stays sr c (jump n d pc b t)"
  unfolding jump_def by (rule stays_tick) simp

lemma same_function_pair: "x = (d, y) \<Longrightarrow> same_function sr c (fst x) \<Longrightarrow> same_function sr c d"
  by simp

lemma stays_strcmp: "stays sr c (strcmp_step n p oa ob oc c pc b)"
  unfolding strcmp_step_def Let_def split_beta by (auto intro!: stays_rewound simp del: at_pc_sel)

lemma stays_fields:
  "stays sr c (loadf_step n p1 oa ob oc c pc b)" "stays sr c (storef_step n p2 oa ob oc c pc b)"
  unfolding loadf_step_def storef_step_def address_step_def Let_def
  by (auto intro!: stays_rewound split: option.split)

lemma stays_store:
  "stays sr c (store_slow n c pc b base off bs)" "stays sr c (store_fast n c pc b base off bs)"
proof -
  show s: "stays sr c (store_slow n c pc b base off bs)"
  proof (cases "ptr_write (at_pc c pc) base off bs")
    case (Pair d r)
    then have "same_function sr c d" by (rule same_function_pair) simp
    then show ?thesis using Pair by (cases r) (simp_all add: store_slow_def stays_rewound)
  qed
  then show "stays sr c (store_fast n c pc b base off bs)"
    by (simp add: store_fast_def split: option.split)
qed

lemma stays_load:
  "stays sr c (load_slow n c pc b k base off put)" "stays sr c (load_fast n c pc b w base off oc)"
  "stays sr c (load_convert n f oa oc c pc b)"
  unfolding load_fast_def load_slow_def load_convert_def Let_def
  by (auto intro!: stays_rewound split: option.split sum.split)

lemma stays_pointers:
  "stays sr c (storep_step n p1 oa ob oc c pc b)" "stays sr c (loadp_step n p2 oa ob oc c pc b)"
  unfolding storep_step_def loadp_step_def Let_def
  by (cases p1; simp add: stays_store) (cases p2; simp add: stays_load)

lemma stays_compoundp: "stays sr c (compoundp_step n p oa ob oc c pc b)"
proof -
  have "stays sr c (compoundp_slow n p oa ob oc c pc b)"
  proof (cases "compound_pointer_store (at_pc c pc) p oa ob oc")
    case (Pair d r)
    then have "same_function sr c d" by (rule same_function_pair) simp
    then show ?thesis using Pair by (cases r) (simp_all add: compoundp_slow_def stays_rewound)
  qed
  then show ?thesis by (auto simp: compoundp_step_def split: option.split)
qed

lemma stays_arrays:
  "stays sr c (fetch_step n p0 st c pc b)" "stays sr c (loada_step n p1 st c pc b)"
  "stays sr c (gload_step n p2 st c pc b)" "stays sr c (gstorep_step n p3 st c pc b)"
  "stays sr c (bounds_step n p4 st c pc b)" "stays sr c (bad_step p5 c pc b)"
  "stays sr c (rand_step n p6 oa ob oc c pc b)" "stays sr c (anim_step n p7 oa ob c pc b)"
  unfolding fetch_step_def loada_step_def gload_step_def gstorep_step_def bounds_step_def
    push_step_def bad_step_def rand_step_def anim_step_def Let_def
  by (auto intro!: stays_rewound split: option.split)

lemma dispatch_stays: "stays sr c' (dispatch n t c pc b)"
  by (auto simp: dispatch_def split: option.split callee.split prod.split)

lemma stays_control:
  "stays sr c (branch_step n p1 st c pc b)" "stays (st_a st) c (switch_step n p2 st c pc b)"
  "stays sr c (case_step n st c pc b)" "stays sr c (case_range_step n st c pc b)"
  "stays sr c (call_step n p3 st c pc b)" "stays sr c (return_step n st c pc b)"
proof -
  show "stays sr c (case_step n st c pc b)"
    unfolding case_step_def Let_def split_beta
    by (auto intro!: stays_jump split: switch_kind.split simp del: at_pc_sel)
  show "stays sr c (call_step n p3 st c pc b)"
    unfolding call_step_def Let_def by (intro stays_tick dispatch_stays)
  show "stays sr c (return_step n st c pc b)"
    unfolding return_step_def Let_def
    by (rule stays_tick) simp
qed (auto simp: branch_step_def switch_step_def case_range_step_def Let_def
      intro!: stays_jump stays_tick split: switch_kind.split)

lemma step_stays:
  assumes "sr = st_a st \<or> (\<forall>p. st_op st \<noteq> Switch p)"
  shows "stays sr c (step n st c pc b)"
proof (cases "st_op st")
  case (CaseOp p)
  then show ?thesis by (cases p) (simp_all add: step_def Let_def stays_control)
qed (use assms in \<open>auto simp: step_def Let_def data_step_def stays_strcmp stays_fields stays_pointers
      stays_compoundp stays_arrays stays_control\<close>)

section \<open>Two runs side by side\<close>

text \<open>The cached code is that of the progs it is cached for.  A loop state \<open>live\<close> in an untraced run
  started at \<open>c0\<close> runs the code of the current progs.\<close>

definition coherent :: "'s core \<Rightarrow> u8 \<Rightarrow> stmt list \<Rightarrow> bool" where
  "coherent c pr cached \<longleftrightarrow> (\<forall>ps. core_progs_at c pr = Some ps \<longrightarrow> cached = ps_code ps)"

definition env_for :: "view \<Rightarrow> nat \<Rightarrow> u8 \<Rightarrow> progs_state \<Rightarrow> env" where
  "env_for v d pr ps = \<lparr>n_view = v, n_trace = False, n_depth = d, n_prnum = pr,
     n_gbase = ps_gbase ps, n_globals = ps_num_globals ps\<rparr>"

lemma env_for_view [simp]: "n_view (env_for v d pr ps) = v"
  by (simp add: env_for_def)

definition live :: "'s core \<Rightarrow> nat \<Rightarrow> 's lstate \<Rightarrow> bool" where
  "live c0 d s \<longleftrightarrow> loop_inv c0 s \<and> ls_budget s \<noteq> 0 \<and> \<not> c_traced (ls_core s) \<and>
     coherent c0 (ls_pr s) (ls_cache s) \<and>
     (\<exists>ps. core_progs_at c0 (x_prnum (c_x (ls_core s))) = Some ps \<and> ls_code s = ps_code ps \<and>
        ls_env s = env_for (n_view (ls_env s)) d (x_prnum (c_x (ls_core s))) ps)"

definition twin :: "'s core \<Rightarrow> u32 \<Rightarrow> 's lstate \<Rightarrow> 's lstate \<Rightarrow> bool" where
  "twin c0 k s s' \<longleftrightarrow> (\<exists>q. ls_core s' = at_pc (ls_core s) q) \<and> ls_env s' = ls_env s \<and>
     ls_code s' = ls_code s \<and> ls_pc s' = ls_pc s \<and> ls_budget s' = ls_budget s + k \<and>
     coherent c0 (ls_pr s') (ls_cache s')"

lemma loop_inv_progs: "loop_inv c0 s \<Longrightarrow> c_progs (ls_core s) = c_progs c0"
  unfolding loop_inv_def using fixed_core_progs by blast

lemma core_progs_at_cong: "c_progs c = c_progs d \<Longrightarrow> core_progs_at c pr = core_progs_at d pr"
  by (simp add: core_progs_at_def)

lemma at_own_pc: "at_pc c (x_pc (c_x c)) = c"
  by (simp add: at_pc_def)

lemma at_pc_eq: "at_pc d p = at_pc c p \<Longrightarrow> d = at_pc c (x_pc (c_x d))"
  by (metis at_pc_at_pc at_own_pc)

lemma inner_untraced:
  assumes env: "ls_env s = env_for v d pr ps"
  shows "inner s =
     (case code_at (n_view (ls_env s)) (ls_code s) (ls_pc s) of
        None \<Rightarrow> Inl (at_pc (ls_core s) (ls_pc s), ls_budget s, Fault JumpOutOfRange)
      | Some st \<Rightarrow>
          (case step (ls_env s) st (ls_core s) (ls_pc s) (ls_budget s) of
             Next c' pc' b \<Rightarrow> Inr (s\<lparr>ls_core := c', ls_pc := pc', ls_budget := b\<rparr>)
           | Reload c' b \<Rightarrow>
               reload (n_view (ls_env s)) False d (ls_pr s) (ls_cache s) c' b
           | Exit c' b e \<Rightarrow> Inl (c', b, e)))"
proof -
  have "\<not> n_trace (ls_env s)" "n_depth (ls_env s) = d" by (simp_all add: env env_for_def)
  then show ?thesis by (simp add: inner_def Let_def split: option.split outcome.split)
qed

lemma reload_twins:
  assumes c: "c_progs c = c_progs c0" and co: "coherent c0 pr ca" "coherent c0 pr' ca'"
  shows "case reload v False d pr ca c b of
      Inl r \<Rightarrow> \<exists>e. r = (c, b, e) \<and> e \<noteq> ExitBudget \<and> reload v False d pr' ca' c (b + k) = Inl (c, b + k, e)
    | Inr t \<Rightarrow> \<exists>t'. reload v False d pr' ca' c (b + k) = Inr t' \<and> twin c0 k t t' \<and>
        ls_core t = c \<and> ls_budget t = b \<and> coherent c0 (ls_pr t) (ls_cache t)"
proof (cases "core_progs_at c0 (x_prnum (c_x c))")
  case None
  then show ?thesis using c by (simp add: reload_def Let_def core_progs_at_def)
next
  case (Some ps)
  then have ps: "core_progs_at c (x_prnum (c_x c)) = Some ps" using c by (simp add: core_progs_at_def)
  have cache: "(if pr \<noteq> x_prnum (c_x c) then ps_code ps else ca) = ps_code ps"
    "(if pr' \<noteq> x_prnum (c_x c) then ps_code ps else ca') = ps_code ps"
    using co Some by (auto simp: coherent_def)
  have "\<exists>q. c = at_pc c q" using at_own_pc by metis
  then show ?thesis
    using Some unfolding reload_def Let_def ps option.case cache
    by (auto simp: twin_def coherent_def split: option.split)
qed

lemma live_step_ok:
  assumes "live c0 d s"
  shows "outcome_ok (ls_core s) (ls_pc s) (ls_budget s) (step (ls_env s) st (ls_core s) (ls_pc s) (ls_budget s))"
  using assms by (intro step_ok) (simp add: live_def loop_inv_def)

lemma live_keeps:
  assumes s: "live c0 d s" and k: "keeps (ls_core s) c"
  shows "\<not> c_traced c" "c_progs c = c_progs c0"
proof -
  have "core_wf (ls_core s)" "c_progs (ls_core s) = c_progs c0" "\<not> c_traced (ls_core s)"
    using s loop_inv_progs by (auto simp: live_def loop_inv_def)
  moreover from this k have "fixed_part c = fixed_part (ls_core s)" by (simp add: keeps_def)
  from arg_cong [OF this, of c_traced] arg_cong [OF this, of c_progs]
  have "c_traced c = c_traced (ls_core s)" "c_progs c = c_progs (ls_core s)"
    by (simp_all add: fixed_part_def)
  ultimately show "\<not> c_traced c" "c_progs c = c_progs c0" by simp_all
qed

lemma live_reload:
  assumes s: "live c0 d s" and k: "keeps (ls_core s) c" "b \<noteq> 0"
    and r: "reload (n_view (ls_env s)) False d (ls_pr s) (ls_cache s) c b = Inr t" and i: "inner s = Inr t"
  shows "live c0 d t"
proof -
  have co: "coherent c0 (ls_pr s) (ls_cache s)" and inv: "loop_inv c0 s" using s by (simp_all add: live_def)
  note rt = reload_twins [OF live_keeps(2) [OF s k(1)] co co, where v = "n_view (ls_env s)" and d = d and b = b and k = 0, unfolded r]
  have t: "loop_inv c0 t" using inner_cases [OF inv] i by simp
  obtain ps where ps: "core_progs_at c (x_prnum (c_x c)) = Some ps"
    using r by (cases "core_progs_at c (x_prnum (c_x c))") (simp_all add: reload_def Let_def)
  then have ps0: "core_progs_at c0 (x_prnum (c_x c)) = Some ps"
    using live_keeps(2) [OF s k(1)] by (simp add: core_progs_at_def)
  define cache where "cache = (if ls_pr s \<noteq> x_prnum (c_x c) then ps_code ps else ls_cache s)"
  have cache: "cache = ps_code ps" using co ps0 by (auto simp: coherent_def cache_def)
  have "code_ready (n_view (ls_env s)) (ps_code ps)"
    using inv ps0 by (auto simp: loop_inv_def run_ready_def core_progs_at_def nth_opt_Some)
  note vc = view_code_ready [OF this]
  have "ls_code t = ps_code ps \<and> ls_env t = env_for (n_view (ls_env s)) d (x_prnum (c_x c)) ps"
    using r unfolding reload_def Let_def ps option.case cache_def [symmetric] cache vc
    by (auto simp: env_for_def split: if_splits)
  then show ?thesis
    using t rt ps0 k(2) live_keeps(1) [OF s k(1)] by (auto simp: live_def env_for_def)
qed

lemma canon_Exit: "canon r = Exit c b e \<longleftrightarrow> r = Exit c b e"
  by (cases r) simp_all

lemma canon_Reload: "canon r = Reload c b \<longleftrightarrow> r = Reload c b"
  by (cases r) simp_all

lemma canon_Next: "canon r = Next c p b \<longleftrightarrow> (\<exists>d. r = Next d p b \<and> c = at_pc d p)"
  by (cases r) auto

text \<open>One turn of the loop from two states whose statement has, normalised, the same outcome but for
  some more budget.\<close>

lemma inner_canon:
  assumes s: "live c0 d s" and st: "code_at (n_view (ls_env s)) (ls_code s) (ls_pc s) = Some st"
    and s': "ls_env s' = ls_env s" "ls_code s' = ls_code s" "ls_pc s' = ls_pc s"
      "coherent c0 (ls_pr s') (ls_cache s')"
    and r': "canon (step (ls_env s) st (ls_core s') (ls_pc s) (ls_budget s')) =
      canon (shift k (step (ls_env s) st (ls_core s) (ls_pc s) (ls_budget s)))"
  shows "case inner s of
      Inl (c, b, e) \<Rightarrow> inner s' = Inl (c, b + k, e)
    | Inr t \<Rightarrow> live c0 d t \<and> ls_budget t \<le> ls_budget s \<and>
        (\<exists>t'. inner s' = Inr t' \<and> twin c0 k t t')"
proof -
  define n c pc b where "n = ls_env s" and "c = ls_core s" and "pc = ls_pc s" and "b = ls_budget s"
  note defs = n_def c_def pc_def b_def
  from s obtain ps where ps: "core_progs_at c0 (x_prnum (c_x c)) = Some ps" "ls_code s = ps_code ps"
    "n = env_for (n_view n) d (x_prnum (c_x c)) ps" and co: "coherent c0 (ls_pr s) (ls_cache s)"
    and inv: "loop_inv c0 s" and b0: "b \<noteq> 0"
    by (auto simp: live_def defs)
  note i = inner_untraced [of s, folded n_def, OF ps(3)]
    and i' = inner_untraced [of s', unfolded s' (1), folded n_def, OF ps(3)]
  define r where "r = step n st c pc b"
  have ok: "outcome_ok c pc b r" using live_step_ok [OF s] by (simp add: r_def defs)
  have alive: "alive r" using step_counts [of b n st c pc] b0 by (simp add: counts_def r_def)
  have some: "code_at (n_view n) (ls_code s) pc = Some st" using st by (simp add: defs)
  have c': "canon (step n st (ls_core s') pc (ls_budget s')) = canon (shift k r)"
    using r' by (simp add: r_def defs)
  show ?thesis
  proof (cases r)
    case (Exit c1 b1 e)
    then have "inner s = Inl (c1, b1, e)" using some by (simp add: i r_def defs)
    moreover have "inner s' = Inl (c1, b1 + k, e)"
      using c' some Exit by (simp add: i' s' pc_def [symmetric] canon_Exit)
    ultimately show ?thesis by simp
  next
    case (Reload c1 b1)
    have k1: "keeps c c1" "b1 < b" "b1 \<noteq> 0" using ok alive Reload by simp_all
    have is1: "inner s = reload (n_view n) False d (ls_pr s) (ls_cache s) c1 b1"
      using some Reload by (simp add: i r_def defs)
    have is2: "inner s' = reload (n_view n) False d (ls_pr s') (ls_cache s') c1 (b1 + k)"
      using c' some Reload by (simp add: i' s' pc_def [symmetric] canon_Reload)
    have p: "c_progs c1 = c_progs c0" using live_keeps(2) [OF s] k1(1) by (simp add: c_def)
    note rt = reload_twins [OF p co s' (4), where v = "n_view n" and d = d and b = b1 and k = k, folded is1 is2]
    show ?thesis
    proof (cases "inner s")
      case (Inl x)
      then show ?thesis using rt by (auto split: prod.split)
    next
      case (Inr t)
      have "live c0 d t"
        using live_reload [OF s k1(1) [unfolded c_def] k1(3)] is1 Inr by (simp add: n_def)
      then show ?thesis using rt Inr k1(2) by (auto simp: b_def)
    qed
  next
    case (Next c1 pc1 b1)
    have k1: "keeps c c1" "b1 \<le> b" "b1 \<noteq> 0" using ok alive Next by auto
    have is1: "inner s = Inr (s\<lparr>ls_core := c1, ls_pc := pc1, ls_budget := b1\<rparr>)" (is "_ = Inr ?t")
      using some Next by (simp add: i r_def defs)
    obtain c2 where c2: "step n st (ls_core s') pc (ls_budget s') = Next c2 pc1 (b1 + k)"
      "at_pc c2 pc1 = at_pc c1 pc1"
      using c' Next by (auto simp: canon_Next)
    have is2: "inner s' = Inr (s'\<lparr>ls_core := c2, ls_pc := pc1, ls_budget := b1 + k\<rparr>)"
      using some c2(1) by (simp add: i' s' pc_def [symmetric])
    have "same_function (st_a st) c c1" using step_stays [of "st_a st" st c n pc b] Next by (simp add: r_def)
    then have "live c0 d ?t"
      using inner_cases [OF inv] is1 ps k1(3) co live_keeps(1) [OF s] k1(1)
      by (auto simp: live_def same_function_def defs)
    moreover have "twin c0 k ?t (s'\<lparr>ls_core := c2, ls_pc := pc1, ls_budget := b1 + k\<rparr>)"
      using at_pc_eq [OF c2(2)] s' by (auto simp: twin_def)
    ultimately show ?thesis using is1 is2 k1(2) by (simp add: b_def)
  qed
qed

lemma shift_zero [simp]: "shift 0 r = r"
  by (cases r) simp_all

lemma inner_twins:
  assumes s: "live c0 d s" and tw: "twin c0 k s s'"
    and fit: "unat (ls_budget s) + unat k < 2 ^ 32"
  shows "case inner s of
      Inl (c, b, e) \<Rightarrow> e \<noteq> ExitBudget \<or> k = 0 \<longrightarrow> inner s' = Inl (c, b + k, e)
    | Inr t \<Rightarrow> live c0 d t \<and> ls_budget t \<le> ls_budget s \<and>
        (\<exists>t'. inner s' = Inr t' \<and> twin c0 k t t')"
proof -
  from tw obtain q where q: "ls_core s' = at_pc (ls_core s) q" by (auto simp: twin_def)
  have tw': "ls_env s' = ls_env s" "ls_code s' = ls_code s" "ls_pc s' = ls_pc s"
    "coherent c0 (ls_pr s') (ls_cache s')" "ls_budget s' = ls_budget s + k"
    using tw by (simp_all add: twin_def)
  from s obtain pr ps where env: "ls_env s = env_for (n_view (ls_env s)) d pr ps" by (auto simp: live_def)
  show ?thesis
  proof (cases "code_at (n_view (ls_env s)) (ls_code s) (ls_pc s)")
    case None
    then show ?thesis
      using inner_untraced [OF env] inner_untraced [of s', unfolded tw'(1), OF env] tw' q by simp
  next
    case (Some st)
    let ?r = "step (ls_env s) st (ls_core s) (ls_pc s) (ls_budget s)"
    show ?thesis
    proof (cases "spent ?r \<and> k \<noteq> 0")
      case True
      then obtain c1 b1 where "?r = Exit c1 b1 ExitBudget" by (metis spent.elims(2))
      then have "inner s = Inl (c1, b1, ExitBudget)" using inner_untraced [OF env] Some by simp
      then show ?thesis using True by simp
    next
      case False
      have "step (ls_env s) st (ls_core s) (ls_pc s) (ls_budget s + k) = shift k ?r"
      proof (cases "k = 0")
        case True
        then show ?thesis by simp
      next
        case k: False
        then show ?thesis
          using step_counts [of "ls_budget s" "ls_env s" st "ls_core s" "ls_pc s", unfolded counts_def]
            fit False by blast
      qed
      then have "canon (step (ls_env s) st (ls_core s') (ls_pc s) (ls_budget s')) = canon (shift k ?r)"
        by (simp only: q tw'(5) step_stale_pc)
      from inner_canon [OF s Some tw'(1-4) this] show ?thesis
        by (cases "inner s") (simp_all only: sum.case split_beta simp_thms)
    qed
  qed
qed

lemma live_measure:
  assumes "live c0 d s" "inner s = Inr t"
  shows "(loop_measure t, loop_measure s) \<in> less_than <*lex*> less_than"
  using inner_cases [of c0 s] assms by (auto simp: live_def loop_measure_def word_less_nat_alt)

lemmas loop_induct = wf_induct_rule [OF wf_lex_prod [OF wf_less_than wf_less_than]]

lemma loop_stale:
  "live c0 d s \<Longrightarrow> twin c0 0 s s' \<Longrightarrow> loop s' = loop s"
proof (induction "loop_measure s" arbitrary: s s' rule: loop_induct)
  case 1
  note it = inner_twins [OF 1(2,3), simplified, OF unat_u32_bound [simplified]]
  show ?case
  proof (cases "inner s")
    case (Inl x)
    then show ?thesis using it by (simp add: loop.simps split: prod.splits)
  next
    case (Inr t)
    with it obtain t' where t': "inner s' = Inr t'" "twin c0 0 t t'" "live c0 d t" by auto
    from 1(1) [OF live_measure [OF 1(2) Inr] t'(3,2)] show ?thesis
      using Inr t'(1) by (simp add: loop.simps [of s] loop.simps [of s'])
  qed
qed

section \<open>Running in chunks\<close>

text \<open>A \<open>CASE\<close> on strings may warn before the budget stops it, and warns again when it runs again.\<close>

definition at_string_case :: "view \<Rightarrow> 's core \<Rightarrow> bool" where
  "at_string_case v c \<longleftrightarrow> x_switch_kind (c_x c) = SwString \<and>
     (case core_progs_at c (x_prnum (c_x c)) of
        None \<Rightarrow> False
      | Some ps \<Rightarrow>
          (case code_at v (ps_code ps) (x_pc (c_x c)) of
             None \<Rightarrow> False | Some st \<Rightarrow> st_op st = CaseOp Case))"

lemma string_case_kept:
  assumes "st_op st = CaseOp Case" "step n st c pc b = Exit d b' ExitBudget"
  shows "x_pc (c_x d) = pc \<and> x_switch_kind (c_x d) = x_switch_kind (c_x c) \<and>
    x_prnum (c_x d) = x_prnum (c_x c)"
  using assms
  by (auto simp: step_def Let_def case_step_def jump_def tick_def fault_def same_call split_beta at_pc_def
      split: switch_kind.splits if_splits)

lemma same_step_loops:
  assumes t: "live c0 d t" "code_at (n_view (ls_env t)) (ls_code t) (ls_pc t) = Some st"
    and s': "ls_env s' = ls_env t" "ls_code s' = ls_code t" "ls_pc s' = ls_pc t"
      "coherent c0 (ls_pr s') (ls_cache s')"
    and r: "canon (step (ls_env t) st (ls_core s') (ls_pc t) (ls_budget s')) =
      canon (step (ls_env t) st (ls_core t) (ls_pc t) (ls_budget t))"
  shows "loop s' = loop t"
proof -
  have "canon (step (ls_env t) st (ls_core s') (ls_pc t) (ls_budget s')) =
      canon (shift 0 (step (ls_env t) st (ls_core t) (ls_pc t) (ls_budget t)))" by (simp only: r shift_zero)
  note ic = inner_canon [OF t s' this]
  show ?thesis
  proof (cases "inner t")
    case (Inl x)
    then show ?thesis using ic by (simp add: loop.simps split: prod.splits)
  next
    case (Inr u)
    with ic obtain u' where u: "live c0 d u" "inner s' = Inr u'" "twin c0 0 u u'" by auto
    show ?thesis using loop_stale [OF u(1,3)] Inr u(2) by (simp add: loop.simps [of t] loop.simps [of s'])
  qed
qed

lemma reload_fresh:
  assumes ps: "core_progs_at c (x_prnum (c_x c)) = Some ps"
    and ca: "pr = x_prnum (c_x c) \<Longrightarrow> ca = ps_code ps"
    and ready: "code_ready v (ps_code ps)" and vok: "view_ok v (ms (c_mem c))"
  shows "reload v False d pr ca c b = Inr \<lparr>ls_core = c, ls_env = env_for v d (x_prnum (c_x c)) ps,
    ls_code = ps_code ps, ls_pr = x_prnum (c_x c), ls_cache = ps_code ps, ls_pc = x_pc (c_x c),
    ls_budget = b\<rparr>"
proof -
  have cache: "(if pr \<noteq> x_prnum (c_x c) then ps_code ps else ca) = ps_code ps" using ca by simp
  show ?thesis
    unfolding reload_def Let_def ps option.case cache view_code_ready [OF ready]
    using vok by (simp add: env_for_def)
qed

lemma stopped_resumes:
  assumes s: "live c0 d s" and few: "length (c_progs c0) \<le> 255"
    and st: "code_at (n_view (ls_env s)) (ls_code s) (ls_pc s) = Some st"
    and r: "step (ls_env s) st (ls_core s) (ls_pc s) (ls_budget s) = Exit c1 b1 ExitBudget"
    and nc: "\<not> at_string_case (n_view (ls_env s)) c1"
    and tw: "twin c0 k s s'" and fit: "unat (ls_budget s) + unat k < 2 ^ 32"
  shows "loop s' = run (n_view (ls_env s)) False c1 d (1 + k)"
proof -
  define n c pc v where "n = ls_env s" and "c = ls_core s" and "pc = ls_pc s" and "v = n_view (ls_env s)"
  note defs = n_def c_def pc_def v_def
  have progs: "c_progs c = c_progs c0" using s loop_inv_progs by (auto simp: live_def c_def)
  from s obtain ps where ps: "core_progs_at c0 (x_prnum (c_x c)) = Some ps" "ls_code s = ps_code ps"
    "n = env_for v d (x_prnum (c_x c)) ps" and inv: "loop_inv c0 s" and b0: "ls_budget s \<noteq> 0"
    and tr: "\<not> c_traced c"
    by (auto simp: live_def defs)
  have "st_op st = CaseOp Case \<longrightarrow> x_switch_kind (c_x c) \<noteq> SwString"
  proof
    assume cs: "st_op st = CaseOp Case"
    have res: "result_ok c0 (ls_budget s) (c1, b1, ExitBudget)"
      using inner_cases [OF inv] inner_untraced [OF ps(3) [unfolded n_def]] st r by simp
    then have "c_progs c1 = c_progs c0" using fixed_core_progs by (auto simp: result_ok_def)
    then have "core_progs_at c1 (x_prnum (c_x c)) = Some ps" using ps(1) by (simp add: core_progs_at_def)
    then show "x_switch_kind (c_x c) \<noteq> SwString"
      using string_case_kept [OF cs r] nc cs st ps(2) by (auto simp: at_string_case_def defs)
  qed
  from step_stopped [OF this [unfolded c_def] r]
  obtain c' where c': "unat (ls_budget s) \<le> 1" "c1 = (at_pc c' pc)\<lparr>c_traced := n_trace n\<rparr>"
    "\<And>x. step n st c' pc x = step n st c pc x" "x_prnum (c_x c') = x_prnum (c_x c)"
    "c_progs c' = c_progs c" "c_traced c' = c_traced c" "c_mem c' = c_mem c"
    by (auto simp: defs)
  have c1: "c1 = at_pc c' pc" using c'(2,6) tr ps(3) by (simp add: env_for_def) (simp add: at_pc_def)
  have "unat (ls_budget s) \<noteq> 0" using b0 by (simp add: unat_eq_zero)
  then have b: "ls_budget s = 1" using c'(1) by (simp add: word_unat_eq_iff)
  define t where "t = \<lparr>ls_core = c1, ls_env = n, ls_code = ps_code ps, ls_pr = x_prnum (c_x c),
    ls_cache = ps_code ps, ls_pc = pc, ls_budget = 1 + k\<rparr>"
  have ps1: "core_progs_at c1 (x_prnum (c_x c)) = Some ps"
    using ps(1) c'(5) progs by (simp add: c1 core_progs_at_def)
  have ready: "code_ready v (ps_code ps)" using inv ps(2) by (simp add: loop_inv_def v_def)
  have vok: "view_ok v (ms (c_mem c1))" using inv c'(7) by (simp add: c1 loop_inv_def defs)
  have nv: "n_view n = v" by (simp add: defs)
  have res: "result_ok c0 (ls_budget s) (c1, b1, ExitBudget)"
    using inner_cases [OF inv] inner_untraced [OF ps(3) [unfolded n_def]] st r by simp
  have "unat (1 + k) = 1 + unat k" using fit b by (simp add: unat_word_ariths)
  then have "1 + k \<noteq> 0" by (metis add_is_0 unat_0 zero_neq_one)
  then have live: "live c0 d t"
    using res inv [unfolded loop_inv_def, folded v_def] ready vok ps(1,3) tr c'(4,6)
    by (simp add: live_def loop_inv_def result_ok_def t_def nv coherent_def c1)
  obtain p qs where pq: "c_progs c1 = p # qs"
    using ps1 by (cases "c_progs c1") (simp_all add: core_progs_at_def nth_opt_def)
  have pr1: "x_prnum (c_x c1) = x_prnum (c_x c)" using c'(4) by (simp add: c1)
  have ne: "255 \<noteq> x_prnum (c_x c1)"
  proof
    assume "255 = x_prnum (c_x c1)"
    then have "unat (255 :: u8) < length (c_progs c1)"
      using ps1 pr1 by (auto simp: core_progs_at_def nth_opt_Some)
    then show False using few progs c'(5) by (simp add: c1)
  qed
  have "reload v False d 255 (ps_code p) c1 (1 + k) = Inr t"
    using reload_fresh [of c1 ps 255 "ps_code p" v d "1 + k"] ps1 ne ready vok ps(3)
    by (simp add: t_def c1 c'(4))
  then have "run v False c1 d (1 + k) = loop t" by (simp add: run_def pq)
  moreover have "loop s' = loop t"
  proof (rule same_step_loops [OF live])
    show "code_at (n_view (ls_env t)) (ls_code t) (ls_pc t) = Some st"
      using st ps(2) by (simp add: t_def defs)
    show "ls_env s' = ls_env t" "ls_code s' = ls_code t" "ls_pc s' = ls_pc t"
      "coherent c0 (ls_pr s') (ls_cache s')"
      using tw ps(2) by (simp_all add: twin_def t_def defs)
    obtain q where q: "ls_core s' = at_pc c q" "ls_budget s' = 1 + k"
      using tw b by (auto simp: twin_def c_def)
    show "canon (step (ls_env t) st (ls_core s') (ls_pc t) (ls_budget s')) =
        canon (step (ls_env t) st (ls_core t) (ls_pc t) (ls_budget t))"
      by (simp add: t_def q c1 step_stale_pc c'(3))
  qed
  ultimately show ?thesis by (simp add: v_def)
qed

lemma loop_more:
  assumes few: "length (c_progs c0) \<le> 255"
  shows "live c0 d s \<Longrightarrow> twin c0 k s s' \<Longrightarrow> unat (ls_budget s) + unat k < 2 ^ 32 \<Longrightarrow>
    loop s = Some (c1, b1, e) \<Longrightarrow>
    (if e = ExitBudget
     then at_string_case (n_view (ls_env s)) c1 \<or> loop s' = run (n_view (ls_env s)) False c1 d (1 + k)
     else loop s' = Some (c1, b1 + k, e))"
proof (induction "loop_measure s" arbitrary: s s' rule: loop_induct)
  case 1
  note it = inner_twins [OF 1(2-4)]
  show ?case
  proof (cases "inner s")
    case (Inl x)
    then have x: "x = (c1, b1, e)" using 1(5) by (simp add: loop.simps)
    show ?thesis
    proof (cases "e = ExitBudget")
      case False
      then show ?thesis using it Inl x by (simp add: loop.simps)
    next
      case True
      obtain pr ps where env: "ls_env s = env_for (n_view (ls_env s)) d pr ps"
        using 1(2) by (auto simp: live_def)
      obtain st where st: "code_at (n_view (ls_env s)) (ls_code s) (ls_pc s) = Some st"
        using inner_untraced [OF env] Inl x True by (cases "code_at (n_view (ls_env s)) (ls_code s) (ls_pc s)") auto
      have "step (ls_env s) st (ls_core s) (ls_pc s) (ls_budget s) = Exit c1 b1 ExitBudget"
      proof (cases "step (ls_env s) st (ls_core s) (ls_pc s) (ls_budget s)")
        case (Reload c2 b2)
        then show ?thesis
          using inner_untraced [OF env] Inl x True st
          by (auto simp: reload_def Let_def split: option.splits if_splits)
      qed (use inner_untraced [OF env] Inl x True st in auto)
      then show ?thesis using stopped_resumes [OF 1(2) few st _ _ 1(3,4)] True by auto
    qed
  next
    case (Inr t)
    with it obtain t' where t': "inner s' = Inr t'" "twin c0 k t t'" "live c0 d t" "ls_budget t \<le> ls_budget s"
      by auto
    have v: "n_view (ls_env t) = n_view (ls_env s)"
      using inner_cases [of c0 s] 1(2) Inr by (simp add: live_def)
    have "unat (ls_budget t) + unat k < 2 ^ 32" using t'(4) 1(4) by (simp add: word_le_nat_alt)
    moreover have "loop t = Some (c1, b1, e)" using 1(5) Inr by (simp add: loop.simps)
    ultimately show ?thesis
      using 1(1) [OF live_measure [OF 1(2) Inr] t'(3,2)] t'(1) v by (auto simp: loop.simps [of s'])
  qed
qed

text \<open>A run starts either at a live state, or fails at once.\<close>

lemma run_start:
  assumes wf: "core_wf c" and ready: "run_ready v c" and few: "length (c_progs c) \<le> 255"
    and tr: "\<not> c_traced c"
  obtains (fails) e where "e \<noteq> ExitBudget" "\<And>b. run v False c d b = Some (c, b, e)"
  | (starts) s where "\<And>b. run v False c d b = loop (s b)" "\<And>b. b \<noteq> 0 \<Longrightarrow> live c d (s b)"
      "\<And>b k. twin c k (s b) (s (b + k))" "\<And>b. ls_budget (s b) = b" "\<And>b. n_view (ls_env (s b)) = v"
proof (cases "c_progs c")
  case Nil
  then show thesis using fails [of "Fault (InvalidFunctionRef 0)"] by (simp add: run_def)
next
  case (Cons p qs)
  show thesis
  proof (cases "core_progs_at c (x_prnum (c_x c))")
    case None
    then show thesis
      using fails [of "Fault (InvalidFunctionRef (func_ref (x_prnum (c_x c)) (x_func (c_x c))))"] Cons
      by (simp add: run_def reload_def Let_def)
  next
    case (Some ps)
    have cr: "code_ready v (ps_code ps)"
      using ready Some by (auto simp: run_ready_def core_progs_at_def nth_opt_Some)
    have ne: "255 \<noteq> x_prnum (c_x c)"
    proof
      assume "255 = x_prnum (c_x c)"
      then have "unat (255 :: u8) < length (c_progs c)"
        using Some by (auto simp: core_progs_at_def nth_opt_Some)
      then show False using few by simp
    qed
    show thesis
    proof (cases "view_ok v (ms (c_mem c))")
      case False
      then show thesis
        using fails [of "Fault (BadPointerRead 0)"] Cons Some ne view_code_ready [OF cr]
        by (simp add: run_def reload_def Let_def)
    next
      case True
      define s where "s = (\<lambda>b. \<lparr>ls_core = c, ls_env = env_for v d (x_prnum (c_x c)) ps,
        ls_code = ps_code ps, ls_pr = x_prnum (c_x c), ls_cache = ps_code ps, ls_pc = x_pc (c_x c),
        ls_budget = b\<rparr>)"
      have co: "coherent c (x_prnum (c_x c)) (ps_code ps)" using Some by (simp add: coherent_def)
      show thesis
      proof (rule starts [of s])
        show "run v False c d b = loop (s b)" for b
          using reload_fresh [OF Some _ cr True, of 255 "ps_code p" d b] ne Cons
          by (simp add: run_def s_def)
        show "b \<noteq> 0 \<Longrightarrow> live c d (s b)" for b
          using wf ready tr cr True co Some by (simp add: live_def loop_inv_def s_def)
        show "twin c k (s b) (s (b + k))" for b k
          using co at_own_pc [of c] by (auto simp: twin_def s_def intro: exI [of _ "x_pc (c_x c)"])
      qed (simp_all add: s_def)
    qed
  qed
qed

text \<open>C3: the budget may be given in chunks, as the deadline does: where a run with part of the budget is
  stopped, resuming it with the rest (the stopped statement is counted again) is the run with all
  of it; and a run that ends within the part ends the same way with all of it.  A \<open>CASE\<close>
  on strings is the one statement this does not hold for: stopped, it has warned already (C18).
  It is said of a well-formed machine whose code is loaded, of at most 255 progs (number 255 is taken for
  the mark of an empty cache, C17), that is not being traced and has not just been, as \<open>run_chunk\<close> makes sure, and of a
  positive part whose sum with the rest is a 32-bit number.\<close>

theorem chunked_budget:
  assumes "core_wf c" "run_ready v c" "length (c_progs c) \<le> 255" "\<not> c_traced c"
    and "chunk \<noteq> 0" "unat chunk + unat rest < 2 ^ 32"
    and run: "run v False c depth chunk = Some (c1, left, e)"
  shows "if e = ExitBudget
    then at_string_case v c1 \<or> run v False c depth (chunk + rest) = run v False c1 depth (1 + rest)
    else run v False c depth (chunk + rest) = Some (c1, left + rest, e)"
  using assms(1-4)
proof (cases rule: run_start [where d = depth])
  case (fails e')
  then show ?thesis using run by simp
next
  case (starts s)
  have "loop (s chunk) = Some (c1, left, e)" using run starts(1) by simp
  from loop_more [OF assms(3) starts(2) [OF assms(5)] starts(3) _ this, of rest] show ?thesis
    using assms(6) starts(1,4,5) by (auto split: if_splits)
qed

lemma sample_code_start: "code_at Whole (ps_code (sample_progs gb)) 0 =
    Some \<lparr>st_op = Ret Done, st_flags = 0, st_a = gb, st_b = gb, st_c = gb\<rparr>"
  by (simp add: code_at_index code_index_def sample_progs_def progs_state_new_def pad_code_def relocate_def
      sample_program_def relocate_stmt_def is_relocated_def operands_def nth_opt_def CODE_WINDOW_def
      op_table_def op_table_v6_def op_table_fte_def op_table_wide_def split: prod.splits)

lemma sample_run_stops: "run Whole False sample_core 0 1 = Some (at_pc sample_core 0, 0, ExitBudget)"
proof -
  have r: "core_progs_at sample_core 0 = Some (sample_progs 64)"
    by (simp add: core_progs_at_def nth_opt_def)
  have t: "c_traced sample_core = False" by (simp add: sample_core_def)
  show ?thesis
    by (simp add: run_def reload_def Let_def r view_code_def view_ok_def loop.simps inner_def sample_code_start
        step_def return_step_def tick_def sat_sub_def exec_default_def t at_pc_def)
qed

theorem chunked_budget_witness:
  "run Whole False sample_core 0 10 = run Whole False (at_pc sample_core 0) 0 10"
proof -
  have "\<not> at_string_case Whole (at_pc sample_core 0)"
    by (simp add: at_string_case_def at_pc_def exec_default_def)
  then show ?thesis
    using chunked_budget [OF sample_core_wf sample_run_ready _ _ _ _ sample_run_stops, of 9]
    by (simp add: sample_core_def)
qed

section \<open>Progs number 255\<close>

text \<open>C17: the cache of the running code starts out as that of progs 0 marked with progs number 255, so a run
  that starts in progs 255 executes the statements of progs 0 (with the globals of progs 255).\<close>

theorem progs_255_runs_progs_0:
  assumes "c_progs c = p # qs" "core_progs_at c 255 = Some ps" "x_prnum (c_x c) = 255"
  shows "run_fast c depth bud =
    loop \<lparr>ls_core = c, ls_env = env_for Whole depth 255 ps, ls_code = ps_code p, ls_pr = 255,
      ls_cache = ps_code p, ls_pc = x_pc (c_x c), ls_budget = bud\<rparr>"
  using assms by (simp add: run_fast_def run_def reload_def Let_def view_code_def view_ok_def env_for_def)

definition sample_crowded :: "unit core" where
  "sample_crowded = sample_core\<lparr>c_progs := sample_progs 64 # replicate 254 (sample_progs 64) @
     [(sample_progs 192)\<lparr>ps_code := [sentinel]\<rparr>], c_x := exec_default\<lparr>x_prnum := 255\<rparr>\<rparr>"

theorem progs_255_runs_progs_0_witness:
  "run_fast sample_crowded 0 1 = Some (at_pc sample_crowded 0, 0, ExitBudget) \<and>
   map_option ps_code (core_progs_at sample_crowded 255) = Some [sentinel]"
proof -
  have p: "core_progs_at sample_crowded 255 = Some ((sample_progs 192)\<lparr>ps_code := [sentinel]\<rparr>)"
    by (simp add: core_progs_at_def nth_opt_def sample_crowded_def nth_append)
  have c: "c_traced sample_crowded = False" "x_pc (c_x sample_crowded) = 0" "x_prnum (c_x sample_crowded) = 255"
    "c_progs sample_crowded = sample_progs 64 # replicate 254 (sample_progs 64) @
       [(sample_progs 192)\<lparr>ps_code := [sentinel]\<rparr>]"
    by (simp_all add: sample_crowded_def sample_core_def exec_default_def)
  have "run_fast sample_crowded 0 1 = Some (at_pc sample_crowded 0, 0, ExitBudget)"
    unfolding progs_255_runs_progs_0 [OF c(4) p c(3)]
    by (simp add: env_for_def c loop.simps inner_def sample_code_start step_def return_step_def
        tick_def sat_sub_def Let_def) (simp add: at_pc_def c)
  then show ?thesis by (simp add: p)
qed

section \<open>A stopped statement that had an effect\<close>

lemma backtrace_warned: "backtrace (c\<lparr>c_warnings_this_call := k\<rparr>) = backtrace c"
proof -
  have "bt_entry (c\<lparr>c_warnings_this_call := k\<rparr>) = bt_entry c"
    by (intro ext) (simp add: bt_entry_def core_progs_at_def)
  then show ?thesis by (simp add: backtrace_def)
qed

text \<open>C18: a \<open>CASE\<close> on strings that the budget stops has already recorded its warning about a bad string
  reference, so the stopped statement did have an effect and records the warning again when it is
  run again.\<close>

theorem stopped_case_has_warned:
  assumes "st_op st = CaseOp Case" "x_switch_kind (c_x c) = SwString" "view_ok (n_view n) (ms (c_mem c))"
    and bad: "rd (n_view n) (c_mem c) (unat (x_switch_ref (c_x c))) = a" "a \<noteq> 0" "str_bytes c a = None"
    and label: "rd (n_view n) (c_mem c) (unat (st_a st)) = 0"
    and room: "sat_add (c_warnings_this_call c) 1 \<le> l_warnings_per_call (g_limits (c_config c))"
  shows "\<exists>d. step n st c pc 1 = Exit d 0 ExitBudget \<and>
    c_warnings d = c_warnings c @ [\<lparr>w_kind = BadString a, w_backtrace = backtrace (at_pc c pc)\<rparr>]"
proof -
  have "str_bytes (at_pc c pc) a = None"
    using bad(3) by (cases "classify a") (simp_all add: str_bytes_def)
  then have "strings_equal (at_pc c pc) a 0 = (core_warn (at_pc c pc) (BadString a), True)"
    using bad(2) by (simp add: strings_equal_def str_or_warn_def)
  moreover have "c_mem (core_warn (at_pc c pc) (BadString a)) = c_mem c"
    by (simp add: core_warn_def Let_def at_pc_def)
  moreover have "c_warnings (core_warn (at_pc c pc) (BadString a)) =
      c_warnings c @ [\<lparr>w_kind = BadString a, w_backtrace = backtrace (at_pc c pc)\<rparr>]"
    using room backtrace_warned [where c = "at_pc c pc"]
    by (simp add: core_warn_def Let_def not_less [symmetric]) (simp add: at_pc_def)
  moreover have "c_warnings (at_pc d q) = c_warnings d" for d :: "'a core" and q by (simp add: at_pc_def)
  ultimately show ?thesis
    using assms(1-3) bad(1) label
    by (simp add: step_def Let_def case_step_def jump_def tick_def sat_sub_def del: at_pc_sel)
qed

definition sample_switch :: "unit core" where
  "sample_switch = sample_core\<lparr>c_mem := mem_set_g sample_mem 100 0x80000001,
     c_x := exec_default\<lparr>x_switch_ref := 100, x_switch_kind := SwString\<rparr>\<rparr>"

theorem stopped_case_has_warned_witness:
  "\<exists>d. step (env_for Whole 0 0 (sample_progs 64))
      \<lparr>st_op = CaseOp Case, st_flags = 0, st_a = 104, st_b = 2, st_c = 0\<rparr> sample_switch 0 1 = Exit d 0 ExitBudget \<and>
    length (c_warnings d) = 1"
proof -
  have m: "mem_g (mem_set_g sample_mem 100 0x80000001) 100 = 0x80000001"
    "mem_g (mem_set_g sample_mem 100 0x80000001) 104 = 0"
    by (simp_all add: mem_g_set_same mem_g_set_other)
  have s: "str_bytes sample_switch 0x80000001 = None"
    by (simp add: str_bytes_def sample_switch_def classify_def TAG_MASK_def TEMP_TAG_def STATIC_TAG_def
        INDEX_MASK_def temp_raw_def sample_core_def strings_new_def nth_opt_def)
  have c: "c_x sample_switch = exec_default\<lparr>x_switch_ref := 100, x_switch_kind := SwString\<rparr>"
    "c_mem sample_switch = mem_set_g sample_mem 100 0x80000001" "c_warnings sample_switch = []"
    "sat_add (c_warnings_this_call sample_switch) 1 \<le> l_warnings_per_call (g_limits (c_config sample_switch))"
    by (simp_all add: sample_switch_def) (simp_all add: sample_core_def sat_add_def config_menu_def
        config_base_def default_limits_def)
  obtain d where "step (env_for Whole 0 0 (sample_progs 64))
      \<lparr>st_op = CaseOp Case, st_flags = 0, st_a = 104, st_b = 2, st_c = 0\<rparr> sample_switch 0 1 = Exit d 0 ExitBudget"
    "c_warnings d = c_warnings sample_switch @
      [\<lparr>w_kind = BadString 0x80000001, w_backtrace = backtrace (at_pc sample_switch 0)\<rparr>]"
    using stopped_case_has_warned [OF _ _ _ _ _ s _ c(4), of
        "\<lparr>st_op = CaseOp Case, st_flags = 0, st_a = 104, st_b = 2, st_c = 0\<rparr>"
        "env_for Whole 0 0 (sample_progs 64)" 0] m
    by (auto simp: c(1,2) rd_def view_ok_def view_ofs_def)
  then show ?thesis by (simp add: c(3))
qed

end
