(* ===== verification/WindowRun.thy ===== *)
theory WindowRun
  imports Resume
begin

text \<open>
  The window (\<open>run_window\<close> of \<open>src/vm/interp.rs\<close>): when every operand of the code lies in it, a run
  whose operand offsets are masked into the window is the run through all of region S
  (\<open>window_run_exact\<close>).  The window only reaches a part of region S by the inline pointer paths, so
  the proof goes through the checked paths, which both runs agree with.
\<close>

section \<open>Operands in the window\<close>

definition fits :: "nat \<Rightarrow> bool" where
  "fits a \<longleftrightarrow> a + 8 \<le> WINDOW_MASK"

lemma fits_ofs:
  assumes "fits a"
  shows "view_ofs v a = a" "k \<le> 8 \<Longrightarrow> view_ofs v (a + k) = a + k"
  using assms view_ofs_window [of a v] view_ofs_window [of "a + k" v] by (simp_all add: fits_def)

lemma fits_word:
  assumes "fits a"
  shows "rd Window m a = rd Whole m a" "rd Window m (a + 4) = rd Whole m (a + 4)" "rd Window m (a + 8) = rd Whole m (a + 8)"
    "wr Window m a x = wr Whole m a x" "wr Window m (a + 4) x = wr Whole m (a + 4) x"
    "wr Window m (a + 8) x = wr Whole m (a + 8) x"
  using fits_ofs [OF assms, where v = Window] by (simp_all add: rd_def wr_def view_ofs_def)

lemma fits_words:
  assumes "fits a"
  shows "rd3 Window m a = rd3 Whole m a" "rd64 Window m a = rd64 Whole m a" "wr64 Window m a w = wr64 Whole m a w"
  using fits_word [OF assms] by (simp_all add: rd3_def rd64_def wr64_def)

lemma fits_word_k: "fits a \<Longrightarrow> k \<le> 2 \<Longrightarrow> rd Window m (a + k * 4) = rd Whole m (a + k * 4)"
  "fits a \<Longrightarrow> k \<le> 2 \<Longrightarrow> wr Window m (a + k * 4) x = wr Whole m (a + k * 4) x"
  using fits_ofs(2) [of a "k * 4" Window] by (simp_all add: rd_def wr_def view_ofs_def)

lemma foldl_upt_cong:
  "(\<And>m k. k < n \<Longrightarrow> f m k = g m k) \<Longrightarrow> foldl f m [0..<n] = foldl g m [0..<n]"
  by (rule foldl_cong) auto

lemma fits_copy:
  assumes "fits a" "fits b" "n \<le> 3"
  shows "wcopy Window m a b n = wcopy Whole m a b n"
  unfolding wcopy_def using assms by (intro foldl_upt_cong) (simp add: fits_word_k)

lemma fits_shapes:
  assumes "fits oa" "fits oc"
  shows "op1 Window g oa oc m = op1 Whole g oa oc m" "vec1 Window g oa oc m = vec1 Whole g oa oc m"
    "fits ob \<Longrightarrow> op2 Window f oa ob oc m = op2 Whole f oa ob oc m"
    "fits ob \<Longrightarrow> vec2 Window f oa ob oc m = vec2 Whole f oa ob oc m"
    "fits ob \<Longrightarrow> wide2 Window f' oa ob oc m = wide2 Whole f' oa ob oc m"
    "fits ob \<Longrightarrow> wide_cmp Window g' oa ob oc m = wide_cmp Whole g' oa ob oc m"
    "fits ob \<Longrightarrow> wide_shift Window h oa ob oc m = wide_shift Whole h oa ob oc m"
  by (simp_all add: op1_def vec1_def op2_def vec2_def wide2_def wide_cmp_def wide_shift_def each3_def
      assms fits_word fits_words)

lemmas fits_data = fits_shapes fits_word fits_words fits_copy

lemma data_in_window:
  assumes "fits oa" "fits ob" "fits oc"
  shows "arith_step Window p1 oa ob oc m = arith_step Whole p1 oa ob oc m"
    "cmp_step Window p2 oa ob oc m = cmp_step Whole p2 oa ob oc m"
    "int_step Window p6 oa ob oc m = int_step Whole p6 oa ob oc m"
    "mixed_step Window p7 oa ob oc m = mixed_step Whole p7 oa ob oc m"
    "double_step Window p11 oa ob oc m = double_step Whole p11 oa ob oc m"
    "bitfield_step Window p12 oa ob oc m = bitfield_step Whole p12 oa ob oc m"
proof -
  show "arith_step Window p1 oa ob oc m = arith_step Whole p1 oa ob oc m"
    by (cases p1) (simp_all add: assms fits_data Let_def)
  show "cmp_step Window p2 oa ob oc m = cmp_step Whole p2 oa ob oc m"
    by (cases p2) (simp_all add: assms fits_data)
  show "int_step Window p6 oa ob oc m = int_step Whole p6 oa ob oc m"
    by (cases p6) (simp_all add: assms fits_data)
  show "mixed_step Window p7 oa ob oc m = mixed_step Whole p7 oa ob oc m"
    by (cases p7) (simp_all add: assms fits_data Let_def)
  show "double_step Window p11 oa ob oc m = double_step Whole p11 oa ob oc m"
    by (cases p11) (simp_all add: assms fits_data)
  show "bitfield_step Window p12 oa ob oc m = bitfield_step Whole p12 oa ob oc m"
    by (cases p12) (simp_all add: assms fits_data)
qed

lemma data_in_window2:
  assumes "fits oa" "fits ob" "fits oc"
  shows "logic_step Window p3 oa ob oc m = logic_step Whole p3 oa ob oc m"
    "uint_step Window p9 oa ob oc m = uint_step Whole p9 oa ob oc m"
    "int64_step Window p10 oa ob oc m = int64_step Whole p10 oa ob oc m"
proof -
  show "logic_step Window p3 oa ob oc m = logic_step Whole p3 oa ob oc m"
    by (cases p3) (simp_all add: assms fits_data)
  show "uint_step Window p9 oa ob oc m = uint_step Whole p9 oa ob oc m"
    by (cases p9) (simp_all add: assms fits_data)
  show "int64_step Window p10 oa ob oc m = int64_step Whole p10 oa ob oc m"
    by (cases p10) (simp_all add: assms fits_data)
qed

lemma stores_in_window:
  assumes "fits oa" "fits ob"
  shows "gstore_step Window p4 oa ob oc m = gstore_step Whole p4 oa ob oc m"
    "compound_step Window p5 oa ob oc m = compound_step Whole p5 oa ob oc m"
proof -
  show "gstore_step Window p4 oa ob oc m = gstore_step Whole p4 oa ob oc m"
    by (cases p4) (simp_all add: assms fits_data)
  show "compound_step Window p5 oa ob oc m = compound_step Whole p5 oa ob oc m"
    by (cases p5) (simp_all add: assms fits_data Let_def)
qed

text \<open>\<open>GLOBALADDRESS\<close> reads only \<open>B\<close> through the view.\<close>

lemma ptrarith_in_window:
  assumes "p \<noteq> GlobalAddress \<Longrightarrow> fits oa" "fits ob" "fits oc"
  shows "ptrarith_step Window gb a p oa ob oc m = ptrarith_step Whole gb a p oa ob oc m"
  using assms by (cases p) (simp_all add: fits_data)

section \<open>The inline pointer paths\<close>

text \<open>With everything in order, the inline paths are the checked ones, for either view.\<close>

definition in_order :: "env \<Rightarrow> 's core \<Rightarrow> bool" where
  "in_order n c \<longleftrightarrow> core_wf c \<and> view_ok (n_view n) (ms (c_mem c)) \<and> ms (c_mem c) \<noteq> []"

lemma in_order_room:
  assumes "in_order n c" "keeps c d"
  shows "view_ok (n_view n) (ms (c_mem d))"
proof -
  have "fixed_core d = fixed_core c" using assms keeps_fixed_core by (auto simp: in_order_def)
  from view_ok_length [OF fixed_core_room [OF this]] show ?thesis using assms(1) by (simp add: in_order_def)
qed

lemma rewound_next:
  "in_order n c \<Longrightarrow> keeps c d \<Longrightarrow> rewound n d pc bud = Next d (pc + 1) bud"
  by (simp add: rewound_def in_order_room)

lemma store_fast_slow:
  assumes c: "in_order n c" and bs: "0 < length bs" "length bs < 2 ^ 32"
  shows "canon (store_fast n c pc bud base off bs) = canon (store_slow n c pc bud base off bs)"
proof (cases "ptr_write_view (n_view n) (c_mem c) (base + off) bs")
  case (Some m)
  then have w: "mem_write (c_mem c) (base + off) bs = Inr m"
    using c bs by (intro ptr_write_view_exact) (auto simp: in_order_def core_wf_def)
  have "keeps c (c\<lparr>c_mem := m\<rparr>)" by (rule keeps_mem_write [OF w])
  then have "rewound n (c\<lparr>c_mem := m\<rparr>) pc bud = Next (c\<lparr>c_mem := m\<rparr>) (pc + 1) bud"
    by (rule rewound_next [OF c])
  then have "canon (rewound n (at_pc (c\<lparr>c_mem := m\<rparr>) pc) pc bud) =
      canon (Next (c\<lparr>c_mem := m\<rparr>) (pc + 1) bud)"
    by (simp only: rewound_stale)
  then show ?thesis using Some w by (simp add: store_fast_def store_slow_def ptr_write_def)
qed (simp add: store_fast_def)

lemma load_fast_slow:
  assumes c: "in_order n c" and w: "0 < w" "\<And>m bs. wr_bytes (n_view n) m oc w bs = wr_bytes Whole m oc w bs"
  shows "canon (load_fast n c pc bud w base off oc) =
    canon (load_slow n c pc bud (w * 4) base off (\<lambda>bs m. wr_bytes Whole m oc w bs))"
proof (cases "ptr_read_view (n_view n) (c_mem c) (w * 4) (base + off)")
  case (Some bs)
  then have r: "mem_read (c_mem c) (w * 4) (base + off) = Some bs"
    using c w(1) by (intro ptr_read_view_exact) (auto simp: in_order_def core_wf_def)
  let ?d = "on_mem (\<lambda>m. wr_bytes Whole m oc w bs) c"
  have "keeps c ?d" by (rule keeps_on_mem) (rule s_only_wr_bytes)
  then have "rewound n ?d pc bud = Next ?d (pc + 1) bud" by (rule rewound_next [OF c])
  then have "canon (rewound n (at_pc ?d pc) pc bud) = canon (Next ?d (pc + 1) bud)"
    by (simp only: rewound_stale)
  then show ?thesis
    using Some r w(2) by (simp add: load_fast_def load_slow_def ptr_read_def)
qed (simp add: load_fast_def)

lemma compoundp_fast_slow:
  assumes c: "in_order n c"
    and ofs: "view_ofs (n_view n) oa = oa" "view_ofs (n_view n) ob = ob" "view_ofs (n_view n) oc = oc"
  shows "canon (compoundp_step n p oa ob oc c pc bud) = canon (compoundp_slow n p oa ob oc c pc bud)"
proof (cases "p \<in> {MulStorePF, DivStorePF, AddStorePF, SubStorePF} \<and>
    compound_store_view (n_view n) (c_mem c) p oa ob oc \<noteq> None")
  case True
  then obtain m where m: "compound_store_view (n_view n) (c_mem c) p oa ob oc = Some m" by auto
  have cm: "c_mem (at_pc c pc) = c_mem c" by simp
  have e: "compound_pointer_store (at_pc c pc) p oa ob oc = ((at_pc c pc)\<lparr>c_mem := m\<rparr>, None)"
    by (rule compound_view_exact) (use c ofs True m in \<open>auto simp: in_order_def core_wf_def\<close>)
  have "keeps c (c\<lparr>c_mem := m\<rparr>)"
    by (rule keeps_core_mem) (rule mem_keeps_compound_view [OF m])
  then have "rewound n (c\<lparr>c_mem := m\<rparr>) pc bud = Next (c\<lparr>c_mem := m\<rparr>) (pc + 1) bud"
    by (rule rewound_next [OF c])
  then have "canon (rewound n (at_pc (c\<lparr>c_mem := m\<rparr>) pc) pc bud) =
      canon (Next (c\<lparr>c_mem := m\<rparr>) (pc + 1) bud)"
    by (simp only: rewound_stale)
  then show ?thesis using True m e by (simp add: compoundp_step_def compoundp_slow_def)
next
  case False
  then show ?thesis by (auto simp: compoundp_step_def)
qed

section \<open>Statements in the window\<close>

definition whole :: "env \<Rightarrow> env" where
  "whole n = n\<lparr>n_view := Whole\<rparr>"

lemma whole_sel [simp]:
  "n_view (whole n) = Whole" "n_trace (whole n) = n_trace n" "n_depth (whole n) = n_depth n"
  "n_prnum (whole n) = n_prnum n" "n_gbase (whole n) = n_gbase n" "n_globals (whole n) = n_globals n"
  by (simp_all add: whole_def)

lemma in_order_whole: "in_order n c \<Longrightarrow> in_order (whole n) c"
  by (simp add: in_order_def view_ok_def)

lemma rewound_whole: "in_order n c \<Longrightarrow> keeps c d \<Longrightarrow> rewound (whole n) d pc bud = rewound n d pc bud"
  using rewound_next [of n c d pc bud] rewound_next [OF in_order_whole, of n c d pc bud] by simp

lemma tick_whole [simp]: "tick (whole n) c pc bud f = tick n c pc bud f"
  by (simp add: tick_def Let_def)

lemma jump_whole [simp]: "jump (whole n) c pc bud t = jump n c pc bud t"
  by (simp add: jump_def)

lemma fits_bytes: "fits oa \<Longrightarrow> w \<le> 3 \<Longrightarrow> word_bytes Window m oa w = word_bytes Whole m oa w"
  unfolding word_bytes_def by (rule arg_cong [where f = concat], rule map_cong) (simp_all add: fits_word_k)

lemma fits_wr_bytes: "fits oc \<Longrightarrow> w \<le> 3 \<Longrightarrow> wr_bytes Window m oc w bs = wr_bytes Whole m oc w bs"
  unfolding wr_bytes_def by (rule foldl_upt_cong) (simp add: fits_word_k)

text \<open>What the statements below assume of the core and the view.\<close>

definition windowed :: "env \<Rightarrow> 's core \<Rightarrow> bool" where
  "windowed n c \<longleftrightarrow> in_order n c \<and> n_view n = Window"

lemma windowedD:
  assumes "windowed n c"
  shows "n_view n = Window" "in_order n c" "in_order (whole n) c"
    "keeps c d \<Longrightarrow> rewound (whole n) d pc bud = rewound n d pc bud"
  using assms in_order_whole rewound_whole by (auto simp: windowed_def)

text \<open>The cores an arm ends with are kept.\<close>

lemma keeps_arms:
  "keeps c (fst (str_or_warn (at_pc c pc) r))" "keeps c (fst (string_compare (at_pc c pc) sp a b))"
  "keeps c (bad_field_access (at_pc c pc) e g)" "keeps c (store_field (at_pc c pc) oa ob oc w)"
  "keeps c (fst (strings_equal (at_pc c pc) a b))"
  by (rule keeps_trans [OF keeps_at_pc], rule keeps_intros)+

lemmas arm_simps = keeps_then_mem keeps_refl keeps_at_pc keeps_arms s_only_set_g s_only_wr_bytes
  s_only_zero_words wr_s_only wcopy_s_only

lemma strcmp_window:
  assumes w: "windowed n c" and f: "fits oa" "fits ob"
  shows "strcmp_step n p oa ob oc c pc bud = strcmp_step (whole n) p oa ob oc c pc bud"
  by (simp add: strcmp_step_def Let_def split_beta windowedD [OF w] fits_word f arm_simps del: at_pc_out)

lemma branch_window:
  assumes w: "windowed n c" and f: "p \<noteq> Goto \<Longrightarrow> fits (unat (st_a st))"
  shows "branch_step n p st c pc bud = branch_step (whole n) p st c pc bud"
  using f by (auto simp: branch_step_def windowedD [OF w] fits_word)

lemma loadf_window:
  assumes w: "windowed n c" and f: "fits oa" "fits ob" "fits oc"
  shows "loadf_step n p oa ob oc c pc bud = loadf_step (whole n) p oa ob oc c pc bud"
proof -
  have "loadf_words p \<le> 3" by (simp add: loadf_words_def)
  note wb = fits_wr_bytes [OF f(3) this]
  show ?thesis
    by (simp add: loadf_step_def Let_def windowedD [OF w] fits_word f wb arm_simps
        split: option.split del: at_pc_out)
qed

lemma keeps_warned: "keeps c d \<Longrightarrow> keeps c (core_warn (at_pc d pc) k)"
  by (rule keeps_trans [OF _ keeps_trans [OF keeps_at_pc keeps_warn]])

lemma address_window:
  assumes w: "windowed n c" and f: "fits oa" "fits ob" "fits oc"
  shows "address_step n oa ob oc c pc bud = address_step (whole n) oa ob oc c pc bud"
  by (simp add: address_step_def Let_def windowedD [OF w] fits_word f arm_simps keeps_warned
      split: option.split del: at_pc_out)

lemma storef_window:
  assumes w: "windowed n c" and f: "fits oa" "fits ob" "fits oc"
  shows "storef_step n p oa ob oc c pc bud = storef_step (whole n) p oa ob oc c pc bud"
proof -
  have "storef_words p \<le> 3" by (simp add: storef_words_def)
  then have "store_field_view Window m (storef_words p) oa ob oc =
      store_field_view Whole m (storef_words p) oa ob oc" for m
    by (simp add: store_field_view_def Let_def fits_word f fits_bytes split: option.split)
  then show ?thesis
    by (simp add: storef_step_def address_window [OF w f] windowedD [OF w] arm_simps split: option.split)
qed

section \<open>Pointers and arrays in the window\<close>

lemma store_slow_window:
  assumes w: "windowed n c"
  shows "store_slow n c pc bud base off bs = store_slow (whole n) c pc bud base off bs"
proof (cases "ptr_write (at_pc c pc) base off bs")
  case (Pair d r)
  have "keeps c d" using keeps_trans [OF keeps_at_pc keeps_ptr_write, of c pc base off bs] Pair by simp
  then show ?thesis
    using Pair by (simp add: store_slow_def windowedD(4) [OF w] fault_def split: option.split)
qed

lemma store_fast_window:
  assumes w: "windowed n c" and bs: "0 < length bs" "length bs < 2 ^ 32"
  shows "canon (store_fast n c pc bud base off bs) = canon (store_fast (whole n) c pc bud base off bs)"
  using store_fast_slow [OF windowedD(2) [OF w] bs] store_fast_slow [OF windowedD(3) [OF w] bs]
    store_slow_window [OF w] by simp

lemma length_word_bytes [simp]: "length (word_bytes v m a k) = k * 4"
  by (simp add: word_bytes_def)

lemma storep_window:
  assumes w: "windowed n c" and f: "fits oa" "fits ob" "fits oc"
  shows "canon (storep_step n p oa ob oc c pc bud) = canon (storep_step (whole n) p oa ob oc c pc bud)"
  by (cases p) (simp_all add: storep_step_def Let_def windowedD(1) [OF w] fits_word fits_words fits_bytes f
      store_slow_window [OF w] store_fast_window [OF w] del: canon.simps)

lemma load_slow_window:
  assumes w: "windowed n c" and p: "\<And>bs m. s_only m (put bs m)"
  shows "load_slow n c pc bud k base off put = load_slow (whole n) c pc bud k base off put"
  by (simp add: load_slow_def Let_def windowedD(4) [OF w] arm_simps p fault_def
      split: sum.split del: at_pc_out)

lemma load_fast_window:
  assumes w: "windowed n c" and f: "fits oc" "0 < k" "k \<le> 3"
  shows "canon (load_fast n c pc bud k base off oc) = canon (load_fast (whole n) c pc bud k base off oc)"
  using load_fast_slow [OF windowedD(2) [OF w] f(2)] load_fast_slow [OF windowedD(3) [OF w] f(2)]
    load_slow_window [OF w s_only_wr_bytes] fits_wr_bytes [OF f(1,3)] windowedD(1) [OF w]
  by simp

lemma load_convert_window:
  assumes w: "windowed n c" and f: "fits oa"
  shows "load_convert n g oa oc c pc bud = load_convert (whole n) g oa oc c pc bud"
  by (simp add: load_convert_def Let_def windowedD [OF w] fits_word f arm_simps fault_def
      split: option.split)

lemma loadp_window:
  assumes w: "windowed n c" and f: "fits oa" "fits ob" "fits oc"
  shows "canon (loadp_step n p oa ob oc c pc bud) = canon (loadp_step (whole n) p oa ob oc c pc bud)"
  by (cases p) (simp_all add: loadp_step_def Let_def windowedD(1) [OF w] fits_word f
      load_slow_window [OF w] load_fast_window [OF w] load_convert_window [OF w] s_only_set_g wide_s_only
      del: canon.simps)

lemma compoundp_window:
  assumes w: "windowed n c" and f: "fits oa" "fits ob" "fits oc"
  shows "canon (compoundp_step n p oa ob oc c pc bud) = canon (compoundp_step (whole n) p oa ob oc c pc bud)"
proof -
  have "compoundp_slow n p oa ob oc c pc bud = compoundp_slow (whole n) p oa ob oc c pc bud"
  proof (cases "compound_pointer_store (at_pc c pc) p oa ob oc")
    case (Pair d r)
    have "keeps c d" using keeps_trans [OF keeps_at_pc keeps_compound, of c pc p oa ob oc] Pair by simp
    then show ?thesis
      using Pair by (simp add: compoundp_slow_def windowedD(4) [OF w] fault_def split: option.split)
  qed
  then show ?thesis
    using compoundp_fast_slow [OF windowedD(2) [OF w]] compoundp_fast_slow [OF windowedD(3) [OF w]]
      fits_ofs(1) [OF f(1)] fits_ofs(1) [OF f(2)] fits_ofs(1) [OF f(3)] by simp
qed

lemma fetch_window:
  assumes w: "windowed n c"
  shows "fetch_step n p st c pc bud = fetch_step (whole n) p st c pc bud"
  by (simp add: fetch_step_def Let_def windowedD [OF w] arm_simps fault_def split: option.split)

text \<open>The globals of the progs, and the slots of the return value and of the first two parameters, end before the
  window does; those slots lie among the globals where there are at least four.\<close>

definition globals_fit :: "u32 \<Rightarrow> u32 \<Rightarrow> bool" where
  "globals_fit gbase globals \<longleftrightarrow> unat gbase + (max 4 (unat globals) + 5) * 4 \<le> WINDOW_MASK"

lemma slots_fit:
  assumes "globals_fit gb ng"
  shows "fits (unat gb + OFS_RETURN)" "fits (unat gb + OFS_PARM0)" "fits (unat gb + OFS_PARM1)"
  using assms by (simp_all add: globals_fit_def fits_def OFS_RETURN_def OFS_PARM0_def OFS_PARM1_def)

lemma index_fits:
  assumes "globals_fit (n_gbase n) (n_globals n)" "in_globals n i w" "0 < w"
  shows "fits (unat (n_gbase n) + nat i * 4)"
proof -
  have "0 \<le> i" "i + int w \<le> int (unat (n_globals n))"
    using assms(2) by (auto simp: in_globals_def)
  then have "nat i + w \<le> unat (n_globals n)" by linarith
  then show ?thesis using assms(1,3) by (simp add: globals_fit_def fits_def)
qed

lemma arrays_window:
  assumes w: "windowed n c" and g: "globals_fit (n_gbase n) (n_globals n)"
  shows "fits (unat (st_b st)) \<Longrightarrow> fits (unat (st_c st)) \<Longrightarrow>
      loada_step n p1 st c pc bud = loada_step (whole n) p1 st c pc bud"
    "fits (unat (st_a st)) \<Longrightarrow> fits (unat (st_c st)) \<Longrightarrow>
      gload_step n p2 st c pc bud = gload_step (whole n) p2 st c pc bud"
    "fits (unat (st_a st)) \<Longrightarrow> fits (unat (st_b st)) \<Longrightarrow>
      gstorep_step n p3 st c pc bud = gstorep_step (whole n) p3 st c pc bud"
proof -
  have ig: "in_globals (whole n) = in_globals n" by (simp add: in_globals_def fun_eq_iff)
  note n = windowedD(1) [OF w]
  have w1: "0 < loada_words p1" "loada_words p1 \<le> 3" by (simp_all add: loada_words_def)
  show "loada_step n p1 st c pc bud = loada_step (whole n) p1 st c pc bud"
    if "fits (unat (st_b st))" "fits (unat (st_c st))"
    using index_fits [OF g _ w1(1)] that
    by (simp add: loada_step_def Let_def n fits_word ig fault_def on_mem_def fits_copy w1)
  show "gload_step n p2 st c pc bud = gload_step (whole n) p2 st c pc bud"
    if "fits (unat (st_a st))" "fits (unat (st_c st))"
    using index_fits [OF g, of _ 3] index_fits [OF g, of _ 1] that
    by (simp add: gload_step_def Let_def n fits_word ig fault_def on_mem_def fits_copy)
  show "gstorep_step n p3 st c pc bud = gstorep_step (whole n) p3 st c pc bud"
    if "fits (unat (st_a st))" "fits (unat (st_b st))"
    using index_fits [OF g, of _ 3] index_fits [OF g, of _ 1] that
    by (simp add: gstorep_step_def Let_def n fits_word ig fault_def on_mem_def fits_copy)
qed

lemma bounds_window:
  assumes w: "windowed n c" and f: "fits (unat (st_a st))"
  shows "bounds_step n p st c pc bud = bounds_step (whole n) p st c pc bud"
  using f by (auto simp: bounds_step_def push_step_def Let_def windowedD [OF w] fits_word fault_def
      arm_simps push_keeps)

lemma rand_window:
  assumes w: "windowed n c"
  shows "rand_step n p oa ob oc c pc bud = rand_step (whole n) p oa ob oc c pc bud"
  by (simp add: rand_step_def windowedD [OF w] rand_word_keeps
      keeps_trans [OF rand_word_keeps keeps_trans [OF rand_word_keeps rand_word_keeps]])

lemma anim_window:
  assumes w: "windowed n c" and f: "fits oa" "fits ob"
  shows "anim_step n p oa ob c pc bud = anim_step (whole n) p oa ob c pc bud"
  by (simp add: anim_step_def Let_def windowedD(1) [OF w] fits_word f)

lemma case_window:
  assumes w: "windowed n c" and f: "fits (unat (x_switch_ref (c_x c)))" "fits (unat (st_a st))"
  shows "case_step n st c pc bud = case_step (whole n) st c pc bud"
proof -
  have "view_ok Window (ms (c_mem (fst (strings_equal (at_pc c pc) a b))))" for a b
    using in_order_room [OF windowedD(2) [OF w] keeps_arms(5)] windowedD(1) [OF w] by metis
  then show ?thesis
    by (cases "x_switch_kind (c_x c)")
      (simp_all add: case_step_def Let_def windowedD(1) [OF w] fits_word fits_words f split_beta view_ok_def
        fault_def del: at_pc_sel)
qed

lemma case_range_window:
  assumes w: "windowed n c" and f: "fits (unat (x_switch_ref (c_x c)))" "fits (unat (st_a st))"
    "fits (unat (st_b st))"
  shows "case_range_step n st c pc bud = case_range_step (whole n) st c pc bud"
  by (cases "x_switch_kind (c_x c)")
    (simp_all add: case_range_step_def Let_def windowedD(1) [OF w] fits_word fits_words f fault_def)

lemma dispatch_whole [simp]: "dispatch (whole n) t c pc b = dispatch n t c pc b"
  by (simp add: dispatch_def fault_def)

lemma hexen2_window:
  assumes w: "n_view n = Window" and g: "globals_fit (n_gbase n) (n_globals n)"
    and f: "is_hexen2_call p \<Longrightarrow> fits (unat (st_b st)) \<and> fits (unat (st_c st))"
  shows "hexen2_args n p st m = hexen2_args (whole n) p st m"
  using f slots_fit [OF g] by (auto simp: hexen2_args_def Let_def w fits_copy)

lemma call_window:
  assumes w: "windowed n c" and g: "globals_fit (n_gbase n) (n_globals n)" and f: "fits (unat (st_a st))"
    "is_hexen2_call (Call p) \<Longrightarrow> fits (unat (st_b st)) \<and> fits (unat (st_c st))"
  shows "call_step n p st c pc bud = call_step (whole n) p st c pc bud"
  using hexen2_window [OF windowedD(1) [OF w] g f(2)]
  by (simp add: call_step_def Let_def windowedD(1) [OF w] fits_word f(1) on_mem_def)

lemma return_window:
  assumes w: "windowed n c" and g: "globals_fit (n_gbase n) (n_globals n)" and f: "fits (unat (st_a st))"
  shows "return_step n st c pc bud = return_step (whole n) st c pc bud"
  using slots_fit(1) [OF g]
  by (simp add: return_step_def Let_def windowedD(1) [OF w] f fits_copy on_mem_def)

lemma data_whole: "(\<And>m. f m = g m) \<Longrightarrow> data_step n f c pc bud = data_step (whole n) g c pc bud"
  by (simp add: data_step_def on_mem_def)

section \<open>The operands of a statement\<close>

text \<open>Which operands of an opcode are offsets reached through the view.\<close>

definition word_operands :: "op \<Rightarrow> bool \<times> bool \<times> bool" where
  "word_operands p =
     (case p of
        Branch b \<Rightarrow> (b \<noteq> Goto, False, False)
      | GStore _ \<Rightarrow> (True, True, False)
      | Compound _ \<Rightarrow> (True, True, False)
      | StrCmp _ \<Rightarrow> (True, True, False)
      | Switch _ \<Rightarrow> (True, False, False)
      | CaseOp q \<Rightarrow> (True, q = CaseRange, False)
      | Call q \<Rightarrow> (True, is_hexen2_call (Call q), is_hexen2_call (Call q))
      | Ret _ \<Rightarrow> (True, False, False)
      | PtrArith q \<Rightarrow> (q \<noteq> GlobalAddress, True, True)
      | LoadArr _ \<Rightarrow> (False, True, True)
      | GLoad _ \<Rightarrow> (True, False, True)
      | GStorePtr _ \<Rightarrow> (True, True, False)
      | Bounds _ \<Rightarrow> (True, False, False)
      | Anim _ \<Rightarrow> (True, True, False)
      | Fetch _ \<Rightarrow> (False, False, False)
      | Rand _ \<Rightarrow> (False, False, False)
      | BadOp _ \<Rightarrow> (False, False, False)
      | _ \<Rightarrow> (True, True, True))"

definition relocated_words :: "op \<Rightarrow> operand \<times> operand \<times> operand \<Rightarrow> bool" where
  "relocated_words p ks =
     (case (word_operands p, ks) of ((a, b, c), (ka, kb, kc)) \<Rightarrow>
        (a \<longrightarrow> is_relocated ka) \<and> (b \<longrightarrow> is_relocated kb) \<and> (c \<longrightarrow> is_relocated kc))"

lemma table_words: "list_all (\<lambda>(p, nm, ks). relocated_words p ks) op_table"
  by (simp add: op_table_def op_table_v6_def op_table_fte_def op_table_wide_def relocated_words_def
      word_operands_def is_relocated_def is_hexen2_call_def)

lemma op_num_real: "p \<noteq> BadOp Bad \<Longrightarrow> p \<noteq> BadOp JumpOutOfRangeOp \<Longrightarrow> op_num p < NUM_REAL"
proof (cases p)
  case (BadOp x)
  then show "p \<noteq> BadOp Bad \<Longrightarrow> p \<noteq> BadOp JumpOutOfRangeOp \<Longrightarrow> op_num p < NUM_REAL"
    by (cases x) (simp_all add: NUM_REAL_def)
qed (rename_tac x, case_tac x, simp_all add: NUM_REAL_def)+

lemma operands_words: "relocated_words p (operands p)"
proof (cases "p = BadOp Bad \<or> p = BadOp JumpOutOfRangeOp")
  case True
  then show ?thesis by (auto simp: relocated_words_def word_operands_def split: prod.splits)
next
  case False
  have "op_num p < NUM_REAL" using op_num_real False by blast
  then have "op_table ! op_num p \<in> set op_table" "fst (op_table ! op_num p) = p"
    using ALL_ops_num [of p] by (simp_all add: ALL_ops_def)
  then have "relocated_words p (snd (snd (op_table ! op_num p)))"
    using table_words by (auto simp: list_all_iff)
  then show ?thesis using False by (simp add: operands_def)
qed

definition stmt_fits :: "stmt \<Rightarrow> bool" where
  "stmt_fits st \<longleftrightarrow>
     (case operands (st_op st) of (ka, kb, kc) \<Rightarrow>
        (is_relocated ka \<longrightarrow> fits (unat (st_a st))) \<and> (is_relocated kb \<longrightarrow> fits (unat (st_b st))) \<and>
        (is_relocated kc \<longrightarrow> fits (unat (st_c st))))"

lemma words_fit:
  assumes "stmt_fits st" "word_operands (st_op st) = (a, b, c)"
  shows "a \<Longrightarrow> fits (unat (st_a st))" "b \<Longrightarrow> fits (unat (st_b st))" "c \<Longrightarrow> fits (unat (st_c st))"
  using operands_words [of "st_op st"] assms
  by (auto simp: stmt_fits_def relocated_words_def split: prod.splits)

lemma step_window:
  assumes w: "windowed n c" and g: "globals_fit (n_gbase n) (n_globals n)"
    and r: "fits (unat (x_switch_ref (c_x c)))" and st: "stmt_fits st"
  shows "canon (step n st c pc bud) = canon (step (whole n) st c pc bud)"
proof -
  obtain a b d where wo: "word_operands (st_op st) = (a, b, d)" by (cases "word_operands (st_op st)")
  note f = words_fit [OF st wo]
  note n = windowedD(1) [OF w]
  note wo = wo [unfolded word_operands_def]
  show ?thesis
  proof (cases "st_op st")
    case (CaseOp q)
    then have "canon (case_step n st c pc bud) = canon (case_step (whole n) st c pc bud)"
      "q = CaseRange \<Longrightarrow> canon (case_range_step n st c pc bud) = canon (case_range_step (whole n) st c pc bud)"
      using case_window [OF w r, of st pc bud] case_range_window [OF w r, of st pc bud] f wo by auto
    then show ?thesis by (cases q) (simp_all add: step_def Let_def CaseOp)
  next
    case (Branch q)
    then show ?thesis using branch_window [OF w, of q st pc bud] f wo by (simp add: step_def Let_def)
  next
    case (BadOp q)
    then show ?thesis by (simp add: step_def Let_def bad_step_def)
  next
    case (Switch q)
    then show ?thesis by (simp add: step_def Let_def switch_step_def)
  next
    case (Ret q)
    then show ?thesis using return_window [OF w g, of st pc bud] f wo by (simp add: step_def Let_def)
  next
    case (Call q)
    then show ?thesis using call_window [OF w g, of st q pc bud] f wo by (auto simp: step_def Let_def)
  next
    case (PtrArith q)
    then show ?thesis
      using f wo by (auto simp: step_def Let_def n intro!: arg_cong [where f = canon] data_whole ptrarith_in_window)
  next
    case (Fetch q)
    then show ?thesis using fetch_window [OF w, of q st pc bud] by (simp add: step_def Let_def)
  next
    case (Rand q)
    then show ?thesis using rand_window [OF w] by (simp add: step_def Let_def)
  qed (use f wo in \<open>simp_all add: step_def Let_def n strcmp_window [OF w] loadf_window [OF w]
      storef_window [OF w] storep_window [OF w] loadp_window [OF w] compoundp_window [OF w]
      arrays_window [OF w g] bounds_window [OF w] anim_window [OF w] data_whole [OF data_in_window(1)]
      data_whole [OF data_in_window(2)] data_whole [OF data_in_window(3)] data_whole [OF data_in_window(4)]
      data_whole [OF data_in_window(5)] data_whole [OF data_in_window(6)] data_whole [OF data_in_window2(1)]
      data_whole [OF data_in_window2(2)] data_whole [OF data_in_window2(3)]
      data_whole [OF stores_in_window(1)] data_whole [OF stores_in_window(2)] del: canon.simps\<close>)
qed

end
