(* ===== verification/WindowLoop.thy ===== *)
theory WindowLoop
  imports WindowRun
begin

text \<open>
  The loop in the window (\<open>run_window\<close> of \<open>src/vm/interp.rs\<close>).  \<open>WindowRun\<close> compares single
  statements; this theory follows the statement counter, the switch references and the resume points
  through jumps, calls and returns, and compares whole runs (\<open>window_run_exact\<close>).
\<close>

section \<open>Jump targets\<close>

definition targets :: "stmt \<Rightarrow> u32 list" where
  "targets st =
     (case st_op st of
        Branch p \<Rightarrow> if p = Goto then [st_a st] else [st_b st]
      | Switch _ \<Rightarrow> [st_b st]
      | CaseOp p \<Rightarrow> if p = CaseRange then [st_c st] else [st_b st]
      | _ \<Rightarrow> [])"

definition jump_operands :: "op \<Rightarrow> operand \<times> operand \<times> operand \<Rightarrow> bool" where
  "jump_operands p ks =
     (case ks of (ka, kb, kc) \<Rightarrow>
        (case p of
           Branch b \<Rightarrow> if b = Goto then ka = Jump else kb = Jump
         | Switch _ \<Rightarrow> kb = Jump
         | CaseOp q \<Rightarrow> if q = CaseRange then kc = Jump else kb = Jump
         | _ \<Rightarrow> True))"

lemma table_jumps: "list_all (\<lambda>(p, nm, ks). jump_operands p ks) op_table"
  by (simp add: op_table_def op_table_v6_def op_table_fte_def op_table_wide_def jump_operands_def)

lemma operands_jumps: "jump_operands p (operands p)"
proof (cases "p = BadOp Bad \<or> p = BadOp JumpOutOfRangeOp")
  case True
  then show ?thesis by (auto simp: jump_operands_def split: prod.splits)
next
  case False
  have "op_num p < NUM_REAL" using op_num_real False by blast
  then have "op_table ! op_num p \<in> set op_table" "fst (op_table ! op_num p) = p"
    using ALL_ops_num [of p] by (simp_all add: ALL_ops_def)
  then have "jump_operands p (snd (snd (op_table ! op_num p)))"
    using table_jumps by (auto simp: list_all_iff)
  then show ?thesis using False by (simp add: operands_def)
qed

definition stmt_jumps :: "stmt \<Rightarrow> bool" where
  "stmt_jumps st \<longleftrightarrow>
     (case operands (st_op st) of (ka, kb, kc) \<Rightarrow>
        (ka = Jump \<longrightarrow> unat (st_a st) < CODE_WINDOW) \<and> (kb = Jump \<longrightarrow> unat (st_b st) < CODE_WINDOW) \<and>
        (kc = Jump \<longrightarrow> unat (st_c st) < CODE_WINDOW))"

lemma targets_in_code: "stmt_jumps st \<Longrightarrow> t \<in> set (targets st) \<Longrightarrow> unat t < CODE_WINDOW"
  using operands_jumps [of "st_op st"]
  by (auto simp: stmt_jumps_def jump_operands_def targets_def split: prod.splits op.splits if_splits)

text \<open>A statement that spends no budget goes to the next one; the others go to their targets.\<close>

lemma free_step:
  assumes "\<forall>p. st_op st \<noteq> Branch p" "\<forall>p. st_op st \<noteq> Switch p" "\<forall>p. st_op st \<noteq> CaseOp p"
    "\<forall>p. st_op st \<noteq> Call p" "\<forall>p. st_op st \<noteq> Ret p"
  shows "free (step n st c pc)"
  using assms unfolding step_def Let_def by (cases "st_op st") simp_all

lemma free_budget: "free f \<Longrightarrow> f b = Next d q b' \<Longrightarrow> b' = b" "free f \<Longrightarrow> f b = Reload d b' \<Longrightarrow> b' = b"
  by (metis free_def budget_of.simps)+

lemma tick_Next: "tick n c pc b f = Next d q b' \<Longrightarrow> f (sat_sub b 1) = Next d q b'"
  by (simp add: tick_def Let_def split: if_splits)

lemma jump_Next: "jump n c pc b t = Next d q b' \<Longrightarrow> q = t"
  unfolding jump_def by (drule tick_Next) simp

lemma fault_not_moving [simp]: "fault c pc b k \<noteq> Next d q b'" "fault c pc b k \<noteq> Reload d b'"
  by (simp_all add: fault_def)

lemma case_targets:
  "case_step n st c pc b = Next d q b' \<Longrightarrow> q \<in> {pc + 1, st_b st}"
  "case_range_step n st c pc b = Next d q b' \<Longrightarrow> q \<in> {pc + 1, st_c st}"
  by (auto simp: case_step_def case_range_step_def Let_def split_beta dest: jump_Next
      split: switch_kind.splits if_splits)

lemma dispatch_not_Next [simp]: "dispatch n t c pc b \<noteq> Next d q b'"
  by (simp add: dispatch_def split: option.split callee.split prod.split)

lemma step_target:
  assumes r: "step n st c pc b = Next d q b'"
    and ok: "view_ok (n_view n) (ms (c_mem c))"
  shows "q = pc + 1 \<or> q \<in> set (targets st)"
proof (cases "free (step n st c pc)")
  case True
  then have "b' = b" by (rule free_budget) (rule r)
  then show ?thesis using step_ok [OF ok, where pc = pc and bud = b and st = st] r by simp
next
  case False
  then consider (branch) p where "st_op st = Branch p" | (switch) p where "st_op st = Switch p"
    | (case_op) p where "st_op st = CaseOp p" | (call) p where "st_op st = Call p"
    | (ret) p where "st_op st = Ret p"
    using free_step by blast
  then show ?thesis
  proof cases
    case branch
    then show ?thesis
      using r by (auto simp: step_def Let_def branch_step_def targets_def dest: jump_Next tick_Next split: if_splits)
  next
    case switch
    then show ?thesis using r by (auto simp: step_def Let_def switch_step_def targets_def dest: jump_Next)
  next
    case (case_op p)
    then show ?thesis
      using r case_targets [of n st c pc b d q b'] by (cases p) (auto simp: step_def Let_def targets_def)
  next
    case call
    then show ?thesis
      using r by (auto simp: step_def Let_def call_step_def dest: tick_Next)
  next
    case ret
    then show ?thesis
      using r by (auto simp: step_def Let_def return_step_def dest!: tick_Next split: if_splits)
  qed
qed

section \<open>Calls and returns\<close>

text \<open>A statement that leaves for another function entered it or left its own.\<close>

lemma step_reload:
  assumes r: "step n st c pc b = Reload d b'"
    and ok: "view_ok (n_view n) (ms (c_mem c))"
  obtains (called) c0 pr i where "enter c0 pr i (pc + 1) = (d, None)" "c_x c0 = c_x (at_pc c pc)"
      "c_frames c0 = c_frames c" "c_progs c0 = c_progs c"
  | (left) c0 where "d = leave c0" "c_x c0 = c_x (at_pc c pc)" "c_frames c0 = c_frames c"
proof (cases "free (step n st c pc)")
  case True
  then have "b' = b" by (rule free_budget) (rule r)
  then show thesis using step_ok [OF ok, where pc = pc and bud = b and st = st] r by simp
next
  case False
  then consider (branch) p where "st_op st = Branch p" | (switch) p where "st_op st = Switch p"
    | (case_op) p where "st_op st = CaseOp p" | (call) p where "st_op st = Call p"
    | (ret) p where "st_op st = Ret p"
    using free_step by blast
  then show thesis
  proof cases
    case branch
    then show thesis using r by (auto simp: step_def Let_def branch_step_def jump_def tick_def split: if_splits)
  next
    case switch
    then show thesis using r by (auto simp: step_def Let_def switch_step_def jump_def tick_def split: if_splits)
  next
    case (case_op p)
    then show thesis
      using r by (cases p) (auto simp: step_def Let_def case_step_def case_range_step_def jump_def tick_def split_beta
          split: switch_kind.splits if_splits)
  next
    case (call p)
    then obtain c0 t b1 where d: "dispatch n t c0 pc b1 = Reload d b'"
      "c_x c0 = c_x c" "c_frames c0 = c_frames c" "c_progs c0 = c_progs c"
      using r by (auto simp: step_def Let_def call_step_def tick_def on_mem_def split: if_splits)
    show thesis
    proof (cases "enter (at_pc c0 pc) (func_progs t) (func_index t) (pc + 1)")
      case (Pair e k)
      then have "e = d \<and> k = None"
        using d(1) by (simp add: dispatch_def split: option.splits callee.splits)
      then show thesis
        using called [of "at_pc c0 pc" "func_progs t" "func_index t"] Pair d(2-4) by (simp add: at_pc_def)
    qed
  next
    case ret
    then show thesis
      using r left [of "at_pc (on_mem (\<lambda>m. wcopy (n_view n) m (unat (st_a st))
                 (unat (n_gbase n) + OFS_RETURN) 3) c) pc"]
      by (auto simp: step_def Let_def return_step_def tick_def on_mem_def at_pc_def split: if_splits)
  qed
qed

section \<open>Where a run in the window is\<close>

text \<open>What the loader and \<open>window_fits\<close> give of every progs, and what stays true of the call stack.\<close>

definition code_fits :: "progs_state \<Rightarrow> bool" where
  "code_fits ps \<longleftrightarrow> globals_fit (ps_gbase ps) (ps_num_globals ps) \<and>
     (\<forall>st \<in> set (ps_code ps). stmt_fits st \<and> stmt_jumps st) \<and>
     (\<forall>f. Some f \<in> set (ps_funcs ps) \<longrightarrow> unat (q_entry f) < CODE_WINDOW)"

definition progs_fit :: "'s core \<Rightarrow> bool" where
  "progs_fit c \<longleftrightarrow> (\<forall>ps \<in> set (c_progs c). code_fits ps)"

definition stack_fits :: "'s core \<Rightarrow> bool" where
  "stack_fits c \<longleftrightarrow> fits (unat (x_switch_ref (c_x c))) \<and>
     (\<forall>f \<in> set (c_frames c). fits (unat (fr_switch_ref f)) \<and> unat (fr_resume_pc f) < CODE_WINDOW)"

lemma fits_zero [simp]: "fits 0" "fits (unat (0 :: u32))"
  by (simp_all add: fits_def WINDOW_MASK_def)

lemma progs_fit_at: "progs_fit c \<Longrightarrow> core_progs_at c pr = Some ps \<Longrightarrow> code_fits ps"
  by (auto simp: progs_fit_def core_progs_at_def nth_opt_Some)

lemma enter_fits:
  assumes e: "enter c pr i rpc = (d, None)" and c: "stack_fits c" "progs_fit c"
    and r: "unat rpc < CODE_WINDOW"
  shows "stack_fits d \<and> unat (x_pc (c_x d)) < CODE_WINDOW"
  using e
proof (rule enter_ok)
  fix ps f c0 t m
  assume "core_progs_at c pr = Some ps" "nth_opt (ps_funcs ps) (unat i) = Some (Some f)"
  then have "unat (q_entry f) < CODE_WINDOW"
    using progs_fit_at [OF c(2)] by (force simp: code_fits_def nth_opt_Some in_set_conv_nth)
  moreover assume "d = c0\<lparr>c_mem := param_copies_into m (func_copies ps f),
      c_frames := c_frames c @ [\<lparr>fr_resume_pc = rpc, fr_func = x_func (c_x c),
        fr_prnum = x_prnum (c_x c), fr_pushed = x_pushed (c_x c),
        fr_switch_ref = x_switch_ref (c_x c), fr_switch_kind = x_switch_kind (c_x c),
        fr_locals_at = t, fr_locals_addr = x_locals_addr (c_x c),
        fr_locals_words = x_locals_words (c_x c)\<rparr>],
      c_x := \<lparr>x_pc = q_entry f, x_func = i, x_prnum = pr, x_pushed = 0,
        x_ls_top = t + q_locals_words f, x_switch_ref = 0, x_switch_kind = SwFloat,
        x_locals_addr = q_locals_addr f, x_locals_words = q_locals_words f\<rparr>\<rparr>"
  ultimately show ?thesis using c(1) r by (simp add: stack_fits_def)
qed

lemma leave_fits:
  assumes c: "stack_fits c" "unat (x_pc (c_x c)) < CODE_WINDOW"
  shows "stack_fits (leave c) \<and> unat (x_pc (c_x (leave c))) < CODE_WINDOW"
proof (cases "c_frames c = []")
  case True
  then show ?thesis using c by (simp add: leave_def restore_locals_def Let_def stack_fits_def)
next
  case False
  then have "last (c_frames c) \<in> set (c_frames c)" by simp
  moreover have "x_switch_ref (c_x (leave c)) \<in> {0, fr_switch_ref (last (c_frames c))}"
    "x_pc (c_x (leave c)) = fr_resume_pc (last (c_frames c))"
    using False by (simp_all add: leave_def Let_def pop_frame_def restore_locals_def)
  ultimately show ?thesis using c(1) by (auto simp: stack_fits_def dest: in_set_butlastD)
qed

lemma stack_fits_cong: "c_x c = c_x (at_pc d pc) \<Longrightarrow> c_frames c = c_frames d \<Longrightarrow> stack_fits c = stack_fits d"
  by (simp add: stack_fits_def at_pc_def)

lemma step_reload_fits:
  assumes r: "step n st c pc b = Reload d b'"
    and ok: "view_ok (n_view n) (ms (c_mem c))"
    and c: "stack_fits c" "progs_fit c" "unat pc < CODE_WINDOW" "unat (pc + 1) < CODE_WINDOW"
  shows "stack_fits d \<and> unat (x_pc (c_x d)) < CODE_WINDOW"
  using r ok
proof (cases rule: step_reload)
  case (called c0 pr i)
  have "progs_fit c0" using c(2) called(4) by (simp add: progs_fit_def)
  then show ?thesis using enter_fits [OF called(1)] c stack_fits_cong [OF called(2,3)] by blast
next
  case (left c0)
  have "x_pc (c_x c0) = pc" using left(2) by (simp add: at_pc_def)
  then show ?thesis using leave_fits [of c0] c(1,3) stack_fits_cong [OF left(2,3)] left(1) by simp
qed

lemma step_next_fits:
  assumes r: "step n st c pc b = Next d q b'" and st: "stmt_fits st" and c: "stack_fits c"
  shows "stack_fits d"
proof -
  define sr where "sr = (if \<exists>p. st_op st = Switch p then st_a st else x_switch_ref (c_x c))"
  have "fits (unat sr)"
  proof (cases "\<exists>p. st_op st = Switch p")
    case True
    then obtain p where p: "st_op st = Switch p" by blast
    then show ?thesis using words_fit(1) [OF st, where a = True and b = False and c = False] True by (simp add: word_operands_def sr_def)
  next
    case False
    then show ?thesis using c by (simp add: stack_fits_def sr_def)
  qed
  moreover have "same_function sr c d"
    using step_stays [of sr st c n pc b] r by (auto simp: stays_def sr_def)
  ultimately show ?thesis using c by (auto simp: same_function_def stack_fits_def)
qed

section \<open>The loop in the window and the loop through all of region S\<close>

definition settled :: "'s core \<Rightarrow> 's lstate \<Rightarrow> bool" where
  "settled c0 s \<longleftrightarrow> n_view (ls_env s) = Window \<and> progs_fit c0 \<and> stack_fits (ls_core s) \<and>
     unat (ls_pc s) < CODE_WINDOW"

definition mirror :: "'s core \<Rightarrow> 's lstate \<Rightarrow> 's lstate \<Rightarrow> bool" where
  "mirror c0 s s' \<longleftrightarrow> (\<exists>q. ls_core s' = at_pc (ls_core s) q) \<and> ls_env s' = whole (ls_env s) \<and>
     ls_code s' = ls_code s \<and> ls_pc s' = ls_pc s \<and> ls_budget s' = ls_budget s \<and>
     coherent c0 (ls_pr s') (ls_cache s')"

lemma whole_env [simp]: "whole (env_for v d pr ps) = env_for Whole d pr ps"
  by (simp add: whole_def env_for_def)

lemma code_ready_whole: "code_ready v code \<Longrightarrow> code_ready Whole code"
  by (simp add: code_ready_def)

lemma mirror_step:
  assumes s: "live c0 d s" "settled c0 s" and m: "mirror c0 s s'"
    and st: "st \<in> set (ls_code s)"
  shows "canon (step (whole (ls_env s)) st (ls_core s') (ls_pc s) (ls_budget s)) =
    canon (step (ls_env s) st (ls_core s) (ls_pc s) (ls_budget s))" "stmt_fits st" "stmt_jumps st"
proof -
  from s(1) obtain pr ps where ps: "core_progs_at c0 pr = Some ps" "ls_code s = ps_code ps"
    "ls_env s = env_for (n_view (ls_env s)) d pr ps" by (auto simp: live_def)
  have cf: "code_fits ps" using progs_fit_at ps(1) s(2) by (auto simp: settled_def)
  then show f: "stmt_fits st" "stmt_jumps st" using st ps(2) by (simp_all add: code_fits_def)
  have v: "view_ok Window (ms (c_mem (ls_core s)))" "core_wf (ls_core s)"
    using s by (auto simp: live_def loop_inv_def settled_def)
  then have "windowed (ls_env s) (ls_core s)"
    using s(2) by (auto simp: windowed_def in_order_def settled_def view_ok_def WINDOW_def)
  moreover have "globals_fit (n_gbase (ls_env s)) (n_globals (ls_env s))"
    using cf ps(3) by (metis code_fits_def env_for_def env.select_convs(5,6))
  ultimately have "canon (step (ls_env s) st (ls_core s) (ls_pc s) (ls_budget s)) =
      canon (step (whole (ls_env s)) st (ls_core s) (ls_pc s) (ls_budget s))"
    using s(2) f(1) by (intro step_window) (simp_all add: settled_def stack_fits_def)
  moreover obtain q where "ls_core s' = at_pc (ls_core s) q" using m by (auto simp: mirror_def)
  ultimately show "canon (step (whole (ls_env s)) st (ls_core s') (ls_pc s) (ls_budget s)) =
      canon (step (ls_env s) st (ls_core s) (ls_pc s) (ls_budget s))"
    by (simp only: step_stale_pc)
qed

lemma reload_mirror:
  assumes p: "c_progs c = c_progs c0" and co: "coherent c0 pr ca" "coherent c0 pr' ca'"
    and c: "run_ready Window c0" "stack_fits c" "unat (x_pc (c_x c)) < CODE_WINDOW" "progs_fit c0"
    and v: "view_ok Window (ms (c_mem c))"
  shows "case reload Window False d pr ca c b of
      Inl r \<Rightarrow> reload Whole False d pr' ca' c b = Inl r
    | Inr t \<Rightarrow> settled c0 t \<and> (\<exists>t'. reload Whole False d pr' ca' c b = Inr t' \<and> mirror c0 t t')"
proof (cases "core_progs_at c (x_prnum (c_x c))")
  case None
  then show ?thesis by (simp add: reload_def Let_def)
next
  case (Some ps)
  then have ps: "core_progs_at c0 (x_prnum (c_x c)) = Some ps" using p by (simp add: core_progs_at_def)
  have ready: "code_ready Window (ps_code ps)"
    using c(1) ps by (auto simp: run_ready_def core_progs_at_def nth_opt_Some)
  have ca: "pr = x_prnum (c_x c) \<Longrightarrow> ca = ps_code ps" "pr' = x_prnum (c_x c) \<Longrightarrow> ca' = ps_code ps"
    using co ps by (auto simp: coherent_def)
  have "view_ok Whole (ms (c_mem c))" by (simp add: view_ok_def)
  have r: "reload Window False d pr ca c b = Inr \<lparr>ls_core = c, ls_env = env_for Window d (x_prnum (c_x c)) ps,
      ls_code = ps_code ps, ls_pr = x_prnum (c_x c), ls_cache = ps_code ps, ls_pc = x_pc (c_x c), ls_budget = b\<rparr>"
    by (rule reload_fresh [OF Some ca(1) ready v])
  have r': "reload Whole False d pr' ca' c b = Inr \<lparr>ls_core = c, ls_env = env_for Whole d (x_prnum (c_x c)) ps,
      ls_code = ps_code ps, ls_pr = x_prnum (c_x c), ls_cache = ps_code ps, ls_pc = x_pc (c_x c), ls_budget = b\<rparr>"
    by (rule reload_fresh [OF Some ca(2) code_ready_whole [OF ready]]) (simp_all add: view_ok_def)
  have "c = at_pc c (x_pc (c_x c))" by (simp add: at_pc_def)
  then show ?thesis
    unfolding r r' using c(2-4) ps by (auto simp: settled_def mirror_def coherent_def)
qed

lemma inner_mirror:
  assumes s: "live c0 d s" "settled c0 s" and m: "mirror c0 s s'"
  shows "case inner s of
      Inl r \<Rightarrow> inner s' = Inl r
    | Inr t \<Rightarrow> live c0 d t \<and> settled c0 t \<and> (\<exists>t'. inner s' = Inr t' \<and> mirror c0 t t')"
proof -
  define n c pc b where "n = ls_env s" and "c = ls_core s" and "pc = ls_pc s" and "b = ls_budget s"
  note defs = n_def c_def pc_def b_def
  from s(1) obtain pr ps where env: "ls_env s = env_for (n_view (ls_env s)) d pr ps" by (auto simp: live_def)
  have view: "n_view n = Window" "unat pc < CODE_WINDOW" "progs_fit c0" "stack_fits c"
    using s(2) by (simp_all add: settled_def defs)
  from s(1) have inv: "loop_inv c0 s" and co: "coherent c0 (ls_pr s) (ls_cache s)"
    and ready: "run_ready Window c0" "code_ready Window (ls_code s)" and b0: "b \<noteq> 0"
    and wf: "core_wf c" and vok: "view_ok Window (ms (c_mem c))"
    using view(1) by (auto simp: live_def loop_inv_def defs)
  have progs: "c_progs c = c_progs c0" using loop_inv_progs [OF inv] by (simp add: c_def)
  have len: "length (ls_code s) = CODE_WINDOW" using ready(2) by (simp add: code_ready_def)
  then have same: "code_at Whole (ls_code s) pc = code_at Window (ls_code s) pc"
    using view(2) by (simp add: code_at_index code_index_def)
  obtain st where st: "code_at Window (ls_code s) pc = Some st" "st \<in> set (ls_code s)"
    using view(2) len by (auto simp: code_at_index code_index_def nth_opt_def)
  have env': "ls_env s' = env_for Whole d pr ps" using m env by (metis mirror_def whole_env)
  define r r' where "r = step n st c pc b" and "r' = step (whole n) st (ls_core s') pc b"
  note ms = mirror_step [OF s m st(2), folded defs, folded r_def r'_def]
  have i: "inner s = (case r of Next c' pc' b' \<Rightarrow> Inr (s\<lparr>ls_core := c', ls_pc := pc', ls_budget := b'\<rparr>)
      | Reload c' b' \<Rightarrow> reload Window False d (ls_pr s) (ls_cache s) c' b' | Exit c' b' e \<Rightarrow> Inl (c', b', e))"
    using inner_untraced [OF env] st view(1) by (simp add: r_def defs split: outcome.split)
  have i': "inner s' = (case r' of Next c' pc' b' \<Rightarrow> Inr (s'\<lparr>ls_core := c', ls_pc := pc', ls_budget := b'\<rparr>)
      | Reload c' b' \<Rightarrow> reload Whole False d (ls_pr s') (ls_cache s') c' b' | Exit c' b' e \<Rightarrow> Inl (c', b', e))"
    using inner_untraced [OF env'] st m same env' unfolding r'_def mirror_def defs by (simp split: outcome.split)
  have co': "coherent c0 (ls_pr s') (ls_cache s')" using m by (simp add: mirror_def)
  have ok: "outcome_ok c pc b r" using live_step_ok [OF s(1)] by (simp add: r_def defs)
  have alive: "alive r" using step_counts [of b n st c pc] b0 by (simp add: counts_def r_def)
  have vn: "view_ok (n_view n) (ms (c_mem c))" using vok view(1) by simp
  then have order: "in_order n c"
    using wf vok by (cases "ms (c_mem c)") (simp_all add: in_order_def view_ok_def WINDOW_def)
  have next_pc: "unat (pc + 1) < CODE_WINDOW" if "st_op st \<noteq> BadOp JumpOutOfRangeOp"
  proof -
    have "code_index Window (pc + 1) = unat pc + 1" "unat pc + 1 < CODE_WINDOW"
      using code_index_next [OF ready(2) st(1) that] view(2) len by (simp_all add: code_index_def)
    then show ?thesis by (simp add: unat_word_ariths CODE_WINDOW_def)
  qed
  have real: "st_op st \<noteq> BadOp JumpOutOfRangeOp" if "\<forall>c b e. r \<noteq> Exit c b e"
    using that by (auto simp: r_def step_def Let_def bad_step_def fault_def)
  show ?thesis
  proof (cases r)
    case (Exit c1 b1 e)
    then show ?thesis using i i' ms(1) by (simp add: canon_Exit)
  next
    case (Reload c1 b1)
    have k: "keeps c c1" "b1 \<noteq> 0" using ok alive Reload by simp_all
    have f: "stack_fits c1" "unat (x_pc (c_x c1)) < CODE_WINDOW"
      using step_reload_fits [OF Reload [unfolded r_def] vn view(4)] view(2,3) progs next_pc real Reload
      by (auto simp: progs_fit_def)
    have "view_ok Window (ms (c_mem c1))"
      using in_order_room [OF order k(1)] view(1) by simp
    note rm = reload_mirror [OF live_keeps(2) [OF s(1) k(1) [unfolded c_def]] co co' ready(1) f view(3) this,
        where d = d and b = b1]
    have is1: "inner s = reload Window False d (ls_pr s) (ls_cache s) c1 b1" using i Reload by simp
    moreover have "inner s' = reload Whole False d (ls_pr s') (ls_cache s') c1 b1"
      using i' ms(1) Reload by (simp add: canon_Reload)
    ultimately show ?thesis
      using rm live_reload [OF s(1) k(1) [unfolded c_def] k(2)] view(1)
      by (auto simp: n_def split: sum.splits)
  next
    case (Next c1 pc1 b1)
    have k: "keeps c c1" "b1 \<noteq> 0" using ok alive Next by simp_all
    obtain c2 where c2: "r' = Next c2 pc1 b1" "at_pc c2 pc1 = at_pc c1 pc1"
      using ms(1) Next by (auto simp: canon_Next)
    let ?t = "s\<lparr>ls_core := c1, ls_pc := pc1, ls_budget := b1\<rparr>"
    have is1: "inner s = Inr ?t" using i Next by simp
    have "stack_fits c1" using step_next_fits [OF Next [unfolded r_def] ms(2) view(4)] .
    moreover have "unat pc1 < CODE_WINDOW"
      using step_target [OF Next [unfolded r_def] vn] next_pc real Next targets_in_code [OF ms(3)] by auto
    ultimately have "settled c0 ?t" using view(1,3) by (simp add: settled_def n_def)
    moreover have "same_function (st_a st) c c1" using step_stays [of "st_a st" st c n pc b] Next
      by (auto simp: stays_def r_def)
    then have "live c0 d ?t"
      using inner_cases [OF inv] is1 s(1) k(2) live_keeps(1) [OF s(1)] k(1)
      by (auto simp: live_def same_function_def defs)
    moreover have "mirror c0 ?t (s'\<lparr>ls_core := c2, ls_pc := pc1, ls_budget := b1\<rparr>)"
      using at_pc_eq [OF c2(2)] m by (auto simp: mirror_def)
    ultimately show ?thesis using is1 i' c2(1) by simp
  qed
qed

lemma loop_mirror: "live c0 d s \<Longrightarrow> settled c0 s \<Longrightarrow> mirror c0 s s' \<Longrightarrow> loop s' = loop s"
proof (induction "loop_measure s" arbitrary: s s' rule: loop_induct)
  case 1
  note it = inner_mirror [OF 1(2-4)]
  show ?case
  proof (cases "inner s")
    case (Inl x)
    then show ?thesis using it by (simp add: loop.simps)
  next
    case (Inr t)
    with it obtain t' where t': "inner s' = Inr t'" "mirror c0 t t'" "live c0 d t" "settled c0 t" by auto
    from 1(1) [OF live_measure [OF 1(2) Inr] t'(3,4,2)] show ?thesis
      using Inr t'(1) by (simp add: loop.simps [of s] loop.simps [of s'])
  qed
qed

section \<open>A run in the window\<close>

text \<open>What the loader checked of every statement and function (\<open>src/progs/load.rs\<close>): operands lie in the
  globals and their tail, jumps and entries in the code.  And the slots for the return value and the first two
  parameters are in the window: \<open>window_fits\<close> makes sure of that for progs with at least four globals only.\<close>

definition code_checked :: "progs_state \<Rightarrow> bool" where
  "code_checked ps \<longleftrightarrow> unat (ps_gbase ps) + 36 \<le> WINDOW_MASK \<and>
     (\<forall>st \<in> set (ps_code ps). stmt_fits st \<and> stmt_jumps st) \<and>
     (\<forall>f. Some f \<in> set (ps_funcs ps) \<longrightarrow> unat (q_entry f) < CODE_WINDOW)"

lemma window_fits_code:
  "window_fits c \<Longrightarrow> \<forall>ps \<in> set (c_progs c). code_checked ps \<Longrightarrow> progs_fit c"
  by (simp add: window_fits_def progs_fit_def code_fits_def code_checked_def globals_fit_def max_def)

lemma code_checked_slots: "window_fits c \<Longrightarrow> ps \<in> set (c_progs c) \<Longrightarrow> 4 \<le> unat (ps_num_globals ps) \<Longrightarrow>
    unat (ps_gbase ps) + 36 \<le> WINDOW_MASK"
  by (fastforce simp: window_fits_def)

text \<open>C1: the window is exact: on a core that is well formed and ready, when \<open>window_fits\<close> allows it and the loader has checked
  the progs (at most 255, see below) and the slots of their first two parameters are in the window, running with every
  operand offset and every statement index masked into the window gives the same core, budget and exit as running with the
  bounds-checked accesses, for a whole run through jumps, switches, calls, returns and faults.  The run starts with
  a budget, at a statement of the code and with the frames resuming in it, and with the mark of a traced statement clear,
  as \<open>execute_inner\<close> starts it.\<close>

theorem window_run_exact:
  assumes "core_wf c" "window_fits c" "run_ready Window c" "\<forall>ps \<in> set (c_progs c). code_checked ps"
    and "length (c_progs c) \<le> 255" "\<not> c_traced c" "bud \<noteq> 0"
    and "stack_fits c" "unat (x_pc (c_x c)) < CODE_WINDOW"
  shows "run_window c depth bud = run_fast c depth bud"
proof (cases "c_progs c")
  case Nil
  then show ?thesis by (simp add: run_window_def run_fast_def run_def)
next
  case (Cons p qs)
  have fit: "progs_fit c" using window_fits_code assms(2,4) by blast
  have vok: "view_ok Window (ms (c_mem c))" using assms(2) by (simp add: window_fits_def view_ok_def)
  show ?thesis
  proof (cases "core_progs_at c (x_prnum (c_x c))")
    case None
    then show ?thesis by (simp add: run_window_def run_fast_def run_def reload_def Let_def split: list.split)
  next
    case (Some ps)
    have ne: "255 \<noteq> x_prnum (c_x c)"
    proof
      assume "255 = x_prnum (c_x c)"
      then have "unat (255 :: u8) < length (c_progs c)"
        using Some by (auto simp: core_progs_at_def nth_opt_Some)
      then show False using assms(5) by simp
    qed
    have ready: "code_ready Window (ps_code ps)"
      using assms(3) Some by (auto simp: run_ready_def core_progs_at_def nth_opt_Some)
    define s where "s = (\<lambda>v. \<lparr>ls_core = c, ls_env = env_for v depth (x_prnum (c_x c)) ps,
      ls_code = ps_code ps, ls_pr = x_prnum (c_x c), ls_cache = ps_code ps, ls_pc = x_pc (c_x c),
      ls_budget = bud\<rparr>)"
    have starts: "run v False c depth bud = loop (s v)" if "view_ok v (ms (c_mem c))" for v
      using reload_fresh [OF Some _ _ that, of 255 "ps_code p" depth bud] ne Cons ready that
      by (cases v) (simp_all add: run_def s_def code_ready_whole)
    have co: "coherent c (x_prnum (c_x c)) (ps_code ps)" using Some by (simp add: coherent_def)
    have live: "live c depth (s Window)"
      using assms(1,3,6,7) ready vok co Some by (simp add: live_def loop_inv_def s_def)
    have settled: "settled c (s Window)" using fit assms(8,9) by (simp add: settled_def s_def)
    have mirror: "mirror c (s Window) (s Whole)"
      using co at_own_pc [of c] by (auto simp: mirror_def s_def intro: exI [of _ "x_pc (c_x c)"])
    have "run Whole False c depth bud = run Window False c depth bud"
      using loop_mirror [OF live settled mirror] starts [OF vok] starts [of Whole] by (simp add: view_ok_def)
    then show ?thesis by (simp add: run_window_def run_fast_def)
  qed
qed

text \<open>A checked program, loaded where its globals end within the window, is ready to run in it.\<close>

lemma word_checked_fits:
  assumes "word_checked limit count k w" "unat gb + (limit + 2) * 4 \<le> WINDOW_MASK"
  shows "is_relocated k \<Longrightarrow> fits (unat (w + gb))"
proof -
  assume "is_relocated k"
  then have "unat w < limit * 4" "unat w mod 4 = 0" using assms(1) by (auto simp: word_checked_def is_relocated_def)
  then have "unat w + 4 \<le> limit * 4" by presburger
  then have w: "unat w + unat gb + 8 \<le> WINDOW_MASK" using assms(2) by (simp add: algebra_simps)
  then have "unat w + unat gb < 2 ^ 32" by (simp add: WINDOW_MASK_def)
  then show "fits (unat (w + gb))" using w by (simp add: fits_def unat_word_ariths)
qed

lemma relocate_stmt_fits:
  assumes st: "stmt_checked limit count st" and gb: "unat gb + (limit + 2) * 4 \<le> WINDOW_MASK"
    and cnt: "count < CODE_WINDOW"
  shows "stmt_fits (relocate_stmt gb st)" "stmt_jumps (relocate_stmt gb st)"
proof -
  obtain ka kb kc where k: "operands (st_op st) = (ka, kb, kc)" by (cases "operands (st_op st)")
  note w = st [unfolded stmt_checked_def k prod.case]
  show "stmt_fits (relocate_stmt gb st)"
    using w word_checked_fits [OF _ gb] k by (auto simp: stmt_fits_def) (auto simp: relocate_stmt_def Let_def)
  show "stmt_jumps (relocate_stmt gb st)"
    using w k cnt by (auto simp: stmt_jumps_def) (auto simp: relocate_stmt_def Let_def word_checked_def is_relocated_def)
qed

lemma sentinel_fits: "stmt_fits sentinel" "stmt_jumps sentinel"
  by (simp_all add: sentinel_def stmt_fits_def stmt_jumps_def operands_def)

lemma load_func_entry: "snd (load_func p gb f cs) = Some q \<Longrightarrow> f_kind f = FQuakeC (q_entry q)"
  by (auto simp: load_func_def Let_def split: function_kind.splits option.splits)

lemma load_funcs_entry: "Some q \<in> set (snd (load_funcs p gb fs cs)) \<Longrightarrow>
    \<exists>f \<in> set fs. f_kind f = FQuakeC (q_entry q)"
proof (induction fs arbitrary: cs)
  case (Cons f fs)
  then have "snd (load_func p gb f cs) = Some q \<or>
      Some q \<in> set (snd (load_funcs p gb fs (fst (load_func p gb f cs))))"
    by (auto simp: split_beta)
  then show ?case using Cons(1) load_func_entry by (elim disjE) fastforce+
qed simp

lemma loaded_code_checked:
  assumes p: "program_checked p" and gb: "unat gb + (length (p_globals p) + 5) * 4 \<le> WINDOW_MASK"
    and slots: "unat gb + 36 \<le> WINDOW_MASK" and len: "length (p_statements p) \<le> CODE_WINDOW"
  shows "code_checked (progs_state_new p gb cs st)"
proof -
  let ?ps = "progs_state_new p gb cs st"
  have c: "list_all (stmt_checked (length (p_globals p) + 3) (unat (p_file_statements p))) (p_statements p)"
    "list_all (function_checked (length (p_globals p) + 3) (unat (p_file_statements p))) (p_functions p)"
    "unat (p_file_statements p) < CODE_WINDOW" "length (p_globals p) < 2 ^ 32"
    using p len by (simp_all add: program_checked_def Let_def)
  have gb': "unat gb + (length (p_globals p) + 3 + 2) * 4 \<le> WINDOW_MASK"
    using gb by simp
  have "stmt_fits s \<and> stmt_jumps s" if "s \<in> set (ps_code ?ps)" for s
  proof -
    have "s \<in> set (relocate p gb) \<or> s = sentinel"
      using that by (auto simp: progs_state_new_def pad_code_def split: prod.splits if_splits)
    then show ?thesis
      using relocate_stmt_fits [OF _ gb' c(3)] c(1) sentinel_fits
      by (auto simp: relocate_def list_all_iff)
  qed
  moreover have "unat (q_entry f) < CODE_WINDOW" if "Some f \<in> set (ps_funcs ?ps)" for f
  proof -
    have "Some f \<in> set (snd (load_funcs p gb (p_functions p) []))"
      using that by (simp add: progs_state_new_def split: prod.splits)
    from load_funcs_entry [OF this] c(2,3) show ?thesis
      by (fastforce simp: list_all_iff function_checked_def)
  qed
  moreover have "ps_gbase ?ps = gb" by (simp add: progs_state_new_def split: prod.splits)
  ultimately show ?thesis
    using slots by (simp add: code_checked_def)
qed

section \<open>A machine with a window\<close>

lemma sample_program_checked: "program_checked sample_program"
  by (simp add: program_checked_def sample_program_def stmt_checked_def function_checked_def
      copy_checked_def word_checked_def sentinel_def operands_def
      op_table_def op_table_v6_def op_table_fte_def op_table_wide_def)

definition wide_mem :: memory where
  "wide_mem = sample_mem\<lparr>ms := replicate WINDOW 0, e_base := 0x800000, h_base := 0x1000000\<rparr>"

definition wide_core :: "unit core" where
  "wide_core = sample_core\<lparr>c_mem := wide_mem\<rparr>"

lemma wide_core_wf: "core_wf wide_core"
proof -
  have "unat (h_max (heap_new 64)) = 64" by (simp add: heap_new_def)
  then have "mem_wf wide_mem"
    by (simp add: wide_mem_def mem_wf_def sample_mem_def block_len_def heap_new_wf WINDOW_def)
  moreover have "stack_wf wide_core"
    using sample_stack_wf by (simp add: wide_core_def stack_wf_def wide_mem_def)
  ultimately show ?thesis
    using sample_core_wf by (simp add: core_wf_def wide_core_def)
qed

theorem window_run_exact_witness: "run_window wide_core 0 100 = run_fast wide_core 0 100"
proof (rule window_run_exact)
  have len: "length (ps_code (sample_progs gb)) = CODE_WINDOW" for gb
    by (simp add: sample_progs_def progs_state_new_def pad_code_def relocate_def sample_program_def
        CODE_WINDOW_def split: prod.splits)
  show "window_fits wide_core"
    by (simp add: window_fits_def wide_core_def wide_mem_def len ps_num_globals_def num_globals_def
        sample_program_def len32_def WINDOW_MASK_def)
  show "\<forall>ps \<in> set (c_progs wide_core). code_checked ps"
    using loaded_code_checked [OF sample_program_checked]
    by (simp add: wide_core_def sample_progs_def) (simp add: sample_program_def WINDOW_MASK_def CODE_WINDOW_def)
  show "run_ready Window wide_core" using sample_run_ready by (simp add: wide_core_def run_ready_def)
qed (simp_all add: wide_core_wf, simp_all add: wide_core_def sample_core_def stack_fits_def exec_default_def CODE_WINDOW_def)

end
