(* ===== verification/Loader.thy ===== *)
theory Loader
  imports Progs Config
begin

text \<open>
  Loading a \<open>progs.dat\<close>: the headers and raw records of every format (\<open>src/progs/format.rs\<close>) and
  their conversion to a program (\<open>src/progs/load.rs\<close>).  Bad statements and functions do not fail the
  load: they are replaced and noted.  \<open>parse_checked\<close> shows that what \<open>parse\<close> returns is a checked
  program, which is all the interpreter relies on.
\<close>

section \<open>Headers\<close>

definition FTE16_MAGIC :: u32 where "FTE16_MAGIC = 0x021B1461"
definition FTE32_MAGIC :: u32 where "FTE32_MAGIC = 0x65167402"
definition UHEXEN2_MAGIC :: u32 where "UHEXEN2_MAGIC = le_word [85, 72, 50, 55]"
definition KK7_MAGIC :: u32 where "KK7_MAGIC = le_word [75, 75, 81, 87]"

record header =
  hd_version :: u32
  hd_crc :: u32
  hd_ofs_statements :: u32
  hd_num_statements :: u32
  hd_ofs_globaldefs :: u32
  hd_num_globaldefs :: u32
  hd_ofs_fielddefs :: u32
  hd_num_fielddefs :: u32
  hd_ofs_functions :: u32
  hd_num_functions :: u32
  hd_ofs_strings :: u32
  hd_len_strings :: u32
  hd_ofs_globals :: u32
  hd_num_globals :: u32
  hd_entity_fields :: u32

record ext_header =
  xh_ofs_linenums :: u32
  xh_ofs_bodylessfuncs :: u32
  xh_num_bodylessfuncs :: u32
  xh_num_types :: u32
  xh_blockscompressed :: u32

text \<open>\<open>fields::<N>\<close>: the words from \<open>start\<close> on.\<close>

primrec header_words :: "bytes \<Rightarrow> nat \<Rightarrow> nat list \<Rightarrow> load_error + u32 list" where
  "header_words data start [] = Inr []"
| "header_words data start (i # is) =
     (case u32_at data (i * 4 + start) of
        None \<Rightarrow> Inl Truncated
      | Some w \<Rightarrow> (case header_words data start is of Inl e \<Rightarrow> Inl e | Inr ws \<Rightarrow> Inr (w # ws)))"

definition header_of :: "u32 list \<Rightarrow> header" where
  "header_of ws =
     \<lparr>hd_version = ws ! 0, hd_crc = ws ! 1, hd_ofs_statements = ws ! 2, hd_num_statements = ws ! 3,
      hd_ofs_globaldefs = ws ! 4, hd_num_globaldefs = ws ! 5, hd_ofs_fielddefs = ws ! 6,
      hd_num_fielddefs = ws ! 7, hd_ofs_functions = ws ! 8, hd_num_functions = ws ! 9,
      hd_ofs_strings = ws ! 10, hd_len_strings = ws ! 11, hd_ofs_globals = ws ! 12,
      hd_num_globals = ws ! 13, hd_entity_fields = ws ! 14\<rparr>"

text \<open>Words 0 and 4 of the extension, the file and type tables, are not used; word 7 is the secondary version.\<close>

definition ext_of :: "u32 list \<Rightarrow> ext_header" where
  "ext_of ws =
     \<lparr>xh_ofs_linenums = ws ! 1, xh_ofs_bodylessfuncs = ws ! 2, xh_num_bodylessfuncs = ws ! 3,
      xh_num_types = ws ! 5, xh_blockscompressed = ws ! 6\<rparr>"

definition ext_format :: "u32 \<Rightarrow> progs_format \<times> load_note list" where
  "ext_format secondary =
     (if secondary = FTE16_MAGIC then (Fte16, [])
      else if secondary = FTE32_MAGIC then (Fte32, [])
      else if secondary = UHEXEN2_MAGIC then (UHexen2, [])
      else if secondary = KK7_MAGIC then (Kk7, [])
      else (Kk7, [AssumedKk7 secondary]))"

definition read_header :: "bytes \<Rightarrow>
    load_error + header \<times> ext_header option \<times> progs_format \<times> load_note list" where
  "read_header data =
     (case header_words data 0 [0..<15] of
        Inl e \<Rightarrow> Inl e
      | Inr ws \<Rightarrow>
          (let h = header_of ws
           in if hd_version h = 3 then Inr (h, None, QTest, [])
              else if hd_version h = 6 then Inr (h, None, V6, [])
              else if hd_version h = 7 then
                (case header_words data 60 [0..<8] of
                   Inl e \<Rightarrow> Inl e
                 | Inr xs \<Rightarrow>
                     (let ext = ext_of xs
                      in case ext_format (xs ! 7) of (format, notes) \<Rightarrow>
                           if format = Fte16 \<or> format = Fte32 then
                             (if xh_blockscompressed ext \<noteq> 0 then Inl (Compressed (xh_blockscompressed ext))
                              else Inr (h, Some ext, format, notes))
                           else Inr (h, None, format, notes)))
              else Inl (UnsupportedVersion (hd_version h))))"

section \<open>Records\<close>

record file_layout =
  fl_statement :: nat
  fl_def :: nat
  fl_function :: nat

definition file_layout_of :: "progs_format \<Rightarrow> file_layout" where
  "file_layout_of format =
     (case format of
        QTest \<Rightarrow> \<lparr>fl_statement = 12, fl_def = 12, fl_function = 64\<rparr>
      | V6 \<Rightarrow> \<lparr>fl_statement = 8, fl_def = 8, fl_function = 36\<rparr>
      | Fte16 \<Rightarrow> \<lparr>fl_statement = 8, fl_def = 8, fl_function = 36\<rparr>
      | Fte32 \<Rightarrow> \<lparr>fl_statement = 16, fl_def = 12, fl_function = 36\<rparr>
      | UHexen2 \<Rightarrow> \<lparr>fl_statement = 16, fl_def = 12, fl_function = 36\<rparr>
      | Kk7 \<Rightarrow> \<lparr>fl_statement = 16, fl_def = 8, fl_function = 36\<rparr>)"

definition file_section :: "bytes \<Rightarrow> u32 \<Rightarrow> u32 \<Rightarrow> nat \<Rightarrow> string \<Rightarrow> load_error + bytes" where
  "file_section data ofs count width name =
     (if count = 0 then Inr []
      else (case slice data (unat ofs) (unat ofs + unat count * width) of
              None \<Rightarrow> Inl (SectionOutOfBounds name)
            | Some bs \<Rightarrow> Inr bs))"

text \<open>\<open>chunks_exact\<close>: the whole records of a section.\<close>

function chunks_exact :: "nat \<Rightarrow> 'a list \<Rightarrow> 'a list list" where
  "chunks_exact n xs =
     (if n = 0 \<or> length xs < n then [] else take n xs # chunks_exact n (drop n xs))"
  by pat_completeness auto
termination by (relation "measure (\<lambda>(n, xs). length xs)") auto

declare chunks_exact.simps [simp del]

definition w16_at :: "bytes \<Rightarrow> nat \<Rightarrow> u32" where
  "w16_at rec off = (case u16_at rec off of Some v \<Rightarrow> ucast v | None \<Rightarrow> 0)"

definition w32_at :: "bytes \<Rightarrow> nat \<Rightarrow> u32" where
  "w32_at rec off = (case u32_at rec off of Some v \<Rightarrow> v | None \<Rightarrow> 0)"

record raw_statement =
  rs_op :: u32
  rs_a :: u32
  rs_b :: u32
  rs_c :: u32
  rs_line :: "u32 option"

definition decode_statement :: "progs_format \<Rightarrow> bytes \<Rightarrow> raw_statement" where
  "decode_statement format rec =
     (case format of
        QTest \<Rightarrow> \<lparr>rs_op = w16_at rec 4, rs_a = w16_at rec 6, rs_b = w16_at rec 8, rs_c = w16_at rec 10,
                  rs_line = Some (w32_at rec 0)\<rparr>
      | V6 \<Rightarrow> \<lparr>rs_op = w16_at rec 0, rs_a = w16_at rec 2, rs_b = w16_at rec 4, rs_c = w16_at rec 6,
               rs_line = None\<rparr>
      | Fte16 \<Rightarrow> \<lparr>rs_op = w16_at rec 0, rs_a = w16_at rec 2, rs_b = w16_at rec 4, rs_c = w16_at rec 6,
                  rs_line = None\<rparr>
      | Fte32 \<Rightarrow> \<lparr>rs_op = w32_at rec 0, rs_a = w32_at rec 4, rs_b = w32_at rec 8, rs_c = w32_at rec 12,
                  rs_line = None\<rparr>
      | Kk7 \<Rightarrow> \<lparr>rs_op = w32_at rec 0, rs_a = w32_at rec 4, rs_b = w32_at rec 8, rs_c = w32_at rec 12,
                rs_line = None\<rparr>
      | UHexen2 \<Rightarrow> \<lparr>rs_op = drop_bit 16 (w32_at rec 0), rs_a = w32_at rec 4, rs_b = w32_at rec 8,
                    rs_c = w32_at rec 12, rs_line = None\<rparr>)"

record raw_def =
  rd_ty :: u32
  rd_ofs :: u32
  rd_name :: u32

definition decode_def :: "progs_format \<Rightarrow> bytes \<Rightarrow> raw_def" where
  "decode_def format rec =
     (case format of
        QTest \<Rightarrow> \<lparr>rd_ty = w32_at rec 0, rd_ofs = w32_at rec 8, rd_name = w32_at rec 4\<rparr>
      | V6 \<Rightarrow> \<lparr>rd_ty = w16_at rec 0, rd_ofs = w16_at rec 2, rd_name = w32_at rec 4\<rparr>
      | Fte16 \<Rightarrow> \<lparr>rd_ty = w16_at rec 0, rd_ofs = w16_at rec 2, rd_name = w32_at rec 4\<rparr>
      | Kk7 \<Rightarrow> \<lparr>rd_ty = w16_at rec 0, rd_ofs = w16_at rec 2, rd_name = w32_at rec 4\<rparr>
      | Fte32 \<Rightarrow> \<lparr>rd_ty = w32_at rec 0, rd_ofs = w32_at rec 4, rd_name = w32_at rec 8\<rparr>
      | UHexen2 \<Rightarrow> \<lparr>rd_ty = drop_bit 16 (w32_at rec 0), rd_ofs = w32_at rec 4, rd_name = w32_at rec 8\<rparr>)"

text \<open>\<open>first_statement\<close> and \<open>num_parms\<close> are signed; \<open>sint\<close> reads them.\<close>

record raw_function =
  rf_first_statement :: u32
  rf_parm_start :: u32
  rf_locals :: u32
  rf_name :: u32
  rf_file :: u32
  rf_num_parms :: u32
  rf_parm_sizes :: "u8 list"

definition decode_function :: "progs_format \<Rightarrow> bytes \<Rightarrow> raw_function" where
  "decode_function format rec =
     (if format = QTest then
        \<lparr>rf_first_statement = w32_at rec 0, rf_parm_start = w32_at rec 28, rf_locals = w32_at rec 8,
         rf_name = w32_at rec 16, rf_file = w32_at rec 20, rf_num_parms = w32_at rec 24,
         rf_parm_sizes = map (\<lambda>i. let w = w32_at rec (i * 4 + 32)
                                  in if unat w < 256 then ucast w else 255) [0..<8]\<rparr>
      else
        \<lparr>rf_first_statement = w32_at rec 0, rf_parm_start = w32_at rec 4, rf_locals = w32_at rec 8,
         rf_name = w32_at rec 16, rf_file = w32_at rec 20, rf_num_parms = w32_at rec 24,
         rf_parm_sizes = (case slice rec 28 36 of Some s \<Rightarrow> s | None \<Rightarrow> replicate 8 0)\<rparr>)"

section \<open>Statements\<close>

definition BREAKPOINT_BIT :: u32 where "BREAKPOINT_BIT = 0x8000"

text \<open>\<open>Op::Call1H\<close> minus \<open>Op::Call1\<close>.\<close>

definition HEXEN2_CALL_DELTA :: u32 where "HEXEN2_CALL_DELTA = 105 - 52"

definition GLOBALS_TAIL :: nat where "GLOBALS_TAIL = 3"

definition bare_op :: "raw_statement \<Rightarrow> u32" where
  "bare_op s = rs_op s AND NOT BREAKPOINT_BIT"

definition uses_hexen2_calls :: "progs_format \<Rightarrow> raw_statement list \<Rightarrow> bool" where
  "uses_hexen2_calls format raw =
     (if format = QTest then False else if format = UHexen2 then True
      else list_ex (\<lambda>s. 52 \<le> bare_op s \<and> bare_op s \<le> 59 \<and> rs_b s \<noteq> 0) raw)"

definition rewrite_hexen2_calls :: "raw_statement list \<Rightarrow> raw_statement list" where
  "rewrite_hexen2_calls = map (\<lambda>s.
     let p = bare_op s;
         s = (if 52 \<le> p \<and> p \<le> 59
              then s\<lparr>rs_op := (rs_op s AND BREAKPOINT_BIT) OR sat_add p HEXEN2_CALL_DELTA\<rparr> else s)
     in if 92 \<le> p \<and> p \<le> 97 \<and> rs_c s = 0 then s\<lparr>rs_c := 1\<rparr> else s)"

text \<open>An index as \<open>u32::try_from(index).unwrap_or(u32::MAX)\<close>.\<close>

definition index32 :: "nat \<Rightarrow> u32" where
  "index32 i = (if i < 2 ^ 32 then of_nat i else - 1)"

text \<open>One operand: its canonical word, whether it is valid, and whether it is a jump outside the program.\<close>

definition canonical_operand ::
  "bool \<Rightarrow> nat \<Rightarrow> nat \<Rightarrow> nat \<Rightarrow> operand \<Rightarrow> u32 \<Rightarrow> u32 \<times> bool \<times> bool" where
  "canonical_operand wide count index limit kind value =
     (let global = (case checked_mul value 4 of
                      Some byte \<Rightarrow> if unat value < limit then (byte, True, False) else (0, False, False)
                    | None \<Rightarrow> (0, False, False))
      in case kind of
           Global \<Rightarrow> global
         | Unused \<Rightarrow> global
         | GlobalIndex \<Rightarrow> if unat value < limit then (value, True, False) else (0, False, False)
         | Jump \<Rightarrow>
             (let offset = (if wide then sint value else sint (ucast value :: u16));
                  target = int index + offset
              in if 0 \<le> target \<and> target < 2 ^ 32 \<and> nat target < count
                 then (word_of_int target, True, False)
                 else (index32 count, True, True))
         | Immediate \<Rightarrow> (value, True, False))"

definition canonical_statement ::
  "bool \<Rightarrow> nat \<Rightarrow> nat \<Rightarrow> nat \<Rightarrow> raw_statement \<Rightarrow> stmt \<times> load_note option" where
  "canonical_statement wide count limit index s =
     (let flags = (if rs_op s AND BREAKPOINT_BIT \<noteq> 0 then STMT_BREAKPOINT else 0);
          p = op_from_u32 (bare_op s)
      in case operands p of (ka, kb, kc) \<Rightarrow>
           let (a, oka, ja) = canonical_operand wide count index limit ka (rs_a s);
               (b, okb, jb) = canonical_operand wide count index limit kb (rs_b s);
               (c, okc, jc) = canonical_operand wide count index limit kc (rs_c s)
           in if p \<noteq> BadOp Bad \<and> oka \<and> okb \<and> okc
              then (\<lparr>st_op = p, st_flags = flags, st_a = a, st_b = b, st_c = c\<rparr>,
                    if ja \<or> jb \<or> jc then Some (JumpOutOfRangeNote (index32 index)) else None)
              else (\<lparr>st_op = BadOp Bad, st_flags = flags, st_a = 0, st_b = 0, st_c = 0\<rparr>,
                    Some (PoisonedStatement (index32 index) (bare_op s))))"

definition canonical_statements :: "raw_statement list \<Rightarrow> progs_format \<Rightarrow> nat \<Rightarrow>
    stmt list \<times> u32 list option \<times> load_note list" where
  "canonical_statements raw format limit =
     (let wide = \<not> has_16bit_statements format;
          out = map (\<lambda>(i, s). canonical_statement wide (length raw) limit i s) (enumerate 0 raw)
      in (map fst out @ [sentinel],
          if format = QTest then Some (List.map_filter rs_line raw) else None,
          List.map_filter snd out))"

section \<open>Definitions and functions\<close>

definition decode_defs :: "bytes \<Rightarrow> progs_format \<Rightarrow> nat \<Rightarrow> qdef list" where
  "decode_defs bs format width = map (\<lambda>r.
     let d = decode_def format r
     in \<lparr>d_ty = type_from_code (rd_ty d AND NOT 0xC000), d_ofs = rd_ofs d, d_name = rd_name d,
         d_save = (rd_ty d AND 0x8000 \<noteq> 0), d_shared = (rd_ty d AND 0x4000 \<noteq> 0)\<rparr>)
     (chunks_exact width bs)"

text \<open>The copies of one parameter, then of all of them; \<open>None\<close> when one is out of range.\<close>

primrec plan_words :: "nat \<Rightarrow> nat \<Rightarrow> nat list \<Rightarrow> nat \<Rightarrow> param_copy list \<Rightarrow> param_copy list \<times> nat option" where
  "plan_words limit base [] dst cs = (cs, Some dst)"
| "plan_words limit base (w # ws) dst cs =
     (let src = base + w
      in if limit \<le> src \<or> limit \<le> dst then (cs, None)
         else if src * 4 < 2 ^ 32 \<and> dst * 4 < 2 ^ 32
         then plan_words limit base ws (dst + 1) (cs @ [\<lparr>pc_src = of_nat (src * 4), pc_dst = of_nat (dst * 4)\<rparr>])
         else (cs, None))"

primrec plan_slots :: "nat \<Rightarrow> (nat \<times> u8) list \<Rightarrow> nat \<Rightarrow> param_copy list \<Rightarrow> param_copy list \<times> bool" where
  "plan_slots limit [] dst cs = (cs, True)"
| "plan_slots limit (p # ps) dst cs =
     (case plan_words limit (fst p * 3 + 4) [0..<unat (snd p)] dst cs of
        (cs, None) \<Rightarrow> (cs, False)
      | (cs, Some dst) \<Rightarrow> plan_slots limit ps dst cs)"

definition plan_param_copies :: "raw_function \<Rightarrow> nat \<Rightarrow> param_copy list \<Rightarrow> param_copy list \<times> bool" where
  "plan_param_copies raw limit cs =
     (if limit < unat (rf_parm_start raw) + unat (rf_locals raw) then (cs, False)
      else plan_slots limit
             (enumerate 0 (take (nat (max 0 (min 8 (sint (rf_num_parms raw))))) (rf_parm_sizes raw)))
             (unat (rf_parm_start raw)) cs)"

definition canonical_function ::
  "u32 \<Rightarrow> raw_function \<Rightarrow> u32 \<Rightarrow> nat \<Rightarrow> param_copy list \<Rightarrow> param_copy list \<times> qfunction" where
  "canonical_function index raw num_statements limit cs =
     (let first = rf_first_statement raw;
          start = len32 cs;
          (cs', kind) =
            (if index = 0 then (cs, FNull)
             else if 0 < sint first then
               (if num_statements \<le> first then (cs, FInvalid EntryOutOfRange)
                else case plan_param_copies raw limit cs of
                       (cs', True) \<Rightarrow> (cs', FQuakeC first)
                     | (cs', False) \<Rightarrow> (take (unat start) cs', FInvalid LocalsOutOfRange))
             else if first = 0 then (cs, FNamedBuiltin)
             else (cs, FBuiltin (- first)))
      in (cs', \<lparr>f_kind = kind, f_parm_start = rf_parm_start raw, f_locals = rf_locals raw,
          f_num_parms = rf_num_parms raw, f_parm_sizes = rf_parm_sizes raw, f_copies_start = start,
          f_copies_end = len32 cs', f_name = rf_name raw, f_file = rf_file raw\<rparr>))"

primrec canonical_functions ::
  "u32 \<Rightarrow> nat \<Rightarrow> (nat \<times> raw_function) list \<Rightarrow> param_copy list \<Rightarrow> param_copy list \<times> qfunction list" where
  "canonical_functions num_statements limit [] cs = (cs, [])"
| "canonical_functions num_statements limit (r # rs) cs =
     (case canonical_function (index32 (fst r)) (snd r) num_statements limit cs of
        (cs, f) \<Rightarrow> (case canonical_functions num_statements limit rs cs of (cs, fs) \<Rightarrow> (cs, f # fs)))"

definition function_notes :: "qfunction list \<Rightarrow> load_note list" where
  "function_notes fs = List.map_filter (\<lambda>(i, f).
     case f_kind f of FInvalid reason \<Rightarrow> Some (InvalidFunctionNote (index32 i) reason) | _ \<Rightarrow> None)
     (enumerate 0 fs)"

section \<open>Names\<close>

definition NAME_BYTES_MAX :: nat where "NAME_BYTES_MAX = 16 * 2 ^ 20"

primrec check_name_bytes :: "nat \<Rightarrow> u32 list \<Rightarrow> bytes \<Rightarrow> load_error + unit" where
  "check_name_bytes left [] strs = Inr ()"
| "check_name_bytes left (ofs # os) strs =
     (let rest = (case slice_from strs (unat ofs) of Some r \<Rightarrow> r | None \<Rightarrow> []);
          window = take (min (length rest) (left + 1)) rest
      in case (case position0 window of
                 Some n \<Rightarrow> Some n
               | None \<Rightarrow> if length window = length rest then Some (length rest) else None) of
           None \<Rightarrow> Inl NamesTooLarge
         | Some n \<Rightarrow> if left < n then Inl NamesTooLarge else check_name_bytes (left - n) os strs)"

definition name_map :: "(nat \<times> u32) list \<Rightarrow> bytes \<Rightarrow> (bytes \<rightharpoonup> u32)" where
  "name_map entries strs = foldl (\<lambda>m (i, name).
     let name = cstr_at strs (unat name)
     in if name \<noteq> [] \<and> m name = None then m(name \<mapsto> index32 i) else m) (\<lambda>_. None) entries"

text \<open>The NUL-separated names, and whether the section was cut short.\<close>

primrec bodyless_names :: "nat \<Rightarrow> bytes \<Rightarrow> bytes list \<times> load_note list" where
  "bodyless_names 0 rest = ([], [])"
| "bodyless_names (Suc k) rest =
     (case position0 rest of
        None \<Rightarrow> ([], [BodylessIgnored])
      | Some e \<Rightarrow> (case bodyless_names k (drop (e + 1) rest) of (ns, notes) \<Rightarrow> (take e rest # ns, notes)))"

definition read_bodyless :: "bytes \<Rightarrow> u32 \<Rightarrow> u32 \<Rightarrow> bytes list \<times> load_note list" where
  "read_bodyless data ofs count =
     (case slice_from data (unat ofs) of
        None \<Rightarrow> ([], [BodylessIgnored])
      | Some rest \<Rightarrow> bodyless_names (unat count) rest)"

section \<open>Parsing\<close>

text \<open>The line numbers, bodyless functions and notes of the extension header.\<close>

definition read_ext :: "bytes \<Rightarrow> u32 \<Rightarrow> ext_header option \<Rightarrow> u32 list option \<Rightarrow>
    u32 list option \<times> bytes list \<times> load_note list" where
  "read_ext data num_statements ext qtest_lines =
     (case ext of
        None \<Rightarrow> (qtest_lines, [], [])
      | Some x \<Rightarrow>
          (let (line_numbers, n1) =
                 (if xh_ofs_linenums x \<noteq> 0 then
                    (case file_section data (xh_ofs_linenums x) num_statements 4 ''line number'' of
                       Inr bs \<Rightarrow> (Some (map (\<lambda>r. w32_at r 0) (chunks_exact 4 bs)), [])
                     | Inl _ \<Rightarrow> (qtest_lines, [LineNumbersIgnored]))
                  else (qtest_lines, []));
               (bodyless, n2) =
                 (if xh_num_bodylessfuncs x \<noteq> 0
                  then read_bodyless data (xh_ofs_bodylessfuncs x) (xh_num_bodylessfuncs x) else ([], []))
           in (line_numbers, bodyless,
               n1 @ n2 @ (if xh_num_types x \<noteq> 0 then [TypesIgnored] else []))))"

definition name_by_ofs :: "qdef list \<Rightarrow> bytes \<Rightarrow> (u32 \<rightharpoonup> u32)" where
  "name_by_ofs defs strs = foldl (\<lambda>m (i, d).
     if cstr_at strs (unat (d_name d)) \<noteq> [] \<and> m (d_ofs d) = None then m(d_ofs d \<mapsto> index32 i) else m)
     (\<lambda>_. None) (enumerate 0 defs)"

definition pointer_relocs :: "qdef list \<Rightarrow> u32 list \<Rightarrow> u32 list" where
  "pointer_relocs defs globals = map d_ofs
     (filter (\<lambda>d. d_ty d = TPointer \<and>
        (case nth_opt globals (unat (d_ofs d)) of Some v \<Rightarrow> v AND 0x80000000 \<noteq> 0 | None \<Rightarrow> False)) defs)"

definition def_ofs :: "(bytes \<rightharpoonup> u32) \<Rightarrow> qdef list \<Rightarrow> bytes \<Rightarrow> u32 option" where
  "def_ofs by_name defs name =
     Option.bind (by_name name) (\<lambda>i. map_option d_ofs (nth_opt defs (unat i)))"

text \<open>The part of \<open>parse\<close> after the sections are found.\<close>

definition convert :: "bytes \<Rightarrow> header \<Rightarrow> ext_header option \<Rightarrow> progs_format \<Rightarrow> load_note list \<Rightarrow>
    bytes \<Rightarrow> bytes \<Rightarrow> bytes \<Rightarrow> bytes \<Rightarrow> bytes \<Rightarrow> bytes \<Rightarrow> load_error + program" where
  "convert data h ext format notes stmt_bytes gdef_bytes fdef_bytes func_bytes strs glob_bytes =
     (let fl = file_layout_of format;
         globals = map (\<lambda>r. w32_at r 0) (chunks_exact 4 glob_bytes);
         limit = unat (hd_num_globals h) + GLOBALS_TAIL;
         raw0 = map (decode_statement format) (chunks_exact (fl_statement fl) stmt_bytes);
         hexen2 = uses_hexen2_calls format raw0;
         raw = (if hexen2 then rewrite_hexen2_calls raw0 else raw0);
         (statements, qtest_lines, stmt_notes) = canonical_statements raw format limit;
         gdefs = decode_defs gdef_bytes format (fl_def fl);
         fdefs = decode_defs fdef_bytes format (fl_def fl);
         (param_copies, functions) = canonical_functions (hd_num_statements h) limit
            (enumerate 0 (map (decode_function format) (chunks_exact (fl_function fl) func_bytes))) []
     in bind_res (check_name_bytes NAME_BYTES_MAX (map f_name functions @ map d_name gdefs @ map d_name fdefs) strs) (\<lambda>_.
        let globals_by_name = name_map (map (\<lambda>(i, d). (i, d_name d)) (enumerate 0 gdefs)) strs;
            (line_numbers, bodyless, ext_notes) = read_ext data (hd_num_statements h) ext qtest_lines
        in Inr \<lparr>p_format = format, p_version = hd_version h, p_crc = hd_crc h, p_strings = strs,
             p_globals = globals, p_statements = statements, p_file_statements = hd_num_statements h,
             p_functions = functions, p_param_copies = param_copies, p_global_defs = gdefs,
             p_field_defs = fdefs, p_entity_fields = hd_entity_fields h,
             p_functions_by_name =
               name_map (drop 1 (map (\<lambda>(i, f). (i, f_name f)) (enumerate 0 functions))) strs,
             p_globals_by_name = globals_by_name,
             p_fields_by_name = name_map (map (\<lambda>(i, d). (i, d_name d)) (enumerate 0 fdefs)) strs,
             p_global_name_by_ofs = name_by_ofs gdefs strs, p_bodyless = bodyless,
             p_pointer_relocs = pointer_relocs gdefs globals,
             p_special = \<lparr>sg_thisprogs = def_ofs globals_by_name gdefs (ascii ''thisprogs''),
               sg_fasttrackarrays = def_ofs globals_by_name gdefs (ascii ''__ext__fasttrackarrays'')\<rparr>,
             p_line_numbers = line_numbers,
             p_notes = notes @ (if hexen2 then [Hexen2Calls] else []) @ stmt_notes @
               function_notes functions @ ext_notes\<rparr>))"

definition parse :: "bytes \<Rightarrow> load_error + program" where
  "parse data =
     bind_res (read_header data) (\<lambda>(h, ext, format, notes).
     let fl = file_layout_of format in
     bind_res (file_section data (hd_ofs_statements h) (hd_num_statements h) (fl_statement fl) ''statement'') (\<lambda>stmt_bytes.
     bind_res (file_section data (hd_ofs_globaldefs h) (hd_num_globaldefs h) (fl_def fl) ''global definition'') (\<lambda>gdef_bytes.
     bind_res (file_section data (hd_ofs_fielddefs h) (hd_num_fielddefs h) (fl_def fl) ''field definition'') (\<lambda>fdef_bytes.
     bind_res (file_section data (hd_ofs_functions h) (hd_num_functions h) (fl_function fl) ''function'') (\<lambda>func_bytes.
     bind_res (file_section data (hd_ofs_strings h) (hd_len_strings h) 1 ''string'') (\<lambda>strs.
     bind_res (file_section data (hd_ofs_globals h) (hd_num_globals h) 4 ''globals'')
       (convert data h ext format notes stmt_bytes gdef_bytes fdef_bytes func_bytes strs)))))))"

section \<open>Sections have as many records as the header says\<close>

lemma length_chunks_exact: "0 < n \<Longrightarrow> length (chunks_exact n xs) = length xs div n"
proof (induction n xs rule: chunks_exact.induct)
  case (1 n xs)
  show ?case
  proof (cases "length xs < n")
    case True
    then show ?thesis by (simp add: chunks_exact.simps)
  next
    case False
    then have "length xs div n = Suc ((length xs - n) div n)"
      using 1(2) by (simp add: le_div_geq)
    then show ?thesis using 1 False by (simp add: chunks_exact.simps [of n xs])
  qed
qed

lemma file_section_length: "file_section data ofs count width name = Inr bs \<Longrightarrow> length bs = unat count * width"
  by (auto simp: file_section_def slice_def split: if_splits option.splits)

lemma section_records:
  assumes "file_section data ofs count width name = Inr bs" "0 < width"
  shows "length (chunks_exact width bs) = unat count"
  using file_section_length [OF assms(1)] length_chunks_exact [OF assms(2), of bs] assms(2) by simp

lemma fl_positive: "0 < fl_statement (file_layout_of f)" "0 < fl_def (file_layout_of f)"
    "0 < fl_function (file_layout_of f)"
  by (cases f; simp add: file_layout_of_def)+

section \<open>Canonical statements are checked\<close>

lemma target_checked: "0 \<le> t \<Longrightarrow> t < 2 ^ 32 \<Longrightarrow> nat t < n \<Longrightarrow> unat (word_of_int t :: u32) \<le> n"
  by (simp add: unat_eq_nat_uint uint_word_of_int)

lemma canonical_operand_checked:
  assumes "canonical_operand wide count index limit kind value = (w, True, j)" "count < 2 ^ 32"
  shows "word_checked limit count kind w"
proof (cases kind)
  case Jump
  define t where "t = int index + (if wide then sint value else sint (ucast value :: u16))"
  have "w = (if 0 \<le> t \<and> t < 2 ^ 32 \<and> nat t < count then word_of_int t else index32 count)"
    using assms(1) by (simp only: canonical_operand_def Jump Let_def t_def operand.case prod.inject split: if_splits) auto
  then show ?thesis
    using target_checked [of t count] assms(2)
    by (auto simp: word_checked_def Jump index32_def unat_of_nat_small)
qed (use assms in \<open>auto simp: canonical_operand_def word_checked_def Let_def
    dest!: checked_mul_Some split: option.splits if_splits\<close>)

lemma zero_checked: "0 < limit \<Longrightarrow> word_checked limit count k 0"
  by (cases k) (simp_all add: word_checked_def)

lemma canonical_statement_checked:
  assumes "0 < limit" "count < 2 ^ 32"
  shows "stmt_checked limit count (fst (canonical_statement wide count limit index s))"
proof -
  define p where "p = op_from_u32 (bare_op s)"
  obtain ka kb kc where k: "operands p = (ka, kb, kc)" by (cases "operands p")
  obtain a oka ja where a: "canonical_operand wide count index limit ka (rs_a s) = (a, oka, ja)"
    by (metis surj_pair)
  obtain b okb jb where b: "canonical_operand wide count index limit kb (rs_b s) = (b, okb, jb)"
    by (metis surj_pair)
  obtain c okc jc where c: "canonical_operand wide count index limit kc (rs_c s) = (c, okc, jc)"
    by (metis surj_pair)
  show ?thesis
  proof (cases "p \<noteq> BadOp Bad \<and> oka \<and> okb \<and> okc")
    case True
    then show ?thesis
      using canonical_operand_checked [OF _ assms(2)] a b c k
      by (simp add: canonical_statement_def p_def [symmetric] stmt_checked_def)
  next
    case False
    then have "st_op (fst (canonical_statement wide count limit index s)) = BadOp Bad"
      "st_a (fst (canonical_statement wide count limit index s)) = 0"
      "st_b (fst (canonical_statement wide count limit index s)) = 0"
      "st_c (fst (canonical_statement wide count limit index s)) = 0"
      using a b c k by (auto simp: canonical_statement_def p_def [symmetric])
    then show ?thesis
      using zero_checked [OF assms(1)] by (simp add: stmt_checked_def operands_def)
  qed
qed

lemma canonical_statements_checked:
  assumes "0 < limit" "length raw < 2 ^ 32" "canonical_statements raw format limit = (sts, lns, notes)"
  shows "length sts = length raw + 1" "last sts = sentinel" "list_all (stmt_checked limit (length raw)) sts"
proof -
  have sts: "sts = map (\<lambda>(i, s). fst (canonical_statement (\<not> has_16bit_statements format) (length raw) limit i s))
      (enumerate 0 raw) @ [sentinel]"
    using assms(3) by (simp add: canonical_statements_def Let_def case_prod_unfold comp_def)
  show "length sts = length raw + 1" "last sts = sentinel" by (simp_all add: sts)
  have "stmt_checked limit (length raw) sentinel"
    using assms(1) by (simp add: stmt_checked_def sentinel_def operands_def word_checked_def)
  then show "list_all (stmt_checked limit (length raw)) sts"
    using canonical_statement_checked [OF assms(1,2)] by (auto simp: sts list_all_iff)
qed

section \<open>Functions are checked\<close>

lemma plan_words_checked:
  "plan_words limit base ws dst cs = (cs', r) \<Longrightarrow>
    (\<exists>new. cs' = cs @ new \<and> list_all (copy_checked limit) new)"
proof (induction ws arbitrary: dst cs)
  case (Cons w ws)
  show ?case
  proof (cases "limit \<le> base + w \<or> limit \<le> dst \<or> \<not> ((base + w) * 4 < 2 ^ 32 \<and> dst * 4 < 2 ^ 32)")
    case True
    then have "plan_words limit base (w # ws) dst cs = (cs, None)"
      by (simp only: plan_words.simps Let_def) auto
    then show ?thesis using Cons(2) by auto
  next
    case False
    define cp where "cp = \<lparr>pc_src = of_nat ((base + w) * 4) :: u32, pc_dst = of_nat (dst * 4) :: u32\<rparr>"
    have "unat (of_nat ((base + w) * 4) :: u32) = (base + w) * 4" "unat (of_nat (dst * 4) :: u32) = dst * 4"
      using False by (intro unat_of_nat_small; simp)+
    then have cp: "copy_checked limit cp" using False by (simp add: copy_checked_def cp_def)
    have "plan_words limit base ws (dst + 1) (cs @ [cp]) = (cs', r)"
      using Cons(2) False by (simp add: Let_def cp_def del: of_nat_mult of_nat_add)
    from Cons(1) [OF this] cp show ?thesis by auto
  qed
qed auto

lemma plan_slots_checked:
  "plan_slots limit ps dst cs = (cs', r) \<Longrightarrow> (\<exists>new. cs' = cs @ new \<and> list_all (copy_checked limit) new)"
proof (induction ps arbitrary: dst cs)
  case (Cons p ps)
  obtain cs1 r1 where pw: "plan_words limit (fst p * 3 + 4) [0..<unat (snd p)] dst cs = (cs1, r1)"
    by (metis surj_pair)
  then obtain new where new: "cs1 = cs @ new" "list_all (copy_checked limit) new"
    using plan_words_checked by blast
  show ?case
  proof (cases r1)
    case None
    then show ?thesis using Cons(2) pw new by auto
  next
    case (Some dst1)
    then have "plan_slots limit ps dst1 cs1 = (cs', r)" using Cons(2) pw by simp
    from Cons(1) [OF this] new show ?thesis by auto
  qed
qed auto

lemma plan_param_copies_checked:
  "plan_param_copies raw limit cs = (cs', r) \<Longrightarrow> (\<exists>new. cs' = cs @ new \<and> list_all (copy_checked limit) new)"
  by (auto simp: plan_param_copies_def dest: plan_slots_checked split: if_splits)

lemma canonical_function_checked:
  assumes "canonical_function index raw count limit cs = (cs', f)" "list_all (copy_checked limit) cs"
  shows "function_checked limit (unat count) f \<and> list_all (copy_checked limit) cs'"
proof -
  obtain cs1 r where pl: "plan_param_copies raw limit cs = (cs1, r)" by (metis surj_pair)
  then obtain new where new: "cs1 = cs @ new" "list_all (copy_checked limit) new"
    using plan_param_copies_checked by blast
  have all: "list_all (copy_checked limit) cs1" "list_all (copy_checked limit) (take k cs1)" for k
    using assms(2) new by (auto simp: list_all_iff dest: in_set_takeD)
  have pos: "0 < unat (rf_first_statement raw)" if "0 < sint (rf_first_statement raw)"
    using that by (metis bot_nat_0.not_eq_extremum less_irrefl signed_0 unat_eq_zero)
  have bounds: "unat (rf_parm_start raw) + unat (rf_locals raw) \<le> limit" if r
    using pl that by (simp add: plan_param_copies_def split: if_splits)
  show ?thesis
    using assms all pos bounds
    by (auto simp: canonical_function_def pl function_checked_def Let_def word_le_nat_alt not_le
        split: if_splits bool.splits)
qed

lemma canonical_functions_checked:
  "canonical_functions count limit rs cs = (cs', fs) \<Longrightarrow> list_all (copy_checked limit) cs \<Longrightarrow>
    list_all (function_checked limit (unat count)) fs \<and> list_all (copy_checked limit) cs'"
proof (induction rs arbitrary: cs fs)
  case (Cons r rs)
  obtain cs1 f where f: "canonical_function (index32 (fst r)) (snd r) count limit cs = (cs1, f)" by (metis surj_pair)
  obtain cs2 gs where g: "canonical_functions count limit rs cs1 = (cs2, gs)" by (metis surj_pair)
  have fs: "fs = f # gs" "cs2 = cs'" using Cons(2) f g by simp_all
  then show ?case
    using canonical_function_checked [OF f Cons(3)] Cons(1) [OF g [unfolded fs(2)]] by simp
qed auto

section \<open>What parsing gives\<close>

text \<open>The header and sections of a file that parses.\<close>

lemma parse_sections:
  assumes "parse data = Inr p"
  obtains h ext format hn sb gb db fb strs ob where
    "read_header data = Inr (h, ext, format, hn)"
    "length (chunks_exact (fl_statement (file_layout_of format)) sb) = unat (hd_num_statements h)"
    "length (chunks_exact (fl_def (file_layout_of format)) gb) = unat (hd_num_globaldefs h)"
    "length (chunks_exact (fl_def (file_layout_of format)) db) = unat (hd_num_fielddefs h)"
    "length (chunks_exact (fl_function (file_layout_of format)) fb) = unat (hd_num_functions h)"
    "length (chunks_exact 4 ob) = unat (hd_num_globals h)"
    "convert data h ext format hn sb gb db fb strs ob = Inr p"
proof -
  from assms obtain h ext format hn where h: "read_header data = Inr (h, ext, format, hn)"
    by (auto simp: parse_def bind_res_Inr)
  let ?fl = "file_layout_of format"
  from assms h obtain sb gb db fb strs ob where
    "file_section data (hd_ofs_statements h) (hd_num_statements h) (fl_statement ?fl) ''statement'' = Inr sb"
    "file_section data (hd_ofs_globaldefs h) (hd_num_globaldefs h) (fl_def ?fl) ''global definition'' = Inr gb"
    "file_section data (hd_ofs_fielddefs h) (hd_num_fielddefs h) (fl_def ?fl) ''field definition'' = Inr db"
    "file_section data (hd_ofs_functions h) (hd_num_functions h) (fl_function ?fl) ''function'' = Inr fb"
    "file_section data (hd_ofs_globals h) (hd_num_globals h) 4 ''globals'' = Inr ob"
    "convert data h ext format hn sb gb db fb strs ob = Inr p"
    by (auto simp: parse_def bind_res_Inr Let_def)
  then show thesis
    using that [OF h, of sb gb db fb ob strs] section_records fl_positive by fastforce
qed

lemma length_rewrite [simp]: "length (rewrite_hexen2_calls raw) = length raw"
  by (simp add: rewrite_hexen2_calls_def)

lemma parsed_program_checked:
  assumes "parse data = Inr p"
  shows "program_checked p"
  using assms
proof (rule parse_sections)
  fix h :: header and ext :: "ext_header option" and format hn sb gb db fb strs ob
  let ?fl = "file_layout_of format"
  let ?limit = "unat (hd_num_globals h) + 3"
  assume len: "length (chunks_exact (fl_statement ?fl) sb) = unat (hd_num_statements h)"
    "length (chunks_exact 4 ob) = unat (hd_num_globals h)"
    and c: "convert data h ext format hn sb gb db fb strs ob = Inr p"
  define raw0 where "raw0 = map (decode_statement format) (chunks_exact (fl_statement ?fl) sb)"
  define raw where "raw = (if uses_hexen2_calls format raw0 then rewrite_hexen2_calls raw0 else raw0)"
  have lr: "length raw = unat (hd_num_statements h)" using len(1) by (simp add: raw_def raw0_def)
  obtain sts lns ns where st: "canonical_statements raw format ?limit = (sts, lns, ns)" by (metis surj_pair)
  obtain cs fs where f: "canonical_functions (hd_num_statements h) ?limit
      (enumerate 0 (map (decode_function format) (chunks_exact (fl_function ?fl) fb))) [] = (cs, fs)"
    by (metis surj_pair)
  have p: "p_statements p = sts" "p_functions p = fs" "p_param_copies p = cs"
    "p_file_statements p = hd_num_statements h" "length (p_globals p) = unat (hd_num_globals h)"
    using c st [unfolded raw_def raw0_def] f len(2)
    by (auto simp: convert_def Let_def bind_res_Inr GLOBALS_TAIL_def split: prod.splits)
  have "length raw < 2 ^ 32" unfolding lr by (rule unat_u32_bound)
  note sc = canonical_statements_checked [OF _ this st]
  show ?thesis
    using sc canonical_functions_checked [OF f] lr unat_u32_bound [of "hd_num_globals h"]
    by (simp add: program_checked_def p Let_def)
qed

text \<open>C20: whatever the bytes of the file, a program that loads is checked: every operand lies in the globals
  and the three words after them, every jump goes to a statement or to the sentinel that ends the
  statements, and every QuakeC function starts inside the file's statements and keeps its locals and
  the copies of its parameters inside the globals.\<close>

theorem parse_checked:
  assumes "parse data = Inr p"
  shows "program_checked p"
  by (rule parsed_program_checked [OF assms])

text \<open>A file of one statement, a jump outside the program, one global definition and four globals.\<close>

definition sample_file :: bytes where
  "sample_file =
     [6,0,0,0, 0,0,0,0, 60,0,0,0, 1,0,0,0, 84,0,0,0, 1,0,0,0, 0,0,0,0, 0,0,0,0, 0,0,0,0, 0,0,0,0, 92,0,0,0,
      3,0,0,0, 68,0,0,0, 4,0,0,0, 0,0,0,0, 61,0,255,255,0,0,0,0, 0,0,0,0, 0,0,0,0, 0,0,0,0, 0,0,0,0,
      2,0,3,0,1,0,0,0, 0,97,0]"

lemma sample_header: "header_words sample_file 0 [0..<15] = Inr [6, 0, 60, 1, 84, 1, 0, 0, 0, 0, 92, 3, 68, 4, 0]"
  by (simp add: sample_file_def u32_at_eq upt_rec)

lemma sample_sections:
  "file_section sample_file 60 1 8 n = Inr [61, 0, 255, 255, 0, 0, 0, 0]"
  "file_section sample_file 84 1 8 n = Inr [2, 0, 3, 0, 1, 0, 0, 0]"
  "file_section sample_file 92 3 1 n = Inr [0, 97, 0]"
  "file_section sample_file 68 4 4 n = Inr (replicate 16 0)"
  "file_section sample_file x 0 w n = Inr []"
  by (simp_all add: file_section_def sample_file_def slice_def) (simp add: eval_nat_numeral)

lemma sample_chunks:
  "length xs = 8 \<Longrightarrow> chunks_exact 8 xs = [xs]"
  "chunks_exact 4 (replicate 16 (0 :: u8)) = replicate 4 [0, 0, 0, 0]"
  "0 < w \<Longrightarrow> chunks_exact w [] = []"
  by (simp_all add: chunks_exact.simps) (simp add: chunks_exact.simps eval_nat_numeral)

lemma sample_read: "read_header sample_file =
    Inr (header_of [6, 0, 60, 1, 84, 1, 0, 0, 0, 0, 92, 3, 68, 4, 0], None, V6, [])"
  by (simp add: read_header_def sample_header) (simp add: header_of_def)

lemma sample_statement:
  "canonical_statements [\<lparr>rs_op = 61, rs_a = 0xFFFF, rs_b = 0, rs_c = 0, rs_line = None\<rparr>] V6 7 =
     ([\<lparr>st_op = Branch Goto, st_flags = 0, st_a = 1, st_b = 0, st_c = 0\<rparr>, sentinel], None, [JumpOutOfRangeNote 0])"
proof -
  have p: "op_from_u32 61 = Branch Goto"
    by (simp add: op_from_u32_def NUM_REAL_def ALL_ops_def op_table_def op_table_v6_def)
  have k: "operands (Branch Goto) = (Jump, Unused, Unused)"
    by (simp add: operands_def op_table_def op_table_v6_def)
  show ?thesis
    by (simp add: canonical_statements_def canonical_statement_def bare_op_def BREAKPOINT_BIT_def p k
        canonical_operand_def has_16bit_statements_def checked_mul_def index32_def Let_def List.map_filter_simps)
qed

lemma sample_parse: "\<exists>p. parse sample_file = Inr p \<and> p_statements p =
    [\<lparr>st_op = Branch Goto, st_flags = 0, st_a = 1, st_b = 0, st_c = 0\<rparr>, sentinel] \<and>
    length (p_globals p) = 4 \<and> p_strings p = [0, 97, 0] \<and>
    p_global_defs p = [\<lparr>d_ty = TFloat, d_ofs = 3, d_name = 1, d_save = False, d_shared = False\<rparr>] \<and>
    p_notes p = [JumpOutOfRangeNote 0] \<and> p_file_statements p = 1 \<and>
    p_entity_fields p = 0"
proof -
  let ?h = "header_of [6, 0, 60, 1, 84, 1, 0, 0, 0, 0, 92, 3, 68, 4, 0]"
  have h: "hd_ofs_statements ?h = 60" "hd_num_statements ?h = 1" "hd_num_globaldefs ?h = 1"
    "hd_ofs_globaldefs ?h = 84" "hd_num_fielddefs ?h = 0" "hd_num_functions ?h = 0" "hd_len_strings ?h = 3"
    "hd_ofs_strings ?h = 92" "hd_ofs_globals ?h = 68" "hd_num_globals ?h = 4" "hd_entity_fields ?h = 0"
    by (simp_all add: header_of_def)
  have fl: "file_layout_of V6 = \<lparr>fl_statement = 8, fl_def = 8, fl_function = 36\<rparr>" by (simp add: file_layout_of_def)
  have raw: "decode_statement V6 [61, 0, 255, 255, 0, 0, 0, 0] =
     \<lparr>rs_op = 61, rs_a = 0xFFFF, rs_b = 0, rs_c = 0, rs_line = None\<rparr>" (is "_ = ?r")
    by (simp add: decode_statement_def w16_at_def u16_at_def slice_from_def first_chunk_def)
  have def: "decode_defs [2, 0, 3, 0, 1, 0, 0, 0] V6 8 =
     [\<lparr>d_ty = TFloat, d_ofs = 3, d_name = 1, d_save = False, d_shared = False\<rparr>]" "decode_defs [] V6 8 = []"
    by (simp_all add: decode_defs_def sample_chunks decode_def_def w16_at_def w32_at_def u16_at_def u32_at_eq
        slice_from_def first_chunk_def type_from_code_def)
  have hex: "uses_hexen2_calls V6 [?r] = False"
    by (simp add: uses_hexen2_calls_def bare_op_def BREAKPOINT_BIT_def)
  have names: "check_name_bytes NAME_BYTES_MAX [1] [0, 97, 0] = Inr ()"
    by (simp add: NAME_BYTES_MAX_def slice_from_def position0_def Let_def)
  show ?thesis
    using h fl raw hex sample_statement
    by (simp add: parse_def sample_read bind_res_def Let_def sample_sections
        sample_sections(3) [unfolded One_nat_def] convert_def sample_chunks def
        GLOBALS_TAIL_def read_ext_def names function_notes_def List.map_filter_simps
        del: check_name_bytes.simps)
qed

theorem parse_checked_witness:
  "\<exists>p. parse sample_file = Inr p \<and> program_checked p \<and> length (p_statements p) = 2"
  using sample_parse parse_checked [of sample_file] by fastforce

section \<open>Names\<close>

lemma name_map_snoc: "name_map (es @ [(i, n)]) strs =
   (let m = name_map es strs; name = cstr_at strs (unat n)
    in if name \<noteq> [] \<and> m name = None then m(name \<mapsto> index32 i) else m)"
  by (simp add: name_map_def Let_def)

lemma find_takeWhile: "find P xs =
    (if \<exists>x \<in> set xs. P x then Some (xs ! length (takeWhile (\<lambda>x. \<not> P x) xs)) else None)"
  by (induction xs) auto

lemma takeWhile_within: "\<exists>x \<in> set xs. P x \<Longrightarrow> length (takeWhile (\<lambda>x. \<not> P x) xs) < length xs"
  by (induction xs) auto

lemma name_map_lookup:
  assumes "name \<noteq> []"
  shows "name_map (map (\<lambda>(i, d). (i, f d)) (enumerate 0 ds)) strs name =
    (if \<exists>d \<in> set ds. cstr_at strs (unat (f d)) = name
     then Some (index32 (length (takeWhile (\<lambda>d. cstr_at strs (unat (f d)) \<noteq> name) ds))) else None)"
proof (induction ds rule: rev_induct)
  case Nil
  then show ?case by (simp add: name_map_def)
next
  case (snoc d ds)
  let ?Q = "\<lambda>d. cstr_at strs (unat (f d)) \<noteq> name"
  have e: "map (\<lambda>(i, d). (i, f d)) (enumerate 0 (ds @ [d])) =
      map (\<lambda>(i, d). (i, f d)) (enumerate 0 ds) @ [(length ds, f d)]"
    by (simp add: enumerate_append_eq)
  show ?case
  proof (cases "\<exists>x \<in> set ds. cstr_at strs (unat (f x)) = name")
    case True
    then have "takeWhile ?Q (ds @ [d]) = takeWhile ?Q ds" by (auto intro: takeWhile_append1)
    then show ?thesis using snoc True assms unfolding e name_map_snoc by (auto simp: Let_def)
  next
    case False
    then have "takeWhile ?Q ds = ds" by (auto simp: takeWhile_eq_all_conv)
    then have "length (takeWhile ?Q (ds @ [d])) = (if cstr_at strs (unat (f d)) = name then length ds else length ds + 1)"
      using False by (simp add: takeWhile_append)
    then show ?thesis using snoc False assms unfolding e name_map_snoc by (auto simp: Let_def)
  qed
qed

lemma name_map_first:
  assumes "name \<noteq> []" "length ds < 2 ^ 32"
  shows "Option.bind (name_map (map (\<lambda>(i, d). (i, f d)) (enumerate 0 ds)) strs name) (\<lambda>i. nth_opt ds (unat i)) =
    find (\<lambda>d. cstr_at strs (unat (f d)) = name) ds"
proof (cases "\<exists>d \<in> set ds. cstr_at strs (unat (f d)) = name")
  case True
  let ?k = "length (takeWhile (\<lambda>d. cstr_at strs (unat (f d)) \<noteq> name) ds)"
  have "?k < length ds" by (rule takeWhile_within [OF True])
  then have "unat (index32 ?k) = ?k" "?k < length ds"
    using assms(2) by (simp_all add: index32_def unat_of_nat_small)
  then show ?thesis
    using True by (simp add: name_map_lookup [OF assms(1)] find_takeWhile nth_opt_def)
next
  case False
  then show ?thesis by (simp add: name_map_lookup [OF assms(1)] find_takeWhile)
qed

text \<open>In a program that loads, a name finds the first definition with that name, for globals and for
  fields, and nothing when no definition has it.\<close>

theorem parse_names:
  assumes "parse data = Inr p" "name \<noteq> []"
  shows "global_def_raw p name = find (\<lambda>d. string_at p (d_name d) = name) (p_global_defs p) \<and>
    field_def_raw p name = find (\<lambda>d. string_at p (d_name d) = name) (p_field_defs p)"
  using assms(1)
proof (rule parse_sections)
  fix h :: header and ext :: "ext_header option" and format hn sb gb db fb strs ob
  let ?fl = "file_layout_of format"
  assume len: "length (chunks_exact (fl_def ?fl) gb) = unat (hd_num_globaldefs h)"
    "length (chunks_exact (fl_def ?fl) db) = unat (hd_num_fielddefs h)"
    and c: "convert data h ext format hn sb gb db fb strs ob = Inr p"
  have p: "p_global_defs p = decode_defs gb format (fl_def ?fl)" "p_field_defs p = decode_defs db format (fl_def ?fl)"
    "p_strings p = strs"
    "p_globals_by_name p = name_map (map (\<lambda>(i, d). (i, d_name d)) (enumerate 0 (p_global_defs p))) strs"
    "p_fields_by_name p = name_map (map (\<lambda>(i, d). (i, d_name d)) (enumerate 0 (p_field_defs p))) strs"
    using c by (auto simp: convert_def Let_def bind_res_Inr split: prod.splits)
  have "length (p_global_defs p) < 2 ^ 32" "length (p_field_defs p) < 2 ^ 32"
    unfolding p(1,2) decode_defs_def length_map len by (rule unat_u32_bound)+
  from name_map_first [OF assms(2) this(1), of d_name strs] name_map_first [OF assms(2) this(2), of d_name strs]
  show ?thesis
    by (simp add: global_def_raw_def field_def_raw_def string_at_def p(3-5))
qed

theorem parse_names_witness:
  "\<exists>p. parse sample_file = Inr p \<and>
    global_def_raw p [97] = Some \<lparr>d_ty = TFloat, d_ofs = 3, d_name = 1, d_save = False, d_shared = False\<rparr>"
proof -
  obtain p where p: "parse sample_file = Inr p" "p_strings p = [0, 97, 0]"
    "p_global_defs p = [\<lparr>d_ty = TFloat, d_ofs = 3, d_name = 1, d_save = False, d_shared = False\<rparr>]"
    using sample_parse by blast
  have "string_at p 1 = [97]"
    by (simp add: string_at_def p(2) cstr_at_def slice_from_def position0_def)
  then show ?thesis using parse_names [OF p(1), of "[97]"] p by simp
qed

section \<open>What the notes report\<close>

lemma canonical_statement_poisoned:
  "snd (canonical_statement wide count limit index s) = Some (PoisonedStatement j n) \<longleftrightarrow>
    st_op (fst (canonical_statement wide count limit index s)) = BadOp Bad \<and> j = index32 index \<and> n = bare_op s"
  by (auto simp: canonical_statement_def Let_def split: prod.splits)

lemma statement_notes_poisoned:
  assumes "canonical_statements raw format limit = (sts, lns, notes)" "i < length raw" "length raw < 2 ^ 32"
  shows "st_op (sts ! i) = BadOp Bad \<longleftrightarrow> (\<exists>n. PoisonedStatement (of_nat i) n \<in> set notes)"
proof -
  let ?f = "\<lambda>(i, s). canonical_statement (\<not> has_16bit_statements format) (length raw) limit i s"
  have sts: "sts ! i = fst (?f (i, raw ! i))"
    using assms(1,2) by (auto simp: canonical_statements_def Let_def nth_append nth_enumerate_eq)
  have set_out: "set (map ?f (enumerate 0 raw)) = (\<lambda>k. ?f (k, raw ! k)) ` {..<length raw}"
  proof -
    have "set (enumerate 0 raw) = (\<lambda>k. (k, raw ! k)) ` {..<length raw}"
      by (auto simp: in_set_enumerate_eq image_iff)
    then show ?thesis by (simp add: image_image)
  qed
  have nts: "notes = List.map_filter snd (map ?f (enumerate 0 raw))"
    using assms(1) by (simp add: canonical_statements_def Let_def)
  have index: "index32 k = of_nat i \<longleftrightarrow> k = i" if "k < length raw" for k
  proof -
    have "unat (of_nat k :: u32) = k" "unat (of_nat i :: u32) = i"
      using that assms(2,3) by (simp_all add: unat_of_nat_small)
    then show ?thesis using that assms(3) by (metis index32_def order.strict_trans)
  qed
  have "(\<exists>n. PoisonedStatement (of_nat i) n \<in> set notes) \<longleftrightarrow>
      (\<exists>n. \<exists>k < length raw. snd (?f (k, raw ! k)) = Some (PoisonedStatement (of_nat i) n))"
    unfolding nts set_filter_map set_out by auto
  also have "\<dots> \<longleftrightarrow> (\<exists>k < length raw. st_op (fst (?f (k, raw ! k))) = BadOp Bad \<and> index32 k = of_nat i)"
    by (auto simp: canonical_statement_poisoned eq_commute [of "of_nat i :: u32"])
  also have "\<dots> \<longleftrightarrow> st_op (sts ! i) = BadOp Bad" using assms(2) index sts by auto
  finally show ?thesis by simp
qed

lemma header_notes: "read_header data = Inr (h, ext, format, ns) \<Longrightarrow> set ns \<subseteq> range AssumedKk7"
  by (auto simp: read_header_def Let_def ext_format_def split: sum.splits if_splits)

lemma bodyless_notes: "set (snd (bodyless_names k rest)) \<subseteq> {BodylessIgnored}"
proof (induction k arbitrary: rest)
  case (Suc k)
  show ?case
  proof (cases "position0 rest")
    case (Some e)
    then show ?thesis using Suc [of "drop (e + 1) rest"] by (simp add: split_beta)
  qed simp
qed simp

lemma ext_notes:
  assumes "read_ext data k ext lns = (ls, bs, ns)"
  shows "set ns \<subseteq> {LineNumbersIgnored, BodylessIgnored, TypesIgnored}"
proof -
  have "x = BodylessIgnored" if "x \<in> set (snd (read_bodyless data a b))" for x a b
    using that bodyless_notes [of "unat b"] by (auto simp: read_bodyless_def split: option.splits)
  then show ?thesis
    using assms
    by (cases ext) (auto simp: read_ext_def Let_def split_beta split: if_splits sum.splits)
qed

text \<open>Exactly the statements of the file that the loader replaced by a fault (an unknown opcode or an
  operand outside the globals) are reported, by their number.\<close>

theorem parse_reports_poisoned:
  assumes "parse data = Inr p" "i < unat (p_file_statements p)"
  shows "st_op (p_statements p ! i) = BadOp Bad \<longleftrightarrow>
    (\<exists>opcode. PoisonedStatement (of_nat i) opcode \<in> set (p_notes p))"
  using assms(1)
proof (rule parse_sections)
  fix h :: header and ext :: "ext_header option" and format hn sb gb db fb strs ob
  let ?fl = "file_layout_of format"
  assume len: "length (chunks_exact (fl_statement ?fl) sb) = unat (hd_num_statements h)"
    and hdr: "read_header data = Inr (h, ext, format, hn)"
    and c: "convert data h ext format hn sb gb db fb strs ob = Inr p"
  define raw where "raw = (let raw0 = map (decode_statement format) (chunks_exact (fl_statement ?fl) sb)
    in if uses_hexen2_calls format raw0 then rewrite_hexen2_calls raw0 else raw0)"
  have lr: "length raw = unat (hd_num_statements h)" using len by (simp add: raw_def Let_def)
  obtain sts lns ns where st: "canonical_statements raw format (unat (hd_num_globals h) + 3) = (sts, lns, ns)"
    by (metis surj_pair)
  define x where "x = (if uses_hexen2_calls format (map (decode_statement format)
    (chunks_exact (fl_statement ?fl) sb)) then [Hexen2Calls] else [])"
  have x: "p_statements p = sts" "p_file_statements p = hd_num_statements h"
    "p_notes p = hn @ x @ ns @ function_notes (p_functions p) @ snd (snd (read_ext data (hd_num_statements h) ext lns))"
    using c st [unfolded raw_def Let_def]
    by (auto simp: x_def convert_def Let_def bind_res_Inr GLOBALS_TAIL_def split: prod.splits)
  have xs: "set x \<subseteq> {Hexen2Calls}" by (auto simp: x_def)
  have "PoisonedStatement j n \<notin> set (function_notes fs)" for j n fs
    by (auto simp: function_notes_def set_filter_map split: function_kind.splits)
  moreover have "PoisonedStatement j n \<notin> set hn" for j n using header_notes [OF hdr] by auto
  moreover have "PoisonedStatement j n \<notin> set (snd (snd (read_ext data (hd_num_statements h) ext lns)))" for j n
    using ext_notes [of data "hd_num_statements h" ext lns]
    by (cases "read_ext data (hd_num_statements h) ext lns") auto
  ultimately have "PoisonedStatement j n \<in> set (p_notes p) \<longleftrightarrow> PoisonedStatement j n \<in> set ns" for j n
    using x(3) xs by auto
  then show ?thesis
    using statement_notes_poisoned [OF st] assms(2) lr unat_u32_bound [of "hd_num_statements h"] by (simp add: x)
qed

theorem parse_reports_poisoned_witness:
  "\<exists>p. parse sample_file = Inr p \<and> st_op (p_statements p ! 0) \<noteq> BadOp Bad"
proof -
  obtain p where p: "parse sample_file = Inr p" "p_file_statements p = 1" "p_notes p = [JumpOutOfRangeNote 0]"
    using sample_parse by blast
  then show ?thesis using parse_reports_poisoned [OF p(1), of 0] p(3) by auto
qed

end
