(* ===== verification/Build.thy ===== *)
theory Build
  imports Loader WindowLoop
begin

text \<open>
  Building a virtual machine (\<open>build_core\<close> and \<open>bind\<close> of \<open>src/vm/mod.rs\<close>): the layout of the address
  space for a program and a configuration, the initial memory, the load-time fixups and the binding of
  builtins.  The registry is given by its two binding functions; the state of the standard builtins
  starts as \<open>std\<close>.  \<open>build_core_ready\<close> shows that a built machine satisfies every assumption the
  theorems about runs make.
\<close>

section \<open>Address space\<close>

definition align_up :: "nat \<Rightarrow> nat \<Rightarrow> nat" where
  "align_up v align = (v + (align - 1)) div align * align"

text \<open>The exponent of \<open>checked_next_power_of_two\<close> (then \<open>trailing_zeros\<close>); \<open>None\<close> past \<open>2 ^ 31\<close>.\<close>

fun ceil_log2 :: "nat \<Rightarrow> nat" where
  "ceil_log2 v = (if v \<le> 1 then 0 else Suc (ceil_log2 ((v + 1) div 2)))"

declare ceil_log2.simps [simp del]

definition next_power_shift :: "u32 \<Rightarrow> u32 option" where
  "next_power_shift v = (let k = ceil_log2 (unat v) in if k < 32 then Some (of_nat k) else None)"

definition stride_shift_for :: "u32 \<Rightarrow> u32 \<Rightarrow> u32 option" where
  "stride_shift_for fb reserve =
     Option.bind (checked_add fb (max reserve (fb div 2)))
       (\<lambda>v. next_power_shift (max v 16))"

definition ADDRESS_LIMIT :: nat where "ADDRESS_LIMIT = 0x80000000"

record address_plan =
  ap_gbase :: nat
  ap_ls_base :: nat
  ap_ls_words :: u32
  ap_s_len :: nat
  ap_e_base :: nat
  ap_field_bytes :: u32
  ap_stride_shift :: u32
  ap_max_edicts :: nat
  ap_h_base :: nat

definition plan_memory :: "program \<Rightarrow> limits \<Rightarrow> u32 \<Rightarrow> resource + address_plan" where
  "plan_memory p lim reserve =
     (let gbase = align_up (length (p_strings p) + 1) 4;
          globals_bytes = (unat (num_globals p) + 3) * 4;
          lsb = gbase + globals_bytes;
          lsw = max (l_local_stack_words lim) 16;
          s_len = lsb + unat lsw * 4 + 4;
          eb = align_up s_len (2 ^ 20) + unat (l_progs_area_bytes lim)
      in case checked_mul (p_entity_fields p) 4 of
           None \<Rightarrow> Inl FieldsRes
         | Some fb \<Rightarrow>
             (case stride_shift_for fb reserve of
                None \<Rightarrow> Inl FieldsRes
              | Some sk \<Rightarrow>
                  (let fit = (ADDRESS_LIMIT - eb - unat (l_heap_bytes lim) - 16) div 2 ^ unat sk;
                       max_ed = min (unat (l_max_edicts lim)) fit
                   in if max_ed < 1 then Inl Entities
                      else Inr \<lparr>ap_gbase = gbase, ap_ls_base = lsb, ap_ls_words = lsw, ap_s_len = s_len,
                             ap_e_base = eb, ap_field_bytes = fb, ap_stride_shift = sk,
                             ap_max_edicts = max_ed,
                             ap_h_base = align_up (eb + max_ed * 2 ^ unat sk) 16\<rparr>)))"

definition fits32 :: "resource \<Rightarrow> nat \<Rightarrow> resource + u32" where
  "fits32 r n = (if n < 2 ^ 32 then Inr (of_nat n) else Inl r)"

section \<open>Memory\<close>

text \<open>Region S: the strings, then the globals, then the local stack.\<close>

definition initial_s :: "program \<Rightarrow> address_plan \<Rightarrow> bytes" where
  "initial_s p a =
     foldl (\<lambda>s (i, w). snd (put_u32 s (ap_gbase a + i * 4) w))
       (splice (replicate (ap_s_len a) 0) 0 (p_strings p)) (enumerate 0 (p_globals p))"

definition initial_memory :: "program \<Rightarrow> limits \<Rightarrow> address_plan \<Rightarrow> resource + memory" where
  "initial_memory p lim a =
     bind_res (fits32 ProgsArea (ap_gbase a)) (\<lambda>_.
     bind_res (fits32 ProgsArea (ap_e_base a)) (\<lambda>eb.
     bind_res (fits32 HeapRes (ap_h_base a)) (\<lambda>hb.
     bind_res (fits32 ProgsArea (ap_ls_base a)) (\<lambda>lb.
       Inr \<lparr>ms = initial_s p a, me = [], e_base = eb, stride_shift = ap_stride_shift a,
            field_bytes = ap_field_bytes a, max_edicts = index32 (ap_max_edicts a), slots = [],
            mheap = heap_new (l_heap_bytes lim), h_base = hb, ls_base = lb,
            ls_words = ap_ls_words a\<rparr>))))"

text \<open>Load-time fixups: pointer globals are relocated, \<open>thisprogs\<close> and \<open>__ext__fasttrackarrays\<close> set.\<close>

definition fix_pointers :: "program \<Rightarrow> nat \<Rightarrow> u32 list \<Rightarrow> memory \<Rightarrow> memory" where
  "fix_pointers p gbase ws m =
     foldl (\<lambda>m w. let at = gbase + unat w * 4
                  in mem_set_g m at ((mem_g m at AND 0x7FFFFFFF) + of_nat gbase)) m ws"

definition fix_specials :: "program \<Rightarrow> nat \<Rightarrow> memory \<Rightarrow> memory" where
  "fix_specials p gbase m =
     (let m = (case sg_thisprogs (p_special p) of
                 Some w \<Rightarrow> mem_set_g m (gbase + unat w * 4) 0 | None \<Rightarrow> m)
      in case sg_fasttrackarrays (p_special p) of
           None \<Rightarrow> m
         | Some w \<Rightarrow>
             mem_set_g m (gbase + unat w * 4)
               (if map_option di_ty (global_def p (ascii ''__ext__fasttrackarrays'')) = Some TFloat
                then 0x3F800000 else 1))"

section \<open>Binding\<close>

definition bind_callees :: "program \<Rightarrow> (u32 \<Rightarrow> u32 option) \<Rightarrow> (bytes \<Rightarrow> u32 option) \<Rightarrow> callee list" where
  "bind_callees p bind_number bind_name =
     map (\<lambda>f. case fi_kind f of
            FNull \<Rightarrow> CNull
          | FQuakeC _ \<Rightarrow> CQc
          | FBuiltin number \<Rightarrow> (case bind_number number of Some s \<Rightarrow> CBuiltin s | None \<Rightarrow> CMissing)
          | FNamedBuiltin \<Rightarrow> (case bind_name (fi_name f) of Some s \<Rightarrow> CBuiltin s | None \<Rightarrow> CMissing)
          | FInvalid _ \<Rightarrow> CInvalid) (program_functions p)"

section \<open>The core\<close>

definition initial_fields :: "program \<Rightarrow> field_table" where
  "initial_fields p =
     foldl (\<lambda>t d. field_push t (di_name d) (di_ty d) (di_offset d))
       \<lparr>ft_entries = [], ft_by_name = (\<lambda>_. None), ft_words = p_entity_fields p\<rparr> (field_defs p)"

definition fills_for :: "program \<Rightarrow> field_table \<Rightarrow> nat \<Rightarrow> spawn_default list \<Rightarrow> spawn_fill list" where
  "fills_for p ft gbase ds =
     List.map_filter (\<lambda>d.
       let at = Option.bind (sd_global d) (\<lambda>g. map_option (\<lambda>def. gbase + unat (di_offset def) * 4) (global_def p g))
       in map_option (\<lambda>f. \<lparr>sf_field = fe_ofs f, sf_global = at, sf_value = sd_value d\<rparr>)
            (field_get ft (sd_field d))) ds"

definition build_core :: "program \<Rightarrow> (u32 \<Rightarrow> u32 option) \<Rightarrow> (bytes \<Rightarrow> u32 option) \<Rightarrow> 's \<Rightarrow> vm_config \<Rightarrow>
    error_kind + 's core" where
  "build_core p bind_number bind_name std cfg =
     (case plan_memory p (g_limits cfg) (g_field_reserve_bytes cfg) of
        Inl r \<Rightarrow> Inl (OutOfMemory r)
      | Inr a \<Rightarrow>
          (case initial_memory p (g_limits cfg) a of
             Inl r \<Rightarrow> Inl (OutOfMemory r)
           | Inr m0 \<Rightarrow>
               bind_res (init_world m0) (\<lambda>m1.
               let m = fix_specials p (ap_gbase a) (fix_pointers p (ap_gbase a) (p_pointer_relocs p) m1);
                   gbase = of_nat (ap_gbase a);
                   ft = initial_fields p;
                   ps = progs_state_new p gbase (bind_callees p bind_number bind_name)
                          (state_handles_for p gbase ft);
                   c = \<lparr>c_mem = m,
                        c_strings = strings_new (l_temp_strings (g_limits cfg)) (l_temp_string_bytes (g_limits cfg)),
                        c_progs = [ps], c_fields = ft, c_frames = [],
                        c_x = exec_default\<lparr>x_func := NO_FUNCTION\<rparr>, c_argc = 0, c_builtin = 0, c_nesting = 0,
                        c_rng = g_seed cfg, c_config = cfg, c_warnings = [], c_warnings_this_call = 0,
                        c_suppressed = 0, c_trace = False, c_traced = False, c_poisoned = False,
                        c_remove_clears = List.map_filter (\<lambda>n. map_option fe_ofs (field_get ft n)) (g_remove_clears cfg),
                        c_spawn_defaults = fills_for p ft (ap_gbase a) (g_spawn_defaults cfg),
                        c_std = std, c_abort_ret = None,
                        c_shared = \<lparr>sh_names = [], sh_by_name = (\<lambda>_. None)\<rparr>, c_entry_depth = 0, c_threads = []\<rparr>
               in Inr (apply_spawn_defaults (register_shared c 0) 0))))"

section \<open>The plan is a layout\<close>

lemma align_up_ge: "0 < align \<Longrightarrow> v \<le> align_up v align"
proof -
  assume "0 < align"
  then have "(v + (align - 1)) mod align < align" by simp
  moreover have "(v + (align - 1)) div align * align + (v + (align - 1)) mod align = v + (align - 1)" by simp
  ultimately show ?thesis unfolding align_up_def by linarith
qed

lemma align_up_le: "0 < align \<Longrightarrow> align_up v align \<le> v + (align - 1)"
  by (simp add: align_up_def)

lemma ceil_log2_le: "v \<le> 2 ^ ceil_log2 v"
proof (induction v rule: ceil_log2.induct)
  case (1 v)
  show ?case
  proof (cases "v \<le> 1")
    case False
    then have "(v + 1) div 2 \<le> 2 ^ ceil_log2 ((v + 1) div 2)" by (rule 1)
    then have "v \<le> 2 * 2 ^ ceil_log2 ((v + 1) div 2)" by linarith
    then show ?thesis using False by (subst ceil_log2.simps) simp
  next
    case True
    then show ?thesis by (simp add: ceil_log2.simps)
  qed
qed

lemma stride_shift_for_ok:
  assumes "stride_shift_for fb reserve = Some sk"
  shows "unat sk < 32" "unat fb \<le> 2 ^ unat sk"
proof -
  from assms obtain v where v: "checked_add fb (max reserve (fb div 2)) = Some v" "next_power_shift (max v 16) = Some sk"
    by (auto simp: stride_shift_for_def split: bind_splits)
  have k: "ceil_log2 (unat (max v 16)) < 32" "sk = of_nat (ceil_log2 (unat (max v 16)))"
    using v(2) by (auto simp: next_power_shift_def Let_def split: if_splits)
  then have s: "unat sk = ceil_log2 (unat (max v 16))" by (simp add: unat_of_nat_small)
  then show "unat sk < 32" using k by simp
  have "unat fb \<le> unat v" using checked_add_Some [OF v(1)] by simp
  also have "\<dots> \<le> unat (max v 16)" by (simp add: max_def word_le_nat_alt)
  finally show "unat fb \<le> 2 ^ unat sk" using ceil_log2_le [of "unat (max v 16)"] s by simp
qed

lemma plan_memory_ok:
  assumes "plan_memory p lim reserve = Inr a"
  shows "length (p_strings p) < ap_gbase a" "ap_ls_base a = ap_gbase a + (unat (num_globals p) + 3) * 4"
    "ap_s_len a = ap_ls_base a + unat (ap_ls_words a) * 4 + 4" "ap_s_len a \<le> ap_e_base a"
    "unat (ap_stride_shift a) < 32" "unat (ap_field_bytes a) \<le> 2 ^ unat (ap_stride_shift a)"
    "0 < ap_max_edicts a" "ap_max_edicts a \<le> unat (l_max_edicts lim)"
    "ap_e_base a + ap_max_edicts a * 2 ^ unat (ap_stride_shift a) \<le> ap_h_base a"
    "ap_h_base a + unat (l_heap_bytes lim) < ADDRESS_LIMIT"
proof -
  from assms obtain fb sk where fb: "checked_mul (p_entity_fields p) 4 = Some fb"
    "stride_shift_for fb reserve = Some sk"
    by (auto simp: plan_memory_def Let_def split: option.splits)
  note ap = assms [unfolded plan_memory_def Let_def fb option.case]
  show "length (p_strings p) < ap_gbase a"
    using ap align_up_ge [of 4 "length (p_strings p) + 1"] by (auto split: if_splits)
  show "ap_ls_base a = ap_gbase a + (unat (num_globals p) + 3) * 4" "0 < ap_max_edicts a"
    "ap_s_len a = ap_ls_base a + unat (ap_ls_words a) * 4 + 4" "ap_max_edicts a \<le> unat (l_max_edicts lim)"
    using ap by (auto split: if_splits)
  show "unat (ap_stride_shift a) < 32" "unat (ap_field_bytes a) \<le> 2 ^ unat (ap_stride_shift a)"
    using ap stride_shift_for_ok [OF fb(2)] by (auto split: if_splits)
  show "ap_s_len a \<le> ap_e_base a"
    using ap align_up_ge [of "2 ^ 20" "ap_s_len a"] by (auto split: if_splits)
  have h: "ap_h_base a = align_up (ap_e_base a + ap_max_edicts a * 2 ^ unat (ap_stride_shift a)) 16"
    using ap by (auto split: if_splits)
  then show "ap_e_base a + ap_max_edicts a * 2 ^ unat (ap_stride_shift a) \<le> ap_h_base a"
    using align_up_ge by simp
  have fit: "ap_max_edicts a \<le> (ADDRESS_LIMIT - ap_e_base a - unat (l_heap_bytes lim) - 16) div 2 ^ unat (ap_stride_shift a)"
    using ap by (auto split: if_splits)
  then have "ap_max_edicts a * 2 ^ unat (ap_stride_shift a) \<le> ADDRESS_LIMIT - ap_e_base a - unat (l_heap_bytes lim) - 16"
    by (meson div_times_less_eq_dividend le_trans mult_le_mono1)
  moreover have "0 < ap_max_edicts a * 2 ^ unat (ap_stride_shift a)" using \<open>0 < ap_max_edicts a\<close> by simp
  ultimately show "ap_h_base a + unat (l_heap_bytes lim) < ADDRESS_LIMIT"
    using h align_up_le [of 16 "ap_e_base a + ap_max_edicts a * 2 ^ unat (ap_stride_shift a)"] by linarith
qed

section \<open>The initial memory\<close>

lemma length_initial_s:
  assumes "length (p_strings p) \<le> ap_s_len a"
  shows "length (initial_s p a) = ap_s_len a"
proof -
  have "length (foldl (\<lambda>s (i, w). snd (put_u32 s (ap_gbase a + i * 4) w)) s es) = length s"
    for s and es :: "(nat \<times> u32) list"
    by (induction es arbitrary: s) (auto simp: split_beta)
  then show ?thesis using assms by (simp add: initial_s_def len_simps)
qed

lemma fits32_Inr: "fits32 r n = Inr w \<longleftrightarrow> n < 2 ^ 32 \<and> w = of_nat n"
  by (auto simp: fits32_def)

lemma initial_memory_wf:
  assumes pm: "plan_memory p lim reserve = Inr a" and im: "initial_memory p lim a = Inr m"
  shows "mem_wf m" "slots m = []" "0 < max_edicts m" "length (ms m) = ap_s_len a" "h_base m < 0x80000000"
    "ms m \<noteq> []" "unat (e_base m) = ap_e_base a"
proof -
  note pl = plan_memory_ok [OF pm]
  from im have b: "ap_gbase a < 2 ^ 32" "ap_e_base a < 2 ^ 32" "ap_h_base a < 2 ^ 32" "ap_ls_base a < 2 ^ 32"
    and m: "m = \<lparr>ms = initial_s p a, me = [], e_base = of_nat (ap_e_base a), stride_shift = ap_stride_shift a,
       field_bytes = ap_field_bytes a, max_edicts = index32 (ap_max_edicts a), slots = [],
       mheap = heap_new (l_heap_bytes lim), h_base = of_nat (ap_h_base a), ls_base = of_nat (ap_ls_base a),
       ls_words = ap_ls_words a\<rparr>"
    by (auto simp: initial_memory_def bind_res_Inr fits32_Inr)
  have u: "unat (e_base m) = ap_e_base a" "unat (h_base m) = ap_h_base a" "unat (ls_base m) = ap_ls_base a"
    using b by (simp_all add: m unat_of_nat_small)
  have "ap_max_edicts a < 2 ^ 32" using pl(8) unat_u32_bound [of "l_max_edicts lim"] by simp
  then have ed: "unat (max_edicts m) = ap_max_edicts a" by (simp add: m index32_def unat_of_nat_small)
  show ls: "length (ms m) = ap_s_len a" using pl(1-3) by (simp add: m length_initial_s)
  show "unat (e_base m) = ap_e_base a" by (rule u)
  show "slots m = []" by (simp add: m)
  show "0 < max_edicts m" using ed pl(7) by (simp add: word_less_nat_alt)
  have h: "unat (h_max (mheap m)) \<le> unat (l_heap_bytes lim)"
    by (simp add: m heap_new_def word_and_le2 word_le_nat_alt [symmetric])
  show "h_base m < 0x80000000"
    using pl(10) u(2) by (simp add: word_less_nat_alt ADDRESS_LIMIT_def)
  show "ms m \<noteq> []" using ls pl(3) by auto
  show "mem_wf m"
    using pl(4-6,9,10) h u ed ls pl(3) heap_new_wf
    by (simp add: mem_wf_def block_len_def word_less_nat_alt ADDRESS_LIMIT_def)
      (simp add: m heap_new_wf)
qed

lemma fixes_s_only: "s_only m (fix_specials p gb (fix_pointers p gb ws m))"
proof -
  have "s_only m (fix_pointers p gb ws m)"
    unfolding fix_pointers_def by (rule s_only_foldl) (simp add: Let_def s_only_set_g)
  moreover have "s_only m (fix_specials p gb m)" for m
    by (auto simp: fix_specials_def Let_def intro: s_only_intros s_only_trans split: option.split)
  ultimately show ?thesis by (rule s_only_trans)
qed

section \<open>A built machine is ready\<close>

lemma spawn_defaults_wf:
  assumes "mem_wf (c_mem c)"
  shows "mem_wf (c_mem (apply_spawn_defaults c e))" "ms (c_mem (apply_spawn_defaults c e)) = ms (c_mem c)"
    "apply_spawn_defaults c e = c\<lparr>c_mem := c_mem (apply_spawn_defaults c e)\<rparr>"
    "ls_words (c_mem (apply_spawn_defaults c e)) = ls_words (c_mem c)"
proof -
  define f where "f = (\<lambda>m (d :: spawn_fill).
         let v = (case sf_global d of Some at \<Rightarrow> mem_g m at | None \<Rightarrow> sf_value d)
         in (case field_offset m e (sf_field d) 1 of Some at \<Rightarrow> set_ent_word m at v | None \<Rightarrow> m))"
  have step: "mem_wf m \<Longrightarrow> mem_wf (f m d) \<and> ms (f m d) = ms m \<and> ls_words (f m d) = ls_words m" for m d
    by (auto simp: f_def Let_def set_ent_word_wf split: option.split) (simp_all add: set_ent_word_def)
  have "mem_wf m \<Longrightarrow> mem_wf (foldl f m ds) \<and> ms (foldl f m ds) = ms m \<and> ls_words (foldl f m ds) = ls_words m" for m ds
    by (induction ds arbitrary: m) (simp_all add: step)
  from this [OF assms, of "c_spawn_defaults c"]
  show "mem_wf (c_mem (apply_spawn_defaults c e))" "ms (c_mem (apply_spawn_defaults c e)) = ms (c_mem c)"
    "ls_words (c_mem (apply_spawn_defaults c e)) = ls_words (c_mem c)"
    by (simp_all add: apply_spawn_defaults_def f_def)
  show "apply_spawn_defaults c e = c\<lparr>c_mem := c_mem (apply_spawn_defaults c e)\<rparr>"
    by (simp add: apply_spawn_defaults_def)
qed

lemma register_shared_progs:
  assumes "c_progs c = [ps]"
  shows "\<exists>sh t. register_shared c 0 = c\<lparr>c_shared := t, c_progs := [ps\<lparr>ps_shared := sh\<rparr>]\<rparr>"
  using assms by (auto simp: register_shared_def nth_opt_def Let_def)

text \<open>What the machine built from a program looks like.\<close>

lemma build_core_shape:
  assumes "build_core p bn bm std cfg = Inr c"
  obtains a sh where "plan_memory p (g_limits cfg) (g_field_reserve_bytes cfg) = Inr a"
    "mem_wf (c_mem c)" "length (ms (c_mem c)) = ap_s_len a" "ms (c_mem c) \<noteq> []" "ap_gbase a < 2 ^ 32"
    "c_progs c = [(progs_state_new p (of_nat (ap_gbase a)) (bind_callees p bn bm)
        (state_handles_for p (of_nat (ap_gbase a)) (initial_fields p)))\<lparr>ps_shared := sh\<rparr>]"
    "c_x c = exec_default\<lparr>x_func := NO_FUNCTION\<rparr>" "c_frames c = []" "c_traced c = False"
    "c_config c = cfg" "c_strings c = strings_new (l_temp_strings (g_limits cfg)) (l_temp_string_bytes (g_limits cfg))"
proof -
  from assms obtain a m0 m1 where parts: "plan_memory p (g_limits cfg) (g_field_reserve_bytes cfg) = Inr a"
    "initial_memory p (g_limits cfg) a = Inr m0" "init_world m0 = Inr m1"
    by (auto simp: build_core_def bind_res_Inr Let_def split: sum.splits)
  note im = initial_memory_wf [OF parts(1,2)]
  note iw = init_world_wf [OF im(1-3) parts(3)]
  define m where "m = fix_specials p (ap_gbase a) (fix_pointers p (ap_gbase a) (p_pointer_relocs p) m1)"
  have m: "mem_wf m" "length (ms m) = ap_s_len a"
    using fixes_s_only [of m1 p "ap_gbase a" "p_pointer_relocs p"] iw(1,2) im(4) s_only_wf
    by (auto simp: m_def s_only_def)
  define ps where "ps = progs_state_new p (of_nat (ap_gbase a)) (bind_callees p bn bm)
        (state_handles_for p (of_nat (ap_gbase a)) (initial_fields p))"
  define d where "d = \<lparr>c_mem = m,
                        c_strings = strings_new (l_temp_strings (g_limits cfg)) (l_temp_string_bytes (g_limits cfg)),
                        c_progs = [ps], c_fields = initial_fields p, c_frames = [],
                        c_x = exec_default\<lparr>x_func := NO_FUNCTION\<rparr>, c_argc = 0, c_builtin = 0, c_nesting = 0,
                        c_rng = g_seed cfg, c_config = cfg, c_warnings = [], c_warnings_this_call = 0,
                        c_suppressed = 0, c_trace = False, c_traced = False, c_poisoned = False,
                        c_remove_clears = List.map_filter (\<lambda>n. map_option fe_ofs (field_get (initial_fields p) n)) (g_remove_clears cfg),
                        c_spawn_defaults = fills_for p (initial_fields p) (ap_gbase a) (g_spawn_defaults cfg),
                        c_std = std, c_abort_ret = None,
                        c_shared = \<lparr>sh_names = [], sh_by_name = (\<lambda>_. None)\<rparr>, c_entry_depth = 0, c_threads = []\<rparr>"
  have dd: "c_x d = exec_default\<lparr>x_func := NO_FUNCTION\<rparr>" "c_frames d = []" "c_traced d = False"
    "c_config d = cfg" "c_strings d = strings_new (l_temp_strings (g_limits cfg)) (l_temp_string_bytes (g_limits cfg))"
    by (simp_all add: d_def)
  have c: "c = apply_spawn_defaults (register_shared d 0) 0"
    using assms by (simp add: build_core_def parts bind_res_def Let_def d_def m_def ps_def)
  obtain sh t where rs: "register_shared d 0 = d\<lparr>c_shared := t, c_progs := [ps\<lparr>ps_shared := sh\<rparr>]\<rparr>"
    using register_shared_progs [of d ps] by (auto simp: d_def)
  have wd: "mem_wf (c_mem (register_shared d 0))" using m unfolding rs by (simp add: d_def)
  note sd = spawn_defaults_wf [OF wd, of 0]
  have gb: "ap_gbase a < 2 ^ 32" using parts(2) by (auto simp: initial_memory_def bind_res_Inr fits32_Inr)
  obtain mm where cm: "c = d\<lparr>c_shared := t, c_progs := [ps\<lparr>ps_shared := sh\<rparr>], c_mem := mm\<rparr>"
    using sd(3) unfolding rs c by blast
  have wf: "mem_wf (c_mem c)" using sd(1) by (simp add: c)
  have "ms (c_mem c) = ms (c_mem (register_shared d 0))" using sd(2) by (simp add: c)
  then have len: "length (ms (c_mem c)) = ap_s_len a" using m unfolding rs by (simp add: d_def)
  have ne: "ms (c_mem c) \<noteq> []" using len im(4,6) by (metis length_0_conv)
  have rest: "c_progs c = [ps\<lparr>ps_shared := sh\<rparr>]" "c_x c = exec_default\<lparr>x_func := NO_FUNCTION\<rparr>"
    "c_frames c = []" "c_traced c = False" "c_config c = cfg"
    "c_strings c = strings_new (l_temp_strings (g_limits cfg)) (l_temp_string_bytes (g_limits cfg))"
    unfolding cm by (simp_all add: dd)
  show thesis by (rule that [OF parts(1) wf len ne gb rest(1) [unfolded ps_def] rest(2-6)])
qed

lemma ap_gbase_near: "plan_memory p lim reserve = Inr a \<Longrightarrow> ap_gbase a \<le> length (p_strings p) + 4"
proof -
  assume a: "plan_memory p lim reserve = Inr a"
  then obtain fb sk where fb: "checked_mul (p_entity_fields p) 4 = Some fb" "stride_shift_for fb reserve = Some sk"
    by (auto simp: plan_memory_def Let_def split: option.splits)
  note ap = a [unfolded plan_memory_def Let_def fb option.case]
  have "ap_gbase a = align_up (length (p_strings p) + 1) 4" using ap by (auto split: if_splits)
  moreover have "align_up (n + 1) 4 \<le> n + 4" for n by (simp add: align_up_def)
  ultimately show ?thesis by simp
qed

lemma built_core_ready:
  assumes "parse data = Inr p" "build_core p bn bm std cfg = Inr c" "unat (p_file_statements p) + 1 < 2 ^ 32"
  shows "core_wf c \<and> run_ready Whole c \<and>
    (window_fits c \<and> (4 \<le> length (p_globals p) \<or> length (p_strings p) + 40 \<le> WINDOW_MASK) \<longrightarrow>
       run_ready Window c \<and> list_all code_checked (c_progs c) \<and> stack_fits c \<and>
       unat (x_pc (c_x c)) < CODE_WINDOW)"
proof -
  have pc: "program_checked p" by (rule parsed_program_checked [OF assms(1)])
  obtain a sh where c: "plan_memory p (g_limits cfg) (g_field_reserve_bytes cfg) = Inr a"
    "mem_wf (c_mem c)" "ap_gbase a < 2 ^ 32"
    "c_progs c = [(progs_state_new p (of_nat (ap_gbase a)) (bind_callees p bn bm)
        (state_handles_for p (of_nat (ap_gbase a)) (initial_fields p)))\<lparr>ps_shared := sh\<rparr>]" (is "_ = [?ps\<lparr>ps_shared := sh\<rparr>]")
    "c_x c = exec_default\<lparr>x_func := NO_FUNCTION\<rparr>" "c_frames c = []"
    "c_strings c = strings_new (l_temp_strings (g_limits cfg)) (l_temp_string_bytes (g_limits cfg))"
    using build_core_shape [OF assms(2)] by metis
  have "stack_wf c" by (simp add: stack_wf_def c exec_default_def)
  then have wf: "core_wf c" by (simp add: core_wf_def c str_wf_new)
  have st: "p_statements p \<noteq> []" "st_op (last (p_statements p)) = BadOp JumpOutOfRangeOp"
    "length (p_statements p) < 2 ^ 32" "length (p_globals p) < 2 ^ 32"
    using pc assms(3) by (auto simp: program_checked_def Let_def sentinel_def)
  have ready: "run_ready v c" if "v = Window \<Longrightarrow> length (p_statements p) \<le> CODE_WINDOW" for v
    using loaded_code_ready [OF st(1-3) that] by (simp add: run_ready_def c)
  have win: "length (p_statements p) \<le> CODE_WINDOW \<and>
      unat (of_nat (ap_gbase a) :: u32) + (length (p_globals p) + 5) * 4 \<le> WINDOW_MASK" if "window_fits c"
  proof -
    have "length (ps_code ?ps) = CODE_WINDOW" "ps_gbase ?ps = of_nat (ap_gbase a)" "ps_program ?ps = p"
      "unat (ps_gbase ?ps) + (unat (ps_num_globals ?ps) + 5) * 4 \<le> WINDOW_MASK"
      using that by (auto simp: window_fits_def c ps_num_globals_def progs_state_new_def split: prod.splits)
    then show ?thesis
      using st(4) by (simp add: ps_num_globals_def num_globals_def len32_unat)
        (simp add: progs_state_new_def relocate_def split: prod.splits)
  qed
  have gb: "unat (of_nat (ap_gbase a) :: u32) \<le> length (p_strings p) + 4"
    using ap_gbase_near [OF c(1)] c(3) by (simp add: unat_of_nat_small)
  have cc: "code_checked ?ps" if "window_fits c" "4 \<le> length (p_globals p) \<or> length (p_strings p) + 40 \<le> WINDOW_MASK"
    using win [OF that(1)] that(2) gb by (intro loaded_code_checked [OF pc]) auto
  show ?thesis
    using wf ready win cc
    by (auto simp: c stack_fits_def exec_default_def CODE_WINDOW_def code_checked_def ps_num_globals_def)
qed

text \<open>C19: whatever bytes the file has, if it parses (to a program of fewer than 2^32 - 1 statements) and a machine is built
  from it then that machine is ready: its memory, strings and call stack are well formed, its code can be run (so every run
  of it ends), and when \<open>window_fits\<close> holds of it, everything the window relies on holds too: operands, jump
  targets and entry points were checked by the loader.  The last part needs one thing that neither \<open>window_fits\<close> nor the
  loader asks for: that the program has at least four globals, or that its strings leave room in the window for the slots
  of the first two parameters.\<close>

theorem build_core_ready:
  assumes "parse data = Inr p" "build_core p bn bm std cfg = Inr c" "unat (p_file_statements p) + 1 < 2 ^ 32"
  shows "core_wf c \<and> run_ready Whole c \<and>
    (window_fits c \<and> (4 \<le> length (p_globals p) \<or> length (p_strings p) + 40 \<le> WINDOW_MASK) \<longrightarrow>
       run_ready Window c \<and> list_all code_checked (c_progs c) \<and> stack_fits c \<and>
       unat (x_pc (c_x c)) < CODE_WINDOW)"
  using built_core_ready [OF assms] .

lemma ceil_log2_256: "ceil_log2 256 = 8"
  by (simp add: ceil_log2.simps)

lemma sample_builds:
  assumes "length (p_strings p) = 3" "length (p_globals p) = 4" "p_entity_fields p = 0"
  shows "\<exists>c. build_core p bn bm std config_menu = Inr c"
proof -
  have g: "unat (num_globals p) = 4" using assms(2) by (simp add: num_globals_def len32_unat)
  have sk: "stride_shift_for 0 256 = Some 8"
    by (simp add: stride_shift_for_def checked_add_def next_power_shift_def ceil_log2_256 Let_def)
  obtain a where a: "plan_memory p default_limits 256 = Inr a" "ap_gbase a = 4" "ap_e_base a = 0x1500000"
    "ap_h_base a = 0x1500000 + 0x1000000" "ap_ls_base a = 32" "ap_stride_shift a = 8"
    by (simp add: plan_memory_def Let_def assms g checked_mul_def sk default_limits_def align_up_def
        ADDRESS_LIMIT_def max_def)
  then obtain m where m: "initial_memory p default_limits a = Inr m" "stride_shift m = 8"
    by (simp add: initial_memory_def fits32_def bind_res_def)
  have "\<exists>m'. init_world m = Inr m'"
    by (simp add: init_world_def grow_to_def usize_shl_def bind_res_def m(2) Let_def)
  moreover have "g_limits config_menu = default_limits" "g_field_reserve_bytes config_menu = 256"
    by (simp_all add: config_menu_def config_base_def)
  ultimately show ?thesis by (auto simp: build_core_def a(1) m(1) bind_res_def Let_def)
qed

theorem build_core_ready_witness:
  "\<exists>p (c :: unit core). parse sample_file = Inr p \<and>
    build_core p (\<lambda>_. None) (\<lambda>_. None) () config_menu = Inr c \<and> core_wf c \<and> run_ready Whole c"
proof -
  obtain p where p: "parse sample_file = Inr p" "length (p_strings p) = 3" "length (p_globals p) = 4"
    "p_file_statements p = 1" "p_entity_fields p = 0"
    using sample_parse by fastforce
  obtain c :: "unit core" where c: "build_core p (\<lambda>_. None) (\<lambda>_. None) () config_menu = Inr c"
    using sample_builds [of p "\<lambda>_. None" "\<lambda>_. None" "()", OF p(2,3,5)] by blast
  then show ?thesis using p build_core_ready [OF p(1) c] by simp
qed

end
