(* ===== verification/Numbers.thy ===== *)
theory Numbers
  imports Prelude
begin

text \<open>
  FTE's builtin numbers (\<open>src/builtins/numbers.rs\<close>): for every kind of virtual machine the numbered
  builtins, sorted by name, and the builtins bound by name only.  The tables are split into parts of at
  most 140 entries.
\<close>

definition csqc_numbers_1 :: "(string \<times> u32) list" where
  "csqc_numbers_1 =
    [(''R_BeginPolygon'', 306), (''R_EndPolygon'', 308), (''R_PolygonVertex'', 307), (''ReadAngle'', 365),
     (''ReadByte'', 360), (''ReadChar'', 361), (''ReadCoord'', 364), (''ReadEntityNum'', 368),
     (''ReadFloat'', 367), (''ReadLong'', 363), (''ReadPicture'', 501), (''ReadShort'', 362),
     (''ReadString'', 366), (''SetListener'', 351), (''abort'', 211), (''acos'', 472), (''adddecal'', 375),
     (''addentities'', 301), (''addentity'', 302), (''addprogs'', 202), (''addwantedhostcachekey'', 623),
     (''ambientsound'', 74), (''anglemod'', 102), (''applycustomskin'', 378), (''argescape'', 295),
     (''argv'', 442), (''argv_end_index'', 516), (''argv_start_index'', 515), (''asin'', 471),
     (''atan'', 473), (''atan2'', 474), (''bitshift'', 218), (''bound'', 96), (''boxparticles'', 502),
     (''breakpoint'', 6), (''buf_copy'', 463), (''buf_create'', 460), (''buf_cvarlist'', 517),
     (''buf_del'', 461), (''buf_getsize'', 462), (''buf_implode'', 465), (''buf_loadfile'', 535),
     (''buf_sort'', 464), (''buf_writefile'', 536), (''bufstr_add'', 468), (''bufstr_find'', 537),
     (''bufstr_free'', 469), (''bufstr_get'', 466), (''bufstr_set'', 467), (''callfunction'', 605),
     (''calltimeofday'', 231), (''ceil'', 38), (''changepitch'', 63), (''changeyaw'', 49),
     (''checkbottom'', 40), (''checkcommand'', 294), (''checkextension'', 99), (''checkpvs'', 240),
     (''chr2str'', 223), (''clearscene'', 300), (''con_draw'', 393), (''con_getset'', 391),
     (''con_input'', 394), (''con_printf'', 392), (''copyentity'', 400), (''coredump'', 28), (''cos'', 61),
     (''cprint'', 338), (''crc16'', 494), (''cvar'', 45), (''cvar_defstring'', 482),
     (''cvar_description'', 518), (''cvar_set'', 72), (''cvar_string'', 448), (''cvar_type'', 495),
     (''deltalisten'', 371), (''digest_hex'', 639), (''dprint'', 25), (''drawcharacter'', 320),
     (''drawfill'', 323), (''drawgetimagesize'', 318), (''drawline'', 315), (''drawpic'', 322),
     (''drawrawstring'', 321), (''drawresetcliparea'', 325), (''drawsetcliparea'', 324),
     (''drawstring'', 326), (''drawsubpic'', 328), (''droptofloor'', 34), (''dynamiclight_add'', 305),
     (''dynamiclight_get'', 372), (''dynamiclight_set'', 373), (''edict_num'', 459), (''effect'', 404),
     (''entityfieldname'', 497), (''entityfieldtype'', 498), (''eprint'', 31), (''error'', 10),
     (''etos'', 65), (''externcall'', 201), (''externset'', 204), (''externvalue'', 203), (''fabs'', 43),
     (''fclose'', 111), (''fcopy'', 650), (''fexists'', 653), (''fgets'', 112), (''find'', 18),
     (''findchain'', 402), (''findchainflags'', 450), (''findchainfloat'', 403), (''findflags'', 449),
     (''findfloat'', 98), (''findfont'', 356), (''findkeysforcommand'', 521), (''findradius'', 22),
     (''floor'', 37), (''fopen'', 110), (''fputs'', 113), (''frameduration'', 277),
     (''frameforname'', 276), (''frametoname'', 284), (''freepic'', 319), (''fremove'', 652),
     (''frename'', 651), (''ftos'', 26), (''gecko_create'', 487), (''gecko_destroy'', 488),
     (''gecko_get_texture_extent'', 493), (''gecko_keyevent'', 490), (''gecko_mousemove'', 491),
     (''gecko_navigate'', 489), (''gecko_resize'', 492), (''getbindmaps'', 631), (''getentity'', 504),
     (''getentityfieldstring'', 499), (''getentitytoken'', 355), (''getextresponse'', 624),
     (''getgamedirinfo'', 626), (''gethostcacheindexforkey'', 622)]"

definition csqc_numbers_2 :: "(string \<times> u32) list" where
  "csqc_numbers_2 =
    [(''gethostcachenumber'', 621), (''gethostcachestring'', 612), (''gethostcachevalue'', 611),
     (''getinputstate'', 345), (''getkeybind'', 342), (''getlight'', 92), (''getmodelindex'', 200),
     (''getmousepos'', 344), (''getmousetarget'', 604), (''getplayerkeyvalue'', 348),
     (''getproperty'', 309), (''getresolution'', 608), (''getsoundtime'', 533), (''getstatf'', 331),
     (''getstati'', 330), (''getstats'', 332), (''getsurfaceclippedpoint'', 439),
     (''getsurfacenearpoint'', 438), (''getsurfacenormal'', 436), (''getsurfacenumpoints'', 434),
     (''getsurfacenumtriangles'', 628), (''getsurfacepoint'', 435), (''getsurfacepointattribute'', 486),
     (''getsurfacetexture'', 437), (''getsurfacetriangle'', 629), (''gettagindex'', 451),
     (''gettaginfo'', 452), (''gettime'', 519), (''hash_add'', 289), (''hash_createtab'', 287),
     (''hash_delete'', 291), (''hash_destroytab'', 288), (''hash_get'', 290), (''hash_getkey'', 292),
     (''htos'', 262), (''infoadd'', 226), (''infoget'', 227), (''infokey'', 80), (''iscachedpic'', 316),
     (''isdemo'', 349), (''isfunction'', 607), (''isserver'', 350), (''itos'', 260),
     (''keynumtostring'', 340), (''keynumtostring_menu'', 609), (''keynumtostring_omgwtf'', 520),
     (''lightstyle'', 35), (''loadcustomskin'', 377), (''loadfont'', 357), (''loadfromdata'', 529),
     (''loadfromfile'', 530), (''localcmd'', 46), (''localsound'', 177), (''log'', 532),
     (''makestatic'', 69), (''makevectors'', 1), (''max'', 95), (''memalloc'', 384), (''memcpy'', 386),
     (''memfill8'', 387), (''memfree'', 385), (''memgetval'', 388), (''memptradd'', 390),
     (''memsetval'', 389), (''min'', 94), (''mod'', 245), (''modelnameforindex'', 334),
     (''movetogoal'', 67), (''netaddress_resolve'', 625), (''nextent'', 47), (''normalize'', 9),
     (''num_for_edict'', 512), (''numentityfields'', 496), (''objerror'', 11), (''openportal'', 207),
     (''parseentitydata'', 613), (''particle'', 48), (''particle2'', 215), (''particle3'', 216),
     (''particle4'', 217), (''particleeffectnum'', 335), (''particleeffectquery'', 374),
     (''physics_addforce'', 541), (''physics_addtorque'', 542), (''physics_enable'', 540),
     (''pointcontents'', 41), (''pointparticles'', 337), (''pointsound'', 483), (''pow'', 97),
     (''precache_file'', 68), (''precache_file2'', 77), (''precache_model'', 20),
     (''precache_model2'', 75), (''precache_pic'', 317), (''precache_sound'', 19),
     (''precache_sound2'', 76), (''print'', 339), (''project'', 311), (''putentityfieldstring'', 500),
     (''random'', 7), (''randomvec'', 91), (''refreshhostcache'', 620), (''registercommand'', 352),
     (''registercvar'', 93), (''releasecustomskin'', 379), (''remove'', 15), (''renderscene'', 304),
     (''resethostcachemasks'', 615), (''resorthostcache'', 618), (''resourcestatus'', 286), (''rint'', 36),
     (''rmtree'', 654), (''rotatevectorsbyangle'', 235), (''rotatevectorsbytag'', 244),
     (''rotatevectorsbyvectors'', 236), (''runstandardplayerphysics'', 347), (''search_begin'', 444),
     (''search_end'', 445), (''search_getfilename'', 447), (''search_getsize'', 446), (''sendevent'', 359),
     (''sendpacket'', 242), (''serverkey'', 354), (''setattachment'', 443), (''setbindmaps'', 632),
     (''setcursormode'', 343), (''setcustomskin'', 376), (''sethostcachemasknumber'', 617),
     (''sethostcachemaskstring'', 616), (''sethostcachesort'', 619), (''setkeybind'', 630),
     (''setmodel'', 3), (''setmodelindex'', 333), (''setmousetarget'', 603), (''setorigin'', 2),
     (''setpause'', 531), (''setproperty'', 303), (''setsensitivityscaler'', 346), (''setsize'', 4),
     (''shaderforname'', 238)]"

definition csqc_numbers_3 :: "(string \<times> u32) list" where
  "csqc_numbers_3 =
    [(''sin'', 60), (''skel_build'', 264), (''skel_copybones'', 274), (''skel_create'', 263),
     (''skel_delete'', 275), (''skel_find_bone'', 268), (''skel_get_boneabs'', 270),
     (''skel_get_bonename'', 266), (''skel_get_boneparent'', 267), (''skel_get_bonerel'', 269),
     (''skel_get_numbones'', 265), (''skel_mmap'', 282), (''skel_premul_bone'', 272),
     (''skel_premul_bones'', 273), (''skel_ragupdate'', 281), (''skel_set_bone'', 271),
     (''skel_set_bone_world'', 283), (''skinforname'', 237), (''skintoname'', 285), (''sound'', 8),
     (''soundlength'', 534), (''spawn'', 14), (''sprintf'', 627), (''sqrt'', 62), (''stof'', 81),
     (''stoh'', 261), (''stoi'', 259), (''stov'', 117), (''str2chr'', 222), (''strcasecmp'', 229),
     (''strcat'', 115), (''strconv'', 224), (''strdecolorize'', 477), (''strftime'', 478),
     (''stringtokeynum'', 341), (''stringtokeynum_menu'', 614), (''stringwidth'', 327),
     (''strireplace'', 485), (''strlen'', 114), (''strlennocol'', 476), (''strncasecmp'', 230),
     (''strncmp'', 228), (''strpad'', 225), (''strreplace'', 484), (''strstrofs'', 221),
     (''strtolower'', 480), (''strtoupper'', 481), (''strunzone'', 119), (''strzone'', 118),
     (''substring'', 116), (''tan'', 475), (''te_beam'', 431), (''te_blood'', 405), (''te_bloodqw'', 239),
     (''te_bloodshower'', 406), (''te_customflash'', 417), (''te_explosion'', 421),
     (''te_explosion2'', 427), (''te_explosionquad'', 415), (''te_explosionrgb'', 407),
     (''te_flamejet'', 457), (''te_gunshot'', 418), (''te_gunshotquad'', 412), (''te_knightspike'', 424),
     (''te_lavasplash'', 425), (''te_lightning1'', 428), (''te_lightning2'', 429),
     (''te_lightning3'', 430), (''te_lightningblood'', 219), (''te_particlecube'', 408),
     (''te_particlerain'', 409), (''te_particlesnow'', 410), (''te_plasmaburn'', 433),
     (''te_smallflash'', 416), (''te_spark'', 411), (''te_spike'', 419), (''te_spikequad'', 413),
     (''te_superspike'', 420), (''te_superspikequad'', 414), (''te_tarexplosion'', 422),
     (''te_teleport'', 426), (''te_wizspike'', 423), (''terrain_edit'', 278), (''tokenize'', 441),
     (''tokenize_console'', 514), (''tokenizebyseparator'', 479), (''touchtriggers'', 279),
     (''tracebox'', 90), (''traceline'', 16), (''traceoff'', 30), (''traceon'', 29), (''tracetoss'', 64),
     (''trailparticles'', 336), (''unproject'', 310), (''uri_escape'', 510), (''uri_get'', 513),
     (''uri_unescape'', 511), (''vectoangles'', 51), (''vectorvectors'', 432), (''vectoyaw'', 13),
     (''vlen'', 12), (''vtos'', 27), (''walkmove'', 32), (''wasfreed'', 353), (''whichpack'', 503),
     (''writetofile'', 606)]"

definition csqc_numbers :: "(string \<times> u32) list" where
  "csqc_numbers = csqc_numbers_1 @ csqc_numbers_2 @ csqc_numbers_3"

definition csqc_named :: "string list" where
  "csqc_named =
    [''R_EndPolygonRibbon'', ''Readint64'', ''addtrisoup_simple'', ''brush_calcfacepoints'',
     ''brush_create'', ''brush_delete'', ''brush_findinvolume'', ''brush_get'', ''brush_getfacepoints'',
     ''brush_selected'', ''checkbuiltin'', ''cin_close'', ''cin_getstate'', ''cin_open'', ''cin_restart'',
     ''cin_setstate'', ''clipboard_set'', ''createbuffer'', ''crossproduct'', ''cvars_haveunsaved'',
     ''digest_ptr'', ''drawrotpic'', ''drawrotsubpic'', ''drawtextfield'', ''dynamiclight_spawnstatic'',
     ''entityfieldref'', ''entityprotection'', ''find_list'', ''findentityfield'',
     ''findkeysforcommandex'', ''findradius_list'', ''fread'', ''fseek'', ''fsize'', ''ftoi'', ''fwrite'',
     ''gecko_getproperty'', ''generateentitydata'', ''getchannellevel'', ''getcursormode'',
     ''getlightstyle'', ''getlightstylergb'', ''getlocaluserinfo'', ''getlocaluserinfoblob'',
     ''getlocationname'', ''getmodeleventidx'', ''getnextmodelevent'', ''getpackagemanagerinfo'',
     ''getplayerkeyblob'', ''getplayerkeyfloat'', ''getplayerstat'', ''itof'', ''logarithm'',
     ''memstrsize'', ''modelframecount'', ''patch_create'', ''patch_getcp'', ''patch_getmesh'',
     ''pointcontentsmask'', ''processmodelevents'', ''pushmove'', ''r_readimage'', ''r_uploadimage'',
     ''readdouble'', ''readint'', ''remapshader'', ''removeentity'', ''removeinstant'',
     ''route_calculate'', ''search_fopen'', ''search_getfilemtime'', ''search_getfilesize'',
     ''search_getpackagename'', ''serverkeyblob'', ''serverkeyfloat'', ''setlocaluserinfo'',
     ''setlocaluserinfoblob'', ''setmousepos'', ''setup_reverb'', ''setwindowcaption'', ''skel_build_ptr'',
     ''skel_postmul_bone'', ''soundupdate'', ''spriteframe'', ''strtrim'']"

definition ssqc_numbers_1 :: "(string \<times> u32) list" where
  "ssqc_numbers_1 =
    [(''CustomTempEnt'', 209), (''R_BeginPolygon'', 306), (''R_EndPolygon'', 308),
     (''R_PolygonVertex'', 307), (''RegisterTempEnt'', 208), (''WriteAngle'', 57), (''WriteByte'', 52),
     (''WriteChar'', 53), (''WriteCoord'', 56), (''WriteEntity'', 59), (''WriteFloat'', 280),
     (''WriteLong'', 55), (''WritePicture'', 501), (''WriteShort'', 54), (''WriteString'', 58),
     (''WriteUnterminatedString'', 456), (''abort'', 211), (''acos'', 472), (''addprogs'', 202),
     (''aim'', 44), (''ambientsound'', 74), (''anglemod'', 102), (''argescape'', 295), (''argv'', 442),
     (''argv_end_index'', 516), (''argv_start_index'', 515), (''asin'', 471), (''atan'', 473),
     (''atan2'', 474), (''bitshift'', 218), (''bound'', 96), (''bprint'', 23), (''breakpoint'', 6),
     (''buf_copy'', 463), (''buf_create'', 460), (''buf_cvarlist'', 517), (''buf_del'', 461),
     (''buf_getsize'', 462), (''buf_implode'', 465), (''buf_loadfile'', 535), (''buf_sort'', 464),
     (''buf_writefile'', 536), (''bufstr_add'', 468), (''bufstr_find'', 537), (''bufstr_free'', 469),
     (''bufstr_get'', 466), (''bufstr_set'', 467), (''builtin_find'', 100), (''callfunction'', 605),
     (''calltimeofday'', 231), (''ceil'', 38), (''centerprint'', 73), (''changelevel'', 70),
     (''changepic'', 107), (''changepitch'', 63), (''changeyaw'', 49), (''checkbottom'', 40),
     (''checkclient'', 17), (''checkcommand'', 294), (''checkextension'', 99), (''checkpvs'', 240),
     (''chr2str'', 223), (''clientcommand'', 440), (''clientstat'', 232), (''clienttype'', 455),
     (''copyentity'', 400), (''coredump'', 28), (''cos'', 61), (''crc16'', 494), (''cvar'', 45),
     (''cvar_defstring'', 482), (''cvar_description'', 518), (''cvar_set'', 72), (''cvar_setf'', 176),
     (''cvar_string'', 448), (''cvar_type'', 495), (''digest_hex'', 639), (''dprint'', 25),
     (''dropclient'', 453), (''droptofloor'', 34), (''edict_num'', 459), (''effect'', 404),
     (''entityfieldname'', 497), (''entityfieldtype'', 498), (''eprint'', 31), (''error'', 10),
     (''etos'', 65), (''externcall'', 201), (''externset'', 204), (''externvalue'', 203), (''fabs'', 43),
     (''fclose'', 111), (''fcopy'', 650), (''fexists'', 653), (''fgets'', 112), (''find'', 18),
     (''findchain'', 402), (''findchainflags'', 450), (''findchainfloat'', 403), (''findflags'', 449),
     (''findfloat'', 98), (''findradius'', 22), (''floor'', 37), (''fopen'', 110), (''forceinfokey'', 213),
     (''fork'', 210), (''fputs'', 113), (''frameduration'', 277), (''frameforname'', 276),
     (''frametoname'', 284), (''fremove'', 652), (''frename'', 651), (''ftos'', 26),
     (''getentityfieldstring'', 499), (''getlight'', 92), (''getmodelindex'', 200),
     (''getsurfaceclippedpoint'', 439), (''getsurfacenearpoint'', 438), (''getsurfacenormal'', 436),
     (''getsurfacenumpoints'', 434), (''getsurfacenumtriangles'', 628), (''getsurfacepoint'', 435),
     (''getsurfacepointattribute'', 486), (''getsurfacetexture'', 437), (''getsurfacetriangle'', 629),
     (''gettagindex'', 451), (''gettaginfo'', 452), (''gettime'', 519), (''globalstat'', 233),
     (''hash_add'', 289), (''hash_createtab'', 287), (''hash_delete'', 291), (''hash_destroytab'', 288),
     (''hash_get'', 290), (''hash_getkey'', 292), (''hidepic'', 105), (''htos'', 262), (''infoadd'', 226),
     (''infoget'', 227), (''infokey'', 80)]"

definition ssqc_numbers_2 :: "(string \<times> u32) list" where
  "ssqc_numbers_2 =
    [(''isbackbuffered'', 234), (''isfunction'', 607), (''itos'', 260), (''lightstyle'', 35),
     (''lightstylestatic'', 5), (''loadfromdata'', 529), (''loadfromfile'', 530), (''localcmd'', 46),
     (''localsound'', 177), (''log'', 532), (''logfrag'', 79), (''makestatic'', 69), (''makevectors'', 1),
     (''matchclientname'', 241), (''max'', 95), (''memalloc'', 384), (''memcpy'', 386),
     (''memfill8'', 387), (''memfree'', 385), (''memgetval'', 388), (''memptradd'', 390),
     (''memsetval'', 389), (''min'', 94), (''mod'', 245), (''movepic'', 106), (''movetogoal'', 67),
     (''multicast'', 82), (''netaddress_resolve'', 625), (''nextent'', 47), (''normalize'', 9),
     (''num_for_edict'', 512), (''numentityfields'', 496), (''objerror'', 11), (''openportal'', 207),
     (''parseentitydata'', 613), (''particle'', 48), (''particle2'', 215), (''particle3'', 216),
     (''particle4'', 217), (''particleeffectnum'', 335), (''physics_addforce'', 541),
     (''physics_addtorque'', 542), (''physics_enable'', 540), (''pointcontents'', 41),
     (''pointparticles'', 337), (''pointsound'', 483), (''pow'', 97), (''precache_file'', 68),
     (''precache_file2'', 77), (''precache_model'', 20), (''precache_model2'', 75),
     (''precache_sound'', 19), (''precache_sound2'', 76), (''precache_vwep_model'', 532), (''print'', 339),
     (''putentityfieldstring'', 500), (''random'', 7), (''randomvec'', 91), (''redirectcmd'', 101),
     (''registercommand'', 352), (''registercvar'', 93), (''remove'', 15), (''resourcestatus'', 286),
     (''rint'', 36), (''rmtree'', 654), (''rotatevectorsbyangle'', 235), (''rotatevectorsbyvectors'', 236),
     (''runstandardplayerphysics'', 347), (''search_begin'', 444), (''search_end'', 445),
     (''search_getfilename'', 447), (''search_getsize'', 446), (''sendpacket'', 242), (''serverkey'', 354),
     (''setattachment'', 443), (''setcolor'', 401), (''setmodel'', 3), (''setorigin'', 2),
     (''setpause'', 531), (''setsize'', 4), (''setspawnparms'', 78), (''showpic'', 104), (''sin'', 60),
     (''skel_build'', 264), (''skel_copybones'', 274), (''skel_create'', 263), (''skel_delete'', 275),
     (''skel_find_bone'', 268), (''skel_get_boneabs'', 270), (''skel_get_bonename'', 266),
     (''skel_get_boneparent'', 267), (''skel_get_bonerel'', 269), (''skel_get_numbones'', 265),
     (''skel_mmap'', 282), (''skel_premul_bone'', 272), (''skel_premul_bones'', 273),
     (''skel_ragupdate'', 281), (''skel_set_bone'', 271), (''skel_set_bone_world'', 283),
     (''skinforname'', 237), (''skintoname'', 285), (''sleep'', 212), (''sound'', 8), (''spawn'', 14),
     (''spawnclient'', 454), (''sprint'', 24), (''sprintf'', 627), (''sqlclosequery'', 253),
     (''sqlconnect'', 250), (''sqldisconnect'', 251), (''sqlerror'', 255), (''sqlescape'', 256),
     (''sqlopenquery'', 252), (''sqlreadfield'', 254), (''sqlreadfloat'', 258), (''sqlversion'', 257),
     (''sqrt'', 62), (''stof'', 81), (''stoh'', 261), (''stoi'', 259), (''stov'', 117), (''str2chr'', 222),
     (''strcasecmp'', 229), (''strcat'', 115), (''strconv'', 224), (''strdecolorize'', 477),
     (''strftime'', 478), (''strireplace'', 485), (''strlen'', 114), (''strlennocol'', 476),
     (''strncasecmp'', 230), (''strncmp'', 228), (''strpad'', 225), (''strreplace'', 484),
     (''strstrofs'', 221), (''strtolower'', 480), (''strtoupper'', 481), (''strunzone'', 119),
     (''strzone'', 118), (''stuffcmd'', 21)]"

definition ssqc_numbers_3 :: "(string \<times> u32) list" where
  "ssqc_numbers_3 =
    [(''substring'', 116), (''tan'', 475), (''te_beam'', 431), (''te_blood'', 405), (''te_bloodqw'', 239),
     (''te_bloodshower'', 406), (''te_customflash'', 417), (''te_explosion'', 421),
     (''te_explosion2'', 427), (''te_explosionquad'', 415), (''te_explosionrgb'', 407),
     (''te_flamejet'', 457), (''te_gunshot'', 418), (''te_gunshotquad'', 412), (''te_knightspike'', 424),
     (''te_lavasplash'', 425), (''te_lightning1'', 428), (''te_lightning2'', 429),
     (''te_lightning3'', 430), (''te_lightningblood'', 219), (''te_particlecube'', 408),
     (''te_particlerain'', 409), (''te_particlesnow'', 410), (''te_plasmaburn'', 433),
     (''te_smallflash'', 416), (''te_spark'', 411), (''te_spike'', 419), (''te_spikequad'', 413),
     (''te_superspike'', 420), (''te_superspikequad'', 414), (''te_tarexplosion'', 422),
     (''te_teleport'', 426), (''te_wizspike'', 423), (''terrain_edit'', 278), (''tokenize'', 441),
     (''tokenize_console'', 514), (''tokenizebyseparator'', 479), (''touchtriggers'', 279),
     (''tracebox'', 90), (''traceline'', 16), (''traceoff'', 30), (''traceon'', 29), (''tracetoss'', 64),
     (''trailparticles'', 336), (''uri_escape'', 510), (''uri_get'', 513), (''uri_unescape'', 511),
     (''vectoangles'', 51), (''vectorvectors'', 432), (''vectoyaw'', 13), (''vlen'', 12), (''vtos'', 27),
     (''walkmove'', 32), (''wasfreed'', 353), (''whichpack'', 503), (''writetofile'', 606)]"

definition ssqc_numbers :: "(string \<times> u32) list" where
  "ssqc_numbers = ssqc_numbers_1 @ ssqc_numbers_2 @ ssqc_numbers_3"

definition ssqc_named :: "string list" where
  "ssqc_named =
    [''WriteDouble'', ''WriteInt'', ''WriteInt64'', ''brush_calcfacepoints'', ''brush_create'',
     ''brush_delete'', ''brush_findinvolume'', ''brush_get'', ''brush_getfacepoints'', ''brush_selected'',
     ''checkbuiltin'', ''clusterevent'', ''clustertransfer'', ''createbuffer'', ''crossproduct'',
     ''digest_ptr'', ''entityfieldref'', ''entityprotection'', ''find_list'', ''findentityfield'',
     ''findradius_list'', ''forceinfokeyblob'', ''fread'', ''fseek'', ''fsize'', ''ftoi'', ''fwrite'',
     ''generateentitydata'', ''getlightstyle'', ''getlightstylergb'', ''getlocalinfo'',
     ''getmodeleventidx'', ''getnextmodelevent'', ''getsoundindex'', ''infokey_blob'', ''infokeyf'',
     ''itof'', ''logarithm'', ''memstrsize'', ''modelframecount'', ''modulo'', ''patch_create'',
     ''patch_getcp'', ''patch_getmesh'', ''physics_supported'', ''pointcontentsmask'', ''pointerstat'',
     ''processmodelevents'', ''pushmove'', ''removeinstant'', ''respawnedict'', ''route_calculate'',
     ''search_fopen'', ''search_getfilemtime'', ''search_getfilesize'', ''search_getpackagename'',
     ''serverkeyblob'', ''serverkeyfloat'', ''setlocalinfo'', ''setserverkey'', ''skel_build_ptr'',
     ''skel_postmul_bone'', ''sqlescapeblob'', ''sqlreadblob'', ''strtrim'', ''stuffcmdflags'',
     ''te_muzzleflash'']"

definition menu_numbers_1 :: "(string \<times> u32) list" where
  "menu_numbers_1 =
    [(''R_BeginPolygon'', 306), (''R_EndPolygon'', 308), (''R_PolygonVertex'', 307), (''abort'', 211),
     (''acos'', 472), (''addentity'', 302), (''addwantedhostcachekey'', 623), (''altstr_count'', 82),
     (''altstr_get'', 84), (''altstr_prepare'', 83), (''altstr_set'', 85), (''argescape'', 295),
     (''argv'', 59), (''argv_end_index'', 516), (''argv_start_index'', 515), (''asin'', 471),
     (''atan'', 473), (''atan2'', 474), (''bound'', 45), (''bprint'', 5), (''buf_copy'', 443),
     (''buf_create'', 440), (''buf_cvarlist'', 517), (''buf_del'', 441), (''buf_getsize'', 442),
     (''buf_implode'', 445), (''buf_loadfile'', 535), (''buf_sort'', 444), (''buf_writefile'', 536),
     (''bufstr_add'', 448), (''bufstr_find'', 537), (''bufstr_free'', 449), (''bufstr_get'', 446),
     (''bufstr_set'', 447), (''callfunction'', 605), (''ceil'', 36), (''changelevel'', 64),
     (''checkcommand'', 294), (''checkextension'', 1), (''chr2str'', 223), (''clearscene'', 300),
     (''clientcount'', 61), (''clientstate'', 62), (''con_draw'', 393), (''con_getset'', 391),
     (''con_input'', 394), (''con_printf'', 392), (''copyentity'', 47), (''coredump'', 30), (''cos'', 39),
     (''cprint'', 7), (''crash'', 72), (''crc16'', 494), (''cvar'', 14), (''cvar_defstring'', 89),
     (''cvar_description'', 518), (''cvar_set'', 15), (''cvar_string'', 71), (''cvar_type'', 495),
     (''digest_hex'', 639), (''dprint'', 16), (''drawcharacter'', 454), (''drawfill'', 457),
     (''drawgetimagesize'', 460), (''drawline'', 466), (''drawpic'', 456), (''drawrawstring'', 455),
     (''drawresetcliparea'', 459), (''drawsetcliparea'', 458), (''drawstring'', 467),
     (''drawsubpic'', 469), (''entityfieldname'', 497), (''entityfieldtype'', 498), (''eprint'', 33),
     (''error'', 2), (''etof'', 79), (''etos'', 20), (''fabs'', 18), (''fclose'', 49), (''fcopy'', 650),
     (''fexists'', 653), (''fgets'', 50), (''find'', 24), (''findchain'', 26), (''findchainflags'', 88),
     (''findchainfloat'', 27), (''findflags'', 87), (''findfloat'', 25), (''findfont'', 356),
     (''findkeysforcommand'', 610), (''floor'', 35), (''fopen'', 48), (''fputs'', 51), (''fremove'', 652),
     (''frename'', 651), (''ftoe'', 80), (''ftos'', 17), (''gecko_create'', 487), (''gecko_destroy'', 488),
     (''gecko_get_texture_extent'', 493), (''gecko_keyevent'', 490), (''gecko_mousemove'', 491),
     (''gecko_navigate'', 489), (''gecko_resize'', 492), (''getbindmaps'', 631),
     (''getentityfieldstring'', 499), (''getextresponse'', 624), (''getgamedirinfo'', 626),
     (''gethostcacheindexforkey'', 622), (''gethostcachenumber'', 621), (''gethostcachestring'', 612),
     (''gethostcachevalue'', 611), (''getkeybind'', 342), (''getkeydest'', 602), (''getmousepos'', 66),
     (''getmousetarget'', 604), (''getproperty'', 309), (''getresolution'', 608), (''gettime'', 67),
     (''hash_add'', 289), (''hash_createtab'', 287), (''hash_delete'', 291), (''hash_destroytab'', 288),
     (''hash_get'', 290), (''hash_getkey'', 292), (''infoadd'', 226), (''infoget'', 227),
     (''iscachedpic'', 451), (''isdemo'', 349), (''isfunction'', 607), (''isserver'', 60),
     (''keynumtostring'', 609), (''keynumtostring_csqc'', 340), (''loadfont'', 357),
     (''loadfromdata'', 68), (''loadfromfile'', 69), (''localcmd'', 13), (''localsound'', 65),
     (''log'', 532), (''max'', 44)]"

definition menu_numbers_2 :: "(string \<times> u32) list" where
  "menu_numbers_2 =
    [(''memalloc'', 384), (''memcpy'', 386), (''memfill8'', 387), (''memfree'', 385), (''memgetval'', 388),
     (''memptradd'', 390), (''memsetval'', 389), (''min'', 43), (''mod'', 70), (''msprint'', 6),
     (''netaddress_resolve'', 625), (''nextent'', 37), (''normalize'', 8), (''num_for_edict'', 512),
     (''numentityfields'', 496), (''objerror'', 3), (''parseentitydata'', 613), (''pow'', 46),
     (''precache_file'', 28), (''precache_model'', 91), (''precache_pic'', 452), (''precache_sound'', 29),
     (''print'', 4), (''putentityfieldstring'', 500), (''random'', 12), (''randomvector'', 41),
     (''refreshhostcache'', 620), (''registercommand'', 352), (''registercvar'', 42), (''remove'', 23),
     (''renderscene'', 304), (''resethostcachemasks'', 615), (''resorthostcache'', 618), (''rint'', 34),
     (''rmtree'', 654), (''search_begin'', 74), (''search_end'', 75), (''search_getfilename'', 77),
     (''search_getsize'', 76), (''sendpacket'', 242), (''setbindmaps'', 632), (''setcursormode'', 343),
     (''setcustomskin'', 376), (''sethostcachemasknumber'', 617), (''sethostcachemaskstring'', 616),
     (''sethostcachesort'', 619), (''setkeybind'', 630), (''setkeydest'', 601), (''setmodel'', 90),
     (''setmousetarget'', 603), (''setorigin'', 92), (''setproperty'', 303), (''shaderforname'', 238),
     (''sin'', 38), (''soundlength'', 534), (''spawn'', 22), (''sprintf'', 627), (''sqrt'', 40),
     (''stackdump'', 73), (''stof'', 21), (''stov'', 55), (''str2chr'', 222), (''strcasecmp'', 229),
     (''strcat'', 53), (''strconv'', 224), (''strdecolorize'', 477), (''strftime'', 478),
     (''stringtokeynum'', 614), (''stringtokeynum_csqc'', 341), (''stringwidth'', 468),
     (''strireplace'', 485), (''strlen'', 52), (''strlennocol'', 476), (''strncasecmp'', 230),
     (''strncmp'', 228), (''strpad'', 225), (''strreplace'', 484), (''strstrofs'', 221),
     (''strtolower'', 480), (''strtoupper'', 481), (''strunzone'', 57), (''strzone'', 56),
     (''substring'', 54), (''tan'', 475), (''tokenize'', 58), (''tokenize_console'', 514),
     (''tokenizebyseparator'', 479), (''traceoff'', 32), (''traceon'', 31), (''uri_escape'', 510),
     (''uri_get'', 513), (''uri_unescape'', 511), (''validstring'', 81), (''vectoangles'', 11),
     (''vectoyaw'', 10), (''vlen'', 9), (''vtos'', 19), (''wasfreed'', 353), (''whichpack'', 503),
     (''writetofile'', 606)]"

definition menu_numbers :: "(string \<times> u32) list" where
  "menu_numbers = menu_numbers_1 @ menu_numbers_2"

definition menu_named :: "string list" where
  "menu_named =
    [''checkbuiltin'', ''clipboard_get'', ''clipboard_set'', ''createbuffer'', ''crossproduct'',
     ''cvars_haveunsaved'', ''digest_ptr'', ''drawrotpic'', ''drawrotsubpic'', ''drawtextfield'',
     ''entityfieldref'', ''entityprotection'', ''find_list'', ''findentityfield'', ''fread'', ''fseek'',
     ''fsize'', ''ftoi'', ''fwrite'', ''gecko_getproperty'', ''generateentitydata'', ''getcursormode'',
     ''getlocaluserinfo'', ''getlocaluserinfoblob'', ''getpackagemanagerinfo'', ''itof'', ''logarithm'',
     ''memstrsize'', ''r_readimage'', ''r_uploadimage'', ''removeinstant'', ''search_fopen'',
     ''search_getfilemtime'', ''search_getfilesize'', ''search_getpackagename'', ''setlocaluserinfo'',
     ''setlocaluserinfoblob'', ''setmousepos'', ''setwindowcaption'', ''strtrim'']"

end
