(* ===== verification/Builtins.thy ===== *)
theory Builtins
  imports Numbers Config
begin

text \<open>
  The registry of builtins (\<open>src/builtins/mod.rs\<close>): entries with a name, an optional number and a
  function, found by name and by number.  The functions are of any type \<open>'f\<close>.
\<close>

section \<open>Numbering\<close>

datatype (plugins only: code size) numbering = CsqcNumbers | SsqcNumbers | MenuNumbers | NoNumbers

text \<open>Byte order of names, as \<open>str::cmp\<close>.\<close>

fun name_less :: "string \<Rightarrow> string \<Rightarrow> bool" where
  "name_less [] [] = False"
| "name_less [] (_ # _) = True"
| "name_less (_ # _) [] = False"
| "name_less (a # as) (b # bs) =
     ((of_char a :: int) < of_char b \<or> a = b \<and> name_less as bs)"

text \<open>\<open>binary_search_by\<close> on the names of a table: halves the range until the name is met.\<close>

function search_names :: "(string \<times> u32) list \<Rightarrow> string \<Rightarrow> nat \<Rightarrow> nat \<Rightarrow> nat option" where
  "search_names table name lo hi =
     (if hi \<le> lo then None
      else let mid = (lo + hi) div 2; key = fst (table ! mid)
           in if key = name then Some mid
              else if name_less key name then search_names table name (mid + 1) hi
              else search_names table name lo mid)"
  by pat_completeness auto
termination by (relation "measure (\<lambda>(table, name, lo, hi). hi - lo)") auto

declare search_names.simps [simp del]

definition numbers_of :: "numbering \<Rightarrow> (string \<times> u32) list" where
  "numbers_of k =
     (case k of CsqcNumbers \<Rightarrow> csqc_numbers | SsqcNumbers \<Rightarrow> ssqc_numbers | MenuNumbers \<Rightarrow> menu_numbers
              | NoNumbers \<Rightarrow> [])"

definition named_of :: "numbering \<Rightarrow> string list" where
  "named_of k =
     (case k of CsqcNumbers \<Rightarrow> csqc_named | SsqcNumbers \<Rightarrow> ssqc_named | MenuNumbers \<Rightarrow> menu_named
              | NoNumbers \<Rightarrow> [])"

definition extra_number :: "numbering \<Rightarrow> string \<Rightarrow> u32 option" where
  "extra_number k name =
     (if k = CsqcNumbers \<and> name = ''fork'' then Some 210
      else if k = CsqcNumbers \<and> name = ''sleep'' then Some 212 else None)"

definition builtin_number :: "numbering \<Rightarrow> string \<Rightarrow> u32 option" where
  "builtin_number k name =
     (let table = numbers_of k
      in case Option.bind (search_names table name 0 (length table)) (nth_opt table) of
           Some e \<Rightarrow> Some (snd e)
         | None \<Rightarrow> extra_number k name)"

definition known_builtins :: "numbering \<Rightarrow> (string \<times> u32 option) list" where
  "known_builtins k =
     map (\<lambda>(n, v). (n, Some v)) (numbers_of k) @ map (\<lambda>n. (n, None)) (named_of k)"

section \<open>The registry\<close>

record 'f reg_entry =
  en_name :: bytes
  en_number :: "u32 option"
  en_func :: 'f

record 'f registry =
  bt_numbering :: numbering
  bt_entries :: "'f reg_entry list"
  bt_by_name :: "bytes \<rightharpoonup> nat"
  bt_by_number :: "u32 \<rightharpoonup> nat"

definition registry_empty :: "numbering \<Rightarrow> 'f registry" where
  "registry_empty k =
     \<lparr>bt_numbering = k, bt_entries = [], bt_by_name = (\<lambda>_. None), bt_by_number = (\<lambda>_. None)\<rparr>"

definition registry_insert :: "'f registry \<Rightarrow> bytes \<Rightarrow> u32 option \<Rightarrow> 'f \<Rightarrow> 'f registry" where
  "registry_insert r name number f =
     (let e = \<lparr>en_name = name, en_number = number, en_func = f\<rparr>;
          (r, index) =
            (case bt_by_name r name of
               Some i \<Rightarrow>
                 ((case nth_opt (bt_entries r) i of
                     None \<Rightarrow> r
                   | Some entry \<Rightarrow>
                       r\<lparr>bt_by_number :=
                           (case en_number entry of
                              Some old \<Rightarrow> if bt_by_number r old = Some i then (bt_by_number r)(old := None)
                                          else bt_by_number r
                            | None \<Rightarrow> bt_by_number r),
                         bt_entries := (bt_entries r)[i := e]\<rparr>), i)
             | None \<Rightarrow>
                 (r\<lparr>bt_entries := bt_entries r @ [e], bt_by_name := (bt_by_name r)(name \<mapsto> length (bt_entries r))\<rparr>,
                  length (bt_entries r)))
      in case number of
           Some n \<Rightarrow> r\<lparr>bt_by_number := (bt_by_number r)(n \<mapsto> index)\<rparr>
         | None \<Rightarrow> r)"

definition set_numbered :: "'f registry \<Rightarrow> u32 \<Rightarrow> string \<Rightarrow> 'f \<Rightarrow> 'f registry" where
  "set_numbered r number name f = registry_insert r (ascii name) (Some number) f"

definition registry_set :: "'f registry \<Rightarrow> string \<Rightarrow> 'f \<Rightarrow> 'f registry" where
  "registry_set r name f = registry_insert r (ascii name) (builtin_number (bt_numbering r) name) f"

definition registry_alias :: "'f registry \<Rightarrow> string \<Rightarrow> string \<Rightarrow> 'f registry" where
  "registry_alias r alias target =
     (case Option.bind (bt_by_name r (ascii target)) (\<lambda>i. map_option en_func (nth_opt (bt_entries r) i)) of
        Some f \<Rightarrow> registry_insert r (ascii alias) None f
      | None \<Rightarrow> r)"

definition registry_remove :: "'f registry \<Rightarrow> string \<Rightarrow> 'f registry" where
  "registry_remove r name =
     (case bt_by_name r (ascii name) of
        None \<Rightarrow> r
      | Some i \<Rightarrow>
          r\<lparr>bt_by_name := (bt_by_name r)(ascii name := None),
            bt_by_number := (\<lambda>n. if bt_by_number r n = Some i then None else bt_by_number r n)\<rparr>)"

definition registry_contains :: "'f registry \<Rightarrow> string \<Rightarrow> bool" where
  "registry_contains r name = (bt_by_name r (ascii name) \<noteq> None)"

text \<open>\<open>registered\<close> lists, for every name, the number the entry is bound to.\<close>

definition registered_number :: "'f registry \<Rightarrow> nat \<Rightarrow> u32 option" where
  "registered_number r i =
     Option.bind (nth_opt (bt_entries r) i) (\<lambda>e. Option.bind (en_number e) (\<lambda>n.
       if bt_by_number r n = Some i then Some n else None))"

definition slot32 :: "nat \<Rightarrow> u32 option" where
  "slot32 i = (if i < 2 ^ 32 then Some (of_nat i) else None)"

definition bind_number :: "'f registry \<Rightarrow> u32 \<Rightarrow> u32 option" where
  "bind_number r number = Option.bind (bt_by_number r number) slot32"

definition bind_name :: "'f registry \<Rightarrow> bytes \<Rightarrow> u32 option" where
  "bind_name r name = Option.bind (bt_by_name r name) slot32"

definition builtin_func :: "'f registry \<Rightarrow> u32 \<Rightarrow> 'f option" where
  "builtin_func r slot = map_option en_func (nth_opt (bt_entries r) (unat slot))"

section \<open>Searching the tables\<close>

lemma name_less_irrefl: "\<not> name_less a a"
  by (induction a) auto

lemma name_less_total: "name_less a b \<or> a = b \<or> name_less b a"
  by (induction a b rule: name_less.induct) (auto simp: of_char_eq_iff dest: not_less_iff_gr_or_eq [THEN iffD1])

lemma name_less_trans: "name_less a b \<Longrightarrow> name_less b c \<Longrightarrow> name_less a c"
proof (induction a b arbitrary: c rule: name_less.induct)
  case (4 x xs y ys)
  then show ?case by (cases c) (auto intro: less_trans)
next
  case (2 y ys)
  then show ?case by (cases c) auto
qed auto

definition strictly_sorted :: "(string \<times> u32) list \<Rightarrow> bool" where
  "strictly_sorted = sorted_wrt (\<lambda>a b. name_less (fst a) (fst b))"

fun ascending :: "(string \<times> u32) list \<Rightarrow> bool" where
  "ascending (a # b # xs) = (name_less (fst a) (fst b) \<and> ascending (b # xs))"
| "ascending _ = True"

lemma ascending_sorted: "ascending xs \<Longrightarrow> strictly_sorted xs"
proof (induction xs rule: ascending.induct)
  case (1 a b xs)
  then have "strictly_sorted (b # xs)" "name_less (fst a) (fst b)" by simp_all
  then show ?case by (auto simp: strictly_sorted_def intro: name_less_trans)
qed (simp_all add: strictly_sorted_def)

lemma table_sorted: "strictly_sorted (numbers_of k)"
proof -
  have "ascending csqc_numbers" by code_simp
  moreover have "ascending ssqc_numbers" by code_simp
  moreover have "ascending menu_numbers" by code_simp
  ultimately show ?thesis by (cases k) (simp_all add: numbers_of_def ascending_sorted)
qed

lemma search_names_sound:
  "search_names table name lo hi = Some i \<Longrightarrow> lo \<le> i \<and> i < hi \<and> fst (table ! i) = name"
proof (induction table name lo hi rule: search_names.induct)
  case (1 table name lo hi)
  let ?mid = "(lo + hi) div 2"
  show ?case
  proof (cases "hi \<le> lo \<or> fst (table ! ?mid) = name")
    case True
    then show ?thesis using 1(3) by (subst (asm) search_names.simps) (auto simp: Let_def split: if_splits)
  next
    case False
    then show ?thesis
      using 1 by (subst (asm) (3) search_names.simps) (fastforce simp: Let_def split: if_splits)
  qed
qed

lemma search_names_complete:
  "strictly_sorted table \<Longrightarrow> hi \<le> length table \<Longrightarrow> lo \<le> i \<Longrightarrow> i < hi \<Longrightarrow> fst (table ! i) = name \<Longrightarrow>
    search_names table name lo hi = Some i"
proof (induction table name lo hi rule: search_names.induct)
  case (1 table name lo hi)
  let ?mid = "(lo + hi) div 2"
  have mid: "lo \<le> ?mid" "?mid < hi" using 1(5,6) by auto
  have less: "name_less (fst (table ! a)) (fst (table ! b))" if "a < b" "b < hi" for a b
    using 1(3,4) that by (auto simp: strictly_sorted_def sorted_wrt_iff_nth_less)
  consider "i < ?mid" | "i = ?mid" | "?mid < i" by linarith
  then show ?case
  proof cases
    case 1
    then have "name_less name (fst (table ! ?mid))" using less [of i ?mid] mid "1.prems"(5) by simp
    then have "\<not> name_less (fst (table ! ?mid)) name" "fst (table ! ?mid) \<noteq> name"
      using name_less_trans name_less_irrefl by blast+
    then show ?thesis using "1.IH"(2) [OF _ refl refl] "1.prems" 1 mid by (subst search_names.simps) (simp add: Let_def)
  next
    case 2
    then show ?thesis using "1.prems" mid by (subst search_names.simps) (simp add: Let_def)
  next
    case 3
    then have "name_less (fst (table ! ?mid)) name" using less [of ?mid i] "1.prems" by simp
    moreover from this have "fst (table ! ?mid) \<noteq> name" using name_less_irrefl by blast
    ultimately show ?thesis
      using "1.IH"(1) [OF _ refl refl] "1.prems" 3 mid by (subst search_names.simps) (simp add: Let_def)
  qed
qed

text \<open>The binary search finds exactly the entries of the tables, which are sorted: every builtin FTE
  numbers for a kind of virtual machine gets that number, and only \<open>fork\<close> and \<open>sleep\<close> are added.\<close>

theorem builtin_number_table:
  "builtin_number k name =
    (case map_of (numbers_of k) name of Some v \<Rightarrow> Some v | None \<Rightarrow> extra_number k name)"
proof (cases "search_names (numbers_of k) name 0 (length (numbers_of k))")
  case None
  have "map_of (numbers_of k) name = None"
  proof (rule ccontr)
    assume "map_of (numbers_of k) name \<noteq> None"
    then obtain v where "(name, v) \<in> set (numbers_of k)" using map_of_SomeD by fastforce
    then obtain i where "i < length (numbers_of k)" "numbers_of k ! i = (name, v)" by (metis in_set_conv_nth)
    then show False using search_names_complete [OF table_sorted, of "length (numbers_of k)" k 0 i name] None by simp
  qed
  then show ?thesis by (simp add: builtin_number_def None)
next
  case (Some i)
  from search_names_sound [OF this] have i: "i < length (numbers_of k)" "fst (numbers_of k ! i) = name" by simp_all
  have "sorted_wrt (\<lambda>a b. a \<noteq> b) (map fst (numbers_of k))"
    using table_sorted [of k] by (auto simp: strictly_sorted_def sorted_wrt_map name_less_irrefl
        elim!: sorted_wrt_mono_rel [rotated])
  then have "distinct (map fst (numbers_of k))" by (simp add: distinct_conv_nth sorted_wrt_iff_nth_less) (metis linorder_neqE_nat)
  moreover have "(name, snd (numbers_of k ! i)) \<in> set (numbers_of k)" using i by (metis nth_mem prod.collapse)
  ultimately have "map_of (numbers_of k) name = Some (snd (numbers_of k ! i))" by (rule map_of_is_SomeI)
  then show ?thesis using i(1) by (simp add: builtin_number_def Some nth_opt_def)
qed

section \<open>What the registry finds\<close>

text \<open>Names lead to the entry of that name; numbers lead to an entry with that number that its name still
  leads to.\<close>

definition registry_wf :: "'f registry \<Rightarrow> bool" where
  "registry_wf r \<longleftrightarrow>
     (\<forall>n i. bt_by_name r n = Some i \<longrightarrow> i < length (bt_entries r) \<and> en_name (bt_entries r ! i) = n) \<and>
     (\<forall>k i. bt_by_number r k = Some i \<longrightarrow> i < length (bt_entries r) \<and>
        en_number (bt_entries r ! i) = Some k \<and> bt_by_name r (en_name (bt_entries r ! i)) = Some i)"

lemma registry_empty_wf: "registry_wf (registry_empty k)"
  by (simp add: registry_wf_def registry_empty_def)

text \<open>An insertion puts the entry in the slot of the name, or in a new one.\<close>

definition slot_for :: "'f registry \<Rightarrow> bytes \<Rightarrow> nat" where
  "slot_for r name = (case bt_by_name r name of Some i \<Rightarrow> i | None \<Rightarrow> length (bt_entries r))"

lemma wf_name: "registry_wf r \<Longrightarrow> bt_by_name r n = Some i \<Longrightarrow>
    i < length (bt_entries r) \<and> en_name (bt_entries r ! i) = n"
  by (simp add: registry_wf_def)

lemma wf_number: "registry_wf r \<Longrightarrow> bt_by_number r k = Some i \<Longrightarrow>
    i < length (bt_entries r) \<and> en_number (bt_entries r ! i) = Some k \<and>
    bt_by_name r (en_name (bt_entries r ! i)) = Some i"
  by (simp add: registry_wf_def)

lemma slot_for_wf: "registry_wf r \<Longrightarrow> bt_by_name r n = Some (slot_for r name) \<Longrightarrow> n = name"
  by (auto simp: slot_for_def dest: wf_name split: option.splits)

lemma insert_new:
  "bt_by_name r name = None \<Longrightarrow> registry_insert r name number f =
     r\<lparr>bt_entries := bt_entries r @ [\<lparr>en_name = name, en_number = number, en_func = f\<rparr>],
       bt_by_name := (bt_by_name r)(name \<mapsto> length (bt_entries r)),
       bt_by_number := (case number of Some n \<Rightarrow> (bt_by_number r)(n \<mapsto> length (bt_entries r)) | None \<Rightarrow> bt_by_number r)\<rparr>"
  by (cases number) (simp_all add: registry_insert_def)

lemma insert_old:
  assumes "bt_by_name r name = Some i" "i < length (bt_entries r)"
  shows "registry_insert r name number f =
     r\<lparr>bt_entries := (bt_entries r)[i := \<lparr>en_name = name, en_number = number, en_func = f\<rparr>],
       bt_by_number := (let m = case en_number (bt_entries r ! i) of
             Some old \<Rightarrow> if bt_by_number r old = Some i then (bt_by_number r)(old := None) else bt_by_number r
           | None \<Rightarrow> bt_by_number r
         in case number of Some n \<Rightarrow> m(n \<mapsto> i) | None \<Rightarrow> m)\<rparr>"
  using assms by (cases number) (simp_all add: registry_insert_def nth_opt_def Let_def)

lemma insert_by_name:
  assumes "registry_wf r"
  shows "bt_by_name (registry_insert r name number f) = (bt_by_name r)(name \<mapsto> slot_for r name)"
proof (cases "bt_by_name r name")
  case None
  then show ?thesis by (simp add: insert_new slot_for_def)
next
  case (Some i)
  then show ?thesis
    using wf_name [OF assms Some] by (simp add: insert_old slot_for_def fun_upd_idem)
qed

lemma insert_entry:
  assumes "registry_wf r"
  shows "nth_opt (bt_entries (registry_insert r name number f)) j =
    (if j = slot_for r name then Some \<lparr>en_name = name, en_number = number, en_func = f\<rparr>
     else nth_opt (bt_entries r) j)"
proof (cases "bt_by_name r name")
  case None
  then show ?thesis by (auto simp: insert_new slot_for_def nth_opt_def nth_append)
next
  case (Some i)
  then show ?thesis using wf_name [OF assms Some] by (auto simp: insert_old slot_for_def nth_opt_update)
qed

lemma insert_by_number:
  assumes wf: "registry_wf r"
  shows "bt_by_number (registry_insert r name number f) k =
    (if number = Some k then Some (slot_for r name)
     else if bt_by_number r k = Some (slot_for r name) then None else bt_by_number r k)"
proof (cases "bt_by_name r name")
  case None
  have "bt_by_number r k \<noteq> Some (length (bt_entries r))" using wf_number [OF wf] by blast
  then show ?thesis using None by (cases number) (auto simp: insert_new slot_for_def)
next
  case (Some i)
  have old: "en_number (bt_entries r ! i) = Some k" if "bt_by_number r k = Some i" for k
    using wf_number [OF wf that] by simp
  define m where "m = (case en_number (bt_entries r ! i) of
      Some old \<Rightarrow> if bt_by_number r old = Some i then (bt_by_number r)(old := None) else bt_by_number r
    | None \<Rightarrow> bt_by_number r)"
  have "m k = (if bt_by_number r k = Some i then None else bt_by_number r k)"
  proof (cases "en_number (bt_entries r ! i)")
    case None
    then show ?thesis using old [of k] by (auto simp: m_def)
  next
    case (Some a)
    then show ?thesis using old [of k] by (cases "k = a") (auto simp: m_def)
  qed
  moreover have "bt_by_number (registry_insert r name number f) k = (if number = Some k then Some i else m k)"
    using insert_old [OF Some conjunct1 [OF wf_name [OF wf Some]], of number f, folded m_def]
    by (cases number) (simp_all add: Let_def)
  ultimately show ?thesis
    using Some by (simp add: slot_for_def)
qed

lemma registry_wf_alt:
  "registry_wf r \<longleftrightarrow>
     (\<forall>n i. bt_by_name r n = Some i \<longrightarrow> (\<exists>e. nth_opt (bt_entries r) i = Some e \<and> en_name e = n)) \<and>
     (\<forall>k i. bt_by_number r k = Some i \<longrightarrow> (\<exists>e. nth_opt (bt_entries r) i = Some e \<and>
        en_number e = Some k \<and> bt_by_name r (en_name e) = Some i))"
  unfolding registry_wf_def nth_opt_def by auto

lemma registry_insert_wf:
  assumes wf: "registry_wf r"
  shows "registry_wf (registry_insert r name number f)" (is "registry_wf ?r")
proof -
  have n: "\<exists>e. nth_opt (bt_entries ?r) j = Some e \<and> en_name e = n" if "bt_by_name ?r n = Some j" for n j
    using that wf slot_for_wf [OF wf, of n name]
    by (auto simp: insert_by_name [OF wf] insert_entry [OF wf] registry_wf_alt split: if_splits)
  have k: "\<exists>e. nth_opt (bt_entries ?r) j = Some e \<and> en_number e = Some k \<and> bt_by_name ?r (en_name e) = Some j"
    if "bt_by_number ?r k = Some j" for k j
  proof (cases "number = Some k")
    case True
    then show ?thesis using that by (simp add: insert_by_number [OF wf] insert_entry [OF wf] insert_by_name [OF wf])
  next
    case False
    then have j: "bt_by_number r k = Some j" "j \<noteq> slot_for r name"
      using that by (auto simp: insert_by_number [OF wf] split: if_splits)
    from j(1) wf obtain e where e: "nth_opt (bt_entries r) j = Some e" "en_number e = Some k"
      "bt_by_name r (en_name e) = Some j" unfolding registry_wf_alt by blast
    moreover from e(3) j(2) have "en_name e \<noteq> name" by (auto simp: slot_for_def)
    ultimately show ?thesis using j(2) by (simp add: insert_by_name [OF wf] insert_entry [OF wf])
  qed
  show ?thesis unfolding registry_wf_alt using n k by blast
qed

lemma registry_remove_wf:
  assumes wf: "registry_wf r"
  shows "registry_wf (registry_remove r name)"
proof (cases "bt_by_name r (ascii name)")
  case None
  then show ?thesis using wf by (simp add: registry_remove_def)
next
  case (Some i)
  have "bt_by_number r k = Some j \<Longrightarrow> j \<noteq> i \<Longrightarrow> en_name (bt_entries r ! j) \<noteq> ascii name" for k j
    using wf_number [OF wf, of k j] Some by auto
  then show ?thesis
    using Some wf unfolding registry_wf_def registry_remove_def
    by (simp del: not_None_eq) (metis (no_types, lifting))
qed

text \<open>Every history of the registry.\<close>

inductive registry_reach :: "numbering \<Rightarrow> 'f registry \<Rightarrow> bool" for k where
  reg_empty: "registry_reach k (registry_empty k)"
| reg_numbered: "registry_reach k r \<Longrightarrow> registry_reach k (set_numbered r number name f)"
| reg_set: "registry_reach k r \<Longrightarrow> registry_reach k (registry_set r name f)"
| reg_alias: "registry_reach k r \<Longrightarrow> registry_reach k (registry_alias r alias target)"
| reg_remove: "registry_reach k r \<Longrightarrow> registry_reach k (registry_remove r name)"

lemma registry_reach_wf: "registry_reach k r \<Longrightarrow> registry_wf r"
proof (induction rule: registry_reach.induct)
  case reg_empty
  show ?case by (rule registry_empty_wf)
next
  case (reg_alias r a t)
  then show ?case by (auto simp: registry_alias_def registry_insert_wf split: option.split)
qed (simp_all add: set_numbered_def registry_set_def registry_insert_wf registry_remove_wf)

lemma slot32_below: "i < 2 ^ 32 \<Longrightarrow> slot32 i = Some (of_nat i) \<and> unat (of_nat i :: u32) = i"
  by (simp add: slot32_def unat_of_nat_small)

lemma slot32_back: "slot32 i = Some s \<Longrightarrow> unat s = i"
  by (auto simp: slot32_def unat_of_nat_small split: if_splits)

lemma registered_binds:
  assumes wf: "registry_wf r" and len: "length (bt_entries r) + 1 < 2 ^ 32"
  shows "let r' = set_numbered r number name f in
    (\<exists>s. bind_number r' number = Some s \<and> bind_name r' (ascii name) = Some s \<and> builtin_func r' s = Some f) \<and>
    (\<forall>m s. m \<noteq> ascii name \<longrightarrow> bind_name r m = Some s \<longrightarrow>
      bind_name r' m = Some s \<and> builtin_func r' s = builtin_func r s) \<and>
    (\<forall>n s. bind_number r' n = Some s \<longrightarrow> (\<exists>e. nth_opt (bt_entries r') (unat s) = Some e \<and>
      en_number e = Some n \<and> bind_name r' (en_name e) = Some s))"
proof -
  let ?r = "set_numbered r number name f" and ?i = "slot_for r (ascii name)"
  have i: "?i < 2 ^ 32"
    using len wf_name [OF wf, of "ascii name"] by (auto simp: slot_for_def split: option.splits)
  note ins = insert_by_name [OF wf] insert_entry [OF wf] insert_by_number [OF wf] set_numbered_def
  have new: "bind_number ?r number = Some (of_nat ?i) \<and> bind_name ?r (ascii name) = Some (of_nat ?i) \<and>
      builtin_func ?r (of_nat ?i) = Some f"
    using slot32_below [OF i] by (simp add: bind_number_def bind_name_def builtin_func_def ins)
  have other: "bind_name ?r m = Some s \<and> builtin_func ?r s = builtin_func r s"
    if m: "m \<noteq> ascii name" "bind_name r m = Some s" for m s
  proof -
    from m(2) obtain j where j: "bt_by_name r m = Some j" "slot32 j = Some s"
      by (auto simp: bind_name_def split: bind_splits)
    then have "j \<noteq> ?i" using slot_for_wf [OF wf] m(1) by blast
    then show ?thesis
      using j m(1) slot32_back [OF j(2)] by (simp add: bind_name_def builtin_func_def ins)
  qed
  have num: "\<exists>e. nth_opt (bt_entries ?r) (unat s) = Some e \<and> en_number e = Some n \<and> bind_name ?r (en_name e) = Some s"
    if "bind_number ?r n = Some s" for n s
  proof -
    from that obtain j where j: "bt_by_number ?r n = Some j" "slot32 j = Some s"
      by (auto simp: bind_number_def split: bind_splits)
    from registry_insert_wf [OF wf, of "ascii name" "Some number" f, unfolded set_numbered_def [symmetric]] j(1)
    obtain e where "nth_opt (bt_entries ?r) j = Some e" "en_number e = Some n" "bt_by_name ?r (en_name e) = Some j"
      unfolding registry_wf_alt by blast
    then show ?thesis using slot32_back [OF j(2)] j(2) by (simp add: bind_name_def)
  qed
  show ?thesis unfolding Let_def using new other num by blast
qed

text \<open>C21: over any history of registrations, aliases and removals: registering a builtin at a number binds
  both its number and its name to the new function, every other name keeps its slot and function,
  and every number that is bound leads to a builtin registered at that number that its own name
  still finds.\<close>

theorem registry_binds:
  assumes "registry_reach k r" "length (bt_entries r) + 1 < 2 ^ 32"
  shows "let r' = set_numbered r number name f in
    (\<exists>s. bind_number r' number = Some s \<and> bind_name r' (ascii name) = Some s \<and> builtin_func r' s = Some f) \<and>
    (\<forall>m s. m \<noteq> ascii name \<longrightarrow> bind_name r m = Some s \<longrightarrow>
      bind_name r' m = Some s \<and> builtin_func r' s = builtin_func r s) \<and>
    (\<forall>n s. bind_number r' n = Some s \<longrightarrow> (\<exists>e. nth_opt (bt_entries r') (unat s) = Some e \<and>
      en_number e = Some n \<and> bind_name r' (en_name e) = Some s))"
  by (rule registered_binds [OF registry_reach_wf [OF assms(1)] assms(2)])

text \<open>Taking a number over from another builtin that was registered at it.\<close>

definition sample_registry :: "nat registry" where
  "sample_registry = set_numbered (set_numbered (registry_empty CsqcNumbers) 1 ''first'' 10) 2 ''other'' 20"

theorem registry_binds_witness:
  "bind_number sample_registry 1 = Some 0 \<and>
   (\<exists>s. bind_number (set_numbered sample_registry 1 ''second'' 30) 1 = Some s \<and>
      builtin_func (set_numbered sample_registry 1 ''second'' 30) s = Some 30)"
proof -
  have reach: "registry_reach CsqcNumbers sample_registry"
    unfolding sample_registry_def by (intro registry_reach.intros)
  have two: "length (bt_entries sample_registry) + 1 < 2 ^ 32" "bind_number sample_registry 1 = Some 0"
    by (simp_all add: sample_registry_def set_numbered_def registry_insert_def registry_empty_def ascii_def
        bind_number_def slot32_def)
  then show ?thesis
    using registry_binds [OF reach two(1), of 1 "''second''" 30] unfolding Let_def by blast
qed

end
