(* ===== verification/Vm.thy ===== *)
theory Vm
  imports Build Builtins Resume
begin

text \<open>
  The virtual machine (\<open>src/vm/mod.rs\<close>): calls from the host into QuakeC, the loop that runs the
  interpreter and serves its exits, builtins and their errors, poisoning, budgets and deadlines, the
  animation opcodes, and the host's access to globals, fields, memory, entities and strings.

  The host and the clock are the world \<open>'h\<close>: a host operation is a function from the machine and the
  world to the machine and the world.  A builtin is such an operation; \<open>None\<close> means that it never returns.  A
  host operation can also panic.
\<close>

section \<open>Machines, hosts and actions\<close>

datatype (plugins only: code size) 'a fate = Done 'a | Failed vm_error | Panicked

datatype (plugins only: code size) flow = FlowContinue | FlowReturn

datatype (plugins only: code size) lookup_error = NotFound | WrongType qc_type

record 's vm =
  v_core :: "'s core"
  v_main :: program
  v_realtime :: "u64 option"
  v_budget :: u32
  v_deadline :: "nat option"
  v_window :: bool

type_synonym ('s, 'h) world = "'s vm \<times> 'h"
type_synonym ('s, 'h, 'a) act = "('s, 'h) world \<Rightarrow> (('s, 'h) world \<times> 'a fate) option"

text \<open>
  \<open>Host\<close>: the methods this file calls.  \<open>hs_warning\<close> and \<open>hs_trace\<close> also say whether they returned
  (rather than panicked); \<open>hs_trace\<close> gets the progs, function and statement that the text of the trace line
  is made of.  \<open>hs_now\<close> is \<open>Instant::now\<close>, an instant being a number of nanoseconds, and \<open>hs_later\<close> is
  \<open>Instant::checked_add\<close>, whose range depends on the platform.
\<close>

record ('s, 'h) host =
  hs_warning :: "warning \<Rightarrow> 'h \<Rightarrow> 'h \<times> bool"
  hs_trace :: "u8 \<times> u32 \<times> u32 \<Rightarrow> 'h \<Rightarrow> 'h \<times> bool"
  hs_state_op :: "state_op \<Rightarrow> ('s, 'h, bool) act"
  hs_now :: "'h \<Rightarrow> 'h \<times> nat"
  hs_later :: "nat \<Rightarrow> nat \<Rightarrow> nat option"

type_synonym ('s, 'h) builtins = "('s, 'h, unit) act registry"

definition on_core :: "('s core \<Rightarrow> 's core) \<Rightarrow> 's vm \<Rightarrow> 's vm" where
  "on_core f v = v\<lparr>v_core := f (v_core v)\<rparr>"

definition and_then :: "('s, 'h, 'a) act \<Rightarrow> ('a \<Rightarrow> ('s, 'h, 'b) act) \<Rightarrow> ('s, 'h, 'b) act" where
  "and_then m k w =
     (case m w of
        None \<Rightarrow> None
      | Some (w', Done x) \<Rightarrow> k x w'
      | Some (w', Failed e) \<Rightarrow> Some (w', Failed e)
      | Some (w', Panicked) \<Rightarrow> Some (w', Panicked))"

section \<open>Creating a machine\<close>

definition vm_new :: "('s, 'h) builtins \<Rightarrow> 's \<Rightarrow> program \<Rightarrow> vm_config \<Rightarrow> vm_error + 's vm" where
  "vm_new B std p cfg =
     (case build_core p (bind_number B) (bind_name B) std cfg of
        Inl k \<Rightarrow> Inl (vm_error_new k)
      | Inr c \<Rightarrow> Inr \<lparr>v_core = c, v_main = p, v_realtime = None, v_budget = 0, v_deadline = None,
                    v_window = window_fits c\<rparr>)"

definition vm_reset :: "('s, 'h) builtins \<Rightarrow> 's \<Rightarrow> 's vm \<Rightarrow> vm_error + 's vm" where
  "vm_reset B std v =
     (case build_core (v_main v) (bind_number B) (bind_name B) std (c_config (v_core v)) of
        Inl k \<Rightarrow> Inl (vm_error_new k)
      | Inr c \<Rightarrow> Inr (v\<lparr>v_core := c, v_window := window_fits c\<rparr>))"

definition set_developer :: "bool \<Rightarrow> 's vm \<Rightarrow> 's vm" where
  "set_developer on v = on_core (\<lambda>c. c\<lparr>c_config := (c_config c)\<lparr>g_developer := on\<rparr>\<rparr>) v"

text \<open>\<open>elapsed\<close> is the time since the machine was created, as the clock reads it.\<close>

definition realtime :: "u64 \<Rightarrow> 's vm \<Rightarrow> u64" where
  "realtime elapsed v = (case v_realtime v of Some t \<Rightarrow> t | None \<Rightarrow> elapsed)"

definition set_trace :: "bool \<Rightarrow> 's vm \<Rightarrow> 's vm" where
  "set_trace on v = on_core (\<lambda>c. c\<lparr>c_trace := on\<rparr>) v"

section \<open>Lookups\<close>

record unbound_builtin =
  ub_function :: u32
  ub_number :: u32
  ub_name :: bytes

definition builtin_number_of :: "function_info \<Rightarrow> u32" where
  "builtin_number_of i = (case fi_kind i of FBuiltin n \<Rightarrow> n | _ \<Rightarrow> 0)"

definition unbound_in :: "nat \<Rightarrow> progs_state \<Rightarrow> unbound_builtin list" where
  "unbound_in pr ps =
     List.map_filter (\<lambda>(index, callee).
       if callee \<noteq> CMissing then None
       else let index32 = (if index < 2 ^ 32 then of_nat index else - 1)
            in map_option (\<lambda>info.
                 \<lparr>ub_function = func_ref (if pr < 256 then of_nat pr else 0) index32,
                  ub_number = builtin_number_of info, ub_name = fi_name info\<rparr>)
               (program_function (ps_program ps) index32))
       (List.enumerate 0 (ps_callees ps))"

definition unbound_builtins :: "'s vm \<Rightarrow> unbound_builtin list" where
  "unbound_builtins v =
     concat (map (\<lambda>(pr, ps). unbound_in pr ps) (List.enumerate 0 (c_progs (v_core v))))"

text \<open>\<open>called_builtins\<close> is sorted, so the binary search is membership.\<close>

definition reachable_unbound_builtins :: "'s vm \<Rightarrow> unbound_builtin list" where
  "reachable_unbound_builtins v =
     (let called = map (\<lambda>ps. called_builtins (ps_program ps)) (c_progs (v_core v))
      in filter (\<lambda>u. case nth_opt called (unat (func_progs (ub_function u))) of
           Some c \<Rightarrow> func_index (ub_function u) \<in> set c
         | None \<Rightarrow> False) (unbound_builtins v))"

definition find_function :: "'s vm \<Rightarrow> bytes \<Rightarrow> u32 option" where
  "find_function v name = find_live_function (v_core v) 0 name"

text \<open>A handle to a global is its absolute byte offset, a handle to a field its word offset.\<close>

definition global_in :: "value_kind \<Rightarrow> 's vm \<Rightarrow> u8 \<Rightarrow> bytes \<Rightarrow> lookup_error + u32" where
  "global_in k v pr name =
     (case core_progs_at (v_core v) pr of
        None \<Rightarrow> Inl NotFound
      | Some ps \<Rightarrow>
          (case global_def (ps_program ps) name of
             None \<Rightarrow> Inl NotFound
           | Some d \<Rightarrow>
               if \<not> value_accepts k (di_ty d) then Inl (WrongType (di_ty d))
               else ok_or (Option.bind (checked_mul (di_offset d) 4) (\<lambda>o4. checked_add o4 (ps_gbase ps)))
                      NotFound))"

definition global_handle :: "value_kind \<Rightarrow> 's vm \<Rightarrow> bytes \<Rightarrow> lookup_error + u32" where
  "global_handle k v name = global_in k v 0 name"

definition current_global :: "value_kind \<Rightarrow> 's vm \<Rightarrow> bytes \<Rightarrow> lookup_error + u32" where
  "current_global k v name = global_in k v (x_prnum (c_x (v_core v))) name"

definition field_handle :: "value_kind \<Rightarrow> 's vm \<Rightarrow> bytes \<Rightarrow> lookup_error + u32" where
  "field_handle k v name =
     (case field_get (c_fields (v_core v)) name of
        None \<Rightarrow> Inl NotFound
      | Some e \<Rightarrow> if \<not> value_accepts k (fe_ty e) then Inl (WrongType (fe_ty e)) else Inr (fe_ofs e))"

definition ensure_field :: "value_kind \<Rightarrow> 's vm \<Rightarrow> bytes \<Rightarrow> 's vm \<times> (lookup_error + u32)" where
  "ensure_field k v name =
     (case field_handle k v name of
        Inl NotFound \<Rightarrow>
          (let c = v_core v; ofs = ft_words (c_fields c)
           in case checked_add ofs (of_nat (value_words k)) of
                None \<Rightarrow> (v, Inl NotFound)
              | Some new_words \<Rightarrow>
                  (case checked_mul new_words 4 of
                     None \<Rightarrow> (v, Inl NotFound)
                   | Some b \<Rightarrow>
                       if (if stride_shift (c_mem c) < 32 then push_bit (unat (stride_shift (c_mem c))) 1 else 0) < b
                       then (v, Inl NotFound)
                       else
                         (on_core (\<lambda>c. c\<lparr>c_fields := (field_push (c_fields c) name (value_type k) ofs)
                                                  \<lparr>ft_words := new_words\<rparr>,
                                        c_mem := (c_mem c)\<lparr>field_bytes := b\<rparr>\<rparr>) v, Inr ofs)))
      | other \<Rightarrow> (v, other))"

section \<open>Data access\<close>

text \<open>The words of a value of a kind; \<open>from_words\<close> and \<open>to_words\<close> are those of \<open>Values\<close>.\<close>

definition get_global :: "value_kind \<Rightarrow> 's vm \<Rightarrow> u32 \<Rightarrow> u32 list" where
  "get_global k v at = map (\<lambda>i. mem_g (c_mem (v_core v)) (unat at + i * 4)) [0..<value_words k]"

definition put_words :: "(memory \<Rightarrow> nat \<Rightarrow> u32 \<Rightarrow> memory) \<Rightarrow> nat \<Rightarrow> u32 list \<Rightarrow> memory \<Rightarrow> memory" where
  "put_words put at ws m = foldl (\<lambda>m (i, w). put m (at + i * 4) w) m (List.enumerate 0 ws)"

definition set_global :: "value_kind \<Rightarrow> u32 \<Rightarrow> u32 list \<Rightarrow> 's vm \<Rightarrow> 's vm" where
  "set_global k at ws v = on_core (on_mem (put_words mem_set_g (unat at) (take (value_words k) ws))) v"

definition get_field :: "value_kind \<Rightarrow> 's vm \<Rightarrow> u32 \<Rightarrow> u32 \<Rightarrow> u32 list option" where
  "get_field k v e f =
     (let m = c_mem (v_core v)
      in map_option (\<lambda>at. map (\<lambda>i. ent_word m (at + i * 4)) [0..<value_words k])
           (field_offset m e f (of_nat (value_words k))))"

definition set_field :: "value_kind \<Rightarrow> u32 \<Rightarrow> u32 \<Rightarrow> u32 list \<Rightarrow> 's vm \<Rightarrow> 's vm \<times> bool" where
  "set_field k e f ws v =
     (case field_offset (c_mem (v_core v)) e f (of_nat (value_words k)) of
        None \<Rightarrow> (v, False)
      | Some at \<Rightarrow> (on_core (on_mem (put_words set_ent_word at (take (value_words k) ws))) v, True))"

primrec those_bytes :: "memory \<Rightarrow> u32 \<Rightarrow> nat list \<Rightarrow> bytes option" where
  "those_bytes m p [] = Some []"
| "those_bytes m p (i # is') =
     (if 2 ^ 32 \<le> i then None
      else Option.bind (checked_add p (of_nat i)) (\<lambda>at.
        Option.bind (mem_read m 1 at) (\<lambda>b.
          map_option ((@) b) (those_bytes m p is'))))"

definition read_mem :: "'s vm \<Rightarrow> u32 \<Rightarrow> nat \<Rightarrow> bytes option" where
  "read_mem v p len = those_bytes (c_mem (v_core v)) p [0..<len]"

definition write_mem :: "u32 \<Rightarrow> bytes \<Rightarrow> 's vm \<Rightarrow> 's vm \<times> bool" where
  "write_mem p bs v =
     (case mem_write (c_mem (v_core v)) p bs of
        Inl _ \<Rightarrow> (v, False)
      | Inr m \<Rightarrow> (on_core (on_mem (\<lambda>_. m)) v, True))"

section \<open>Entities\<close>

definition vm_spawn :: "u64 \<Rightarrow> 's vm \<Rightarrow> 's vm \<times> (vm_error + u32)" where
  "vm_spawn elapsed v =
     (let c = v_core v
      in case spawn (c_mem c) (realtime elapsed v) (g_first_spawnable (c_config c)) of
           Inl k \<Rightarrow> (v, Inl (vm_error_new k))
         | Inr (m, e) \<Rightarrow> (on_core (\<lambda>c. apply_spawn_defaults (c\<lparr>c_mem := m\<rparr>) e) v, Inr e))"

definition vm_claim :: "u32 \<Rightarrow> 's vm \<Rightarrow> 's vm \<times> vm_error option" where
  "vm_claim e v =
     (case claim (c_mem (v_core v)) e of
        Inl k \<Rightarrow> (v, Some (vm_error_new k))
      | Inr m \<Rightarrow> (on_core (\<lambda>c. apply_spawn_defaults (c\<lparr>c_mem := m\<rparr>) e) v, None))"

definition vm_remove :: "u64 \<Rightarrow> u32 \<Rightarrow> bool \<Rightarrow> 's vm \<Rightarrow> 's vm" where
  "vm_remove elapsed e instant v =
     (case mem_remove (c_mem (v_core v)) e (realtime elapsed v) instant (c_remove_clears (v_core v)) of
        Inl w \<Rightarrow> on_core (\<lambda>c. core_warn c w) v
      | Inr m \<Rightarrow> on_core (\<lambda>c. c\<lparr>c_mem := m\<rparr>) v)"

definition vm_entities :: "'s vm \<Rightarrow> u32 list" where
  "vm_entities v =
     filter (ent_in_use (c_mem (v_core v))) (map of_nat [0..<unat (num_edicts (c_mem (v_core v)))])"

definition set_protected :: "u32 \<Rightarrow> bool \<Rightarrow> 's vm \<Rightarrow> 's vm \<times> bool" where
  "set_protected e on v =
     (case nth_opt (slots (c_mem (v_core v))) (unat e) of
        None \<Rightarrow> (v, False)
      | Some s \<Rightarrow>
          (on_core (on_mem (\<lambda>m. m\<lparr>slots := (slots m)[unat e := s\<lparr>protected := on\<rparr>]\<rparr>)) v, protected s))"

definition vm_serial :: "'s vm \<Rightarrow> u32 \<Rightarrow> u32 option" where
  "vm_serial v e = map_option serial (nth_opt (slots (c_mem (v_core v))) (unat e))"

section \<open>Strings\<close>

definition vm_str :: "'s vm \<Rightarrow> u32 \<Rightarrow> bytes" where
  "vm_str v r = the_default [] (str_bytes (v_core v) r)"

definition new_temp :: "bytes \<Rightarrow> 's core \<Rightarrow> 's core \<times> (error_kind + u32)" where
  "new_temp bs c =
     (case str_alloc (c_strings c) bs of
        (s, Inl r) \<Rightarrow> (c\<lparr>c_strings := s\<rparr>, Inl (OutOfMemory r))
      | (s, Inr r) \<Rightarrow> (c\<lparr>c_strings := s\<rparr>, Inr r))"

definition vm_intern :: "bytes \<Rightarrow> 's vm \<Rightarrow> 's vm \<times> u32" where
  "vm_intern bs v =
     (case str_intern (c_strings (v_core v)) bs of
        (s, r) \<Rightarrow> (on_core (\<lambda>c. c\<lparr>c_strings := s\<rparr>) v, r))"

definition vm_pin :: "u32 \<Rightarrow> 's vm \<Rightarrow> 's vm" where
  "vm_pin r v = on_core (\<lambda>c. c\<lparr>c_strings := str_pin (c_strings c) r\<rparr>) v"

definition vm_unpin :: "u32 \<Rightarrow> 's vm \<Rightarrow> 's vm" where
  "vm_unpin r v = on_core (\<lambda>c. c\<lparr>c_strings := str_unpin (c_strings c) r\<rparr>) v"

definition is_temp :: "u32 \<Rightarrow> bool" where
  "is_temp r = (case classify r of Temp _ \<Rightarrow> True | _ \<Rightarrow> False)"

definition collect_garbage_now :: "'s core \<Rightarrow> 's core \<times> gc_stats" where
  "collect_garbage_now c =
     (case str_collect (c_strings c)
             ([ms (c_mem c), me (c_mem c), h_data (mheap (c_mem c))] @ map t_data (c_threads c)) of
        (s, stats) \<Rightarrow> (c\<lparr>c_strings := s\<rparr>, stats))"

definition collect_garbage :: "'s vm \<Rightarrow> 's vm \<times> (vm_error + gc_stats)" where
  "collect_garbage v =
     (if 0 < c_nesting (v_core v)
      then (v, Inl (vm_error_new (HostError ''cannot collect garbage while QuakeC is running'')))
      else (case collect_garbage_now (v_core v) of (c, stats) \<Rightarrow> (v\<lparr>v_core := c\<rparr>, Inr stats)))"

section \<open>Builtin support\<close>

definition parm :: "'s core \<Rightarrow> nat \<Rightarrow> nat \<Rightarrow> u32" where
  "parm c i k = (if 8 \<le> i then 0 else mem_g (c_mem c) (core_gbase c + OFS_PARM0 + i * 12 + k * 4))"

definition arg_raw :: "'s core \<Rightarrow> nat \<Rightarrow> u32 \<times> u32 \<times> u32" where
  "arg_raw c i = (parm c i 0, parm c i 1, parm c i 2)"

text \<open>\<open>arg_f32\<close>, \<open>arg_i32\<close>, \<open>arg_u32\<close>, \<open>arg_ent\<close>, \<open>arg_func\<close>, \<open>arg_str_ref\<close> and \<open>arg_ptr\<close>.\<close>

definition arg_word :: "'s core \<Rightarrow> nat \<Rightarrow> u32" where
  "arg_word c i = parm c i 0"

definition arg_str :: "'s core \<Rightarrow> nat \<Rightarrow> bytes" where
  "arg_str c i = the_default [] (str_bytes c (arg_word c i))"

definition argc :: "'s core \<Rightarrow> nat" where
  "argc c = unat (c_argc c)"

definition ret_raw :: "u32 \<times> u32 \<times> u32 \<Rightarrow> 's core \<Rightarrow> 's core" where
  "ret_raw w c = (case w of (x, y, z) \<Rightarrow>
     on_mem (put_words mem_set_g (core_gbase c + OFS_RETURN) [x, y, z]) c)"

text \<open>\<open>ret_f32\<close>, \<open>ret_i32\<close>, \<open>ret_ent\<close>, \<open>ret_func\<close> and \<open>ret_str_ref\<close>.\<close>

definition ret_word :: "u32 \<Rightarrow> 's core \<Rightarrow> 's core" where
  "ret_word w c = ret_raw (w, 0, 0) c"

definition ret_str :: "bytes \<Rightarrow> 's core \<Rightarrow> 's core \<times> error_kind option" where
  "ret_str bs c =
     (case new_temp bs c of
        (c, Inl k) \<Rightarrow> (c, Some k)
      | (c, Inr r) \<Rightarrow> (ret_word r c, None))"

definition vm_warn :: "string \<Rightarrow> 's core \<Rightarrow> 's core" where
  "vm_warn msg c = core_warn c (BuiltinWarning msg)"

record builtin_info =
  bi_function :: u32
  bi_number :: u32
  bi_name :: bytes

definition current_builtin :: "'s core \<Rightarrow> builtin_info" where
  "current_builtin c =
     (let f = c_builtin c;
          info = Option.bind (core_progs_at c (func_progs f)) (\<lambda>ps. program_function (ps_program ps) (func_index f))
      in \<lparr>bi_function = f,
          bi_number = (case info of Some i \<Rightarrow> builtin_number_of i | None \<Rightarrow> 0),
          bi_name = (case info of Some i \<Rightarrow> fi_name i | None \<Rightarrow> [])\<rparr>)"

definition is_builtin_bound :: "'s core \<Rightarrow> u32 \<Rightarrow> bool" where
  "is_builtin_bound c f = (case callee_of c f of Some (CBuiltin _) \<Rightarrow> True | _ \<Rightarrow> False)"

section \<open>Errors and warnings\<close>

definition missing :: "'s core \<Rightarrow> u32 \<Rightarrow> error_kind" where
  "missing c f =
     (case Option.bind (core_progs_at c (func_progs f)) (\<lambda>ps. program_function (ps_program ps) (func_index f)) of
        Some i \<Rightarrow> BuiltinNotImplemented (builtin_number_of i) (fi_name i)
      | None \<Rightarrow> InvalidFunctionRef f)"

definition fail :: "vm_error \<Rightarrow> nat \<Rightarrow> ('s, 'h, 'a) act" where
  "fail e depth = (\<lambda>(v, h).
     Some ((on_core (\<lambda>c. unwind c depth) v, h), Failed (with_backtrace e (backtrace (v_core v)))))"

text \<open>The warnings reach the host in order; a panic of the host loses the rest.\<close>

primrec tell :: "('s, 'h) host \<Rightarrow> warning list \<Rightarrow> 'h \<Rightarrow> 'h \<times> bool" where
  "tell H [] h = (h, True)"
| "tell H (w # ws) h = (case hs_warning H w h of (h', ok) \<Rightarrow> if ok then tell H ws h' else (h', False))"

definition flush_warnings :: "('s, 'h) host \<Rightarrow> ('s, 'h, unit) act" where
  "flush_warnings H = (\<lambda>(v, h).
     case tell H (c_warnings (v_core v)) h of
       (h', ok) \<Rightarrow> Some ((on_core (\<lambda>c. c\<lparr>c_warnings := []\<rparr>) v, h'), if ok then Done () else Panicked))"

section \<open>The animation opcodes\<close>

definition set_ent_field :: "u32 \<Rightarrow> u32 option \<Rightarrow> u32 \<Rightarrow> 's core \<Rightarrow> 's core" where
  "set_ent_field e field w c =
     (case Option.bind field (\<lambda>f. field_offset (c_mem c) e f 1) of
        Some off \<Rightarrow> on_mem (\<lambda>m. set_ent_word m off w) c
      | None \<Rightarrow> c)"

definition set_global_word :: "u32 option \<Rightarrow> u32 \<Rightarrow> 's core \<Rightarrow> 's core" where
  "set_global_word g w c =
     (case g of Some a \<Rightarrow> on_mem (\<lambda>m. mem_set_g m (unat a) w) c | None \<Rightarrow> c)"

text \<open>The next frame of a cycle, and whether the cycle wrapped.\<close>

definition cycle_frame :: "u32 \<Rightarrow> u32 \<Rightarrow> u32 \<Rightarrow> u32 \<times> bool" where
  "cycle_frame lo0 hi0 cur =
     (let (lo, hi, stp) = (if f32_lt hi0 lo0 then (hi0, lo0, 0xBF800000) else (lo0, hi0, 0x3F800000))
      in if f32_lt cur lo \<or> f32_lt hi cur then (lo0, False)
         else let n = f32_add cur stp
              in if f32_lt n lo \<or> f32_lt hi n then (lo0, True) else (n, False))"

definition cycle_op :: "state_handles \<Rightarrow> u32 \<Rightarrow> u32 \<Rightarrow> u32 option \<Rightarrow> u32 \<Rightarrow> u32 \<Rightarrow> u32 \<Rightarrow> 's core \<Rightarrow> 's core" where
  "cycle_op h this time frame_f lo0 hi0 f c =
     (let c = set_ent_field this (h_nextthink_f h) (f32_add time (g_state_step (c_config c))) c;
          c = set_ent_field this (h_think_f h) f c;
          c = set_global_word (h_cycle_wrapped_g h) 0 c
      in case Option.bind frame_f (\<lambda>ff. field_offset (c_mem c) this ff 1) of
           None \<Rightarrow> c
         | Some off \<Rightarrow>
             (case cycle_frame lo0 hi0 (ent_word (c_mem c) off) of (nxt, wrapped) \<Rightarrow>
                let c = (if wrapped then set_global_word (h_cycle_wrapped_g h) 0x3F800000 c else c)
                in on_mem (\<lambda>m. set_ent_word m off nxt) c))"

definition default_state_op :: "state_op \<Rightarrow> 's core \<Rightarrow> 's core" where
  "default_state_op so c =
     (case core_progs_at c (x_prnum (c_x c)) of
        None \<Rightarrow> c
      | Some ps \<Rightarrow>
          (let h = ps_state ps
           in case (h_self_g h, h_time_g h) of
                (Some self_g, Some time_g) \<Rightarrow>
                  (let time = mem_g (c_mem c) (unat time_g);
                       this = mem_g (c_mem c) (unat self_g)
                   in case so of
                        SoState fr think \<Rightarrow>
                          set_ent_field this (h_frame_f h) fr
                            (set_ent_field this (h_think_f h) think
                              (set_ent_field this (h_nextthink_f h) (f32_add time (g_state_step (c_config c))) c))
                      | SoCState lo0 hi0 f \<Rightarrow> cycle_op h this time (h_frame_f h) lo0 hi0 f c
                      | SoCWState lo0 hi0 f \<Rightarrow> cycle_op h this time (h_weaponframe_f h) lo0 hi0 f c
                      | SoThinkTime e delay \<Rightarrow>
                          set_ent_field (if e < num_edicts (c_mem c) then e else 0) (h_nextthink_f h)
                            (f32_add time delay) c)
              | _ \<Rightarrow> vm_warn ''state opcode needs `self` and `time`'' c))"

section \<open>Builtins\<close>

text \<open>The message of a builtin error is its text, as \<open>to_string\<close> gives it.\<close>

definition run_builtin :: "('s, 'h) host \<Rightarrow> ('s, 'h) builtins \<Rightarrow> u32 \<Rightarrow> u32 \<Rightarrow> nat \<Rightarrow> ('s, 'h, flow) act" where
  "run_builtin H B slot f depth = (\<lambda>(v, h).
     case builtin_func B slot of
       None \<Rightarrow> fail (vm_error_new (missing (v_core v) f)) depth (v, h)
     | Some b \<Rightarrow>
         (case b (on_core (\<lambda>c. c\<lparr>c_builtin := f\<rparr>) v, h) of
            None \<Rightarrow> None
          | Some (w, Done _) \<Rightarrow> Some (w, Done FlowContinue)
          | Some (w, Panicked) \<Rightarrow> Some (w, Panicked)
          | Some ((v, h), Failed e) \<Rightarrow>
              (case e_control e of
                 Some ret \<Rightarrow>
                   Some ((on_core (\<lambda>c. unwind (c\<lparr>c_abort_ret := Some ret\<rparr>) depth) v, h), Done FlowReturn)
               | None \<Rightarrow>
                   (case (g_developer (c_config (v_core v)), e_kind e) of
                      (True, BuiltinError msg) \<Rightarrow>
                        and_then (flush_warnings H) (\<lambda>_ w. Some (w, Done FlowContinue))
                          (on_core (\<lambda>c. ret_raw (0, 0, 0) (vm_warn msg c)) v, h)
                    | _ \<Rightarrow> fail e depth (v, h)))))"

section \<open>Running QuakeC\<close>

definition BUDGET_CHUNK :: u32 where "BUDGET_CHUNK = 65536"

definition start_budgets :: "('s, 'h) host \<Rightarrow> ('s, 'h) world \<Rightarrow> ('s, 'h) world" where
  "start_budgets H = (\<lambda>(v, h).
     let lim = g_limits (c_config (v_core v))
     in case l_deadline lim of
          None \<Rightarrow> (v\<lparr>v_budget := l_runaway lim, v_deadline := None\<rparr>, h)
        | Some d \<Rightarrow>
            (case hs_now H h of (h', t) \<Rightarrow> (v\<lparr>v_budget := l_runaway lim, v_deadline := hs_later H t d\<rparr>, h')))"

definition chunk_of :: "'s vm \<Rightarrow> u32" where
  "chunk_of v = (if v_deadline v \<noteq> None then min (v_budget v) BUDGET_CHUNK else v_budget v)"

definition run_chunk :: "'s vm \<Rightarrow> nat \<Rightarrow> 's result option" where
  "run_chunk v depth =
     (let c = v_core v; chunk = chunk_of v
      in if c_trace c then run_traced c depth chunk
         else let c = c\<lparr>c_traced := False\<rparr>
              in if v_window v then run_window c depth chunk else run_fast c depth chunk)"

text \<open>Flushes the warnings, then fails.\<close>

definition flush_fail :: "('s, 'h) host \<Rightarrow> error_kind \<Rightarrow> nat \<Rightarrow> ('s, 'h, 'a) act" where
  "flush_fail H k depth = and_then (flush_warnings H) (\<lambda>_. fail (vm_error_new k) depth)"

text \<open>What the machine does with an exit: go on (\<open>Done True\<close>) or leave the loop (\<open>Done False\<close>).\<close>

definition serve_budget :: "('s, 'h) host \<Rightarrow> u32 \<Rightarrow> nat \<Rightarrow> ('s, 'h, bool) act" where
  "serve_budget H chunk depth = (\<lambda>(v, h).
     if v_budget v \<le> chunk then flush_fail H Runaway depth (v\<lparr>v_budget := 0\<rparr>, h)
     else let v = v\<lparr>v_budget := sat_sub (v_budget v) (sat_sub chunk 1)\<rparr>
          in case v_deadline v of
               None \<Rightarrow> Some ((v, h), Done True)
             | Some d \<Rightarrow>
                 (case hs_now H h of (h', t) \<Rightarrow>
                    if d \<le> t then flush_fail H Deadline depth (v, h') else Some ((v, h'), Done True)))"

definition serve_state_op :: "('s, 'h) host \<Rightarrow> state_op \<Rightarrow> nat \<Rightarrow> ('s, 'h, bool) act" where
  "serve_state_op H so depth w =
     (case hs_state_op H so w of
        None \<Rightarrow> None
      | Some ((v, h), Done handled) \<Rightarrow>
          Some ((if handled then v else on_core (default_state_op so) v, h), Done True)
      | Some (w', Failed e) \<Rightarrow> fail e depth w'
      | Some (w', Panicked) \<Rightarrow> Some (w', Panicked))"

definition serve_trace :: "('s, 'h) host \<Rightarrow> ('s, 'h, bool) act" where
  "serve_trace H = (\<lambda>(v, h).
     let x = c_x (v_core v)
     in case hs_trace H (x_prnum x, x_func x, x_pc x) h of
          (h', ok) \<Rightarrow> Some ((v, h'), if ok then Done True else Panicked))"

definition serve :: "('s, 'h) host \<Rightarrow> ('s, 'h) builtins \<Rightarrow> u32 \<Rightarrow> nat \<Rightarrow> exit \<Rightarrow> ('s, 'h, bool) act" where
  "serve H B chunk depth e =
     (case e of
        ExitBudget \<Rightarrow> serve_budget H chunk depth
      | Returned \<Rightarrow> and_then (flush_warnings H) (\<lambda>_ w. Some (w, Done False))
      | ExitBuiltin slot f \<Rightarrow>
          and_then (flush_warnings H) (\<lambda>_.
          and_then (run_builtin H B slot f depth) (\<lambda>fl w. Some (w, Done (fl = FlowContinue))))
      | ExitState so \<Rightarrow> serve_state_op H so depth
      | Fault k \<Rightarrow> flush_fail H k depth
      | ExitTrace \<Rightarrow> serve_trace H)"

definition turn :: "('s, 'h) host \<Rightarrow> ('s, 'h) builtins \<Rightarrow> nat \<Rightarrow> ('s, 'h, bool) act" where
  "turn H B depth = (\<lambda>(v, h).
     let chunk = chunk_of v
     in case run_chunk v depth of
          None \<Rightarrow> None
        | Some (c, left, e) \<Rightarrow>
            let v = v\<lparr>v_core := c,
                     v_budget := (if e = ExitBudget then v_budget v
                                  else sat_sub (v_budget v) (sat_sub chunk left))\<rparr>
            in serve H B chunk depth e (v, h))"

partial_function (option) turns ::
  "('s, 'h) host \<Rightarrow> ('s, 'h) builtins \<Rightarrow> nat \<Rightarrow> ('s, 'h) world \<Rightarrow> (('s, 'h) world \<times> unit fate) option" where
  "turns H B depth w =
     (case turn H B depth w of
        None \<Rightarrow> None
      | Some (w', Done again) \<Rightarrow> if again then turns H B depth w' else Some (w', Done ())
      | Some (w', Failed e) \<Rightarrow> Some (w', Failed e)
      | Some (w', Panicked) \<Rightarrow> Some (w', Panicked))"

text \<open>A panic unwinds past the end of \<open>execute\<close>.\<close>

definition execute :: "('s, 'h) host \<Rightarrow> ('s, 'h) builtins \<Rightarrow> nat \<Rightarrow> ('s, 'h, unit) act" where
  "execute H B depth = (\<lambda>(v, h).
     let saved = c_entry_depth (v_core v)
     in case turns H B depth (on_core (\<lambda>c. c\<lparr>c_entry_depth := depth\<rparr>) v, h) of
          None \<Rightarrow> None
        | Some (w, Panicked) \<Rightarrow> Some (w, Panicked)
        | Some ((v, h), r) \<Rightarrow> Some ((on_core (\<lambda>c. c\<lparr>c_entry_depth := saved\<rparr>) v, h), r))"

section \<open>Calling QuakeC\<close>

definition arg_words :: "arg \<Rightarrow> 's core \<Rightarrow> 's core \<times> (error_kind + u32 list)" where
  "arg_words a c =
     (case a of
        ArgFloat w \<Rightarrow> (c, Inr [w, 0, 0])
      | ArgVector (x, y, z) \<Rightarrow> (c, Inr [x, y, z])
      | ArgInt w \<Rightarrow> (c, Inr [w, 0, 0])
      | ArgEnt w \<Rightarrow> (c, Inr [w, 0, 0])
      | ArgStr w \<Rightarrow> (c, Inr [w, 0, 0])
      | ArgBytes b \<Rightarrow> (case new_temp b c of (c, Inl k) \<Rightarrow> (c, Inl k) | (c, Inr r) \<Rightarrow> (c, Inr [r, 0, 0]))
      | ArgFunc w \<Rightarrow> (c, Inr [w, 0, 0])
      | ArgRaw (x, y, z) \<Rightarrow> (c, Inr [x, y, z]))"

primrec write_args_at :: "nat \<Rightarrow> arg list \<Rightarrow> 's core \<Rightarrow> 's core \<times> error_kind option" where
  "write_args_at at [] c = (c, None)"
| "write_args_at at (a # as) c =
     (case arg_words a c of
        (c, Inl k) \<Rightarrow> (c, Some k)
      | (c, Inr ws) \<Rightarrow> write_args_at (at + 12) as (on_mem (put_words mem_set_g at ws) c))"

definition gbase_of :: "'s core \<Rightarrow> u8 \<Rightarrow> nat" where
  "gbase_of c pr = (case core_progs_at c pr of Some p \<Rightarrow> unat (ps_gbase p) | None \<Rightarrow> 0)"

definition write_args :: "u8 \<Rightarrow> arg list \<Rightarrow> 's core \<Rightarrow> 's core \<times> error_kind option" where
  "write_args pr as c =
     (if 8 < length as then (c, Some (TooManyArguments (length as)))
      else write_args_at (gbase_of c pr + OFS_PARM0) as c)"

definition read_return :: "'s core \<Rightarrow> u8 \<Rightarrow> u32 \<times> u32 \<times> u32" where
  "read_return c pr =
     (let at = gbase_of c pr + OFS_RETURN
      in (mem_g (c_mem c) at, mem_g (c_mem c) (at + 4), mem_g (c_mem c) (at + 8)))"

definition guarded :: "('s, 'h, 'a) act \<Rightarrow> ('s, 'h, 'a) act" where
  "guarded m = (\<lambda>(v, h).
     if c_poisoned (v_core v) then Some ((v, h), Failed (vm_error_new Poisoned))
     else case m (v, h) of
            Some ((v, h), Panicked) \<Rightarrow> Some ((on_core (\<lambda>c. c\<lparr>c_poisoned := True\<rparr>) v, h), Panicked)
          | r \<Rightarrow> r)"

text \<open>The body of a call, once its arguments are in place.\<close>

definition call_body :: "('s, 'h) host \<Rightarrow> ('s, 'h) builtins \<Rightarrow> u32 \<Rightarrow> callee option \<Rightarrow> ('s, 'h, unit) act" where
  "call_body H B f callee = (\<lambda>(v, h).
     let c = v_core v; pr = func_progs f; kinded = (\<lambda>k. Failed (vm_error_new k))
     in case callee of
          Some CQc \<Rightarrow>
            (case enter c pr (func_index f) (x_pc (c_x c)) of
               (c', None) \<Rightarrow> execute H B (length (c_frames c)) (v\<lparr>v_core := c'\<rparr>, h)
             | (c', Some k) \<Rightarrow>
                 Some ((v\<lparr>v_core := c'\<rparr>, h), Failed (with_backtrace (vm_error_new k) (backtrace c'))))
        | Some (CBuiltin slot) \<Rightarrow>
            (case run_builtin H B slot f (length (c_frames c))
                    (on_core (\<lambda>c. c\<lparr>c_x := (c_x c)\<lparr>x_prnum := pr\<rparr>\<rparr>) v, h) of
               None \<Rightarrow> None
             | Some (w, Panicked) \<Rightarrow> Some (w, Panicked)
             | Some ((v, h), r) \<Rightarrow>
                 Some ((on_core (\<lambda>d. d\<lparr>c_x := (c_x d)\<lparr>x_prnum := x_prnum (c_x c)\<rparr>\<rparr>) v, h),
                       (case r of Failed e \<Rightarrow> Failed e | _ \<Rightarrow> Done ())))
        | Some CNull \<Rightarrow> Some ((v, h), kinded NullFunction)
        | Some CMissing \<Rightarrow>
            Some ((v, h), Failed (with_backtrace (vm_error_new (missing c f)) (backtrace c)))
        | _ \<Rightarrow> Some ((v, h), kinded (InvalidFunctionRef f)))"

text \<open>The end of a call: the registers come back, the result is read, and a call from outside QuakeC
  reports the warnings and collects garbage.\<close>

definition end_of_call :: "('s, 'h) host \<Rightarrow> bool \<Rightarrow> u32 \<times> u32 \<Rightarrow> u8 \<Rightarrow> ('s, 'h, u32 \<times> u32 \<times> u32) act" where
  "end_of_call H outer saved ret_pr = (\<lambda>(v, h).
     let c = v_core v;
         c = c\<lparr>c_nesting := sat_sub (c_nesting c) 1, c_argc := fst saved, c_builtin := snd saved\<rparr>;
         ret = (case c_abort_ret c of Some r \<Rightarrow> r | None \<Rightarrow> read_return c ret_pr);
         c = c\<lparr>c_abort_ret := None\<rparr>
     in if \<not> outer then Some ((v\<lparr>v_core := c\<rparr>, h), Done ret)
        else let c = (if 0 < c_suppressed c
                      then c\<lparr>c_warnings := c_warnings c @ [\<lparr>w_kind = Suppressed (c_suppressed c), w_backtrace = []\<rparr>]\<rparr>
                      else c)
             in and_then (flush_warnings H) (\<lambda>_ (v, h).
                  Some ((if wants_collection (c_strings (v_core v))
                         then on_core (\<lambda>c. fst (collect_garbage_now c)) v else v, h), Done ret))
                (v\<lparr>v_core := c\<rparr>, h))"

text \<open>Once the budgets are started: the arguments, the body and the end of the call.\<close>

definition call_rest :: "('s, 'h) host \<Rightarrow> ('s, 'h) builtins \<Rightarrow> u32 \<Rightarrow> arg list \<Rightarrow> callee option \<Rightarrow> bool \<Rightarrow>
    u32 \<times> u32 \<Rightarrow> u8 \<Rightarrow> ('s, 'h, u32 \<times> u32 \<times> u32) act" where
  "call_rest H B f as callee outer saved io_pr = (\<lambda>(v, h).
     case write_args io_pr as (v_core v) of
       (c, Some k) \<Rightarrow> Some ((v\<lparr>v_core := c\<rparr>, h), Failed (vm_error_new k))
     | (c, None) \<Rightarrow>
         let c = c\<lparr>c_argc := of_nat (length as), c_nesting := sat_add (c_nesting c) 1\<rparr>
         in case call_body H B f callee (v\<lparr>v_core := c\<rparr>, h) of
              None \<Rightarrow> None
            | Some (w, Panicked) \<Rightarrow> Some (w, Panicked)
            | Some (w, r) \<Rightarrow>
                and_then (end_of_call H outer saved io_pr) (\<lambda>ret w.
                  Some (w, case r of Failed e \<Rightarrow> Failed e | _ \<Rightarrow> Done ret)) w)"

definition call_inner ::
  "('s, 'h) host \<Rightarrow> ('s, 'h) builtins \<Rightarrow> u32 \<Rightarrow> arg list \<Rightarrow> ('s, 'h, u32 \<times> u32 \<times> u32) act" where
  "call_inner H B f as = (\<lambda>(v, h).
     let c = v_core v
     in if l_reentry (g_limits (c_config c)) \<le> c_nesting c
        then Some ((v, h), Failed (vm_error_new Reentrancy))
        else
          let callee = callee_of c f; outer = (c_nesting c = 0)
          in call_rest H B f as callee outer (c_argc c, c_builtin c)
               (if callee = Some CQc then x_prnum (c_x c) else func_progs f)
               (if outer
                then start_budgets H (on_core (\<lambda>c. c\<lparr>c_warnings_this_call := 0, c_suppressed := 0\<rparr>) v, h)
                else (v, h)))"

definition call :: "('s, 'h) host \<Rightarrow> ('s, 'h) builtins \<Rightarrow> u32 \<Rightarrow> arg list \<Rightarrow> ('s, 'h, u32 \<times> u32 \<times> u32) act" where
  "call H B f as = guarded (call_inner H B f as)"

definition call_as_with ::
  "('s, 'h) host \<Rightarrow> ('s, 'h) builtins \<Rightarrow> u32 \<Rightarrow> u32 \<Rightarrow> u32 \<Rightarrow> arg list \<Rightarrow> ('s, 'h, u32 \<times> u32 \<times> u32) act" where
  "call_as_with H B self_g this f as = (\<lambda>(v, h).
     let saved = get_global KEnt v self_g
     in case call H B f as (set_global KEnt self_g [this] v, h) of
          None \<Rightarrow> None
        | Some (w, Panicked) \<Rightarrow> Some (w, Panicked)
        | Some ((v, h), r) \<Rightarrow> Some ((set_global KEnt self_g saved v, h), r))"

definition call_as ::
  "('s, 'h) host \<Rightarrow> ('s, 'h) builtins \<Rightarrow> u32 \<Rightarrow> u32 \<Rightarrow> arg list \<Rightarrow> ('s, 'h, u32 \<times> u32 \<times> u32) act" where
  "call_as H B this f as = (\<lambda>(v, h).
     case global_handle KEnt v (ascii ''self'') of
       Inr self_g \<Rightarrow> call_as_with H B self_g this f as (v, h)
     | Inl _ \<Rightarrow> call H B f as (v, h))"

definition call_field_fn ::
  "('s, 'h) host \<Rightarrow> ('s, 'h) builtins \<Rightarrow> u32 \<Rightarrow> u32 \<Rightarrow> arg list \<Rightarrow> ('s, 'h, (u32 \<times> u32 \<times> u32) option) act" where
  "call_field_fn H B e field as = (\<lambda>(v, h).
     case get_field KFunc v e field of
       Some ws \<Rightarrow>
         if func_index (scalar_from ws) \<noteq> 0
         then and_then (call_as H B e (scalar_from ws) as) (\<lambda>r w. Some (w, Done (Some r))) (v, h)
         else Some ((v, h), Done None)
     | None \<Rightarrow> Some ((v, h), Done None))"

end
