(* ===== verification/Progress.thy ===== *)
theory Progress
  imports Vm
begin

text \<open>
  What a run of the interpreter does to the frame stack and how it makes progress: the frames below
  the depth it started from stay as they are, a run that returns has popped its own frame and no other,
  a call out to a builtin has spent budget, and an animation opcode or a trace line has moved on.
\<close>

section \<open>Statements other than calls and returns\<close>

fun plain :: "'s core \<Rightarrow> u32 \<Rightarrow> u32 \<Rightarrow> 's outcome \<Rightarrow> bool" where
  "plain c pc bud (Next d pc' b) \<longleftrightarrow> c_frames d = c_frames c"
| "plain c pc bud (Reload d b) \<longleftrightarrow> False"
| "plain c pc bud (Exit d b e) \<longleftrightarrow> c_frames d = c_frames c \<and>
     (case e of Fault _ \<Rightarrow> True | ExitBudget \<Rightarrow> True
      | ExitState _ \<Rightarrow> b = bud \<and> x_pc (c_x d) = pc + 1 | _ \<Rightarrow> False)"

named_theorems plain_intros

lemma at_pc_frames [simp]: "c_frames (at_pc c pc) = c_frames c" "x_pc (c_x (at_pc c pc)) = pc"
  by (simp_all add: at_pc_def)

lemma plain_next [plain_intros]: "c_frames d = c_frames c \<Longrightarrow> plain c pc bud (Next d pc' b)"
  by simp

lemma plain_fault [plain_intros]: "c_frames d = c_frames c \<Longrightarrow> plain c pc bud (fault d pc' b k)"
  by (simp add: fault_def)

lemma plain_rewound [plain_intros]: "c_frames d = c_frames c \<Longrightarrow> plain c pc bud (rewound n d pc' b)"
  by (simp add: rewound_def plain_intros)

lemma plain_tick:
  "c_frames d = c_frames c \<Longrightarrow> (\<And>b. plain c pc bud (k b)) \<Longrightarrow> plain c pc bud (tick n d pc' b' k)"
  by (simp add: tick_def Let_def)

lemma plain_jump [plain_intros]: "c_frames d = c_frames c \<Longrightarrow> plain c pc bud (jump n d pc' b t)"
  unfolding jump_def by (rule plain_tick) (simp_all add: plain_intros)

lemmas frames_simps = same_call

lemma plain_strcmp: "plain c pc bud (strcmp_step n p oa ob oc c pc bud)"
  by (auto simp: strcmp_step_def Let_def split_beta frames_simps intro!: plain_intros)

lemma plain_branch: "plain c pc bud (branch_step n p st c pc bud)"
  by (auto simp: branch_step_def intro!: plain_intros plain_tick)

lemma plain_loadf: "plain c pc bud (loadf_step n p oa ob oc c pc bud)"
  by (auto simp: loadf_step_def Let_def frames_simps split: option.splits intro!: plain_intros)

lemma plain_address: "plain c pc bud (address_step n oa ob oc c pc bud)"
  by (auto simp: address_step_def Let_def frames_simps split: option.splits intro!: plain_intros)

lemma plain_storef: "plain c pc bud (storef_step n p oa ob oc c pc bud)"
  by (auto simp: storef_step_def plain_address frames_simps split: option.splits intro!: plain_intros)

lemma frames_of_fst: "f = (d, r) \<Longrightarrow> c_frames (fst f) = c_frames c \<Longrightarrow> c_frames d = c_frames c"
  by simp

lemma plain_store_slow: "plain c pc bud (store_slow n c pc bud base off bs)"
  by (auto simp: store_slow_def split: prod.split option.split intro!: plain_intros
      dest: frames_of_fst simp: frames_simps)

lemma plain_store_fast: "plain c pc bud (store_fast n c pc bud base off bs)"
  by (simp add: store_fast_def plain_store_slow split: option.split)

lemma plain_storep: "plain c pc bud (storep_step n p oa ob oc c pc bud)"
  by (cases p) (simp_all add: storep_step_def Let_def plain_store_slow plain_store_fast)

lemma plain_load_slow: "plain c pc bud (load_slow n c pc bud k base off put)"
  by (auto simp: load_slow_def Let_def frames_simps split: sum.split intro!: plain_intros)

lemma plain_load_fast: "plain c pc bud (load_fast n c pc bud w base off oc)"
  by (simp add: load_fast_def plain_load_slow frames_simps split: option.split)

lemma plain_load_convert: "plain c pc bud (load_convert n f oa oc c pc bud)"
  by (auto simp: load_convert_def Let_def frames_simps split: option.split intro!: plain_intros)

lemma plain_loadp: "plain c pc bud (loadp_step n p oa ob oc c pc bud)"
  by (cases p) (simp_all add: loadp_step_def Let_def plain_load_fast plain_load_slow plain_load_convert)

lemma plain_compoundp_slow: "plain c pc bud (compoundp_slow n p oa ob oc c pc bud)"
  by (auto simp: compoundp_slow_def split: prod.split option.split intro!: plain_intros
      dest: frames_of_fst simp: frames_simps)

lemma plain_compoundp: "plain c pc bud (compoundp_step n p oa ob oc c pc bud)"
  by (simp add: compoundp_step_def plain_compoundp_slow split: option.split)

lemma plain_arrays:
  "plain c pc bud (fetch_step n p0 st c pc bud)" "plain c pc bud (loada_step n p1 st c pc bud)"
  "plain c pc bud (gload_step n p2 st c pc bud)" "plain c pc bud (gstorep_step n p3 st c pc bud)"
  by (auto simp: fetch_step_def loada_step_def gload_step_def gstorep_step_def Let_def frames_simps
      split: option.split intro!: plain_intros)

lemma plain_bounds: "plain c pc bud (bounds_step n p st c pc bud)"
  by (auto simp: bounds_step_def push_step_def Let_def frames_simps intro!: plain_intros)

lemma plain_bad: "plain c pc bud (bad_step p c pc bud)"
  by (simp add: bad_step_def plain_intros)

lemma plain_anim: "plain c pc bud (anim_step n p oa ob c pc bud)"
  by (simp add: anim_step_def Let_def)

lemma plain_rand: "plain c pc bud (rand_step n p oa ob oc c pc bud)"
  by (auto simp: rand_step_def frames_simps intro!: plain_intros)

lemma plain_switch: "plain c pc bud (switch_step n p st c pc bud)"
  by (simp add: switch_step_def plain_intros)

lemma plain_case: "plain c pc bud (case_step n st c pc bud)"
  by (auto simp: case_step_def Let_def split_beta frames_simps split: switch_kind.split intro!: plain_intros)

lemma plain_case_range: "plain c pc bud (case_range_step n st c pc bud)"
  by (auto simp: case_range_step_def Let_def split: switch_kind.split intro!: plain_intros)

lemma plain_data: "plain c pc bud (data_step n f c pc bud)"
  by (simp add: data_step_def frames_simps)

lemmas plain_steps = plain_strcmp plain_branch plain_loadf plain_storef plain_storep plain_loadp
  plain_compoundp plain_arrays plain_bounds plain_bad plain_anim plain_rand plain_switch plain_case
  plain_case_range plain_data

lemma step_plain:
  assumes "\<forall>p. st_op st \<noteq> Call p" "\<forall>p. st_op st \<noteq> Ret p"
  shows "plain c pc bud (step n st c pc bud)"
  using assms unfolding step_def Let_def
  by (cases "st_op st") (simp_all add: plain_steps split: case_op.split)

section \<open>Calls and returns\<close>

text \<open>The frames \<open>fs\<close> are at the bottom of the stack; or their last one has been popped.\<close>

definition above :: "frame list \<Rightarrow> 's core \<Rightarrow> bool" where
  "above fs c \<longleftrightarrow> (\<exists>gs. c_frames c = fs @ gs)"

definition popped :: "frame list \<Rightarrow> 's core \<Rightarrow> bool" where
  "popped fs c \<longleftrightarrow> c_frames c = butlast fs \<and> x_pc (c_x c) = fr_resume_pc (last fs) \<and>
     x_prnum (c_x c) = fr_prnum (last fs) \<and> x_func (c_x c) = fr_func (last fs)"

lemma above_cong: "above fs c \<Longrightarrow> c_frames d = c_frames c \<Longrightarrow> above fs d"
  by (simp add: above_def)

lemma leave_registers:
  assumes "c_frames c \<noteq> []"
  shows "x_pc (c_x (leave c)) = fr_resume_pc (last (c_frames c))"
    "x_prnum (c_x (leave c)) = fr_prnum (last (c_frames c))"
    "x_func (c_x (leave c)) = fr_func (last (c_frames c))"
  using assms by (simp_all add: leave_def Let_def pop_frame_def restore_locals_def)

lemma leave_above:
  assumes "above fs c" "fs \<noteq> []"
  shows "if length (c_frames (leave c)) \<le> length fs - 1 then popped fs (leave c) else above fs (leave c)"
proof -
  obtain gs where gs: "c_frames c = fs @ gs" using assms(1) by (auto simp: above_def)
  show ?thesis
  proof (cases "gs = []")
    case True
    then show ?thesis using gs assms(2) leave_registers [of c] by (simp add: popped_def)
  next
    case False
    then have "c_frames (leave c) = fs @ butlast gs" using gs by (simp add: butlast_append)
    then show ?thesis using False assms(2) by (auto simp: above_def) (cases fs; simp)
  qed
qed

text \<open>What a statement does to the frames and to the budget.\<close>

fun advance :: "frame list \<Rightarrow> u32 \<Rightarrow> u32 \<Rightarrow> 's outcome \<Rightarrow> bool" where
  "advance fs pc bud (Next d pc' b) \<longleftrightarrow> above fs d"
| "advance fs pc bud (Reload d b) \<longleftrightarrow> above fs d"
| "advance fs pc bud (Exit d b e) \<longleftrightarrow> (if e = Returned then popped fs d else above fs d) \<and>
     (case e of ExitBuiltin _ _ \<Rightarrow> b < bud | ExitState _ \<Rightarrow> b = bud \<and> x_pc (c_x d) = pc + 1
      | ExitTrace \<Rightarrow> False | _ \<Rightarrow> True)"

lemma plain_advance: "plain c pc bud x \<Longrightarrow> above fs c \<Longrightarrow> advance fs pc bud x"
  by (cases x) (auto simp: above_def split: exit.splits)

lemma tick_advance:
  assumes "above fs d" "\<And>b. b < bud \<Longrightarrow> advance fs pc bud (k b)"
  shows "advance fs pc bud (tick n d pc' bud k)"
  using assms sat_sub_one_less [of bud] by (simp add: tick_def Let_def above_def)

lemma enter_frames:
  assumes "enter c pr i rpc = (c', r)" "above fs c"
  shows "above fs c'"
proof (cases r)
  case None
  with assms(1) have "enter c pr i rpc = (c', None)" by simp
  then show ?thesis by (rule enter_ok) (use assms(2) in \<open>auto simp: above_def\<close>)
next
  case (Some k)
  then have "c' = c \<or> c' = switch_in c (x_prnum (c_x c)) pr" using enter_failed [of c pr i rpc c' k] assms(1) by blast
  then show ?thesis using assms(2) by (elim disjE) (simp_all add: above_def)
qed

lemma dispatch_advance:
  assumes "above fs c" "b < bud"
  shows "advance fs pc bud (dispatch n t c pc b)"
proof -
  have at: "above fs (at_pc d q)" if "above fs d" for d :: "'a core" and q
    using that by (simp add: above_def)
  then show ?thesis
    using assms enter_frames [of "at_pc c pc"] at [OF assms(1)]
    by (auto simp: dispatch_def fault_def split: option.split callee.split prod.split)
qed

lemma step_advance:
  assumes "above fs c" "fs \<noteq> []" "n_depth n = length fs - 1"
  shows "advance fs pc bud (step n st c pc bud)"
proof -
  consider (call) p where "st_op st = Call p" | (ret) p where "st_op st = Ret p"
    | (other) "\<forall>p. st_op st \<noteq> Call p" "\<forall>p. st_op st \<noteq> Ret p" by blast
  then show ?thesis
  proof cases
    case call
    have "above fs ((on_mem f c)\<lparr>c_argc := a\<rparr>)" for f a
      using assms(1) by (simp add: above_def on_mem_def)
    then show ?thesis
      unfolding step_def Let_def call op.case call_step_def
      by (intro tick_advance [OF assms(1)] dispatch_advance)
  next
    case ret
    have "above fs (at_pc (on_mem f c) pc)" for f
      using assms(1) by (simp add: above_def on_mem_def)
    from leave_above [OF this assms(2)] show ?thesis
      unfolding step_def Let_def ret op.case return_step_def
      by (intro tick_advance [OF assms(1)]) (auto simp: assms(3) split: if_splits)
  next
    case other
    then show ?thesis using step_plain plain_advance [OF _ assms(1)] by blast
  qed
qed

section \<open>A run\<close>

text \<open>Budget spent, or the budget as it was and a later statement.\<close>

definition moved :: "view \<Rightarrow> u32 \<Rightarrow> nat \<Rightarrow> u32 \<Rightarrow> u32 \<Rightarrow> bool" where
  "moved v b0 i0 b pc \<longleftrightarrow> b < b0 \<or> b = b0 \<and> i0 < code_index v pc"

definition on_track :: "frame list \<Rightarrow> view \<Rightarrow> u32 \<Rightarrow> nat \<Rightarrow> bool \<Rightarrow> bool \<Rightarrow> 's lstate \<Rightarrow> bool" where
  "on_track fs v b0 i0 tr t0 s \<longleftrightarrow>
     above fs (ls_core s) \<and> n_depth (ls_env s) = length fs - 1 \<and> n_view (ls_env s) = v \<and> n_trace (ls_env s) = tr \<and>
     (moved v b0 i0 (ls_budget s) (ls_pc s) \<or>
      ls_budget s = b0 \<and> code_index v (ls_pc s) = i0 \<and> c_traced (ls_core s) = t0)"

definition run_done :: "frame list \<Rightarrow> view \<Rightarrow> u32 \<Rightarrow> nat \<Rightarrow> bool \<Rightarrow> bool \<Rightarrow> 's result \<Rightarrow> bool" where
  "run_done fs v b0 i0 tr t0 r \<longleftrightarrow>
     (case r of (d, b, e) \<Rightarrow>
        (if e = Returned then popped fs d else above fs d) \<and>
        (case e of
           ExitBuiltin _ _ \<Rightarrow> b < b0
         | ExitState _ \<Rightarrow> moved v b0 i0 b (x_pc (c_x d))
         | ExitTrace \<Rightarrow> tr \<and> c_traced d \<and>
             (moved v b0 i0 b (x_pc (c_x d)) \<or> b = b0 \<and> code_index v (x_pc (c_x d)) = i0 \<and> \<not> t0)
         | _ \<Rightarrow> True))"

lemma inner_advance:
  assumes inv: "loop_inv c0 s" and s: "on_track fs v b0 i0 tr t0 s" and fs: "fs \<noteq> []"
  shows "case inner s of Inl r \<Rightarrow> run_done fs v b0 i0 tr t0 r | Inr s' \<Rightarrow> on_track fs v b0 i0 tr t0 s'"
proof -
  define n c pc bud where "n = ls_env s" and "c = ls_core s" and "pc = ls_pc s" and "bud = ls_budget s"
  note defs = n_def c_def pc_def bud_def
  have a: "above fs c" "n_depth n = length fs - 1" "n_view n = v" "n_trace n = tr"
    and m: "moved v b0 i0 bud pc \<or> bud = b0 \<and> code_index v pc = i0 \<and> c_traced c = t0"
    using s by (simp_all add: on_track_def defs)
  have le: "bud \<le> b0" using m by (auto simp: moved_def)
  have at: "above fs (at_pc d q)" "above fs (d\<lparr>c_traced := t\<rparr>)" if "above fs d" for d :: "'a core" and q t
    using that by (simp_all add: above_def)
  show ?thesis
  proof (cases "n_trace n \<and> \<not> c_traced c")
    case True
    then have "inner s = Inl ((at_pc c pc)\<lparr>c_traced := True\<rparr>, bud, ExitTrace)"
      by (simp add: inner_def Let_def defs)
    then show ?thesis using at a m True by (auto simp: run_done_def)
  next
    case False
    define d where "d = (if n_trace n then c\<lparr>c_traced := False\<rparr> else c)"
    have d: "above fs d" using at a(1) by (simp add: d_def)
    show ?thesis
    proof (cases "code_at v (ls_code s) pc")
      case None
      then have "inner s = Inl (at_pc d pc, bud, Fault JumpOutOfRange)"
        using False a(3) by (simp add: inner_def Let_def defs d_def)
      then show ?thesis using at(1) [OF d] by (simp add: run_done_def)
    next
      case (Some st)
      have ready: "code_ready v (ls_code s)" using inv a(3) by (simp add: loop_inv_def n_def)
      have next_index: "st_op st \<noteq> BadOp JumpOutOfRangeOp \<Longrightarrow> moved v b0 i0 bud (pc + 1)"
        using code_index_next [OF ready Some] m by (auto simp: moved_def)
      have "length (ms (c_mem d)) = length (ms (c_mem c))" by (simp add: d_def)
      then have "view_ok v (ms (c_mem d))"
        using inv a(3) view_ok_length [of "ms (c_mem d)" "ms (c_mem c)" v] by (simp add: loop_inv_def defs)
      then have ok: "outcome_ok d pc bud (step n st d pc bud)" using a(3) by (intro step_ok) simp
      have adv: "advance fs pc bud (step n st d pc bud)" by (rule step_advance [OF d fs a(2)])
      have i: "inner s = (case step n st d pc bud of
          Next c' pc' b \<Rightarrow> Inr (s\<lparr>ls_core := c', ls_pc := pc', ls_budget := b\<rparr>)
        | Reload c' b \<Rightarrow> reload (n_view n) (n_trace n) (n_depth n) (ls_pr s) (ls_cache s) c' b
        | Exit c' b e \<Rightarrow> Inl (c', b, e))"
        unfolding d_def defs by (rule inner_some) (use False Some a(3) in \<open>simp_all add: defs\<close>)
      have sentinel: "st_op st \<noteq> BadOp JumpOutOfRangeOp" if "\<forall>k e b. step n st d pc bud \<noteq> Exit e b (Fault k)"
      proof
        assume "st_op st = BadOp JumpOutOfRangeOp"
        then show False using that by (simp add: step_def Let_def bad_step_def fault_def)
      qed
      show ?thesis
      proof (cases "step n st d pc bud")
        case (Next c' pc' b)
        then have "b < bud \<or> b = bud \<and> pc' = pc + 1" "above fs c'" using ok adv by simp_all
        then have "moved v b0 i0 b pc'"
          using next_index [OF sentinel] le Next by (auto simp: moved_def)
        then show ?thesis using i Next \<open>above fs c'\<close> s by (simp add: on_track_def)
      next
        case (Reload c' b)
        then have r: "b < bud" "above fs c'" using ok adv by simp_all
        then have "moved v b0 i0 b pc'" for pc' using le by (auto simp: moved_def)
        then show ?thesis
          using i Reload r a by (auto simp: reload_def Let_def on_track_def run_done_def split: option.splits if_splits)
      next
        case (Exit c' b e)
        then have x: "(if e = Returned then popped fs c' else above fs c')"
          "case e of ExitBuiltin _ _ \<Rightarrow> b < bud | ExitState _ \<Rightarrow> b = bud \<and> x_pc (c_x c') = pc + 1
            | ExitTrace \<Rightarrow> False | _ \<Rightarrow> True" using adv by simp_all
        show ?thesis
          using i Exit x le next_index [OF sentinel] by (cases e) (simp_all add: run_done_def)
      qed
    qed
  qed
qed

lemma loop_advance:
  assumes "loop s = Some r" "loop_inv c0 s" "on_track fs v b0 i0 tr t0 s" "fs \<noteq> []"
  shows "run_done fs v b0 i0 tr t0 r"
  using assms(1-3)
proof (induction s r rule: loop.raw_induct [rotated, consumes 1, case_names turn])
  case (turn lp s r)
  note ic = inner_cases [OF turn(3)] and ia = inner_advance [OF turn(3,4) assms(4)]
  show ?case
  proof (cases "inner s")
    case (Inl x)
    then show ?thesis using turn(2) ia by simp
  next
    case (Inr s')
    then show ?thesis using turn(1) [of s' r] turn(2) ic ia by auto
  qed
qed

lemma run_advance:
  assumes c: "core_wf c" "run_ready v c" "above fs c" "fs \<noteq> []"
    and r: "run v trace c (length fs - 1) bud = Some r"
  shows "run_done fs v bud (code_index v (x_pc (c_x c))) trace (c_traced c) r"
proof (cases "c_progs c")
  case Nil
  then show ?thesis using c(3) r by (auto simp: run_def run_done_def)
next
  case (Cons p ps)
  then have "code_ready v (ps_code p)" using c(2) by (simp add: run_ready_def)
  note rc = reload_cases [OF c(1) refl c(2) this, where t = trace and d = "length fs - 1" and pr = 255 and bud = bud]
  show ?thesis
  proof (cases "reload v trace (length fs - 1) 255 (ps_code p) c bud")
    case (Inl x)
    then have "r = x" using r Cons by (simp add: run_def)
    then show ?thesis
      using Inl c(3) by (auto simp: reload_def Let_def run_done_def split: option.splits if_splits)
  next
    case (Inr s)
    then have "loop s = Some r" "loop_inv c s" using r rc Cons by (simp_all add: run_def)
    moreover have "on_track fs v bud (code_index v (x_pc (c_x c))) trace (c_traced c) s"
      using Inr c(3) by (auto simp: reload_def Let_def on_track_def split: option.splits if_splits)
    ultimately show ?thesis using c(4) by (intro loop_advance)
  qed
qed

end
