(* ===== verification/Engine.thy ===== *)
theory Engine
  imports Progress
begin

text \<open>
  Calls from the host, whatever the builtins do, as long as they keep a contract (the locale \<open>engine\<close>):
  a builtin or a host hook returns, leaves a machine that is well formed with the same calls in
  progress, and does not refill the budget.  Then every call returns, and gives back the frames and the
  registers it found.
\<close>

section \<open>Operations that only work on data\<close>

text \<open>What builtins do to the core: they may change memory, strings, warnings and their own state, but
  not the calls in progress nor the progs.\<close>

definition tame :: "'s core \<Rightarrow> 's core \<Rightarrow> bool" where
  "tame c d \<longleftrightarrow> (core_wf c \<longrightarrow> core_wf d) \<and> c_progs d = c_progs c \<and>
     length (ms (c_mem d)) = length (ms (c_mem c)) \<and> c_frames d = c_frames c \<and>
     c_nesting d = c_nesting c \<and> c_entry_depth d = c_entry_depth c \<and> x_pc (c_x d) = x_pc (c_x c) \<and>
     x_prnum (c_x d) = x_prnum (c_x c) \<and> x_func (c_x d) = x_func (c_x c) \<and> c_trace d = c_trace c"

named_theorems tame_intros

lemma tame_refl [tame_intros]: "tame c c"
  by (simp add: tame_def)

lemma tame_trans: "tame c d \<Longrightarrow> tame d e \<Longrightarrow> tame c e"
  by (simp add: tame_def)

lemma tame_parts:
  assumes "c_mem d = c_mem c" "c_strings d = c_strings c" "c_progs d = c_progs c" "c_frames d = c_frames c"
    "c_x d = c_x c" "c_config d = c_config c" "c_nesting d = c_nesting c" "c_entry_depth d = c_entry_depth c"
    "c_trace d = c_trace c"
  shows "tame c d"
  using assms stack_wf_cong [of c d] by (simp add: tame_def core_wf_def)

lemma tame_std [tame_intros]: "tame c (c\<lparr>c_std := s\<rparr>)"
  by (rule tame_parts) simp_all

lemma tame_argc [tame_intros]: "tame c (c\<lparr>c_argc := a\<rparr>)" "tame c (c\<lparr>c_builtin := f\<rparr>)"
  "tame c (c\<lparr>c_warnings := ws\<rparr>)" "tame c (c\<lparr>c_abort_ret := r\<rparr>)"
  "tame c (c\<lparr>c_warnings_this_call := n, c_suppressed := k\<rparr>)"
  by (rule tame_parts; simp)+

lemma tame_warn [tame_intros]: "tame c (core_warn c k)" "tame c (vm_warn msg c)"
  unfolding vm_warn_def by (rule tame_parts; simp add: core_warn_def Let_def)+

lemma tame_mem:
  assumes "mem_wf (c_mem c) \<Longrightarrow> mem_wf m" "length (ms m) = length (ms (c_mem c))"
    "ls_words m = ls_words (c_mem c)"
  shows "tame c (c\<lparr>c_mem := m\<rparr>)"
  using assms stack_wf_cong [of c "c\<lparr>c_mem := m\<rparr>"] by (simp add: tame_def core_wf_def)

lemma tame_s_only: "s_only (c_mem c) m \<Longrightarrow> tame c (c\<lparr>c_mem := m\<rparr>)"
  by (rule tame_mem) (auto simp: s_only_wf s_only_fields)

lemma tame_strings: "(str_wf (c_strings c) \<Longrightarrow> str_wf s) \<Longrightarrow> tame c (c\<lparr>c_strings := s\<rparr>)"
  using stack_wf_cong [of c "c\<lparr>c_strings := s\<rparr>"] by (simp add: tame_def core_wf_def)

lemma s_only_put_words: "s_only m (put_words mem_set_g at ws m)"
  unfolding put_words_def by (rule s_only_foldl) (auto intro: s_only_set_g split: prod.split)

lemma tame_put_words [tame_intros]: "tame c (on_mem (put_words mem_set_g at ws) c)"
  unfolding on_mem_def by (rule tame_s_only) (rule s_only_put_words)

lemma tame_ret [tame_intros]: "tame c (ret_raw w c)" "tame c (ret_word x c)"
  by (simp_all add: ret_raw_def ret_word_def tame_intros split: prod.split)

lemma alloc_raw_wf: "str_wf s \<Longrightarrow> alloc_raw s d = (s', r) \<Longrightarrow> str_wf s'"
  by (metis alloc_raw_ok alloc_raw_refused fst_conv)

lemma str_alloc_wf: "str_wf s \<Longrightarrow> str_alloc s t = (s', r) \<Longrightarrow> str_wf s'"
  using alloc_raw_wf by (auto simp: str_alloc_def split: if_splits)

lemma tame_new_temp [tame_intros]: "tame c (fst (new_temp bs c))"
proof (cases "str_alloc (c_strings c) bs")
  case (Pair s r)
  have "str_wf (c_strings c) \<Longrightarrow> str_wf s"
    using Pair by (auto intro: str_alloc_wf)
  then show ?thesis using Pair by (cases r) (simp_all add: new_temp_def tame_strings)
qed

lemma tame_ret_str [tame_intros]: "tame c (fst (ret_str bs c))"
  using tame_new_temp [of c bs] tame_trans [OF _ tame_ret(2)]
  by (auto simp: ret_str_def split: prod.split sum.split)

lemma tame_collect [tame_intros]: "tame c (fst (collect_garbage_now c))"
  using str_collect_wf [of "c_strings c"]
  by (auto simp: collect_garbage_now_def split: prod.split intro!: tame_strings) (metis fst_conv)

lemma tame_ent_field [tame_intros]: "tame c (set_ent_field e f w c)"
  by (auto simp: set_ent_field_def on_mem_def split: option.split
      intro!: tame_intros tame_mem set_ent_word_wf) (simp_all add: set_ent_word_def)

lemma tame_global_word [tame_intros]: "tame c (set_global_word g w c)"
  by (auto simp: set_global_word_def on_mem_def split: option.split intro!: tame_intros tame_s_only s_only_set_g)

lemma tame_set_ent_word [tame_intros]: "tame c (on_mem (\<lambda>m. set_ent_word m off w) c)"
  unfolding on_mem_def by (rule tame_mem) (auto simp: set_ent_word_wf, simp_all add: set_ent_word_def)

lemma tame_cycle [tame_intros]: "tame c (cycle_op h this time ff lo hi f c)"
  unfolding cycle_op_def Let_def
  by (auto split: option.split prod.split intro!: tame_trans [OF _ tame_set_ent_word]
      tame_trans [OF _ tame_global_word] tame_trans [OF _ tame_ent_field] tame_intros)

lemma tame_state_op [tame_intros]: "tame c (default_state_op so c)"
proof -
  have "tame c (set_ent_field e1 f1 w1 (set_ent_field e2 f2 w2 (set_ent_field e3 f3 w3 c)))" for e1 f1 w1 e2 f2 w2 e3 f3 w3
    by (rule tame_trans [OF tame_trans [OF tame_ent_field tame_ent_field] tame_ent_field])
  then show ?thesis
    by (auto simp: default_state_op_def Let_def split: option.split state_op.split intro!: tame_intros)
qed

section \<open>Machines that can run\<close>

definition vm_ready :: "'s vm \<Rightarrow> bool" where
  "vm_ready v \<longleftrightarrow> core_wf (v_core v) \<and> run_ready Whole (v_core v) \<and>
     (v_window v \<longrightarrow> window_fits (v_core v))"

definition in_call :: "'s vm \<Rightarrow> bool" where
  "in_call v \<longleftrightarrow> vm_ready v \<and> 0 < c_nesting (v_core v)"

text \<open>The same calls are in progress.\<close>

definition same_calls :: "'s core \<Rightarrow> 's core \<Rightarrow> bool" where
  "same_calls c d \<longleftrightarrow> c_frames d = c_frames c \<and> c_nesting d = c_nesting c \<and>
     c_entry_depth d = c_entry_depth c \<and> x_pc (c_x d) = x_pc (c_x c) \<and>
     x_prnum (c_x d) = x_prnum (c_x c) \<and> x_func (c_x d) = x_func (c_x c)"

text \<open>What both data operations and the interpreter keep.\<close>

definition held :: "'s core \<Rightarrow> 's core \<Rightarrow> bool" where
  "held c d \<longleftrightarrow> (core_wf c \<longrightarrow> core_wf d \<and> c_progs d = c_progs c \<and>
     length (ms (c_mem d)) = length (ms (c_mem c)) \<and> c_nesting d = c_nesting c \<and>
     c_entry_depth d = c_entry_depth c \<and> c_trace d = c_trace c)"

lemma held_trans: "held c d \<Longrightarrow> held d e \<Longrightarrow> held c e"
  by (simp add: held_def)

lemma tame_held: "tame c d \<Longrightarrow> held c d"
  by (simp add: tame_def held_def)

lemma tame_calls: "tame c d \<Longrightarrow> same_calls c d"
  by (simp add: tame_def same_calls_def)

lemma fixed_core_held:
  assumes "core_wf d" "fixed_core d = fixed_core c"
  shows "held c d"
proof -
  note f = fixed_part_eqD [OF assms(2) [unfolded fixed_core_def]]
  have "c_trace (fixed_core d) = c_trace (fixed_core c)" using assms(2) by simp
  then have "c_trace d = c_trace c" by (simp add: fixed_core_def fixed_part_def)
  then show ?thesis using f fixed_core_room [OF assms(2)] assms(1) by (simp add: held_def)
qed

lemma keeps_held: "keeps c d \<Longrightarrow> held c d"
  using fixed_core_held [of d c] fixed_part_core [of d c] by (auto simp: keeps_def held_def)

lemma window_fits_cong: "c_progs d = c_progs c \<Longrightarrow> length (ms (c_mem d)) = length (ms (c_mem c)) \<Longrightarrow>
    window_fits d = window_fits c"
  by (simp add: window_fits_def)

lemma held_ready:
  assumes "held (v_core v) c" "vm_ready v"
  shows "vm_ready (v\<lparr>v_core := c\<rparr>)"
  using assms window_fits_cong [of c "v_core v"] by (auto simp: held_def vm_ready_def run_ready_def)

lemma tame_ready: "tame (v_core v) (f (v_core v)) \<Longrightarrow> vm_ready v \<Longrightarrow> vm_ready (on_core f v)"
  unfolding on_core_def by (rule held_ready [OF tame_held])

lemma keeps_unwind: "keeps c (unwind c d)"
proof (induction c d rule: unwind.induct)
  case (1 c d)
  then show ?case
    by (cases "d < length (c_frames c)")
      (simp_all add: unwind.simps [of c d] keeps_refl keeps_trans [OF leave_keeps])
qed

lemma unwind_popped:
  assumes "above fs c" "fs \<noteq> []"
  shows "popped fs (unwind c (length fs - 1))"
  using assms(1)
proof (induction "length (c_frames c)" arbitrary: c)
  case 0
  then show ?case using assms(2) by (auto simp: above_def)
next
  case (Suc k)
  have len: "length fs - 1 < length (c_frames c)" using Suc(3) assms(2) by (auto simp: above_def) (cases fs; simp)
  note l = leave_above [OF Suc(3) assms(2)]
  show ?case
  proof (cases "length (c_frames (leave c)) \<le> length fs - 1")
    case True
    then have "unwind (leave c) (length fs - 1) = leave c" by (simp add: unwind.simps [of "leave c"])
    then show ?thesis using l True len by (simp add: unwind.simps [of c])
  next
    case False
    then have "popped fs (unwind (leave c) (length fs - 1))" using l Suc(1) [of "leave c"] Suc(2) by simp
    then show ?thesis using len by (simp add: unwind.simps [of c])
  qed
qed

lemma run_ready_window: "run_ready Whole c \<Longrightarrow> window_fits c \<Longrightarrow> run_ready Window c"
  by (simp add: run_ready_def window_fits_def code_ready_def)

section \<open>Contracts\<close>

definition obeys :: "('s, 'h, 'a) act \<Rightarrow> bool" where
  "obeys m \<longleftrightarrow> (\<forall>v h. in_call v \<longrightarrow> (\<exists>v' h' r. m (v, h) = Some ((v', h'), r) \<and>
     (r \<noteq> Panicked \<longrightarrow> vm_ready v' \<and> same_calls (v_core v) (v_core v') \<and> v_budget v' \<le> v_budget v)))"

lemma obeysE:
  assumes "obeys m" "in_call v"
  obtains v' h' r where "m (v, h) = Some ((v', h'), r)"
    "r \<noteq> Panicked \<Longrightarrow> in_call v'" "r \<noteq> Panicked \<Longrightarrow> same_calls (v_core v) (v_core v')"
    "r \<noteq> Panicked \<Longrightarrow> v_budget v' \<le> v_budget v"
  using assms unfolding obeys_def in_call_def same_calls_def by (metis surj_pair)

text \<open>The machine at the end of a call whose frames are \<open>fs\<close>, or in the middle of it.\<close>

definition ends :: "frame list \<Rightarrow> 's vm \<Rightarrow> 's vm \<Rightarrow> bool" where
  "ends fs v v' \<longleftrightarrow> in_call v' \<and> popped fs (v_core v') \<and> c_nesting (v_core v') = c_nesting (v_core v) \<and>
     c_entry_depth (v_core v') = c_entry_depth (v_core v) \<and> v_budget v' \<le> v_budget v"

definition goes :: "frame list \<Rightarrow> 's vm \<Rightarrow> 's vm \<Rightarrow> bool" where
  "goes fs v v' \<longleftrightarrow> in_call v' \<and> above fs (v_core v') \<and> c_nesting (v_core v') = c_nesting (v_core v) \<and>
     c_entry_depth (v_core v') = c_entry_depth (v_core v) \<and> v_budget v' \<le> v_budget v"

fun settles :: "frame list \<Rightarrow> 's vm \<Rightarrow> (('s, 'h) world \<times> bool fate) option \<Rightarrow> bool" where
  "settles fs v None \<longleftrightarrow> False"
| "settles fs v (Some ((v', h'), Panicked)) \<longleftrightarrow> True"
| "settles fs v (Some ((v', h'), Failed e)) \<longleftrightarrow> ends fs v v'"
| "settles fs v (Some ((v', h'), Done b)) \<longleftrightarrow> (if b then goes fs v v' else ends fs v v')"

lemma goes_trans: "goes fs v v1 \<Longrightarrow> goes fs v1 v2 \<Longrightarrow> goes fs v v2"
  "goes fs v v1 \<Longrightarrow> ends fs v1 v2 \<Longrightarrow> ends fs v v2"
  by (auto simp: goes_def ends_def)

lemma goes_settles: "goes fs v v1 \<Longrightarrow> settles fs v1 x \<Longrightarrow> settles fs v x"
  by (induction fs v1 x rule: settles.induct) (auto intro: goes_trans)

lemma tame_goes:
  assumes "in_call v" "above fs (v_core v)" "tame (v_core v) (f (v_core v))"
  shows "goes fs v (on_core f v)"
  using assms tame_ready [of v f]
  by (auto simp: goes_def in_call_def above_def tame_def on_core_def)

lemma tame_ends:
  assumes "in_call v" "popped fs (v_core v)" "tame (v_core v) (f (v_core v))"
  shows "ends fs v (on_core f v)"
  using assms tame_ready [of v f]
  by (auto simp: ends_def in_call_def popped_def tame_def on_core_def)

lemma flush_cases:
  obtains h' ok where "flush_warnings H (v, h) =
    Some ((on_core (\<lambda>c. c\<lparr>c_warnings := []\<rparr>) v, h'), if ok then Done () else Panicked)"
  by (cases "tell H (c_warnings (v_core v)) h") (simp add: flush_warnings_def)

lemma unwound_ends:
  assumes "in_call v" "above fs (v_core v)" "fs \<noteq> []"
  shows "ends fs v (on_core (\<lambda>c. unwind c (length fs - 1)) v)"
proof -
  let ?v = "on_core (\<lambda>c. unwind c (length fs - 1)) v"
  have h: "held (v_core v) (unwind (v_core v) (length fs - 1))" by (rule keeps_held [OF keeps_unwind])
  have "vm_ready ?v"
    unfolding on_core_def by (rule held_ready [OF h]) (use assms(1) in \<open>simp add: in_call_def\<close>)
  then show ?thesis
    using h assms unwind_popped [OF assms(2,3)]
    by (auto simp: ends_def in_call_def held_def vm_ready_def on_core_def)
qed

lemma fail_settles:
  "in_call v \<Longrightarrow> above fs (v_core v) \<Longrightarrow> fs \<noteq> [] \<Longrightarrow> settles fs v (fail e (length fs - 1) (v, h))"
  using unwound_ends [of v fs] by (simp add: fail_def)

lemma flush_fail_settles:
  assumes "in_call v" "above fs (v_core v)" "fs \<noteq> []"
  shows "settles fs v (flush_fail H k (length fs - 1) (v, h))"
proof -
  obtain h' ok where f: "flush_warnings H (v, h) =
      Some ((on_core (\<lambda>c. c\<lparr>c_warnings := []\<rparr>) v, h'), if ok then Done () else Panicked)"
    by (rule flush_cases)
  have g: "goes fs v (on_core (\<lambda>c. c\<lparr>c_warnings := []\<rparr>) v)"
    by (rule tame_goes [OF assms(1,2)]) (rule tame_intros)
  then show ?thesis
    using goes_settles [OF g fail_settles] assms(3) f
    by (cases ok) (simp_all add: flush_fail_def and_then_def goes_def)
qed

section \<open>How a machine makes progress\<close>

definition vm_view :: "'s vm \<Rightarrow> view" where
  "vm_view v = (if c_trace (v_core v) then Whole else if v_window v then Window else Whole)"

definition vm_measure :: "'s vm \<Rightarrow> nat \<times> nat \<times> nat" where
  "vm_measure v = (unat (v_budget v), 2 ^ 32 - code_index (vm_view v) (x_pc (c_x (v_core v))),
     if c_trace (v_core v) \<and> \<not> c_traced (v_core v) then 1 else 0)"

definition progress :: "'s vm \<Rightarrow> 's vm \<Rightarrow> bool" where
  "progress v v' \<longleftrightarrow>
     (vm_measure v', vm_measure v) \<in> less_than <*lex*> less_than <*lex*> less_than"

lemma progress_budget: "v_budget v' < v_budget v \<Longrightarrow> progress v v'"
  by (simp add: progress_def vm_measure_def word_less_nat_alt)

lemma code_index_bound: "code_index v pc < 2 ^ 32"
proof (cases v)
  case Window
  have "unat pc mod CODE_WINDOW < CODE_WINDOW" by (simp add: CODE_WINDOW_def)
  then show ?thesis using Window by (simp add: code_index_def CODE_WINDOW_def)
next
  case Whole
  then show ?thesis using unat_u32_bound [of pc] by (simp add: code_index_def)
qed

lemma progress_index:
  assumes "v_budget v' \<le> v_budget v" "vm_view v' = vm_view v"
    and "code_index (vm_view v) (x_pc (c_x (v_core v))) < code_index (vm_view v) (x_pc (c_x (v_core v')))"
  shows "progress v v'"
  using assms code_index_bound [of "vm_view v" "x_pc (c_x (v_core v'))"]
  by (auto simp: progress_def vm_measure_def word_le_nat_alt)

lemma chunk_le: "chunk_of v \<le> v_budget v"
  by (simp add: chunk_of_def)

lemma budget_left:
  assumes "left \<le> chunk" "chunk \<le> (b :: u32)"
  shows "unat (sat_sub b (sat_sub chunk left)) = unat b - (unat chunk - unat left)"
  by (simp add: unat_sat_sub)

lemma run_chunk_ready:
  assumes "in_call v" "above fs (v_core v)" "fs \<noteq> []"
  obtains c left e where "run_chunk v (length fs - 1) = Some (c, left, e)"
    "held (v_core v) c" "left \<le> chunk_of v"
    "run_done fs (vm_view v) (chunk_of v) (code_index (vm_view v) (x_pc (c_x (v_core v))))
       (c_trace (v_core v)) (c_trace (v_core v) \<and> c_traced (v_core v)) (c, left, e)"
proof -
  define c0 where "c0 = (if c_trace (v_core v) then v_core v else (v_core v)\<lparr>c_traced := False\<rparr>)"
  have wf: "core_wf (v_core v)" "run_ready Whole (v_core v)" "v_window v \<longrightarrow> window_fits (v_core v)"
    using assms(1) by (simp_all add: in_call_def vm_ready_def)
  have r: "run_chunk v d = run (vm_view v) (c_trace (v_core v)) c0 d (chunk_of v)" for d
    by (simp add: run_chunk_def Let_def vm_view_def c0_def run_traced_def run_window_def run_fast_def)
  have "run_ready (vm_view v) (v_core v)"
    using wf(2,3) run_ready_window [of "v_core v"] by (auto simp: vm_view_def)
  then have c0: "core_wf c0" "run_ready (vm_view v) c0" "above fs c0"
    using wf assms(2) by (auto simp: c0_def run_ready_def above_def)
  obtain c left e where run: "run (vm_view v) (c_trace (v_core v)) c0 (length fs - 1) (chunk_of v) = Some (c, left, e)"
    "core_wf c" "fixed_core c = fixed_core c0" "left \<le> chunk_of v"
    using run_returns [OF c0(1,2)] by blast
  have "fixed_core c0 = fixed_core (v_core v)" by (simp add: c0_def)
  then have "held (v_core v) c" using fixed_core_held [OF run(2)] run(3) by simp
  moreover have "x_pc (c_x c0) = x_pc (c_x (v_core v))" "c_traced c0 = (c_trace (v_core v) \<and> c_traced (v_core v))"
    by (simp_all add: c0_def)
  ultimately show ?thesis
    using that run(1,4) run_advance [OF c0 assms(3) run(1)] unfolding r by simp
qed

text \<open>The machine when the interpreter leaves the loop.\<close>

lemma left_goes:
  assumes "in_call v" "held (v_core v) c" "b \<le> v_budget v"
  shows "above fs c \<Longrightarrow> goes fs v (v\<lparr>v_core := c, v_budget := b\<rparr>)"
    and "popped fs c \<Longrightarrow> ends fs v (v\<lparr>v_core := c, v_budget := b\<rparr>)"
proof -
  have "vm_ready (v\<lparr>v_core := c, v_budget := b\<rparr>)"
    using held_ready [OF assms(2)] assms(1) by (simp add: in_call_def vm_ready_def)
  then show "above fs c \<Longrightarrow> goes fs v (v\<lparr>v_core := c, v_budget := b\<rparr>)"
    and "popped fs c \<Longrightarrow> ends fs v (v\<lparr>v_core := c, v_budget := b\<rparr>)"
    using assms by (auto simp: goes_def ends_def in_call_def held_def vm_ready_def)
qed

section \<open>Going on after a call\<close>

text \<open>The machine can go on where it was.\<close>

definition resumes :: "'s vm \<Rightarrow> 's vm \<Rightarrow> bool" where
  "resumes v v' \<longleftrightarrow> in_call v' \<and> same_calls (v_core v) (v_core v') \<and> v_budget v' \<le> v_budget v"

lemma resumes_trans: "resumes u v \<Longrightarrow> resumes v w \<Longrightarrow> resumes u w"
  by (auto simp: resumes_def same_calls_def)

lemma tame_resumes:
  assumes "in_call v" "tame (v_core v) (f (v_core v))"
  shows "resumes v (on_core f v)"
  using tame_ready [of v f] tame_calls [OF assms(2)] assms
  by (auto simp: resumes_def in_call_def tame_def on_core_def)

lemma unwind_level: "length (c_frames c) \<le> d \<Longrightarrow> unwind c d = c"
  by (simp add: unwind.simps)

lemma prnum_in_call:
  assumes "in_call v"
  shows "in_call (on_core (\<lambda>c. c\<lparr>c_x := (c_x c)\<lparr>x_prnum := pr\<rparr>\<rparr>) v)"
  using assms
  by (auto simp: in_call_def vm_ready_def on_core_def run_ready_def core_wf_def stack_wf_def window_fits_def)

text \<open>A call gives back the frames, the registers and the builtin context it found.\<close>

definition gave_back :: "'s vm \<Rightarrow> 's vm \<Rightarrow> bool" where
  "gave_back v v' \<longleftrightarrow> vm_ready v' \<and> same_calls (v_core v) (v_core v') \<and>
     c_argc (v_core v') = c_argc (v_core v) \<and> c_builtin (v_core v') = c_builtin (v_core v) \<and>
     (0 < c_nesting (v_core v) \<longrightarrow> v_budget v' \<le> v_budget v)"

lemma tame_arg_words [tame_intros]: "tame c (fst (arg_words a c))"
  using tame_new_temp [of c]
  by (auto simp: arg_words_def tame_refl split: arg.split prod.split sum.split) (metis fst_conv)+

lemma tame_write_args_at: "tame c (fst (write_args_at at as c))"
proof (induction as arbitrary: at c)
  case (Cons a as)
  show ?case
  proof (cases "arg_words a c")
    case (Pair d r)
    then have d: "tame c d" using tame_arg_words [of c a] by simp
    show ?thesis
      using Pair tame_trans [OF d tame_trans [OF tame_put_words Cons]] d by (cases r) simp_all
  qed
qed (simp add: tame_refl)

lemma write_args_fields:
  "c_argc (fst (write_args pr as c)) = c_argc c \<and> c_builtin (fst (write_args pr as c)) = c_builtin c"
proof -
  have a: "c_argc (fst (arg_words a d)) = c_argc d \<and> c_builtin (fst (arg_words a d)) = c_builtin d" for a and d :: "'a core"
    by (auto simp: arg_words_def new_temp_def split: arg.split prod.split sum.split)
  have "c_argc (fst (write_args_at at as d)) = c_argc d \<and> c_builtin (fst (write_args_at at as d)) = c_builtin d" for at and d :: "'a core"
  proof (induction as arbitrary: at d)
    case (Cons x as)
    show ?case
    proof (cases "arg_words x d")
      case (Pair e r)
      then show ?thesis using Cons [of "at + 12"] a [of x d] by (cases r) (simp_all add: on_mem_def)
    qed
  qed simp
  then show ?thesis by (simp add: write_args_def)
qed

lemma tame_write_args [tame_intros]: "tame c (fst (write_args pr as c))"
  by (simp add: write_args_def tame_write_args_at tame_refl)

lemma start_budgets_core: "v_core (fst (start_budgets H (v, h))) = v_core v"
    "v_window (fst (start_budgets H (v, h))) = v_window v"
  by (simp_all add: start_budgets_def Let_def split: option.split prod.split)

lemma nesting_ready:
  assumes "vm_ready v" "c_nesting d = n" "tame (v_core v) (d\<lparr>c_nesting := c_nesting (v_core v)\<rparr>)" "v_core w = d"
    "v_window w = v_window v"
  shows "vm_ready w"
proof -
  have s: "core_wf (c\<lparr>c_nesting := k\<rparr>) = core_wf c" for c :: "'a core" and k
    by (simp add: core_wf_def stack_wf_def)
  show ?thesis
    using assms window_fits_cong [of d "v_core v"]
    by (auto simp: vm_ready_def tame_def s run_ready_def)
qed

section \<open>The engine\<close>

locale engine =
  fixes H :: "('s, 'h) host" and B :: "('s, 'h) builtins"
  assumes builtin_obeys: "builtin_func B slot = Some b \<Longrightarrow> obeys b"
    and hook_obeys: "obeys (hs_state_op H so)"
    and hook_quiet: "hs_state_op H so (v, h) = Some ((v', h'), Done x) \<Longrightarrow> v_budget v' = v_budget v \<Longrightarrow>
      c_trace (v_core v') = c_trace (v_core v) \<and> v_window v' = v_window v"
begin

lemma builtin_settles:
  assumes "in_call v" "above fs (v_core v)" "fs \<noteq> []"
  shows "settles fs v (and_then (run_builtin H B slot f (length fs - 1))
    (\<lambda>fl w. Some (w, Done (fl = FlowContinue))) (v, h))"
proof (cases "builtin_func B slot")
  case None
  then show ?thesis
    using unwound_ends [OF assms] by (simp add: and_then_def run_builtin_def fail_def)
next
  case (Some b)
  let ?v = "on_core (\<lambda>c. c\<lparr>c_builtin := f\<rparr>) v"
  have g: "goes fs v ?v" by (rule tame_goes [OF assms(1,2)]) (rule tame_intros)
  then have "in_call ?v" by (simp add: goes_def)
  from obeysE [OF builtin_obeys [OF Some] this, of h] obtain v2 h2 r where b: "b (?v, h) = Some ((v2, h2), r)"
    "r \<noteq> Panicked \<Longrightarrow> in_call v2" "r \<noteq> Panicked \<Longrightarrow> same_calls (v_core ?v) (v_core v2)"
    "r \<noteq> Panicked \<Longrightarrow> v_budget v2 \<le> v_budget ?v" by blast
  have g2: "goes fs v v2" if "r \<noteq> Panicked"
    using g b(2-4) [OF that] by (auto simp: goes_def same_calls_def above_def)
  show ?thesis
  proof (cases r)
    case (Done x)
    then show ?thesis using Some b(1) g2 by (simp add: and_then_def run_builtin_def)
  next
    case Panicked
    then show ?thesis using Some b(1) by (simp add: and_then_def run_builtin_def)
  next
    case (Failed e)
    then have in2: "in_call v2" "above fs (v_core v2)" "goes fs v v2" using g2 by (simp_all add: goes_def)
    show ?thesis
    proof (cases "e_control e")
      case (Some ret)
      let ?a = "on_core (\<lambda>c. c\<lparr>c_abort_ret := Some ret\<rparr>) v2"
      have "goes fs v2 ?a" by (rule tame_goes [OF in2(1,2)]) (rule tame_intros)
      then have "ends fs v (on_core (\<lambda>c. unwind c (length fs - 1)) ?a)"
        using goes_trans [OF in2(3)] unwound_ends [of ?a fs] assms(3) by (auto simp: goes_def ends_def)
      moreover have "on_core (\<lambda>c. unwind c (length fs - 1)) ?a =
          on_core (\<lambda>c. unwind (c\<lparr>c_abort_ret := Some ret\<rparr>) (length fs - 1)) v2"
        by (simp add: on_core_def)
      ultimately show ?thesis
        using Some Failed \<open>builtin_func B slot = Some b\<close> b(1) by (simp add: and_then_def run_builtin_def)
    next
      case None
      let ?d = "g_developer (c_config (v_core v2))"
      show ?thesis
      proof (cases "?d \<and> (\<exists>msg. e_kind e = BuiltinError msg)")
        case True
        then obtain msg where msg: "?d" "e_kind e = BuiltinError msg" by blast
        let ?w = "on_core (\<lambda>c. ret_raw (0, 0, 0) (vm_warn msg c)) v2"
        have w: "goes fs v2 ?w"
          by (rule tame_goes [OF in2(1,2)]) (rule tame_trans [OF tame_warn(2) tame_ret(1)])
        then have "goes fs ?w (on_core (\<lambda>c. c\<lparr>c_warnings := []\<rparr>) ?w)"
          by (intro tame_goes) (auto simp: goes_def tame_intros)
        then have "goes fs v (on_core (\<lambda>c. c\<lparr>c_warnings := []\<rparr>) ?w)"
          using goes_trans(1) in2(3) w by blast
        moreover obtain h' ok where "flush_warnings H (?w, h2) =
            Some ((on_core (\<lambda>c. c\<lparr>c_warnings := []\<rparr>) ?w, h'), if ok then Done () else Panicked)"
          by (rule flush_cases)
        ultimately show ?thesis
          using None Failed Some b(1) msg by (cases ok) (simp_all add: and_then_def run_builtin_def)
      next
        case False
        then have "run_builtin H B slot f (length fs - 1) (v, h) = fail e (length fs - 1) (v2, h2)"
          using None Failed Some b(1) by (auto simp: run_builtin_def split: error_kind.splits bool.splits)
        then show ?thesis
          using goes_trans(2) [OF in2(3) unwound_ends [OF in2(1,2) assms(3)]] by (simp add: and_then_def fail_def)
      qed
    qed
  qed
qed

text \<open>Serving an exit: the call goes on with some progress made, or ends.\<close>

definition progresses :: "'s vm \<Rightarrow> (('s, 'h) world \<times> bool fate) option \<Rightarrow> bool" where
  "progresses v x \<longleftrightarrow> (\<forall>v' h'. x = Some ((v', h'), Done True) \<longrightarrow> progress v v')"

lemma settled_budget:
  assumes "settles fs v1 x" "v_budget v1 < v_budget v"
  shows "progresses v x"
  unfolding progresses_def
proof (intro allI impI)
  fix v' h' assume "x = Some ((v', h'), Done True)"
  then have "v_budget v' \<le> v_budget v1" using assms(1) by (simp add: goes_def)
  then have "v_budget v' < v_budget v" using assms(2) by (rule le_less_trans)
  then show "progress v v'" by (rule progress_budget)
qed

lemma flush_then_settles:
  assumes "in_call v" "above fs (v_core v)"
    and k: "\<And>v' h'. goes fs v v' \<Longrightarrow> settles fs v' (k () (v', h'))"
  shows "settles fs v (and_then (flush_warnings H) k (v, h))"
proof -
  obtain h' ok where f: "flush_warnings H (v, h) =
      Some ((on_core (\<lambda>c. c\<lparr>c_warnings := []\<rparr>) v, h'), if ok then Done () else Panicked)"
    by (rule flush_cases)
  have g: "goes fs v (on_core (\<lambda>c. c\<lparr>c_warnings := []\<rparr>) v)"
    by (rule tame_goes [OF assms(1,2)]) (rule tame_intros)
  then show ?thesis using goes_settles [OF g k [OF g]] f by (cases ok) (simp_all add: and_then_def)
qed

lemma state_op_settles:
  assumes "in_call v" "above fs (v_core v)" "fs \<noteq> []"
  shows "settles fs v (serve_state_op H so (length fs - 1) (v, h)) \<and>
    (\<forall>v' h'. serve_state_op H so (length fs - 1) (v, h) = Some ((v', h'), Done True) \<longrightarrow>
       v_budget v' = v_budget v \<longrightarrow> vm_view v' = vm_view v \<and> x_pc (c_x (v_core v')) = x_pc (c_x (v_core v)))"
proof -
  from obeysE [OF hook_obeys assms(1), of so h] obtain v2 h2 r where
    b: "hs_state_op H so (v, h) = Some ((v2, h2), r)"
    "r \<noteq> Panicked \<Longrightarrow> in_call v2" "r \<noteq> Panicked \<Longrightarrow> same_calls (v_core v) (v_core v2)"
    "r \<noteq> Panicked \<Longrightarrow> v_budget v2 \<le> v_budget v" by blast
  have g: "goes fs v v2" if "r \<noteq> Panicked"
    using assms(2) b(2-4) [OF that] by (auto simp: goes_def same_calls_def above_def)
  show ?thesis
  proof (cases r)
    case (Done handled)
    let ?v = "if handled then v2 else on_core (default_state_op so) v2"
    have t: "tame (v_core v2) (v_core ?v)" by (simp add: on_core_def tame_intros)
    have g2: "goes fs v ?v"
      using goes_trans(1) [of fs v v2] tame_goes [of v2 fs "default_state_op so"] tame_state_op g Done
      by (auto simp: goes_def)
    have "v_budget v2 = v_budget v \<Longrightarrow> vm_view ?v = vm_view v \<and> x_pc (c_x (v_core ?v)) = x_pc (c_x (v_core v))"
      using t b(3) Done hook_quiet [OF b(1) [unfolded Done]]
      by (auto simp: vm_view_def same_calls_def tame_def on_core_def)
    then show ?thesis
      using b(1) Done g2 by (cases handled) (simp_all add: serve_state_op_def on_core_def)
  next
    case Panicked
    then show ?thesis using b(1) by (simp add: serve_state_op_def)
  next
    case (Failed e)
    then have g2: "goes fs v v2" using g by simp
    have "settles fs v2 (fail e (length fs - 1) (v2, h2))"
      by (rule fail_settles) (use g2 assms(3) in \<open>auto simp: goes_def\<close>)
    from goes_settles [OF g2 this] show ?thesis using b(1) Failed by (simp add: serve_state_op_def fail_def)
  qed
qed

lemma turn_settles:
  assumes v: "in_call v" "above fs (v_core v)" "fs \<noteq> []"
  shows "settles fs v (turn H B (length fs - 1) (v, h)) \<and> progresses v (turn H B (length fs - 1) (v, h))"
proof -
  let ?i = "code_index (vm_view v) (x_pc (c_x (v_core v)))"
  obtain c left e where r: "run_chunk v (length fs - 1) = Some (c, left, e)" "held (v_core v) c"
    "left \<le> chunk_of v"
    "run_done fs (vm_view v) (chunk_of v) ?i (c_trace (v_core v)) (c_trace (v_core v) \<and> c_traced (v_core v)) (c, left, e)"
    by (rule run_chunk_ready [OF v])
  define b where "b = (if e = ExitBudget then v_budget v
                     else sat_sub (v_budget v) (sat_sub (chunk_of v) left))"
  define w where "w = v\<lparr>v_core := c, v_budget := b\<rparr>"
  have turn: "turn H B (length fs - 1) (v, h) = serve H B (chunk_of v) (length fs - 1) e (w, h)"
    by (simp add: turn_def Let_def r(1) [simplified] w_def b_def)
  have b: "b \<le> v_budget v" "e \<noteq> ExitBudget \<Longrightarrow> left < chunk_of v \<Longrightarrow> b < v_budget v"
    using budget_left [OF r(3) chunk_le] r(3) chunk_le [of v]
    by (auto simp: b_def word_le_nat_alt word_less_nat_alt)
  have same: "e \<noteq> ExitBudget \<Longrightarrow> left = chunk_of v \<Longrightarrow> b = v_budget v"
    using budget_left [OF r(3) chunk_le] by (simp add: b_def word_unat_eq_iff)
  have view: "vm_view w = vm_view v"
    using r(2) v(1) by (simp add: vm_view_def w_def held_def in_call_def vm_ready_def)
  have go: "above fs c \<Longrightarrow> goes fs v w" "popped fs c \<Longrightarrow> ends fs v w"
    unfolding w_def by (rule left_goes [OF v(1) r(2) b(1)]; assumption)+
  have ab: "e \<noteq> Returned \<Longrightarrow> above fs c" "e = Returned \<Longrightarrow> popped fs c"
    using r(4) by (simp_all add: run_done_def split: if_splits)
  have w_in: "e \<noteq> Returned \<Longrightarrow> in_call w \<and> above fs (v_core w)" using go(1) ab(1) by (simp add: goes_def)
  have via: "settles fs v x \<and> progresses v x" if "e \<noteq> Returned" "settles fs w x" "progresses v x" for x
    using goes_settles [OF go(1) [OF ab(1) [OF that(1)]] that(2)] that(3) by blast
  have drop_progress: "progresses v x" if "x = Some ((v', h'), Failed k) \<or> x = Some ((v', h'), Panicked)" for x v' h' k
    using that by (auto simp: progresses_def)
  have moved_progress: "progress v v'" if "moved (vm_view v) (chunk_of v) ?i left (x_pc (c_x (v_core w)))"
    "e \<noteq> ExitBudget" "v_budget v' \<le> v_budget w"
    "v_budget v' = v_budget w \<Longrightarrow> vm_view v' = vm_view w \<and> x_pc (c_x (v_core v')) = x_pc (c_x (v_core w))" for v'
  proof (cases "v_budget v' < v_budget v")
    case True
    then show ?thesis by (rule progress_budget)
  next
    case False
    then have e1: "v_budget v' = v_budget v" "v_budget v' = v_budget w"
      using that(3) b(1) by (auto simp: w_def)
    then have "left = chunk_of v" using that(1,2) b(2) r(3) by (auto simp: w_def moved_def)
    then show ?thesis
      using that(1) that(4) [OF e1(2)] e1(1) view by (intro progress_index) (auto simp: moved_def)
  qed
  show ?thesis
  proof (cases e)
    case Returned
    then have en: "ends fs v w" using go(2) ab(2) by simp
    obtain h' ok where f: "flush_warnings H (w, h) =
        Some ((on_core (\<lambda>c. c\<lparr>c_warnings := []\<rparr>) w, h'), if ok then Done () else Panicked)"
      by (rule flush_cases)
    have "ends fs w (on_core (\<lambda>c. c\<lparr>c_warnings := []\<rparr>) w)"
      by (rule tame_ends) (use en in \<open>auto simp: ends_def tame_intros\<close>)
    then have "ends fs v (on_core (\<lambda>c. c\<lparr>c_warnings := []\<rparr>) w)" using en by (auto simp: ends_def)
    then show ?thesis
      unfolding turn using Returned f
      by (cases ok) (auto simp: serve_def and_then_def progresses_def)
  next
    case (ExitBuiltin slot f)
    have lt: "v_budget w < v_budget v" using r(4) b(2) ExitBuiltin by (simp add: run_done_def w_def)
    have "settles fs w (serve H B (chunk_of v) (length fs - 1) e (w, h))"
      unfolding serve_def ExitBuiltin exit.case
      by (rule flush_then_settles) (use w_in ExitBuiltin builtin_settles v(3) in \<open>auto simp: goes_def\<close>)
    then show ?thesis unfolding turn using via settled_budget [OF _ lt] ExitBuiltin by blast
  next
    case (ExitState so)
    have mv: "moved (vm_view v) (chunk_of v) ?i left (x_pc (c_x (v_core w)))"
      using r(4) ExitState by (simp add: run_done_def w_def)
    have in_w: "in_call w" "above fs (v_core w)" using w_in ExitState by simp_all
    note st = state_op_settles [OF in_w v(3), of so h]
    have "progresses v (serve_state_op H so (length fs - 1) (w, h))"
      unfolding progresses_def
    proof (intro allI impI)
      fix v' h' assume x: "serve_state_op H so (length fs - 1) (w, h) = Some ((v', h'), Done True)"
      show "progress v v'"
        by (rule moved_progress [OF mv]) (use st x ExitState in \<open>auto simp: goes_def\<close>)
    qed
    then show ?thesis unfolding turn serve_def using via st ExitState by simp
  next
    case ExitTrace
    have t: "c_trace (v_core v)" "c_traced c"
      "moved (vm_view v) (chunk_of v) ?i left (x_pc (c_x (v_core w))) \<or>
       left = chunk_of v \<and> code_index (vm_view v) (x_pc (c_x c)) = ?i \<and> \<not> c_traced (v_core v)"
      using r(4) ExitTrace by (auto simp: run_done_def w_def)
    have "progress v w"
    proof (cases "moved (vm_view v) (chunk_of v) ?i left (x_pc (c_x (v_core w)))")
      case True
      then show ?thesis using ExitTrace by (intro moved_progress) simp_all
    next
      case False
      then show ?thesis
        using t same ExitTrace view by (simp add: progress_def vm_measure_def w_def)
    qed
    then show ?thesis
      unfolding turn serve_def using go(1) ab(1) ExitTrace
      by (cases "hs_trace H (x_prnum (c_x (v_core w)), x_func (c_x (v_core w)), x_pc (c_x (v_core w))) h")
        (auto simp: serve_trace_def Let_def progresses_def)
  next
    case ExitBudget
    have in_w: "in_call w" "above fs (v_core w)" using w_in ExitBudget by simp_all
    have wb: "v_budget w = v_budget v" using ExitBudget by (simp add: w_def b_def)
    have fl: "settles fs w (flush_fail H k (length fs - 1) (u, h')) \<and>
        progresses v (flush_fail H k (length fs - 1) (u, h'))"
      if u: "goes fs w u" for u h' k
    proof
      show "settles fs w (flush_fail H k (length fs - 1) (u, h'))"
        using goes_settles [OF u flush_fail_settles [OF _ _ v(3)]] u by (auto simp: goes_def)
      show "progresses v (flush_fail H k (length fs - 1) (u, h'))"
        by (auto simp: progresses_def flush_fail_def and_then_def fail_def flush_warnings_def split: prod.splits if_splits)
    qed
    have lower: "goes fs w (w\<lparr>v_budget := x\<rparr>)" if "x \<le> v_budget w" for x
      using in_w that by (auto simp: goes_def in_call_def vm_ready_def)
    show ?thesis
    proof (cases "v_budget v \<le> chunk_of v")
      case True
      then show ?thesis
        unfolding turn serve_def using via fl [OF lower [of 0]] ExitBudget wb by (simp add: serve_budget_def)
    next
      case False
      then have ck: "chunk_of v = BUDGET_CHUNK" by (auto simp: chunk_of_def min_def split: if_splits)
      define x where "x = sat_sub (v_budget w) (sat_sub (chunk_of v) 1)"
      have "unat x = unat (v_budget v) - 65535"
        using wb by (simp add: x_def ck unat_sat_sub BUDGET_CHUNK_def)
      moreover have "65536 < unat (v_budget v)"
        using False ck by (simp add: word_less_nat_alt not_le BUDGET_CHUNK_def)
      ultimately have x: "x < v_budget v" by (simp add: word_less_nat_alt)
      let ?u = "w\<lparr>v_budget := x\<rparr>"
      have u: "goes fs w ?u" using lower x wb by simp
      then have un: "goes fs v ?u" using goes_trans(1) [OF go(1) [OF ab(1)]] ExitBudget by simp
      have goon: "settles fs v (Some ((?u, h'), Done True)) \<and> progresses v (Some ((?u, h'), Done True))" for h'
        using un x progress_budget [of ?u v] by (simp add: progresses_def)
      show ?thesis
        unfolding turn serve_def using via fl [OF u] ExitBudget wb False goon x_def
        by (auto simp: serve_budget_def Let_def split: option.split prod.split)
    qed
  next
    case (Fault k)
    have "settles fs w (flush_fail H k (length fs - 1) (w, h))"
      by (rule flush_fail_settles) (use w_in Fault v(3) in auto)
    moreover have "progresses v (flush_fail H k (length fs - 1) (w, h))"
      by (auto simp: progresses_def flush_fail_def and_then_def fail_def flush_warnings_def split: prod.splits if_splits)
    ultimately show ?thesis unfolding turn serve_def using via Fault by simp
  qed
qed

text \<open>Every call in progress ends.\<close>

lemma turns_end:
  assumes "in_call v" "above fs (v_core v)" "fs \<noteq> []"
  shows "\<exists>v' h' r. turns H B (length fs - 1) (v, h) = Some ((v', h'), r) \<and> (r \<noteq> Panicked \<longrightarrow> ends fs v v')"
  using assms(1,2)
proof (induction "vm_measure v" arbitrary: v h
    rule: wf_induct_rule [OF wf_lex_prod [OF wf_less_than wf_lex_prod [OF wf_less_than wf_less_than]]])
  case 1
  note t = turn_settles [OF 1(2,3) assms(3), of h]
  obtain v' h' r where r: "turn H B (length fs - 1) (v, h) = Some ((v', h'), r)"
    using t by (cases "turn H B (length fs - 1) (v, h)") auto
  show ?case
  proof (cases "r = Done True")
    case True
    then have g: "goes fs v v'" "progress v v'" using t r by (simp_all add: progresses_def)
    then obtain v2 h2 r2 where "turns H B (length fs - 1) (v', h') = Some ((v2, h2), r2)"
      "r2 \<noteq> Panicked \<longrightarrow> ends fs v' v2"
      using 1(1) [of v' h'] unfolding progress_def goes_def by blast
    then show ?thesis using r True goes_trans(2) [OF g(1)] by (subst turns.simps) auto
  next
    case False
    then show ?thesis using r t by (subst turns.simps) (cases r; auto)
  qed
qed

lemma execute_ends:
  assumes "in_call v" "above fs (v_core v)" "fs \<noteq> []"
  shows "\<exists>v' h' r. execute H B (length fs - 1) (v, h) = Some ((v', h'), r) \<and> (r \<noteq> Panicked \<longrightarrow> ends fs v v')"
proof -
  let ?v = "on_core (\<lambda>c. c\<lparr>c_entry_depth := length fs - 1\<rparr>) v"
  have same: "core_wf (c\<lparr>c_entry_depth := d\<rparr>) = core_wf c" for c :: "'s core" and d
    by (simp add: core_wf_def stack_wf_def)
  have "in_call ?v" "above fs (v_core ?v)"
    using assms(1,2) window_fits_cong [of "v_core ?v" "v_core v"]
    by (auto simp: in_call_def vm_ready_def on_core_def run_ready_def above_def same window_fits_def)
  from turns_end [OF this assms(3), of h] obtain v' h' r where r:
    "turns H B (length fs - 1) (?v, h) = Some ((v', h'), r)" "r \<noteq> Panicked \<Longrightarrow> ends fs ?v v'" by blast
  have "ends fs v (on_core (\<lambda>c. c\<lparr>c_entry_depth := c_entry_depth (v_core v)\<rparr>) v')" if "r \<noteq> Panicked"
    using r(2) [OF that]
    by (auto simp: ends_def in_call_def vm_ready_def on_core_def run_ready_def popped_def same window_fits_def)
  then show ?thesis using r(1) by (cases r) (auto simp: execute_def Let_def)
qed

text \<open>The body of a call leaves the frames and registers as it found them.\<close>

lemma builtin_body:
  assumes "in_call v"
  shows "\<exists>v' h' r. run_builtin H B slot f (length (c_frames (v_core v))) (v, h) = Some ((v', h'), r) \<and>
    (r \<noteq> Panicked \<longrightarrow> resumes v v')"
proof (cases "builtin_func B slot")
  case None
  then show ?thesis
    using assms by (simp add: run_builtin_def fail_def unwind_level resumes_def on_core_def same_calls_def)
next
  case (Some b)
  let ?v = "on_core (\<lambda>c. c\<lparr>c_builtin := f\<rparr>) v"
  have r0: "resumes v ?v" by (rule tame_resumes [OF assms]) (rule tame_intros)
  then have "in_call ?v" by (simp add: resumes_def)
  from obeysE [OF builtin_obeys [OF Some] this, of h] obtain v2 h2 r where b: "b (?v, h) = Some ((v2, h2), r)"
    "r \<noteq> Panicked \<Longrightarrow> in_call v2" "r \<noteq> Panicked \<Longrightarrow> same_calls (v_core ?v) (v_core v2)"
    "r \<noteq> Panicked \<Longrightarrow> v_budget v2 \<le> v_budget ?v" by blast
  have r2: "resumes v v2" if "r \<noteq> Panicked"
    using resumes_trans [OF r0] b(2-4) [OF that] by (simp add: resumes_def)
  show ?thesis
  proof (cases r)
    case (Done x)
    then show ?thesis using Some b(1) r2 by (simp add: run_builtin_def)
  next
    case Panicked
    then show ?thesis using Some b(1) by (simp add: run_builtin_def)
  next
    case (Failed e)
    then have r2: "resumes v v2" "in_call v2" "c_frames (v_core v2) = c_frames (v_core v)"
      using r2 by (simp_all add: resumes_def same_calls_def)
    have more: "resumes v (on_core g v2)" if "tame (v_core v2) (g (v_core v2))" for g
      by (rule resumes_trans [OF r2(1) tame_resumes [where f = g]]) (use r2(2) that in auto)
    have fl: "run_builtin H B slot f (length (c_frames (v_core v))) (v, h) = fail e (length (c_frames (v_core v))) (v2, h2) \<Longrightarrow> ?thesis"
      using r2 by (simp add: fail_def unwind_level on_core_def)
    show ?thesis
    proof (cases "e_control e")
      case (Some ret)
      then show ?thesis
        using Failed \<open>builtin_func B slot = Some b\<close> b(1) more [of "\<lambda>c. c\<lparr>c_abort_ret := Some ret\<rparr>"] r2(3)
        by (simp add: run_builtin_def unwind_level tame_intros on_core_def)
    next
      case None
      show ?thesis
      proof (cases "g_developer (c_config (v_core v2)) \<and> (\<exists>msg. e_kind e = BuiltinError msg)")
        case True
        then obtain msg where msg: "g_developer (c_config (v_core v2))" "e_kind e = BuiltinError msg" by blast
        let ?g = "\<lambda>c. ret_raw (0, 0, 0) (vm_warn msg c)" and ?f = "\<lambda>c. c\<lparr>c_warnings := []\<rparr>"
        have "resumes v (on_core (\<lambda>c. ?f (?g c)) v2)"
          by (rule more, rule tame_trans [OF tame_trans [OF tame_warn(2) tame_ret(1)] tame_argc(3)])
        moreover obtain h' ok where "flush_warnings H (on_core ?g v2, h2) =
            Some ((on_core ?f (on_core ?g v2), h'), if ok then Done () else Panicked)"
          by (rule flush_cases)
        ultimately show ?thesis
          using None Failed Some b(1) msg by (cases ok) (simp_all add: and_then_def run_builtin_def on_core_def)
      next
        case False
        then show ?thesis
          using None Failed Some b(1) by (intro fl) (auto simp: run_builtin_def split: error_kind.splits bool.splits)
      qed
    qed
  qed
qed

lemma body_resumes:
  assumes "in_call v"
  shows "\<exists>v' h' r. call_body H B f callee (v, h) = Some ((v', h'), r) \<and> (r \<noteq> Panicked \<longrightarrow> resumes v v')"
proof -
  let ?c = "v_core v"
  have refl: "resumes v v" using assms by (simp add: resumes_def same_calls_def)
  consider (qc) "callee = Some CQc" | (builtin) slot where "callee = Some (CBuiltin slot)"
    | (other) "callee \<noteq> Some CQc" "\<forall>slot. callee \<noteq> Some (CBuiltin slot)" by blast
  then show ?thesis
  proof cases
    case qc
    obtain c' r where e: "enter ?c (func_progs f) (func_index f) (x_pc (c_x ?c)) = (c', r)"
      by (cases "enter ?c (func_progs f) (func_index f) (x_pc (c_x ?c))")
    have h: "held ?c c'" using keeps_held [OF enter_keeps] e by (metis fst_conv)
    have in1: "in_call (v\<lparr>v_core := c'\<rparr>)"
      using held_ready [OF h] h assms by (auto simp: in_call_def held_def vm_ready_def)
    show ?thesis
    proof (cases r)
      case (Some k)
      then have "c' = ?c \<or> c' = switch_in ?c (x_prnum (c_x ?c)) (func_progs f)" using e enter_failed by blast
      then have "resumes v (v\<lparr>v_core := c'\<rparr>)"
        using in1 h assms by (auto simp: resumes_def same_calls_def held_def in_call_def vm_ready_def)
      then show ?thesis using qc e Some by (auto simp: call_body_def Let_def)
    next
      case None
      with e have "enter ?c (func_progs f) (func_index f) (x_pc (c_x ?c)) = (c', None)" by simp
      then obtain fr where fr: "c_frames c' = c_frames ?c @ [fr]" "fr_resume_pc fr = x_pc (c_x ?c)"
        "fr_prnum fr = x_prnum (c_x ?c)" "fr_func fr = x_func (c_x ?c)"
        by (rule enter_ok) (auto intro: that)
      let ?fs = "c_frames ?c @ [fr]"
      obtain v' h' r' where x: "execute H B (length ?fs - 1) (v\<lparr>v_core := c'\<rparr>, h) = Some ((v', h'), r')"
        "r' \<noteq> Panicked \<Longrightarrow> ends ?fs (v\<lparr>v_core := c'\<rparr>) v'"
        using execute_ends [OF in1, of ?fs h] fr(1) by (auto simp: above_def)
      have "resumes v v'" if "r' \<noteq> Panicked"
        using x(2) [OF that] fr h assms
        by (auto simp: ends_def popped_def resumes_def same_calls_def held_def in_call_def vm_ready_def)
      then show ?thesis using x(1) qc e None by (auto simp: call_body_def Let_def)
    qed
  next
    case builtin
    let ?v = "on_core (\<lambda>c. c\<lparr>c_x := (c_x c)\<lparr>x_prnum := func_progs f\<rparr>\<rparr>) v"
    have in1: "in_call ?v" using prnum_in_call [OF assms] .
    obtain v' h' r where r: "run_builtin H B slot f (length (c_frames ?c)) (?v, h) = Some ((v', h'), r)"
      "r \<noteq> Panicked \<Longrightarrow> resumes ?v v'"
      using builtin_body [OF in1, of slot f h] by (auto simp: on_core_def)
    let ?w = "on_core (\<lambda>d. d\<lparr>c_x := (c_x d)\<lparr>x_prnum := x_prnum (c_x ?c)\<rparr>\<rparr>) v'"
    have "resumes v ?w" if "r \<noteq> Panicked"
      using r(2) [OF that] prnum_in_call [of v' "x_prnum (c_x ?c)"]
      by (auto simp: resumes_def same_calls_def on_core_def)
    then show ?thesis using r(1) builtin by (cases r) (auto simp: call_body_def Let_def)
  next
    case other
    then have "\<exists>e. call_body H B f callee (v, h) = Some ((v, h), Failed e)"
      by (auto simp: call_body_def Let_def split: option.splits callee.splits)
    then show ?thesis using refl by auto
  qed
qed

text \<open>The end of a call from QuakeC or from the host.\<close>

lemma call_end:
  assumes v: "in_call v" and n: "c_nesting (v_core v) = sat_add m 1" "m < - 1"
  shows "\<exists>v' h' r. end_of_call H outer saved pr (v, h) = Some ((v', h'), r) \<and> (\<forall>e. r \<noteq> Failed e) \<and>
    (r \<noteq> Panicked \<longrightarrow> vm_ready v' \<and> c_nesting (v_core v') = m \<and> c_frames (v_core v') = c_frames (v_core v) \<and>
       same_calls ((v_core v)\<lparr>c_nesting := m\<rparr>) (v_core v') \<and>
       c_argc (v_core v') = fst saved \<and> c_builtin (v_core v') = snd saved \<and> v_budget v' = v_budget v)"
proof -
  have m: "sat_sub (sat_add m 1) 1 = m"
    using n(2) by (simp add: word_unat_eq_iff unat_sat_sub unat_sat_add word_less_nat_alt unsigned_minus_1_eq_mask mask_eq_exp_minus_1)
  define c where "c = (v_core v)\<lparr>c_nesting := m, c_argc := fst saved, c_builtin := snd saved, c_abort_ret := None\<rparr>"
  define ret where "ret = (case c_abort_ret (v_core v) of Some r \<Rightarrow> r | None \<Rightarrow>
      read_return ((v_core v)\<lparr>c_nesting := m, c_argc := fst saved, c_builtin := snd saved\<rparr>) pr)"
  define d where "d = (if 0 < c_suppressed c
      then c\<lparr>c_warnings := c_warnings c @ [\<lparr>w_kind = Suppressed (c_suppressed c), w_backtrace = []\<rparr>]\<rparr> else c)"
  have e: "end_of_call H outer saved pr (v, h) =
     (if \<not> outer then Some ((v\<lparr>v_core := c\<rparr>, h), Done ret)
      else and_then (flush_warnings H) (\<lambda>_ (v, h).
             Some ((if wants_collection (c_strings (v_core v))
                    then on_core (\<lambda>c. fst (collect_garbage_now c)) v else v, h), Done ret))
           (v\<lparr>v_core := d\<rparr>, h))"
    unfolding end_of_call_def Let_def prod.case n(1) m c_def d_def ret_def by simp
  have good: "vm_ready (v\<lparr>v_core := x\<rparr>) \<and> c_nesting x = m \<and> c_frames x = c_frames (v_core v) \<and>
      same_calls ((v_core v)\<lparr>c_nesting := m\<rparr>) x \<and> c_argc x = fst saved \<and> c_builtin x = snd saved"
    if "tame ((v_core v)\<lparr>c_nesting := m\<rparr>) x" "c_argc x = fst saved" "c_builtin x = snd saved" for x
  proof -
    have s: "core_wf (c\<lparr>c_nesting := k\<rparr>) = core_wf c" for c :: "'s core" and k
      by (simp add: core_wf_def stack_wf_def)
    show ?thesis
      using that v window_fits_cong [of x "v_core v"]
      by (auto simp: vm_ready_def in_call_def tame_def s run_ready_def same_calls_def)
  qed
  have tc: "tame ((v_core v)\<lparr>c_nesting := m\<rparr>) c"
    unfolding c_def by (rule tame_parts) simp_all
  have td: "tame ((v_core v)\<lparr>c_nesting := m\<rparr>) (d\<lparr>c_warnings := []\<rparr>)"
    by (rule tame_trans [OF tc]) (rule tame_parts; simp add: d_def)
  have saved: "c_argc c = fst saved" "c_builtin c = snd saved" by (simp_all add: c_def)
  let ?d = "d\<lparr>c_warnings := []\<rparr>"
  have saved_d: "c_argc ?d = fst saved" "c_builtin ?d = snd saved" using saved by (simp_all add: d_def)
  have tg: "tame ((v_core v)\<lparr>c_nesting := m\<rparr>) (fst (collect_garbage_now ?d))"
    by (rule tame_trans [OF td tame_collect])
  have saved_g: "c_argc (fst (collect_garbage_now ?d)) = fst saved" "c_builtin (fst (collect_garbage_now ?d)) = snd saved"
    using saved_d by (simp_all add: collect_garbage_now_def split: prod.split)
  show ?thesis
  proof (cases outer)
    case False
    then show ?thesis using good [OF tc saved] unfolding e by simp
  next
    case True
    obtain h' ok where f: "flush_warnings H (v\<lparr>v_core := d\<rparr>, h) =
        Some ((on_core (\<lambda>c. c\<lparr>c_warnings := []\<rparr>) (v\<lparr>v_core := d\<rparr>), h'), if ok then Done () else Panicked)"
      by (rule flush_cases)
    then show ?thesis
      using True good [OF td saved_d] good [OF tg saved_g]
      unfolding e by (cases ok) (simp_all add: and_then_def on_core_def)
  qed
qed

lemma call_gives_back:
  assumes v: "vm_ready v"
  shows "\<exists>v' h' r. call H B f as (v, h) = Some ((v', h'), r) \<and> (r \<noteq> Panicked \<longrightarrow> gave_back v v')"
proof -
  let ?c = "v_core v" and ?pr = "func_progs f"
  have same: "gave_back v v" using v by (simp add: gave_back_def same_calls_def)
  have "\<exists>v' h' r. call_inner H B f as (v, h) = Some ((v', h'), r) \<and> (r \<noteq> Panicked \<longrightarrow> gave_back v v')"
  proof (cases "l_reentry (g_limits (c_config ?c)) \<le> c_nesting ?c")
    case True
    then show ?thesis using same by (simp add: call_inner_def)
  next
    case False
    then have top: "c_nesting ?c < - 1"
      using word_order.extremum [of "l_reentry (g_limits (c_config ?c))"] by (simp add: not_le le_less_trans less_le_trans)
    define outer where "outer = (c_nesting ?c = 0)"
    define saved where "saved = (c_argc ?c, c_builtin ?c)"
    define pr where "pr = (if callee_of ?c f = Some CQc then x_prnum (c_x ?c) else ?pr)"
    obtain v1 h1 where s: "(if outer then start_budgets H (on_core (\<lambda>c. c\<lparr>c_warnings_this_call := 0, c_suppressed := 0\<rparr>) v, h)
        else (v, h)) = (v1, h1)" by fastforce
    let ?r = "on_core (\<lambda>c. c\<lparr>c_warnings_this_call := 0, c_suppressed := 0\<rparr>) v"
    have "tame ?c (v_core v1) \<and> v_window v1 = v_window v \<and> (\<not> outer \<longrightarrow> v1 = v) \<and>
      c_argc (v_core v1) = c_argc ?c \<and> c_builtin (v_core v1) = c_builtin ?c"
    proof (cases outer)
      case True
      then have v1: "v1 = fst (start_budgets H (?r, h))" using s by simp
      show ?thesis
        using True start_budgets_core [of H ?r h] by (simp add: v1 on_core_def tame_intros)
    next
      case False
      then show ?thesis using s by (simp add: tame_refl)
    qed
    then have v1: "tame ?c (v_core v1)" "v_window v1 = v_window v" "\<not> outer \<Longrightarrow> v1 = v"
      "c_argc (v_core v1) = c_argc ?c" "c_builtin (v_core v1) = c_builtin ?c" by simp_all
    obtain c2 r2 where w: "write_args pr as (v_core v1) = (c2, r2)" by fastforce
    have c2: "tame ?c c2" "c_argc c2 = c_argc ?c" "c_builtin c2 = c_builtin ?c"
      using tame_trans [OF v1(1) tame_write_args [of "v_core v1" pr as]] write_args_fields [of pr as "v_core v1"] v1(4,5)
      by (simp_all add: w)
    have same_nesting: "(c2\<lparr>c_nesting := c_nesting ?c\<rparr>) = c2"
      "(c2\<lparr>c_argc := a, c_nesting := c_nesting ?c\<rparr>) = c2\<lparr>c_argc := a\<rparr>" for a
      using c2(1) by (simp_all add: tame_def)
    have step: "call_inner H B f as (v, h) = call_rest H B f as (callee_of ?c f) outer saved pr (v1, h1)"
      using False s by (simp add: call_inner_def Let_def outer_def saved_def pr_def)
    show ?thesis
    proof (cases r2)
      case (Some k)
      have "vm_ready (v1\<lparr>v_core := c2\<rparr>)"
        by (rule nesting_ready [OF v refl]) (use c2(1) v1(2) same_nesting in simp_all)
      then have "gave_back v (v1\<lparr>v_core := c2\<rparr>)"
        using c2 v1(3) tame_calls [OF c2(1)] by (auto simp: gave_back_def outer_def)
      then show ?thesis using w Some step by (simp add: call_rest_def)
    next
      case None
      define v2 where "v2 = v1\<lparr>v_core := c2\<lparr>c_argc := of_nat (length as), c_nesting := sat_add (c_nesting c2) 1\<rparr>\<rparr>"
      have n2: "c_nesting c2 = c_nesting ?c" using c2(1) by (simp add: tame_def)
      have "vm_ready v2"
        by (rule nesting_ready [OF v refl])
          (use tame_trans [OF c2(1) tame_argc(1)] v1(2) same_nesting in \<open>simp_all add: v2_def\<close>)
      moreover have "sat_add (c_nesting ?c) 1 \<noteq> 0"
        by (simp add: word_unat_eq_iff unat_sat_add min_def)
      ultimately have in2: "in_call v2" by (simp add: in_call_def v2_def n2 word_gt_0)
      obtain v3 h3 r3 where b: "call_body H B f (callee_of ?c f) (v2, h1) = Some ((v3, h3), r3)"
        "r3 \<noteq> Panicked \<Longrightarrow> resumes v2 v3" using body_resumes [OF in2] by blast
      show ?thesis
      proof (cases "r3 = Panicked")
        case True
        then show ?thesis using w None step b(1) by (simp add: call_rest_def v2_def)
      next
        case False
        then have r3: "in_call v3" "same_calls (v_core v2) (v_core v3)" "v_budget v3 \<le> v_budget v2"
          using b(2) by (simp_all add: resumes_def)
        have "c_nesting (v_core v3) = sat_add (c_nesting ?c) 1" using r3(2) n2 by (simp add: same_calls_def v2_def)
        from call_end [OF r3(1) this top, of outer saved pr h3] obtain v4 h4 r4 where
          e: "end_of_call H outer saved pr (v3, h3) = Some ((v4, h4), r4)" "\<forall>e. r4 \<noteq> Failed e"
          "r4 \<noteq> Panicked \<Longrightarrow> vm_ready v4 \<and> same_calls ((v_core v3)\<lparr>c_nesting := c_nesting ?c\<rparr>) (v_core v4) \<and>
             c_argc (v_core v4) = fst saved \<and> c_builtin (v_core v4) = snd saved \<and> v_budget v4 = v_budget v3"
          by blast
        have "gave_back v v4" if "r4 \<noteq> Panicked"
          using e(3) [OF that] r3(2,3) c2(1) v1(3)
          by (auto simp: gave_back_def saved_def same_calls_def v2_def tame_def outer_def)
        then show ?thesis
          using w None step b(1) e(1,2) False by (cases r3; cases r4) (auto simp: call_rest_def v2_def and_then_def)
      qed
    qed
  qed
  then obtain v' h' r where r: "call_inner H B f as (v, h) = Some ((v', h'), r)" "r \<noteq> Panicked \<longrightarrow> gave_back v v'"
    by blast
  then show ?thesis using same by (cases r) (auto simp: call_def guarded_def)
qed

text \<open>So a builtin that only calls back keeps the contract itself.\<close>

lemma call_obeys: "obeys (call H B f as)"
  unfolding obeys_def
proof (intro allI impI)
  fix v :: "'s vm" and h :: 'h
  assume "in_call v"
  then show "\<exists>v' h' r. call H B f as (v, h) = Some ((v', h'), r) \<and>
      (r \<noteq> Panicked \<longrightarrow> vm_ready v' \<and> same_calls (v_core v) (v_core v') \<and> v_budget v' \<le> v_budget v)"
    using call_gives_back [of v f as h] by (auto simp: in_call_def gave_back_def)
qed

end

end
