(* ===== verification/Std.thy ===== *)
theory Std
  imports Engine
begin

text \<open>
  The state of the standard builtins (\<open>StdState\<close> of \<open>src/stdlib/mod.rs\<close>, with the data of the token
  list, the hash tables and the string buffers) and the helpers they share (\<open>src/stdlib/util.rs\<close>).

  A builtin that does not call the host or QuakeC is a function on the core that returns the error, if any; \<open>pure_builtin\<close>
  makes the action of it that the registry holds.  Sizes of Rust's types are those of a 64-bit target.
\<close>

section \<open>The state\<close>

record token =
  tk_text :: bytes
  tk_start :: nat
  tk_end :: nat

record tokens =
  ts_list :: "token list"
  ts_bytes :: nat

datatype (plugins only: code size) hvalue = Text bytes | Words "u32 \<times> u32 \<times> u32"

record hentry =
  he_key :: bytes
  he_ty :: u32
  he_value :: hvalue

record htable =
  ht_default :: u32
  ht_buckets :: "hentry list list"
  ht_bytes :: nat

record tables =
  tb_tables :: "htable option list"
  tb_gamestate :: "htable option"

record strbuf =
  sb_strings :: "bytes option list"
  sb_bytes :: nat

record std_state =
  ss_tokens :: tokens
  ss_hash :: tables
  ss_bufs :: "strbuf option list"
  ss_container :: nat

definition std_default :: std_state where
  "std_default =
     \<lparr>ss_tokens = \<lparr>ts_list = [], ts_bytes = 0\<rparr>, ss_hash = \<lparr>tb_tables = [], tb_gamestate = None\<rparr>,
      ss_bufs = [], ss_container = 0\<rparr>"

type_synonym score = "std_state core"
type_synonym builtin = "score \<Rightarrow> score \<times> error_kind option"

definition on_std :: "(std_state \<Rightarrow> std_state) \<Rightarrow> score \<Rightarrow> score" where
  "on_std f c = c\<lparr>c_std := f (c_std c)\<rparr>"

definition pure_builtin :: "builtin \<Rightarrow> (std_state, 'h, unit) act" where
  "pure_builtin f = (\<lambda>(v, h).
     case f (v_core v) of
       (c, r) \<Rightarrow> Some ((v\<lparr>v_core := c\<rparr>, h), case r of None \<Rightarrow> Done () | Some k \<Rightarrow> Failed (vm_error_new k)))"

text \<open>\<open>Ok(())\<close> and \<open>VmError::builtin\<close>.\<close>

abbreviation ok :: "score \<Rightarrow> score \<times> error_kind option" where
  "ok c \<equiv> (c, None)"

section \<open>Numbers\<close>

definition f32_of_nat :: "nat \<Rightarrow> u32" where
  "f32_of_nat n = f32_of_int (int n)"

abbreviation f32_neg_one :: u32 where "f32_neg_one \<equiv> 0xBF800000"
abbreviation f32_one :: u32 where "f32_one \<equiv> 0x3F800000"

text \<open>\<open>usize::try_from\<close> of an \<open>i32\<close>.\<close>

definition usize_of_i32 :: "u32 \<Rightarrow> nat option" where
  "usize_of_i32 w = (if sint w < 0 then None else Some (unat w))"

section \<open>Helpers\<close>

definition CONCAT_MAX :: nat where "CONCAT_MAX = 65543"

definition args_concat :: "'s core \<Rightarrow> nat \<Rightarrow> bytes" where
  "args_concat c from =
     (let n = min (argc c) 8
      in if n \<le> from then []
         else if n = from + 1 then arg_str c from
         else foldl (\<lambda>out i. let s = arg_str c i in out @ take (min (length s) (CONCAT_MAX - length out)) s)
                [] [from..<n])"

definition charge :: "nat \<Rightarrow> score \<Rightarrow> score \<times> bool" where
  "charge n c =
     (let used = ss_container (c_std c) + n
      in if l_container_bytes (g_limits (c_config c)) < used then (c, False)
         else (on_std (\<lambda>s. s\<lparr>ss_container := used\<rparr>) c, True))"

definition release :: "nat \<Rightarrow> score \<Rightarrow> score" where
  "release n c = on_std (\<lambda>s. s\<lparr>ss_container := ss_container s - n\<rparr>) c"

definition recharge :: "nat \<Rightarrow> nat \<Rightarrow> score \<Rightarrow> score \<times> bool" where
  "recharge old new c = (if old \<le> new then charge (new - old) c else (release (old - new) c, True))"

definition arg_int :: "'s core \<Rightarrow> nat \<Rightarrow> u32" where
  "arg_int c i = f2i (arg_word c i)"

definition arg_f64 :: "'s core \<Rightarrow> nat \<Rightarrow> u64" where
  "arg_f64 c i = (case arg_raw c i of (lo, hi, _) \<Rightarrow> join64 lo hi)"

definition ret_u64 :: "u64 \<Rightarrow> 's core \<Rightarrow> 's core" where
  "ret_u64 b c = (case split64 b of (lo, hi) \<Rightarrow> ret_raw (lo, hi, 0) c)"

definition opt_f32 :: "'s core \<Rightarrow> nat \<Rightarrow> u32 \<Rightarrow> u32" where
  "opt_f32 c i d = (if i < argc c then arg_word c i else d)"

section \<open>What they keep\<close>

text \<open>Builtins that only work on data keep the contract of the engine.\<close>

lemma tame_obeys:
  assumes "\<And>c. tame c (fst (f c))"
  shows "obeys (pure_builtin f)"
  unfolding obeys_def
proof (intro allI impI)
  fix v :: "std_state vm" and h :: 'a
  assume v: "in_call v"
  let ?c = "fst (f (v_core v))"
  have "vm_ready (v\<lparr>v_core := ?c\<rparr>)"
    using held_ready [OF tame_held [OF assms]] v by (simp add: in_call_def)
  moreover have "same_calls (v_core v) ?c" using tame_calls [OF assms] .
  ultimately show "\<exists>v' h' r. pure_builtin f (v, h) = Some ((v', h'), r) \<and>
      (r \<noteq> Panicked \<longrightarrow> vm_ready v' \<and> same_calls (v_core v) (v_core v') \<and> v_budget v' \<le> v_budget v)"
    by (auto simp: pure_builtin_def split: prod.split)
qed

text \<open>Actions in sequence.\<close>

lemma obeys_and_then:
  assumes "obeys m" "\<And>x. obeys (k x)"
  shows "obeys (and_then m k)"
  unfolding obeys_def
proof (intro allI impI)
  fix v :: "'a vm" and h :: 'b
  assume v: "in_call v"
  from assms(1) v obtain v' h' r where m: "m (v, h) = Some ((v', h'), r)"
    "r \<noteq> Panicked \<longrightarrow> vm_ready v' \<and> same_calls (v_core v) (v_core v') \<and> v_budget v' \<le> v_budget v"
    unfolding obeys_def by blast
  show "\<exists>v' h' r. and_then m k (v, h) = Some ((v', h'), r) \<and>
      (r \<noteq> Panicked \<longrightarrow> vm_ready v' \<and> same_calls (v_core v) (v_core v') \<and> v_budget v' \<le> v_budget v)"
  proof (cases r)
    case (Done x)
    then have d: "in_call v'" "same_calls (v_core v) (v_core v')" "v_budget v' \<le> v_budget v"
      using m v by (auto simp: in_call_def same_calls_def)
    from assms(2) [of x] d(1) obtain v2 h2 s where "k x (v', h') = Some ((v2, h2), s)"
      "s \<noteq> Panicked \<longrightarrow> vm_ready v2 \<and> same_calls (v_core v') (v_core v2) \<and> v_budget v2 \<le> v_budget v'"
      unfolding obeys_def by blast
    then show ?thesis
      using m(1) Done d by (auto simp: and_then_def same_calls_def)
  qed (use m in \<open>auto simp: and_then_def\<close>)
qed

lemma obeys_done: "obeys (\<lambda>w. Some (w, Done x))" "obeys (\<lambda>w. Some (w, Failed e))"
  by (auto simp: obeys_def in_call_def same_calls_def)

text \<open>An action that first works on the core and then goes on.\<close>

lemma obeys_after:
  assumes "\<And>v. tame (v_core v) (f v)" "\<And>v. obeys (k v)"
  shows "obeys (\<lambda>(v, h). k v (v\<lparr>v_core := f v\<rparr>, h))"
  unfolding obeys_def
proof (intro allI impI)
  fix v :: "'a vm" and h :: 'b
  assume v: "in_call v"
  let ?v = "v\<lparr>v_core := f v\<rparr>"
  have r: "vm_ready ?v" using held_ready [OF tame_held [OF assms(1)]] v by (simp add: in_call_def)
  then have i: "in_call ?v" using v assms(1) [of v] by (simp add: in_call_def tame_def)
  from assms(2) [of v] i obtain v2 h2 s where "k v (?v, h) = Some ((v2, h2), s)"
    "s \<noteq> Panicked \<longrightarrow> vm_ready v2 \<and> same_calls (f v) (v_core v2) \<and> v_budget v2 \<le> v_budget v"
    unfolding obeys_def by fastforce
  then show "\<exists>v' h' r. (case (v, h) of (v, h) \<Rightarrow> k v (v\<lparr>v_core := f v\<rparr>, h)) = Some ((v', h'), r) \<and>
      (r \<noteq> Panicked \<longrightarrow> vm_ready v' \<and> same_calls (v_core v) (v_core v') \<and> v_budget v' \<le> v_budget v)"
    using tame_calls [OF assms(1) [of v]] by (auto simp: same_calls_def)
qed

primrec for_each :: "('a \<Rightarrow> ('s, 'h, 'b) act) \<Rightarrow> 'a list \<Rightarrow> ('s, 'h, unit) act" where
  "for_each m [] = (\<lambda>w. Some (w, Done ()))"
| "for_each m (x # xs) = and_then (m x) (\<lambda>_. for_each m xs)"

lemma obeys_for_each: "(\<And>x. obeys (m x)) \<Longrightarrow> obeys (for_each m xs)"
  by (induction xs) (simp_all add: obeys_done obeys_and_then)

lemma tame_on_std [tame_intros]: "tame c (on_std f c)"
  unfolding on_std_def by (rule tame_std)

lemma tame_release [tame_intros]: "tame c (release n c)"
  unfolding release_def by (rule tame_on_std)

lemma tame_charge [tame_intros]: "tame c (fst (charge n c))"
  by (simp add: charge_def Let_def tame_intros)

lemma tame_recharge [tame_intros]: "tame c (fst (recharge old new c))"
  by (simp add: recharge_def tame_intros)

lemma tame_ret_u64 [tame_intros]: "tame c (ret_u64 b c)"
  by (simp add: ret_u64_def tame_intros split: prod.split)

text \<open>The standard state and the limits that the other operations leave alone.\<close>

lemma ret_std [simp]:
  "c_std (ret_raw w c) = c_std c" "c_config (ret_raw w c) = c_config c"
  "c_std (ret_word x c) = c_std c" "c_config (ret_word x c) = c_config c"
  by (simp_all add: ret_word_def ret_raw_def on_mem_def split: prod.split)

lemma warn_std [simp]: "c_std (vm_warn s c) = c_std c" "c_config (vm_warn s c) = c_config c"
  by (simp_all add: vm_warn_def core_warn_def Let_def)

lemma ret_str_std [simp]: "c_std (fst (ret_str bs c)) = c_std c" "c_config (fst (ret_str bs c)) = c_config c"
  by (auto simp: ret_str_def new_temp_def split: prod.split sum.split)

lemma on_std_simps [simp]: "c_std (on_std f c) = f (c_std c)" "c_config (on_std f c) = c_config c"
  by (simp_all add: on_std_def)

lemma the_default_simps [simp]: "the_default d None = d" "the_default d (Some x) = x"
  by (simp_all add: the_default_def)

lemma str_bytes_on_std [simp]: "str_bytes (on_std f c) = str_bytes c"
  by (rule ext) (simp add: str_bytes_def on_std_def split: str_kind.split)

lemma args_on_std [simp]:
  "arg_word (on_std f c) i = arg_word c i" "arg_raw (on_std f c) i = arg_raw c i" "arg_str (on_std f c) i = arg_str c i"
  "argc (on_std f c) = argc c" "arg_int (on_std f c) i = arg_int c i" "opt_f32 (on_std f c) i d = opt_f32 c i d"
proof -
  show w: "arg_word (on_std f c) i = arg_word c i" "argc (on_std f c) = argc c" "arg_raw (on_std f c) i = arg_raw c i" for i
    by (simp_all add: on_std_def arg_word_def arg_raw_def parm_def core_gbase_def core_progs_at_def argc_def)
  show "arg_str (on_std f c) i = arg_str c i" "arg_int (on_std f c) i = arg_int c i" "opt_f32 (on_std f c) i d = opt_f32 c i d"
    by (simp_all add: arg_str_def w arg_int_def opt_f32_def)
qed

section \<open>Accounting\<close>

text \<open>
  \<open>container_bytes\<close> is what the token list, the hash tables and the string buffers hold.  The buckets
  of the \<open>gamestate\<close> table are not charged, its entries are.
\<close>

definition BUCKET_BYTES :: nat where "BUCKET_BYTES = 24"
definition GAMESTATE_BUCKETS :: nat where "GAMESTATE_BUCKETS = 256"

definition opt_bytes :: "('a \<Rightarrow> nat) \<Rightarrow> 'a option \<Rightarrow> nat" where
  "opt_bytes f x = (case x of None \<Rightarrow> 0 | Some y \<Rightarrow> f y)"

definition tables_bytes :: "tables \<Rightarrow> nat" where
  "tables_bytes t =
     sum_list (map (opt_bytes ht_bytes) (tb_tables t)) +
     opt_bytes (\<lambda>g. ht_bytes g - GAMESTATE_BUCKETS * BUCKET_BYTES) (tb_gamestate t)"

definition bufs_bytes :: "strbuf option list \<Rightarrow> nat" where
  "bufs_bytes bs = sum_list (map (opt_bytes sb_bytes) bs)"

definition storage :: "std_state \<Rightarrow> nat" where
  "storage s = ts_bytes (ss_tokens s) + tables_bytes (ss_hash s) + bufs_bytes (ss_bufs s)"

definition accounted :: "score \<Rightarrow> bool" where
  "accounted c \<longleftrightarrow> ss_container (c_std c) = storage (c_std c) \<and>
     ss_container (c_std c) \<le> l_container_bytes (g_limits (c_config c))"

lemma storage_container [simp]: "storage (s\<lparr>ss_container := n\<rparr>) = storage s"
  by (simp add: storage_def)

lemma accounted_cong: "c_std d = c_std c \<Longrightarrow> c_config d = c_config c \<Longrightarrow> accounted d = accounted c"
  by (simp add: accounted_def)

lemma accounted_ret [simp]: "accounted (ret_raw w c) = accounted c" "accounted (ret_word x c) = accounted c"
  "accounted (vm_warn s c) = accounted c" "accounted (fst (ret_str bs c)) = accounted c"
  by (simp_all add: accounted_def)

lemma recharge_less: "accounted c \<Longrightarrow> new \<le> old \<Longrightarrow> \<exists>c'. recharge old new c = (c', True)"
  by (auto simp: recharge_def charge_def Let_def accounted_def)

lemma opt_bytes_simps [simp]: "opt_bytes f None = 0" "opt_bytes f (Some x) = f x"
  by (simp_all add: opt_bytes_def)

lemma sum_list_put: "i < length xs \<Longrightarrow> sum_list (map f (xs[i := y])) + f (xs ! i) = sum_list (map f xs) + (f y :: nat)"
proof -
  assume i: "i < length xs"
  then have x: "xs = take i xs @ xs ! i # drop (Suc i) xs" by (simp add: id_take_nth_drop)
  show ?thesis by (subst (3) x) (simp add: upd_conv_take_nth_drop i)
qed

lemma sum_list_update_opt:
  "i < length xs \<Longrightarrow> sum_list (map (opt_bytes f) (xs[i := y])) + opt_bytes f (xs ! i) =
    sum_list (map (opt_bytes f) xs) + opt_bytes f y"
  by (rule sum_list_put)

text \<open>One of the containers: its share of the storage, and the operations that change only it.\<close>

locale container =
  fixes part :: "std_state \<Rightarrow> nat" and others :: "std_state \<Rightarrow> nat"
  assumes shares: "storage s = part s + others s"
    and part_only: "part (s\<lparr>ss_container := n\<rparr>) = part s"
    and others_only: "others (s\<lparr>ss_container := n\<rparr>) = others s"
begin

lemma refused: "recharge old new c = (c', False) \<Longrightarrow> c' = c"
  by (auto simp: recharge_def charge_def Let_def split: if_splits)

lemma recharged:
  assumes "accounted c" "recharge old new c = (c', True)" "old \<le> part (c_std c)"
    and "part (u (c_std c')) + old = part (c_std c) + new" "others (u (c_std c')) = others (c_std c)"
    and "\<And>s. ss_container (u s) = ss_container s"
  shows "accounted (on_std u c')"
  using assms
  by (auto simp: accounted_def recharge_def charge_def release_def shares Let_def split: if_splits)

lemma released:
  assumes "accounted c" "part (u (c_std c)) + n = part (c_std c)" "others (u (c_std c)) = others (c_std c)"
    and "\<And>s. ss_container (u s) = ss_container s"
  shows "accounted (release n (on_std u c))"
  using assms by (auto simp: accounted_def release_def shares part_only others_only)

lemma untouched:
  assumes "accounted c" "part (u (c_std c)) = part (c_std c)" "others (u (c_std c)) = others (c_std c)"
    and "\<And>s. ss_container (u s) = ss_container s"
  shows "accounted (on_std u c)"
  using assms by (auto simp: accounted_def shares)

end

interpretation token_share: container "\<lambda>s. ts_bytes (ss_tokens s)"
    "\<lambda>s. tables_bytes (ss_hash s) + bufs_bytes (ss_bufs s)"
  by unfold_locales (simp_all add: storage_def)

interpretation table_share: container "\<lambda>s. tables_bytes (ss_hash s)"
    "\<lambda>s. ts_bytes (ss_tokens s) + bufs_bytes (ss_bufs s)"
  by unfold_locales (simp_all add: storage_def)

interpretation buffer_share: container "\<lambda>s. bufs_bytes (ss_bufs s)"
    "\<lambda>s. ts_bytes (ss_tokens s) + tables_bytes (ss_hash s)"
  by unfold_locales (simp_all add: storage_def)

section \<open>What the other containers notice\<close>

text \<open>An operation on one container keeps the contract of the engine and \<open>P\<close>, the other containers.\<close>

definition keeping :: "(std_state \<Rightarrow> 'a) \<Rightarrow> score \<Rightarrow> score \<Rightarrow> bool" where
  "keeping P c d \<longleftrightarrow> tame c d \<and> P (c_std d) = P (c_std c)"

named_theorems keeping_intros

lemma keeping_refl [keeping_intros]: "keeping P c c"
  by (simp add: keeping_def tame_refl)

lemma keeping_trans: "keeping P c d \<Longrightarrow> keeping P d e \<Longrightarrow> keeping P c e"
  by (auto simp: keeping_def intro: tame_trans)

lemma keeping_std: "(\<And>s. P (f s) = P s) \<Longrightarrow> keeping P c (on_std f c)"
  by (simp add: keeping_def tame_on_std)

lemma keeping_ret [keeping_intros]: "keeping P c (ret_raw w c)" "keeping P c (ret_word x c)"
  "keeping P c (vm_warn s c)" "keeping P c (fst (ret_str bs c))"
  by (simp_all add: keeping_def tame_intros)

lemma keepingD: "keeping P c d \<Longrightarrow> tame c d" "keeping P c d \<Longrightarrow> P (c_std d) = P (c_std c)"
  by (simp_all add: keeping_def)

locale bystander =
  fixes P :: "std_state \<Rightarrow> 'a"
  assumes ignores: "P (s\<lparr>ss_container := n\<rparr>) = P s"
begin

lemma keeping_charge: "keeping P c (release n c)" "keeping P c (fst (charge n c))" "keeping P c (fst (recharge old new c))"
  by (simp_all add: keeping_def tame_intros)
    (simp_all add: release_def charge_def recharge_def Let_def ignores)

lemma via_charge: "charge n c = (d, r) \<Longrightarrow> keeping P c d" "recharge old new c = (d, r) \<Longrightarrow> keeping P c d"
  using keeping_charge(2) [of c n] keeping_charge(3) [of c old new] by simp_all

end

abbreviation not_tokens :: "std_state \<Rightarrow> tables \<times> strbuf option list" where
  "not_tokens s \<equiv> (ss_hash s, ss_bufs s)"

abbreviation not_tables :: "std_state \<Rightarrow> tokens \<times> strbuf option list" where
  "not_tables s \<equiv> (ss_tokens s, ss_bufs s)"

abbreviation not_bufs :: "std_state \<Rightarrow> tokens \<times> tables" where
  "not_bufs s \<equiv> (ss_tokens s, ss_hash s)"

interpretation by_tokens: bystander not_tokens by unfold_locales simp
interpretation by_tables: bystander not_tables by unfold_locales simp
interpretation by_bufs: bystander not_bufs by unfold_locales simp

text \<open>A machine with empty containers.\<close>

definition sample_score :: score where
  "sample_score =
     \<lparr>c_mem = sample_mem, c_strings = strings_new 4 64,
      c_progs = [sample_progs 64, sample_progs 192],
      c_fields = \<lparr>ft_entries = [], ft_by_name = (\<lambda>_. None), ft_words = 1\<rparr>, c_frames = [],
      c_x = exec_default, c_argc = 0, c_builtin = 0, c_nesting = 0, c_rng = 0,
      c_config = config_menu, c_warnings = [], c_warnings_this_call = 0, c_suppressed = 0,
      c_trace = False, c_traced = False, c_poisoned = False, c_remove_clears = [],
      c_spawn_defaults = [], c_std = std_default, c_abort_ret = None,
      c_shared = \<lparr>sh_names = [], sh_by_name = (\<lambda>_. None)\<rparr>, c_entry_depth = 0, c_threads = []\<rparr>"

lemma accounted_default:
  "c_std c = std_default \<Longrightarrow> accounted c"
  by (simp add: accounted_def std_default_def storage_def tables_bytes_def bufs_bytes_def)

lemma sample_score_accounted: "accounted sample_score"
  by (rule accounted_default) (simp add: sample_score_def)

end
