(* ===== verification/Calendar.thy ===== *)
theory Calendar
  imports Std
begin

text \<open>
  Calendar times: seconds since 1970 to a date and a time of day (\<open>calendar_from_unix\<close> of \<open>src/stdlib/mod.rs\<close>), and
  dates back to days (\<open>days_from_civil\<close> of \<open>src/stdlib/strftime.rs\<close>).  The two are inverse, and the dates are those of
  the Gregorian calendar.
\<close>

section \<open>Dates from days\<close>

record calendar =
  cal_year :: u32
  cal_month :: u32
  cal_day :: u32
  cal_hour :: u32
  cal_minute :: u32
  cal_second :: u32
  cal_weekday :: u32
  cal_yearday :: u32
  cal_utc_offset :: u32
  cal_zone :: "bytes option"

definition u32_or :: "u32 \<Rightarrow> int \<Rightarrow> u32" where
  "u32_or d n = (if 0 \<le> n \<and> n < 2 ^ 32 then of_int n else d)"

definition i32_or_max :: "int \<Rightarrow> u32" where
  "i32_or_max n = (if - (2 ^ 31) \<le> n \<and> n < 2 ^ 31 then of_int n else 0x7FFFFFFF)"

definition sat_i64 :: "int \<Rightarrow> int" where
  "sat_i64 n = max (- (2 ^ 63)) (min (2 ^ 63 - 1) n)"

definition month_starts :: "int list" where
  "month_starts = [0, 31, 59, 90, 120, 151, 181, 212, 243, 273, 304, 334]"

definition is_leap_year :: "int \<Rightarrow> bool" where
  "is_leap_year y \<longleftrightarrow> (y mod 4 = 0 \<and> y mod 100 \<noteq> 0) \<or> y mod 400 = 0"

text \<open>Howard Hinnant's civil-from-days: the day of an era is taken apart into years, months and days.\<close>

definition year_of_era :: "int \<Rightarrow> int" where
  "year_of_era doe = (doe - doe div 1460 + doe div 36524 - doe div 146096) div 365"

definition civil_from_days :: "int \<Rightarrow> int \<times> int \<times> int" where
  "civil_from_days days =
     (let z = sat_i64 (days + 719468);
          era = z div 146097;
          doe = z mod 146097;
          yoe = year_of_era doe;
          doy = doe - (365 * yoe + yoe div 4 - yoe div 100);
          mp = (5 * doy + 2) div 153;
          day = doy - (153 * mp + 2) div 5 + 1;
          month = (if mp < 10 then mp + 3 else mp - 9)
      in (yoe + era * 400 + (if month \<le> 2 then 1 else 0), month, day))"

definition year_day :: "int \<Rightarrow> int \<Rightarrow> int \<Rightarrow> int" where
  "year_day y m d =
     the_default 0 (nth_opt month_starts (nat (m - 1))) + d - 1 + (if is_leap_year y \<and> 2 < m then 1 else 0)"

definition calendar_from_unix :: "int \<Rightarrow> calendar" where
  "calendar_from_unix secs =
     (let days = secs div 86400; rest = secs mod 86400
      in case civil_from_days days of
           (year, month, day) \<Rightarrow>
             \<lparr>cal_year = i32_or_max year, cal_month = u32_or 0 (month - 1), cal_day = u32_or 1 day,
              cal_hour = u32_or 0 (rest div 3600), cal_minute = u32_or 0 (rest mod 3600 div 60),
              cal_second = u32_or 0 (rest mod 60), cal_weekday = u32_or 0 (sat_i64 (days + 4) mod 7),
              cal_yearday = u32_or 0 (year_day year month day), cal_utc_offset = 0, cal_zone = Some (ascii ''UTC'')\<rparr>)"

text \<open>\<open>utc_now\<close>, of the seconds since the epoch that the system clock reads, if it reads after the epoch.\<close>

definition utc_now :: "nat option \<Rightarrow> calendar option" where
  "utc_now now = Option.bind now (\<lambda>s. if s < 2 ^ 63 then Some (calendar_from_unix (int s)) else None)"

section \<open>Days from dates\<close>

definition days_from_civil :: "int \<Rightarrow> int \<Rightarrow> int \<Rightarrow> int" where
  "days_from_civil year month day =
     (let y = (if month \<le> 2 then sat_i64 (year - 1) else year);
          era = y div 400;
          yoe = y mod 400;
          mp = (month + 9) mod 12;
          doy = (153 * mp + 2) div 5 + (day - 1);
          doe = yoe * 365 + yoe div 4 - yoe div 100 + doy
      in sat_i64 (sat_i64 (sat_i64 (era * 146097) + doe) - 719468))"

section \<open>The Gregorian calendar\<close>

text \<open>
  The first day of the year \<open>n\<close> of an era, counted from March, is \<open>era_start n\<close>; \<open>year_of_era\<close> finds the year of
  a day.
\<close>

definition era_start :: "int \<Rightarrow> int" where
  "era_start n = 365 * n + n div 4 - n div 100 + n div 400"

definition shifted :: "int \<Rightarrow> int" where
  "shifted doe = doe - doe div 1460 + doe div 36524 - doe div 146096"

lemma div_next:
  fixes n :: int
  assumes "0 < k"
  shows "(n + 1) div k = n div k + (if (n + 1) mod k = 0 then 1 else 0)"
proof (cases "n mod k + 1 = k")
  case True
  have "n + 1 = k * (n div k) + (n mod k + 1)" by simp
  then have n: "n + 1 = k * (n div k + 1) + 0" unfolding True by (simp only: distrib_left mult_1_right add_0_right)
  have "(n + 1) div k = n div k + 1" "(n + 1) mod k = 0"
    by (rule int_div_pos_eq [OF n] int_mod_pos_eq [OF n]; use assms in simp)+
  then show ?thesis by simp
next
  case False
  then have r: "0 \<le> n mod k + 1" "n mod k + 1 < k"
    using assms pos_mod_bound [of k n] pos_mod_sign [of k n] by linarith+
  have n: "n + 1 = k * (n div k) + (n mod k + 1)" by simp
  have "(n + 1) div k = n div k" "(n + 1) mod k = n mod k + 1"
    by (rule int_div_pos_eq [OF n r] int_mod_pos_eq [OF n r])+
  moreover have "n mod k + 1 \<noteq> 0" using assms pos_mod_sign [of k n] by linarith
  ultimately show ?thesis by simp
qed

lemma shifted_step: "shifted d \<le> shifted (d + 1)"
proof -
  have a: "(d + 1) div 1460 \<le> d div 1460 + 1" using div_next [of 1460 d] by simp
  have c: "x div 146096 = (x div 36524) div 4" for x :: int by (simp add: zdiv_zmult2_eq [symmetric])
  have "(d + 1) div 36524 = d div 36524 \<or> (d + 1) div 36524 = d div 36524 + 1" using div_next [of 36524 d] by simp
  moreover have "(d div 36524 + 1) div 4 \<le> d div 36524 div 4 + 1" using div_next [of 4 "d div 36524"] by simp
  ultimately have "d div 36524 - d div 146096 \<le> (d + 1) div 36524 - (d + 1) div 146096"
    unfolding c by (elim disjE) simp_all
  then show ?thesis using a unfolding shifted_def by linarith
qed

lemma shifted_mono: "d \<le> e \<Longrightarrow> shifted d \<le> shifted e"
proof -
  have "shifted d \<le> shifted (d + int n)" for n
  proof (induction n)
    case (Suc n)
    then show ?case using shifted_step [of "d + int n"] by (simp add: algebra_simps)
  qed simp
  then show "d \<le> e \<Longrightarrow> shifted d \<le> shifted e" using zle_iff_zadd by metis
qed

text \<open>A year of an era, by its century, its leap cycle in the century and its place in the cycle.\<close>

lemma year_parts:
  fixes n :: int
  assumes "0 \<le> n" "n < 400"
  obtains c e b where "n = 100 * c + 4 * e + b" "0 \<le> c" "c \<le> 3" "0 \<le> e" "e \<le> 24" "0 \<le> b" "b \<le> 3"
    "era_start n = 36524 * c + 1461 * e + 365 * b"
proof -
  let ?c = "n div 100" and ?e = "n mod 100 div 4" and ?b = "n mod 4"
  have "n mod 100 mod 4 = ?b" by (simp add: mod_mod_cancel)
  then have n: "n = 100 * ?c + 4 * ?e + ?b"
    using div_mult_mod_eq [of n 100] div_mult_mod_eq [of "n mod 100" 4] by linarith
  have "n div 4 = 25 * ?c + ?e" by (rule int_div_pos_eq [of _ _ _ ?b]) (use n in simp_all)
  moreover have "n div 400 = 0" using assms by simp
  ultimately have "era_start n = 36524 * ?c + 1461 * ?e + 365 * ?b" using n unfolding era_start_def by linarith
  moreover have "0 \<le> ?c" "?c \<le> 3" using assms zdiv_mono1 [of n 399 100] by (simp_all add: pos_imp_zdiv_nonneg_iff)
  moreover have "0 \<le> ?e" "?e \<le> 24" "0 \<le> ?b" "?b \<le> 3"
    using pos_mod_bound [of 100 n] pos_mod_bound [of 4 n] zdiv_mono1 [of "n mod 100" 99 4]
    by (simp_all add: pos_imp_zdiv_nonneg_iff)
  ultimately show thesis using that n by blast
qed

lemma era_start_shifted:
  assumes "0 \<le> n" "n < 400"
  shows "shifted (era_start n) = 365 * n" "0 < n \<Longrightarrow> shifted (era_start n - 1) < 365 * n"
proof -
  from year_parts [OF assms] obtain c e b where p: "n = 100 * c + 4 * e + b" "0 \<le> c" "c \<le> 3" "0 \<le> e" "e \<le> 24"
    "0 \<le> b" "b \<le> 3" "era_start n = 36524 * c + 1461 * e + 365 * b" .
  have d: "era_start n div 1460 = 25 * c + e" "era_start n div 36524 = c" "era_start n div 146096 = 0"
    using p by (auto intro!: int_div_pos_eq [of _ _ _ "24 * c + e + 365 * b"]
        int_div_pos_eq [of _ _ _ "1461 * e + 365 * b"] div_pos_pos_trivial)
  then show "shifted (era_start n) = 365 * n" using p by (simp add: shifted_def)
  assume "0 < n"
  then have "1 \<le> 24 * c + e + 365 * b" using p by (cases "c = 0"; cases "e = 0") auto
  then have d: "(era_start n - 1) div 1460 = 25 * c + e" "(era_start n - 1) div 146096 = 0"
    using p by (auto intro!: int_div_pos_eq [of _ _ _ "24 * c + e + 365 * b - 1"] div_pos_pos_trivial)
  have "(era_start n - 1) div 36524 \<le> era_start n div 36524" by (rule zdiv_mono1) simp_all
  then show "shifted (era_start n - 1) < 365 * n" using p d
    by (simp add: shifted_def \<open>era_start n div 36524 = c\<close>)
qed

lemma year_of_era:
  assumes "0 \<le> n" "n < 400" "era_start n \<le> doe" "doe < era_start (n + 1)"
  shows "year_of_era doe = n"
proof -
  have "365 * n \<le> shifted doe" using shifted_mono [OF assms(3)] era_start_shifted(1) [OF assms(1,2)] by simp
  moreover have "shifted doe < 365 * (n + 1)"
  proof (cases "n + 1 < 400")
    case True
    then show ?thesis
      using shifted_mono [of doe "era_start (n + 1) - 1"] era_start_shifted(2) [of "n + 1"] assms by simp
  next
    case False
    then have "n = 399" using assms(2) by simp
    then have "doe \<le> 146096" using assms(4) by (simp add: era_start_def)
    moreover have "shifted 146096 = 145999" by (simp add: shifted_def)
    ultimately show ?thesis using shifted_mono [of doe 146096] \<open>n = 399\<close> by simp
  qed
  ultimately show ?thesis
    unfolding year_of_era_def shifted_def [symmetric] by (auto intro!: int_div_pos_eq [of _ _ _ "shifted doe - 365 * n"])
qed

lemma era_has_year:
  assumes "0 \<le> doe" "doe < era_start (int n)"
  obtains k where "0 \<le> k" "k < int n" "era_start k \<le> doe" "doe < era_start (k + 1)"
  using assms
proof (induction n arbitrary: thesis)
  case 0
  then show ?case by (simp add: era_start_def)
next
  case (Suc n)
  show ?case
  proof (cases "doe < era_start (int n)")
    case True
    with Suc.IH Suc.prems(2) obtain k where "0 \<le> k" "k < int n" "era_start k \<le> doe" "doe < era_start (k + 1)" by blast
    then show ?thesis using Suc.prems(1) by force
  next
    case False
    then show ?thesis using Suc.prems(1) [of "int n"] Suc.prems(3) by (simp add: algebra_simps)
  qed
qed

text \<open>The days of a year: March has the numbers 0 to 30.  The last year of a cycle has day 365.\<close>

definition year_length :: "int \<Rightarrow> int" where
  "year_length n = era_start (n + 1) - era_start n"

lemma year_length: "year_length n = (if is_leap_year (n + 1) then 366 else 365)"
proof -
  have "(n + 1) mod 400 = 0 \<Longrightarrow> (n + 1) mod 100 = 0" "(n + 1) mod 100 = 0 \<Longrightarrow> (n + 1) mod 4 = 0"
    using dvd_trans [of 100 400 "n + 1"] dvd_trans [of 4 100 "n + 1"] by (simp_all add: dvd_eq_mod_eq_0)
  then show ?thesis unfolding year_length_def era_start_def is_leap_year_def
      by (simp add: div_next split: if_splits)
qed

lemma month_of_day:
  fixes doy :: int
  assumes "0 \<le> doy" "doy < 366" and mp: "mp = (5 * doy + 2) div 153"
  shows "0 \<le> mp \<and> mp \<le> 11 \<and> (153 * mp + 2) div 5 \<le> doy \<and>
    doy < (153 * mp + 2) div 5 + (if mp \<in> {1, 3, 6, 8} then 30 else if mp = 11 then 29 else 31)"
proof -
  have "153 * mp \<le> 5 * doy + 2" "5 * doy + 2 < 153 * mp + 153"
    using div_mult_mod_eq [of "5 * doy + 2" 153] pos_mod_sign [of 153 "5 * doy + 2"] pos_mod_bound [of 153 "5 * doy + 2"]
    unfolding mp by simp_all
  moreover from this have "0 \<le> mp" "mp \<le> 11" using assms(1,2) by linarith+
  then have "mp = 0 \<or> mp = 1 \<or> mp = 2 \<or> mp = 3 \<or> mp = 4 \<or> mp = 5 \<or> mp = 6 \<or> mp = 7 \<or> mp = 8 \<or> mp = 9 \<or> mp = 10 \<or> mp = 11"
    by presburger
  ultimately show ?thesis using assms(1,2) by (elim disjE) simp_all
qed

text \<open>The day of the year, from the day counted from March.\<close>

definition civil_day :: "int \<Rightarrow> int \<times> int \<times> int" where
  "civil_day z =
     (let doe = z mod 146097; n = year_of_era doe; doy = doe - era_start n; mp = (5 * doy + 2) div 153
      in (n + z div 146097 * 400, mp, doy))"

lemma era_day:
  fixes z :: int
  defines "doe \<equiv> z mod 146097"
  defines "n \<equiv> year_of_era doe"
  shows "0 \<le> n" "n < 400" "era_start n \<le> doe" "doe < era_start (n + 1)" "doe - era_start n < 366"
    "n div 400 = 0"
proof -
  have "0 \<le> doe" "doe < era_start (int 400)" by (simp_all add: doe_def era_start_def)
  then obtain k where k: "0 \<le> k" "k < int 400" "era_start k \<le> doe" "doe < era_start (k + 1)"
    by (rule era_has_year)
  then have "n = k" unfolding n_def by (intro year_of_era) simp_all
  then show "0 \<le> n" "n < 400" "era_start n \<le> doe" "doe < era_start (n + 1)" "n div 400 = 0" using k by simp_all
  then show "doe - era_start n < 366" using year_length [of n] by (simp add: year_length_def split: if_splits)
qed

text \<open>What \<open>civil_from_days\<close> computes, for days that an \<open>i64\<close> of seconds can reach.\<close>

definition day_range :: "int \<Rightarrow> bool" where
  "day_range days \<longleftrightarrow> \<bar>days\<bar> \<le> 2 ^ 62"

lemma civil_from_days_parts:
  assumes "day_range days" "civil_from_days days = (y, m, d)"
  obtains n era doy mp where "0 \<le> n" "n < 400" "0 \<le> doy" "doy < year_length n" "days + 719468 = era * 146097 + era_start n + doy"
    "mp = (5 * doy + 2) div 153" "d = doy - (153 * mp + 2) div 5 + 1" "m = (if mp < 10 then mp + 3 else mp - 9)"
    "y = n + era * 400 + (if m \<le> 2 then 1 else 0)"
proof -
  let ?z = "days + 719468"
  let ?doe = "?z mod 146097"
  let ?n = "year_of_era ?doe"
  have z: "sat_i64 ?z = ?z" using assms(1) by (simp add: sat_i64_def day_range_def)
  note e = era_day [of ?z]
  have s: "365 * ?n + ?n div 4 - ?n div 100 = era_start ?n" using e(6) by (simp add: era_start_def)
  let ?doy = "?doe - era_start ?n" and ?era = "?z div 146097"
  let ?mp = "(5 * ?doy + 2) div 153"
  let ?m = "if ?mp < 10 then ?mp + 3 else ?mp - 9"
  have "civil_from_days days = (?n + ?era * 400 + (if ?m \<le> 2 then 1 else 0), ?m, ?doy - (153 * ?mp + 2) div 5 + 1)"
    unfolding civil_from_days_def Let_def z s by (rule refl)
  then have r: "y = ?n + ?era * 400 + (if ?m \<le> 2 then 1 else 0)" "m = ?m" "d = ?doy - (153 * ?mp + 2) div 5 + 1"
    unfolding assms(2) by blast+
  have z: "days + 719468 = ?era * 146097 + era_start ?n + ?doy"
    using div_mult_mod_eq [of ?z 146097] by linarith
  have d: "0 \<le> ?doy" "?doy < year_length ?n" using e(3,4) unfolding year_length_def by linarith+
  show thesis using that [OF e(1,2) d z refl r(3,2) r(1) [folded r(2)]] .
qed

text \<open>Back from a date to its day.\<close>

lemma era_start_era: "era_start (n + era * 400) = era_start n + era * 146097"
proof -
  have "(n + era * 400) div 4 = n div 4 + era * 100" using div_mult_self1 [of 4 n "era * 100"] by simp
  moreover have "(n + era * 400) div 100 = n div 100 + era * 4" using div_mult_self1 [of 100 n "era * 4"] by simp
  ultimately show ?thesis unfolding era_start_def by simp
qed

lemma era_start_bound: "0 \<le> n \<Longrightarrow> n < 400 \<Longrightarrow> 0 \<le> era_start n \<and> era_start n < 146097"
  by (auto simp: era_start_def)

lemma sat_small: "\<bar>n\<bar> \<le> 2 ^ 62 + 867000 \<Longrightarrow> sat_i64 n = n" "\<bar>n\<bar> \<le> 2 ^ 62 + 147000 \<Longrightarrow> sat_i64 n = n"
  "\<bar>n\<bar> \<le> 2 ^ 62 \<Longrightarrow> sat_i64 n = n"
  by (auto simp: sat_i64_def)

lemma near:
  fixes a x :: int
  assumes "\<bar>x\<bar> < 147000" "\<bar>a\<bar> \<le> 2 ^ 62"
  shows "\<bar>a + x\<bar> \<le> 2 ^ 62 + 147000" "\<bar>a + x - 719468\<bar> \<le> 2 ^ 62 + 867000"
  using assms by (simp_all add: abs_le_iff abs_less_iff)

lemma days_from_civil:
  assumes "\<bar>y\<bar> < 2 ^ 44" "1 \<le> d" "d \<le> 31" "0 \<le> mp" "mp \<le> 11" "(m + 9) mod 12 = mp"
  shows "days_from_civil y m d = era_start (if m \<le> 2 then y - 1 else y) + (153 * mp + 2) div 5 + d - 719469"
proof -
  define z where "z = (if m \<le> 2 then y - 1 else y)"
  have z: "(if m \<le> 2 then sat_i64 (y - 1) else y) = z" "\<bar>z\<bar> \<le> 2 ^ 44"
    using assms(1) by (auto simp: z_def sat_i64_def)
  let ?n = "z mod 400" and ?e = "z div 400"
  have n: "0 \<le> ?n" "?n < 400" "?n div 400 = 0" by simp_all
  have s: "?n * 365 + ?n div 4 - ?n div 100 = era_start ?n" unfolding era_start_def n(3) by simp
  have m: "0 \<le> (153 * mp + 2) div 5" "(153 * mp + 2) div 5 < 338"
    using assms(4,5) by (simp_all add: pos_imp_zdiv_nonneg_iff)
  have "\<bar>?e\<bar> \<le> 2 ^ 44" using z(2) n(1,2) div_mult_mod_eq [of z 400] by linarith
  then have a: "\<bar>?e * 146097\<bar> \<le> 2 ^ 62" by simp
  let ?d = "era_start ?n + ((153 * mp + 2) div 5 + (d - 1))"
  have b: "\<bar>?d\<bar> < 147000" using era_start_bound [OF n(1,2)] m assms(2,3) by linarith
  have s62: "\<bar>?e * 146097 + ?d\<bar> \<le> 2 ^ 62 + 147000" "\<bar>?e * 146097 + ?d - 719468\<bar> \<le> 2 ^ 62 + 867000"
    using near [OF b a] .
  have "sat_i64 (sat_i64 (sat_i64 (?e * 146097) + ?d) - 719468) = ?e * 146097 + ?d - 719468"
    using s62 a by (simp only: sat_small)
  moreover have "era_start z = ?e * 146097 + era_start ?n"
    using era_start_era [of ?n ?e] by (simp add: add.commute)
  ultimately show ?thesis
    unfolding days_from_civil_def z(1) Let_def assms(6) s z_def [symmetric] by simp
qed

text \<open>The date of a day.\<close>

definition month_length :: "int \<Rightarrow> int \<Rightarrow> int" where
  "month_length y m =
     (if m = 2 then (if is_leap_year y then 29 else 28) else if m \<in> {4, 6, 9, 11} then 30 else 31)"

definition good_date :: "int \<Rightarrow> int \<Rightarrow> int \<Rightarrow> int \<Rightarrow> bool" where
  "good_date days y m d \<longleftrightarrow> 1 \<le> m \<and> m \<le> 12 \<and> 1 \<le> d \<and> d \<le> month_length y m \<and>
     days_from_civil y m d = days \<and> year_day y m d = days - days_from_civil y 1 1"

lemma good_date_of_days:
  assumes "\<bar>days\<bar> \<le> 2 ^ 50" "civil_from_days days = (y, m, d)"
  shows "good_date days y m d \<and> \<bar>y\<bar> < 2 ^ 44"
proof -
  have "day_range days" using assms(1) by (simp add: day_range_def)
  from civil_from_days_parts [OF this assms(2)] obtain n era doy mp where p: "0 \<le> n" "n < 400" "0 \<le> doy" "doy < year_length n"
    "days + 719468 = era * 146097 + era_start n + doy" "mp = (5 * doy + 2) div 153"
    "d = doy - (153 * mp + 2) div 5 + 1" "m = (if mp < 10 then mp + 3 else mp - 9)"
    "y = n + era * 400 + (if m \<le> 2 then 1 else 0)" .
  have doy: "doy < 366" using p(4) by (simp add: year_length split: if_splits)
  note mp = month_of_day [OF p(3) this p(6)]
  have z: "(if m \<le> 2 then y - 1 else y) = n + era * 400" using p(9) by simp
  have "\<bar>days\<bar> \<le> 1125899906842624" using assms(1) by simp
  then have "\<bar>n + era * 400\<bar> < 17592186044415"
    using era_start_bound [OF p(1,2)] p(1-3,5) doy by linarith
  then have year: "\<bar>n + era * 400\<bar> < 2 ^ 44 - 1" by simp
  then have small: "\<bar>y\<bar> < 2 ^ 44" unfolding p(9) by auto
  have mod12: "(m + 9) mod 12 = mp" using mp p(8) by (auto simp: mod_pos_pos_trivial)
  have d: "1 \<le> d" "d \<le> 31" using mp p(7) by (auto split: if_splits)
  have inv: "days_from_civil y m d = days"
    using days_from_civil [of y d mp m] small d mp mod12 p(5,7) z by (simp add: era_start_era)
  have first: "days_from_civil y 1 1 = era_start (y - 1) + 306 - 719468"
    using days_from_civil [of y 1 10 1] small by simp
  have m: "1 \<le> m" "m \<le> 12" using mp p(8) by auto
  define leap where "leap = (if is_leap_year y then 1 else 0 :: int)"
  have yr: "era_start y = era_start (y - 1) + 365 + leap"
    using year_length [of "y - 1"] by (auto simp: year_length_def leap_def)
  have days: "days = era_start (n + era * 400) + doy - 719468" using p(5) era_start_era [of n era] by simp
  have feb: "doy < 365 + leap" if "mp = 11"
    using that p(4,8,9) year_length [of "n + era * 400"] era_start_era [of n era] era_start_era [of "n + 1" era]
    by (auto simp: year_length_def leap_def algebra_simps split: if_splits)
  have yd: "year_day y m d = the_default 0 (nth_opt month_starts (nat (m - 1))) + d - 1 + (if 2 < m then leap else 0)"
    by (simp add: year_day_def leap_def)
  have "month_length y m = (if m = 2 then 28 + leap else if m \<in> {4, 6, 9, 11} then 30 else 31)"
    by (simp add: month_length_def leap_def)
  moreover have mps: "mp = 0 \<or> mp = 1 \<or> mp = 2 \<or> mp = 3 \<or> mp = 4 \<or> mp = 5 \<or> mp = 6 \<or> mp = 7 \<or> mp = 8 \<or> mp = 9 \<or> mp = 10 \<or> mp = 11"
    using conjunct1 [OF mp] conjunct1 [OF conjunct2 [OF mp]] by presburger
  ultimately have len: "d \<le> month_length y m"
    using mp p(7,8) feb by (elim disjE) simp_all
  have "year_day y m d = days - days_from_civil y 1 1"
  proof (cases "mp < 10")
    case True
    then have "y = n + era * 400" using mp p(8,9) by simp
    then have "days - days_from_civil y 1 1 = doy + 59 + leap" using days first yr by simp
    then show ?thesis using mps True p(7,8) unfolding yd
      by (elim disjE) (simp_all add: month_starts_def nth_opt_def)
  next
    case False
    then have "y - 1 = n + era * 400" using mp p(8,9) by simp
    then have "days - days_from_civil y 1 1 = doy - 306" using days first by simp
    then show ?thesis using mps False p(7,8) unfolding yd
      by (elim disjE) (simp_all add: month_starts_def nth_opt_def)
  qed
  then show ?thesis using inv d m small len by (simp add: good_date_def)
qed

section \<open>Seconds back from a calendar time\<close>

text \<open>What \<open>strftime\<close> prints for \<open>%s\<close>.\<close>

definition unix_seconds :: "calendar \<Rightarrow> int" where
  "unix_seconds t =
     (let days = days_from_civil (sint (cal_year t)) (uint (cal_month t) + 1) (uint (cal_day t))
      in sat_i64 (sat_i64 (sat_i64 (sat_i64 (sat_i64 (days * 86400) + sat_i64 (uint (cal_hour t) * 3600)) +
           sat_i64 (uint (cal_minute t) * 60)) + uint (cal_second t)) - sint (cal_utc_offset t)))"

lemma u32_or_uint: "0 \<le> n \<Longrightarrow> n < 2 ^ 32 \<Longrightarrow> uint (u32_or d n) = n"
  by (simp add: u32_or_def uint_word_of_int take_bit_int_eq_self)

lemma i32_or_max_sint: "- (2 ^ 31) \<le> n \<Longrightarrow> n < 2 ^ 31 \<Longrightarrow> sint (i32_or_max n) = n"
  by (simp add: i32_or_max_def signed_of_int signed_take_bit_int_eq_self)

lemma seconds_of_parts:
  fixes r :: int
  assumes "0 \<le> r" "r < 86400"
  shows "r div 3600 * 3600 + r mod 3600 div 60 * 60 + r mod 60 = r"
proof -
  have "r mod 3600 mod 60 = r mod 60" by (rule mod_mod_cancel) simp
  then show ?thesis using div_mult_mod_eq [of r 3600] div_mult_mod_eq [of "r mod 3600" 60] by linarith
qed

lemma small_year:
  assumes "\<bar>days\<bar> \<le> 2 ^ 39" "civil_from_days days = (y, m, d)"
  shows "- (2 ^ 31) \<le> y" "y < 2 ^ 31"
proof -
  have "day_range days" using assms(1) by (simp add: day_range_def)
  from civil_from_days_parts [OF this assms(2)] obtain n era doy mp where p: "0 \<le> n" "n < 400" "0 \<le> doy" "doy < year_length n"
    "days + 719468 = era * 146097 + era_start n + doy" "mp = (5 * doy + 2) div 153"
    "d = doy - (153 * mp + 2) div 5 + 1" "m = (if mp < 10 then mp + 3 else mp - 9)"
    "y = n + era * 400 + (if m \<le> 2 then 1 else 0)" .
  have "doy < 366" using p(4) by (simp add: year_length split: if_splits)
  moreover have "\<bar>days\<bar> \<le> 549755813888" using assms(1) by simp
  ultimately have "\<bar>n + era * 400\<bar> < 2147483647" using era_start_bound [OF p(1,2)] p(1-3,5) by linarith
  then show "- (2 ^ 31) \<le> y" "y < 2 ^ 31" unfolding p(9) by auto
qed

lemma year_day_bounds: "1 \<le> m \<Longrightarrow> m \<le> 12 \<Longrightarrow> 1 \<le> d \<Longrightarrow> d \<le> 31 \<Longrightarrow> 0 \<le> year_day y m d \<and> year_day y m d < 2 ^ 32"
proof -
  have "0 \<le> the_default 0 (nth_opt month_starts i) \<and> the_default 0 (nth_opt month_starts i) \<le> 334" for i
  proof -
    have "list_all (\<lambda>x. 0 \<le> x \<and> x \<le> 334) month_starts" by (simp add: month_starts_def)
    then show ?thesis by (simp add: nth_opt_def list_all_length the_default_def)
  qed
  from this [of "nat (m - 1)"] show "1 \<le> m \<Longrightarrow> m \<le> 12 \<Longrightarrow> 1 \<le> d \<Longrightarrow> d \<le> 31 \<Longrightarrow> ?thesis"
    by (simp add: year_day_def)
qed

lemma month_length_le: "month_length y m \<le> 31"
  by (simp add: month_length_def)

lemma sat_chain:
  fixes a h mi s :: int
  assumes "\<bar>a\<bar> \<le> 2 ^ 56" "0 \<le> h" "h < 24" "0 \<le> mi" "mi < 60" "0 \<le> s" "s < 60"
  shows "sat_i64 (sat_i64 (sat_i64 (sat_i64 (sat_i64 a + sat_i64 (h * 3600)) + sat_i64 (mi * 60)) + s) - 0) =
    a + (h * 3600 + mi * 60 + s)"
proof -
  have a: "\<bar>a\<bar> \<le> 72057594037927936" using assms(1) by simp
  have sat: "\<bar>x\<bar> \<le> 72057594038937936 \<Longrightarrow> sat_i64 x = x" for x by (rule sat_small(3)) simp
  have "sat_i64 a = a" "sat_i64 (h * 3600) = h * 3600" "sat_i64 (mi * 60) = mi * 60"
    using assms(2-5) a by (intro sat; linarith)+
  moreover have "sat_i64 (a + h * 3600) = a + h * 3600" using assms(2-7) a by (intro sat) linarith
  moreover have "sat_i64 (a + h * 3600 + mi * 60) = a + h * 3600 + mi * 60" using assms(2-7) a by (intro sat) linarith
  moreover have "sat_i64 (a + h * 3600 + mi * 60 + s) = a + h * 3600 + mi * 60 + s" using assms(2-7) a by (intro sat) linarith
  ultimately show ?thesis by simp
qed

text \<open>The fields of the calendar time.\<close>

lemma calendar_fields:
  assumes "\<bar>secs\<bar> \<le> 2 ^ 55" "civil_from_days (secs div 86400) = (y, m, d)"
  shows "sint (cal_year (calendar_from_unix secs)) = y" "uint (cal_month (calendar_from_unix secs)) = m - 1"
    "uint (cal_day (calendar_from_unix secs)) = d" "uint (cal_hour (calendar_from_unix secs)) = secs mod 86400 div 3600"
    "uint (cal_minute (calendar_from_unix secs)) = secs mod 86400 mod 3600 div 60"
    "uint (cal_second (calendar_from_unix secs)) = secs mod 86400 mod 60"
    "uint (cal_weekday (calendar_from_unix secs)) = (secs div 86400 + 4) mod 7"
    "uint (cal_yearday (calendar_from_unix secs)) = year_day y m d" "cal_utc_offset (calendar_from_unix secs) = 0"
    "good_date (secs div 86400) y m d" "\<bar>secs div 86400\<bar> \<le> 2 ^ 39"
proof -
  let ?days = "secs div 86400"
  have "secs = ?days * 86400 + secs mod 86400" "0 \<le> secs mod 86400" "secs mod 86400 < 86400" by simp_all
  then have "\<bar>?days\<bar> \<le> 549755813888" using assms(1) by simp
  then show days: "\<bar>?days\<bar> \<le> 2 ^ 39" by simp
  then have "\<bar>?days\<bar> \<le> 2 ^ 50" by simp
  then show g: "good_date ?days y m d" using good_date_of_days [OF _ assms(2)] by blast
  then have md: "1 \<le> m" "m \<le> 12" "1 \<le> d" "d \<le> 31" using month_length_le [of y m] by (auto simp: good_date_def)
  note eq = calendar_from_unix_def Let_def assms(2) prod.case calendar.simps
  show "sint (cal_year (calendar_from_unix secs)) = y"
    using i32_or_max_sint [OF small_year [OF days assms(2)]] by (simp add: eq)
  show "uint (cal_month (calendar_from_unix secs)) = m - 1" "uint (cal_day (calendar_from_unix secs)) = d"
    using md by (simp_all add: eq u32_or_uint)
  have r: "0 \<le> secs mod 86400 div 3600" "secs mod 86400 div 3600 < 2 ^ 32" "0 \<le> secs mod 86400 mod 3600 div 60"
    "secs mod 86400 mod 3600 div 60 < 2 ^ 32" "0 \<le> secs mod 86400 mod 60" "secs mod 86400 mod 60 < 2 ^ 32"
    using zdiv_mono1 [of "secs mod 86400" 86399 3600] zdiv_mono1 [of "secs mod 86400 mod 3600" 3599 60]
    by (simp_all add: pos_imp_zdiv_nonneg_iff order.strict_trans [OF pos_mod_bound])
  show "uint (cal_hour (calendar_from_unix secs)) = secs mod 86400 div 3600"
    "uint (cal_minute (calendar_from_unix secs)) = secs mod 86400 mod 3600 div 60"
    "uint (cal_second (calendar_from_unix secs)) = secs mod 86400 mod 60"
    using r by (simp_all only: eq u32_or_uint)
  have "sat_i64 (?days + 4) = ?days + 4" using days by (intro sat_small(3)) simp
  moreover have "0 \<le> (?days + 4) mod 7" "(?days + 4) mod 7 < 2 ^ 32" by simp_all
  ultimately show "uint (cal_weekday (calendar_from_unix secs)) = (?days + 4) mod 7" by (simp only: eq u32_or_uint)
  show "uint (cal_yearday (calendar_from_unix secs)) = year_day y m d"
    using year_day_bounds [OF md] by (simp only: eq u32_or_uint)
  show "cal_utc_offset (calendar_from_unix secs) = 0" by (simp only: eq)
qed

text \<open>C28: Seconds since 1970 survive the way into a calendar time and back, and the calendar time is a date of the
  Gregorian calendar with its day of the year and its weekday, and a time of day.\<close>

theorem calendar_round_trip:
  assumes "\<bar>secs\<bar> \<le> 2 ^ 55"
  shows "unix_seconds (calendar_from_unix secs) = secs \<and>
    (let t = calendar_from_unix secs; y = sint (cal_year t); m = uint (cal_month t) + 1; d = uint (cal_day t)
     in 1 \<le> m \<and> m \<le> 12 \<and> 1 \<le> d \<and> d \<le> month_length y m \<and>
        uint (cal_yearday t) = days_from_civil y m d - days_from_civil y 1 1 \<and>
        uint (cal_weekday t) = (days_from_civil y m d + 4) mod 7 \<and>
        cal_hour t < 24 \<and> cal_minute t < 60 \<and> cal_second t < 60)"
proof -
  obtain y m d where c: "civil_from_days (secs div 86400) = (y, m, d)" by (rule prod_cases3)
  note f = calendar_fields [OF assms c]
  let ?t = "calendar_from_unix secs" and ?days = "secs div 86400" and ?r = "secs mod 86400"
  have g: "1 \<le> m" "m \<le> 12" "1 \<le> d" "d \<le> month_length y m" "days_from_civil y m d = ?days"
    "year_day y m d = ?days - days_from_civil y 1 1"
    using f(10) by (simp_all add: good_date_def)
  have parts: "?r div 3600 * 3600 + ?r mod 3600 div 60 * 60 + ?r mod 60 = ?r"
    by (rule seconds_of_parts) simp_all
  have r: "0 \<le> ?r div 3600" "?r div 3600 < 24" "0 \<le> ?r mod 3600 div 60" "?r mod 3600 div 60 < 60" "0 \<le> ?r mod 60" "?r mod 60 < 60"
    using zdiv_mono1 [of ?r 86399 3600] zdiv_mono1 [of "?r mod 3600" 3599 60]
    by (simp_all add: pos_imp_zdiv_nonneg_iff)
  have clock: "cal_hour ?t < 24 \<and> cal_minute ?t < 60 \<and> cal_second ?t < 60"
    unfolding word_less_def f(4-6) using r by simp
  have "\<bar>?days * 86400\<bar> \<le> 2 ^ 56" using f(11) by (simp add: abs_mult)
  then have "sat_i64 (sat_i64 (sat_i64 (sat_i64 (sat_i64 (?days * 86400) + sat_i64 (?r div 3600 * 3600)) +
      sat_i64 (?r mod 3600 div 60 * 60)) + ?r mod 60) - 0) =
      ?days * 86400 + (?r div 3600 * 3600 + ?r mod 3600 div 60 * 60 + ?r mod 60)"
    by (rule sat_chain [OF _ r])
  also have "\<dots> = secs" unfolding parts by simp
  finally have "unix_seconds ?t = secs"
    unfolding unix_seconds_def Let_def f(1-6) f(9) diff_add_cancel g(5) by (simp only: signed_0)
  moreover have "uint (cal_month ?t) + 1 = m" using f(2) by simp
  ultimately show ?thesis using g clock unfolding Let_def f(1,3,7,8) by simp
qed

text \<open>A leap day.\<close>

theorem calendar_round_trip_witness:
  "unix_seconds (calendar_from_unix 1709210096) = 1709210096"
  by (rule conjunct1 [OF calendar_round_trip]) simp

end
