(* ===== verification/Services.thy ===== *)
theory Services
  imports Std Calendar
begin

text \<open>
  The services of the embedding program that the standard builtins ask for (the rest of \<open>Host\<close> in
  \<open>src/host.rs\<close>), the defaults of its methods, and the extension list one of them uses
  (\<open>src/stdlib/mod.rs\<close>).

  A service is a function of its arguments and the world; it returns the new world and its result, or \<open>None\<close> when it
  panics.  Builtins that ask for services are actions, put together with \<open>and_then\<close>.
\<close>

section \<open>Actions\<close>

text \<open>Working on the core, looking at it, asking the host, and ending.\<close>

definition core_act :: "('s core \<Rightarrow> 's core \<times> vm_error option) \<Rightarrow> ('s, 'h, unit) act" where
  "core_act f = (\<lambda>(v, h).
     case f (v_core v) of
       (c, r) \<Rightarrow> Some ((v\<lparr>v_core := c\<rparr>, h), case r of None \<Rightarrow> Done () | Some e \<Rightarrow> Failed e))"

definition look :: "('s core \<Rightarrow> 'a) \<Rightarrow> ('s, 'h, 'a) act" where
  "look f = (\<lambda>(v, h). Some ((v, h), Done (f (v_core v))))"

definition ask :: "('h \<Rightarrow> 'h \<times> 'a option) \<Rightarrow> ('s, 'h, 'a) act" where
  "ask q = (\<lambda>(v, h). case q h of (h', r) \<Rightarrow> Some ((v, h'), case r of Some x \<Rightarrow> Done x | None \<Rightarrow> Panicked))"

definition give :: "'a \<Rightarrow> ('s, 'h, 'a) act" where
  "give x = (\<lambda>w. Some (w, Done x))"

definition fails :: "error_kind \<Rightarrow> ('s, 'h, 'a) act" where
  "fails k = (\<lambda>w. Some (w, Failed (vm_error_new k)))"

definition change :: "('s core \<Rightarrow> 's core) \<Rightarrow> ('s, 'h, unit) act" where
  "change f = core_act (\<lambda>c. (f c, None))"

definition may_fail :: "('s core \<Rightarrow> 's core \<times> error_kind option) \<Rightarrow> ('s, 'h, unit) act" where
  "may_fail f = core_act (\<lambda>c. case f c of (c, r) \<Rightarrow> (c, map_option vm_error_new r))"

text \<open>Those that keep the contract of the engine.\<close>

named_theorems obeys_intros

lemma obeys_core_act:
  assumes "\<And>c. tame c (fst (f c))"
  shows "obeys (core_act f)"
  unfolding obeys_def
proof (intro allI impI)
  fix v :: "'a vm" and h :: 'b
  assume v: "in_call v"
  let ?c = "fst (f (v_core v))"
  have "vm_ready (v\<lparr>v_core := ?c\<rparr>)"
    using held_ready [OF tame_held [OF assms]] v by (simp add: in_call_def)
  moreover have "same_calls (v_core v) ?c" using tame_calls [OF assms] .
  ultimately show "\<exists>v' h' r. core_act f (v, h) = Some ((v', h'), r) \<and>
      (r \<noteq> Panicked \<longrightarrow> vm_ready v' \<and> same_calls (v_core v) (v_core v') \<and> v_budget v' \<le> v_budget v)"
    by (auto simp: core_act_def split: prod.split)
qed

lemma obeys_change [obeys_intros]: "(\<And>c. tame c (f c)) \<Longrightarrow> obeys (change f)"
  unfolding change_def by (rule obeys_core_act) simp

lemma obeys_may_fail [obeys_intros]: "(\<And>c. tame c (fst (f c))) \<Longrightarrow> obeys (may_fail f)"
  unfolding may_fail_def by (rule obeys_core_act) (simp split: prod.split add: split_beta)

lemma obeys_look [obeys_intros]: "obeys (look f)"
  by (auto simp: obeys_def look_def in_call_def same_calls_def)

lemma obeys_ask [obeys_intros]: "obeys (ask q)"
  by (auto simp: obeys_def ask_def in_call_def same_calls_def split: prod.split)

lemma obeys_give [obeys_intros]: "obeys (give x)" "obeys (fails k)"
  by (auto simp: give_def fails_def obeys_done)

lemmas [obeys_intros] = obeys_and_then obeys_for_each

lemma pure_is_may_fail: "pure_builtin f = may_fail f"
  by (rule ext) (auto simp: pure_builtin_def may_fail_def core_act_def split: prod.split option.split)

section \<open>Extensions\<close>

definition EXTENSIONS :: "string list" where
  "EXTENSIONS =
     [''DP_QC_ASINACOSATANATAN2TAN'', ''DP_QC_CHANGEPITCH'', ''DP_QC_COPYENTITY'', ''DP_QC_CRC16'',
      ''DP_QC_CVAR_DEFSTRING'', ''DP_QC_CVAR_STRING'', ''DP_QC_CVAR_TYPE'', ''DP_QC_EDICT_NUM'', ''DP_QC_ETOS'',
      ''DP_QC_FINDCHAIN'', ''DP_QC_FINDCHAINFLAGS'', ''DP_QC_FINDCHAINFLOAT'', ''DP_QC_FINDFLAGS'',
      ''DP_QC_FINDFLOAT'', ''DP_QC_MINMAXBOUND'', ''DP_QC_RANDOMVEC'', ''DP_QC_SINCOSSQRTPOW'', ''DP_QC_SPRINTF'',
      ''DP_QC_STRFTIME'', ''DP_QC_STRINGBUFFERS'', ''DP_QC_STRINGCOLORFUNCTIONS'', ''DP_QC_STRING_CASE_FUNCTIONS'',
      ''DP_QC_STRREPLACE'', ''DP_QC_TOKENIZEBYSEPARATOR'', ''DP_QC_URI_ESCAPE'', ''DP_QC_VECTOANGLES_WITH_ROLL'',
      ''DP_QC_VECTORVECTORS'', ''DP_REGISTERCVAR'', ''DP_SV_PRINT'', ''EXT_BITSHIFT'', ''FTE_CALLTIMEOFDAY'',
      ''FTE_MEMALLOC'', ''FTE_MULTIPROGS'', ''FTE_MULTITHREADED'', ''FTE_QC_CHECKCOMMAND'', ''FTE_QC_CROSSPRODUCT'',
      ''FTE_QC_HASHTABLES'', ''FTE_QC_INTCONV'', ''FTE_STRINGS'', ''ZQ_QC_STRINGS'']"

definition DIGEST_EXTENSIONS :: "string list" where
  "DIGEST_EXTENSIONS =
     [''DP_QC_DIGEST_SHA256'', ''FTE_QC_DIGEST_SHA1'', ''FTE_QC_DIGEST_SHA224'', ''FTE_QC_DIGEST_SHA384'',
      ''FTE_QC_DIGEST_SHA512'']"

text \<open>\<open>digests\<close> says whether the feature of that name is on.\<close>

definition has_extension :: "bool \<Rightarrow> bytes \<Rightarrow> bool" where
  "has_extension digests name \<longleftrightarrow>
     name \<in> set (map ascii (EXTENSIONS @ (if digests then DIGEST_EXTENSIONS else [])))"

section \<open>The host\<close>

record cvar_info =
  cv_flags :: u32
  cv_default :: bytes
  cv_description :: "bytes option"

datatype (plugins only: code size) dump_kind = CoreDump | EntityDump | ObjErrorDump | TraceDump

type_synonym ('h, 'r) service = "'h \<Rightarrow> 'h \<times> 'r option"

record ('s, 'h) services =
  sv_print :: "bytes \<Rightarrow> ('h, unit) service"
  sv_dprint :: "bytes \<Rightarrow> ('h, unit) service"
  sv_centerprint :: "bytes \<Rightarrow> ('h, unit) service"
  sv_localcmd :: "bytes \<Rightarrow> ('h, unit) service"
  sv_dump :: "dump_kind \<Rightarrow> bytes \<Rightarrow> ('h, unit) service"
  sv_cvar_float :: "bytes \<Rightarrow> ('h, u32) service"
  sv_cvar_string :: "bytes \<Rightarrow> ('h, bytes option) service"
  sv_cvar_set :: "bytes \<Rightarrow> bytes \<Rightarrow> ('h, unit) service"
  sv_cvar_info :: "bytes \<Rightarrow> ('h, cvar_info option) service"
  sv_register_cvar :: "bytes \<Rightarrow> bytes \<Rightarrow> u32 \<Rightarrow> ('h, bool) service"
  sv_cvar_list :: "bytes \<Rightarrow> bytes \<Rightarrow> ('h, bytes list) service"
  sv_cvars_have_unsaved :: "('h, bool) service"
  sv_check_extension :: "bytes \<Rightarrow> ('h, bool) service"
  sv_check_command :: "bytes \<Rightarrow> ('h, u32) service"
  sv_register_command :: "bytes \<Rightarrow> ('h, unit) service"
  sv_is_demo :: "('h, u32) service"
  sv_is_server :: "('h, bool) service"
  sv_sim_time :: "('h, u64 option) service"
  sv_calendar_time :: "bool \<Rightarrow> ('h, calendar option) service"
  sv_read_file :: "bytes \<Rightarrow> ('h, bytes option) service"
  sv_load_progs :: "bytes \<Rightarrow> ('h, program option) service"
  sv_on_spawn :: "u32 \<Rightarrow> ('s, 'h, unit) act"
  sv_on_remove :: "u32 \<Rightarrow> ('s, 'h, unit) act"

text \<open>
  \<open>NullHost\<close>: every method keeps its default.  The system clock is \<open>clock\<close>; \<open>instants\<close> and \<open>later\<close> are those of
  \<open>Instant\<close>.
\<close>

definition says :: "'r \<Rightarrow> ('h, 'r) service" where
  "says r h = (h, Some r)"

definition null_services :: "bool \<Rightarrow> ('h \<Rightarrow> nat option) \<Rightarrow> ('s, 'h) services" where
  "null_services digests clock =
     \<lparr>sv_print = (\<lambda>_. says ()), sv_dprint = (\<lambda>_. says ()), sv_centerprint = (\<lambda>_. says ()),
      sv_localcmd = (\<lambda>_. says ()), sv_dump = (\<lambda>_ _. says ()), sv_cvar_float = (\<lambda>_. says 0),
      sv_cvar_string = (\<lambda>_. says None), sv_cvar_set = (\<lambda>_ _. says ()), sv_cvar_info = (\<lambda>_. says None),
      sv_register_cvar = (\<lambda>_ _ _. says False), sv_cvar_list = (\<lambda>_ _. says []),
      sv_cvars_have_unsaved = says False, sv_check_extension = (\<lambda>name. says (has_extension digests name)),
      sv_check_command = (\<lambda>_. says 0), sv_register_command = (\<lambda>_. says ()), sv_is_demo = says 0,
      sv_is_server = says False, sv_sim_time = says None,
      sv_calendar_time = (\<lambda>_ h. (h, Some (utc_now (clock h)))), sv_read_file = (\<lambda>_. says None),
      sv_load_progs = (\<lambda>_. says None), sv_on_spawn = (\<lambda>_. give ()), sv_on_remove = (\<lambda>_. give ())\<rparr>"

definition null_host :: "('h \<Rightarrow> nat) \<Rightarrow> (nat \<Rightarrow> nat \<Rightarrow> nat option) \<Rightarrow> ('s, 'h) host" where
  "null_host instants later =
     \<lparr>hs_warning = (\<lambda>_ h. (h, True)), hs_trace = (\<lambda>_ h. (h, True)), hs_state_op = (\<lambda>_. give False),
      hs_now = (\<lambda>h. (h, instants h)), hs_later = later\<rparr>"

end
