(* ===== verification/TextNum.thy ===== *)
theory TextNum
  imports Services
begin

text \<open>
  Numbers and text as the formatting of Rust's standard library writes them: decimal and hexadecimal digits,
  padding, and \<open>String::from_utf8_lossy\<close>.  Text is a list of bytes; the text of a message is a string of
  characters with the same codes.
\<close>

section \<open>Digits\<close>

definition digit_char :: "nat \<Rightarrow> u8" where
  "digit_char d = (if d < 10 then 0x30 + of_nat d else 0x61 + of_nat (d - 10))"

text \<open>The digits of a number, the most significant first; zero has none.\<close>

fun digits_of :: "nat \<Rightarrow> nat \<Rightarrow> bytes" where
  "digits_of b n = (if n = 0 \<or> b < 2 then [] else digits_of b (n div b) @ [digit_char (n mod b)])"

declare digits_of.simps [simp del]

definition radix_text :: "nat \<Rightarrow> nat \<Rightarrow> bytes" where
  "radix_text b n = (if n = 0 then [0x30] else digits_of b n)"

abbreviation dec_text :: "nat \<Rightarrow> bytes" where
  "dec_text \<equiv> radix_text 10"

abbreviation hex_text :: "nat \<Rightarrow> bytes" where
  "hex_text \<equiv> radix_text 16"

definition int_text :: "int \<Rightarrow> bytes" where
  "int_text i = (if i < 0 then 0x2D # dec_text (nat (- i)) else dec_text (nat i))"

text \<open>\<open>{:0n}\<close>.\<close>

definition zero_pad :: "nat \<Rightarrow> bytes \<Rightarrow> bytes" where
  "zero_pad n s = replicate (n - length s) 0x30 @ s"

definition upper_text :: "bytes \<Rightarrow> bytes" where
  "upper_text = map (\<lambda>c. if 0x61 \<le> c \<and> c \<le> 0x7A then c - 0x20 else c)"

text \<open>Reading digits back.\<close>

definition digit_of_char :: "u8 \<Rightarrow> nat option" where
  "digit_of_char c =
     (if 0x30 \<le> c \<and> c \<le> 0x39 then Some (unat c - 0x30)
      else if 0x61 \<le> c \<and> c \<le> 0x7A then Some (unat c - 0x61 + 10)
      else if 0x41 \<le> c \<and> c \<le> 0x5A then Some (unat c - 0x41 + 10) else None)"

lemma digit_of_digit_char: "d < 36 \<Longrightarrow> digit_of_char (digit_char d) = Some d"
proof -
  assume d: "d < 36"
  have u: "unat (digit_char d) = (if d < 10 then 0x30 + d else 0x61 + (d - 10))"
    using d by (simp add: digit_char_def unat_word_ariths unat_of_nat)
  show ?thesis using d by (simp add: digit_of_char_def word_le_nat_alt u)
qed

definition digits_value :: "nat \<Rightarrow> bytes \<Rightarrow> nat" where
  "digits_value b = foldl (\<lambda>v c. v * b + the_default 0 (digit_of_char c)) 0"

lemma digits_value_append: "digits_value b (xs @ [c]) = digits_value b xs * b + the_default 0 (digit_of_char c)"
  by (simp add: digits_value_def)

lemma digits_value_of: "2 \<le> b \<Longrightarrow> b \<le> 36 \<Longrightarrow> digits_value b (digits_of b n) = n"
proof (induction b n rule: digits_of.induct)
  case (1 b n)
  show ?case
  proof (cases "n = 0")
    case True
    then show ?thesis by (simp add: digits_of.simps digits_value_def)
  next
    case False
    then have "digits_value b (digits_of b (n div b)) = n div b" using 1 by simp
    moreover have "n mod b < 36" using 1(2,3) mod_less_divisor [of b n] by linarith
    ultimately show ?thesis using False 1
      by (simp add: digits_of.simps [of b n] digits_value_append digit_of_digit_char)
  qed
qed

lemma digits_value_text: "2 \<le> b \<Longrightarrow> b \<le> 36 \<Longrightarrow> digits_value b (radix_text b n) = n"
  using digits_value_of [of b n] by (simp add: radix_text_def digits_value_def digit_of_char_def)

text \<open>Every character of a number is a digit of its base.\<close>

definition is_digit_in :: "nat \<Rightarrow> u8 \<Rightarrow> bool" where
  "is_digit_in b c = (case digit_of_char c of Some d \<Rightarrow> d < b | None \<Rightarrow> False)"

lemma digits_of_digits: "b \<le> 36 \<Longrightarrow> c \<in> set (digits_of b n) \<Longrightarrow> is_digit_in b c"
proof (induction b n rule: digits_of.induct)
  case (1 b n)
  have d: "is_digit_in b (digit_char (n mod b))" if "\<not> (n = 0 \<or> b < 2)"
    using that 1(2) by (simp add: is_digit_in_def digit_of_digit_char less_le_trans [of "n mod b" b])
  show ?case using 1 d by (cases "n = 0 \<or> b < 2") (auto simp: digits_of.simps [of b n])
qed

lemma text_digits: "2 \<le> b \<Longrightarrow> b \<le> 36 \<Longrightarrow> c \<in> set (radix_text b n) \<Longrightarrow> is_digit_in b c"
  by (cases "n = 0") (simp_all add: radix_text_def digits_of_digits, simp add: is_digit_in_def digit_of_char_def)

lemma radix_text_nonempty: "2 \<le> b \<Longrightarrow> radix_text b n \<noteq> []"
  by (simp add: radix_text_def digits_of.simps)

text \<open>The first digit of a number that is not zero is not zero.\<close>

lemma digits_of_hd: "2 \<le> b \<Longrightarrow> b \<le> 36 \<Longrightarrow> 0 < n \<Longrightarrow> hd (digits_of b n) \<noteq> 0x30"
proof (induction b n rule: digits_of.induct)
  case (1 b n)
  show ?case
  proof (cases "n div b = 0")
    case True
    then have "n < b" using 1(2) by (simp add: div_eq_0_iff)
    then have "digit_of_char (digit_char n) = Some n" using 1(3) by (simp add: digit_of_digit_char)
    then have "digit_char n \<noteq> 0x30" using 1(4) by (auto simp: digit_of_char_def)
    then show ?thesis using 1 True \<open>n < b\<close> by (simp add: digits_of.simps [of b n] digits_of.simps [of b 0])
  next
    case False
    then have "digits_of b (n div b) \<noteq> []" using 1(2) by (simp add: digits_of.simps [of b "n div b"])
    then show ?thesis using 1 False by (simp add: digits_of.simps [of b n])
  qed
qed

section \<open>Messages\<close>

definition of_ascii :: "bytes \<Rightarrow> string" where
  "of_ascii = map (\<lambda>b. char_of (unat b))"

definition is_cont :: "u8 \<Rightarrow> bool" where
  "is_cont c \<longleftrightarrow> 0x80 \<le> c \<and> c \<le> 0xBF"

text \<open>The bytes of the first character, and whether it is valid; an invalid one ends where it goes wrong.\<close>

definition second_ok :: "u8 \<Rightarrow> u8 \<Rightarrow> bool" where
  "second_ok a c \<longleftrightarrow>
     (if a = 0xE0 then 0xA0 \<le> c \<and> c \<le> 0xBF
      else if a = 0xED then 0x80 \<le> c \<and> c \<le> 0x9F
      else if a = 0xF0 then 0x90 \<le> c \<and> c \<le> 0xBF
      else if a = 0xF4 then 0x80 \<le> c \<and> c \<le> 0x8F
      else is_cont c)"

definition utf8_width :: "u8 \<Rightarrow> nat" where
  "utf8_width a =
     (if a < 0x80 then 1 else if 0xC2 \<le> a \<and> a \<le> 0xDF then 2 else if 0xE0 \<le> a \<and> a \<le> 0xEF then 3
      else if 0xF0 \<le> a \<and> a \<le> 0xF4 then 4 else 0)"

definition utf8_first :: "bytes \<Rightarrow> nat \<times> bool" where
  "utf8_first s =
     (case s of
        [] \<Rightarrow> (0, True)
      | a # r \<Rightarrow>
          (let w = utf8_width a
           in if w = 0 then (1, False)
              else if w = 1 then (1, True)
              else (case r of
                      [] \<Rightarrow> (1, False)
                    | b # r2 \<Rightarrow>
                        if \<not> second_ok a b then (1, False)
                        else let k = length (takeWhile is_cont (take (w - 2) r2))
                             in (2 + k, k = w - 2))))"

lemma utf8_first_pos: "s \<noteq> [] \<Longrightarrow> 0 < fst (utf8_first s)"
  by (cases s) (auto simp: utf8_first_def Let_def split: list.split)

function lossy_bytes :: "bytes \<Rightarrow> bytes" where
  "lossy_bytes s =
     (if s = [] then []
      else case utf8_first s of
             (n, good) \<Rightarrow> (if good then take n s else [0xEF, 0xBF, 0xBD]) @ lossy_bytes (drop n s))"
  by pat_completeness auto
termination by (relation "measure length") (simp_all, metis diff_less fst_conv length_greater_0_conv utf8_first_pos)

declare lossy_bytes.simps [simp del]

definition lossy :: "bytes \<Rightarrow> string" where
  "lossy s = of_ascii (lossy_bytes s)"

text \<open>Text that is plain is not changed.\<close>

lemma lossy_plain: "\<forall>c \<in> set s. c < 0x80 \<Longrightarrow> lossy_bytes s = s"
proof (induction s)
  case Nil
  then show ?case by (simp add: lossy_bytes.simps)
next
  case (Cons a s)
  then have "utf8_first (a # s) = (1, True)" by (simp add: utf8_first_def utf8_width_def)
  then show ?case using Cons by (subst lossy_bytes.simps) simp
qed

end
