(* ===== verification/HashTab.thy ===== *)
theory HashTab
  imports Std
begin

text \<open>
  Hash tables (\<open>src/stdlib/hash.rs\<close>): chained buckets with the newest entry last, numbered tables and the
  \<open>gamestate\<close> table, their storage charged against the container limit.  The shared rule for builtin errors that
  carry on (\<open>soft_error\<close> of \<open>src/stdlib/introspect.rs\<close>) is here too.  A builtin that calls QuakeC gets the
  machine's \<open>call\<close> as its argument \<open>K\<close>.
\<close>

section \<open>Errors that carry on\<close>

definition soft_error :: "string \<Rightarrow> builtin" where
  "soft_error msg c =
     (if g_developer (c_config c) then (ret_raw (0, 0, 0) (vm_warn msg c), None)
      else (c, Some (BuiltinError msg)))"

section \<open>Entries and tables\<close>

definition EV_STRING :: u32 where "EV_STRING = 1"
definition EV_VECTOR :: u32 where "EV_VECTOR = 3"
definition HASH_REPLACE :: u32 where "HASH_REPLACE = 256"
definition HASH_ADD :: u32 where "HASH_ADD = 512"
definition MAX_BUCKETS :: nat where "MAX_BUCKETS = 2 ^ 16"

text \<open>\<open>size_of::<Entry>()\<close> is 48.\<close>

definition entry_bytes :: "bytes \<Rightarrow> hvalue \<Rightarrow> nat" where
  "entry_bytes key v = 48 * 4 + length key + (case v of Text t \<Rightarrow> length t | Words _ \<Rightarrow> 0)"

definition hentry_bytes :: "hentry \<Rightarrow> nat" where
  "hentry_bytes e = entry_bytes (he_key e) (he_value e)"

definition table_new :: "nat \<Rightarrow> u32 \<Rightarrow> htable" where
  "table_new buckets ty =
     (let n = max buckets 1
      in \<lparr>ht_default = ty, ht_buckets = replicate n [], ht_bytes = n * BUCKET_BYTES\<rparr>)"

definition fnv1a :: "bytes \<Rightarrow> u32" where
  "fnv1a key = foldl (\<lambda>h b. (h XOR ucast b) * 0x01000193) 0x811C9DC5 key"

definition bucket_of :: "htable \<Rightarrow> bytes \<Rightarrow> nat" where
  "bucket_of t key = (if ht_buckets t = [] then 0 else unat (fnv1a key) mod length (ht_buckets t))"

definition table_matches :: "htable \<Rightarrow> bytes \<Rightarrow> (nat \<times> nat) list" where
  "table_matches t key =
     (let b = bucket_of t key; bucket = the_default [] (nth_opt (ht_buckets t) b)
      in map (\<lambda>i. (b, i)) (filter (\<lambda>i. he_key (bucket ! i) = key) (rev [0..<length bucket])))"

definition table_entry :: "htable \<Rightarrow> nat \<times> nat \<Rightarrow> hentry option" where
  "table_entry t at = (case at of (b, i) \<Rightarrow> Option.bind (nth_opt (ht_buckets t) b) (\<lambda>bucket. nth_opt bucket i))"

definition table_remove :: "nat \<times> nat \<Rightarrow> htable \<Rightarrow> htable \<times> hentry option" where
  "table_remove at t =
     (case at of (b, i) \<Rightarrow>
        (case Option.bind (nth_opt (ht_buckets t) b) (\<lambda>bucket. map_option (\<lambda>e. (bucket, e)) (nth_opt bucket i)) of
           None \<Rightarrow> (t, None)
         | Some (bucket, e) \<Rightarrow>
             (t\<lparr>ht_buckets := (ht_buckets t)[b := take i bucket @ drop (i + 1) bucket],
                ht_bytes := ht_bytes t - hentry_bytes e\<rparr>, Some e)))"

definition table_all :: "htable \<Rightarrow> hentry list" where
  "table_all t = concat (map rev (ht_buckets t))"

definition first_match :: "htable \<Rightarrow> bytes \<Rightarrow> (nat \<times> nat) option" where
  "first_match t key = (case table_matches t key of [] \<Rightarrow> None | at # _ \<Rightarrow> Some at)"

section \<open>The tables of a machine\<close>

text \<open>\<open>get_mut\<close> creates the \<open>gamestate\<close> table on first use.\<close>

definition table_index :: "u32 \<Rightarrow> nat option" where
  "table_index handle = (if handle = i32_min then None else usize_of_i32 (handle - 1))"

definition tables_get :: "u32 \<Rightarrow> tables \<Rightarrow> tables \<times> htable option" where
  "tables_get handle tb =
     (if handle = 0 then
        let t = (case tb_gamestate tb of Some t \<Rightarrow> t | None \<Rightarrow> table_new GAMESTATE_BUCKETS EV_STRING)
        in (tb\<lparr>tb_gamestate := Some t\<rparr>, Some t)
      else (tb, Option.bind (table_index handle) (\<lambda>i. Option.bind (nth_opt (tb_tables tb) i) (\<lambda>t. t))))"

definition tables_put :: "u32 \<Rightarrow> htable \<Rightarrow> tables \<Rightarrow> tables" where
  "tables_put handle t tb =
     (if handle = 0 then tb\<lparr>tb_gamestate := Some t\<rparr>
      else (case table_index handle of
              None \<Rightarrow> tb
            | Some i \<Rightarrow> tb\<lparr>tb_tables := (tb_tables tb)[i := Some t]\<rparr>))"

definition on_tables :: "(tables \<Rightarrow> tables) \<Rightarrow> score \<Rightarrow> score" where
  "on_tables f c = on_std (\<lambda>s. s\<lparr>ss_hash := f (ss_hash s)\<rparr>) c"

definition get_table :: "u32 \<Rightarrow> score \<Rightarrow> score \<times> htable option" where
  "get_table handle c =
     (case tables_get handle (ss_hash (c_std c)) of (tb, t) \<Rightarrow> (on_tables (\<lambda>_. tb) c, t))"

definition tables_live :: "tables \<Rightarrow> nat" where
  "tables_live tb = length (filter (\<lambda>t. t \<noteq> None) (tb_tables tb))"

definition table_arg :: "score \<Rightarrow> nat \<Rightarrow> score \<times> (error_kind + u32 option)" where
  "table_arg c i =
     (let handle = arg_int c i
      in case get_table handle c of
           (c, Some _) \<Rightarrow> (c, Inr (Some handle))
         | (c, None) \<Rightarrow>
             (case soft_error ''hash: invalid hash table'' c of
                (c, Some k) \<Rightarrow> (c, Inl k)
              | (c, None) \<Rightarrow> (c, Inr None)))"

definition ret_value :: "hvalue \<Rightarrow> builtin" where
  "ret_value v c = (case v of Text t \<Rightarrow> ret_str t c | Words w \<Rightarrow> ok (ret_raw w c))"

text \<open>The body of a builtin that needs a table: \<open>let Some(handle) = table_arg(vm, 0)? else \<dots>\<close>.\<close>

definition with_table :: "score \<Rightarrow> (u32 \<Rightarrow> builtin) \<Rightarrow> score \<times> error_kind option" where
  "with_table c body =
     (case table_arg c 0 of
        (c, Inl k) \<Rightarrow> (c, Some k)
      | (c, Inr None) \<Rightarrow> ok c
      | (c, Inr (Some handle)) \<Rightarrow> body handle c)"

section \<open>The builtins\<close>

definition createtab_table :: "'s core \<Rightarrow> htable" where
  "createtab_table c =
     (let sz = arg_int c 0;
          ty = (if 1 < argc c then arg_int c 1 else EV_VECTOR);
          ty = (if ty = 0 then EV_VECTOR else ty);
          buckets = (if sint sz < 4 then 64 else min (unat sz) MAX_BUCKETS)
      in table_new buckets ty)"

text \<open>Puts a table in the first free place; its handle is the second component.\<close>

definition place_table :: "htable \<Rightarrow> score \<Rightarrow> score \<times> nat" where
  "place_table t c =
     (let tbs = tb_tables (ss_hash (c_std c));
          n = length (takeWhile (\<lambda>t. t \<noteq> None) tbs);
          tbs' = (if n < length tbs then tbs[n := Some t] else tbs @ [Some t])
      in (on_tables (\<lambda>tb. tb\<lparr>tb_tables := tbs'\<rparr>) c, n + 1))"

definition hash_createtab :: builtin where
  "hash_createtab c =
     (if unat (l_hash_tables (g_limits (c_config c))) \<le> tables_live (ss_hash (c_std c)) then ok (ret_word 0 c)
      else
        let t = createtab_table c
        in (case charge (ht_bytes t) c of
              (c, False) \<Rightarrow>
                ok (ret_word 0 (vm_warn ''hash_createtab: out of memory for hash tables and string buffers'' c))
            | (c, True) \<Rightarrow> (case place_table t c of (c, handle) \<Rightarrow> ok (ret_word (f32_of_nat handle) c))))"

definition hash_destroytab :: builtin where
  "hash_destroytab c0 = with_table c0 (\<lambda>handle c.
     let freed = (if 0 < sint handle
                  then Option.bind (usize_of_i32 (handle - 1)) (\<lambda>i.
                         Option.bind (nth_opt (tb_tables (ss_hash (c_std c))) i) (map_option (\<lambda>t. (i, t))))
                  else None)
     in case freed of
          None \<Rightarrow> ok c
        | Some (i, t) \<Rightarrow>
            ok (release (ht_bytes t) (on_tables (\<lambda>tb. tb\<lparr>tb_tables := (tb_tables tb)[i := None]\<rparr>) c)))"

definition table_push :: "bytes \<Rightarrow> u32 \<Rightarrow> hvalue \<Rightarrow> htable \<Rightarrow> htable" where
  "table_push key ty v t =
     (let b = bucket_of t key
      in case nth_opt (ht_buckets t) b of
           None \<Rightarrow> t
         | Some bucket \<Rightarrow>
             t\<lparr>ht_buckets := (ht_buckets t)[b := bucket @ [\<lparr>he_key = key, he_ty = ty, he_value = v\<rparr>]],
               ht_bytes := ht_bytes t + entry_bytes key v\<rparr>)"

text \<open>Whether \<open>hash_add\<close> replaces the newest entry, and the type and value it stores.\<close>

definition add_replaces :: "'s core \<Rightarrow> bool" where
  "add_replaces c = (let flags = f2i (opt_f32 c 3 0) in flags AND HASH_ADD = 0 \<or> flags AND HASH_REPLACE \<noteq> 0)"

definition add_value :: "'s core \<Rightarrow> u32 \<Rightarrow> u32 \<times> hvalue" where
  "add_value c ty0 =
     (let flags = f2i (opt_f32 c 3 0); ty = (if flags AND 0xFF = 0 then ty0 else flags AND 0xFF)
      in (ty, if ty = EV_STRING then Text (arg_str c 2) else Words (arg_raw c 2)))"

definition hash_add :: builtin where
  "hash_add c0 = with_table c0 (\<lambda>handle c.
     let key = arg_str c 1
     in if key = [] then ok c
        else
          (case get_table handle c of
             (c, None) \<Rightarrow> ok c
           | (c, Some t) \<Rightarrow>
               let replaced = (if add_replaces c then first_match t key else None);
                   old = opt_bytes hentry_bytes (Option.bind replaced (table_entry t));
                   (ty, value) = add_value c (ht_default t)
               in (case recharge old (entry_bytes key value) c of
                     (c, False) \<Rightarrow> ok (vm_warn ''hash_add: out of memory for hash tables and string buffers'' c)
                   | (c, True) \<Rightarrow>
                       let t = (case replaced of Some at \<Rightarrow> fst (table_remove at t) | None \<Rightarrow> t)
                       in ok (on_tables (tables_put handle (table_push key ty value t)) c))))"

definition hash_get :: builtin where
  "hash_get c0 =
     (case table_arg c0 0 of
        (c, Inl k) \<Rightarrow> (c, Some k)
      | (c, Inr handle) \<Rightarrow>
          let d = (if 2 < argc c then arg_raw c 2 else (0, 0, 0));
              ty = f2i (opt_f32 c 3 0); index = f2i (opt_f32 c 4 0); key = arg_str c 1;
              (c, t) = (case handle of None \<Rightarrow> (c, None) | Some h \<Rightarrow> get_table h c);
              found = Option.bind t (\<lambda>t.
                let places = filter (\<lambda>at. ty = 0 \<or>
                       (case table_entry t at of Some e \<Rightarrow> he_ty e = ty | None \<Rightarrow> False)) (table_matches t key)
                in map_option he_value (Option.bind (nth_opt places (the_default 0 (usize_of_i32 index))) (table_entry t)))
          in (case found of Some v \<Rightarrow> ret_value v c | None \<Rightarrow> ok (ret_raw d c)))"

definition hash_delete :: builtin where
  "hash_delete c0 = with_table (ret_raw (0, 0, 0) c0) (\<lambda>handle c.
     let key = arg_str c 1
     in case get_table handle c of
          (c, None) \<Rightarrow> ok c
        | (c, Some t) \<Rightarrow>
            (case first_match t key of
               None \<Rightarrow> ok c
             | Some at \<Rightarrow>
                 (case table_remove at t of
                    (t, None) \<Rightarrow> ok c
                  | (t, Some e) \<Rightarrow>
                      ret_value (he_value e) (release (hentry_bytes e) (on_tables (tables_put handle t) c)))))"

definition hash_getkey :: builtin where
  "hash_getkey c0 = with_table (ret_raw (0, 0, 0) c0) (\<lambda>handle c.
     case usize_of_i32 (arg_int c 1) of
       None \<Rightarrow> ok c
     | Some i \<Rightarrow>
         (case get_table handle c of
            (c, t) \<Rightarrow>
              (case Option.bind t (\<lambda>t. nth_opt (table_all t) i) of
                 Some e \<Rightarrow> ret_str (he_key e) c
               | None \<Rightarrow> ok c)))"

definition hash_getcb :: "(u32 \<Rightarrow> arg list \<Rightarrow> (std_state, 'h, 'r) act) \<Rightarrow> (std_state, 'h, unit) act" where
  "hash_getcb K = (\<lambda>(v, h).
     case table_arg (v_core v) 0 of
       (c, Inl k) \<Rightarrow> Some ((v\<lparr>v_core := c\<rparr>, h), Failed (vm_error_new k))
     | (c, Inr None) \<Rightarrow> Some ((v\<lparr>v_core := c\<rparr>, h), Done ())
     | (c, Inr (Some handle)) \<Rightarrow>
         let callback = arg_word c 1;
             key = (if 2 < argc c then Some (arg_str c 2) else None);
             (c, t) = get_table handle c;
             snapshot = (case t of
                 Some t \<Rightarrow> filter (\<lambda>e. case key of None \<Rightarrow> True | Some k \<Rightarrow> k = he_key e) (table_all t)
               | None \<Rightarrow> [])
         in for_each (\<lambda>e. K callback
                [ArgBytes (he_key e), case he_value e of Text t \<Rightarrow> ArgBytes t | Words w \<Rightarrow> ArgRaw w])
              snapshot (v\<lparr>v_core := c\<rparr>, h))"

section \<open>Tables as maps\<close>

text \<open>What a table holds for a key, newest first: types and values.\<close>

definition the_bucket :: "htable \<Rightarrow> nat \<Rightarrow> hentry list" where
  "the_bucket t b = the_default [] (nth_opt (ht_buckets t) b)"

definition with_key :: "bytes \<Rightarrow> hentry list \<Rightarrow> (u32 \<times> hvalue) list" where
  "with_key key bucket = map (\<lambda>e. (he_ty e, he_value e)) (rev (filter (\<lambda>e. he_key e = key) bucket))"

definition table_view :: "htable \<Rightarrow> bytes \<Rightarrow> (u32 \<times> hvalue) list" where
  "table_view t key = with_key key (the_bucket t (bucket_of t key))"

definition table_ok :: "htable \<Rightarrow> bool" where
  "table_ok t \<longleftrightarrow> ht_buckets t \<noteq> [] \<and>
     ht_bytes t = length (ht_buckets t) * BUCKET_BYTES +
       sum_list (map (\<lambda>bucket. sum_list (map hentry_bytes bucket)) (ht_buckets t)) \<and>
     (\<forall>b < length (ht_buckets t). \<forall>e \<in> set (ht_buckets t ! b). bucket_of t (he_key e) = b)"

lemma bucket_of_less: "ht_buckets t \<noteq> [] \<Longrightarrow> bucket_of t key < length (ht_buckets t)"
  by (simp add: bucket_of_def)

lemma bucket_of_cong: "length (ht_buckets t) = length (ht_buckets u) \<Longrightarrow> bucket_of t = bucket_of u"
  by (auto simp: bucket_of_def fun_eq_iff)

lemma the_bucket_nth: "b < length (ht_buckets t) \<Longrightarrow> the_bucket t b = ht_buckets t ! b"
  by (simp add: the_bucket_def the_default_def nth_opt_def)

lemma table_new_ok: "table_ok (table_new n ty)"
  by (auto simp: table_ok_def table_new_def Let_def sum_list_replicate)

lemma with_key_append: "with_key key (xs @ ys) = with_key key ys @ with_key key xs"
  by (simp add: with_key_def)

text \<open>The places of a key lead to its entries, newest first.\<close>

lemma matches_entries:
  "map (table_entry t) (table_matches t key) =
    map Some (rev (filter (\<lambda>e. he_key e = key) (the_bucket t (bucket_of t key))))"
proof (cases "bucket_of t key < length (ht_buckets t)")
  case True
  let ?bk = "ht_buckets t ! bucket_of t key"
  have e: "table_entry t (bucket_of t key, i) = Some (?bk ! i)" if "i < length ?bk" for i
    using True that by (simp add: table_entry_def nth_opt_def)
  have "map (\<lambda>i. ?bk ! i) (filter (\<lambda>i. he_key (?bk ! i) = key) [0..<length ?bk]) = filter (\<lambda>e. he_key e = key) ?bk"
    using filter_map [of "\<lambda>e. he_key e = key" "(!) ?bk" "[0..<length ?bk]"] by (simp add: map_nth comp_def)
  then have "map (\<lambda>i. ?bk ! i) (filter (\<lambda>i. he_key (?bk ! i) = key) (rev [0..<length ?bk])) =
      rev (filter (\<lambda>e. he_key e = key) ?bk)"
    by (simp add: rev_filter [symmetric] rev_map [symmetric])
  moreover have "the_bucket t (bucket_of t key) = ?bk" using True by (rule the_bucket_nth)
  moreover have "table_matches t key = map (\<lambda>i. (bucket_of t key, i)) (filter (\<lambda>i. he_key (?bk ! i) = key) (rev [0..<length ?bk]))"
    using True by (simp add: table_matches_def Let_def nth_opt_def the_default_def)
  moreover have "map (table_entry t) (map (\<lambda>i. (bucket_of t key, i)) (filter (\<lambda>i. he_key (?bk ! i) = key) (rev [0..<length ?bk]))) =
      map Some (map (\<lambda>i. ?bk ! i) (filter (\<lambda>i. he_key (?bk ! i) = key) (rev [0..<length ?bk])))"
    using e by simp
  ultimately show ?thesis by simp
qed (simp add: table_matches_def Let_def the_bucket_def nth_opt_def the_default_def)

lemma first_match_None: "first_match t key = None \<longleftrightarrow> table_view t key = []"
  using matches_entries [of t key] by (auto simp: first_match_def table_view_def with_key_def split: list.splits)

text \<open>The newest entry of a key and what is left without it.\<close>

lemma first_match_Some:
  assumes "first_match t key = Some at"
  shows "\<exists>i bk. at = (bucket_of t key, i) \<and> nth_opt (ht_buckets t) (bucket_of t key) = Some bk \<and> i < length bk \<and>
    he_key (bk ! i) = key \<and> table_entry t at = Some (bk ! i) \<and>
    (\<forall>k. with_key k (take i bk @ drop (i + 1) bk) = (if k = key then tl (with_key k bk) else with_key k bk)) \<and>
    with_key key bk = (he_ty (bk ! i), he_value (bk ! i)) # tl (with_key key bk)"
proof -
  obtain rest where m: "table_matches t key = at # rest"
    using assms by (auto simp: first_match_def split: list.splits)
  then obtain bk where b: "nth_opt (ht_buckets t) (bucket_of t key) = Some bk"
    by (cases "nth_opt (ht_buckets t) (bucket_of t key)") (auto simp: table_matches_def Let_def the_default_def)
  then have f: "filter (\<lambda>i. he_key (bk ! i) = key) (rev [0..<length bk]) = snd at # map snd rest" "fst at = bucket_of t key"
    using m by (auto simp: table_matches_def Let_def the_default_def map_eq_Cons_conv comp_def)
  define i where "i = snd at"
  have i: "i < length bk" "he_key (bk ! i) = key"
    using arg_cong [OF f(1), of set] by (auto simp: i_def)
  have after: "he_key (bk ! j) \<noteq> key" if "i < j" "j < length bk" for j
  proof
    assume "he_key (bk ! j) = key"
    then have "j \<in> set (snd at # map snd rest)" using that(2) by (simp add: f(1) [symmetric])
    moreover have "sorted_wrt (>) (snd at # map snd rest)"
      by (simp add: f(1) [symmetric] sorted_wrt_filter sorted_wrt_rev)
    ultimately show False using that(1) by (auto simp: i_def)
  qed
  have none: "filter (\<lambda>e. he_key e = key) (drop (i + 1) bk) = []"
  proof -
    have "he_key (drop (i + 1) bk ! n) \<noteq> key" if "n < length (drop (i + 1) bk)" for n
      using after [of "i + 1 + n"] that by simp
    then show ?thesis by (metis (mono_tags, lifting) filter_False in_set_conv_nth)
  qed
  have split: "bk = take i bk @ [bk ! i] @ drop (i + 1) bk" using i(1) by (simp add: id_take_nth_drop)
  have "with_key k bk = with_key k (drop (i + 1) bk) @ with_key k [bk ! i] @ with_key k (take i bk)" for k
    by (subst split) (simp only: with_key_append append_assoc)
  moreover have "with_key key (drop (i + 1) bk) = []" using none by (simp add: with_key_def)
  ultimately have wk: "with_key k (take i bk @ drop (i + 1) bk) = (if k = key then tl (with_key k bk) else with_key k bk)"
    "with_key key bk = (he_ty (bk ! i), he_value (bk ! i)) # tl (with_key key bk)" for k
    using i(2) by (auto simp: with_key_append with_key_def [of k "[bk ! i]"] with_key_def [of key "[bk ! i]"])
  have at: "at = (bucket_of t key, i)" using f(2) by (simp add: i_def prod_eq_iff)
  moreover have "table_entry t at = Some (bk ! i)" using b i(1) by (simp add: at table_entry_def nth_opt_def [of bk])
  ultimately show ?thesis using b i wk by blast
qed

lemma table_remove_first:
  assumes ok: "table_ok t" and m: "first_match t key = Some at"
  obtains t' e where "table_remove at t = (t', Some e)" "table_entry t at = Some e" "he_key e = key" "table_ok t'"
    "ht_default t' = ht_default t" "ht_bytes t' + hentry_bytes e = ht_bytes t"
    "\<forall>k. table_view t' k = (if k = key then tl (table_view t k) else table_view t k)"
    "table_view t key = (he_ty e, he_value e) # tl (table_view t key)"
proof -
  let ?b = "bucket_of t key"
  from first_match_Some [OF m] obtain i bk where
    at: "at = (?b, i)" and bk: "nth_opt (ht_buckets t) ?b = Some bk" and i: "i < length bk" "he_key (bk ! i) = key"
    and te: "table_entry t at = Some (bk ! i)"
    and wk: "\<And>k. with_key k (take i bk @ drop (i + 1) bk) = (if k = key then tl (with_key k bk) else with_key k bk)"
      "with_key key bk = (he_ty (bk ! i), he_value (bk ! i)) # tl (with_key key bk)"
    by blast
  let ?bk' = "take i bk @ drop (i + 1) bk"
  define t' where "t' = t\<lparr>ht_buckets := (ht_buckets t)[?b := ?bk'], ht_bytes := ht_bytes t - hentry_bytes (bk ! i)\<rparr>"
  have b: "?b < length (ht_buckets t)" "ht_buckets t ! ?b = bk" using bk by (simp_all add: nth_opt_Some)
  have r: "table_remove at t = (t', Some (bk ! i))"
    using bk i by (simp add: table_remove_def at t'_def nth_opt_def [of bk])
  have same: "bucket_of t' = bucket_of t" by (rule bucket_of_cong) (simp add: t'_def)
  have bkt: "the_bucket t' k = (if k = ?b then ?bk' else the_bucket t k)" for k
    using b by (simp add: the_bucket_def t'_def nth_opt_update)
  have view: "table_view t' k = (if k = key then tl (table_view t k) else table_view t k)" for k
  proof (cases "bucket_of t k = ?b")
    case True
    have "table_view t' k = with_key k ?bk'" "table_view t k = with_key k bk"
      using b by (simp_all add: table_view_def same bkt True the_bucket_nth)
    then show ?thesis by (simp only: wk(1))
  next
    case False
    then show ?thesis by (auto simp: table_view_def same bkt)
  qed
  have "bk = take i bk @ [bk ! i] @ drop (i + 1) bk" using i(1) by (simp add: id_take_nth_drop)
  then have "sum_list (map hentry_bytes bk) = sum_list (map hentry_bytes (take i bk @ [bk ! i] @ drop (i + 1) bk))"
    by (rule arg_cong)
  then have "sum_list (map hentry_bytes bk) = sum_list (map hentry_bytes ?bk') + hentry_bytes (bk ! i)"
    by simp
  then have bytes: "ht_bytes t' + hentry_bytes (bk ! i) = ht_bytes t"
    "ht_bytes t' = length (ht_buckets t') * BUCKET_BYTES + sum_list (map (\<lambda>bucket. sum_list (map hentry_bytes bucket)) (ht_buckets t'))"
    using sum_list_put [OF b(1), of "\<lambda>bucket. sum_list (map hentry_bytes bucket)" ?bk'] ok b(2)
    by (simp_all add: table_ok_def t'_def)
  have "\<forall>k < length (ht_buckets t'). \<forall>e \<in> set (ht_buckets t' ! k). bucket_of t' (he_key e) = k"
    using ok b unfolding same
    by (auto simp: table_ok_def t'_def nth_list_update dest: in_set_takeD in_set_dropD split: if_splits)
  then have "table_ok t'" using bytes(2) ok by (simp add: table_ok_def t'_def)
  then show ?thesis
    using that [OF r te i(2) _ _ bytes(1)] view wk(2) b by (simp add: t'_def table_view_def the_bucket_nth)
qed

lemma table_push_keeps:
  assumes ok: "table_ok t"
  shows "table_ok (table_push key ty v t)" "ht_bytes (table_push key ty v t) = ht_bytes t + entry_bytes key v"
    "table_view (table_push key ty v t) k = (if k = key then (ty, v) # table_view t k else table_view t k)"
proof -
  let ?b = "bucket_of t key" and ?e = "\<lparr>he_key = key, he_ty = ty, he_value = v\<rparr>"
  have b: "?b < length (ht_buckets t)" using ok bucket_of_less by (simp add: table_ok_def)
  let ?bk = "ht_buckets t ! ?b"
  define t' where "t' = t\<lparr>ht_buckets := (ht_buckets t)[?b := ?bk @ [?e]], ht_bytes := ht_bytes t + entry_bytes key v\<rparr>"
  have p: "table_push key ty v t = t'" using b by (simp add: table_push_def t'_def nth_opt_def Let_def)
  have same: "bucket_of t' = bucket_of t" by (rule bucket_of_cong) (simp add: t'_def)
  have bkt: "the_bucket t' k = (if k = ?b then ?bk @ [?e] else the_bucket t k)" for k
    using b by (simp add: the_bucket_def t'_def nth_opt_update)
  show "table_view (table_push key ty v t) k = (if k = key then (ty, v) # table_view t k else table_view t k)"
    using b by (auto simp: p table_view_def same bkt the_bucket_nth with_key_def)
  show bytes: "ht_bytes (table_push key ty v t) = ht_bytes t + entry_bytes key v" by (simp add: p t'_def)
  have "\<forall>k < length (ht_buckets t'). \<forall>e \<in> set (ht_buckets t' ! k). bucket_of t' (he_key e) = k"
    using ok b unfolding same by (auto simp: table_ok_def t'_def nth_list_update split: if_splits)
  moreover have "ht_bytes t' = length (ht_buckets t') * BUCKET_BYTES +
      sum_list (map (\<lambda>bucket. sum_list (map hentry_bytes bucket)) (ht_buckets t'))"
    using sum_list_put [OF b, of "\<lambda>bucket. sum_list (map hentry_bytes bucket)" "?bk @ [?e]"] ok
    by (simp add: table_ok_def t'_def hentry_bytes_def)
  ultimately show "table_ok (table_push key ty v t)" using ok by (simp add: p table_ok_def t'_def)
qed

section \<open>The tables and their storage\<close>

definition tables_ok :: "tables \<Rightarrow> bool" where
  "tables_ok tb \<longleftrightarrow> (\<forall>t. Some t \<in> set (tb_tables tb) \<longrightarrow> table_ok t) \<and>
     (\<forall>g. tb_gamestate tb = Some g \<longrightarrow> table_ok g \<and> length (ht_buckets g) = GAMESTATE_BUCKETS)"

definition tables_inv :: "score \<Rightarrow> bool" where
  "tables_inv c \<longleftrightarrow> accounted c \<and> tables_ok (ss_hash (c_std c))"

text \<open>The entries of table \<open>handle\<close> for a key, newest first.\<close>

definition hview :: "score \<Rightarrow> u32 \<Rightarrow> bytes \<Rightarrow> (u32 \<times> hvalue) list" where
  "hview c handle key = (case snd (tables_get handle (ss_hash (c_std c))) of None \<Rightarrow> [] | Some t \<Rightarrow> table_view t key)"

definition share_of :: "u32 \<Rightarrow> htable \<Rightarrow> nat" where
  "share_of handle t = (if handle = 0 then ht_bytes t - GAMESTATE_BUCKETS * BUCKET_BYTES else ht_bytes t)"

lemma tables_get_again: "tables_get h (fst (tables_get h tb)) = (fst (tables_get h tb), snd (tables_get h tb))"
  by (simp add: tables_get_def Let_def)

lemma tables_get_view [simp]: "snd (tables_get h (fst (tables_get g tb))) = snd (tables_get h tb)"
  by (cases "tb_gamestate tb") (simp_all add: tables_get_def Let_def)

lemma tables_get_ok:
  assumes "tables_ok tb"
  shows "tables_ok (fst (tables_get h tb))" "tables_bytes (fst (tables_get h tb)) = tables_bytes tb"
  using assms table_new_ok [of GAMESTATE_BUCKETS EV_STRING]
  by (auto simp: tables_get_def Let_def tables_ok_def tables_bytes_def table_new_def GAMESTATE_BUCKETS_def split: option.split)

lemma tables_get_Some:
  assumes "tables_ok tb" "tables_get h tb = (tb', Some t)"
  shows "table_ok t" "h = 0 \<Longrightarrow> length (ht_buckets t) = GAMESTATE_BUCKETS \<and> tb_gamestate tb' = Some t"
    "h \<noteq> 0 \<Longrightarrow> tb' = tb \<and> (\<exists>i. table_index h = Some i \<and> i < length (tb_tables tb) \<and> tb_tables tb ! i = Some t)"
proof -
  have "Some t \<in> set (tb_tables tb)" if "nth_opt (tb_tables tb) i = Some (Some t)" for i
    using that by (metis nth_mem nth_opt_Some)
  then show "table_ok t"
    using assms table_new_ok [of GAMESTATE_BUCKETS EV_STRING]
    by (auto simp: tables_get_def tables_ok_def Let_def split: if_splits option.splits bind_splits)
  show "h = 0 \<Longrightarrow> length (ht_buckets t) = GAMESTATE_BUCKETS \<and> tb_gamestate tb' = Some t"
    using assms by (auto simp: tables_get_def tables_ok_def Let_def table_new_def GAMESTATE_BUCKETS_def split: option.splits)
  show "h \<noteq> 0 \<Longrightarrow> tb' = tb \<and> (\<exists>i. table_index h = Some i \<and> i < length (tb_tables tb) \<and> tb_tables tb ! i = Some t)"
    using assms(2) by (auto simp: tables_get_def nth_opt_Some split: bind_splits)
qed

lemma tables_index_inj: "table_index h = Some i \<Longrightarrow> table_index g = Some i \<Longrightarrow> h = g"
  by (auto simp: table_index_def usize_of_i32_def word_unat_eq_iff [symmetric] split: if_splits)

text \<open>Replacing a table that is there.\<close>

lemma tables_put_keeps:
  assumes ok: "tables_ok tb" and g: "tables_get h tb = (tb, Some t)"
    and t': "table_ok t'" "length (ht_buckets t') = length (ht_buckets t)"
  shows "tables_ok (tables_put h t' tb)" "tables_bytes (tables_put h t' tb) + share_of h t = tables_bytes tb + share_of h t'"
    "snd (tables_get k (tables_put h t' tb)) = (if k = h then Some t' else snd (tables_get k tb))"
proof -
  have zero: "h = 0 \<Longrightarrow> length (ht_buckets t) = GAMESTATE_BUCKETS \<and> tb_gamestate tb = Some t"
    using tables_get_Some(2) [OF ok g] .
  have other: "\<exists>i. table_index h = Some i \<and> i < length (tb_tables tb) \<and> tb_tables tb ! i = Some t" if "h \<noteq> 0"
    using tables_get_Some(3) [OF ok g that] by blast
  show "tables_ok (tables_put h t' tb)"
    using ok t' zero other set_update_subset_insert [of "tb_tables tb"]
    by (auto simp: tables_put_def tables_ok_def split: option.split)
  show "tables_bytes (tables_put h t' tb) + share_of h t = tables_bytes tb + share_of h t'"
  proof (cases "h = 0")
    case True
    then show ?thesis using zero by (simp add: tables_put_def tables_bytes_def share_of_def)
  next
    case False
    then obtain i where i: "table_index h = Some i" "i < length (tb_tables tb)" "tb_tables tb ! i = Some t" using other by blast
    then show ?thesis
      using sum_list_update_opt [OF i(2), of ht_bytes "Some t'"] False
      by (simp add: tables_put_def tables_bytes_def share_of_def)
  qed
  show "snd (tables_get k (tables_put h t' tb)) = (if k = h then Some t' else snd (tables_get k tb))"
  proof (cases "h = 0")
    case True
    then show ?thesis by (auto simp: tables_put_def tables_get_def Let_def)
  next
    case False
    then obtain i where i: "table_index h = Some i" "i < length (tb_tables tb)" using other by blast
    have "table_index k = Some i \<longleftrightarrow> k = h" using i(1) tables_index_inj by blast
    then show ?thesis
      using i False by (cases "table_index k") (auto simp: tables_put_def tables_get_def Let_def nth_opt_update split: option.splits)
  qed
qed

lemma share_of_ok:
  "table_ok t \<Longrightarrow> (h = 0 \<Longrightarrow> length (ht_buckets t) = GAMESTATE_BUCKETS) \<Longrightarrow>
    h = 0 \<Longrightarrow> GAMESTATE_BUCKETS * BUCKET_BYTES \<le> ht_bytes t"
  by (simp add: table_ok_def)

lemma on_tables_simps [simp]: "c_config (on_tables f c) = c_config c" "ss_hash (c_std (on_tables f c)) = f (ss_hash (c_std c))"
  "ss_container (c_std (on_tables f c)) = ss_container (c_std c)"
  by (simp_all add: on_tables_def)

lemma tables_inv_std [simp]: "tables_inv (vm_warn s c) = tables_inv c" "tables_inv (ret_word x c) = tables_inv c"
  "tables_inv (ret_raw w c) = tables_inv c" "tables_inv (fst (ret_str bs c)) = tables_inv c"
  by (simp_all add: tables_inv_def)

lemma hview_std [simp]: "hview (vm_warn s c) = hview c" "hview (ret_word x c) = hview c" "hview (ret_raw w c) = hview c"
  "hview (fst (ret_str bs c)) = hview c" "hview (release n c) = hview c"
  by (simp_all add: hview_def [abs_def] release_def)

lemma get_table_inv:
  assumes "tables_inv c" "get_table h c = (d, t)"
  shows "tables_inv d" "hview d = hview c" "c_config d = c_config c" "ss_container (c_std d) = ss_container (c_std c)"
    "tables_get h (ss_hash (c_std d)) = (ss_hash (c_std d), t)" "t = snd (tables_get h (ss_hash (c_std c)))"
proof -
  have d: "d = on_tables (\<lambda>_. fst (tables_get h (ss_hash (c_std c)))) c" "t = snd (tables_get h (ss_hash (c_std c)))"
    using assms(2) by (auto simp: get_table_def split: prod.splits)
  have "accounted d"
    unfolding d(1) on_tables_def
    by (rule table_share.untouched) (use assms(1) tables_get_ok(2) in \<open>simp_all add: tables_inv_def\<close>)
  then show "tables_inv d" using assms(1) tables_get_ok(1) by (simp add: tables_inv_def d)
  show "hview d = hview c" by (simp add: hview_def [abs_def] d)
  show "tables_get h (ss_hash (c_std d)) = (ss_hash (c_std d), t)" using tables_get_again by (simp add: d)
qed (use assms(2) in \<open>auto simp: get_table_def split: prod.splits\<close>)

lemma recharge_hash: "recharge old new c = (d, r) \<Longrightarrow> ss_hash (c_std d) = ss_hash (c_std c) \<and>
    ss_tokens (c_std d) = ss_tokens (c_std c) \<and> ss_bufs (c_std d) = ss_bufs (c_std c) \<and> c_config d = c_config c"
  by (auto simp: recharge_def charge_def release_def Let_def split: if_splits)

text \<open>A table is replaced and the difference has been charged.\<close>

lemma put_charged:
  assumes inv: "tables_inv c" and g: "tables_get h (ss_hash (c_std c)) = (ss_hash (c_std c), Some t)"
    and r: "recharge old new c = (d, True)" and t': "table_ok t'" "length (ht_buckets t') = length (ht_buckets t)"
    and b: "ht_bytes t' + old = ht_bytes t + new" and old: "old + length (ht_buckets t) * BUCKET_BYTES \<le> ht_bytes t"
  shows "tables_inv (on_tables (tables_put h t') d)"
    "hview (on_tables (tables_put h t') d) = (hview c)(h := table_view t')"
proof -
  note same = recharge_hash [OF r]
  have ok: "tables_ok (ss_hash (c_std c))" "accounted c" using inv by (simp_all add: tables_inv_def)
  note put = tables_put_keeps [OF ok(1) g t']
  have t: "h = 0 \<Longrightarrow> length (ht_buckets t) = GAMESTATE_BUCKETS" using tables_get_Some(2) [OF ok(1) g] by blast
  have share: "share_of h t' + old = share_of h t + new" "old \<le> share_of h t"
    using b old t t'(1,2) by (auto simp: share_of_def table_ok_def)
  have "share_of h t \<le> tables_bytes (ss_hash (c_std c))"
  proof (cases "h = 0")
    case True
    then show ?thesis using tables_get_Some(2) [OF ok(1) g] by (simp add: tables_bytes_def share_of_def)
  next
    case False
    then obtain i where "i < length (tb_tables (ss_hash (c_std c)))" "tb_tables (ss_hash (c_std c)) ! i = Some t"
      using tables_get_Some(3) [OF ok(1) g] by blast
    then show ?thesis
      using sum_list_update_opt [of i "tb_tables (ss_hash (c_std c))" ht_bytes None] False
      by (simp add: tables_bytes_def share_of_def)
  qed
  then have le: "old \<le> tables_bytes (ss_hash (c_std c))" using share(2) by simp
  have "accounted (on_tables (tables_put h t') d)"
    unfolding on_tables_def
    by (rule table_share.recharged [OF ok(2) r le]) (use put(2) share same in simp_all)
  then show "tables_inv (on_tables (tables_put h t') d)" using put(1) same by (simp add: tables_inv_def)
  show "hview (on_tables (tables_put h t') d) = (hview c)(h := table_view t')"
    using put(3) same by (auto simp: hview_def fun_eq_iff)
qed

section \<open>What the builtins do\<close>

lemma get_table_on_std: "get_table h c = (d, t) \<Longrightarrow> \<exists>f. d = on_std f c"
  by (auto simp: get_table_def on_tables_def split: prod.splits)

lemma table_arg_ok:
  assumes inv: "tables_inv c" and t: "snd (tables_get (arg_int c i) (ss_hash (c_std c))) = Some t"
  obtains d f where "table_arg c i = (d, Inr (Some (arg_int c i)))" "d = on_std f c" "tables_inv d" "hview d = hview c"
    "c_config d = c_config c" "ss_container (c_std d) = ss_container (c_std c)"
    "get_table (arg_int c i) d = (d, Some t)" "tables_get (arg_int c i) (ss_hash (c_std d)) = (ss_hash (c_std d), Some t)"
proof -
  let ?h = "arg_int c i"
  obtain d where g: "get_table ?h c = (d, Some t)" using t by (cases "get_table ?h c") (auto simp: get_table_def split: prod.splits)
  note d = get_table_inv [OF inv g]
  obtain f where f: "d = on_std f c" using get_table_on_std [OF g] by blast
  have "get_table ?h d = (d, Some t)" using d(5) by (simp add: get_table_def on_tables_def on_std_def)
  moreover have "table_arg c i = (d, Inr (Some ?h))" using g by (simp add: table_arg_def Let_def)
  ultimately show ?thesis using that [of d f] d f by simp
qed

text \<open>A builtin that finds its table.\<close>

lemma with_table_found:
  "table_arg c 0 = (d, Inr (Some h)) \<Longrightarrow> with_table c body = body h d"
  by (simp add: with_table_def)

lemma first_match_bytes:
  assumes "table_ok t" "first_match t key = Some at"
  shows "opt_bytes hentry_bytes (table_entry t at) = entry_bytes key (snd (hd (table_view t key)))"
proof (rule table_remove_first [OF assms])
  fix t' e
  assume e: "table_entry t at = Some e" "he_key e = key" "table_view t key = (he_ty e, he_value e) # tl (table_view t key)"
  have "hd (table_view t key) = (he_ty e, he_value e)" by (subst e(3)) simp
  then show ?thesis using e(1,2) by (simp add: hentry_bytes_def)
qed

lemma recharge_result:
  assumes "accounted c"
  shows "snd (recharge old new c) \<longleftrightarrow>
    ss_container (c_std c) + new \<le> l_container_bytes (g_limits (c_config c)) + old"
  using assms by (auto simp: recharge_def charge_def Let_def accounted_def)

lemma hash_add_effect:
  assumes inv: "tables_inv c" and t: "snd (tables_get (arg_int c 0) (ss_hash (c_std c))) = Some t"
    and key: "arg_str c 1 \<noteq> []"
  shows "tables_inv (fst (hash_add c)) \<and> snd (hash_add c) = None \<and>
    hview (fst (hash_add c)) =
      (let h = arg_int c 0; key = arg_str c 1; new = add_value c (ht_default t); now = hview c h key;
           old = (if add_replaces c \<and> now \<noteq> [] then entry_bytes key (snd (hd now)) else 0)
       in if ss_container (c_std c) + entry_bytes key (snd new) \<le> l_container_bytes (g_limits (c_config c)) + old
          then (hview c)(h := (hview c h)(key := new # (if add_replaces c then tl now else now)))
          else hview c)"
proof -
  let ?h = "arg_int c 0" and ?key = "arg_str c 1" and ?new = "add_value c (ht_default t)"
  obtain d f where d: "table_arg c 0 = (d, Inr (Some ?h))" "d = on_std f c" "tables_inv d" "hview d = hview c"
    "c_config d = c_config c" "ss_container (c_std d) = ss_container (c_std c)"
    "get_table ?h d = (d, Some t)" "tables_get ?h (ss_hash (c_std d)) = (ss_hash (c_std d), Some t)"
    using table_arg_ok [OF inv t] by metis
  have ok: "table_ok t" using tables_get_Some(1) [OF _ d(8)] d(3) by (simp add: tables_inv_def)
  have view: "hview c ?h = table_view t" by (rule ext) (simp add: hview_def t)
  define rep where "rep = (if add_replaces c then first_match t ?key else None)"
  define old where "old = opt_bytes hentry_bytes (Option.bind rep (table_entry t))"
  define rest where "rest = (case rep of Some at \<Rightarrow> fst (table_remove at t) | None \<Rightarrow> t)"
  have rest: "table_ok rest" "length (ht_buckets rest) = length (ht_buckets t)" "ht_bytes rest + old = ht_bytes t"
    "table_view rest = (table_view t)(?key := if add_replaces c then tl (table_view t ?key) else table_view t ?key)"
    "old = (if add_replaces c \<and> table_view t ?key \<noteq> [] then entry_bytes ?key (snd (hd (table_view t ?key))) else 0)"
  proof -
    have "table_ok rest \<and> length (ht_buckets rest) = length (ht_buckets t) \<and> ht_bytes rest + old = ht_bytes t \<and>
      table_view rest = (table_view t)(?key := if add_replaces c then tl (table_view t ?key) else table_view t ?key) \<and>
      old = (if add_replaces c \<and> table_view t ?key \<noteq> [] then entry_bytes ?key (snd (hd (table_view t ?key))) else 0)"
    proof (cases rep)
      case None
      then have "add_replaces c \<Longrightarrow> table_view t ?key = []"
        using first_match_None by (auto simp: rep_def)
      then show ?thesis using None ok by (auto simp: rest_def old_def)
    next
      case (Some at)
      then have a: "add_replaces c" "first_match t ?key = Some at" by (auto simp: rep_def split: if_splits)
      obtain t' e where
        e: "table_remove at t = (t', Some e)" "table_entry t at = Some e" "he_key e = ?key" "table_ok t'"
          "ht_default t' = ht_default t" "ht_bytes t' + hentry_bytes e = ht_bytes t"
          "\<forall>k. table_view t' k = (if k = ?key then tl (table_view t k) else table_view t k)"
          "table_view t ?key = (he_ty e, he_value e) # tl (table_view t ?key)"
        by (rule table_remove_first [OF ok a(2)])
      have "length (ht_buckets t') = length (ht_buckets t)"
        using e(1) by (auto simp: table_remove_def split: prod.splits option.splits)
      moreover have "hd (table_view t ?key) = (he_ty e, he_value e)" "table_view t ?key \<noteq> []"
        by (subst e(8), simp)+
      moreover have "rest = t'" "old = hentry_bytes e" using Some e(1,2) by (simp_all add: rest_def old_def)
      moreover have "table_view t' = (table_view t)(?key := tl (table_view t ?key))" by (rule ext) (simp add: e(7))
      moreover have "hentry_bytes e = entry_bytes ?key (he_value e)" by (simp add: hentry_bytes_def e(3))
      ultimately show ?thesis using e(4,6) a(1) by simp
    qed
    then show "table_ok rest" "length (ht_buckets rest) = length (ht_buckets t)" "ht_bytes rest + old = ht_bytes t"
      "table_view rest = (table_view t)(?key := if add_replaces c then tl (table_view t ?key) else table_view t ?key)"
      "old = (if add_replaces c \<and> table_view t ?key \<noteq> [] then entry_bytes ?key (snd (hd (table_view t ?key))) else 0)"
      by blast+
  qed
  define new where "new = table_push ?key (fst ?new) (snd ?new) rest"
  note push = table_push_keeps [OF rest(1), where key = ?key and ty = "fst ?new" and v = "snd ?new"]
  have newlen: "length (ht_buckets new) = length (ht_buckets t)"
    using rest(2) by (simp add: new_def table_push_def Let_def split: option.split)
  obtain e r where r: "recharge old (entry_bytes ?key (snd ?new)) d = (e, r)" by fastforce
  have add: "hash_add c = ok (if r then on_tables (tables_put ?h new) e
      else vm_warn ''hash_add: out of memory for hash tables and string buffers'' e)"
  proof -
    have a: "arg_str d 1 = ?key" "add_replaces d = add_replaces c" "add_value d = add_value c"
      by (simp_all add: d(2) add_replaces_def add_value_def [abs_def] Let_def cong del: if_weak_cong)
    show ?thesis
      unfolding hash_add_def with_table_found [OF d(1)] Let_def d(7) prod.case option.case a
      using key r by (cases r) (simp_all add: new_def rest_def old_def rep_def case_prod_unfold)
  qed
  have fits: "r \<longleftrightarrow> ss_container (c_std c) + entry_bytes ?key (snd ?new) \<le> l_container_bytes (g_limits (c_config c)) + old"
    using recharge_result [of d old "entry_bytes ?key (snd ?new)"] d(3,5,6) r by (simp add: tables_inv_def)
  show ?thesis
  proof (cases r)
    case True
    then have r': "recharge old (entry_bytes ?key (snd ?new)) d = (e, True)" using r by simp
    have le: "old + length (ht_buckets t) * BUCKET_BYTES \<le> ht_bytes t"
      using rest(1-3) by (auto simp: table_ok_def)
    have tv: "table_view new = (table_view t)(?key := ?new # (if add_replaces c then tl (table_view t ?key) else table_view t ?key))"
      unfolding new_def by (rule ext) (simp add: push(3) rest(4) del: One_nat_def)
    have "ht_bytes new + old = ht_bytes t + entry_bytes ?key (snd ?new)" using push(2) rest(3) by (simp add: new_def)
    from put_charged [OF d(3,8) r' push(1) [folded new_def] newlen this le] show ?thesis
      unfolding Let_def view rest(5) [symmetric] add using True fits d(4) by (simp add: tv)
  next
    case False
    then have "e = d" using r table_share.refused [of old _ d e] by simp
    then show ?thesis unfolding Let_def view rest(5) [symmetric] add using False fits d(3,4) by simp
  qed
qed

text \<open>Looking up by type and index.\<close>

lemma nth_opt_map: "nth_opt (map f xs) i = map_option f (nth_opt xs i)"
  by (simp add: nth_opt_def)

lemma found_entries:
  "map_option he_value (Option.bind (nth_opt (filter (\<lambda>at. ty = 0 \<or>
       (case table_entry t at of Some e \<Rightarrow> he_ty e = ty | None \<Rightarrow> False)) (table_matches t key)) n) (table_entry t)) =
   map_option snd (nth_opt (filter (\<lambda>e. ty = 0 \<or> fst e = ty) (table_view t key)) n)"
proof -
  have "map (table_entry t) (filter (\<lambda>at. ty = 0 \<or> (case table_entry t at of Some e \<Rightarrow> he_ty e = ty | None \<Rightarrow> False)) ps) =
      map Some (filter (\<lambda>e. ty = 0 \<or> he_ty e = ty) es)"
    if "map (table_entry t) ps = map Some es" for ps es
    using that by (induction ps arbitrary: es) (auto simp: Cons_eq_map_conv)
  from this [OF matches_entries]
  have m: "map (table_entry t) (filter (\<lambda>at. ty = 0 \<or> (case table_entry t at of Some e \<Rightarrow> he_ty e = ty | None \<Rightarrow> False))
      (table_matches t key)) =
    map Some (filter (\<lambda>e. ty = 0 \<or> he_ty e = ty) (rev (filter (\<lambda>e. he_key e = key) (the_bucket t (bucket_of t key)))))" .
  have "Option.bind (nth_opt ps n) (table_entry t) = nth_opt es n" if "map (table_entry t) ps = map Some es" for ps es
    using arg_cong [OF that, of "\<lambda>xs. nth_opt xs n"]
    by (cases "nth_opt ps n"; cases "nth_opt es n") (simp_all add: nth_opt_map)
  from this [OF m] show ?thesis
    by (simp add: table_view_def with_key_def filter_map comp_def nth_opt_map option.map_comp)
qed

text \<open>\<open>hash_get\<close> returns the newest value of the key, of the required type if there is one, after as
  many matches as asked for have been skipped, and the default if there is no such value; the tables stay as
  they are.\<close>

theorem hash_get_finds:
  assumes "tables_inv c" "snd (tables_get (arg_int c 0) (ss_hash (c_std c))) = Some t"
  shows "\<exists>d. tables_inv d \<and> hview d = hview c \<and> hash_get c =
    (let ty = f2i (opt_f32 c 3 0);
         entries = filter (\<lambda>e. ty = 0 \<or> fst e = ty) (hview c (arg_int c 0) (arg_str c 1))
     in case nth_opt entries (the_default 0 (usize_of_i32 (f2i (opt_f32 c 4 0)))) of
          Some (_, v) \<Rightarrow> ret_value v d
        | None \<Rightarrow> ok (ret_raw (if 2 < argc c then arg_raw c 2 else (0, 0, 0)) d))"
proof -
  obtain d f where d: "table_arg c 0 = (d, Inr (Some (arg_int c 0)))" "d = on_std f c" "tables_inv d" "hview d = hview c"
    "get_table (arg_int c 0) d = (d, Some t)"
    using table_arg_ok [OF assms] by metis
  have view: "hview c (arg_int c 0) = table_view t" by (rule ext) (simp add: hview_def assms(2))
  have a: "arg_str d = arg_str c" "arg_raw d = arg_raw c" "argc d = argc c" "opt_f32 d = opt_f32 c"
    by (simp_all add: d(2) fun_eq_iff)
  have "hash_get c = (case nth_opt (filter (\<lambda>e. f2i (opt_f32 c 3 0) = 0 \<or> fst e = f2i (opt_f32 c 3 0)) (table_view t (arg_str c 1)))
        (the_default 0 (usize_of_i32 (f2i (opt_f32 c 4 0)))) of
          Some (_, v) \<Rightarrow> ret_value v d
        | None \<Rightarrow> ok (ret_raw (if 2 < argc c then arg_raw c 2 else (0, 0, 0)) d))"
    unfolding hash_get_def d(1) prod.case sum.case Let_def option.case d(5) a bind.bind_lunit found_entries
    by (cases "nth_opt (filter (\<lambda>e. f2i (opt_f32 c 3 0) = 0 \<or> fst e = f2i (opt_f32 c 3 0)) (table_view t (arg_str c 1)))
        (the_default 0 (usize_of_i32 (f2i (opt_f32 c 4 0))))") (simp_all split: prod.split)
  then show ?thesis using d(3,4) by (intro exI [of _ d]) (simp only: Let_def view simp_thms)
qed

lemma hash_delete_effect:
  fixes c0 :: score
  defines "c \<equiv> ret_raw (0, 0, 0) c0"
  assumes inv: "tables_inv c" and t: "snd (tables_get (arg_int c 0) (ss_hash (c_std c))) = Some t"
  shows "tables_inv (fst (hash_delete c0)) \<and> hview (fst (hash_delete c0)) =
    (let h = arg_int c 0; key = arg_str c 1 in (hview c)(h := (hview c h)(key := tl (hview c h key))))"
proof -
  let ?h = "arg_int c 0" and ?key = "arg_str c 1"
  obtain d f where d: "table_arg c 0 = (d, Inr (Some ?h))" "d = on_std f c" "tables_inv d" "hview d = hview c"
    "get_table ?h d = (d, Some t)" "tables_get ?h (ss_hash (c_std d)) = (ss_hash (c_std d), Some t)"
    using table_arg_ok [OF inv t] by metis
  have ok: "table_ok t" using tables_get_Some(1) [OF _ d(6)] d(3) by (simp add: tables_inv_def)
  have view: "hview c ?h = table_view t" by (rule ext) (simp add: hview_def t)
  have key: "arg_str d 1 = ?key" by (simp add: d(2))
  have del: "hash_delete c0 = (case first_match t ?key of
               None \<Rightarrow> ok d
             | Some at \<Rightarrow>
                 (case table_remove at t of
                    (t, None) \<Rightarrow> ok d
                  | (t, Some e) \<Rightarrow> ret_value (he_value e) (release (hentry_bytes e) (on_tables (tables_put ?h t) d))))"
    unfolding hash_delete_def c_def [symmetric] with_table_found [OF d(1)] Let_def d(5) prod.case option.case key by simp
  show ?thesis
  proof (cases "first_match t ?key")
    case None
    then have "table_view t ?key = []" using first_match_None by blast
    then have "(hview c)(?h := (hview c ?h)(?key := tl (hview c ?h ?key))) = hview c" by (simp add: view fun_upd_idem)
    then show ?thesis using None d(3,4) by (simp add: del Let_def)
  next
    case (Some at)
    obtain t' e where
        e: "table_remove at t = (t', Some e)" "table_entry t at = Some e" "he_key e = ?key" "table_ok t'"
          "ht_default t' = ht_default t" "ht_bytes t' + hentry_bytes e = ht_bytes t"
          "\<forall>k. table_view t' k = (if k = ?key then tl (table_view t k) else table_view t k)"
          "table_view t ?key = (he_ty e, he_value e) # tl (table_view t ?key)"
      by (rule table_remove_first [OF ok Some])
    have len: "length (ht_buckets t') = length (ht_buckets t)"
      using e(1) by (auto simp: table_remove_def split: prod.splits option.splits)
    have le: "hentry_bytes e + length (ht_buckets t) * BUCKET_BYTES \<le> ht_bytes t"
      using e(4,6) len by (auto simp: table_ok_def)
    have r: "recharge (hentry_bytes e) 0 d = (release (hentry_bytes e) d, True)"
      by (simp add: recharge_def hentry_bytes_def entry_bytes_def)
    have swap: "release n (on_tables g d) = on_tables g (release n d)" for n g
      by (simp add: release_def on_tables_def on_std_def)
    have tv: "table_view t' = (table_view t)(?key := tl (table_view t ?key))" by (rule ext) (simp add: e(7) del: One_nat_def)
    have "ht_bytes t' + hentry_bytes e = ht_bytes t + 0" using e(6) by simp
    note put = put_charged [OF d(3,6) r e(4) len this le]
    have "tables_inv (fst (ret_value v x)) = tables_inv x" "hview (fst (ret_value v x)) = hview x" for v x
      by (cases v; simp add: ret_value_def)+
    then show ?thesis
      unfolding del Some option.case e(1) prod.case swap Let_def view using put d(4) by (simp add: tv)
  qed
qed

section \<open>Every operation keeps the accounts\<close>

lemma table_arg_inv:
  assumes "tables_inv c" "table_arg c i = (d, r)"
  shows "tables_inv d \<and> hview d = hview c \<and> (\<forall>h. r = Inr (Some h) \<longrightarrow> h = arg_int c i \<and> (\<exists>t. get_table h c = (d, Some t)))"
proof -
  obtain e t where g: "get_table (arg_int c i) c = (e, t)" by fastforce
  note k = get_table_inv [OF assms(1) g]
  show ?thesis
    using assms(2) g k(1,2)
    by (auto simp: table_arg_def Let_def soft_error_def split: option.splits if_splits prod.splits)
qed

lemma with_table_inv:
  assumes "tables_inv c"
    and "\<And>h d t. tables_inv d \<Longrightarrow> tables_get h (ss_hash (c_std d)) = (ss_hash (c_std d), Some t) \<Longrightarrow>
      get_table h d = (d, Some t) \<Longrightarrow> tables_inv (fst (body h d))"
  shows "tables_inv (fst (with_table c body))"
proof -
  obtain d r where t: "table_arg c 0 = (d, r)" by fastforce
  note k = table_arg_inv [OF assms(1) t]
  consider e where "r = Inl e" | "r = Inr None" | h where "r = Inr (Some h)" by (metis old.sum.exhaust option.exhaust)
  then show ?thesis
  proof cases
    case (3 h)
    then obtain x where "get_table h c = (d, Some x)" using k by blast
    from get_table_inv(5) [OF assms(1) this] have g: "tables_get h (ss_hash (c_std d)) = (ss_hash (c_std d), Some x)" .
    then have "get_table h d = (d, Some x)" by (simp add: get_table_def on_tables_def on_std_def)
    then show ?thesis using assms(2) [OF _ g] k 3 t by (simp add: with_table_def)
  qed (use k t in \<open>simp_all add: with_table_def\<close>)
qed

lemma hash_add_inv: "tables_inv c \<Longrightarrow> tables_inv (fst (hash_add c))"
proof (cases "snd (tables_get (arg_int c 0) (ss_hash (c_std c)))")
  case (Some t)
  assume inv: "tables_inv c"
  show ?thesis
  proof (cases "arg_str c 1 = []")
    case True
    then obtain d where d: "table_arg c 0 = (d, Inr (Some (arg_int c 0)))" "tables_inv d" "arg_str d 1 = []"
      using table_arg_ok [OF inv Some] by (metis args_on_std(3))
    then show ?thesis by (simp add: hash_add_def with_table_found [OF d(1)])
  qed (use hash_add_effect [OF inv Some] in blast)
next
  case None
  assume inv: "tables_inv c"
  obtain d r where t: "table_arg c 0 = (d, r)" by fastforce
  have "\<And>h. r \<noteq> Inr (Some h)"
    using table_arg_inv [OF inv t] None get_table_inv(6) [OF inv] by fastforce
  then show ?thesis
    using table_arg_inv [OF inv t] t
    by (cases r) (auto simp: hash_add_def with_table_def split: option.split)
qed

lemma ret_value_inv [simp]: "tables_inv (fst (ret_value v c)) = tables_inv c"
  by (cases v) (simp_all add: ret_value_def)

lemma hash_delete_inv: "tables_inv c \<Longrightarrow> tables_inv (fst (hash_delete c))"
proof (cases "snd (tables_get (arg_int (ret_raw (0, 0, 0) c) 0) (ss_hash (c_std (ret_raw (0, 0, 0) c))))")
  case (Some t)
  assume "tables_inv c"
  then show ?thesis using hash_delete_effect [OF _ Some] by simp
next
  case None
  assume "tables_inv c"
  then have inv: "tables_inv (ret_raw (0, 0, 0) c)" by simp
  obtain d r where t: "table_arg (ret_raw (0, 0, 0) c) 0 = (d, r)" by fastforce
  have "\<And>h. r \<noteq> Inr (Some h)"
    using table_arg_inv [OF inv t] None get_table_inv(6) [OF inv] by fastforce
  then show ?thesis
    using table_arg_inv [OF inv t] t
    by (cases r) (auto simp: hash_delete_def with_table_def split: option.split)
qed

lemma hash_getkey_inv: "tables_inv c \<Longrightarrow> tables_inv (fst (hash_getkey c))"
  unfolding hash_getkey_def by (rule with_table_inv) (auto split: option.split)

lemma hash_get_inv:
  assumes "tables_inv c"
  shows "tables_inv (fst (hash_get c))"
proof -
  obtain d r where t: "table_arg c 0 = (d, r)" by fastforce
  note k = table_arg_inv [OF assms t]
  have "tables_inv e" if "get_table h d = (e, x)" for h e x using get_table_inv(1) [OF _ that] k by blast
  then show ?thesis
    using k t by (auto simp: hash_get_def Let_def split: sum.split option.split prod.split)
qed

lemma place_table_inv:
  assumes inv: "tables_inv c" and r: "charge (ht_bytes t) c = (d, True)" and t: "table_ok t"
  shows "tables_inv (fst (place_table t d))"
proof -
  let ?tbs = "tb_tables (ss_hash (c_std c))"
  define n where "n = length (takeWhile (\<lambda>t. t \<noteq> None) ?tbs)"
  define tbs where "tbs = (if n < length ?tbs then ?tbs[n := Some t] else ?tbs @ [Some t])"
  have r': "recharge 0 (ht_bytes t) c = (d, True)" using r by (simp add: recharge_def)
  note same = recharge_hash [OF r']
  have free: "?tbs ! n = None" if "n < length ?tbs"
    using nth_length_takeWhile [of "\<lambda>t. t \<noteq> None" ?tbs] that by (simp add: n_def)
  have p: "fst (place_table t d) = on_tables (\<lambda>tb. tb\<lparr>tb_tables := tbs\<rparr>) d"
    using same by (simp add: place_table_def Let_def tbs_def n_def)
  have sum: "sum_list (map (opt_bytes ht_bytes) tbs) = sum_list (map (opt_bytes ht_bytes) ?tbs) + ht_bytes t"
    using sum_list_update_opt [of n ?tbs ht_bytes "Some t"] free by (simp add: tbs_def)
  have "accounted (on_tables (\<lambda>tb. tb\<lparr>tb_tables := tbs\<rparr>) d)"
    unfolding on_tables_def
    by (rule table_share.recharged [OF _ r']) (use inv same sum in \<open>simp_all add: tables_inv_def tables_bytes_def\<close>)
  moreover have "set tbs \<subseteq> insert (Some t) (set ?tbs)"
    by (auto simp: tbs_def dest: set_update_subset_insert [THEN subsetD])
  then have "tables_ok ((ss_hash (c_std c))\<lparr>tb_tables := tbs\<rparr>)"
    using inv t by (auto simp: tables_inv_def tables_ok_def)
  ultimately show ?thesis using same by (simp add: p tables_inv_def)
qed

lemma hash_createtab_inv:
  assumes "tables_inv c"
  shows "tables_inv (fst (hash_createtab c))"
proof (cases "charge (ht_bytes (createtab_table c)) c")
  case (Pair d r)
  have "table_ok (createtab_table c)" using table_new_ok by (simp add: createtab_table_def Let_def)
  then have "r \<Longrightarrow> tables_inv (fst (place_table (createtab_table c) d))"
    using place_table_inv [OF assms] Pair by simp
  moreover have "\<not> r \<Longrightarrow> d = c" using Pair by (auto simp: charge_def Let_def split: if_splits)
  ultimately show ?thesis
    using assms Pair by (cases r; cases "place_table (createtab_table c) d") (simp_all add: hash_createtab_def Let_def)
qed

lemma hash_destroytab_inv: "tables_inv c \<Longrightarrow> tables_inv (fst (hash_destroytab c))"
  unfolding hash_destroytab_def
proof (rule with_table_inv)
  fix h d t
  assume inv: "tables_inv d"
  have del: "tables_inv (release (ht_bytes t) (on_tables (\<lambda>tb. tb\<lparr>tb_tables := (tb_tables tb)[i := None]\<rparr>) d))"
    if "nth_opt (tb_tables (ss_hash (c_std d))) i = Some (Some t)" for i t
  proof -
    have i: "i < length (tb_tables (ss_hash (c_std d)))" "tb_tables (ss_hash (c_std d)) ! i = Some t"
      using that by (simp_all add: nth_opt_Some)
    have "accounted (release (ht_bytes t) (on_tables (\<lambda>tb. tb\<lparr>tb_tables := (tb_tables tb)[i := None]\<rparr>) d))"
      unfolding on_tables_def
      by (rule table_share.released)
        (use inv i sum_list_update_opt [OF i(1), of ht_bytes None] in \<open>simp_all add: tables_inv_def tables_bytes_def\<close>)
    moreover have "tables_ok ((ss_hash (c_std d))\<lparr>tb_tables := (tb_tables (ss_hash (c_std d)))[i := None]\<rparr>)"
      using inv set_update_subset_insert [of "tb_tables (ss_hash (c_std d))" i None]
      by (auto simp: tables_inv_def tables_ok_def)
    ultimately show ?thesis by (simp add: tables_inv_def release_def)
  qed
  show "tables_inv (fst (let freed = (if 0 < sint h
                  then Option.bind (usize_of_i32 (h - 1)) (\<lambda>i.
                         Option.bind (nth_opt (tb_tables (ss_hash (c_std d))) i) (map_option (\<lambda>t. (i, t))))
                  else None)
     in case freed of None \<Rightarrow> ok d
        | Some (i, t) \<Rightarrow> ok (release (ht_bytes t) (on_tables (\<lambda>tb. tb\<lparr>tb_tables := (tb_tables tb)[i := None]\<rparr>) d))))"
    using inv del by (auto simp: Let_def split: option.split bind_splits)
qed

definition hash_builtins :: "builtin list" where
  "hash_builtins = [hash_createtab, hash_destroytab, hash_add, hash_get, hash_delete, hash_getkey]"

lemma hash_builtins_keep: "f \<in> set hash_builtins \<Longrightarrow> tables_inv c \<Longrightarrow> tables_inv (fst (f c))"
  by (auto simp: hash_builtins_def hash_createtab_inv hash_destroytab_inv hash_add_inv hash_get_inv hash_delete_inv
      hash_getkey_inv)

section \<open>What else changes\<close>

lemma keeping_on_tables: "keeping not_tables c (on_tables f c)"
  unfolding on_tables_def by (rule keeping_std) simp

lemma keeping_get_table: "get_table h c = (d, t) \<Longrightarrow> keeping not_tables c d"
  by (auto simp: get_table_def keeping_on_tables split: prod.splits)

lemma keeping_soft_error: "keeping not_tables c (fst (soft_error msg c))"
  by (simp add: soft_error_def keeping_refl keeping_trans [OF keeping_ret(3) keeping_ret(1)])

lemma keeping_table_arg: "table_arg c i = (d, r) \<Longrightarrow> keeping not_tables c d"
proof -
  assume a: "table_arg c i = (d, r)"
  obtain e t where g: "get_table (arg_int c i) c = (e, t)" by fastforce
  note k = keeping_get_table [OF g]
  have "d = e \<or> d = fst (soft_error ''hash: invalid hash table'' e)"
    using a g by (cases t; cases "soft_error ''hash: invalid hash table'' e")
      (auto simp: table_arg_def Let_def split: option.splits)
  then show ?thesis using k keeping_trans [OF k keeping_soft_error] by blast
qed

lemma keeping_with_table:
  assumes "\<And>h d. keeping not_tables d (fst (body h d))"
  shows "keeping not_tables c (fst (with_table c body))"
  using keeping_trans [OF keeping_table_arg assms]
  by (auto simp: with_table_def keeping_table_arg split: prod.split sum.split option.split)

lemma keeping_ret_value: "keeping not_tables c (fst (ret_value v c))"
  by (cases v) (simp_all add: ret_value_def keeping_intros)

lemma keeping_hash: "f \<in> set hash_builtins \<Longrightarrow> keeping not_tables c (fst (f c))"
proof -
  have "keeping not_tables c (fst (hash_createtab c))"
  proof (cases "charge (ht_bytes (createtab_table c)) c")
    case (Pair d r)
    have "keeping not_tables c (ret_word x (vm_warn m d))" "keeping not_tables c (ret_word x (on_tables g d))" for x m g
      using keeping_trans [OF by_tables.via_charge(1) [OF Pair] keeping_trans [OF keeping_ret(3) keeping_ret(2)]]
        keeping_trans [OF by_tables.via_charge(1) [OF Pair] keeping_trans [OF keeping_on_tables keeping_ret(2)]] by simp_all
    then show ?thesis
      using Pair by (cases r) (simp_all add: hash_createtab_def Let_def place_table_def keeping_ret)
  qed
  moreover have "keeping not_tables c (fst (hash_destroytab c))"
    unfolding hash_destroytab_def
    by (rule keeping_with_table)
      (auto simp: Let_def keeping_refl split: option.split intro: keeping_trans [OF keeping_on_tables by_tables.keeping_charge(1)])
  moreover have "keeping not_tables c (fst (hash_add c))"
    unfolding hash_add_def
  proof (rule keeping_with_table)
    fix h d
    have "keeping not_tables d (fst (case recharge old new e of (c, False) \<Rightarrow> ok (vm_warn m c) | (c, True) \<Rightarrow> ok (on_tables g c)))"
      if "get_table h d = (e, t)" for e t old new m g
      using keeping_trans [OF keeping_get_table [OF that] keeping_trans [OF by_tables.via_charge(2) keeping_ret(3)]]
        keeping_trans [OF keeping_get_table [OF that] keeping_trans [OF by_tables.via_charge(2) keeping_on_tables]]
      by (auto split: prod.split bool.split)
    then show "keeping not_tables d (fst (let key = arg_str d 1 in if key = [] then ok d else
          (case get_table h d of
             (c, None) \<Rightarrow> ok c
           | (c, Some t) \<Rightarrow>
               let replaced = (if add_replaces c then first_match t key else None);
                   old = opt_bytes hentry_bytes (Option.bind replaced (table_entry t));
                   (ty, value) = add_value c (ht_default t)
               in (case recharge old (entry_bytes key value) c of
                     (c, False) \<Rightarrow> ok (vm_warn ''hash_add: out of memory for hash tables and string buffers'' c)
                   | (c, True) \<Rightarrow>
                       let t = (case replaced of Some at \<Rightarrow> fst (table_remove at t) | None \<Rightarrow> t)
                       in ok (on_tables (tables_put h (table_push key ty value t)) c)))))"
      by (auto simp: Let_def keeping_refl keeping_get_table split: prod.split option.split)
  qed
  moreover have "keeping not_tables c (fst (hash_get c))"
    by (auto simp: hash_get_def Let_def keeping_table_arg split: prod.split sum.split option.split
        intro: keeping_trans [OF keeping_table_arg keeping_trans [OF keeping_get_table keeping_ret(1)]]
          keeping_trans [OF keeping_table_arg keeping_trans [OF keeping_get_table keeping_ret_value]]
          keeping_trans [OF keeping_table_arg keeping_ret(1)])
  moreover have "keeping not_tables c (fst (hash_delete c))"
    unfolding hash_delete_def
    by (rule keeping_trans [OF keeping_ret(1) keeping_with_table])
      (auto simp: Let_def keeping_get_table split: prod.split option.split
        intro: keeping_trans [OF keeping_get_table keeping_trans [OF keeping_on_tables keeping_trans [OF by_tables.keeping_charge(1) keeping_ret_value]]])
  moreover have "keeping not_tables c (fst (hash_getkey c))"
    unfolding hash_getkey_def
    by (rule keeping_trans [OF keeping_ret(1) keeping_with_table])
      (auto simp: keeping_refl keeping_get_table split: prod.split option.split intro: keeping_trans [OF keeping_get_table keeping_ret(4)])
  ultimately show "f \<in> set hash_builtins \<Longrightarrow> keeping not_tables c (fst (f c))" by (auto simp: hash_builtins_def)
qed

lemma obeys_hash_getcb:
  assumes K: "\<And>f as. obeys (K f as)"
  shows "obeys (hash_getcb K)"
proof -
  have one: "obeys (\<lambda>(v, h). k v (v\<lparr>v_core := f v\<rparr>, h))"
    if "\<And>v. tame (v_core v) (f v)" "\<And>v. obeys (k v)" for f and k :: "std_state vm \<Rightarrow> (std_state, 'a, unit) act"
    by (rule obeys_after [OF that])
  define core_of where "core_of v = (case table_arg (v_core v) 0 of (c, Inr (Some h)) \<Rightarrow> fst (get_table h c) | (c, _) \<Rightarrow> c)"
    for v :: "std_state vm"
  define then_do where "then_do v = (case table_arg (v_core v) 0 of
      (c, Inl k) \<Rightarrow> (\<lambda>w. Some (w, Failed (vm_error_new k)))
    | (c, Inr None) \<Rightarrow> (\<lambda>w. Some (w, Done ()))
    | (c, Inr (Some handle)) \<Rightarrow>
        let callback = arg_word c 1; key = (if 2 < argc c then Some (arg_str c 2) else None);
            snapshot = (case snd (get_table handle c) of
                 Some t \<Rightarrow> filter (\<lambda>e. case key of None \<Rightarrow> True | Some k \<Rightarrow> k = he_key e) (table_all t)
               | None \<Rightarrow> [])
        in for_each (\<lambda>e. K callback
                [ArgBytes (he_key e), case he_value e of Text t \<Rightarrow> ArgBytes t | Words w \<Rightarrow> ArgRaw w]) snapshot)"
    for v :: "std_state vm"
  have eq: "hash_getcb K = (\<lambda>(v, h). then_do v (v\<lparr>v_core := core_of v\<rparr>, h))"
    by (rule ext)
      (simp add: hash_getcb_def then_do_def core_of_def Let_def case_prod_unfold split: sum.split option.split)
  have t: "tame (v_core v) (core_of v)" for v
  proof -
    obtain c r where a: "table_arg (v_core v) 0 = (c, r)" by fastforce
    have "keeping not_tables c (fst (get_table h c))" for h using keeping_get_table by (metis prod.collapse)
    then show ?thesis
      using keepingD(1) [OF keeping_table_arg [OF a]] keepingD(1) [OF keeping_trans [OF keeping_table_arg [OF a]]]
      by (simp add: core_of_def a split: sum.split option.split)
  qed
  have "obeys (then_do v)" for v
    by (auto simp: then_do_def Let_def split: prod.split sum.split option.split
        intro!: obeys_done obeys_for_each K)
  then show ?thesis unfolding eq by (intro one t)
qed

section \<open>Hash tables are maps to histories\<close>

text \<open>C24: \<open>hash_add\<close> puts the new value in front of the values of its key, in place of the newest one if the flags say
  so, and changes no other key and no other table; if the storage limit does not allow it, nothing changes.  The
  accounts stay right.\<close>

theorem hash_add_stores:
  assumes "tables_inv c" "snd (tables_get (arg_int c 0) (ss_hash (c_std c))) = Some t" "arg_str c 1 \<noteq> []"
  shows "tables_inv (fst (hash_add c)) \<and> snd (hash_add c) = None \<and>
    hview (fst (hash_add c)) =
      (let h = arg_int c 0; key = arg_str c 1; new = add_value c (ht_default t); now = hview c h key;
           old = (if add_replaces c \<and> now \<noteq> [] then entry_bytes key (snd (hd now)) else 0)
       in if ss_container (c_std c) + entry_bytes key (snd new) \<le> l_container_bytes (g_limits (c_config c)) + old
          then (hview c)(h := (hview c h)(key := new # (if add_replaces c then tl now else now)))
          else hview c)"
  by (rule hash_add_effect [OF assms])

text \<open>A machine whose second argument points to itself: the text is a backslash.\<close>

definition sample_key :: score where
  "sample_key = sample_score\<lparr>c_mem := mem_set_g sample_mem 92 92\<rparr>"

lemma sample_key_args: "arg_int sample_key 0 = 0" "arg_str sample_key 1 \<noteq> []"
proof -
  have gb: "core_gbase sample_key = 64"
    by (simp add: core_gbase_def sample_key_def sample_score_def core_progs_at_def exec_default_def nth_opt_def)
  have m: "c_mem sample_key = mem_set_g sample_mem 92 92" by (simp add: sample_key_def)
  have "mem_g (mem_set_g sample_mem 92 92) 80 = mem_g sample_mem 80"
    by (rule mem_g_set_other) (simp_all add: sample_mem_def)
  then have "arg_word sample_key 0 = 0" by (simp add: arg_word_def parm_def gb m OFS_PARM0_def)
  then show "arg_int sample_key 0 = 0"
    by (simp add: arg_int_def f2i_eq trunc_or_min_def f32_val_def decode_mag_def f32_fmt_def)
  have w: "arg_word sample_key 1 = 92"
    using mem_g_set_same [of 92 sample_mem 92] by (simp add: arg_word_def parm_def gb m OFS_PARM0_def sample_mem_def)
  let ?m = "mem_set_g sample_mem 92 92"
  have ms: "ms ?m = splice (replicate 404 0) 92 (le_bytes 4 (92 :: u32))" by (simp add: mem_set_g_def sample_mem_def put_u32_def)
  have le: "le_bytes 4 (92 :: u32) = [92, 0, 0, 0]" by (simp add: le_bytes_def upt_rec)
  have loc: "locate ?m 92 1 = Some (LocS 92)" by (simp add: locate_def ms)
  have "drop 92 (ms ?m) = 92 # 0 # 0 # 0 # replicate 308 0" by (simp add: ms splice_def le)
  then have "mem_cstr ?m 92 = Some [92]"
    by (simp add: mem_cstr_def loc [simplified] slice_from_def ms until_nul_def position0_def)
  then have "str_bytes sample_key 92 = Some [92]" by (simp add: str_bytes_def classify_def m TAG_MASK_def TEMP_TAG_def STATIC_TAG_def)
  then show "arg_str sample_key 1 \<noteq> []" unfolding arg_str_def w by simp
qed

lemma sample_key_inv: "tables_inv sample_key" "ss_hash (c_std sample_key) = \<lparr>tb_tables = [], tb_gamestate = None\<rparr>"
  using accounted_default [of sample_key]
  by (simp_all add: tables_inv_def tables_ok_def sample_key_def sample_score_def std_default_def)

lemma sample_key_table:
  "snd (tables_get (arg_int sample_key 0) (ss_hash (c_std sample_key))) = Some (table_new GAMESTATE_BUCKETS EV_STRING)"
  unfolding sample_key_args(1) sample_key_inv(2) by (simp add: tables_get_def Let_def)

theorem hash_add_stores_witness:
  "tables_inv (fst (hash_add sample_key)) \<and> snd (hash_add sample_key) = None"
  using hash_add_stores [OF sample_key_inv(1) sample_key_table sample_key_args(2)] by blast

theorem hash_get_finds_witness:
  "\<exists>d. hview d = hview sample_key \<and> hash_get sample_key = ok (ret_raw (0, 0, 0) d)"
proof -
  have "table_view (table_new n ty) key = []" for n ty key
    by (simp add: table_view_def with_key_def the_bucket_def table_new_def nth_opt_def Let_def)
  then have "hview sample_key (arg_int sample_key 0) key = []" for key
    unfolding hview_def sample_key_table by simp
  moreover have "argc sample_key = 0" by (simp add: argc_def sample_key_def sample_score_def)
  ultimately show ?thesis
    using hash_get_finds [OF sample_key_inv(1) sample_key_table] by (auto simp: Let_def nth_opt_def)
qed

end
