(* ===== verification/StrBuf.thy ===== *)
theory StrBuf
  imports Std "HOL-Library.Multiset"
begin

text \<open>
  String buffers (\<open>src/stdlib/strbuf.rs\<close>): numbered vectors of optional strings whose slots and bytes are
  charged against the container limit, with sorting, joining and searching by wildcard patterns.  The two
  builtins that ask the host (\<open>buf_cvarlist\<close>, \<open>buf_loadfile\<close>) are in \<open>Introspect\<close>.
\<close>

section \<open>One buffer\<close>

definition MAX_SET_INDEX :: nat where "MAX_SET_INDEX = 2 ^ 20"
definition SLOT_BYTES :: nat where "SLOT_BYTES = 16"

definition strbuf_default :: strbuf where
  "strbuf_default = \<lparr>sb_strings = [], sb_bytes = 0\<rparr>"

definition from_strings :: "bytes option list \<Rightarrow> strbuf" where
  "from_strings ss =
     \<lparr>sb_strings = ss, sb_bytes = foldl (\<lambda>n s. n + opt_bytes length s) (length ss * SLOT_BYTES) ss\<rparr>"

definition entry_of :: "strbuf \<Rightarrow> nat \<Rightarrow> bytes option" where
  "entry_of b i = Option.bind (nth_opt (sb_strings b) i) (\<lambda>s. s)"

definition bytes_after_set :: "strbuf \<Rightarrow> nat \<Rightarrow> nat \<Rightarrow> nat" where
  "bytes_after_set b i len =
     (let grow = i + 1 - length (sb_strings b); old = opt_bytes length (entry_of b i)
      in sb_bytes b + grow * SLOT_BYTES + len - old)"

definition strbuf_set :: "nat \<Rightarrow> bytes \<Rightarrow> strbuf \<Rightarrow> strbuf" where
  "strbuf_set i s b =
     (let ss = (if length (sb_strings b) \<le> i
                then sb_strings b @ replicate (i + 1 - length (sb_strings b)) None else sb_strings b)
      in \<lparr>sb_strings = ss[i := Some s], sb_bytes = bytes_after_set b i (length s)\<rparr>)"

definition strbuf_free :: "nat \<Rightarrow> strbuf \<Rightarrow> strbuf \<times> nat" where
  "strbuf_free i b =
     (let freed = opt_bytes length (entry_of b i)
      in (\<lparr>sb_strings = (sb_strings b)[i := None], sb_bytes = sb_bytes b - freed\<rparr>, freed))"

section \<open>The buffers of a machine\<close>

definition buf_at :: "score \<Rightarrow> nat \<Rightarrow> strbuf option" where
  "buf_at c i = Option.bind (nth_opt (ss_bufs (c_std c)) i) (\<lambda>b. b)"

definition put_buf :: "nat \<Rightarrow> strbuf option \<Rightarrow> score \<Rightarrow> score" where
  "put_buf i b c = on_std (\<lambda>s. s\<lparr>ss_bufs := (ss_bufs s)[i := b]\<rparr>) c"

definition buffers_warning :: string where
  "buffers_warning = ''string buffers: out of memory for hash tables and string buffers''"

definition store :: "nat \<Rightarrow> nat \<Rightarrow> bytes \<Rightarrow> score \<Rightarrow> score \<times> bool" where
  "store b i s c =
     (case buf_at c b of
        None \<Rightarrow> (c, False)
      | Some buf \<Rightarrow>
          (case recharge (sb_bytes buf) (bytes_after_set buf i (length s)) c of
             (c, False) \<Rightarrow> (vm_warn buffers_warning c, False)
           | (c, True) \<Rightarrow> (put_buf b (Some (strbuf_set i s buf)) c, True)))"

definition replace :: "nat \<Rightarrow> strbuf \<Rightarrow> score \<Rightarrow> score \<times> bool" where
  "replace b contents c =
     (case buf_at c b of
        None \<Rightarrow> (c, False)
      | Some buf \<Rightarrow>
          (case recharge (sb_bytes buf) (sb_bytes contents) c of
             (c, False) \<Rightarrow> (vm_warn buffers_warning c, False)
           | (c, True) \<Rightarrow> (put_buf b (Some contents) c, True)))"

definition buf_arg :: "score \<Rightarrow> nat \<Rightarrow> nat option" where
  "buf_arg c i =
     Option.bind (usize_of_i32 (f2i (f32_sub (arg_word c i) f32_one))) (\<lambda>index.
       map_option (\<lambda>_. index) (buf_at c index))"

definition index_arg :: "'s core \<Rightarrow> nat \<Rightarrow> nat option" where
  "index_arg c i = usize_of_i32 (arg_int c i)"

definition entry_limit :: "'s core \<Rightarrow> nat" where
  "entry_limit c = unat (l_string_buffer_entries (g_limits (c_config c)))"

section \<open>Comparing bytes\<close>

definition ascii_lower :: "u8 \<Rightarrow> u8" where
  "ascii_lower c = (if 65 \<le> c \<and> c \<le> 90 then c + 32 else c)"

definition eq_ignore_case :: "bytes \<Rightarrow> bytes \<Rightarrow> bool" where
  "eq_ignore_case a b = (map ascii_lower a = map ascii_lower b)"

text \<open>\<open>Ord\<close> on byte slices is lexicographic.\<close>

fun bytes_le :: "bytes \<Rightarrow> bytes \<Rightarrow> bool" where
  "bytes_le [] ys = True"
| "bytes_le (x # xs) [] = False"
| "bytes_le (x # xs) (y # ys) = (x < y \<or> x = y \<and> bytes_le xs ys)"

text \<open>\<open>sort_by\<close> is a stable sort; \<open>le\<close> is the order its comparison gives.\<close>

primrec insert_by :: "('a \<Rightarrow> 'a \<Rightarrow> bool) \<Rightarrow> 'a \<Rightarrow> 'a list \<Rightarrow> 'a list" where
  "insert_by le x [] = [x]"
| "insert_by le x (y # ys) = (if le x y then x # y # ys else y # insert_by le x ys)"

definition sort_by :: "('a \<Rightarrow> 'a \<Rightarrow> bool) \<Rightarrow> 'a list \<Rightarrow> 'a list" where
  "sort_by le xs = foldr (insert_by le) xs []"

section \<open>Wildcards\<close>

text \<open>A row of the table says which prefixes of the string the pattern so far matches.\<close>

definition is_slash :: "u8 \<Rightarrow> bool" where
  "is_slash c = (c = 47 \<or> c = 92)"

primrec star_from :: "bool \<Rightarrow> (u8 \<times> bool) list \<Rightarrow> bool list" where
  "star_from going [] = []"
| "star_from going (x # xs) =
     (let going' = (snd x \<or> going \<and> \<not> is_slash (fst x)) in going' # star_from going' xs)"

definition star_row :: "bytes \<Rightarrow> bool list \<Rightarrow> bool list" where
  "star_row s row = hd row # star_from (hd row) (zip s (tl row))"

definition byte_row :: "u8 \<Rightarrow> bytes \<Rightarrow> bool list \<Rightarrow> bool list" where
  "byte_row p s row = False # map2 (\<lambda>c b. b \<and> (p = 63 \<or> ascii_lower p = ascii_lower c)) s row"

definition wildcmp :: "bytes \<Rightarrow> bytes \<Rightarrow> bool" where
  "wildcmp pat s =
     last (foldl (\<lambda>row p. if p = 42 then star_row s row else byte_row p s row)
             (True # replicate (length s) False) pat)"

definition matches_rule :: "bytes \<Rightarrow> bytes \<Rightarrow> u32 \<Rightarrow> bool" where
  "matches_rule s pat rule =
     (if rule = 1 then s = pat
      else if rule = 2 then take (length pat) s = pat
      else if rule = 3 then length pat \<le> length s \<and> drop (length s - length pat) s = pat
      else if rule = 4 then pat = [] \<or> (\<exists>i \<in> set [0..<length s + 1 - length pat]. take (length pat) (drop i s) = pat)
      else wildcmp pat s)"

section \<open>The builtins\<close>

definition first_hole :: "'a option list \<Rightarrow> nat option" where
  "first_hole xs = (let n = length (takeWhile (\<lambda>x. x \<noteq> None) xs) in if n < length xs then Some n else None)"

definition buf_create :: builtin where
  "buf_create c =
     (let is_string = (argc c = 0 \<or> eq_ignore_case (arg_str c 0) (ascii ''string''));
          bufs = ss_bufs (c_std c);
          used = length (filter (\<lambda>b. b \<noteq> None) bufs)
      in if \<not> is_string \<or> unat (l_string_buffers (g_limits (c_config c))) \<le> used
         then ok (ret_word f32_neg_one c)
         else
           let (index, bufs) = (case first_hole bufs of
                 Some i \<Rightarrow> (i, bufs[i := Some strbuf_default])
               | None \<Rightarrow> (length bufs, bufs @ [Some strbuf_default]))
           in ok (ret_word (f32_of_nat (index + 1)) (on_std (\<lambda>s. s\<lparr>ss_bufs := bufs\<rparr>) c)))"

definition buf_del :: builtin where
  "buf_del c =
     (case buf_arg c 0 of
        None \<Rightarrow> ok c
      | Some i \<Rightarrow>
          (case buf_at c i of
             None \<Rightarrow> ok c
           | Some buf \<Rightarrow> ok (release (sb_bytes buf) (put_buf i None c))))"

definition buf_getsize :: builtin where
  "buf_getsize c =
     ok (ret_word (f32_of_nat (opt_bytes (\<lambda>b. length (sb_strings b)) (Option.bind (buf_arg c 0) (buf_at c)))) c)"

definition buf_copy :: builtin where
  "buf_copy c =
     (case (buf_arg c 0, buf_arg c 1) of
        (Some from, Some to) \<Rightarrow>
          if from = to then ok c
          else (case buf_at c from of
                  Some copy \<Rightarrow> ok (fst (replace to copy c))
                | None \<Rightarrow> ok c)
      | _ \<Rightarrow> ok c)"

definition buffer_order :: "nat option \<Rightarrow> bool \<Rightarrow> bytes \<Rightarrow> bytes \<Rightarrow> bool" where
  "buffer_order prefix backward a b =
     (let cut = (\<lambda>s. case prefix of None \<Rightarrow> s | Some n \<Rightarrow> take n s)
      in if backward then bytes_le (cut b) (cut a) else bytes_le (cut a) (cut b))"

text \<open>\<open>sort_prefix\<close> is \<open>None\<close> where the code takes \<open>usize::MAX\<close> bytes.\<close>

definition sort_prefix :: "u32 \<Rightarrow> nat option" where
  "sort_prefix p = (if sint p \<le> 0 then None else Some (unat p))"

definition sort_order :: "'s core \<Rightarrow> bytes \<Rightarrow> bytes \<Rightarrow> bool" where
  "sort_order c = buffer_order (sort_prefix (arg_int c 1)) (\<not> f32_eq (arg_word c 2) 0)"

definition buf_sort :: builtin where
  "buf_sort c =
     (case buf_arg c 0 of
        None \<Rightarrow> ok c
      | Some i \<Rightarrow>
             (case buf_at c i of
                None \<Rightarrow> ok c
              | Some buf \<Rightarrow>
                  let strings = sort_by (sort_order c) (List.map_filter (\<lambda>s. s) (sb_strings buf));
                      c = put_buf i (Some (buf\<lparr>sb_strings := []\<rparr>)) c
                  in ok (fst (replace i (from_strings (map Some strings)) c))))"

text \<open>The size of the joined text, or \<open>None\<close> once the temp strings have no room for it.\<close>

primrec implode_size :: "(nat \<Rightarrow> bool) \<Rightarrow> nat \<Rightarrow> bytes list \<Rightarrow> nat \<Rightarrow> nat option" where
  "implode_size room_for glue [] size0 = Some size0"
| "implode_size room_for glue (s # ss) size0 =
     (let size0 = (if 0 < size0 then size0 + glue else size0) + length s
      in if room_for size0 then implode_size room_for glue ss size0 else None)"

definition implode :: "bytes \<Rightarrow> bytes list \<Rightarrow> bytes" where
  "implode glue ss = foldl (\<lambda>out s. (if out \<noteq> [] then out @ glue else out) @ s) [] ss"

definition buf_implode :: builtin where
  "buf_implode c =
     (case buf_arg c 0 of
        None \<Rightarrow> ok (ret_raw (0, 0, 0) c)
      | Some i \<Rightarrow>
          let glue = arg_str c 1;
              strings = (case buf_at c i of Some b \<Rightarrow> List.map_filter (\<lambda>s. s) (sb_strings b) | None \<Rightarrow> [])
          in (case implode_size (s_fits (c_strings c)) (length glue) strings 0 of
                None \<Rightarrow> (c, Some (OutOfMemory TempStrings))
              | Some _ \<Rightarrow> ret_str (implode glue strings) c))"

definition bufstr_get :: builtin where
  "bufstr_get c =
     (case (buf_arg c 0, index_arg c 1) of
        (Some b, Some i) \<Rightarrow>
          (case Option.bind (buf_at c b) (\<lambda>buf. entry_of buf i) of
             Some s \<Rightarrow> ret_str s c
           | None \<Rightarrow> ok (ret_raw (0, 0, 0) c))
      | _ \<Rightarrow> ok (ret_raw (0, 0, 0) c))"

definition bufstr_set :: builtin where
  "bufstr_set c =
     (case (buf_arg c 0, index_arg c 1) of
        (Some b, Some i) \<Rightarrow>
          if MAX_SET_INDEX < i \<or> entry_limit c \<le> i then ok (vm_warn ''bufstr_set: index outside sanity range'' c)
          else ok (fst (store b i (arg_str c 2) c))
      | _ \<Rightarrow> ok c)"

definition bufstr_add :: builtin where
  "bufstr_add c =
     (case buf_arg c 0 of
        None \<Rightarrow> ok (ret_word 0 c)
      | Some b \<Rightarrow>
          let s = arg_str c 1; ordered = (arg_int c 2 \<noteq> 0)
          in (case buf_at c b of
                None \<Rightarrow> ok c
              | Some buf \<Rightarrow>
                  let len = length (sb_strings buf);
                      i = (if ordered then len
                           else case first_hole (sb_strings buf) of Some k \<Rightarrow> k | None \<Rightarrow> len)
                  in if entry_limit c \<le> i
                     then ok (ret_word f32_neg_one (vm_warn ''bufstr_add: string buffer is full'' c))
                     else (case store b i s c of
                             (c, False) \<Rightarrow> ok (ret_word f32_neg_one c)
                           | (c, True) \<Rightarrow> ok (ret_word (f32_of_nat i) c))))"

definition bufstr_free :: builtin where
  "bufstr_free c =
     (case (buf_arg c 0, index_arg c 1) of
        (Some b, Some i) \<Rightarrow>
          (case buf_at c b of
             None \<Rightarrow> ok c
           | Some buf \<Rightarrow> (case strbuf_free i buf of
               (buf, freed) \<Rightarrow> ok (release freed (put_buf b (Some buf) c))))
      | _ \<Rightarrow> ok c)"

definition bufstr_find :: builtin where
  "bufstr_find c0 =
     (let c = ret_word f32_neg_one c0
      in case buf_arg c 0 of
           None \<Rightarrow> ok c
         | Some b \<Rightarrow>
             (case (usize_of_i32 (f2i (opt_f32 c 3 0)), usize_of_i32 (f2i (opt_f32 c 4 f32_one))) of
                (Some start, Some stp) \<Rightarrow>
                  if stp = 0 then ok c
                  else
                    let pat = arg_str c 1;
                        strings = (case buf_at c b of Some buf \<Rightarrow> sb_strings buf | None \<Rightarrow> []);
                        places = map (\<lambda>k. start + k * stp) [0..<(length strings - start + stp - 1) div stp]
                    in (case List.find (\<lambda>i. case Option.bind (nth_opt strings i) (\<lambda>s. s) of
                               Some s \<Rightarrow> matches_rule s pat (arg_int c 2) | None \<Rightarrow> False) places of
                          Some i \<Rightarrow> ok (ret_word (f32_of_nat i) c)
                        | None \<Rightarrow> ok c)
              | _ \<Rightarrow> ok c))"

text \<open>The lines of a file: a carriage return before a newline is dropped, a line ends at a NUL.\<close>

definition strip_cr :: "bytes \<Rightarrow> bytes" where
  "strip_cr line = (if line \<noteq> [] \<and> last line = 13 then butlast line else line)"

function file_lines :: "bytes \<Rightarrow> bytes list" where
  "file_lines rest =
     (if rest = [] then []
      else let n = length (takeWhile (\<lambda>c. c \<noteq> 10) rest)
           in if n < length rest then until_nul (strip_cr (take n rest)) # file_lines (drop (n + 1) rest)
              else [until_nul rest])"
  by pat_completeness auto
termination by (relation "measure length") auto

declare file_lines.simps [simp del]

section \<open>Wildcards match what they say\<close>

text \<open>A text matches if it can be cut into a piece per byte of the pattern.\<close>

definition piece :: "u8 \<Rightarrow> bytes \<Rightarrow> bool" where
  "piece p t = (if p = 42 then list_all (\<lambda>c. \<not> is_slash c) t
                else \<exists>c. t = [c] \<and> (p = 63 \<or> ascii_lower p = ascii_lower c))"

definition wild_match :: "bytes \<Rightarrow> bytes \<Rightarrow> bool" where
  "wild_match pat s \<longleftrightarrow> (\<exists>ts. concat ts = s \<and> list_all2 piece pat ts)"

lemma wild_match_nil [simp]: "wild_match [] s \<longleftrightarrow> s = []"
  by (auto simp: wild_match_def)

lemma wild_match_snoc: "wild_match (pat @ [p]) s \<longleftrightarrow> (\<exists>a b. s = a @ b \<and> wild_match pat a \<and> piece p b)"
proof
  assume "wild_match (pat @ [p]) s"
  then obtain ts where ts: "concat ts = s" "list_all2 piece (pat @ [p]) ts" by (auto simp: wild_match_def)
  from ts(2) obtain us t where us: "ts = us @ [t]" "list_all2 piece pat us" "piece p t"
    by (auto simp: list_all2_append1 list_all2_Cons1)
  then show "\<exists>a b. s = a @ b \<and> wild_match pat a \<and> piece p b"
    using ts(1) unfolding wild_match_def by (intro exI [of _ "concat us"] exI [of _ t]) auto
next
  assume "\<exists>a b. s = a @ b \<and> wild_match pat a \<and> piece p b"
  then obtain a b us where "s = a @ b" "concat us = a" "list_all2 piece pat us" "piece p b"
    by (auto simp: wild_match_def)
  then show "wild_match (pat @ [p]) s"
    unfolding wild_match_def by (intro exI [of _ "us @ [b]"]) (simp add: list_all2_appendI)
qed

lemma match_byte_nil: "p \<noteq> 42 \<Longrightarrow> \<not> wild_match (pat @ [p]) []"
  by (auto simp: wild_match_snoc piece_def)

lemma match_byte_snoc: "p \<noteq> 42 \<Longrightarrow> wild_match (pat @ [p]) (s @ [c]) \<longleftrightarrow>
    wild_match pat s \<and> (p = 63 \<or> ascii_lower p = ascii_lower c)"
  by (auto simp: wild_match_snoc piece_def)

lemma match_star_nil: "wild_match (pat @ [42]) [] \<longleftrightarrow> wild_match pat []"
  by (auto simp: wild_match_snoc piece_def)

lemma match_star_snoc: "wild_match (pat @ [42]) (s @ [c]) \<longleftrightarrow>
    wild_match pat (s @ [c]) \<or> wild_match (pat @ [42]) s \<and> \<not> is_slash c" (is "?l \<longleftrightarrow> ?r")
proof
  assume ?l
  then obtain a b where ab: "s @ [c] = a @ b" "wild_match pat a" "piece 42 b" by (auto simp: wild_match_snoc)
  show ?r
  proof (cases b rule: rev_cases)
    case (snoc b' d)
    then have "s = a @ b'" "d = c" using ab(1) by simp_all
    then show ?thesis using ab snoc by (auto simp: wild_match_snoc piece_def)
  qed (use ab in auto)
next
  assume ?r
  then show ?l
  proof
    assume "wild_match pat (s @ [c])"
    then show ?l unfolding wild_match_snoc by (intro exI [of _ "s @ [c]"] exI [of _ "[]"]) (simp add: piece_def)
  next
    assume "wild_match (pat @ [42]) s \<and> \<not> is_slash c"
    then obtain a b where "s = a @ b" "wild_match pat a" "piece 42 b" "\<not> is_slash c" by (auto simp: wild_match_snoc)
    then show ?l unfolding wild_match_snoc by (intro exI [of _ a] exI [of _ "b @ [c]"]) (simp add: piece_def)
  qed
qed

text \<open>The row of a pattern for a string that starts with \<open>t\<close>, from there on.\<close>

definition row_from :: "bytes \<Rightarrow> bytes \<Rightarrow> bytes \<Rightarrow> bool list" where
  "row_from pat t s = map (\<lambda>j. wild_match pat (t @ take j s)) [0..<length s + 1]"

lemma row_from_nil [simp]: "row_from pat t [] = [wild_match pat t]"
  by (simp add: row_from_def)

lemma row_from_cons [simp]: "row_from pat t (c # s) = wild_match pat t # row_from pat (t @ [c]) s"
  unfolding row_from_def by (simp add: upt_conv_Cons map_Suc_upt [symmetric] del: upt_Suc)

lemma star_from_row:
  "going = wild_match (pat @ [42]) t \<Longrightarrow>
    going # star_from going (zip s (tl (row_from pat t s))) = row_from (pat @ [42]) t s"
proof (induction s arbitrary: t going)
  case (Cons c s)
  have hd: "row_from pat (t @ [c]) s = wild_match pat (t @ [c]) # tl (row_from pat (t @ [c]) s)"
    by (cases s) simp_all
  have next_run: "(wild_match pat (t @ [c]) \<or> going \<and> \<not> is_slash c) = wild_match (pat @ [42]) (t @ [c])"
    using Cons.prems by (simp add: match_star_snoc)
  have "zip (c # s) (tl (row_from pat t (c # s))) =
      (c, wild_match pat (t @ [c])) # zip s (tl (row_from pat (t @ [c]) s))"
    by (simp add: zip_Cons1) (subst hd, simp)
  then have "going # star_from going (zip (c # s) (tl (row_from pat t (c # s)))) =
      going # wild_match (pat @ [42]) (t @ [c]) #
        star_from (wild_match (pat @ [42]) (t @ [c])) (zip s (tl (row_from pat (t @ [c]) s)))"
    using next_run by (simp add: Let_def)
  then show ?case using Cons.IH [OF refl, of "t @ [c]"] Cons.prems by simp
qed simp

lemma byte_from_row:
  "p \<noteq> 42 \<Longrightarrow> map2 (\<lambda>c b. b \<and> (p = 63 \<or> ascii_lower p = ascii_lower c)) s (row_from pat t s) =
    tl (row_from (pat @ [p]) t s)"
proof (induction s arbitrary: t)
  case (Cons c s)
  have "row_from (pat @ [p]) (t @ [c]) s = wild_match (pat @ [p]) (t @ [c]) # tl (row_from (pat @ [p]) (t @ [c]) s)"
    by (cases s) simp_all
  then show ?case using Cons by (simp add: match_byte_snoc)
qed simp

lemma row_step:
  "(if p = 42 then star_row s (row_from pat [] s) else byte_row p s (row_from pat [] s)) = row_from (pat @ [p]) [] s"
proof -
  have h: "row_from pat' [] s = wild_match pat' [] # tl (row_from pat' [] s)" for pat' by (cases s) simp_all
  show ?thesis
  proof (cases "p = 42")
    case True
    then show ?thesis
      using star_from_row [of "wild_match pat []" pat "[]" s] h [of pat]
      by (simp add: star_row_def match_star_nil) (metis list.sel(1))
  next
    case False
    then show ?thesis
      using h [of "pat @ [p]"] by (simp add: byte_row_def byte_from_row match_byte_nil)
  qed
qed

lemma row_fold:
  "foldl (\<lambda>row p. if p = 42 then star_row s row else byte_row p s row) (row_from [] [] s) pat = row_from pat [] s"
proof (induction pat rule: rev_induct)
  case (snoc p pat)
  then show ?case using row_step [of p s pat] by simp
qed simp

text \<open>C26: a wildcard pattern matches exactly the texts that can be cut into pieces, one for each byte of the
  pattern: a star takes any run of bytes without slashes, a question mark any byte, and any other byte itself in
  either case.\<close>

theorem wildcmp_matches: "wildcmp pat s \<longleftrightarrow> wild_match pat s"
proof -
  have "row_from [] [] s = True # replicate (length s) False"
    by (auto simp: row_from_def upt_conv_Cons map_replicate_const [symmetric] intro!: nth_equalityI simp del: upt_Suc)
  moreover have "last (row_from pat [] s) = wild_match pat s"
    by (simp add: row_from_def)
  ultimately show ?thesis using row_fold [of s pat] by (simp add: wildcmp_def)
qed

section \<open>Buffers know their size\<close>

definition buf_ok :: "strbuf \<Rightarrow> bool" where
  "buf_ok b \<longleftrightarrow> sb_bytes b = length (sb_strings b) * SLOT_BYTES + sum_list (map (opt_bytes length) (sb_strings b))"

definition bufs_ok :: "score \<Rightarrow> bool" where
  "bufs_ok c \<longleftrightarrow> (\<forall>i b. buf_at c i = Some b \<longrightarrow> buf_ok b)"

definition buffers_inv :: "score \<Rightarrow> bool" where
  "buffers_inv c \<longleftrightarrow> accounted c \<and> bufs_ok c"

lemma foldl_bytes: "foldl (\<lambda>n s. n + opt_bytes length s) a ss = a + sum_list (map (opt_bytes length) ss)"
  by (induction ss arbitrary: a) simp_all

lemma from_strings_ok [simp]: "buf_ok (from_strings ss)"
  by (simp add: buf_ok_def from_strings_def foldl_bytes)

lemma strbuf_default_ok [simp]: "buf_ok strbuf_default"
  by (simp add: buf_ok_def strbuf_default_def)

lemma entry_of_nth: "i < length (sb_strings b) \<Longrightarrow> entry_of b i = sb_strings b ! i"
  by (simp add: entry_of_def nth_opt_def)

lemma entry_of_beyond: "length (sb_strings b) \<le> i \<Longrightarrow> entry_of b i = None"
  by (simp add: entry_of_def nth_opt_def)

lemma strbuf_set_strings:
  "sb_strings (strbuf_set i s b) =
     (sb_strings b @ replicate (i + 1 - length (sb_strings b)) None)[i := Some s]"
  by (simp add: strbuf_set_def)

lemma set_entry: "entry_of (strbuf_set i s b) j = (if j = i then Some s else entry_of b j)"
  by (auto simp: entry_of_def strbuf_set_strings nth_opt_def nth_append nth_list_update)

lemma strbuf_set_ok:
  assumes "buf_ok b"
  shows "buf_ok (strbuf_set i s b)" "sb_bytes (strbuf_set i s b) = bytes_after_set b i (length s)"
proof -
  let ?ss = "sb_strings b @ replicate (i + 1 - length (sb_strings b)) None"
  have "i < length ?ss" by simp
  from sum_list_update_opt [OF this, of length "Some s"]
  have sum: "sum_list (map (opt_bytes length) (?ss[i := Some s])) + opt_bytes length (?ss ! i) =
      sum_list (map (opt_bytes length) (sb_strings b)) + length s" by (simp add: sum_list_replicate)
  have old: "opt_bytes length (?ss ! i) = opt_bytes length (entry_of b i)"
    by (cases "i < length (sb_strings b)") (simp_all add: nth_append entry_of_nth entry_of_beyond)
  have len: "length ?ss = length (sb_strings b) + (i + 1 - length (sb_strings b))" by simp
  show "sb_bytes (strbuf_set i s b) = bytes_after_set b i (length s)" by (simp add: strbuf_set_def)
  then show "buf_ok (strbuf_set i s b)"
    using assms sum [unfolded old] by (simp add: buf_ok_def strbuf_set_strings bytes_after_set_def Let_def add_mult_distrib)
qed

lemma strbuf_free_ok:
  assumes "buf_ok b"
  shows "buf_ok (fst (strbuf_free i b))" "sb_bytes (fst (strbuf_free i b)) + snd (strbuf_free i b) = sb_bytes b"
proof -
  have "buf_ok (fst (strbuf_free i b)) \<and> sb_bytes (fst (strbuf_free i b)) + snd (strbuf_free i b) = sb_bytes b"
  proof (cases "i < length (sb_strings b)")
    case True
    then show ?thesis
      using sum_list_update_opt [OF True, of length None] assms
      by (simp add: buf_ok_def strbuf_free_def Let_def entry_of_nth)
  next
    case False
    then show ?thesis using assms
      by (simp add: strbuf_free_def Let_def entry_of_beyond buf_ok_def list_update_beyond)
  qed
  then show "buf_ok (fst (strbuf_free i b))" "sb_bytes (fst (strbuf_free i b)) + snd (strbuf_free i b) = sb_bytes b"
    by simp_all
qed

section \<open>The accounts of the buffers\<close>

lemma buf_at_some: "buf_at c i = Some b \<longleftrightarrow> i < length (ss_bufs (c_std c)) \<and> ss_bufs (c_std c) ! i = Some b"
  by (auto simp: buf_at_def nth_opt_def split: if_splits)

lemma buf_at_put: "i < length (ss_bufs (c_std c)) \<Longrightarrow> buf_at (put_buf i b c) j = (if j = i then b else buf_at c j)"
  by (simp add: buf_at_def put_buf_def nth_opt_def)

lemma buf_at_cong: "ss_bufs (c_std d) = ss_bufs (c_std c) \<Longrightarrow> buf_at d = buf_at c"
  by (auto simp: buf_at_def)

lemma buf_at_std [simp]: "buf_at (vm_warn s c) = buf_at c" "buf_at (ret_word x c) = buf_at c"
  "buf_at (ret_raw w c) = buf_at c" "buf_at (release n c) = buf_at c" "buf_at (fst (ret_str bs c)) = buf_at c"
  by (simp_all add: buf_at_def [abs_def] release_def)

lemma recharge_bufs [simp]: "recharge old new c = (c', r) \<Longrightarrow> ss_bufs (c_std c') = ss_bufs (c_std c)"
  by (auto simp: recharge_def charge_def release_def Let_def split: if_splits)

lemma bytes_put:
  assumes "buf_at c i = Some b"
  shows "bufs_bytes ((ss_bufs (c_std c))[i := b']) + sb_bytes b = bufs_bytes (ss_bufs (c_std c)) + opt_bytes sb_bytes b'"
  using sum_list_update_opt [of i "ss_bufs (c_std c)" sb_bytes b'] assms by (simp add: buf_at_some bufs_bytes_def)

lemma bytes_le: "buf_at c i = Some b \<Longrightarrow> sb_bytes b \<le> bufs_bytes (ss_bufs (c_std c))"
  using bytes_put [of c i b None] by simp

lemma replaced_accounted:
  assumes a: "accounted c" and b: "buf_at c i = Some old" and r: "recharge (sb_bytes old) n c = (c', True)"
    and n: "sb_bytes contents = n"
  shows "accounted (put_buf i (Some contents) c')"
  unfolding put_buf_def
proof (rule buffer_share.recharged [OF a r bytes_le [OF b]])
  show "bufs_bytes (ss_bufs (c_std c'\<lparr>ss_bufs := (ss_bufs (c_std c'))[i := Some contents]\<rparr>)) + sb_bytes old =
      bufs_bytes (ss_bufs (c_std c)) + n"
    using bytes_put [OF b, of "Some contents"] r by (simp add: n)
  have "ss_tokens (c_std c') = ss_tokens (c_std c)" "ss_hash (c_std c') = ss_hash (c_std c)"
    using r by (auto simp: recharge_def charge_def release_def Let_def split: if_splits)
  then show "ts_bytes (ss_tokens (c_std c'\<lparr>ss_bufs := (ss_bufs (c_std c'))[i := Some contents]\<rparr>)) +
      tables_bytes (ss_hash (c_std c'\<lparr>ss_bufs := (ss_bufs (c_std c'))[i := Some contents]\<rparr>)) =
      ts_bytes (ss_tokens (c_std c)) + tables_bytes (ss_hash (c_std c))" by simp
qed simp

lemma replaced_bufs:
  assumes "bufs_ok c" "buf_at c i = Some old" "recharge (sb_bytes old) n c = (c', True)" "buf_ok contents"
  shows "bufs_ok (put_buf i (Some contents) c')"
proof -
  have "ss_bufs (c_std c') = ss_bufs (c_std c)" using assms(3) by simp
  then have "buf_at (put_buf i (Some contents) c') j = (if j = i then Some contents else buf_at c j)" for j
    using assms(2) buf_at_cong [of c' c] by (simp add: buf_at_put buf_at_some)
  then show ?thesis using assms(1,4) by (auto simp: bufs_ok_def)
qed

lemma bufs_ok_std [simp]: "bufs_ok (vm_warn s c) = bufs_ok c" "bufs_ok (ret_word x c) = bufs_ok c"
  "bufs_ok (ret_raw w c) = bufs_ok c" "bufs_ok (release n c) = bufs_ok c" "bufs_ok (fst (ret_str bs c)) = bufs_ok c"
  by (simp_all add: bufs_ok_def)

lemma buffers_inv_std [simp]: "buffers_inv (vm_warn s c) = buffers_inv c" "buffers_inv (ret_word x c) = buffers_inv c"
  "buffers_inv (ret_raw w c) = buffers_inv c" "buffers_inv (fst (ret_str bs c)) = buffers_inv c"
  by (simp_all add: buffers_inv_def)

lemma replace_inv:
  assumes "buffers_inv c" "buf_ok contents"
  shows "buffers_inv (fst (replace i contents c))"
proof (cases "buf_at c i")
  case (Some old)
  obtain c' r where r: "recharge (sb_bytes old) (sb_bytes contents) c = (c', r)" by fastforce
  show ?thesis
  proof (cases r)
    case True
    then have t: "recharge (sb_bytes old) (sb_bytes contents) c = (c', True)" using r by simp
    show ?thesis
      using replaced_accounted [OF _ Some t refl] replaced_bufs [OF _ Some t assms(2)]
        assms(1) t Some by (simp add: replace_def buffers_inv_def)
  next
    case False
    then show ?thesis using buffer_share.refused r Some assms(1) by (simp add: replace_def) (metis)
  qed
qed (simp add: replace_def assms(1))

lemma store_inv:
  assumes "buffers_inv c"
  shows "buffers_inv (fst (store b i s c))"
proof (cases "buf_at c b")
  case (Some buf)
  then have ok: "buf_ok buf" using assms by (auto simp: buffers_inv_def bufs_ok_def)
  obtain c' r where r: "recharge (sb_bytes buf) (bytes_after_set buf i (length s)) c = (c', r)" by fastforce
  show ?thesis
  proof (cases r)
    case True
    then have t: "recharge (sb_bytes buf) (bytes_after_set buf i (length s)) c = (c', True)" using r by simp
    show ?thesis
      using replaced_accounted [OF _ Some t strbuf_set_ok(2) [OF ok]]
        replaced_bufs [OF _ Some t strbuf_set_ok(1) [OF ok]] assms t Some
      by (simp add: store_def buffers_inv_def)
  next
    case False
    then show ?thesis using buffer_share.refused r Some assms by (simp add: store_def) (metis)
  qed
qed (simp add: store_def assms)

lemma put_smaller:
  assumes "buffers_inv c" "buf_at c i = Some old" "opt_bytes sb_bytes b + n = sb_bytes old"
    "\<And>x. b = Some x \<Longrightarrow> buf_ok x"
  shows "buffers_inv (release n (put_buf i b c))"
proof -
  have "accounted (release n (put_buf i b c))"
    unfolding put_buf_def
  proof (rule buffer_share.released)
    show "bufs_bytes (ss_bufs (c_std c\<lparr>ss_bufs := (ss_bufs (c_std c))[i := b]\<rparr>)) + n = bufs_bytes (ss_bufs (c_std c))"
      using bytes_put [OF assms(2), of b] assms(3) by simp
  qed (use assms(1) in \<open>simp_all add: buffers_inv_def\<close>)
  moreover have "bufs_ok (put_buf i b c)"
    using assms buf_at_put [of i c b] by (auto simp: bufs_ok_def buffers_inv_def buf_at_some)
  ultimately show ?thesis by (simp add: buffers_inv_def)
qed

section \<open>Sorting\<close>

lemma insert_by_mset [simp]: "mset (insert_by le x ys) = add_mset x (mset ys)"
  by (induction ys) simp_all

lemma sort_by_mset: "mset (sort_by le xs) = mset xs"
  by (induction xs) (simp_all add: sort_by_def)

lemma insert_by_set: "set (insert_by le x ys) = insert x (set ys)"
  by (induction ys) auto

lemma insert_by_sorted:
  assumes "sorted_wrt le ys" "\<And>a b. le a b \<or> le b a" "\<And>a b c. le a b \<Longrightarrow> le b c \<Longrightarrow> le a c"
  shows "sorted_wrt le (insert_by le x ys)"
  using assms(1)
proof (induction ys)
  case (Cons y ys)
  then show ?case using assms(2,3) by (auto simp: insert_by_set)
qed simp

lemma sort_by_sorted:
  assumes "\<And>a b. le a b \<or> le b a" "\<And>a b c. le a b \<Longrightarrow> le b c \<Longrightarrow> le a c"
  shows "sorted_wrt le (sort_by le xs)"
  by (induction xs) (simp_all add: sort_by_def insert_by_sorted assms)

text \<open>Stable: elements that compare equal to \<open>x\<close> keep their order.\<close>

lemma insert_by_stable:
  assumes "\<And>a b c. le a b \<Longrightarrow> le b c \<Longrightarrow> le a c"
  shows "filter (\<lambda>y. le x y \<and> le y x) (insert_by le z ys) =
    (if le x z \<and> le z x then z # filter (\<lambda>y. le x y \<and> le y x) ys else filter (\<lambda>y. le x y \<and> le y x) ys)"
proof (induction ys)
  case (Cons y ys)
  have "le z y" if "le x z" "le z x" "le x y" "le y x" using that assms by blast
  then show ?case using Cons by auto
qed simp

lemma sort_by_stable:
  assumes "\<And>a b c. le a b \<Longrightarrow> le b c \<Longrightarrow> le a c"
  shows "filter (\<lambda>y. le x y \<and> le y x) (sort_by le xs) = filter (\<lambda>y. le x y \<and> le y x) xs"
proof -
  have "filter (\<lambda>y. le x y \<and> le y x) (insert_by le z ys) =
    (if le x z \<and> le z x then z # filter (\<lambda>y. le x y \<and> le y x) ys else filter (\<lambda>y. le x y \<and> le y x) ys)" for z ys
    by (rule insert_by_stable) (rule assms)
  then show ?thesis by (induction xs) (simp_all add: sort_by_def)
qed

lemma bytes_le_total: "bytes_le a b \<or> bytes_le b a"
  by (induction a b rule: bytes_le.induct) auto

lemma bytes_le_trans: "bytes_le a b \<Longrightarrow> bytes_le b c \<Longrightarrow> bytes_le a c"
proof (induction a b arbitrary: c rule: bytes_le.induct)
  case (3 x xs y ys)
  then show ?case by (cases c) auto
qed auto

lemma buffer_order_total: "buffer_order n back a b \<or> buffer_order n back b a"
  using bytes_le_total by (auto simp: buffer_order_def Let_def)

lemma buffer_order_trans: "buffer_order n back a b \<Longrightarrow> buffer_order n back b c \<Longrightarrow> buffer_order n back a c"
  using bytes_le_trans by (auto simp: buffer_order_def Let_def split: if_splits)

lemma map_filter_bytes:
  "sum_list (map (opt_bytes f) (map Some (List.map_filter (\<lambda>s. s) ss))) = sum_list (map (opt_bytes f) ss)"
  by (induction ss) (auto simp: List.map_filter_def opt_bytes_def)

lemma sum_list_mset_cong: "mset xs = mset ys \<Longrightarrow> sum_list (map f xs) = sum_list (map f (ys :: 'a list) :: nat list)"
  by (metis mset_map sum_mset_sum_list)

lemma sorted_bytes:
  fixes le :: "bytes \<Rightarrow> bytes \<Rightarrow> bool"
  shows "sb_bytes (from_strings (map Some (sort_by le (List.map_filter (\<lambda>s. s) ss)))) \<le>
    length ss * SLOT_BYTES + sum_list (map (opt_bytes length) ss)"
proof -
  let ?xs = "List.map_filter (\<lambda>s. s) ss"
  have len: "length (sort_by le ?xs) = length ?xs" by (metis size_mset sort_by_mset)
  have "length ?xs \<le> length ss" by (simp add: List.map_filter_def)
  moreover have "sum_list (map (opt_bytes length) (map Some (sort_by le ?xs))) = sum_list (map (opt_bytes length) ss)"
    using sum_list_mset_cong [OF sort_by_mset [of le ?xs], of "\<lambda>s. opt_bytes length (Some s)"]
      map_filter_bytes [of length ss] by (simp add: comp_def)
  ultimately show ?thesis by (simp add: from_strings_def foldl_bytes len)
qed

lemma buf_arg_at: "buf_arg c k = Some i \<Longrightarrow> \<exists>b. buf_at c i = Some b"
  by (auto simp: buf_arg_def split: bind_splits)

lemma buf_sort_stores:
  assumes "buffers_inv c" "buf_arg c 0 = Some i" "buf_at c i = Some b"
  shows "buffers_inv (fst (buf_sort c)) \<and> buf_at (fst (buf_sort c)) i = Some (from_strings (map Some (sort_by (sort_order c) (List.map_filter (\<lambda>s. s) (sb_strings b)))))"
proof -
  let ?new = "from_strings (map Some (sort_by (sort_order c) (List.map_filter (\<lambda>s. s) (sb_strings b))))"
  let ?d = "put_buf i (Some (b\<lparr>sb_strings := []\<rparr>)) c"
  have i: "i < length (ss_bufs (c_std c))" using assms(3) by (simp add: buf_at_some)
  have ok: "buf_ok b" using assms by (auto simp: buffers_inv_def bufs_ok_def)
  have d: "buf_at ?d i = Some (b\<lparr>sb_strings := []\<rparr>)" using i by (simp add: buf_at_put)
  have less: "sb_bytes ?new \<le> sb_bytes b" using sorted_bytes ok by (simp add: buf_ok_def)
  have acc: "accounted ?d"
    unfolding put_buf_def
  proof (rule buffer_share.untouched)
    show "bufs_bytes (ss_bufs (c_std c\<lparr>ss_bufs := (ss_bufs (c_std c))[i := Some (b\<lparr>sb_strings := []\<rparr>)]\<rparr>)) =
        bufs_bytes (ss_bufs (c_std c))"
      using bytes_put [OF assms(3), of "Some (b\<lparr>sb_strings := []\<rparr>)"] by simp
  qed (use assms(1) in \<open>simp_all add: buffers_inv_def\<close>)
  obtain c' where r: "recharge (sb_bytes b) (sb_bytes ?new) ?d = (c', True)" using recharge_less [OF acc less] by blast
  have r': "recharge (sb_bytes (b\<lparr>sb_strings := []\<rparr>)) (sb_bytes ?new) ?d = (c', True)" using r by simp
  have res: "fst (buf_sort c) = put_buf i (Some ?new) c'"
    using assms(2,3) d r by (simp add: buf_sort_def Let_def replace_def)
  have same: "ss_bufs (c_std c') = ss_bufs (c_std ?d)" using r by simp
  have i': "i < length (ss_bufs (c_std c'))" unfolding same using i by (simp add: put_buf_def)
  have at: "buf_at (put_buf i (Some ?new) c') j = (if j = i then Some ?new else buf_at c j)" for j
    using buf_at_put [OF i', of "Some ?new" j] buf_at_put [OF i, of "Some (b\<lparr>sb_strings := []\<rparr>)" j]
      buf_at_cong [OF same] by simp
  have "accounted (put_buf i (Some ?new) c')" using replaced_accounted [OF acc d r' refl] .
  moreover have "bufs_ok (put_buf i (Some ?new) c')"
    using assms(1) at by (auto simp: bufs_ok_def buffers_inv_def)
  ultimately show ?thesis using at by (simp add: res buffers_inv_def)
qed

text \<open>The order of the code is the lexicographic order of the library.\<close>

lemma bytes_le_lexordp: "bytes_le a b \<longleftrightarrow> ord_class.lexordp_eq a b"
  by (induction a b rule: bytes_le.induct) auto

lemma sort_order_keys:
  assumes "key = (\<lambda>s :: bytes. if sint (arg_int c 1) \<le> 0 then s else take (nat (sint (arg_int c 1))) s)"
  shows "sort_order c x y \<longleftrightarrow>
    (if f32_eq (arg_word c 2) 0 then ord_class.lexordp_eq (key x) (key y) else ord_class.lexordp_eq (key y) (key x))"
proof -
  have "nat (sint w) = unat w" if "0 < sint w" for w :: u32
    using that sint_lt [of w] by (simp add: unat_eq_nat_uint uint_sint take_bit_int_eq_self)
  then have "(case sort_prefix (arg_int c 1) of None \<Rightarrow> s | Some n \<Rightarrow> take n s) = key s" for s
    by (simp add: sort_prefix_def assms not_le)
  then show ?thesis by (simp add: sort_order_def buffer_order_def bytes_le_lexordp)
qed

text \<open>C27: \<open>buf_sort\<close> drops the holes of the buffer and leaves its strings, each as often as before, in
  lexicographic order of the bytes that the second argument says (all of them if it is not positive), descending if the
  third argument is not zero and ascending otherwise; strings with the same such bytes stay in the order they had.\<close>

theorem buf_sort_sorts:
  assumes "buffers_inv c" "buf_arg c 0 = Some i" "buf_at c i = Some b"
  shows "let n = sint (arg_int c 1); key = (\<lambda>s :: bytes. if n \<le> 0 then s else take (nat n) s);
      old = List.map_filter (\<lambda>s. s) (sb_strings b) in
    \<exists>ss. map_option sb_strings (buf_at (fst (buf_sort c)) i) = Some (map Some ss) \<and>
      mset ss = mset old \<and>
      (if f32_eq (arg_word c 2) 0 then sorted_wrt (\<lambda>x y. ord_class.lexordp_eq (key x) (key y)) ss
       else sorted_wrt (\<lambda>x y. ord_class.lexordp_eq (key y) (key x)) ss) \<and>
      (\<forall>k. filter (\<lambda>s. key s = k) ss = filter (\<lambda>s. key s = k) old)"
proof -
  define key where "key = (\<lambda>s :: bytes. if sint (arg_int c 1) \<le> 0 then s else take (nat (sint (arg_int c 1))) s)"
  let ?le = "sort_order c" and ?old = "List.map_filter (\<lambda>s. s) (sb_strings b)"
  let ?ss = "sort_by ?le ?old"
  note le = sort_order_keys [OF key_def]
  have leq: "?le = (\<lambda>x y. if f32_eq (arg_word c 2) 0 then ord_class.lexordp_eq (key x) (key y)
      else ord_class.lexordp_eq (key y) (key x))" by (simp add: fun_eq_iff le)
  have total: "?le x y \<or> ?le y x" for x y unfolding sort_order_def by (rule buffer_order_total)
  have trans: "?le x y \<Longrightarrow> ?le y z \<Longrightarrow> ?le x z" for x y z unfolding sort_order_def by (rule buffer_order_trans)
  have dir: "if f32_eq (arg_word c 2) 0 then sorted_wrt (\<lambda>x y. ord_class.lexordp_eq (key x) (key y)) xs
      else sorted_wrt (\<lambda>x y. ord_class.lexordp_eq (key y) (key x)) xs" if "sorted_wrt ?le xs" for xs
    using that by (cases "f32_eq (arg_word c 2) 0") (simp_all add: leq)
  have "sorted_wrt ?le ?ss" using total trans by (rule sort_by_sorted)
  from dir [OF this] have "if f32_eq (arg_word c 2) 0 then sorted_wrt (\<lambda>x y. ord_class.lexordp_eq (key x) (key y)) ?ss
      else sorted_wrt (\<lambda>x y. ord_class.lexordp_eq (key y) (key x)) ?ss" .
  moreover have "filter (\<lambda>s. key s = k) ?ss = filter (\<lambda>s. key s = k) ?old" for k
  proof (cases "\<exists>x \<in> set ?old. key x = k")
    case True
    then obtain x where "key x = k" by blast
    then have "(\<lambda>y. ?le x y \<and> ?le y x) = (\<lambda>s. key s = k)"
      by (auto simp: le fun_eq_iff lexordp_eq_refl dest: lexordp_eq_antisym)
    then show ?thesis using sort_by_stable [of ?le x ?old, OF trans] by simp
  next
    case False
    moreover have "set ?ss = set ?old" by (metis set_mset_mset sort_by_mset)
    ultimately show ?thesis by (metis (mono_tags, lifting) filter_False)
  qed
  moreover have "map_option sb_strings (buf_at (fst (buf_sort c)) i) = Some (map Some ?ss)"
    using buf_sort_stores [OF assms] by (simp add: from_strings_def)
  ultimately show ?thesis unfolding Let_def key_def using sort_by_mset [of ?le ?old] by blast
qed

section \<open>Every operation keeps the accounts\<close>

lemma first_hole_nth: "first_hole xs = Some i \<Longrightarrow> i < length xs \<and> xs ! i = None"
  using nth_length_takeWhile [of "\<lambda>x. x \<noteq> None" xs] by (auto simp: first_hole_def Let_def split: if_splits)

lemma buf_create_inv:
  assumes "buffers_inv c"
  shows "buffers_inv (fst (buf_create c))"
proof -
  have bytes: "bufs_bytes (ss_bufs (c_std c) @ [Some strbuf_default]) = bufs_bytes (ss_bufs (c_std c))"
    "i < length (ss_bufs (c_std c)) \<Longrightarrow> ss_bufs (c_std c) ! i = None \<Longrightarrow>
      bufs_bytes ((ss_bufs (c_std c))[i := Some strbuf_default]) = bufs_bytes (ss_bufs (c_std c))" for i
    using sum_list_update_opt [of i "ss_bufs (c_std c)" sb_bytes "Some strbuf_default"]
    by (simp_all add: bufs_bytes_def strbuf_default_def)
  have put: "buffers_inv (on_std (\<lambda>s. s\<lparr>ss_bufs := bufs\<rparr>) c)"
    if "bufs_bytes bufs = bufs_bytes (ss_bufs (c_std c))"
      "\<And>j b. nth_opt bufs j = Some (Some b) \<Longrightarrow> b = strbuf_default \<or> buf_at c j = Some b" for bufs
  proof -
    have "accounted (on_std (\<lambda>s. s\<lparr>ss_bufs := bufs\<rparr>) c)"
      by (rule buffer_share.untouched) (use assms that(1) in \<open>simp_all add: buffers_inv_def\<close>)
    moreover have "bufs_ok (on_std (\<lambda>s. s\<lparr>ss_bufs := bufs\<rparr>) c)"
      using assms that(2) by (fastforce simp: bufs_ok_def buffers_inv_def buf_at_def split: bind_splits)
    ultimately show ?thesis by (simp add: buffers_inv_def)
  qed
  have "buffers_inv (on_std (\<lambda>s. s\<lparr>ss_bufs := (ss_bufs (c_std c))[i := Some strbuf_default]\<rparr>) c)"
    if "first_hole (ss_bufs (c_std c)) = Some i" for i
    by (rule put) (use first_hole_nth [OF that] bytes(2) [of i] in
        \<open>auto simp: nth_opt_update buf_at_def split: if_splits\<close>)
  moreover have "buffers_inv (on_std (\<lambda>s. s\<lparr>ss_bufs := ss_bufs (c_std c) @ [Some strbuf_default]\<rparr>) c)"
    by (rule put) (use bytes(1) in \<open>auto simp: nth_opt_def nth_append buf_at_def split: if_splits\<close>)
  ultimately show ?thesis
    using assms by (auto simp: buf_create_def Let_def split: option.splits)
qed

lemma buf_del_inv: "buffers_inv c \<Longrightarrow> buffers_inv (fst (buf_del c))"
  using put_smaller [of c _ _ None] by (auto simp: buf_del_def split: option.splits)

lemma buf_copy_inv:
  assumes "buffers_inv c"
  shows "buffers_inv (fst (buf_copy c))"
proof -
  have "buffers_inv (fst (replace to b c))" if "buf_at c from = Some b" for to "from" b
    using replace_inv [OF assms] assms that by (auto simp: buffers_inv_def bufs_ok_def)
  then show ?thesis using assms by (auto simp: buf_copy_def split: option.splits)
qed

lemma buf_sort_inv:
  assumes "buffers_inv c"
  shows "buffers_inv (fst (buf_sort c))"
proof (cases "buf_arg c 0")
  case (Some i)
  then obtain b where "buf_at c i = Some b" using buf_arg_at by blast
  then show ?thesis using buf_sort_stores [OF assms Some] by blast
qed (simp add: buf_sort_def assms)

lemma bufstr_free_inv:
  assumes "buffers_inv c"
  shows "buffers_inv (fst (bufstr_free c))"
proof -
  have "buffers_inv (release freed (put_buf b (Some buf') c))"
    if "buf_at c b = Some buf" "strbuf_free i buf = (buf', freed)" for b i buf buf' freed
  proof -
    have ok: "buf_ok buf" using assms that(1) by (auto simp: buffers_inv_def bufs_ok_def)
    show ?thesis
      by (rule put_smaller [OF assms that(1)]) (use strbuf_free_ok [OF ok, of i] that(2) in simp_all)
  qed
  then show ?thesis using assms by (auto simp: bufstr_free_def split: option.splits prod.splits)
qed

lemma bufstr_store_inv:
  assumes "buffers_inv c"
  shows "buffers_inv (fst (bufstr_set c))" "buffers_inv (fst (bufstr_add c))"
proof -
  have st: "buffers_inv d" if "store b i s c = (d, r)" for b i s d r
    using store_inv [OF assms, of b i s] that by simp
  show "buffers_inv (fst (bufstr_set c))"
    using assms st by (auto simp: bufstr_set_def store_inv split: option.splits)
  show "buffers_inv (fst (bufstr_add c))"
    using assms st by (auto simp: bufstr_add_def Let_def split: option.splits prod.splits bool.splits)
qed

definition buffer_builtins :: "builtin list" where
  "buffer_builtins = [buf_create, buf_del, buf_getsize, buf_copy, buf_sort, buf_implode, bufstr_get, bufstr_set,
     bufstr_add, bufstr_free, bufstr_find]"

lemma buffer_builtins_keep:
  assumes "f \<in> set buffer_builtins" "buffers_inv c"
  shows "buffers_inv (fst (f c))"
proof -
  have "buffers_inv (fst (buf_getsize c))" "buffers_inv (fst (buf_implode c))" "buffers_inv (fst (bufstr_get c))"
    "buffers_inv (fst (bufstr_find c))"
    using assms(2) by (auto simp: buf_getsize_def buf_implode_def bufstr_get_def bufstr_find_def Let_def
        split: option.splits)
  then show ?thesis
    using assms by (auto simp: buffer_builtins_def buf_create_inv buf_del_inv buf_copy_inv buf_sort_inv
        bufstr_free_inv bufstr_store_inv)
qed

section \<open>What a buffer remembers\<close>

text \<open>A string stored in a buffer is read back from its place, and no other place of any buffer changes; a
  refused store changes no buffer.\<close>

theorem stored_string_is_there:
  "case store b i s c of
     (d, True) \<Rightarrow> (\<exists>old buf. buf_at c b = Some old \<and> buf_at d b = Some buf \<and>
        (\<forall>j. entry_of buf j = (if j = i then Some s else entry_of old j)) \<and>
        length (sb_strings buf) = max (length (sb_strings old)) (i + 1)) \<and>
        (\<forall>k. k \<noteq> b \<longrightarrow> buf_at d k = buf_at c k)
   | (d, False) \<Rightarrow> \<forall>k. buf_at d k = buf_at c k"
proof (cases "buf_at c b")
  case (Some old)
  obtain c' r where r: "recharge (sb_bytes old) (bytes_after_set old i (length s)) c = (c', r)" by fastforce
  have same: "ss_bufs (c_std c') = ss_bufs (c_std c)" using r by simp
  then have "b < length (ss_bufs (c_std c'))" using Some by (simp add: buf_at_some)
  from buf_at_put [OF this, of "Some (strbuf_set i s old)"]
  have "buf_at (put_buf b (Some (strbuf_set i s old)) c') k = (if k = b then Some (strbuf_set i s old) else buf_at c k)" for k
    using buf_at_cong [OF same] by simp
  moreover have "length (sb_strings (strbuf_set i s old)) = max (length (sb_strings old)) (i + 1)"
    by (simp add: strbuf_set_strings)
  ultimately show ?thesis
    using r Some buf_at_cong [OF same] by (cases r) (simp_all add: store_def set_entry)
qed (simp add: store_def)

theorem stored_string_is_there_witness:
  "case store 0 2 [65] (fst (buf_create sample_score)) of
     (d, True) \<Rightarrow> buf_at d 1 = buf_at (fst (buf_create sample_score)) 1
   | (d, False) \<Rightarrow> buf_at d 0 = buf_at (fst (buf_create sample_score)) 0"
  using stored_string_is_there [where b = 0 and i = 2 and s = "[65]" and c = "fst (buf_create sample_score)"]
  by (simp split: prod.splits bool.splits)

section \<open>What else changes\<close>

lemma keeping_put_buf: "keeping not_bufs c (put_buf i b c)"
  unfolding put_buf_def by (rule keeping_std) simp

lemma keeping_store: "keeping not_bufs c (fst (store b i s c))" "keeping not_bufs c (fst (replace b x c))"
  by (auto simp: store_def replace_def keeping_refl split: option.split prod.split bool.split
      intro: keeping_trans [OF by_bufs.via_charge(2)] keeping_intros keeping_put_buf)

lemma via_store: "store b i s c = (d, r) \<Longrightarrow> keeping not_bufs c d"
  using keeping_store(1) [of c b i s] by simp

lemma keeping_buffers: "f \<in> set buffer_builtins \<Longrightarrow> keeping not_bufs c (fst (f c))"
proof -
  have put: "keeping not_bufs c (ret_word x (on_std (\<lambda>s. s\<lparr>ss_bufs := bs\<rparr>) c))" for x bs
    by (rule keeping_trans [OF keeping_std keeping_ret(2)]) simp
  have "keeping not_bufs c (fst (buf_create c))" "keeping not_bufs c (fst (buf_del c))"
    "keeping not_bufs c (fst (buf_getsize c))" "keeping not_bufs c (fst (buf_implode c))"
    "keeping not_bufs c (fst (bufstr_get c))" "keeping not_bufs c (fst (bufstr_free c))"
    by (auto simp: buf_create_def buf_del_def buf_getsize_def buf_implode_def bufstr_get_def bufstr_free_def Let_def
        split: option.split prod.split
        intro!: keeping_intros put keeping_trans [OF keeping_put_buf by_bufs.keeping_charge(1)])
  moreover have "keeping not_bufs c (fst (buf_copy c))" "keeping not_bufs c (fst (buf_sort c))"
    "keeping not_bufs c (fst (bufstr_set c))"
    by (auto simp: buf_copy_def buf_sort_def bufstr_set_def Let_def split: option.split
        intro!: keeping_intros keeping_store keeping_trans [OF keeping_put_buf keeping_store(2)])
  moreover have "keeping not_bufs c (fst (bufstr_add c))"
    by (auto simp: bufstr_add_def Let_def split: option.split prod.split bool.split
        intro: keeping_intros keeping_trans [OF keeping_ret(3) keeping_ret(2)] keeping_trans [OF via_store keeping_ret(2)])
  moreover have "keeping not_bufs c (fst (bufstr_find c))"
    by (auto simp: bufstr_find_def Let_def split: option.split
        intro: keeping_intros keeping_trans [OF keeping_ret(2) keeping_ret(2)])
  ultimately show "f \<in> set buffer_builtins \<Longrightarrow> keeping not_bufs c (fst (f c))" by (auto simp: buffer_builtins_def)
qed

section \<open>A buffer to sort\<close>

definition sample_buffers :: score where
  "sample_buffers =
     (let b = from_strings [Some (ascii ''b''), None, Some (ascii ''a'')]
      in sample_score\<lparr>c_mem := mem_set_g (c_mem sample_score) 80 0x3F800000,
           c_std := std_default\<lparr>ss_bufs := [Some b], ss_container := sb_bytes b\<rparr>\<rparr>)"

lemma sample_buffers_arg: "arg_word sample_buffers 0 = 0x3F800000"
proof -
  have "core_gbase sample_buffers = 64"
    by (simp add: core_gbase_def sample_buffers_def sample_score_def core_progs_at_def exec_default_def nth_opt_def Let_def)
  moreover have "mem_g (c_mem sample_buffers) 80 = 0x3F800000"
    by (simp add: sample_buffers_def sample_score_def Let_def mem_g_set_same sample_mem_def)
  ultimately show ?thesis by (simp add: arg_word_def parm_def OFS_PARM0_def)
qed

theorem buf_sort_sorts_witness:
  "map_option sb_strings (buf_at (fst (buf_sort sample_buffers)) 0) = Some [Some (ascii ''a''), Some (ascii ''b'')]"
proof -
  let ?b = "from_strings [Some (ascii ''b''), None, Some (ascii ''a'')]"
  have at: "buf_at sample_buffers i = (if i = 0 then Some ?b else None)" for i
    by (simp add: buf_at_def sample_buffers_def nth_opt_def Let_def)
  have "accounted sample_buffers"
    by (simp add: accounted_def sample_buffers_def sample_score_def Let_def storage_def
        std_default_def bufs_bytes_def tables_bytes_def from_strings_def SLOT_BYTES_def config_menu_def config_base_def
        default_limits_def ascii_def)
  moreover have "bufs_ok sample_buffers" by (auto simp: bufs_ok_def at split: if_splits)
  ultimately have inv: "buffers_inv sample_buffers" by (simp add: buffers_inv_def)
  have "f32_val f32_one = FFin False 8388608 (- 23)" by (simp add: f32_val_def decode_mag_def f32_fmt_def)
  then have "f32_sub f32_one f32_one = 0" by (simp add: f32_sub_def fsub_def fscale_def f32_of_def round_mag_def)
  moreover have "f2i 0 = 0" by (simp add: f2i_eq trunc_or_min_def f32_val_def decode_mag_def f32_fmt_def)
  ultimately have "usize_of_i32 (f2i (f32_sub 0x3F800000 f32_one)) = Some 0" by (simp add: usize_of_i32_def)
  then have "buf_arg sample_buffers 0 = Some 0" by (simp add: buf_arg_def sample_buffers_arg at)
  moreover have "buf_at sample_buffers 0 = Some ?b" by (simp add: at)
  moreover have "arg_word sample_buffers k = 0" if "k = 1 \<or> k = 2" for k
  proof -
    have "core_gbase sample_buffers = 64"
      by (simp add: core_gbase_def sample_buffers_def sample_score_def core_progs_at_def exec_default_def nth_opt_def Let_def)
    moreover have "mem_g (mem_set_g m 80 x) a = mem_g m a" if "a = 92 \<or> a = 104" for m x a
      using that by (intro mem_g_set_other) auto
    then have "mem_g (c_mem sample_buffers) (80 + k * 12) = mem_g sample_mem (80 + k * 12)"
      using that by (auto simp: sample_buffers_def sample_score_def Let_def)
    moreover have "mem_g sample_mem (80 + k * 12) = 0"
      using that by (auto simp: mem_g_def sample_mem_def u32_at_eq le_word_def eval_nat_numeral)
    ultimately show ?thesis using that by (auto simp: arg_word_def parm_def OFS_PARM0_def)
  qed
  moreover have "f32_eq 0 0" by (simp add: f32_eq_def f32_val_def decode_mag_def f32_fmt_def)
  moreover have "arg_int sample_buffers 1 = 0" using calculation(3) [of 1] \<open>f2i 0 = 0\<close> by (simp add: arg_int_def)
  ultimately obtain ss where ss: "map_option sb_strings (buf_at (fst (buf_sort sample_buffers)) 0) = Some (map Some ss)"
    "mset ss = {#ascii ''b'', ascii ''a''#}" "sorted_wrt (ord_class.lexordp_eq) ss"
    using buf_sort_sorts [OF inv, of 0 ?b] by (auto simp: Let_def from_strings_def List.map_filter_def)
  have "length ss = 2" using arg_cong [OF ss(2), of size] by simp
  then obtain x y where xy: "ss = [x, y]" by (auto simp: numeral_2_eq_2 length_Suc_conv)
  then have "x = ascii ''b'' \<and> y = ascii ''a'' \<or> x = ascii ''a'' \<and> y = ascii ''b''"
    using ss(2) by (auto simp: add_eq_conv_ex)
  then show ?thesis using ss(1,3) by (auto simp: xy ascii_def)
qed

end
