(* ===== verification/Tokenize.thy ===== *)
theory Tokenize
  imports Std
begin

text \<open>
  The tokenizers (\<open>src/stdlib/tokenize.rs\<close>): splitting strings into tokens the QuakeC way, the console way
  and at separators, within a storage budget, and the builtins that read the token list.  Loops over the
  input are recursive functions on the offset.
\<close>

section \<open>The storage budget\<close>

definition TOKEN_BYTES :: nat where "TOKEN_BYTES = 40"

text \<open>A finished list is shrunk, so that the capacity of a text is its length.\<close>

definition list_bytes :: "token list \<Rightarrow> nat" where
  "list_bytes ts = foldl (\<lambda>n t. n + length (tk_text t)) (length ts * TOKEN_BYTES) ts"

record budget =
  bd_left :: nat
  bd_exceeded :: bool

definition budget_new :: "nat \<Rightarrow> budget" where
  "budget_new n = \<lparr>bd_left = n, bd_exceeded = False\<rparr>"

definition budget_take :: "bytes \<Rightarrow> budget \<Rightarrow> budget \<times> bool" where
  "budget_take text b =
     (let cost = TOKEN_BYTES * 2 + length text
      in if cost \<le> bd_left b \<and> \<not> bd_exceeded b then (b\<lparr>bd_left := bd_left b - cost\<rparr>, True)
         else (b\<lparr>bd_exceeded := True\<rparr>, False))"

definition tokens_get :: "tokens \<Rightarrow> u32 \<Rightarrow> token option" where
  "tokens_get ts index =
     (let n = (if length (ts_list ts) < 2 ^ 31 then of_nat (length (ts_list ts)) else i32_max);
          i = (if sint index < 0 then index + n else index)
      in Option.bind (usize_of_i32 i) (nth_opt (ts_list ts)))"

section \<open>One token\<close>

definition TOKEN_MAX :: nat where "TOKEN_MAX = 65535"
definition CSTRING_MAX :: nat where "CSTRING_MAX = 65534"

text \<open>Newline, braces, parentheses, brackets, apostrophe, colon, comma and semicolon.\<close>

definition is_single :: "u8 \<Rightarrow> bool" where
  "is_single c = (c \<in> {10, 123, 125, 40, 41, 91, 93, 39, 58, 44, 59})"

text \<open>\<open>while s.get(p).is_some_and(P) { p += 1 }\<close>.\<close>

definition skip_while :: "(u8 \<Rightarrow> bool) \<Rightarrow> bytes \<Rightarrow> nat \<Rightarrow> nat" where
  "skip_while P s p = p + length (takeWhile P (drop p s))"

definition to_digit16 :: "u8 \<Rightarrow> u8 option" where
  "to_digit16 h =
     (if 48 \<le> h \<and> h \<le> 57 then Some (h - 48)
      else if 97 \<le> h \<and> h \<le> 102 then Some (h - 87)
      else if 65 \<le> h \<and> h \<le> 70 then Some (h - 55) else None)"

primrec hex_escape :: "nat \<Rightarrow> bytes \<Rightarrow> nat \<Rightarrow> u8 \<Rightarrow> u8 \<times> nat" where
  "hex_escape 0 s p v = (v, p)"
| "hex_escape (Suc n) s p v =
     (case Option.bind (nth_opt s p) to_digit16 of
        None \<Rightarrow> (v, p)
      | Some d \<Rightarrow> hex_escape n s (p + 1) (push_bit 4 v OR d))"

lemma hex_escape_forward: "hex_escape n s p v = (w, q) \<Longrightarrow> p \<le> q"
  by (induction n arbitrary: p v) (auto split: option.splits, force)

text \<open>
  What a backslash stands for: nothing (a continued line), a byte that ends the token when it is NUL or a
  quote, or a literal quote.  The first component is the text to add, the last one the next offset.
\<close>

datatype (plugins only: code size) escape = EscNothing nat | EscByte u8 nat | EscQuote nat

definition read_escape :: "bytes \<Rightarrow> u8 \<Rightarrow> nat \<Rightarrow> escape" where
  "read_escape s e p =
     (if e = 13 \<or> e = 10 then EscNothing (if e = 13 \<and> nth_opt s p = Some 10 then p + 1 else p)
      else if e = 110 then EscByte 10 p
      else if e = 116 then EscByte 9 p
      else if e = 114 then EscByte 13 p
      else if e = 120 then (case hex_escape 2 s p 0 of (v, q) \<Rightarrow> EscByte v q)
      else if e = 36 \<or> e = 92 \<or> e = 39 then EscByte e p
      else if e = 34 then EscQuote p
      else EscByte 63 p)"

fun escape_end :: "escape \<Rightarrow> nat" where
  "escape_end (EscNothing p) = p"
| "escape_end (EscByte c p) = p"
| "escape_end (EscQuote p) = p"

lemma read_escape_forward: "p \<le> escape_end (read_escape s e p)"
  by (auto simp: read_escape_def split: prod.split dest: hex_escape_forward)

lemma read_escape_forward':
  "read_escape s e p = EscNothing q \<Longrightarrow> p \<le> q" "read_escape s e p = EscByte c q \<Longrightarrow> p \<le> q"
  "read_escape s e p = EscQuote q \<Longrightarrow> p \<le> q"
  by (metis escape_end.simps(1) read_escape_forward, metis escape_end.simps(2) read_escape_forward,
      metis escape_end.simps(3) read_escape_forward)

function cstring_from :: "bytes \<Rightarrow> nat \<Rightarrow> bytes \<Rightarrow> bytes \<times> nat" where
  "cstring_from s p out =
     (if CSTRING_MAX \<le> length out then (out, p)
      else case nth_opt s p of
        None \<Rightarrow> (out, length s)
      | Some c \<Rightarrow>
          if c = 92 then
            (case nth_opt s (p + 1) of
               None \<Rightarrow> (out, length s)
             | Some e \<Rightarrow>
                 (case read_escape s e (p + 2) of
                    EscNothing q \<Rightarrow> cstring_from s q out
                  | EscQuote q \<Rightarrow> cstring_from s q (out @ [34])
                  | EscByte c q \<Rightarrow> if c = 34 \<or> c = 0 then (out, q) else cstring_from s q (out @ [c])))
          else if c = 34 \<or> c = 0 then (out, p + 1)
          else cstring_from s (p + 1) (out @ [c]))"
  by pat_completeness auto
termination
  by (relation "measure (\<lambda>(s, p, out). length s - p)")
    (auto simp: nth_opt_Some dest!: read_escape_forward'(1,2,3))

declare cstring_from.simps [simp del]

definition parse_cstring :: "bytes \<Rightarrow> nat \<Rightarrow> bytes \<times> nat" where
  "parse_cstring s at = cstring_from s (at + 1) []"

text \<open>The offset of the first \<open>*/\<close> in a list.\<close>

fun comment_end :: "bytes \<Rightarrow> nat option" where
  "comment_end (a # b # r) = (if a = 42 \<and> b = 47 then Some 0 else map_option Suc (comment_end (b # r)))"
| "comment_end _ = None"

text \<open>Skips white space (not newlines) and comments.\<close>

function token_start :: "bytes \<Rightarrow> nat \<Rightarrow> bool \<Rightarrow> nat option" where
  "token_start s p0 qc =
     (let p = skip_while (\<lambda>c. c \<le> 32 \<and> c \<noteq> 10) s p0
      in case nth_opt s p of
           None \<Rightarrow> None
         | Some c \<Rightarrow>
             if c = 10 then Some p
             else if c = 47 \<and> nth_opt s (p + 1) = Some 47
             then token_start s (skip_while (\<lambda>c. c \<noteq> 10) s p) qc
             else if \<not> qc \<and> c = 47 \<and> nth_opt s (p + 1) = Some 42
             then token_start s (case comment_end (drop (p + 2) s) of
                                   Some k \<Rightarrow> p + 2 + k + 2 | None \<Rightarrow> length s) qc
             else Some p)"
  by pat_completeness auto

lemma skip_while_forward: "p \<le> skip_while P s p"
  by (simp add: skip_while_def)

lemma skip_while_step:
  assumes "nth_opt s p = Some c" "P c"
  shows "p < skip_while P s p"
proof -
  have "drop p s = c # drop (Suc p) s" using assms(1) by (auto simp: nth_opt_Some Cons_nth_drop_Suc)
  then show ?thesis using assms(2) by (simp add: skip_while_def)
qed

termination token_start
proof (relation "measure (\<lambda>(s, p, qc). length s - p)", goal_cases)
  case (2 s p0 qc p c)
  then have "p0 \<le> p" "p < length s" "p < skip_while (\<lambda>c. c \<noteq> 10) s p"
    using skip_while_forward skip_while_step by (auto simp: nth_opt_Some)
  then show ?case by simp
next
  case (3 s p0 qc p c)
  then have "p0 \<le> p" "p < length s" using skip_while_forward by (auto simp: nth_opt_Some)
  then show ?case by (auto split: option.split)
qed simp

declare token_start.simps [simp del]

function quoted_from :: "bytes \<Rightarrow> u8 \<Rightarrow> nat \<Rightarrow> bytes \<Rightarrow> bytes \<times> nat" where
  "quoted_from s c p out =
     (if TOKEN_MAX \<le> length out then (out, p)
      else case nth_opt s p of
        None \<Rightarrow> (out, length s)
      | Some d \<Rightarrow>
          if d = c then
            if nth_opt s (p + 1) \<noteq> Some c then (out, p + 1) else quoted_from s c (p + 2) (out @ [d])
          else quoted_from s c (p + 1) (out @ [d]))"
  by pat_completeness auto
termination
  by (relation "measure (\<lambda>(s, c, p, out). length s - p)") (auto simp: nth_opt_Some)

declare quoted_from.simps [simp del]

function word_from :: "bytes \<Rightarrow> bool \<Rightarrow> nat \<Rightarrow> bytes \<Rightarrow> bytes \<times> nat" where
  "word_from s qc p out =
     (if TOKEN_MAX \<le> length out then (out, p)
      else
        let out = out @ [the_default 0 (nth_opt s p)]
        in case nth_opt s (p + 1) of
             Some c \<Rightarrow> if 32 < c \<and> \<not> (qc \<and> is_single c) then word_from s qc (p + 1) out else (out, p + 1)
           | None \<Rightarrow> (out, p + 1))"
  by pat_completeness auto
termination
  by (relation "measure (\<lambda>(s, qc, p, out). length s - p)") (auto simp: nth_opt_Some)

declare word_from.simps [simp del]

definition parse_token :: "bytes \<Rightarrow> nat \<Rightarrow> bool \<Rightarrow> (bytes \<times> nat) option" where
  "parse_token s p0 qc =
     (case token_start s p0 qc of
        None \<Rightarrow> None
      | Some p \<Rightarrow>
          (case nth_opt s p of
             None \<Rightarrow> None
           | Some c \<Rightarrow>
               if c = 10 then Some ([10], p + 1)
               else if c = 92 \<and> nth_opt s (p + 1) = Some 34 then Some (parse_cstring s (p + 1))
               else if c = 34 \<or> qc \<and> c = 39 then Some (quoted_from s c (p + 1) [])
               else if qc \<and> is_single c then Some ([c], p + 1)
               else Some (word_from s qc p [])))"

lemma hex_escape_inside: "p \<le> length s \<Longrightarrow> hex_escape n s p v = (w, q) \<Longrightarrow> q \<le> length s"
proof (induction n arbitrary: p v)
  case (Suc n)
  then show ?case
    by (auto simp: nth_opt_Some split: option.splits bind_splits) (metis Suc_leI)
qed simp

lemma read_escape_inside: "p \<le> length s \<Longrightarrow> escape_end (read_escape s e p) \<le> length s"
  by (auto simp: read_escape_def nth_opt_Some split: prod.split dest: hex_escape_inside)

lemma cstring_from_end:
  "p \<le> length s \<Longrightarrow> p \<le> snd (cstring_from s p out) \<and> snd (cstring_from s p out) \<le> length s"
proof (induction s p out rule: cstring_from.induct)
  case (1 s p out)
  show ?case
  proof (cases "CSTRING_MAX \<le> length out \<or> nth_opt s p = None")
    case True
    then show ?thesis using 1(5) by (subst (1 2) cstring_from.simps) auto
  next
    case False
    then obtain c where n: "\<not> CSTRING_MAX \<le> length out" "nth_opt s p = Some c" by auto
    then have p: "p < length s" by (simp add: nth_opt_Some)
    show ?thesis
    proof (cases "c = 92")
      case True
      show ?thesis
      proof (cases "nth_opt s (p + 1)")
        case None
        then show ?thesis using n True p by (subst (1 2) cstring_from.simps) auto
      next
        case (Some e)
        then have p2: "p + 2 \<le> length s" by (simp add: nth_opt_Some)
        have q: "p + 2 \<le> escape_end (read_escape s e (p + 2))" "escape_end (read_escape s e (p + 2)) \<le> length s"
          using read_escape_forward read_escape_inside [OF p2] by blast+
        note ih = "1.IH"(1-3) [OF n True Some]
        show ?thesis
        proof (cases "read_escape s e (p + 2)")
          case (EscNothing r)
          then show ?thesis using ih(1) [of r] q n True Some by (subst (1 2) cstring_from.simps) auto
        next
          case (EscByte d r)
          then show ?thesis
            using ih(2) [of d r] q n True Some
            by (cases "d = 34 \<or> d = 0") (subst (1 2) cstring_from.simps; auto)+
        next
          case (EscQuote r)
          then show ?thesis using ih(3) [of r] q n True Some by (subst (1 2) cstring_from.simps) auto
        qed
      qed
    next
      case False
      then show ?thesis
        using "1.IH"(4) [OF n False] n p
        by (cases "c = 34 \<or> c = 0") (subst (1 2) cstring_from.simps; auto)+
    qed
  qed
qed

lemma quoted_from_end:
  "p \<le> length s \<Longrightarrow> p \<le> snd (quoted_from s c p out) \<and> snd (quoted_from s c p out) \<le> length s"
proof (induction s c p out rule: quoted_from.induct)
  case (1 s c p out)
  consider "TOKEN_MAX \<le> length out" | "nth_opt s p = None" "\<not> TOKEN_MAX \<le> length out" |
    d where "\<not> TOKEN_MAX \<le> length out" "nth_opt s p = Some d" by fastforce
  then show ?case
  proof cases
    case (3 d)
    then have "p < length s" by (simp add: nth_opt_Some)
    moreover have "nth_opt s (p + 1) = Some c \<Longrightarrow> p + 2 \<le> length s" by (simp add: nth_opt_Some)
    ultimately show ?thesis
      using "1.IH" 3 by (subst (1 2) quoted_from.simps) (auto split: option.split)
  qed (use 1(3) in \<open>(subst (1 2) quoted_from.simps; simp)+\<close>)
qed

lemma word_from_end:
  "p < length s \<Longrightarrow> length out < TOKEN_MAX \<Longrightarrow>
    p < snd (word_from s qc p out) \<and> snd (word_from s qc p out) \<le> length s"
proof (induction s qc p out rule: word_from.induct)
  case (1 s qc p out)
  let ?out = "out @ [the_default 0 (nth_opt s p)]"
  show ?case
  proof (cases "\<exists>c. nth_opt s (p + 1) = Some c \<and> 32 < c \<and> \<not> (qc \<and> is_single c)")
    case True
    then obtain c where c: "nth_opt s (p + 1) = Some c" "32 < c \<and> \<not> (qc \<and> is_single c)" by blast
    then have p1: "p + 1 < length s" by (simp add: nth_opt_Some)
    have step: "word_from s qc p out = word_from s qc (p + 1) ?out"
      using c 1(3) by (subst word_from.simps) (auto simp: Let_def)
    show ?thesis
    proof (cases "TOKEN_MAX \<le> length ?out")
      case True
      then show ?thesis unfolding step using p1 by (subst (1 2) word_from.simps) simp
    next
      case False
      then show ?thesis
        unfolding step using "1.IH" [OF _ refl c] p1 1(3) by auto
    qed
  next
    case False
    then have "word_from s qc p out = (?out, p + 1)"
      using 1(3) by (subst word_from.simps) (auto simp: Let_def split: option.split)
    then show ?thesis using 1(2) by simp
  qed
qed

lemma token_start_inside: "token_start s p0 qc = Some p \<Longrightarrow> p0 \<le> p \<and> p < length s"
proof (induction s p0 qc rule: token_start.induct)
  case (1 s p0 qc)
  define q where "q = skip_while (\<lambda>c. c \<le> 32 \<and> c \<noteq> 10) s p0"
  have q: "p0 \<le> q" unfolding q_def by (rule skip_while_forward)
  from 1(3) obtain c where c: "nth_opt s q = Some c"
    by (subst (asm) token_start.simps) (auto simp: Let_def q_def split: option.splits)
  note e = 1(3) [unfolded token_start.simps [of s p0] Let_def, folded q_def, unfolded c option.case]
  consider "c \<noteq> 10" "c = 47 \<and> nth_opt s (q + 1) = Some 47" |
    "c \<noteq> 10" "\<not> (c = 47 \<and> nth_opt s (q + 1) = Some 47)" "\<not> qc \<and> c = 47 \<and> nth_opt s (q + 1) = Some 42" |
    "p = q" using e by (auto split: if_splits)
  then show ?case
  proof cases
    case 1
    then show ?thesis
      using "1.IH"(1) [OF q_def c 1(1) 1(2)] e q skip_while_forward [of q "\<lambda>c. c \<noteq> 10" s] by auto
  next
    case 2
    then have "q < length s" using c by (simp add: nth_opt_Some)
    then show ?thesis
      using "1.IH"(2) [OF q_def c 2(1) 2(2) 2(3)] e q 2 by (auto split: option.splits)
  next
    case 3
    then show ?thesis using q c by (auto simp: nth_opt_Some)
  qed
qed

lemma parse_token_end:
  assumes "parse_token s p0 qc = Some (t, e)"
  shows "p0 < e \<and> e \<le> length s"
proof -
  from assms obtain p where p: "token_start s p0 qc = Some p"
    by (auto simp: parse_token_def split: option.splits)
  from token_start_inside [OF p] have q: "p0 \<le> p" "p < length s" by simp_all
  then obtain c where c: "nth_opt s p = Some c" by (auto simp: nth_opt_def)
  have cs: "nth_opt s (p + 1) = Some 34 \<Longrightarrow> p + 2 \<le> snd (parse_cstring s (p + 1)) \<and>
      snd (parse_cstring s (p + 1)) \<le> length s"
    using cstring_from_end [of "p + 2" s "[]"] by (simp add: parse_cstring_def nth_opt_Some)
  have qs: "p + 1 \<le> snd (quoted_from s c (p + 1) [])" "snd (quoted_from s c (p + 1) []) \<le> length s"
    using quoted_from_end [of "p + 1" s c "[]"] q by auto
  have ws: "p < snd (word_from s qc p [])" "snd (word_from s qc p []) \<le> length s"
    using word_from_end [of p s "[]" qc] q by (auto simp: TOKEN_MAX_def)
  show ?thesis
    using assms p c q cs qs ws by (auto simp: parse_token_def split: if_splits)
qed

section \<open>Splitting\<close>

function split_from :: "bytes \<Rightarrow> bool \<Rightarrow> nat \<Rightarrow> budget \<Rightarrow> token list \<times> budget" where
  "split_from s qc p0 b =
     (let p = skip_while (\<lambda>c. c \<le> 32) s p0
      in if length s \<le> p then ([], b)
         else case parse_token s p qc of
           None \<Rightarrow> ([], b)
         | Some (text, e) \<Rightarrow>
             (case budget_take text b of
                (b, False) \<Rightarrow> ([], b)
              | (b, True) \<Rightarrow>
                  (case split_from s qc e b of
                     (ts, b) \<Rightarrow> (\<lparr>tk_text = text, tk_start = p, tk_end = e\<rparr> # ts, b))))"
  by pat_completeness auto
termination
proof (relation "measure (\<lambda>(s, qc, p, b). length s - p)", goal_cases)
  case (2 s qc p0 b p x t e)
  then have "p0 \<le> p" "p < e" using skip_while_forward parse_token_end by auto
  then show ?case using 2(2) by simp
qed simp

declare split_from.simps [simp del]

definition split_tokens :: "bytes \<Rightarrow> bool \<Rightarrow> budget \<Rightarrow> token list \<times> budget" where
  "split_tokens s qc b = split_from s qc 0 b"

definition token_at :: "bytes \<Rightarrow> nat \<Rightarrow> nat \<Rightarrow> token" where
  "token_at s a b = \<lparr>tk_text = the_default [] (slice s a b), tk_start = a, tk_end = b\<rparr>"

definition starts_with :: "bytes \<Rightarrow> bytes \<Rightarrow> bool" where
  "starts_with s pre = (take (length pre) s = pre)"

definition separator_at :: "bytes \<Rightarrow> bytes list \<Rightarrow> nat \<Rightarrow> bytes option" where
  "separator_at s seps p = List.find (\<lambda>sep. sep \<noteq> [] \<and> starts_with (drop p s) sep) seps"

lemma separator_at_some: "separator_at s seps p = Some sep \<Longrightarrow> sep \<noteq> []"
  by (auto simp: separator_at_def find_Some_iff)

function split_by_from :: "bytes \<Rightarrow> bytes list \<Rightarrow> nat \<Rightarrow> nat \<Rightarrow> budget \<Rightarrow> token list \<times> budget" where
  "split_by_from s seps start p b =
     (if p < length s then
        (case separator_at s seps p of
           Some sep \<Rightarrow>
             let t = token_at s start p
             in (case budget_take (tk_text t) b of
                   (b, False) \<Rightarrow> ([], b)
                 | (b, True) \<Rightarrow>
                     (case split_by_from s seps (p + length sep) (p + length sep) b of (ts, b) \<Rightarrow> (t # ts, b)))
         | None \<Rightarrow> split_by_from s seps start (p + 1) b)
      else
        let t = token_at s start (length s)
        in (case budget_take (tk_text t) b of (b, False) \<Rightarrow> ([], b) | (b, True) \<Rightarrow> ([t], b)))"
  by pat_completeness auto
termination
  by (relation "measure (\<lambda>(s, seps, start, p, b). length s - p)")
    (auto dest!: separator_at_some intro!: diff_less_mono2)

declare split_by_from.simps [simp del]

definition split_by :: "bytes \<Rightarrow> bytes list \<Rightarrow> budget \<Rightarrow> token list \<times> budget" where
  "split_by s seps b = (if s = [] then ([], b) else split_by_from s seps 0 0 b)"

section \<open>The builtins\<close>

definition token_budget :: "score \<Rightarrow> budget" where
  "token_budget c =
     (let others = ss_container (c_std c) - ts_bytes (ss_tokens (c_std c))
      in budget_new (l_container_bytes (g_limits (c_config c)) - others))"

definition set_tokens :: "token list \<Rightarrow> budget \<Rightarrow> score \<Rightarrow> score" where
  "set_tokens ts b c =
     (let old = ss_tokens (c_std c);
          c = on_std (\<lambda>s. s\<lparr>ss_tokens := \<lparr>ts_list = [], ts_bytes = 0\<rparr>\<rparr>) c;
          c = release (ts_bytes old) c;
          n = list_bytes ts;
          (c, fits) = charge n c;
          ts = (if fits then ts else []);
          c = on_std (\<lambda>s. s\<lparr>ss_tokens := \<lparr>ts_list = ts, ts_bytes = (if ts = [] then 0 else n)\<rparr>\<rparr>) c;
          c = (if bd_exceeded b
               then vm_warn ''tokenize: out of memory for the token list; the rest of the string is ignored'' c
               else c)
      in ret_word (f32_of_nat (length ts)) c)"

definition tokenize :: builtin where
  "tokenize c = (case split_tokens (arg_str c 0) True (token_budget c) of (ts, b) \<Rightarrow> ok (set_tokens ts b c))"

definition tokenize_console :: builtin where
  "tokenize_console c = (case split_tokens (arg_str c 0) False (token_budget c) of (ts, b) \<Rightarrow> ok (set_tokens ts b c))"

definition tokenizebyseparator :: builtin where
  "tokenizebyseparator c =
     (let seps = map (arg_str c) [1..<min (argc c) 8]
      in case split_by (arg_str c 0) seps (token_budget c) of (ts, b) \<Rightarrow> ok (set_tokens ts b c))"

definition argv :: builtin where
  "argv c =
     (case tokens_get (ss_tokens (c_std c)) (arg_int c 0) of
        Some t \<Rightarrow> ret_str (tk_text t) c
      | None \<Rightarrow> ok (ret_word 0 c))"

definition argc_tokens :: builtin where
  "argc_tokens c = ok (ret_word (f32_of_nat (length (ts_list (ss_tokens (c_std c))))) c)"

definition argv_start_index :: builtin where
  "argv_start_index c =
     ok (ret_word (case tokens_get (ss_tokens (c_std c)) (arg_int c 0) of
           None \<Rightarrow> f32_neg_one | Some t \<Rightarrow> f32_of_nat (tk_start t)) c)"

definition argv_end_index :: builtin where
  "argv_end_index c =
     ok (ret_word (case tokens_get (ss_tokens (c_std c)) (arg_int c 0) of
           None \<Rightarrow> f32_neg_one | Some t \<Rightarrow> f32_of_nat (tk_end t)) c)"

section \<open>Tokens and their places\<close>

definition in_order :: "bytes \<Rightarrow> nat \<Rightarrow> token list \<Rightarrow> bool" where
  "in_order s p ts \<longleftrightarrow>
     (\<forall>t \<in> set ts. p \<le> tk_start t \<and> tk_start t < tk_end t \<and> tk_end t \<le> length s \<and> 32 < s ! tk_start t) \<and>
     sorted_wrt (\<lambda>a b. tk_end a \<le> tk_start b) ts"

lemma skip_while_stop: "skip_while P s p < length s \<Longrightarrow> \<not> P (s ! skip_while P s p)"
  using nth_length_takeWhile [of P "drop p s"] by (auto simp: skip_while_def less_diff_conv2 add.commute)

lemma split_from_in_order: "split_from s qc p0 b = (ts, b') \<Longrightarrow> in_order s p0 ts"
proof (induction s qc p0 b arbitrary: ts b' rule: split_from.induct)
  case (1 s qc p0 b)
  define p where "p = skip_while (\<lambda>c. c \<le> 32) s p0"
  have p0: "p0 \<le> p" unfolding p_def by (rule skip_while_forward)
  note e = 1(2) [unfolded split_from.simps [of s qc p0] Let_def, folded p_def]
  show ?case
  proof (cases "\<exists>t e. p < length s \<and> parse_token s p qc = Some (t, e) \<and> snd (budget_take t b)")
    case False
    then have "ts = []"
      using e by (auto split: if_splits option.splits prod.splits bool.splits)
    then show ?thesis by (simp add: in_order_def)
  next
    case True
    then obtain t e' b1 where t: "p < length s" "parse_token s p qc = Some (t, e')" "budget_take t b = (b1, True)"
      by (metis prod.collapse)
    obtain us b2 where us: "split_from s qc e' b1 = (us, b2)" by fastforce
    have ts: "ts = \<lparr>tk_text = t, tk_start = p, tk_end = e'\<rparr> # us" using e t us by simp
    have "in_order s e' us"
      using 1(1) [OF p_def _ t(2) refl t(3) [symmetric] refl us] t(1) by simp
    moreover have "32 < s ! p"
      using skip_while_stop [of "\<lambda>c. c \<le> 32" s p0] t(1) by (simp add: p_def not_le)
    ultimately show ?thesis
      using parse_token_end [OF t(2)] p0 t(1) by (fastforce simp: in_order_def ts)
  qed
qed

text \<open>The tokens that \<open>tokenize\<close> and \<open>tokenize_console\<close> remember come from places in the string: each starts at a
  byte that is not white space, ends after it and inside the string, and before the next one starts.\<close>

theorem tokens_in_order:
  "case split_tokens s qc b of (ts, b') \<Rightarrow>
     (\<forall>t \<in> set ts. tk_start t < tk_end t \<and> tk_end t \<le> length s \<and> 32 < s ! tk_start t) \<and>
     sorted_wrt (\<lambda>a b. tk_end a \<le> tk_start b) ts"
  using split_from_in_order [of s qc 0 b] by (auto simp: split_tokens_def in_order_def)

theorem tokens_in_order_witness:
  "sorted_wrt (\<lambda>a b. tk_end a \<le> tk_start b) (fst (split_tokens (ascii ''if (x) y'') True (budget_new 4096)))"
  using tokens_in_order [of "ascii ''if (x) y''" True "budget_new 4096"] by (simp add: split_beta)

section \<open>Splitting at a separator and joining\<close>

lemma budget_take_ok: "budget_take t b = (b1, True) \<Longrightarrow> \<not> bd_exceeded b \<and> \<not> bd_exceeded b1"
  by (auto simp: budget_take_def Let_def split: if_splits)

lemma budget_take_no: "budget_take t b = (b1, False) \<Longrightarrow> bd_exceeded b1"
  by (auto simp: budget_take_def Let_def split: if_splits)

fun join_with :: "bytes \<Rightarrow> bytes list \<Rightarrow> bytes" where
  "join_with sep [] = []"
| "join_with sep [x] = x"
| "join_with sep (x # y # r) = x @ sep @ join_with sep (y # r)"

definition unsplit :: "bytes \<Rightarrow> token list \<Rightarrow> bytes" where
  "unsplit sep ts = join_with sep (map tk_text ts)"

lemma separator_at_one: "separator_at s [sep] p = Some x \<Longrightarrow> x = sep \<and> take (length sep) (drop p s) = sep"
  by (auto simp: separator_at_def starts_with_def split: if_splits)

lemma token_text: "start \<le> e \<Longrightarrow> e \<le> length s \<Longrightarrow> tk_text (token_at s start e) = take (e - start) (drop start s)"
  by (simp add: token_at_def slice_def the_default_def)

lemma split_by_nonempty:
  "split_by_from s seps start p b = (ts, b') \<Longrightarrow> \<not> bd_exceeded b' \<Longrightarrow> ts \<noteq> []"
proof (induction s seps start p b arbitrary: ts b' rule: split_by_from.induct)
  case (1 s seps start p b)
  then show ?case
    by (subst (asm) (3) split_by_from.simps)
      (auto simp: Let_def split: if_splits option.splits prod.splits bool.splits dest: budget_take_no)
qed

lemma unsplit_split:
  "split_by_from s [sep] start p b = (ts, b') \<Longrightarrow> \<not> bd_exceeded b' \<Longrightarrow> start \<le> p \<Longrightarrow> p \<le> length s \<Longrightarrow>
    unsplit sep ts = drop start s"
proof (induction s "[sep]" start p b arbitrary: ts b' rule: split_by_from.induct)
  case (1 s start p b)
  show ?case
  proof (cases "p < length s")
    case False
    then show ?thesis
      using 1(3-6) by (subst (asm) split_by_from.simps)
        (auto simp: Let_def unsplit_def token_text split: prod.splits bool.splits dest: budget_take_no)
  next
    case True
    show ?thesis
    proof (cases "separator_at s [sep] p")
      case None
      then show ?thesis
        using 1(1) [OF True None, of ts b'] 1(3-6) True by (subst (asm) (2) split_by_from.simps) simp
    next
      case (Some x)
      from separator_at_one [OF Some] have x: "x = sep" "take (length sep) (drop p s) = sep" by simp_all
      then have len: "p + length sep \<le> length s" by (metis length_drop length_take min.cobounded1 add.commute
            le_diff_conv2 less_imp_le True min.absorb_iff2)
      let ?t = "token_at s start p"
      obtain b1 t' where b1: "budget_take (tk_text ?t) b = (b1, t')" by fastforce
      obtain us b2 where us: "split_by_from s [sep] (p + length sep) (p + length sep) b1 = (us, b2)" by fastforce
      have eq: "split_by_from s [sep] start p b = (if t' then (?t # us, b2) else ([], b1))"
        using True Some b1 us x by (subst split_by_from.simps) (simp add: Let_def)
      with 1(3,4) b1 have t': "t'" "ts = ?t # us" "b' = b2" by (auto split: if_splits dest: budget_take_no)
      have ih: "unsplit sep us = drop (p + length sep) s"
        using 1(2) [OF True Some refl, of b1 True us b2] b1 us x t' 1(4) len by simp
      have "us \<noteq> []" using split_by_nonempty [OF us] 1(4) t' by simp
      then have "unsplit sep ts = tk_text ?t @ sep @ unsplit sep us"
        by (cases us) (simp_all add: unsplit_def t')
      also have "\<dots> = take (p - start) (drop start s) @ take (length sep) (drop p s) @ drop (p + length sep) s"
        using 1(5) True by (simp add: token_text ih x(2))
      also have "\<dots> = drop start s"
        using 1(5) by (metis add.commute append_take_drop_id drop_drop le_add_diff_inverse2)
      finally show ?thesis .
    qed
  qed
qed

text \<open>C25: splitting a string at a separator and joining the tokens with it gives the string back, if the storage
  budget was enough.\<close>

theorem split_then_join:
  assumes "split_by s [sep] b = (ts, b')" "\<not> bd_exceeded b'"
  shows "join_with sep (map tk_text ts) = s"
proof (cases "s = []")
  case True
  then show ?thesis using assms by (simp add: split_by_def)
next
  case False
  then show ?thesis using unsplit_split [of s sep 0 0 b ts b'] assms by (simp add: split_by_def unsplit_def)
qed

theorem split_then_join_witness:
  "split_by (ascii ''a,,b'') [ascii '',''] (budget_new 1000) =
     ([\<lparr>tk_text = ascii ''a'', tk_start = 0, tk_end = 1\<rparr>, \<lparr>tk_text = [], tk_start = 2, tk_end = 2\<rparr>,
       \<lparr>tk_text = ascii ''b'', tk_start = 3, tk_end = 4\<rparr>], \<lparr>bd_left = 758, bd_exceeded = False\<rparr>) \<and>
   join_with (ascii '','') [ascii ''a'', [], ascii ''b''] = ascii ''a,,b''"
proof -
  have e: "split_by (ascii ''a,,b'') [ascii '',''] (budget_new 1000) =
     ([\<lparr>tk_text = ascii ''a'', tk_start = 0, tk_end = 1\<rparr>, \<lparr>tk_text = [], tk_start = 2, tk_end = 2\<rparr>,
       \<lparr>tk_text = ascii ''b'', tk_start = 3, tk_end = 4\<rparr>], \<lparr>bd_left = 758, bd_exceeded = False\<rparr>)"
    by code_simp
  show ?thesis using split_then_join [OF e] e by simp
qed

section \<open>The charge for the list\<close>

lemma list_bytes_sum: "list_bytes ts = length ts * TOKEN_BYTES + sum_list (map (length \<circ> tk_text) ts)"
proof -
  have "foldl (\<lambda>n t. n + length (tk_text t)) a ts = a + sum_list (map (length \<circ> tk_text) ts)" for a
    by (induction ts arbitrary: a) simp_all
  then show ?thesis by (simp add: list_bytes_def)
qed

lemma list_bytes_simps [simp]: "list_bytes [] = 0"
  "list_bytes (t # ts) = TOKEN_BYTES + length (tk_text t) + list_bytes ts"
  by (simp_all add: list_bytes_sum)

lemma budget_take_pays:
  "budget_take t b = (b1, True) \<Longrightarrow> bd_left b1 + TOKEN_BYTES + length t \<le> bd_left b"
  by (auto simp: budget_take_def Let_def split: if_splits)

lemma split_from_pays: "split_from s qc p b = (ts, b') \<Longrightarrow> list_bytes ts \<le> bd_left b"
proof (induction s qc p b arbitrary: ts b' rule: split_from.induct)
  case (1 s qc p0 b)
  then show ?case
    by (subst (asm) (2) split_from.simps)
      (fastforce simp: Let_def dest: budget_take_pays split: if_splits option.splits prod.splits bool.splits)
qed

lemma split_by_from_pays: "split_by_from s seps start p b = (ts, b') \<Longrightarrow> list_bytes ts \<le> bd_left b"
proof (induction s seps start p b arbitrary: ts b' rule: split_by_from.induct)
  case (1 s seps start p b)
  then show ?case
    by (subst (asm) (3) split_by_from.simps)
      (fastforce simp: Let_def dest: budget_take_pays split: if_splits option.splits prod.splits bool.splits)
qed

lemma set_tokens_fits:
  assumes "accounted c" "list_bytes ts \<le> bd_left (token_budget c)"
  shows "ts_list (ss_tokens (c_std (set_tokens ts b c))) = ts" "accounted (set_tokens ts b c)"
    "c_config (set_tokens ts b c) = c_config c"
  using assms
  by (auto simp: set_tokens_def token_budget_def budget_new_def accounted_def charge_def release_def Let_def
      storage_def)

lemma tokenizer_fits:
  assumes "accounted c" "split_tokens s qc (token_budget c) = (ts, b) \<or> split_by s seps (token_budget c) = (ts, b)"
  shows "list_bytes ts \<le> bd_left (token_budget c)"
  using assms split_from_pays split_by_from_pays
  by (auto simp: split_tokens_def split_by_def split: if_splits)

text \<open>The charge for a new token list never fails, as the comment in the code says: the list that \<open>tokenize\<close>,
  \<open>tokenize_console\<close> and \<open>tokenizebyseparator\<close> leave is the one they split, and the bytes charged are still
  those the containers hold, within the limit.\<close>

lemma tokenizers_keep_accounts:
  assumes "accounted c"
  shows "ts_list (ss_tokens (c_std (fst (tokenize c)))) = fst (split_tokens (arg_str c 0) True (token_budget c)) \<and>
    ts_list (ss_tokens (c_std (fst (tokenize_console c)))) = fst (split_tokens (arg_str c 0) False (token_budget c)) \<and>
    ts_list (ss_tokens (c_std (fst (tokenizebyseparator c)))) =
      fst (split_by (arg_str c 0) (map (arg_str c) [1..<min (argc c) 8]) (token_budget c)) \<and>
    accounted (fst (tokenize c)) \<and> accounted (fst (tokenize_console c)) \<and> accounted (fst (tokenizebyseparator c))"
proof -
  have kept: "ts_list (ss_tokens (c_std (set_tokens ts b c))) = ts" "accounted (set_tokens ts b c)"
    if "split_tokens s qc (token_budget c) = (ts, b) \<or> split_by s seps (token_budget c) = (ts, b)" for s qc seps ts b
    using set_tokens_fits [OF assms tokenizer_fits [OF assms that], of b] by simp_all
  show ?thesis
    by (cases "split_tokens (arg_str c 0) True (token_budget c)";
        cases "split_tokens (arg_str c 0) False (token_budget c)";
        cases "split_by (arg_str c 0) (map (arg_str c) [1..<min (argc c) 8]) (token_budget c)")
      (simp add: tokenize_def tokenize_console_def tokenizebyseparator_def kept [OF disjI1] kept [OF disjI2])
qed

lemma tame_set_tokens [tame_intros]: "tame c (set_tokens ts b c)"
  unfolding set_tokens_def Let_def
  by (auto split: prod.split intro!: tame_trans [OF _ tame_ret(2)] tame_trans [OF _ tame_warn(2)]
      tame_trans [OF _ tame_on_std] tame_intros)
    (metis fst_conv tame_charge tame_on_std tame_release tame_trans)+

lemma tame_tokenizers [tame_intros]:
  "tame c (fst (tokenize c))" "tame c (fst (tokenize_console c))" "tame c (fst (tokenizebyseparator c))"
  "tame c (fst (argv c))" "tame c (fst (argc_tokens c))" "tame c (fst (argv_start_index c))"
  "tame c (fst (argv_end_index c))"
  by (simp_all add: tokenize_def tokenize_console_def tokenizebyseparator_def argv_def argc_tokens_def
      argv_start_index_def argv_end_index_def Let_def tame_intros split: prod.split option.split)

lemma accounted_tokens [simp]:
  "accounted c \<Longrightarrow> accounted (fst (argv c))" "accounted (fst (argc_tokens c)) = accounted c"
  "accounted (fst (argv_start_index c)) = accounted c" "accounted (fst (argv_end_index c)) = accounted c"
  by (simp_all add: argv_def argc_tokens_def argv_start_index_def argv_end_index_def split: option.split)

definition token_builtins :: "builtin list" where
  "token_builtins =
     [tokenize, tokenize_console, tokenizebyseparator, argv, argc_tokens, argv_start_index, argv_end_index]"

lemma set_tokens_others: "not_tokens (c_std (set_tokens ts b c)) = not_tokens (c_std c)"
  by (simp add: set_tokens_def Let_def release_def charge_def split: prod.split)

lemma token_builtins_keep:
  assumes "f \<in> set token_builtins" "accounted c"
  shows "accounted (fst (f c))" "keeping not_tokens c (fst (f c))"
proof -
  show "accounted (fst (f c))"
    using assms tokenizers_keep_accounts [OF assms(2)] by (auto simp: token_builtins_def)
  have "tame c (fst (f c))" using assms(1) by (auto simp: token_builtins_def tame_tokenizers)
  moreover have "not_tokens (c_std (fst (f c))) = not_tokens (c_std c)"
    using assms(1) by (auto simp: token_builtins_def tokenize_def tokenize_console_def tokenizebyseparator_def
        argv_def argc_tokens_def argv_start_index_def argv_end_index_def set_tokens_others [simplified]
        split: prod.split option.split)
  ultimately show "keeping not_tokens c (fst (f c))" by (simp add: keeping_def)
qed

end
