(* ===== verification/Introspect.thy ===== *)
theory Introspect
  imports TextNum HashTab StrBuf Tokenize
begin

text \<open>
  Builtins that look at the machine and call by name (\<open>src/stdlib/introspect.rs\<close>) and those that forward to the host
  (\<open>src/stdlib/hostcalls.rs\<close>), with the two builtins of \<open>src/stdlib/strbuf.rs\<close> that ask the host.  \<open>K\<close> is the machine's
  call, \<open>S\<close> the host's services.

  \<open>coredump\<close>, \<open>eprint\<close> and \<open>objerror\<close> write entities as text, and \<open>stackdump\<close> the text of a
  backtrace; these four are not modelled.
\<close>

section \<open>Registration\<close>

definition set_fte :: "'f registry \<Rightarrow> u32 \<Rightarrow> string \<Rightarrow> 'f \<Rightarrow> 'f registry" where
  "set_fte r number name f =
     (if bt_numbering r = NoNumbers \<or> builtin_number (bt_numbering r) name \<noteq> None then registry_set r name f
      else set_numbered r number name f)"

section \<open>Helpers\<close>

definition set_arg_word :: "nat \<Rightarrow> u32 \<Rightarrow> 's core \<Rightarrow> 's core" where
  "set_arg_word i w c =
     (if i < 8 then on_mem (\<lambda>m. mem_set_g m (core_gbase c + OFS_PARM0 + i * 12) w) c else c)"

primrec first_some :: "('a \<Rightarrow> 'b option) \<Rightarrow> 'a list \<Rightarrow> 'b option" where
  "first_some f [] = None"
| "first_some f (x # xs) = (case f x of None \<Rightarrow> first_some f xs | Some y \<Rightarrow> Some y)"

definition progs_candidates :: "'s core \<Rightarrow> int \<Rightarrow> nat list" where
  "progs_candidates c n =
     (if n = - 1 then [unat (x_prnum (c_x c))]
      else if n = - 2 then [0..<length (c_progs c)]
      else if 0 \<le> n \<and> nat n < length (c_progs c) then [nat n] else [])"

definition is_trim_space :: "u8 \<Rightarrow> bool" where
  "is_trim_space c \<longleftrightarrow> c = 0x20 \<or> c = 0x09 \<or> c = 0x0A \<or> c = 0x0C \<or> c = 0x0D"

definition is_digit :: "u8 \<Rightarrow> bool" where
  "is_digit c \<longleftrightarrow> 0x30 \<le> c \<and> c \<le> 0x39"

definition parse_int_prefix :: "bytes \<Rightarrow> int" where
  "parse_int_prefix s =
     (let s = dropWhile is_trim_space s;
          (neg, digits) = (case s of
              [] \<Rightarrow> (False, s)
            | c # r \<Rightarrow> if c = 0x2D then (True, r) else if c = 0x2B then (False, r) else (False, s));
          v = foldl (\<lambda>v d. sat_i64 (sat_i64 (v * 10) + uint (d - 0x30))) 0 (takeWhile is_digit digits);
          v = (if neg then sat_i64 (- v) else v)
      in if - (2 ^ 31) \<le> v \<and> v < 2 ^ 31 then v else if neg then - (2 ^ 31) else 2 ^ 31 - 1)"

definition find_in_progs :: "'s core \<Rightarrow> bytes \<Rightarrow> nat \<Rightarrow> u32 option" where
  "find_in_progs c name pr = (if pr < 256 then find_live_function c (of_nat pr) name else None)"

definition find_function_rt :: "'s core \<Rightarrow> int \<Rightarrow> bytes \<Rightarrow> u32 option" where
  "find_function_rt c prnum name =
     (let prefix = takeWhile (\<lambda>b. b \<noteq> 0x3A) name;
          (candidates, name) =
            (if length prefix < length name
             then (progs_candidates c (parse_int_prefix prefix), drop (length prefix + 1) name)
             else (progs_candidates c prnum, name))
      in first_some (find_in_progs c name) candidates)"

definition raw_args :: "'s core \<Rightarrow> nat \<Rightarrow> (u32 \<times> u32 \<times> u32) list" where
  "raw_args c from = map (arg_raw c) [from..<min (argc c) 8]"

type_synonym 'h caller = "u32 \<Rightarrow> arg list \<Rightarrow> (std_state, 'h, u32 \<times> u32 \<times> u32) act"
type_synonym 'h std_act = "(std_state, 'h, unit) act"

definition call_raw :: "'h caller \<Rightarrow> u32 \<Rightarrow> (u32 \<times> u32 \<times> u32) list \<Rightarrow> 'h std_act" where
  "call_raw K f as = and_then (K f (map ArgRaw as)) (\<lambda>ret. change (ret_raw ret))"

definition flag_f32 :: "bool \<Rightarrow> u32" where
  "flag_f32 b = (if b then f32_one else 0)"

section \<open>Introspection\<close>

definition checkbuiltin :: builtin where
  "checkbuiltin c = ok (ret_word (flag_f32 (is_builtin_bound c (arg_word c 0))) c)"

definition isfunction :: builtin where
  "isfunction c = ok (ret_word (flag_f32 (find_function_rt c (- 2) (arg_str c 0) \<noteq> None)) c)"

definition callfunction :: "'h caller \<Rightarrow> 'h std_act" where
  "callfunction K = (\<lambda>w.
     let c = v_core (fst w); argc = min (argc c) 8
     in if argc = 0 then fails (BuiltinError ''callfunction needs at least one argument'') w
        else case find_function_rt c (- 2) (arg_str c (argc - 1)) of
               Some f \<Rightarrow> call_raw K f (map (arg_raw c) [0..<argc - 1]) w
             | None \<Rightarrow> give () w)"

definition externcall :: "'h caller \<Rightarrow> 'h std_act" where
  "externcall K = (\<lambda>w.
     let c = v_core (fst w); prnum = sint (arg_int c 0); name = arg_str c 1; as = raw_args c 2
     in case find_function_rt c prnum name of
          Some f \<Rightarrow> call_raw K f as w
        | None \<Rightarrow>
            (case find_function_rt c prnum (ascii ''MissingFunc'') of
               Some f \<Rightarrow> call_raw K f ((arg_word c 1, 0, 0) # take 7 as) w
             | None \<Rightarrow> fails (BuiltinError (''Couldn'' @ CHR 0x27 # ''t find function '' @ lossy name)) w))"

definition externrefcall :: "'h caller \<Rightarrow> 'h std_act" where
  "externrefcall K = (\<lambda>w. let c = v_core (fst w) in call_raw K (arg_word c 1) (raw_args c 2) w)"

definition find_global :: "'s core \<Rightarrow> int \<Rightarrow> bytes \<Rightarrow> (u32 \<times> qc_type) option" where
  "find_global c prnum name =
     first_some (\<lambda>pr.
       Option.bind (nth_opt (c_progs c) pr) (\<lambda>ps.
       Option.bind (global_def_raw (ps_program ps) name) (\<lambda>d.
       if 256 \<le> pr then None
       else Option.bind (global_offset c (of_nat pr) (d_ofs d)) (\<lambda>addr.
         if addr < 2 ^ 32 then Some (of_nat addr, d_ty d) else None)))) (progs_candidates c prnum)"

definition externvalue :: builtin where
  "externvalue c =
     (let prnum = sint (arg_int c 0); name = args_concat c 1
      in if name \<noteq> [] \<and> hd name = 0x26
         then ok (ret_raw (case find_global c prnum (tl name) of Some (a, _) \<Rightarrow> a | None \<Rightarrow> 0, 0, 0) c)
         else ok (ret_raw
                (case find_global c prnum name of
                   Some (addr, _) \<Rightarrow>
                     (mem_g (c_mem c) (unat addr), mem_g (c_mem c) (unat addr + 4), mem_g (c_mem c) (unat addr + 8))
                 | None \<Rightarrow> (the_default 0 (find_function_rt c prnum name), 0, 0)) c))"

definition externset :: builtin where
  "externset c =
     (let prnum = sint (arg_int c 0); (x, y, z) = arg_raw c 1; name = args_concat c 2
      in case find_global c prnum name of
           None \<Rightarrow> ok c
         | Some (addr, ty) \<Rightarrow>
             let n = (case ty of TVector \<Rightarrow> 3 | TInt64 \<Rightarrow> 2 | TUInt64 \<Rightarrow> 2 | TDouble \<Rightarrow> 2 | _ \<Rightarrow> 1)
             in ok (on_mem (put_words mem_set_g (unat addr) (take n [x, y, z])) c))"

definition abort_qc :: "'h std_act" where
  "abort_qc = core_act (\<lambda>c. (c, Some (vm_error_abort (if 0 < argc c then arg_raw c 0 else (0, 0, 0)))))"

definition traceon :: "'h std_act" where
  "traceon = (\<lambda>(v, h). Some ((on_core (\<lambda>c. c\<lparr>c_trace := True\<rparr>) v, h), Done ()))"

definition traceoff :: "'h std_act" where
  "traceoff = (\<lambda>(v, h). Some ((on_core (\<lambda>c. c\<lparr>c_trace := False\<rparr>) v, h), Done ()))"

definition breakpoint :: builtin where
  "breakpoint c = ok (vm_warn ''break statement'' c)"

definition crash :: builtin where
  "crash c =
     (let name = bi_name (current_builtin c)
      in (c, Some (QcError ((if name = [] then ascii ''?unknown?'' else name) @ ascii '' called''))))"

section \<open>Forwarding to the host\<close>

definition ret_opt_str :: "bytes option \<Rightarrow> builtin" where
  "ret_opt_str t c = (case t of Some t \<Rightarrow> ret_str t c | None \<Rightarrow> ok (ret_raw (0, 0, 0) c))"

definition asking :: "(score \<Rightarrow> ('h, 'r) service) \<Rightarrow> ('r \<Rightarrow> builtin) \<Rightarrow> 'h std_act" where
  "asking q k = and_then (look id) (\<lambda>c. and_then (ask (q c)) (\<lambda>r. may_fail (k r)))"

definition hc_print :: "(std_state, 'h) services \<Rightarrow> 'h std_act" where
  "hc_print S = asking (\<lambda>c. sv_print S (args_concat c 0)) (\<lambda>_. ok)"

definition dprint :: "(std_state, 'h) services \<Rightarrow> 'h std_act" where
  "dprint S = and_then (look id) (\<lambda>c.
     if g_developer (c_config c) then ask (sv_dprint S (args_concat c 0)) else give ())"

definition cprint :: "(std_state, 'h) services \<Rightarrow> 'h std_act" where
  "cprint S = asking (\<lambda>c. sv_centerprint S (args_concat c 0)) (\<lambda>_. ok)"

definition qc_error :: builtin where
  "qc_error c = (c, Some (QcError (args_concat c 0)))"

definition localcmd :: "(std_state, 'h) services \<Rightarrow> 'h std_act" where
  "localcmd S = asking (\<lambda>c. sv_localcmd S (args_concat c 0)) (\<lambda>_. ok)"

definition cvar :: "(std_state, 'h) services \<Rightarrow> 'h std_act" where
  "cvar S = asking (\<lambda>c. sv_cvar_float S (arg_str c 0)) (\<lambda>v c. ok (ret_word v c))"

definition cvar_string :: "(std_state, 'h) services \<Rightarrow> 'h std_act" where
  "cvar_string S = asking (\<lambda>c. sv_cvar_string S (arg_str c 0)) ret_opt_str"

definition cvar_set :: "(std_state, 'h) services \<Rightarrow> 'h std_act" where
  "cvar_set S = asking (\<lambda>c. sv_cvar_set S (arg_str c 0) (arg_str c 1)) (\<lambda>_. ok)"

definition cvar_type :: "(std_state, 'h) services \<Rightarrow> 'h std_act" where
  "cvar_type S = asking (\<lambda>c. sv_cvar_info S (arg_str c 0))
     (\<lambda>i c. ok (ret_word (f32_of_int (uint (case i of Some i \<Rightarrow> cv_flags i | None \<Rightarrow> 0))) c))"

definition cvar_defstring :: "(std_state, 'h) services \<Rightarrow> 'h std_act" where
  "cvar_defstring S = asking (\<lambda>c. sv_cvar_info S (arg_str c 0)) (\<lambda>i. ret_opt_str (map_option cv_default i))"

definition cvar_description :: "(std_state, 'h) services \<Rightarrow> 'h std_act" where
  "cvar_description S = asking (\<lambda>c. sv_cvar_info S (arg_str c 0)) (\<lambda>i. ret_opt_str (Option.bind i cv_description))"

definition registercvar :: "(std_state, 'h) services \<Rightarrow> 'h std_act" where
  "registercvar S = asking (\<lambda>c. sv_register_cvar S (arg_str c 0) (if 1 < argc c then arg_str c 1 else [])
       (if 2 < argc c then arg_int c 2 else 0)) (\<lambda>b c. ok (ret_word (flag_f32 b) c))"

definition checkextension :: "(std_state, 'h) services \<Rightarrow> 'h std_act" where
  "checkextension S = asking (\<lambda>c. sv_check_extension S (arg_str c 0)) (\<lambda>b c. ok (ret_word (flag_f32 b) c))"

definition checkcommand :: "(std_state, 'h) services \<Rightarrow> 'h std_act" where
  "checkcommand S = asking (\<lambda>c. sv_check_command S (arg_str c 0)) (\<lambda>k c. ok (ret_word (f32_of_int (uint k)) c))"

definition registercommand :: "(std_state, 'h) services \<Rightarrow> 'h std_act" where
  "registercommand S = asking (\<lambda>c. sv_register_command S (arg_str c 0)) (\<lambda>_. ok)"

definition isdemo :: "(std_state, 'h) services \<Rightarrow> 'h std_act" where
  "isdemo S = asking (\<lambda>_. sv_is_demo S) (\<lambda>x c. ok (ret_word x c))"

definition isserver :: "(std_state, 'h) services \<Rightarrow> 'h std_act" where
  "isserver S = asking (\<lambda>_. sv_is_server S) (\<lambda>b c. ok (ret_word (flag_f32 b) c))"

definition cvars_haveunsaved :: "(std_state, 'h) services \<Rightarrow> 'h std_act" where
  "cvars_haveunsaved S = asking (\<lambda>_. sv_cvars_have_unsaved S) (\<lambda>b c. ok (ret_word (flag_f32 b) c))"

section \<open>Buffers filled by the host\<close>

definition buf_cvarlist :: "(std_state, 'h) services \<Rightarrow> 'h std_act" where
  "buf_cvarlist S = and_then (look (\<lambda>c. (c, buf_arg c 0))) (\<lambda>(c, b).
     case b of
       None \<Rightarrow> give ()
     | Some b \<Rightarrow>
         and_then (ask (sv_cvar_list S (arg_str c 1) (arg_str c 2))) (\<lambda>names.
           may_fail (\<lambda>c.
             let names = take (entry_limit c) (sort_by bytes_le names)
             in ok (fst (replace b (from_strings (map Some names)) c)))))"

text \<open>The lines go in until the limit of entries is met or one does not fit.\<close>

primrec store_lines :: "nat \<Rightarrow> nat \<Rightarrow> bytes list \<Rightarrow> score \<Rightarrow> score" where
  "store_lines b limit [] c = c"
| "store_lines b limit (line # lines) c =
     (case buf_at c b of
        None \<Rightarrow> c
      | Some buf \<Rightarrow>
          let i = length (sb_strings buf)
          in if limit \<le> i then c
             else case store b i line c of
                    (c, True) \<Rightarrow> store_lines b limit lines c
                  | (c, False) \<Rightarrow> c)"

definition buf_loadfile :: "(std_state, 'h) services \<Rightarrow> 'h std_act" where
  "buf_loadfile S = and_then (change (ret_word 0)) (\<lambda>_. and_then (look (\<lambda>c. (c, buf_arg c 1))) (\<lambda>(c, b).
     case b of
       None \<Rightarrow> give ()
     | Some b \<Rightarrow>
         and_then (ask (sv_read_file S (arg_str c 0))) (\<lambda>data.
           case data of
             None \<Rightarrow> give ()
           | Some data \<Rightarrow>
               change (\<lambda>c. ret_word f32_one (store_lines b (entry_limit c) (file_lines data) c)))))"

section \<open>They keep the contract of the engine\<close>

lemma keeping_store_lines: "keeping not_bufs c (store_lines b limit lines c)"
proof (induction lines arbitrary: c)
  case (Cons line lines)
  show ?case
  proof (cases "buf_at c b")
    case None
    then show ?thesis by (simp add: keeping_refl)
  next
    case (Some buf)
    obtain d r where st: "store b (length (sb_strings buf)) line c = (d, r)" by fastforce
    note k = via_store [OF st]
    show ?thesis using k keeping_trans [OF k Cons [of d]] by (cases r) (simp_all add: Some st Let_def keeping_refl)
  qed
qed (simp add: keeping_refl)

lemma tame_loads [tame_intros]:
  "tame c (store_lines b limit lines c)" "tame c (fst (replace b x c))"
  using keepingD(1) [OF keeping_store_lines] keepingD(1) [OF keeping_store(2)] by blast+

lemma obeys_buffer_hosts: "obeys (buf_cvarlist S)" "obeys (buf_loadfile S)"
proof -
  have list: "obeys (may_fail (\<lambda>c. ok (fst (replace b (x c) c))))" for x b
    by (rule obeys_may_fail) (simp add: tame_loads(2))
  show "obeys (buf_cvarlist S)"
    unfolding buf_cvarlist_def
    by (rule obeys_and_then [OF obeys_look])
      (simp split: prod.split option.split add: Let_def obeys_give list obeys_and_then [OF obeys_ask])
  have lines: "obeys (change (\<lambda>c. ret_word f32_one (store_lines b (l c) ls c)))" for b l ls
    by (rule obeys_change) (rule tame_trans [OF tame_loads(1) tame_ret(2)])
  show "obeys (buf_loadfile S)"
    unfolding buf_loadfile_def
    by (rule obeys_and_then [OF obeys_change [OF tame_ret(2)]], rule obeys_and_then [OF obeys_look])
      (simp split: prod.split option.split add: obeys_give lines obeys_and_then [OF obeys_ask])
qed

lemma tame_opt_str [tame_intros]: "tame c (fst (ret_opt_str t c))"
  by (simp add: ret_opt_str_def tame_intros split: option.split)

lemma obeys_asking: "(\<And>r c. tame c (fst (k r c))) \<Longrightarrow> obeys (asking q k)"
  unfolding asking_def by (intro obeys_and_then obeys_intros)

lemma obeys_hostcalls:
  "obeys (hc_print S)" "obeys (dprint S)" "obeys (cprint S)" "obeys (localcmd S)" "obeys (cvar S)"
  "obeys (cvar_string S)" "obeys (cvar_set S)" "obeys (cvar_type S)" "obeys (cvar_defstring S)"
  "obeys (cvar_description S)" "obeys (registercvar S)" "obeys (checkextension S)" "obeys (checkcommand S)"
  "obeys (registercommand S)" "obeys (isdemo S)" "obeys (isserver S)" "obeys (cvars_haveunsaved S)"
proof -
  show "obeys (dprint S)"
    unfolding dprint_def by (intro obeys_and_then obeys_look) (simp add: obeys_ask obeys_give)
qed (simp_all add: hc_print_def cprint_def localcmd_def cvar_def cvar_string_def cvar_set_def cvar_type_def
    cvar_defstring_def cvar_description_def registercvar_def checkextension_def checkcommand_def
    registercommand_def isdemo_def isserver_def cvars_haveunsaved_def obeys_asking tame_intros)

lemma tame_set_arg_word [tame_intros]: "tame c (set_arg_word i w c)"
proof -
  have "put_words mem_set_g at [w] = (\<lambda>m. mem_set_g m at w)" for at by (rule ext) (simp add: put_words_def)
  then show ?thesis using tame_put_words [of c _ "[w]"] by (simp add: set_arg_word_def tame_refl)
qed

lemma tame_introspection:
  "tame c (fst (checkbuiltin c))" "tame c (fst (isfunction c))" "tame c (fst (externvalue c))"
  "tame c (fst (externset c))" "tame c (fst (breakpoint c))" "tame c (fst (crash c))" "tame c (fst (qc_error c))"
  by (simp_all add: checkbuiltin_def isfunction_def externvalue_def externset_def breakpoint_def crash_def
      qc_error_def Let_def tame_intros split: option.split prod.split)

lemma obeys_call_raw: "(\<And>f as. obeys (K f as)) \<Longrightarrow> obeys (call_raw K f as)"
  unfolding call_raw_def by (intro obeys_and_then obeys_change tame_intros)

text \<open>An action that is chosen by the machine.\<close>

lemma obeys_by: "(\<And>v h. \<exists>m. obeys m \<and> a (v, h) = m (v, h)) \<Longrightarrow> obeys a"
  unfolding obeys_def by metis

lemma obeys_externs:
  assumes K: "\<And>f as. obeys (K f as)"
  shows "obeys (callfunction K)" "obeys (externcall K)" "obeys (externrefcall K)"
proof -
  note k = obeys_call_raw [where K = K, OF K]
  show "obeys (callfunction K)"
  proof (rule obeys_by)
    fix v :: "std_state vm" and h :: 'a
    show "\<exists>m. obeys m \<and> callfunction K (v, h) = m (v, h)"
      unfolding callfunction_def Let_def fst_conv
      by (cases "min (argc (v_core v)) 8 = 0";
          cases "find_function_rt (v_core v) (- 2) (arg_str (v_core v) (min (argc (v_core v)) 8 - 1))")
        (auto intro: obeys_give k)
  qed
  show "obeys (externcall K)"
  proof (rule obeys_by)
    fix v :: "std_state vm" and h :: 'a
    show "\<exists>m. obeys m \<and> externcall K (v, h) = m (v, h)"
      unfolding externcall_def Let_def fst_conv
      by (auto intro: obeys_give k split: option.split)
  qed
  show "obeys (externrefcall K)"
    by (rule obeys_by) (auto simp: externrefcall_def Let_def intro: k)
qed

lemma obeys_abort: "obeys abort_qc"
  unfolding abort_qc_def by (rule obeys_core_act) (simp add: tame_refl)

lemma trace_ready: "vm_ready (on_core (\<lambda>c. c\<lparr>c_trace := b\<rparr>) v) = vm_ready v"
  by (simp add: vm_ready_def on_core_def run_ready_def core_wf_def stack_wf_def window_fits_def)

lemma obeys_tracing: "obeys traceon" "obeys traceoff"
  by (simp_all add: traceon_def traceoff_def obeys_def trace_ready in_call_def)
    (simp_all add: on_core_def same_calls_def)

end
