(* ===== verification/Charset.thy ===== *)
theory Charset
  imports TextNum
begin

text \<open>
  Characters in byte strings (\<open>src/stdlib/charset.rs\<close>): decoding and encoding for the Quake, UTF-8 and ISO-8859-1
  schemes, the iterator over the characters of a string and the conversions between byte and character offsets.

  Encoders return the bytes that the code appends.
\<close>

section \<open>Decoding\<close>

definition REPLACEMENT :: u32 where "REPLACEMENT = 0xFFFD"

datatype (plugins only: code size) utf8_error = Malformed | Illegal | LoneHighSurrogate | LowSurrogate

record decoded =
  dc_ch :: u32
  dc_len :: nat
  dc_error :: "utf8_error option"

definition is_cont_at :: "bytes \<Rightarrow> nat \<Rightarrow> bool" where
  "is_cont_at s i = (case nth_opt s i of Some b \<Rightarrow> b AND 0xC0 = 0x80 | None \<Rightarrow> False)"

text \<open>Sequence length, payload bits of the lead byte, smallest value that needs the length.\<close>

definition lead_byte :: "u8 \<Rightarrow> nat \<times> u8 \<times> u32" where
  "lead_byte b =
     (if 0xC0 \<le> b \<and> b \<le> 0xDF then (2, 0x1F, 0x80)
      else if 0xE0 \<le> b \<and> b \<le> 0xEF then (3, 0x0F, 0x800)
      else if 0xF0 \<le> b \<and> b \<le> 0xF7 then (4, 0x07, 0x10000)
      else if 0xF8 \<le> b \<and> b \<le> 0xFB then (5, 0x03, 0x200000)
      else (6, 0x01, 0x4000000))"

definition decode_utf8_basic :: "bytes \<Rightarrow> decoded" where
  "decode_utf8_basic s =
     (case s of
        [] \<Rightarrow> \<lparr>dc_ch = 0, dc_len = 1, dc_error = None\<rparr>
      | b0 # _ \<Rightarrow>
          if b0 \<le> 0x7F then \<lparr>dc_ch = ucast b0, dc_len = 1, dc_error = None\<rparr>
          else if b0 \<le> 0xBF \<or> 0xFE \<le> b0
          then \<lparr>dc_ch = 0xE000 OR ucast b0, dc_len = 1, dc_error = Some Malformed\<rparr>
          else (case lead_byte b0 of
                  (n, lead_mask, least) \<Rightarrow>
                    if \<not> list_all (is_cont_at s) [1..<n]
                    then \<lparr>dc_ch = REPLACEMENT, dc_len = 1, dc_error = Some Malformed\<rparr>
                    else let ch = foldl (\<lambda>acc b. push_bit 6 acc OR ucast (b AND 0x3F)) (ucast (b0 AND lead_mask))
                                    (drop 1 (take n s))
                         in \<lparr>dc_ch = ch, dc_len = n,
                             dc_error = if least \<le> ch \<or> n = 2 \<and> ch = 0 then None else Some Illegal\<rparr>))"

definition decode_utf8 :: "bytes \<Rightarrow> decoded" where
  "decode_utf8 s =
     (let d = decode_utf8_basic s
      in if dc_error d \<noteq> None then d
         else
           (let d = (if 0xD800 \<le> dc_ch d \<and> dc_ch d < 0xDC00
                     then let low = decode_utf8_basic (the_default [] (slice_from s (dc_len d)))
                          in if dc_error low = None \<and> 0xDC00 \<le> dc_ch low \<and> dc_ch low < 0xE000
                             then d\<lparr>dc_ch := (push_bit 10 (dc_ch d AND 0x3FF) OR (dc_ch low AND 0x3FF)) + 0x10000,
                                    dc_len := dc_len d + dc_len low\<rparr>
                             else d\<lparr>dc_error := Some LoneHighSurrogate\<rparr>
                     else d);
                d = (if 0xDC00 \<le> dc_ch d \<and> dc_ch d < 0xE000 then d\<lparr>dc_error := Some LowSurrogate\<rparr> else d)
            in if dc_ch d = 0xFFFE \<or> dc_ch d = 0xFFFF \<or> 0x10FFFF < dc_ch d then d\<lparr>dc_error := Some Illegal\<rparr> else d))"

definition decode :: "bytes \<Rightarrow> char_scheme \<Rightarrow> u32 \<times> nat" where
  "decode s scheme =
     (let b = (case s of [] \<Rightarrow> 0 | b # _ \<Rightarrow> ucast b)
      in case scheme of
           Utf8Chars \<Rightarrow> (let d = decode_utf8 s in (dc_ch d, dc_len d))
         | Iso8859_1Chars \<Rightarrow> (b, 1)
         | QuakeChars \<Rightarrow>
             (let special = b \<noteq> 0 \<and> b \<noteq> 0x0A \<and> b \<noteq> 0x09 \<and> b \<noteq> 0x0D \<and> \<not> (0x20 \<le> b \<and> b < 0x80)
              in (if special then 0xE000 OR b else b, 1)))"

lemma decode_utf8_basic_len: "0 < dc_len (decode_utf8_basic s)"
  by (auto simp: decode_utf8_basic_def lead_byte_def Let_def split: list.split prod.split)

lemma decode_utf8_len: "0 < dc_len (decode_utf8 s)"
  using decode_utf8_basic_len [of s] by (simp add: decode_utf8_def Let_def)

lemma decode_len: "decode s scheme = (ch, n) \<Longrightarrow> 0 < n"
  using decode_utf8_len [of s] by (auto simp: decode_def Let_def split: char_scheme.splits)

text \<open>The iterator over characters: byte offset, code point, byte length.\<close>

function chars_from :: "char_scheme \<Rightarrow> nat \<Rightarrow> bytes \<Rightarrow> (nat \<times> u32 \<times> nat) list" where
  "chars_from scheme at s =
     (if s = [] then []
      else case decode s scheme of (ch, n) \<Rightarrow> (at, ch, n) # chars_from scheme (at + n) (drop n s))"
  by pat_completeness auto
termination
  by (relation "measure (\<lambda>(scheme, at, s). length s)") (auto dest!: decode_len [OF sym])

declare chars_from.simps [simp del]

definition chars :: "bytes \<Rightarrow> char_scheme \<Rightarrow> (nat \<times> u32 \<times> nat) list" where
  "chars s scheme = chars_from scheme 0 s"

definition char_count :: "bytes \<Rightarrow> char_scheme \<Rightarrow> nat" where
  "char_count s scheme = (if scheme = Utf8Chars then length (chars s scheme) else length s)"

definition byte_offset :: "bytes \<Rightarrow> nat \<Rightarrow> char_scheme \<Rightarrow> nat" where
  "byte_offset s index scheme =
     (if scheme = Utf8Chars
      then (case nth_opt (chars s scheme) index of None \<Rightarrow> length s | Some (at, _) \<Rightarrow> at)
      else min index (length s))"

definition char_offset :: "bytes \<Rightarrow> nat \<Rightarrow> char_scheme \<Rightarrow> nat" where
  "char_offset s ofs scheme =
     (if scheme = Utf8Chars
      then length (takeWhile (\<lambda>(at, _, n). at + n \<le> ofs) (chars s scheme))
      else min ofs (length s))"

section \<open>Encoding\<close>

definition hex_digit :: "u32 \<Rightarrow> u8" where
  "hex_digit v = digit_char (unat (v AND 15))"

definition encode_markup :: "u32 \<Rightarrow> bytes" where
  "encode_markup ch =
     (if 0xFFFF < ch then [0x5E, 0x7B] @ hex_text (unat ch) @ [0x7D]
      else [0x5E, 0x55] @ map (\<lambda>s. hex_digit (drop_bit s ch)) [12, 8, 4, 0])"

definition utf8_size :: "u32 \<Rightarrow> nat" where
  "utf8_size ch =
     (if ch \<le> 0x7FF then 2 else if ch \<le> 0xFFFF then 3 else if ch \<le> 0x1FFFFF then 4
      else if ch \<le> 0x3FFFFFF then 5 else 6)"

definition encode_utf8 :: "u32 \<Rightarrow> bytes" where
  "encode_utf8 ch =
     (let ch = (if 0x7FFFFFFF < ch then REPLACEMENT else ch)
      in if ch = 0 then [0xC0, 0x80]
         else if ch \<le> 0x7F then [ucast ch]
         else let n = utf8_size ch; lead_bits = drop_bit n (0xFF00 :: u32) AND 0xFF
              in ucast (lead_bits OR drop_bit ((n - 1) * 6) ch) #
                 map (\<lambda>k. ucast (0x80 OR (drop_bit (k * 6) ch AND 0x3F))) (rev [0..<n - 1]))"

definition encode :: "u32 \<Rightarrow> char_scheme \<Rightarrow> bool \<Rightarrow> bytes" where
  "encode ch scheme markup =
     (let direct = (case scheme of
            Utf8Chars \<Rightarrow> False
          | QuakeChars \<Rightarrow>
              0x20 \<le> ch \<and> ch < 0x80 \<or> ch = 0x09 \<or> ch = 0x0A \<or> ch = 0x0B \<or> ch = 0x0D \<or>
              0xE000 \<le> ch \<and> ch \<le> 0xE0FF \<and> \<not> (ch = 0xE009 \<or> ch = 0xE00A \<or> ch = 0xE00D)
          | Iso8859_1Chars \<Rightarrow> ch < 0x100 \<or> 0xE020 \<le> ch \<and> ch < 0xE080)
      in if scheme = Utf8Chars then encode_utf8 ch
         else if direct then [ucast (ch AND 0xFF)]
         else if markup then encode_markup ch
         else [0x3F])"

section \<open>UTF-8 round trip\<close>

text \<open>Bytes of a sequence, as numbers.\<close>

lemma less_8_cases: "n < LENGTH(8) \<Longrightarrow> n = 0 \<or> n = 1 \<or> n = 2 \<or> n = 3 \<or> n = 4 \<or> n = 5 \<or> n = 6 \<or> n = (7 :: nat)"
  by auto

lemma byte_beyond: "8 \<le> n \<Longrightarrow> \<not> bit (a :: u8) n"
  using bit_imp_le_length [of a n] by auto

lemma nat_or_low: "x < 2 ^ k \<Longrightarrow> a * 2 ^ k OR x = a * 2 ^ k + (x :: nat)"
proof -
  assume x: "x < 2 ^ k"
  have "push_bit k a AND x = 0"
  proof (rule bit_eqI)
    fix n
    have "\<not> bit x n" if "k \<le> n"
      using x that by (simp add: bit_iff_odd div_less [OF less_le_trans [OF x]])
    then show "bit (push_bit k a AND x) n = bit 0 n" by (auto simp: bit_simps)
  qed
  then have "push_bit k a OR x = push_bit k a + x" by (simp only: disjunctive_add_eq_or)
  then show ?thesis by (simp add: push_bit_eq_mult)
qed

lemma low_bits: "unat (w AND 0x3F) = unat w mod 64" for w :: "'a::len word"
proof -
  have "w AND 0x3F = take_bit 6 w" by (simp add: take_bit_eq_mask mask_eq_exp_minus_1)
  then have "unat (w AND 0x3F) = take_bit 6 (unat w)" by (simp only: unsigned_take_bit_eq)
  then show ?thesis by (simp add: take_bit_eq_mod)
qed

lemma u8_bound: "unat (b :: u8) < 256"
  using unsigned_less [of b] by simp

lemma byte_of: "unat x < 256 \<Longrightarrow> unat (ucast (x :: u32) :: u8) = unat x"
  by (simp add: unsigned_ucast_eq take_bit_nat_eq_self)

lemma word_of_byte: "unat (ucast (b :: u8) :: u32) = unat b"
  using u8_bound [of b] by (simp add: unsigned_ucast_eq take_bit_nat_eq_self)

lemma cont_byte: "unat (ucast (0x80 OR (drop_bit k ch AND 0x3F) :: u32) :: u8) = 128 + unat ch div 2 ^ k mod 64"
proof -
  let ?x = "unat ch div 2 ^ k mod 64"
  have "unat (drop_bit k ch AND 0x3F) = ?x" by (simp add: low_bits unat_drop_bit)
  then have "unat (0x80 OR (drop_bit k ch AND 0x3F) :: u32) = 2 * 2 ^ 6 OR ?x" by (simp add: unsigned_or_eq)
  also have "\<dots> = 128 + ?x" by (subst nat_or_low) simp_all
  finally show ?thesis by (subst byte_of) simp_all
qed

lemma cont_byte_is: "(b AND 0xC0 = 0x80) = (128 \<le> unat b \<and> unat b < 192)" for b :: u8
proof -
  have "b AND 0xC0 = push_bit 6 (drop_bit 6 b)"
    by (rule bit_word_eqI, drule less_8_cases, elim disjE, simp_all add: bit_simps)
  moreover have "unat (push_bit 6 (drop_bit 6 b)) = unat b div 64 * 64"
  proof -
    have "take_bit LENGTH(8) (unat b) = unat b" using u8_bound [of b] by (simp add: take_bit_nat_eq_self)
    then have "unat (drop_bit 6 b) = drop_bit 6 (unat b)" by (simp only: unsigned_drop_bit_eq)
    then have "unat (drop_bit 6 b) = unat b div 2 ^ 6" by (simp only: drop_bit_eq_div)
    moreover have "unat (push_bit 6 (drop_bit 6 b)) = take_bit LENGTH(8) (push_bit 6 (unat (drop_bit 6 b)))"
      by (rule unsigned_push_bit_eq)
    moreover have "unat b div 64 * 64 < 2 ^ LENGTH(8)" using u8_bound [of b] by simp
    ultimately show ?thesis by (simp only: push_bit_eq_mult) (simp add: take_bit_nat_eq_self)
  qed
  ultimately have "unat (b AND 0xC0) = unat b div 64 * 64" by (simp only:)
  moreover have "(b AND 0xC0 = 0x80) = (unat (b AND 0xC0) = 128)" unfolding word_unat_eq_iff by simp
  ultimately have "(b AND 0xC0 = 0x80) = (unat b div 64 * 64 = 128)" by (simp only:)
  moreover have "(x div 64 * 64 = 128) = (128 \<le> x \<and> x < 192)" for x :: nat
  proof
    have "x div 64 * 64 + x mod 64 = x" "x mod 64 < 64" by simp_all
    then show "x div 64 * 64 = 128 \<Longrightarrow> 128 \<le> x \<and> x < 192" by linarith
    show "128 \<le> x \<and> x < 192 \<Longrightarrow> x div 64 * 64 = 128" using div_nat_eqI [of 64 2 x] by simp
  qed
  ultimately show ?thesis by (simp only:)
qed

lemma fold_step:
  fixes acc :: u32 and b :: u8
  assumes "unat acc < 2 ^ 26"
  shows "unat (push_bit 6 acc OR ucast (b AND 0x3F)) = unat acc * 64 + unat b mod 64"
proof -
  have "unat acc * 2 ^ 6 < 2 ^ LENGTH(32)" using assms by simp
  moreover have "unat (push_bit 6 acc) = take_bit LENGTH(32) (push_bit 6 (unat acc))" by (rule unsigned_push_bit_eq)
  ultimately have "unat (push_bit 6 acc) = unat acc * 2 ^ 6" by (simp only: push_bit_eq_mult take_bit_nat_eq_self)
  then have "unat (push_bit 6 acc OR ucast (b AND 0x3F)) = unat acc * 2 ^ 6 OR unat b mod 64"
    by (simp only: unsigned_or_eq word_of_byte low_bits)
  also have "\<dots> = unat acc * 2 ^ 6 + unat b mod 64" by (rule nat_or_low) simp
  finally show ?thesis by simp
qed


definition cont_of :: "u32 \<Rightarrow> nat \<Rightarrow> u8" where
  "cont_of ch k = ucast (0x80 OR (drop_bit (k * 6) ch AND 0x3F))"

lemma cont_of: "unat (cont_of ch k) = 128 + unat ch div 2 ^ (k * 6) mod 64" "cont_of ch k AND 0xC0 = 0x80"
proof -
  show "unat (cont_of ch k) = 128 + unat ch div 2 ^ (k * 6) mod 64" unfolding cont_of_def by (rule cont_byte)
  then show "cont_of ch k AND 0xC0 = 0x80" unfolding cont_byte_is by simp
qed

lemma fold_conts:
  "unat acc = unat ch div 2 ^ (m * 6) \<Longrightarrow>
    foldl (\<lambda>acc b. push_bit 6 acc OR ucast (b AND 0x3F)) acc (map (cont_of ch) (rev [0..<m])) = ch"
proof (induction m arbitrary: acc)
  case (Suc m)
  let ?b = "cont_of ch m"
  have "unat ch div 2 ^ (Suc m * 6) \<le> unat ch div 2 ^ 6"
    using power_increasing [of 6 "Suc m * 6" "2 :: nat"] by (intro div_le_mono2) simp_all
  also have "\<dots> < 2 ^ 26" using unat_u32_bound [of ch] by simp
  finally have "unat (push_bit 6 acc OR ucast (?b AND 0x3F)) = unat acc * 64 + unat ?b mod 64"
    using Suc(2) by (intro fold_step) simp
  moreover have "unat acc = unat ch div 2 ^ (m * 6) div 64"
  proof -
    have "2 ^ (Suc m * 6) = 2 ^ (m * 6) * (64 :: nat)" by (simp add: power_add)
    then show ?thesis by (simp only: Suc(2) div_mult2_eq)
  qed
  moreover have "(128 + x mod 64) mod 64 = x mod 64" for x :: nat using mod_mult_self3 [of 2 64 "x mod 64"] by simp
  ultimately have "unat (push_bit 6 acc OR ucast (?b AND 0x3F)) =
      unat ch div 2 ^ (m * 6) div 64 * 64 + unat ch div 2 ^ (m * 6) mod 64"
    by (simp only: cont_of(1))
  then have "unat (push_bit 6 acc OR ucast (?b AND 0x3F)) = unat ch div 2 ^ (m * 6)" by simp
  from Suc(1) [OF this] show ?case by simp
qed (simp add: word_unat_eq_iff)

text \<open>The lead byte of a sequence of \<open>n\<close> bytes.\<close>

definition lead_of :: "u32 \<Rightarrow> nat \<Rightarrow> u8" where
  "lead_of ch n = ucast ((drop_bit n (0xFF00 :: u32) AND 0xFF) OR drop_bit ((n - 1) * 6) ch)"

lemma lead_of:
  assumes "n \<in> {2..6}" "unat ch < 2 ^ (5 * n + 1)"
  shows "unat (lead_of ch n) = 256 - 2 ^ (8 - n) + unat ch div 2 ^ ((n - 1) * 6)"
    and "unat ch div 2 ^ ((n - 1) * 6) < 2 ^ (7 - n)"
proof -
  let ?x = "unat ch div 2 ^ ((n - 1) * 6)"
  from assms(1) have n: "n = 2 \<or> n = 3 \<or> n = 4 \<or> n = 5 \<or> n = 6" by auto
  show x: "?x < 2 ^ (7 - n)" using assms(2) n by (auto simp: less_mult_imp_div_less)
  have lead: "unat (drop_bit n (0xFF00 :: u32) AND 0xFF) = (2 ^ n - 1) * 2 * 2 ^ (7 - n)" using n by auto
  have "unat ((drop_bit n (0xFF00 :: u32) AND 0xFF) OR drop_bit ((n - 1) * 6) ch) = (2 ^ n - 1) * 2 * 2 ^ (7 - n) OR ?x"
    by (simp only: unsigned_or_eq lead unat_drop_bit)
  also have "\<dots> = (2 ^ n - 1) * 2 * 2 ^ (7 - n) + ?x" using x by (rule nat_or_low)
  also have "\<dots> = 256 - 2 ^ (8 - n) + ?x" using n by auto
  finally have e: "unat ((drop_bit n (0xFF00 :: u32) AND 0xFF) OR drop_bit ((n - 1) * 6) ch) = 256 - 2 ^ (8 - n) + ?x" .
  have "256 - 2 ^ (8 - n) + ?x < 256" using x n by auto
  then show "unat (lead_of ch n) = 256 - 2 ^ (8 - n) + ?x" unfolding lead_of_def using byte_of e by simp
qed


lemma utf8_size:
  assumes "ch \<le> 0x7FFFFFFF"
  shows "utf8_size ch \<in> {2..6}" "unat ch < 2 ^ (5 * utf8_size ch + 1)"
    "0x80 \<le> ch \<Longrightarrow> (if utf8_size ch = 2 then 0x80 else 2 ^ (5 * utf8_size ch - 4)) \<le> ch"
  using assms by (auto simp: utf8_size_def word_le_nat_alt)

lemma encode_long:
  assumes "0x80 \<le> ch" "ch \<le> 0x7FFFFFFF"
  shows "encode_utf8 ch = lead_of ch (utf8_size ch) # map (cont_of ch) (rev [0..<utf8_size ch - 1])"
proof -
  have "\<not> 0x7FFFFFFF < ch" "ch \<noteq> 0" "\<not> ch \<le> 0x7F"
    using assms by (auto simp: word_le_nat_alt word_less_nat_alt)
  then show ?thesis by (simp add: encode_utf8_def Let_def lead_of_def cont_of_def [abs_def])
qed

lemma lead_byte_of:
  assumes "n \<in> {2..6}" "unat ch < 2 ^ (5 * n + 1)"
  defines "b \<equiv> lead_of ch n"
  shows "lead_byte b = (n, mask (7 - n), if n = 2 then 0x80 else 2 ^ (5 * n - 4))" "\<not> b \<le> 0x7F" "\<not> (b \<le> 0xBF \<or> 0xFE \<le> b)"
    "unat (ucast (b AND mask (7 - n)) :: u32) = unat ch div 2 ^ ((n - 1) * 6)"
proof -
  let ?x = "unat ch div 2 ^ ((n - 1) * 6)"
  note l = lead_of [OF assms(1,2), folded b_def]
  from assms(1) have n: "n = 2 \<or> n = 3 \<or> n = 4 \<or> n = 5 \<or> n = 6" by auto
  show "lead_byte b = (n, mask (7 - n), if n = 2 then 0x80 else 2 ^ (5 * n - 4))"
    using n l by (elim disjE) (simp_all add: lead_byte_def word_le_nat_alt mask_eq_exp_minus_1)
  show "\<not> b \<le> 0x7F" "\<not> (b \<le> 0xBF \<or> 0xFE \<le> b)"
    using n l by (elim disjE; simp add: word_le_nat_alt)+
  have "unat (b AND mask (7 - n)) = take_bit (7 - n) (unat b)"
    unfolding take_bit_eq_mask [symmetric] by (rule unsigned_take_bit_eq)
  then have "unat (b AND mask (7 - n)) = unat b mod 2 ^ (7 - n)" by (simp only: take_bit_eq_mod)
  moreover have "unat b mod 2 ^ (7 - n) = ?x"
  proof -
    have "256 - 2 ^ (8 - n) = (2 ^ (n + 1) - 2) * (2 :: nat) ^ (7 - n)" using n by auto
    then show ?thesis using l by simp
  qed
  ultimately show "unat (ucast (b AND mask (7 - n)) :: u32) = ?x" by (simp only: word_of_byte)
qed

lemma conts_follow: "list_all (is_cont_at (b # map (cont_of ch) (rev [0..<m]) @ r)) [1..<Suc m]"
proof -
  have "is_cont_at (b # map (cont_of ch) (rev [0..<m]) @ r) i" if "1 \<le> i" "i < Suc m" for i
    using that by (cases i) (auto simp: is_cont_at_def nth_opt_def nth_append cont_of(2))
  then show ?thesis by (auto simp: list_all_iff simp del: upt_Suc)
qed

lemma decode_basic_long:
  assumes "\<not> b \<le> 0x7F" "\<not> (b \<le> 0xBF \<or> 0xFE \<le> b)" "lead_byte b = (n, m, least)"
    and "list_all (is_cont_at (b # t)) [1..<n]"
    and "foldl (\<lambda>acc b. push_bit 6 acc OR ucast (b AND 0x3F)) (ucast (b AND m)) (drop 1 (take n (b # t))) = ch" "least \<le> ch"
  shows "decode_utf8_basic (b # t) = \<lparr>dc_ch = ch, dc_len = n, dc_error = None\<rparr>"
  using assms by (simp add: decode_utf8_basic_def Let_def)

lemma decode_basic_encoded:
  assumes "ch \<le> 0x7FFFFFFF"
  shows "decode_utf8_basic (encode_utf8 ch @ r) = \<lparr>dc_ch = ch, dc_len = length (encode_utf8 ch), dc_error = None\<rparr>"
proof (cases "0x80 \<le> ch")
  case False
  then have small: "unat ch < 128" by (simp add: word_le_nat_alt)
  show ?thesis
  proof (cases "ch = 0")
    case True
    then show ?thesis
      by (simp add: encode_utf8_def decode_utf8_basic_def lead_byte_def is_cont_at_def nth_opt_def Let_def upt_rec)
  next
    case False
    then have e: "encode_utf8 ch = [ucast ch]"
      using assms small by (simp add: encode_utf8_def word_le_nat_alt word_less_nat_alt Let_def)
    have u: "unat (ucast ch :: u8) = unat ch" using small by (intro byte_of) simp
    then have "ucast (ucast ch :: u8) = ch" by (simp add: word_unat_eq_iff word_of_byte)
    then show ?thesis using u small by (simp add: e decode_utf8_basic_def word_le_nat_alt)
  qed
next
  case True
  let ?n = "utf8_size ch"
  note s = utf8_size [OF assms]
  note l = lead_byte_of [OF s(1,2)]
  let ?conts = "map (cont_of ch) (rev [0..<?n - 1])"
  have n: "Suc (?n - 1) = ?n" using s(1) by auto
  have e: "encode_utf8 ch = lead_of ch ?n # ?conts" using True assms by (rule encode_long)
  have t: "drop 1 (take ?n (lead_of ch ?n # ?conts @ r)) = ?conts" using n by (cases ?n) auto
  have "decode_utf8_basic (lead_of ch ?n # ?conts @ r) = \<lparr>dc_ch = ch, dc_len = ?n, dc_error = None\<rparr>"
  proof (rule decode_basic_long [OF l(2,3,1)])
    show "list_all (is_cont_at (lead_of ch ?n # ?conts @ r)) [1..<?n]" using conts_follow [of _ _ "?n - 1"] by (simp only: n)
    show "foldl (\<lambda>acc b. push_bit 6 acc OR ucast (b AND 0x3F)) (ucast (lead_of ch ?n AND mask (7 - ?n)))
        (drop 1 (take ?n (lead_of ch ?n # ?conts @ r))) = ch"
      unfolding t using l(4) by (rule fold_conts)
    show "(if ?n = 2 then 0x80 else 2 ^ (5 * ?n - 4)) \<le> ch" using s(3) True .
  qed
  moreover have "length (lead_of ch ?n # ?conts) = ?n" using n by simp
  ultimately show ?thesis unfolding e by simp
qed

text \<open>The errors a clean sequence of \<open>ch\<close> can have.\<close>

definition char_error :: "u32 \<Rightarrow> utf8_error option" where
  "char_error ch =
     (if ch = 0xFFFE \<or> ch = 0xFFFF \<or> 0x10FFFF < ch then Some Illegal
      else if 0xDC00 \<le> ch \<and> ch < 0xE000 then Some LowSurrogate else None)"

lemma decode_encoded:
  assumes "ch \<le> 0x7FFFFFFF" "\<not> (0xD800 \<le> ch \<and> ch < 0xDC00)"
  shows "decode_utf8 (encode_utf8 ch @ r) = \<lparr>dc_ch = ch, dc_len = length (encode_utf8 ch), dc_error = char_error ch\<rparr>"
  using assms(2) unfolding decode_utf8_def decode_basic_encoded [OF assms(1)]
  by (auto simp: Let_def char_error_def)

lemma encode_utf8_nonempty: "encode_utf8 ch \<noteq> []"
  by (simp add: encode_utf8_def Let_def)

text \<open>Characters that stand for themselves: any up to \<open>0x7FFFFFFF\<close> that is no high surrogate.\<close>

definition encodable :: "u32 \<Rightarrow> bool" where
  "encodable ch \<longleftrightarrow> ch \<le> 0x7FFFFFFF \<and> \<not> (0xD800 \<le> ch \<and> ch < 0xDC00)"

lemma chars_encoded:
  "list_all encodable chs \<Longrightarrow> map (\<lambda>(_, ch, _). ch) (chars_from Utf8Chars at (concat (map encode_utf8 chs))) = chs"
proof (induction chs arbitrary: at)
  case (Cons ch chs)
  have d: "decode (encode_utf8 ch @ concat (map encode_utf8 chs)) Utf8Chars = (ch, length (encode_utf8 ch))"
    using Cons(2) decode_encoded [of ch "concat (map encode_utf8 chs)"] by (simp add: decode_def Let_def encodable_def)
  show ?case using Cons encode_utf8_nonempty [of ch]
    by (subst chars_from.simps) (simp add: d)
qed (simp add: chars_from.simps)

text \<open>C29: iterating over the UTF-8 encoding of any sequence of characters gives back the characters, in order, be they
  the NUL of modified UTF-8, non-characters or the values beyond Unicode of the 5- and 6-byte forms; so the character count
  of the encoding is the number of characters.  Only high surrogates, which pair up with what follows, are left out.\<close>

theorem utf8_round_trip:
  assumes "list_all encodable chs"
  shows "map (\<lambda>(_, ch, _). ch) (chars (concat (map encode_utf8 chs)) Utf8Chars) = chs \<and>
    char_count (concat (map encode_utf8 chs)) Utf8Chars = length chs"
  using chars_encoded [OF assms, of 0]
  by (auto simp: chars_def char_count_def dest: arg_cong [where f = length])

theorem utf8_round_trip_witness:
  "map (\<lambda>(_, ch, _). ch) (chars (concat (map encode_utf8 [0, 0x41, 0xE9, 0x20AC, 0x1F600, 0xFFFE, 0x7FFFFFFF])) Utf8Chars) =
     [0, 0x41, 0xE9, 0x20AC, 0x1F600, 0xFFFE, 0x7FFFFFFF]"
  using utf8_round_trip [of "[0, 0x41, 0xE9, 0x20AC, 0x1F600, 0xFFFE, 0x7FFFFFFF]"] by (simp add: encodable_def)


text \<open>The schemes of one byte per character: every byte (but NUL in the Quake scheme) survives decoding and encoding.\<close>

lemma glyph_byte: "ucast ((0xE000 OR ucast b) AND 0xFF :: u32) = (b :: u8)" "ucast (ucast b AND 0xFF :: u32) = b"
  by (rule bit_word_eqI, drule less_8_cases, elim disjE, simp_all add: bit_simps)+

lemma glyph_range: "unat (0xE000 OR ucast b :: u32) = 0xE000 + unat b" for b :: u8
proof -
  have "unat (0xE000 OR ucast b :: u32) = 224 * 2 ^ 8 OR unat b" by (simp add: unsigned_or_eq word_of_byte)
  also have "\<dots> = 224 * 2 ^ 8 + unat b" using u8_bound [of b] by (intro nat_or_low) simp
  finally show ?thesis by simp
qed

lemma byte_schemes_round_trip:
  "b \<noteq> 0 \<Longrightarrow> encode (fst (decode [b] QuakeChars)) QuakeChars markup = [b]"
  "encode (fst (decode [b] Iso8859_1Chars)) Iso8859_1Chars markup = [b]"
proof -
  show "encode (fst (decode [b] Iso8859_1Chars)) Iso8859_1Chars markup = [b]"
    using u8_bound [of b] by (simp add: decode_def encode_def Let_def word_less_nat_alt word_of_byte glyph_byte)
  assume "b \<noteq> 0"
  define w :: u32 where "w = ucast b"
  have w: "unat w = unat b" "w \<noteq> 0" "ucast (w AND 0xFF) = b" "ucast ((0xE000 OR w) AND 0xFF) = b"
      "unat (0xE000 OR w) = 0xE000 + unat w"
    using \<open>b \<noteq> 0\<close> glyph_range [of b] unfolding w_def
    by (simp_all add: word_of_byte glyph_byte) (metis unat_eq_zero word_of_byte)
  show "encode (fst (decode [b] QuakeChars)) QuakeChars markup = [b]"
  proof (cases "w \<noteq> 0x0A \<and> w \<noteq> 0x09 \<and> w \<noteq> 0x0D \<and> \<not> (0x20 \<le> w \<and> w < 0x80)")
    case True
    have "0xE000 \<le> (0xE000 OR w) \<and> (0xE000 OR w) \<le> 0xE0FF \<and>
        \<not> ((0xE000 OR w) = 0xE009 \<or> (0xE000 OR w) = 0xE00A \<or> (0xE000 OR w) = 0xE00D)"
      using True w(1,5) u8_bound [of b] by (simp add: word_less_nat_alt word_le_nat_alt word_unat_eq_iff)
    then show ?thesis using True w by (simp add: decode_def encode_def Let_def w_def [symmetric])
  next
    case False
    then show ?thesis using w by (auto simp: decode_def encode_def Let_def w_def [symmetric])
  qed
qed

end
