(* ===== verification/Format.thy ===== *)
theory Format
  imports Introspect Charset
begin

text \<open>
  The C printf engine and \<open>sprintf\<close> (\<open>src/stdlib/format.rs\<close>): output with a byte cap, integers, floats and strings with
  flags, width and precision, console quoting, and the directives of a format string.

  Decimal digits of a double are those of its exact value, rounded to nearest with ties to even, as \<open>core::fmt\<close> gives
  them.  The scan of the format string keeps the rest of it where the code keeps an index.
\<close>

section \<open>Decimal digits of a double\<close>

definition rne_div :: "nat \<Rightarrow> nat \<Rightarrow> nat" where
  "rne_div a b =
     (let q = a div b; r = a mod b
      in if b < 2 * r \<or> b = 2 * r \<and> odd q then q + 1 else q)"

text \<open>\<open>m \<cdot> 2\<^sup>e\<close> is \<open>D / 10\<^sup>k\<close>.\<close>

definition dec_exact :: "nat \<Rightarrow> int \<Rightarrow> nat \<times> nat" where
  "dec_exact m e = (if 0 \<le> e then (m * 2 ^ nat e, 0) else (m * 5 ^ nat (- e), nat (- e)))"

text \<open>\<open>{:.*}\<close> and \<open>{:.*e}\<close> of a finite magnitude.\<close>

definition point_text :: "nat \<Rightarrow> nat \<Rightarrow> bytes" where
  "point_text n p =
     (let s = zero_pad (p + 1) (dec_text n)
      in if p = 0 then s else take (length s - p) s @ [0x2E] @ drop (length s - p) s)"

definition fixed_text :: "nat \<Rightarrow> nat \<Rightarrow> int \<Rightarrow> bytes" where
  "fixed_text p m e = (case dec_exact m e of (d, k) \<Rightarrow> point_text (rne_div (d * 10 ^ p) (10 ^ k)) p)"

definition sci_text :: "nat \<Rightarrow> nat \<Rightarrow> int \<Rightarrow> bytes \<times> int" where
  "sci_text p m e =
     (if m = 0 then (point_text 0 p, 0)
      else case dec_exact m e of
             (d, k) \<Rightarrow>
               (let len = length (dec_text d); x = int len - 1 - int k;
                    n = (if len \<le> p + 1 then d * 10 ^ (p + 1 - len) else rne_div d (10 ^ (len - (p + 1))))
                in if n = 10 ^ (p + 1) then (point_text (10 ^ p) p, x + 1) else (point_text n p, x)))"

definition MAX_FRACTION_DIGITS :: nat where "MAX_FRACTION_DIGITS = 1074"
definition MAX_SIGNIFICANT_DIGITS :: nat where "MAX_SIGNIFICANT_DIGITS = 767"

section \<open>Output\<close>

record sink =
  sk_buf :: bytes
  sk_cap :: nat

definition sink_new :: "nat \<Rightarrow> sink" where
  "sink_new cap = \<lparr>sk_buf = [], sk_cap = cap\<rparr>"

definition sink_room :: "sink \<Rightarrow> nat" where
  "sink_room s = sk_cap s - length (sk_buf s)"

definition sink_push :: "u8 \<Rightarrow> sink \<Rightarrow> sink" where
  "sink_push b s = (if 0 < sink_room s then s\<lparr>sk_buf := sk_buf s @ [b]\<rparr> else s)"

definition sink_extend :: "bytes \<Rightarrow> sink \<Rightarrow> sink" where
  "sink_extend bs s = s\<lparr>sk_buf := sk_buf s @ take (min (length bs) (sink_room s)) bs\<rparr>"

definition sink_fill :: "u8 \<Rightarrow> nat \<Rightarrow> sink \<Rightarrow> sink" where
  "sink_fill b n s = s\<lparr>sk_buf := sk_buf s @ replicate (min n (sink_room s)) b\<rparr>"

record fspec =
  sp_left :: bool
  sp_zero :: bool
  sp_plus :: bool
  sp_space :: bool
  sp_alt :: bool
  sp_width :: nat
  sp_prec :: "nat option"

definition spec_default :: fspec where
  "spec_default =
     \<lparr>sp_left = False, sp_zero = False, sp_plus = False, sp_space = False, sp_alt = False, sp_width = 0, sp_prec = None\<rparr>"

record pieces =
  pc_sign :: "u8 option"
  pc_prefix :: bytes
  pc_lead :: nat
  pc_body :: bytes
  pc_trail :: nat
  pc_suffix :: bytes

definition pieces_default :: pieces where
  "pieces_default = \<lparr>pc_sign = None, pc_prefix = [], pc_lead = 0, pc_body = [], pc_trail = 0, pc_suffix = []\<rparr>"

definition emit :: "pieces \<Rightarrow> fspec \<Rightarrow> bool \<Rightarrow> sink \<Rightarrow> sink" where
  "emit p spec zero s =
     (let len = (if pc_sign p = None then 0 else 1) + length (pc_prefix p) + pc_lead p + length (pc_body p) + pc_trail p +
            length (pc_suffix p);
          pad = sp_width spec - len;
          s = (if \<not> sp_left spec \<and> \<not> zero then sink_fill 0x20 pad s else s);
          s = (case pc_sign p of Some c \<Rightarrow> sink_push c s | None \<Rightarrow> s);
          s = sink_extend (pc_prefix p) s;
          s = (if \<not> sp_left spec \<and> zero then sink_fill 0x30 pad s else s);
          s = sink_fill 0x30 (pc_lead p) s;
          s = sink_extend (pc_body p) s;
          s = sink_fill 0x30 (pc_trail p) s;
          s = sink_extend (pc_suffix p) s
      in if sp_left spec then sink_fill 0x20 pad s else s)"

section \<open>Floats\<close>

definition fixed_digits :: "nat \<Rightarrow> int \<Rightarrow> nat \<Rightarrow> bool \<Rightarrow> bytes \<times> nat" where
  "fixed_digits m e p alt =
     (let exact = min p MAX_FRACTION_DIGITS; body = fixed_text exact m e
      in (if exact = 0 \<and> alt then body @ [0x2E] else body, p - exact))"

definition sci_digits :: "nat \<Rightarrow> int \<Rightarrow> nat \<Rightarrow> bool \<Rightarrow> bytes \<times> nat \<times> int" where
  "sci_digits m e p alt =
     (let exact = min p MAX_SIGNIFICANT_DIGITS
      in case sci_text exact m e of
           (body, x) \<Rightarrow> (if exact = 0 \<and> alt then body @ [0x2E] else body, p - exact, x))"

definition exponent_suffix :: "int \<Rightarrow> bool \<Rightarrow> bytes" where
  "exponent_suffix x upper =
     [if upper then 0x45 else 0x65, if x < 0 then 0x2D else 0x2B] @ zero_pad 2 (dec_text (nat \<bar>x\<bar>))"

definition sign_of :: "bool \<Rightarrow> bool \<Rightarrow> fspec \<Rightarrow> u8 option" where
  "sign_of negative shown spec =
     (if negative then Some 0x2D
      else if shown \<and> sp_plus spec then Some 0x2B
      else if shown \<and> sp_space spec then Some 0x20 else None)"

text \<open>The zeros \<open>%g\<close> drops, and the point if nothing is left after it.\<close>

definition drop_zeros :: "bytes \<Rightarrow> bytes" where
  "drop_zeros body =
     (if 0x2E \<in> set body
      then let b = rev (dropWhile (\<lambda>c. c = 0x30) (rev body))
           in if b \<noteq> [] \<and> List.last b = 0x2E then butlast b else b
      else body)"

definition is_upper :: "u8 \<Rightarrow> bool" where
  "is_upper c \<longleftrightarrow> 0x41 \<le> c \<and> c \<le> 0x5A"

definition lower :: "u8 \<Rightarrow> u8" where
  "lower c = (if is_upper c then c + 0x20 else c)"

definition fmt_float :: "u64 \<Rightarrow> u8 \<Rightarrow> fspec \<Rightarrow> sink \<Rightarrow> sink" where
  "fmt_float v conv spec s =
     (let upper = is_upper conv;
          p = pieces_default\<lparr>pc_sign := sign_of (2 ^ 63 \<le> unat v) True spec\<rparr>;
          special = (\<lambda>text. emit (p\<lparr>pc_body := ascii text\<rparr>) spec False s)
      in case f64_val v of
           FNaN \<Rightarrow> special (if upper then ''NAN'' else ''nan'')
         | FInf _ \<Rightarrow> special (if upper then ''INF'' else ''inf'')
         | FFin _ m e \<Rightarrow>
             (let as_fixed = (\<lambda>prec. case fixed_digits m e prec (sp_alt spec) of
                    (body, trail) \<Rightarrow> p\<lparr>pc_body := body, pc_trail := trail\<rparr>);
                  as_sci = (\<lambda>prec. case sci_digits m e prec (sp_alt spec) of
                    (body, trail, x) \<Rightarrow>
                      p\<lparr>pc_body := body, pc_trail := trail, pc_suffix := exponent_suffix x upper\<rparr>);
                  prec = the_default 6 (sp_prec spec);
                  p = (if lower conv = 0x66 then as_fixed prec
                       else if lower conv = 0x65 then as_sci prec
                       else
                         (let prec = max prec 1;
                              x = snd (snd (sci_digits m e (prec - 1) False));
                              p = (if x < int prec \<and> - 4 \<le> x then as_fixed (nat (int prec - 1 - x)) else as_sci (prec - 1))
                          in if sp_alt spec then p
                             else p\<lparr>pc_trail := 0, pc_body := drop_zeros (pc_body p)\<rparr>))
              in emit p spec (sp_zero spec \<and> \<not> sp_left spec) s))"

section \<open>Integers and strings\<close>

definition fmt_int :: "bool \<Rightarrow> nat \<Rightarrow> nat \<Rightarrow> bool \<Rightarrow> bool \<Rightarrow> fspec \<Rightarrow> sink \<Rightarrow> sink" where
  "fmt_int negative magnitude radix upper shown spec s =
     (let body = (if magnitude = 0 \<and> sp_prec spec = Some 0 then []
                  else if radix = 16 \<and> upper then upper_text (hex_text magnitude)
                  else radix_text (if radix = 8 \<or> radix = 16 then radix else 10) magnitude);
          lead = (case sp_prec spec of None \<Rightarrow> 0 | Some p \<Rightarrow> p - length body);
          body = (if sp_alt spec \<and> radix = 8 \<and> lead = 0 \<and> (body = [] \<or> hd body \<noteq> 0x30) then 0x30 # body else body);
          prefix = (if sp_alt spec \<and> radix = 16 \<and> magnitude \<noteq> 0 then ascii (if upper then ''0X'' else ''0x'') else [])
      in emit (pieces_default\<lparr>pc_sign := sign_of negative shown spec, pc_prefix := prefix, pc_lead := lead,
                 pc_body := body\<rparr>)
           spec (sp_zero spec \<and> \<not> sp_left spec \<and> sp_prec spec = None) s)"

definition pad_around :: "fspec \<Rightarrow> nat \<Rightarrow> bytes \<Rightarrow> sink \<Rightarrow> sink" where
  "pad_around spec pad bs s =
     (let s = (if sp_left spec then s else sink_fill 0x20 pad s);
          s = sink_extend bs s
      in if sp_left spec then sink_fill 0x20 pad s else s)"

definition fmt_str :: "bytes \<Rightarrow> fspec \<Rightarrow> sink \<Rightarrow> sink" where
  "fmt_str bs spec s =
     (let bs = (case sp_prec spec of None \<Rightarrow> bs | Some p \<Rightarrow> take p bs)
      in pad_around spec (sp_width spec - length bs) bs s)"

definition fmt_str_chars :: "bytes \<Rightarrow> fspec \<Rightarrow> char_scheme \<Rightarrow> sink \<Rightarrow> sink" where
  "fmt_str_chars bs spec scheme s =
     (if scheme \<noteq> Utf8Chars then fmt_str bs spec s
      else let most = the_default (sink_room s) (sp_prec spec);
               shown = the_default [] (slice bs 0 (byte_offset bs most scheme))
           in pad_around spec (sp_width spec - char_count shown scheme) shown s)"

text \<open>\<open>Sink::new(usize::MAX)\<close>.\<close>

definition format_float :: "u8 \<Rightarrow> u64 \<Rightarrow> nat \<Rightarrow> bytes" where
  "format_float conv v p = sk_buf (fmt_float v conv (spec_default\<lparr>sp_prec := Some p\<rparr>) (sink_new (2 ^ 64 - 1)))"

definition format_f :: "u64 \<Rightarrow> nat \<Rightarrow> bytes" where
  "format_f = format_float 0x66"

definition format_e :: "u64 \<Rightarrow> nat \<Rightarrow> bytes" where
  "format_e = format_float 0x65"

definition format_g :: "u64 \<Rightarrow> nat \<Rightarrow> bytes" where
  "format_g = format_float 0x67"

section \<open>Console quoting\<close>

definition quote_escape :: "u8 \<Rightarrow> u8 option" where
  "quote_escape c =
     (if c = 0x0A then Some 0x6E else if c = 0x0D then Some 0x72 else if c = 0x09 then Some 0x74
      else if c = 0x27 \<or> c = 0x22 \<or> c = 0x5C \<or> c = 0x24 then Some c else None)"

fun quote_body :: "nat \<Rightarrow> bytes \<Rightarrow> bytes" where
  "quote_body room [] = []"
| "quote_body room (c # r) =
     (if room < 2 then []
      else case quote_escape c of
             Some e \<Rightarrow> [0x5C, e] @ quote_body (room - 2) r
           | None \<Rightarrow> c # quote_body (room - 1) r)"

definition quote_string :: "bytes \<Rightarrow> nat \<Rightarrow> bytes" where
  "quote_string s bufsize =
     (if list_ex (\<lambda>c. c = 0x0A \<or> c = 0x0D \<or> c = 0x22) s
      then [0x5C, 0x22] @ quote_body (bufsize - 4) s @ [0x22]
      else [0x22] @ take (bufsize - 3) s @ [0x22])"


section \<open>Arguments and directives of sprintf\<close>

definition SPRINTF_MAX :: nat where "SPRINTF_MAX = 65535"

definition sp_index :: "score \<Rightarrow> int \<Rightarrow> nat option" where
  "sp_index c a = (if 1 \<le> a \<and> a < int (min (argc c) 8) then Some (nat a) else None)"

definition sp_raw :: "score \<Rightarrow> int \<Rightarrow> u32 \<times> u32 \<times> u32" where
  "sp_raw c a = (case sp_index c a of Some i \<Rightarrow> arg_raw c i | None \<Rightarrow> (0, 0, 0))"

definition sp_u32 :: "score \<Rightarrow> int \<Rightarrow> u32" where
  "sp_u32 c a = fst (sp_raw c a)"

definition sp_u64 :: "score \<Rightarrow> int \<Rightarrow> u64" where
  "sp_u64 c a = (case sp_raw c a of (lo, hi, _) \<Rightarrow> ucast lo OR push_bit 32 (ucast hi))"

definition sp_str :: "score \<Rightarrow> int \<Rightarrow> bytes" where
  "sp_str c a = (case sp_index c a of Some i \<Rightarrow> arg_str c i | None \<Rightarrow> [])"

definition starts_digit :: "bytes \<Rightarrow> bool" where
  "starts_digit r \<longleftrightarrow> r \<noteq> [] \<and> is_digit (hd r)"

definition parse_int :: "bytes \<Rightarrow> u32 \<times> bytes" where
  "parse_int r =
     (word_of_int (foldl (\<lambda>v d. sat_i64 (sat_i64 (v * 10) + uint (d - 0x30))) 0 (takeWhile is_digit r)),
      dropWhile is_digit r)"

text \<open>The state of the scan of one directive; \<open>di_next\<close> is the next argument.\<close>

record directive =
  di_spec :: fspec
  di_width :: u32
  di_prec :: u32
  di_this :: int
  di_float :: "bool option"
  di_long :: bool
  di_next :: int

definition at_char :: "u8 \<Rightarrow> bytes \<Rightarrow> bool" where
  "at_char c r \<longleftrightarrow> r \<noteq> [] \<and> hd r = c"

definition scan_position :: "directive \<Rightarrow> bytes \<Rightarrow> directive \<times> bytes" where
  "scan_position d r =
     (if starts_digit r
      then case parse_int r of
             (n, r1) \<Rightarrow>
               if at_char 0x24 r1 then (d\<lparr>di_this := sint n\<rparr>, tl r1)
               else if hd r = 0x30
               then (d\<lparr>di_width := if n = 0 then - 1 else n, di_spec := (di_spec d)\<lparr>sp_zero := True\<rparr>\<rparr>, r1)
               else (d\<lparr>di_width := n\<rparr>, r1)
      else (d, r))"

definition is_flag :: "u8 \<Rightarrow> bool" where
  "is_flag f \<longleftrightarrow> f = 0x23 \<or> f = 0x30 \<or> f = 0x2D \<or> f = 0x20 \<or> f = 0x2B"

definition set_flag :: "fspec \<Rightarrow> u8 \<Rightarrow> fspec" where
  "set_flag sp f =
     (if f = 0x23 then sp\<lparr>sp_alt := True\<rparr> else if f = 0x30 then sp\<lparr>sp_zero := True\<rparr>
      else if f = 0x2D then sp\<lparr>sp_left := True\<rparr> else if f = 0x20 then sp\<lparr>sp_space := True\<rparr>
      else sp\<lparr>sp_plus := True\<rparr>)"

text \<open>The argument a \<open>*\<close> takes, after the star; none if its position lacks the dollar.\<close>

definition scan_star :: "directive \<Rightarrow> bytes \<Rightarrow> (directive \<times> int \<times> bytes) option" where
  "scan_star d r =
     (if starts_digit r
      then case parse_int r of
             (n, r1) \<Rightarrow> if at_char 0x24 r1 then Some (d, sint n, tl r1) else None
      else Some (d\<lparr>di_next := di_next d + 1\<rparr>, di_next d, r))"

definition set_width :: "u32 \<Rightarrow> directive \<Rightarrow> directive" where
  "set_width w d =
     (if sint w < 0 then d\<lparr>di_width := - w, di_spec := (di_spec d)\<lparr>sp_left := True\<rparr>\<rparr> else d\<lparr>di_width := w\<rparr>)"

definition scan_width :: "score \<Rightarrow> directive \<Rightarrow> bytes \<Rightarrow> (directive \<times> bytes) option" where
  "scan_width c d r =
     (if \<not> sint (di_width d) < 0 then Some (d, r)
      else let d = d\<lparr>di_spec := foldl set_flag (di_spec d) (takeWhile is_flag r)\<rparr>; r = dropWhile is_flag r
           in if at_char 0x2A r
              then map_option (\<lambda>(d, a, r). (set_width (f2i (sp_u32 c a)) d, r)) (scan_star d (tl r))
              else if starts_digit r then (case parse_int r of (n, r) \<Rightarrow> Some (set_width n d, r))
              else Some (d, r))"

definition scan_prec :: "score \<Rightarrow> directive \<Rightarrow> bytes \<Rightarrow> (directive \<times> bytes) option" where
  "scan_prec c d r =
     (if \<not> at_char 0x2E r then Some (d, r)
      else let r = tl r
           in if at_char 0x2A r
              then map_option (\<lambda>(d, a, r). (d\<lparr>di_prec := f2i (sp_u32 c a)\<rparr>, r)) (scan_star d (tl r))
              else if starts_digit r then (case parse_int r of (n, r) \<Rightarrow> Some (d\<lparr>di_prec := n\<rparr>, r))
              else None)"

definition is_modifier :: "u8 \<Rightarrow> bool" where
  "is_modifier m \<longleftrightarrow> m \<in> {0x68, 0x6C, 0x4C, 0x71, 0x6A, 0x7A, 0x74}"

definition set_modifier :: "directive \<Rightarrow> u8 \<Rightarrow> directive" where
  "set_modifier d m =
     (if m = 0x68 then d\<lparr>di_float := Some True\<rparr> else if m = 0x6C \<or> m = 0x4C then d\<lparr>di_float := Some False\<rparr>
      else if m = 0x71 then d\<lparr>di_long := True\<rparr> else d)"

definition or_false :: "bool option \<Rightarrow> bool option" where
  "or_false x = (case x of None \<Rightarrow> Some False | Some b \<Rightarrow> Some b)"

text \<open>After the modifiers: what the conversion character changes, and the argument it takes.\<close>

definition scan_conv :: "directive \<Rightarrow> bytes \<Rightarrow> directive \<times> u8 \<times> bytes" where
  "scan_conv d r =
     (let d = foldl set_modifier d (takeWhile is_modifier r); r = dropWhile is_modifier r;
          conv = (case r of [] \<Rightarrow> 0 | x # _ \<Rightarrow> x);
          d = (if conv = 0x70 \<or> conv = 0x50
               then d\<lparr>di_spec := (di_spec d)\<lparr>sp_zero := True\<rparr>, di_width := (if sint (di_width d) < 0 then 8 else di_width d),
                      di_float := or_false (di_float d)\<rparr>
               else if conv = 0x69 then d\<lparr>di_float := or_false (di_float d)\<rparr> else d);
          d = (if di_this d < 0 then d\<lparr>di_this := di_next d, di_next := di_next d + 1\<rparr> else d);
          d = d\<lparr>di_spec := (di_spec d)\<lparr>sp_width := the_default 0 (usize_of_i32 (di_width d)),
                                       sp_prec := usize_of_i32 (di_prec d)\<rparr>\<rparr>
      in (d, conv, drop 1 r))"

definition scan_directive :: "score \<Rightarrow> int \<Rightarrow> bytes \<Rightarrow> (directive \<times> u8 \<times> bytes) option" where
  "scan_directive c argpos r =
     (let d = \<lparr>di_spec = spec_default, di_width = - 1, di_prec = - 1, di_this = - 1, di_float = None, di_long = False,
               di_next = argpos\<rparr>
      in case scan_position d r of
           (d, r) \<Rightarrow>
             Option.bind (scan_width c d r) (\<lambda>(d, r).
             Option.bind (scan_prec c d r) (\<lambda>(d, r). Some (scan_conv d r))))"

section \<open>Conversions\<close>

definition conv_signed :: "score \<Rightarrow> directive \<Rightarrow> bool \<Rightarrow> sink \<Rightarrow> sink" where
  "conv_signed c d fp s =
     (let a = di_this d;
          v = (if di_long d then (if fp then sint (d2i64 (sp_u64 c a)) else sint (sp_u64 c a))
               else if fp then sint (d2i64 (f64_of_f32 (sp_u32 c a))) else sint (sp_u32 c a))
      in fmt_int (v < 0) (nat \<bar>v\<bar>) 10 False True (di_spec d) s)"

definition conv_unsigned :: "score \<Rightarrow> directive \<Rightarrow> bool \<Rightarrow> u8 \<Rightarrow> sink \<Rightarrow> sink" where
  "conv_unsigned c d fp conv s =
     (let a = di_this d;
          v = (if di_long d then (if fp then unat (d2u64 (sp_u64 c a)) else unat (sp_u64 c a))
               else if fp then unat (d2u64 (f64_of_f32 (sp_u32 c a))) else unat (sp_u32 c a))
      in fmt_int False v (if conv = 0x6F then 8 else if conv = 0x75 then 10 else 16) (conv = 0x58 \<or> conv = 0x50) False
           (di_spec d) s)"

definition conv_float :: "score \<Rightarrow> directive \<Rightarrow> bool \<Rightarrow> u8 \<Rightarrow> sink \<Rightarrow> sink" where
  "conv_float c d fp conv s =
     (let a = di_this d;
          v = (if di_long d then (if fp then sp_u64 c a else f64_of_int (sint (sp_u64 c a)))
               else if fp then f64_of_f32 (sp_u32 c a) else f64_of_int (sint (sp_u32 c a)))
      in fmt_float v conv (di_spec d) s)"

definition conv_vector :: "score \<Rightarrow> directive \<Rightarrow> bool \<Rightarrow> u8 \<Rightarrow> sink \<Rightarrow> sink" where
  "conv_vector c d fp conv s =
     (let g = (if conv = 0x56 then 0x47 else 0x67);
          part = (\<lambda>w. fmt_float (if fp then f64_of_f32 w else f64_of_int (sint w)) g (di_spec d))
      in case sp_raw c (di_this d) of
           (x, y, z) \<Rightarrow> part z (sink_push 0x20 (part y (sink_push 0x20 (part x s)))))"

definition conv_char :: "score \<Rightarrow> directive \<Rightarrow> bool \<Rightarrow> sink \<Rightarrow> sink" where
  "conv_char c d fp s =
     (let code = (if fp then f2u (sp_u32 c (di_this d)) else sp_u32 c (di_this d));
          cs = g_charset (c_config c); spec = (di_spec d)\<lparr>sp_alt := False\<rparr>
      in if sp_alt (di_spec d) \<or> \<not> cs_utf8 cs
         then let b = ucast (code AND 0xFF); pad = sp_width spec - 1
              in if b \<noteq> 0 then fmt_str [b] (spec\<lparr>sp_prec := None\<rparr>) s
                 else if \<not> sp_left spec then sink_fill 0x20 pad s else s
         else fmt_str_chars (takeWhile (\<lambda>b. b \<noteq> 0) (encode code (cs_scheme cs) False)) spec (cs_scheme cs) s)"

definition conv_string :: "score \<Rightarrow> directive \<Rightarrow> u8 \<Rightarrow> sink \<Rightarrow> sink" where
  "conv_string c d conv s =
     (let t = sp_str c (di_this d); t = (if conv = 0x53 then quote_string t 65536 else t); cs = g_charset (c_config c)
      in if sp_alt (di_spec d) \<or> \<not> cs_utf8 cs then fmt_str t (di_spec d) s
         else fmt_str_chars t (di_spec d) (cs_scheme cs) s)"

definition conversion :: "score \<Rightarrow> directive \<Rightarrow> u8 \<Rightarrow> sink \<Rightarrow> sink option" where
  "conversion c d conv s =
     (let fp = the_default True (di_float d)
      in if conv \<in> {0x64, 0x69} then Some (conv_signed c d fp s)
         else if conv \<in> {0x6F, 0x75, 0x78, 0x58, 0x70, 0x50} then Some (conv_unsigned c d fp conv s)
         else if conv \<in> {0x65, 0x45, 0x66, 0x46, 0x67, 0x47} then Some (conv_float c d fp conv s)
         else if conv \<in> {0x76, 0x56} then Some (conv_vector c d fp conv s)
         else if conv = 0x63 then Some (conv_char c d fp s)
         else if conv \<in> {0x73, 0x53} then Some (conv_string c d conv s)
         else None)"

lemma parse_int_shorter: "parse_int r = (n, r') \<Longrightarrow> length r' \<le> length r"
  by (auto simp: parse_int_def length_dropWhile_le)

lemma scan_star_shorter: "scan_star d r = Some (d', a, r') \<Longrightarrow> length r' \<le> length r"
  by (auto simp: scan_star_def split: if_splits prod.splits dest!: parse_int_shorter)

lemma scan_shorter: "scan_directive c a r = Some (d, conv, r') \<Longrightarrow> length r' \<le> length r"
proof -
  have pos: "length (snd (scan_position d r)) \<le> length r" for d r
    by (auto simp: scan_position_def split: prod.split dest!: parse_int_shorter)
  have width: "length r' \<le> length r" if "scan_width c d r = Some (d', r')" for d r d' r'
    using that length_dropWhile_le [of is_flag r]
    by (auto simp: scan_width_def Let_def split: if_splits prod.splits dest!: parse_int_shorter scan_star_shorter)
  have prec: "length r' \<le> length r" if "scan_prec c d r = Some (d', r')" for d r d' r'
    using that by (auto simp: scan_prec_def Let_def split: if_splits prod.splits dest!: parse_int_shorter scan_star_shorter)
  have conv: "length (snd (snd (scan_conv d r))) \<le> length r" for d r
    using length_dropWhile_le [of is_modifier r] by (simp add: scan_conv_def Let_def)
  assume "scan_directive c a r = Some (d, conv, r')"
  then obtain d0 x1 x2 d1 r1 d2 r2 where "scan_position d0 r = (x1, x2)" "scan_width c x1 x2 = Some (d1, r1)"
    "scan_prec c d1 r1 = Some (d2, r2)" "scan_conv d2 r2 = (d, conv, r')"
    by (auto simp: scan_directive_def Let_def Option.bind_eq_Some_conv split: prod.splits)
  with pos [of d0 r] width [of x1 x2] prec [of d1 r1] conv [of d2 r2] show ?thesis by auto
qed

function sprintf_from :: "score \<Rightarrow> int \<Rightarrow> bytes \<Rightarrow> sink \<Rightarrow> sink \<times> bytes option" where
  "sprintf_from c argpos r s =
     (case r of
        [] \<Rightarrow> (s, None)
      | x # r1 \<Rightarrow>
          if x \<noteq> 0x25 then sprintf_from c argpos r1 (sink_push x s)
          else if at_char 0x25 r1 then sprintf_from c argpos (tl r1) (sink_push 0x25 s)
          else (case scan_directive c argpos r1 of
                  None \<Rightarrow> (s, Some r)
                | Some (d, conv, r2) \<Rightarrow>
                    if 0 < sink_room s
                    then (case conversion c d conv s of
                            None \<Rightarrow> (s, Some r)
                          | Some s \<Rightarrow> sprintf_from c (di_next d) r2 s)
                    else sprintf_from c (di_next d) r2 s))"
  by pat_completeness auto
termination
  by (relation "measure (\<lambda>(c, a, r, s). length r)") (auto simp: at_char_def dest: scan_shorter split: if_splits)

declare sprintf_from.simps [simp del]

definition sprintf_impl :: "score \<Rightarrow> bytes \<times> string option" where
  "sprintf_impl c =
     (case sprintf_from c 1 (arg_str c 0) (sink_new SPRINTF_MAX) of
        (s, bad) \<Rightarrow> (sk_buf s, map_option (\<lambda>r. ''sprintf: bad format string: '' @ lossy r) bad))"

definition sprintf :: builtin where
  "sprintf c =
     (case sprintf_impl c of
        (out, w) \<Rightarrow> ret_str out (case w of Some m \<Rightarrow> vm_warn m c | None \<Rightarrow> c))"


section \<open>Output is cut at the cap and nowhere else\<close>

definition sink_ok :: "sink \<Rightarrow> bool" where
  "sink_ok s \<longleftrightarrow> length (sk_buf s) \<le> sk_cap s"

text \<open>\<open>f\<close> appends \<open>t\<close>, as much of it as fits.\<close>

definition writes :: "(sink \<Rightarrow> sink) \<Rightarrow> bytes \<Rightarrow> bool" where
  "writes f t \<longleftrightarrow> (\<forall>s. sink_ok s \<longrightarrow> f s = s\<lparr>sk_buf := take (sk_cap s) (sk_buf s @ t)\<rparr>)"

named_theorems writes_intros

lemma writes_keeps: "writes f t \<Longrightarrow> sink_ok s \<Longrightarrow> sink_ok (f s) \<and> sk_cap (f s) = sk_cap s"
  by (simp add: writes_def sink_ok_def)

lemma take_min_length: "take (min (length xs) k) xs = take k xs"
  by (simp add: min_def)

lemma writes_basic [writes_intros]:
  "writes (\<lambda>s. s) []" "writes (sink_push b) [b]" "writes (sink_extend bs) bs" "writes (sink_fill b n) (replicate n b)"
  by (auto simp: writes_def sink_ok_def sink_push_def sink_extend_def sink_fill_def sink_room_def take_replicate take_min_length)

lemma writes_then:
  assumes "writes f t" "writes g u"
  shows "writes (\<lambda>s. g (f s)) (t @ u)"
  unfolding writes_def
proof (intro allI impI)
  fix s
  assume s: "sink_ok s"
  let ?b = "sk_buf s @ t"
  have "f s = s\<lparr>sk_buf := take (sk_cap s) ?b\<rparr>" using assms(1) s by (simp add: writes_def)
  moreover have "sink_ok (f s)" using writes_keeps [OF assms(1) s] by simp
  ultimately have "g (f s) = s\<lparr>sk_buf := take (sk_cap s) (take (sk_cap s) ?b @ u)\<rparr>"
    using assms(2) by (simp add: writes_def)
  also have "take (sk_cap s) (take (sk_cap s) ?b @ u) = take (sk_cap s) (sk_buf s @ t @ u)"
    by (simp add: min_def)
  finally show "g (f s) = s\<lparr>sk_buf := take (sk_cap s) (sk_buf s @ t @ u)\<rparr>" .
qed

lemma writes_if: "writes f t \<Longrightarrow> writes g u \<Longrightarrow> writes (\<lambda>s. if b then f s else g s) (if b then t else u)"
  by simp

definition opt_list :: "'a option \<Rightarrow> 'a list" where
  "opt_list x = (case x of Some y \<Rightarrow> [y] | None \<Rightarrow> [])"

definition pieces_len :: "pieces \<Rightarrow> nat" where
  "pieces_len p = length (opt_list (pc_sign p)) + length (pc_prefix p) + pc_lead p + length (pc_body p) + pc_trail p +
     length (pc_suffix p)"

lemma writes_emit:
  defines "gap \<equiv> \<lambda>p spec b c. if b then replicate (sp_width spec - pieces_len p) c else []"
  shows "writes (emit p spec zero)
     (gap p spec (\<not> sp_left spec \<and> \<not> zero) 0x20 @ opt_list (pc_sign p) @ pc_prefix p @
      gap p spec (\<not> sp_left spec \<and> zero) 0x30 @ replicate (pc_lead p) 0x30 @ pc_body p @ replicate (pc_trail p) 0x30 @
      pc_suffix p @ gap p spec (sp_left spec) 0x20)"
proof -
  have len: "(if pc_sign p = None then 0 else 1) + length (pc_prefix p) + pc_lead p + length (pc_body p) + pc_trail p +
      length (pc_suffix p) = pieces_len p"
    by (auto simp: pieces_len_def opt_list_def split: option.split)
  have sign: "writes (\<lambda>s. case pc_sign p of Some c \<Rightarrow> sink_push c s | None \<Rightarrow> s) (opt_list (pc_sign p))"
    by (cases "pc_sign p") (simp_all add: opt_list_def writes_basic)
  have fill: "writes (\<lambda>s. if b then sink_fill c (sp_width spec - pieces_len p) s else s) (gap p spec b c)" for b c
    by (cases b) (simp_all add: gap_def writes_basic)
  show ?thesis
    unfolding emit_def Let_def len
    by (rule writes_then [OF fill writes_then [OF sign writes_then [OF writes_basic(3) writes_then [OF fill
          writes_then [OF writes_basic(4) writes_then [OF writes_basic(3) writes_then [OF writes_basic(4)
          writes_then [OF writes_basic(3) fill]]]]]]]])
qed


section \<open>Integers\<close>

lemma digits_value_zeros: "digits_value b (replicate n 0x30 @ s) = digits_value b s"
proof -
  have "foldl (\<lambda>v c. v * b + the_default 0 (digit_of_char c)) 0 (replicate n 0x30) = 0"
    by (induction n) (simp_all add: digit_of_char_def replicate_append_same [symmetric])
  then show ?thesis by (simp add: digits_value_def)
qed

lemma upper_digit: "digit_of_char (if 0x61 \<le> c \<and> c \<le> 0x7A then c - 0x20 else c) = digit_of_char c"
proof (cases "0x61 \<le> c \<and> c \<le> 0x7A")
  case True
  then have "unat (c - 0x20) = unat c - 0x20" by (simp add: word_le_nat_alt unat_sub)
  then show ?thesis using True by (auto simp: digit_of_char_def word_le_nat_alt)
qed auto

lemma digits_value_upper: "digits_value b (upper_text s) = digits_value b s"
proof -
  have "foldl (\<lambda>v c. v * b + the_default 0 (digit_of_char c)) v (upper_text s) =
      foldl (\<lambda>v c. v * b + the_default 0 (digit_of_char c)) v s" for v
    by (induction s arbitrary: v) (simp_all add: upper_text_def upper_digit)
  then show ?thesis by (simp add: digits_value_def)
qed

definition int_body :: "nat \<Rightarrow> nat \<Rightarrow> bool \<Rightarrow> fspec \<Rightarrow> bytes" where
  "int_body magnitude radix upper spec =
     (if magnitude = 0 \<and> sp_prec spec = Some 0 then []
      else if radix = 16 \<and> upper then upper_text (hex_text magnitude)
      else radix_text (if radix = 8 \<or> radix = 16 then radix else 10) magnitude)"

lemma int_body_value: "radix \<in> {8, 10, 16} \<Longrightarrow> digits_value radix (int_body n radix upper spec) = n"
  by (auto simp: int_body_def digits_value_upper digits_value_text) (simp_all add: digits_value_def)

text \<open>What C's \<open>printf\<close> writes for an integer, after the C standard: the digits without zeros in front (none for zero);
  the precision, which is 1 if none is given, is the least number of digits, made up with zeros in front; \<open>#\<close> puts a
  zero in front of an octal number that does not start with one, and \<open>0x\<close> or \<open>0X\<close> in front of a hexadecimal number that is
  not zero; the rest of the width is blanks on the left, blanks on the right with \<open>-\<close>, or, with the flag \<open>0\<close> and
  neither \<open>-\<close> nor a precision, zeros behind sign and prefix.\<close>

fun c_numeral :: "nat \<Rightarrow> bool \<Rightarrow> nat \<Rightarrow> bytes" where
  "c_numeral b upper n =
     (if n = 0 \<or> b < 2 then []
      else c_numeral b upper (n div b) @ [ascii (if upper then ''0123456789ABCDEF'' else ''0123456789abcdef'') ! (n mod b)])"

declare c_numeral.simps [simp del]

definition c_digits :: "nat \<Rightarrow> nat \<Rightarrow> bool \<Rightarrow> fspec \<Rightarrow> bytes" where
  "c_digits n radix upper spec =
     (let least = (case sp_prec spec of None \<Rightarrow> 1 | Some p \<Rightarrow> p);
          digits = c_numeral radix upper n;
          digits = replicate (least - length digits) 0x30 @ digits
      in if sp_alt spec \<and> radix = 8 \<and> (digits = [] \<or> hd digits \<noteq> 0x30) then 0x30 # digits else digits)"

definition c_integer :: "bool \<Rightarrow> nat \<Rightarrow> nat \<Rightarrow> bool \<Rightarrow> bool \<Rightarrow> fspec \<Rightarrow> bytes" where
  "c_integer negative n radix upper shown spec =
     (let sign = (if negative then [0x2D] else if shown \<and> sp_plus spec then [0x2B]
                  else if shown \<and> sp_space spec then [0x20] else []);
          prefix = (if sp_alt spec \<and> radix = 16 \<and> n \<noteq> 0 then [0x30, if upper then 0x58 else 0x78] else []);
          digits = c_digits n radix upper spec;
          pad = sp_width spec - (length sign + length prefix + length digits)
      in if sp_left spec then sign @ prefix @ digits @ replicate pad 0x20
         else if sp_zero spec \<and> sp_prec spec = None then sign @ prefix @ replicate pad 0x30 @ digits
         else replicate pad 0x20 @ sign @ prefix @ digits)"

lemma c_digit_char:
  assumes "d < 16"
  shows "ascii ''0123456789abcdef'' ! d = digit_char d"
    and "[ascii ''0123456789ABCDEF'' ! d] = upper_text [digit_char d]"
proof -
  have "d \<in> set [0..<16]" using assms by simp
  then show "ascii ''0123456789abcdef'' ! d = digit_char d"
    and "[ascii ''0123456789ABCDEF'' ! d] = upper_text [digit_char d]"
    by (auto simp: upt_rec ascii_def digit_char_def upper_text_def)
qed

lemma c_numeral_of:
  "2 \<le> b \<Longrightarrow> b \<le> 16 \<Longrightarrow> c_numeral b upper n = (if upper then upper_text (digits_of b n) else digits_of b n)"
proof (induction b upper n rule: c_numeral.induct)
  case (1 b upper n)
  have "n mod b < 16" using 1(2,3) by (meson mod_less_divisor less_le_trans zero_less_numeral less_le_trans)
  note d = c_digit_char [OF this]
  show ?case
    using 1 d by (cases "n = 0") (simp_all add: c_numeral.simps [of b] digits_of.simps [of b] upper_text_def)
qed

lemma upper_small:
  assumes "b \<in> {8, 10}"
  shows "upper_text (digits_of b n) = digits_of b n"
proof -
  have "(if 0x61 \<le> c \<and> c \<le> 0x7A then c - 0x20 else c) = c" if "c \<in> set (digits_of b n)" for c
    using digits_of_digits [of b c n] that assms
    by (auto simp: is_digit_in_def digit_of_char_def word_le_nat_alt split: if_splits)
  then show ?thesis unfolding upper_text_def by (simp add: map_idI)
qed

text \<open>Precision and the zero of \<open>%#o\<close> as the code has them: a body, and zeros in front of it.\<close>

lemma c_digits_body:
  fixes n radix upper spec
  assumes "radix \<in> {8, 10, 16}"
  defines "body \<equiv> int_body n radix upper spec"
  defines "lead \<equiv> (case sp_prec spec of None \<Rightarrow> 0 | Some p \<Rightarrow> p - length body)"
  shows "c_digits n radix upper spec = replicate lead 0x30 @
    (if sp_alt spec \<and> radix = 8 \<and> lead = 0 \<and> (body = [] \<or> hd body \<noteq> 0x30) then 0x30 # body else body)"
proof -
  let ?num = "c_numeral radix upper n"
  have num: "?num = (if radix = 16 \<and> upper then upper_text (digits_of radix n) else digits_of radix n)"
    using c_numeral_of [of radix upper n] upper_small [of radix n] assms(1) by auto
  show ?thesis
  proof (cases "n = 0")
    case True
    then have "?num = []" by (simp add: c_numeral.simps)
    moreover have "body = (if sp_prec spec = Some 0 then [] else [0x30])"
      using True by (simp add: body_def int_body_def radix_text_def upper_text_def)
    ultimately show ?thesis
      by (cases "sp_prec spec") (auto simp: c_digits_def lead_def Let_def replicate_app_Cons_same gr0_conv_Suc)
  next
    case False
    then have body: "body = ?num" using num assms(1) by (auto simp: body_def int_body_def radix_text_def)
    have ne: "body \<noteq> []" using int_body_value [OF assms(1), of n upper spec] False by (auto simp: body_def digits_value_def)
    then have "(case sp_prec spec of None \<Rightarrow> 1 | Some p \<Rightarrow> p) - length body = lead"
      by (cases "sp_prec spec") (simp_all add: lead_def Suc_le_eq)
    then show ?thesis
      using ne by (cases "lead = 0") (simp_all add: c_digits_def Let_def body [symmetric] gr0_conv_Suc)
  qed
qed

lemma c_digits_value:
  assumes "radix \<in> {8, 10, 16}"
  shows "digits_value radix (c_digits n radix upper spec) = n"
  unfolding c_digits_body [OF assms]
  using int_body_value [OF assms, of n upper spec] digits_value_zeros [of radix 1 "int_body n radix upper spec"]
  by (cases "radix = 8") (simp_all add: digits_value_zeros)

lemma fmt_int_writes:
  assumes "radix \<in> {8, 10, 16}"
  shows "writes (fmt_int negative n radix upper shown spec) (c_integer negative n radix upper shown spec)"
proof -
  let ?body = "int_body n radix upper spec"
  define lead where "lead = (case sp_prec spec of None \<Rightarrow> 0 | Some p \<Rightarrow> p - length ?body)"
  define digits where "digits = (if sp_alt spec \<and> radix = 8 \<and> lead = 0 \<and> (?body = [] \<or> hd ?body \<noteq> 0x30) then 0x30 # ?body else ?body)"
  define prefix where "prefix = (if sp_alt spec \<and> radix = 16 \<and> n \<noteq> 0 then ascii (if upper then ''0X'' else ''0x'') else [])"
  let ?p = "pieces_default\<lparr>pc_sign := sign_of negative shown spec, pc_prefix := prefix, pc_lead := lead, pc_body := digits\<rparr>"
  have f: "fmt_int negative n radix upper shown spec = emit ?p spec (sp_zero spec \<and> \<not> sp_left spec \<and> sp_prec spec = None)"
    by (rule ext) (simp only: fmt_int_def int_body_def [symmetric] Let_def lead_def [symmetric] digits_def [symmetric] prefix_def [symmetric])
  have cd: "c_digits n radix upper spec = replicate lead 0x30 @ digits"
    unfolding c_digits_body [OF assms] by (simp add: digits_def lead_def)
  have sign: "opt_list (sign_of negative shown spec) = (if negative then [0x2D] else if shown \<and> sp_plus spec then [0x2B]
      else if shown \<and> sp_space spec then [0x20] else [])" by (simp add: opt_list_def sign_of_def)
  have prefix: "prefix = (if sp_alt spec \<and> radix = 16 \<and> n \<noteq> 0 then [0x30, if upper then 0x58 else 0x78] else [])"
    by (simp add: prefix_def ascii_def)
  have len: "pieces_len ?p = length (opt_list (sign_of negative shown spec)) + length prefix + (lead + length digits)"
    by (simp add: pieces_len_def pieces_default_def)
  let ?zero = "sp_zero spec \<and> \<not> sp_left spec \<and> sp_prec spec = None"
  let ?gap = "\<lambda>b c. if b then replicate (sp_width spec - pieces_len ?p) c else []"
  have "lead = 0" if "sp_prec spec = None" using that by (simp add: lead_def)
  then have "c_integer negative n radix upper shown spec =
      ?gap (\<not> sp_left spec \<and> \<not> ?zero) 0x20 @ opt_list (pc_sign ?p) @ pc_prefix ?p @ ?gap (\<not> sp_left spec \<and> ?zero) 0x30 @
      replicate (pc_lead ?p) 0x30 @ pc_body ?p @ replicate (pc_trail ?p) 0x30 @ pc_suffix ?p @ ?gap (sp_left spec) 0x20"
    unfolding len c_integer_def Let_def cd sign [symmetric] prefix [symmetric]
    by (cases "sp_left spec"; cases "sp_zero spec"; cases "sp_prec spec") (simp_all add: pieces_default_def)
  then show ?thesis unfolding f by (simp only: writes_emit)
qed

text \<open>C32: whatever the flags, width and precision, an integer conversion writes exactly what C's \<open>printf\<close> does (sign or
  blank, prefix, digits in the case of the conversion, none of them for a zero of precision zero, the zero of \<open>%#o\<close>,
  padded with blanks or zeros to the width), the digits have the value of the number, and output beyond the cap is cut
  off, nothing else.\<close>

theorem printf_integer:
  assumes "radix \<in> {8, 10, 16}"
  shows "writes (fmt_int negative n radix upper shown spec) (c_integer negative n radix upper shown spec) \<and>
     digits_value radix (c_digits n radix upper spec) = n"
  using fmt_int_writes [OF assms] c_digits_value [OF assms] by blast

theorem printf_integer_witness:
  "sk_buf (fmt_int False 255 16 True False (spec_default\<lparr>sp_width := 8, sp_alt := True, sp_zero := True\<rparr>) (sink_new 64)) =
     ascii ''0X0000FF'' \<and>
   sk_buf (fmt_int True 42 10 False True (spec_default\<lparr>sp_width := 5\<rparr>) (sink_new 64)) = ascii ''  -42'' \<and>
   sk_buf (fmt_int False 0 10 False True (spec_default\<lparr>sp_prec := Some 0\<rparr>) (sink_new 64)) = []"
proof -
  have ok: "sink_ok (sink_new 64)" by (simp add: sink_ok_def sink_new_def)
  have out: "sk_buf (fmt_int negative n radix upper shown spec (sink_new 64)) = take 64 (c_integer negative n radix upper shown spec)"
    if "radix \<in> {8, 10, 16}" for negative n radix upper shown spec
    using printf_integer [OF that, of negative n upper shown spec] ok by (simp add: writes_def sink_new_def)
  have zeros: "replicate 4 (0x30 :: u8) = [0x30, 0x30, 0x30, 0x30]" "replicate 2 (0x20 :: u8) = [0x20, 0x20]"
    by (simp_all add: numeral_eq_Suc)
  note c = c_integer_def c_digits_def c_numeral.simps spec_default_def ascii_def
  show ?thesis by (simp add: out) (simp add: c zeros)
qed

section \<open>Decimals\<close>

lemma rne_div_nearest:
  assumes "0 < b"
  shows "\<bar>2 * (int (rne_div a b) * int b - int a)\<bar> \<le> int b"
    and "\<bar>2 * (int (rne_div a b) * int b - int a)\<bar> = int b \<Longrightarrow> even (rne_div a b)"
proof -
  let ?q = "a div b" and ?r = "a mod b"
  have a: "int a = int ?q * int b + int ?r" by (metis div_mult_mod_eq of_nat_add of_nat_mult)
  have r: "?r < b" using assms by simp
  have up: "int (?q + 1) * int b - int a = int b - int ?r" unfolding a by (simp add: algebra_simps)
  have down: "int ?q * int b - int a = - int ?r" unfolding a by simp
  show "\<bar>2 * (int (rne_div a b) * int b - int a)\<bar> \<le> int b"
    using r up down by (auto simp: rne_div_def Let_def simp del: of_nat_add)
  show "\<bar>2 * (int (rne_div a b) * int b - int a)\<bar> = int b \<Longrightarrow> even (rne_div a b)"
    using r up down by (auto simp: rne_div_def Let_def simp del: of_nat_add split: if_splits)
qed

lemma digit_no_point: "2 \<le> b \<Longrightarrow> b \<le> 36 \<Longrightarrow> 0x2E \<notin> set (zero_pad n (radix_text b k))"
  using text_digits [of b "0x2E" k] by (auto simp: zero_pad_def is_digit_in_def digit_of_char_def)

lemma point_text_digits: "digits_value 10 (filter (\<lambda>c. c \<noteq> 0x2E) (point_text n p)) = n"
proof -
  let ?s = "zero_pad (p + 1) (dec_text n)"
  have f: "filter (\<lambda>c. c \<noteq> 0x2E) ?s = ?s"
    using digit_no_point [of 10 "p + 1" n] by (auto simp: filter_id_conv)
  have "filter (\<lambda>c. c \<noteq> 0x2E) (take k ?s) @ filter (\<lambda>c. c \<noteq> 0x2E) (drop k ?s) = ?s" for k
    by (metis append_take_drop_id f filter_append)
  then have "filter (\<lambda>c. c \<noteq> 0x2E) (point_text n p) = ?s" using f by (auto simp: point_text_def Let_def)
  then show ?thesis by (simp add: zero_pad_def digits_value_zeros digits_value_text)
qed

text \<open>The decimal a float is printed as is the one nearest to its exact value \<open>m \<cdot> 2\<^sup>e\<close>, a tie going to the even last
  digit: with \<open>p\<close> decimals, the digits without the point have a value \<open>n\<close> for which \<open>n / 10\<^sup>p\<close> is within half a unit of
  the last place; a number that is an integer is printed exactly.\<close>

theorem printed_decimal_nearest:
  "let n = digits_value 10 (filter (\<lambda>c. c \<noteq> 0x2E) (fixed_text p m e)); k = nat (- e);
       off = \<bar>2 * (int n * 2 ^ k - int m * 10 ^ p)\<bar>
   in fixed_text p m e = point_text n p \<and>
      (if 0 \<le> e then n = m * 2 ^ nat e * 10 ^ p else off \<le> 2 ^ k \<and> (off = 2 ^ k \<longrightarrow> even n))"
proof -
  obtain d j where d: "dec_exact m e = (d, j)" by fastforce
  define n where "n = rne_div (d * 10 ^ p) (10 ^ j)"
  have t: "fixed_text p m e = point_text n p" by (simp add: fixed_text_def d n_def)
  show ?thesis
  proof (cases "0 \<le> e")
    case True
    then have "n = m * 2 ^ nat e * 10 ^ p" using d by (simp add: dec_exact_def n_def rne_div_def)
    then show ?thesis using t True by (simp add: point_text_digits Let_def)
  next
    case False
    let ?k = "nat (- e)"
    have dj: "d = m * 5 ^ ?k" "j = ?k" using d False by (auto simp: dec_exact_def)
    have ten: "(10 :: int) ^ ?k = 5 ^ ?k * 2 ^ ?k" by (simp add: power_mult_distrib [symmetric])
    have scale: "2 * (int n * int (10 ^ j) - int (d * 10 ^ p)) = 5 ^ ?k * (2 * (int n * 2 ^ ?k - int m * 10 ^ p))"
      by (simp add: dj ten algebra_simps)
    have "\<bar>5 ^ ?k * y\<bar> = 5 ^ ?k * \<bar>y\<bar>" for y :: int by (simp add: abs_mult)
    then have off: "\<bar>2 * (int n * int (10 ^ j) - int (d * 10 ^ p))\<bar> = 5 ^ ?k * \<bar>2 * (int n * 2 ^ ?k - int m * 10 ^ p)\<bar>"
      by (simp only: scale)
    have b: "int (10 ^ j) = 5 ^ ?k * 2 ^ ?k" by (simp add: dj ten)
    have pos: "0 < (10 :: nat) ^ j" "0 < (5 :: int) ^ ?k" by simp_all
    note near = rne_div_nearest [of "10 ^ j" "d * 10 ^ p", folded n_def, OF pos(1), unfolded off, unfolded b]
    have "\<bar>2 * (int n * 2 ^ ?k - int m * 10 ^ p)\<bar> \<le> 2 ^ ?k"
      using near(1) by (simp only: mult_le_cancel_left_pos [OF pos(2)])
    moreover have "even n" if "\<bar>2 * (int n * 2 ^ ?k - int m * 10 ^ p)\<bar> = 2 ^ ?k"
      by (rule near(2)) (simp only: that)
    ultimately show ?thesis using t False by (simp add: point_text_digits Let_def)
  qed
qed

section \<open>The builtin\<close>

lemma sink_steps:
  "sink_ok s \<Longrightarrow> sink_ok (sink_push b s) \<and> sk_cap (sink_push b s) = sk_cap s"
  "sink_ok s \<Longrightarrow> sink_ok (sink_extend bs s) \<and> sk_cap (sink_extend bs s) = sk_cap s"
  "sink_ok s \<Longrightarrow> sink_ok (sink_fill b n s) \<and> sk_cap (sink_fill b n s) = sk_cap s"
  by (erule writes_keeps [OF writes_basic(2)] writes_keeps [OF writes_basic(3)] writes_keeps [OF writes_basic(4)])+

lemma emit_keeps: "sink_ok s \<Longrightarrow> sink_ok (emit p spec zero s) \<and> sk_cap (emit p spec zero s) = sk_cap s"
  by (rule writes_keeps [OF writes_emit])

lemma fmt_keeps:
  assumes "sink_ok s"
  shows "sink_ok (fmt_int neg n radix upper shown spec s) \<and> sk_cap (fmt_int neg n radix upper shown spec s) = sk_cap s"
    and "sink_ok (fmt_float v conv spec s) \<and> sk_cap (fmt_float v conv spec s) = sk_cap s"
    and "sink_ok (fmt_str bs spec s) \<and> sk_cap (fmt_str bs spec s) = sk_cap s"
    and "sink_ok (fmt_str_chars bs spec scheme s) \<and> sk_cap (fmt_str_chars bs spec scheme s) = sk_cap s"
proof -
  have pad: "sink_ok (pad_around spec k t s) \<and> sk_cap (pad_around spec k t s) = sk_cap s" for k t
    using sink_steps assms by (simp add: pad_around_def Let_def)
  show "sink_ok (fmt_int neg n radix upper shown spec s) \<and> sk_cap (fmt_int neg n radix upper shown spec s) = sk_cap s"
    using emit_keeps [OF assms] by (simp add: fmt_int_def Let_def)
  show "sink_ok (fmt_float v conv spec s) \<and> sk_cap (fmt_float v conv spec s) = sk_cap s"
    using emit_keeps [OF assms] by (simp add: fmt_float_def Let_def split: fval.split)
  show str: "sink_ok (fmt_str bs spec s) \<and> sk_cap (fmt_str bs spec s) = sk_cap s"
    using pad by (simp add: fmt_str_def Let_def)
  show "sink_ok (fmt_str_chars bs spec scheme s) \<and> sk_cap (fmt_str_chars bs spec scheme s) = sk_cap s"
    using pad str by (simp add: fmt_str_chars_def Let_def)
qed

lemma conversion_keeps:
  assumes "sink_ok s" "conversion c d conv s = Some s'"
  shows "sink_ok s' \<and> sk_cap s' = sk_cap s"
proof -
  have vec: "sink_ok (conv_vector c d fp conv s) \<and> sk_cap (conv_vector c d fp conv s) = sk_cap s" for fp
    using assms(1) fmt_keeps(2) sink_steps(1) by (simp add: conv_vector_def Let_def split: prod.split)
  show ?thesis
    using assms fmt_keeps [OF assms(1)] vec sink_steps [OF assms(1)]
    by (auto simp: conversion_def conv_signed_def conv_unsigned_def conv_float_def conv_char_def conv_string_def Let_def
        split: if_splits)
qed

lemma sprintf_keeps:
  "sink_ok s \<Longrightarrow> sink_ok (fst (sprintf_from c a r s)) \<and> sk_cap (fst (sprintf_from c a r s)) = sk_cap s"
proof (induction c a r s rule: sprintf_from.induct)
  case (1 c a r s)
  then show ?case
    by (subst (1 2) sprintf_from.simps)
      (auto simp: sink_steps split: list.split option.split prod.split dest: conversion_keeps)
qed

lemma sprintf_short: "length (fst (sprintf_impl c)) \<le> SPRINTF_MAX"
  using sprintf_keeps [of "sink_new SPRINTF_MAX" c 1 "arg_str c 0"]
  by (cases "sprintf_from c 1 (arg_str c 0) (sink_new SPRINTF_MAX)") (simp add: sprintf_impl_def sink_ok_def sink_new_def)

lemma tame_sprintf: "tame c (fst (sprintf c))"
  by (auto simp: sprintf_def intro: tame_intros tame_trans [OF tame_warn(2) tame_ret_str] split: prod.split option.split)


section \<open>Quoted strings are read back\<close>

lemma nth_opt_at: "nth_opt (pre @ c # r) (length pre) = Some c" "nth_opt (pre @ c # d # r) (Suc (length pre)) = Some d"
  by (simp_all add: nth_opt_def nth_append)

lemma quote_escape_read:
  assumes "quote_escape c = Some e"
  shows "read_escape s e p = (if c = 0x22 then EscQuote p else EscByte c p)" "c \<noteq> 0"
  using assms by (auto simp: quote_escape_def read_escape_def split: if_splits)

lemma quote_escape_plain: "quote_escape c = None \<Longrightarrow> c \<noteq> 0x5C \<and> c \<noteq> 0x22"
  by (auto simp: quote_escape_def split: if_splits)

lemma cstring_reads:
  "2 * length t \<le> room \<Longrightarrow> length out + length t < CSTRING_MAX \<Longrightarrow> 0 \<notin> set t \<Longrightarrow>
    cstring_from (pre @ quote_body room t @ 0x22 # rest) (length pre) out =
      (out @ t, length pre + length (quote_body room t) + 1)"
proof (induction t arbitrary: room out pre)
  case Nil
  then show ?case by (subst cstring_from.simps) (simp add: nth_opt_at)
next
  case (Cons c t)
  have room: "\<not> room < 2" "2 * length t \<le> room - 2" "2 * length t \<le> room - 1" using Cons(2) by auto
  have out: "\<not> CSTRING_MAX \<le> length out" "length (out @ [c]) + length t < CSTRING_MAX" using Cons(3) by auto
  have t: "0 \<notin> set t" "c \<noteq> 0" using Cons(4) by auto
  show ?case
  proof (cases "quote_escape c")
    case None
    note n = quote_escape_plain [OF None]
    have "cstring_from (pre @ quote_body room (c # t) @ 0x22 # rest) (length pre) out =
        cstring_from ((pre @ [c]) @ quote_body (room - 1) t @ 0x22 # rest) (length (pre @ [c])) (out @ [c])"
      using n t(2) out(1) room(1) by (subst cstring_from.simps) (simp add: None nth_opt_at)
    also have "\<dots> = ((out @ [c]) @ t, length (pre @ [c]) + length (quote_body (room - 1) t) + 1)"
      by (rule Cons(1) [OF room(3) out(2) t(1)])
    finally show ?thesis using None room(1) by simp
  next
    case (Some e)
    note r = quote_escape_read [OF Some]
    have "cstring_from (pre @ quote_body room (c # t) @ 0x22 # rest) (length pre) out =
        cstring_from ((pre @ [0x5C, e]) @ quote_body (room - 2) t @ 0x22 # rest) (length (pre @ [0x5C, e])) (out @ [c])"
      using out(1) room(1) t(2) r Some by (subst cstring_from.simps) (auto simp: nth_opt_at)
    also have "\<dots> = ((out @ [c]) @ t, length (pre @ [0x5C, e]) + length (quote_body (room - 2) t) + 1)"
      by (rule Cons(1) [OF room(2) out(2) t(1)])
    finally show ?thesis using Some room(1) by simp
  qed
qed

lemma quoted_reads:
  "length out + length t < TOKEN_MAX \<Longrightarrow> 0x22 \<notin> set t \<Longrightarrow> rest = [] \<or> hd rest \<noteq> 0x22 \<Longrightarrow>
    quoted_from (pre @ t @ 0x22 # rest) 0x22 (length pre) out = (out @ t, length pre + length t + 1)"
proof (induction t arbitrary: out pre)
  case Nil
  note Cons_prems = Nil
  show ?case
  proof (cases rest)
    case Nil
    then show ?thesis using Cons_prems by (subst quoted_from.simps) (simp add: nth_opt_at, simp add: nth_opt_def)
  next
    case (Cons a r)
    then show ?thesis using Cons_prems by (subst quoted_from.simps) (simp add: nth_opt_at)
  qed
next
  case (Cons c t)
  have "quoted_from (pre @ (c # t) @ 0x22 # rest) 0x22 (length pre) out =
      quoted_from ((pre @ [c]) @ t @ 0x22 # rest) 0x22 (length (pre @ [c])) (out @ [c])"
    using Cons(2,3) by (subst quoted_from.simps) (simp add: nth_opt_at)
  also have "\<dots> = ((out @ [c]) @ t, length (pre @ [c]) + length t + 1)"
    using Cons by (intro Cons(1)) auto
  finally show ?case by simp
qed

lemma token_starts_here: "32 < c \<Longrightarrow> c \<noteq> 47 \<Longrightarrow> token_start (c # r) 0 qc = Some 0"
  by (subst token_start.simps) (auto simp: skip_while_def nth_opt_def word_less_nat_alt word_le_nat_alt)

text \<open>C33: the console tokenizer reads a quoted string back as one token, whatever characters but NUL it has (quotes,
  backslashes, line breaks, dollars, comment marks), and goes on after it.\<close>

theorem quoted_string_read_back:
  assumes "0 \<notin> set s" "2 * length s + 4 \<le> bufsize" "length s < CSTRING_MAX" "rest = [] \<or> hd rest \<noteq> 0x22"
  shows "parse_token (quote_string s bufsize @ rest) 0 False = Some (s, length (quote_string s bufsize))"
proof (cases "list_ex (\<lambda>c. c = 0x0A \<or> c = 0x0D \<or> c = 0x22) s")
  case True
  have q: "quote_string s bufsize = [0x5C, 0x22] @ quote_body (bufsize - 4) s @ [0x22]" using True by (simp add: quote_string_def)
  have "cstring_from ([0x5C, 0x22] @ quote_body (bufsize - 4) s @ 0x22 # rest) (length [0x5C, 0x22 :: u8]) [] =
      ([] @ s, length [0x5C, 0x22 :: u8] + length (quote_body (bufsize - 4) s) + 1)"
    by (rule cstring_reads) (use assms in auto)
  then show ?thesis unfolding q
    by (simp add: parse_token_def token_starts_here parse_cstring_def nth_opt_def)
next
  case False
  have len: "length s < TOKEN_MAX" using assms(3) by (simp add: CSTRING_MAX_def TOKEN_MAX_def)
  have q: "quote_string s bufsize = [0x22] @ s @ [0x22]" using False assms(2) by (simp add: quote_string_def)
  have "0x22 \<notin> set s" using False by (auto simp: list_ex_iff)
  then have "quoted_from ([0x22] @ s @ 0x22 # rest) 0x22 (length [0x22 :: u8]) [] = ([] @ s, length [0x22 :: u8] + length s + 1)"
    by (intro quoted_reads) (use assms len in auto)
  then show ?thesis unfolding q
    by (simp add: parse_token_def token_starts_here nth_opt_def)
qed

theorem quoted_string_read_back_witness:
  "parse_token (quote_string [0x61, 0x22, 0x0A, 0x24, 0x5C] 64 @ [0x20, 0x62]) 0 False =
     Some ([0x61, 0x22, 0x0A, 0x24, 0x5C], length (quote_string [0x61, 0x22, 0x0A, 0x24, 0x5C] 64))"
  by (rule quoted_string_read_back) (simp_all add: CSTRING_MAX_def)

end
