(* ===== verification/Libm.thy ===== *)
theory Libm
  imports Numeric Bytes
begin

text \<open>
  The functions of the crate \<open>libm\<close> that the standard builtins call: a parameter of the development.  Arguments and
  results are bit patterns of doubles; the second argument of \<open>ldexp\<close> is an \<open>i32\<close>.
\<close>

record libm =
  lm_sin :: "u64 \<Rightarrow> u64"
  lm_cos :: "u64 \<Rightarrow> u64"
  lm_tan :: "u64 \<Rightarrow> u64"
  lm_asin :: "u64 \<Rightarrow> u64"
  lm_acos :: "u64 \<Rightarrow> u64"
  lm_atan :: "u64 \<Rightarrow> u64"
  lm_sqrt :: "u64 \<Rightarrow> u64"
  lm_floor :: "u64 \<Rightarrow> u64"
  lm_ceil :: "u64 \<Rightarrow> u64"
  lm_fabs :: "u64 \<Rightarrow> u64"
  lm_log :: "u64 \<Rightarrow> u64"
  lm_atan2 :: "u64 \<Rightarrow> u64 \<Rightarrow> u64"
  lm_pow :: "u64 \<Rightarrow> u64 \<Rightarrow> u64"
  lm_ldexp :: "u64 \<Rightarrow> u32 \<Rightarrow> u64"

text \<open>What \<open>ldexp\<close> promises where it is used: an integer of at most 53 bits times a power of two that leaves it on the grid
  of doubles is exact, or an infinity.\<close>

definition ldexp_exact :: "libm \<Rightarrow> bool" where
  "ldexp_exact M \<longleftrightarrow>
     (\<forall>k n. k \<le> 2 ^ 53 \<longrightarrow> - 1074 \<le> sint n \<longrightarrow> lm_ldexp M (f64_of_int (int k)) n = f64_of (FFin False k (sint n)))"

text \<open>The hash functions of the crates \<open>md4\<close>, \<open>md5\<close>, \<open>sha1\<close> and \<open>sha2\<close>, and with them all that the standard builtins use of
  other crates; \<open>lb_digests\<close> is the feature of that name.\<close>

datatype (plugins only: code size) digest_alg = MD4 | MD5 | SHA1 | SHA224 | SHA256 | SHA384 | SHA512

record libs =
  lb_math :: libm
  lb_digests :: bool
  lb_digest :: "digest_alg \<Rightarrow> bytes \<Rightarrow> bytes"

text \<open>Signs and constants.\<close>

definition f64_neg :: "u64 \<Rightarrow> u64" where
  "f64_neg x = x XOR 0x8000000000000000"

definition f32_neg :: "u32 \<Rightarrow> u32" where
  "f32_neg x = x XOR 0x80000000"

abbreviation f64_inf :: u64 where "f64_inf \<equiv> 0x7FF0000000000000"
abbreviation f64_nan :: u64 where "f64_nan \<equiv> 0x7FF8000000000000"

end
