(* ===== verification/Convert.thy ===== *)
theory Convert
  imports Format Libm
begin

text \<open>
  Conversions between numbers and text (\<open>src/stdlib/convert.rs\<close>): C's integer and floating-point parsers, vectors, and the
  builtins on them.  \<open>M\<close> is the crate \<open>libm\<close>.
\<close>

section \<open>Numbers as text\<close>

definition ftos_text :: "u32 \<Rightarrow> bytes" where
  "ftos_text v =
     (let i = f2i v
      in if f32_eq v (f32_of_int (sint i)) then int_text (sint i)
         else let raw = drop_bit 23 v AND 0xFF
              in if raw = 0xFF
                 then (if drop_bit 31 v \<noteq> 0 then [0x2D] else []) @
                      ascii (if v AND 0x7FFFFF = 0 then ''1.#INF'' else ''1.#NAN'')
                 else let e = raw - 127;
                          decimals = f2i (f32_mul (f32_of_int (sint (- e))) 0x3E9A209B) + 8
                      in case usize_of_i32 decimals of
                           None \<Rightarrow> format_f (f64_of_f32 v) 0
                         | Some d \<Rightarrow>
                             if d = 0 then format_f (f64_of_f32 v) 0
                             else let s = format_f (f64_of_f32 v) d;
                                      keep = foldl (\<lambda>k (i, c). if 0x31 \<le> c \<and> c \<le> 0x39 then i + 1
                                                              else if c = 0x2E then i else k) 0 (enumerate 0 s)
                                  in take keep s)"

definition ftos :: builtin where
  "ftos c = ret_str (ftos_text (arg_word c 0)) c"

definition vtos :: builtin where
  "vtos c =
     (case arg_raw c 0 of
        (x, y, z) \<Rightarrow>
          let part = (\<lambda>w. format_f (f64_of_f32 w) 6)
          in ret_str ([0x27] @ part x @ [0x20] @ part y @ [0x20] @ part z @ [0x27]) c)"

definition etos :: builtin where
  "etos c = ret_str (ascii ''entity '' @ int_text (sint (arg_word c 0))) c"

definition itos :: builtin where
  "itos c = ret_str (int_text (sint (arg_word c 0))) c"

definition htos :: builtin where
  "htos c = ret_str (zero_pad 8 (hex_text (unat (arg_word c 0)))) c"

section \<open>C integers\<close>

definition is_c_space :: "u8 \<Rightarrow> bool" where
  "is_c_space c \<longleftrightarrow> c \<in> {0x20, 0x09, 0x0A, 0x0B, 0x0C, 0x0D}"

definition sign_at :: "bytes \<Rightarrow> nat \<Rightarrow> bool \<times> nat" where
  "sign_at s i =
     (case nth_opt s i of
        Some c \<Rightarrow> if c = 0x2D then (True, i + 1) else if c = 0x2B then (False, i + 1) else (False, i)
      | None \<Rightarrow> (False, i))"

definition hex_prefix_at :: "bytes \<Rightarrow> nat \<Rightarrow> bool" where
  "hex_prefix_at s i \<longleftrightarrow>
     nth_opt s i = Some 0x30 \<and> nth_opt s (i + 1) \<in> {Some 0x78, Some 0x58} \<and>
     (case nth_opt s (i + 2) of Some c \<Rightarrow> is_digit_in 16 c | None \<Rightarrow> False)"

text \<open>\<open>checked_mul\<close> and \<open>checked_add\<close> on a \<open>u64\<close>; the flag says that a digit did not fit.\<close>

definition add_digit :: "nat \<Rightarrow> nat \<times> bool \<Rightarrow> u8 \<Rightarrow> nat \<times> bool" where
  "add_digit b acc c =
     (case acc of
        (v, over) \<Rightarrow>
          let n = v * b + the_default 0 (digit_of_char c) in if n < 2 ^ 64 then (n, over) else (v, True))"

definition parse_c_integer :: "bytes \<Rightarrow> nat \<Rightarrow> bool \<times> nat \<times> bool \<times> nat" where
  "parse_c_integer s base =
     (case sign_at s (length (takeWhile is_c_space s)) of
        (negative, i) \<Rightarrow>
          let hex = hex_prefix_at s i;
              base = (if base \<noteq> 0 then base else if hex then 16 else if nth_opt s i = Some 0x30 then 8 else 10);
              i = (if base = 16 \<and> hex then i + 2 else i);
              ds = takeWhile (is_digit_in base) (drop i s)
          in case foldl (add_digit base) (0, False) ds of
               (v, over) \<Rightarrow> (negative, v, over, if ds = [] then 0 else i + length ds))"

definition strtol :: "bytes \<Rightarrow> nat \<Rightarrow> u64 \<times> nat" where
  "strtol s base =
     (case parse_c_integer s base of
        (negative, v, over, n) \<Rightarrow>
          (word_of_int (if over then if negative then - (2 ^ 63) else 2 ^ 63 - 1
                        else if negative then max (- (2 ^ 63)) (- int v) else min (2 ^ 63 - 1) (int v)), n))"

definition strtoul :: "bytes \<Rightarrow> nat \<Rightarrow> u64 \<times> nat" where
  "strtoul s base =
     (case parse_c_integer s base of
        (negative, v, over, n) \<Rightarrow>
          (if over then - 1 else if negative then - of_nat v else of_nat v, n))"

definition c_base :: "'s core \<Rightarrow> nat \<Rightarrow> nat option" where
  "c_base c i =
     Option.bind (usize_of_i32 (arg_word c i)) (\<lambda>b. if b = 0 \<or> 2 \<le> b \<and> b \<le> 36 then Some b else None)"

section \<open>Hexadecimal floats\<close>

definition HEX_DIGITS_KEPT :: nat where "HEX_DIGITS_KEPT = 40"

record hex_scan =
  hx_digits :: "nat list"
  hx_sticky :: bool
  hx_scale :: int
  hx_any :: bool
  hx_point :: bool

definition hex_step :: "nat \<Rightarrow> hex_scan \<Rightarrow> hex_scan" where
  "hex_step h x =
     (let x = x\<lparr>hx_any := True\<rparr>;
          x = (if hx_digits x = [] \<and> h = 0 then x
               else if length (hx_digits x) < HEX_DIGITS_KEPT then x\<lparr>hx_digits := hx_digits x @ [h]\<rparr>
               else x\<lparr>hx_sticky := (hx_sticky x \<or> h \<noteq> 0), hx_scale := sat_i64 (hx_scale x + 4)\<rparr>)
      in if hx_point x then x\<lparr>hx_scale := sat_i64 (hx_scale x - 4)\<rparr> else x)"

fun hex_digits_from :: "bytes \<Rightarrow> nat \<Rightarrow> hex_scan \<Rightarrow> hex_scan \<times> nat" where
  "hex_digits_from [] i x = (x, i)"
| "hex_digits_from (c # r) i x =
     (if c = 0x2E \<and> \<not> hx_point x then hex_digits_from r (i + 1) (x\<lparr>hx_point := True\<rparr>)
      else if is_digit_in 16 c then hex_digits_from r (i + 1) (hex_step (the_default 0 (digit_of_char c)) x)
      else (x, i))"

text \<open>The digits of an exponent at \<open>k\<close>, saturating.\<close>

definition exponent_digits :: "bytes \<Rightarrow> nat \<Rightarrow> int" where
  "exponent_digits s k =
     foldl (\<lambda>e c. sat_i64 (sat_i64 (e * 10) + uint (c - 0x30))) 0 (takeWhile is_digit (drop k s))"

definition digits_at :: "bytes \<Rightarrow> nat \<Rightarrow> nat" where
  "digits_at s k = length (takeWhile is_digit (drop k s))"

text \<open>An exponent after \<open>e\<close>, \<open>p\<close> or their capitals at \<open>i\<close>: its value and where it ends; nothing without a digit.\<close>

definition exponent_at :: "u8 set \<Rightarrow> bytes \<Rightarrow> nat \<Rightarrow> int \<times> nat" where
  "exponent_at letters s i =
     (if (case nth_opt s i of Some c \<Rightarrow> c \<in> letters | None \<Rightarrow> False)
      then case sign_at s (i + 1) of
             (negative, k) \<Rightarrow>
               if digits_at s k = 0 then (0, i)
               else (if negative then - exponent_digits s k else exponent_digits s k, k + digits_at s k)
      else (0, i))"

definition hex_digits_to_f64 :: "libm \<Rightarrow> nat list \<Rightarrow> int \<Rightarrow> u64" where
  "hex_digits_to_f64 M ds scale =
     (let m = foldl (\<lambda>m d. m * 16 + d) 0 (take 16 ds);
          sticky = list_ex (\<lambda>d. d \<noteq> 0) (drop 16 ds);
          e = scale + 4 * int (length (drop 16 ds))
      in if m = 0 then 0
         else
           let lz = 64 - bit_len m; m = m * 2 ^ lz; e = e - int lz; lead = e + 63
           in if 1023 < lead then f64_inf
              else
                let dropped = 11 + max (- 1022 - lead) 0
                in if 64 < dropped then 0
                   else
                     let k = nat dropped; kept = m div 2 ^ k; half = (2 ^ (k - 1) \<le> m mod 2 ^ k);
                         rest = (m mod 2 ^ (k - 1) \<noteq> 0 \<or> sticky);
                         kept = (if half \<and> (rest \<or> odd kept) then kept + 1 else kept)
                     in lm_ldexp M (f64_of_int (int kept)) (word_of_int (e + dropped)))"

definition parse_hex_float :: "libm \<Rightarrow> bytes \<Rightarrow> (u64 \<times> nat) option" where
  "parse_hex_float M s =
     (case hex_digits_from s 0 \<lparr>hx_digits = [], hx_sticky = False, hx_scale = 0, hx_any = False, hx_point = False\<rparr> of
        (x, i) \<Rightarrow>
          if \<not> hx_any x then None
          else
            case exponent_at {0x70, 0x50} s i of
              (e, i) \<Rightarrow>
                let scale = sat_i64 (hx_scale x + e)
                in if hx_digits x = [] then Some (0, i)
                   else let ds = (if hx_sticky x then hx_digits x @ [1] else hx_digits x);
                            scale = (if hx_sticky x then sat_i64 (scale - 4) else scale);
                            highest = sat_i64 (scale + 4 * int (length ds))
                        in Some (if 1100 < highest then f64_inf else if highest < - 1200 then 0
                                 else hex_digits_to_f64 M ds scale, i))"

section \<open>C floats\<close>

definition starts_with_ci :: "bytes \<Rightarrow> bytes \<Rightarrow> bool" where
  "starts_with_ci s prefix \<longleftrightarrow> length prefix \<le> length s \<and> map lower (take (length prefix) s) = map lower prefix"

definition is_alnum :: "u8 \<Rightarrow> bool" where
  "is_alnum c \<longleftrightarrow> is_digit_in 36 c"

text \<open>\<open>parse::<f64>\<close> of the digits \<open>m\<close> and the exponent \<open>x\<close>: correctly rounded.\<close>

definition decimal_f64 :: "nat \<Rightarrow> int \<Rightarrow> u64" where
  "decimal_f64 m x =
     (if 0 \<le> x then f64_of (FFin False (m * 10 ^ nat x) 0)
      else f64_of (fdiv 53 (FFin False m 0) (FFin False (10 ^ nat (- x)) 0)))"

text \<open>Digits with at most one point among them.\<close>

fun decimal_from :: "bytes \<Rightarrow> nat \<Rightarrow> bool \<Rightarrow> bytes \<Rightarrow> int \<Rightarrow> bool \<Rightarrow> bytes \<times> int \<times> bool \<times> nat" where
  "decimal_from [] j point mantissa frac any = (mantissa, frac, any, j)"
| "decimal_from (c # r) j point mantissa frac any =
     (if c = 0x2E \<and> \<not> point then decimal_from r (j + 1) True mantissa frac any
      else if is_digit c
      then decimal_from r (j + 1) point (if mantissa = [] \<and> c = 0x30 then mantissa else mantissa @ [c])
             (if point then frac + 1 else frac) True
      else (mantissa, frac, any, j))"

definition strtod :: "libm \<Rightarrow> bytes \<Rightarrow> u64 \<times> nat" where
  "strtod M s =
     (case sign_at s (length (takeWhile is_c_space s)) of
        (negative, i) \<Rightarrow>
          let sign = (\<lambda>v. if negative then f64_neg v else v); rest = drop i s
          in if starts_with_ci rest (ascii ''inf'')
             then (sign f64_inf, i + (if starts_with_ci rest (ascii ''infinity'') then 8 else 3))
             else if starts_with_ci rest (ascii ''nan'')
             then let inner = length (takeWhile (\<lambda>c. is_alnum c \<or> c = 0x5F) (drop 4 rest))
                  in (sign f64_nan,
                      i + (if nth_opt rest 3 = Some 0x28 \<and> nth_opt rest (inner + 4) = Some 0x29 then inner + 5 else 3))
             else if nth_opt rest 0 = Some 0x30 \<and> nth_opt rest 1 \<in> {Some 0x78, Some 0x58}
             then (case parse_hex_float M (drop 2 rest) of
                     Some (v, n) \<Rightarrow> (sign v, i + 2 + n)
                   | None \<Rightarrow> (sign 0, i + 1))
             else
               case decimal_from rest i False [] 0 False of
                 (mantissa, frac, any, j) \<Rightarrow>
                   if \<not> any then (0, 0)
                   else case exponent_at {0x65, 0x45} s j of
                          (e, j) \<Rightarrow>
                            (sign (if mantissa = [] then 0
                                   else decimal_f64 (digits_value 10 mantissa)
                                          (max (- 1000000000) (min 1000000000 (sat_i64 (e - frac))))), j))"

definition atof :: "libm \<Rightarrow> bytes \<Rightarrow> u64" where
  "atof M s = fst (strtod M s)"

section \<open>Builtins\<close>

definition stoi :: builtin where
  "stoi c = ok (ret_word (ucast (fst (strtol (arg_str c 0) 0))) c)"

definition stoh :: builtin where
  "stoh c = ok (ret_raw (ucast (fst (strtoul (arg_str c 0) 16)), 0, 0) c)"

definition used_word :: "nat \<Rightarrow> u32" where
  "used_word n = (if n < 2 ^ 32 then of_nat n else - 1)"

definition stod :: "libm \<Rightarrow> builtin" where
  "stod M c = (case strtod M (arg_str c 0) of (v, used) \<Rightarrow> ok (ret_u64 v (set_arg_word 1 (used_word used) c)))"

definition stol :: builtin where
  "stol c =
     (case (case c_base c 1 of None \<Rightarrow> (0, 0) | Some b \<Rightarrow> strtol (arg_str c 0) b) of
        (v, used) \<Rightarrow> ok (ret_u64 v (set_arg_word 2 (used_word used) c)))"

definition stoul :: builtin where
  "stoul c =
     (case (case c_base c 1 of None \<Rightarrow> (0, 0) | Some b \<Rightarrow> strtoul (arg_str c 0) b) of
        (v, used) \<Rightarrow> ok (ret_u64 v (set_arg_word 2 (used_word used) c)))"

definition ftoi :: builtin where
  "ftoi c = ok (ret_word (f2i (arg_word c 0)) c)"

definition ftou :: builtin where
  "ftou c = ok (ret_raw (f2u (arg_word c 0), 0, 0) c)"

definition bitfield_to_float :: "'s core \<Rightarrow> u32 \<Rightarrow> u32" where
  "bitfield_to_float c v =
     (let s = f2u (arg_word c 1); count = (if 2 < argc c then f2u (arg_word c 2) else 24);
          v = wrapping_shr v s;
          v = (if count \<noteq> 32 then v AND (wrapping_shl 1 count - 1) else v)
      in f32_of_int (uint v))"

definition itof :: builtin where
  "itof c =
     ok (ret_word (if 1 < argc c then bitfield_to_float c (arg_word c 0) else f32_of_int (sint (arg_word c 0))) c)"

definition utof :: builtin where
  "utof c =
     ok (ret_word (if 1 < argc c then bitfield_to_float c (arg_word c 0) else f32_of_int (uint (arg_word c 0))) c)"

definition stof :: "libm \<Rightarrow> builtin" where
  "stof M c = ok (ret_word (f32_of_f64 (atof M (arg_str c 0))) c)"

text \<open>The components of a vector from offset \<open>i\<close> on, at most \<open>n\<close>; the rest are zero.\<close>

definition is_blank :: "u8 \<Rightarrow> bool" where
  "is_blank c \<longleftrightarrow> c = 0x20 \<or> c = 0x09"

definition vector_stops :: "u32 \<Rightarrow> bytes \<Rightarrow> bool" where
  "vector_stops w rest \<longleftrightarrow>
     f32_eq w 0 \<and> (rest = [] \<or> hd rest \<noteq> 0x2D \<and> hd rest \<noteq> 0x2B \<and> \<not> is_digit (hd rest))"

definition after_number :: "bytes \<Rightarrow> bytes" where
  "after_number = dropWhile (\<lambda>c. \<not> is_blank c \<and> c \<noteq> 0x27)"

primrec vector_from :: "libm \<Rightarrow> nat \<Rightarrow> bytes \<Rightarrow> u32 list" where
  "vector_from M 0 s = []"
| "vector_from M (Suc n) s =
     (let rest = dropWhile is_blank s; w = f32_of_f64 (atof M rest); r = after_number rest
      in if vector_stops w rest \<or> r \<noteq> [] \<and> hd r = 0x27 then w # replicate n 0 else w # vector_from M n r)"

definition parse_vector :: "libm \<Rightarrow> bytes \<Rightarrow> u32 \<times> u32 \<times> u32" where
  "parse_vector M s =
     (case vector_from M 3 (if s \<noteq> [] \<and> hd s = 0x27 then tl s else s) of
        [x, y, z] \<Rightarrow> (x, y, z) | _ \<Rightarrow> (0, 0, 0))"

definition stov :: "libm \<Rightarrow> builtin" where
  "stov M c = ok (ret_raw (parse_vector M (args_concat c 0)) c)"


section \<open>Numbers are read back\<close>

lemma add_digits:
  "digits_value b t < 2 ^ 64 \<Longrightarrow> 1 \<le> b \<Longrightarrow> foldl (add_digit b) (0, False) t = (digits_value b t, False)"
proof (induction t rule: rev_induct)
  case (snoc c t)
  have "digits_value b t \<le> digits_value b t * b" using snoc(3) by simp
  then have "digits_value b t < 2 ^ 64" using snoc(2) unfolding digits_value_append by linarith
  then have ih: "foldl (add_digit b) (0, False) t = (digits_value b t, False)" using snoc by simp
  have "foldl (add_digit b) (0, False) (t @ [c]) = add_digit b (digits_value b t, False) c" by (simp only: ih foldl_append foldl.simps)
  also have "\<dots> = (digits_value b (t @ [c]), False)"
    using snoc(2) by (simp only: add_digit_def digits_value_append prod.case Let_def if_True)
  finally show ?case .
qed (simp add: digits_value_def)

lemma digit_char_kinds:
  assumes "is_digit_in b c"
  shows "\<not> is_c_space c" "c \<noteq> 0x2D" "c \<noteq> 0x2B" "b \<le> 33 \<Longrightarrow> c \<noteq> 0x78 \<and> c \<noteq> 0x58"
  using assms by (auto simp: is_digit_in_def digit_of_char_def is_c_space_def)

text \<open>Reading a sign and digits of base \<open>b\<close>, whether the base is given or found.\<close>

lemma parse_digits:
  fixes negative :: bool
  assumes "t \<noteq> []" "\<forall>c \<in> set t. is_digit_in b c" "1 \<le> b" "b \<le> 33" "digits_value b t < 2 ^ 64"
    and "base = b \<or> base = 0 \<and> b = (if hd t = 0x30 then 8 else 10)"
    and sg_def: "sg = (if negative then [0x2D] else [])"
  shows "parse_c_integer (sg @ t) base = (negative, digits_value b t, False, length (sg @ t))"
proof -
  obtain c r where t: "t = c # r" using assms(1) by (cases t) auto
  have c: "is_digit_in b c" using assms(2) t by simp
  note k = digit_char_kinds [OF c]
  have spaces: "takeWhile is_c_space (sg @ t) = []" using k(1) by (simp add: sg_def t is_c_space_def)
  have sign: "sign_at (sg @ t) 0 = (negative, length sg)"
    using k(2,3) by (simp add: sign_at_def sg_def t nth_opt_def)
  have nth: "nth_opt (sg @ t) (length sg + i) = nth_opt t i" for i by (simp add: nth_opt_def)
  have "nth_opt t (Suc 0) \<notin> {Some 0x78, Some 0x58}"
  proof (cases "Suc 0 < length t")
    case True
    then have "is_digit_in b (t ! Suc 0)" using assms(2) by simp
    then show ?thesis using digit_char_kinds(4) assms(4) True by (simp add: nth_opt_def)
  qed (simp add: nth_opt_def)
  then have hex: "\<not> hex_prefix_at (sg @ t) (length sg)"
    using nth [of 1] by (simp add: hex_prefix_at_def)
  have at: "nth_opt (sg @ t) (length sg) = Some c" using nth [of 0] by (simp add: t nth_opt_def)
  have base: "(if base \<noteq> 0 then base else if hex_prefix_at (sg @ t) (length sg) then 16
      else if nth_opt (sg @ t) (length sg) = Some 0x30 then 8 else 10) = b"
    using hex
    using assms(3,6) unfolding at by (auto simp: t)
  have tw: "takeWhile (is_digit_in b) t = t" using assms(2) by (metis takeWhile_eq_all_conv)
  have "drop (length sg) (sg @ t) = t" by simp
  then show ?thesis
    unfolding parse_c_integer_def spaces list.size(3) sign prod.case Let_def base
    using assms(1) hex by (simp only: tw add_digits [OF assms(5,3)] prod.case length_append if_False simp_thms)
qed

lemma strtol_int_text:
  assumes "- (2 ^ 63) \<le> i" "i < 2 ^ 63"
  shows "strtol (int_text i) 0 = (word_of_int i, length (int_text i))"
proof -
  let ?n = "nat \<bar>i\<bar>"
  let ?b = "if i = 0 then 8 else 10 :: nat"
  let ?t = "dec_text ?n"
  have shape: "int_text i = (if i < 0 then [0x2D] else []) @ ?t" by (simp add: int_text_def)
  have n: "?n \<le> 2 ^ 63" using assms by simp
  have digits: "\<forall>c \<in> set ?t. is_digit_in ?b c"
  proof (cases "i = 0")
    case False
    then show ?thesis using text_digits [of 10] by simp
  qed (simp add: radix_text_def is_digit_in_def digit_of_char_def)
  have v: "digits_value ?b ?t = ?n"
    using digits_value_text [of 10 ?n] by (auto simp: radix_text_def digits_value_def digit_of_char_def)
  have "hd ?t = 0x30 \<longleftrightarrow> i = 0" using digits_of_hd [of 10 ?n] by (auto simp: radix_text_def)
  then have b: "?b = (if hd ?t = 0x30 then 8 else 10)" by simp
  have "parse_c_integer (int_text i) 0 = (i < 0, ?n, False, length (int_text i))"
    unfolding shape
  proof (subst parse_digits [where b = ?b])
    show "digits_value ?b ?t < 2 ^ 64" unfolding v using n by simp
  qed (use digits b radix_text_nonempty [of 10 ?n] v in simp_all)
  then show ?thesis using assms by (auto simp: strtol_def)
qed

lemma strtoul_hex_text:
  assumes "n < 2 ^ 64"
  shows "strtoul (zero_pad k (hex_text n)) 16 = (of_nat n, length (zero_pad k (hex_text n)))"
proof -
  let ?t = "zero_pad k (hex_text n)"
  have digits: "\<forall>c \<in> set ?t. is_digit_in 16 c"
    using text_digits [of 16] by (auto simp: zero_pad_def) (simp_all add: is_digit_in_def digit_of_char_def)
  have v: "digits_value 16 ?t = n" by (simp add: zero_pad_def digits_value_zeros digits_value_text)
  have "?t \<noteq> []" using radix_text_nonempty [of 16 n] by (simp add: zero_pad_def)
  then show ?thesis using parse_digits [of ?t 16 16 "[]" False] digits v assms by (simp add: strtoul_def)
qed

text \<open>C34: \<open>stoi\<close> reads back what \<open>itos\<close> writes for any integer, and \<open>stoh\<close> what \<open>htos\<close> writes, to the last
  character: neither the octal nor the hexadecimal prefix gets in the way.\<close>

theorem integers_read_back:
  "ucast (fst (strtol (int_text (sint w)) 0)) = w \<and> snd (strtol (int_text (sint w)) 0) = length (int_text (sint w)) \<and>
   ucast (fst (strtoul (zero_pad 8 (hex_text (unat w))) 16)) = w \<and>
   snd (strtoul (zero_pad 8 (hex_text (unat w))) 16) = length (zero_pad 8 (hex_text (unat w)))" for w :: u32
proof -
  have r: "- (2 ^ 63) \<le> sint w" "sint w < 2 ^ 63"
    using sint_greater_eq [of w] sint_less [of w] by (simp_all add: less_le_trans [of "sint w" "2 ^ 31"] order_trans [of _ "- (2 ^ 31)"])
  have "unat w < 2 ^ 64" using unat_u32_bound [of w] by simp
  moreover have "ucast (word_of_int (sint w) :: u64) = w" by (rule bit_word_eqI) (auto simp: bit_simps)
  moreover have "ucast (ucast w :: u64) = w" by (rule bit_word_eqI) (auto simp: bit_simps)
  ultimately show ?thesis
    using strtol_int_text [OF r] strtoul_hex_text [of "unat w" 8] by simp
qed

section \<open>They keep to the contract of the engine\<close>

lemma tame_conversions:
  "tame c (fst (ftos c))" "tame c (fst (vtos c))" "tame c (fst (etos c))" "tame c (fst (itos c))" "tame c (fst (htos c))"
  "tame c (fst (stoi c))" "tame c (fst (stoh c))" "tame c (fst (ftoi c))" "tame c (fst (itof c))" "tame c (fst (ftou c))"
  "tame c (fst (utof c))" "tame c (fst (stof M c))" "tame c (fst (stov M c))"
  by (simp_all add: ftos_def vtos_def etos_def itos_def htos_def stoi_def stoh_def ftoi_def itof_def ftou_def utof_def
      stof_def stov_def Let_def tame_intros split: prod.split)

lemma tame_scanners: "tame c (fst (stod M c))" "tame c (fst (stol c))" "tame c (fst (stoul c))"
proof -
  have "tame c (ret_u64 v (set_arg_word i w c))" for v i w
    by (rule tame_trans [OF tame_set_arg_word tame_ret_u64])
  then show "tame c (fst (stod M c))" "tame c (fst (stol c))" "tame c (fst (stoul c))"
    by (simp_all add: stod_def stol_def stoul_def split: prod.split)
qed

end
