(* ===== verification/Pointers.thy ===== *)
theory Pointers
  imports Introspect Charset
begin

text \<open>
  Builtins on the QuakeC heap and on pointers, and base64 (\<open>src/stdlib/memory.rs\<close>).  A pointer is an address of
  linear memory or a temp string; temp strings grow when written past their end.

  \<open>base64_decode\<close> keeps the rest of its input where the code keeps an index.
\<close>

section \<open>The heap\<close>

definition MAX_ALLOC :: int where "MAX_ALLOC = 0x1000000"

definition core_heap_alloc :: "u32 \<Rightarrow> 's core \<Rightarrow> 's core \<times> u32 option" where
  "core_heap_alloc n c =
     (case heap_alloc (mheap (c_mem c)) n of
        (h, r) \<Rightarrow> (on_mem (\<lambda>m. m\<lparr>mheap := h\<rparr>) c, Option.bind r (checked_add (h_base (c_mem c)))))"

definition heap_offset :: "'s core \<Rightarrow> u32 \<Rightarrow> u32 option" where
  "heap_offset c p = checked_sub p (h_base (c_mem c))"

definition core_heap_free :: "u32 \<Rightarrow> 's core \<Rightarrow> 's core \<times> bool" where
  "core_heap_free p c =
     (case heap_offset c p of
        None \<Rightarrow> (c, False)
      | Some off \<Rightarrow> (case heap_free (mheap (c_mem c)) off of (h, r) \<Rightarrow> (on_mem (\<lambda>m. m\<lparr>mheap := h\<rparr>) c, r)))"

definition heap_write :: "u32 \<Rightarrow> bytes \<Rightarrow> 's core \<Rightarrow> 's core \<times> bool" where
  "heap_write p bs c =
     (case heap_offset c p of
        None \<Rightarrow> (c, False)
      | Some off \<Rightarrow>
          (let h = mheap (c_mem c)
           in if unat off + length bs \<le> length (h_data h)
              then (on_mem (\<lambda>m. m\<lparr>mheap := h\<lparr>h_data := splice (h_data h) (unat off) bs\<rparr>\<rparr>) c, True)
              else (c, False)))"

definition alloc_size :: "u32 \<Rightarrow> u32 option" where
  "alloc_size sz =
     (let sz = (if sz = 0 then 1 else sz)
      in if MAX_ALLOC < sint sz \<or> sint sz < 0 then None else Some sz)"

section \<open>Pointer ranges\<close>

definition linear :: "u32 \<Rightarrow> u32 \<Rightarrow> u32 option" where
  "linear p ofs =
     (let a = uint p + sint ofs in if 0 \<le> a \<and> a < 2 ^ 32 then Some (of_int a) else None)"

definition read_range :: "'s core \<Rightarrow> u32 \<Rightarrow> u32 \<Rightarrow> nat \<Rightarrow> bytes option" where
  "read_range c p ofs n =
     (case classify p of
        Temp slot \<Rightarrow>
          Option.bind (usize_of_i32 ofs) (\<lambda>start.
          Option.bind (temp_raw (c_strings c) slot) (\<lambda>data. slice data start (start + n)))
      | Static _ \<Rightarrow> None
      | Linear p \<Rightarrow>
          Option.bind (linear p ofs) (\<lambda>addr.
            if addr = 0 \<and> 1 < n then None
            else if 2 ^ 32 \<le> n then None
            else Option.bind (locate (c_mem c) addr n) (\<lambda>l.
              case region (c_mem c) l of (data, a) \<Rightarrow> slice data a (a + n))))"

datatype (plugins only: code size) dest = ToLinear u32 | ToTemp u32 nat

definition dest_of :: "'s core \<Rightarrow> u32 \<Rightarrow> u32 \<Rightarrow> nat \<Rightarrow> dest option" where
  "dest_of c p ofs n =
     (case classify p of
        Temp slot \<Rightarrow>
          (if temp_raw (c_strings c) slot = None then None
           else Option.bind (usize_of_i32 ofs) (\<lambda>start.
                  if start + n \<le> MAX_TEMP_GROWTH then Some (ToTemp slot start) else None))
      | Static _ \<Rightarrow> None
      | Linear p \<Rightarrow>
          Option.bind (linear p ofs) (\<lambda>addr.
            if 2 ^ 32 \<le> n then None
            else case check_write (c_mem c) addr n of
                   Inr _ \<Rightarrow> Some (ToLinear addr)
                 | Inl (WProtected _) \<Rightarrow> Some (ToLinear addr)
                 | Inl _ \<Rightarrow> None))"

definition write_dest :: "dest \<Rightarrow> bytes \<Rightarrow> 's core \<Rightarrow> 's core \<times> bool" where
  "write_dest d bs c =
     (case d of
        ToLinear addr \<Rightarrow>
          (case mem_write (c_mem c) addr bs of
             Inr m \<Rightarrow> (c\<lparr>c_mem := m\<rparr>, True)
           | Inl (WProtected e) \<Rightarrow> (core_warn c (ReadOnlyEntity e), True)
           | Inl _ \<Rightarrow> (c, False))
      | ToTemp slot start \<Rightarrow>
          (case temp_raw_mut (c_strings c) slot (start + length bs) of
             None \<Rightarrow> (c, False)
           | Some (s, data) \<Rightarrow>
               (if start + length bs \<le> length data
                then (c\<lparr>c_strings := set_temp s slot (splice data start bs)\<rparr>, True)
                else (c\<lparr>c_strings := s\<rparr>, False))))"

definition opt_i32 :: "'s core \<Rightarrow> nat \<Rightarrow> u32" where
  "opt_i32 c i = (if i < argc c then arg_word c i else 0)"

text \<open>\<open>{:#x}\<close> and \<open>{}\<close> of a 32-bit integer.\<close>

definition hex_msg :: "u32 \<Rightarrow> string" where
  "hex_msg w = ''0x'' @ of_ascii (hex_text (unat w))"

definition dec_msg :: "u32 \<Rightarrow> string" where
  "dec_msg w = of_ascii (int_text (sint w))"

section \<open>Builtins on the heap\<close>

definition memalloc :: builtin where
  "memalloc c =
     (let sz = arg_word c 0;
          refused = (\<lambda>c. soft_error (''memalloc: failure (size '' @ dec_msg sz @ '')'') (ret_raw (0, 0, 0) c))
      in case alloc_size sz of
           None \<Rightarrow> refused c
         | Some n \<Rightarrow>
             (case core_heap_alloc n c of
                (c, Some p) \<Rightarrow> ok (ret_raw (p, 0, 0) c)
              | (c, None) \<Rightarrow> refused c))"

definition memfree :: builtin where
  "memfree c =
     (let p = arg_word c 0
      in if p = 0 then ok c
         else case core_heap_free p c of
                (c, True) \<Rightarrow> ok c
              | (c, False) \<Rightarrow> ok (vm_warn (''memfree: '' @ hex_msg p @ '' is not an allocated block'') c))"

definition memrealloc :: builtin where
  "memrealloc c =
     (let p = arg_word c 0; sz = arg_word c 1;
          refused = (\<lambda>c. soft_error (''memrealloc: failure (size '' @ dec_msg sz @ '')'') (ret_raw (0, 0, 0) c));
          old = (if p = 0 then Some None else map_option Some (heap_offset c p))
      in case (alloc_size sz, old) of
           (Some n, Some old) \<Rightarrow>
             (case heap_realloc (mheap (c_mem c)) old n of
                (h, r) \<Rightarrow>
                  (let c = on_mem (\<lambda>m. m\<lparr>mheap := h\<rparr>) c
                   in case Option.bind r (checked_add (h_base (c_mem c))) of
                        Some q \<Rightarrow> ok (ret_raw (q, 0, 0) c)
                      | None \<Rightarrow> refused c))
         | _ \<Rightarrow> refused c)"

section \<open>Builtins on ranges\<close>

definition memcpy :: builtin where
  "memcpy c =
     (let dst = arg_word c 0; src = arg_word c 1; sz = arg_word c 2; sofs = opt_i32 c 3; dofs = opt_i32 c 4;
          bad_dest = soft_error (''memcpy: invalid dest ('' @ hex_msg dst @ ''+'' @ hex_msg dofs @ '')'')
      in case usize_of_i32 sz of
           None \<Rightarrow> soft_error (''memcpy: invalid size '' @ hex_msg sz) c
         | Some n \<Rightarrow>
             (if n = 0 then ok c
              else case dest_of c dst dofs n of
                     None \<Rightarrow> bad_dest c
                   | Some d \<Rightarrow>
                       (case read_range c src sofs n of
                          None \<Rightarrow> soft_error (''memcpy: invalid source ('' @ hex_msg src @ ''+'' @ hex_msg sofs @ '')'') c
                        | Some bs \<Rightarrow>
                            (case write_dest d bs c of (c, True) \<Rightarrow> ok c | (c, False) \<Rightarrow> bad_dest c))))"

definition memfill8 :: builtin where
  "memfill8 c =
     (let dst = arg_word c 0; v = arg_word c 1; sz = arg_word c 2; dofs = opt_i32 c 3;
          bad_dest = soft_error ''memfill8: invalid dest''
      in case Option.bind (usize_of_i32 sz) (\<lambda>n. map_option (\<lambda>d. (d, n)) (dest_of c dst dofs n)) of
           None \<Rightarrow> bad_dest c
         | Some (d, n) \<Rightarrow>
             (case write_dest d (replicate n (ucast v)) c of (c, True) \<Rightarrow> ok c | (c, False) \<Rightarrow> bad_dest c))"

definition memcmp :: builtin where
  "memcmp c =
     (let c = ret_raw (0, 0, 0) c;
          a = arg_word c 0; b = arg_word c 1; sz = arg_word c 2; aofs = opt_i32 c 3; bofs = opt_i32 c 4
      in case usize_of_i32 sz of
           None \<Rightarrow> soft_error ''memcmp: invalid size'' c
         | Some n \<Rightarrow>
             (if n = 0 then ok c
              else case read_range c a aofs n of
                     None \<Rightarrow> soft_error ''memcmp: invalid first pointer'' c
                   | Some x \<Rightarrow>
                       (case read_range c b bofs n of
                          None \<Rightarrow> soft_error ''memcmp: invalid second pointer'' c
                        | Some y \<Rightarrow>
                            ok (ret_word (case List.find (\<lambda>d. d \<noteq> 0) (map (\<lambda>(p, q). ucast p - ucast q) (zip x y)) of
                                  Some d \<Rightarrow> d | None \<Rightarrow> 0) c))))"

definition createbuffer :: builtin where
  "createbuffer c =
     (let sz = arg_word c 0
      in if sint sz \<le> 0 then ok (ret_raw (0, 0, 0) c)
         else if l_temp_string_bytes (g_limits (c_config c)) < unat sz
         then soft_error (''createbuffer: '' @ of_ascii (dec_text (unat sz)) @ '' bytes is too large'') (ret_raw (0, 0, 0) c)
         else ret_str (replicate (unat sz) 0) c)"

section \<open>Builtins on words\<close>

definition word_address :: "string \<Rightarrow> score \<Rightarrow> score \<times> u32 option" where
  "word_address name c =
     (let p = arg_word c 0; ofs = arg_word c 1;
          c = (if f32_eq ofs (f32_of_int (sint (f2i ofs))) then c else vm_warn (name @ '': non-integer offset'') c);
          addr = sint (d2i64 (f64_add (f64_of_int (sint p)) (f64_mul (f64_of_f32 ofs) (f64_of_int 4))))
      in if addr < 0 \<or> 2 ^ 32 \<le> addr then (c, None)
         else let a = of_int addr :: u32
              in (if a AND 3 \<noteq> 0 then vm_warn (name @ '': misaligned pointer ('' @ hex_msg a @ '')'') c else c, Some a))"

definition memgetval :: builtin where
  "memgetval c =
     (case word_address ''memgetval'' c of
        (c, None) \<Rightarrow> (c, Some (BadPointerRead (arg_word c 0)))
      | (c, Some a) \<Rightarrow>
          (case mem_read_u32 (c_mem c) a of
             Some v \<Rightarrow> ok (ret_raw (v, 0, 0) c)
           | None \<Rightarrow> (c, Some (BadPointerRead a))))"

definition memsetval :: builtin where
  "memsetval c =
     (let v = arg_word c 2
      in case word_address ''memsetval'' c of
           (c, None) \<Rightarrow> (c, Some (BadPointerWrite (arg_word c 0)))
         | (c, Some a) \<Rightarrow>
             (case mem_write_u32 (c_mem c) a v of
                Inr m \<Rightarrow> ok (c\<lparr>c_mem := m\<rparr>)
              | Inl (WProtected e) \<Rightarrow> ok (core_warn c (ReadOnlyEntity e))
              | Inl WNull \<Rightarrow> (c, Some NullPointerWrite)
              | Inl (WInvalid _) \<Rightarrow> (c, Some (BadPointerWrite a))))"

text \<open>Checks that end the builtin with their error, in order.\<close>

fun checks :: "(bool \<times> string) list \<Rightarrow> builtin" where
  "checks [] c = ok c"
| "checks ((bad, msg) # r) c =
     (if bad then (case soft_error msg c of (c, Some k) \<Rightarrow> (c, Some k) | (c, None) \<Rightarrow> checks r c) else checks r c)"

definition memptradd :: builtin where
  "memptradd c =
     (let p = arg_word c 0; f = arg_word c 1; ofs = f2i f
      in case checks [(\<not> f32_eq (f32_of_int (sint ofs)) f, ''memptradd: non-integer offset''),
                      (ofs AND 3 \<noteq> 0, ''memptradd: offset is not 32-bit aligned''),
                      (sint ofs < 0, ''memptradd: negative offset'')] c of
           (c, Some k) \<Rightarrow> (c, Some k)
         | (c, None) \<Rightarrow> ok (ret_raw (p + ofs, 0, 0) c))"

section \<open>Base64\<close>

definition BASE64 :: bytes where
  "BASE64 = ascii ''ABCDEFGHIJKLMNOPQRSTUVWXYZabcdefghijklmnopqrstuvwxyz0123456789+/''"

definition b64_word :: "bytes \<Rightarrow> u32" where
  "b64_word chunk =
     (let b = (\<lambda>i. ucast (the_default 0 (nth_opt chunk i)) :: u32)
      in push_bit 16 (b 0) OR push_bit 8 (b 1) OR b 2)"

definition b64_sym :: "u32 \<Rightarrow> nat \<Rightarrow> u8" where
  "b64_sym v s = the_default 0x41 (nth_opt BASE64 (unat (drop_bit s v AND 63)))"

definition b64_chunk :: "bytes \<Rightarrow> bytes" where
  "b64_chunk chunk =
     (let v = b64_word chunk
      in [b64_sym v 18, b64_sym v 12, if 1 < length chunk then b64_sym v 6 else 0x3D,
          if 2 < length chunk then b64_sym v 0 else 0x3D])"

text \<open>\<open>data.chunks(3)\<close>.\<close>

fun chunks3 :: "bytes \<Rightarrow> bytes list" where
  "chunks3 [] = []"
| "chunks3 [a] = [[a]]"
| "chunks3 [a, b] = [[a, b]]"
| "chunks3 (a # b # c # r) = [a, b, c] # chunks3 r"

definition base64_encode :: "bytes \<Rightarrow> bytes" where
  "base64_encode data = concat (map b64_chunk (chunks3 data))"

definition base64_value :: "u8 \<Rightarrow> u32" where
  "base64_value c =
     (if 0x41 \<le> c \<and> c \<le> 0x5A then ucast (c - 0x41)
      else if 0x61 \<le> c \<and> c \<le> 0x7A then ucast (c - 0x61 + 26)
      else if 0x30 \<le> c \<and> c \<le> 0x39 then ucast (c - 0x30 + 52)
      else if c = 0x2B \<or> c = 0x2D then 62
      else if c = 0x2F \<or> c = 0x5F then 63 else 0)"

definition skip_ctrl :: "bytes \<Rightarrow> bytes" where
  "skip_ctrl = dropWhile (\<lambda>c. 1 \<le> c \<and> c < 0x20)"

lemma skip_ctrl_length: "skip_ctrl r = c # r' \<Longrightarrow> length r' < length r"
  using length_dropWhile_le [of "\<lambda>c. 1 \<le> c \<and> c < 0x20" r] by (simp add: skip_ctrl_def)

text \<open>Byte \<open>i\<close> of \<open>to_be_bytes\<close>.\<close>

definition be_byte :: "nat \<Rightarrow> u32 \<Rightarrow> u8" where
  "be_byte i v = ucast (drop_bit (8 * (3 - i)) v)"

function b64_groups :: "bytes \<Rightarrow> nat \<Rightarrow> bytes" where
  "b64_groups r room =
     (if room \<le> 1 then []
      else case skip_ctrl r of
             [] \<Rightarrow> []
           | c0 # r0 \<Rightarrow>
               (case skip_ctrl r0 of
                  [] \<Rightarrow> []
                | c1 # r1 \<Rightarrow>
                    (let v = push_bit 18 (base64_value c0) OR push_bit 12 (base64_value c1)
                     in be_byte 1 v #
                        (case r1 of
                           [] \<Rightarrow> []
                         | c2 # r2 \<Rightarrow>
                             if c2 = 0x3D \<or> room < 2 then []
                             else let v = v OR push_bit 6 (base64_value c2)
                                  in be_byte 2 v #
                                     (case r2 of
                                        [] \<Rightarrow> []
                                      | c3 # r3 \<Rightarrow>
                                          if c3 = 0x3D \<or> room < 3 then []
                                          else be_byte 3 (v OR base64_value c3) # b64_groups r3 (room - 3))))))"
  by pat_completeness auto
termination
  by (relation "measure (length \<circ> fst)") (auto dest!: skip_ctrl_length)

declare b64_groups.simps [simp del]

definition base64_decode :: "bytes \<Rightarrow> nat \<Rightarrow> bytes" where
  "base64_decode s cap = b64_groups s cap"

definition base64_capacity :: "nat \<Rightarrow> nat" where
  "base64_capacity len = (len + 3) div 4 * 3 + 1"

definition base64encode :: builtin where
  "base64encode c =
     (let p = arg_word c 0; sz = arg_word c 1;
          data = (case usize_of_i32 sz of
                    None \<Rightarrow> None
                  | Some n \<Rightarrow> if n = 0 then Some [] else if p \<noteq> 0 then read_range c p 0 n else None)
      in case data of
           Some d \<Rightarrow>
             (if \<not> s_fits (c_strings c) ((length d + 2) div 3 * 4) then (c, Some (OutOfMemory TempStrings))
              else ret_str (base64_encode d) c)
         | None \<Rightarrow> soft_error ''base64encode: invalid pointer'' (ret_raw (0, 0, 0) c))"

definition base64decode :: builtin where
  "base64decode c =
     (let s = arg_str c 0; cap = base64_capacity (length s); data = base64_decode s cap
      in case (if cap < 2 ^ 32 then core_heap_alloc (of_nat cap) c else (c, None)) of
           (c, None) \<Rightarrow> soft_error ''base64decode: out of memory'' (ret_raw (0, 0, 0) (set_arg_word 1 0 c))
         | (c, Some p) \<Rightarrow>
             ok (ret_raw (p, 0, 0)
               (set_arg_word 1 (if length data < 2 ^ 32 then of_nat (length data) else 0) (fst (heap_write p data c)))))"


section \<open>Base64 round trip\<close>

lemma b64_all: "map base64_value BASE64 = map of_nat [0..<64]" "\<forall>c \<in> set BASE64. c \<noteq> 0x3D \<and> 0x20 \<le> c"
  by (simp_all add: BASE64_def ascii_def base64_value_def upt_rec)

lemma length_BASE64: "length BASE64 = 64"
  by (simp add: BASE64_def ascii_def)

lemma b64_symbols:
  assumes "k < 64"
  shows "base64_value (BASE64 ! k) = of_nat k" "BASE64 ! k \<noteq> 0x3D" "0x20 \<le> BASE64 ! k"
proof -
  have "base64_value (BASE64 ! k) = map base64_value BASE64 ! k" using assms by (simp add: length_BASE64)
  also have "\<dots> = of_nat k" unfolding b64_all(1) using assms by simp
  finally show "base64_value (BASE64 ! k) = of_nat k" .
  have "BASE64 ! k \<in> set BASE64" using assms by (simp add: length_BASE64)
  then show "BASE64 ! k \<noteq> 0x3D" "0x20 \<le> BASE64 ! k" using b64_all(2) by blast+
qed

lemma and_63: "w AND 63 = take_bit 6 (w :: u32)"
  by (simp add: take_bit_eq_mask mask_eq_exp_minus_1)

lemma low6: "unat (w AND 63 :: u32) < 64"
proof -
  have "unat (w AND 63) = take_bit 6 (unat w)" unfolding and_63 by (rule unsigned_take_bit_eq)
  then show ?thesis using take_bit_nat_less_exp [of 6 "unat w"] by simp
qed

lemma b64_sym_value:
  "base64_value (b64_sym v s) = drop_bit s v AND 63" "b64_sym v s \<noteq> 0x3D" "0x20 \<le> b64_sym v s"
proof -
  have e: "b64_sym v s = BASE64 ! unat (drop_bit s v AND 63)"
    using low6 [of "drop_bit s v"] by (simp add: b64_sym_def nth_opt_def length_BASE64)
  show "base64_value (b64_sym v s) = drop_bit s v AND 63" "b64_sym v s \<noteq> 0x3D" "0x20 \<le> b64_sym v s"
    using b64_symbols [OF low6 [of "drop_bit s v"]] by (simp_all add: e)
qed

lemma skip_sym: "0x20 \<le> c \<Longrightarrow> skip_ctrl (c # r) = c # r"
  by (simp add: skip_ctrl_def word_less_nat_alt word_le_nat_alt)

text \<open>The four symbols hold the three bytes.\<close>

lemma b64_bytes:
  fixes a b c :: u8
  defines "v \<equiv> (push_bit 16 (ucast a) OR push_bit 8 (ucast b) OR ucast c :: u32)"
  defines "w \<equiv> push_bit 18 (drop_bit 18 v AND 63) OR push_bit 12 (drop_bit 12 v AND 63)"
  shows "be_byte 1 w = a" "be_byte 2 (w OR push_bit 6 (drop_bit 6 v AND 63)) = b"
    "be_byte 3 ((w OR push_bit 6 (drop_bit 6 v AND 63)) OR (drop_bit 0 v AND 63)) = c"
  unfolding v_def w_def be_byte_def and_63
  by (rule bit_word_eqI, drule less_8_cases, elim disjE, simp_all add: bit_simps byte_beyond)+


lemma word_of_chunk: "push_bit 16 (ucast a) OR push_bit 8 (ucast b) OR ucast c = b64_word [a, b, c]"
  "b64_word [a, 0] = b64_word [a]" "b64_word [a, b, 0] = b64_word [a, b]"
  by (simp_all add: b64_word_def nth_opt_def Let_def)

text \<open>Decoding one group, with enough room.\<close>

lemma decode_group:
  assumes "3 < room"
  shows "b64_groups (b64_chunk [a]) room = [a]"
    and "b64_groups (b64_chunk [a, b]) room = [a, b]"
    and "b64_groups (b64_chunk [a, b, c] @ r) room = [a, b, c] @ b64_groups r (room - 3)"
proof -
  have room: "\<not> room \<le> Suc 0" "\<not> room \<le> 1" "\<not> room < 2" "\<not> room < 3" using assms by auto
  note rest = b64_chunk_def Let_def skip_sym [OF b64_sym_value(3)] b64_sym_value(1,2) room
  show "b64_groups (b64_chunk [a]) room = [a]"
    using b64_bytes(1) [of a 0 0] unfolding word_of_chunk
    by (subst b64_groups.simps) (simp add: rest)
  show "b64_groups (b64_chunk [a, b]) room = [a, b]"
    using b64_bytes(1,2) [of a b 0] unfolding word_of_chunk
    by (subst b64_groups.simps) (simp add: rest)
  show "b64_groups (b64_chunk [a, b, c] @ r) room = [a, b, c] @ b64_groups r (room - 3)"
    using b64_bytes [of a b c] unfolding word_of_chunk
    by (subst b64_groups.simps) (simp add: rest)
qed

lemma groups_next: "(5 + n) div 3 = Suc (Suc (Suc n) div 3)"
  by linarith

lemma chunks3_length: "length (base64_encode d) = 4 * ((length d + 2) div 3)"
  by (induction d rule: chunks3.induct) (simp_all add: base64_encode_def b64_chunk_def Let_def groups_next)

lemma decode_encode: "(length d + 2) div 3 * 3 < room \<Longrightarrow> b64_groups (base64_encode d) room = d"
proof (induction d arbitrary: room rule: chunks3.induct)
  case 1
  then show ?case by (simp add: base64_encode_def b64_groups.simps skip_ctrl_def)
next
  case (4 a b c r)
  then have room: "(length r + 2) div 3 * 3 < room - 3" "3 < room" by (simp_all add: groups_next)
  then have "b64_groups (base64_encode r) (room - 3) = r" using 4(1) by blast
  then show ?case using room(2) decode_group(3) [of room a b c "base64_encode r"] by (simp add: base64_encode_def)
qed (simp_all add: base64_encode_def decode_group)

text \<open>C30: decoding what \<open>base64encode\<close> made, with the capacity \<open>base64decode\<close> computes, gives back the bytes.\<close>

theorem base64_round_trip: "base64_decode (base64_encode d) (base64_capacity (length (base64_encode d))) = d"
proof -
  have c: "base64_capacity (length (base64_encode d)) = (length d + 2) div 3 * 3 + 1"
    by (simp add: base64_capacity_def chunks3_length)
  show ?thesis
    unfolding base64_decode_def c by (rule decode_encode) simp
qed


section \<open>What they keep\<close>

lemma tame_heap:
  assumes "heap_wf (mheap (c_mem c)) \<Longrightarrow> heap_wf h" "h_max h = h_max (mheap (c_mem c))"
  shows "tame c (on_mem (\<lambda>m. m\<lparr>mheap := h\<rparr>) c)"
  unfolding on_mem_def
  by (rule tame_mem) (use assms in \<open>auto simp: mem_wf_def block_len_def\<close>)

lemma tame_heap_ops [tame_intros]:
  "tame c (fst (core_heap_alloc n c))" "tame c (fst (core_heap_free p c))" "tame c (fst (heap_write p bs c))"
proof -
  let ?h = "mheap (c_mem c)"
  show "tame c (fst (core_heap_alloc n c))"
    using tame_heap [of c "fst (heap_alloc ?h n)"] heap_alloc_wf_any [of ?h n]
    by (simp add: core_heap_alloc_def split: prod.split) (metis fst_conv heap_max(1))
  show "tame c (fst (core_heap_free p c))"
    using tame_heap [of c "fst (heap_free ?h off)" for off] heap_free_wf [of ?h] heap_max(2) [of ?h]
    by (simp add: core_heap_free_def tame_refl split: prod.split option.split) (metis fst_conv)
  show "tame c (fst (heap_write p bs c))"
    by (auto simp: heap_write_def Let_def tame_refl heap_data_wf split: option.split intro!: tame_heap)
qed

lemma tame_soft_error [tame_intros]: "tame c (fst (soft_error msg c))"
  using keepingD(1) [OF keeping_soft_error] .

lemma tame_write_mem: "mem_write (c_mem c) p bs = Inr m \<Longrightarrow> tame c (c\<lparr>c_mem := m\<rparr>)"
proof (rule tame_mem)
  assume w: "mem_write (c_mem c) p bs = Inr m"
  show "mem_wf m" if "mem_wf (c_mem c)" using that w by (rule mem_write_wf)
  show "length (ms m) = length (ms (c_mem c))" "ls_words m = ls_words (c_mem c)"
    using w by (auto simp: mem_write_def set_region_lengths check_write_def region_def set_region_def
        split: if_splits sum.splits option.splits loc.splits prod.splits)
qed

lemma tame_temp_write:
  assumes "temp_raw_mut (c_strings c) slot len = Some (s, d)" "length d' = length d"
  shows "tame c (c\<lparr>c_strings := set_temp s slot d'\<rparr>)"
  by (rule tame_strings) (rule temp_write_wf [OF _ assms])

lemma tame_write_dest [tame_intros]: "tame c (fst (write_dest d bs c))"
proof (cases d)
  case (ToLinear addr)
  then show ?thesis
    by (auto simp: write_dest_def tame_refl tame_warn tame_write_mem split: sum.split write_error.split)
next
  case (ToTemp slot start)
  have "tame c (c\<lparr>c_strings := s\<rparr>)" if "temp_raw_mut (c_strings c) slot n = Some (s, x)" for n s x
    using tame_temp_write [OF that refl] temp_raw_mut_fixed(2) [OF that] by simp
  then show ?thesis using ToTemp
    by (auto simp: write_dest_def tame_refl tame_temp_write split: option.split)
qed

lemma tame_after: "tame c d \<Longrightarrow> tame c (fst (soft_error msg d))" "tame c d \<Longrightarrow> tame c (ret_raw w d)"
  "tame c d \<Longrightarrow> tame c (vm_warn m d)" "tame c d \<Longrightarrow> tame c (core_warn d k)"
  "tame c d \<Longrightarrow> tame c (ret_word x d)" "tame c d \<Longrightarrow> tame c (set_arg_word i x d)"
  "tame c d \<Longrightarrow> tame c (fst (ret_str bs d))"
  by (erule tame_trans, rule tame_intros)+

lemma tame_word_address: "word_address name c = (d, r) \<Longrightarrow> tame c d"
  by (auto simp: word_address_def Let_def tame_refl tame_after split: if_splits)

lemma tame_checks [tame_intros]: "tame c (fst (checks bs c))"
proof (induction bs arbitrary: c)
  case (Cons b bs)
  obtain bad msg where b: "b = (bad, msg)" by fastforce
  obtain d r where d: "soft_error msg c = (d, r)" by fastforce
  then have "tame c d" using tame_soft_error [of c msg] by simp
  then show ?case using b d Cons tame_trans by (fastforce split: option.split)
qed (simp add: tame_refl)


lemma tame_two: "tame c (fst p) \<Longrightarrow> p = (d, r) \<Longrightarrow> tame c d"
  by simp

lemma tame_allocs:
  "core_heap_alloc n c = (d, r) \<Longrightarrow> tame c d" "core_heap_free p c = (d, b) \<Longrightarrow> tame c d"
  "write_dest x bs c = (d, b) \<Longrightarrow> tame c d" "checks ks c = (d, k) \<Longrightarrow> tame c d"
  by (rule tame_two, rule tame_intros, assumption)+

lemma tame_pointers:
  "tame c (fst (memalloc c))" "tame c (fst (memfree c))" "tame c (fst (memrealloc c))" "tame c (fst (memcpy c))"
  "tame c (fst (memfill8 c))" "tame c (fst (memcmp c))" "tame c (fst (createbuffer c))" "tame c (fst (memgetval c))"
  "tame c (fst (memsetval c))" "tame c (fst (memptradd c))" "tame c (fst (base64encode c))" "tame c (fst (base64decode c))"
proof -
  note t = tame_refl tame_intros tame_allocs
  show "tame c (fst (memalloc c))"
    by (auto simp: memalloc_def Let_def intro!: tame_after intro: t split: option.split prod.split)
  show "tame c (fst (memfree c))"
    by (auto simp: memfree_def Let_def intro!: tame_after intro: t split: option.split prod.split bool.split)
  have "tame c (on_mem (\<lambda>m. m\<lparr>mheap := h\<rparr>) c)" if "heap_realloc (mheap (c_mem c)) x n = (h, r)" for x n h r
    using that heap_realloc_wf [of "mheap (c_mem c)" x n] heap_realloc_max [of "mheap (c_mem c)" x n] by (auto intro: tame_heap)
  then show "tame c (fst (memrealloc c))"
    by (auto simp: memrealloc_def Let_def intro!: tame_after intro: t split: option.split prod.split)
  show "tame c (fst (memcpy c))"
    by (auto simp: memcpy_def Let_def intro!: tame_after intro: t split: option.split prod.split bool.split)
  show "tame c (fst (memfill8 c))"
    by (auto simp: memfill8_def Let_def intro!: tame_after intro: t split: option.split prod.split bool.split)
  show "tame c (fst (memcmp c))"
    by (auto simp: memcmp_def Let_def intro!: tame_after intro: t split: option.split)
  show "tame c (fst (createbuffer c))"
    by (auto simp: createbuffer_def Let_def intro!: tame_after intro: t)
  show "tame c (fst (memgetval c))"
    by (auto simp: memgetval_def intro!: tame_after intro: t tame_word_address split: option.split prod.split)
  show "tame c (fst (memsetval c))"
    by (auto simp: memsetval_def mem_write_u32_def Let_def intro!: tame_after
        intro: t tame_word_address tame_trans [OF tame_word_address tame_write_mem]
        split: option.split prod.split sum.split write_error.split)
  show "tame c (fst (memptradd c))"
    by (auto simp: memptradd_def Let_def simp del: checks.simps intro!: tame_after intro: t split: option.split prod.split)
  show "tame c (fst (base64encode c))"
    by (auto simp: base64encode_def Let_def intro!: tame_after intro: t split: option.split)
  let ?cap = "base64_capacity (length (arg_str c 0))"
  obtain d r where q: "(if ?cap < 2 ^ 32 then core_heap_alloc (of_nat ?cap) c else (c, None)) = (d, r)" by fastforce
  then have d: "tame c d" by (auto split: if_splits intro: t)
  have "tame c (fst (heap_write p bs d))" for p bs using tame_trans [OF d tame_heap_ops(3)] .
  then show "tame c (fst (base64decode c))"
    using q d by (cases r) (simp_all add: base64decode_def Let_def tame_after)
qed


section \<open>Copying\<close>

definition separate :: "u32 \<Rightarrow> u32 \<Rightarrow> nat \<Rightarrow> u32 \<Rightarrow> u32 \<Rightarrow> nat \<Rightarrow> bool" where
  "separate p ofs k q ofs' n =
     (case (classify p, classify q) of
        (Temp s, Temp t) \<Rightarrow> s \<noteq> t \<or> sint ofs + int k \<le> sint ofs' \<or> sint ofs' + int n \<le> sint ofs
      | (Linear a, Linear b) \<Rightarrow>
          uint a + sint ofs + int k \<le> uint b + sint ofs' \<or> uint b + sint ofs' + int n \<le> uint a + sint ofs
      | _ \<Rightarrow> True)"

text \<open>The protected entity a destination lies in, and the destinations \<open>dest\<close> and \<open>write_dest\<close> have no room for: those
  that are no range of memory or of a temp string, and a temp string that would have to grow beyond the string budget.\<close>

definition protected_dest :: "'s core \<Rightarrow> u32 \<Rightarrow> u32 \<Rightarrow> nat \<Rightarrow> u32 option" where
  "protected_dest c p ofs n =
     (case classify p of
        Linear q \<Rightarrow>
          Option.bind (linear q ofs) (\<lambda>a. case check_write (c_mem c) a n of Inl (WProtected e) \<Rightarrow> Some e | _ \<Rightarrow> None)
      | _ \<Rightarrow> None)"

definition no_room :: "'s core \<Rightarrow> u32 \<Rightarrow> u32 \<Rightarrow> nat \<Rightarrow> bool" where
  "no_room c p ofs n =
     (case dest_of c p ofs n of
        None \<Rightarrow> True
      | Some (ToLinear _) \<Rightarrow> False
      | Some (ToTemp slot start) \<Rightarrow> temp_raw_mut (c_strings c) slot (start + n) = None)"

lemma slice_chunk: "slice d a (a + n) = Option.bind (slice_from d a) (first_chunk n)"
  by (auto simp: slice_def slice_from_def first_chunk_def)

lemma read_range_linear:
  "classify p = Linear p' \<Longrightarrow> read_range c p ofs n =
     Option.bind (linear p' ofs) (\<lambda>a. if a = 0 \<and> 1 < n \<or> 2 ^ 32 \<le> n then None else mem_read (c_mem c) n a)"
  by (auto simp: read_range_def mem_read_def slice_chunk split: option.split bind_splits)

lemma read_range_length: "read_range c p ofs n = Some bs \<Longrightarrow> length bs = n"
  by (cases "classify p")
    (auto simp: read_range_linear mem_read_length Option.bind_eq_Some_conv split: if_splits,
     auto simp: read_range_def slice_def Option.bind_eq_Some_conv split: if_splits)

lemma read_range_cong:
  "c_mem d = c_mem c \<Longrightarrow> c_strings d = c_strings c \<Longrightarrow> read_range d p ofs n = read_range c p ofs n"
  by (simp only: read_range_def)

lemma uint_of_range: "0 \<le> x \<Longrightarrow> x < 2 ^ 32 \<Longrightarrow> uint (of_int x :: u32) = x"
  by (simp add: uint_word_of_int)

lemma linear_uint: "linear p ofs = Some a \<Longrightarrow> uint a = uint p + sint ofs"
  using uint_of_range [of "uint p + sint ofs"] unfolding linear_def Let_def by (auto simp only: option.inject split: if_splits)

lemma temp_written:
  assumes "temp_raw_mut s slot (start + length bs) = Some (s', data)" "start + length bs \<le> length data"
  shows "temp_raw (set_temp s' slot (splice data start bs)) slot = Some (splice data start bs)"
    and "temp_raw s slot = Some d0 \<Longrightarrow> \<exists>z. data = d0 @ z"
    and "slot' \<noteq> slot \<Longrightarrow> temp_raw (set_temp s' slot x) slot' = temp_raw s slot'"
proof -
  have len: "length (s_slots s') = length (s_slots s)"
    using assms(1) by (auto simp: temp_raw_mut_def Let_def set_temp_def split: option.splits if_splits)
  have "unat slot < length (s_slots s)"
    using assms(1) by (auto simp: temp_raw_mut_def temp_raw_def nth_opt_def split: option.splits if_splits)
  then show "temp_raw (set_temp s' slot (splice data start bs)) slot = Some (splice data start bs)"
    using len by (simp add: temp_raw_def set_temp_def nth_opt_def)
  show "temp_raw s slot = Some d0 \<Longrightarrow> \<exists>z. data = d0 @ z"
    using assms(1) by (auto simp: temp_raw_mut_def Let_def split: if_splits)
  assume "slot' \<noteq> slot"
  then have "unat slot' \<noteq> unat slot" by (simp add: word_unat_eq_iff)
  then show "temp_raw (set_temp s' slot x) slot' = temp_raw s slot'"
    using assms(1) by (auto simp: temp_raw_mut_def temp_raw_def Let_def set_temp_def nth_opt_def split: option.splits if_splits)
qed

lemma usize_of_i32_int: "usize_of_i32 w = Some n \<Longrightarrow> int n = sint w"
proof -
  assume "usize_of_i32 w = Some n"
  then have n: "0 \<le> sint w" "n = unat w" by (auto simp: usize_of_i32_def split: if_splits)
  have s: "sint w = (uint w + 2147483648) mod 4294967296 - 2147483648" using int_word_sint [of "uint w", where 'a = 32] by simp
  have u: "uint w < 4294967296" "0 \<le> uint w" using uint_lt2p [of w] by simp_all
  show "int n = sint w"
  proof (cases "uint w < 2147483648")
    case True
    then show ?thesis using s u n by simp
  next
    case False
    have "(uint w + 2147483648) mod 4294967296 = (uint w + 2147483648 - 4294967296) mod 4294967296"
      by (simp only: minus_mod_self2)
    also have "\<dots> = uint w + 2147483648 - 4294967296" using u False by (intro mod_pos_pos_trivial) auto
    finally have "(uint w + 2147483648) mod 4294967296 = uint w + 2147483648 - 4294967296" .
    then show ?thesis using s u n by simp
  qed
qed

text \<open>What was written is there, unless the destination is protected, and nothing else has changed.\<close>

lemma write_dest_there:
  assumes "dest_of c p ofs n = Some d" "length bs = n" "mem_wf (c_mem c)"
    and "protected_dest c p ofs n = None" "write_dest d bs c = (c', True)"
  shows "read_range c' p ofs n = Some bs"
proof (cases "classify p")
  case (Linear a0)
  then obtain a where a: "linear a0 ofs = Some a" "n < 2 ^ 32" "d = ToLinear a"
    using assms(1) by (auto simp: dest_of_def Option.bind_eq_Some_conv split: if_splits sum.splits write_error.splits)
  have "\<not> (\<exists>e. mem_write (c_mem c) a bs = Inl (WProtected e))"
    using assms(2,4) Linear a(1,2) by (auto simp: protected_dest_def mem_write_def split: sum.splits prod.splits if_splits)
  then obtain m where m: "mem_write (c_mem c) a bs = Inr m" "c' = c\<lparr>c_mem := m\<rparr>"
    using assms(5) a(3) by (auto simp: write_dest_def split: sum.splits write_error.splits)
  have "a \<noteq> 0" by (rule mem_write_Inr [OF assms(3) m(1)])
  then show ?thesis
    using mem_write_read [OF assms(3) m(1)] a assms(2) Linear by (simp add: read_range_linear m(2))
next
  case (Temp slot)
  then obtain start where st: "usize_of_i32 ofs = Some start" "d = ToTemp slot start"
    using assms(1) by (auto simp: dest_of_def Option.bind_eq_Some_conv split: if_splits)
  then obtain s data where t: "temp_raw_mut (c_strings c) slot (start + length bs) = Some (s, data)"
    "start + length bs \<le> length data" "c' = c\<lparr>c_strings := set_temp s slot (splice data start bs)\<rparr>"
    using assms(5) by (auto simp: write_dest_def split: option.splits if_splits)
  show ?thesis
    using temp_written(1) [OF t(1,2)] st(1) Temp t(2,3) assms(2) splice_get_same [of start bs data]
    by (simp add: read_range_def slice_def)
qed (use assms(1) in \<open>simp add: dest_of_def\<close>)

lemma protected_dest_lies:
  assumes "protected_dest c p ofs n = Some e"
  shows "\<exists>q a off. classify p = Linear q \<and> linear q ofs = Some a \<and> locate (c_mem c) a n = Some (LocE off e) \<and>
    ent_protected (c_mem c) e"
  using assms by (auto simp: protected_dest_def check_write_def ent_protected_def Option.bind_eq_Some_conv
      split: str_kind.splits sum.splits write_error.splits if_splits option.splits loc.splits)

lemma temp_raw_mut_room: "temp_raw_mut s slot n = Some (s', data) \<Longrightarrow> n \<le> length data"
  by (auto simp: temp_raw_mut_def Let_def down4_def split: option.splits if_splits)

lemma mem_write_checked:
  assumes "mem_wf m" "length bs < 2 ^ 32" "check_write m a (length bs) = Inr l"
  shows "\<exists>m'. mem_write m a bs = Inr m'"
proof -
  have "locate m a (length bs) = Some l"
    using assms(3) by (auto simp: check_write_def split: if_splits option.splits loc.splits)
  from lands_range [OF assms(1) locate_lands [OF assms(1) this]]
  have "snd (region m l) + length bs \<le> length (fst (region m l))" by (cases "region m l") simp
  then show ?thesis using assms(2,3) by (auto simp: mem_write_def split: prod.split)
qed

text \<open>A destination with room is written, unless it is protected, and then the write is a warning.\<close>

lemma write_dest_room:
  assumes "\<not> no_room c p ofs n" "length bs = n" "mem_wf (c_mem c)"
  obtains d where "dest_of c p ofs n = Some d"
    "\<And>e. protected_dest c p ofs n = Some e \<Longrightarrow> write_dest d bs c = (core_warn c (ReadOnlyEntity e), True)"
    "snd (write_dest d bs c)"
proof -
  obtain d where d: "dest_of c p ofs n = Some d" using assms(1) by (cases "dest_of c p ofs n") (auto simp: no_room_def)
  show thesis
  proof (cases "classify p")
    case (Linear q)
    then obtain a where a: "linear q ofs = Some a" "n < 2 ^ 32" "d = ToLinear a"
      "(\<exists>l. check_write (c_mem c) a n = Inr l) \<or> (\<exists>e. check_write (c_mem c) a n = Inl (WProtected e))"
      using d by (auto simp: dest_of_def Option.bind_eq_Some_conv split: if_splits sum.splits write_error.splits)
    show thesis
      using a(4)
    proof (elim disjE exE)
      fix l assume l: "check_write (c_mem c) a n = Inr l"
      then have "protected_dest c p ofs n = None" by (simp add: protected_dest_def Linear a(1))
      moreover have "snd (write_dest d bs c)"
        using mem_write_checked [of "c_mem c" bs a l] l assms(2,3) a(2,3) by (auto simp: write_dest_def)
      ultimately show thesis using that [OF d] by simp
    next
      fix e assume e: "check_write (c_mem c) a n = Inl (WProtected e)"
      then have "protected_dest c p ofs n = Some e" by (simp add: protected_dest_def Linear a(1))
      moreover have "write_dest d bs c = (core_warn c (ReadOnlyEntity e), True)"
        using e a(2,3) assms(2) by (simp add: write_dest_def mem_write_def)
      ultimately show thesis using that [OF d] by simp
    qed
  next
    case (Temp slot)
    then obtain start where st: "d = ToTemp slot start"
      using d by (auto simp: dest_of_def Option.bind_eq_Some_conv split: if_splits)
    then obtain s data where t: "temp_raw_mut (c_strings c) slot (start + n) = Some (s, data)"
      using assms(1) d by (auto simp: no_room_def)
    then have "snd (write_dest d bs c)" using st assms(2) temp_raw_mut_room [OF t] by (simp add: write_dest_def)
    moreover have "protected_dest c p ofs n = None" by (simp add: protected_dest_def Temp)
    ultimately show thesis using that [OF d] by simp
  qed (use d in \<open>simp add: dest_of_def\<close>)
qed

lemma write_dest_elsewhere:
  assumes "dest_of c q ofs' n = Some d" "write_dest d bs c = (c', True)" "length bs = n" "mem_wf (c_mem c)"
    and "read_range c p ofs k = Some xs" "separate p ofs k q ofs' n"
  shows "read_range c' p ofs k = Some xs"
proof (cases "classify q")
  case (Linear a0)
  then obtain a where a: "linear a0 ofs' = Some a" "d = ToLinear a"
    using assms(1) by (auto simp: dest_of_def Option.bind_eq_Some_conv split: if_splits sum.splits write_error.splits)
  show ?thesis
  proof (cases "mem_write (c_mem c) a bs")
    case (Inr m)
    then have c': "c' = c\<lparr>c_mem := m\<rparr>" using assms(2) a(2) by (simp add: write_dest_def)
    show ?thesis
    proof (cases "classify p")
      case Lp: (Linear p0)
      then obtain b where b: "linear p0 ofs = Some b" "\<not> (b = 0 \<and> 1 < k \<or> 2 ^ 32 \<le> k)" "mem_read (c_mem c) k b = Some xs"
        using assms(5) by (auto simp: read_range_linear Option.bind_eq_Some_conv split: if_splits)
      have "uint b + int k \<le> uint a \<or> uint a + int n \<le> uint b"
        using assms(6) Lp Linear linear_uint [OF b(1)] linear_uint [OF a(1)] by (simp add: separate_def)
      then have "unat a + length bs \<le> unat b \<or> unat b + k \<le> unat a"
        using assms(3) uint_nat [of a] uint_nat [of b] by linarith
      from mem_write_frame [OF assms(4) Inr this] show ?thesis
        using b Lp by (simp add: read_range_linear c')
    qed (use assms(5) in \<open>simp_all add: read_range_def c'\<close>)
  next
    case (Inl e)
    then have "c_mem c' = c_mem c" "c_strings c' = c_strings c"
      using assms(2) a(2) by (auto simp: write_dest_def core_warn_def Let_def split: write_error.splits)
    then show ?thesis using assms(5) read_range_cong [of c' c] by simp
  qed
next
  case (Temp slot)
  then obtain start where st: "usize_of_i32 ofs' = Some start" "d = ToTemp slot start"
    using assms(1) by (auto simp: dest_of_def Option.bind_eq_Some_conv split: if_splits)
  then obtain s data where t: "temp_raw_mut (c_strings c) slot (start + length bs) = Some (s, data)"
    "start + length bs \<le> length data" "c' = c\<lparr>c_strings := set_temp s slot (splice data start bs)\<rparr>"
    using assms(2) by (auto simp: write_dest_def split: option.splits if_splits)
  show ?thesis
  proof (cases "classify p")
    case Tp: (Temp slot')
    then obtain at d0 where at: "usize_of_i32 ofs = Some at" "temp_raw (c_strings c) slot' = Some d0"
      "at + k \<le> length d0" "xs = take k (drop at d0)"
      using assms(5) by (auto simp: read_range_def slice_def Option.bind_eq_Some_conv split: if_splits)
    show ?thesis
    proof (cases "slot' = slot")
      case False
      then show ?thesis using temp_written(3) [OF t(1,2) False] at Tp t(3) by (simp add: read_range_def slice_def)
    next
      case True
      then obtain z where z: "data = d0 @ z" using temp_written(2) [OF t(1,2)] at(2) by blast
      have sep: "sint ofs + int k \<le> sint ofs' \<or> sint ofs' + int n \<le> sint ofs"
        using assms(6) Tp Temp True by (simp add: separate_def)
      have "at + k \<le> start \<or> start + length bs \<le> at"
        using sep usize_of_i32_int [OF at(1)] usize_of_i32_int [OF st(1)] assms(3) by linarith
      then have "take k (drop at (splice data start bs)) = take k (drop at data)"
        using splice_get_other [of start bs data at k] t(2) at(3) z by auto
      moreover have "take k (drop at data) = xs" using at z by simp
      ultimately show ?thesis
        using temp_written(1) [OF t(1,2)] at t(2,3) Tp True z by (simp add: read_range_def slice_def)
    qed
  next
    case (Linear a)
    then show ?thesis using assms(5) by (auto simp: read_range_linear t(3) Option.bind_eq_Some_conv split: if_splits)
  qed (use assms(5) in \<open>simp add: read_range_def\<close>)
qed (use assms(1) in \<open>simp add: dest_of_def\<close>)

text \<open>C31: what \<open>memcpy\<close> does, in developer mode and outside it, whatever its arguments. A copy of no bytes does nothing.
  With a negative size, a source that cannot be read or a destination there is no room for, it is the error of
  \<open>soft_error\<close> and nothing else (a warning and a zero result in developer mode, an error of the program outside it). If
  the destination lies in a protected entity, nothing changes but for the warning that names that entity. In every other
  case it succeeds: the destination holds what the source held before, however the two overlap, and no byte outside the
  destination changes.\<close>

theorem memcpy_copies:
  assumes "mem_wf (c_mem c)"
  shows "let dst = arg_word c 0; src = arg_word c 1; sofs = opt_i32 c 3; dofs = opt_i32 c 4 in
    case usize_of_i32 (arg_word c 2) of
      None \<Rightarrow> \<exists>msg. memcpy c = soft_error msg c
    | Some n \<Rightarrow>
        if n = 0 then memcpy c = (c, None)
        else if no_room c dst dofs n then \<exists>msg. memcpy c = soft_error msg c
        else case read_range c src sofs n of
               None \<Rightarrow> \<exists>msg. memcpy c = soft_error msg c
             | Some bs \<Rightarrow>
                 (case protected_dest c dst dofs n of
                    Some e \<Rightarrow> memcpy c = (core_warn c (ReadOnlyEntity e), None)
                  | None \<Rightarrow>
                      \<exists>c'. memcpy c = (c', None) \<and> read_range c' dst dofs n = Some bs \<and>
                        (\<forall>p ofs k xs. separate p ofs k dst dofs n \<longrightarrow> read_range c p ofs k = Some xs \<longrightarrow>
                           read_range c' p ofs k = Some xs))"
proof (cases "usize_of_i32 (arg_word c 2)")
  case None
  then show ?thesis by (auto simp: memcpy_def Let_def)
next
  case (Some n)
  let ?dst = "arg_word c 0" and ?dofs = "opt_i32 c 4" and ?bs = "read_range c (arg_word c 1) (opt_i32 c 3) n"
  note memcpy = memcpy_def [of c, unfolded Let_def Some option.case]
  consider "n = 0" | "0 < n" "no_room c ?dst ?dofs n" | "0 < n" "\<not> no_room c ?dst ?dofs n" "?bs = None"
    | bs where "0 < n" "\<not> no_room c ?dst ?dofs n" "?bs = Some bs" by fastforce
  then show ?thesis
  proof cases
    case 2
    then have "\<exists>msg. memcpy c = soft_error msg c"
      using read_range_length [of c "arg_word c 1" "opt_i32 c 3" n]
      by (auto simp: memcpy no_room_def write_dest_def split: option.splits dest.splits)
    then show ?thesis using 2 Some by (simp add: Let_def)
  next
    case 3
    then have "\<exists>msg. memcpy c = soft_error msg c" by (auto simp: memcpy no_room_def split: option.splits)
    then show ?thesis using 3 Some by (simp add: Let_def)
  next
    case 4
    have len: "length bs = n" using 4(3) by (rule read_range_length)
    obtain d where d: "dest_of c ?dst ?dofs n = Some d"
      "\<And>e. protected_dest c ?dst ?dofs n = Some e \<Longrightarrow> write_dest d bs c = (core_warn c (ReadOnlyEntity e), True)"
      "snd (write_dest d bs c)"
      using write_dest_room [OF 4(2) len assms] by blast
    obtain c' where w: "write_dest d bs c = (c', True)" using d(3) by (cases "write_dest d bs c") auto
    then have m: "memcpy c = (c', None)" using 4 d(1) by (simp add: memcpy)
    show ?thesis
    proof (cases "protected_dest c ?dst ?dofs n")
      case None
      show ?thesis
        using 4 Some m None write_dest_there [OF d(1) len assms None w] write_dest_elsewhere [OF d(1) w len assms]
        by (simp add: Let_def)
    next
      case (Some e)
      then show ?thesis using 4 \<open>usize_of_i32 _ = _\<close> m d(2) [OF Some] w by (simp add: Let_def)
    qed
  qed (use Some in \<open>simp add: memcpy Let_def\<close>)
qed

text \<open>Copying the four bytes of the size argument, at 104, to address 8.\<close>

definition sample_copy :: score where
  "sample_copy = sample_score\<lparr>c_mem := mem_set_g (mem_set_g (mem_set_g sample_mem 80 8) 92 104) 104 4\<rparr>"

lemma sample_copy_args: "arg_word sample_copy 0 = 8" "arg_word sample_copy 1 = 104" "arg_word sample_copy 2 = 4"
  "opt_i32 sample_copy i = 0" "\<not> g_developer (c_config sample_copy)"
proof -
  have gb: "core_gbase sample_copy = 64"
    by (simp add: core_gbase_def sample_copy_def sample_score_def core_progs_at_def exec_default_def nth_opt_def)
  have m: "c_mem sample_copy = mem_set_g (mem_set_g (mem_set_g sample_mem 80 8) 92 104) 104 4" by (simp add: sample_copy_def)
  note arg = arg_word_def parm_def gb OFS_PARM0_def m mem_g_set_same mem_g_set_other len_simps
  show "arg_word sample_copy 0 = 8" "arg_word sample_copy 1 = 104" "arg_word sample_copy 2 = 4"
    by (simp_all add: arg)
  show "opt_i32 sample_copy i = 0" by (simp add: opt_i32_def argc_def sample_copy_def sample_score_def)
  show "\<not> g_developer (c_config sample_copy)" by (simp add: sample_copy_def sample_score_def config_menu_def config_base_def)
qed

theorem memcpy_copies_witness: "read_range (fst (memcpy sample_copy)) 8 0 4 = Some (le_bytes 4 (4 :: u32))"
proof -
  let ?m = "c_mem sample_copy"
  have m: "length (ms ?m) = 404" "ms ?m = splice (ms (mem_set_g (mem_set_g sample_mem 80 8) 92 104)) 104 (le_bytes 4 (4 :: u32))"
    by (simp_all add: sample_copy_def len_simps mem_set_g_def put_u32_def)
  have loc: "locate ?m 104 4 = Some (LocS 104)" "locate ?m 8 4 = Some (LocS 8)" by (simp_all add: locate_def m(1))
  have lin: "linear 8 0 = Some 8" "linear 104 0 = Some 104" by (simp_all add: linear_def)
  have cls: "classify 8 = Linear 8" "classify 104 = Linear 104" by (simp_all add: classify_def TAG_MASK_def TEMP_TAG_def STATIC_TAG_def)
  have src: "read_range sample_copy 104 0 4 = Some (le_bytes 4 (4 :: u32))"
    using splice_get_same [of 104 "le_bytes 4 (4 :: u32)" "ms (mem_set_g (mem_set_g sample_mem 80 8) 92 104)"]
    by (simp add: read_range_def cls lin loc region_def slice_def m len_simps)
  have d: "dest_of sample_copy 8 0 4 = Some (ToLinear 8)" by (simp add: dest_of_def cls lin check_write_def loc)
  have "no_room sample_copy 8 0 4 = False" by (simp add: no_room_def d)
  moreover have "protected_dest sample_copy 8 0 4 = None" by (simp add: protected_dest_def cls lin check_write_def loc)
  moreover have "mem_wf ?m" unfolding sample_copy_def by (simp add: mem_set_g_wf sample_mem_wf)
  ultimately show ?thesis
    using memcpy_copies [of sample_copy] src
    by (auto simp: sample_copy_args sample_copy_args(2) [simplified] usize_of_i32_def)
qed

end
