(* ===== verification/Digest.thy ===== *)
theory Digest
  imports Pointers Libm
begin

text \<open>
  Checksums and digests (\<open>src/stdlib/digest.rs\<close>).  The hash functions are those of other crates, the field \<open>lb_digest\<close> of
  the libraries \<open>M\<close>; the cyclic redundancy check is the code's own.
\<close>

section \<open>CRC-16\<close>

definition crc_shift :: "16 word \<Rightarrow> 16 word" where
  "crc_shift crc = (if crc AND 0x8000 \<noteq> 0 then push_bit 1 crc XOR 0x1021 else push_bit 1 crc)"

definition crc_byte :: "16 word \<Rightarrow> u8 \<Rightarrow> 16 word" where
  "crc_byte crc b = (crc_shift ^^ 8) (crc XOR push_bit 8 (ucast b))"

definition crc16_ccitt :: "bytes \<Rightarrow> bool \<Rightarrow> 16 word" where
  "crc16_ccitt data lowercase = foldl crc_byte 0xFFFF (map (if lowercase then ascii_lower else id) data)"

section \<open>Digests\<close>

definition digest_algs :: "(bytes \<times> digest_alg) list" where
  "digest_algs =
     map (map_prod ascii id)
       [(''MD4'', MD4), (''MD5'', MD5), (''SHA1'', SHA1), (''SHA2-224'', SHA224), (''SHA224'', SHA224),
        (''SHA2-256'', SHA256), (''SHA256'', SHA256), (''SHA2-384'', SHA384), (''SHA384'', SHA384),
        (''SHA2-512'', SHA512), (''SHA512'', SHA512)]"

definition digest :: "libs \<Rightarrow> bytes \<Rightarrow> bytes \<Rightarrow> bytes option" where
  "digest M alg data =
     (case (if lb_digests M then map_of digest_algs alg else None) of
        Some a \<Rightarrow> Some (lb_digest M a data)
      | None \<Rightarrow> if alg = ascii ''CRC16'' then Some (le_bytes 2 (crc16_ccitt data False)) else None)"

definition hex_of :: "bytes \<Rightarrow> bytes" where
  "hex_of bs = concat (map (\<lambda>b. [Charset.hex_digit (ucast (drop_bit 4 b)), Charset.hex_digit (ucast (b AND 15))]) bs)"

definition ret_digest :: "libs \<Rightarrow> bytes \<Rightarrow> bytes \<Rightarrow> builtin" where
  "ret_digest M alg data c =
     (case digest M alg data of Some d \<Rightarrow> ret_str (hex_of d) c | None \<Rightarrow> ok (ret_word 0 c))"

definition crc16 :: builtin where
  "crc16 c = ok (ret_word (f32_of_int (uint (crc16_ccitt (args_concat c 1) (arg_int c 0 \<noteq> 0)))) c)"

definition digest_hex :: "libs \<Rightarrow> builtin" where
  "digest_hex M c = ret_digest M (arg_str c 0) (args_concat c 1) c"

definition read_block :: "score \<Rightarrow> u32 \<Rightarrow> u32 \<Rightarrow> nat \<Rightarrow> bytes option" where
  "read_block c base offset len =
     (case those_bytes (c_mem c) (base + offset) [0..<len] of
        Some bs \<Rightarrow> Some bs
      | None \<Rightarrow>
          Option.bind (case classify base of
                         Temp slot \<Rightarrow> temp_raw (c_strings c) slot
                       | Static index \<Rightarrow> static_str (c_strings c) index
                       | Linear _ \<Rightarrow> None)
            (\<lambda>data. slice data (unat offset) (unat offset + len)))"

definition digest_ptr :: "libs \<Rightarrow> builtin" where
  "digest_ptr M c =
     (let base = arg_word c 1; offset = (if 3 < argc c then arg_word c 3 else 0)
      in case Option.bind (usize_of_i32 (arg_word c 2)) (read_block c base offset) of
           None \<Rightarrow> (c, Some (BuiltinError ''digest_ptr: invalid pointer''))
         | Some data \<Rightarrow> ret_digest M (arg_str c 0) data c)"

lemma tame_digests:
  "tame c (fst (crc16 c))" "tame c (fst (digest_hex M c))" "tame c (fst (digest_ptr M c))"
proof -
  have "tame c (fst (ret_digest M alg data c))" for alg data
    by (simp add: ret_digest_def tame_intros split: option.split)
  then show "tame c (fst (crc16 c))" "tame c (fst (digest_hex M c))" "tame c (fst (digest_ptr M c))"
    by (simp_all add: crc16_def digest_hex_def digest_ptr_def Let_def tame_intros split: option.split)
qed

section \<open>What the check detects\<close>

text \<open>One step is linear and has no kernel, so it forgets nothing.\<close>

lemma xor_cancel: "s XOR a = s XOR b \<longleftrightarrow> a = (b :: 'a :: len word)"
  by (metis xor.assoc xor.left_neutral xor_self_eq)

lemma crc_shift_bit:
  "bit (crc_shift c) n \<longleftrightarrow>
     n < 16 \<and> ((0 < n \<and> bit c (n - 1)) \<noteq> (bit c 15 \<and> n \<in> {0, 5, 12}))"
proof -
  have high: "c AND 0x8000 \<noteq> 0 \<longleftrightarrow> bit c 15" using bit_iff_and_push_bit_not_eq_0 [of c 15] by simp
  have "(0x1021 :: 16 word) = push_bit 12 1 OR push_bit 5 1 OR push_bit 0 1" by simp
  then have poly: "bit (0x1021 :: 16 word) n \<longleftrightarrow> n \<in> {0, 5, 12}" by (simp only: bit_or_iff bit_push_bit_iff bit_1_iff) auto
  have push: "bit (push_bit 1 c) n \<longleftrightarrow> n < 16 \<and> 0 < n \<and> bit c (n - 1)"
    by (simp only: bit_push_bit_iff) (auto simp: Suc_le_eq dest: bit_imp_le_length)
  show ?thesis
    unfolding crc_shift_def high by (cases "bit c 15") (simp_all only: simp_thms if_True if_False bit_xor_iff push poly, auto)
qed

lemma crc_shift_xor: "crc_shift (a XOR b) = crc_shift a XOR crc_shift b"
  by (rule bit_word_eqI) (auto simp: crc_shift_bit bit_xor_iff)

lemma crc_shifts_xor: "(crc_shift ^^ k) (a XOR b) = (crc_shift ^^ k) a XOR (crc_shift ^^ k) b"
  by (induction k) (simp_all add: crc_shift_xor)

lemma crc_shift_0: "crc_shift c = 0 \<Longrightarrow> c = 0"
proof -
  assume "crc_shift c = 0"
  then have z: "\<not> bit (crc_shift c) n" for n by simp
  have top: "\<not> bit c 15" using z [of 0] by (simp add: crc_shift_bit)
  have "\<not> bit c n" if "n < 16" for n
  proof (cases "n = 15")
    case False
    then show ?thesis using z [of "Suc n"] that top by (simp add: crc_shift_bit)
  qed (use top in simp)
  then show ?thesis by (intro bit_word_eqI) auto
qed

lemma crc_shifts_inj: "(crc_shift ^^ k) a = (crc_shift ^^ k) b \<Longrightarrow> a = b"
proof (induction k)
  case (Suc k)
  then have "crc_shift ((crc_shift ^^ k) a XOR (crc_shift ^^ k) b) = 0" by (simp add: crc_shift_xor)
  then have "(crc_shift ^^ k) a XOR (crc_shift ^^ k) b = (crc_shift ^^ k) a XOR (crc_shift ^^ k) a"
    by (metis crc_shift_0 xor_self_eq)
  then show ?case using Suc.IH by (simp only: xor_cancel)
qed simp

lemma crc_bytes_inj: "foldl crc_byte s w = foldl crc_byte t w \<Longrightarrow> s = t"
proof (induction w arbitrary: s t)
  case (Cons x w)
  then have "crc_byte s x = crc_byte t x" by simp
  then show ?case by (metis crc_byte_def crc_shifts_inj xor.commute xor_cancel)
qed simp

text \<open>Two bytes are fed in as one word: the second is not touched by the first eight steps.\<close>

lemma low_byte_shifted:
  fixes x :: u8
  assumes "k \<le> 8"
  shows "(crc_shift ^^ k) (ucast x) = push_bit k (ucast x :: 16 word)"
  using assms
proof (induction k)
  case (Suc k)
  then have ih: "(crc_shift ^^ k) (ucast x) = push_bit k (ucast x :: 16 word)" by simp
  have "\<not> bit (push_bit k (ucast x :: 16 word)) 15"
    using Suc(2) by (auto simp: bit_push_bit_iff bit_ucast_iff dest: bit_imp_le_length)
  then show ?case
    using Suc(2) by (intro bit_word_eqI) (auto simp: ih crc_shift_bit bit_push_bit_iff simp del: push_bit_Suc)
qed simp

lemma crc_two_bytes:
  "foldl crc_byte s [x, y] = (crc_shift ^^ 16) (s XOR push_bit 8 (ucast x) XOR ucast y)"
proof -
  have "(crc_shift ^^ 16) z = (crc_shift ^^ 8) ((crc_shift ^^ 8) z)" for z :: "16 word"
    using funpow_add [of 8 8 crc_shift] by simp
  then show ?thesis
    by (simp add: crc_byte_def crc_shifts_xor low_byte_shifted xor.assoc)
qed

lemma two_bytes_inj: "push_bit 8 (ucast x) XOR ucast y = (push_bit 8 (ucast x') XOR ucast y' :: 16 word) \<Longrightarrow> x = x' \<and> y = y'"
  for x y x' y' :: u8
proof -
  assume eq: "push_bit 8 (ucast x) XOR ucast y = (push_bit 8 (ucast x') XOR ucast y' :: 16 word)"
  have b: "bit (push_bit 8 (ucast x) XOR ucast y :: 16 word) n \<longleftrightarrow> (if n < 8 then bit y n else n < 16 \<and> bit x (n - 8))" for x y :: u8 and n
    by (auto simp: bit_xor_iff bit_push_bit_iff bit_ucast_iff dest: bit_imp_le_length)
  have "bit y n = bit y' n" if "n < 8" for n using b [of x y n] b [of x' y' n] that eq by simp
  moreover have "bit x n = bit x' n" if "n < 8" for n using b [of x y "n + 8"] b [of x' y' "n + 8"] that eq by simp
  ultimately show ?thesis by (auto intro!: bit_word_eqI)
qed

text \<open>C35: damage to one byte, or to two bytes in a row, anywhere in a text always changes its checksum.\<close>

theorem crc16_detects:
  assumes "length x = length y" "length x \<le> 2" "x \<noteq> y"
  shows "crc16_ccitt (u @ x @ w) False \<noteq> crc16_ccitt (u @ y @ w) False"
proof
  assume "crc16_ccitt (u @ x @ w) False = crc16_ccitt (u @ y @ w) False"
  then have eq: "foldl crc_byte (foldl crc_byte 0xFFFF u) x = foldl crc_byte (foldl crc_byte 0xFFFF u) y"
    by (auto simp: crc16_ccitt_def intro: crc_bytes_inj)
  consider a b where "x = [a]" "y = [b]" | a b a' b' where "x = [a, b]" "y = [a', b']"
    using assms by (cases x; cases y; cases "tl x"; cases "tl y") auto
  then show False
  proof cases
    case 1
    then have "push_bit 8 (ucast a) XOR ucast (0 :: u8) = (push_bit 8 (ucast b) XOR ucast (0 :: u8) :: 16 word)"
      using eq by (auto simp: crc_byte_def xor_cancel dest!: crc_shifts_inj)
    then show False using two_bytes_inj assms(3) 1 by blast
  next
    case 2
    then have "push_bit 8 (ucast a) XOR ucast b = (push_bit 8 (ucast a') XOR ucast b' :: 16 word)"
      using eq unfolding 2 crc_two_bytes by (auto dest!: crc_shifts_inj simp: xor.assoc xor_cancel)
    then show False using two_bytes_inj assms(3) 2 by blast
  qed
qed

theorem crc16_detects_witness:
  "crc16_ccitt (ascii ''quake '' @ ascii ''id'' @ ascii ''1'') False \<noteq> crc16_ccitt (ascii ''quake '' @ ascii ''di'' @ ascii ''1'') False"
  by (rule crc16_detects) (simp_all add: ascii_def)

end
