(* ===== verification/InfoStr.thy ===== *)
theory InfoStr
  imports TextNum Tokenize
begin

text \<open>
  Info strings, \<open>\key\value\key\value\<close> (\<open>src/stdlib/string.rs\<close>): looking a key up, removing it and setting it within the
  size limits.  Such a string is an association list, and the operations are those of association lists.
\<close>

section \<open>Operations\<close>

definition INFO_FIELD_MAX :: nat where "INFO_FIELD_MAX = 1022"
definition INFO_MAX :: nat where "INFO_MAX = 4096"
definition INFO_PAIR_MAX :: nat where "INFO_PAIR_MAX = 1023"
definition INFO_KEY_MAX :: nat where "INFO_KEY_MAX = 256"

abbreviation no_slash :: "u8 \<Rightarrow> bool" where
  "no_slash c \<equiv> c \<noteq> 0x5C"

function info_get_from :: "bytes \<Rightarrow> bytes \<Rightarrow> bytes" where
  "info_get_from rest key =
     (let pkey = takeWhile no_slash rest
      in if length rest \<le> length pkey \<or> INFO_FIELD_MAX \<le> length pkey then []
         else let rest1 = drop (length pkey + 1) rest; val = takeWhile no_slash rest1
              in if INFO_FIELD_MAX \<le> length val then []
                 else if pkey = key then val
                 else if length rest1 \<le> length val then []
                 else info_get_from (drop (length val + 1) rest1) key)"
  by pat_completeness auto
termination
  by (relation "measure (\<lambda>(rest, key). length rest)") auto

declare info_get_from.simps [simp del]

definition skip_slash :: "bytes \<Rightarrow> bytes" where
  "skip_slash s = (if s \<noteq> [] \<and> hd s = 0x5C then tl s else s)"

definition info_get :: "bytes \<Rightarrow> bytes \<Rightarrow> bytes" where
  "info_get info key = info_get_from (skip_slash info) key"

function info_remove_from :: "bytes \<Rightarrow> bytes \<Rightarrow> nat \<Rightarrow> bytes" where
  "info_remove_from info key start =
     (let p = (if nth_opt info start = Some 0x5C then start + 1 else start);
          tail = drop p info; k = length (takeWhile no_slash tail)
      in if length tail \<le> k then info
         else let p = p + k + 1; e = p + length (takeWhile no_slash (drop p info))
              in if take k tail = key then take start info @ drop e info
                 else if length info \<le> e then info
                 else info_remove_from info key e)"
  by pat_completeness auto
termination
  by (relation "measure (\<lambda>(info, key, start). length info - start)") (auto simp: Let_def split: if_splits)

declare info_remove_from.simps [simp del]

definition info_remove :: "bytes \<Rightarrow> bytes \<Rightarrow> bytes" where
  "info_remove info key = info_remove_from info key 0"

lemma rest_at_slash:
  assumes "\<not> length rest \<le> length (takeWhile no_slash rest)"
  shows "nth_opt rest (length (takeWhile no_slash rest)) = Some 0x5C"
  using assms nth_length_takeWhile [of no_slash rest] by (auto simp: nth_opt_def)

lemma skip_slash_drop: "skip_slash (drop i s) = drop (if nth_opt s i = Some 0x5C then i + 1 else i) s"
  by (cases "i < length s") (auto simp: skip_slash_def nth_opt_def hd_drop_conv_nth tl_drop drop_Suc)

lemma info_remove_shortens:
  "info_get_from (skip_slash (drop start info)) key \<noteq> [] \<Longrightarrow> length (info_remove_from info key start) < length info"
proof (induction info key start rule: info_remove_from.induct)
  case (1 info key start)
  define p where "p = (if nth_opt info start = Some 0x5C then start + 1 else start)"
  define k where "k = length (takeWhile no_slash (drop p info))"
  define q where "q = p + k + 1"
  define e where "e = q + length (takeWhile no_slash (drop q info))"
  have rest: "skip_slash (drop start info) = drop p info" by (simp add: skip_slash_drop p_def)
  have key: "take k (drop p info) = takeWhile no_slash (drop p info)" unfolding k_def by (metis takeWhile_eq_take)
  have tail: "drop (k + 1) (drop p info) = drop q info" by (simp add: q_def add_ac)
  have step: "info_remove_from info key start =
      (if length (drop p info) \<le> k then info
       else if take k (drop p info) = key then take start info @ drop e info
       else if length info \<le> e then info else info_remove_from info key e)"
    by (subst info_remove_from.simps) (simp only: Let_def p_def [symmetric] k_def [symmetric] q_def [symmetric] e_def [symmetric])
  have found: "info_get_from (drop p info) key \<noteq> []" using 1(2) rest by simp
  have k: "\<not> length (drop p info) \<le> k"
    using found by (subst (asm) info_get_from.simps) (auto simp: Let_def k_def split: if_splits)
  then have e: "start < e" "e \<le> length info"
    using length_takeWhile_le [of no_slash "drop q info"] by (auto simp: e_def q_def p_def split: if_splits)
  show ?case
  proof (cases "take k (drop p info) = key")
    case True
    then show ?thesis using step k e by simp
  next
    case False
    have more: "\<not> length info \<le> e" and g: "info_get_from (drop (e + 1) info) key \<noteq> []"
      using found k False unfolding key
      by (subst (asm) (1) info_get_from.simps, auto simp: Let_def k_def [symmetric] e_def q_def add_ac split: if_splits)+
    have "nth_opt (drop q info) (e - q) = Some 0x5C"
      using rest_at_slash [of "drop q info"] more by (simp add: e_def)
    then have "nth_opt info e = Some 0x5C" by (auto simp: nth_opt_def e_def split: if_splits)
    then have "info_get_from (skip_slash (drop e info)) key \<noteq> []" using g by (simp add: skip_slash_drop)
    then have "length (info_remove_from info key e) < length info"
      using 1(1) [OF refl refl refl] k False more 
      \<open>info_get_from (skip_slash (drop e info)) key \<noteq> []\<close> unfolding p_def [symmetric] k_def [symmetric] by (simp add: q_def e_def)
    then show ?thesis using step k False more by simp
  qed
qed

definition VER_KEY :: bytes where "VER_KEY = ascii ''*ver''"

function info_room :: "bytes \<Rightarrow> bytes \<Rightarrow> bytes \<Rightarrow> bytes \<times> bool" where
  "info_room s key val =
     (let old = info_get s key; needed = length val + length s + 1 - length old
      in if old \<noteq> [] \<and> INFO_MAX < needed
         then if info_get s VER_KEY \<noteq> [] then info_room (info_remove s VER_KEY) key val else (s, False)
         else (s, True))"
  by pat_completeness auto
termination
proof (relation "measure (\<lambda>(s, key, val). length s)")
  fix s assume "info_get s VER_KEY \<noteq> []"
  then show "((info_remove s VER_KEY, key, val), s, key, val) \<in> measure (\<lambda>(s, key, val). length s)" for key val
    using info_remove_shortens [of 0 s VER_KEY] by (simp add: info_get_def info_remove_def)
qed simp

declare info_room.simps [simp del]

definition info_set :: "bytes \<Rightarrow> bytes \<Rightarrow> bytes \<Rightarrow> bytes \<times> string option" where
  "info_set info key val =
     (let original = take (INFO_MAX - 1) info; has = (\<lambda>c. c \<in> set key \<or> c \<in> set val)
      in if has 0x5C then (original, Some (''infoadd: keys and values can'' @ CHR 0x27 # ''t contain a '' @ [CHR 0x5C]))
         else if has 0x22 then (original, Some (''infoadd: keys and values can'' @ CHR 0x27 # ''t contain a '' @ [CHR 0x22]))
         else if INFO_KEY_MAX \<le> length key then (original, Some ''infoadd: keys must be shorter than 256 characters'')
         else case info_room original key val of
                (s, False) \<Rightarrow> (s, Some ''infoadd: info string length exceeded'')
              | (s, True) \<Rightarrow>
                  let s = info_remove s key; pair = take INFO_PAIR_MAX (0x5C # key @ 0x5C # val)
                  in if val = [] then (s, None)
                     else if INFO_MAX < length pair + length s + 1
                     then (original, Some ''infoadd: info string length exceeded'')
                     else (s @ filter (\<lambda>c. 13 < c) pair, None))"

definition infoadd :: builtin where
  "infoadd c =
     (case info_set (arg_str c 0) (arg_str c 1) (args_concat c 2) of
        (out, w) \<Rightarrow> ret_str out (case w of Some msg \<Rightarrow> vm_warn msg c | None \<Rightarrow> c))"

definition infoget :: builtin where
  "infoget c = ret_str (info_get (arg_str c 0) (arg_str c 1)) c"

lemma tame_info: "tame c (fst (infoadd c))" "tame c (fst (infoget c))"
  by (auto simp: infoadd_def infoget_def intro: tame_intros tame_trans [OF tame_warn(2) tame_ret_str] split: prod.split option.split)

section \<open>Info strings are association lists\<close>

definition render :: "(bytes \<times> bytes) list \<Rightarrow> bytes" where
  "render ps = concat (map (\<lambda>(k, v). 0x5C # k @ 0x5C # v) ps)"

definition info_ok :: "(bytes \<times> bytes) list \<Rightarrow> bool" where
  "info_ok ps \<longleftrightarrow>
     (\<forall>(k, v) \<in> set ps. 0x5C \<notin> set k \<and> 0x5C \<notin> set v \<and> length k < INFO_FIELD_MAX \<and> length v < INFO_FIELD_MAX)"

primrec drop_key :: "bytes \<Rightarrow> (bytes \<times> bytes) list \<Rightarrow> (bytes \<times> bytes) list" where
  "drop_key key [] = []"
| "drop_key key (p # ps) = (if fst p = key then ps else p # drop_key key ps)"

lemma render_simps [simp]:
  "render [] = []" "render ((k, v) # ps) = 0x5C # k @ 0x5C # v @ render ps" "render (ps @ qs) = render ps @ render qs"
  by (simp_all add: render_def)

lemma render_empty: "render ps = [] \<longleftrightarrow> ps = []"
  by (cases ps) (auto simp: render_def)

lemma fields_read:
  assumes "0x5C \<notin> set k" "0x5C \<notin> set v"
  shows "takeWhile no_slash (k @ 0x5C # r) = k" "takeWhile no_slash (v @ render ps) = v"
proof -
  show "takeWhile no_slash (k @ 0x5C # r) = k" using assms by (induction k) auto
  have "takeWhile no_slash (render ps) = []" by (cases ps) (auto simp: render_def)
  then show "takeWhile no_slash (v @ render ps) = v" using assms by (induction v) auto
qed

lemma info_get_rendered: "info_ok ps \<Longrightarrow> info_get_from (tl (render ps)) key = the_default [] (map_of ps key)"
proof (induction ps)
  case Nil
  then show ?case by (simp add: info_get_from.simps)
next
  case (Cons p ps)
  obtain k v where p: "p = (k, v)" by (cases p)
  have ok: "0x5C \<notin> set k" "0x5C \<notin> set v" "length k < INFO_FIELD_MAX" "length v < INFO_FIELD_MAX" "info_ok ps"
    using Cons(2) by (auto simp: info_ok_def p)
  have d: "drop (Suc (length v)) (v @ render ps) = tl (render ps)" by (cases "render ps") auto
  have "info_get_from (tl (render (p # ps))) key =
      (if k = key then v else if render ps = [] then [] else info_get_from (tl (render ps)) key)"
    using ok by (subst info_get_from.simps) (simp add: p Let_def fields_read d drop_Suc)
  then show ?case using Cons(1) [OF ok(5)] by (auto simp: p render_empty)
qed

lemma info_remove_rendered:
  "info_ok ps \<Longrightarrow> info_remove_from (pre @ render ps) key (length pre) = pre @ render (drop_key key ps)"
proof (induction ps arbitrary: pre)
  case Nil
  then show ?case by (subst info_remove_from.simps) (simp add: Let_def nth_opt_def)
next
  case (Cons p ps)
  obtain k v where p: "p = (k, v)" by (cases p)
  have ok: "0x5C \<notin> set k" "0x5C \<notin> set v" "info_ok ps" using Cons(2) by (auto simp: info_ok_def p)
  let ?pre = "pre @ 0x5C # k @ 0x5C # v"
  have "info_remove_from (pre @ render (p # ps)) key (length pre) =
      (if k = key then pre @ render ps else if render ps = [] then pre @ render (p # ps)
       else info_remove_from (?pre @ render ps) key (length ?pre))"
    using ok by (subst info_remove_from.simps) (simp add: p Let_def nth_opt_def fields_read add.assoc)
  then show ?case using Cons(1) [OF ok(3), of ?pre] by (auto simp: p render_empty)
qed

lemma drop_key_length:
  "map_of ps key = Some old \<Longrightarrow> length (render ps) = length (render (drop_key key ps)) + length key + length old + 2"
  by (induction ps) (auto split: if_splits)

lemma drop_key_absent: "map_of ps key = None \<Longrightarrow> drop_key key ps = ps"
  by (induction ps) (auto split: if_splits)

lemma info_get_render: "info_ok ps \<Longrightarrow> info_get (render ps) key = the_default [] (map_of ps key)"
proof -
  have "skip_slash (render ps) = tl (render ps)" by (cases ps) (auto simp: skip_slash_def render_def)
  then show "info_ok ps \<Longrightarrow> ?thesis" by (simp add: info_get_def info_get_rendered)
qed

lemma info_remove_render: "info_ok ps \<Longrightarrow> info_remove (render ps) key = render (drop_key key ps)"
  using info_remove_rendered [of ps "[]" key] by (simp add: info_remove_def)

lemma info_room_enough:
  assumes "info_ok ps" "length (render (drop_key key ps @ [(key, val)])) < INFO_MAX"
  shows "info_room (render ps) key val = (render ps, True)"
proof -
  let ?old = "the_default [] (map_of ps key)"
  have "?old = [] \<or> length val + length (render ps) + 1 - length ?old \<le> INFO_MAX"
    using assms(2) by (cases "map_of ps key") (auto dest: drop_key_length)
  then show ?thesis by (subst info_room.simps) (auto simp: info_get_render [OF assms(1)] Let_def)
qed

text \<open>C37: an info string is an association list: setting a key (within the limits, without the characters that are not
  allowed) removes its first pair and appends the new one, and looking a key up finds its first value.\<close>

theorem info_strings_are_lists:
  assumes "info_ok ps" "length (render ps) < INFO_MAX" "length (render (drop_key key ps @ [(key, val)])) < INFO_MAX"
    and "\<forall>c \<in> set key \<union> set val. c \<noteq> 0x5C \<and> c \<noteq> 0x22 \<and> 13 < c" "val \<noteq> []"
    and "length key < INFO_KEY_MAX" "length key + length val + 2 \<le> INFO_PAIR_MAX"
  shows "info_set (render ps) key val = (render (drop_key key ps @ [(key, val)]), None) \<and>
    info_get (render (drop_key key ps @ [(key, val)])) k = the_default [] (map_of (drop_key key ps @ [(key, val)]) k)"
proof -
  have "info_ok (drop_key key ps)" using assms(1) unfolding info_ok_def by (induction ps) auto
  then have ok: "info_ok (drop_key key ps @ [(key, val)])"
    using assms(4,6,7) by (auto simp: info_ok_def INFO_FIELD_MAX_def INFO_KEY_MAX_def INFO_PAIR_MAX_def)
  have kept: "filter ((<) 13) key = key" "filter ((<) 13) val = val" using assms(4) by (auto simp: filter_id_conv)
  have "take (INFO_MAX - 1) (render ps) = render ps" using assms(2) by simp
  then have "info_set (render ps) key val = (render (drop_key key ps @ [(key, val)]), None)"
    using assms(3-7) info_room_enough [OF assms(1,3)] kept
    by (auto simp: info_set_def Let_def info_remove_render [OF assms(1)])
  then show ?thesis using info_get_render [OF ok] by simp
qed

theorem info_strings_are_lists_witness:
  "info_set (render [([0x61], [0x31]), ([0x62], [0x32])]) [0x61] [0x33] = (render [([0x62], [0x32]), ([0x61], [0x33])], None)"
  using info_strings_are_lists [of "[([0x61], [0x31]), ([0x62], [0x32])]" "[0x61]" "[0x33]" "[]"]
  by (simp add: info_ok_def INFO_FIELD_MAX_def INFO_MAX_def INFO_KEY_MAX_def INFO_PAIR_MAX_def)

text \<open>C40: a change that is rejected because the value is too long does not always leave the string unchanged: to make room
  the version was dropped first, and it stays dropped.\<close>

theorem rejected_value_drops_version:
  "info_set (render [(VER_KEY, [0x31]), ([0x61], [0x62])]) [0x61] (replicate 5000 0x31) =
     (render [([0x61], [0x62])], Some ''infoadd: info string length exceeded'')"
proof -
  let ?ps = "[(VER_KEY, [0x31]), ([0x61], [0x62])] :: (bytes \<times> bytes) list" and ?qs = "[([0x61], [0x62])] :: (bytes \<times> bytes) list"
  have ok: "info_ok ?ps" "info_ok ?qs" by (auto simp: info_ok_def INFO_FIELD_MAX_def VER_KEY_def ascii_def)
  have ver: "VER_KEY \<noteq> [0x61]" by (simp add: VER_KEY_def ascii_def)
  have len: "length (render ?ps) < 4095" by (simp add: VER_KEY_def ascii_def)
  have "info_room (render ?qs) [0x61] (replicate 5000 0x31) = (render ?qs, False)"
    by (subst info_room.simps) (use ver in \<open>simp add: info_get_render [OF ok(2)] Let_def INFO_MAX_def del: render_simps\<close>)
  moreover have "info_room (render ?ps) [0x61] (replicate 5000 0x31) = info_room (render ?qs) [0x61] (replicate 5000 0x31)"
    by (subst info_room.simps)
      (use ver in \<open>simp add: info_get_render [OF ok(1)] info_remove_render [OF ok(1)] Let_def INFO_MAX_def del: render_simps\<close>)
  moreover have "take (INFO_MAX - 1) (render ?ps) = render ?ps" using len by (simp add: INFO_MAX_def)
  ultimately show ?thesis
    by (simp add: info_set_def Let_def INFO_KEY_MAX_def del: render_simps)
qed

end
