(* ===== verification/Search.thy ===== *)
theory Search
  imports TextNum "HOL-Library.Sublist"
begin

text \<open>
  Finding a string in another (\<open>find\<close> of \<open>src/stdlib/string.rs\<close>): by comparing windows, or for long needles with the table
  of Knuth, Morris and Pratt.  The inner loop follows the table for as long as it must, so it is a partial function; that
  the table makes it end, and that the result is the first occurrence, is shown here.
\<close>

section \<open>The search\<close>

definition fail_of :: "nat list \<Rightarrow> nat \<Rightarrow> nat" where
  "fail_of tbl k = the_default 0 (nth_opt tbl (k - 1))"

partial_function (option) kmp_back :: "bytes \<Rightarrow> nat list \<Rightarrow> u8 \<Rightarrow> nat \<Rightarrow> nat option" where
  "kmp_back n tbl c k =
     (if 0 < k \<and> nth_opt n k \<noteq> Some c then kmp_back n tbl c (fail_of tbl k) else Some k)"

definition kmp_next :: "bytes \<Rightarrow> nat list \<Rightarrow> u8 \<Rightarrow> nat \<Rightarrow> nat option" where
  "kmp_next n tbl c k = map_option (\<lambda>k. if nth_opt n k = Some c then k + 1 else k) (kmp_back n tbl c k)"

primrec kmp_table :: "bytes \<Rightarrow> (nat \<times> u8) list \<Rightarrow> nat \<Rightarrow> nat list \<Rightarrow> nat list option" where
  "kmp_table n [] k tbl = Some tbl"
| "kmp_table n (x # xs) k tbl =
     (case x of (i, c) \<Rightarrow> Option.bind (kmp_next n tbl c k) (\<lambda>k. kmp_table n xs k (tbl[i := k])))"

primrec kmp_scan :: "bytes \<Rightarrow> nat list \<Rightarrow> (nat \<times> u8) list \<Rightarrow> nat \<Rightarrow> nat option option" where
  "kmp_scan n tbl [] k = Some None"
| "kmp_scan n tbl (x # xs) k =
     (case x of (i, c) \<Rightarrow>
        Option.bind (kmp_next n tbl c k) (\<lambda>k.
          if k = length n then Some (Some (i + 1 - k)) else kmp_scan n tbl xs k))"

definition window_search :: "bytes \<Rightarrow> bytes \<Rightarrow> nat option" where
  "window_search h n = List.find (\<lambda>i. take (length n) (drop i h) = n) [0..<length h + 1 - length n]"

definition find_sub :: "bytes \<Rightarrow> bytes \<Rightarrow> nat option option" where
  "find_sub h n =
     (if n = [] then Some (Some 0)
      else if length n \<le> 16 then Some (window_search h n)
      else Option.bind (kmp_table n (drop 1 (enumerate 0 n)) 0 (replicate (length n) 0))
             (\<lambda>tbl. kmp_scan n tbl (enumerate 0 h) 0))"

section \<open>Borders\<close>

text \<open>\<open>ends n k t\<close>: the first \<open>k\<close> bytes of the needle end the text \<open>t\<close>.\<close>

definition ends :: "bytes \<Rightarrow> nat \<Rightarrow> bytes \<Rightarrow> bool" where
  "ends n k t \<longleftrightarrow> k \<le> length n \<and> suffix (take k n) t"

definition longest :: "bytes \<Rightarrow> nat \<Rightarrow> bytes \<Rightarrow> bool" where
  "longest n k t \<longleftrightarrow> ends n k t \<and> (\<forall>j. ends n j t \<longrightarrow> j \<le> k)"

text \<open>The table up to \<open>m\<close>: the longest proper border of every prefix.\<close>

definition border_table :: "bytes \<Rightarrow> nat list \<Rightarrow> nat \<Rightarrow> bool" where
  "border_table n tbl m \<longleftrightarrow>
     (\<forall>k. 0 < k \<longrightarrow> k \<le> m \<longrightarrow> fail_of tbl k < k \<and> suffix (take (fail_of tbl k) n) (take k n) \<and>
        (\<forall>j. fail_of tbl k < j \<longrightarrow> j < k \<longrightarrow> \<not> suffix (take j n) (take k n)))"

lemma ends_length: "ends n k t \<Longrightarrow> k \<le> length t"
  by (auto simp: ends_def dest: suffix_length_le)

lemma ends_0 [simp]: "ends n 0 t"
  by (simp add: ends_def)

lemma ends_Suc: "k < length n \<Longrightarrow> ends n (Suc k) (t @ [c]) \<longleftrightarrow> ends n k t \<and> n ! k = c"
  by (auto simp: ends_def take_Suc_conv_app_nth)

lemma ends_shorter: "ends n k t \<Longrightarrow> j \<le> k \<Longrightarrow> ends n j t \<longleftrightarrow> suffix (take j n) (take k n)"
  by (auto simp: ends_def intro: suffix_length_suffix suffix_order.trans)

lemma longest_0: "longest n 0 []"
  by (auto simp: longest_def dest: ends_length)

section \<open>The table leads to the longest match\<close>

lemma kmp_back_longest:
  assumes "border_table n tbl k" "ends n k t" "k < length n"
    and "\<And>j. k < j \<Longrightarrow> j < length n \<Longrightarrow> n ! j = c \<Longrightarrow> \<not> ends n j t"
  shows "\<exists>r. kmp_back n tbl c k = Some r \<and> r < length n \<and> ends n r t \<and> (r = 0 \<or> n ! r = c) \<and>
    (\<forall>j. r < j \<longrightarrow> j < length n \<longrightarrow> n ! j = c \<longrightarrow> \<not> ends n j t)"
  using assms
proof (induction k rule: less_induct)
  case (less k)
  show ?case
  proof (cases "0 < k \<and> n ! k \<noteq> c")
    case True
    let ?f = "fail_of tbl k"
    have f: "?f < k" "suffix (take ?f n) (take k n)" "\<And>j. ?f < j \<Longrightarrow> j < k \<Longrightarrow> \<not> suffix (take j n) (take k n)"
      using less(2) True by (auto simp: border_table_def)
    have "\<exists>r. kmp_back n tbl c ?f = Some r \<and> r < length n \<and> ends n r t \<and> (r = 0 \<or> n ! r = c) \<and>
        (\<forall>j. r < j \<longrightarrow> j < length n \<longrightarrow> n ! j = c \<longrightarrow> \<not> ends n j t)"
    proof (rule less(1) [OF f(1)])
      show "border_table n tbl ?f" using less(2) f(1) by (simp add: border_table_def)
      show "ends n ?f t" using ends_shorter [OF less(3), of ?f] f by simp
      show "?f < length n" using f(1) less(4) by simp
      show "\<not> ends n j t" if "?f < j" "j < length n" "n ! j = c" for j
        using that True f(3) [of j] less(5) [of j] ends_shorter [OF less(3), of j] by (cases j k rule: linorder_cases) auto
    qed
    then show ?thesis using True less(4) by (subst kmp_back.simps) (simp add: nth_opt_def)
  next
    case False
    then show ?thesis using less by (subst kmp_back.simps) (auto simp: nth_opt_def)
  qed
qed

lemma kmp_next_longest:
  assumes "border_table n tbl k" "longest n k t" "k < length n"
  shows "\<exists>r. kmp_next n tbl c k = Some r \<and> longest n r (t @ [c])"
proof -
  obtain r where r: "kmp_back n tbl c k = Some r" "r < length n" "ends n r t" "r = 0 \<or> n ! r = c"
    and max: "\<And>j. r < j \<Longrightarrow> j < length n \<Longrightarrow> n ! j = c \<Longrightarrow> \<not> ends n j t"
    using kmp_back_longest [OF assms(1) _ assms(3), of t c] assms(2) unfolding longest_def by (meson not_le)
  have up: "j \<le> r" "n ! j = c" if "ends n (Suc j) (t @ [c])" for j
  proof -
    have j: "j < length n" using that by (simp add: ends_def)
    then show "n ! j = c" "j \<le> r" using that max [of j] by (auto simp: ends_Suc not_le [symmetric])
  qed
  show ?thesis
  proof (cases "n ! r = c")
    case True
    have "longest n (Suc r) (t @ [c])" unfolding longest_def
    proof (intro conjI allI impI)
      show "ends n (Suc r) (t @ [c])" using True r by (simp add: ends_Suc)
      show "j \<le> Suc r" if "ends n j (t @ [c])" for j using up(1) [of "j - 1"] that by (cases j) auto
    qed
    then show ?thesis using r True by (simp add: kmp_next_def nth_opt_def)
  next
    case False
    then have "r = 0" using r(4) by blast
    have "longest n 0 (t @ [c])" unfolding longest_def
    proof (intro conjI allI impI)
      show "j \<le> 0" if "ends n j (t @ [c])" for j
        using up [of "j - 1"] that False \<open>r = 0\<close> by (cases j) auto
    qed simp
    then show ?thesis using r False \<open>r = 0\<close> by (simp add: kmp_next_def nth_opt_def)
  qed
qed

lemma enumerate_drop: "i < length xs \<Longrightarrow> drop i (enumerate 0 xs) = (i, xs ! i) # drop (Suc i) (enumerate 0 xs)"
  by (simp add: Cons_nth_drop_Suc [symmetric] nth_enumerate_eq)

lemma border_table_extend:
  assumes "border_table n tbl i" "longest n r (drop 1 (take (Suc i) n))" "i < length n" "length tbl = length n"
  shows "border_table n (tbl[i := r]) (Suc i)"
  unfolding border_table_def
proof (intro allI impI)
  fix k assume k: "0 < k" "k \<le> Suc i"
  show "fail_of (tbl[i := r]) k < k \<and> suffix (take (fail_of (tbl[i := r]) k) n) (take k n) \<and>
      (\<forall>j. fail_of (tbl[i := r]) k < j \<longrightarrow> j < k \<longrightarrow> \<not> suffix (take j n) (take k n))"
  proof (cases "k = Suc i")
    case True
    have f: "fail_of (tbl[i := r]) k = r" using True assms(3,4) by (simp add: fail_of_def nth_opt_def)
    have e: "ends n r (drop 1 (take (Suc i) n))" using assms(2) by (simp add: longest_def)
    have "\<not> suffix (take j n) (take k n)" if "r < j" "j < k" for j
    proof
      assume "suffix (take j n) (take k n)"
      moreover have "length (take j n) \<le> length (drop 1 (take k n))" using that True assms(3) by simp
      ultimately have "suffix (take j n) (drop 1 (take k n))" by (meson suffix_drop suffix_length_suffix)
      then have "ends n j (drop 1 (take (Suc i) n))" using that assms(3) True by (simp add: ends_def)
      then show False using assms(2) that(1) by (auto simp: longest_def)
    qed
    moreover have "r < k" using ends_length [OF e] True assms(3) by simp
    moreover have "suffix (take r n) (take k n)"
      using e True suffix_drop suffix_order.trans unfolding ends_def by blast
    ultimately show ?thesis using f by simp
  next
    case False
    then have "fail_of (tbl[i := r]) k = fail_of tbl k" using k by (simp add: fail_of_def nth_opt_def)
    then show ?thesis using assms(1) k False by (simp add: border_table_def)
  qed
qed

lemma kmp_table_built:
  assumes "0 < i" "i \<le> length n" "longest n k (drop 1 (take i n))" "border_table n tbl i" "length tbl = length n"
  shows "\<exists>f. kmp_table n (drop i (enumerate 0 n)) k tbl = Some f \<and> border_table n f (length n)"
  using assms
proof (induction "length n - i" arbitrary: i k tbl)
  case 0
  then show ?case by simp
next
  case (Suc d)
  then have i: "i < length n" by simp
  have k: "k < i" using ends_length [of n k "drop 1 (take i n)"] Suc.prems(1,3) i by (simp add: longest_def)
  have bt: "border_table n tbl k" using Suc.prems(4) k by (simp add: border_table_def)
  obtain r where r: "kmp_next n tbl (n ! i) k = Some r" "longest n r (drop 1 (take i n) @ [n ! i])"
    using kmp_next_longest [OF bt Suc.prems(3)] k i by (meson less_trans)
  have "drop 1 (take i n) @ [n ! i] = drop 1 (take (Suc i) n)" using i Suc.prems(1) by (simp add: take_Suc_conv_app_nth)
  then have l: "longest n r (drop 1 (take (Suc i) n))" using r(2) by simp
  have d: "d = length n - Suc i" using Suc.hyps(2) by simp
  obtain f where "kmp_table n (drop (Suc i) (enumerate 0 n)) r (tbl[i := r]) = Some f" "border_table n f (length n)"
    using Suc.hyps(1) [OF d _ _ l border_table_extend [OF Suc.prems(4) l i Suc.prems(5)]] i Suc.prems(5) by auto
  then show ?case using r(1) by (simp add: enumerate_drop [OF i])
qed

section \<open>The first occurrence\<close>

lemma occurs_suffix: "i + length n \<le> length h \<Longrightarrow> suffix n (take (i + length n) h) \<longleftrightarrow> take (length n) (drop i h) = n"
  by (auto simp: take_add suffix_def)

lemma kmp_scan_finds:
  assumes "i \<le> length h" "longest n k (take i h)" "k < length n" "border_table n tbl (length n)"
    and "\<And>j. j \<le> i \<Longrightarrow> \<not> suffix n (take j h)"
  shows "\<exists>r. kmp_scan n tbl (drop i (enumerate 0 h)) k = Some r \<and>
    (case r of None \<Rightarrow> \<forall>j \<le> length h. \<not> suffix n (take j h)
     | Some p \<Rightarrow> p + length n \<le> length h \<and> suffix n (take (p + length n) h) \<and> (\<forall>j < p + length n. \<not> suffix n (take j h)))"
  using assms
proof (induction "length h - i" arbitrary: i k)
  case 0
  then show ?case by simp
next
  case (Suc d)
  then have i: "i < length h" by simp
  have bt: "border_table n tbl k" using Suc.prems(3,4) by (simp add: border_table_def)
  obtain r where r: "kmp_next n tbl (h ! i) k = Some r" "longest n r (take (Suc i) h)"
    using kmp_next_longest [OF bt Suc.prems(2,3), of "h ! i"] i by (auto simp: take_Suc_conv_app_nth)
  have len: "r \<le> length n" "r \<le> Suc i" using r(2) ends_length [of n r "take (Suc i) h"] i by (auto simp: longest_def ends_def)
  show ?case
  proof (cases "r = length n")
    case True
    then have "suffix n (take (Suc i) h)" using r(2) by (simp add: longest_def ends_def)
    then show ?thesis using r(1) True i len Suc.prems(5) by (simp add: enumerate_drop [OF i] less_Suc_eq_le)
  next
    case False
    have "\<not> suffix n (take (Suc i) h)"
      using r(2) False len(1) by (auto simp: longest_def ends_def dest: spec [where x = "length n"])
    then have "\<not> suffix n (take j h)" if "j \<le> Suc i" for j using Suc.prems(5) that by (cases "j = Suc i") auto
    then show ?thesis
      using Suc.hyps(1) [of "Suc i" r] Suc.hyps(2) r False len(1) i Suc.prems(4) by (simp add: enumerate_drop [OF i])
  qed
qed

lemma window_search_first:
  "window_search h n = (case r of None \<Rightarrow> None | Some p \<Rightarrow> Some p)"
  if "case r of None \<Rightarrow> \<forall>j \<le> length h. \<not> suffix n (take j h)
     | Some p \<Rightarrow> p + length n \<le> length h \<and> suffix n (take (p + length n) h) \<and> (\<forall>j < p + length n. \<not> suffix n (take j h))"
proof (cases r)
  case None
  then have "take (length n) (drop i h) \<noteq> n" if "i < length h + 1 - length n" for i
    using that \<open>case r of None \<Rightarrow> _ | Some p \<Rightarrow> _ p\<close> occurs_suffix [of i n h] by auto
  then show ?thesis using None by (auto simp: window_search_def find_None_iff)
next
  case (Some p)
  have p: "p + length n \<le> length h" "take (length n) (drop p h) = n"
    using that Some occurs_suffix [of p n h] by auto
  have "take (length n) (drop i h) \<noteq> n" if "i < p" for i
    using that Some \<open>case r of None \<Rightarrow> _ | Some p \<Rightarrow> _ p\<close> occurs_suffix [of i n h] p(1) by auto
  then have "window_search h n = Some p"
    unfolding window_search_def find_Some_iff using p by (intro exI [of _ p]) auto
  then show ?thesis using Some by simp
qed

lemma find_sub_search: "find_sub h n = Some (window_search h n)"
proof -
  consider "n = []" | "n \<noteq> []" "length n \<le> 16" | "16 < length n" by fastforce
  then show ?thesis
  proof cases
    case 1
    then show ?thesis by (simp add: find_sub_def window_search_def upt_conv_Cons del: upt_Suc)
  next
    case 3
    let ?z = "replicate (length n) (0 :: nat)"
    have t: "border_table n ?z 1" using 3 by (auto simp: border_table_def fail_of_def nth_opt_def)
    have "drop 1 (take 1 n) = []" by (cases n) auto
    then obtain f where f: "kmp_table n (drop 1 (enumerate 0 n)) 0 ?z = Some f" "border_table n f (length n)"
      using kmp_table_built [OF _ _ _ t, of 0] 3 longest_0 by auto
    have "\<not> suffix n (take 0 h)" using 3 by auto
    then obtain r where r: "kmp_scan n f (drop 0 (enumerate 0 h)) 0 = Some r"
      "case r of None \<Rightarrow> \<forall>j \<le> length h. \<not> suffix n (take j h)
       | Some p \<Rightarrow> p + length n \<le> length h \<and> suffix n (take (p + length n) h) \<and> (\<forall>j < p + length n. \<not> suffix n (take j h))"
      using kmp_scan_finds [of 0 h n 0 f] longest_0 [of n] f(2) 3 by auto
    show ?thesis using window_search_first [OF r(2)] f(1) r(1) 3 by (cases r) (auto simp: find_sub_def)
  qed (simp add: find_sub_def)
qed

text \<open>C36: the search for a substring always returns, and finds the first place where the needle occurs, whether it
  compares windows or uses the table.\<close>

theorem substring_search: "find_sub h n = Some (window_search h n)"
  by (rule find_sub_search)

end
