(* ===== verification/Loops.thy ===== *)
theory Loops
  imports Std
begin

text \<open>
  Standard builtins with a loop whose end has to be shown: partial functions, made actions of the registry.
\<close>

section \<open>Actions that may not return\<close>

text \<open>A builtin with a loop: \<open>None\<close> is never returning.\<close>

type_synonym loop_builtin = "score \<Rightarrow> (score \<times> error_kind option) option"

definition looping_builtin :: "loop_builtin \<Rightarrow> (std_state, 'h, unit) act" where
  "looping_builtin f = (\<lambda>(v, h).
     case f (v_core v) of None \<Rightarrow> None | Some r \<Rightarrow> pure_builtin (\<lambda>_. r) (v, h))"

section \<open>They return\<close>

text \<open>A loop that always ends obeys the engine like a builtin without one.\<close>

lemma looping_pure: "(\<And>c. f c \<noteq> None) \<Longrightarrow> looping_builtin f = pure_builtin (\<lambda>c. the (f c))"
proof (rule ext)
  fix w assume some: "\<And>c. f c \<noteq> None"
  show "looping_builtin f w = pure_builtin (\<lambda>c. the (f c)) w"
    using some [of "v_core (fst w)"] by (cases w) (auto simp: looping_builtin_def pure_builtin_def)
qed

lemma obeys_looping:
  assumes "\<And>c. f c \<noteq> None" "\<And>c r. f c = Some r \<Longrightarrow> tame c (fst r)"
  shows "obeys (looping_builtin f)"
  unfolding looping_pure [OF assms(1)]
proof (rule tame_obeys)
  show "tame c (fst (the (f c)))" for c using assms(1) [of c] assms(2) [of c] by auto
qed

end
