(* ===== verification/StrFns.thy ===== *)
theory StrFns
  imports Search Loops Charset Format
begin

text \<open>
  String builtins (\<open>src/stdlib/string.rs\<close>) but markup and info strings: lengths, parts, conversions, comparisons, case,
  percent encoding and lists of quoted strings.  Loops over an index that only grows keep the rest of the string instead.
\<close>

section \<open>Lengths and parts\<close>

definition i32_of_nat :: "nat \<Rightarrow> u32" where
  "i32_of_nat n = (if n < 2 ^ 31 then of_nat n else i32_max)"

abbreviation charset_of :: "score \<Rightarrow> charset" where
  "charset_of c \<equiv> g_charset (c_config c)"

definition byte_ofs :: "bytes \<Rightarrow> u32 \<Rightarrow> char_scheme \<Rightarrow> nat" where
  "byte_ofs s n scheme = (case usize_of_i32 n of Some n \<Rightarrow> byte_offset s n scheme | None \<Rightarrow> length s)"

definition text_length :: "charset \<Rightarrow> bytes \<Rightarrow> nat" where
  "text_length cs s = (if cs_utf8 cs then char_count s (cs_scheme cs) else length s)"

definition strlen :: builtin where
  "strlen c = ok (ret_word (f32_of_nat (text_length (charset_of c) (arg_str c 0))) c)"

definition memstrsize :: builtin where
  "memstrsize c = ok (ret_word (f32_of_nat (length (arg_str c 0))) c)"

definition strcat :: builtin where
  "strcat c =
     (let parts = map (arg_str c) [0..<min (argc c) 8]
      in if \<not> s_fits (c_strings c) (sum_list (map length parts)) then (c, Some (OutOfMemory TempStrings))
         else ret_str (concat parts) c)"

definition strunzone :: builtin where
  "strunzone c = ok c"

definition substring_of :: "charset \<Rightarrow> bytes \<Rightarrow> u32 \<Rightarrow> u32 \<Rightarrow> bytes" where
  "substring_of cs s start len =
     (let slen = i32_of_nat (text_length cs s);
          start = (if sint start < 0 then slen + start else start);
          len = (if sint len < 0 then slen - start + (len + 1) else len);
          start = (if sint start < 0 then 0 else start)
      in if sint slen \<le> sint start \<or> sint len \<le> 0 then []
         else let len = (if sint len \<le> sint (slen - start) then len else slen - start)
              in if cs_utf8 cs
                 then let from = byte_ofs s start (cs_scheme cs); rest = drop from s
                      in take (byte_ofs rest len (cs_scheme cs)) rest
                 else take (the_default 0 (usize_of_i32 len)) (drop (the_default 0 (usize_of_i32 start)) s))"

definition substring :: builtin where
  "substring c = ret_str (substring_of (charset_of c) (arg_str c 0) (arg_int c 1) (arg_int c 2)) c"

definition strstrofs :: loop_builtin where
  "strstrofs c =
     (let cs = charset_of c; s = arg_str c 0; sub = arg_str c 1; first = f2i (opt_f32 c 2 0);
          first = (if cs_utf8 cs then int (byte_ofs s first (cs_scheme cs)) else sint first);
          result = (\<lambda>w. ok (ret_word w c))
      in if first \<noteq> 0 \<and> (first < 0 \<or> int (length s) < first) then Some (result f32_neg_one)
         else map_option
                (\<lambda>r. result (case r of
                   None \<Rightarrow> f32_neg_one
                 | Some k \<Rightarrow> let at = nat first + k
                             in f32_of_nat (if cs_utf8 cs then char_offset s at (cs_scheme cs) else at)))
                (find_sub (drop (nat first) s) sub))"

definition str2chr :: builtin where
  "str2chr c =
     (let cs = charset_of c; s = arg_str c 0; ofs = f2i (opt_f32 c 1 0);
          ofs = (if cs_utf8 cs
                 then i32_of_nat (byte_ofs s (if sint ofs < 0 then i32_of_nat (char_count s (cs_scheme cs)) + ofs else ofs)
                        (cs_scheme cs))
                 else if sint ofs < 0 then i32_of_nat (length s) + ofs else ofs);
          r = (if ofs \<noteq> 0 \<and> (sint ofs < 0 \<or> sint (i32_of_nat (length s)) < sint ofs) then 0
               else case drop (the_default 0 (usize_of_i32 ofs)) s of
                      [] \<Rightarrow> 0
                    | b # r \<Rightarrow> if \<not> cs_utf8 cs then ucast b else fst (decode (b # r) (cs_scheme cs)))
      in ok (ret_word (f32_of_int (uint r)) c))"

definition until_zero :: "bytes \<Rightarrow> bytes" where
  "until_zero = takeWhile (\<lambda>b. b \<noteq> 0)"

definition chr_bytes :: "charset \<Rightarrow> u32 \<Rightarrow> bytes" where
  "chr_bytes cs ch =
     (if cs_utf8 cs \<or> 0xFF < sint ch then encode ch (cs_scheme cs) (0xFF < sint ch) else [ucast ch])"

definition chr2str :: builtin where
  "chr2str c =
     ret_str (until_zero (concat (map (\<lambda>i. chr_bytes (charset_of c) (f2i (arg_word c i))) [0..<min (argc c) 8]))) c"

section \<open>Conversions\<close>

definition TEMPBUF :: nat where "TEMPBUF = 4095"

definition conv_digit :: "u8 \<Rightarrow> u8 \<Rightarrow> int \<Rightarrow> u8" where
  "conv_digit b base mode =
     b - base + (if mode = 1 then 0x30 else if mode = 2 then 0xB0 else if mode = 3 then 0x12 else if mode = 4 then 0x92
                 else base)"

definition conv_alpha :: "u8 \<Rightarrow> u8 \<Rightarrow> u8 \<Rightarrow> int \<Rightarrow> int \<Rightarrow> nat \<Rightarrow> u8" where
  "conv_alpha b case_base colour_base ccase redalpha i =
     (let letter = b - case_base - colour_base;
          colour = (if redalpha = 1 then 0 else if redalpha = 2 then 0x80
                    else if redalpha = 5 \<and> even i then 0x80 else if redalpha = 6 \<and> odd i then 0x80
                    else if redalpha = 5 \<or> redalpha = 6 then 0 else colour_base);
          letters = (if ccase = 1 then 0x61 else if ccase = 2 then 0x41 else case_base)
      in letter + letters + colour)"

definition quake_char :: "int \<Rightarrow> int \<Rightarrow> int \<Rightarrow> nat \<times> u8 \<Rightarrow> u8" where
  "quake_char ccase redalpha rednum x =
     (case x of (i, b) \<Rightarrow>
        if 0x30 \<le> b \<and> b \<le> 0x39 then conv_digit b 0x30 rednum
        else if 0xB0 \<le> b \<and> b \<le> 0xB9 then conv_digit b 0xB0 rednum
        else if 0x92 \<le> b \<and> b \<le> 0x9B then conv_digit b 0x92 rednum
        else if 0x12 \<le> b \<and> b \<le> 0x1B then conv_digit b 0x12 rednum
        else if 0x61 \<le> b \<and> b \<le> 0x7A then conv_alpha b 0x61 0 ccase redalpha i
        else if 0x41 \<le> b \<and> b \<le> 0x5A then conv_alpha b 0x41 0 ccase redalpha i
        else if 0xE1 \<le> b \<and> b \<le> 0xFA then conv_alpha b 0x61 0x80 ccase redalpha i
        else if 0xC1 \<le> b \<and> b \<le> 0xDA then conv_alpha b 0x41 0x80 ccase redalpha i
        else if b AND 0x7F < 0x10 \<or> redalpha = 0 then b
        else if redalpha = 1 then b AND 0x7F else if redalpha = 2 then b OR 0x80 else b)"

definition convert_quake_chars :: "bytes \<Rightarrow> int \<Rightarrow> int \<Rightarrow> int \<Rightarrow> bytes" where
  "convert_quake_chars s ccase redalpha rednum =
     map (quake_char ccase redalpha rednum) (enumerate 0 (take TEMPBUF s))"

definition strconv :: builtin where
  "strconv c =
     ret_str (convert_quake_chars (args_concat c 3) (sint (arg_int c 0)) (sint (arg_int c 1)) (sint (arg_int c 2))) c"

definition padded_text :: "int \<Rightarrow> bytes \<Rightarrow> bytes" where
  "padded_text pad src =
     (if pad < 0
      then let spaces = nat (max 0 (min (int TEMPBUF) (- pad - int (length src))))
           in replicate spaces 0x20 @ take (TEMPBUF - spaces) src
      else take TEMPBUF src @ replicate (nat (min pad (int TEMPBUF) - int (length src))) 0x20)"

definition strpad :: builtin where
  "strpad c = ret_str (padded_text (sint (arg_int c 0)) (args_concat c 1)) c"

definition is_trimmed :: "u8 \<Rightarrow> bool" where
  "is_trimmed c \<longleftrightarrow> c \<in> {0x20, 0x09, 0x0A, 0x0D}"

definition strtrim :: builtin where
  "strtrim c = ret_str (rev (dropWhile is_trimmed (rev (dropWhile is_trimmed (arg_str c 0))))) c"

function replace_from :: "bytes \<Rightarrow> bytes \<Rightarrow> bool \<Rightarrow> bytes \<Rightarrow> bytes \<Rightarrow> bytes" where
  "replace_from search rep nocase here out =
     (if search = [] \<or> here = [] \<or> 4094 < length rep \<or> 4094 - length rep \<le> length out then out
      else let w = take (length search) here
           in if length search \<le> length here \<and> (if nocase then eq_ignore_case w search else w = search)
              then replace_from search rep nocase (drop (length search) here) (out @ rep)
              else replace_from search rep nocase (tl here) (out @ [hd here]))"
  by pat_completeness auto
termination by (relation "measure (\<lambda>(search, rep, nocase, here, out). length here)") (auto simp: neq_Nil_conv)

declare replace_from.simps [simp del]

definition replace_all :: "bytes \<Rightarrow> bytes \<Rightarrow> bytes \<Rightarrow> bool \<Rightarrow> bytes" where
  "replace_all search rep subject nocase = (if search = [] then subject else replace_from search rep nocase subject [])"

definition strreplace :: builtin where
  "strreplace c = ret_str (replace_all (arg_str c 0) (arg_str c 1) (arg_str c 2) False) c"

definition strireplace :: builtin where
  "strireplace c = ret_str (replace_all (arg_str c 0) (arg_str c 1) (arg_str c 2) True) c"

section \<open>Comparison\<close>

definition head_or_0 :: "bytes \<Rightarrow> u8" where
  "head_or_0 s = (case s of [] \<Rightarrow> 0 | b # _ \<Rightarrow> b)"

function c_strncmp :: "bool \<Rightarrow> nat \<Rightarrow> bytes \<Rightarrow> bytes \<Rightarrow> int" where
  "c_strncmp nocase n a b =
     (if n = 0 then 0
      else let x = head_or_0 a; y = head_or_0 b; x = (if nocase then ascii_lower x else x); y = (if nocase then ascii_lower y else y)
           in if x \<noteq> y \<or> x = 0 then int (unat x) - int (unat y) else c_strncmp nocase (n - 1) (tl a) (tl b))"
  by pat_completeness auto
termination
  by (relation "measure (\<lambda>(nocase, n, a, b). n)") auto

declare c_strncmp.simps [simp del]

definition c_compare :: "bytes \<Rightarrow> bytes \<Rightarrow> nat option \<Rightarrow> bool \<Rightarrow> int" where
  "c_compare a b n nocase = c_strncmp nocase (the_default (2 ^ 64 - 1) n) a b"

definition clamped :: "u32 \<Rightarrow> bytes \<Rightarrow> nat" where
  "clamped ofs s = (case usize_of_i32 ofs of Some n \<Rightarrow> if n \<le> length s then n else length s | None \<Rightarrow> length s)"

definition compare_window :: "score \<Rightarrow> bytes \<Rightarrow> bytes \<Rightarrow> nat \<times> nat \<times> nat option" where
  "compare_window c a b =
     (let cs = charset_of c; len = arg_int c 2; i = (if 3 < argc c then arg_int c 3 else 0);
          j = (if 4 < argc c then arg_int c 4 else 0)
      in if cs_utf8 cs
         then let i = (if i \<noteq> 0 then byte_ofs a i (cs_scheme cs) else 0);
                  j = (if j \<noteq> 0 then byte_ofs b j (cs_scheme cs) else 0)
              in (i, j, Some (max (byte_ofs (drop i a) len (cs_scheme cs)) (byte_ofs (drop j b) len (cs_scheme cs))))
         else (clamped i a, clamped j b, usize_of_i32 len))"

definition compared :: "bool \<Rightarrow> score \<Rightarrow> int" where
  "compared nocase c =
     (let a = arg_str c 0; b = arg_str c 1
      in if 2 < argc c
         then case compare_window c a b of (i, j, n) \<Rightarrow> c_compare (drop i a) (drop j b) n nocase
         else c_compare a b None nocase)"

definition strncmp :: builtin where
  "strncmp c = ok (ret_word (f32_of_int (compared False c)) c)"

definition strcasecmp :: builtin where
  "strcasecmp c = ok (ret_word (f32_of_int (sgn (compared True c))) c)"

section \<open>Case\<close>

definition CASE_MAX :: nat where "CASE_MAX = 8191"

definition ascii_upper :: "u8 \<Rightarrow> u8" where
  "ascii_upper c = (if 0x61 \<le> c \<and> c \<le> 0x7A then c - 32 else c)"

definition case_ascii :: "bool \<Rightarrow> u32 \<Rightarrow> u32" where
  "case_ascii upper ch =
     (if ch < 256 then ucast (if upper then ascii_upper (ucast ch) else ascii_lower (ucast ch)) else ch)"

definition case_char :: "bool \<Rightarrow> u32 \<Rightarrow> u32" where
  "case_char upper ch =
     (if 0xE020 \<le> ch \<and> ch \<le> 0xE07F then case_ascii upper (ch AND 0x7F) OR (ch AND 0xFF80) else case_ascii upper ch)"

text \<open>The output until the first piece that does not fit.\<close>

primrec capped :: "nat \<Rightarrow> bytes \<Rightarrow> bytes list \<Rightarrow> bytes" where
  "capped limit out [] = out"
| "capped limit out (p # ps) = (if limit < length out + length p then out else capped limit (out @ p) ps)"

definition change_case :: "bytes \<Rightarrow> char_scheme \<Rightarrow> bool \<Rightarrow> bytes" where
  "change_case s scheme upper =
     capped CASE_MAX [] (map (\<lambda>(_, ch, _). encode (case_char upper ch) scheme False) (chars s scheme))"

definition strtolower :: builtin where
  "strtolower c = ret_str (change_case (arg_str c 0) (cs_scheme (charset_of c)) False) c"

definition strtoupper :: builtin where
  "strtoupper c = ret_str (change_case (arg_str c 0) (cs_scheme (charset_of c)) True) c"

section \<open>Percent encoding\<close>

definition is_hex :: "u8 \<Rightarrow> bool" where
  "is_hex = is_digit_in 16"

definition hex_val :: "u8 \<Rightarrow> u32" where
  "hex_val c = (case digit_of_char c of Some d \<Rightarrow> if d < 16 then of_nat d else 0 | None \<Rightarrow> 0)"

definition unreserved :: "u8 \<Rightarrow> bool" where
  "unreserved c \<longleftrightarrow>
     0x30 \<le> c \<and> c \<le> 0x39 \<or> 0x41 \<le> c \<and> c \<le> 0x5A \<or> 0x61 \<le> c \<and> c \<le> 0x7A \<or> c \<in> {0x2E, 0x2D, 0x5F, 0x7E}"

definition uri_digit :: "u8 \<Rightarrow> u8" where
  "uri_digit v = (if v < 10 then 0x30 + v else 0x37 + v)"

definition uri_byte :: "u8 \<Rightarrow> bytes" where
  "uri_byte c = (if unreserved c then [c] else [0x25, uri_digit (drop_bit 4 c), uri_digit (c AND 15)])"

definition uri_escape_from :: "bytes \<Rightarrow> bytes" where
  "uri_escape_from = foldl (\<lambda>out c. if 8188 \<le> length out then out else out @ uri_byte c) []"

definition uri_escape :: builtin where
  "uri_escape c = ret_str (uri_escape_from (arg_str c 0)) c"

fun uri_unescape_from :: "bytes \<Rightarrow> bytes \<Rightarrow> bytes" where
  "uri_unescape_from out [] = out"
| "uri_unescape_from out (c # r) =
     (if 8190 \<le> length out then out
      else case r of
             h # l # r' \<Rightarrow>
               if c = 0x25 \<and> is_hex h \<and> is_hex l
               then uri_unescape_from (out @ [ucast ((push_bit 4 (hex_val h)) OR hex_val l)]) r'
               else uri_unescape_from (out @ [c]) r
           | _ \<Rightarrow> uri_unescape_from (out @ [c]) r)"

definition uri_unescape :: builtin where
  "uri_unescape c = ret_str (until_zero (uri_unescape_from [] (arg_str c 0))) c"

definition argescape :: builtin where
  "argescape c = ret_str (quote_string (arg_str c 0) 8192) c"

section \<open>The rest of a string\<close>

definition instr_ref :: "u32 \<Rightarrow> nat \<Rightarrow> u32 option" where
  "instr_ref r k =
     (case classify r of
        Linear p \<Rightarrow>
          (if k < 2 ^ 32
           then Option.bind (checked_add p (of_nat k)) (\<lambda>q. case classify q of Linear _ \<Rightarrow> Some q | _ \<Rightarrow> None)
           else None)
      | _ \<Rightarrow> None)"

definition instr :: loop_builtin where
  "instr c =
     (let s = arg_str c 0
      in map_option
           (\<lambda>r. case r of
              None \<Rightarrow> ok (ret_word 0 c)
            | Some k \<Rightarrow> (case instr_ref (arg_word c 0) k of
                           Some q \<Rightarrow> ok (ret_word q c) | None \<Rightarrow> ret_str (drop k s) c))
           (find_sub s (args_concat c 1)))"

definition validstring :: builtin where
  "validstring c = ok (ret_word (if arg_word c 0 \<noteq> 0 then f32_one else 0) c)"

section \<open>Lists of quoted strings\<close>

function after_quote_from :: "bytes \<Rightarrow> nat \<Rightarrow> int \<Rightarrow> int \<Rightarrow> nat option" where
  "after_quote_from [] i seen n = None"
| "after_quote_from (c # r) i seen n =
     (if c = 0x5C then after_quote_from (drop 1 r) (i + 2) seen n
      else if c = 0x27 then if seen + 1 = n then Some (i + 1) else after_quote_from r (i + 1) (seen + 1) n
      else after_quote_from r (i + 1) seen n)"
  by pat_completeness auto
termination by (relation "measure (\<lambda>(s, i, seen, n). length s)") auto

definition after_quote :: "bytes \<Rightarrow> int \<Rightarrow> nat option" where
  "after_quote s n = (if n \<le> 0 then None else after_quote_from s 0 0 n)"

function to_quote :: "bytes \<Rightarrow> nat option" where
  "to_quote [] = None"
| "to_quote (c # r) =
     (if c = 0x5C then map_option ((+) 2) (to_quote (drop 1 r))
      else if c = 0x27 then Some 0 else map_option ((+) 1) (to_quote r))"
  by pat_completeness auto
termination by (relation "measure length") auto

definition closing_quote :: "bytes \<Rightarrow> nat \<Rightarrow> nat" where
  "closing_quote s from = (case to_quote (drop from s) of Some k \<Rightarrow> from + k | None \<Rightarrow> length s)"

function quotes_in :: "bytes \<Rightarrow> nat" where
  "quotes_in [] = 0"
| "quotes_in (c # r) =
     (if c = 0x5C then quotes_in (drop 1 r) else (if c = 0x27 then 1 else 0) + quotes_in r)"
  by pat_completeness auto
termination by (relation "measure length") auto

definition altstr_count :: builtin where
  "altstr_count c = ok (ret_word (f32_of_nat (quotes_in (arg_str c 0) div 2)) c)"

definition prepared :: "bytes \<Rightarrow> bytes" where
  "prepared s = concat (map (\<lambda>c. if c = 0x27 then [0x5C, c] else [c]) s)"

definition altstr_prepare :: builtin where
  "altstr_prepare c = ret_str (prepared (arg_str c 0)) c"

fun unquoted :: "bytes \<Rightarrow> bytes" where
  "unquoted [] = []"
| "unquoted (c # r) =
     (if c = 0x27 then []
      else if c = 0x5C then (case r of [] \<Rightarrow> [] | e # r' \<Rightarrow> e # unquoted r')
      else c # unquoted r)"

definition altstr_nth :: "bytes \<Rightarrow> int \<Rightarrow> bytes" where
  "altstr_nth s i = (case after_quote s (i * 2 + 1) of None \<Rightarrow> [] | Some start \<Rightarrow> unquoted (drop start s))"

definition altstr_get :: builtin where
  "altstr_get c = ret_str (altstr_nth (arg_str c 0) (sint (arg_int c 1))) c"

definition altstr_update :: "bytes \<Rightarrow> int \<Rightarrow> bytes \<Rightarrow> bytes" where
  "altstr_update s i v =
     (case (case after_quote s (i * 2 + 1) of
              Some start \<Rightarrow> (start, closing_quote s start) | None \<Rightarrow> (length s, length s)) of
        (start, end) \<Rightarrow> take start s @ v @ drop end s)"

definition altstr_set :: builtin where
  "altstr_set c = ret_str (altstr_update (arg_str c 0) (sint (arg_int c 1)) (arg_str c 2)) c"

section \<open>Percent encoding is undone\<close>

lemma uri_escape_all: "length s \<le> 2730 \<Longrightarrow> uri_escape_from s = concat (map uri_byte s)"
proof (induction s rule: rev_induct)
  case (snoc c s)
  have "length (concat (map uri_byte s)) \<le> 3 * length s" by (induction s) (auto simp: uri_byte_def)
  then show ?case using snoc by (simp add: uri_escape_from_def)
qed (simp add: uri_escape_from_def)

lemma hex_digit_read: "v < 16 \<Longrightarrow> is_hex (uri_digit v) \<and> hex_val (uri_digit v) = ucast v"
proof -
  assume v: "v < 16"
  define n where "n = unat v"
  have "n < 16" "v = of_nat n" using v by (simp_all add: n_def word_less_nat_alt)
  moreover have "n \<in> {0,1,2,3,4,5,6,7,8,9,10,11,12,13,14,15}" using \<open>n < 16\<close> unfolding insert_iff empty_iff by presburger
  ultimately show ?thesis
    by (elim insertE emptyE) (simp_all add: is_hex_def is_digit_in_def hex_val_def uri_digit_def digit_of_char_def)
qed

lemma uri_byte_read: "length out < 8190 \<Longrightarrow> uri_unescape_from out (uri_byte c @ r) = uri_unescape_from (out @ [c]) r"
proof (cases "unreserved c")
  case True
  then have "c \<noteq> 0x25" by (auto simp: unreserved_def)
  then show "length out < 8190 \<Longrightarrow> ?thesis" using True by (auto simp: uri_byte_def split: list.split)
next
  case False
  have lo: "c AND 15 < 16" "drop_bit 4 c < 16"
  proof -
    have "unat (c AND 15) \<le> 15" using word_and_le1 [of c 15] by (simp add: word_le_nat_alt)
    then show "c AND 15 < 16" by (simp add: word_less_nat_alt)
    have "take_bit LENGTH(8) (unat c) = unat c" using u8_bound [of c] by (simp add: take_bit_nat_eq_self)
    then have "unat (drop_bit 4 c) = drop_bit 4 (unat c)" by (simp only: unsigned_drop_bit_eq)
    then have "unat (drop_bit 4 c) = unat c div 16" by (simp only: drop_bit_eq_div) simp
    then have "unat (drop_bit 4 c) < 16" using u8_bound [of c] by linarith
    then show "drop_bit 4 c < 16" by (simp only: word_less_nat_alt) simp
  qed
  have "ucast (push_bit 4 (ucast (drop_bit 4 c) :: u32) OR ucast (c AND 15)) = c"
    by (rule bit_word_eqI, drule less_8_cases, elim disjE, simp_all add: bit_simps byte_beyond)
  then show "length out < 8190 \<Longrightarrow> ?thesis"
    using False hex_digit_read [OF lo(1)] hex_digit_read [OF lo(2)] by (simp add: uri_byte_def)
qed

lemma uri_bytes_read: "length out + length s \<le> 8190 \<Longrightarrow> uri_unescape_from out (concat (map uri_byte s)) = out @ s"
proof (induction s arbitrary: out)
  case (Cons c s)
  have "uri_unescape_from out (uri_byte c @ concat (map uri_byte s)) = uri_unescape_from (out @ [c]) (concat (map uri_byte s))"
    by (intro uri_byte_read) (use Cons(2) in simp)
  also have "\<dots> = (out @ [c]) @ s" using Cons(2) by (intro Cons(1)) simp
  finally show ?case by simp
qed simp

text \<open>\<open>uri_unescape\<close> undoes \<open>uri_escape\<close>, for every string without a NUL that fits FTE's buffers.\<close>

theorem uri_round_trip:
  assumes "0 \<notin> set s" "length s \<le> 2730"
  shows "until_zero (uri_unescape_from [] (uri_escape_from s)) = s"
proof -
  have "until_zero s = s" using assms(1) by (auto simp: until_zero_def takeWhile_eq_all_conv)
  moreover have "uri_unescape_from [] (concat (map uri_byte s)) = [] @ s"
    by (rule uri_bytes_read) (use assms(2) in simp)
  ultimately show ?thesis by (simp only: uri_escape_all [OF assms(2)] append_Nil)
qed

theorem uri_round_trip_witness:
  "until_zero (uri_unescape_from [] (uri_escape_from [0x71, 0x20, 0x25, 0xFF])) = [0x71, 0x20, 0x25, 0xFF]"
  by (rule uri_round_trip) simp_all

section \<open>Lists of quoted strings are lists\<close>

definition quoted_list :: "bytes list \<Rightarrow> bytes" where
  "quoted_list ts = concat (map (\<lambda>t. [0x27] @ prepared t @ [0x27, 0x20]) ts)"

lemma prepared_Cons: "prepared (c # t) = (if c = 0x27 then [0x5C, 0x27] else [c]) @ prepared t"
  by (simp add: prepared_def)

lemma prepared_Nil [simp]: "prepared [] = []"
  by (simp add: prepared_def)

lemma prepared_reads:
  assumes "0x5C \<notin> set t"
  shows "after_quote_from (prepared t @ r) i seen n = after_quote_from r (i + length (prepared t)) seen n"
    and "to_quote (prepared t @ 0x27 # r) = Some (length (prepared t))"
    and "quotes_in (prepared t @ r) = quotes_in r"
    and "unquoted (prepared t @ 0x27 # r) = t"
proof -
  show "after_quote_from (prepared t @ r) i seen n = after_quote_from r (i + length (prepared t)) seen n"
    using assms by (induction t arbitrary: i) (auto simp: prepared_Cons)
  show "to_quote (prepared t @ 0x27 # r) = Some (length (prepared t))" "quotes_in (prepared t @ r) = quotes_in r"
    "unquoted (prepared t @ 0x27 # r) = t"
    using assms by (induction t) (auto simp: prepared_Cons)
qed

lemma quoted_list_Cons: "quoted_list (t # ts) = 0x27 # prepared t @ 0x27 # 0x20 # quoted_list ts"
  by (simp add: quoted_list_def)

lemma after_quote_list:
  assumes "k < length ts" "\<forall>t \<in> set ts. 0x5C \<notin> set t"
  shows "after_quote_from (quoted_list ts) i seen (seen + 2 * int k + 1) = Some (i + length (quoted_list (take k ts)) + 1)"
  using assms
proof (induction k arbitrary: ts i seen)
  case 0
  then show ?case by (cases ts) (auto simp: quoted_list_Cons, simp add: quoted_list_def)
next
  case (Suc k)
  then obtain t us where ts: "ts = t # us" "k < length us" by (cases ts) auto
  have t: "0x5C \<notin> set t" using Suc(3) ts by simp
  let ?j = "i + 1 + length (prepared t) + 1 + 1"
  have "after_quote_from (quoted_list us) ?j (seen + 1 + 1) (seen + 1 + 1 + 2 * int k + 1) =
      Some (?j + length (quoted_list (take k us)) + 1)"
    using Suc(3) ts by (intro Suc(1)) auto
  moreover have "after_quote_from (quoted_list ts) i seen n = after_quote_from (quoted_list us) ?j (seen + 1 + 1) n"
    if "seen + 1 \<noteq> n" "seen + 1 + 1 \<noteq> n" for n
    using that by (simp add: ts quoted_list_Cons prepared_reads(1) [OF t])
  ultimately show ?case by (simp add: ts quoted_list_Cons algebra_simps)
qed

lemma quoted_list_split:
  "k < length ts \<Longrightarrow> quoted_list ts =
    quoted_list (take k ts) @ 0x27 # prepared (ts ! k) @ 0x27 # 0x20 # quoted_list (drop (Suc k) ts)"
  by (subst id_take_nth_drop [of k ts]) (simp_all add: quoted_list_def)

text \<open>C39: the builtins on lists of quoted strings see the list: they count its strings, read any of them and replace it,
  whatever the strings contain but backslashes (which \<open>altstr_prepare\<close> does not escape).\<close>

theorem quoted_lists:
  assumes "\<forall>t \<in> set ts. 0x5C \<notin> set t" "k < length ts"
  shows "altstr_nth (quoted_list ts) (int k) = ts ! k \<and>
    altstr_update (quoted_list ts) (int k) (prepared v) = quoted_list (ts[k := v]) \<and>
    quotes_in (quoted_list ts) div 2 = length ts"
proof -
  let ?p = "length (quoted_list (take k ts))"
  have t: "0x5C \<notin> set (ts ! k)" using assms by simp
  have a: "after_quote (quoted_list ts) (int k * 2 + 1) = Some (?p + 1)"
    using after_quote_list [OF assms(2,1), of 0 0] by (simp add: after_quote_def algebra_simps)
  have d: "drop (?p + 1) (quoted_list ts) = prepared (ts ! k) @ 0x27 # 0x20 # quoted_list (drop (Suc k) ts)"
    by (subst quoted_list_split [OF assms(2)]) simp
  have e: "closing_quote (quoted_list ts) (?p + 1) = ?p + 1 + length (prepared (ts ! k))"
    unfolding closing_quote_def d using prepared_reads(2) [OF t] by simp
  have rest: "drop (?p + 1 + length (prepared (ts ! k))) (quoted_list ts) = 0x27 # 0x20 # quoted_list (drop (Suc k) ts)"
    by (subst quoted_list_split [OF assms(2)]) simp
  have front: "take (?p + 1) (quoted_list ts) = quoted_list (take k ts) @ [0x27]"
    by (subst quoted_list_split [OF assms(2)]) simp
  have "quoted_list (ts[k := v]) = quoted_list (take k ts) @ 0x27 # prepared v @ 0x27 # 0x20 # quoted_list (drop (Suc k) ts)"
    using quoted_list_split [of k "ts[k := v]"] assms(2) by simp
  moreover have "quotes_in (quoted_list ts) = 2 * length ts"
    using assms(1) by (induction ts) (auto simp: quoted_list_Cons prepared_reads(3), simp add: quoted_list_def)
  ultimately show ?thesis
    using a d e rest front prepared_reads(4) [OF t] by (simp add: altstr_nth_def altstr_update_def)
qed

theorem quoted_lists_witness:
  "altstr_nth (quoted_list [[0x61], [0x27, 0x62], []]) 1 = [0x27, 0x62]"
  using quoted_lists [of "[[0x61], [0x27, 0x62], []]" 1] by simp

section \<open>They keep to the contract of the engine\<close>

lemma tame_strings_done:
  "tame c (fst (strlen c))" "tame c (fst (memstrsize c))" "tame c (fst (strcat c))" "tame c (fst (strunzone c))"
  "tame c (fst (substring c))" "tame c (fst (str2chr c))" "tame c (fst (chr2str c))" "tame c (fst (strconv c))"
  "tame c (fst (strpad c))" "tame c (fst (strtrim c))" "tame c (fst (strreplace c))" "tame c (fst (strireplace c))"
  "tame c (fst (strncmp c))" "tame c (fst (strcasecmp c))" "tame c (fst (strtolower c))" "tame c (fst (strtoupper c))"
  "tame c (fst (uri_escape c))" "tame c (fst (uri_unescape c))" "tame c (fst (argescape c))" "tame c (fst (validstring c))"
  "tame c (fst (altstr_count c))" "tame c (fst (altstr_prepare c))" "tame c (fst (altstr_get c))" "tame c (fst (altstr_set c))"
  by (simp_all add: strlen_def memstrsize_def strcat_def strunzone_def substring_def str2chr_def chr2str_def strconv_def
      strpad_def strtrim_def strreplace_def strireplace_def strncmp_def strcasecmp_def strtolower_def strtoupper_def
      uri_escape_def uri_unescape_def argescape_def validstring_def altstr_count_def altstr_prepare_def altstr_get_def
      altstr_set_def Let_def tame_intros tame_refl)

lemma obeys_searches: "obeys (looping_builtin strstrofs)" "obeys (looping_builtin instr)"
proof -
  show "obeys (looping_builtin strstrofs)"
    by (rule obeys_looping) (auto simp: strstrofs_def find_sub_search Let_def tame_intros split: option.splits if_splits)
  show "obeys (looping_builtin instr)"
    by (rule obeys_looping) (auto simp: instr_def find_sub_search Let_def tame_intros split: option.splits)
qed

end
