(* ===== verification/Markup.thy ===== *)
theory Markup
  imports StrFns
begin

text \<open>
  Colour codes and other markup in text (\<open>src/stdlib/string.rs\<close>, FTE's \<open>COM_ParseFunString\<close>): the parser, whose sections nest to
  a fixed depth, and \<open>strdecolorize\<close>.  One turn of the parser's loop is \<open>markup_at\<close>.
\<close>

section \<open>Characters\<close>

definition FUN_MAX :: nat where "FUN_MAX = 8191"
definition DECOLOR_MAX :: nat where "DECOLOR_MAX = 8190"
definition SECTION_DEPTH :: nat where "SECTION_DEPTH = 16"

datatype (plugins only: code size) byte_mode = QuakeBytes | RawBytes | Utf8Bytes | ForcedUtf8Bytes

record funtext =
  ft_chars :: "(u32 \<times> bool) list"
  ft_units :: nat

definition ft_push :: "u32 \<Rightarrow> bool \<Rightarrow> funtext \<Rightarrow> funtext \<times> bool" where
  "ft_push ch hidden t =
     (let cost = (if 0xFFFF < ch then 2 else 1)
      in if FUN_MAX < ft_units t + cost then (t, False)
         else (t\<lparr>ft_units := ft_units t + cost, ft_chars := ft_chars t @ [(ch, hidden)]\<rparr>, True))"

definition hex_at :: "bytes \<Rightarrow> nat \<Rightarrow> bool" where
  "hex_at s i = (case nth_opt s i of Some c \<Rightarrow> is_hex c | None \<Rightarrow> False)"

definition extended_at :: "bytes \<Rightarrow> nat \<Rightarrow> bool" where
  "extended_at s i =
     (case nth_opt s i of
        Some c \<Rightarrow> 0x30 \<le> c \<and> c \<le> 0x39 \<or> 0x41 \<le> c \<and> c \<le> 0x46 \<or> c = 0x2D | None \<Rightarrow> False)"

definition KOI8_HIGH :: "u32 list" where
  "KOI8_HIGH =
     [0x44E, 0x430, 0x431, 0x446, 0x434, 0x435, 0x444, 0x433,
      0x445, 0x438, 0x439, 0x43A, 0x43B, 0x43C, 0x43D, 0x43E,
      0x43F, 0x44F, 0x440, 0x441, 0x442, 0x443, 0x436, 0x432,
      0x44C, 0x44B, 0x437, 0x448, 0x44D, 0x449, 0x447, 0x44A,
      0x42E, 0x410, 0x411, 0x426, 0x414, 0x415, 0x424, 0x413,
      0x425, 0x418, 0x419, 0x41A, 0x41B, 0x41C, 0x41D, 0x41E,
      0x41F, 0x42F, 0x420, 0x421, 0x422, 0x423, 0x416, 0x412,
      0x42C, 0x42B, 0x417, 0x428, 0x42D, 0x429, 0x427, 0x42A]"

definition koi8_to_unicode :: "u8 \<Rightarrow> u32" where
  "koi8_to_unicode b =
     (if 0xC0 \<le> b then (case nth_opt KOI8_HIGH (unat (b - 0xC0)) of Some ch \<Rightarrow> ch | None \<Rightarrow> ucast b)
      else if b = 0xA3 then 0x451 else if b = 0xB3 then 0x401 else if b = 0xA4 then 0x454 else if b = 0xB4 then 0x404
      else if b = 0xA6 then 0x456 else if b = 0xB6 then 0x406 else if b = 0xA7 then 0x457 else if b = 0xB7 then 0x407
      else if b = 0xAE then 0x45E else if b = 0xBE then 0x40E else if b = 0xAF then 0x42A else ucast b)"

definition literal :: "u8 \<Rightarrow> byte_mode \<Rightarrow> u32" where
  "literal c mode =
     (if mode \<noteq> QuakeBytes then ucast c
      else if c \<in> {0x0A, 0x0D, 0x09, 0x0B, 0x20} \<or> 0x20 \<le> c \<and> c \<le> 0x7E then ucast c
      else if 0xA0 \<le> c then ucast (c AND 0x7F)
      else 0xE000 OR ucast c)"

definition section_end :: "bytes \<Rightarrow> nat \<Rightarrow> nat" where
  "section_end s from = (case window_search (drop from s) [0x60, 0x3D] of Some k \<Rightarrow> from + k | None \<Rightarrow> length s)"

definition prefix_at :: "bytes \<Rightarrow> nat \<Rightarrow> bytes \<Rightarrow> bool" where
  "prefix_at s i t \<longleftrightarrow> take (length t) (drop i s) = t"

section \<open>The parser\<close>

text \<open>What a turn does: stop because the buffer is full, go on at another offset, or parse a section and then go on.\<close>

datatype (plugins only: code size) markup_step =
    MarkupFull funtext | MarkupOn byte_mode "nat option" funtext nat | MarkupSection byte_mode bytes nat

definition pushed :: "byte_mode \<Rightarrow> nat option \<Rightarrow> u32 \<Rightarrow> bool \<Rightarrow> nat \<Rightarrow> funtext \<Rightarrow> markup_step" where
  "pushed mode link ch hidden i t =
     (case ft_push ch hidden t of (t, True) \<Rightarrow> MarkupOn mode link t i | (t, False) \<Rightarrow> MarkupFull t)"

text \<open>The end of a link: its bracket and what follows the first backslash are hidden.\<close>

definition hide_from :: "nat \<Rightarrow> (u32 \<times> bool) list \<Rightarrow> (u32 \<times> bool) list" where
  "hide_from k cs = take k cs @ map (\<lambda>(ch, _). (ch, True)) (drop k cs)"

definition hide_link :: "nat \<Rightarrow> funtext \<Rightarrow> funtext" where
  "hide_link start t =
     (let cs = ft_chars t; last = length cs - 1;
          k = start + 1 + length (takeWhile (\<lambda>(ch, _). ch \<noteq> 0x5C) (drop (start + 1) (take last cs)));
          cs = (case nth_opt cs start of Some (ch, _) \<Rightarrow> cs[start := (ch, True)] | None \<Rightarrow> cs)
      in t\<lparr>ft_chars := hide_from k cs\<rparr>)"

definition close_link :: "byte_mode \<Rightarrow> nat option \<Rightarrow> nat \<Rightarrow> funtext \<Rightarrow> markup_step" where
  "close_link mode link i t =
     (case ft_push 0x5D (link \<noteq> None) t of
        (t, False) \<Rightarrow> MarkupFull t
      | (t, True) \<Rightarrow> MarkupOn mode None (case link of Some start \<Rightarrow> hide_link start t | None \<Rightarrow> t) i)"

definition hex_number :: "bytes \<Rightarrow> u32" where
  "hex_number = foldl (\<lambda>acc c. push_bit 4 acc OR hex_val c) 0"

definition valid_char :: "u32 \<Rightarrow> u32" where
  "valid_char ch = (if 0x10FFFF < ch then REPLACEMENT else ch)"

definition braced :: "byte_mode \<Rightarrow> nat option \<Rightarrow> bytes \<Rightarrow> nat \<Rightarrow> funtext \<Rightarrow> markup_step" where
  "braced mode link s i t =
     (let hs = takeWhile is_hex (drop (i + 2) s); k = 2 + length hs; k = (if nth_opt s (i + k) = Some 0x7D then k + 1 else k)
      in pushed mode link (valid_char (hex_number hs)) False (i + k) t)"

definition section_or_skip :: "byte_mode \<Rightarrow> nat option \<Rightarrow> nat \<Rightarrow> nat \<Rightarrow> bytes \<Rightarrow> funtext \<Rightarrow> (bytes \<Rightarrow> bytes) \<Rightarrow> markup_step" where
  "section_or_skip mode link from depth s t decoded =
     (if SECTION_DEPTH \<le> depth then MarkupOn mode link t from
      else let e = section_end s from
           in MarkupSection mode (decoded (drop from (take e s))) (min (e + 2) (length s)))"

text \<open>A caret: \<open>None\<close> if it starts no markup, so that it is a plain byte.\<close>

definition caret :: "bytes \<Rightarrow> byte_mode \<Rightarrow> nat option \<Rightarrow> nat \<Rightarrow> nat \<Rightarrow> funtext \<Rightarrow> markup_step option" where
  "caret s mode link i depth t =
     (case nth_opt s (i + 1) of
        None \<Rightarrow> None
      | Some x \<Rightarrow>
          if 0x30 \<le> x \<and> x \<le> 0x39 \<or> x \<in> {0x62, 0x64, 0x6D, 0x61, 0x68, 0x73, 0x72} then Some (MarkupOn mode link t (i + 2))
          else if x = 0x26 \<and> extended_at s (i + 2) \<and> extended_at s (i + 3) then Some (MarkupOn mode link t (i + 4))
          else if x = 0x78 then Some (MarkupOn mode link t (i + (if list_all (\<lambda>k. hex_at s (i + k)) [2..<5] then 5 else 2)))
          else if x = 0x5B \<and> link = None then Some (pushed mode (Some (length (ft_chars t))) 0x5B False (i + 2) t)
          else if x = 0x5D then Some (close_link mode link (i + 2) t)
          else if x = 0x60 \<and> prefix_at s (i + 2) (ascii ''u8:'') then Some (section_or_skip mode link (i + 5) depth s t id)
          else if x = 0x55 \<and> list_all (\<lambda>k. hex_at s (i + k)) [2..<6]
          then Some (pushed mode link (hex_number (take 4 (drop (i + 2) s))) False (i + 6) t)
          else if x = 0x7B then Some (braced mode link s i t)
          else None)"

definition plain_byte :: "bytes \<Rightarrow> byte_mode \<Rightarrow> nat option \<Rightarrow> nat \<Rightarrow> funtext \<Rightarrow> markup_step" where
  "plain_byte s mode link i t =
     pushed mode link (literal (the_default 0 (nth_opt s i)) (if mode = QuakeBytes then QuakeBytes else RawBytes)) False (i + 1) t"

definition other_byte :: "bytes \<Rightarrow> byte_mode \<Rightarrow> nat option \<Rightarrow> nat \<Rightarrow> nat \<Rightarrow> funtext \<Rightarrow> u8 \<Rightarrow> markup_step" where
  "other_byte s mode link i depth t c =
     (if c = 0x5E
      then case caret s mode link i depth t of
             Some r \<Rightarrow> r
           | None \<Rightarrow> plain_byte s mode link (if nth_opt s (i + 1) = Some 0x5E then i + 1 else i) t
      else if c = 0x26 \<and> nth_opt s (i + 1) = Some 0x63 \<and> list_all (\<lambda>k. hex_at s (i + k)) [2..<5] then MarkupOn mode link t (i + 5)
      else if c = 0x26 \<and> nth_opt s (i + 1) = Some 0x72 then MarkupOn mode link t (i + 2)
      else if c = 0x3D \<and> prefix_at s (i + 1) (ascii ''`k8:'')
      then section_or_skip mode link (i + 5) depth s t (\<lambda>bs. concat (map (encode_utf8 \<circ> koi8_to_unicode) bs))
      else plain_byte s mode link i t)"

definition markup_at :: "bytes \<Rightarrow> byte_mode \<Rightarrow> nat option \<Rightarrow> nat \<Rightarrow> nat \<Rightarrow> funtext \<Rightarrow> u8 \<Rightarrow> markup_step" where
  "markup_at s mode link i depth t c =
     (if c AND 0x80 \<noteq> 0 \<and> (mode = Utf8Bytes \<or> mode = ForcedUtf8Bytes)
      then let d = decode_utf8 (drop i s)
           in if dc_error d \<noteq> None \<and> mode = Utf8Bytes then other_byte s QuakeBytes link i depth t c
              else pushed mode link (valid_char (dc_ch d)) False (i + dc_len d) t
      else other_byte s mode link i depth t c)"

text \<open>Every turn moves on, so the parser ends: at most \<open>SECTION_DEPTH\<close> sections deep, and along the string in each.\<close>

definition moves_on :: "bytes \<Rightarrow> nat \<Rightarrow> nat \<Rightarrow> markup_step \<Rightarrow> bool" where
  "moves_on s i depth r \<longleftrightarrow>
     (case r of MarkupFull _ \<Rightarrow> True | MarkupOn _ _ _ j \<Rightarrow> i < j
      | MarkupSection _ _ j \<Rightarrow> i < j \<and> depth < SECTION_DEPTH)"

lemma pushed_moves: "i < j \<Longrightarrow> moves_on s i depth (pushed mode link ch hidden j t)"
  by (simp add: pushed_def moves_on_def split: prod.split bool.split)

lemma section_moves: "i < from \<Longrightarrow> i < length s \<Longrightarrow> moves_on s i depth (section_or_skip mode link from depth s t decoded)"
  by (auto simp: section_or_skip_def moves_on_def Let_def section_end_def split: option.split)

lemma caret_moves: "i < length s \<Longrightarrow> caret s mode link i depth t = Some r \<Longrightarrow> moves_on s i depth r"
  by (auto simp: caret_def close_link_def braced_def Let_def moves_on_def [of s i depth "MarkupOn _ _ _ _"] moves_on_def [of s i depth "MarkupFull _"]
      intro!: pushed_moves section_moves split: option.splits if_splits prod.splits bool.splits)

lemma other_moves: "i < length s \<Longrightarrow> moves_on s i depth (other_byte s mode link i depth t c)"
  by (auto simp: other_byte_def plain_byte_def moves_on_def [of s i depth "MarkupOn _ _ _ _"]
      intro!: pushed_moves section_moves dest: caret_moves split: option.split)

lemma markup_at_moves: "nth_opt s i = Some c \<Longrightarrow> moves_on s i depth (markup_at s mode link i depth t c)"
  using decode_utf8_len [of "drop i s"]
  by (auto simp: markup_at_def Let_def nth_opt_def intro!: pushed_moves other_moves split: if_splits)

definition markup_start :: "bytes \<Rightarrow> nat" where
  "markup_start s = (if nth_opt s 0 \<in> {Some 1, Some 2} then 1 else 0)"

function markup :: "bytes \<Rightarrow> byte_mode \<Rightarrow> nat option \<Rightarrow> nat \<Rightarrow> nat \<Rightarrow> funtext \<Rightarrow> funtext \<times> bool" where
  "markup s mode link i depth t =
     (case nth_opt s i of
        None \<Rightarrow> (t, True)
      | Some c \<Rightarrow>
          (case markup_at s mode link i depth t c of
             MarkupFull t \<Rightarrow> (t, False)
           | MarkupOn mode link t j \<Rightarrow> markup s mode link j depth t
           | MarkupSection mode body j \<Rightarrow>
               (case markup body ForcedUtf8Bytes None (markup_start body) (depth + 1) t of
                  (t, True) \<Rightarrow> markup s mode link j depth t
                | (t, False) \<Rightarrow> (t, False))))"
  by pat_completeness auto
termination
proof (relation "measures [\<lambda>(s, mode, link, i, depth, t). SECTION_DEPTH - depth, \<lambda>(s, mode, link, i, depth, t). length s - i]")
  fix s mode link i depth t c mode' link' t' j
  assume "nth_opt s i = Some c" "markup_at s mode link i depth t c = MarkupOn mode' link' t' j"
  then show "((s, mode', link', j, depth, t'), s, mode, link, i, depth, t) \<in>
      measures [\<lambda>(s, mode, link, i, depth, t). SECTION_DEPTH - depth, \<lambda>(s, mode, link, i, depth, t). length s - i]"
    using markup_at_moves [of s i c depth mode link t] by (auto simp: moves_on_def nth_opt_def split: if_splits)
next
  fix s mode link i depth t c mode' body j
  assume a: "nth_opt s i = Some c" "markup_at s mode link i depth t c = MarkupSection mode' body j"
  then have m: "i < j" "depth < SECTION_DEPTH" "i < length s"
    using markup_at_moves [of s i c depth mode link t] by (auto simp: moves_on_def nth_opt_def split: if_splits)
  then show "((body, ForcedUtf8Bytes, None, markup_start body, depth + 1, t), s, mode, link, i, depth, t) \<in>
      measures [\<lambda>(s, mode, link, i, depth, t). SECTION_DEPTH - depth, \<lambda>(s, mode, link, i, depth, t). length s - i]"
    by auto
  show "((s, mode', link, j, depth, t'), s, mode, link, i, depth, t) \<in>
      measures [\<lambda>(s, mode, link, i, depth, t). SECTION_DEPTH - depth, \<lambda>(s, mode, link, i, depth, t). length s - i]" for t'
    using m by auto
qed simp

declare markup.simps [simp del]

definition decolorize :: "bytes \<Rightarrow> char_scheme \<Rightarrow> bytes" where
  "decolorize s scheme =
     (let mode = (case scheme of QuakeChars \<Rightarrow> QuakeBytes | Iso8859_1Chars \<Rightarrow> RawBytes | Utf8Chars \<Rightarrow> Utf8Bytes);
          t = fst (markup s mode None (markup_start s) 0 \<lparr>ft_chars = [], ft_units = 0\<rparr>)
      in capped DECOLOR_MAX [] (map (\<lambda>(ch, _). encode ch scheme False) (filter (\<lambda>(_, hidden). \<not> hidden) (ft_chars t))))"

definition strdecolorize :: builtin where
  "strdecolorize c = ret_str (decolorize (arg_str c 0) (cs_scheme (charset_of c))) c"

definition strlennocol :: builtin where
  "strlennocol c = ok (ret_word (f32_of_nat (length (decolorize (arg_str c 0) (cs_scheme (charset_of c))))) c)"

lemma tame_markup: "tame c (fst (strdecolorize c))" "tame c (fst (strlennocol c))"
  by (simp_all add: strdecolorize_def strlennocol_def tame_intros)

section \<open>Plain text is left alone\<close>

definition plain :: "u8 \<Rightarrow> bool" where
  "plain c \<longleftrightarrow> 0x20 \<le> c \<and> c \<le> 0x7E \<and> c \<notin> {0x5E, 0x26, 0x3D}"

lemma plain_low: "plain c \<Longrightarrow> c AND 0x80 = 0"
proof -
  assume "plain c"
  then have "unat c < 2 ^ 7" by (simp add: plain_def word_le_nat_alt)
  then have "\<not> bit (unat c) 7" by (simp add: bit_iff_odd)
  then have "\<not> bit c 7" by (simp add: bit_unsigned_iff)
  then show ?thesis using bit_iff_and_push_bit_not_eq_0 [of c 7] by simp
qed

lemma plain_encoded: "plain c \<Longrightarrow> encode (ucast c) scheme False = [c]"
proof -
  assume c: "plain c"
  have u: "unat (ucast c :: u32) = unat c" by (rule word_of_byte)
  have b: "0x20 \<le> unat c" "unat c \<le> 0x7E" using c by (simp_all add: plain_def word_le_nat_alt)
  have low: "ucast (ucast c AND 0xFF :: u32) = c" by (rule glyph_byte(2))
  have cc: "ucast (ucast c :: u32) = c" by (rule bit_word_eqI) (auto simp: bit_simps)
  have "(ucast c :: u32) \<noteq> 0" using b u by (metis unsigned_0 not_numeral_le_zero)
  then show ?thesis
    using b by (cases scheme) (auto simp: encode_def encode_utf8_def Let_def word_le_nat_alt word_less_nat_alt u low cc)
qed

lemma plain_turn:
  assumes "nth_opt s i = Some c" "plain c" "ft_units t < FUN_MAX"
  shows "markup_at s mode link i depth t c =
    MarkupOn mode link (t\<lparr>ft_units := ft_units t + 1, ft_chars := ft_chars t @ [(ucast c, False)]\<rparr>) (i + 1)"
proof -
  have "unat (ucast c :: u32) = unat c" by (rule word_of_byte)
  then have "\<not> 0xFFFF < (ucast c :: u32)" using u8_bound [of c] by (simp add: word_less_nat_alt)
  then show ?thesis
    using assms plain_low [OF assms(2)]
    by (auto simp: markup_at_def other_byte_def plain_byte_def pushed_def ft_push_def literal_def Let_def plain_def)
qed

lemma plain_markup:
  assumes "list_all plain (drop i s)" "i \<le> length s" "ft_units t + (length s - i) \<le> FUN_MAX"
  shows "markup s mode link i depth t =
    (t\<lparr>ft_units := ft_units t + (length s - i), ft_chars := ft_chars t @ map (\<lambda>c. (ucast c, False)) (drop i s)\<rparr>, True)"
  using assms
proof (induction "length s - i" arbitrary: i t)
  case 0
  then show ?case by (subst markup.simps) (simp add: nth_opt_def)
next
  case (Suc n)
  then have i: "i < length s" by simp
  have d: "drop i s = s ! i # drop (i + 1) s" using i by (simp add: Cons_nth_drop_Suc)
  have c: "nth_opt s i = Some (s ! i)" "plain (s ! i)" "ft_units t < FUN_MAX"
    using i Suc.prems d by (auto simp: nth_opt_def)
  let ?t = "t\<lparr>ft_units := ft_units t + 1, ft_chars := ft_chars t @ [(ucast (s ! i), False)]\<rparr>"
  have "markup s mode link i depth t = markup s mode link (i + 1) depth ?t"
    by (subst markup.simps) (simp add: c(1) plain_turn [OF c])
  also have "\<dots> = (?t\<lparr>ft_units := ft_units ?t + (length s - (i + 1)),
      ft_chars := ft_chars ?t @ map (\<lambda>c. (ucast c, False)) (drop (i + 1) s)\<rparr>, True)"
    by (rule Suc.hyps(1)) (use Suc.hyps(2) Suc.prems i d in auto)
  finally show ?case using i d by (simp add: Suc_diff_Suc [symmetric])
qed

lemma capped_all: "length out + length (concat ps) \<le> limit \<Longrightarrow> capped limit out ps = out @ concat ps"
  by (induction ps arbitrary: out) auto

text \<open>\<open>strdecolorize\<close> leaves text of printable ASCII characters without a caret, an ampersand or an equals sign as it is,
  in every character set.\<close>

theorem plain_text_kept:
  assumes "list_all plain s" "length s \<le> DECOLOR_MAX"
  shows "decolorize s scheme = s"
proof -
  have st: "markup_start s = 0"
    using assms(1) by (cases s) (auto simp: markup_start_def nth_opt_def plain_def word_le_nat_alt)
  have m: "fst (markup s mode None (markup_start s) 0 \<lparr>ft_chars = [], ft_units = 0\<rparr>) =
      \<lparr>ft_chars = map (\<lambda>c. (ucast c, False)) s, ft_units = length s\<rparr>" for mode
    using plain_markup [of 0 s "\<lparr>ft_chars = [], ft_units = 0\<rparr>" mode None 0] assms
    by (simp add: st FUN_MAX_def DECOLOR_MAX_def)
  have e: "map (\<lambda>c. encode (ucast c) scheme False) s = map (\<lambda>c. [c]) s"
    using assms(1) plain_encoded by (simp add: list_all_iff)
  have "filter (\<lambda>(_, hidden). \<not> hidden) (map (\<lambda>c. (ucast c :: u32, False)) s) = map (\<lambda>c. (ucast c, False)) s"
    by (induction s) auto
  moreover have "decolorize s scheme = capped DECOLOR_MAX [] (map (\<lambda>c. encode (ucast c) scheme False) s)"
    if "filter (\<lambda>(_, hidden). \<not> hidden) (map (\<lambda>c. (ucast c :: u32, False)) s) = map (\<lambda>c. (ucast c, False)) s"
    using that by (simp add: decolorize_def m comp_def)
  ultimately have "decolorize s scheme = capped DECOLOR_MAX [] (map (\<lambda>c. [c]) s)" unfolding e by blast
  moreover have "concat (map (\<lambda>c. [c]) s) = s" by (induction s) auto
  ultimately show ?thesis using capped_all [of "[]" "map (\<lambda>c. [c]) s" DECOLOR_MAX] assms(2) by simp
qed

theorem plain_text_kept_witness: "decolorize [0x48, 0x69, 0x21] Utf8Chars = [0x48, 0x69, 0x21]"
  by (rule plain_text_kept) (simp_all add: plain_def DECOLOR_MAX_def)

end
