(* ===== verification/Maths.thy ===== *)
theory Maths
  imports HashTab Loops Libm
begin

text \<open>
  Scalar maths and random numbers (\<open>src/stdlib/math.rs\<close>); the transcendental functions are those of \<open>libm\<close>, the
  argument \<open>M\<close>.  A loop that redraws is a partial function: \<open>None\<close> is never returning.
\<close>

section \<open>Conversions and remainders\<close>

definition d2i :: "u64 \<Rightarrow> u32" where
  "d2i d =
     (if f64_is_nan d \<or> \<not> (f64_le (f64_of_int (- 2147483648)) d \<and> f64_lt d (f64_of_int 2147483648)) then i32_min
      else word_of_int (sat_cast (- 2147483648) 2147483647 (f64_val d)))"

definition anglemod16 :: "u32 \<Rightarrow> u32" where
  "anglemod16 a =
     (let steps = d2i (f64_mul (f64_of_f32 a) (f64_div (f64_of_int 65536) (f64_of_int 360))) AND 0xFFFF
      in f32_of_f64 (f64_mul (f64_div (f64_of_int 360) (f64_of_int 65536)) (f64_of_int (sint steps))))"

text \<open>The operator \<open>%\<close>: what is left of a truncated division, computed exactly, with the sign of the dividend.\<close>

fun frem :: "fval \<Rightarrow> fval \<Rightarrow> fval" where
  "frem FNaN _ = FNaN"
| "frem _ FNaN = FNaN"
| "frem (FInf _) _ = FNaN"
| "frem (FFin s m e) (FInf _) = FFin s m e"
| "frem (FFin s m e) (FFin t n f) =
     (if n = 0 then FNaN
      else let b = min e f in FFin s (m * 2 ^ nat (e - b) mod (n * 2 ^ nat (f - b))) b)"

definition f32_rem :: "u32 \<Rightarrow> u32 \<Rightarrow> u32" where
  "f32_rem a b = f32_of (frem (f32_val a) (f32_val b))"

section \<open>One-argument functions\<close>

text \<open>The macros \<open>double_fn\<close> and \<open>double_fn_d\<close>; the registry applies them to the functions of \<open>libm\<close>.\<close>

definition double_fn :: "(u64 \<Rightarrow> u64) \<Rightarrow> builtin" where
  "double_fn f c = ok (ret_word (f32_of_f64 (f (f64_of_f32 (arg_word c 0)))) c)"

definition double_fn_d :: "(u64 \<Rightarrow> u64) \<Rightarrow> builtin" where
  "double_fn_d f c = ok (ret_u64 (f (arg_f64 c 0)) c)"

section \<open>Functions of two arguments\<close>

definition atan2d :: "libm \<Rightarrow> builtin" where
  "atan2d M c = ok (ret_u64 (lm_atan2 M (arg_f64 c 0) (arg_f64 c 1)) c)"

definition powd :: "libm \<Rightarrow> builtin" where
  "powd M c = ok (ret_u64 (lm_pow M (arg_f64 c 0) (arg_f64 c 1)) c)"

definition logd :: "libm \<Rightarrow> builtin" where
  "logd M c =
     (let r = lm_log M (arg_f64 c 0)
      in ok (ret_u64 (if 1 < argc c then f64_div r (lm_log M (arg_f64 c 1)) else r) c))"

definition atan2_qc :: "libm \<Rightarrow> builtin" where
  "atan2_qc M c = ok (ret_word (f32_of_f64 (lm_atan2 M (f64_of_f32 (arg_word c 0)) (f64_of_f32 (arg_word c 1)))) c)"

definition pow_qc :: "libm \<Rightarrow> builtin" where
  "pow_qc M c = ok (ret_word (f32_of_f64 (lm_pow M (f64_of_f32 (arg_word c 0)) (f64_of_f32 (arg_word c 1)))) c)"

definition log_qc :: "libm \<Rightarrow> builtin" where
  "log_qc M c =
     (let r = lm_log M (f64_of_f32 (arg_word c 0))
      in ok (ret_word (f32_of_f64 (if 1 < argc c then f64_div r (lm_log M (f64_of_f32 (arg_word c 1))) else r)) c))"

abbreviation f64_half :: u64 where "f64_half \<equiv> 0x3FE0000000000000"

definition rint :: builtin where
  "rint c =
     (let f = f64_of_f32 (arg_word c 0); i = (if f64_lt 0 f then d2i (f64_add f f64_half) else d2i (f64_sub f f64_half))
      in ok (ret_word (f32_of_int (sint i)) c))"

definition bound_value :: "u32 \<Rightarrow> u32 \<Rightarrow> u32 \<Rightarrow> u32" where
  "bound_value lo v hi = (if f32_lt hi v then hi else if f32_lt v lo then lo else v)"

definition bound_qc :: builtin where
  "bound_qc c = ok (ret_word (bound_value (arg_word c 0) (arg_word c 1) (arg_word c 2)) c)"

definition extreme_of :: "(u32 \<Rightarrow> u32 \<Rightarrow> bool) \<Rightarrow> u32 list \<Rightarrow> u32" where
  "extreme_of better vs =
     (case vs of
        [x, y] \<Rightarrow> if better x y then x else y
      | x # ys \<Rightarrow> foldl (\<lambda>r v. if better v r then v else r) x ys
      | [] \<Rightarrow> 0)"

definition extreme :: "string \<Rightarrow> (u32 \<Rightarrow> u32 \<Rightarrow> bool) \<Rightarrow> builtin" where
  "extreme name better c =
     (let n = min (argc c) 8
      in if n < 2 then (c, Some (BuiltinError (name @ '': must supply at least 2 floats'')))
         else ok (ret_word (extreme_of better (map (arg_word c) [0..<n])) c))"

definition min_qc :: builtin where
  "min_qc = extreme ''min'' (\<lambda>v r. f32_lt v r)"

definition max_qc :: builtin where
  "max_qc = extreme ''max'' (\<lambda>v r. f32_lt r v)"

definition modulo :: builtin where
  "modulo c =
     (let a = arg_word c 0; n = arg_word c 1
      in if f32_eq n 0 then ok (ret_word 0 (vm_warn ''mod by zero'' c))
         else ok (ret_word (f32_sub a (f32_mul n (f32_of_int (sint (f2i (f32_div a n)))))) c))"

definition bitshift_value :: "u32 \<Rightarrow> u32 \<Rightarrow> u32" where
  "bitshift_value n q =
     (let k = nat \<bar>sint q\<bar>
      in if 0 \<le> sint q then if k < 32 then push_bit k n else 0
         else if k < 32 then signed_drop_bit k n else if sint n < 0 then - 1 else 0)"

definition bitshift :: builtin where
  "bitshift c = ok (ret_word (f32_of_int (sint (bitshift_value (arg_int c 0) (arg_int c 1)))) c)"

section \<open>Angles\<close>

abbreviation f32_360 :: u32 where "f32_360 \<equiv> 0x43B40000"
abbreviation f32_180 :: u32 where "f32_180 \<equiv> 0x43340000"
abbreviation f32_minus_180 :: u32 where "f32_minus_180 \<equiv> 0xC3340000"

definition anglemod_value :: "u32 \<Rightarrow> u32" where
  "anglemod_value v =
     (if f32_le f32_360 v then f32_rem v f32_360
      else if f32_lt v 0 then let r = f32_rem v f32_360 in if f32_lt r 0 then f32_add r f32_360 else 0
      else v)"

definition anglemod :: builtin where
  "anglemod c = ok (ret_word (anglemod_value (arg_word c 0)) c)"

definition anglesub_value :: "u32 \<Rightarrow> u32 \<Rightarrow> u32" where
  "anglesub_value a b =
     (let v = f32_sub a b; r = f32_rem v f32_360
      in if f32_lt f32_180 v then if f32_lt f32_180 r then f32_sub r f32_360 else r
         else if f32_lt v f32_minus_180
              then if f32_lt r f32_minus_180 then f32_add r f32_360 else if f32_eq r 0 then 0 else r
              else v)"

definition anglesub :: builtin where
  "anglesub c = ok (ret_word (anglesub_value (arg_word c 0) (arg_word c 1)) c)"

section \<open>Random numbers\<close>

definition random :: builtin where
  "random c =
     (case rand15 (c_rng c) of
        (s, k) \<Rightarrow>
          let r = f32_div (f32_add (f32_of_int (uint k)) 0x3F000000) 0x47000000;
              c = c\<lparr>c_rng := s\<rparr>
          in ok (ret_word
               (if argc c = 0 then r
                else if argc c = 1 then f32_mul r (arg_word c 0)
                else f32_add (arg_word c 0) (f32_mul r (f32_sub (arg_word c 1) (arg_word c 0)))) c))"

definition unit_coordinate :: "u32 \<Rightarrow> u32" where
  "unit_coordinate k =
     f32_of_f64 (f64_sub (f64_mul (f64_of_int (uint k)) (f64_div (f64_of_int 2) (f64_of_int 32767))) (f64_of_int 1))"

definition draw_vec :: "u64 \<Rightarrow> u64 \<times> u32 \<times> u32 \<times> u32" where
  "draw_vec s0 =
     (case rand15 s0 of (s1, i) \<Rightarrow> case rand15 s1 of (s2, j) \<Rightarrow> case rand15 s2 of (s3, k) \<Rightarrow>
        (s3, unit_coordinate i, unit_coordinate j, unit_coordinate k))"

definition inside_unit :: "u32 \<times> u32 \<times> u32 \<Rightarrow> bool" where
  "inside_unit v =
     (case v of (x, y, z) \<Rightarrow> f32_lt (f32_add (f32_add (f32_mul x x) (f32_mul y y)) (f32_mul z z)) f32_one)"

partial_function (option) random_unit :: "u64 \<Rightarrow> (u64 \<times> u32 \<times> u32 \<times> u32) option" where
  "random_unit s =
     (case draw_vec s of (s', v) \<Rightarrow> if inside_unit v then Some (s', v) else random_unit s')"

definition randomvec :: loop_builtin where
  "randomvec c = map_option (\<lambda>(s, x). ok (ret_raw x (c\<lparr>c_rng := s\<rparr>))) (random_unit (c_rng c))"

section \<open>A random vector is found\<close>

lemma draw_vec_state: "fst (draw_vec s) = s + 0xDAA66D2C7DDF743F"
  by (simp add: draw_vec_def rand15_def next_u64_def Let_def split: prod.split)

text \<open>The draws that follow the state 0 are inside the unit sphere.\<close>

lemma first_draws:
  "rand15 0 = (0x9E3779B97F4A7C15, 21532)" "rand15 0x9E3779B97F4A7C15 = (0x3C6EF372FE94F82A, 20277)"
  "rand15 0x3C6EF372FE94F82A = (0xDAA66D2C7DDF743F, 11916)"
  by (simp_all add: rand15_def next_u64_def rng_mix_def Let_def)

lemmas float_eval =
  f32_val_def f64_val_def f32_of_def f64_of_def decode_mag_def round_mag_def f32_fmt_def f64_fmt_def rne_shift_def
  fscale_def fval_of_int_def Let_def

lemma step_lengths: "f64_div (f64_of_int 2) (f64_of_int 32767) = 0x3F10002000400080"
  by (simp add: f64_div_def f64_of_int_def float_eval bit_len.simps)

lemma bit_len_numeral: "bit_len (numeral n) = Suc (bit_len (numeral n div 2))" "bit_len (Suc 0) = 1"
  by (simp_all add: bit_len.simps [of "numeral n"] bit_len.simps [of "Suc 0"])

lemma draws_as_floats:
  "f64_of_int 21532 = 0x40d5070000000000"
  "f64_of_int 20277 = 0x40d3cd4000000000"
  "f64_of_int 11916 = 0x40c7460000000000"
  "f64_of_int 1 = 0x3ff0000000000000"
  by (simp_all add: f64_of_int_def float_eval bit_len_numeral)

lemma draws_scaled:
  "f64_mul 0x40d5070000000000 0x3f10002000400080 = 0x3ff5072a0e541ca8"
  "f64_mul 0x40d3cd4000000000 0x3f10002000400080 = 0x3ff3cd679acf359e"
  "f64_mul 0x40c7460000000000 0x3f10002000400080 = 0x3fe7462e8c5d18ba"
  by (simp_all add: f64_mul_def float_eval bit_len_numeral)

lemma draws_centred:
  "f64_sub 0x3ff5072a0e541ca8 0x3ff0000000000000 = 0x3fd41ca8395072a0"
  "f64_sub 0x3ff3cd679acf359e 0x3ff0000000000000 = 0x3fce6b3cd679acf0"
  "f64_sub 0x3fe7462e8c5d18ba 0x3ff0000000000000 = 0xbfd173a2e745ce8c"
  by (simp_all add: f64_sub_def fsub_def float_eval bit_len_numeral)

lemma draws_narrowed:
  "f32_of_f64 0x3fd41ca8395072a0 = 0x3ea0e542"
  "f32_of_f64 0x3fce6b3cd679acf0 = 0x3e7359e7"
  "f32_of_f64 0xbfd173a2e745ce8c = 0xbe8b9d17"
  by (simp_all add: f32_of_f64_def float_eval bit_len_numeral)

lemma first_coordinates:
  "unit_coordinate 21532 = 0x3ea0e542" "unit_coordinate 20277 = 0x3e7359e7" "unit_coordinate 11916 = 0xbe8b9d17"
  by (simp_all add: unit_coordinate_def step_lengths draws_as_floats draws_scaled draws_centred draws_narrowed)

lemma first_squares:
  "f32_mul 0x3ea0e542 0x3ea0e542 = 0x3dca3ec0"
  "f32_mul 0x3e7359e7 0x3e7359e7 = 0x3d6753cc"
  "f32_mul 0xbe8b9d17 0xbe8b9d17 = 0x3d9847ef"
  by (simp_all add: f32_mul_def float_eval bit_len_numeral)

lemma first_sums:
  "f32_add 0x3dca3ec0 0x3d6753cc = 0x3e1ef453"
  "f32_add 0x3e1ef453 0x3d9847ef = 0x3e6b184a"
  by (simp_all add: f32_add_def float_eval bit_len_numeral)

lemma first_length:
  "f32_lt 0x3e6b184a f32_one"
  by (simp_all add: f32_lt_def float_eval bit_len_numeral)

lemma first_inside: "inside_unit (0x3ea0e542, 0x3e7359e7, 0xbe8b9d17)"
  by (simp add: inside_unit_def first_squares first_sums first_length)

lemma draw_vec_0: "draw_vec 0 = (0xDAA66D2C7DDF743F, 0x3ea0e542, 0x3e7359e7, 0xbe8b9d17)"
  by (simp add: draw_vec_def first_draws first_coordinates)

text \<open>Three draws move the state by an odd number, so every state leads to 0.\<close>

lemma state_0_ahead: "\<exists>n. s + of_nat n * 0xDAA66D2C7DDF743F = (0 :: u64)"
proof
  let ?a = "0x509f814b33127bbf :: u64" and ?g = "0xDAA66D2C7DDF743F :: u64"
  have "?a * ?g = 1" by simp
  then have "- s * ?a * ?g = - s" by (simp only: mult.assoc mult.right_neutral)
  moreover have "of_nat (unat (- s * ?a)) = - s * ?a" by (simp only: of_nat_unat ucast_id)
  ultimately show "s + of_nat (unat (- s * ?a)) * ?g = 0" by (simp only: right_minus)
qed

lemma random_unit_from:
  "s + of_nat n * 0xDAA66D2C7DDF743F = 0 \<Longrightarrow> \<exists>s' v. random_unit s = Some (s', v) \<and> inside_unit v"
proof (induction n arbitrary: s)
  case 0
  then show ?case by (subst random_unit.simps) (simp add: draw_vec_0 first_inside)
next
  case (Suc n)
  obtain s1 v where d: "draw_vec s = (s1, v)" by (cases "draw_vec s")
  then have "s1 = s + 0xDAA66D2C7DDF743F" using draw_vec_state [of s] by simp
  then have "s1 + of_nat n * 0xDAA66D2C7DDF743F = 0" using Suc(2) by (simp add: algebra_simps)
  from Suc(1) [OF this] obtain s' x where r: "random_unit s1 = Some (s', x)" "inside_unit x" by blast
  show ?case
  proof (cases "inside_unit v")
    case True
    then show ?thesis by (subst random_unit.simps) (simp add: d)
  next
    case False
    then show ?thesis using r by (subst random_unit.simps) (simp add: d)
  qed
qed

lemma random_unit_returns: "\<exists>s' v. random_unit s = Some (s', v) \<and> inside_unit v"
  using state_0_ahead [of s] random_unit_from by blast

text \<open>C38: \<open>randomvec\<close> always returns, whatever the state of the generator, with a vector strictly inside the unit sphere: its
  draws cannot miss the sphere for ever.\<close>

theorem random_vector_found: "\<exists>s' v. random_unit s = Some (s', v) \<and> inside_unit v"
  by (rule random_unit_returns)

section \<open>Angles\<close>

text \<open>A negative angle close to zero is wrapped to 360 degrees itself, not into the half-open range that \<open>anglemod\<close> documents.\<close>

theorem anglemod_reaches_360: "anglemod_value 0xAEDBE6FF = f32_360"
proof -
  have "f32_rem 0xAEDBE6FF f32_360 = 0xAEDBE6FF"
    by (simp add: f32_rem_def float_eval bit_len_numeral)
  moreover have "\<not> f32_le f32_360 0xAEDBE6FF" "f32_lt 0xAEDBE6FF 0"
    by (simp_all add: f32_le_def f32_lt_def f32_eq_def float_eval bit_len_numeral)
  moreover have "f32_add 0xAEDBE6FF f32_360 = f32_360"
    by (simp add: f32_add_def float_eval bit_len_numeral)
  ultimately show ?thesis by (simp add: anglemod_value_def)
qed

section \<open>They keep to the contract of the engine\<close>

lemma tame_rng [tame_intros]: "tame c (c\<lparr>c_rng := s\<rparr>)"
  by (rule tame_parts) simp_all

lemma tame_maths:
  "tame c (fst (double_fn f c))" "tame c (fst (double_fn_d f c))" "tame c (fst (atan2d M c))" "tame c (fst (powd M c))"
  "tame c (fst (logd M c))" "tame c (fst (atan2_qc M c))" "tame c (fst (pow_qc M c))" "tame c (fst (log_qc M c))"
  "tame c (fst (rint c))" "tame c (fst (bound_qc c))" "tame c (fst (min_qc c))" "tame c (fst (max_qc c))"
  "tame c (fst (modulo c))" "tame c (fst (bitshift c))" "tame c (fst (anglemod c))" "tame c (fst (anglesub c))"
  "tame c (fst (random c))"
  by (auto simp: double_fn_def double_fn_d_def atan2d_def powd_def logd_def atan2_qc_def pow_qc_def log_qc_def rint_def
      bound_qc_def min_qc_def max_qc_def extreme_def modulo_def bitshift_def anglemod_def anglesub_def random_def Let_def
      intro: tame_intros tame_refl tame_trans [OF tame_rng tame_ret(2)] tame_trans [OF tame_warn(2) tame_ret(2)]
      split: prod.split)

lemma obeys_randomvec: "obeys (looping_builtin randomvec)"
proof (rule obeys_looping)
  show "randomvec c \<noteq> None" for c using random_unit_returns [of "c_rng c"] by (auto simp: randomvec_def)
  show "tame c (fst r)" if "randomvec c = Some r" for c r
    using that by (auto simp: randomvec_def intro: tame_trans [OF tame_rng tame_ret(1)])
qed

end
