(* ===== verification/Stdlib.thy ===== *)
theory Stdlib
  imports Format Convert Digest InfoStr Markup Maths
begin

text \<open>
  The registry of standard builtins (\<open>Builtins::standard\<close> and \<open>register_all\<close> of \<open>src/stdlib/mod.rs\<close>, and the
  \<open>register\<close> functions of the modelled modules), and the machine that runs them: the builtins that call
  back get the machine's own \<open>call\<close>.

  The recursion between calls and builtins is unrolled: \<open>calls n\<close> allows \<open>n\<close> nested calls, the builtins of
  \<open>calls (Suc n)\<close> call \<open>calls n\<close>, and \<open>calls 0\<close> is refused, as the machine refuses calls beyond its reentry
  limit.  The host registers builtins of its own as well, and has hooks that calls run: \<open>host_ok\<close> says what this code has
  to keep to.  \<open>hosted\<close> are the machines a host can have, from the file to any use of the methods of \<open>Vm\<close> (\<open>src/vm/mod.rs\<close>).
\<close>

section \<open>Registering\<close>

datatype (plugins only: code size) 'f reg_step = RegSet string 'f | RegFte u32 string 'f | RegAlias string string

fun register_step :: "'f registry \<Rightarrow> 'f reg_step \<Rightarrow> 'f registry" where
  "register_step r (RegSet name f) = registry_set r name f"
| "register_step r (RegFte n name f) = set_fte r n name f"
| "register_step r (RegAlias name target) = registry_alias r name target"

definition hash_steps :: "'h caller \<Rightarrow> 'h std_act reg_step list" where
  "hash_steps K =
     [RegSet ''hash_createtab'' (pure_builtin hash_createtab), RegSet ''hash_destroytab'' (pure_builtin hash_destroytab),
      RegSet ''hash_add'' (pure_builtin hash_add), RegSet ''hash_get'' (pure_builtin hash_get),
      RegSet ''hash_delete'' (pure_builtin hash_delete), RegSet ''hash_getkey'' (pure_builtin hash_getkey),
      RegFte 293 ''hash_getcb'' (hash_getcb K)]"

definition hostcall_steps :: "(std_state, 'h) services \<Rightarrow> 'h std_act reg_step list" where
  "hostcall_steps S =
     [RegSet ''print'' (hc_print S), RegSet ''dprint'' (dprint S), RegSet ''cprint'' (cprint S),
      RegSet ''error'' (pure_builtin qc_error), RegSet ''localcmd'' (localcmd S), RegSet ''cvar'' (cvar S),
      RegSet ''cvar_string'' (cvar_string S), RegSet ''cvar_set'' (cvar_set S), RegSet ''cvar_type'' (cvar_type S),
      RegSet ''cvar_defstring'' (cvar_defstring S), RegSet ''cvar_description'' (cvar_description S),
      RegSet ''registercvar'' (registercvar S), RegSet ''checkextension'' (checkextension S),
      RegSet ''checkcommand'' (checkcommand S), RegSet ''registercommand'' (registercommand S),
      RegSet ''isdemo'' (isdemo S), RegSet ''isserver'' (isserver S), RegSet ''cvars_haveunsaved'' (cvars_haveunsaved S)]"

definition introspect_steps :: "'h caller \<Rightarrow> 'h std_act reg_step list" where
  "introspect_steps K =
     [RegSet ''checkbuiltin'' (pure_builtin checkbuiltin), RegSet ''isfunction'' (pure_builtin isfunction),
      RegFte 605 ''callfunction'' (callfunction K), RegSet ''externcall'' (externcall K),
      RegSet ''externvalue'' (pure_builtin externvalue), RegSet ''externset'' (pure_builtin externset),
      RegFte 205 ''externrefcall'' (externrefcall K), RegSet ''abort'' abort_qc, RegSet ''traceon'' traceon,
      RegSet ''traceoff'' traceoff, RegSet ''breakpoint'' (pure_builtin breakpoint), RegSet ''crash'' (pure_builtin crash)]"

definition strbuf_steps :: "(std_state, 'h) services \<Rightarrow> 'h std_act reg_step list" where
  "strbuf_steps S =
     [RegSet ''buf_create'' (pure_builtin buf_create), RegSet ''buf_del'' (pure_builtin buf_del),
      RegSet ''buf_getsize'' (pure_builtin buf_getsize), RegSet ''buf_copy'' (pure_builtin buf_copy),
      RegSet ''buf_sort'' (pure_builtin buf_sort), RegSet ''buf_implode'' (pure_builtin buf_implode),
      RegSet ''bufstr_get'' (pure_builtin bufstr_get), RegSet ''bufstr_set'' (pure_builtin bufstr_set),
      RegSet ''bufstr_add'' (pure_builtin bufstr_add), RegSet ''bufstr_free'' (pure_builtin bufstr_free),
      RegSet ''bufstr_find'' (pure_builtin bufstr_find), RegSet ''buf_cvarlist'' (buf_cvarlist S),
      RegSet ''buf_loadfile'' (buf_loadfile S)]"

definition token_steps :: "'h std_act reg_step list" where
  "token_steps =
     [RegSet ''tokenize'' (pure_builtin tokenize), RegSet ''tokenize_console'' (pure_builtin tokenize_console),
      RegSet ''tokenizebyseparator'' (pure_builtin tokenizebyseparator), RegSet ''argv'' (pure_builtin argv),
      RegSet ''argc'' (pure_builtin argc_tokens), RegSet ''argv_start_index'' (pure_builtin argv_start_index),
      RegSet ''argv_end_index'' (pure_builtin argv_end_index)]"

definition convert_steps :: "libs \<Rightarrow> 'h std_act reg_step list" where
  "convert_steps M =
     [RegSet ''ftos'' (pure_builtin ftos), RegSet ''vtos'' (pure_builtin vtos), RegSet ''etos'' (pure_builtin etos),
      RegSet ''itos'' (pure_builtin itos), RegSet ''htos'' (pure_builtin htos), RegSet ''stoi'' (pure_builtin stoi),
      RegSet ''stoh'' (pure_builtin stoh), RegSet ''stod'' (pure_builtin (stod (lb_math M))),
      RegSet ''stol'' (pure_builtin stol), RegSet ''stoul'' (pure_builtin stoul), RegSet ''ftoi'' (pure_builtin ftoi),
      RegSet ''itof'' (pure_builtin itof), RegSet ''ftou'' (pure_builtin ftou), RegSet ''utof'' (pure_builtin utof),
      RegSet ''stof'' (pure_builtin (stof (lb_math M))), RegSet ''stov'' (pure_builtin (stov (lb_math M)))]"

definition digest_steps :: "libs \<Rightarrow> 'h std_act reg_step list" where
  "digest_steps M =
     [RegSet ''crc16'' (pure_builtin crc16), RegSet ''digest_hex'' (pure_builtin (digest_hex M)),
      RegSet ''digest_ptr'' (pure_builtin (digest_ptr M))]"

definition format_steps :: "'h std_act reg_step list" where
  "format_steps = [RegSet ''sprintf'' (pure_builtin sprintf)]"

definition memory_steps :: "'h std_act reg_step list" where
  "memory_steps =
     [RegSet ''memalloc'' (pure_builtin memalloc), RegSet ''memfree'' (pure_builtin memfree),
      RegSet ''memrealloc'' (pure_builtin memrealloc), RegSet ''memcpy'' (pure_builtin memcpy),
      RegSet ''memfill8'' (pure_builtin memfill8), RegSet ''memgetval'' (pure_builtin memgetval),
      RegSet ''memsetval'' (pure_builtin memsetval), RegSet ''memptradd'' (pure_builtin memptradd),
      RegSet ''memcmp'' (pure_builtin memcmp), RegSet ''createbuffer'' (pure_builtin createbuffer),
      RegSet ''base64encode'' (pure_builtin base64encode), RegSet ''base64decode'' (pure_builtin base64decode)]"

definition math_steps :: "libs \<Rightarrow> 'h std_act reg_step list" where
  "math_steps M =
     [RegSet ''sin'' (pure_builtin (double_fn (lm_sin (lb_math M)))),
      RegSet ''cos'' (pure_builtin (double_fn (lm_cos (lb_math M)))),
      RegSet ''tan'' (pure_builtin (double_fn (lm_tan (lb_math M)))),
      RegSet ''asin'' (pure_builtin (double_fn (lm_asin (lb_math M)))),
      RegSet ''acos'' (pure_builtin (double_fn (lm_acos (lb_math M)))),
      RegSet ''atan'' (pure_builtin (double_fn (lm_atan (lb_math M)))),
      RegSet ''atan2'' (pure_builtin (atan2_qc (lb_math M))),
      RegSet ''sqrt'' (pure_builtin (double_fn (lm_sqrt (lb_math M)))),
      RegSet ''pow'' (pure_builtin (pow_qc (lb_math M))),
      RegSet ''floor'' (pure_builtin (double_fn (lm_floor (lb_math M)))),
      RegSet ''ceil'' (pure_builtin (double_fn (lm_ceil (lb_math M)))),
      RegSet ''fabs'' (pure_builtin (double_fn (lm_fabs (lb_math M)))), RegSet ''rint'' (pure_builtin rint),
      RegSet ''bound'' (pure_builtin bound_qc), RegSet ''min'' (pure_builtin min_qc),
      RegSet ''max'' (pure_builtin max_qc), RegSet ''mod'' (pure_builtin modulo), RegAlias ''modulo'' ''mod'',
      RegSet ''bitshift'' (pure_builtin bitshift), RegSet ''log'' (pure_builtin (log_qc (lb_math M))),
      RegAlias ''logarithm'' ''log'', RegSet ''anglemod'' (pure_builtin anglemod),
      RegSet ''anglesub'' (pure_builtin anglesub), RegSet ''random'' (pure_builtin random),
      RegSet ''randomvec'' (looping_builtin randomvec),
      RegSet ''sind'' (pure_builtin (double_fn_d (lm_sin (lb_math M)))),
      RegSet ''cosd'' (pure_builtin (double_fn_d (lm_cos (lb_math M)))),
      RegSet ''tand'' (pure_builtin (double_fn_d (lm_tan (lb_math M)))),
      RegSet ''acosd'' (pure_builtin (double_fn_d (lm_acos (lb_math M)))),
      RegSet ''atand'' (pure_builtin (double_fn_d (lm_atan (lb_math M)))),
      RegSet ''atan2d'' (pure_builtin (atan2d (lb_math M))),
      RegSet ''sqrtd'' (pure_builtin (double_fn_d (lm_sqrt (lb_math M)))),
      RegSet ''powd'' (pure_builtin (powd (lb_math M))),
      RegSet ''floord'' (pure_builtin (double_fn_d (lm_floor (lb_math M)))),
      RegSet ''ceild'' (pure_builtin (double_fn_d (lm_ceil (lb_math M)))),
      RegSet ''fabsd'' (pure_builtin (double_fn_d (lm_fabs (lb_math M)))),
      RegSet ''logd'' (pure_builtin (logd (lb_math M)))]"

definition string_steps :: "'h std_act reg_step list" where
  "string_steps =
     [RegSet ''strlen'' (pure_builtin strlen), RegSet ''memstrsize'' (pure_builtin memstrsize),
      RegSet ''strcat'' (pure_builtin strcat), RegSet ''strzone'' (pure_builtin strcat),
      RegSet ''strunzone'' (pure_builtin strunzone), RegSet ''substring'' (pure_builtin substring),
      RegSet ''strstrofs'' (looping_builtin strstrofs), RegSet ''str2chr'' (pure_builtin str2chr),
      RegSet ''chr2str'' (pure_builtin chr2str), RegSet ''strconv'' (pure_builtin strconv),
      RegSet ''strpad'' (pure_builtin strpad), RegSet ''strtrim'' (pure_builtin strtrim),
      RegSet ''strreplace'' (pure_builtin strreplace), RegSet ''strireplace'' (pure_builtin strireplace),
      RegSet ''strncmp'' (pure_builtin strncmp), RegSet ''strcmp'' (pure_builtin strncmp),
      RegSet ''strcasecmp'' (pure_builtin strcasecmp), RegSet ''strncasecmp'' (pure_builtin strcasecmp),
      RegSet ''strtolower'' (pure_builtin strtolower), RegSet ''strtoupper'' (pure_builtin strtoupper),
      RegSet ''strdecolorize'' (pure_builtin strdecolorize), RegSet ''strlennocol'' (pure_builtin strlennocol),
      RegSet ''infoadd'' (pure_builtin infoadd), RegSet ''infoget'' (pure_builtin infoget),
      RegSet ''uri_escape'' (pure_builtin uri_escape), RegSet ''uri_unescape'' (pure_builtin uri_unescape),
      RegSet ''argescape'' (pure_builtin argescape), RegSet ''instr'' (looping_builtin instr),
      RegSet ''validstring'' (pure_builtin validstring), RegSet ''altstr_count'' (pure_builtin altstr_count),
      RegSet ''altstr_prepare'' (pure_builtin altstr_prepare), RegSet ''altstr_get'' (pure_builtin altstr_get),
      RegSet ''altstr_set'' (pure_builtin altstr_set)]"

definition all_steps :: "libs \<Rightarrow> (std_state, 'h) services \<Rightarrow> 'h caller \<Rightarrow> 'h std_act reg_step list" where
  "all_steps M S K =
     convert_steps M @ digest_steps M @ format_steps @ hash_steps K @ hostcall_steps S @ introspect_steps K @
     math_steps M @ memory_steps @ strbuf_steps S @ string_steps @ token_steps"

definition standard :: "libs \<Rightarrow> (std_state, 'h) services \<Rightarrow> 'h caller \<Rightarrow> numbering \<Rightarrow> (std_state, 'h) builtins" where
  "standard M S K k = foldl register_step (registry_empty k) (all_steps M S K)"

section \<open>The machine of the standard builtins\<close>

text \<open>The builtins of a host are what it registered, in order: \<open>R K\<close>, where \<open>K\<close> is how its builtins call QuakeC.  For a
  host that registers the standard builtins and no others, \<open>R\<close> is \<open>all_steps M S\<close>.  Calls nest at most \<open>n\<close> deep here; the
  limit on reentry of the configuration stops them before for every \<open>n\<close> above it.\<close>

type_synonym 'h registered = "'h caller \<Rightarrow> 'h std_act reg_step list"

primrec calls :: "(std_state, 'h) host \<Rightarrow> 'h registered \<Rightarrow> numbering \<Rightarrow> nat \<Rightarrow> 'h caller" where
  "calls H R k 0 = (\<lambda>f as. guarded (fails Reentrancy))"
| "calls H R k (Suc n) = (\<lambda>f as. call H (foldl register_step (registry_empty k) (R (calls H R k n))) f as)"

definition builtins_of :: "(std_state, 'h) host \<Rightarrow> 'h registered \<Rightarrow> numbering \<Rightarrow> nat \<Rightarrow> (std_state, 'h) builtins" where
  "builtins_of H R k n = foldl register_step (registry_empty k) (R (calls H R k n))"

lemma calls_Suc: "calls H R k (Suc n) f as = call H (builtins_of H R k n) f as"
  by (simp add: builtins_of_def)

lemma builtins_standard: "builtins_of H (all_steps M S) k n = standard M S (calls H (all_steps M S) k n) k"
  by (simp add: builtins_of_def standard_def)

section \<open>What a registry holds\<close>

definition holds_only :: "('f \<Rightarrow> bool) \<Rightarrow> 'f registry \<Rightarrow> bool" where
  "holds_only P r \<longleftrightarrow> list_all (\<lambda>e. P (en_func e)) (bt_entries r)"

lemma holds_nth: "holds_only P r \<Longrightarrow> nth_opt (bt_entries r) i = Some e \<Longrightarrow> P (en_func e)"
  by (auto simp: holds_only_def list_all_length nth_opt_Some)

lemma holds_insert: "holds_only P r \<Longrightarrow> P f \<Longrightarrow> holds_only P (registry_insert r name number f)"
proof -
  assume r: "holds_only P r" and f: "P f"
  let ?e = "\<lambda>m. \<lparr>en_name = name, en_number = m, en_func = f\<rparr>"
  have e: "holds_only P (r\<lparr>bt_entries := es, bt_by_name := x\<rparr>) = list_all (\<lambda>e. P (en_func e)) es"
    "holds_only P (r\<lparr>bt_by_number := y, bt_entries := es\<rparr>) = list_all (\<lambda>e. P (en_func e)) es"
    "holds_only P (s\<lparr>bt_by_number := y\<rparr>) = holds_only P s" for es x y s
    by (simp_all add: holds_only_def)
  have "list_all (\<lambda>e. P (en_func e)) (bt_entries r @ [?e m])" for m using r f by (simp add: holds_only_def)
  moreover have "list_all (\<lambda>e. P (en_func e)) ((bt_entries r)[i := ?e m])" for i m
    using r f by (auto simp: holds_only_def list_all_iff dest!: set_update_subset_insert [THEN subsetD])
  ultimately show ?thesis
    using r by (simp add: registry_insert_def Let_def e split: option.split)
qed

fun step_func :: "'f reg_step \<Rightarrow> 'f option" where
  "step_func (RegSet _ f) = Some f"
| "step_func (RegFte _ _ f) = Some f"
| "step_func (RegAlias _ _) = None"

lemma holds_step:
  assumes "holds_only P r" "\<And>f. step_func s = Some f \<Longrightarrow> P f"
  shows "holds_only P (register_step r s)"
proof (cases s)
  case (RegAlias name target)
  then show ?thesis using assms(1)
    by (auto simp: registry_alias_def intro: holds_insert holds_nth split: option.split bind_splits)
qed (use assms in \<open>auto simp: registry_set_def set_fte_def set_numbered_def intro: holds_insert\<close>)

lemma holds_steps:
  assumes "holds_only P r" "\<And>s f. s \<in> set ss \<Longrightarrow> step_func s = Some f \<Longrightarrow> P f"
  shows "holds_only P (foldl register_step r ss)"
  using assms by (induction ss arbitrary: r) (auto intro: holds_step)

text \<open>Every standard builtin keeps the contract of the engine, if the calls it makes do.\<close>

lemma pure_obeys: "(\<And>c. tame c (fst (f c))) \<Longrightarrow> obeys (pure_builtin f)"
  by (rule tame_obeys)

lemmas tame_containers =
  keepingD(1) [OF keeping_buffers] keepingD(1) [OF keeping_hash]

lemma standard_obeys:
  fixes K :: "'h caller"
  assumes K: "\<And>f as. obeys (K f as)" and s: "s \<in> set (all_steps M S K)" "step_func s = Some b"
  shows "obeys b"
proof -
  have buf: "obeys (pure_builtin f :: 'h std_act)" if "f \<in> set buffer_builtins" for f
    using tame_containers(1) [OF that] by (rule tame_obeys)
  have hash: "obeys (pure_builtin f :: 'h std_act)" if "f \<in> set hash_builtins" for f
    using tame_containers(2) [OF that] by (rule tame_obeys)
  have "list_all (\<lambda>s. \<forall>f. step_func s = Some f \<longrightarrow> obeys f) (hash_steps K)"
    using hash obeys_hash_getcb [where K = K, OF K] by (simp add: hash_steps_def hash_builtins_def)
  moreover have "list_all (\<lambda>s. \<forall>f. step_func s = Some f \<longrightarrow> obeys f) (hostcall_steps S)"
    using obeys_hostcalls [of S] tame_obeys [OF tame_introspection(7)] by (simp add: hostcall_steps_def)
  moreover have "list_all (\<lambda>s. \<forall>f. step_func s = Some f \<longrightarrow> obeys f) (introspect_steps K)"
    using obeys_externs [where K = K, OF K] obeys_abort obeys_tracing tame_obeys [OF tame_introspection(1)]
      tame_obeys [OF tame_introspection(2)] tame_obeys [OF tame_introspection(3)] tame_obeys [OF tame_introspection(4)]
      tame_obeys [OF tame_introspection(5)] tame_obeys [OF tame_introspection(6)]
    by (simp add: introspect_steps_def)
  moreover have "list_all (\<lambda>s. \<forall>f. step_func s = Some f \<longrightarrow> obeys f) (strbuf_steps S)"
    using buf obeys_buffer_hosts [of S] by (simp add: strbuf_steps_def buffer_builtins_def)
  moreover have "list_all (\<lambda>s. \<forall>f. step_func s = Some f \<longrightarrow> obeys f) (token_steps :: 'h std_act reg_step list)"
    by (simp add: token_steps_def tame_obeys tame_tokenizers)
  moreover have "list_all (\<lambda>s. \<forall>f. step_func s = Some f \<longrightarrow> obeys f) (convert_steps M :: 'h std_act reg_step list)"
    by (simp add: convert_steps_def tame_obeys tame_conversions tame_scanners)
  moreover have "list_all (\<lambda>s. \<forall>f. step_func s = Some f \<longrightarrow> obeys f) (digest_steps M @ format_steps :: 'h std_act reg_step list)"
    by (simp add: digest_steps_def format_steps_def tame_obeys tame_digests tame_sprintf)
  moreover have "list_all (\<lambda>s. \<forall>f. step_func s = Some f \<longrightarrow> obeys f) (math_steps M :: 'h std_act reg_step list)"
    by (simp add: math_steps_def tame_obeys tame_maths obeys_randomvec)
  moreover have "list_all (\<lambda>s. \<forall>f. step_func s = Some f \<longrightarrow> obeys f) (string_steps :: 'h std_act reg_step list)"
    by (simp add: string_steps_def tame_obeys tame_strings_done tame_markup tame_info obeys_searches)
  moreover have "list_all (\<lambda>s. \<forall>f. step_func s = Some f \<longrightarrow> obeys f) (memory_steps :: 'h std_act reg_step list)"
    by (simp add: memory_steps_def tame_obeys tame_pointers)
  ultimately have "list_all (\<lambda>s. \<forall>f. step_func s = Some f \<longrightarrow> obeys f) (all_steps M S K)"
    by (simp add: all_steps_def)
  then show ?thesis using s by (auto simp: list_all_iff)
qed

section \<open>The program of a machine stays\<close>

text \<open>Nothing changes the main program of a machine, which \<open>vm_reset\<close> needs, not even a call that panics.\<close>

definition keeps_main :: "('s, 'h, 'a) act \<Rightarrow> bool" where
  "keeps_main m \<longleftrightarrow> (\<forall>v h v' h' r. m (v, h) = Some ((v', h'), r) \<longrightarrow> v_main v' = v_main v)"

named_theorems keeps_main_intros

lemma keeps_mainD: "keeps_main m \<Longrightarrow> m (v, h) = Some ((v', h'), r) \<Longrightarrow> v_main v' = v_main v"
  unfolding keeps_main_def by blast

lemma main_on_core [simp]: "v_main (on_core f v) = v_main v"
  by (simp add: on_core_def)

lemma keeps_main_and_then [keeps_main_intros]: "keeps_main m \<Longrightarrow> (\<And>x. keeps_main (k x)) \<Longrightarrow> keeps_main (and_then m k)"
  unfolding keeps_main_def and_then_def by (fastforce split: option.splits fate.splits)

lemma keeps_main_basic [keeps_main_intros]:
  "keeps_main (core_act f)" "keeps_main (look g)" "keeps_main (ask q)" "keeps_main (give x)" "keeps_main (fails e)"
  "keeps_main (change t)" "keeps_main (may_fail u)" "keeps_main (pure_builtin b)" "keeps_main (looping_builtin l)"
  "keeps_main (\<lambda>w. Some (w, fate))"
  by (auto simp: keeps_main_def core_act_def look_def ask_def give_def fails_def change_def may_fail_def pure_builtin_def
      looping_builtin_def split: prod.splits option.splits)

lemma keeps_main_for_each [keeps_main_intros]: "(\<And>x. keeps_main (m x)) \<Longrightarrow> keeps_main (for_each m xs)"
  by (induction xs) (simp_all add: keeps_main_intros)

lemma keeps_main_engine [keeps_main_intros]:
  "keeps_main (fail e d)" "keeps_main (flush_warnings H)" "keeps_main (flush_fail H ek d)" "keeps_main (serve_trace H)"
  "keeps_main (serve_budget H chunk d)"
proof -
  show f: "keeps_main (fail e d)" for e d by (simp add: keeps_main_def fail_def)
  show "keeps_main (flush_warnings H)" by (auto simp: keeps_main_def flush_warnings_def split: prod.splits)
  then show ff: "keeps_main (flush_fail H ek d)" for ek d unfolding flush_fail_def by (intro keeps_main_and_then f)
  show "keeps_main (serve_trace H)" by (auto simp: keeps_main_def serve_trace_def Let_def split: prod.splits)
  show "keeps_main (serve_budget H chunk d)"
    using keeps_mainD [OF ff] by (fastforce simp: keeps_main_def serve_budget_def Let_def split: prod.splits option.splits if_splits)
qed

lemma keeps_main_run_builtin:
  assumes "\<And>b. builtin_func B slot = Some b \<Longrightarrow> keeps_main b"
  shows "keeps_main (run_builtin H B slot f d)"
  unfolding keeps_main_def
proof (intro allI impI)
  fix v h v' h' r assume r: "run_builtin H B slot f d (v, h) = Some ((v', h'), r)"
  have fl: "fail e d w = Some ((v', h'), r) \<Longrightarrow> v_main v' = v_main (fst w)" for e w
    using keeps_mainD [OF keeps_main_engine(1)] by (cases w) auto
  have "keeps_main (and_then (flush_warnings H) (\<lambda>_ w. Some (w, Done FlowContinue)))"
    by (intro keeps_main_and_then keeps_main_engine keeps_main_basic)
  then have ft: "and_then (flush_warnings H) (\<lambda>_ w. Some (w, Done FlowContinue)) w = Some ((v', h'), r) \<Longrightarrow>
      v_main v' = v_main (fst w)" for w
    by (cases w) (auto dest: keeps_mainD)
  show "v_main v' = v_main v"
  proof (cases "builtin_func B slot")
    case None
    then show ?thesis using r fl [of _ "(v, h)"] by (simp add: run_builtin_def)
  next
    case (Some b)
    note run = r [unfolded run_builtin_def prod.case Some option.case]
    obtain v2 h2 s where b: "b (on_core (\<lambda>c. c\<lparr>c_builtin := f\<rparr>) v, h) = Some ((v2, h2), s)"
      using run by (auto split: option.splits)
    have m: "v_main v2 = v_main v" using keeps_mainD [OF assms [OF Some] b] by simp
    show ?thesis
    proof (cases s)
      case (Failed e)
      show ?thesis
        using run m fl [of _ "(v2, h2)"] ft [of "(on_core (\<lambda>c. ret_raw (0, 0, 0) (vm_warn msg c)) v2, h2)" for msg]
        unfolding b Failed by (auto split: option.splits if_splits error_kind.splits bool.splits)
    qed (use run b m in auto)
  qed
qed

lemma keeps_main_turns:
  fixes H :: "('s, 'h) host"
  assumes "\<And>slot b. builtin_func B slot = Some b \<Longrightarrow> keeps_main b" "\<And>so. keeps_main (hs_state_op H so)"
  shows "keeps_main (turns H B d)"
proof -
  have so: "keeps_main (serve_state_op H so d)" for so
    using keeps_mainD [OF assms(2) [of so]] keeps_mainD [OF keeps_main_engine(1)]
    unfolding keeps_main_def serve_state_op_def by (fastforce split: option.splits fate.splits if_splits)
  have serve: "keeps_main (serve H B chunk d e)" for chunk e
    unfolding serve_def
    by (cases e) (auto intro!: keeps_main_intros so keeps_main_run_builtin assms(1))
  have turn: "keeps_main (turn H B d)"
    using keeps_mainD [OF serve] by (fastforce simp: keeps_main_def turn_def Let_def split: option.splits prod.splits)
  have "keeps_main (turn H B d) \<longrightarrow> v_main (fst (fst y)) = v_main (fst w)" if t: "turns H B d w = Some y" for w y
  proof (rule turns.raw_induct [where P = "\<lambda>H B d w y. keeps_main (turn H B d) \<longrightarrow> v_main (fst (fst y)) = v_main (fst w)", OF _ t],
      rule impI)
    fix self and H :: "('s, 'h) host" and B d w y
    assume ih: "\<And>H B d w y. self H B d w = Some y \<Longrightarrow> keeps_main (turn H B d) \<longrightarrow> v_main (fst (fst y)) = v_main (fst w)"
      and next_turn: "(case turn H B d w of None \<Rightarrow> None
        | Some (w', Done again) \<Rightarrow> if again then self H B d w' else Some (w', Done ())
        | Some (w', Failed e) \<Rightarrow> Some (w', Failed e) | Some (w', Panicked) \<Rightarrow> Some (w', Panicked)) = Some y"
      and t: "keeps_main (turn H B d)"
    obtain v h where w: "w = (v, h)" by fastforce
    obtain v' h' r where r: "turn H B d (v, h) = Some ((v', h'), r)" "v_main v' = v_main v"
      using next_turn keeps_mainD [OF t] unfolding w by (auto split: option.splits)
    show "v_main (fst (fst y)) = v_main (fst w)"
      using next_turn ih [of H B d "(v', h')" y] t r unfolding w by (auto split: fate.splits if_splits)
  qed
  then show ?thesis using turn by (fastforce simp: keeps_main_def)
qed

lemma keeps_main_call:
  assumes "\<And>slot b. builtin_func B slot = Some b \<Longrightarrow> keeps_main b" "\<And>so. keeps_main (hs_state_op H so)"
  shows "keeps_main (call H B f as)"
proof -
  have ex: "keeps_main (execute H B d)" for d
    using keeps_mainD [OF keeps_main_turns [of B H, OF assms]]
    by (fastforce simp: keeps_main_def execute_def Let_def split: option.splits fate.splits)
  have body: "keeps_main (call_body H B f callee)" for callee
    using keeps_mainD [OF ex] keeps_mainD [OF keeps_main_run_builtin [of B _ H, OF assms(1)]]
    by (fastforce simp: keeps_main_def call_body_def Let_def split: option.splits callee.splits prod.splits fate.splits)
  have fin: "keeps_main (end_of_call H outer saved ret_pr)" for outer saved ret_pr
    unfolding keeps_main_def
  proof (intro allI impI)
    fix v h v' h' r assume r: "end_of_call H outer saved ret_pr (v, h) = Some ((v', h'), r)"
    have k: "keeps_main (\<lambda>(v, h). Some ((if wants_collection (c_strings (v_core v))
        then on_core (\<lambda>c. fst (collect_garbage_now c)) v else v, h), Done ret))" for ret :: "u32 \<times> u32 \<times> u32"
      by (auto simp: keeps_main_def)
    show "v_main v' = v_main v"
      using r keeps_mainD [OF keeps_main_and_then [OF keeps_main_engine(2) k]]
      by (fastforce simp: end_of_call_def Let_def split: if_splits)
  qed
  have rest: "keeps_main (call_rest H B f as callee outer saved io_pr)" for callee outer saved io_pr
    unfolding keeps_main_def
  proof (intro allI impI)
    fix v h v' h' r assume r: "call_rest H B f as callee outer saved io_pr (v, h) = Some ((v', h'), r)"
    have k: "keeps_main (and_then (end_of_call H outer saved io_pr) (\<lambda>ret w. Some (w, s ret)))" for s
      by (intro keeps_main_and_then fin keeps_main_basic)
    show "v_main v' = v_main v"
    proof (cases "write_args io_pr as (v_core v)")
      case (Pair c x)
      show ?thesis
        using r Pair keeps_mainD [OF body] keeps_mainD [OF k]
        by (cases x) (fastforce simp: call_rest_def Let_def split: option.splits fate.splits)+
    qed
  qed
  have start: "v_main (fst (start_budgets H (v, h))) = v_main v" for v h
    by (simp add: start_budgets_def Let_def split: option.split prod.split)
  have call_in: "keeps_main (call_inner H B f as)"
    unfolding keeps_main_def
  proof (intro allI impI)
    fix v h v' h' r assume r: "call_inner H B f as (v, h) = Some ((v', h'), r)"
    define w where "w = (if c_nesting (v_core v) = 0
      then start_budgets H (on_core (\<lambda>c. c\<lparr>c_warnings_this_call := 0, c_suppressed := 0\<rparr>) v, h) else (v, h))"
    have "v_main (fst w) = v_main v" by (simp add: w_def start)
    then show "v_main v' = v_main v"
      using r keeps_mainD [OF rest, of _ _ _ _ "fst w" "snd w"]
      by (auto simp: call_inner_def Let_def w_def [symmetric] split: if_splits)
  qed
  show ?thesis
    using keeps_mainD [OF call_in]
    by (fastforce simp: keeps_main_def call_def guarded_def split: if_splits option.splits fate.splits)
qed

text \<open>The builtins that are more than an operation on data.\<close>

lemma keeps_main_builtins [keeps_main_intros]:
  "keeps_main (asking q t)" "keeps_main (dprint S)" "keeps_main (buf_cvarlist S)" "keeps_main (buf_loadfile S)"
  "keeps_main abort_qc" "keeps_main traceon" "keeps_main traceoff"
  by (auto simp: asking_def dprint_def buf_cvarlist_def buf_loadfile_def abort_qc_def intro!: keeps_main_intros split: option.split)
    (simp_all add: keeps_main_def traceon_def traceoff_def)

lemma keeps_main_callers:
  assumes K: "\<And>f as. keeps_main (K f as)"
  shows "keeps_main (callfunction K)" "keeps_main (externcall K)" "keeps_main (externrefcall K)" "keeps_main (hash_getcb K)"
proof -
  have raw: "keeps_main (call_raw K f as)" for f as
    unfolding call_raw_def by (intro keeps_main_and_then K keeps_main_basic)
  note d = keeps_mainD [OF raw] keeps_mainD [OF keeps_main_basic(4)] keeps_mainD [OF keeps_main_basic(5)]
  show "keeps_main (callfunction K)" unfolding keeps_main_def callfunction_def Let_def by (auto split: if_splits option.splits dest: d)
  show "keeps_main (externcall K)" unfolding keeps_main_def externcall_def Let_def by (auto split: if_splits option.splits dest: d)
  show "keeps_main (externrefcall K)" unfolding keeps_main_def externrefcall_def Let_def by (auto dest: d)
  have each: "keeps_main (for_each (\<lambda>e. K cb (as e)) es)" for cb as es by (intro keeps_main_for_each K)
  show "keeps_main (hash_getcb K)"
    unfolding keeps_main_def hash_getcb_def Let_def
    using keeps_mainD [OF each] by (fastforce split: prod.splits sum.splits option.splits)
qed

section \<open>The contract of the host\<close>

text \<open>What host code that a call runs has to keep to, whether it is a hook or a builtin of the host: it returns, and it works
  on the machine as the public methods do, which leave it ready with the same calls in progress, do not refill the budget,
  and do not change its main program.\<close>

definition lawful :: "('s, 'h, 'a) act \<Rightarrow> bool" where
  "lawful m \<longleftrightarrow> obeys m \<and> keeps_main m"

text \<open>A host: its hook for the state opcodes keeps to that and does not turn tracing on or off, and every builtin it
  registers is a standard one or keeps to it, provided that the calls the builtin makes do.\<close>

definition host_ok :: "libs \<Rightarrow> (std_state, 'h) host \<Rightarrow> (std_state, 'h) services \<Rightarrow> 'h registered \<Rightarrow> bool" where
  "host_ok M H S R \<longleftrightarrow> (\<forall>so. lawful (hs_state_op H so)) \<and>
     (\<forall>so v h v' h' x. hs_state_op H so (v, h) = Some ((v', h'), Done x) \<longrightarrow> v_budget v' = v_budget v \<longrightarrow>
        c_trace (v_core v') = c_trace (v_core v) \<and> v_window v' = v_window v) \<and>
     (\<forall>K. (\<forall>f as. lawful (K f as)) \<longrightarrow>
        (\<forall>s \<in> set (R K). s \<in> set (all_steps M S K) \<or> (\<forall>b. step_func s = Some b \<longrightarrow> lawful b)))"

lemma standard_keeps_main:
  fixes K :: "'h caller"
  assumes K: "\<And>f as. keeps_main (K f as)" and s: "s \<in> set (all_steps M S K)" "step_func s = Some b"
  shows "keeps_main b"
proof -
  have "list_all (\<lambda>s. \<forall>f. step_func s = Some f \<longrightarrow> keeps_main f) (all_steps M S K)"
    using keeps_main_callers [where K = K, OF K]
    by (simp add: all_steps_def convert_steps_def digest_steps_def format_steps_def hash_steps_def hostcall_steps_def
        introspect_steps_def math_steps_def memory_steps_def strbuf_steps_def string_steps_def token_steps_def
        keeps_main_basic keeps_main_builtins hc_print_def cprint_def localcmd_def cvar_def cvar_string_def cvar_set_def
        cvar_type_def cvar_defstring_def cvar_description_def registercvar_def checkextension_def checkcommand_def
        registercommand_def isdemo_def isserver_def cvars_haveunsaved_def)
  then show ?thesis using s by (auto simp: list_all_iff)
qed

lemma host_builtins_lawful:
  assumes "host_ok M H S R" "\<And>f as. lawful (calls H R k n f as)" "builtin_func (builtins_of H R k n) slot = Some b"
  shows "lawful b"
proof -
  let ?K = "calls H R k n"
  have "lawful f" if "s \<in> set (R ?K)" "step_func s = Some f" for s f
  proof -
    have "s \<in> set (all_steps M S ?K) \<or> lawful f" using assms(1,2) that unfolding host_ok_def by blast
    then show ?thesis
      using standard_obeys [where K = ?K] standard_keeps_main [where K = ?K] assms(2) that(2) unfolding lawful_def by blast
  qed
  then have "holds_only lawful (builtins_of H R k n)"
    unfolding builtins_of_def by (intro holds_steps) (simp_all add: holds_only_def registry_empty_def)
  then show ?thesis using assms(3) by (auto simp: builtin_func_def holds_nth split: bind_splits)
qed

lemma host_engine:
  assumes "host_ok M H S R" "\<And>f as. lawful (calls H R k n f as)"
  shows "engine H (builtins_of H R k n)"
  using assms(1) host_builtins_lawful [OF assms] unfolding host_ok_def lawful_def by unfold_locales blast+

lemma calls_lawful:
  assumes "host_ok M H S R"
  shows "lawful (calls H R k n f as)"
proof (induction n arbitrary: f as)
  case 0
  show ?case by (auto simp: lawful_def obeys_def keeps_main_def guarded_def fails_def in_call_def same_calls_def)
next
  case (Suc n)
  have "keeps_main (call H (builtins_of H R k n) f as)"
  proof (rule keeps_main_call)
    show "keeps_main b" if "builtin_func (builtins_of H R k n) slot = Some b" for slot b
      using host_builtins_lawful [OF assms Suc that] by (simp add: lawful_def)
    show "keeps_main (hs_state_op H so)" for so using assms by (simp add: host_ok_def lawful_def)
  qed
  then show ?case
    using engine.call_obeys [OF host_engine [OF assms Suc]] unfolding lawful_def calls_Suc by blast
qed

text \<open>The host without hooks or builtins of its own.\<close>

lemma null_host_ok: "host_ok M (null_host instants later) (null_services digests clock) (all_steps M (null_services digests clock))"
  by (simp add: host_ok_def null_host_def null_services_def lawful_def obeys_give keeps_main_basic) (simp add: give_def)

interpretation null_machine: engine "null_host instants later"
    "builtins_of (null_host instants later) (all_steps M (null_services digests clock)) k n"
  for M and instants :: "'h \<Rightarrow> nat" and later digests clock k n
  by (rule host_engine [OF null_host_ok calls_lawful [OF null_host_ok]])

lemma calls_give_back:
  assumes "host_ok M H S R" "vm_ready v"
  shows "\<exists>v' h' r. calls H R k n f as (v, h) = Some ((v', h'), r) \<and> (r \<noteq> Panicked \<longrightarrow> gave_back v v')"
proof (cases n)
  case 0
  then show ?thesis using assms(2) by (simp add: guarded_def fails_def gave_back_def same_calls_def)
next
  case (Suc m)
  then show ?thesis
    using engine.call_gives_back [OF host_engine [OF assms(1) calls_lawful [OF assms(1)]] assms(2)]
    by (simp add: calls_Suc del: calls.simps)
qed

definition sample_libs :: libs where
  "sample_libs =
     \<lparr>lb_math =
        \<lparr>lm_sin = \<lambda>x. x, lm_cos = \<lambda>x. x, lm_tan = \<lambda>x. x, lm_asin = \<lambda>x. x, lm_acos = \<lambda>x. x, lm_atan = \<lambda>x. x,
         lm_sqrt = \<lambda>x. x, lm_floor = \<lambda>x. x, lm_ceil = \<lambda>x. x, lm_fabs = \<lambda>x. x, lm_log = \<lambda>x. x,
         lm_atan2 = \<lambda>y x. y, lm_pow = \<lambda>x y. x, lm_ldexp = \<lambda>x n. x\<rparr>,
      lb_digests = False, lb_digest = \<lambda>_ _. []\<rparr>"

text \<open>The machines a host can have: created from a file the loader accepts, then used in any order by calls and by the
  methods of \<open>Vm\<close> (\<open>call_as\<close>, \<open>call_as_with\<close> and \<open>call_field_fn\<close> are calls between two \<open>set\<close>).  A machine on which a call
  panicked is poisoned: it stays one, refuses calls, and \<open>vm_reset\<close> makes it usable again.\<close>

inductive hosted :: "(std_state, 'h) host \<Rightarrow> 'h registered \<Rightarrow> numbering \<Rightarrow> nat \<Rightarrow> std_state vm \<Rightarrow> bool"
  for H R k n where
  hosted_new: "parse data = Inr p \<Longrightarrow> unat (p_file_statements p) + 1 < 2 ^ 32 \<Longrightarrow>
     vm_new (builtins_of H R k n) std_default p cfg = Inr v \<Longrightarrow> hosted H R k n v"
| hosted_reset: "hosted H R k n v \<Longrightarrow> vm_reset (builtins_of H R k n) std_default v = Inr v' \<Longrightarrow> hosted H R k n v'"
| hosted_call: "hosted H R k n v \<Longrightarrow> calls H R k (Suc n) f as (v, h) = Some ((v', h'), r) \<Longrightarrow> hosted H R k n v'"
| hosted_developer: "hosted H R k n v \<Longrightarrow> hosted H R k n (set_developer on v)"
| hosted_realtime: "hosted H R k n v \<Longrightarrow> hosted H R k n (v\<lparr>v_realtime := Some t\<rparr>)"
| hosted_trace: "hosted H R k n v \<Longrightarrow> hosted H R k n (set_trace on v)"
| hosted_new_field: "hosted H R k n v \<Longrightarrow> hosted H R k n (fst (ensure_field kind v name))"
| hosted_set_global: "hosted H R k n v \<Longrightarrow> hosted H R k n (set_global kind at ws v)"
| hosted_set_field: "hosted H R k n v \<Longrightarrow> hosted H R k n (fst (set_field kind e fld ws v))"
| hosted_write: "hosted H R k n v \<Longrightarrow> hosted H R k n (fst (write_mem p bs v))"
| hosted_spawn: "hosted H R k n v \<Longrightarrow> hosted H R k n (fst (vm_spawn elapsed v))"
| hosted_claim: "hosted H R k n v \<Longrightarrow> hosted H R k n (fst (vm_claim e v))"
| hosted_remove: "hosted H R k n v \<Longrightarrow> hosted H R k n (vm_remove elapsed e instant v)"
| hosted_protect: "hosted H R k n v \<Longrightarrow> hosted H R k n (fst (set_protected e on v))"
| hosted_temp: "hosted H R k n v \<Longrightarrow> hosted H R k n (on_core (\<lambda>c. fst (new_temp bs c)) v)"
| hosted_intern: "hosted H R k n v \<Longrightarrow> length (s_statics (c_strings (v_core v))) < 2 ^ 30 \<Longrightarrow>
     hosted H R k n (fst (vm_intern bs v))"
| hosted_pin: "hosted H R k n v \<Longrightarrow> hosted H R k n (vm_pin ref v)"
| hosted_unpin: "hosted H R k n v \<Longrightarrow> hosted H R k n (vm_unpin ref v)"
| hosted_collect: "hosted H R k n v \<Longrightarrow> hosted H R k n (fst (collect_garbage v))"
| hosted_ret: "hosted H R k n v \<Longrightarrow> hosted H R k n (on_core (ret_raw w) v)"
| hosted_ret_str: "hosted H R k n v \<Longrightarrow> hosted H R k n (on_core (\<lambda>c. fst (ret_str bs c)) v)"
| hosted_warn: "hosted H R k n v \<Longrightarrow> hosted H R k n (on_core (vm_warn msg) v)"

subsection \<open>What its methods keep\<close>

lemma foldl_ent_words:
  assumes "\<And>m x. (\<exists>off w. f m x = set_ent_word m off w) \<or> f m x = m"
  shows "ms (foldl f m xs) = ms m \<and> ls_words (foldl f m xs) = ls_words m \<and> (mem_wf m \<longrightarrow> mem_wf (foldl f m xs))"
proof (induction xs arbitrary: m)
  case (Cons x xs)
  have "ms (f m x) = ms m \<and> ls_words (f m x) = ls_words m \<and> (mem_wf m \<longrightarrow> mem_wf (f m x))"
    using assms [of m x] by (auto simp: set_ent_word_wf) (simp_all add: set_ent_word_def)
  then show ?case using Cons [of "f m x"] by simp
qed simp

lemma tame_set_fields: "tame c (on_mem (put_words set_ent_word at ws) c)"
proof -
  have "(\<exists>off w. (case x of (i, w) \<Rightarrow> set_ent_word m (at + i * 4) w) = set_ent_word m off w) \<or>
      (case x of (i, w) \<Rightarrow> set_ent_word m (at + i * 4) w) = m" for m and x :: "nat \<times> u32"
    by (cases x) auto
  note k = foldl_ent_words [where f = "\<lambda>m x. case x of (i, w) \<Rightarrow> set_ent_word m (at + i * 4) w", OF this]
  show ?thesis unfolding on_mem_def put_words_def by (intro tame_mem) (simp_all add: k)
qed

lemma put_field_words:
  "(\<exists>off w. (case x of Some at \<Rightarrow> set_ent_word m at v | None \<Rightarrow> m) = set_ent_word m off w) \<or>
   (case x of Some at \<Rightarrow> set_ent_word m at v | None \<Rightarrow> m) = m"
  by (cases x) auto

lemma tame_spawn_defaults: "tame c (apply_spawn_defaults c e)"
proof -
  note k = foldl_ent_words [where f = "\<lambda>m d. case field_offset m e (sf_field d) 1 of
      Some at \<Rightarrow> set_ent_word m at (case sf_global d of Some at \<Rightarrow> mem_g m at | None \<Rightarrow> sf_value d) | None \<Rightarrow> m", OF put_field_words]
  show ?thesis unfolding apply_spawn_defaults_def Let_def by (rule tame_mem) (simp_all add: k)
qed

lemma entity_ops_room:
  shows "spawn m now lo = Inr (m', e) \<Longrightarrow> length (ms m') = length (ms m) \<and> ls_words m' = ls_words m"
    and "claim m e = Inr m' \<Longrightarrow> length (ms m') = length (ms m) \<and> ls_words m' = ls_words m"
    and "mem_remove m e now instant clr = Inr m' \<Longrightarrow> length (ms m') = length (ms m) \<and> ls_words m' = ls_words m"
    and "mem_write m p bs = Inr m' \<Longrightarrow> length (ms m') = length (ms m) \<and> ls_words m' = ls_words m"
proof -
  have grow: "grow_to m e = Inr g \<Longrightarrow> ms g = ms m \<and> ls_words g = ls_words m" for m e g
    by (auto simp: grow_to_def Let_def split: option.splits)
  have clear: "ms (clear_fields m e ws) = ms m \<and> ls_words (clear_fields m e ws) = ls_words m" for m e ws
    unfolding clear_fields_def
    using foldl_ent_words [where f = "\<lambda>m wd. case field_offset m e wd 1 of Some off \<Rightarrow> set_ent_word m off 0 | None \<Rightarrow> m",
        OF put_field_words] by blast
  show "spawn m now lo = Inr (m', e) \<Longrightarrow> length (ms m') = length (ms m) \<and> ls_words m' = ls_words m"
    by (auto simp: spawn_def pick_slot_def bind_res_Inr slot_ops_sel Let_def split: option.splits if_splits dest!: grow)
  show "claim m e = Inr m' \<Longrightarrow> length (ms m') = length (ms m) \<and> ls_words m' = ls_words m"
    by (auto simp: claim_def bind_res_Inr slot_ops_sel split: if_splits dest!: grow)
  show "mem_remove m e now instant clr = Inr m' \<Longrightarrow> length (ms m') = length (ms m) \<and> ls_words m' = ls_words m"
    using clear by (auto simp: mem_remove_def slot_ops_sel split: option.splits if_splits)
  show "mem_write m p bs = Inr m' \<Longrightarrow> length (ms m') = length (ms m) \<and> ls_words m' = ls_words m"
    using set_region_lengths(1) [of "splice d a bs" m l for d a l]
    by (auto simp: mem_write_def set_region_fields split: if_splits sum.splits prod.splits)
qed

lemma tame_new_field:
  assumes "\<not> (if stride_shift (c_mem c) < 32 then push_bit (unat (stride_shift (c_mem c))) 1 else 0) < b"
  shows "tame c (c\<lparr>c_fields := t, c_mem := (c_mem c)\<lparr>field_bytes := b\<rparr>\<rparr>)"
proof -
  have "unat b \<le> block_len (c_mem c)" if "stride_shift (c_mem c) < 32"
  proof -
    have "unat (stride_shift (c_mem c)) < 32" using that by (simp add: word_less_nat_alt)
    then have "(2 :: nat) ^ unat (stride_shift (c_mem c)) < 2 ^ 32" by (intro power_strict_increasing) simp_all
    then have "unat (of_nat (2 ^ unat (stride_shift (c_mem c))) :: u32) = block_len (c_mem c)"
      unfolding block_len_def by (intro unat_of_nat_small) simp
    then have "unat (push_bit (unat (stride_shift (c_mem c))) 1 :: u32) = block_len (c_mem c)"
      by (simp add: push_bit_eq_mult)
    then show ?thesis using assms that by (simp add: not_less word_le_nat_alt)
  qed
  then have "mem_wf (c_mem c) \<Longrightarrow> mem_wf ((c_mem c)\<lparr>field_bytes := b\<rparr>)" by (simp add: mem_wf_def block_len_def)
  then have "tame (c\<lparr>c_fields := t\<rparr>) ((c\<lparr>c_fields := t\<rparr>)\<lparr>c_mem := (c_mem c)\<lparr>field_bytes := b\<rparr>\<rparr>)" by (intro tame_mem) simp_all
  moreover have "tame c (c\<lparr>c_fields := t\<rparr>)" by (rule tame_parts) simp_all
  ultimately show ?thesis using tame_trans by fastforce
qed

lemma tame_developer: "tame c (c\<lparr>c_config := (c_config c)\<lparr>g_developer := on\<rparr>\<rparr>)"
  by (simp add: tame_def core_wf_def stack_wf_def)

lemma pin_wf: "str_wf s \<Longrightarrow> str_wf (str_pin s r)" "str_wf s \<Longrightarrow> str_wf (str_unpin s r)"
  by (simp_all add: str_wf_def str_pin_def str_unpin_def Let_def split: str_kind.split option.split)

subsection \<open>Every machine is usable\<close>

definition usable :: "'s vm \<Rightarrow> bool" where
  "usable v \<longleftrightarrow> (c_poisoned (v_core v) \<or> vm_ready v) \<and>
     (\<exists>data. parse data = Inr (v_main v) \<and> unat (p_file_statements (v_main v)) + 1 < 2 ^ 32)"

lemma usable_core:
  assumes "usable v" "tame (v_core v) c" "c_poisoned c = c_poisoned (v_core v)"
  shows "usable (v\<lparr>v_core := c\<rparr>)"
  using assms held_ready [OF tame_held [OF assms(2)]] by (auto simp: usable_def)

lemma usable_on_core:
  "usable v \<Longrightarrow> tame (v_core v) (f (v_core v)) \<Longrightarrow> c_poisoned (f (v_core v)) = c_poisoned (v_core v) \<Longrightarrow> usable (on_core f v)"
  unfolding on_core_def by (rule usable_core)

lemma built_not_poisoned: "build_core p bn bm std cfg = Inr c \<Longrightarrow> \<not> c_poisoned c"
proof -
  have "c_poisoned (register_shared d i) = c_poisoned d" for d :: "'a core" and i
    by (simp add: register_shared_def Let_def split: option.split prod.split)
  then show "build_core p bn bm std cfg = Inr c \<Longrightarrow> \<not> c_poisoned c"
    by (auto simp: build_core_def bind_res_Inr Let_def apply_spawn_defaults_def split: sum.splits)
qed

lemma built_usable:
  assumes "parse data = Inr p" "unat (p_file_statements p) + 1 < 2 ^ 32" "build_core p bn bm std cfg = Inr c"
    "v_core v = c" "v_window v = window_fits c" "v_main v = p"
  shows "usable v"
  using built_core_ready [OF assms(1,3,2)] assms by (auto simp: usable_def vm_ready_def)

lemma poisoned_kept [simp]:
  "c_poisoned (on_mem f c) = c_poisoned c" "c_poisoned (core_warn c k) = c_poisoned c" "c_poisoned (vm_warn msg c) = c_poisoned c"
  "c_poisoned (apply_spawn_defaults c e) = c_poisoned c" "c_poisoned (ret_raw w c) = c_poisoned c" "c_poisoned (ret_word x c) = c_poisoned c"
  "c_poisoned (fst (new_temp bs c)) = c_poisoned c" "c_poisoned (fst (ret_str bs c)) = c_poisoned c"
  "c_poisoned (fst (collect_garbage_now c)) = c_poisoned c"
proof -
  show mem: "c_poisoned (on_mem f c) = c_poisoned c" for f by (simp add: on_mem_def)
  show "c_poisoned (core_warn c k) = c_poisoned c" for k by (simp add: core_warn_def Let_def)
  then show "c_poisoned (vm_warn msg c) = c_poisoned c" by (simp add: vm_warn_def)
  show "c_poisoned (apply_spawn_defaults c e) = c_poisoned c" by (simp add: apply_spawn_defaults_def)
  show ret: "c_poisoned (ret_raw w c) = c_poisoned c" for w and c :: "'a core" by (simp add: ret_raw_def on_mem_def split: prod.split)
  then show word: "c_poisoned (ret_word x c) = c_poisoned c" for c :: "'a core" and x by (simp add: ret_word_def)
  show temp: "c_poisoned (fst (new_temp bs c)) = c_poisoned c" by (simp add: new_temp_def split: prod.split sum.split)
  show "c_poisoned (fst (ret_str bs c)) = c_poisoned c"
    using temp word by (cases "new_temp bs c") (simp add: ret_str_def split: sum.split)
  show "c_poisoned (fst (collect_garbage_now c)) = c_poisoned c" by (simp add: collect_garbage_now_def split: prod.split)
qed

lemma poisoned_call:
  assumes "c_poisoned (v_core v)"
  shows "calls H R k (Suc n) f as (v, h) = Some ((v, h), Failed (vm_error_new Poisoned))"
  using assms by (simp add: call_def guarded_def)

lemma panic_poisons:
  assumes "calls H R k (Suc n) f as (v, h) = Some ((v', h'), Panicked)"
  shows "c_poisoned (v_core v')"
  using assms by (auto simp: call_def guarded_def on_core_def split: if_splits option.splits fate.splits)

lemma hosted_usable:
  assumes "hosted H R k n v" "host_ok M H S R"
  shows "usable v"
  using assms(1)
proof (induction rule: hosted.induct)
  case (hosted_new data p cfg v)
  then show ?case by (auto simp: vm_new_def split: sum.splits intro: built_usable [OF hosted_new(1,2)])
next
  case (hosted_reset v v')
  then obtain data where "parse data = Inr (v_main v)" "unat (p_file_statements (v_main v)) + 1 < 2 ^ 32"
    by (auto simp: usable_def)
  then have "usable (v\<lparr>v_core := c, v_window := window_fits c\<rparr>)" if "build_core (v_main v) bn bm std cfg = Inr c" for bn bm std cfg c
    by (rule built_usable [OF _ _ that]) simp_all
  then show ?case using hosted_reset(2) by (auto simp: vm_reset_def split: sum.splits)
next
  case (hosted_call v f as h v' h' r)
  have "v_main v' = v_main v"
    using calls_lawful [OF assms(2), of k "Suc n" f as] hosted_call(2) unfolding lawful_def keeps_main_def by metis
  moreover have "c_poisoned (v_core v') \<or> vm_ready v'"
  proof (cases "c_poisoned (v_core v)")
    case True
    then show ?thesis using hosted_call(2) by (simp add: poisoned_call del: calls.simps)
  next
    case False
    then have "vm_ready v" using hosted_call(3) by (simp add: usable_def)
    then show ?thesis
      using calls_give_back [OF assms(2), of v k "Suc n" f as h] hosted_call(2) panic_poisons
      by (cases "r = Panicked") (auto simp: gave_back_def simp del: calls.simps)
  qed
  ultimately show ?case using hosted_call(3) by (simp add: usable_def)
next
  case (hosted_developer v on)
  then show ?case unfolding set_developer_def by (intro usable_on_core) (simp_all add: tame_developer)
next
  case (hosted_realtime v t)
  then show ?case by (simp add: usable_def vm_ready_def)
next
  case (hosted_trace v on)
  then show ?case by (auto simp: usable_def set_trace_def trace_ready) (simp_all add: on_core_def)
next
  case (hosted_new_field v kind name)
  define room where "room = (if stride_shift (c_mem (v_core v)) < 32
    then push_bit (unat (stride_shift (c_mem (v_core v)))) 1 else (0 :: u32))"
  have "usable (on_core (\<lambda>c. c\<lparr>c_fields := F c, c_mem := (c_mem c)\<lparr>field_bytes := b\<rparr>\<rparr>) v)" if "\<not> room < b" for F b
    by (intro usable_on_core hosted_new_field(2) tame_new_field) (use that in \<open>simp only: room_def\<close>, simp_all)
  then show ?case
    using hosted_new_field(2) unfolding ensure_field_def Let_def room_def [symmetric]
    by (auto split: sum.split lookup_error.split option.split)
next
  case (hosted_set_global v kind at ws)
  then show ?case unfolding set_global_def by (intro usable_on_core tame_put_words) simp_all
next
  case (hosted_set_field v kind e fld ws)
  then show ?case
    by (auto simp: set_field_def intro!: usable_on_core tame_set_fields split: option.split)
next
  case (hosted_write v p bs)
  have "tame c (on_mem (\<lambda>_. m) c)" if "mem_write (c_mem c) p bs = Inr m" for c :: score and m
    unfolding on_mem_def using entity_ops_room(4) [OF that] mem_write_wf [OF _ that] by (intro tame_mem) simp_all
  then show ?case using hosted_write(2) by (auto simp: write_mem_def intro!: usable_on_core split: sum.split)
next
  case (hosted_spawn v elapsed)
  have "tame c (apply_spawn_defaults (c\<lparr>c_mem := m\<rparr>) e)" if "spawn (c_mem c) now lo = Inr (m, e)" for c :: score and now lo m e
    using entity_ops_room(1) [OF that] spawn_wf [OF _ that] by (intro tame_trans [OF tame_mem tame_spawn_defaults]) simp_all
  with hosted_spawn(2) show ?case
    by (auto simp: vm_spawn_def Let_def intro!: usable_on_core split: sum.split)
next
  case (hosted_claim v e)
  have "tame c (apply_spawn_defaults (c\<lparr>c_mem := m\<rparr>) e)" if "claim (c_mem c) e = Inr m" for c :: score and m
    using entity_ops_room(2) [OF that] claim_ok [OF _ that] by (intro tame_trans [OF tame_mem tame_spawn_defaults]) simp_all
  with hosted_claim(2) show ?case by (auto simp: vm_claim_def intro!: usable_on_core split: sum.split)
next
  case (hosted_remove v elapsed e instant)
  have "tame c (c\<lparr>c_mem := m\<rparr>)" if "mem_remove (c_mem c) e now instant clr = Inr m" for c :: score and now clr m
    using entity_ops_room(3) [OF that] mem_remove_ok [OF _ that] by (intro tame_mem) simp_all
  with hosted_remove(2) show ?case
    by (auto simp: vm_remove_def intro!: usable_on_core tame_warn split: sum.split)
next
  case (hosted_protect v e on)
  have "tame c (on_mem (\<lambda>m. m\<lparr>slots := (slots m)[unat e := s]\<rparr>) c)" for c :: score and s
    unfolding on_mem_def by (rule tame_mem) (simp_all add: mem_wf_def block_len_def)
  then show ?case using hosted_protect(2) by (auto simp: set_protected_def intro!: usable_on_core split: option.split)
next
  case (hosted_intern v bs)
  have "tame (v_core v) ((v_core v)\<lparr>c_strings := fst (str_intern (c_strings (v_core v)) bs)\<rparr>)"
    using hosted_intern(2) by (intro tame_strings str_intern_wf)
  then show ?case using hosted_intern(3)
    by (auto simp: vm_intern_def intro!: usable_on_core split: prod.split)
next
  case (hosted_collect v)
  then show ?case
    using usable_core [OF hosted_collect(2) tame_collect [of "v_core v"]]
    by (auto simp: collect_garbage_def split: prod.split)
qed (simp_all add: vm_pin_def vm_unpin_def usable_on_core tame_intros tame_strings pin_wf)

subsection \<open>The property\<close>

text \<open>C22: whatever machine a host has, however it was used before, every call into QuakeC comes back to the host: it
  ends with a result, an error or a panic of the host, and leaves a machine that the host can go on using.  Unless the
  machine was poisoned by a panic before, or the host panics now, the call gives back the frames, registers and builtin
  context it found; a call of a poisoned machine is refused and changes nothing.  \<open>host_ok\<close> is what the host's own hooks and
  builtins have to keep to; the methods not modelled are those that
  load further progs, synchronise automatic cvars and restart coroutines (\<open>multiprogs.rs\<close>, \<open>autocvars.rs\<close>, \<open>threads.rs\<close>), the file has fewer
  than 2^32 - 1 statements, and at most 2^30 strings were interned (with more, references would repeat).\<close>

theorem every_call_returns:
  assumes "hosted H R k n v" "host_ok M H S R"
  shows "\<exists>v' h' r. calls H R k (Suc n) f as (v, h) = Some ((v', h'), r) \<and> hosted H R k n v' \<and>
    (if c_poisoned (v_core v) then v' = v \<and> h' = h \<and> r = Failed (vm_error_new Poisoned)
     else if r = Panicked then c_poisoned (v_core v') else gave_back v v')"
proof (cases "c_poisoned (v_core v)")
  case True
  then show ?thesis using poisoned_call [OF True, of H R k n f as h] assms(1) by (simp del: calls.simps)
next
  case False
  then have "vm_ready v" using hosted_usable [OF assms] by (simp add: usable_def)
  then obtain v' h' r where r: "calls H R k (Suc n) f as (v, h) = Some ((v', h'), r)" "r \<noteq> Panicked \<longrightarrow> gave_back v v'"
    using calls_give_back [OF assms(2)] by blast
  then show ?thesis
    using False panic_poisons [of H R k n f as v h v' h'] hosted_call [OF assms(1) r(1)]
    by (auto simp del: calls.simps)
qed

theorem every_call_returns_witness:
  "\<exists>(v :: std_state vm) v' h' r.
     calls (null_host (\<lambda>_ :: unit. 0) (\<lambda>_ _. None)) (all_steps sample_libs (null_services True (\<lambda>_. None))) MenuNumbers 65 1 [] (v, ()) =
       Some ((v', h'), r) \<and> \<not> c_poisoned (v_core v) \<and> (r \<noteq> Panicked \<longrightarrow> gave_back v v')"
proof -
  let ?H = "null_host (\<lambda>_ :: unit. 0) (\<lambda>_ _. None)" and ?R = "all_steps sample_libs (null_services True (\<lambda>_. None))"
  let ?B = "builtins_of ?H ?R MenuNumbers 64"
  obtain p where p: "parse sample_file = Inr p" "length (p_strings p) = 3" "length (p_globals p) = 4"
    "p_file_statements p = 1" "p_entity_fields p = 0"
    using sample_parse by fastforce
  obtain c where c: "build_core p (bind_number ?B) (bind_name ?B) std_default config_menu = Inr c"
    using sample_builds [of p "bind_number ?B" "bind_name ?B" std_default, OF p(2,3,5)] by blast
  then obtain v where v: "vm_new ?B std_default p config_menu = Inr v" "v_core v = c" by (auto simp: vm_new_def)
  have "hosted ?H ?R MenuNumbers 64 v" using p(1,4) v(1) by (intro hosted_new) simp_all
  from every_call_returns [OF this null_host_ok, of 1 "[]" "()"] show ?thesis
    using built_not_poisoned [OF c] v(2) by (auto simp del: calls.simps split: if_splits)
qed

section \<open>The containers share one account\<close>

definition container_builtins :: "builtin list" where
  "container_builtins = token_builtins @ buffer_builtins @ hash_builtins"

definition containers_inv :: "score \<Rightarrow> bool" where
  "containers_inv c \<longleftrightarrow> accounted c \<and> bufs_ok c \<and> tables_ok (ss_hash (c_std c))"

lemma bufs_ok_cong: "ss_bufs (c_std d) = ss_bufs (c_std c) \<Longrightarrow> bufs_ok d = bufs_ok c"
  using buf_at_cong [of d c] by (simp add: bufs_ok_def)

lemma container_builtins_keep:
  assumes "f \<in> set container_builtins" "containers_inv c"
  shows "containers_inv (fst (f c))"
proof -
  have inv: "buffers_inv c" "tables_inv c" "accounted c"
    using assms(2) by (simp_all add: containers_inv_def buffers_inv_def tables_inv_def)
  consider "f \<in> set token_builtins" | "f \<in> set buffer_builtins" | "f \<in> set hash_builtins"
    using assms(1) by (auto simp: container_builtins_def)
  then show ?thesis
  proof cases
    case 1
    with token_builtins_keep [OF this inv(3)] bufs_ok_cong [of "fst (f c)" c] assms(2) show ?thesis
      by (simp add: containers_inv_def keeping_def)
  next
    case 2
    with buffer_builtins_keep [OF this inv(1)] keepingD(2) [OF keeping_buffers [OF this, of c]] assms(2) show ?thesis
      by (simp add: containers_inv_def buffers_inv_def)
  next
    case 3
    with hash_builtins_keep [OF this inv(2)] keepingD(2) [OF keeping_hash [OF this, of c]] bufs_ok_cong [of "fst (f c)" c]
      assms(2) show ?thesis
      by (simp add: containers_inv_def tables_inv_def)
  qed
qed

text \<open>The builtins on buffers that ask the host for names or lines, and the one on tables that calls QuakeC.\<close>

lemma containers_cong: "c_std d = c_std c \<Longrightarrow> g_limits (c_config d) = g_limits (c_config c) \<Longrightarrow> containers_inv d = containers_inv c"
  using bufs_ok_cong [of d c] by (simp add: containers_inv_def accounted_def)

lemma containers_ret [simp]: "containers_inv (ret_word x c) = containers_inv c"
  by (rule containers_cong) (simp_all add: ret_word_def ret_raw_def on_mem_def)

lemma containers_by_buffers:
  assumes "containers_inv c" "buffers_inv c \<Longrightarrow> buffers_inv d" "keeping not_bufs c d"
  shows "containers_inv d"
  using assms keepingD(2) [OF assms(3)] by (simp add: containers_inv_def buffers_inv_def)

lemma store_lines_inv: "buffers_inv c \<Longrightarrow> buffers_inv (store_lines b limit lines c)"
proof (induction lines arbitrary: c)
  case (Cons line lines)
  have "buffers_inv d" if "store b i line c = (d, r)" for i d r
    using store_inv [OF Cons(2), of b i line] that by simp
  then show ?case
    using Cons by (auto simp: Let_def split: option.split prod.split bool.split)
qed simp

lemma buffer_hosts_keep:
  assumes "containers_inv (v_core v)"
  shows "buf_cvarlist S (v, h) = Some ((v', h'), r) \<Longrightarrow> containers_inv (v_core v')"
    and "buf_loadfile S (v, h) = Some ((v', h'), r) \<Longrightarrow> containers_inv (v_core v')"
proof -
  have rep: "containers_inv (fst (replace b (from_strings ss) c))" if "containers_inv c" for b ss c
    by (rule containers_by_buffers [OF that replace_inv keeping_store(2)]) simp_all
  show "buf_cvarlist S (v, h) = Some ((v', h'), r) \<Longrightarrow> containers_inv (v_core v')"
    using assms rep by (auto simp: buf_cvarlist_def and_then_def look_def give_def ask_def may_fail_def core_act_def Let_def
        split: option.splits prod.splits)
  have lines: "containers_inv (store_lines b limit ls c)" if "containers_inv c" for b limit ls c
    by (rule containers_by_buffers [OF that store_lines_inv keeping_store_lines])
  show "buf_loadfile S (v, h) = Some ((v', h'), r) \<Longrightarrow> containers_inv (v_core v')"
    using assms lines by (auto simp: buf_loadfile_def and_then_def look_def give_def ask_def change_def core_act_def
        split: option.splits prod.splits)
qed

lemma for_each_keeps:
  assumes "\<And>x v h v' h' r. m x (v, h) = Some ((v', h'), r) \<Longrightarrow> P (v_core v) \<Longrightarrow> P (v_core v')"
    and "for_each m xs (v, h) = Some ((v', h'), r)" "P (v_core v)"
  shows "P (v_core v')"
  using assms(2,3)
proof (induction xs arbitrary: v h)
  case (Cons x xs)
  obtain v2 h2 s where x: "m x (v, h) = Some ((v2, h2), s)" using Cons(2) by (auto simp: and_then_def split: option.splits)
  have "P (v_core v2)" using assms(1) [OF x Cons(3)] .
  then show ?case using Cons(1) [of v2 h2] Cons(2) x by (auto simp: and_then_def split: fate.splits)
qed simp

lemma hash_getcb_keeps:
  assumes "\<And>f as v h v' h' r. K f as (v, h) = Some ((v', h'), r) \<Longrightarrow> containers_inv (v_core v) \<Longrightarrow> containers_inv (v_core v')"
    and "hash_getcb K (v, h) = Some ((v', h'), r)" "containers_inv (v_core v)"
  shows "containers_inv (v_core v')"
proof -
  have tables: "containers_inv d" if "containers_inv c" "tables_inv d" "keeping not_tables c d" for c d
    using that keepingD(2) [OF that(3)] bufs_ok_cong [of d c] by (simp add: containers_inv_def tables_inv_def)
  have inv: "tables_inv c" if "containers_inv c" for c using that by (simp add: containers_inv_def tables_inv_def)
  obtain c x where a: "table_arg (v_core v) 0 = (c, x)" by fastforce
  have c: "containers_inv c"
    using tables [OF assms(3) _ keeping_table_arg [OF a]] table_arg_inv [OF inv [OF assms(3)] a] by blast
  show ?thesis
  proof (cases "\<exists>t. x = Inr (Some t)")
    case True
    then obtain t where x: "x = Inr (Some t)" by blast
    obtain d y where g: "get_table t c = (d, y)" by fastforce
    have d: "containers_inv d" using tables [OF c get_table_inv(1) [OF inv [OF c] g] keeping_get_table [OF g]] .
    show ?thesis
      using for_each_keeps [where P = containers_inv and v = "v\<lparr>v_core := d\<rparr>", OF assms(1)] assms(2) d
      by (auto simp: hash_getcb_def a x g Let_def)
  next
    case False
    then show ?thesis using assms(2) a c by (cases x) (auto simp: hash_getcb_def split: option.splits)
  qed
qed

text \<open>A history of container operations: the builtins, those that the host fills, the one that calls QuakeC for the entries
  of a table (whose calls are histories themselves), and in between anything that leaves the standard state and the limits
  alone.\<close>

inductive container_steps :: "(std_state, 'h) services \<Rightarrow> score \<Rightarrow> score \<Rightarrow> bool" for S where
  cs_none: "container_steps S c c"
| cs_builtin: "container_steps S c d \<Longrightarrow> f \<in> set container_builtins \<Longrightarrow> container_steps S c (fst (f d))"
| cs_cvarlist: "container_steps S c (v_core v) \<Longrightarrow> buf_cvarlist S (v, h) = Some ((v', h'), r) \<Longrightarrow> container_steps S c (v_core v')"
| cs_loadfile: "container_steps S c (v_core v) \<Longrightarrow> buf_loadfile S (v, h) = Some ((v', h'), r) \<Longrightarrow> container_steps S c (v_core v')"
| cs_callback: "container_steps S c (v_core v) \<Longrightarrow>
     (\<forall>f as v h v' h' r. K f as (v, h) = Some ((v', h'), r) \<longrightarrow> container_steps S (v_core v) (v_core v')) \<Longrightarrow>
     hash_getcb (K :: 'h caller) (v, h) = Some ((v', h'), r) \<Longrightarrow> container_steps S c (v_core v')"
| cs_elsewhere: "container_steps S c d \<Longrightarrow> c_std e = c_std d \<Longrightarrow> g_limits (c_config e) = g_limits (c_config d) \<Longrightarrow>
     container_steps S c e"

text \<open>C23: whatever token lists, string buffers and hash tables QuakeC makes, fills (from a file or the list of cvars as
  well), changes, walks and frees, in any order and with any arguments, with whatever happens in between that touches
  neither them nor the limits, the bytes charged are exactly what the three hold and never exceed the limit, every buffer's
  size is that of its slots and strings, and every table's size that of its buckets and entries, each in the bucket of its
  key.\<close>

theorem containers_keep_accounts:
  assumes "container_steps S c d" "containers_inv c"
  shows "containers_inv d"
  using assms
proof (induction rule: container_steps.induct)
  case (cs_callback c v K h v' h' r)
  then show ?case using hash_getcb_keeps [of K v h v' h' r] by blast
next
  case (cs_elsewhere c d e)
  then show ?case using containers_cong [of e d] by blast
qed (blast intro: container_builtins_keep buffer_hosts_keep)+

theorem containers_keep_accounts_witness:
  "containers_inv (fst (hash_add (fst (bufstr_add (fst (tokenize sample_score))))))"
proof (rule containers_keep_accounts)
  let ?S = "null_services True (\<lambda>_ :: unit. None)"
  have "container_steps ?S sample_score (fst (tokenize sample_score))"
    by (rule cs_builtin [OF cs_none]) (simp add: container_builtins_def token_builtins_def)
  then have "container_steps ?S sample_score (fst (bufstr_add (fst (tokenize sample_score))))"
    by (rule cs_builtin) (simp add: container_builtins_def buffer_builtins_def)
  then show "container_steps ?S sample_score (fst (hash_add (fst (bufstr_add (fst (tokenize sample_score))))))"
    by (rule cs_builtin) (simp add: container_builtins_def hash_builtins_def)
  show "containers_inv sample_score"
    using sample_score_accounted
    by (simp add: containers_inv_def bufs_ok_def buf_at_def tables_ok_def sample_score_def std_default_def nth_opt_def)
qed

end
