(* ===== verification/Spec2Isabelle.thy ===== *)
theory Spec2Isabelle
  imports Memory Strings Progs Config VmCore Multiprogs Calls Interp Execution Resume WindowLoop Loader Build Builtins Stdlib
begin

text \<open>
  A verification library for qcvm, a virtual machine for QuakeC progs written in Rust (paths below are under \<open>src/\<close>).

  \<^bold>\<open>The program.\<close>  A host loads a \<open>progs.dat\<close> file into a \<open>Program\<close> (\<open>src/progs\<close>), builds a machine \<open>Vm\<close> from it
  (\<open>src/vm\<close>) with a registry of builtins (\<open>src/builtins\<close>, \<open>src/stdlib\<close>) and calls QuakeC functions.  The interpreter runs
  statements until it leaves with an \<open>Exit\<close>: a builtin to run, a state opcode, a trace line, a spent budget, a fault or a
  return.  The loop around it (\<open>execute_inner\<close>) serves the exit and goes on.  A builtin gets the machine and the host; it may
  call back into QuakeC, so machine and builtins are mutually recursive.

  \<^bold>\<open>Foundations.\<close>  \<open>Prelude\<close>: names of Rust's types, checked and saturating arithmetic, slices.  \<open>Bytes\<close>: \<open>src/bytes.rs\<close>.
  \<open>Ieee\<close>: \<open>f32\<close> and \<open>f64\<close> as bit patterns, computed exactly and rounded.  \<open>Numeric\<close>: \<open>src/vm/num.rs\<close>.  \<open>Btree\<close>: the ordered
  map, and tilings of an interval by blocks, which is what the heap's bookkeeping means.  \<open>TextNum\<close>, \<open>Libm\<close>: what the
  builtins use of the standard library's number formatting, and the parameters that stand for other crates.

  \<^bold>\<open>The machine's data.\<close>  \<open>Values\<close> (\<open>src/value.rs\<close>, \<open>src/error.rs\<close>), \<open>Config\<close> (\<open>src/vm/config.rs\<close>), \<open>QcHeap\<close>
  (\<open>src/vm/heap.rs\<close>), \<open>Memory\<close> (\<open>src/vm/memory.rs\<close>), \<open>Strings\<close> (\<open>src/vm/strings.rs\<close>), \<open>Opcode\<close> (\<open>src/opcode.rs\<close>), \<open>Progs\<close>
  (\<open>src/progs/mod.rs\<close>), \<open>VmCore\<close> and \<open>Calls\<close> (\<open>src/vm/core.rs\<close>), \<open>Multiprogs\<close> (\<open>src/vm/multiprogs.rs\<close>).  Records have the
  fields of the structs, with a prefix; a function that takes \<open>&mut self\<close> returns the changed record.  Lemmas: each data
  structure has a well-formedness predicate kept by every operation, and a theorem over every history of operations (heap
  blocks, entities, the call stack).  \<open>heap_wf\<close> says that used and free blocks tile the heap.

  \<^bold>\<open>Loading and building.\<close>  \<open>Loader\<close> (\<open>src/progs/format.rs\<close>, \<open>load.rs\<close>) and \<open>Build\<close> (\<open>build_core\<close> in \<open>src/vm/mod.rs\<close>): any
  bytes that parse give a program whose operands, jumps and copies are in bounds, and any machine built from it meets
  \<open>core_wf\<close> and \<open>run_ready\<close>, the two conditions everything about the interpreter assumes.

  \<^bold>\<open>The interpreter.\<close>  \<open>Operands\<close>, \<open>DataOps\<close>, \<open>Interp\<close> (\<open>src/vm/interp.rs\<close>): one definition per section of the \<open>match\<close>, put
  together by \<open>step\<close>; \<open>inner\<close> and \<open>run\<close> are the two nested loops, partial functions whose \<open>None\<close> is running for ever.
  \<open>Execution\<close> shows that every statement keeps the core and that a run always ends.  \<open>Resume\<close> shows that a budget may be given
  in chunks.  \<open>WindowRun\<close> and \<open>WindowLoop\<close> show that the fast loop on masked addresses (\<open>run_window\<close>) does the same as the
  checked one.  \<open>Progress\<close>: what a run does to the frame stack.

  \<^bold>\<open>Calls from the host.\<close>  \<open>Vm\<close> (\<open>src/vm/mod.rs\<close>, \<open>src/host.rs\<close>): an action on machine and host, \<open>act\<close>, gives \<open>None\<close> if it
  never returns, and else \<open>Done\<close>, \<open>Failed\<close> or \<open>Panicked\<close> (a panic of the host).  \<open>Engine\<close> is the interface between the loop and
  the builtins: the locale \<open>engine\<close> assumes that each builtin \<open>obeys\<close> (returns, keeps the machine ready and the calls in
  progress as they are) and shows that calls do.

  \<^bold>\<open>Builtins.\<close>  \<open>Builtins\<close> and \<open>Numbers\<close> (\<open>src/builtins\<close>): the registry.  \<open>Std\<close> (\<open>src/stdlib/mod.rs\<close>, \<open>util.rs\<close>): the state the
  builtins share and its storage accounting, with the locale \<open>container\<close>, interpreted for token lists, hash tables and string
  buffers.  \<open>Tokenize\<close>, \<open>HashTab\<close>, \<open>StrBuf\<close>, \<open>Calendar\<close>, \<open>Charset\<close>, \<open>Format\<close>, \<open>Convert\<close>, \<open>Digest\<close>, \<open>Pointers\<close> (\<open>memory.rs\<close>),
  \<open>Introspect\<close> (also \<open>hostcalls.rs\<close>), \<open>Maths\<close> (\<open>math.rs\<close>) are the modules of \<open>src/stdlib\<close> of the same names; \<open>string.rs\<close> is
  \<open>Search\<close> (substring search), \<open>Markup\<close> (colours and links), \<open>InfoStr\<close> (info strings) and \<open>StrFns\<close> (the rest).  \<open>Loops\<close>
  lifts builtins whose loops are partial functions; \<open>Services\<close> is what builtins ask of the host.  \<open>Stdlib\<close> registers them,
  shows that each obeys, interprets \<open>engine\<close> on the machine of all standard builtins, and describes the machines a host can
  have (\<open>hosted\<close>: made from a file, then used through the methods of \<open>Vm\<close>) and what the host's own code has to keep to
  (\<open>host_ok\<close>).

  \<^bold>\<open>Bounds.\<close>  Recursion between calls and builtins is unrolled: \<open>calls n\<close> allows \<open>n\<close> nested calls; the machine itself refuses
  calls nested deeper than the limit \<open>l_reentry\<close>, so any \<open>n\<close> beyond it is enough.  Nothing else has fuel: the loops of the interpreter and of
  \<open>execute_inner\<close> are partial functions proved to end by the run budget, which every jump, call and builtin spends.

  \<^bold>\<open>Conventions.\<close>  \<open>usize\<close> is \<open>nat\<close>, fixed-width integers are words and wrap as in a release build, errors are sums or
  options, hash maps are maps.  Failures of the host's allocator (\<open>try_reserve\<close>) are not modelled.  Display texts and the
  text of trace lines are not modelled, except the messages that builtins pass on.

  \<^bold>\<open>Not modelled.\<close>  Builtins on entities, JSON, vectors, reflection, dates as text
  (\<open>strftime.rs\<close>), the clock and coroutines; loading a progs into a running machine (\<open>add_progs\<close>); automatic console variables and CSQC
  entity names, which call the host with what the modelled parts compute; the disassembler, which makes text for people; \<open>src/lib.rs\<close>,
  which only names modules.  The registry of the model therefore lacks these builtins: a call to one of them is a call to
  a builtin that is not bound.
\<close>

end
